(* ===== verification/Prelude.thy ===== *)
theory Prelude
  imports Complex_Main "HOL-Library.AList" "HOL-Library.Sublist"
begin

text \<open>
  Shared vocabulary of the layercache development.

  \<^item> JavaScript values: numbers are exact reals with the three special values of IEEE doubles
    kept as constructors (rounding is not modelled); \<open>undefined\<close> and \<open>null\<close> are distinct;
    an object is the list of its own enumerable properties in insertion order.
  \<^item> A JavaScript \<open>Map\<close> is an association list in insertion order: \<open>set\<close> on a present key keeps
    the position (\<open>AList.update\<close>), \<open>delete\<close> is \<open>AList.delete\<close>, \<open>keys().next()\<close> is the head.
    A JavaScript \<open>Set\<close> is a distinct list in insertion order.
  \<^item> \<open>number | undefined\<close> is \<open>real option\<close>; \<open>a ?? b\<close> is \<open>nullish a b\<close>.
  \<^item> A thrown error is the left side of a sum.
\<close>

named_theorems jsmap_simps "rewriting of JavaScript map and set operations"
named_theorems inv_intros "preservation of the component invariants"

subsection \<open>JavaScript values\<close>

datatype jsnum = Fin real | PosInf | NegInf | NaN

datatype js =
    JUndef
  | JNull
  | JBool bool
  | JNum jsnum
  | JStr string
  | JArr "js list"
  | JObj "(string \<times> js) list"

text \<open>Property read \<open>o.name\<close>: a missing property reads as \<open>undefined\<close>.\<close>

fun js_prop :: "js \<Rightarrow> string \<Rightarrow> js" where
  "js_prop (JObj ps) name = (case map_of ps name of None \<Rightarrow> JUndef | Some v \<Rightarrow> v)"
| "js_prop _ _ = JUndef"

fun is_object :: "js \<Rightarrow> bool" where
  \<comment> \<open>\<open>typeof v === 'object' && v !== null\<close>\<close>
  "is_object (JObj _) = True"
| "is_object (JArr _) = True"
| "is_object _ = False"

fun is_nullish :: "js \<Rightarrow> bool" where
  \<comment> \<open>\<open>v == null\<close>\<close>
  "is_nullish JUndef = True"
| "is_nullish JNull = True"
| "is_nullish _ = False"

fun js_nullish :: "js \<Rightarrow> js \<Rightarrow> js" where
  "js_nullish v d = (if is_nullish v then d else v)"

subsection \<open>Optional values\<close>

definition nullish :: "'a option \<Rightarrow> 'a \<Rightarrow> 'a" where
  "nullish a d = (case a of None \<Rightarrow> d | Some x \<Rightarrow> x)"

definition nullish_opt :: "'a option \<Rightarrow> 'a option \<Rightarrow> 'a option" where
  "nullish_opt a b = (case a of None \<Rightarrow> b | Some x \<Rightarrow> Some x)"

definition truthy :: "real option \<Rightarrow> bool" where
  \<comment> \<open>\<open>if (n)\<close> for \<open>number | undefined | null\<close>, the number finite\<close>
  "truthy a = (case a of None \<Rightarrow> False | Some x \<Rightarrow> x \<noteq> 0)"

lemma nullish_simps [simp]:
  "nullish None d = d" "nullish (Some x) d = x"
  "nullish_opt None b = b" "nullish_opt (Some x) b = Some x" "nullish_opt a None = a"
  by (simp_all add: nullish_def nullish_opt_def split: option.splits)

lemma truthy_simps [simp]: "truthy None = False" "truthy (Some x) = (x \<noteq> 0)"
  by (simp_all add: truthy_def)

subsection \<open>Rounding\<close>

definition math_ceil :: "real \<Rightarrow> real" where
  "math_ceil x = of_int \<lceil>x\<rceil>"

definition math_floor :: "real \<Rightarrow> real" where
  "math_floor x = of_int \<lfloor>x\<rfloor>"

definition math_round :: "real \<Rightarrow> real" where
  \<comment> \<open>\<open>Math.round\<close> rounds halves towards plus infinity\<close>
  "math_round x = of_int \<lfloor>x + 1 / 2\<rfloor>"

lemma math_ceil_ge: "x \<le> math_ceil x"
  by (simp add: math_ceil_def)

lemma math_ceil_less: "math_ceil x < x + 1"
  unfolding math_ceil_def by linarith

lemma math_round_bounds: "x - 1 / 2 < math_round x" "math_round x \<le> x + 1 / 2"
  unfolding math_round_def by linarith+

lemma math_ceil_int [simp]: "math_ceil (of_int n) = of_int n"
  by (simp add: math_ceil_def)

lemma math_ceil_mono: "x \<le> y \<Longrightarrow> math_ceil x \<le> math_ceil y"
  by (simp add: math_ceil_def ceiling_mono)

subsection \<open>JavaScript maps and sets\<close>

type_synonym ('k, 'v) jsmap = "('k \<times> 'v) list"

definition jsmap_ok :: "('k, 'v) jsmap \<Rightarrow> bool" where
  "jsmap_ok m = distinct (map fst m)"

definition js_add :: "'a \<Rightarrow> 'a list \<Rightarrow> 'a list" where
  "js_add x xs = (if x \<in> set xs then xs else xs @ [x])"

definition js_remove :: "'a \<Rightarrow> 'a list \<Rightarrow> 'a list" where
  "js_remove x xs = filter (\<lambda>y. y \<noteq> x) xs"

text \<open>\<open>[...new Set(xs)]\<close>: first occurrences in order.\<close>

fun js_unique_acc :: "'a list \<Rightarrow> 'a list \<Rightarrow> 'a list" where
  "js_unique_acc acc [] = acc"
| "js_unique_acc acc (x # xs) = js_unique_acc (js_add x acc) xs"

definition js_unique :: "'a list \<Rightarrow> 'a list" where
  "js_unique xs = js_unique_acc [] xs"

lemma map_of_update [jsmap_simps]:
  "map_of (AList.update k v m) k' = (if k' = k then Some v else map_of m k')"
  by (simp add: update_conv')

lemma map_of_delete [jsmap_simps]:
  "map_of (AList.delete k m) k' = (if k' = k then None else map_of m k')"
  by (simp add: delete_conv')

lemma jsmap_ok_update [inv_intros]: "jsmap_ok m \<Longrightarrow> jsmap_ok (AList.update k v m)"
  by (simp add: jsmap_ok_def distinct_update)

lemma jsmap_ok_delete [inv_intros]: "jsmap_ok m \<Longrightarrow> jsmap_ok (AList.delete k m)"
  by (simp add: jsmap_ok_def distinct_delete)

lemma jsmap_ok_Nil [simp]: "jsmap_ok []"
  by (simp add: jsmap_ok_def)

lemma jsmap_ok_Cons: "jsmap_ok ((k, v) # m) \<longleftrightarrow> k \<notin> fst ` set m \<and> jsmap_ok m"
  by (simp add: jsmap_ok_def)

lemma jsmap_ok_filter [inv_intros]: "jsmap_ok m \<Longrightarrow> jsmap_ok (filter P m)"
  by (simp add: jsmap_ok_def distinct_map_filter)

lemma jsmap_ok_drop [inv_intros]: "jsmap_ok m \<Longrightarrow> jsmap_ok (drop n m)"
  by (simp add: jsmap_ok_def drop_map [symmetric])

lemma map_of_drop: "jsmap_ok m \<Longrightarrow> map_of (drop n m) k = Some v \<Longrightarrow> map_of m k = Some v"
  unfolding jsmap_ok_def by (metis in_set_dropD map_of_SomeD map_of_is_SomeI distinct_map)

lemma delete_absent: "k \<notin> fst ` set m \<Longrightarrow> AList.delete k m = m"
  by (induction m) auto

lemma update_absent: "k \<notin> fst ` set m \<Longrightarrow> AList.update k v m = m @ [(k, v)]"
  by (induction m) auto

lemma dom_update [jsmap_simps]: "fst ` set (AList.update k v m) = insert k (fst ` set m)"
  by (induction m) auto

lemma dom_delete [jsmap_simps]: "fst ` set (AList.delete k m) = fst ` set m - {k}"
  by (induction m) auto

lemma length_update_absent: "k \<notin> fst ` set m \<Longrightarrow> length (AList.update k v m) = Suc (length m)"
  by (simp add: update_absent)

lemma length_update_present: "k \<in> fst ` set m \<Longrightarrow> length (AList.update k v m) = length m"
  by (induction m) auto

lemma length_update_le: "length (AList.update k v m) \<le> Suc (length m)"
  by (cases "k \<in> fst ` set m") (simp_all add: length_update_absent length_update_present)

lemma length_delete_present:
  "jsmap_ok m \<Longrightarrow> k \<in> fst ` set m \<Longrightarrow> Suc (length (AList.delete k m)) = length m"
proof (induction m)
  case (Cons p m)
  then show ?case
    by (cases p) (auto simp: jsmap_ok_Cons delete_absent)
qed simp

lemma length_delete_le: "length (AList.delete k m) \<le> length m"
  by (induction m) auto

lemma map_of_in_dom: "map_of m k = Some v \<Longrightarrow> k \<in> fst ` set m"
  by (metis map_of_eq_None_iff option.distinct(1))

lemma set_js_add [simp]: "set (js_add x xs) = insert x (set xs)"
  by (auto simp: js_add_def)

lemma set_js_remove [simp]: "set (js_remove x xs) = set xs - {x}"
  by (auto simp: js_remove_def)

lemma js_remove_absent: "x \<notin> set xs \<Longrightarrow> js_remove x xs = xs"
  by (induction xs) (auto simp: js_remove_def)

lemma distinct_js_add [inv_intros]: "distinct xs \<Longrightarrow> distinct (js_add x xs)"
  by (simp add: js_add_def)

lemma distinct_js_remove [inv_intros]: "distinct xs \<Longrightarrow> distinct (js_remove x xs)"
  by (simp add: js_remove_def)

lemma js_unique_acc_props:
  "distinct acc \<Longrightarrow> distinct (js_unique_acc acc xs) \<and> set (js_unique_acc acc xs) = set acc \<union> set xs"
  by (induction xs arbitrary: acc) (auto simp: distinct_js_add)

lemma distinct_js_unique [simp]: "distinct (js_unique xs)"
  by (simp add: js_unique_def js_unique_acc_props)

lemma set_js_unique [simp]: "set (js_unique xs) = set xs"
  by (simp add: js_unique_def js_unique_acc_props)

lemma js_unique_acc_distinct: "distinct (acc @ xs) \<Longrightarrow> js_unique_acc acc xs = acc @ xs"
  by (induction xs arbitrary: acc) (auto simp: js_add_def)

lemma js_unique_id: "distinct xs \<Longrightarrow> js_unique xs = xs"
  by (simp add: js_unique_def js_unique_acc_distinct)

subsection \<open>Deleting the oldest entries\<close>

text \<open>
  The loop \<open>for (i < n) { oldest = map.keys().next().value; if (oldest === undefined) break;
  map.delete(oldest) }\<close> that several bounded maps share.
\<close>

fun delete_oldest :: "nat \<Rightarrow> ('k, 'v) jsmap \<Rightarrow> ('k, 'v) jsmap" where
  "delete_oldest 0 m = m"
| "delete_oldest (Suc n) [] = []"
| "delete_oldest (Suc n) ((k, v) # m) = delete_oldest n (AList.delete k ((k, v) # m))"

lemma delete_oldest_drop: "jsmap_ok m \<Longrightarrow> delete_oldest n m = drop n m"
  by (induction n m rule: delete_oldest.induct) (auto simp: jsmap_ok_Cons delete_absent)

lemma jsmap_ok_delete_oldest [inv_intros]: "jsmap_ok m \<Longrightarrow> jsmap_ok (delete_oldest n m)"
  by (simp add: delete_oldest_drop jsmap_ok_drop)

text \<open>\<open>Math.ceil(n * 0.1)\<close> for a whole number of entries.\<close>

definition tenth_up :: "nat \<Rightarrow> nat" where
  "tenth_up n = (n + 9) div 10"

lemma tenth_up_pos: "0 < n \<Longrightarrow> 0 < tenth_up n"
  by (simp add: tenth_up_def div_greater_zero_iff)

lemma tenth_up_le: "tenth_up n \<le> n"
  by (simp add: tenth_up_def)

lemma tenth_up_ceiling: "int (tenth_up n) = \<lceil>real n * (1 / 10)\<rceil>"
proof -
  have "int (tenth_up n) = (int n + 9) div 10"
    by (simp add: tenth_up_def zdiv_int)
  also have "\<dots> = - ((- int n) div 10)" by presburger
  also have "\<dots> = \<lceil>real n / 10\<rceil>"
    by (simp add: ceiling_divide_eq_div [of "int n" 10, simplified])
  finally show ?thesis by simp
qed

subsection \<open>Thrown errors\<close>

text \<open>
  The errors the modelled code throws, one constructor per \<open>throw\<close>; string arguments are the
  interpolated names. \<open>BackendError\<close> is an error raised by a layer, a fetcher or another
  injected dependency.
\<close>

datatype error =
    MustBePositive string
  | MustBeNonNegative string
  | InvalidOption string
  | EmptyInput string
  | TooLong string nat
  | ControlCharacters string
  | SurrogateCodePoints string
  | TooManyTags nat
  | CircuitOpen string int
  | WriteSaturation string nat
  | WriteBehindLimit nat
  | FetchRateLimit string
  | InFlightLimit nat
  | TaskTimeout string
  | SingleFlightTimeout string
  | InvalidationLimit nat nat
  | AllLayersFailed string
  | CacheMiss string
  | Disconnecting string
  | TooManyNodes string nat
  | TooDeep string nat
  | ProtectionError string
  | BackendError string
  | OtherError string

type_synonym 'a result = "error + 'a"

definition bind_result :: "'a result \<Rightarrow> ('a \<Rightarrow> 'b result) \<Rightarrow> 'b result" where
  "bind_result r f = (case r of Inl e \<Rightarrow> Inl e | Inr x \<Rightarrow> f x)"

lemma bind_result_simps [simp]:
  "bind_result (Inl e) f = Inl e" "bind_result (Inr x) f = f x"
  by (simp_all add: bind_result_def)

lemma bind_result_Inr: "bind_result r f = Inr y \<longleftrightarrow> (\<exists>x. r = Inr x \<and> f x = Inr y)"
  by (cases r) auto

subsection \<open>Visitors\<close>

text \<open>A visitor callback is a transformer of the visitor's own state that may throw.\<close>

type_synonym 'w visitor = "string \<Rightarrow> 'w \<Rightarrow> unit result \<times> 'w"

fun visit_all :: "'w visitor \<Rightarrow> string list \<Rightarrow> 'w \<Rightarrow> unit result \<times> 'w" where
  \<comment> \<open>\<open>for (const key of keys) await visitor(key)\<close>\<close>
  "visit_all visitor [] w = (Inr (), w)"
| "visit_all visitor (k # ks) w =
    (case visitor k w of (Inl e, w') \<Rightarrow> (Inl e, w') | (Inr _, w') \<Rightarrow> visit_all visitor ks w')"

lemma visit_all_append:
  "visit_all visitor (xs @ ys) w =
     (case visit_all visitor xs w of (Inl e, w') \<Rightarrow> (Inl e, w') | (Inr _, w') \<Rightarrow> visit_all visitor ys w')"
  by (induction xs arbitrary: w) (auto split: sum.splits prod.splits)

subsection \<open>Stores that may forget\<close>

text \<open>
  The contract of a bounded store: every operation has an \<open>effect\<close> on the map of what was written,
  and the store never holds more than that effect leaves; it may hold less (eviction, expiry, pruning).
\<close>

locale forgetful_store =
  fixes step :: "'op \<Rightarrow> 's \<Rightarrow> 's"
    and holds :: "'s \<Rightarrow> 'k \<Rightarrow> 'v option"
    and effect :: "'op \<Rightarrow> ('k \<Rightarrow> 'v option) \<Rightarrow> 'k \<Rightarrow> 'v option"
    and ok :: "'s \<Rightarrow> bool"
  assumes ok_step: "ok s \<Longrightarrow> ok (step act s)"
    and step_effect: "ok s \<Longrightarrow> holds (step act s) \<subseteq>\<^sub>m effect act (holds s)"
    and effect_mono: "m \<subseteq>\<^sub>m m' \<Longrightarrow> effect act m \<subseteq>\<^sub>m effect act m'"
begin

lemma ok_run: "ok s \<Longrightarrow> ok (fold step acts s)"
  by (induction acts arbitrary: s) (auto simp: ok_step)

lemma run_effect: "ok s \<Longrightarrow> holds s \<subseteq>\<^sub>m m \<Longrightarrow> holds (fold step acts s) \<subseteq>\<^sub>m fold effect acts m"
proof (induction acts arbitrary: s m)
  case (Cons act acts)
  have "holds (step act s) \<subseteq>\<^sub>m effect act m"
    using step_effect [OF Cons(2)] effect_mono [OF Cons(3)] map_le_trans by blast
  then show ?case using Cons(1) [OF ok_step [OF Cons(2)]] by simp
qed simp

lemma held_was_written: "ok s \<Longrightarrow> holds s = Map.empty \<Longrightarrow> holds (fold step acts s) k = Some v \<Longrightarrow> fold effect acts Map.empty k = Some v"
  using run_effect [of s Map.empty acts] by (force simp: map_le_def)

end

end
