(* ===== verification/StoredValue.thy ===== *)
theory StoredValue
  imports Prelude
begin

text \<open>
  The stored-value envelope (\<open>src/src/internal/StoredValue.ts\<close>): what the stack writes into a
  layer, how a stored object is recognised as an envelope, and how an envelope resolves to fresh,
  stale or expired at a point in time. \<open>date_now\<close> is the \<open>Date.now()\<close> read by the recogniser,
  \<open>now\<close> the explicit \<open>now\<close> argument of the function; callers pass the same time for both.
\<close>

subsection \<open>Types\<close>

datatype env_kind = KValue | KEmpty

record stored_value_envelope =
  env_kind :: env_kind
  env_value :: js
  freshUntil :: "real option"
  staleUntil :: "real option"
  errorUntil :: "real option"
  freshTtlMs :: "real option"
  staleWhileRevalidateMs :: "real option"
  staleIfErrorMs :: "real option"

datatype stored_value_state = Fresh | StaleWhileRevalidate | StaleIfError | Expired

record resolved_stored_value =
  rsv_state :: stored_value_state
  rsv_value :: js
  rsv_stored :: js
  rsv_envelope :: "stored_value_envelope option"

subsection \<open>Reading and writing the object form\<close>

fun js_num :: "js \<Rightarrow> real option" where
  \<comment> \<open>a finite number, or \<open>null\<close> / \<open>undefined\<close> read as absent\<close>
  "js_num (JNum (Fin x)) = Some x"
| "js_num _ = None"

definition js_of_num :: "real option \<Rightarrow> js" where
  "js_of_num a = (case a of None \<Rightarrow> JNull | Some x \<Rightarrow> JNum (Fin x))"

definition js_of_kind :: "env_kind \<Rightarrow> js" where
  "js_of_kind k = JStr (case k of KValue \<Rightarrow> ''value'' | KEmpty \<Rightarrow> ''empty'')"

definition js_of_envelope :: "stored_value_envelope \<Rightarrow> js" where
  "js_of_envelope e = JObj
     [(''__layercache'', JNum (Fin 1)),
      (''kind'', js_of_kind (env_kind e)),
      (''value'', env_value e),
      (''freshUntil'', js_of_num (freshUntil e)),
      (''staleUntil'', js_of_num (staleUntil e)),
      (''errorUntil'', js_of_num (errorUntil e)),
      (''freshTtlMs'', js_of_num (freshTtlMs e)),
      (''staleWhileRevalidateMs'', js_of_num (staleWhileRevalidateMs e)),
      (''staleIfErrorMs'', js_of_num (staleIfErrorMs e))]"

definition envelope_of :: "js \<Rightarrow> stored_value_envelope" where
  \<comment> \<open>the fields a recognised envelope is read through\<close>
  "envelope_of v = \<lparr>
     env_kind = (if js_prop v ''kind'' = JStr ''empty'' then KEmpty else KValue),
     env_value = js_prop v ''value'',
     freshUntil = js_num (js_prop v ''freshUntil''),
     staleUntil = js_num (js_prop v ''staleUntil''),
     errorUntil = js_num (js_prop v ''errorUntil''),
     freshTtlMs = js_num (js_prop v ''freshTtlMs''),
     staleWhileRevalidateMs = js_num (js_prop v ''staleWhileRevalidateMs''),
     staleIfErrorMs = js_num (js_prop v ''staleIfErrorMs'')\<rparr>"

subsection \<open>Recognition\<close>

definition ten_years_ms :: real where
  "ten_years_ms = 10 * 365 * 24 * 60 * 60 * 1000"

fun null_or_finite :: "js \<Rightarrow> bool" where
  \<comment> \<open>not \<open>v !== null && (!Number.isFinite(v) || typeof v !== 'number')\<close>\<close>
  "null_or_finite JNull = True"
| "null_or_finite (JNum (Fin _)) = True"
| "null_or_finite _ = False"

fun num_exceeds :: "js \<Rightarrow> real \<Rightarrow> bool" where
  \<comment> \<open>\<open>typeof v === 'number' && v > m\<close>\<close>
  "num_exceeds (JNum (Fin x)) m = (x > m)"
| "num_exceeds (JNum PosInf) m = True"
| "num_exceeds _ m = False"

fun num_below :: "js \<Rightarrow> js \<Rightarrow> bool" where
  \<comment> \<open>\<open>typeof b === 'number' && typeof a === 'number' && a < b\<close>, the infinities excluded before\<close>
  "num_below (JNum (Fin a)) (JNum (Fin b)) = (a < b)"
| "num_below _ _ = False"

fun isValidEnvelopeTtlMs :: "js \<Rightarrow> real \<Rightarrow> bool" where
  "isValidEnvelopeTtlMs JUndef m = True"
| "isValidEnvelopeTtlMs JNull m = True"
| "isValidEnvelopeTtlMs (JNum (Fin x)) m = (x > 0 \<and> x \<le> m)"
| "isValidEnvelopeTtlMs _ m = False"

definition isStoredValueEnvelope :: "real \<Rightarrow> js \<Rightarrow> bool" where
  "isStoredValueEnvelope date_now v =
    (if \<not> is_object v then False
     else if js_prop v ''__layercache'' \<noteq> JNum (Fin 1) then False
     else if js_prop v ''kind'' \<noteq> JStr ''value'' \<and> js_prop v ''kind'' \<noteq> JStr ''empty'' then False
     else if \<not> null_or_finite (js_prop v ''freshUntil'') then False
     else if \<not> null_or_finite (js_prop v ''staleUntil'') then False
     else if \<not> null_or_finite (js_prop v ''errorUntil'') then False
     else let maxTimestamp = date_now + ten_years_ms in
       if num_exceeds (js_prop v ''freshUntil'') maxTimestamp then False
       else if num_exceeds (js_prop v ''staleUntil'') maxTimestamp then False
       else if num_exceeds (js_prop v ''errorUntil'') maxTimestamp then False
       else if js_prop v ''freshUntil'' = JNull
         \<and> (js_prop v ''staleUntil'' \<noteq> JNull \<or> js_prop v ''errorUntil'' \<noteq> JNull) then False
       else if num_below (js_prop v ''staleUntil'') (js_prop v ''freshUntil'') then False
       else if num_below (js_prop v ''errorUntil'') (js_prop v ''freshUntil'') then False
       else if \<not> isValidEnvelopeTtlMs (js_prop v ''freshTtlMs'') ten_years_ms then False
       else if \<not> isValidEnvelopeTtlMs (js_prop v ''staleWhileRevalidateMs'') ten_years_ms then False
       else if \<not> isValidEnvelopeTtlMs (js_prop v ''staleIfErrorMs'') ten_years_ms then False
       else if is_nullish (js_prop v ''freshTtlMs'')
         \<and> (\<not> is_nullish (js_prop v ''staleWhileRevalidateMs'')
            \<or> \<not> is_nullish (js_prop v ''staleIfErrorMs'')) then False
       else True)"

subsection \<open>Creation\<close>

definition normalizePositiveMs :: "real option \<Rightarrow> real option" where
  "normalizePositiveMs a = (case a of None \<Rightarrow> None | Some x \<Rightarrow> if x = 0 \<or> x \<le> 0 then None else Some x)"

definition createStoredValueEnvelope ::
    "env_kind \<Rightarrow> js \<Rightarrow> real option \<Rightarrow> real option \<Rightarrow> real option \<Rightarrow> real \<Rightarrow> stored_value_envelope" where
  "createStoredValueEnvelope kind v fresh swr sie now =
    (let freshTtl = normalizePositiveMs fresh;
         staleTtl = normalizePositiveMs swr;
         errorTtl = normalizePositiveMs sie;
         freshU = (if truthy freshTtl then Some (now + the freshTtl) else None);
         staleU = (if truthy freshU \<and> truthy staleTtl then Some (the freshU + the staleTtl) else None);
         errorU = (if truthy freshU \<and> truthy errorTtl then Some (the freshU + the errorTtl) else None)
     in \<lparr>env_kind = kind, env_value = v, freshUntil = freshU, staleUntil = staleU, errorUntil = errorU,
         freshTtlMs = freshTtl, staleWhileRevalidateMs = staleTtl, staleIfErrorMs = errorTtl\<rparr>)"

subsection \<open>Resolution\<close>

definition unwrapStoredValue :: "real \<Rightarrow> js \<Rightarrow> js" where
  "unwrapStoredValue date_now stored =
    (if \<not> isStoredValueEnvelope date_now stored then stored
     else if env_kind (envelope_of stored) = KEmpty then JNull
     else js_nullish (env_value (envelope_of stored)) JNull)"

definition after :: "real option \<Rightarrow> real \<Rightarrow> bool" where
  \<comment> \<open>\<open>deadline !== null && deadline > now\<close>\<close>
  "after deadline now = (case deadline of None \<Rightarrow> False | Some d \<Rightarrow> d > now)"

definition resolveStoredValue :: "real \<Rightarrow> js \<Rightarrow> real \<Rightarrow> resolved_stored_value" where
  "resolveStoredValue date_now stored now =
    (if \<not> isStoredValueEnvelope date_now stored
     then \<lparr>rsv_state = Fresh, rsv_value = stored, rsv_stored = stored, rsv_envelope = None\<rparr>
     else let e = envelope_of stored; v = unwrapStoredValue date_now stored in
       if freshUntil e = None \<or> after (freshUntil e) now
       then \<lparr>rsv_state = Fresh, rsv_value = v, rsv_stored = stored, rsv_envelope = Some e\<rparr>
       else if after (staleUntil e) now
       then \<lparr>rsv_state = StaleWhileRevalidate, rsv_value = v, rsv_stored = stored, rsv_envelope = Some e\<rparr>
       else if after (errorUntil e) now
       then \<lparr>rsv_state = StaleIfError, rsv_value = v, rsv_stored = stored, rsv_envelope = Some e\<rparr>
       else \<lparr>rsv_state = Expired, rsv_value = JNull, rsv_stored = stored, rsv_envelope = Some e\<rparr>)"

subsection \<open>Remaining life time\<close>

definition present :: "real option list \<Rightarrow> real list" where
  \<comment> \<open>\<open>.filter((value): value is number => value !== null)\<close>\<close>
  "present xs = List.map_filter id xs"

definition maxExpiry :: "stored_value_envelope \<Rightarrow> real option" where
  "maxExpiry e = (case present [freshUntil e, staleUntil e, errorUntil e] of
      [] \<Rightarrow> None
    | x # xs \<Rightarrow> Some (fold max xs x))"

definition remainingStoredTtlMs :: "real \<Rightarrow> js \<Rightarrow> real \<Rightarrow> real option" where
  "remainingStoredTtlMs date_now stored now =
    (if \<not> isStoredValueEnvelope date_now stored then None
     else case maxExpiry (envelope_of stored) of
       None \<Rightarrow> None
     | Some expiry \<Rightarrow> (let remainingMs = expiry - now in
         if remainingMs \<le> 0 then Some 1 else Some (max 1 (math_ceil remainingMs))))"

definition remainingFreshTtlMs :: "real \<Rightarrow> js \<Rightarrow> real \<Rightarrow> real option" where
  "remainingFreshTtlMs date_now stored now =
    (if \<not> isStoredValueEnvelope date_now stored then None
     else case freshUntil (envelope_of stored) of
       None \<Rightarrow> None
     | Some f \<Rightarrow> (let remainingMs = f - now in
         if remainingMs \<le> 0 then Some 0 else Some (max 1 (math_ceil remainingMs))))"

subsection \<open>Sliding and expiring\<close>

definition refreshStoredEnvelope :: "real \<Rightarrow> js \<Rightarrow> real \<Rightarrow> js" where
  "refreshStoredEnvelope date_now stored now =
    (if \<not> isStoredValueEnvelope date_now stored then stored
     else let e = envelope_of stored in
       js_of_envelope (createStoredValueEnvelope (env_kind e) (env_value e)
         (freshTtlMs e) (staleWhileRevalidateMs e) (staleIfErrorMs e) now))"

fun js_put :: "js \<Rightarrow> string \<Rightarrow> js \<Rightarrow> js" where
  \<comment> \<open>\<open>{ ...o, name: v }\<close>\<close>
  "js_put (JObj ps) name v = JObj (AList.update name v ps)"
| "js_put _ name v = JObj [(name, v)]"

definition expireStoredEnvelope :: "real \<Rightarrow> js \<Rightarrow> real \<Rightarrow> js" where
  "expireStoredEnvelope date_now stored now =
    (if \<not> isStoredValueEnvelope date_now stored then stored
     else let e = envelope_of stored;
              futureDeadlines = present [staleUntil e, errorUntil e];
              freshU = (if length futureDeadlines > 0 then fold min futureDeadlines now else now)
       in js_put stored ''freshUntil'' (JNum (Fin freshU)))"


subsection \<open>Lemmas\<close>

lemma js_num_of_num [simp]: "js_num (js_of_num a) = a"
  by (cases a) (simp_all add: js_of_num_def)

lemma js_of_num_eq_null [simp]: "js_of_num a = JNull \<longleftrightarrow> a = None"
  by (cases a) (simp_all add: js_of_num_def)

lemma null_or_finite_of_num [simp]: "null_or_finite (js_of_num a)"
  by (cases a) (simp_all add: js_of_num_def)

lemma is_nullish_of_num [simp]: "is_nullish (js_of_num a) \<longleftrightarrow> a = None"
  by (cases a) (simp_all add: js_of_num_def)

lemma num_exceeds_of_num [simp]:
  "num_exceeds (js_of_num a) m \<longleftrightarrow> (case a of None \<Rightarrow> False | Some x \<Rightarrow> x > m)"
  by (cases a) (simp_all add: js_of_num_def)

lemma num_below_of_num [simp]:
  "num_below (js_of_num a) (js_of_num b) \<longleftrightarrow> (case (a, b) of (Some x, Some y) \<Rightarrow> x < y | _ \<Rightarrow> False)"
  by (cases a; cases b) (simp_all add: js_of_num_def)

lemma isValidEnvelopeTtlMs_of_num [simp]:
  "isValidEnvelopeTtlMs (js_of_num a) m \<longleftrightarrow> (case a of None \<Rightarrow> True | Some x \<Rightarrow> 0 < x \<and> x \<le> m)"
  by (cases a) (simp_all add: js_of_num_def)

lemma js_of_kind_eq [simp]:
  "js_of_kind k = JStr ''value'' \<longleftrightarrow> k = KValue" "js_of_kind k = JStr ''empty'' \<longleftrightarrow> k = KEmpty"
  by (cases k; simp add: js_of_kind_def)+

lemma js_prop_envelope [simp]:
  "js_prop (js_of_envelope e) ''__layercache'' = JNum (Fin 1)"
  "js_prop (js_of_envelope e) ''kind'' = js_of_kind (env_kind e)"
  "js_prop (js_of_envelope e) ''value'' = env_value e"
  "js_prop (js_of_envelope e) ''freshUntil'' = js_of_num (freshUntil e)"
  "js_prop (js_of_envelope e) ''staleUntil'' = js_of_num (staleUntil e)"
  "js_prop (js_of_envelope e) ''errorUntil'' = js_of_num (errorUntil e)"
  "js_prop (js_of_envelope e) ''freshTtlMs'' = js_of_num (freshTtlMs e)"
  "js_prop (js_of_envelope e) ''staleWhileRevalidateMs'' = js_of_num (staleWhileRevalidateMs e)"
  "js_prop (js_of_envelope e) ''staleIfErrorMs'' = js_of_num (staleIfErrorMs e)"
  by (simp_all add: js_of_envelope_def)

lemma envelope_of_js_of_envelope [simp]: "envelope_of (js_of_envelope e) = e"
  by (cases "env_kind e") (simp_all add: envelope_of_def js_of_kind_def)

lemma is_object_envelope [simp]: "is_object (js_of_envelope e)"
  by (simp add: js_of_envelope_def)

text \<open>When the object form of an envelope record is recognised as an envelope.\<close>

definition ttl_ok :: "real option \<Rightarrow> bool" where
  "ttl_ok a = (case a of None \<Rightarrow> True | Some x \<Rightarrow> 0 < x \<and> x \<le> ten_years_ms)"

definition deadline_ok :: "real \<Rightarrow> real option \<Rightarrow> real option \<Rightarrow> bool" where
  "deadline_ok m f d =
    (case d of None \<Rightarrow> True | Some x \<Rightarrow> x \<le> m \<and> (case f of None \<Rightarrow> False | Some y \<Rightarrow> y \<le> x))"

definition envelope_ok :: "real \<Rightarrow> stored_value_envelope \<Rightarrow> bool" where
  "envelope_ok date_now e \<longleftrightarrow>
     (case freshUntil e of None \<Rightarrow> True | Some f \<Rightarrow> f \<le> date_now + ten_years_ms) \<and>
     deadline_ok (date_now + ten_years_ms) (freshUntil e) (staleUntil e) \<and>
     deadline_ok (date_now + ten_years_ms) (freshUntil e) (errorUntil e) \<and>
     ttl_ok (freshTtlMs e) \<and> ttl_ok (staleWhileRevalidateMs e) \<and> ttl_ok (staleIfErrorMs e) \<and>
     (freshTtlMs e = None \<longrightarrow> staleWhileRevalidateMs e = None \<and> staleIfErrorMs e = None)"

lemma isStoredValueEnvelope_js_of_envelope [simp]:
  "isStoredValueEnvelope date_now (js_of_envelope e) \<longleftrightarrow> envelope_ok date_now e"
proof -
  have k: "js_of_kind (env_kind e) = JStr ''value'' \<or> js_of_kind (env_kind e) = JStr ''empty''"
    by (cases "env_kind e") (simp_all add: js_of_kind_def)
  show ?thesis
    using k unfolding isStoredValueEnvelope_def envelope_ok_def deadline_ok_def ttl_ok_def Let_def
    by (cases "freshUntil e"; cases "staleUntil e"; cases "errorUntil e")
       (auto split: option.splits)
qed

lemma normalizePositiveMs_pos [simp]: "0 < x \<Longrightarrow> normalizePositiveMs (Some x) = Some x"
  by (simp add: normalizePositiveMs_def)

lemma normalizePositiveMs_None [simp]: "normalizePositiveMs None = None"
  by (simp add: normalizePositiveMs_def)

lemma normalizePositiveMs_cases:
  "normalizePositiveMs a = None \<or> (\<exists>x > 0. a = Some x \<and> normalizePositiveMs a = Some x)"
  by (cases a) (auto simp: normalizePositiveMs_def)

lemma normalizePositiveMs_ge0: "normalizePositiveMs a = Some x \<Longrightarrow> 0 < x"
  by (auto simp: normalizePositiveMs_def split: option.splits if_splits)

lemma env_fields_create [simp]:
  "env_kind (createStoredValueEnvelope k v f s e now) = k"
  "env_value (createStoredValueEnvelope k v f s e now) = v"
  "freshTtlMs (createStoredValueEnvelope k v f s e now) = normalizePositiveMs f"
  "staleWhileRevalidateMs (createStoredValueEnvelope k v f s e now) = normalizePositiveMs s"
  "staleIfErrorMs (createStoredValueEnvelope k v f s e now) = normalizePositiveMs e"
  by (simp_all add: createStoredValueEnvelope_def Let_def)

definition window :: "real option \<Rightarrow> real" where
  "window a = nullish (normalizePositiveMs a) 0"

lemma window_ge0 [simp]: "0 \<le> window a"
  using normalizePositiveMs_cases [of a] by (auto simp: window_def)

lemma create_deadlines:
  assumes "0 < f" "0 \<le> now"
  shows "freshUntil (createStoredValueEnvelope k v (Some f) s e now) = Some (now + f)"
    and "staleUntil (createStoredValueEnvelope k v (Some f) s e now) = map_option (\<lambda>x. now + f + x) (normalizePositiveMs s)"
    and "errorUntil (createStoredValueEnvelope k v (Some f) s e now) = map_option (\<lambda>x. now + f + x) (normalizePositiveMs e)"
  using assms normalizePositiveMs_cases [of s] normalizePositiveMs_cases [of e]
  by (auto simp: createStoredValueEnvelope_def Let_def)

lemma create_ok:
  assumes "0 < f" "0 \<le> now" "f + window s \<le> ten_years_ms" "f + window e \<le> ten_years_ms" "now \<le> t"
  shows "envelope_ok t (createStoredValueEnvelope k v (Some f) s e now)"
  using assms normalizePositiveMs_cases [of s] normalizePositiveMs_cases [of e]
  by (auto simp: envelope_ok_def deadline_ok_def ttl_ok_def create_deadlines window_def
      dest: normalizePositiveMs_ge0)

lemma create_no_ttl:
  assumes "normalizePositiveMs f = None"
  shows "freshUntil (createStoredValueEnvelope k v f s e now) = None"
    and "staleUntil (createStoredValueEnvelope k v f s e now) = None"
    and "errorUntil (createStoredValueEnvelope k v f s e now) = None"
  using assms by (simp_all add: createStoredValueEnvelope_def Let_def)

definition stored_view :: "env_kind \<Rightarrow> js \<Rightarrow> js" where
  \<comment> \<open>what a reader gets for a kind and a stored value\<close>
  "stored_view k v = (if k = KEmpty \<or> is_nullish v then JNull else v)"

lemma unwrap_js_of_envelope:
  "envelope_ok t e \<Longrightarrow> unwrapStoredValue t (js_of_envelope e) = stored_view (env_kind e) (env_value e)"
  by (simp add: unwrapStoredValue_def stored_view_def)

lemma after_simps [simp]: "\<not> after None t" "after (Some d) t \<longleftrightarrow> t < d"
  by (simp_all add: after_def)

lemma resolve_js_of_envelope:
  assumes "envelope_ok t e"
  shows "resolveStoredValue t (js_of_envelope e) t =
    (let st = (if freshUntil e = None \<or> after (freshUntil e) t then Fresh
               else if after (staleUntil e) t then StaleWhileRevalidate
               else if after (errorUntil e) t then StaleIfError else Expired)
     in \<lparr>rsv_state = st,
        rsv_value = (if st = Expired then JNull else stored_view (env_kind e) (env_value e)),
        rsv_stored = js_of_envelope e, rsv_envelope = Some e\<rparr>)"
  using assms by (simp add: resolveStoredValue_def unwrap_js_of_envelope Let_def)

text \<open>
  C14: the life of an entry. An envelope created at \<open>now\<close> with a positive fresh TTL (and at most
  ten years of life) reads, at every later time \<open>t\<close>, as fresh before \<open>now + f\<close>, then as
  stale-while-revalidate for the revalidate window, then as stale-if-error for the error window
  (both windows start at the fresh deadline), and as expired afterwards; the value read is the
  stored one (\<open>null\<close> for an empty entry) and \<open>null\<close> once expired.
\<close>

theorem envelope_timeline:
  assumes "0 < f" "0 \<le> now" "now \<le> t"
    and "f + window swr \<le> ten_years_ms" "f + window sie \<le> ten_years_ms"
  shows "resolveStoredValue t (js_of_envelope (createStoredValueEnvelope k v (Some f) swr sie now)) t =
    (let e = createStoredValueEnvelope k v (Some f) swr sie now;
         st = (if t < now + f then Fresh
               else if t < now + f + window swr then StaleWhileRevalidate
               else if t < now + f + window sie then StaleIfError
               else Expired)
     in \<lparr>rsv_state = st,
        rsv_value = (if st = Expired \<or> k = KEmpty \<or> is_nullish v then JNull else v),
        rsv_stored = js_of_envelope e, rsv_envelope = Some e\<rparr>)"
proof -
  let ?e = "createStoredValueEnvelope k v (Some f) swr sie now"
  have ok: "envelope_ok t ?e"
    using assms by (intro create_ok) auto
  have st: "after (staleUntil ?e) t \<longleftrightarrow> t < now + f + window swr" if "\<not> t < now + f"
    using assms that normalizePositiveMs_cases [of swr] by (auto simp: create_deadlines window_def)
  have er: "after (errorUntil ?e) t \<longleftrightarrow> t < now + f + window sie" if "\<not> t < now + f"
    using assms that normalizePositiveMs_cases [of sie] by (auto simp: create_deadlines window_def)
  show ?thesis
    using assms st er unfolding resolve_js_of_envelope [OF ok]
    by (auto simp: create_deadlines stored_view_def Let_def)
qed

theorem envelope_timeline_witness:
  "rsv_state (resolveStoredValue 1500 (js_of_envelope
     (createStoredValueEnvelope KValue (JStr ''v'') (Some 100) (Some 500) (Some 1000) 1000)) 1500)
   = StaleWhileRevalidate"
  using envelope_timeline [of 100 1000 1500 "Some 500" "Some 1000" KValue "JStr ''v''"]
  by (simp add: window_def ten_years_ms_def Let_def)

text \<open>
  Stale windows without a fresh TTL break the round trip. When an entry is created with a
  revalidate or error window but no positive fresh TTL, the recogniser rejects the very object the
  creator returns, so reading it yields the whole envelope object, marked fresh, in place of the
  stored value, at every time.
\<close>

theorem stale_window_without_ttl_leaks_envelope:
  assumes "window f = 0" and "0 < window swr \<or> 0 < window sie"
  shows "resolveStoredValue t (js_of_envelope (createStoredValueEnvelope k v f swr sie now)) t' =
    \<lparr>rsv_state = Fresh, rsv_value = js_of_envelope (createStoredValueEnvelope k v f swr sie now),
     rsv_stored = js_of_envelope (createStoredValueEnvelope k v f swr sie now), rsv_envelope = None\<rparr>"
proof -
  have f: "normalizePositiveMs f = None"
    using assms(1) normalizePositiveMs_cases [of f] by (auto simp: window_def)
  have "normalizePositiveMs swr \<noteq> None \<or> normalizePositiveMs sie \<noteq> None"
    using assms(2) by (auto simp: window_def)
  then show ?thesis
    using f by (auto simp: resolveStoredValue_def envelope_ok_def)
qed

theorem stale_window_without_ttl_leaks_envelope_witness:
  "rsv_value (resolveStoredValue 1000 (js_of_envelope
     (createStoredValueEnvelope KValue (JStr ''v'') None (Some 500) None 1000)) 1000) \<noteq> JStr ''v''"
  using stale_window_without_ttl_leaks_envelope [of None "Some 500" None 1000 KValue "JStr ''v''" 1000 1000]
  by (simp add: window_def js_of_envelope_def)

subsection \<open>Recognised objects in general\<close>

lemma null_or_finite_cases: "null_or_finite v \<longleftrightarrow> v = js_of_num (js_num v)"
  by (cases v rule: null_or_finite.cases) (auto simp: js_of_num_def)

lemma isValidEnvelopeTtlMs_cases:
  "isValidEnvelopeTtlMs v m \<longleftrightarrow>
     (is_nullish v \<and> js_num v = None) \<or> (\<exists>x. v = JNum (Fin x) \<and> 0 < x \<and> x \<le> m)"
  by (cases "(v, m)" rule: isValidEnvelopeTtlMs.cases) auto

lemma guard_false: "(if c then False else b) \<longleftrightarrow> \<not> c \<and> b"
  by simp

lemmas recognised_iff =
  isStoredValueEnvelope_def [unfolded Let_def guard_false not_not de_Morgan_conj de_Morgan_disj not_not]

lemma js_of_kind_of: "w = JStr ''value'' \<or> w = JStr ''empty'' \<Longrightarrow> js_of_kind (if w = JStr ''empty'' then KEmpty else KValue) = w"
  by (auto simp: js_of_kind_def)

lemma recognised_props:
  assumes "isStoredValueEnvelope d v"
  shows "js_prop v ''__layercache'' = JNum (Fin 1)"
    and "js_prop v ''kind'' = js_of_kind (env_kind (envelope_of v))"
    and "js_prop v ''freshUntil'' = js_of_num (freshUntil (envelope_of v))"
    and "js_prop v ''staleUntil'' = js_of_num (staleUntil (envelope_of v))"
    and "js_prop v ''errorUntil'' = js_of_num (errorUntil (envelope_of v))"
    and "isValidEnvelopeTtlMs (js_prop v ''freshTtlMs'') ten_years_ms"
    and "isValidEnvelopeTtlMs (js_prop v ''staleWhileRevalidateMs'') ten_years_ms"
    and "isValidEnvelopeTtlMs (js_prop v ''staleIfErrorMs'') ten_years_ms"
  using assms unfolding recognised_iff
  by (simp_all only: envelope_of_def stored_value_envelope.simps null_or_finite_cases [symmetric]
      js_of_kind_of simp_thms)

lemma recognised_obj: "isStoredValueEnvelope d v \<Longrightarrow> \<exists>ps. v = JObj ps"
  by (cases v) (auto simp: isStoredValueEnvelope_def)

lemma valid_ttl_nullish: "isValidEnvelopeTtlMs w m \<Longrightarrow> is_nullish w \<longleftrightarrow> js_num w = None"
  by (auto simp: isValidEnvelopeTtlMs_cases)

lemma valid_ttl_ok: "isValidEnvelopeTtlMs w ten_years_ms \<Longrightarrow> ttl_ok (js_num w)"
  by (auto simp: isValidEnvelopeTtlMs_cases ttl_ok_def)

lemma js_num_fields:
  "js_num (js_prop v ''freshTtlMs'') = freshTtlMs (envelope_of v)"
  "js_num (js_prop v ''staleWhileRevalidateMs'') = staleWhileRevalidateMs (envelope_of v)"
  "js_num (js_prop v ''staleIfErrorMs'') = staleIfErrorMs (envelope_of v)"
  by (simp_all add: envelope_of_def)

text \<open>Recognition is well-formedness of the fields that are read, plus the tags of the object.\<close>

definition tagged :: "js \<Rightarrow> bool" where
  "tagged v \<longleftrightarrow> is_object v \<and> js_prop v ''__layercache'' = JNum (Fin 1) \<and>
     js_prop v ''kind'' = js_of_kind (env_kind (envelope_of v)) \<and>
     js_prop v ''freshUntil'' = js_of_num (freshUntil (envelope_of v)) \<and>
     js_prop v ''staleUntil'' = js_of_num (staleUntil (envelope_of v)) \<and>
     js_prop v ''errorUntil'' = js_of_num (errorUntil (envelope_of v)) \<and>
     isValidEnvelopeTtlMs (js_prop v ''freshTtlMs'') ten_years_ms \<and>
     isValidEnvelopeTtlMs (js_prop v ''staleWhileRevalidateMs'') ten_years_ms \<and>
     isValidEnvelopeTtlMs (js_prop v ''staleIfErrorMs'') ten_years_ms"

lemma tagged_recognised:
  assumes "tagged v"
  shows "isStoredValueEnvelope d v \<longleftrightarrow> envelope_ok d (envelope_of v)"
proof -
  let ?e = "envelope_of v"
  note eqs = assms [unfolded tagged_def]
  have n: "is_nullish (js_prop v ''freshTtlMs'') \<longleftrightarrow> freshTtlMs ?e = None"
    "is_nullish (js_prop v ''staleWhileRevalidateMs'') \<longleftrightarrow> staleWhileRevalidateMs ?e = None"
    "is_nullish (js_prop v ''staleIfErrorMs'') \<longleftrightarrow> staleIfErrorMs ?e = None"
    using eqs valid_ttl_nullish js_num_fields [of v] by metis+
  have t: "ttl_ok (freshTtlMs ?e)" "ttl_ok (staleWhileRevalidateMs ?e)" "ttl_ok (staleIfErrorMs ?e)"
    using eqs valid_ttl_ok js_num_fields [of v] by metis+
  have "isStoredValueEnvelope d v \<longleftrightarrow> isStoredValueEnvelope d (js_of_envelope ?e)"
    unfolding recognised_iff
    by (simp only: eqs js_prop_envelope)
      (simp only: is_object_envelope n is_nullish_of_num isValidEnvelopeTtlMs_of_num ttl_ok_def [symmetric] t)
  then show ?thesis by simp
qed

lemma recognised_tagged: "isStoredValueEnvelope d v \<Longrightarrow> tagged v"
  using recognised_props [of d v] recognised_obj [of d v] unfolding tagged_def by auto

lemma recognised_ok: "isStoredValueEnvelope d v \<Longrightarrow> envelope_ok d (envelope_of v)"
  using tagged_recognised recognised_tagged by blast

lemma js_prop_put [simp]:
  "js_prop (js_put (JObj ps) n v) n' = (if n' = n then v else js_prop (JObj ps) n')"
  by (simp add: update_conv')

lemma envelope_ok_later: "envelope_ok d e \<Longrightarrow> d \<le> d' \<Longrightarrow> envelope_ok d' e"
  by (auto simp: envelope_ok_def deadline_ok_def split: option.splits)

lemma recognised_later: "isStoredValueEnvelope d v \<Longrightarrow> d \<le> d' \<Longrightarrow> isStoredValueEnvelope d' v"
  by (meson envelope_ok_later recognised_ok recognised_tagged tagged_recognised)

lemma min_future:
  "fold min (present [a, b]) n = (let m = (case a of None \<Rightarrow> n | Some x \<Rightarrow> min x n) in
     case b of None \<Rightarrow> m | Some y \<Rightarrow> min y m)"
  by (cases a; cases b) (simp_all add: present_def map_filter_simps)

lemma expire_form:
  assumes "isStoredValueEnvelope d v"
  shows "expireStoredEnvelope d v n = js_put v ''freshUntil''
     (JNum (Fin (fold min (present [staleUntil (envelope_of v), errorUntil (envelope_of v)]) n)))"
  using assms by (auto simp: expireStoredEnvelope_def Let_def)

lemma envelope_of_put_fresh:
  "envelope_of (js_put (JObj ps) ''freshUntil'' (JNum (Fin x)))
   = (envelope_of (JObj ps))\<lparr>freshUntil := Some x\<rparr>"
  by (simp add: envelope_of_def del: js_put.simps js_prop.simps)

lemma recognised_put_fresh:
  assumes "isStoredValueEnvelope d v"
    and "x \<le> d + ten_years_ms"
    and "\<And>s. staleUntil (envelope_of v) = Some s \<Longrightarrow> x \<le> s"
    and "\<And>s. errorUntil (envelope_of v) = Some s \<Longrightarrow> x \<le> s"
  shows "isStoredValueEnvelope d (js_put v ''freshUntil'' (JNum (Fin x)))"
proof -
  obtain ps where v: "v = JObj ps" using recognised_obj [OF assms(1)] by blast
  obtain w where w: "w = js_put v ''freshUntil'' (JNum (Fin x))" by blast
  have jp: "js_prop w n = (if n = ''freshUntil'' then JNum (Fin x) else js_prop v n)" for n
    unfolding w v js_prop_put ..
  have env: "envelope_of w = (envelope_of v)\<lparr>freshUntil := Some x\<rparr>"
    unfolding w v by (rule envelope_of_put_fresh)
  have o: "is_object w" unfolding w v by simp
  have f: "JNum (Fin x) = js_of_num (Some x)" by (simp add: js_of_num_def)
  have "tagged w"
    using recognised_tagged [OF assms(1)] by (simp add: tagged_def jp env f o)
  then have "isStoredValueEnvelope d w"
    using assms(2-) recognised_ok [OF assms(1)]
    by (auto simp: tagged_recognised env envelope_ok_def deadline_ok_def split: option.splits)
  then show ?thesis unfolding w .
qed

lemma resolve_recognised:
  assumes "isStoredValueEnvelope t v"
  shows "rsv_state (resolveStoredValue t v t) =
      (if freshUntil (envelope_of v) = None \<or> after (freshUntil (envelope_of v)) t then Fresh
       else if after (staleUntil (envelope_of v)) t then StaleWhileRevalidate
       else if after (errorUntil (envelope_of v)) t then StaleIfError else Expired)"
    and "rsv_value (resolveStoredValue t v t) =
      (if rsv_state (resolveStoredValue t v t) = Expired then JNull else unwrapStoredValue t v)"
  using assms by (auto simp: resolveStoredValue_def Let_def)

lemma unwrap_recognised:
  "isStoredValueEnvelope t v \<Longrightarrow>
     unwrapStoredValue t v = stored_view (env_kind (envelope_of v)) (env_value (envelope_of v))"
  by (simp add: unwrapStoredValue_def stored_view_def)

text \<open>
  Expiring keeps the stale windows. A recognised stored value expired at \<open>now\<close> is never read
  as fresh at \<open>now\<close> or later; it still serves the same value through what is left of its
  revalidate window and then of its error window, and is expired after them.
\<close>

theorem expire_keeps_stale_windows:
  assumes "isStoredValueEnvelope now v" and "now \<le> t"
  shows "let r = resolveStoredValue t (expireStoredEnvelope now v now) t; e = envelope_of v in
      rsv_state r = (if after (staleUntil e) t then StaleWhileRevalidate
                     else if after (errorUntil e) t then StaleIfError else Expired) \<and>
      rsv_value r = (if rsv_state r = Expired then JNull else unwrapStoredValue now v)"
proof -
  let ?e = "envelope_of v"
  define x where "x = fold min (present [staleUntil ?e, errorUntil ?e]) now"
  have x: "x \<le> now" "\<And>s. staleUntil ?e = Some s \<Longrightarrow> x \<le> s" "\<And>s. errorUntil ?e = Some s \<Longrightarrow> x \<le> s"
    by (auto simp: x_def min_future Let_def split: option.splits)
  obtain ps where v: "v = JObj ps" using recognised_obj [OF assms(1)] by blast
  have ex: "expireStoredEnvelope now v now = js_put v ''freshUntil'' (JNum (Fin x))"
    by (simp add: expire_form [OF assms(1)] x_def)
  have rec: "isStoredValueEnvelope t (js_put v ''freshUntil'' (JNum (Fin x)))"
    using recognised_later [OF assms] x assms(2)
    by (intro recognised_put_fresh) (auto simp: ten_years_ms_def)
  have env: "envelope_of (js_put v ''freshUntil'' (JNum (Fin x))) = ?e\<lparr>freshUntil := Some x\<rparr>"
    by (simp only: v envelope_of_put_fresh)
  have nf: "\<not> t < x" using x(1) assms(2) by linarith
  show ?thesis
    using nf resolve_recognised [OF rec] unwrap_recognised [OF rec] unwrap_recognised [OF assms(1)]
    by (simp add: ex env Let_def)
qed

theorem expire_keeps_stale_windows_witness:
  "let e = js_of_envelope (createStoredValueEnvelope KValue (JStr ''v'') (Some 100) (Some 500) None 1000) in
     rsv_state (resolveStoredValue 1050 (expireStoredEnvelope 1050 e 1050) 1050) = StaleWhileRevalidate"
  using expire_keeps_stale_windows [of 1050
      "js_of_envelope (createStoredValueEnvelope KValue (JStr ''v'') (Some 100) (Some 500) None 1000)" 1050]
  by (simp add: create_ok create_deadlines window_def ten_years_ms_def Let_def)

text \<open>
  The storage TTL covers every window. If the remaining storage TTL computed at \<open>now\<close> for a
  recognised stored value is \<open>r\<close>, then \<open>r\<close> is at least one millisecond, and at any later time at
  which the value is not yet expired the entry is still inside \<open>now + r\<close>: a layer that drops it
  after \<open>r\<close> never drops a servable value. No TTL is computed exactly for entries that never expire.
\<close>

lemma maxExpiry_upper:
  assumes "envelope_ok d e" "maxExpiry e = Some m"
  shows "freshUntil e \<noteq> None" "after (freshUntil e) t \<or> after (staleUntil e) t \<or> after (errorUntil e) t \<longleftrightarrow> t < m"
  using assms
  by (cases "freshUntil e"; cases "staleUntil e"; cases "errorUntil e";
      auto simp: maxExpiry_def present_def map_filter_simps envelope_ok_def deadline_ok_def)+

lemma maxExpiry_None: "envelope_ok d e \<Longrightarrow> maxExpiry e = None \<longleftrightarrow> freshUntil e = None"
  by (cases "freshUntil e"; cases "staleUntil e"; cases "errorUntil e")
     (auto simp: maxExpiry_def present_def map_filter_simps envelope_ok_def deadline_ok_def)

theorem storage_ttl_covers_windows:
  assumes "isStoredValueEnvelope now v"
  shows "case remainingStoredTtlMs now v now of
      None \<Rightarrow> (\<forall>t \<ge> now. rsv_state (resolveStoredValue t v t) = Fresh)
    | Some r \<Rightarrow> 1 \<le> r \<and> (\<forall>t \<ge> now. rsv_state (resolveStoredValue t v t) \<noteq> Expired \<longrightarrow> t < now + r)"
proof (cases "maxExpiry (envelope_of v)")
  case None
  then show ?thesis
    using assms maxExpiry_None [OF recognised_ok [OF assms]]
    by (simp add: remainingStoredTtlMs_def resolve_recognised recognised_later)
next
  case (Some m)
  have "t < m" if "now \<le> t" "rsv_state (resolveStoredValue t v t) \<noteq> Expired" for t
    using that maxExpiry_upper(1) [OF recognised_ok [OF assms] Some] maxExpiry_upper(2) [OF recognised_ok [OF assms] Some, of t]
      resolve_recognised(1) [OF recognised_later [OF assms that(1)]]
    by (auto split: if_splits)
  then show ?thesis
    using assms Some math_ceil_ge [of "m - now"]
    by (auto simp: remainingStoredTtlMs_def Let_def max_def) (smt (verit))+
qed

theorem storage_ttl_covers_windows_witness:
  "case remainingStoredTtlMs 1000 (js_of_envelope
       (createStoredValueEnvelope KValue JNull (Some 100) (Some 500) None 1000)) 1000 of
     None \<Rightarrow> False | Some r \<Rightarrow> 1 \<le> r"
  using storage_ttl_covers_windows [of 1000
      "js_of_envelope (createStoredValueEnvelope KValue JNull (Some 100) (Some 500) None 1000)"]
  by (auto simp: create_ok create_deadlines window_def ten_years_ms_def remainingStoredTtlMs_def
      maxExpiry_None [of 1000] Let_def split: option.splits)

end
