(* ===== verification/Types.thy ===== *)
theory Types
  imports Prelude
begin

text \<open>
  The option and result types of \<open>src/src/types.ts\<close>. An optional property is an \<open>option\<close>; an
  interface that extends another is a record extension; a union of literals is a datatype.
  A fetcher is a state transformer over the state \<open>'s\<close> of the stack that awaits it: while it runs,
  other operations may run on the stack, and time may pass.
\<close>

subsection \<open>Millisecond options\<close>

datatype layer_ms =
    LNum real                       \<comment> \<open>one value for every layer\<close>
  | LMap "(string \<times> real) list"     \<comment> \<open>\<open>LayerTtlMap\<close>: the defined entries, keyed by layer name\<close>

record adaptive_ttl_options =
  ad_hotAfter :: "real option"
  ad_step :: "layer_ms option"
  ad_maxTtl :: "layer_ms option"

datatype adaptive_ttl = AdBool bool | AdOptions adaptive_ttl_options

datatype ttl_policy =
    UntilMidnight
  | NextHour
  | AlignTo real
  | PolicyFn "string \<Rightarrow> js \<Rightarrow> real option"

subsection \<open>Component options\<close>

datatype breaker_scope = BKey | BShared

record circuit_breaker_options =
  cb_failureThreshold :: "real option"
  cb_cooldownMs :: "real option"
  cb_scope :: "breaker_scope option"
  cb_breakerKey :: "string option"

datatype degradation = DegBool bool | DegOptions "real option"   \<comment> \<open>\<open>retryAfterMs\<close>\<close>

datatype rate_scope = RGlobal | RKey | RFetcher

datatype queue_overflow = QReject | QBypass

text \<open>
  The two limits of a bucket are only compared with counts (\<open>active >= maxConcurrent\<close>, \<open>startedAt.length < maxPerInterval\<close>), so a
  fractional limit, which the validator admits, acts as its ceiling; the model holds that whole number.
\<close>

record rate_limit_options =
  rl_maxConcurrent :: "nat option"
  rl_intervalMs :: "real option"
  rl_maxPerInterval :: "nat option"
  rl_scope :: "rate_scope option"
  rl_bucketKey :: "string option"
  rl_queueOverflow :: "queue_overflow option"

datatype match_limit = NoLimit | Limit nat    \<comment> \<open>\<open>number | false\<close>\<close>

datatype generation_cleanup =
    GcBool bool
  | GcOptions "nat option" "match_limit option"   \<comment> \<open>\<open>batchSize\<close>, \<open>maxMatches\<close>\<close>

record write_behind_options =
  wb_flushIntervalMs :: "real option"
  wb_batchSize :: "nat option"
  wb_maxQueueSize :: "nat option"

record write_coordination_options =
  wc_maxPendingWrites :: "nat option"
  wc_maxActiveKeys :: "nat option"
  wc_maxPendingWritesPerKey :: "nat option"

subsection \<open>Write and read options\<close>

datatype write_kind = WValue | WEmpty

record context_options_context =
  co_key :: string
  co_value :: js
  co_kind :: write_kind

record entry_write_options =
  o_tags :: "string list option"
  o_ttl :: "layer_ms option"
  o_ttlPolicy :: "ttl_policy option"
  o_negativeTtl :: "layer_ms option"
  o_staleWhileRevalidate :: "layer_ms option"
  o_staleIfError :: "layer_ms option"
  o_ttlJitter :: "layer_ms option"
  o_adaptiveTtl :: "adaptive_ttl option"

record write_options = entry_write_options +
  o_negativeCache :: "bool option"
  o_cacheNullValues :: "bool option"
  o_slidingTtl :: "bool option"
  o_refreshAhead :: "layer_ms option"
  o_circuitBreaker :: "circuit_breaker_options option"
  o_fetcherRateLimit :: "rate_limit_options option"
  o_shouldCache :: "(js \<Rightarrow> bool) option"
  o_contextOptions :: "(context_options_context \<Rightarrow> entry_write_options option) option"

definition no_write_options :: write_options where
  \<comment> \<open>\<open>options\<close> absent: every property reads as \<open>undefined\<close>\<close>
  "no_write_options = \<lparr>o_tags = None, o_ttl = None, o_ttlPolicy = None, o_negativeTtl = None,
     o_staleWhileRevalidate = None, o_staleIfError = None, o_ttlJitter = None, o_adaptiveTtl = None,
     o_negativeCache = None, o_cacheNullValues = None, o_slidingTtl = None, o_refreshAhead = None,
     o_circuitBreaker = None, o_fetcherRateLimit = None, o_shouldCache = None, o_contextOptions = None\<rparr>"

datatype fetch_state = FsMiss | FsFresh | FsStaleWhileRevalidate | FsStaleIfError

record fetcher_context =
  fc_key :: string
  fc_currentValue :: js
  fc_state :: fetch_state
  fc_layer :: "string option"

type_synonym 's fetcher = "fetcher_context \<Rightarrow> 's \<Rightarrow> js result \<times> 's"

record 's mget_entry =
  mg_key :: string
  mg_fetch :: "'s fetcher option"
  mg_options :: "write_options option"

record mset_entry =
  ms_key :: string
  ms_value :: js
  ms_options :: "write_options option"

record set_many_entry =
  sm_key :: string
  sm_value :: js
  sm_ttl :: "real option"

subsection \<open>Invalidation messages\<close>

datatype inv_scope = ScopeKey | ScopeKeys | ScopeClear

datatype inv_operation = OpWrite | OpDelete | OpInvalidate | OpExpire | OpClear

record invalidation_message =
  im_scope :: inv_scope
  im_sourceId :: string
  im_keys :: "string list option"
  im_operation :: "inv_operation option"

subsection \<open>Metrics\<close>

record layer_latency =
  ll_avgMs :: real
  ll_maxMs :: real
  ll_count :: int

record metrics_snapshot =
  mx_hits :: int
  mx_misses :: int
  mx_fetches :: int
  mx_sets :: int
  mx_deletes :: int
  mx_backfills :: int
  mx_invalidations :: int
  mx_staleHits :: int
  mx_refreshes :: int
  mx_refreshErrors :: int
  mx_writeFailures :: int
  mx_singleFlightWaits :: int
  mx_negativeCacheHits :: int
  mx_circuitBreakerTrips :: int
  mx_degradedOperations :: int
  mx_hitsByLayer :: "(string, int) jsmap"
  mx_missesByLayer :: "(string, int) jsmap"
  mx_latencyByLayer :: "(string, layer_latency) jsmap"
  mx_resetAt :: real

record hit_rate_snapshot =
  hr_overall :: real
  hr_byLayer :: "(string, real) jsmap"

subsection \<open>Result types\<close>

record snapshot_entry =
  se_key :: string
  se_value :: js
  se_ttl :: "real option"

record inspect_result =
  ir_key :: string
  ir_foundInLayers :: "string list"
  ir_freshTtlMs :: "real option"
  ir_staleTtlMs :: "real option"
  ir_errorTtlMs :: "real option"
  ir_isStale :: bool
  ir_tags :: "string list"

end
