(* ===== verification/RuntimePolicy.thy ===== *)
theory RuntimePolicy
  imports StoredValue Types
begin

text \<open>
  Read-time policies (\<open>src/src/internal/CacheStackRuntimePolicy.ts\<close>): skipping degraded layers,
  turning a layer failure into a degradation window, and the plan for a fresh hit (sliding TTL and
  refresh-ahead).
\<close>

record fresh_read_policy_plan =
  refreshedStored :: "js option"
  refreshedStoredTtl :: "real option"
  shouldScheduleBackgroundRefresh :: bool

definition shouldSkipLayer :: "real option \<Rightarrow> real \<Rightarrow> bool" where
  "shouldSkipLayer degradedUntil now = (case degradedUntil of None \<Rightarrow> False | Some u \<Rightarrow> u > now)"

definition shouldStartBackgroundRefresh :: "bool \<Rightarrow> bool \<Rightarrow> bool" where
  "shouldStartBackgroundRefresh isDisconnecting hasRefreshInFlight =
    (\<not> isDisconnecting \<and> \<not> hasRefreshInFlight)"

definition resolveRecoverableLayerFailure :: "degradation option \<Rightarrow> real \<Rightarrow> real option" where
  \<comment> \<open>\<open>None\<close> is \<open>{ degrade: false }\<close>, \<open>Some u\<close> is \<open>{ degrade: true, degradedUntil: u }\<close>\<close>
  "resolveRecoverableLayerFailure gracefulDegradation now = (case gracefulDegradation of
      None \<Rightarrow> None
    | Some (DegBool False) \<Rightarrow> None
    | Some (DegBool True) \<Rightarrow> Some (now + 10000)
    | Some (DegOptions retryAfterMs) \<Rightarrow> Some (now + nullish retryAfterMs 10000))"

definition planFreshReadPolicies :: "real \<Rightarrow> js \<Rightarrow> bool \<Rightarrow> bool \<Rightarrow> real \<Rightarrow> fresh_read_policy_plan" where
  "planFreshReadPolicies now stored hasFetcher slidingTtl refreshAheadMs =
    (let refreshed = (if slidingTtl \<and> isStoredValueEnvelope now stored
                      then Some (refreshStoredEnvelope now stored now) else None);
         refreshedTtl = (case refreshed of None \<Rightarrow> None | Some r \<Rightarrow> remainingStoredTtlMs now r now);
         remainingFreshTtl = nullish (remainingFreshTtlMs now stored now) 0
     in \<lparr>refreshedStored = refreshed,
         refreshedStoredTtl = refreshedTtl,
         shouldScheduleBackgroundRefresh =
           (hasFetcher \<and> refreshAheadMs > 0 \<and> remainingFreshTtl > 0 \<and> remainingFreshTtl \<le> refreshAheadMs)\<rparr>)"

text \<open>A degraded layer is skipped for its retry window and used again after it.\<close>

lemma degraded_window:
  "resolveRecoverableLayerFailure g now = Some u \<Longrightarrow> shouldSkipLayer (Some u) t \<longleftrightarrow> t < u"
  by (simp add: shouldSkipLayer_def)

lemma degradation_disabled [simp]:
  "resolveRecoverableLayerFailure None now = None"
  "resolveRecoverableLayerFailure (Some (DegBool False)) now = None"
  by (simp_all add: resolveRecoverableLayerFailure_def)

lemma refresh_form:
  "isStoredValueEnvelope now stored \<Longrightarrow> refreshStoredEnvelope now stored now = js_of_envelope
     (createStoredValueEnvelope (env_kind (envelope_of stored)) (env_value (envelope_of stored))
       (freshTtlMs (envelope_of stored)) (staleWhileRevalidateMs (envelope_of stored))
       (staleIfErrorMs (envelope_of stored)) now)"
  by (simp add: refreshStoredEnvelope_def Let_def)

text \<open>
  Sliding restarts the whole life of an entry. On a recognised entry with fresh TTL \<open>f\<close>, the
  plan of a sliding read stores an envelope that reads exactly like one written at the time of the
  read: it is fresh until \<open>now + f\<close>, with the same value, and its storage TTL covers the new fresh
  window.
\<close>

theorem sliding_restarts_window:
  assumes env: "isStoredValueEnvelope now stored" and ttl: "freshTtlMs (envelope_of stored) = Some f"
    and fit: "f + window (staleWhileRevalidateMs (envelope_of stored)) \<le> ten_years_ms"
      "f + window (staleIfErrorMs (envelope_of stored)) \<le> ten_years_ms"
    and time: "0 \<le> now" "now \<le> t" "t < now + f"
  shows "\<exists>r. refreshedStored (planFreshReadPolicies now stored hasFetcher True ahead) = Some r \<and>
     rsv_state (resolveStoredValue t r t) = Fresh \<and>
     rsv_value (resolveStoredValue t r t) = unwrapStoredValue now stored \<and>
     (\<exists>s. refreshedStoredTtl (planFreshReadPolicies now stored hasFetcher True ahead) = Some s \<and> t < now + s)"
proof -
  let ?e = "envelope_of stored"
  have f: "0 < f" using recognised_ok [OF env] ttl by (auto simp: envelope_ok_def ttl_ok_def)
  let ?c = "createStoredValueEnvelope (env_kind ?e) (env_value ?e) (Some f)
              (staleWhileRevalidateMs ?e) (staleIfErrorMs ?e) now"
  have ok: "envelope_ok now ?c" "envelope_ok t ?c"
    using f fit time by (auto intro!: create_ok)
  have fresh: "freshUntil ?c = Some (now + f)" using f time by (simp add: create_deadlines)
  obtain m where m: "maxExpiry ?c = Some m"
    using maxExpiry_None [OF ok(1)] fresh by (cases "maxExpiry ?c") auto
  have "t < m" using maxExpiry_upper(2) [OF ok(1) m, of t] fresh time by simp
  then have s: "\<exists>s. remainingStoredTtlMs now (js_of_envelope ?c) now = Some s \<and> t < now + s"
    using ok m math_ceil_ge [of "m - now"] by (auto simp: remainingStoredTtlMs_def Let_def)
  show ?thesis
    using env ttl s ok fresh time unwrap_recognised [OF env]
    by (simp add: planFreshReadPolicies_def refresh_form resolve_js_of_envelope Let_def)
qed

theorem sliding_restarts_window_witness:
  "let e = js_of_envelope (createStoredValueEnvelope KValue (JStr ''v'') (Some 100) None None 1000) in
     \<exists>r. refreshedStored (planFreshReadPolicies 1090 e False True 0) = Some r \<and>
       rsv_state (resolveStoredValue 1150 r 1150) = Fresh"
  using sliding_restarts_window [of 1090
      "js_of_envelope (createStoredValueEnvelope KValue (JStr ''v'') (Some 100) None None 1000)"
      100 1150 False 0]
  by (simp add: create_ok window_def ten_years_ms_def Let_def) blast

end
