(* ===== verification/Maintenance.thy ===== *)
theory Maintenance
  imports Types "HOL-Library.Char_ord" "HOL-Library.List_Lexorder"
begin

text \<open>
  Write coordination (\<open>src/src/internal/CacheStackMaintenance.ts\<close>): key and clear epochs that fence
  stale writes, per-key write chains with admission limits, and the write-behind queue. A promise
  tail is the number of the admitted operation that owns it; the promise machinery is the step
  relation over admitted operations below.
\<close>

subsection \<open>State\<close>

record 'op maintenance =
  mt_keyEpochs :: "(string, nat) jsmap"
  mt_writeBehindQueue :: "'op list"
  mt_writeBehindTimer :: "real option"
  mt_writeChains :: "(string, nat) jsmap"
  mt_pendingWritesByKey :: "(string, nat) jsmap"
  mt_maxPendingWrites :: nat
  mt_maxActiveWriteKeys :: nat
  mt_maxPendingWritesPerKey :: nat
  mt_pendingWriteUnits :: nat
  mt_nextKeyEpoch :: nat
  mt_absentKeyEpoch :: nat
  mt_clearEpoch :: nat

definition MAX_KEY_EPOCHS :: nat where
  "MAX_KEY_EPOCHS = 50000"

definition MAX_SAFE_INTEGER :: nat where
  "MAX_SAFE_INTEGER = 9007199254740991"

definition new_maintenance :: "write_coordination_options \<Rightarrow> 'op maintenance" where
  "new_maintenance opts = \<lparr>mt_keyEpochs = [], mt_writeBehindQueue = [], mt_writeBehindTimer = None,
     mt_writeChains = [], mt_pendingWritesByKey = [],
     mt_maxPendingWrites = nullish (wc_maxPendingWrites opts) 10000,
     mt_maxActiveWriteKeys = nullish (wc_maxActiveKeys opts) 10000,
     mt_maxPendingWritesPerKey = nullish (wc_maxPendingWritesPerKey opts) 1000,
     mt_pendingWriteUnits = 0, mt_nextKeyEpoch = 0, mt_absentKeyEpoch = 0, mt_clearEpoch = 0\<rparr>"

subsection \<open>Write-behind timer\<close>

definition disposeWriteBehindTimer :: "'op maintenance \<Rightarrow> 'op maintenance" where
  "disposeWriteBehindTimer m = (if mt_writeBehindTimer m = None then m else m\<lparr>mt_writeBehindTimer := None\<rparr>)"

definition initializeWriteBehindTimer ::
    "bool \<Rightarrow> write_behind_options option \<Rightarrow> 'op maintenance \<Rightarrow> 'op maintenance" where
  \<comment> \<open>the flag is \<open>writeStrategy === 'write-behind'\<close>; the timer is its interval\<close>
  "initializeWriteBehindTimer isWriteBehind opts m =
    (if \<not> isWriteBehind then m
     else let flushIntervalMs = (case opts of None \<Rightarrow> None | Some b \<Rightarrow> wb_flushIntervalMs b)
          in if \<not> truthy flushIntervalMs \<or> the flushIntervalMs \<le> 0 then m
             else (disposeWriteBehindTimer m)\<lparr>mt_writeBehindTimer := flushIntervalMs\<rparr>)"

subsection \<open>Epochs\<close>

definition beginClearEpoch :: "'op maintenance \<Rightarrow> 'op maintenance" where
  "beginClearEpoch m = m\<lparr>mt_clearEpoch := mt_clearEpoch m + 1, mt_keyEpochs := [], mt_writeBehindQueue := []\<rparr>"

definition currentClearEpoch :: "'op maintenance \<Rightarrow> nat" where
  "currentClearEpoch m = mt_clearEpoch m"

definition currentKeyEpoch :: "string \<Rightarrow> 'op maintenance \<Rightarrow> nat" where
  "currentKeyEpoch key m = nullish (map_of (mt_keyEpochs m) key) (mt_absentKeyEpoch m)"

definition allocateKeyEpoch :: "'op maintenance \<Rightarrow> nat \<times> 'op maintenance" where
  "allocateKeyEpoch m =
    (let m1 = (if mt_nextKeyEpoch m \<ge> MAX_SAFE_INTEGER
               then m\<lparr>mt_clearEpoch := mt_clearEpoch m + 1, mt_keyEpochs := [],
                      mt_nextKeyEpoch := 0, mt_absentKeyEpoch := 0\<rparr>
               else m);
         m2 = m1\<lparr>mt_nextKeyEpoch := mt_nextKeyEpoch m1 + 1\<rparr>
     in (mt_nextKeyEpoch m2, m2))"

definition pruneKeyEpochsIfNeeded :: "'op maintenance \<Rightarrow> 'op maintenance" where
  "pruneKeyEpochsIfNeeded m =
    (if length (mt_keyEpochs m) \<le> MAX_KEY_EPOCHS then m
     else let toDelete = tenth_up (length (mt_keyEpochs m));
              deleted = min toDelete (length (mt_keyEpochs m));
              m1 = m\<lparr>mt_keyEpochs := delete_oldest toDelete (mt_keyEpochs m)\<rparr>
          in if deleted > 0
             then let (e, m2) = allocateKeyEpoch m1 in m2\<lparr>mt_absentKeyEpoch := e\<rparr>
             else m1)"

definition bump_one :: "string \<Rightarrow> 'op maintenance \<Rightarrow> 'op maintenance" where
  "bump_one key m =
    (let (e, m1) = allocateKeyEpoch (m\<lparr>mt_keyEpochs := AList.delete key (mt_keyEpochs m)\<rparr>)
     in m1\<lparr>mt_keyEpochs := AList.update key e (mt_keyEpochs m1)\<rparr>)"

definition bumpKeyEpochs :: "string list \<Rightarrow> 'op maintenance \<Rightarrow> 'op maintenance" where
  "bumpKeyEpochs keys m = pruneKeyEpochsIfNeeded (fold bump_one keys m)"

definition isWriteOutdated :: "string \<Rightarrow> nat option \<Rightarrow> nat option \<Rightarrow> 'op maintenance \<Rightarrow> bool" where
  "isWriteOutdated key expectedClearEpoch expectedKeyEpoch m =
    (if expectedClearEpoch \<noteq> None \<and> expectedClearEpoch \<noteq> Some (mt_clearEpoch m) then True
     else if expectedKeyEpoch \<noteq> None \<and> expectedKeyEpoch \<noteq> Some (currentKeyEpoch key m) then True
     else False)"

subsection \<open>Fenced writes\<close>

text \<open>
  The body of \<open>runFencedWrite\<close>. The world \<open>'w\<close> holds the maintenance state (read by \<open>mt\<close>) and
  everything the operation touches; whatever other tasks do while the operation is awaited is part
  of the operation's effect on the world.
\<close>

definition runFencedWrite ::
    "('w \<Rightarrow> 'op maintenance) \<Rightarrow> string \<Rightarrow> nat \<Rightarrow> nat \<Rightarrow> ('w \<Rightarrow> unit result \<times> 'w) \<Rightarrow> ('w \<Rightarrow> unit result \<times> 'w)
      \<Rightarrow> 'w \<Rightarrow> bool result \<times> 'w" where
  "runFencedWrite mt key expectedClearEpoch expectedKeyEpoch operation cleanup w =
    (if isWriteOutdated key (Some expectedClearEpoch) (Some expectedKeyEpoch) (mt w) then (Inr False, w)
     else case operation w of
       (Inl e, w1) \<Rightarrow> (Inl e, w1)
     | (Inr _, w1) \<Rightarrow>
         if \<not> isWriteOutdated key (Some expectedClearEpoch) (Some expectedKeyEpoch) (mt w1) then (Inr True, w1)
         else (case cleanup w1 of (Inl e, w2) \<Rightarrow> (Inl e, w2) | (Inr _, w2) \<Rightarrow> (Inr False, w2)))"

subsection \<open>Write-behind queue\<close>

text \<open>
  \<open>flushBatch\<close> runs a batch on the rest of the world and may throw; a batch size of zero (which no
  validation refuses) would never shorten the queue and is the value \<open>None\<close>. A failed
  batch ends the flush with the later operations still queued.
\<close>

function flush_queue ::
    "nat \<Rightarrow> ('op list \<Rightarrow> 'w \<Rightarrow> unit result \<times> 'w) \<Rightarrow> 'op list \<Rightarrow> 'w \<Rightarrow> (unit result \<times> 'op list \<times> 'w) option" where
  "flush_queue batchSize flushBatch queue w =
    (if queue = [] then Some (Inr (), [], w)
     else if batchSize = 0 then None
     else case flushBatch (take batchSize queue) w of
       (Inl e, w1) \<Rightarrow> Some (Inl e, drop batchSize queue, w1)
     | (Inr _, w1) \<Rightarrow> flush_queue batchSize flushBatch (drop batchSize queue) w1)"
  by auto
termination by (relation "measure (\<lambda>(b, f, q, w). length q)") auto

declare flush_queue.simps [simp del]

definition wb_batch_size :: "write_behind_options option \<Rightarrow> nat" where
  "wb_batch_size opts = (case opts of None \<Rightarrow> 100 | Some b \<Rightarrow> nullish (wb_batchSize b) 100)"

definition wb_max_queue_size :: "write_behind_options option \<Rightarrow> nat" where
  "wb_max_queue_size opts =
    (case opts of None \<Rightarrow> wb_batch_size opts * 10 | Some b \<Rightarrow> nullish (wb_maxQueueSize b) (wb_batch_size opts * 10))"

definition flushWriteBehindQueue ::
    "write_behind_options option \<Rightarrow> ('op list \<Rightarrow> 'w \<Rightarrow> unit result \<times> 'w) \<Rightarrow> 'op maintenance \<Rightarrow> 'w
      \<Rightarrow> (unit result \<times> 'op maintenance \<times> 'w) option" where
  "flushWriteBehindQueue opts flushBatch m w =
    map_option (\<lambda>(r, q, w'). (r, m\<lparr>mt_writeBehindQueue := q\<rparr>, w'))
      (flush_queue (wb_batch_size opts) flushBatch (mt_writeBehindQueue m) w)"

definition enqueueWriteBehind ::
    "'op \<Rightarrow> write_behind_options option \<Rightarrow> ('op list \<Rightarrow> 'w \<Rightarrow> unit result \<times> 'w) \<Rightarrow> 'op maintenance \<Rightarrow> 'w
      \<Rightarrow> (unit result \<times> 'op maintenance \<times> 'w) option" where
  "enqueueWriteBehind operation opts flushBatch m w =
    (if length (mt_writeBehindQueue m) \<ge> wb_max_queue_size opts
     then Some (Inl (WriteBehindLimit (wb_max_queue_size opts)), m, w)
     else let m1 = m\<lparr>mt_writeBehindQueue := mt_writeBehindQueue m @ [operation]\<rparr>
          in if length (mt_writeBehindQueue m1) \<ge> wb_max_queue_size opts
             then flushWriteBehindQueue opts flushBatch m1 w
             else if length (mt_writeBehindQueue m1) \<ge> wb_batch_size opts
             then flushWriteBehindQueue opts flushBatch m1 w
             else Some (Inr (), m1, w))"

subsection \<open>Serialized writes\<close>

record write_op =
  wop_id :: nat            \<comment> \<open>the identity of the operation's \<open>tail\<close>\<close>
  wop_keys :: "string list"
  wop_deps :: "nat list"   \<comment> \<open>\<open>previousTails\<close>\<close>
  wop_running :: bool

record 'op write_system =
  ws_m :: "'op maintenance"
  ws_ops :: "write_op list"   \<comment> \<open>admitted and not settled, in order of admission\<close>
  ws_next :: nat

fun per_key_full :: "(string, nat) jsmap \<Rightarrow> nat \<Rightarrow> string list \<Rightarrow> bool" where
  "per_key_full pend limit [] = False"
| "per_key_full pend limit (key # keys) =
    (if nullish (map_of pend key) 0 + 1 > limit then True else per_key_full pend limit keys)"

definition runSerializedWrites :: "string list \<Rightarrow> 'op write_system \<Rightarrow> unit result \<times> 'op write_system" where
  \<comment> \<open>the synchronous part: admission, accounting and chaining\<close>
  "runSerializedWrites keys s =
    (let uniqueKeys = sort (js_unique keys); m = ws_m s in
     if length uniqueKeys = 0 then (Inr (), s)
     else let writeUnits = length uniqueKeys in
       if mt_pendingWriteUnits m + writeUnits > mt_maxPendingWrites m
       then (Inl (WriteSaturation ''pending-writes'' (mt_maxPendingWrites m)), s)
       else let newActiveKeys = length (filter (\<lambda>k. map_of (mt_writeChains m) k = None) uniqueKeys) in
         if length (mt_writeChains m) + newActiveKeys > mt_maxActiveWriteKeys m
         then (Inl (WriteSaturation ''active-keys'' (mt_maxActiveWriteKeys m)), s)
         else if per_key_full (mt_pendingWritesByKey m) (mt_maxPendingWritesPerKey m) uniqueKeys
         then (Inl (WriteSaturation ''per-key'' (mt_maxPendingWritesPerKey m)), s)
         else let previousTails = js_unique (List.map_filter (map_of (mt_writeChains m)) uniqueKeys);
                  tail = ws_next s;
                  m1 = m\<lparr>mt_pendingWriteUnits := mt_pendingWriteUnits m + writeUnits,
                         mt_pendingWritesByKey :=
                           fold (\<lambda>k p. AList.update k (nullish (map_of p k) 0 + 1) p) uniqueKeys (mt_pendingWritesByKey m),
                         mt_writeChains := fold (\<lambda>k c. AList.update k tail c) uniqueKeys (mt_writeChains m)\<rparr>
              in (Inr (), s\<lparr>ws_m := m1,
                    ws_ops := ws_ops s @ [\<lparr>wop_id = tail, wop_keys = uniqueKeys, wop_deps = previousTails, wop_running = False\<rparr>],
                    ws_next := tail + 1\<rparr>))"

definition release_key :: "nat \<Rightarrow> string \<Rightarrow> 'op maintenance \<Rightarrow> 'op maintenance" where
  "release_key tail key m =
    (let depth = nullish (map_of (mt_pendingWritesByKey m) key) 1 - 1;
         m1 = m\<lparr>mt_pendingWritesByKey :=
                  (if depth = 0 then AList.delete key (mt_pendingWritesByKey m)
                   else AList.update key depth (mt_pendingWritesByKey m))\<rparr>
     in if map_of (mt_writeChains m1) key = Some tail
        then m1\<lparr>mt_writeChains := AList.delete key (mt_writeChains m1)\<rparr> else m1)"

definition settle_write :: "write_op \<Rightarrow> 'op maintenance \<Rightarrow> 'op maintenance" where
  \<comment> \<open>the \<open>finally\<close> handler of the tail\<close>
  "settle_write w m =
    fold (release_key (wop_id w)) (wop_keys w)
      (m\<lparr>mt_pendingWriteUnits := mt_pendingWriteUnits m - length (wop_keys w)\<rparr>)"

text \<open>
  \<open>Promise.all(previousTails).then(operation)\<close>: an admitted operation starts once no operation it
  waits for is left; a running operation settles (resolved or rejected) at any later time, and its
  \<open>finally\<close> handler, registered before any later operation chains on the tail, runs first.
\<close>

inductive ws_step :: "'op write_system \<Rightarrow> 'op write_system \<Rightarrow> bool" where
  admit: "runSerializedWrites keys s = (r, s') \<Longrightarrow> ws_step s s'"
| start: "ws_ops s = xs @ w # ys \<Longrightarrow> set (wop_deps w) \<inter> wop_id ` set (ws_ops s) = {} \<Longrightarrow>
    ws_step s (s\<lparr>ws_ops := xs @ w\<lparr>wop_running := True\<rparr> # ys\<rparr>)"
| settle: "ws_ops s = xs @ w # ys \<Longrightarrow> wop_running w \<Longrightarrow>
    ws_step s (s\<lparr>ws_ops := xs @ ys, ws_m := settle_write w (ws_m s)\<rparr>)"

inductive_cases ws_stepE: "ws_step s s'"

subsection \<open>Epochs only move forward\<close>

definition epoch_ok :: "'op maintenance \<Rightarrow> bool" where
  "epoch_ok m \<longleftrightarrow> jsmap_ok (mt_keyEpochs m) \<and> mt_absentKeyEpoch m \<le> mt_nextKeyEpoch m \<and>
     (\<forall>(k, e) \<in> set (mt_keyEpochs m). e \<le> mt_nextKeyEpoch m)"

definition epoch_le :: "'op maintenance \<Rightarrow> 'op maintenance \<Rightarrow> bool" where
  "epoch_le m m' \<longleftrightarrow> mt_clearEpoch m < mt_clearEpoch m' \<or>
     (mt_clearEpoch m = mt_clearEpoch m' \<and> mt_nextKeyEpoch m \<le> mt_nextKeyEpoch m' \<and>
      (\<forall>k. currentKeyEpoch k m \<le> currentKeyEpoch k m'))"

definition epoch_past :: "string \<Rightarrow> nat \<Rightarrow> nat \<Rightarrow> 'op maintenance \<Rightarrow> bool" where
  \<comment> \<open>an epoch pair captured for the key lies in the past\<close>
  "epoch_past key c e m \<longleftrightarrow> c < mt_clearEpoch m \<or> (c = mt_clearEpoch m \<and> e < currentKeyEpoch key m)"

lemma epoch_le_refl [simp]: "epoch_le m m"
  by (simp add: epoch_le_def)

lemma epoch_le_trans: "epoch_le a b \<Longrightarrow> epoch_le b c \<Longrightarrow> epoch_le a c"
  unfolding epoch_le_def by (elim disjE conjE) (auto intro: le_trans)

lemma epoch_past_mono: "epoch_past key c e m \<Longrightarrow> epoch_le m m' \<Longrightarrow> epoch_past key c e m'"
  unfolding epoch_past_def epoch_le_def by (elim disjE conjE) (auto intro: less_le_trans)

lemma epoch_past_earlier:
  "epoch_past key (mt_clearEpoch a) (currentKeyEpoch key a) b \<Longrightarrow> epoch_le m a \<Longrightarrow>
     epoch_past key (mt_clearEpoch m) (currentKeyEpoch key m) b"
  unfolding epoch_past_def epoch_le_def by (elim disjE conjE) (auto intro: le_less_trans)

lemma epoch_past_outdated: "epoch_past key c e m \<Longrightarrow> isWriteOutdated key (Some c) (Some e) m"
  by (auto simp: epoch_past_def isWriteOutdated_def)

lemma currentKeyEpoch_le: "epoch_ok m \<Longrightarrow> currentKeyEpoch k m \<le> mt_nextKeyEpoch m"
  by (auto simp: epoch_ok_def currentKeyEpoch_def nullish_def dest!: map_of_SomeD split: option.splits)

lemma allocate_cases:
  assumes "allocateKeyEpoch m = (e, m')"
  shows "(mt_clearEpoch m' = mt_clearEpoch m \<and> mt_nextKeyEpoch m' = mt_nextKeyEpoch m + 1 \<and>
          mt_keyEpochs m' = mt_keyEpochs m \<and> mt_absentKeyEpoch m' = mt_absentKeyEpoch m) \<or>
         (mt_clearEpoch m' = mt_clearEpoch m + 1 \<and> mt_nextKeyEpoch m' = 1 \<and>
          mt_keyEpochs m' = [] \<and> mt_absentKeyEpoch m' = 0)"
    and "e = mt_nextKeyEpoch m'"
  using assms by (auto simp: allocateKeyEpoch_def Let_def split: if_splits)

lemma bump_one_spec:
  assumes "epoch_ok m"
  shows "epoch_ok (bump_one key m)" "epoch_le m (bump_one key m)"
    "epoch_past key (mt_clearEpoch m) (currentKeyEpoch key m) (bump_one key m)"
proof -
  obtain e m1 where a: "allocateKeyEpoch (m\<lparr>mt_keyEpochs := AList.delete key (mt_keyEpochs m)\<rparr>) = (e, m1)"
    by fastforce
  then have b: "bump_one key m = m1\<lparr>mt_keyEpochs := AList.update key e (mt_keyEpochs m1)\<rparr>"
    by (simp add: bump_one_def)
  note c = allocate_cases [OF a]
  have d: "set (AList.update key e xs) \<subseteq> insert (key, e) (set xs)" for xs
    by (induction xs) auto
  have d': "set (AList.delete key xs) \<subseteq> set xs" for xs :: "(string, nat) jsmap"
    by (induction xs) auto
  show "epoch_ok (bump_one key m)"
    using assms c d [of "mt_keyEpochs m1"] d' [of "mt_keyEpochs m"] unfolding b
    by (auto simp: epoch_ok_def intro!: inv_intros) force+
  have "currentKeyEpoch k (bump_one key m) = (if k = key then e else currentKeyEpoch k m)"
    if "mt_clearEpoch m1 = mt_clearEpoch m" for k
    using c that unfolding b by (auto simp: currentKeyEpoch_def jsmap_simps)
  then show "epoch_le m (bump_one key m)"
    "epoch_past key (mt_clearEpoch m) (currentKeyEpoch key m) (bump_one key m)"
    using c currentKeyEpoch_le [OF assms, of key] unfolding b
    by (auto simp: epoch_le_def epoch_past_def)
qed

lemma prune_epochs_spec:
  assumes "epoch_ok m"
  shows "epoch_ok (pruneKeyEpochsIfNeeded m)" "epoch_le m (pruneKeyEpochsIfNeeded m)"
proof -
  have "epoch_ok (pruneKeyEpochsIfNeeded m) \<and> epoch_le m (pruneKeyEpochsIfNeeded m)"
  proof (cases "length (mt_keyEpochs m) \<le> MAX_KEY_EPOCHS")
    case False
    define n where "n = tenth_up (length (mt_keyEpochs m))"
    define xs where "xs = drop n (mt_keyEpochs m)"
    have ok: "jsmap_ok (mt_keyEpochs m)" using assms by (simp add: epoch_ok_def)
    have xs: "jsmap_ok xs" "\<forall>x \<in> set xs. snd x \<le> mt_nextKeyEpoch m"
      "\<And>k v. map_of xs k = Some v \<Longrightarrow> map_of (mt_keyEpochs m) k = Some v"
      using assms jsmap_ok_drop [OF ok, of n] map_of_drop [OF ok, of n]
      by (auto simp: xs_def epoch_ok_def dest!: in_set_dropD)
    obtain e m2 where a: "allocateKeyEpoch (m\<lparr>mt_keyEpochs := xs\<rparr>) = (e, m2)" by fastforce
    note c = allocate_cases [OF a]
    have "0 < length (mt_keyEpochs m)" using False by auto
    then have r: "pruneKeyEpochsIfNeeded m = m2\<lparr>mt_absentKeyEpoch := e\<rparr>"
      using False ok a tenth_up_pos [of "length (mt_keyEpochs m)"]
      by (simp add: pruneKeyEpochsIfNeeded_def Let_def delete_oldest_drop xs_def n_def)
    have "epoch_ok (pruneKeyEpochsIfNeeded m)"
      using xs(1,2) c(1) unfolding r c(2) by (auto simp: epoch_ok_def le_SucI)
    have "currentKeyEpoch k m \<le> currentKeyEpoch k (pruneKeyEpochsIfNeeded m)"
      if "mt_clearEpoch m2 = mt_clearEpoch m" for k
    proof (cases "map_of xs k")
      case None
      then show ?thesis
        using c that currentKeyEpoch_le [OF assms, of k] unfolding r
        by (auto simp: currentKeyEpoch_def)
    next
      case (Some v)
      then show ?thesis using c that xs(3) [OF Some] unfolding r by (auto simp: currentKeyEpoch_def)
    qed
    then have "epoch_le m (pruneKeyEpochsIfNeeded m)"
      using c unfolding r by (auto simp: epoch_le_def)
    with \<open>epoch_ok (pruneKeyEpochsIfNeeded m)\<close> show ?thesis by blast
  qed (use assms in \<open>simp add: pruneKeyEpochsIfNeeded_def\<close>)
  then show "epoch_ok (pruneKeyEpochsIfNeeded m)" "epoch_le m (pruneKeyEpochsIfNeeded m)" by blast+
qed

lemma fold_bump_spec:
  "epoch_ok m \<Longrightarrow> epoch_ok (fold bump_one keys m) \<and> epoch_le m (fold bump_one keys m) \<and>
     (\<forall>k \<in> set keys. epoch_past k (mt_clearEpoch m) (currentKeyEpoch k m) (fold bump_one keys m))"
proof (induction keys arbitrary: m)
  case (Cons key keys)
  have s: "epoch_ok (bump_one key m)" "epoch_le m (bump_one key m)"
      "epoch_past key (mt_clearEpoch m) (currentKeyEpoch key m) (bump_one key m)"
    using bump_one_spec [OF Cons(2)] by blast+
  have step: "epoch_past k (mt_clearEpoch m) (currentKeyEpoch k m) m'"
    if "epoch_past k (mt_clearEpoch (bump_one key m)) (currentKeyEpoch k (bump_one key m)) m'" for k m'
    using that s(2) by (rule epoch_past_earlier)
  show ?case
    using Cons(1) [OF s(1)] s(2,3) step epoch_le_trans epoch_past_mono by fastforce
qed simp

lemma bumpKeyEpochs_spec:
  assumes "epoch_ok m"
  shows "epoch_ok (bumpKeyEpochs keys m)" "epoch_le m (bumpKeyEpochs keys m)"
    "k \<in> set keys \<Longrightarrow> epoch_past k (mt_clearEpoch m) (currentKeyEpoch k m) (bumpKeyEpochs keys m)"
  using fold_bump_spec [OF assms, of keys] prune_epochs_spec [of "fold bump_one keys m"]
  by (auto simp: bumpKeyEpochs_def intro: epoch_le_trans epoch_past_mono)

lemma beginClearEpoch_spec:
  "epoch_ok m \<Longrightarrow> epoch_ok (beginClearEpoch m)" "epoch_le m (beginClearEpoch m)"
  "epoch_past k (mt_clearEpoch m) (currentKeyEpoch k m) (beginClearEpoch m)"
  by (auto simp: beginClearEpoch_def epoch_ok_def epoch_le_def epoch_past_def)

datatype epoch_event = EvBump "string list" | EvClear

fun apply_event :: "epoch_event \<Rightarrow> 'op maintenance \<Rightarrow> 'op maintenance" where
  "apply_event (EvBump keys) m = bumpKeyEpochs keys m"
| "apply_event EvClear m = beginClearEpoch m"

fun epoch_hits :: "string \<Rightarrow> epoch_event \<Rightarrow> bool" where
  "epoch_hits key (EvBump keys) = (key \<in> set keys)"
| "epoch_hits key EvClear = True"

lemma epoch_events_spec:
  "epoch_ok m \<Longrightarrow> epoch_ok (fold apply_event evs m) \<and> epoch_le m (fold apply_event evs m)"
proof (induction evs arbitrary: m)
  case (Cons ev evs)
  have "epoch_ok (apply_event ev m)" "epoch_le m (apply_event ev m)"
    using Cons(2) by (cases ev; simp add: bumpKeyEpochs_spec beginClearEpoch_spec)+
  then show ?case using Cons(1) [of "apply_event ev m"] epoch_le_trans by fastforce
qed simp

lemma fence_detects:
  assumes "epoch_ok m" and "\<exists>ev \<in> set evs. epoch_hits key ev"
  shows "isWriteOutdated key (Some (currentClearEpoch m)) (Some (currentKeyEpoch key m)) (fold apply_event evs m)"
proof -
  obtain xs ev ys where evs: "evs = xs @ ev # ys" and hit: "epoch_hits key ev"
    using assms(2) by (meson split_list)
  let ?a = "fold apply_event xs m"
  have a: "epoch_ok ?a" "epoch_le m ?a" using epoch_events_spec [OF assms(1)] by blast+
  have ev: "epoch_ok (apply_event ev ?a)" "epoch_past key (mt_clearEpoch ?a) (currentKeyEpoch key ?a) (apply_event ev ?a)"
    using a(1) hit by (cases ev; simp add: bumpKeyEpochs_spec beginClearEpoch_spec)+
  have "epoch_past key (mt_clearEpoch m) (currentKeyEpoch key m) (apply_event ev ?a)"
    using ev(2) a(2) by (rule epoch_past_earlier)
  then have "epoch_past key (mt_clearEpoch m) (currentKeyEpoch key m) (fold apply_event evs m)"
    using epoch_past_mono [OF _ conjunct2 [OF epoch_events_spec [OF ev(1), of ys]]] by (simp add: evs)
  then show ?thesis by (simp add: epoch_past_outdated currentClearEpoch_def)
qed

text \<open>
  No stale write passes the fence. If the epochs of a key are captured and afterwards, among any
  sequence of epoch bumps and clears (pruning of old epochs and the wrap-around of the counter
  included), one bump names the key or one clear happens, a write that carries the captured epochs
  is outdated.
\<close>

theorem fence_detects_invalidation:
  assumes "epoch_ok m" and "\<exists>ev \<in> set evs. epoch_hits key ev"
  shows "isWriteOutdated key (Some (currentClearEpoch m)) (Some (currentKeyEpoch key m)) (fold apply_event evs m)"
  using assms by (rule fence_detects)

theorem fence_detects_invalidation_witness:
  "isWriteOutdated ''k'' (Some 0) (Some 0)
     (fold apply_event [EvBump [''a''], EvBump [''k'', ''b'']] (new_maintenance
        \<lparr>wc_maxPendingWrites = None, wc_maxActiveKeys = None, wc_maxPendingWritesPerKey = None\<rparr>))"
  using fence_detects_invalidation [of "new_maintenance
        \<lparr>wc_maxPendingWrites = None, wc_maxActiveKeys = None, wc_maxPendingWritesPerKey = None\<rparr>"
      "[EvBump [''a''], EvBump [''k'', ''b'']]" "''k''"]
  by (simp add: epoch_ok_def new_maintenance_def currentClearEpoch_def currentKeyEpoch_def)

text \<open>
  A fenced write that is overtaken is undone. When the epochs a fenced write carries are
  current, the operation runs; if anything that happened during the operation bumped the key or
  cleared the stack, the write reports \<open>false\<close> and its cleanup has run on the resulting state;
  otherwise it reports \<open>true\<close> and nothing more is done.
\<close>

theorem overtaken_write_is_cleaned_up:
  assumes "epoch_ok (mt w)" "operation w = (Inr (), u)" "mt u = fold apply_event evs (mt w)"
    and "cleanup u = (Inr (), v)"
  shows "runFencedWrite mt key (currentClearEpoch (mt w)) (currentKeyEpoch key (mt w)) operation cleanup w =
     (if \<exists>ev \<in> set evs. epoch_hits key ev then (Inr False, v)
      else if isWriteOutdated key (Some (currentClearEpoch (mt w))) (Some (currentKeyEpoch key (mt w))) (mt u)
      then (Inr False, v) else (Inr True, u))"
proof -
  have "\<not> isWriteOutdated key (Some (currentClearEpoch (mt w))) (Some (currentKeyEpoch key (mt w))) (mt w)"
    by (simp add: isWriteOutdated_def currentClearEpoch_def)
  then show ?thesis
    using assms fence_detects [OF assms(1), of evs key] by (simp add: runFencedWrite_def)
qed

theorem overtaken_write_is_cleaned_up_witness:
  "runFencedWrite fst ''k'' 0 0
     (\<lambda>(m, v). (Inr (), (bumpKeyEpochs [''k''] m, Some (1::nat)))) (\<lambda>(m, v). (Inr (), (m, None)))
     (new_maintenance \<lparr>wc_maxPendingWrites = None, wc_maxActiveKeys = None, wc_maxPendingWritesPerKey = None\<rparr>, None)
   = (Inr False, (bumpKeyEpochs [''k''] (new_maintenance
        \<lparr>wc_maxPendingWrites = None, wc_maxActiveKeys = None, wc_maxPendingWritesPerKey = None\<rparr>), None))"
  using overtaken_write_is_cleaned_up [where mt = fst and key = "''k''" and evs = "[EvBump [''k'']]"
      and operation = "\<lambda>(m, v). (Inr (), (bumpKeyEpochs [''k''] m, Some (1::nat)))"
      and cleanup = "\<lambda>(m, v). (Inr (), (m, None))"
      and u = "(bumpKeyEpochs [''k''] (new_maintenance \<lparr>wc_maxPendingWrites = None, wc_maxActiveKeys = None,
        wc_maxPendingWritesPerKey = None\<rparr>), Some (1::nat))"
      and v = "(bumpKeyEpochs [''k''] (new_maintenance \<lparr>wc_maxPendingWrites = None, wc_maxActiveKeys = None,
        wc_maxPendingWritesPerKey = None\<rparr>), None)"
      and w = "(new_maintenance \<lparr>wc_maxPendingWrites = None, wc_maxActiveKeys = None,
        wc_maxPendingWritesPerKey = None\<rparr>, None)"]
  by (simp add: epoch_ok_def new_maintenance_def currentClearEpoch_def currentKeyEpoch_def)

end
