(* ===== verification/WriteChains.thy ===== *)
theory WriteChains
  imports Maintenance
begin

text \<open>
  Correctness of serialized writes (\<open>runSerializedWrites\<close> in
  \<open>src/src/internal/CacheStackMaintenance.ts\<close>): over every reachable state of the step relation of
  theory Maintenance, the accounting matches the unsettled operations, the admission limits hold, two
  operations that share a key never run together, operations run in admission order per key, and
  the oldest unsettled operation can always run.
\<close>

subsection \<open>Counting over the unsettled operations\<close>

definition touches :: "string \<Rightarrow> write_op \<Rightarrow> bool" where
  "touches k w \<longleftrightarrow> k \<in> set (wop_keys w)"

definition depth_of :: "string \<Rightarrow> write_op list \<Rightarrow> nat" where
  "depth_of k ops = length (filter (touches k) ops)"

definition last_for :: "string \<Rightarrow> write_op list \<Rightarrow> nat option" where
  "last_for k ops = (let xs = filter (touches k) ops in if xs = [] then None else Some (wop_id (last xs)))"

lemma depth_of_append [simp]: "depth_of k (xs @ ys) = depth_of k xs + depth_of k ys"
  by (simp add: depth_of_def)

lemma depth_of_simps [simp]:
  "depth_of k [] = 0" "depth_of k (w # ws) = (if touches k w then Suc (depth_of k ws) else depth_of k ws)"
  by (simp_all add: depth_of_def)

lemma last_for_Nil [simp]: "last_for k [] = None"
  by (simp add: last_for_def)

lemma last_for_None: "last_for k ops = None \<longleftrightarrow> (\<forall>w \<in> set ops. \<not> touches k w)"
  by (auto simp: last_for_def Let_def filter_empty_conv)

lemma last_for_append:
  "last_for k (xs @ ys) = (case last_for k ys of None \<Rightarrow> last_for k xs | Some i \<Rightarrow> Some i)"
  by (simp add: last_for_def Let_def)

lemma last_for_single [simp]: "last_for k [w] = (if touches k w then Some (wop_id w) else None)"
  by (simp add: last_for_def)

lemma last_for_Cons:
  "last_for k (w # ws) = (case last_for k ws of None \<Rightarrow> (if touches k w then Some (wop_id w) else None) | Some i \<Rightarrow> Some i)"
  by (auto simp: last_for_def Let_def)

lemma last_for_Some: "last_for k ops = Some i \<Longrightarrow> \<exists>w \<in> set ops. wop_id w = i \<and> touches k w"
  by (induction ops) (auto simp: last_for_Cons split: option.splits if_splits)

lemma depth_of_0: "depth_of k ops = 0 \<longleftrightarrow> last_for k ops = None"
  by (simp add: depth_of_def last_for_None filter_empty_conv)

subsection \<open>Folded updates\<close>

lemma map_of_fold_update:
  "map_of (fold (\<lambda>k c. AList.update k v c) ks m) k' = (if k' \<in> set ks then Some v else map_of m k')"
  by (induction ks arbitrary: m) (auto simp: jsmap_simps)

lemma jsmap_ok_fold_update: "jsmap_ok m \<Longrightarrow> jsmap_ok (fold (\<lambda>k c. AList.update k v c) ks m)"
  by (induction ks arbitrary: m) (auto intro: inv_intros)

lemma length_fold_update:
  "distinct ks \<Longrightarrow> length (fold (\<lambda>k c. AList.update k v c) ks m)
     = length m + length (filter (\<lambda>k. map_of m k = None) ks)"
proof (induction ks arbitrary: m)
  case (Cons k ks)
  have "filter (\<lambda>k'. map_of (AList.update k v m) k' = None) ks = filter (\<lambda>k'. map_of m k' = None) ks"
    using Cons(2) by (intro filter_cong) (auto simp: jsmap_simps)
  then show ?case
    using Cons length_update_absent [of k m v] length_update_present [of k m v]
    by (auto simp: map_of_eq_None_iff)
qed simp

lemma map_of_fold_count:
  "distinct ks \<Longrightarrow> map_of (fold (\<lambda>k p. AList.update k (nullish (map_of p k) 0 + 1) p) ks m) k' =
     (if k' \<in> set ks then Some (nullish (map_of m k') 0 + 1) else map_of m k')"
  for m :: "(string, nat) jsmap"
  by (induction ks arbitrary: m) (auto simp: jsmap_simps)

lemma jsmap_ok_fold_count:
  "jsmap_ok m \<Longrightarrow> jsmap_ok (fold (\<lambda>k p. AList.update k (nullish (map_of p k) 0 + 1) p) ks m)"
  for m :: "(string, nat) jsmap"
  by (induction ks arbitrary: m) (auto intro: inv_intros)

lemma per_key_full_iff: "per_key_full pend n ks \<longleftrightarrow> (\<exists>k \<in> set ks. n < nullish (map_of pend k) 0 + 1)"
  by (induction ks) auto

subsection \<open>The invariant\<close>

definition keys_ok :: "write_op \<Rightarrow> bool" where
  "keys_ok w \<longleftrightarrow> wop_keys w \<noteq> [] \<and> distinct (wop_keys w)"

definition count_ok :: "write_op list \<Rightarrow> (string, nat) jsmap \<Rightarrow> bool" where
  "count_ok ops pend \<longleftrightarrow> jsmap_ok pend \<and>
     (\<forall>k. map_of pend k = (if depth_of k ops = 0 then None else Some (depth_of k ops)))"

definition chains_ok :: "write_op list \<Rightarrow> (string, nat) jsmap \<Rightarrow> bool" where
  "chains_ok ops tails \<longleftrightarrow> jsmap_ok tails \<and> (\<forall>k. map_of tails k = last_for k ops)"

definition waits_ok :: "write_op list \<Rightarrow> bool" where
  \<comment> \<open>every operation waits for the last earlier one on each of its keys, and only for earlier ones\<close>
  "waits_ok ops \<longleftrightarrow> (\<forall>xs w ys. ops = xs @ w # ys \<longrightarrow>
     (\<forall>k i. touches k w \<and> last_for k xs = Some i \<longrightarrow> i \<in> set (wop_deps w)) \<and>
     set (wop_deps w) \<inter> wop_id ` set (w # ys) = {})"

definition free_running :: "write_op list \<Rightarrow> bool" where
  "free_running ops \<longleftrightarrow> (\<forall>w \<in> set ops. wop_running w \<longrightarrow> set (wop_deps w) \<inter> wop_id ` set ops = {})"

definition ids_ok :: "write_op list \<Rightarrow> nat \<Rightarrow> bool" where
  "ids_ok ops n \<longleftrightarrow> distinct (map wop_id ops) \<and>
     (\<forall>w \<in> set ops. wop_id w < n \<and> (\<forall>d \<in> set (wop_deps w). d < n) \<and> keys_ok w)"

definition limits_ok :: "'op maintenance \<Rightarrow> write_op list \<Rightarrow> bool" where
  "limits_ok m ops \<longleftrightarrow> mt_pendingWriteUnits m = sum_list (map (length \<circ> wop_keys) ops) \<and>
     mt_pendingWriteUnits m \<le> mt_maxPendingWrites m \<and>
     length (mt_writeChains m) \<le> mt_maxActiveWriteKeys m \<and>
     (\<forall>k. depth_of k ops \<le> mt_maxPendingWritesPerKey m)"

definition write_ok :: "'op write_system \<Rightarrow> bool" where
  "write_ok s \<longleftrightarrow> ids_ok (ws_ops s) (ws_next s) \<and> count_ok (ws_ops s) (mt_pendingWritesByKey (ws_m s)) \<and>
     chains_ok (ws_ops s) (mt_writeChains (ws_m s)) \<and> waits_ok (ws_ops s) \<and> free_running (ws_ops s) \<and>
     limits_ok (ws_m s) (ws_ops s)"

lemmas write_ok_defs = write_ok_def ids_ok_def count_ok_def chains_ok_def limits_ok_def

subsection \<open>Admission\<close>

lemma admit_cases:
  assumes "runSerializedWrites keys s = (r, s')"
  defines "ks \<equiv> sort (js_unique keys)" and "m \<equiv> ws_m s"
  shows "s' = s \<or> (r = Inr () \<and> ks \<noteq> [] \<and>
     mt_pendingWriteUnits m + length ks \<le> mt_maxPendingWrites m \<and>
     length (mt_writeChains m) + length (filter (\<lambda>k. map_of (mt_writeChains m) k = None) ks) \<le> mt_maxActiveWriteKeys m \<and>
     (\<forall>k \<in> set ks. nullish (map_of (mt_pendingWritesByKey m) k) 0 + 1 \<le> mt_maxPendingWritesPerKey m) \<and>
     s' = s\<lparr>ws_m := m\<lparr>mt_pendingWriteUnits := mt_pendingWriteUnits m + length ks,
          mt_pendingWritesByKey := fold (\<lambda>k p. AList.update k (nullish (map_of p k) 0 + 1) p) ks (mt_pendingWritesByKey m),
          mt_writeChains := fold (\<lambda>k c. AList.update k (ws_next s) c) ks (mt_writeChains m)\<rparr>,
        ws_ops := ws_ops s @ [\<lparr>wop_id = ws_next s, wop_keys = ks,
          wop_deps = js_unique (List.map_filter (map_of (mt_writeChains m)) ks), wop_running = False\<rparr>],
        ws_next := ws_next s + 1\<rparr>)"
  using assms(1) unfolding runSerializedWrites_def Let_def ks_def [symmetric] m_def [symmetric] per_key_full_iff
  by (auto split: if_splits simp: not_less)

lemma waits_ok_snoc:
  assumes "waits_ok ops" "\<And>k i. touches k w \<Longrightarrow> last_for k ops = Some i \<Longrightarrow> i \<in> set (wop_deps w)"
    and "wop_id w \<notin> set (wop_deps w)" "\<forall>v \<in> set ops. wop_id w \<notin> set (wop_deps v)"
  shows "waits_ok (ops @ [w])"
  unfolding waits_ok_def
proof (intro allI impI)
  fix xs v ys assume e: "ops @ [w] = xs @ v # ys"
  show "(\<forall>k i. touches k v \<and> last_for k xs = Some i \<longrightarrow> i \<in> set (wop_deps v)) \<and>
     set (wop_deps v) \<inter> wop_id ` set (v # ys) = {}"
  proof (cases ys rule: rev_cases)
    case Nil
    then show ?thesis using e assms(2,3) by auto
  next
    case (snoc ys' u)
    then have "ops = xs @ v # ys'" "u = w" using e by simp_all
    then show ?thesis using assms(1,4) snoc unfolding waits_ok_def by auto
  qed
qed

lemma write_ok_admit:
  assumes "write_ok s" "runSerializedWrites keys s = (r, s')"
  shows "write_ok s'"
proof -
  define ks where "ks = sort (js_unique keys)"
  let ?m = "ws_m s"
  let ?w = "\<lparr>wop_id = ws_next s, wop_keys = ks,
          wop_deps = js_unique (List.map_filter (map_of (mt_writeChains ?m)) ks), wop_running = False\<rparr>"
  have d: "distinct ks" by (simp add: ks_def)
  consider "s' = s" | (new) "ks \<noteq> []" "mt_pendingWriteUnits ?m + length ks \<le> mt_maxPendingWrites ?m"
    "length (mt_writeChains ?m) + length (filter (\<lambda>k. map_of (mt_writeChains ?m) k = None) ks) \<le> mt_maxActiveWriteKeys ?m"
    "\<forall>k \<in> set ks. nullish (map_of (mt_pendingWritesByKey ?m) k) 0 + 1 \<le> mt_maxPendingWritesPerKey ?m"
    "s' = s\<lparr>ws_m := ?m\<lparr>mt_pendingWriteUnits := mt_pendingWriteUnits ?m + length ks,
          mt_pendingWritesByKey := fold (\<lambda>k p. AList.update k (nullish (map_of p k) 0 + 1) p) ks (mt_pendingWritesByKey ?m),
          mt_writeChains := fold (\<lambda>k c. AList.update k (ws_next s) c) ks (mt_writeChains ?m)\<rparr>,
        ws_ops := ws_ops s @ [?w], ws_next := ws_next s + 1\<rparr>"
    using admit_cases [OF assms(2)] unfolding ks_def [symmetric] by blast
  then show ?thesis
  proof cases
    case new
    have ok: "ids_ok (ws_ops s) (ws_next s)" "count_ok (ws_ops s) (mt_pendingWritesByKey ?m)"
      "chains_ok (ws_ops s) (mt_writeChains ?m)" "waits_ok (ws_ops s)" "free_running (ws_ops s)"
      "limits_ok ?m (ws_ops s)" using assms(1) by (simp_all add: write_ok_def)
    have t: "touches k ?w \<longleftrightarrow> k \<in> set ks" for k by (simp add: touches_def)
    have depth: "nullish (map_of (mt_pendingWritesByKey ?m) k) 0 = depth_of k (ws_ops s)" for k
      using ok(2) by (simp add: count_ok_def)
    have deps: "set (wop_deps ?w) = {i. \<exists>k \<in> set ks. last_for k (ws_ops s) = Some i}"
      using ok(3) by (force simp: chains_ok_def List.map_filter_def)
    have old: "i < ws_next s" if "last_for k (ws_ops s) = Some i" for k i
      using last_for_Some [OF that] ok(1) by (auto simp: ids_ok_def)
    have "ids_ok (ws_ops s @ [?w]) (ws_next s + 1)"
      using ok(1) d new(1) deps old by (auto simp: ids_ok_def keys_ok_def less_Suc_eq)
    moreover have "count_ok (ws_ops s @ [?w])
        (fold (\<lambda>k p. AList.update k (nullish (map_of p k) 0 + 1) p) ks (mt_pendingWritesByKey ?m))"
      using ok(2) unfolding count_ok_def map_of_fold_count [OF d] depth
      using jsmap_ok_fold_count [of "mt_pendingWritesByKey ?m" ks] by (simp add: t)
    moreover have "chains_ok (ws_ops s @ [?w]) (fold (\<lambda>k c. AList.update k (ws_next s) c) ks (mt_writeChains ?m))"
      using ok(3) unfolding chains_ok_def
      by (simp add: map_of_fold_update jsmap_ok_fold_update last_for_append t)
    moreover have "waits_ok (ws_ops s @ [?w])"
      using ok(1,4) deps old t by (intro waits_ok_snoc) (auto simp: ids_ok_def)
    moreover have "free_running (ws_ops s @ [?w])"
      using ok(1,5) by (auto simp: free_running_def ids_ok_def)
    moreover have "depth_of k (ws_ops s @ [?w]) \<le> mt_maxPendingWritesPerKey ?m" for k
      using new(4) ok(6) depth [of k] t [of k] by (auto simp: limits_ok_def)
    moreover have "length (fold (\<lambda>k c. AList.update k (ws_next s) c) ks (mt_writeChains ?m)) \<le> mt_maxActiveWriteKeys ?m"
      using new(3) by (simp add: length_fold_update [OF d])
    ultimately show ?thesis
      using ok(6) new(2) unfolding new(5) write_ok_def limits_ok_def by simp
  qed (use assms(1) in simp)
qed

subsection \<open>Starting and settling\<close>

lemma touches_running [simp]: "touches k (w\<lparr>wop_running := b\<rparr>) = touches k w"
  by (simp add: touches_def)

lemma same_but_running:
  fixes f :: "write_op \<Rightarrow> write_op"
  assumes "\<And>w. wop_id (f w) = wop_id w" "\<And>w. wop_keys (f w) = wop_keys w" "\<And>w. wop_deps (f w) = wop_deps w"
  shows "depth_of k (map f ops) = depth_of k ops" "last_for k (map f ops) = last_for k ops"
    "waits_ok ops \<Longrightarrow> waits_ok (map f ops)"
proof -
  have t: "touches k (f w) = touches k w" for k w by (simp add: touches_def assms)
  have l: "last_for k (map f ops) = last_for k ops" for k ops
    by (induction ops) (simp_all add: last_for_Cons t assms split: option.splits)
  show "depth_of k (map f ops) = depth_of k ops" by (induction ops) (simp_all add: t)
  show "last_for k (map f ops) = last_for k ops" by (rule l)
  show "waits_ok (map f ops)" if "waits_ok ops"
    unfolding waits_ok_def
  proof (intro allI impI)
    fix xs w ys assume "map f ops = xs @ w # ys"
    then obtain xs' w' ys' where e: "ops = xs' @ w' # ys'" "xs = map f xs'" "w = f w'" "ys = map f ys'"
      by (auto simp: map_eq_append_conv)
    have "(\<forall>k i. touches k w' \<and> last_for k xs' = Some i \<longrightarrow> i \<in> set (wop_deps w')) \<and>
        set (wop_deps w') \<inter> wop_id ` set (w' # ys') = {}"
      using that e(1) unfolding waits_ok_def by blast
    then show "(\<forall>k i. touches k w \<and> last_for k xs = Some i \<longrightarrow> i \<in> set (wop_deps w)) \<and>
        set (wop_deps w) \<inter> wop_id ` set (w # ys) = {}"
      unfolding e by (simp add: l t assms image_image)
  qed
qed

lemma ids_of_start: "wop_id ` set (xs @ w\<lparr>wop_running := b\<rparr> # ys) = wop_id ` set (xs @ w # ys)"
  by simp

lemma write_ok_start:
  assumes "write_ok s" "ws_ops s = xs @ w # ys" "set (wop_deps w) \<inter> wop_id ` set (ws_ops s) = {}"
  shows "write_ok (s\<lparr>ws_ops := xs @ w\<lparr>wop_running := True\<rparr> # ys\<rparr>)"
proof -
  define f where "f v = (if wop_id v = wop_id w then v\<lparr>wop_running := True\<rparr> else v)" for v :: write_op
  have dist: "distinct (map wop_id (xs @ w # ys))" using assms(1,2) by (simp add: write_ok_def ids_ok_def)
  then have ops: "xs @ w\<lparr>wop_running := True\<rparr> # ys = map f (ws_ops s)"
    unfolding assms(2) by (auto simp: f_def map_idI image_iff intro!: map_idI [symmetric])
  have f: "wop_id (f v) = wop_id v" "wop_keys (f v) = wop_keys v" "wop_deps (f v) = wop_deps v" for v
    by (simp_all add: f_def)
  note same = same_but_running [of f, OF f]
  have "free_running (map f (ws_ops s))"
  proof -
    have "set (wop_deps v) \<inter> wop_id ` set (ws_ops s) = {}" if v: "v \<in> set (ws_ops s)" "wop_running (f v)" for v
    proof (cases "wop_id v = wop_id w")
      case True
      then have "v = w" using dist v(1) unfolding assms(2) by (metis distinct_map inj_onD in_set_conv_decomp)
      then show ?thesis using assms(3) by simp
    next
      case False
      then show ?thesis using v assms(1) by (simp add: f_def write_ok_def free_running_def)
    qed
    then show ?thesis by (simp add: free_running_def f image_image)
  qed
  moreover have "ids_ok (map f (ws_ops s)) (ws_next s)"
    using assms(1) by (auto simp: write_ok_def ids_ok_def f keys_ok_def comp_def)
  moreover have "map (length \<circ> wop_keys) (map f (ws_ops s)) = map (length \<circ> wop_keys) (ws_ops s)"
    by (simp add: f)
  ultimately show ?thesis
    using assms(1) unfolding ops write_ok_def count_ok_def chains_ok_def limits_ok_def
    by (simp add: same del: map_map)
qed

lemma earlier_settled:
  \<comment> \<open>a running operation is the first unsettled one on each of its keys\<close>
  assumes "waits_ok (xs @ w # ys)" "free_running (xs @ w # ys)" "wop_running w" "touches k w"
  shows "last_for k xs = None"
proof (rule ccontr)
  assume "last_for k xs \<noteq> None"
  then obtain i where i: "last_for k xs = Some i" by blast
  then have "i \<in> set (wop_deps w)" using assms(1,4) unfolding waits_ok_def by blast
  moreover have "i \<in> wop_id ` set (xs @ w # ys)" using last_for_Some [OF i] by auto
  ultimately show False using assms(2,3) unfolding free_running_def by fastforce
qed

lemma waits_ok_remove:
  assumes "waits_ok (xs @ w # ys)" "free_running (xs @ w # ys)" "wop_running w"
  shows "waits_ok (xs @ ys)"
  unfolding waits_ok_def
proof (intro allI impI)
  fix as v bs assume "xs @ ys = as @ v # bs"
  then consider (left) cs where "xs = as @ v # cs" "bs = cs @ ys" | (right) cs where "as = xs @ cs" "ys = cs @ v # bs"
    by (auto simp: append_eq_append_conv2 Cons_eq_append_conv append_eq_Cons_conv)
  then show "(\<forall>k i. touches k v \<and> last_for k as = Some i \<longrightarrow> i \<in> set (wop_deps v)) \<and>
        set (wop_deps v) \<inter> wop_id ` set (v # bs) = {}"
  proof cases
    case left
    then have "xs @ w # ys = as @ v # (cs @ w # ys)" by simp
    then show ?thesis using assms(1) left unfolding waits_ok_def by fastforce
  next
    case right
    have e: "xs @ w # ys = (xs @ w # cs) @ v # bs" using right by simp
    have *: "last_for k (xs @ w # cs) = Some i" if "last_for k as = Some i" for k i
      using that earlier_settled [OF assms, of k] unfolding right
      by (auto simp: last_for_append last_for_Cons split: option.splits)
    show ?thesis using assms(1) * unfolding waits_ok_def e by blast
  qed
qed

lemma release_key_fields [simp]:
  "mt_pendingWriteUnits (release_key t k m) = mt_pendingWriteUnits m"
  "mt_maxPendingWrites (release_key t k m) = mt_maxPendingWrites m"
  "mt_maxActiveWriteKeys (release_key t k m) = mt_maxActiveWriteKeys m"
  "mt_maxPendingWritesPerKey (release_key t k m) = mt_maxPendingWritesPerKey m"
  by (simp_all add: release_key_def Let_def)

lemma fold_release_fields [simp]:
  "mt_pendingWriteUnits (fold (release_key t) ks m) = mt_pendingWriteUnits m"
  "mt_maxPendingWrites (fold (release_key t) ks m) = mt_maxPendingWrites m"
  "mt_maxActiveWriteKeys (fold (release_key t) ks m) = mt_maxActiveWriteKeys m"
  "mt_maxPendingWritesPerKey (fold (release_key t) ks m) = mt_maxPendingWritesPerKey m"
  by (induction ks arbitrary: m) simp_all

definition pend_after :: "nat option \<Rightarrow> nat option" where
  "pend_after a = (if nullish a 1 - 1 = 0 then None else Some (nullish a 1 - 1))"

lemma fold_release:
  fixes t :: nat
  assumes "distinct ks" "jsmap_ok (mt_pendingWritesByKey m)" "jsmap_ok (mt_writeChains m)"
  defines "m' \<equiv> fold (release_key t) ks m"
  shows "(\<forall>k. map_of (mt_pendingWritesByKey m') k =
      (if k \<in> set ks then pend_after (map_of (mt_pendingWritesByKey m) k) else map_of (mt_pendingWritesByKey m) k)) \<and>
     (\<forall>k. map_of (mt_writeChains m') k =
      (if k \<in> set ks \<and> map_of (mt_writeChains m) k = Some t then None else map_of (mt_writeChains m) k)) \<and>
     jsmap_ok (mt_pendingWritesByKey m') \<and> jsmap_ok (mt_writeChains m') \<and>
     length (mt_writeChains m') \<le> length (mt_writeChains m)"
  using assms unfolding m'_def
proof (induction ks arbitrary: m)
  case (Cons a ks)
  have ok: "jsmap_ok (mt_pendingWritesByKey (release_key t a m))" "jsmap_ok (mt_writeChains (release_key t a m))"
    using Cons(3,4) by (auto simp: release_key_def Let_def intro: inv_intros)
  have p: "map_of (mt_pendingWritesByKey (release_key t a m)) k =
      (if k = a then pend_after (map_of (mt_pendingWritesByKey m) k) else map_of (mt_pendingWritesByKey m) k)" for k
    by (auto simp: release_key_def Let_def jsmap_simps pend_after_def)
  have c: "map_of (mt_writeChains (release_key t a m)) k =
      (if k = a \<and> map_of (mt_writeChains m) k = Some t then None else map_of (mt_writeChains m) k)" for k
    by (auto simp: release_key_def Let_def jsmap_simps)
  have l: "length (mt_writeChains (release_key t a m)) \<le> length (mt_writeChains m)"
    by (simp add: release_key_def Let_def length_delete_le)
  have "distinct ks" "a \<notin> set ks" using Cons(2) by simp_all
  note ih = Cons(1) [OF \<open>distinct ks\<close> ok]
  show ?case using ih \<open>a \<notin> set ks\<close> p c le_trans [OF _ l] by auto
qed simp

lemma write_ok_settle:
  assumes "write_ok s" "ws_ops s = xs @ w # ys" "wop_running w"
  shows "write_ok (s\<lparr>ws_ops := xs @ ys, ws_m := settle_write w (ws_m s)\<rparr>)"
proof -
  let ?m = "ws_m s"
  let ?n = "?m\<lparr>mt_pendingWriteUnits := mt_pendingWriteUnits ?m - length (wop_keys w)\<rparr>"
  have ok: "ids_ok (xs @ w # ys) (ws_next s)" "count_ok (xs @ w # ys) (mt_pendingWritesByKey ?m)"
      "chains_ok (xs @ w # ys) (mt_writeChains ?m)" "waits_ok (xs @ w # ys)" "free_running (xs @ w # ys)"
      "limits_ok ?m (xs @ w # ys)" using assms(1) unfolding assms(2) [symmetric] by (simp_all add: write_ok_def)
  have d: "distinct (wop_keys w)" using ok(1) by (simp add: ids_ok_def keys_ok_def)
  have j: "jsmap_ok (mt_pendingWritesByKey ?n)" "jsmap_ok (mt_writeChains ?n)"
    using ok by (simp_all add: count_ok_def chains_ok_def)
  note rel = fold_release [OF d j, of "wop_id w", THEN conjunct1, rule_format]
    fold_release [OF d j, of "wop_id w", THEN conjunct2, THEN conjunct1, rule_format]
    fold_release [OF d j, of "wop_id w", THEN conjunct2, THEN conjunct2]
  have cnt: "map_of (mt_pendingWritesByKey ?n) k = (if depth_of k (xs @ w # ys) = 0 then None else Some (depth_of k (xs @ w # ys)))" for k
    using ok(2) by (simp add: count_ok_def)
  have chn: "map_of (mt_writeChains ?n) k = last_for k (xs @ w # ys)" for k
    using ok(3) by (simp add: chains_ok_def)
  have "count_ok (xs @ ys) (mt_pendingWritesByKey (settle_write w ?m))"
    using rel(1) rel(3) cnt unfolding settle_write_def count_ok_def by (auto simp: pend_after_def touches_def)
  moreover have "map_of (mt_writeChains (settle_write w ?m)) k = last_for k (xs @ ys)" for k
  proof (cases "touches k w")
    case True
    have x: "last_for k xs = None" using earlier_settled [OF ok(4,5) assms(3) True] .
    have "last_for k ys \<noteq> Some (wop_id w)"
      using last_for_Some [of k ys "wop_id w"] ok(1) unfolding ids_ok_def by (fastforce dest: sym)
    then show ?thesis
      using rel(2) [of k] chn [of k] x True unfolding settle_write_def
      by (auto simp: last_for_append last_for_Cons touches_def split: option.splits)
  next
    case False
    then show ?thesis
      using rel(2) [of k] chn [of k] unfolding settle_write_def
      by (auto simp: last_for_append last_for_Cons touches_def split: option.splits)
  qed
  moreover have "ids_ok (xs @ ys) (ws_next s)" using ok(1) by (auto simp: ids_ok_def)
  moreover have "free_running (xs @ ys)" using ok(5) unfolding free_running_def by fastforce
  moreover have "depth_of k (xs @ ys) \<le> mt_maxPendingWritesPerKey ?m" for k
  proof -
    have "depth_of k (xs @ w # ys) \<le> mt_maxPendingWritesPerKey ?m"
      using ok(6) unfolding limits_ok_def by blast
    then show ?thesis by (simp split: if_splits)
  qed
  ultimately show ?thesis
    using waits_ok_remove [OF ok(4,5) assms(3)] ok(6) rel(3)
    unfolding write_ok_def chains_ok_def limits_ok_def
    by (auto simp: settle_write_def)
qed

subsection \<open>Reachable states\<close>

lemma write_ok_step: "ws_step s s' \<Longrightarrow> write_ok s \<Longrightarrow> write_ok s'"
  by (induction rule: ws_step.induct) (blast intro: write_ok_admit write_ok_start write_ok_settle)+

lemma write_ok_reach: "ws_step\<^sup>*\<^sup>* s s' \<Longrightarrow> write_ok s \<Longrightarrow> write_ok s'"
  by (induction rule: rtranclp_induct) (auto intro: write_ok_step)

definition fresh_system :: "'op maintenance \<Rightarrow> bool" where
  \<comment> \<open>a newly constructed coordinator\<close>
  "fresh_system m \<longleftrightarrow> mt_writeChains m = [] \<and> mt_pendingWritesByKey m = [] \<and> mt_pendingWriteUnits m = 0"

lemma write_ok_init: "fresh_system m \<Longrightarrow> write_ok \<lparr>ws_m = m, ws_ops = [], ws_next = 0\<rparr>"
  by (simp add: fresh_system_def write_ok_defs waits_ok_def free_running_def)

lemma fresh_new [simp]: "fresh_system (new_maintenance opts)"
  by (simp add: fresh_system_def new_maintenance_def)

lemma running_first:
  assumes "write_ok s" "ws_ops s = xs @ w # ys" "wop_running w"
  shows "\<forall>v \<in> set xs. set (wop_keys v) \<inter> set (wop_keys w) = {}"
proof -
  have "last_for k xs = None" if "touches k w" for k
    using assms earlier_settled [of xs w ys k] that by (simp add: write_ok_def)
  then show ?thesis by (auto simp: last_for_None touches_def)
qed

text \<open>A reachable state: a write of \<open>a\<close> admitted, then one of \<open>b\<close> admitted and started.\<close>

definition two_writes_0 :: "unit write_system" where
  "two_writes_0 = \<lparr>ws_m = new_maintenance \<lparr>wc_maxPendingWrites = None, wc_maxActiveKeys = None,
     wc_maxPendingWritesPerKey = None\<rparr>, ws_ops = [], ws_next = 0\<rparr>"

definition two_writes_2 :: "unit write_system" where
  "two_writes_2 = snd (runSerializedWrites [''b''] (snd (runSerializedWrites [''a''] two_writes_0)))"

definition two_writes :: "unit write_system" where
  "two_writes = two_writes_2\<lparr>ws_ops :=
     [\<lparr>wop_id = 0, wop_keys = [''a''], wop_deps = [], wop_running = False\<rparr>,
      \<lparr>wop_id = 1, wop_keys = [''b''], wop_deps = [], wop_running = True\<rparr>]\<rparr>"

lemma two_writes_2_ops: "ws_ops two_writes_2 =
   [\<lparr>wop_id = 0, wop_keys = [''a''], wop_deps = [], wop_running = False\<rparr>,
    \<lparr>wop_id = 1, wop_keys = [''b''], wop_deps = [], wop_running = False\<rparr>]"
  by (simp add: two_writes_2_def two_writes_0_def runSerializedWrites_def new_maintenance_def js_unique_def
      js_add_def List.map_filter_def)

lemma two_writes_reach: "ws_step\<^sup>*\<^sup>* \<lparr>ws_m = new_maintenance \<lparr>wc_maxPendingWrites = None, wc_maxActiveKeys = None,
     wc_maxPendingWritesPerKey = None\<rparr>, ws_ops = [], ws_next = 0\<rparr> two_writes"
proof -
  have "ws_step two_writes_0 (snd (runSerializedWrites [''a''] two_writes_0))"
    "ws_step (snd (runSerializedWrites [''a''] two_writes_0)) two_writes_2"
    unfolding two_writes_2_def by (rule ws_step.admit, rule prod.collapse [symmetric])+
  moreover have "ws_step two_writes_2 two_writes"
    using ws_step.start [where s = two_writes_2 and xs = "[\<lparr>wop_id = 0, wop_keys = [''a''], wop_deps = [], wop_running = False\<rparr>]"
        and w = "\<lparr>wop_id = 1, wop_keys = [''b''], wop_deps = [], wop_running = False\<rparr>" and ys = "[]"]
    by (simp add: two_writes_def two_writes_2_ops)
  ultimately show ?thesis unfolding two_writes_0_def [symmetric] by (meson converse_rtranclp_into_rtranclp r_into_rtranclp)
qed

lemma two_writes_ops [simp]: "ws_ops two_writes =
   [\<lparr>wop_id = 0, wop_keys = [''a''], wop_deps = [], wop_running = False\<rparr>,
    \<lparr>wop_id = 1, wop_keys = [''b''], wop_deps = [], wop_running = True\<rparr>]"
  by (simp add: two_writes_def)

text \<open>
  C16: writes to a key never overlap and run in order. In every reachable state of the write
  coordinator, an operation that is running shares no key with any operation admitted before it that
  has not settled; in particular two running operations have disjoint keys.
\<close>

theorem serialized_writes_exclusive:
  assumes "ws_step\<^sup>*\<^sup>* \<lparr>ws_m = new_maintenance opts, ws_ops = [], ws_next = 0\<rparr> s"
    and "i < j" "j < length (ws_ops s)" "wop_running (ws_ops s ! j)"
  shows "set (wop_keys (ws_ops s ! i)) \<inter> set (wop_keys (ws_ops s ! j)) = {}"
proof -
  have "ws_ops s = take j (ws_ops s) @ ws_ops s ! j # drop (Suc j) (ws_ops s)"
    using assms(3) by (rule id_take_nth_drop)
  moreover have "ws_ops s ! i \<in> set (take j (ws_ops s))"
    using assms(2,3) by (auto simp: in_set_conv_nth intro!: exI [of _ i])
  ultimately show ?thesis
    using running_first [OF write_ok_reach [OF assms(1) write_ok_init [OF fresh_new]]] assms(4) by blast
qed

theorem serialized_writes_exclusive_witness:
  "wop_running (ws_ops two_writes ! 1) \<and>
   set (wop_keys (ws_ops two_writes ! 0)) \<inter> set (wop_keys (ws_ops two_writes ! 1)) = {}"
  using serialized_writes_exclusive [OF two_writes_reach, of 0 1] by simp

text \<open>
  Admission limits and accounting. In every reachable state the unsettled writes stay within the
  configured limits (total key units, distinct active keys, depth per key) and the counters equal
  what the unsettled operations hold; when none is left, all three tables are empty again.
\<close>

theorem write_admission_bounded:
  assumes "ws_step\<^sup>*\<^sup>* \<lparr>ws_m = new_maintenance opts, ws_ops = [], ws_next = 0\<rparr> s"
  shows "sum_list (map (length \<circ> wop_keys) (ws_ops s)) = mt_pendingWriteUnits (ws_m s) \<and>
     mt_pendingWriteUnits (ws_m s) \<le> mt_maxPendingWrites (ws_m s) \<and>
     length (mt_writeChains (ws_m s)) \<le> mt_maxActiveWriteKeys (ws_m s) \<and>
     length (filter (\<lambda>w. k \<in> set (wop_keys w)) (ws_ops s)) = nullish (map_of (mt_pendingWritesByKey (ws_m s)) k) 0 \<and>
     length (filter (\<lambda>w. k \<in> set (wop_keys w)) (ws_ops s)) \<le> mt_maxPendingWritesPerKey (ws_m s) \<and>
     (ws_ops s = [] \<longrightarrow> mt_writeChains (ws_m s) = [] \<and> mt_pendingWritesByKey (ws_m s) = [])"
proof -
  have ok: "write_ok s" using write_ok_reach [OF assms write_ok_init [OF fresh_new]] .
  have d: "length (filter (\<lambda>w. k \<in> set (wop_keys w)) (ws_ops s)) = depth_of k (ws_ops s)"
    by (simp add: depth_of_def touches_def [abs_def])
  have e: "m = []" if "\<forall>k. map_of m k = None" for m :: "(string, nat) jsmap"
    using that by (cases m) (auto split: if_splits)
  show ?thesis
    unfolding d using ok by (auto simp: write_ok_defs intro!: e)
qed

theorem write_admission_bounded_witness:
  "mt_pendingWriteUnits (ws_m two_writes) = 2 \<and> mt_pendingWriteUnits (ws_m two_writes) \<le> mt_maxPendingWrites (ws_m two_writes)"
  using write_admission_bounded [OF two_writes_reach, of "''a''"] by simp

text \<open>
  No deadlock. In every reachable state with unsettled writes, the oldest one is running or can
  start at once, whatever keys the others hold.
\<close>

theorem oldest_write_can_run:
  assumes "ws_step\<^sup>*\<^sup>* \<lparr>ws_m = new_maintenance opts, ws_ops = [], ws_next = 0\<rparr> s" and "ws_ops s = w # ws"
  shows "set (wop_deps w) \<inter> wop_id ` set (ws_ops s) = {} \<and>
     ws_step s (s\<lparr>ws_ops := w\<lparr>wop_running := True\<rparr> # ws\<rparr>)"
proof -
  have "waits_ok (ws_ops s)"
    using write_ok_reach [OF assms(1) write_ok_init [OF fresh_new]] by (simp add: write_ok_def)
  then have "set (wop_deps w) \<inter> wop_id ` set (ws_ops s) = {}"
    using assms(2) unfolding waits_ok_def by (metis append_Nil)
  then show ?thesis
    using ws_step.start [of s "[]" w ws] assms(2) by simp
qed

theorem oldest_write_can_run_witness:
  "\<exists>s. ws_step two_writes s \<and> wop_running (hd (ws_ops s))"
  using oldest_write_can_run [OF two_writes_reach two_writes_ops] by (intro exI conjI) auto

end
