(* ===== verification/Generation.thy ===== *)
theory Generation
  imports Types
begin

text \<open>
  Generation prefixes and cleanup planning (\<open>src/src/internal/CacheStackGeneration.ts\<close>). A
  generation is a non-negative integer (the stack validates it) printed in decimal.
\<close>

fun digit :: "nat \<Rightarrow> char" where
  "digit n = char_of (48 + n)"

fun decimal :: "nat \<Rightarrow> string" where
  \<comment> \<open>the decimal text of a non-negative integer, as a template literal prints it\<close>
  "decimal n = (if n < 10 then [digit n] else decimal (n div 10) @ [digit (n mod 10)])"

declare decimal.simps [simp del]

definition generationPrefix :: "nat option \<Rightarrow> string" where
  "generationPrefix generation = (case generation of
      None \<Rightarrow> '''' | Some g \<Rightarrow> ''v'' @ decimal g @ '':'')"

definition qualifyGenerationKey :: "string \<Rightarrow> nat option \<Rightarrow> string" where
  "qualifyGenerationKey key generation =
    (let pre = generationPrefix generation in if pre \<noteq> [] then pre @ key else key)"

definition qualifyGenerationPattern :: "string \<Rightarrow> nat option \<Rightarrow> string" where
  "qualifyGenerationPattern pattern generation = qualifyGenerationKey pattern generation"

definition stripGenerationPrefix :: "string \<Rightarrow> nat option \<Rightarrow> string" where
  "stripGenerationPrefix key generation =
    (let pre = generationPrefix generation in
     if pre = [] \<or> \<not> prefix pre key then key else drop (length pre) key)"

definition gc_enabled :: "generation_cleanup option \<Rightarrow> bool" where
  \<comment> \<open>truthiness of the configuration: an object is truthy\<close>
  "gc_enabled c = (case c of None \<Rightarrow> False | Some (GcBool b) \<Rightarrow> b | Some (GcOptions _ _) \<Rightarrow> True)"

definition resolveGenerationCleanupTarget ::
    "nat option \<Rightarrow> nat \<Rightarrow> generation_cleanup option \<Rightarrow> nat option" where
  "resolveGenerationCleanupTarget previousGeneration nextGeneration cleanup =
    (if \<not> gc_enabled cleanup \<or> previousGeneration = None \<or> previousGeneration = Some nextGeneration
     then None else previousGeneration)"

definition resolveGenerationCleanupBatchSize :: "generation_cleanup option \<Rightarrow> nat" where
  "resolveGenerationCleanupBatchSize cleanup = (case cleanup of
      Some (GcOptions batchSize _) \<Rightarrow> nullish batchSize 500 | _ \<Rightarrow> 500)"

definition resolveGenerationCleanupMaxMatches :: "generation_cleanup option \<Rightarrow> match_limit" where
  "resolveGenerationCleanupMaxMatches cleanup = (case cleanup of
      Some (GcOptions _ maxMatches) \<Rightarrow> nullish maxMatches (Limit 10000) | _ \<Rightarrow> Limit 10000)"

text \<open>
  The loop \<open>for (index = 0; index < keys.length; index += batchSize)\<close>; a zero batch size (which
  the stack's validation refuses) would not advance, and is the value \<open>None\<close>.
\<close>

function batches_from :: "nat \<Rightarrow> 'a list \<Rightarrow> nat \<Rightarrow> 'a list list option" where
  "batches_from n keys index =
    (if n = 0 then (if index < length keys then None else Some [])
     else if index < length keys
     then map_option (\<lambda>rest. take n (drop index keys) # rest) (batches_from n keys (index + n))
     else Some [])"
  by auto
termination by (relation "measure (\<lambda>(n, keys, index). length keys - index)") auto

declare batches_from.simps [simp del]

definition planGenerationCleanupBatches ::
    "string list \<Rightarrow> generation_cleanup option \<Rightarrow> string list list option" where
  "planGenerationCleanupBatches keys cleanup =
    (if keys = [] then Some [] else batches_from (resolveGenerationCleanupBatchSize cleanup) keys 0)"

subsection \<open>Lemmas\<close>

lemma decimal_digits: "set (decimal n) \<subseteq> (\<lambda>d. char_of (48 + d)) ` {0..<10::nat}"
proof (induction n rule: decimal.induct)
  case (1 n)
  then show ?case by (subst decimal.simps) (auto split: if_splits)
qed

lemma colon_not_decimal: "CHR '':'' \<notin> set (decimal n)"
proof
  assume "CHR '':'' \<in> set (decimal n)"
  then obtain d where "d < (10::nat)" "CHR '':'' = (char_of (48 + d) :: char)"
    using decimal_digits by fastforce
  then have "of_char (CHR '':'') = (48 + d :: nat)" by simp
  then show False using \<open>d < 10\<close> by simp
qed

lemma digit_inj: "m < 10 \<Longrightarrow> n < 10 \<Longrightarrow> digit m = digit n \<longleftrightarrow> m = n"
  by (simp add: char_of_eq_iff take_bit_nat_eq_self)

lemma decimal_ne [simp]: "decimal n \<noteq> []" "[] \<noteq> decimal n"
  by (subst decimal.simps, simp)+

lemma decimal_inj: "decimal m = decimal n \<Longrightarrow> m = n"
proof (induction m arbitrary: n rule: decimal.induct)
  case (1 m)
  show ?case
  proof (cases "m < 10")
    case True
    then show ?thesis
      using 1(2) decimal.simps [of m] decimal.simps [of n] digit_inj
      by (auto simp del: digit.simps simp: append_eq_Cons_conv split: if_splits)
  next
    case False
    then have e: "decimal (m div 10) @ [digit (m mod 10)] = decimal n"
      using 1(2) decimal.simps [of m] by simp
    then have n: "\<not> n < 10"
      using decimal.simps [of n] by (auto simp: append_eq_Cons_conv split: if_splits)
    then have "decimal (m div 10) = decimal (n div 10)" "digit (m mod 10) = digit (n mod 10)"
      using e decimal.simps [of n] by (simp_all del: digit.simps)
    then show ?thesis
      using 1(1) [OF False, of "n div 10"] digit_inj [of "m mod 10" "n mod 10"]
      by (metis div_mult_mod_eq mod_less_divisor zero_less_numeral)
  qed
qed

lemma generationPrefix_Some: "generationPrefix (Some g) = ''v'' @ decimal g @ '':''"
  by (simp add: generationPrefix_def)

lemma qualify_form: "qualifyGenerationKey key g = generationPrefix g @ key"
  by (simp add: qualifyGenerationKey_def Let_def)

lemma prefix_generation:
  "prefix (generationPrefix (Some g)) (generationPrefix (Some h) @ key) \<longleftrightarrow> g = h"
proof
  assume "prefix (generationPrefix (Some g)) (generationPrefix (Some h) @ key)"
  then obtain z where z: "decimal h @ CHR '':'' # key = decimal g @ CHR '':'' # z"
    by (auto simp: generationPrefix_Some prefix_def)
  have "decimal h = takeWhile (\<lambda>c. c \<noteq> CHR '':'') (decimal h @ CHR '':'' # key)"
    using colon_not_decimal [of h] by (subst takeWhile_append2) auto
  also have "\<dots> = decimal g"
    unfolding z using colon_not_decimal [of g] by (subst takeWhile_append2) auto
  finally show "g = h" using decimal_inj by metis
qed simp

text \<open>
  Generations partition the key space. A key qualified under one generation is stripped back to
  itself under the same generation, and under a different generation neither carries the prefix nor
  equals any key qualified there: bumping the generation makes every old key unreachable.
\<close>

theorem generation_isolation:
  "stripGenerationPrefix (qualifyGenerationKey key g) g = key \<and>
   (qualifyGenerationKey key (Some m) = qualifyGenerationKey key' (Some n) \<longleftrightarrow> m = n \<and> key = key') \<and>
   (prefix (generationPrefix (Some m)) (qualifyGenerationKey key (Some n)) \<longleftrightarrow> m = n)"
proof (intro conjI)
  show "stripGenerationPrefix (qualifyGenerationKey key g) g = key"
    by (cases g) (simp_all add: stripGenerationPrefix_def qualify_form Let_def)
  show "(qualifyGenerationKey key (Some m) = qualifyGenerationKey key' (Some n)) = (m = n \<and> key = key')"
  proof
    assume "qualifyGenerationKey key (Some m) = qualifyGenerationKey key' (Some n)"
    then have "m = n" "generationPrefix (Some m) @ key = generationPrefix (Some n) @ key'"
      using prefix_generation by (metis qualify_form prefixI)+
    then show "m = n \<and> key = key'" by simp
  qed simp
  show "prefix (generationPrefix (Some m)) (qualifyGenerationKey key (Some n)) = (m = n)"
    by (simp add: qualify_form prefix_generation)
qed

lemma batches_from_spec:
  assumes "0 < n" "index \<le> length keys"
  shows "\<exists>bs. batches_from n keys index = Some bs \<and> concat bs = drop index keys \<and>
     (\<forall>b \<in> set bs. b \<noteq> [] \<and> length b \<le> n)"
  using assms(2)
proof (induction "length keys - index" arbitrary: index rule: less_induct)
  case less
  show ?case
  proof (cases "index < length keys")
    case False
    then show ?thesis using assms(1) less(2) by (subst batches_from.simps) auto
  next
    case True
    have "\<exists>bs. batches_from n keys (index + n) = Some bs \<and> concat bs = drop (index + n) keys \<and>
        (\<forall>b \<in> set bs. b \<noteq> [] \<and> length b \<le> n)"
    proof (cases "index + n \<le> length keys")
      case True
      then show ?thesis using less(1) [of "index + n"] \<open>index < length keys\<close> assms(1) by simp
    next
      case False
      then show ?thesis using assms(1) by (subst batches_from.simps) auto
    qed
    then obtain bs where bs: "batches_from n keys (index + n) = Some bs"
      "concat bs = drop (index + n) keys" "\<forall>b \<in> set bs. b \<noteq> [] \<and> length b \<le> n" by blast
    have "take n (drop index keys) @ drop (index + n) keys = drop index keys"
      by (metis append_take_drop_id drop_drop add.commute)
    then show ?thesis
      using bs True assms(1) by (subst batches_from.simps) auto
  qed
qed

text \<open>
  Cleanup batches cover the old keys. For every validated (positive) batch size the plan
  terminates, its batches concatenate to exactly the keys in order, and each is non-empty and no
  longer than the batch size.
\<close>

theorem cleanup_batches_cover:
  assumes "0 < resolveGenerationCleanupBatchSize c"
  shows "\<exists>bs. planGenerationCleanupBatches keys c = Some bs \<and> concat bs = keys \<and>
     (\<forall>b \<in> set bs. b \<noteq> [] \<and> length b \<le> resolveGenerationCleanupBatchSize c)"
  using batches_from_spec [OF assms, of 0 keys] by (auto simp: planGenerationCleanupBatches_def)

theorem cleanup_batches_cover_witness:
  "\<exists>bs. planGenerationCleanupBatches [''a'', ''b'', ''c''] (Some (GcOptions (Some 2) None)) = Some bs \<and>
     concat bs = [''a'', ''b'', ''c'']"
  using cleanup_batches_cover [of "Some (GcOptions (Some 2) None)" "[''a'', ''b'', ''c'']"]
  by (auto simp: resolveGenerationCleanupBatchSize_def)

end
