(* ===== verification/FetchRateLimiter.thy ===== *)
theory FetchRateLimiter
  imports Generation
begin

text \<open>
  The fetcher rate limiter (\<open>src/src/internal/FetchRateLimiter.ts\<close>): per-bucket FIFO queues drained
  under a concurrency bound and a sliding-window bound. A queued task is its item; the tasks a drain
  starts are its result. A bucket object is identified with its table entry: buckets with running
  tasks are only dropped by \<open>dispose\<close>, after which the limiter does nothing. Timers are recorded as
  armed (with their deadline or interval) and fire as steps of the system below.
\<close>

subsection \<open>State\<close>

record rl_item =
  ri_id :: nat
  ri_bucketKey :: string
  ri_options :: rate_limit_options

record bucket =
  bk_active :: nat
  bk_startedAt :: "real list"
  bk_cleanupTimer :: "real option"

record limiter =
  rl_buckets :: "(string, bucket) jsmap"
  rl_queues :: "(string, rl_item list) jsmap"
  rl_pending :: "string list"
  rl_fetcherBuckets :: "(nat, string) jsmap"
  rl_nextFetcherBucketId :: nat
  rl_drainTimer :: "real option"
  rl_drainScheduled :: bool
  rl_isDisposed :: bool
  rl_bypasses :: nat

record schedule_context =
  sx_key :: string
  sx_fetcher :: nat   \<comment> \<open>identity of the fetcher function\<close>

definition MAX_BUCKETS :: nat where
  "MAX_BUCKETS = 10000"

definition MAX_QUEUE_PER_BUCKET :: nat where
  "MAX_QUEUE_PER_BUCKET = 10000"

definition new_limiter :: limiter where
  "new_limiter = \<lparr>rl_buckets = [], rl_queues = [], rl_pending = [], rl_fetcherBuckets = [],
     rl_nextFetcherBucketId = 0, rl_drainTimer = None, rl_drainScheduled = False,
     rl_isDisposed = False, rl_bypasses = 0\<rparr>"

definition ntruthy :: "nat option \<Rightarrow> bool" where
  "ntruthy a = (case a of None \<Rightarrow> False | Some n \<Rightarrow> n \<noteq> 0)"

definition rl_windowed :: "rate_limit_options \<Rightarrow> bool" where
  \<comment> \<open>\<open>options.intervalMs && options.maxPerInterval\<close>\<close>
  "rl_windowed opts = (truthy (rl_intervalMs opts) \<and> ntruthy (rl_maxPerInterval opts))"

subsection \<open>Options and bucket keys\<close>

definition rl_normalize :: "rate_limit_options \<Rightarrow> rate_limit_options option" where
  "rl_normalize opts =
    (if \<not> ntruthy (rl_maxConcurrent opts) \<and> \<not> rl_windowed opts then None
     else Some (opts\<lparr>rl_scope := Some (nullish (rl_scope opts) RGlobal)\<rparr>))"

definition resolveBucketKey :: "rate_limit_options \<Rightarrow> schedule_context \<Rightarrow> limiter \<Rightarrow> string \<times> limiter" where
  "resolveBucketKey opts ctx l =
    (if rl_bucketKey opts \<noteq> None \<and> rl_bucketKey opts \<noteq> Some [] then (''custom:'' @ the (rl_bucketKey opts), l)
     else if rl_scope opts = Some RKey then (''key:'' @ sx_key ctx, l)
     else if rl_scope opts = Some RFetcher then
       (case map_of (rl_fetcherBuckets l) (sx_fetcher ctx) of
          Some b \<Rightarrow> (b, l)
        | None \<Rightarrow> (let b = ''fetcher:'' @ decimal (rl_nextFetcherBucketId l)
             in (b, l\<lparr>rl_nextFetcherBucketId := rl_nextFetcherBucketId l + 1,
                     rl_fetcherBuckets := AList.update (sx_fetcher ctx) b (rl_fetcherBuckets l)\<rparr>)))
     else (''global'', l))"

subsection \<open>Buckets\<close>

fun evict_idle :: "(string \<times> bucket) list \<Rightarrow> limiter \<Rightarrow> limiter" where
  \<comment> \<open>the loop of \<open>evictIdleBuckets\<close> over the entries in insertion order\<close>
  "evict_idle [] l = l"
| "evict_idle ((key, b) # es) l =
    (if 10 * length (rl_buckets l) \<le> 9 * MAX_BUCKETS then l
     else if bk_active b = 0 \<and> bk_startedAt b = [] \<and> map_of (rl_queues l) key = None
     then evict_idle es (l\<lparr>rl_buckets := AList.delete key (rl_buckets l),
            rl_queues := AList.delete key (rl_queues l), rl_pending := js_remove key (rl_pending l)\<rparr>)
     else evict_idle es l)"

definition bucketState :: "string \<Rightarrow> limiter \<Rightarrow> bucket result \<times> limiter" where
  "bucketState key l =
    (if rl_isDisposed l then (Inl (FetchRateLimit ''FetchRateLimiter has been disposed.''), l)
     else case map_of (rl_buckets l) key of
       Some b \<Rightarrow> (Inr b, l)
     | None \<Rightarrow>
        (let l1 = (if length (rl_buckets l) \<ge> MAX_BUCKETS then evict_idle (rl_buckets l) l else l);
             b = \<lparr>bk_active = 0, bk_startedAt = [], bk_cleanupTimer = None\<rparr>
         in if length (rl_buckets l) \<ge> MAX_BUCKETS \<and> length (rl_buckets l1) \<ge> MAX_BUCKETS
            then (Inl (FetchRateLimit ''FetchRateLimiter bucket limit exceeded.''), l1)
            else (Inr b, l1\<lparr>rl_buckets := AList.update key b (rl_buckets l1)\<rparr>)))"

definition set_bucket :: "string \<Rightarrow> bucket \<Rightarrow> limiter \<Rightarrow> limiter" where
  \<comment> \<open>mutation of a bucket object that is in the table\<close>
  "set_bucket key b l = l\<lparr>rl_buckets := AList.update key b (rl_buckets l)\<rparr>"

definition rl_prune :: "real \<Rightarrow> real \<Rightarrow> bucket \<Rightarrow> bucket" where
  "rl_prune now intervalMs b = b\<lparr>bk_startedAt := dropWhile (\<lambda>s. \<not> now - s < intervalMs) (bk_startedAt b)\<rparr>"

definition waitTime :: "real \<Rightarrow> string \<Rightarrow> rate_limit_options \<Rightarrow> limiter \<Rightarrow> real result \<times> limiter" where
  "waitTime now key opts l = (case bucketState key l of
      (Inl e, l1) \<Rightarrow> (Inl e, l1)
    | (Inr b, l1) \<Rightarrow>
        if ntruthy (rl_maxConcurrent opts) \<and> bk_active b \<ge> the (rl_maxConcurrent opts) then (Inr 1, l1)
        else if \<not> rl_windowed opts then (Inr 0, l1)
        else let b1 = rl_prune now (the (rl_intervalMs opts)) b; l2 = set_bucket key b1 l1
             in if length (bk_startedAt b1) < the (rl_maxPerInterval opts) then (Inr 0, l2)
                else case bk_startedAt b1 of
                   [] \<Rightarrow> (Inr 0, l2)
                 | oldest # _ \<Rightarrow>
                    if oldest = 0 then (Inr 0, l2)
                    else (Inr (max 1 (the (rl_intervalMs opts) - (now - oldest))), l2))"

subsection \<open>Scheduling and draining\<close>

definition scheduleDrain :: "real \<Rightarrow> real option \<Rightarrow> limiter \<Rightarrow> limiter" where
  \<comment> \<open>\<open>None\<close> is an infinite delay\<close>
  "scheduleDrain now delayMs l = (case delayMs of
      None \<Rightarrow> l
    | Some d \<Rightarrow>
        if rl_isDisposed l then l
        else if d \<le> 0 then l\<lparr>rl_drainTimer := None, rl_drainScheduled := True\<rparr>
        else if rl_drainScheduled l then l
        else let deadline = now + d in
          if rl_drainTimer l \<noteq> None \<and> the (rl_drainTimer l) \<le> deadline then l
          else l\<lparr>rl_drainTimer := Some deadline\<rparr>)"

datatype rl_outcome = RunNow | Queued | Refused error

definition rl_schedule ::
    "real \<Rightarrow> rate_limit_options option \<Rightarrow> schedule_context \<Rightarrow> nat \<Rightarrow> limiter \<Rightarrow> rl_outcome \<times> limiter" where
  "rl_schedule now options ctx task l =
    (if rl_isDisposed l then (Refused (FetchRateLimit ''FetchRateLimiter has been disposed.''), l)
     else case options of
       None \<Rightarrow> (RunNow, l)
     | Some opts \<Rightarrow> (case rl_normalize opts of
         None \<Rightarrow> (RunNow, l)
       | Some normalized \<Rightarrow>
          (let (key, l1) = resolveBucketKey normalized ctx l
           in case bucketState key l1 of
              (Inl e, l2) \<Rightarrow> (Refused e, l2)
            | (Inr b, l2) \<Rightarrow>
               (let queue = nullish (map_of (rl_queues l2) key) []
                in if length queue \<ge> MAX_QUEUE_PER_BUCKET
                   then if nullish (rl_queueOverflow normalized) QReject = QBypass
                        then (RunNow, l2\<lparr>rl_bypasses := rl_bypasses l2 + 1\<rparr>)
                        else (Refused (FetchRateLimit (''FetchRateLimiter queue overflow for bucket '' @ key)), l2)
                   else (Queued, scheduleDrain now (Some 0)
                     (l2\<lparr>rl_queues := AList.update key
                           (queue @ [\<lparr>ri_id = task, ri_bucketKey = key, ri_options = normalized\<rparr>]) (rl_queues l2),
                         rl_pending := js_add key (rl_pending l2)\<rparr>))))))"

definition drop_queue :: "string \<Rightarrow> limiter \<Rightarrow> limiter" where
  "drop_queue key l = l\<lparr>rl_pending := js_remove key (rl_pending l), rl_queues := AList.delete key (rl_queues l)\<rparr>"

definition start_item :: "real \<Rightarrow> rl_item \<Rightarrow> bucket \<Rightarrow> bucket" where
  "start_item now it b = b\<lparr>bk_cleanupTimer := None, bk_active := bk_active b + 1,
     bk_startedAt := (if rl_windowed (ri_options it) then bk_startedAt b @ [now] else bk_startedAt b)\<rparr>"

definition min_wait :: "real option \<Rightarrow> real \<Rightarrow> real option" where
  "min_wait a w = (case a of None \<Rightarrow> Some w | Some x \<Rightarrow> Some (min x w))"

fun drain_loop ::
    "real \<Rightarrow> string list \<Rightarrow> limiter \<Rightarrow> real option \<Rightarrow> rl_item list \<Rightarrow> (real option \<times> rl_item list) result \<times> limiter" where
  "drain_loop now [] l wait started = (Inr (wait, started), l)"
| "drain_loop now (key # keys) l wait started = (case map_of (rl_queues l) key of
      None \<Rightarrow> drain_loop now keys (drop_queue key l) wait started
    | Some [] \<Rightarrow> drain_loop now keys (drop_queue key l) wait started
    | Some (next # queue) \<Rightarrow> (case waitTime now key (ri_options next) l of
        (Inl e, l1) \<Rightarrow> (Inl e, l1)
      | (Inr waitMs, l1) \<Rightarrow>
          if waitMs > 0 then drain_loop now keys l1 (min_wait wait waitMs) started
          else let l2 = (if queue = [] then drop_queue key l1
                         else l1\<lparr>rl_queues := AList.update key queue (rl_queues l1)\<rparr>)
               in case bucketState (ri_bucketKey next) l2 of
                   (Inl e, l3) \<Rightarrow> (Inl e, l3)
                 | (Inr b, l3) \<Rightarrow>
                    drain_loop now keys (set_bucket (ri_bucketKey next) (start_item now next b) l3)
                      wait (started @ [next])))"

definition drain :: "real \<Rightarrow> limiter \<Rightarrow> rl_item list result \<times> limiter" where
  \<comment> \<open>the tasks it starts\<close>
  "drain now l =
    (if rl_isDisposed l then (Inr [], l)
     else let l1 = l\<lparr>rl_drainTimer := None\<rparr>
          in case drain_loop now (rl_pending l1) l1 None [] of
               (Inl e, l2) \<Rightarrow> (Inl e, l2)
             | (Inr (nextWaitMs, started), l2) \<Rightarrow>
                 (Inr started, if length (rl_pending l2) > 0
                    then scheduleDrain now (if started \<noteq> [] then Some 0 else nextWaitMs) l2 else l2))"

definition queued_count :: "string \<Rightarrow> limiter \<Rightarrow> nat" where
  "queued_count key l = (case map_of (rl_queues l) key of None \<Rightarrow> 0 | Some q \<Rightarrow> length q)"

definition forget_bucket :: "string \<Rightarrow> limiter \<Rightarrow> limiter" where
  "forget_bucket key l = l\<lparr>rl_buckets := AList.delete key (rl_buckets l),
     rl_queues := AList.delete key (rl_queues l), rl_pending := js_remove key (rl_pending l)\<rparr>"

definition cleanupBucket :: "string \<Rightarrow> bucket \<Rightarrow> real option \<Rightarrow> limiter \<Rightarrow> limiter" where
  "cleanupBucket key b intervalMs l =
    (let queued = queued_count key l in
     if queued = 0 \<and> bk_active b = 0 \<and> bk_startedAt b = [] then forget_bucket key l
     else if \<not> truthy intervalMs \<or> bk_active b > 0 \<or> queued > 0 then l
     else set_bucket key (b\<lparr>bk_cleanupTimer := intervalMs\<rparr>) l)"

definition cleanup_fires :: "real \<Rightarrow> string \<Rightarrow> limiter \<Rightarrow> limiter" where
  \<comment> \<open>the callback of the cleanup timer\<close>
  "cleanup_fires now key l = (case map_of (rl_buckets l) key of
      None \<Rightarrow> l
    | Some b \<Rightarrow> (case bk_cleanupTimer b of
        None \<Rightarrow> l
      | Some intervalMs \<Rightarrow>
         (let b1 = rl_prune now intervalMs (b\<lparr>bk_cleanupTimer := None\<rparr>); l1 = set_bucket key b1 l
          in if bk_active b1 = 0 \<and> bk_startedAt b1 = [] \<and> queued_count key l1 = 0
             then forget_bucket key l1 else l1)))"

definition finish_item :: "real \<Rightarrow> rl_item \<Rightarrow> limiter \<Rightarrow> limiter" where
  \<comment> \<open>the \<open>finally\<close> handler of a started task\<close>
  "finish_item now it l =
    (let key = ri_bucketKey it in
     case map_of (rl_buckets l) key of
       None \<Rightarrow> scheduleDrain now (Some 0) l
     | Some b \<Rightarrow>
        (let b1 = b\<lparr>bk_active := bk_active b - 1\<rparr>;
             l1 = set_bucket key b1 l;
             l2 = (if queued_count key l1 > 0 then l1\<lparr>rl_pending := js_add key (rl_pending l1)\<rparr> else l1)
         in scheduleDrain now (Some 0) (cleanupBucket key b1 (rl_intervalMs (ri_options it)) l2)))"

definition rl_dispose :: "limiter \<Rightarrow> rl_item list \<times> limiter" where
  \<comment> \<open>with the queued tasks it rejects\<close>
  "rl_dispose l = (concat (map snd (rl_queues l)),
     l\<lparr>rl_isDisposed := True, rl_drainTimer := None, rl_drainScheduled := False,
       rl_queues := [], rl_pending := [], rl_buckets := []\<rparr>)"

subsection \<open>Interleavings\<close>

record limiter_system =
  ls_limiter :: limiter
  ls_now :: real
  ls_running :: "rl_item list"   \<comment> \<open>tasks started by a drain and not finished\<close>
  ls_starts :: "(string \<times> real) list"   \<comment> \<open>bucket and time of every start\<close>

inductive rl_step :: "limiter_system \<Rightarrow> limiter_system \<Rightarrow> bool" where
  schedule: "rl_schedule (ls_now s) opts ctx task (ls_limiter s) = (r, l) \<Longrightarrow> rl_step s (s\<lparr>ls_limiter := l\<rparr>)"
| microtask: "rl_drainScheduled (ls_limiter s) \<Longrightarrow>
    drain (ls_now s) (ls_limiter s\<lparr>rl_drainScheduled := False\<rparr>) = (Inr started, l) \<Longrightarrow>
    rl_step s (s\<lparr>ls_limiter := l, ls_running := ls_running s @ started,
      ls_starts := ls_starts s @ map (\<lambda>it. (ri_bucketKey it, ls_now s)) started\<rparr>)"
| microtask_throws: "rl_drainScheduled (ls_limiter s) \<Longrightarrow>
    drain (ls_now s) (ls_limiter s\<lparr>rl_drainScheduled := False\<rparr>) = (Inl e, l) \<Longrightarrow> rl_step s (s\<lparr>ls_limiter := l\<rparr>)"
| timer: "rl_drainTimer (ls_limiter s) \<noteq> None \<Longrightarrow>
    drain (ls_now s) (ls_limiter s\<lparr>rl_drainTimer := None\<rparr>) = (Inr started, l) \<Longrightarrow>
    rl_step s (s\<lparr>ls_limiter := l, ls_running := ls_running s @ started,
      ls_starts := ls_starts s @ map (\<lambda>it. (ri_bucketKey it, ls_now s)) started\<rparr>)"
| timer_throws: "rl_drainTimer (ls_limiter s) \<noteq> None \<Longrightarrow>
    drain (ls_now s) (ls_limiter s\<lparr>rl_drainTimer := None\<rparr>) = (Inl e, l) \<Longrightarrow> rl_step s (s\<lparr>ls_limiter := l\<rparr>)"
| finish: "it \<in> set (ls_running s) \<Longrightarrow>
    rl_step s (s\<lparr>ls_limiter := finish_item (ls_now s) it (ls_limiter s), ls_running := remove1 it (ls_running s)\<rparr>)"
| cleanup: "rl_step s (s\<lparr>ls_limiter := cleanup_fires (ls_now s) key (ls_limiter s)\<rparr>)"
| disposed: "rl_dispose (ls_limiter s) = (rejected, l) \<Longrightarrow> rl_step s (s\<lparr>ls_limiter := l\<rparr>)"
| pass: "ls_now s \<le> t \<Longrightarrow> rl_step s (s\<lparr>ls_now := t\<rparr>)"

inductive_cases rl_stepE: "rl_step s s'"

end
