(* ===== verification/RateLimits.thy ===== *)
theory RateLimits
  imports FetchRateLimiter
begin

text \<open>
  Correctness of the fetcher rate limiter (theory FetchRateLimiter): no queued task is ever left
  without a wake-up, tables stay within their bounds, and in every reachable state the concurrency
  bound and the sliding-window bound of a bucket hold.
\<close>

subsection \<open>The table invariant\<close>

definition lim_ok :: "limiter \<Rightarrow> bool" where
  "lim_ok l \<longleftrightarrow> jsmap_ok (rl_buckets l) \<and> jsmap_ok (rl_queues l) \<and> distinct (rl_pending l) \<and>
     (\<forall>k. k \<in> set (rl_pending l) \<longleftrightarrow> map_of (rl_queues l) k \<noteq> None) \<and>
     (\<forall>k q. map_of (rl_queues l) k = Some q \<longrightarrow> q \<noteq> [] \<and> length q \<le> MAX_QUEUE_PER_BUCKET \<and>
        map_of (rl_buckets l) k \<noteq> None \<and> (\<forall>it \<in> set q. ri_bucketKey it = k)) \<and>
     length (rl_buckets l) \<le> MAX_BUCKETS"

lemma lim_okD:
  assumes "lim_ok l"
  shows "jsmap_ok (rl_buckets l)" "jsmap_ok (rl_queues l)" "distinct (rl_pending l)"
    "k \<in> set (rl_pending l) \<longleftrightarrow> map_of (rl_queues l) k \<noteq> None"
    "map_of (rl_queues l) k = Some q \<Longrightarrow> q \<noteq> []"
    "map_of (rl_queues l) k = Some q \<Longrightarrow> length q \<le> MAX_QUEUE_PER_BUCKET"
    "map_of (rl_queues l) k = Some q \<Longrightarrow> \<exists>b. map_of (rl_buckets l) k = Some b"
    "map_of (rl_queues l) k = Some q \<Longrightarrow> it \<in> set q \<Longrightarrow> ri_bucketKey it = k"
    "length (rl_buckets l) \<le> MAX_BUCKETS"
  using assms unfolding lim_ok_def by (blast | auto)+

lemma bucketState_existing:
  "\<not> rl_isDisposed l \<Longrightarrow> map_of (rl_buckets l) key = Some b \<Longrightarrow> bucketState key l = (Inr b, l)"
  by (simp add: bucketState_def)

lemma set_bucket_fields [simp]:
  "rl_queues (set_bucket k b l) = rl_queues l" "rl_pending (set_bucket k b l) = rl_pending l"
  "rl_isDisposed (set_bucket k b l) = rl_isDisposed l" "rl_drainTimer (set_bucket k b l) = rl_drainTimer l"
  "rl_drainScheduled (set_bucket k b l) = rl_drainScheduled l"
  "map_of (rl_buckets (set_bucket k b l)) k' = (if k' = k then Some b else map_of (rl_buckets l) k')"
  by (simp_all add: set_bucket_def jsmap_simps)

lemma lim_ok_set_bucket:
  "lim_ok l \<Longrightarrow> map_of (rl_buckets l) k \<noteq> None \<Longrightarrow> lim_ok (set_bucket k b l)"
  using length_update_present [of k "rl_buckets l" b] unfolding lim_ok_def map_of_eq_None_iff
  by (auto simp: set_bucket_def jsmap_simps jsmap_ok_update)

definition dequeue :: "string \<Rightarrow> rl_item list \<Rightarrow> limiter \<Rightarrow> limiter" where
  "dequeue key queue l = (if queue = [] then drop_queue key l
     else l\<lparr>rl_queues := AList.update key queue (rl_queues l)\<rparr>)"

lemma dequeue_fields [simp]:
  "rl_buckets (dequeue k q l) = rl_buckets l" "rl_isDisposed (dequeue k q l) = rl_isDisposed l"
  "rl_drainTimer (dequeue k q l) = rl_drainTimer l" "rl_drainScheduled (dequeue k q l) = rl_drainScheduled l"
  "map_of (rl_queues (dequeue k q l)) k' = (if k' = k then (if q = [] then None else Some q) else map_of (rl_queues l) k')"
  by (simp_all add: dequeue_def drop_queue_def jsmap_simps)

lemma pending_dequeue: "set (rl_pending (dequeue k q l)) = set (rl_pending l) - (if q = [] then {k} else {})"
  by (simp add: dequeue_def drop_queue_def)

lemma lim_ok_dequeue:
  assumes "lim_ok l" "map_of (rl_queues l) k = Some (it # q)"
  shows "lim_ok (dequeue k q l)"
proof -
  note d = lim_okD [OF assms(1)]
  have "jsmap_ok (rl_queues (dequeue k q l))" "distinct (rl_pending (dequeue k q l))"
    using d(2,3) by (auto simp: dequeue_def drop_queue_def intro: inv_intros)
  then show ?thesis
    using assms d(1,9) d(6) [OF assms(2)] d(8) [OF assms(2)]
    unfolding lim_ok_def by (auto simp: pending_dequeue split: if_splits)
qed

lemma drop_queue_absent: "lim_ok l \<Longrightarrow> map_of (rl_queues l) k = None \<Longrightarrow> drop_queue k l = l"
  using lim_okD(4) [of l k] js_remove_absent [of k "rl_pending l"]
  by (cases l) (simp add: drop_queue_def delete_absent map_of_eq_None_iff)

definition may_start :: "rate_limit_options \<Rightarrow> bucket \<Rightarrow> bool" where
  "may_start opts b \<longleftrightarrow>
     (ntruthy (rl_maxConcurrent opts) \<longrightarrow> bk_active b < the (rl_maxConcurrent opts)) \<and>
     (rl_windowed opts \<longrightarrow> length (bk_startedAt b) < the (rl_maxPerInterval opts) \<or>
        bk_startedAt b = [] \<or> hd (bk_startedAt b) = 0)"

lemma waitTime_existing:
  assumes "\<not> rl_isDisposed l" "map_of (rl_buckets l) key = Some b"
  shows "\<exists>w l1. waitTime now key opts l = (Inr w, l1) \<and>
     ((l1 = l \<and> (\<not> w > 0 \<longrightarrow> may_start opts b)) \<or>
      (rl_windowed opts \<and> l1 = set_bucket key (rl_prune now (the (rl_intervalMs opts)) b) l \<and>
       (\<not> w > 0 \<longrightarrow> may_start opts (rl_prune now (the (rl_intervalMs opts)) b))))"
  using assms by (auto simp: waitTime_def bucketState_existing Let_def may_start_def rl_prune_def split: list.splits)

text \<open>The rule for a drain: what every pruning and every start preserves holds after it.\<close>

lemma drain_loop_rule:
  assumes "lim_ok l" "\<not> rl_isDisposed l" "P l started"
    and "set (rl_pending l) \<subseteq> set keys \<or> wait \<noteq> None \<or> started \<noteq> []"
    and prune: "\<And>l st key it q b. lim_ok l \<Longrightarrow> P l st \<Longrightarrow> map_of (rl_queues l) key = Some (it # q) \<Longrightarrow>
        map_of (rl_buckets l) key = Some b \<Longrightarrow> rl_windowed (ri_options it) \<Longrightarrow>
        P (set_bucket key (rl_prune now (the (rl_intervalMs (ri_options it))) b) l) st"
    and start: "\<And>l st key it q b. lim_ok l \<Longrightarrow> P l st \<Longrightarrow> map_of (rl_queues l) key = Some (it # q) \<Longrightarrow>
        map_of (rl_buckets l) key = Some b \<Longrightarrow> may_start (ri_options it) b \<Longrightarrow> ri_bucketKey it = key \<Longrightarrow>
        P (set_bucket key (start_item now it b) (dequeue key q l)) (st @ [it])"
  shows "\<exists>w st l'. drain_loop now keys l wait started = (Inr (w, st), l') \<and> lim_ok l' \<and> P l' st \<and>
     \<not> rl_isDisposed l' \<and> rl_drainScheduled l' = rl_drainScheduled l \<and> rl_drainTimer l' = rl_drainTimer l \<and>
     (rl_pending l' = [] \<or> w \<noteq> None \<or> st \<noteq> [])"
  using assms(1-4)
proof (induction keys arbitrary: l wait started)
  case (Cons key keys)
  note d = lim_okD [OF Cons(2)]
  show ?case
  proof (cases "map_of (rl_queues l) key")
    case None
    have "key \<notin> set (rl_pending l)" using d(4) None by blast
    then have "set (rl_pending l) \<subseteq> set keys \<or> wait \<noteq> None \<or> started \<noteq> []" using Cons(5) by auto
    then show ?thesis
      using Cons(1) [OF Cons(2-4)] None by (simp add: drop_queue_absent [OF Cons(2)])
  next
    case (Some qs)
    then obtain it q where q: "map_of (rl_queues l) key = Some (it # q)" using d(5) by (cases qs) auto
    obtain b where b: "map_of (rl_buckets l) key = Some b" using d(7) [OF q] by blast
    have k: "ri_bucketKey it = key" using d(8) [OF q] by simp
    obtain w l1 b1 where w: "waitTime now key (ri_options it) l = (Inr w, l1)" "lim_ok l1" "P l1 started"
        "map_of (rl_buckets l1) key = Some b1" "\<not> w > 0 \<longrightarrow> may_start (ri_options it) b1"
        "rl_queues l1 = rl_queues l" "rl_pending l1 = rl_pending l" "\<not> rl_isDisposed l1"
        "rl_drainScheduled l1 = rl_drainScheduled l" "rl_drainTimer l1 = rl_drainTimer l"
    proof -
      obtain w l1 where w: "waitTime now key (ri_options it) l = (Inr w, l1)"
        and alt: "(l1 = l \<and> (\<not> w > 0 \<longrightarrow> may_start (ri_options it) b)) \<or>
           (rl_windowed (ri_options it) \<and> l1 = set_bucket key (rl_prune now (the (rl_intervalMs (ri_options it))) b) l \<and>
            (\<not> w > 0 \<longrightarrow> may_start (ri_options it) (rl_prune now (the (rl_intervalMs (ri_options it))) b)))"
        using waitTime_existing [OF Cons(3) b, of now "ri_options it"] by blast
      from alt show ?thesis
      proof (elim disjE conjE)
        assume "l1 = l" "\<not> w > 0 \<longrightarrow> may_start (ri_options it) b"
        then show ?thesis using that [OF w, of b] Cons(2-4) b by blast
      next
        assume a: "rl_windowed (ri_options it)" "l1 = set_bucket key (rl_prune now (the (rl_intervalMs (ri_options it))) b) l"
          "\<not> w > 0 \<longrightarrow> may_start (ri_options it) (rl_prune now (the (rl_intervalMs (ri_options it))) b)"
        then show ?thesis
          using that [OF w, of "rl_prune now (the (rl_intervalMs (ri_options it))) b"] Cons(2,3) b
            prune [OF Cons(2,4) q b a(1)] by (simp add: lim_ok_set_bucket)
      qed
    qed
    show ?thesis
    proof (cases "w > 0")
      case True
      have "min_wait wait w \<noteq> None" by (simp add: min_wait_def split: option.splits)
      then show ?thesis
        using Cons(1) [OF w(2,8,3), of "min_wait wait w"] True q w by simp
    next
      case False
      let ?l2 = "dequeue key q l1"
      let ?l3 = "set_bucket key (start_item now it b1) ?l2"
      have q1: "map_of (rl_queues l1) key = Some (it # q)" using q w(6) by simp
      have ok: "lim_ok ?l3"
        using lim_ok_dequeue [OF w(2) q1] w(4) by (simp add: lim_ok_set_bucket)
      have p: "P ?l3 (started @ [it])"
        using start [OF w(2,3) q1 w(4)] w(5) False k by blast
      have e: "(if q = [] then drop_queue key l1 else l1\<lparr>rl_queues := AList.update key q (rl_queues l1)\<rparr>) = ?l2"
        by (simp add: dequeue_def)
      have bs: "bucketState key ?l2 = (Inr b1, ?l2)"
        using w(4,8) by (simp add: bucketState_existing)
      have "drain_loop now (key # keys) l wait started = drain_loop now keys ?l3 wait (started @ [it])"
        using q w(1) False by (simp add: e bs k Let_def del: dequeue_fields)
      then show ?thesis using Cons(1) [OF ok _ p, of wait] w by simp
    qed
  qed
qed auto

definition wake_ok :: "limiter \<Rightarrow> bool" where
  "wake_ok l \<longleftrightarrow> rl_isDisposed l \<or> rl_pending l = [] \<or> rl_drainScheduled l \<or> rl_drainTimer l \<noteq> None"

lemma scheduleDrain_fields [simp]:
  "rl_buckets (scheduleDrain t d l) = rl_buckets l" "rl_queues (scheduleDrain t d l) = rl_queues l"
  "rl_pending (scheduleDrain t d l) = rl_pending l" "rl_isDisposed (scheduleDrain t d l) = rl_isDisposed l"
  by (simp_all add: scheduleDrain_def Let_def split: option.splits)

lemma lim_ok_cong:
  "rl_buckets l' = rl_buckets l \<Longrightarrow> rl_queues l' = rl_queues l \<Longrightarrow> rl_pending l' = rl_pending l \<Longrightarrow> lim_ok l' = lim_ok l"
  by (simp add: lim_ok_def)

lemma wake_scheduleDrain: "d \<noteq> None \<Longrightarrow> wake_ok (scheduleDrain t d l)"
  by (cases "rl_isDisposed l"; cases "the d \<le> 0"; cases "rl_drainScheduled l")
     (auto simp: scheduleDrain_def wake_ok_def Let_def split: if_splits)

lemma wake_no_pending: "rl_pending l = [] \<Longrightarrow> wake_ok l"
  by (simp add: wake_ok_def)

lemma drain_rule:
  assumes "lim_ok l" "P l []"
    and cong: "\<And>l l' st. P l st \<Longrightarrow> rl_buckets l' = rl_buckets l \<Longrightarrow> rl_queues l' = rl_queues l \<Longrightarrow>
        rl_isDisposed l' = rl_isDisposed l \<Longrightarrow> P l' st"
    and prune: "\<And>l st key it q b. lim_ok l \<Longrightarrow> P l st \<Longrightarrow> map_of (rl_queues l) key = Some (it # q) \<Longrightarrow>
        map_of (rl_buckets l) key = Some b \<Longrightarrow> rl_windowed (ri_options it) \<Longrightarrow>
        P (set_bucket key (rl_prune now (the (rl_intervalMs (ri_options it))) b) l) st"
    and start: "\<And>l st key it q b. lim_ok l \<Longrightarrow> P l st \<Longrightarrow> map_of (rl_queues l) key = Some (it # q) \<Longrightarrow>
        map_of (rl_buckets l) key = Some b \<Longrightarrow> may_start (ri_options it) b \<Longrightarrow> ri_bucketKey it = key \<Longrightarrow>
        P (set_bucket key (start_item now it b) (dequeue key q l)) (st @ [it])"
  shows "\<exists>st l'. drain now l = (Inr st, l') \<and> lim_ok l' \<and> P l' st \<and> rl_isDisposed l' = rl_isDisposed l \<and> wake_ok l'"
proof (cases "rl_isDisposed l")
  case True
  then show ?thesis using assms(1,2) by (simp add: drain_def wake_ok_def)
next
  case False
  let ?l1 = "l\<lparr>rl_drainTimer := None\<rparr>"
  have ok: "lim_ok ?l1" "\<not> rl_isDisposed ?l1" "P ?l1 []"
    using assms(1) False cong [OF assms(2), of ?l1] lim_ok_cong [of ?l1 l] by simp_all
  have "\<exists>w st l'. drain_loop now (rl_pending ?l1) ?l1 None [] = (Inr (w, st), l') \<and> lim_ok l' \<and> P l' st \<and>
     \<not> rl_isDisposed l' \<and> rl_drainScheduled l' = rl_drainScheduled ?l1 \<and> rl_drainTimer l' = rl_drainTimer ?l1 \<and>
     (rl_pending l' = [] \<or> w \<noteq> None \<or> st \<noteq> [])"
    by (rule drain_loop_rule [where P = P, OF ok]) (blast intro: prune start)+
  then obtain w st l' where r: "drain_loop now (rl_pending ?l1) ?l1 None [] = (Inr (w, st), l')" "lim_ok l'" "P l' st"
     "\<not> rl_isDisposed l'" "rl_pending l' = [] \<or> w \<noteq> None \<or> st \<noteq> []" by blast
  let ?l = "if length (rl_pending l') > 0 then scheduleDrain now (if st \<noteq> [] then Some 0 else w) l' else l'"
  have "drain now l = (Inr st, ?l)" using r(1) False by (simp add: drain_def)
  moreover have "lim_ok ?l" using r(2) lim_ok_cong [of "scheduleDrain now (if st \<noteq> [] then Some 0 else w) l'" l'] by simp
  moreover have "P ?l st" using cong [OF r(3), of ?l] by simp
  moreover have "wake_ok ?l" using r(5) by (auto simp: wake_scheduleDrain wake_no_pending)
  ultimately show ?thesis using r(4) False by auto
qed

subsection \<open>Bucket creation\<close>

text \<open>What \<open>bucketState\<close> may drop: buckets with no task, no recent start and no queue.\<close>

definition idle_at :: "limiter \<Rightarrow> string \<Rightarrow> bool" where
  "idle_at l k \<longleftrightarrow> map_of (rl_queues l) k = None \<and>
     (\<exists>b. map_of (rl_buckets l) k = Some b \<and> bk_active b = 0 \<and> bk_startedAt b = [])"

definition idle_removed :: "limiter \<Rightarrow> limiter \<Rightarrow> bool" where
  "idle_removed l l' \<longleftrightarrow> rl_isDisposed l' = rl_isDisposed l \<and> rl_drainScheduled l' = rl_drainScheduled l \<and>
     rl_drainTimer l' = rl_drainTimer l \<and> rl_queues l' = rl_queues l \<and> rl_pending l' = rl_pending l \<and>
     jsmap_ok (rl_buckets l') \<and> length (rl_buckets l') \<le> length (rl_buckets l) \<and>
     (\<forall>k. map_of (rl_buckets l') k = map_of (rl_buckets l) k \<or>
        (map_of (rl_buckets l') k = None \<and> idle_at l k))"

lemma idle_removed_refl: "lim_ok l \<Longrightarrow> idle_removed l l"
  by (simp add: idle_removed_def lim_okD(1))

lemma idle_removed_trans: "idle_removed a b \<Longrightarrow> idle_removed b c \<Longrightarrow> idle_removed a c"
proof -
  assume a: "idle_removed a b" "idle_removed b c"
  have "map_of (rl_buckets c) k = map_of (rl_buckets a) k \<or> (map_of (rl_buckets c) k = None \<and> idle_at a k)" for k
    using a unfolding idle_removed_def idle_at_def by (metis option.distinct(1))
  then show ?thesis using a unfolding idle_removed_def by simp
qed

lemma idle_removed_ok: "lim_ok l \<Longrightarrow> idle_removed l l' \<Longrightarrow> lim_ok l'"
proof -
  assume a: "lim_ok l" "idle_removed l l'"
  have "map_of (rl_buckets l') k \<noteq> None" if "map_of (rl_queues l) k = Some q" for k q
    using a that lim_okD(7) [OF a(1) that] unfolding idle_removed_def idle_at_def by (metis option.distinct(1))
  then show ?thesis using a unfolding lim_ok_def idle_removed_def by simp
qed

lemma idle_removed_one:
  assumes "lim_ok l" "map_of (rl_buckets l) key = Some b" "bk_active b = 0" "bk_startedAt b = []"
    "map_of (rl_queues l) key = None"
  shows "idle_removed l (l\<lparr>rl_buckets := AList.delete key (rl_buckets l),
            rl_queues := AList.delete key (rl_queues l), rl_pending := js_remove key (rl_pending l)\<rparr>)"
  using assms lim_okD(1) [OF assms(1)] lim_okD(4) [OF assms(1), of key] js_remove_absent [of key "rl_pending l"]
    length_delete_le [of key "rl_buckets l"]
  by (auto simp: idle_removed_def idle_at_def jsmap_simps jsmap_ok_delete delete_absent map_of_eq_None_iff)

lemma evict_idle_removed:
  assumes "lim_ok l" "\<forall>(k, b) \<in> set es. map_of (rl_buckets l) k = Some b" "distinct (map fst es)"
  shows "idle_removed l (evict_idle es l)"
  using assms
proof (induction es l rule: evict_idle.induct)
  case (2 key b es l)
  let ?l = "l\<lparr>rl_buckets := AList.delete key (rl_buckets l),
            rl_queues := AList.delete key (rl_queues l), rl_pending := js_remove key (rl_pending l)\<rparr>"
  show ?case
  proof (cases "10 * length (rl_buckets l) \<le> 9 * MAX_BUCKETS")
    case False
    show ?thesis
    proof (cases "bk_active b = 0 \<and> bk_startedAt b = [] \<and> map_of (rl_queues l) key = None")
      case True
      have one: "idle_removed l ?l" using 2(3,4) True by (intro idle_removed_one) auto
      have "\<forall>(k, b) \<in> set es. map_of (rl_buckets ?l) k = Some b"
      proof (intro ballI, clarify)
        fix k c assume e: "(k, c) \<in> set es"
        then have "k \<noteq> key" "map_of (rl_buckets l) k = Some c" using 2(4,5) by force+
        then show "map_of (rl_buckets ?l) k = Some c" by (simp add: jsmap_simps)
      qed
      then have "idle_removed ?l (evict_idle es ?l)"
        using 2(1) [OF False True idle_removed_ok [OF 2(3) one]] 2(5) by simp
      then show ?thesis using idle_removed_trans [OF one] False True by simp
    next
      case busy: False
      then show ?thesis using 2(2) [OF False busy 2(3)] 2(4,5) False by auto
    qed
  qed (simp add: idle_removed_refl [OF 2(3)])
qed (simp add: idle_removed_refl)

lemma bucketState_cases:
  assumes "lim_ok l" "bucketState key l = (r, l')"
  shows "(\<exists>e. r = Inl e) \<and> idle_removed l l' \<or>
     (\<exists>b. r = Inr b \<and> map_of (rl_buckets l) key = Some b \<and> l' = l) \<or>
     (\<exists>l1. map_of (rl_buckets l) key = None \<and> idle_removed l l1 \<and> length (rl_buckets l1) < MAX_BUCKETS \<and>
        l' = set_bucket key \<lparr>bk_active = 0, bk_startedAt = [], bk_cleanupTimer = None\<rparr> l1)"
proof -
  let ?l1 = "if length (rl_buckets l) \<ge> MAX_BUCKETS then evict_idle (rl_buckets l) l else l"
  have "\<forall>(k, b) \<in> set (rl_buckets l). map_of (rl_buckets l) k = Some b"
    using lim_okD(1) [OF assms(1)] by (auto simp: jsmap_ok_def)
  then have i: "idle_removed l ?l1"
    using evict_idle_removed [OF assms(1), of "rl_buckets l"] lim_okD(1) [OF assms(1)] idle_removed_refl [OF assms(1)]
    by (simp add: jsmap_ok_def)
  have r: "idle_removed l l" using assms(1) by (rule idle_removed_refl)
  show ?thesis
  proof (cases "rl_isDisposed l \<or> map_of (rl_buckets l) key \<noteq> None")
    case True
    then show ?thesis using assms(2) r by (auto simp: bucketState_def split: if_splits)
  next
    case False
    show ?thesis
    proof (cases "length (rl_buckets l) \<ge> MAX_BUCKETS \<and> length (rl_buckets ?l1) \<ge> MAX_BUCKETS")
      case True
      then have "\<exists>e. r = Inl e" "l' = ?l1" using assms(2) False by (auto simp: bucketState_def Let_def)
      then show ?thesis using i by blast
    next
      case small: False
      then have "l' = set_bucket key \<lparr>bk_active = 0, bk_startedAt = [], bk_cleanupTimer = None\<rparr> ?l1"
        using assms(2) False by (auto simp: bucketState_def Let_def set_bucket_def)
      moreover have "length (rl_buckets ?l1) < MAX_BUCKETS" using small by auto
      ultimately show ?thesis using i False by (intro disjI2 exI [of _ ?l1] conjI) auto
    qed
  qed
qed

lemma lim_ok_new_bucket:
  assumes "lim_ok l" "length (rl_buckets l) < MAX_BUCKETS"
  shows "lim_ok (set_bucket key b l)"
  using assms length_update_le [of key b "rl_buckets l"] unfolding lim_ok_def
  by (auto simp: set_bucket_def jsmap_simps jsmap_ok_update)

definition new_bucket :: bucket where
  "new_bucket = \<lparr>bk_active = 0, bk_startedAt = [], bk_cleanupTimer = None\<rparr>"

definition bucket_kept :: "limiter \<Rightarrow> limiter \<Rightarrow> string \<Rightarrow> bool" where
  "bucket_kept l l' k \<longleftrightarrow> map_of (rl_buckets l') k = map_of (rl_buckets l) k \<or>
     (map_of (rl_buckets l) k = None \<and> map_of (rl_buckets l') k = Some new_bucket) \<or>
     (map_of (rl_buckets l') k = None \<and> idle_at l k)"

lemma bucketState_kept:
  assumes "lim_ok l" "bucketState key l = (r, l')"
  shows "bucket_kept l l' k \<and> rl_queues l' = rl_queues l \<and> rl_isDisposed l' = rl_isDisposed l \<and>
     rl_pending l' = rl_pending l \<and> rl_drainScheduled l' = rl_drainScheduled l \<and> rl_drainTimer l' = rl_drainTimer l"
  using bucketState_cases [OF assms]
proof (elim disjE exE conjE)
  fix l1 assume "map_of (rl_buckets l) key = None" "idle_removed l l1"
    "l' = set_bucket key \<lparr>bk_active = 0, bk_startedAt = [], bk_cleanupTimer = None\<rparr> l1"
  then show ?thesis by (auto simp: bucket_kept_def idle_removed_def new_bucket_def)
qed (auto simp: bucket_kept_def idle_removed_def)

lemma lim_ok_bucketState: "lim_ok l \<Longrightarrow> bucketState key l = (r, l') \<Longrightarrow> lim_ok l'"
  using bucketState_cases idle_removed_ok lim_ok_new_bucket by metis


subsection \<open>Every step keeps the tables and the wake-up\<close>

lemma lim_ok_enqueue:
  assumes "lim_ok l" "map_of (rl_buckets l) key = Some b" "length (nullish (map_of (rl_queues l) key) []) < MAX_QUEUE_PER_BUCKET"
  shows "lim_ok (l\<lparr>rl_queues := AList.update key (nullish (map_of (rl_queues l) key) [] @
      [\<lparr>ri_id = task, ri_bucketKey = key, ri_options = opts\<rparr>]) (rl_queues l), rl_pending := js_add key (rl_pending l)\<rparr>)"
  using assms lim_okD [OF assms(1)] unfolding lim_ok_def
  by (auto simp: jsmap_simps jsmap_ok_update distinct_js_add nullish_def split: option.splits if_splits)

lemma resolveBucketKey_fields:
  assumes "resolveBucketKey opts ctx l = (key, l')"
  shows "rl_buckets l' = rl_buckets l" "rl_queues l' = rl_queues l" "rl_pending l' = rl_pending l"
    "rl_isDisposed l' = rl_isDisposed l" "rl_drainScheduled l' = rl_drainScheduled l" "rl_drainTimer l' = rl_drainTimer l"
  using assms by (auto simp: resolveBucketKey_def Let_def split: if_splits option.splits)

lemma wake_ok_cong:
  "wake_ok l \<Longrightarrow> rl_isDisposed l' = rl_isDisposed l \<Longrightarrow> rl_pending l' = rl_pending l \<Longrightarrow>
     rl_drainScheduled l' = rl_drainScheduled l \<Longrightarrow> rl_drainTimer l' = rl_drainTimer l \<Longrightarrow> wake_ok l'"
  by (simp add: wake_ok_def)

lemma idle_removed_wake: "idle_removed l l' \<Longrightarrow> wake_ok l \<Longrightarrow> wake_ok l'"
  by (simp add: wake_ok_def idle_removed_def)

text \<open>The cases of a call: nothing queued and the tables only lost idle buckets, or the task queued.\<close>

lemma rl_schedule_cases:
  assumes "lim_ok l" "rl_schedule now options ctx task l = (r, l')"
  obtains (refused) "r \<noteq> Queued" "lim_ok l'" "\<And>k. bucket_kept l l' k"
      "rl_queues l' = rl_queues l" "wake_ok l \<Longrightarrow> wake_ok l'" "rl_isDisposed l' = rl_isDisposed l"
  | (queued) key opts where "r = Queued" "lim_ok l'" "\<And>k. bucket_kept l l' k"
      "rl_queues l' = AList.update key (nullish (map_of (rl_queues l) key) [] @
         [\<lparr>ri_id = task, ri_bucketKey = key, ri_options = opts\<rparr>]) (rl_queues l)" "wake_ok l'" "rl_isDisposed l' = rl_isDisposed l"
proof -
  have same: "lim_ok l' \<and> wake_ok l \<longrightarrow> wake_ok l'" if "l' = l" using that by simp
  show ?thesis
  proof (cases "rl_isDisposed l \<or> options = None \<or> rl_normalize (the options) = None")
    case True
    then have "l' = l" "r \<noteq> Queued" using assms(2) by (auto simp: rl_schedule_def split: if_splits option.splits)
    then show ?thesis using refused assms(1) by (simp add: bucket_kept_def)
  next
    case False
    then obtain opts0 opts where o: "options = Some opts0" "rl_normalize opts0 = Some opts" "\<not> rl_isDisposed l" by auto
    obtain key l1 where k: "resolveBucketKey opts ctx l = (key, l1)" by fastforce
    note f = resolveBucketKey_fields [OF k]
    have ok1: "lim_ok l1" using assms(1) lim_ok_cong f by metis
    obtain rb l2 where b: "bucketState key l1 = (rb, l2)" by fastforce
    note cases = bucketState_cases [OF ok1 b]
    have ok2: "lim_ok l2" using lim_ok_bucketState [OF ok1 b] .
    have bk: "bucket_kept l l2 k" for k
      using bucketState_kept [OF ok1 b, of k] by (simp add: bucket_kept_def idle_at_def f)
    have q2: "rl_queues l2 = rl_queues l" "rl_isDisposed l2 = rl_isDisposed l" "rl_pending l2 = rl_pending l"
      "rl_drainScheduled l2 = rl_drainScheduled l" "rl_drainTimer l2 = rl_drainTimer l"
      using bucketState_kept [OF ok1 b] by (simp_all add: f)
    have w2: "wake_ok l2" if "wake_ok l" using that q2 by (simp add: wake_ok_def)
    let ?q = "nullish (map_of (rl_queues l2) key) []"
    show ?thesis
    proof (cases "(\<exists>b. rb = Inr b) \<and> length ?q < MAX_QUEUE_PER_BUCKET")
      case True
      then obtain bb where bb: "rb = Inr bb" "map_of (rl_buckets l2) key \<noteq> None"
        using cases by fastforce
      let ?l = "l2\<lparr>rl_queues := AList.update key (?q @ [\<lparr>ri_id = task, ri_bucketKey = key, ri_options = opts\<rparr>]) (rl_queues l2),
         rl_pending := js_add key (rl_pending l2)\<rparr>"
      have l': "r = Queued" "l' = scheduleDrain now (Some 0) ?l"
        using assms(2) o k b bb True by (auto simp: rl_schedule_def Let_def)
      have "lim_ok ?l" using lim_ok_enqueue [OF ok2] bb(2) True by blast
      then have "lim_ok l'" using lim_ok_cong [of l' ?l] l'(2) by simp
      then show ?thesis
        using l' bk q2 wake_scheduleDrain [of "Some 0" now ?l]
        by (intro queued [of key opts]) (simp_all add: bucket_kept_def)
    next
      case no: False
      have "r \<noteq> Queued \<and> (l' = l2 \<or> l' = l2\<lparr>rl_bypasses := rl_bypasses l2 + 1\<rparr>)"
        using assms(2) o k b no by (auto simp: rl_schedule_def Let_def split: sum.splits if_splits)
      then have "r \<noteq> Queued" "rl_buckets l' = rl_buckets l2" "rl_queues l' = rl_queues l2" "rl_pending l' = rl_pending l2"
        "rl_isDisposed l' = rl_isDisposed l2" "rl_drainScheduled l' = rl_drainScheduled l2" "rl_drainTimer l' = rl_drainTimer l2" by auto
      then show ?thesis
        using ok2 lim_ok_cong [of l' l2] bk q2 w2
        by (intro refused) (auto simp: wake_ok_def bucket_kept_def)
    qed
  qed
qed


subsection \<open>Finishing, cleaning up, disposing\<close>

lemma forget_bucket_eq:
  assumes "lim_ok l" "queued_count key l = 0"
  shows "forget_bucket key l = l\<lparr>rl_buckets := AList.delete key (rl_buckets l)\<rparr>"
proof -
  have q: "map_of (rl_queues l) key = None"
    using assms(2) lim_okD(5) [OF assms(1), of key] by (auto simp: queued_count_def split: option.splits)
  then have "key \<notin> set (rl_pending l)" using lim_okD(4) [OF assms(1), of key] by simp
  then show ?thesis
    using q by (cases l) (simp add: forget_bucket_def delete_absent js_remove_absent map_of_eq_None_iff)
qed

lemma lim_ok_forget:
  assumes "lim_ok l" "queued_count key l = 0"
  shows "lim_ok (l\<lparr>rl_buckets := AList.delete key (rl_buckets l)\<rparr>)"
proof -
  have q: "map_of (rl_queues l) key = None"
    using assms(2) lim_okD(5) [OF assms(1), of key] by (auto simp: queued_count_def split: option.splits)
  then show ?thesis
    using assms(1) length_delete_le [of key "rl_buckets l"] unfolding lim_ok_def
    by (auto simp: jsmap_simps jsmap_ok_delete)
qed

definition changed_only :: "string \<Rightarrow> bucket option \<Rightarrow> limiter \<Rightarrow> limiter \<Rightarrow> bool" where
  \<comment> \<open>the step replaced or removed one bucket and touched neither queues nor other buckets\<close>
  "changed_only key v l l' \<longleftrightarrow> lim_ok l' \<and> (wake_ok l \<longrightarrow> wake_ok l') \<and> rl_isDisposed l' = rl_isDisposed l \<and>
     rl_queues l' = rl_queues l \<and>
     (\<forall>k. map_of (rl_buckets l') k = (if k = key then v else map_of (rl_buckets l) k))"

lemma cleanupBucket_cases:
  "(queued_count k l = 0 \<and> bk_active b = 0 \<and> bk_startedAt b = [] \<and> cleanupBucket k b i l = forget_bucket k l) \<or>
   cleanupBucket k b i l = l \<or> cleanupBucket k b i l = set_bucket k (b\<lparr>bk_cleanupTimer := i\<rparr>) l"
  by (simp add: cleanupBucket_def Let_def)

lemma finish_item_spec:
  assumes "lim_ok l" "map_of (rl_buckets l) (ri_bucketKey it) = Some b"
  shows "\<exists>v. changed_only (ri_bucketKey it) v l (finish_item now it l) \<and>
     (v = None \<and> bk_active b - 1 = 0 \<and> bk_startedAt b = [] \<or>
      (\<exists>t. v = Some (b\<lparr>bk_active := bk_active b - 1, bk_cleanupTimer := t\<rparr>) \<and>
         (t = bk_cleanupTimer b \<or> t = rl_intervalMs (ri_options it))))"
proof -
  let ?k = "ri_bucketKey it" let ?i = "rl_intervalMs (ri_options it)"
  define b1 where "b1 = b\<lparr>bk_active := bk_active b - 1\<rparr>"
  define l1 where "l1 = set_bucket ?k b1 l"
  define l2 where "l2 = cleanupBucket ?k b1 ?i l1"
  have b1: "bk_active b1 = bk_active b - 1" "bk_startedAt b1 = bk_startedAt b" by (simp_all add: b1_def)
  have ok1: "lim_ok l1" using assms by (simp add: lim_ok_set_bucket l1_def)
  have l1: "rl_queues l1 = rl_queues l" "rl_isDisposed l1 = rl_isDisposed l"
    "map_of (rl_buckets l1) k = (if k = ?k then Some b1 else map_of (rl_buckets l) k)" for k
    by (simp_all add: l1_def)
  have "js_add ?k (rl_pending l1) = rl_pending l1" if "queued_count ?k l1 > 0"
    using that lim_okD(4) [OF ok1, of ?k] by (auto simp: queued_count_def js_add_def split: option.splits)
  then have "(if queued_count ?k l1 > 0 then l1\<lparr>rl_pending := js_add ?k (rl_pending l1)\<rparr> else l1) = l1"
    by simp
  then have f: "finish_item now it l = scheduleDrain now (Some 0) l2"
    unfolding finish_item_def Let_def assms(2) option.case l2_def b1_def [symmetric] l1_def [symmetric] by simp
  have co: "changed_only ?k v l (finish_item now it l)"
    if "lim_ok l2" "rl_isDisposed l2 = rl_isDisposed l" "rl_queues l2 = rl_queues l"
      "\<And>k. map_of (rl_buckets l2) k = (if k = ?k then v else map_of (rl_buckets l) k)" for v
    using that lim_ok_cong [of "scheduleDrain now (Some 0) l2" l2] wake_scheduleDrain [of "Some 0" now l2]
    by (simp add: f changed_only_def)
  show ?thesis
    using cleanupBucket_cases [of ?k l1 b1 ?i] unfolding l2_def [symmetric]
  proof (elim disjE conjE)
    assume gone: "queued_count ?k l1 = 0" "bk_active b1 = 0" "bk_startedAt b1 = []" "l2 = forget_bucket ?k l1"
    have "l2 = l1\<lparr>rl_buckets := AList.delete ?k (rl_buckets l1)\<rparr>"
      using gone forget_bucket_eq [OF ok1] by simp
    then have "changed_only ?k None l (finish_item now it l)"
      using lim_ok_forget [OF ok1 gone(1)] l1 by (intro co) (simp_all add: jsmap_simps)
    then show ?thesis using gone(2,3) b1 by auto
  next
    assume same: "l2 = l1"
    have "changed_only ?k (Some b1) l (finish_item now it l)" using ok1 l1 same by (intro co) simp_all
    then show ?thesis by (intro exI [of _ "Some b1"]) (auto simp: b1_def intro!: exI [of _ "bk_cleanupTimer b"])
  next
    assume timer: "l2 = set_bucket ?k (b1\<lparr>bk_cleanupTimer := ?i\<rparr>) l1"
    have "changed_only ?k (Some (b1\<lparr>bk_cleanupTimer := ?i\<rparr>)) l (finish_item now it l)"
      using lim_ok_set_bucket [OF ok1] l1 timer by (intro co) simp_all
    then show ?thesis by (intro exI [of _ "Some (b1\<lparr>bk_cleanupTimer := ?i\<rparr>)"]) (auto simp: b1_def intro!: exI [of _ ?i])
  qed
qed

lemma cleanup_fires_spec:
  assumes "lim_ok l"
  shows "cleanup_fires now key l = l \<or> (\<exists>b j v. map_of (rl_buckets l) key = Some b \<and> bk_cleanupTimer b = Some j \<and>
     changed_only key v l (cleanup_fires now key l) \<and>
     (let b1 = rl_prune now j (b\<lparr>bk_cleanupTimer := None\<rparr>) in
        v = Some b1 \<or> (v = None \<and> bk_active b1 = 0 \<and> bk_startedAt b1 = [])))"
proof (cases "map_of (rl_buckets l) key")
  case (Some b)
  show ?thesis
  proof (cases "bk_cleanupTimer b")
    case (Some j)
    let ?b = "rl_prune now j (b\<lparr>bk_cleanupTimer := None\<rparr>)"
    let ?l = "set_bucket key ?b l"
    have ok: "lim_ok ?l" using assms \<open>map_of (rl_buckets l) key = Some b\<close> by (simp add: lim_ok_set_bucket)
    have w: "wake_ok l \<longrightarrow> wake_ok ?l" by (simp add: wake_ok_def)
    have r: "cleanup_fires now key l = (if bk_active ?b = 0 \<and> bk_startedAt ?b = [] \<and> queued_count key ?l = 0
             then forget_bucket key ?l else ?l)"
      using \<open>map_of (rl_buckets l) key = Some b\<close> Some by (simp add: cleanup_fires_def Let_def)
    show ?thesis
    proof (cases "bk_active ?b = 0 \<and> bk_startedAt ?b = [] \<and> queued_count key ?l = 0")
      case True
      then have e: "cleanup_fires now key l = ?l\<lparr>rl_buckets := AList.delete key (rl_buckets ?l)\<rparr>"
        using r forget_bucket_eq [OF ok] by simp
      have "changed_only key None l (cleanup_fires now key l)"
        using lim_ok_forget [OF ok] True w unfolding e changed_only_def by (auto simp: jsmap_simps wake_ok_def)
      then show ?thesis using True \<open>map_of (rl_buckets l) key = Some b\<close> Some unfolding Let_def by blast
    next
      case False
      then have e: "cleanup_fires now key l = ?l" using r by auto
      have "changed_only key (Some ?b) l (cleanup_fires now key l)"
        using ok w unfolding e changed_only_def by simp
      then show ?thesis using \<open>map_of (rl_buckets l) key = Some b\<close> Some unfolding Let_def by blast
    qed
  qed (simp add: cleanup_fires_def Some)
qed (simp add: cleanup_fires_def)

subsection \<open>The system invariant\<close>

definition active_of :: "limiter \<Rightarrow> string \<Rightarrow> nat" where
  "active_of l k = (case map_of (rl_buckets l) k of None \<Rightarrow> 0 | Some b \<Rightarrow> bk_active b)"

definition running_in :: "string \<Rightarrow> rl_item list \<Rightarrow> nat" where
  "running_in k run = length (filter (\<lambda>it. ri_bucketKey it = k) run)"

definition sys_ok :: "limiter_system \<Rightarrow> bool" where
  "sys_ok s \<longleftrightarrow> lim_ok (ls_limiter s) \<and> wake_ok (ls_limiter s) \<and>
     (if rl_isDisposed (ls_limiter s) then rl_buckets (ls_limiter s) = []
      else \<forall>k. active_of (ls_limiter s) k = running_in k (ls_running s))"

lemma running_in_simps [simp]:
  "running_in k [] = 0" "running_in k (xs @ ys) = running_in k xs + running_in k ys"
  "running_in k [it] = (if ri_bucketKey it = k then 1 else 0)"
  by (simp_all add: running_in_def)

lemma running_in_remove1:
  "it \<in> set run \<Longrightarrow> running_in k (remove1 it run) = running_in k run - (if ri_bucketKey it = k then 1 else 0)"
proof (induction run)
  case (Cons a run)
  have "0 < running_in (ri_bucketKey it) run" if "it \<in> set run"
    using that by (force simp: running_in_def filter_empty_conv)
  then show ?case using Cons by (cases "a = it") (auto simp: running_in_def)
qed simp

lemma running_in_pos: "it \<in> set run \<Longrightarrow> 0 < running_in (ri_bucketKey it) run"
  by (force simp: running_in_def filter_empty_conv)

lemma active_kept: "bucket_kept l l' k \<Longrightarrow> active_of l' k = active_of l k"
  by (auto simp: bucket_kept_def active_of_def new_bucket_def idle_at_def split: option.splits)

lemma drain_active:
  assumes "lim_ok l" "\<not> rl_isDisposed l \<longrightarrow> (\<forall>k. active_of l k = running_in k run)" "rl_isDisposed l \<longrightarrow> rl_buckets l = []"
  shows "\<exists>st l'. drain now l = (Inr st, l') \<and> lim_ok l' \<and> rl_isDisposed l' = rl_isDisposed l \<and> wake_ok l' \<and>
     (\<not> rl_isDisposed l' \<longrightarrow> (\<forall>k. active_of l' k = running_in k (run @ st))) \<and> (rl_isDisposed l' \<longrightarrow> rl_buckets l' = [])"
proof (cases "rl_isDisposed l")
  case True
  then show ?thesis using assms by (simp add: drain_def wake_ok_def)
next
  case False
  have "\<exists>st l'. drain now l = (Inr st, l') \<and> lim_ok l' \<and> (\<forall>k. active_of l' k = running_in k (run @ st)) \<and>
     rl_isDisposed l' = rl_isDisposed l \<and> wake_ok l'"
    by (rule drain_rule [where P = "\<lambda>l st. \<forall>k. active_of l k = running_in k (run @ st)"])
       (use assms False in \<open>auto simp: active_of_def rl_prune_def start_item_def split: option.splits\<close>)
  then show ?thesis using False by auto
qed

lemma active_of_cong: "rl_buckets l' = rl_buckets l \<Longrightarrow> active_of l' k = active_of l k"
  by (simp add: active_of_def)

lemma sys_ok_drain:
  assumes "sys_ok s" "rl_buckets l0 = rl_buckets (ls_limiter s)" "rl_queues l0 = rl_queues (ls_limiter s)"
    "rl_pending l0 = rl_pending (ls_limiter s)" "rl_isDisposed l0 = rl_isDisposed (ls_limiter s)"
  shows "\<exists>st l. drain (ls_now s) l0 = (Inr st, l) \<and> sys_ok (s\<lparr>ls_limiter := l, ls_running := ls_running s @ st,
     ls_starts := starts\<rparr>)"
proof -
  have "lim_ok l0" using assms lim_ok_cong by (metis sys_ok_def)
  moreover have "\<not> rl_isDisposed l0 \<longrightarrow> (\<forall>k. active_of l0 k = running_in k (ls_running s))"
    using assms active_of_cong [OF assms(2)] by (simp add: sys_ok_def)
  moreover have "rl_isDisposed l0 \<longrightarrow> rl_buckets l0 = []" using assms by (simp add: sys_ok_def)
  ultimately show ?thesis
    using drain_active [of l0 "ls_running s" "ls_now s"] by (auto simp: sys_ok_def)
qed

lemma sys_ok_step:
  assumes "rl_step s s'" "sys_ok s"
  shows "sys_ok s'"
  using assms
proof cases
  case (schedule opts ctx task r l)
  have ok: "lim_ok (ls_limiter s)" "wake_ok (ls_limiter s)" using assms(2) by (simp_all add: sys_ok_def)
  have d: "l = ls_limiter s" if "rl_isDisposed (ls_limiter s)"
    using that schedule(2) by (simp add: rl_schedule_def)
  show ?thesis
  proof -
    have "lim_ok l" "wake_ok l" "rl_isDisposed l = rl_isDisposed (ls_limiter s)"
      using rl_schedule_cases [OF ok(1) schedule(2)] ok(2) by metis+
    moreover have "active_of l k = active_of (ls_limiter s) k" for k
      using rl_schedule_cases [OF ok(1) schedule(2)] active_kept by metis
    ultimately show ?thesis using assms(2) d schedule(1) by (auto simp: sys_ok_def)
  qed
next
  case (microtask started l)
  then show ?thesis using sys_ok_drain [OF assms(2), of "ls_limiter s\<lparr>rl_drainScheduled := False\<rparr>"] by simp
next
  case (microtask_throws e l)
  then show ?thesis using sys_ok_drain [OF assms(2), of "ls_limiter s\<lparr>rl_drainScheduled := False\<rparr>"] by fastforce
next
  case (timer started l)
  then show ?thesis using sys_ok_drain [OF assms(2), of "ls_limiter s\<lparr>rl_drainTimer := None\<rparr>"] by simp
next
  case (timer_throws e l)
  then show ?thesis using sys_ok_drain [OF assms(2), of "ls_limiter s\<lparr>rl_drainTimer := None\<rparr>"] by fastforce
next
  case (finish it)
  show ?thesis
  proof (cases "map_of (rl_buckets (ls_limiter s)) (ri_bucketKey it)")
    case None
    have "rl_isDisposed (ls_limiter s)"
    proof (rule ccontr)
      assume "\<not> rl_isDisposed (ls_limiter s)"
      then have "active_of (ls_limiter s) (ri_bucketKey it) = running_in (ri_bucketKey it) (ls_running s)"
        using assms(2) by (simp add: sys_ok_def)
      then show False using None running_in_pos [OF finish(2)] by (simp add: active_of_def)
    qed
    then show ?thesis using None assms(2) finish(1) by (simp add: finish_item_def scheduleDrain_def sys_ok_def)
  next
    case (Some b)
    have "\<not> rl_isDisposed (ls_limiter s)" using Some assms(2) by (auto simp: sys_ok_def)
    then show ?thesis
    proof -
      assume nd: "\<not> rl_isDisposed (ls_limiter s)"
      let ?l = "finish_item (ls_now s) it (ls_limiter s)"
      obtain v where v: "changed_only (ri_bucketKey it) v (ls_limiter s) ?l"
        "v = None \<and> bk_active b - 1 = 0 \<or> (\<exists>t. v = Some (b\<lparr>bk_active := bk_active b - 1, bk_cleanupTimer := t\<rparr>))"
        using finish_item_spec [of "ls_limiter s" it b "ls_now s"] Some assms(2) by (auto simp: sys_ok_def)
      have "active_of ?l k = active_of (ls_limiter s) k - (if ri_bucketKey it = k then 1 else 0)" for k
        using v Some by (auto simp: changed_only_def active_of_def)
      then show ?thesis
        using v(1) nd assms(2) finish(1) running_in_remove1 [OF finish(2)]
        by (auto simp: sys_ok_def changed_only_def)
    qed
  qed
next
  case (cleanup key)
  let ?l = "ls_limiter s" let ?l' = "cleanup_fires (ls_now s) key ?l"
  show ?thesis
  proof (cases "?l' = ?l")
    case True
    then show ?thesis using assms(2) cleanup by simp
  next
    case False
    then obtain b j v where v: "map_of (rl_buckets ?l) key = Some b" "changed_only key v ?l ?l'"
      "v = Some (rl_prune (ls_now s) j (b\<lparr>bk_cleanupTimer := None\<rparr>)) \<or> (v = None \<and> bk_active b = 0)"
      using cleanup_fires_spec [of ?l "ls_now s" key] assms(2) by (auto simp: sys_ok_def Let_def rl_prune_def)
    have "\<not> rl_isDisposed ?l" using v(1) assms(2) by (auto simp: sys_ok_def)
    moreover have "active_of ?l' k = active_of ?l k" for k
      using v by (auto simp: changed_only_def active_of_def rl_prune_def)
    ultimately show ?thesis using v(2) assms(2) cleanup by (simp add: sys_ok_def changed_only_def)
  qed
next
  case (disposed rejected l)
  then show ?thesis by (auto simp: rl_dispose_def sys_ok_def lim_ok_def wake_ok_def)
next
  case (pass t)
  then show ?thesis using assms(2) by (simp add: sys_ok_def)
qed


definition limiter_init :: "real \<Rightarrow> limiter_system" where
  "limiter_init t = \<lparr>ls_limiter = new_limiter, ls_now = t, ls_running = [], ls_starts = []\<rparr>"

lemma sys_ok_init: "sys_ok (limiter_init t)"
  by (simp add: limiter_init_def sys_ok_def lim_ok_def wake_ok_def new_limiter_def active_of_def)

lemma sys_ok_reach: "rl_step\<^sup>*\<^sup>* (limiter_init t) s \<Longrightarrow> sys_ok s"
  by (induction rule: rtranclp_induct) (auto intro: sys_ok_step sys_ok_init)

text \<open>
  C18: no lost wake-up and bounded tables. In every reachable state of the limiter, if a task is queued
  (and the limiter is not disposed) a drain is scheduled or its timer armed; every queue belongs to an
  existing bucket and holds at most 10000 tasks, and there are at most 10000 buckets.
\<close>

theorem limiter_never_stalls:
  assumes "rl_step\<^sup>*\<^sup>* (limiter_init t) s" and "map_of (rl_queues (ls_limiter s)) k = Some q"
  shows "(rl_drainScheduled (ls_limiter s) \<or> rl_drainTimer (ls_limiter s) \<noteq> None) \<and>
     q \<noteq> [] \<and> length q \<le> 10000 \<and> (\<exists>b. map_of (rl_buckets (ls_limiter s)) k = Some b) \<and>
     length (rl_buckets (ls_limiter s)) \<le> 10000"
proof -
  have ok: "sys_ok s" using sys_ok_reach [OF assms(1)] .
  then have l: "lim_ok (ls_limiter s)" "wake_ok (ls_limiter s)" by (simp_all add: sys_ok_def)
  have nd: "\<not> rl_isDisposed (ls_limiter s)"
    using ok lim_okD(7) [OF l(1) assms(2)] by (auto simp: sys_ok_def split: if_splits)
  have "rl_pending (ls_limiter s) \<noteq> []" using lim_okD(4) [OF l(1), of k] assms(2) by force
  then show ?thesis
    using l(2) nd lim_okD(5,6,7) [OF l(1) assms(2)] lim_okD(9) [OF l(1)]
    by (auto simp: wake_ok_def MAX_BUCKETS_def MAX_QUEUE_PER_BUCKET_def)
qed

subsection \<open>Uniform buckets\<close>

text \<open>
  The bounds of a bucket are those of the options its tasks were scheduled with; they are stated for
  runs in which every task queued in the bucket carries options satisfying one predicate.
\<close>

definition queue_uses :: "(rate_limit_options \<Rightarrow> bool) \<Rightarrow> string \<Rightarrow> limiter \<Rightarrow> bool" where
  "queue_uses Q k l \<longleftrightarrow> (\<forall>q. map_of (rl_queues l) k = Some q \<longrightarrow> (\<forall>it \<in> set q. Q (ri_options it)))"

definition uniform_step :: "(rate_limit_options \<Rightarrow> bool) \<Rightarrow> string \<Rightarrow> limiter_system \<Rightarrow> limiter_system \<Rightarrow> bool" where
  "uniform_step Q k s s' \<longleftrightarrow> rl_step s s' \<and> queue_uses Q k (ls_limiter s')"

lemma queue_uses_dequeue:
  "queue_uses Q k l \<Longrightarrow> map_of (rl_queues l) key = Some (it # q) \<Longrightarrow> queue_uses Q k (dequeue key q l)"
  by (auto simp: queue_uses_def)

lemma queue_uses_cong: "rl_queues l' = rl_queues l \<Longrightarrow> queue_uses Q k l' = queue_uses Q k l"
  by (simp add: queue_uses_def)

definition starts_of :: "string \<Rightarrow> (string \<times> real) list \<Rightarrow> real list" where
  "starts_of k xs = map snd (filter (\<lambda>e. fst e = k) xs)"

definition in_window :: "real \<Rightarrow> real \<Rightarrow> real list \<Rightarrow> nat" where
  \<comment> \<open>how many of the times lie in the window of length \<open>i\<close> that ends at \<open>t\<close>\<close>
  "in_window i t xs = length (filter (\<lambda>x. t - i < x \<and> x \<le> t) xs)"

definition started_of :: "limiter \<Rightarrow> string \<Rightarrow> real list" where
  "started_of l k = (case map_of (rl_buckets l) k of None \<Rightarrow> [] | Some b \<Rightarrow> bk_startedAt b)"

definition window_inv :: "string \<Rightarrow> real \<Rightarrow> nat \<Rightarrow> limiter \<Rightarrow> real \<Rightarrow> real list \<Rightarrow> bool" where
  "window_inv k i p l now xs \<longleftrightarrow> (\<exists>old. xs = old @ started_of l k \<and> (\<forall>x \<in> set old. i \<le> now - x)) \<and>
     (\<forall>x \<in> set xs. 0 < x \<and> x \<le> now) \<and> (\<forall>t. in_window i t xs \<le> p) \<and>
     (\<forall>b j. map_of (rl_buckets l) k = Some b \<longrightarrow> bk_cleanupTimer b = Some j \<longrightarrow> j = i)"

definition wopts :: "real \<Rightarrow> nat \<Rightarrow> rate_limit_options \<Rightarrow> bool" where
  "wopts i p opts \<longleftrightarrow> rl_intervalMs opts = Some i \<and> rl_maxPerInterval opts = Some p"

lemma in_window_append [simp]: "in_window i t (xs @ ys) = in_window i t xs + in_window i t ys"
  by (simp add: in_window_def)

lemma in_window_le: "in_window i t xs \<le> length xs"
  by (simp add: in_window_def)

lemma in_window_old: "\<forall>x \<in> set xs. i \<le> now - x \<Longrightarrow> now \<le> t \<Longrightarrow> in_window i t xs = 0"
  by (force simp: in_window_def filter_empty_conv)

lemma in_window_single: "in_window i t [x] = (if t - i < x \<and> x \<le> t then 1 else 0)"
  by (simp add: in_window_def)

lemma window_start:
  assumes "window_inv k i p l now xs" "map_of (rl_buckets l) k = Some b" "may_start opts b" "wopts i p opts"
    and "0 < i" "0 < p" "0 < now" "bk_startedAt b' = bk_startedAt b @ [now]" "bk_cleanupTimer b' = None"
    and "map_of (rl_buckets l') k = Some b'"
  shows "window_inv k i p l' now (xs @ [now])"
proof -
  obtain old where old: "xs = old @ bk_startedAt b" "\<forall>x \<in> set old. i \<le> now - x"
    using assms(1,2) by (auto simp: window_inv_def started_of_def)
  have pos: "\<forall>x \<in> set xs. 0 < x \<and> x \<le> now" and win: "\<And>t. in_window i t xs \<le> p"
    using assms(1) by (auto simp: window_inv_def)
  have "rl_windowed opts" using assms(4-6) by (simp add: rl_windowed_def wopts_def ntruthy_def)
  then have "length (bk_startedAt b) < p \<or> bk_startedAt b = [] \<or> hd (bk_startedAt b) = 0"
    using assms(3,4) by (auto simp: may_start_def wopts_def)
  moreover have "hd (bk_startedAt b) \<noteq> 0" if "bk_startedAt b \<noteq> []"
    using that pos old(1) by (metis UnCI hd_in_set less_irrefl set_append)
  ultimately have len: "length (bk_startedAt b) < p" using assms(6) by (cases "bk_startedAt b = []") auto
  have "in_window i t (xs @ [now]) \<le> p" for t
  proof (cases "now \<le> t")
    case True
    have "in_window i t old = 0" using in_window_old [OF old(2) True] .
    then show ?thesis using len in_window_le [of i t "bk_startedAt b"] by (simp add: old(1) in_window_single)
  next
    case False
    then show ?thesis using win [of t] by (simp add: in_window_single)
  qed
  moreover have "\<exists>o'. xs @ [now] = o' @ started_of l' k \<and> (\<forall>x \<in> set o'. i \<le> now - x)"
    using old assms(8,10) by (intro exI [of _ old]) (simp add: started_of_def)
  ultimately show ?thesis using pos assms(7,9,10) by (auto simp: window_inv_def)
qed

lemma window_prune:
  assumes "window_inv k i p l now xs" "map_of (rl_buckets l) k = Some b"
    and "bk_startedAt b' = dropWhile (\<lambda>x. \<not> now - x < i) (bk_startedAt b)"
    and "bk_cleanupTimer b' = bk_cleanupTimer b \<or> bk_cleanupTimer b' = None" "map_of (rl_buckets l') k = Some b'"
  shows "window_inv k i p l' now xs"
proof -
  let ?P = "\<lambda>x. \<not> now - x < i"
  obtain old where old: "xs = old @ bk_startedAt b" "\<forall>x \<in> set old. i \<le> now - x"
    using assms(1,2) by (auto simp: window_inv_def started_of_def)
  have "xs = (old @ takeWhile ?P (bk_startedAt b)) @ started_of l' k"
    using old assms(3,5) by (simp add: started_of_def)
  moreover have "\<forall>x \<in> set (old @ takeWhile ?P (bk_startedAt b)). i \<le> now - x"
    using old(2) by (auto dest: set_takeWhileD)
  ultimately have "\<exists>o'. xs = o' @ started_of l' k \<and> (\<forall>x \<in> set o'. i \<le> now - x)" by blast
  then show ?thesis using assms unfolding window_inv_def by auto
qed

lemma window_cong:
  "window_inv k i p l now xs \<Longrightarrow> started_of l' k = started_of l k \<Longrightarrow>
     (\<And>b j. map_of (rl_buckets l') k = Some b \<Longrightarrow> bk_cleanupTimer b = Some j \<Longrightarrow> j = i) \<Longrightarrow> window_inv k i p l' now xs"
  by (simp add: window_inv_def)

lemma window_timer: "window_inv k i p l now xs \<Longrightarrow> map_of (rl_buckets l) k = Some b \<Longrightarrow> bk_cleanupTimer b = Some j \<Longrightarrow> j = i"
  by (simp add: window_inv_def)

lemma window_other:
  assumes "window_inv k i p l now xs" "map_of (rl_buckets l') k = map_of (rl_buckets l) k \<or>
     (started_of l k = [] \<and> (map_of (rl_buckets l') k = None \<or> map_of (rl_buckets l') k = Some new_bucket))"
  shows "window_inv k i p l' now xs"
proof (rule window_cong [OF assms(1)])
  show "started_of l' k = started_of l k"
    using assms(2) by (auto simp: started_of_def new_bucket_def split: option.splits)
  show "j = i" if "map_of (rl_buckets l') k = Some b" "bk_cleanupTimer b = Some j" for b j
    using assms(2) that window_timer [OF assms(1), of b j] by (auto simp: new_bucket_def)
qed

lemma window_later: "window_inv k i p l now xs \<Longrightarrow> now \<le> t \<Longrightarrow> window_inv k i p l t xs"
proof -
  assume a: "window_inv k i p l now xs" "now \<le> t"
  then obtain old where "xs = old @ started_of l k" "\<forall>x \<in> set old. i \<le> now - x"
    by (auto simp: window_inv_def)
  then have "\<exists>old. xs = old @ started_of l k \<and> (\<forall>x \<in> set old. i \<le> t - x)"
    using a(2) by (intro exI [of _ old]) force
  moreover have "0 < x \<and> x \<le> t" if "x \<in> set xs" for x
  proof -
    have "0 < x \<and> x \<le> now" using a(1) that by (simp add: window_inv_def)
    then show ?thesis using a(2) by simp
  qed
  ultimately show ?thesis using a(1) by (simp add: window_inv_def)
qed

lemma window_finish:
  assumes "window_inv k i p l now xs" "map_of (rl_buckets l) k = Some b" "map_of (rl_buckets l') k = v"
    and "v = None \<and> bk_startedAt b = [] \<or>
       (\<exists>n t. v = Some (b\<lparr>bk_active := n, bk_cleanupTimer := t\<rparr>) \<and> (t = bk_cleanupTimer b \<or> t = Some i))"
  shows "window_inv k i p l' now xs"
proof (rule window_cong [OF assms(1)])
  show "started_of l' k = started_of l k" using assms(2-4) by (auto simp: started_of_def)
  show "j = i" if "map_of (rl_buckets l') k = Some c" "bk_cleanupTimer c = Some j" for c j
    using assms(3,4) that window_timer [OF assms(1,2), of j] by auto
qed


subsection \<open>The bounds\<close>

definition bucket_inv :: "string \<Rightarrow> real \<Rightarrow> nat \<Rightarrow> limiter \<Rightarrow> rl_item list \<Rightarrow> real \<Rightarrow> real list \<Rightarrow> bool" where
  "bucket_inv k i p l run now xs \<longleftrightarrow> queue_uses (wopts i p) k l \<and>
     (\<forall>it \<in> set run. ri_bucketKey it = k \<longrightarrow> wopts i p (ri_options it)) \<and>
     (if rl_isDisposed l then \<forall>t. in_window i t xs \<le> p else window_inv k i p l now xs)"

lemma bucket_inv_cong:
  "rl_buckets l' = rl_buckets l \<Longrightarrow> rl_queues l' = rl_queues l \<Longrightarrow> rl_isDisposed l' = rl_isDisposed l \<Longrightarrow>
     bucket_inv k i p l' run now xs = bucket_inv k i p l run now xs"
  unfolding bucket_inv_def queue_uses_def window_inv_def started_of_def by simp

lemma starts_of_append [simp]: "starts_of k (xs @ ys) = starts_of k xs @ starts_of k ys"
  by (simp add: starts_of_def)

lemma starts_of_items: "starts_of k (map (\<lambda>it. (ri_bucketKey it, now)) [it]) = (if ri_bucketKey it = k then [now] else [])"
  by (simp add: starts_of_def)

lemma drain_bucket_inv:
  assumes "lim_ok l" "bucket_inv k i p l run now (starts_of k xs)" "0 < i" "0 < p" "0 < now"
    and "drain now l = (Inr st, l')"
  shows "bucket_inv k i p l' (run @ st) now (starts_of k (xs @ map (\<lambda>it. (ri_bucketKey it, now)) st))"
proof (cases "rl_isDisposed l")
  case True
  then show ?thesis using assms by (auto simp: drain_def)
next
  case False
  let ?P = "\<lambda>l st. \<not> rl_isDisposed l \<and> bucket_inv k i p l (run @ st) now (starts_of k (xs @ map (\<lambda>it. (ri_bucketKey it, now)) st))"
  have "\<exists>st l'. drain now l = (Inr st, l') \<and> lim_ok l' \<and> ?P l' st \<and> rl_isDisposed l' = rl_isDisposed l \<and> wake_ok l'"
  proof (rule drain_rule [where P = ?P])
    show "lim_ok l" by fact
    show "?P l []" using assms(2) False by simp
  next
    fix l l' :: limiter and st assume "?P l st" "rl_buckets l' = rl_buckets l" "rl_queues l' = rl_queues l" "rl_isDisposed l' = rl_isDisposed l"
    then show "?P l' st" using bucket_inv_cong [of l' l] by simp
  next
    fix l st key it q b
    assume a: "lim_ok l" "?P l st" "map_of (rl_queues l) key = Some (it # q)" "map_of (rl_buckets l) key = Some b"
      "rl_windowed (ri_options it)"
    let ?j = "the (rl_intervalMs (ri_options it))" let ?l = "set_bucket key (rl_prune now ?j b) l"
    let ?xs = "starts_of k (xs @ map (\<lambda>it. (ri_bucketKey it, now)) st)"
    have w: "window_inv k i p l now ?xs" and q: "queue_uses (wopts i p) k l" using a(2) by (simp_all add: bucket_inv_def)
    have "window_inv k i p ?l now ?xs"
    proof (cases "key = k")
      case True
      then have "?j = i" using q a(3) by (simp add: queue_uses_def wopts_def)
      then show ?thesis using a(4) True by (intro window_prune [OF w, of b "rl_prune now ?j b"]) (simp_all add: rl_prune_def)
    next
      case False
      then show ?thesis using w by (intro window_other [OF w]) auto
    qed
    then show "?P ?l st" using a(2) by (simp add: bucket_inv_def queue_uses_def)
  next
    fix l st key it q b
    assume a: "lim_ok l" "?P l st" "map_of (rl_queues l) key = Some (it # q)" "map_of (rl_buckets l) key = Some b"
      "may_start (ri_options it) b" "ri_bucketKey it = key"
    let ?l = "set_bucket key (start_item now it b) (dequeue key q l)"
    let ?xs = "starts_of k (xs @ map (\<lambda>it. (ri_bucketKey it, now)) st)"
    have w: "window_inv k i p l now ?xs" and q: "queue_uses (wopts i p) k l" using a(2) by (simp_all add: bucket_inv_def)
    have q': "queue_uses (wopts i p) k ?l" using queue_uses_dequeue [OF q a(3)] by (simp add: queue_uses_def)
    have o: "wopts i p (ri_options it)" if "key = k" using q a(3) that by (simp add: queue_uses_def)
    have "window_inv k i p ?l now (?xs @ starts_of k (map (\<lambda>it. (ri_bucketKey it, now)) [it]))"
    proof (cases "key = k")
      case True
      then have "rl_windowed (ri_options it)" using o assms(3,4) by (simp add: rl_windowed_def wopts_def ntruthy_def)
      then have "window_inv k i p ?l now (?xs @ [now])"
        using a(4,5) True assms(3-5) o
        by (intro window_start [OF w, of b "ri_options it" "start_item now it b"]) (simp_all add: start_item_def)
      then show ?thesis using True a(6) by (simp add: starts_of_items del: list.map)
    next
      case False
      then have "window_inv k i p ?l now ?xs" by (intro window_other [OF w]) auto
      then show ?thesis using False a(6) by (simp add: starts_of_items del: list.map)
    qed
    then show "?P ?l (st @ [it])" using a(2,6) q' o by (auto simp: bucket_inv_def)
  qed
  then show ?thesis using assms(6) by auto
qed

lemma finish_absent: "map_of (rl_buckets l) (ri_bucketKey it) = None \<Longrightarrow> finish_item now it l = scheduleDrain now (Some 0) l"
  by (simp add: finish_item_def)

lemma bucket_inv_step:
  assumes "rl_step s s'" "sys_ok s" "queue_uses (wopts i p) k (ls_limiter s')" "0 < i" "0 < p" "0 < ls_now s"
    and "bucket_inv k i p (ls_limiter s) (ls_running s) (ls_now s) (starts_of k (ls_starts s))"
  shows "bucket_inv k i p (ls_limiter s') (ls_running s') (ls_now s') (starts_of k (ls_starts s')) \<and> 0 < ls_now s'"
  using assms(1)
proof cases
  case (schedule opts ctx task r l)
  have ok: "lim_ok (ls_limiter s)" using assms(2) by (simp add: sys_ok_def)
  have "bucket_kept (ls_limiter s) l k \<and> rl_isDisposed l = rl_isDisposed (ls_limiter s)"
    using rl_schedule_cases [OF ok schedule(2)] by metis
  then have "rl_isDisposed l = rl_isDisposed (ls_limiter s)"
    and "map_of (rl_buckets l) k = map_of (rl_buckets (ls_limiter s)) k \<or> (started_of (ls_limiter s) k = [] \<and>
      (map_of (rl_buckets l) k = None \<or> map_of (rl_buckets l) k = Some new_bucket))"
    by (auto simp: bucket_kept_def started_of_def idle_at_def)
  then show ?thesis
    using assms(3,6,7) schedule(1) window_other [of k i p "ls_limiter s" "ls_now s" _ l]
    by (simp add: bucket_inv_def)
next
  case (microtask started l)
  have "lim_ok (ls_limiter s\<lparr>rl_drainScheduled := False\<rparr>)"
    using assms(2) lim_ok_cong [of "ls_limiter s\<lparr>rl_drainScheduled := False\<rparr>" "ls_limiter s"] by (simp add: sys_ok_def)
  moreover have "bucket_inv k i p (ls_limiter s\<lparr>rl_drainScheduled := False\<rparr>) (ls_running s) (ls_now s) (starts_of k (ls_starts s))"
    using assms(7) by (subst bucket_inv_cong) simp_all
  ultimately show ?thesis using drain_bucket_inv [OF _ _ assms(4-6) microtask(3)] assms(6) microtask(1) by simp
next
  case (timer started l)
  have "lim_ok (ls_limiter s\<lparr>rl_drainTimer := None\<rparr>)"
    using assms(2) lim_ok_cong [of "ls_limiter s\<lparr>rl_drainTimer := None\<rparr>" "ls_limiter s"] by (simp add: sys_ok_def)
  moreover have "bucket_inv k i p (ls_limiter s\<lparr>rl_drainTimer := None\<rparr>) (ls_running s) (ls_now s) (starts_of k (ls_starts s))"
    using assms(7) by (subst bucket_inv_cong) simp_all
  ultimately show ?thesis using drain_bucket_inv [OF _ _ assms(4-6) timer(3)] assms(6) timer(1) by simp
next
  case (microtask_throws e l)
  then show ?thesis using sys_ok_drain [OF assms(2), of "ls_limiter s\<lparr>rl_drainScheduled := False\<rparr>"] by fastforce
next
  case (timer_throws e l)
  then show ?thesis using sys_ok_drain [OF assms(2), of "ls_limiter s\<lparr>rl_drainTimer := None\<rparr>"] by fastforce
next
  case (finish it)
  let ?l = "ls_limiter s" let ?l' = "finish_item (ls_now s) it ?l" let ?xs = "starts_of k (ls_starts s)"
  have run: "\<forall>u \<in> set (remove1 it (ls_running s)). ri_bucketKey u = k \<longrightarrow> wopts i p (ri_options u)"
    using assms(7) notin_set_remove1 by (metis bucket_inv_def)
  show ?thesis
  proof (cases "map_of (rl_buckets ?l) (ri_bucketKey it)")
    case None
    then have "rl_isDisposed ?l' = rl_isDisposed ?l" "window_inv k i p ?l (ls_now s) ?xs \<longrightarrow> window_inv k i p ?l' (ls_now s) ?xs"
      using window_other [of k i p ?l "ls_now s" ?xs ?l'] by (auto simp: finish_absent)
    then show ?thesis using assms(3,6,7) finish(1) run by (simp add: bucket_inv_def)
  next
    case (Some b)
    have nd: "\<not> rl_isDisposed ?l" using Some assms(2) by (auto simp: sys_ok_def)
    then have w: "window_inv k i p ?l (ls_now s) ?xs" using assms(7) by (simp add: bucket_inv_def)
    obtain v where v: "changed_only (ri_bucketKey it) v ?l ?l'" "v = None \<and> bk_startedAt b = [] \<or>
       (\<exists>t. v = Some (b\<lparr>bk_active := bk_active b - 1, bk_cleanupTimer := t\<rparr>) \<and> (t = bk_cleanupTimer b \<or> t = rl_intervalMs (ri_options it)))"
      using finish_item_spec [of ?l it b "ls_now s"] Some assms(2) by (auto simp: sys_ok_def)
    have "window_inv k i p ?l' (ls_now s) ?xs"
    proof (cases "ri_bucketKey it = k")
      case True
      have "rl_intervalMs (ri_options it) = Some i"
        using assms(7) finish(2) True by (auto simp: bucket_inv_def wopts_def)
      then show ?thesis
        using v Some True by (intro window_finish [OF w, of b _ v]) (auto simp: changed_only_def)
    next
      case False
      then show ?thesis using v(1) by (intro window_other [OF w]) (auto simp: changed_only_def)
    qed
    then show ?thesis using assms(3,6) nd v(1) finish(1) run by (simp add: bucket_inv_def changed_only_def)
  qed
next
  case (cleanup key)
  let ?l = "ls_limiter s" let ?l' = "cleanup_fires (ls_now s) key ?l" let ?xs = "starts_of k (ls_starts s)"
  have ok: "lim_ok ?l" using assms(2) by (simp add: sys_ok_def)
  show ?thesis
  proof (cases "?l' = ?l")
    case True
    then show ?thesis using assms(6,7) cleanup by simp
  next
    case False
    then obtain b j v where v: "map_of (rl_buckets ?l) key = Some b" "bk_cleanupTimer b = Some j" "changed_only key v ?l ?l'"
      "v = Some (rl_prune (ls_now s) j (b\<lparr>bk_cleanupTimer := None\<rparr>)) \<or>
       (v = None \<and> bk_startedAt (rl_prune (ls_now s) j (b\<lparr>bk_cleanupTimer := None\<rparr>)) = [])"
      using cleanup_fires_spec [OF ok, of "ls_now s" key] by (auto simp: Let_def)
    have nd: "\<not> rl_isDisposed ?l" using v(1) assms(2) by (auto simp: sys_ok_def)
    then have w: "window_inv k i p ?l (ls_now s) ?xs" using assms(7) by (simp add: bucket_inv_def)
    have "window_inv k i p ?l' (ls_now s) ?xs"
    proof (cases "key = k")
      case True
      let ?b = "rl_prune (ls_now s) j (b\<lparr>bk_cleanupTimer := None\<rparr>)"
      have "j = i" using w v(1,2) True by (simp add: window_inv_def)
      then have w1: "window_inv k i p (set_bucket k ?b ?l) (ls_now s) ?xs"
        using v(1) True by (intro window_prune [OF w, of b ?b]) (simp_all add: rl_prune_def)
      show ?thesis
        using v(3,4) True by (intro window_other [OF w1]) (auto simp: changed_only_def started_of_def)
    next
      case False
      then show ?thesis using v(3) by (intro window_other [OF w]) (auto simp: changed_only_def)
    qed
    then show ?thesis using assms(3,6,7) nd v(3) cleanup by (simp add: bucket_inv_def changed_only_def)
  qed
next
  case (disposed rejected l)
  then show ?thesis using assms(3,6,7) by (auto simp: rl_dispose_def bucket_inv_def window_inv_def split: if_splits)
next
  case (pass t)
  then show ?thesis using assms(6,7) window_later [of k i p "ls_limiter s" "ls_now s" _ t]
    by (auto simp: bucket_inv_def)
qed

lemma bucket_inv_reach:
  assumes "(uniform_step (wopts i p) k)\<^sup>*\<^sup>* (limiter_init t0) s" "0 < i" "0 < p" "0 < t0"
  shows "sys_ok s \<and> 0 < ls_now s \<and> bucket_inv k i p (ls_limiter s) (ls_running s) (ls_now s) (starts_of k (ls_starts s))"
  using assms(1)
proof (induction rule: rtranclp_induct)
  case base
  show ?case
    using sys_ok_init [of t0] assms(4)
    by (simp add: limiter_init_def bucket_inv_def queue_uses_def new_limiter_def window_inv_def started_of_def
        starts_of_def in_window_def)
next
  case (step s s')
  then show ?case
    using bucket_inv_step [of s s' i p k] sys_ok_step [of s s'] assms(2,3) by (simp add: uniform_step_def)
qed

text \<open>
  C19: the sliding window holds. In every run in which all tasks queued in a bucket carry the same
  interval \<open>i\<close> and limit \<open>p\<close>, no window of length \<open>i\<close>, wherever it ends, contains more than \<open>p\<close> starts of
  that bucket: over the whole history, across pruning, bucket eviction, cleanup timers and disposal.
\<close>

theorem rate_window_respected:
  assumes "(uniform_step (wopts i p) k)\<^sup>*\<^sup>* (limiter_init t0) s" "0 < i" "0 < p" "0 < t0"
  shows "length (filter (\<lambda>x. t - i < x \<and> x \<le> t) (map snd (filter (\<lambda>e. fst e = k) (ls_starts s)))) \<le> p"
  using bucket_inv_reach [OF assms]
  by (auto simp: bucket_inv_def window_inv_def in_window_def starts_of_def split: if_splits)


definition copts :: "nat \<Rightarrow> rate_limit_options \<Rightarrow> bool" where
  "copts c opts \<longleftrightarrow> rl_maxConcurrent opts = Some c"

lemma drain_concurrency:
  assumes "lim_ok l" "\<not> rl_isDisposed l" "queue_uses (copts c) k l" "0 < c" "active_of l k \<le> c" "drain now l = (Inr st, l')"
  shows "active_of l' k \<le> c"
proof -
  have "\<exists>st l'. drain now l = (Inr st, l') \<and> lim_ok l' \<and> (queue_uses (copts c) k l' \<and> active_of l' k \<le> c) \<and>
     rl_isDisposed l' = rl_isDisposed l \<and> wake_ok l'"
  proof (rule drain_rule [where P = "\<lambda>l st. queue_uses (copts c) k l \<and> active_of l k \<le> c"])
    fix l st key it q b
    assume a: "lim_ok l" "queue_uses (copts c) k l \<and> active_of l k \<le> c" "map_of (rl_queues l) key = Some (it # q)"
      "map_of (rl_buckets l) key = Some b" "may_start (ri_options it) b"
    have "bk_active b < c" if "key = k"
    proof -
      have "rl_maxConcurrent (ri_options it) = Some c" using a(2,3) that by (simp add: queue_uses_def copts_def)
      then show ?thesis using a(5) assms(4) by (simp add: may_start_def ntruthy_def)
    qed
    then show "queue_uses (copts c) k (set_bucket key (start_item now it b) (dequeue key q l)) \<and>
        active_of (set_bucket key (start_item now it b) (dequeue key q l)) k \<le> c"
      using a(2,3) queue_uses_dequeue [of "copts c" k l key it q]
      by (auto simp: active_of_def start_item_def queue_uses_def)
  qed (use assms in \<open>auto simp: active_of_def queue_uses_def rl_prune_def split: option.splits\<close>)
  then show ?thesis using assms(6) by auto
qed

lemma concurrency_step:
  assumes "rl_step s s'" "sys_ok s" "queue_uses (copts c) k (ls_limiter s)" "0 < c" "running_in k (ls_running s) \<le> c"
  shows "running_in k (ls_running s') \<le> c"
  using assms(1)
proof cases
  case (microtask started l)
  have s': "sys_ok s'" using sys_ok_step assms(1,2) by blast
  show ?thesis
  proof (cases "rl_isDisposed (ls_limiter s)")
    case True
    then show ?thesis using microtask assms(5) by (simp add: drain_def)
  next
    case False
    let ?l = "ls_limiter s\<lparr>rl_drainScheduled := False\<rparr>"
    have "active_of ?l k \<le> c" using assms(2,5) False active_of_cong [of ?l "ls_limiter s" k] by (simp add: sys_ok_def)
    moreover have "lim_ok ?l" using assms(2) lim_ok_cong [of ?l "ls_limiter s"] by (simp add: sys_ok_def)
    moreover have "queue_uses (copts c) k ?l" using assms(3) by (simp add: queue_uses_def)
    ultimately have "active_of l k \<le> c" using drain_concurrency [of ?l c k "ls_now s" started l] microtask(3) False assms(4) by simp
    moreover have "\<not> rl_isDisposed l"
      using sys_ok_drain [OF assms(2), of ?l] drain_active [of ?l "ls_running s" "ls_now s"] \<open>lim_ok ?l\<close> False assms(2) microtask(3)
        active_of_cong [of ?l "ls_limiter s"] by (auto simp: sys_ok_def)
    ultimately show ?thesis using s' microtask(1) by (simp add: sys_ok_def)
  qed
next
  case (timer started l)
  have s': "sys_ok s'" using sys_ok_step assms(1,2) by blast
  show ?thesis
  proof (cases "rl_isDisposed (ls_limiter s)")
    case True
    then show ?thesis using timer assms(5) by (simp add: drain_def)
  next
    case False
    let ?l = "ls_limiter s\<lparr>rl_drainTimer := None\<rparr>"
    have "active_of ?l k \<le> c" using assms(2,5) False active_of_cong [of ?l "ls_limiter s" k] by (simp add: sys_ok_def)
    moreover have "lim_ok ?l" using assms(2) lim_ok_cong [of ?l "ls_limiter s"] by (simp add: sys_ok_def)
    moreover have "queue_uses (copts c) k ?l" using assms(3) by (simp add: queue_uses_def)
    ultimately have "active_of l k \<le> c" using drain_concurrency [of ?l c k "ls_now s" started l] timer(3) False assms(4) by simp
    moreover have "\<not> rl_isDisposed l"
      using drain_active [of ?l "ls_running s" "ls_now s"] \<open>lim_ok ?l\<close> False assms(2) timer(3)
        active_of_cong [of ?l "ls_limiter s"] by (auto simp: sys_ok_def)
    ultimately show ?thesis using s' timer(1) by (simp add: sys_ok_def)
  qed
next
  case (finish it)
  then show ?thesis using assms(5) running_in_remove1 [OF finish(2), of k] by simp
qed (use assms(5) in simp_all)

text \<open>
  The concurrency bound holds. In every run in which all tasks queued in a bucket carry the same
  positive \<open>maxConcurrent\<close>, at most that many of its tasks run at once, and until the limiter is
  disposed the bucket's counter is exactly the number of its running tasks.
\<close>

theorem concurrency_respected:
  assumes "(uniform_step (copts c) k)\<^sup>*\<^sup>* (limiter_init t0) s" "0 < c"
  shows "length (filter (\<lambda>it. ri_bucketKey it = k) (ls_running s)) \<le> c \<and>
     (\<not> rl_isDisposed (ls_limiter s) \<longrightarrow>
       (case map_of (rl_buckets (ls_limiter s)) k of None \<Rightarrow> 0 | Some b \<Rightarrow> bk_active b)
         = length (filter (\<lambda>it. ri_bucketKey it = k) (ls_running s)))"
proof -
  have "sys_ok s \<and> queue_uses (copts c) k (ls_limiter s) \<and> running_in k (ls_running s) \<le> c"
    using assms(1)
  proof (induction rule: rtranclp_induct)
    case base
    show ?case using sys_ok_init [of t0] by (simp add: limiter_init_def queue_uses_def new_limiter_def)
  next
    case (step s s')
    then show ?case using concurrency_step [of s s' c k] sys_ok_step [of s s'] assms(2) by (simp add: uniform_step_def)
  qed
  then show ?thesis by (auto simp: running_in_def sys_ok_def active_of_def)
qed

subsection \<open>A run\<close>

text \<open>One task scheduled in the global bucket, then drained.\<close>

definition demo_options :: rate_limit_options where
  "demo_options = \<lparr>rl_maxConcurrent = Some 1, rl_intervalMs = Some 1000, rl_maxPerInterval = Some 2,
     rl_scope = Some RGlobal, rl_bucketKey = None, rl_queueOverflow = None\<rparr>"

definition demo_item :: rl_item where
  "demo_item = \<lparr>ri_id = 0, ri_bucketKey = ''global'', ri_options = demo_options\<rparr>"

definition demo_queued :: limiter where
  "demo_queued = \<lparr>rl_buckets = [(''global'', \<lparr>bk_active = 0, bk_startedAt = [], bk_cleanupTimer = None\<rparr>)],
     rl_queues = [(''global'', [demo_item])], rl_pending = [''global''], rl_fetcherBuckets = [],
     rl_nextFetcherBucketId = 0, rl_drainTimer = None, rl_drainScheduled = True, rl_isDisposed = False, rl_bypasses = 0\<rparr>"

definition demo_running :: limiter where
  "demo_running = \<lparr>rl_buckets = [(''global'', \<lparr>bk_active = 1, bk_startedAt = [5], bk_cleanupTimer = None\<rparr>)],
     rl_queues = [], rl_pending = [], rl_fetcherBuckets = [],
     rl_nextFetcherBucketId = 0, rl_drainTimer = None, rl_drainScheduled = False, rl_isDisposed = False, rl_bypasses = 0\<rparr>"

lemma demo_schedule: "rl_schedule 5 (Some demo_options) \<lparr>sx_key = ''k'', sx_fetcher = 0\<rparr> 0 new_limiter = (Queued, demo_queued)"
  by (simp add: rl_schedule_def rl_normalize_def ntruthy_def demo_options_def resolveBucketKey_def bucketState_def
      new_limiter_def MAX_BUCKETS_def MAX_QUEUE_PER_BUCKET_def scheduleDrain_def demo_queued_def demo_item_def js_add_def Let_def)

lemma demo_drain: "drain 5 (demo_queued\<lparr>rl_drainScheduled := False\<rparr>) = (Inr [demo_item], demo_running)"
  by (simp add: drain_def demo_queued_def demo_running_def waitTime_def bucketState_def ntruthy_def rl_windowed_def
      demo_item_def demo_options_def rl_prune_def set_bucket_def drop_queue_def start_item_def js_remove_def Let_def)

lemma demo_steps:
  assumes "Q demo_options"
  shows "uniform_step Q ''global'' (limiter_init 5) \<lparr>ls_limiter = demo_queued, ls_now = 5, ls_running = [], ls_starts = []\<rparr>"
    and "uniform_step Q ''global'' \<lparr>ls_limiter = demo_queued, ls_now = 5, ls_running = [], ls_starts = []\<rparr>
      \<lparr>ls_limiter = demo_running, ls_now = 5, ls_running = [demo_item], ls_starts = [(''global'', 5)]\<rparr>"
proof -
  have "rl_step (limiter_init 5) (limiter_init 5\<lparr>ls_limiter := demo_queued\<rparr>)"
    using demo_schedule by (intro rl_step.schedule) (simp add: limiter_init_def)
  then show "uniform_step Q ''global'' (limiter_init 5) \<lparr>ls_limiter = demo_queued, ls_now = 5, ls_running = [], ls_starts = []\<rparr>"
    using assms by (simp add: uniform_step_def limiter_init_def queue_uses_def demo_queued_def demo_item_def)
  let ?s = "\<lparr>ls_limiter = demo_queued, ls_now = 5, ls_running = [], ls_starts = []\<rparr>"
  have "rl_step ?s (?s\<lparr>ls_limiter := demo_running, ls_running := ls_running ?s @ [demo_item],
      ls_starts := ls_starts ?s @ map (\<lambda>it. (ri_bucketKey it, ls_now ?s)) [demo_item]\<rparr>)"
    using demo_drain by (intro rl_step.microtask) (simp_all add: demo_queued_def)
  then show "uniform_step Q ''global'' ?s
      \<lparr>ls_limiter = demo_running, ls_now = 5, ls_running = [demo_item], ls_starts = [(''global'', 5)]\<rparr>"
    by (simp add: uniform_step_def queue_uses_def demo_running_def demo_item_def)
qed

lemma demo_reach:
  "Q demo_options \<Longrightarrow> (uniform_step Q ''global'')\<^sup>*\<^sup>* (limiter_init 5)
     \<lparr>ls_limiter = demo_running, ls_now = 5, ls_running = [demo_item], ls_starts = [(''global'', 5)]\<rparr>"
  using demo_steps [of Q] by (meson converse_rtranclp_into_rtranclp r_into_rtranclp)

lemma demo_queued_reach:
  "rl_step\<^sup>*\<^sup>* (limiter_init 5) \<lparr>ls_limiter = demo_queued, ls_now = 5, ls_running = [], ls_starts = []\<rparr>"
  using demo_steps(1) [of "\<lambda>_. True"] by (simp add: uniform_step_def r_into_rtranclp)

theorem limiter_never_stalls_witness:
  "map_of (rl_queues demo_queued) ''global'' = Some [demo_item] \<and>
   (\<exists>b. map_of (rl_buckets demo_queued) ''global'' = Some b) \<and> length (rl_buckets demo_queued) \<le> 10000"
  using limiter_never_stalls [OF demo_queued_reach, of "''global''" "[demo_item]"] by (simp add: demo_queued_def)

theorem rate_window_respected_witness:
  "in_window 1000 5 (starts_of ''global'' [(''global'', 5)]) \<le> 2"
  using rate_window_respected [OF demo_reach [of "wopts 1000 2"], of 5]
  by (simp add: wopts_def demo_options_def in_window_def starts_of_def)

theorem concurrency_respected_witness:
  "length (filter (\<lambda>it. ri_bucketKey it = ''global'') [demo_item]) \<le> 1"
  using concurrency_respected [OF demo_reach [of "copts 1"]] by (simp add: copts_def demo_options_def)

end
