(* ===== verification/Metrics.thy ===== *)
theory Metrics
  imports Types
begin

text \<open>
  Metrics (\<open>src/src/internal/MetricsCollector.ts\<close>, \<open>src/src/internal/CacheNamespaceMetrics.ts\<close>): the
  counters, their per-layer maps, the running latency average, the captures a namespace uses to account
  for its own operations, and the arithmetic on snapshots. A \<open>Record\<close> of numbers is a map in insertion
  order; \<open>mc_captures\<close> is the list the async context of the running operation carries.

  Lemmas: a capture records exactly what the collector adds while the operation runs, so the namespace
  sums and differences of snapshots are exact on every counter; the latency average is the mean.
\<close>

subsection \<open>Counters\<close>

datatype metric_field =
    MHits | MMisses | MFetches | MSets | MDeletes | MBackfills | MInvalidations | MStaleHits | MRefreshes
  | MRefreshErrors | MWriteFailures | MSingleFlightWaits | MNegativeCacheHits | MCircuitBreakerTrips | MDegradedOperations

datatype layer_field = HitsByLayer | MissesByLayer

fun mx_get :: "metric_field \<Rightarrow> metrics_snapshot \<Rightarrow> int" where
  "mx_get MHits m = mx_hits m"
| "mx_get MMisses m = mx_misses m"
| "mx_get MFetches m = mx_fetches m"
| "mx_get MSets m = mx_sets m"
| "mx_get MDeletes m = mx_deletes m"
| "mx_get MBackfills m = mx_backfills m"
| "mx_get MInvalidations m = mx_invalidations m"
| "mx_get MStaleHits m = mx_staleHits m"
| "mx_get MRefreshes m = mx_refreshes m"
| "mx_get MRefreshErrors m = mx_refreshErrors m"
| "mx_get MWriteFailures m = mx_writeFailures m"
| "mx_get MSingleFlightWaits m = mx_singleFlightWaits m"
| "mx_get MNegativeCacheHits m = mx_negativeCacheHits m"
| "mx_get MCircuitBreakerTrips m = mx_circuitBreakerTrips m"
| "mx_get MDegradedOperations m = mx_degradedOperations m"

fun mx_add :: "metric_field \<Rightarrow> int \<Rightarrow> metrics_snapshot \<Rightarrow> metrics_snapshot" where
  "mx_add MHits n m = m\<lparr>mx_hits := mx_hits m + n\<rparr>"
| "mx_add MMisses n m = m\<lparr>mx_misses := mx_misses m + n\<rparr>"
| "mx_add MFetches n m = m\<lparr>mx_fetches := mx_fetches m + n\<rparr>"
| "mx_add MSets n m = m\<lparr>mx_sets := mx_sets m + n\<rparr>"
| "mx_add MDeletes n m = m\<lparr>mx_deletes := mx_deletes m + n\<rparr>"
| "mx_add MBackfills n m = m\<lparr>mx_backfills := mx_backfills m + n\<rparr>"
| "mx_add MInvalidations n m = m\<lparr>mx_invalidations := mx_invalidations m + n\<rparr>"
| "mx_add MStaleHits n m = m\<lparr>mx_staleHits := mx_staleHits m + n\<rparr>"
| "mx_add MRefreshes n m = m\<lparr>mx_refreshes := mx_refreshes m + n\<rparr>"
| "mx_add MRefreshErrors n m = m\<lparr>mx_refreshErrors := mx_refreshErrors m + n\<rparr>"
| "mx_add MWriteFailures n m = m\<lparr>mx_writeFailures := mx_writeFailures m + n\<rparr>"
| "mx_add MSingleFlightWaits n m = m\<lparr>mx_singleFlightWaits := mx_singleFlightWaits m + n\<rparr>"
| "mx_add MNegativeCacheHits n m = m\<lparr>mx_negativeCacheHits := mx_negativeCacheHits m + n\<rparr>"
| "mx_add MCircuitBreakerTrips n m = m\<lparr>mx_circuitBreakerTrips := mx_circuitBreakerTrips m + n\<rparr>"
| "mx_add MDegradedOperations n m = m\<lparr>mx_degradedOperations := mx_degradedOperations m + n\<rparr>"

fun mx_map :: "layer_field \<Rightarrow> metrics_snapshot \<Rightarrow> (string, int) jsmap" where
  "mx_map HitsByLayer m = mx_hitsByLayer m"
| "mx_map MissesByLayer m = mx_missesByLayer m"

fun mx_bump_layer :: "layer_field \<Rightarrow> string \<Rightarrow> metrics_snapshot \<Rightarrow> metrics_snapshot" where
  "mx_bump_layer HitsByLayer layer m =
    m\<lparr>mx_hitsByLayer := AList.update layer (nullish (map_of (mx_hitsByLayer m) layer) 0 + 1) (mx_hitsByLayer m)\<rparr>"
| "mx_bump_layer MissesByLayer layer m =
    m\<lparr>mx_missesByLayer := AList.update layer (nullish (map_of (mx_missesByLayer m) layer) 0 + 1) (mx_missesByLayer m)\<rparr>"

definition recordLatencySample :: "string \<Rightarrow> real \<Rightarrow> metrics_snapshot \<Rightarrow> metrics_snapshot" where
  "recordLatencySample layer durationMs m =
    (case map_of (mx_latencyByLayer m) layer of
       None \<Rightarrow> m\<lparr>mx_latencyByLayer :=
         AList.update layer \<lparr>ll_avgMs = durationMs, ll_maxMs = durationMs, ll_count = 1\<rparr> (mx_latencyByLayer m)\<rparr>
     | Some existing \<Rightarrow>
         (let n = ll_count existing + 1 in
          m\<lparr>mx_latencyByLayer := AList.update layer
              \<lparr>ll_avgMs = ll_avgMs existing + (durationMs - ll_avgMs existing) / of_int n,
               ll_maxMs = (if durationMs > ll_maxMs existing then durationMs else ll_maxMs existing),
               ll_count = n\<rparr> (mx_latencyByLayer m)\<rparr>))"

definition empty_metrics :: "real \<Rightarrow> metrics_snapshot" where
  "empty_metrics now = \<lparr>mx_hits = 0, mx_misses = 0, mx_fetches = 0, mx_sets = 0, mx_deletes = 0, mx_backfills = 0,
     mx_invalidations = 0, mx_staleHits = 0, mx_refreshes = 0, mx_refreshErrors = 0, mx_writeFailures = 0,
     mx_singleFlightWaits = 0, mx_negativeCacheHits = 0, mx_circuitBreakerTrips = 0, mx_degradedOperations = 0,
     mx_hitsByLayer = [], mx_missesByLayer = [], mx_latencyByLayer = [], mx_resetAt = now\<rparr>"

subsection \<open>The collector\<close>

record metrics_collector =
  mc_data :: metrics_snapshot
  mc_captures :: "metrics_snapshot list"

definition new_collector :: "real \<Rightarrow> metrics_collector" where
  "new_collector now = \<lparr>mc_data = empty_metrics now, mc_captures = []\<rparr>"

definition mc_all :: "(metrics_snapshot \<Rightarrow> metrics_snapshot) \<Rightarrow> metrics_collector \<Rightarrow> metrics_collector" where
  \<comment> \<open>the same change to the collector's data and to every active capture\<close>
  "mc_all f c = c\<lparr>mc_data := f (mc_data c), mc_captures := map f (mc_captures c)\<rparr>"

definition increment :: "metric_field \<Rightarrow> int \<Rightarrow> metrics_collector \<Rightarrow> metrics_collector" where
  "increment field amount c = mc_all (mx_add field amount) c"

definition incrementLayer :: "layer_field \<Rightarrow> string \<Rightarrow> metrics_collector \<Rightarrow> metrics_collector" where
  "incrementLayer field layerName c = mc_all (mx_bump_layer field layerName) c"

definition recordLatency :: "string \<Rightarrow> real \<Rightarrow> metrics_collector \<Rightarrow> metrics_collector" where
  "recordLatency layerName durationMs c = mc_all (recordLatencySample layerName durationMs) c"

definition mc_reset :: "real \<Rightarrow> metrics_collector \<Rightarrow> metrics_collector" where
  "mc_reset now c = c\<lparr>mc_data := empty_metrics now\<rparr>"

text \<open>
  \<open>capture\<close> runs an operation with one more capture in its context. The operation works on a world
  that holds the collector (\<open>get\<close> and \<open>put\<close>); the snapshot is returned with the result, and attached
  to the error when the operation throws.
\<close>

definition capture ::
    "('w \<Rightarrow> metrics_collector) \<Rightarrow> (metrics_collector \<Rightarrow> 'w \<Rightarrow> 'w) \<Rightarrow> real \<Rightarrow> ('w \<Rightarrow> 'a result \<times> 'w)
      \<Rightarrow> 'w \<Rightarrow> 'a result \<times> metrics_snapshot \<times> 'w" where
  "capture get put now operation w =
    (let active = mc_captures (get w);
         w1 = put ((get w)\<lparr>mc_captures := active @ [empty_metrics now]\<rparr>) w;
         (r, w2) = operation w1;
         c = get w2
     in (r, last (mc_captures c), put (c\<lparr>mc_captures := butlast (mc_captures c)\<rparr>) w2))"

definition layer_rate :: "metrics_snapshot \<Rightarrow> string \<Rightarrow> real" where
  "layer_rate m layer =
    (let h = nullish (map_of (mx_hitsByLayer m) layer) 0; mi = nullish (map_of (mx_missesByLayer m) layer) 0
     in if h + mi = 0 then 0 else of_int h / of_int (h + mi))"

definition hit_rate :: "metrics_snapshot \<Rightarrow> hit_rate_snapshot" where
  \<comment> \<open>\<open>MetricsCollector.hitRate\<close> and \<open>computeNamespaceHitRate\<close>\<close>
  "hit_rate m =
    (let total = mx_hits m + mx_misses m in
     \<lparr>hr_overall = (if total = 0 then 0 else of_int (mx_hits m) / of_int total),
      hr_byLayer = map (\<lambda>layer. (layer, layer_rate m layer)) (js_unique (map fst (mx_hitsByLayer m) @ map fst (mx_missesByLayer m)))\<rparr>)"

subsection \<open>Namespace arithmetic\<close>

definition diffMetricMap :: "(string, int) jsmap \<Rightarrow> (string, int) jsmap \<Rightarrow> (string, int) jsmap" where
  "diffMetricMap before after =
    map (\<lambda>key. (key, nullish (map_of after key) 0 - nullish (map_of before key) 0)) (js_unique (map fst before @ map fst after))"

definition addMetricMap :: "(string, int) jsmap \<Rightarrow> (string, int) jsmap \<Rightarrow> (string, int) jsmap" where
  "addMetricMap base delta =
    map (\<lambda>key. (key, nullish (map_of base key) 0 + nullish (map_of delta key) 0)) (js_unique (map fst base @ map fst delta))"

definition diffNamespaceMetrics :: "metrics_snapshot \<Rightarrow> metrics_snapshot \<Rightarrow> metrics_snapshot" where
  "diffNamespaceMetrics before after =
    \<lparr>mx_hits = mx_hits after - mx_hits before, mx_misses = mx_misses after - mx_misses before,
     mx_fetches = mx_fetches after - mx_fetches before, mx_sets = mx_sets after - mx_sets before,
     mx_deletes = mx_deletes after - mx_deletes before, mx_backfills = mx_backfills after - mx_backfills before,
     mx_invalidations = mx_invalidations after - mx_invalidations before,
     mx_staleHits = mx_staleHits after - mx_staleHits before, mx_refreshes = mx_refreshes after - mx_refreshes before,
     mx_refreshErrors = mx_refreshErrors after - mx_refreshErrors before,
     mx_writeFailures = mx_writeFailures after - mx_writeFailures before,
     mx_singleFlightWaits = mx_singleFlightWaits after - mx_singleFlightWaits before,
     mx_negativeCacheHits = mx_negativeCacheHits after - mx_negativeCacheHits before,
     mx_circuitBreakerTrips = mx_circuitBreakerTrips after - mx_circuitBreakerTrips before,
     mx_degradedOperations = mx_degradedOperations after - mx_degradedOperations before,
     mx_hitsByLayer = diffMetricMap (mx_hitsByLayer before) (mx_hitsByLayer after),
     mx_missesByLayer = diffMetricMap (mx_missesByLayer before) (mx_missesByLayer after),
     mx_latencyByLayer = map (\<lambda>(layer, l). (layer, l\<lparr>ll_count :=
       max 0 (ll_count l - nullish (map_option ll_count (map_of (mx_latencyByLayer before) layer)) 0)\<rparr>)) (mx_latencyByLayer after),
     mx_resetAt = mx_resetAt after\<rparr>"

definition addNamespaceMetrics :: "metrics_snapshot \<Rightarrow> metrics_snapshot \<Rightarrow> metrics_snapshot" where
  "addNamespaceMetrics base delta =
    \<lparr>mx_hits = mx_hits base + mx_hits delta, mx_misses = mx_misses base + mx_misses delta,
     mx_fetches = mx_fetches base + mx_fetches delta, mx_sets = mx_sets base + mx_sets delta,
     mx_deletes = mx_deletes base + mx_deletes delta, mx_backfills = mx_backfills base + mx_backfills delta,
     mx_invalidations = mx_invalidations base + mx_invalidations delta,
     mx_staleHits = mx_staleHits base + mx_staleHits delta, mx_refreshes = mx_refreshes base + mx_refreshes delta,
     mx_refreshErrors = mx_refreshErrors base + mx_refreshErrors delta,
     mx_writeFailures = mx_writeFailures base + mx_writeFailures delta,
     mx_singleFlightWaits = mx_singleFlightWaits base + mx_singleFlightWaits delta,
     mx_negativeCacheHits = mx_negativeCacheHits base + mx_negativeCacheHits delta,
     mx_circuitBreakerTrips = mx_circuitBreakerTrips base + mx_circuitBreakerTrips delta,
     mx_degradedOperations = mx_degradedOperations base + mx_degradedOperations delta,
     mx_hitsByLayer = addMetricMap (mx_hitsByLayer base) (mx_hitsByLayer delta),
     mx_missesByLayer = addMetricMap (mx_missesByLayer base) (mx_missesByLayer delta),
     mx_latencyByLayer = mx_latencyByLayer delta,
     mx_resetAt = mx_resetAt base\<rparr>"

subsection \<open>What operations do to the collector\<close>

datatype metric_event =
    Incr metric_field int
  | IncrLayer layer_field string
  | Latency string real

fun event_update :: "metric_event \<Rightarrow> metrics_snapshot \<Rightarrow> metrics_snapshot" where
  "event_update (Incr f n) = mx_add f n"
| "event_update (IncrLayer f layer) = mx_bump_layer f layer"
| "event_update (Latency layer d) = recordLatencySample layer d"

fun collect_event :: "metric_event \<Rightarrow> metrics_collector \<Rightarrow> metrics_collector" where
  "collect_event (Incr f n) c = increment f n c"
| "collect_event (IncrLayer f layer) c = incrementLayer f layer c"
| "collect_event (Latency layer d) c = recordLatency layer d c"

definition layer_count :: "layer_field \<Rightarrow> metrics_snapshot \<Rightarrow> string \<Rightarrow> int" where
  "layer_count f m layer = nullish (map_of (mx_map f m) layer) 0"

lemma collect_event_all: "collect_event e c = mc_all (event_update e) c"
  by (cases e) (simp_all add: increment_def incrementLayer_def recordLatency_def)

lemma collect_events_all: "fold collect_event es c = mc_all (fold event_update es) c"
proof (induction es arbitrary: c)
  case Nil
  then show ?case by (simp add: mc_all_def)
next
  case (Cons e es)
  then show ?case by (simp add: collect_event_all) (simp add: mc_all_def comp_def)
qed

fun event_amount :: "metric_field \<Rightarrow> metric_event \<Rightarrow> int" where
  "event_amount f (Incr g n) = (if g = f then n else 0)"
| "event_amount f _ = 0"

fun event_layer_amount :: "layer_field \<Rightarrow> string \<Rightarrow> metric_event \<Rightarrow> int" where
  "event_layer_amount f layer (IncrLayer g l) = (if g = f \<and> l = layer then 1 else 0)"
| "event_layer_amount f layer _ = 0"

lemma mx_get_add: "mx_get f (mx_add g n m) = mx_get f m + (if g = f then n else 0)"
  by (cases f; cases g) simp_all

lemma mx_get_other: "mx_get f (mx_bump_layer g l m) = mx_get f m" "mx_get f (recordLatencySample l d m) = mx_get f m"
  by (cases f; cases g; simp) (cases f; simp add: recordLatencySample_def Let_def split: option.split)

lemma mx_get_event: "mx_get f (event_update e m) = mx_get f m + event_amount f e"
  by (cases e) (simp_all add: mx_get_add mx_get_other)

lemma mx_map_add: "mx_map f (mx_add g n m) = mx_map f m" "mx_map f (recordLatencySample l d m) = mx_map f m"
  by (cases f; cases g; simp) (cases f; simp add: recordLatencySample_def Let_def split: option.split)

lemma layer_count_event: "layer_count f (event_update e m) layer = layer_count f m layer + event_layer_amount f layer e"
proof (cases e)
  case (IncrLayer g l)
  then show ?thesis by (cases f; cases g) (simp_all add: layer_count_def jsmap_simps)
qed (simp_all add: layer_count_def mx_map_add)

lemma mx_get_events: "mx_get f (fold event_update es m) = mx_get f m + sum_list (map (event_amount f) es)"
  by (induction es arbitrary: m) (simp_all add: mx_get_event)

lemma layer_count_events:
  "layer_count f (fold event_update es m) layer = layer_count f m layer + sum_list (map (event_layer_amount f layer) es)"
  by (induction es arbitrary: m) (simp_all add: layer_count_event)

lemma mx_get_empty [simp]: "mx_get f (empty_metrics now) = 0"
  by (cases f) (simp_all add: empty_metrics_def)

lemma layer_count_empty [simp]: "layer_count f (empty_metrics now) layer = 0"
  by (cases f) (simp_all add: empty_metrics_def layer_count_def)

lemma mx_get_sum: "mx_get f (addNamespaceMetrics a b) = mx_get f a + mx_get f b"
  by (cases f) (simp_all add: addNamespaceMetrics_def)

lemma mx_get_diff: "mx_get f (diffNamespaceMetrics a b) = mx_get f b - mx_get f a"
  by (cases f) (simp_all add: diffNamespaceMetrics_def)

lemma map_of_keys: "map_of (map (\<lambda>k. (k, g k)) ks) x = (if x \<in> set ks then Some (g x) else None)"
  by (induction ks) auto

lemma absent_zero: "k \<notin> fst ` set m \<Longrightarrow> nullish (map_of m k) (0::int) = 0"
  by (simp add: map_of_eq_None_iff [THEN iffD2])

lemma layer_count_sum: "layer_count f (addNamespaceMetrics a b) layer = layer_count f a layer + layer_count f b layer"
  by (cases f) (auto simp: addNamespaceMetrics_def addMetricMap_def layer_count_def map_of_keys absent_zero)

lemma layer_count_diff: "layer_count f (diffNamespaceMetrics a b) layer = layer_count f b layer - layer_count f a layer"
  by (cases f) (auto simp: diffNamespaceMetrics_def diffMetricMap_def layer_count_def map_of_keys absent_zero)

text \<open>
  Captures account exactly. While an operation runs inside a capture and makes any sequence of
  metric updates, the snapshot it gets back counts, on every counter and for every layer, exactly what
  the collector's data gained; so adding it to a namespace's metrics and subtracting two snapshots of
  the collector agree.
\<close>

theorem captured_metrics_add_up:
  fixes es :: "metric_event list" and c :: metrics_collector and r :: "'a result" and now :: real
  defines "out \<equiv> capture (\<lambda>c. c) (\<lambda>c _. c) now (\<lambda>c. (r, fold collect_event es c)) c"
  shows "mx_get f (addNamespaceMetrics (mc_data c) (fst (snd out))) = mx_get f (mc_data (snd (snd out))) \<and>
    layer_count g (addNamespaceMetrics (mc_data c) (fst (snd out))) layer = layer_count g (mc_data (snd (snd out))) layer \<and>
    mx_get f (diffNamespaceMetrics (mc_data c) (mc_data (snd (snd out)))) = mx_get f (fst (snd out)) \<and>
    layer_count g (diffNamespaceMetrics (mc_data c) (mc_data (snd (snd out)))) layer = layer_count g (fst (snd out)) layer"
  by (simp add: out_def capture_def Let_def collect_events_all)
    (simp add: mc_all_def mx_get_sum layer_count_sum mx_get_diff layer_count_diff mx_get_events layer_count_events)

subsection \<open>Latency\<close>

definition mean :: "real list \<Rightarrow> real" where
  "mean xs = sum_list xs / real (length xs)"

lemma welford: "0 < n \<Longrightarrow> s / n + (d - s / n) / (n + 1) = (s + d) / (1 + n)" for n s d :: real
  by (simp add: divide_simps) (simp add: algebra_simps)

lemma latency_samples:
  assumes "ds \<noteq> []" "map_of (mx_latencyByLayer m) layer = None"
  shows "\<exists>l. map_of (mx_latencyByLayer (fold (recordLatencySample layer) ds m)) layer = Some l \<and>
    ll_count l = int (length ds) \<and> ll_avgMs l = mean ds \<and> ll_maxMs l = Max (set ds)"
  using assms(1)
proof (induction ds rule: rev_induct)
  case (snoc d ds)
  show ?case
  proof (cases "ds = []")
    case True
    then show ?thesis using assms(2) by (simp add: recordLatencySample_def jsmap_simps mean_def)
  next
    case False
    then obtain l where l: "map_of (mx_latencyByLayer (fold (recordLatencySample layer) ds m)) layer = Some l"
      "ll_count l = int (length ds)" "ll_avgMs l = mean ds" "ll_maxMs l = Max (set ds)" using snoc by blast
    have "mean ds + (d - mean ds) / (real (length ds) + 1) = mean (ds @ [d])"
      using False welford [of "real (length ds)" "sum_list ds" d] by (simp add: mean_def)
    moreover have "Max (insert d (set ds)) = max d (Max (set ds))" using False by simp
    moreover have "map_of (mx_latencyByLayer (recordLatencySample layer d s)) layer =
        Some \<lparr>ll_avgMs = ll_avgMs l + (d - ll_avgMs l) / of_int (ll_count l + 1), ll_maxMs = max d (ll_maxMs l), ll_count = ll_count l + 1\<rparr>"
      if "map_of (mx_latencyByLayer s) layer = Some l" for s
      using that by (simp add: recordLatencySample_def jsmap_simps Let_def)
    ultimately show ?thesis using l by (simp add: add.commute)
  qed
qed simp

text \<open>
  The running latency statistics are the mean, maximum and number of the samples recorded for a
  layer, whatever their order.
\<close>

theorem latency_is_mean:
  assumes "ds \<noteq> []"
  shows "map_of (mx_latencyByLayer (mc_data (fold (recordLatency layer) ds (new_collector now)))) layer =
    Some \<lparr>ll_avgMs = sum_list ds / real (length ds), ll_maxMs = Max (set ds), ll_count = int (length ds)\<rparr>"
proof -
  have d: "mc_data (fold (recordLatency layer) ds c) = fold (recordLatencySample layer) ds (mc_data c)" for c
    by (induction ds arbitrary: c) (simp_all add: recordLatency_def mc_all_def)
  have "map_of (mx_latencyByLayer (empty_metrics now)) layer = None" by (simp add: empty_metrics_def)
  from latency_samples [OF assms this] show ?thesis
    by (auto simp: d new_collector_def mean_def intro: layer_latency.equality)
qed

theorem latency_is_mean_witness:
  "map_of (mx_latencyByLayer (mc_data (fold (recordLatency ''l1'') [4, 8] (new_collector 0)))) ''l1'' =
    Some \<lparr>ll_avgMs = sum_list [4, 8] / real (length [4, 8 :: real]), ll_maxMs = Max (set [4, 8]), ll_count = int (length [4, 8 :: real])\<rparr>"
  by (rule latency_is_mean) simp

end
