(* ===== verification/Validation.thy ===== *)
theory Validation
  imports Types
begin

text \<open>
  Validation of keys, tags, patterns and options (\<open>src/src/internal/CacheStackValidation.ts\<close>). A validator
  that throws is \<open>Inl\<close>. A number that reaches a validator is a \<open>jsnum\<close>; the option records hold finite
  numbers, so their fields are passed as \<open>Fin\<close>. The tests on the literals of a union
  (\<open>scope\<close>, \<open>queueOverflow\<close>) cannot fail on the datatypes that model them and are left out.
\<close>

definition MAX_CACHE_KEY_LENGTH :: nat where "MAX_CACHE_KEY_LENGTH = 1024"

definition MAX_PATTERN_LENGTH :: nat where "MAX_PATTERN_LENGTH = 1024"

definition MAX_TAGS_PER_OPERATION :: nat where "MAX_TAGS_PER_OPERATION = 128"

subsection \<open>Numbers\<close>

definition validatePositiveNumber :: "string \<Rightarrow> jsnum option \<Rightarrow> unit result" where
  "validatePositiveNumber name value =
    (case value of
       None \<Rightarrow> Inr ()
     | Some (Fin x) \<Rightarrow> if x \<le> 0 then Inl (MustBePositive name) else Inr ()
     | Some _ \<Rightarrow> Inl (MustBePositive name))"

definition validateNonNegativeNumber :: "string \<Rightarrow> jsnum \<Rightarrow> unit result" where
  "validateNonNegativeNumber name value =
    (case value of
       Fin x \<Rightarrow> if x < 0 then Inl (MustBeNonNegative name) else Inr ()
     | _ \<Rightarrow> Inl (MustBeNonNegative name))"

fun validate_each :: "('a \<Rightarrow> unit result) \<Rightarrow> 'a list \<Rightarrow> unit result" where
  \<comment> \<open>\<open>for (const x of xs) validate(x)\<close>\<close>
  "validate_each f [] = Inr ()"
| "validate_each f (x # xs) = bind_result (f x) (\<lambda>_. validate_each f xs)"

definition validateLayerNumberOption :: "string \<Rightarrow> layer_ms option \<Rightarrow> unit result" where
  "validateLayerNumberOption name value =
    (case value of
       None \<Rightarrow> Inr ()
     | Some (LNum x) \<Rightarrow> validateNonNegativeNumber name (Fin x)
     | Some (LMap m) \<Rightarrow>
         validate_each (\<lambda>(layerName, layerValue). validateNonNegativeNumber (name @ ''.'' @ layerName) (Fin layerValue)) m)"

definition nat_num :: "nat option \<Rightarrow> jsnum option" where
  "nat_num a = map_option (\<lambda>n. Fin (real n)) a"

definition validateRateLimitOptions :: "string \<Rightarrow> rate_limit_options option \<Rightarrow> unit result" where
  "validateRateLimitOptions name options =
    (case options of
       None \<Rightarrow> Inr ()
     | Some r \<Rightarrow>
         bind_result (validatePositiveNumber (name @ ''.maxConcurrent'') (nat_num (rl_maxConcurrent r))) (\<lambda>_.
         bind_result (validatePositiveNumber (name @ ''.intervalMs'') (map_option Fin (rl_intervalMs r))) (\<lambda>_.
         bind_result (validatePositiveNumber (name @ ''.maxPerInterval'') (nat_num (rl_maxPerInterval r))) (\<lambda>_.
           if rl_bucketKey r = Some [] then Inl (EmptyInput (name @ ''.bucketKey'')) else Inr ()))))"

subsection \<open>Keys, tags and patterns\<close>

definition control_char :: "char \<Rightarrow> bool" where
  "control_char c \<longleftrightarrow> (of_char c :: nat) \<le> 31 \<or> (of_char c :: nat) = 127"

definition surrogate :: "char \<Rightarrow> bool" where
  "surrogate c \<longleftrightarrow> 55296 \<le> (of_char c :: nat) \<and> (of_char c :: nat) \<le> 57343"

definition validateCacheKey :: "string \<Rightarrow> string result" where
  "validateCacheKey key =
    (if length key = 0 then Inl (EmptyInput ''Cache key'')
     else if length key > MAX_CACHE_KEY_LENGTH then Inl (TooLong ''Cache key'' MAX_CACHE_KEY_LENGTH)
     else if list_ex control_char key then Inl (ControlCharacters ''Cache key'')
     else if list_ex surrogate key then Inl (SurrogateCodePoints ''Cache key'')
     else Inr key)"

definition validateTag :: "string \<Rightarrow> string result" where
  "validateTag tag =
    (if length tag = 0 then Inl (EmptyInput ''Cache tag'')
     else if length tag > MAX_CACHE_KEY_LENGTH then Inl (TooLong ''Cache tag'' MAX_CACHE_KEY_LENGTH)
     else if list_ex control_char tag then Inl (ControlCharacters ''Cache tag'')
     else if list_ex surrogate tag then Inl (SurrogateCodePoints ''Cache tag'')
     else Inr tag)"

definition validateTags :: "string list option \<Rightarrow> unit result" where
  "validateTags tags =
    (case tags of
       None \<Rightarrow> Inr ()
     | Some ts \<Rightarrow>
         if length ts > MAX_TAGS_PER_OPERATION then Inl (TooManyTags MAX_TAGS_PER_OPERATION)
         else validate_each (\<lambda>t. bind_result (validateTag t) (\<lambda>_. Inr ())) ts)"

definition validatePattern :: "string \<Rightarrow> unit result" where
  "validatePattern pattern =
    (if length pattern = 0 then Inl (EmptyInput ''Pattern'')
     else if length pattern > MAX_PATTERN_LENGTH then Inl (TooLong ''Pattern'' MAX_PATTERN_LENGTH)
     else if list_ex control_char pattern then Inl (ControlCharacters ''Pattern'')
     else Inr ())"

subsection \<open>Options\<close>

definition validateTtlPolicy :: "string \<Rightarrow> ttl_policy option \<Rightarrow> unit result" where
  "validateTtlPolicy name policy =
    (case policy of
       Some (AlignTo ms) \<Rightarrow> validatePositiveNumber (name @ ''.alignTo'') (Some (Fin ms))
     | _ \<Rightarrow> Inr ())"

definition validateAdaptiveTtlOptions :: "adaptive_ttl option \<Rightarrow> unit result" where
  "validateAdaptiveTtlOptions options =
    (case options of
       Some (AdOptions c) \<Rightarrow>
         bind_result (validatePositiveNumber ''adaptiveTtl.hotAfter'' (map_option Fin (ad_hotAfter c))) (\<lambda>_.
         bind_result (validateLayerNumberOption ''adaptiveTtl.step'' (ad_step c)) (\<lambda>_.
           validateLayerNumberOption ''adaptiveTtl.maxTtl'' (ad_maxTtl c)))
     | _ \<Rightarrow> Inr ())"

definition validateCircuitBreakerOptions :: "circuit_breaker_options option \<Rightarrow> unit result" where
  "validateCircuitBreakerOptions options =
    (case options of
       None \<Rightarrow> Inr ()
     | Some c \<Rightarrow>
         bind_result (validatePositiveNumber ''circuitBreaker.failureThreshold'' (map_option Fin (cb_failureThreshold c))) (\<lambda>_.
         bind_result (validatePositiveNumber ''circuitBreaker.cooldownMs'' (map_option Fin (cb_cooldownMs c))) (\<lambda>_.
           if cb_breakerKey c = Some [] then Inl (EmptyInput ''circuitBreaker.breakerKey'') else Inr ())))"

definition validateContextEntryOptions :: "string \<Rightarrow> 'm entry_write_options_scheme \<Rightarrow> unit result" where
  "validateContextEntryOptions name opts =
    bind_result (validateLayerNumberOption (name @ ''.ttl'') (o_ttl opts)) (\<lambda>_.
    bind_result (validateLayerNumberOption (name @ ''.negativeTtl'') (o_negativeTtl opts)) (\<lambda>_.
    bind_result (validateLayerNumberOption (name @ ''.staleWhileRevalidate'') (o_staleWhileRevalidate opts)) (\<lambda>_.
    bind_result (validateLayerNumberOption (name @ ''.staleIfError'') (o_staleIfError opts)) (\<lambda>_.
    bind_result (validateLayerNumberOption (name @ ''.ttlJitter'') (o_ttlJitter opts)) (\<lambda>_.
    bind_result (validateTtlPolicy (name @ ''.ttlPolicy'') (o_ttlPolicy opts)) (\<lambda>_.
    bind_result (validateAdaptiveTtlOptions (o_adaptiveTtl opts)) (\<lambda>_.
      validateTags (o_tags opts))))))))"

definition validateWriteOptions :: "write_options option \<Rightarrow> unit result" where
  \<comment> \<open>\<open>CacheStack.validateWriteOptions\<close>\<close>
  "validateWriteOptions options =
    (case options of
       None \<Rightarrow> Inr ()
     | Some opts \<Rightarrow>
         bind_result (validateLayerNumberOption ''options.ttl'' (o_ttl opts)) (\<lambda>_.
         bind_result (validateLayerNumberOption ''options.negativeTtl'' (o_negativeTtl opts)) (\<lambda>_.
         bind_result (validateLayerNumberOption ''options.staleWhileRevalidate'' (o_staleWhileRevalidate opts)) (\<lambda>_.
         bind_result (validateLayerNumberOption ''options.staleIfError'' (o_staleIfError opts)) (\<lambda>_.
         bind_result (validateLayerNumberOption ''options.ttlJitter'' (o_ttlJitter opts)) (\<lambda>_.
         bind_result (validateLayerNumberOption ''options.refreshAhead'' (o_refreshAhead opts)) (\<lambda>_.
         bind_result (validateTtlPolicy ''options.ttlPolicy'' (o_ttlPolicy opts)) (\<lambda>_.
         bind_result (validateAdaptiveTtlOptions (o_adaptiveTtl opts)) (\<lambda>_.
         bind_result (validateCircuitBreakerOptions (o_circuitBreaker opts)) (\<lambda>_.
         bind_result (validateRateLimitOptions ''options.fetcherRateLimit'' (o_fetcherRateLimit opts)) (\<lambda>_.
           validateTags (o_tags opts))))))))))))"

subsection \<open>What validation guarantees\<close>

definition clean_name :: "string \<Rightarrow> bool" where
  "clean_name s \<longleftrightarrow> s \<noteq> [] \<and> length s \<le> MAX_CACHE_KEY_LENGTH \<and> (\<forall>c \<in> set s. \<not> control_char c \<and> \<not> surrogate c)"

lemma validate_key_iff: "validateCacheKey k = Inr k' \<longleftrightarrow> k' = k \<and> clean_name k"
  by (auto simp: validateCacheKey_def clean_name_def list_ex_iff)

lemma validate_tag_iff: "validateTag t = Inr t' \<longleftrightarrow> t' = t \<and> clean_name t"
  by (auto simp: validateTag_def clean_name_def list_ex_iff)

lemma validate_each_iff: "validate_each f xs = Inr () \<longleftrightarrow> (\<forall>x \<in> set xs. f x = Inr ())"
  by (induction xs) (auto simp: bind_result_Inr)

lemma validate_tags_iff:
  "validateTags (Some ts) = Inr () \<longleftrightarrow> length ts \<le> MAX_TAGS_PER_OPERATION \<and> (\<forall>t \<in> set ts. clean_name t)"
  by (auto simp: validateTags_def validate_each_iff bind_result_Inr validate_tag_iff)

end
