(* ===== verification/TtlResolver.thy ===== *)
theory TtlResolver
  imports Types
begin

text \<open>
  TTL resolution and access profiles (\<open>src/src/internal/TtlResolver.ts\<close>). The clock reading, the
  local time zone \<open>tz\<close> (the conversions between instants and local time that \<open>Date\<close> uses, with
  their changes of the offset) and the random draw \<open>rnd\<close> in \<open>[0, 1)\<close> are arguments.
\<close>

subsection \<open>State and profiles\<close>

record access_profile =
  ap_hits :: nat
  ap_lastAccessAt :: real

record ttl_resolver =
  accessProfiles :: "(string, access_profile) jsmap"
  maxProfileEntries :: nat

definition tr_pruneIfNeeded :: "ttl_resolver \<Rightarrow> ttl_resolver" where
  "tr_pruneIfNeeded r =
    (if length (accessProfiles r) \<le> maxProfileEntries r then r
     else r\<lparr>accessProfiles := delete_oldest (tenth_up (maxProfileEntries r)) (accessProfiles r)\<rparr>)"

definition recordAccess :: "real \<Rightarrow> string \<Rightarrow> ttl_resolver \<Rightarrow> ttl_resolver" where
  "recordAccess now key r =
    (let p = nullish (map_of (accessProfiles r) key) \<lparr>ap_hits = 0, ap_lastAccessAt = now\<rparr>;
         p' = p\<lparr>ap_hits := ap_hits p + 1, ap_lastAccessAt := now\<rparr>
     in tr_pruneIfNeeded (r\<lparr>accessProfiles :=
          AList.update key p' (AList.delete key (accessProfiles r))\<rparr>))"

definition deleteProfile :: "string \<Rightarrow> ttl_resolver \<Rightarrow> ttl_resolver" where
  "deleteProfile key r = r\<lparr>accessProfiles := AList.delete key (accessProfiles r)\<rparr>"

definition clearProfiles :: "ttl_resolver \<Rightarrow> ttl_resolver" where
  "clearProfiles r = r\<lparr>accessProfiles := []\<rparr>"

subsection \<open>Resolution\<close>

fun readLayerNumber :: "string \<Rightarrow> layer_ms \<Rightarrow> real option" where
  "readLayerNumber layerName (LNum x) = Some x"
| "readLayerNumber layerName (LMap m) = map_of m layerName"

definition resolveLayerMs ::
    "string \<Rightarrow> layer_ms option \<Rightarrow> layer_ms option \<Rightarrow> real option \<Rightarrow> real option" where
  "resolveLayerMs layerName override globalDefault fallback = (case override of
      Some l \<Rightarrow> nullish_opt (readLayerNumber layerName l) fallback
    | None \<Rightarrow> (case globalDefault of
        Some l \<Rightarrow> nullish_opt (readLayerNumber layerName l) fallback
      | None \<Rightarrow> fallback))"

definition applyAdaptiveTtl ::
    "ttl_resolver \<Rightarrow> string \<Rightarrow> string \<Rightarrow> real option \<Rightarrow> adaptive_ttl option \<Rightarrow> real option" where
  "applyAdaptiveTtl r key layerName ttlOpt adaptive =
    (if \<not> truthy ttlOpt \<or> adaptive = None \<or> adaptive = Some (AdBool False) then ttlOpt
     else case map_of (accessProfiles r) key of
       None \<Rightarrow> ttlOpt
     | Some p \<Rightarrow>
        (let ttl = the ttlOpt;
             config = (case adaptive of Some (AdOptions c) \<Rightarrow> c
                       | _ \<Rightarrow> \<lparr>ad_hotAfter = None, ad_step = None, ad_maxTtl = None\<rparr>);
             hotAfter = nullish (ad_hotAfter config) 3
         in if real (ap_hits p) < hotAfter then ttlOpt
            else let step = nullish (resolveLayerMs layerName (ad_step config) None
                              (Some (max 1 (math_round (ttl / 2))))) 0;
                     maxTtl = nullish (resolveLayerMs layerName (ad_maxTtl config) None
                              (Some (ttl + step * 4))) ttl;
                     multiplier = math_floor (real (ap_hits p) / hotAfter)
                 in Some (min maxTtl (ttl + step * multiplier))))"

definition applyJitter :: "real \<Rightarrow> real option \<Rightarrow> real option \<Rightarrow> real option" where
  "applyJitter rnd ttlOpt jitterOpt =
    (if \<not> truthy ttlOpt \<or> the ttlOpt \<le> 0 \<or> \<not> truthy jitterOpt \<or> the jitterOpt \<le> 0 then ttlOpt
     else let delta = (rnd * 2 - 1) * the jitterOpt
          in Some (max 1 (math_round (the ttlOpt + delta))))"

record local_time =
  lt_local :: "real \<Rightarrow> real"     \<comment> \<open>the local time of an instant\<close>
  lt_instant :: "real \<Rightarrow> real"   \<comment> \<open>the instant of a local time\<close>

definition fixed_offset :: "real \<Rightarrow> local_time" where
  "fixed_offset d = \<lparr>lt_local = (\<lambda>t. t + d), lt_instant = (\<lambda>l. l - d)\<rparr>"

definition local_boundary :: "real \<Rightarrow> local_time \<Rightarrow> real \<Rightarrow> real" where
  \<comment> \<open>the first multiple of \<open>period\<close> strictly after the local time of \<open>now\<close>\<close>
  "local_boundary period tz now = (math_floor (lt_local tz now / period) + 1) * period"

definition next_local_boundary :: "real \<Rightarrow> local_time \<Rightarrow> real \<Rightarrow> real" where
  \<comment> \<open>\<open>setHours(24, 0, 0, 0)\<close> for a day, \<open>setMinutes(60, 0, 0)\<close> for an hour\<close>
  "next_local_boundary period tz now = lt_instant tz (local_boundary period tz now)"

fun resolvePolicyTtl :: "real \<Rightarrow> local_time \<Rightarrow> string \<Rightarrow> js \<Rightarrow> ttl_policy option \<Rightarrow> real option" where
  "resolvePolicyTtl now tz key value None = None"
| "resolvePolicyTtl now tz key value (Some (PolicyFn f)) = f key value"
| "resolvePolicyTtl now tz key value (Some UntilMidnight) =
    Some (max 1 (math_ceil (next_local_boundary 86400000 tz now - now)))"
| "resolvePolicyTtl now tz key value (Some NextHour) =
    Some (max 1 (math_ceil (next_local_boundary 3600000 tz now - now)))"
| "resolvePolicyTtl now tz key value (Some (AlignTo alignToMs)) =
    Some (max 1 (math_ceil ((now + 1) / alignToMs) * alignToMs - now))"

definition resolveFreshTtl ::
    "ttl_resolver \<Rightarrow> real \<Rightarrow> local_time \<Rightarrow> real \<Rightarrow> string \<Rightarrow> string \<Rightarrow> write_kind \<Rightarrow> 'm entry_write_options_scheme
      \<Rightarrow> real option \<Rightarrow> layer_ms option \<Rightarrow> layer_ms option \<Rightarrow> js \<Rightarrow> real option" where
  "resolveFreshTtl r now tz rnd key layerName kind opts fallbackTtl globalNegativeTtl globalTtl value =
    (let policyTtl = (if kind = WValue then resolvePolicyTtl now tz key value (o_ttlPolicy opts) else None);
         ttl = resolveLayerMs layerName (o_ttl opts) globalTtl (nullish_opt policyTtl fallbackTtl);
         baseTtl = (if kind = WEmpty
                    then resolveLayerMs layerName (o_negativeTtl opts) globalNegativeTtl
                           (Some (nullish ttl 60000))
                    else ttl);
         adaptiveTtl = applyAdaptiveTtl r key layerName baseTtl (o_adaptiveTtl opts);
         jitter = resolveLayerMs layerName (o_ttlJitter opts) None None
     in applyJitter rnd adaptiveTtl jitter)"

subsection \<open>Profiles: bounds and content\<close>

definition resolver_ok :: "ttl_resolver \<Rightarrow> bool" where
  "resolver_ok r \<longleftrightarrow> jsmap_ok (accessProfiles r) \<and> length (accessProfiles r) \<le> maxProfileEntries r"

definition hits_of :: "ttl_resolver \<Rightarrow> string \<Rightarrow> nat" where
  "hits_of r key = (case map_of (accessProfiles r) key of None \<Rightarrow> 0 | Some p \<Rightarrow> ap_hits p)"

lemma map_of_drop_append:
  "n \<le> length m \<Longrightarrow> k \<notin> fst ` set m \<Longrightarrow> map_of (drop n (m @ [(k, v)])) k = Some v"
proof -
  assume "n \<le> length m" "k \<notin> fst ` set m"
  then have "map_of (drop n m) k = None"
    by (auto simp: map_of_eq_None_iff dest: in_set_dropD)
  then show ?thesis using \<open>n \<le> length m\<close> by (simp add: map_add_def)
qed

text \<open>
  Access profiles are bounded and lose only the oldest. From a well-formed resolver with a
  positive bound, recording an access keeps the table within its bound, counts the access for its
  key (never pruning the key just used), and leaves every other key's profile as it was or dropped.
\<close>

theorem record_access_bounded:
  assumes "resolver_ok r" "0 < maxProfileEntries r"
  shows "resolver_ok (recordAccess now key r) \<and>
     hits_of (recordAccess now key r) key = hits_of r key + 1 \<and>
     hits_of (recordAccess now key r) k \<in> {0, hits_of r k} \<union> (if k = key then {hits_of r k + 1} else {})"
proof -
  define m where "m = AList.delete key (accessProfiles r)"
  define p where "p = (nullish (map_of (accessProfiles r) key) \<lparr>ap_hits = 0, ap_lastAccessAt = now\<rparr>)
     \<lparr>ap_hits := ap_hits (nullish (map_of (accessProfiles r) key) \<lparr>ap_hits = 0, ap_lastAccessAt = now\<rparr>) + 1,
      ap_lastAccessAt := now\<rparr>"
  define n where "n = (if length m + 1 \<le> maxProfileEntries r then 0 else tenth_up (maxProfileEntries r))"
  have m: "jsmap_ok m" "key \<notin> fst ` set m" "length m \<le> maxProfileEntries r"
    using assms length_delete_le [of key "accessProfiles r"]
    by (simp_all add: m_def resolver_ok_def jsmap_ok_delete dom_delete)
  have upd: "AList.update key p m = m @ [(key, p)]" using m by (simp add: update_absent)
  have ok: "jsmap_ok (m @ [(key, p)])" using m jsmap_ok_update upd by metis
  have "recordAccess now key r = tr_pruneIfNeeded (r\<lparr>accessProfiles := m @ [(key, p)]\<rparr>)"
    unfolding recordAccess_def Let_def m_def [symmetric] p_def [symmetric] upd ..
  then have acc: "accessProfiles (recordAccess now key r) = drop n (m @ [(key, p)])"
    and mx: "maxProfileEntries (recordAccess now key r) = maxProfileEntries r"
    using ok by (auto simp: tr_pruneIfNeeded_def n_def delete_oldest_drop simp del: drop_append)
  have n: "n \<le> length m" and len: "length m + 1 - n \<le> maxProfileEntries r"
    using m assms(2) tenth_up_le [of "maxProfileEntries r"] tenth_up_pos [of "maxProfileEntries r"]
    by (auto simp: n_def)
  have "ap_hits p = hits_of r key + 1" by (simp add: p_def hits_of_def split: option.splits)
  then have own: "hits_of (recordAccess now key r) key = hits_of r key + 1"
    using map_of_drop_append [OF n m(2)] by (simp add: hits_of_def acc)
  have other: "hits_of (recordAccess now key r) k \<in> {0, hits_of r k}" if "k \<noteq> key"
  proof (cases "map_of (drop n (m @ [(key, p)])) k")
    case (Some q)
    then have "map_of (m @ [(key, p)]) k = Some q" using map_of_drop [OF ok] by blast
    moreover have "map_of (m @ [(key, p)]) k = map_of (accessProfiles r) k"
      using that unfolding upd [symmetric] by (simp add: jsmap_simps m_def)
    ultimately have "map_of (accessProfiles r) k = Some q" by simp
    then show ?thesis using Some by (simp add: hits_of_def acc)
  qed (simp add: hits_of_def acc del: drop_append)
  show ?thesis
    using own other len jsmap_ok_drop [OF ok] by (auto simp: resolver_ok_def acc mx)
qed

theorem record_access_bounded_witness:
  "hits_of (recordAccess 5 ''a'' \<lparr>accessProfiles = [(''a'', \<lparr>ap_hits = 2, ap_lastAccessAt = 1\<rparr>)],
      maxProfileEntries = 1\<rparr>) ''a'' = 3"
  using record_access_bounded [of "\<lparr>accessProfiles = [(''a'', \<lparr>ap_hits = 2, ap_lastAccessAt = 1\<rparr>)],
      maxProfileEntries = 1\<rparr>" 5 "''a''" "''a''"]
  by (simp add: resolver_ok_def jsmap_ok_def hits_of_def)

subsection \<open>Policies, jitter and positivity\<close>

lemma local_boundary:
  assumes "0 < period"
  shows "lt_local tz now < local_boundary period tz now" "local_boundary period tz now \<le> lt_local tz now + period"
    and "\<exists>i :: int. local_boundary period tz now = of_int i * period"
proof -
  let ?q = "lt_local tz now / period"
  have "of_int \<lfloor>?q\<rfloor> * period \<le> lt_local tz now"
    by (rule pos_le_divide_eq [OF assms, THEN iffD1]) linarith
  moreover have "lt_local tz now < (of_int \<lfloor>?q\<rfloor> + 1) * period"
    by (rule pos_divide_less_eq [OF assms, THEN iffD1]) linarith
  ultimately show "lt_local tz now < local_boundary period tz now" "local_boundary period tz now \<le> lt_local tz now + period"
    by (simp_all add: local_boundary_def math_floor_def algebra_simps)
  show "\<exists>i :: int. local_boundary period tz now = of_int i * period"
    by (rule exI [of _ "\<lfloor>?q\<rfloor> + 1"]) (simp add: local_boundary_def math_floor_def)
qed

text \<open>
  Where the clocks of the zone do not change between now and the boundary, the boundary lies ahead, at most a period away. A day on
  which they do change is shorter or longer, and the policy follows it.
\<close>

lemma next_local_boundary:
  assumes "0 < period" "lt_instant tz (local_boundary period tz now) - now = local_boundary period tz now - lt_local tz now"
  shows "now < next_local_boundary period tz now" "next_local_boundary period tz now \<le> now + period"
  using local_boundary(1,2) [OF assms(1), of tz now] assms(2) by (simp_all add: next_local_boundary_def)

lemma fixed_offset_boundary:
  "lt_instant (fixed_offset d) (local_boundary p (fixed_offset d) now) - now = local_boundary p (fixed_offset d) now - lt_local (fixed_offset d) now"
  by (simp add: fixed_offset_def)

lemma align_boundary:
  assumes "0 < a"
  shows "now + 1 \<le> math_ceil ((now + 1) / a) * a" "math_ceil ((now + 1) / a) * a < now + 1 + a"
proof -
  let ?q = "(now + 1) / a"
  have "now + 1 \<le> of_int \<lceil>?q\<rceil> * a"
    by (rule pos_divide_le_eq [OF assms, THEN iffD1]) linarith
  moreover have "(of_int \<lceil>?q\<rceil> - 1) * a < now + 1"
    by (rule pos_less_divide_eq [OF assms, THEN iffD1]) linarith
  ultimately show "now + 1 \<le> math_ceil ?q * a" "math_ceil ?q * a < now + 1 + a"
    by (simp_all add: math_ceil_def algebra_simps)
qed

text \<open>
  Aligned TTL policies end on their boundary. For an alignment of \<open>a\<close> milliseconds the policy's
  TTL is at least 1 and at most \<open>a\<close> (for whole timestamps and alignments) and the deadline is a multiple
  of \<open>a\<close>; the hour and midnight policies give a TTL of at least 1 that reaches the next local
  boundary and overshoots it by less than a millisecond, where the clocks do not change before that boundary.
\<close>

theorem policy_ttl_hits_boundary:
  assumes "0 < n" "\<And>p. p \<in> {3600000, 86400000} \<Longrightarrow> lt_instant tz (local_boundary p tz x) - x = local_boundary p tz x - lt_local tz x"
  shows "(\<exists>t. resolvePolicyTtl (of_int now) tz key v (Some (AlignTo (of_int n))) = Some t \<and>
       1 \<le> t \<and> t \<le> of_int n \<and> (\<exists>i :: int. of_int now + t = of_int (i * n))) \<and>
     (\<exists>t. resolvePolicyTtl x tz key v (Some NextHour) = Some t \<and> 1 \<le> t \<and> t < 3600001 \<and>
       next_local_boundary 3600000 tz x \<le> x + t \<and> x + t < next_local_boundary 3600000 tz x + 1) \<and>
     (\<exists>t. resolvePolicyTtl x tz key v (Some UntilMidnight) = Some t \<and> 1 \<le> t \<and> t < 86400001 \<and>
       next_local_boundary 86400000 tz x \<le> x + t \<and> x + t < next_local_boundary 86400000 tz x + 1)"
proof (intro conjI)
  let ?c = "\<lceil>(of_int now + 1) / of_int n :: real\<rceil>"
  have b: "of_int now + 1 \<le> (of_int ?c * of_int n :: real)" "(of_int ?c * of_int n :: real) < of_int now + 1 + of_int n"
    using align_boundary [of "of_int n" "of_int now"] assms(1) by (simp_all add: math_ceil_def)
  have "(of_int (now + 1) :: real) \<le> of_int (?c * n)" "(of_int (?c * n) :: real) < of_int (now + 1 + n)"
    using b by simp_all
  then have i: "now + 1 \<le> ?c * n" "?c * n < now + 1 + n"
    by (simp_all only: of_int_le_iff of_int_less_iff)
  have "(of_int (?c * n - now) :: real) = of_int ?c * of_int n - of_int now" by simp
  moreover have "1 \<le> (of_int (?c * n - now) :: real)" "(of_int (?c * n - now) :: real) \<le> of_int n"
    using i by linarith+
  ultimately have "resolvePolicyTtl (of_int now) tz key v (Some (AlignTo (of_int n))) = Some (of_int (?c * n - now))"
    by (simp add: math_ceil_def)
  then show "\<exists>t. resolvePolicyTtl (of_int now) tz key v (Some (AlignTo (of_int n))) = Some t \<and>
       1 \<le> t \<and> t \<le> of_int n \<and> (\<exists>i :: int. of_int now + t = of_int (i * n))"
    using \<open>1 \<le> (of_int (?c * n - now) :: real)\<close> \<open>(of_int (?c * n - now) :: real) \<le> of_int n\<close>
    by (intro exI [of _ "of_int (?c * n - now)"] conjI exI [of _ ?c]) auto
next
  have *: "1 \<le> math_ceil (next_local_boundary p tz x - x) \<and> math_ceil (next_local_boundary p tz x - x) < p + 1 \<and>
      next_local_boundary p tz x \<le> x + math_ceil (next_local_boundary p tz x - x) \<and>
      x + math_ceil (next_local_boundary p tz x - x) < next_local_boundary p tz x + 1" if "p \<in> {3600000, 86400000}" for p
  proof -
    have "0 < p" using that by auto
    note near = next_local_boundary [OF this assms(2) [OF that]]
    have "0 < \<lceil>next_local_boundary p tz x - x\<rceil>" using near(1) by simp
    then have "1 \<le> (of_int \<lceil>next_local_boundary p tz x - x\<rceil> :: real)" by linarith
    then show ?thesis
      using near
      unfolding math_ceil_def by linarith
  qed
  show "\<exists>t. resolvePolicyTtl x tz key v (Some NextHour) = Some t \<and> 1 \<le> t \<and> t < 3600001 \<and>
       next_local_boundary 3600000 tz x \<le> x + t \<and> x + t < next_local_boundary 3600000 tz x + 1"
    using * [of 3600000] by (simp add: max_def)
  show "\<exists>t. resolvePolicyTtl x tz key v (Some UntilMidnight) = Some t \<and> 1 \<le> t \<and> t < 86400001 \<and>
       next_local_boundary 86400000 tz x \<le> x + t \<and> x + t < next_local_boundary 86400000 tz x + 1"
    using * [of 86400000] by (simp add: max_def)
qed

theorem policy_ttl_hits_boundary_witness:
  "\<exists>t. resolvePolicyTtl 61000 (fixed_offset 0) ''k'' JNull (Some (AlignTo 60000)) = Some t \<and> t \<le> 60000"
proof -
  have "lt_instant (fixed_offset 0) (local_boundary p (fixed_offset 0) 0) - 0 = local_boundary p (fixed_offset 0) 0 - lt_local (fixed_offset 0) 0" for p
    by (rule fixed_offset_boundary)
  from conjunct1 [OF policy_ttl_hits_boundary [of 60000 "fixed_offset 0" 0 61000 "''k''" JNull, OF _ this]]
  show ?thesis by auto
qed

lemma applyJitter_bounds:
  assumes "0 \<le> rnd" "rnd < 1" "0 < t" "0 < j"
  shows "\<exists>u. applyJitter rnd (Some t) (Some j) = Some u \<and> 1 \<le> u \<and> u \<le> max 1 (t + j + 1 / 2) \<and> t - j - 1 / 2 < u"
proof -
  define d where "d = (rnd * 2 - 1) * j"
  have "d \<le> 1 * j" "- 1 * j \<le> d"
    unfolding d_def by (rule mult_right_mono; use assms in simp)+
  then show ?thesis
    using assms math_round_bounds [of "t + d"] by (auto simp: applyJitter_def d_def [symmetric] Let_def max_def)
qed

definition positive_opt :: "real option \<Rightarrow> bool" where
  "positive_opt a = (case a of None \<Rightarrow> True | Some x \<Rightarrow> 0 < x)"

fun positive_ms :: "layer_ms option \<Rightarrow> bool" where
  "positive_ms None = True"
| "positive_ms (Some (LNum x)) = (0 < x)"
| "positive_ms (Some (LMap m)) = (\<forall>(k, x) \<in> set m. 0 < x)"

fun positive_policy :: "ttl_policy option \<Rightarrow> bool" where
  "positive_policy (Some (AlignTo a)) = (0 < a)"
| "positive_policy (Some (PolicyFn f)) = (\<forall>k v. positive_opt (f k v))"
| "positive_policy _ = True"

lemma positive_opt_simps [simp]: "positive_opt None" "positive_opt (Some x) = (0 < x)"
  by (simp_all add: positive_opt_def)

lemma positive_readLayerNumber: "positive_ms (Some l) \<Longrightarrow> positive_opt (readLayerNumber n l)"
  by (cases l) (auto simp: positive_opt_def dest: map_of_SomeD split: option.splits)

lemma positive_nullish_opt: "positive_opt a \<Longrightarrow> positive_opt b \<Longrightarrow> positive_opt (nullish_opt a b)"
  by (cases a) auto

lemma positive_resolveLayerMs:
  "positive_ms a \<Longrightarrow> positive_ms b \<Longrightarrow> positive_opt c \<Longrightarrow> positive_opt (resolveLayerMs n a b c)"
  by (auto simp: resolveLayerMs_def positive_nullish_opt positive_readLayerNumber split: option.splits)

lemma positive_policyTtl: "positive_policy p \<Longrightarrow> positive_opt (resolvePolicyTtl now tz k v p)"
  by (cases "(now, tz, k, v, p)" rule: resolvePolicyTtl.cases) auto

lemma positive_nullish: "positive_opt a \<Longrightarrow> 0 < d \<Longrightarrow> 0 < nullish a d"
  by (cases a) auto

lemma positive_adaptive:
  assumes "positive_opt t"
    and "\<And>c. ad = Some (AdOptions c) \<Longrightarrow>
      positive_opt (ad_hotAfter c) \<and> positive_ms (ad_step c) \<and> positive_ms (ad_maxTtl c)"
  shows "positive_opt (applyAdaptiveTtl r key n t ad)"
proof (cases "\<not> truthy t \<or> ad = None \<or> ad = Some (AdBool False) \<or> map_of (accessProfiles r) key = None")
  case True
  then show ?thesis using assms(1) by (auto simp: applyAdaptiveTtl_def)
next
  case False
  then obtain x p where x: "t = Some x" "0 < x" and p: "map_of (accessProfiles r) key = Some p"
    using assms(1) by (cases t) auto
  define c where "c = (case ad of Some (AdOptions c) \<Rightarrow> c
                       | _ \<Rightarrow> \<lparr>ad_hotAfter = None, ad_step = None, ad_maxTtl = None\<rparr>)"
  have c: "positive_opt (ad_hotAfter c)" "positive_ms (ad_step c)" "positive_ms (ad_maxTtl c)"
    using assms(2) by (auto simp: c_def split: option.splits adaptive_ttl.splits)
  define h where "h = nullish (ad_hotAfter c) 3"
  define s where "s = nullish (resolveLayerMs n (ad_step c) None (Some (max 1 (math_round (x / 2))))) 0"
  define b where "b = nullish (resolveLayerMs n (ad_maxTtl c) None (Some (x + s * 4))) x"
  have h: "0 < h" using c(1) by (simp add: h_def positive_nullish)
  have s: "0 \<le> s"
    using positive_resolveLayerMs [OF c(2), of None "Some (max 1 (math_round (x / 2)))" n]
    by (cases "resolveLayerMs n (ad_step c) None (Some (max 1 (math_round (x / 2))))")
       (auto simp: s_def less_max_iff_disj)
  have "positive_opt (resolveLayerMs n (ad_maxTtl c) None (Some (x + s * 4)))"
    using c(3) x s by (intro positive_resolveLayerMs) auto
  then have b: "0 < b" using x by (simp add: b_def positive_nullish)
  have "0 \<le> real (ap_hits p) / h" using h by simp
  then have "0 \<le> math_floor (real (ap_hits p) / h)" by (simp add: math_floor_def)
  then have "0 < min b (x + s * math_floor (real (ap_hits p) / h))"
    using b x s by (simp add: add_pos_nonneg)
  then show ?thesis
    using False x p by (simp add: applyAdaptiveTtl_def c_def [symmetric] h_def [symmetric]
        s_def [symmetric] b_def [symmetric] Let_def)
qed

text \<open>
  Resolved TTLs are positive. Whatever mix of per-call, global, policy, negative, adaptive and
  jitter options applies, when every configured number is positive (as the stack's validation
  demands) the resolved fresh TTL is absent or strictly positive; an empty entry always has one.
\<close>

theorem resolved_ttl_positive:
  assumes "positive_ms (o_ttl opts)" "positive_ms (o_negativeTtl opts)" "positive_ms globalNeg"
    "positive_ms globalTtl" "positive_opt fallback" "positive_policy (o_ttlPolicy opts)"
    "\<And>c. o_adaptiveTtl opts = Some (AdOptions c) \<Longrightarrow>
      positive_opt (ad_hotAfter c) \<and> positive_ms (ad_step c) \<and> positive_ms (ad_maxTtl c)"
  shows "(case resolveFreshTtl r now tz rnd key layer kind opts fallback globalNeg globalTtl v of
      None \<Rightarrow> kind = WValue | Some t \<Rightarrow> 0 < t)"
proof -
  define base where "base = (let policyTtl = (if kind = WValue then resolvePolicyTtl now tz key v (o_ttlPolicy opts) else None);
         ttl = resolveLayerMs layer (o_ttl opts) globalTtl (nullish_opt policyTtl fallback)
     in if kind = WEmpty then resolveLayerMs layer (o_negativeTtl opts) globalNeg (Some (nullish ttl 60000)) else ttl)"
  define ad where "ad = applyAdaptiveTtl r key layer base (o_adaptiveTtl opts)"
  have pol: "positive_opt (if kind = WValue then resolvePolicyTtl now tz key v (o_ttlPolicy opts) else None)"
    using positive_policyTtl assms(6) by auto
  have ttl: "positive_opt (resolveLayerMs layer (o_ttl opts) globalTtl (nullish_opt
     (if kind = WValue then resolvePolicyTtl now tz key v (o_ttlPolicy opts) else None) fallback))"
    using assms pol by (intro positive_resolveLayerMs positive_nullish_opt)
  have base: "positive_opt base"
    unfolding base_def Let_def using ttl assms
    by (auto intro!: positive_resolveLayerMs positive_nullish)
  have some: "base \<noteq> None" if "kind = WEmpty"
    using that by (auto simp: base_def Let_def resolveLayerMs_def nullish_opt_def split: option.splits)
  have ad: "positive_opt ad"
    unfolding ad_def using base assms(7) by (rule positive_adaptive)
  have ad_some: "ad \<noteq> None" if "base \<noteq> None"
    using that by (auto simp: ad_def applyAdaptiveTtl_def Let_def split: option.splits)
  have j: "positive_opt (applyJitter rnd ad j) \<and> (applyJitter rnd ad j = None \<longrightarrow> ad = None)" for j
    using ad by (auto simp: applyJitter_def Let_def)
  have "resolveFreshTtl r now tz rnd key layer kind opts fallback globalNeg globalTtl v
      = applyJitter rnd ad (resolveLayerMs layer (o_ttlJitter opts) None None)"
    by (simp add: resolveFreshTtl_def ad_def base_def Let_def)
  then show ?thesis
    using j [of "resolveLayerMs layer (o_ttlJitter opts) None None"] some ad_some
    by (cases kind) (auto simp: positive_opt_def split: option.splits)
qed

theorem resolved_ttl_positive_witness:
  "case resolveFreshTtl \<lparr>accessProfiles = [], maxProfileEntries = 10\<rparr> 0 (fixed_offset 0) 0 ''k'' ''memory'' WEmpty
     (no_write_options\<lparr>o_ttlPolicy := Some NextHour\<rparr>) None None (Some (LNum 5000)) JNull of
     None \<Rightarrow> False | Some t \<Rightarrow> 0 < t"
  using resolved_ttl_positive [where opts = "no_write_options\<lparr>o_ttlPolicy := Some NextHour\<rparr>" and globalNeg = None
      and globalTtl = "Some (LNum 5000)" and fallback = None and kind = WEmpty and v = JNull
      and r = "\<lparr>accessProfiles = [], maxProfileEntries = 10\<rparr>" and now = 0 and tz = "fixed_offset 0" and rnd = 0
      and key = "''k''" and layer = "''memory''"]
  by (simp add: no_write_options_def split: option.splits)

text \<open>
  An explicit TTL overrides the TTL policy. For a value write whose options give this layer a
  TTL, the policy has no influence on the result, and neither have the global and the layer default.
\<close>

theorem explicit_ttl_overrides_policy:
  assumes "o_ttl opts = Some l" "readLayerNumber layer l = Some t"
  shows "resolveFreshTtl r now tz rnd key layer WValue opts fallback globalNeg globalTtl v =
     applyJitter rnd (applyAdaptiveTtl r key layer (Some t) (o_adaptiveTtl opts))
       (resolveLayerMs layer (o_ttlJitter opts) None None)"
  using assms by (simp add: resolveFreshTtl_def resolveLayerMs_def Let_def)

theorem explicit_ttl_overrides_policy_witness:
  "resolveFreshTtl \<lparr>accessProfiles = [], maxProfileEntries = 10\<rparr> 0 (fixed_offset 0) 0 ''k'' ''memory'' WValue
     (no_write_options\<lparr>o_ttl := Some (LNum 100), o_ttlPolicy := Some (AlignTo 60000)\<rparr>) None None None JNull = Some 100"
  using explicit_ttl_overrides_policy [of "no_write_options\<lparr>o_ttl := Some (LNum 100),
      o_ttlPolicy := Some (AlignTo 60000)\<rparr>" "LNum 100" "''memory''" 100
      "\<lparr>accessProfiles = [], maxProfileEntries = 10\<rparr>" 0 "fixed_offset 0" 0 "''k''" None None None JNull]
  by (simp add: no_write_options_def applyAdaptiveTtl_def applyJitter_def resolveLayerMs_def)

end
