(* ===== verification/CircuitBreaker.thy ===== *)
theory CircuitBreaker
  imports Types
begin

text \<open>
  Circuit breakers (\<open>src/src/internal/CircuitBreakerManager.ts\<close>): a bounded table of failure
  counters, each of which opens for a cooldown when its threshold is reached. A method that throws
  returns \<open>Inl\<close> with the state it leaves behind.
\<close>

subsection \<open>State and operations\<close>

record breaker_state =
  br_failures :: nat
  br_openUntil :: "real option"
  br_createdAt :: real

record breaker_manager =
  breakers :: "(string, breaker_state) jsmap"
  br_maxEntries :: nat

definition br_displayKey :: "string \<Rightarrow> string" where
  "br_displayKey key = (if length key > 64 then take 64 key @ ''...'' else key)"

definition br_is_open :: "real \<Rightarrow> breaker_state \<Rightarrow> bool" where
  \<comment> \<open>\<open>state.openUntil && state.openUntil > now\<close>\<close>
  "br_is_open now s = (truthy (br_openUntil s) \<and> \<not> the (br_openUntil s) \<le> now)"

definition assertClosed :: "real \<Rightarrow> string \<Rightarrow> breaker_manager \<Rightarrow> unit result \<times> breaker_manager" where
  "assertClosed now key m = (case map_of (breakers m) key of
      None \<Rightarrow> (Inr (), m)
    | Some s \<Rightarrow>
        if \<not> truthy (br_openUntil s) then (Inr (), m)
        else if the (br_openUntil s) \<le> now
        then (Inr (), m\<lparr>breakers := AList.delete key (breakers m)\<rparr>)
        else let remainingMs = the (br_openUntil s) - now
             in (Inl (CircuitOpen (br_displayKey key) \<lceil>remainingMs / 1000\<rceil>), m))"

fun prune_closed ::
    "real \<Rightarrow> nat \<Rightarrow> (string \<times> breaker_state) list \<Rightarrow> (string, breaker_state) jsmap \<Rightarrow> (string, breaker_state) jsmap" where
  \<comment> \<open>first pass, over the entries in insertion order\<close>
  "prune_closed now maxE [] m = m"
| "prune_closed now maxE ((k, s) # es) m =
    (if length m \<le> maxE then m
     else if \<not> truthy (br_openUntil s) \<or> the (br_openUntil s) \<le> now
     then prune_closed now maxE es (AList.delete k m)
     else prune_closed now maxE es m)"

fun prune_oldest ::
    "nat \<Rightarrow> (string \<times> breaker_state) list \<Rightarrow> (string, breaker_state) jsmap \<Rightarrow> (string, breaker_state) jsmap" where
  \<comment> \<open>second pass, over the entries sorted by creation time\<close>
  "prune_oldest maxE [] m = m"
| "prune_oldest maxE ((k, s) # es) m =
    (if length m \<le> maxE then m else prune_oldest maxE es (AList.delete k m))"

definition br_pruneIfNeeded :: "real \<Rightarrow> breaker_manager \<Rightarrow> breaker_manager" where
  "br_pruneIfNeeded now m =
    (if length (breakers m) \<le> br_maxEntries m then m
     else let b = prune_closed now (br_maxEntries m) (breakers m) (breakers m)
          in if length b \<le> br_maxEntries m then m\<lparr>breakers := b\<rparr>
             else m\<lparr>breakers := prune_oldest (br_maxEntries m) (sort_key (\<lambda>e. br_createdAt (snd e)) b) b\<rparr>)"

definition recordFailure ::
    "real \<Rightarrow> string \<Rightarrow> circuit_breaker_options option \<Rightarrow> breaker_manager \<Rightarrow> breaker_manager" where
  "recordFailure now key options m = (case options of
      None \<Rightarrow> m
    | Some opts \<Rightarrow>
       (let failureThreshold = nullish (cb_failureThreshold opts) 3;
            cooldownMs = nullish (cb_cooldownMs opts) 30000;
            s = nullish (map_of (breakers m) key) \<lparr>br_failures = 0, br_openUntil = None, br_createdAt = now\<rparr>;
            s1 = s\<lparr>br_failures := br_failures s + 1\<rparr>;
            s2 = (if real (br_failures s1) \<ge> failureThreshold
                  then s1\<lparr>br_openUntil := Some (now + cooldownMs)\<rparr> else s1)
        in br_pruneIfNeeded now (m\<lparr>breakers := AList.update key s2 (breakers m)\<rparr>)))"

definition recordSuccess :: "string \<Rightarrow> breaker_manager \<Rightarrow> breaker_manager" where
  "recordSuccess key m = m\<lparr>breakers := AList.delete key (breakers m)\<rparr>"

definition br_isOpen :: "real \<Rightarrow> string \<Rightarrow> breaker_manager \<Rightarrow> bool \<times> breaker_manager" where
  "br_isOpen now key m = (case map_of (breakers m) key of
      None \<Rightarrow> (False, m)
    | Some s \<Rightarrow>
        if \<not> truthy (br_openUntil s) then (False, m)
        else if the (br_openUntil s) \<le> now
        then (False, m\<lparr>breakers := AList.delete key (breakers m)\<rparr>)
        else (True, m))"

definition br_delete :: "string \<Rightarrow> breaker_manager \<Rightarrow> breaker_manager" where
  "br_delete key m = m\<lparr>breakers := AList.delete key (breakers m)\<rparr>"

definition br_clear :: "breaker_manager \<Rightarrow> breaker_manager" where
  "br_clear m = m\<lparr>breakers := []\<rparr>"

definition tripCount :: "breaker_manager \<Rightarrow> nat" where
  "tripCount m = foldl (\<lambda>count e. if br_openUntil (snd e) \<noteq> None then count + 1 else count) 0 (breakers m)"

subsection \<open>Pruning\<close>

lemma jsmap_ok_prune_closed [inv_intros]: "jsmap_ok m \<Longrightarrow> jsmap_ok (prune_closed now n es m)"
  by (induction now n es m rule: prune_closed.induct) (auto intro: inv_intros)

lemma jsmap_ok_prune_oldest [inv_intros]: "jsmap_ok m \<Longrightarrow> jsmap_ok (prune_oldest n es m)"
  by (induction n es m rule: prune_oldest.induct) (auto intro: inv_intros)

lemma prune_oldest_bound:
  "jsmap_ok m \<Longrightarrow> fst ` set m \<subseteq> fst ` set es \<Longrightarrow> length (prune_oldest n es m) \<le> n"
proof (induction n es m rule: prune_oldest.induct)
  case (2 n k s es m)
  have "fst ` set (AList.delete k m) \<subseteq> fst ` set es"
    using 2(3) by (auto simp: dom_delete)
  then show ?case using 2 by (auto intro: inv_intros)
qed simp

lemma set_delete_sub: "set (AList.delete k m) \<subseteq> set m"
  by (induction m) auto

lemma delete_keeps: "e \<in> set m \<Longrightarrow> fst e \<noteq> k \<Longrightarrow> e \<in> set (AList.delete k m)"
  by (induction m) auto

lemma prune_closed_sub: "set (prune_closed now n es m) \<subseteq> set m"
  by (induction now n es m rule: prune_closed.induct) (use set_delete_sub in \<open>auto split: if_splits\<close>, fastforce+)

lemma prune_closed_keeps_open:
  assumes "e \<in> set m" "br_is_open now (snd e)" "\<forall>e' \<in> set es. fst e' = fst e \<longrightarrow> e' = e"
  shows "e \<in> set (prune_closed now n es m)"
  using assms
proof (induction now n es m rule: prune_closed.induct)
  case (2 now n k s es m)
  obtain ke se where e: "e = (ke, se)" by (cases e)
  have "e \<in> set (AList.delete k m)" if "\<not> br_is_open now s"
    using 2(3-5) that by (intro delete_keeps) (auto simp: e)
  then show ?case using 2 by (auto simp: br_is_open_def)
qed simp

lemma prune_closed_all_open:
  assumes "jsmap_ok m" "set m \<subseteq> set es \<union> {e. br_is_open now (snd e)}"
    and "\<forall>e \<in> set es. \<forall>e' \<in> set m. fst e = fst e' \<longrightarrow> e = e'"
    and "n < length (prune_closed now n es m)"
  shows "\<forall>e \<in> set (prune_closed now n es m). br_is_open now (snd e)"
  using assms
proof (induction now n es m rule: prune_closed.induct)
  case (2 now n k s es m)
  show ?case
  proof (cases "length m \<le> n")
    case False
    have sub: "set (AList.delete k m) \<subseteq> set m" by (rule set_delete_sub)
    have k: "e \<in> set (AList.delete k m) \<Longrightarrow> fst e \<noteq> k" for e
      using dom_delete [of k m] by (metis DiffD2 image_eqI insertCI)
    show ?thesis
    proof (cases "\<not> truthy (br_openUntil s) \<or> the (br_openUntil s) \<le> now")
      case True
      have "\<forall>e \<in> set (prune_closed now n es (AList.delete k m)). br_is_open now (snd e)"
      proof (rule 2(1) [OF False True])
        show "jsmap_ok (AList.delete k m)" using 2(3) by (rule jsmap_ok_delete)
        show "set (AList.delete k m) \<subseteq> set es \<union> {e. br_is_open now (snd e)}"
        proof
          fix x assume x: "x \<in> set (AList.delete k m)"
          then have "x \<in> set ((k, s) # es) \<union> {e. br_is_open now (snd e)}" using sub 2(4) by blast
          then show "x \<in> set es \<union> {e. br_is_open now (snd e)}" using k [OF x] by auto
        qed
        show "\<forall>e \<in> set es. \<forall>e' \<in> set (AList.delete k m). fst e = fst e' \<longrightarrow> e = e'"
          using 2(5) sub by auto
        show "n < length (prune_closed now n es (AList.delete k m))" using 2(6) False True by simp
      qed
      then show ?thesis using False True by simp
    next
      case op: False
      then have "\<forall>e \<in> set (prune_closed now n es m). br_is_open now (snd e)"
        using False 2(3-) by (intro 2(2)) (auto simp: br_is_open_def)
      then show ?thesis using False op by simp
    qed
  qed (use 2 in simp)
qed auto

lemma jsmap_ok_unique: "jsmap_ok m \<Longrightarrow> e \<in> set m \<Longrightarrow> e' \<in> set m \<Longrightarrow> fst e = fst e' \<Longrightarrow> e = e'"
  unfolding jsmap_ok_def by (metis eq_key_imp_eq_value prod.collapse)

lemma prune_bound: "jsmap_ok (breakers m) \<Longrightarrow> length (breakers (br_pruneIfNeeded now m)) \<le> br_maxEntries m"
  by (auto simp: br_pruneIfNeeded_def Let_def intro!: prune_oldest_bound inv_intros)

lemma prune_sub: "set (prune_oldest n es m) \<subseteq> set m"
  by (induction n es m rule: prune_oldest.induct) (use set_delete_sub in \<open>auto split: if_splits\<close>, fastforce+)

lemma prune_keeps_open:
  assumes "jsmap_ok (breakers m)" "e \<in> set (breakers m)" "br_is_open now (snd e)"
    and "e \<notin> set (breakers (br_pruneIfNeeded now m))"
  shows "\<forall>e' \<in> set (breakers (br_pruneIfNeeded now m)). br_is_open now (snd e')"
proof -
  let ?b = "prune_closed now (br_maxEntries m) (breakers m) (breakers m)"
  have "e \<in> set ?b"
    using assms jsmap_ok_unique by (intro prune_closed_keeps_open) blast+
  then have big: "br_maxEntries m < length ?b" "br_maxEntries m < length (breakers m)"
    using assms(2,4) by (auto simp: br_pruneIfNeeded_def Let_def split: if_splits)
  then have "\<forall>e' \<in> set ?b. br_is_open now (snd e')"
    using assms(1) jsmap_ok_unique by (intro prune_closed_all_open) blast+
  then show ?thesis
    using big prune_sub by (fastforce simp: br_pruneIfNeeded_def Let_def)
qed

definition manager_ok :: "breaker_manager \<Rightarrow> bool" where
  "manager_ok m \<longleftrightarrow> jsmap_ok (breakers m) \<and> length (breakers m) \<le> br_maxEntries m"

lemma max_prune [simp]: "br_maxEntries (br_pruneIfNeeded now m) = br_maxEntries m"
  by (simp add: br_pruneIfNeeded_def Let_def)

lemma prune_ok: "jsmap_ok (breakers m) \<Longrightarrow> manager_ok (br_pruneIfNeeded now m)"
  using prune_bound [of m now]
  by (auto simp: manager_ok_def br_pruneIfNeeded_def Let_def intro!: inv_intros)

lemma max_recordFailure [simp]: "br_maxEntries (recordFailure now key opts m) = br_maxEntries m"
  by (simp add: recordFailure_def Let_def split: option.splits)

lemma manager_ok_recordFailure [inv_intros]: "manager_ok m \<Longrightarrow> manager_ok (recordFailure now key opts m)"
  by (auto simp: recordFailure_def Let_def manager_ok_def [of m] intro!: prune_ok inv_intros split: option.splits)

lemma manager_ok_delete [inv_intros]: "manager_ok m \<Longrightarrow> manager_ok (m\<lparr>breakers := AList.delete key (breakers m)\<rparr>)"
  using length_delete_le [of key "breakers m"] by (auto simp: manager_ok_def intro: inv_intros)

lemma manager_ok_ops [inv_intros]:
  "manager_ok m \<Longrightarrow> manager_ok (recordSuccess key m)"
  "manager_ok m \<Longrightarrow> manager_ok (br_delete key m)"
  "manager_ok m \<Longrightarrow> manager_ok (br_clear m)"
  "manager_ok m \<Longrightarrow> manager_ok (snd (assertClosed now key m))"
  "manager_ok m \<Longrightarrow> manager_ok (snd (br_isOpen now key m))"
  by (auto simp: recordSuccess_def br_delete_def br_clear_def assertClosed_def br_isOpen_def Let_def
      manager_ok_delete split: option.splits) (simp add: manager_ok_def)

subsection \<open>Properties\<close>

text \<open>
  The breaker table is bounded and spares open breakers. Every operation keeps the table
  within its bound with one entry per key; when recording a failure evicts an entry that is open at
  that moment, only open breakers remain in the table.
\<close>

theorem breaker_table_bounded:
  assumes "manager_ok m"
  shows "manager_ok (recordFailure now key opts m) \<and> manager_ok (recordSuccess key m) \<and>
     manager_ok (snd (assertClosed now key m)) \<and> manager_ok (snd (br_isOpen now key m)) \<and>
     (k \<noteq> key \<and> map_of (breakers m) k = Some s \<and> br_is_open now s \<and>
        map_of (breakers (recordFailure now key opts m)) k = None \<longrightarrow>
      (\<forall>e \<in> set (breakers (recordFailure now key opts m)). br_is_open now (snd e)))"
proof (intro conjI impI)
  assume a: "k \<noteq> key \<and> map_of (breakers m) k = Some s \<and> br_is_open now s \<and>
        map_of (breakers (recordFailure now key opts m)) k = None"
  then obtain b where r: "recordFailure now key opts m = br_pruneIfNeeded now (m\<lparr>breakers := AList.update key b (breakers m)\<rparr>)"
    by (cases opts) (auto simp: recordFailure_def Let_def)
  let ?m = "m\<lparr>breakers := AList.update key b (breakers m)\<rparr>"
  have "jsmap_ok (breakers ?m)" using assms by (auto simp: manager_ok_def intro: inv_intros)
  moreover have "(k, s) \<in> set (breakers ?m)" using a by (auto intro!: map_of_SomeD simp: jsmap_simps)
  moreover have "(k, s) \<notin> set (breakers (br_pruneIfNeeded now ?m))"
    using a unfolding r by (metis map_of_eq_None_iff fst_conv image_eqI)
  ultimately show "\<forall>e \<in> set (breakers (recordFailure now key opts m)). br_is_open now (snd e)"
    using prune_keeps_open [of ?m "(k, s)" now] a unfolding r by simp
qed (intro inv_intros assms)+

theorem breaker_table_bounded_witness:
  "manager_ok (recordFailure 7 ''b'' (Some \<lparr>cb_failureThreshold = None, cb_cooldownMs = None, cb_scope = None, cb_breakerKey = None\<rparr>)
     \<lparr>breakers = [(''a'', \<lparr>br_failures = 3, br_openUntil = Some 100, br_createdAt = 1\<rparr>)], br_maxEntries = 1\<rparr>)"
  using breaker_table_bounded [of "\<lparr>breakers = [(''a'', \<lparr>br_failures = 3, br_openUntil = Some 100, br_createdAt = 1\<rparr>)],
    br_maxEntries = 1\<rparr>"] by (simp add: manager_ok_def jsmap_ok_def)

text \<open>Consecutive failures of one key, at the given times.\<close>

fun failures_at :: "real list \<Rightarrow> string \<Rightarrow> circuit_breaker_options \<Rightarrow> breaker_manager \<Rightarrow> breaker_manager" where
  "failures_at [] key opts m = m"
| "failures_at (t # ts) key opts m = failures_at ts key opts (recordFailure t key (Some opts) m)"

definition room_for :: "string \<Rightarrow> breaker_manager \<Rightarrow> bool" where
  \<comment> \<open>recording a failure of the key does not overflow the table\<close>
  "room_for key m \<longleftrightarrow> manager_ok m \<and> (key \<notin> fst ` set (breakers m) \<longrightarrow> length (breakers m) < br_maxEntries m)"

lemma recordFailure_room:
  fixes now :: real
  assumes "room_for key m"
  defines "s \<equiv> nullish (map_of (breakers m) key) \<lparr>br_failures = 0, br_openUntil = None, br_createdAt = now\<rparr>"
  shows "breakers (recordFailure now key (Some opts) m) = AList.update key
      (s\<lparr>br_failures := br_failures s + 1,
         br_openUntil := (if real (br_failures s + 1) \<ge> nullish (cb_failureThreshold opts) 3
            then Some (now + nullish (cb_cooldownMs opts) 30000) else br_openUntil s)\<rparr>) (breakers m)"
    and "room_for key (recordFailure now key (Some opts) m)"
proof -
  have len: "length (AList.update key b (breakers m)) \<le> br_maxEntries m" for b
    using assms(1) length_update_present [of key "breakers m" b] length_update_absent [of key "breakers m" b]
    by (cases "key \<in> fst ` set (breakers m)") (auto simp: room_for_def manager_ok_def)
  show eq: "breakers (recordFailure now key (Some opts) m) = AList.update key
      (s\<lparr>br_failures := br_failures s + 1,
         br_openUntil := (if real (br_failures s + 1) \<ge> nullish (cb_failureThreshold opts) 3
            then Some (now + nullish (cb_cooldownMs opts) 30000) else br_openUntil s)\<rparr>) (breakers m)"
    using len by (simp add: recordFailure_def br_pruneIfNeeded_def s_def Let_def)
  show "room_for key (recordFailure now key (Some opts) m)"
    using assms(1) eq by (simp add: room_for_def manager_ok_recordFailure dom_update)
qed

lemma failures_at_count:
  assumes "room_for key m" "map_of (breakers m) key = Some s"
    and "real (br_failures s) \<ge> nullish (cb_failureThreshold opts) 3 \<longrightarrow> br_openUntil s = Some (last0 + nullish (cb_cooldownMs opts) 30000)"
    and "real (br_failures s) < nullish (cb_failureThreshold opts) 3 \<longrightarrow> br_openUntil s = None"
  shows "map_of (breakers (failures_at ts key opts m)) key = Some
     \<lparr>br_failures = br_failures s + length ts,
      br_openUntil = (if real (br_failures s + length ts) \<ge> nullish (cb_failureThreshold opts) 3
         then Some ((if ts = [] then last0 else last ts) + nullish (cb_cooldownMs opts) 30000) else None),
      br_createdAt = br_createdAt s\<rparr>"
  using assms
proof (induction ts arbitrary: m s last0)
  case Nil
  then show ?case by (cases s) (auto simp: not_le)
next
  case (Cons t ts)
  let ?s = "s\<lparr>br_failures := br_failures s + 1,
         br_openUntil := (if real (br_failures s + 1) \<ge> nullish (cb_failureThreshold opts) 3
            then Some (t + nullish (cb_cooldownMs opts) 30000) else br_openUntil s)\<rparr>"
  have s: "map_of (breakers (recordFailure t key (Some opts) m)) key = Some ?s"
    using recordFailure_room(1) [OF Cons(2), of t opts] Cons(3) by (simp add: jsmap_simps)
  have n: "real (br_failures s + 1) < nullish (cb_failureThreshold opts) 3 \<Longrightarrow> br_openUntil s = None"
    using Cons(5) by simp
  show ?case
    using Cons(1) [OF recordFailure_room(2) [OF Cons(2), of t opts] s, of t] n by auto
qed

text \<open>
  C15: a breaker trips at its threshold and recovers after its cooldown. For a key with no recorded
  failure, after consecutive failures (in a table with room) the next check at \<open>now\<close> is refused
  exactly when at least \<open>failureThreshold\<close> failures were recorded and the cooldown counted from the
  last one has not elapsed; a check that finds the cooldown elapsed forgets the key.
\<close>

theorem breaker_trips_and_recovers:
  assumes "room_for key m" "map_of (breakers m) key = None" "ts \<noteq> []"
    and "0 < last ts + nullish (cb_cooldownMs opts) 30000"
  shows "let tripped = (real (length ts) \<ge> nullish (cb_failureThreshold opts) 3);
             reopen = last ts + nullish (cb_cooldownMs opts) 30000;
             (outcome, m') = assertClosed now key (failures_at ts key opts m)
         in outcome = (if tripped \<and> now < reopen
              then Inl (CircuitOpen (br_displayKey key) \<lceil>(reopen - now) / 1000\<rceil>) else Inr ()) \<and>
            (tripped \<and> reopen \<le> now \<longrightarrow> map_of (breakers m') key = None)"
proof -
  obtain t ts' where ts: "ts = t # ts'" using assms(3) by (cases ts) auto
  let ?s = "\<lparr>br_failures = 1,
      br_openUntil = (if 1 \<ge> nullish (cb_failureThreshold opts) 3
            then Some (t + nullish (cb_cooldownMs opts) 30000) else None), br_createdAt = t\<rparr>"
  have s: "map_of (breakers (recordFailure t key (Some opts) m)) key = Some ?s"
    using recordFailure_room(1) [OF assms(1), of t opts] assms(2) by (simp add: jsmap_simps)
  have "map_of (breakers (failures_at ts key opts m)) key = Some \<lparr>br_failures = length ts,
      br_openUntil = (if real (length ts) \<ge> nullish (cb_failureThreshold opts) 3
        then Some (last ts + nullish (cb_cooldownMs opts) 30000) else None), br_createdAt = t\<rparr>"
    using failures_at_count [OF recordFailure_room(2) [OF assms(1), of t opts] s, of opts t ts']
    by (simp add: ts)
  then show ?thesis
    using assms(4) by (auto simp: assertClosed_def Let_def jsmap_simps)
qed

theorem breaker_trips_and_recovers_witness:
  "fst (assertClosed 500 ''k'' (failures_at [10, 20] ''k'' \<lparr>cb_failureThreshold = Some 2, cb_cooldownMs = Some 1000,
      cb_scope = None, cb_breakerKey = None\<rparr> \<lparr>breakers = [], br_maxEntries = 5\<rparr>)) = Inl (CircuitOpen ''k'' 1)"
  using breaker_trips_and_recovers [of "''k''" "\<lparr>breakers = [], br_maxEntries = 5\<rparr>" "[10, 20]"
      "\<lparr>cb_failureThreshold = Some 2, cb_cooldownMs = Some 1000, cb_scope = None, cb_breakerKey = None\<rparr>" 500]
  by (simp add: room_for_def manager_ok_def br_displayKey_def ceiling_eq_iff Let_def split: prod.splits)

text \<open>
  A table saturated by open breakers counts no new failure. When the table is full of breakers
  that are all open and stay below the threshold for the new key, recording a failure of another key
  leaves the table as it was, so that key can never trip: the first pruning pass drops entries that
  were never opened, not only entries whose cooldown elapsed.
\<close>

lemma prune_closed_open_prefix:
  assumes "\<forall>e \<in> set es. br_is_open now (snd e)" "n < length m"
  shows "prune_closed now n (es @ es') m = prune_closed now n es' m"
  using assms
  by (induction es) (auto simp: br_is_open_def)

theorem saturated_table_forgets_new_failures:
  assumes "jsmap_ok (breakers m)" "length (breakers m) = br_maxEntries m"
    and "\<forall>e \<in> set (breakers m). br_is_open now (snd e)"
    and "map_of (breakers m) key = None" "1 < nullish (cb_failureThreshold opts) 3"
  shows "recordFailure now key (Some opts) m = m"
proof -
  let ?s = "\<lparr>br_failures = 1, br_openUntil = None, br_createdAt = now\<rparr>"
  let ?b = "breakers m @ [(key, ?s)]"
  have k: "key \<notin> fst ` set (breakers m)" using assms(4) by (simp add: map_of_eq_None_iff)
  have del: "AList.delete key ?b = breakers m"
    using k delete_update_same [of key ?s "breakers m"] by (simp add: update_absent)
  have "prune_closed now (br_maxEntries m) ?b ?b = breakers m"
    using prune_closed_open_prefix [OF assms(3), of "br_maxEntries m" ?b "[(key, ?s)]"] assms(2) del
    by simp
  then have "br_pruneIfNeeded now (m\<lparr>breakers := ?b\<rparr>) = m"
    using assms(2) by (simp add: br_pruneIfNeeded_def Let_def)
  then show ?thesis
    using assms(4,5) k by (simp add: recordFailure_def Let_def update_absent)
qed

theorem saturated_table_forgets_new_failures_witness:
  "recordFailure 7 ''b'' (Some \<lparr>cb_failureThreshold = None, cb_cooldownMs = None, cb_scope = None, cb_breakerKey = None\<rparr>)
     \<lparr>breakers = [(''a'', \<lparr>br_failures = 3, br_openUntil = Some 100, br_createdAt = 1\<rparr>)], br_maxEntries = 1\<rparr>
   = \<lparr>breakers = [(''a'', \<lparr>br_failures = 3, br_openUntil = Some 100, br_createdAt = 1\<rparr>)], br_maxEntries = 1\<rparr>"
  by (rule saturated_table_forgets_new_failures) (simp_all add: jsmap_ok_def br_is_open_def)

end
