(* ===== verification/StampedeGuard.thy ===== *)
theory StampedeGuard
  imports Prelude
begin

text \<open>
  In-process single flight (\<open>src/src/stampede/StampedeGuard.ts\<close>). An in-flight entry object is the
  number under which it is stored, so identity tests compare numbers; each method is a function on
  the guard, and the step relation interleaves calls, settling tasks, timers and returning waiters in
  any order. A waiter is a call that has not returned yet: it holds one reference to its entry.
\<close>

subsection \<open>State and operations\<close>

record in_flight_entry =
  en_references :: nat
  en_settled :: bool
  en_timedOut :: bool

record guard =
  sg_inFlight :: "(string, nat) jsmap"
  sg_maxInFlight :: nat
  sg_entryTimeoutMs :: "real option"
  sg_activeTasks :: nat
  sg_heap :: "nat \<Rightarrow> in_flight_entry"   \<comment> \<open>the entry objects\<close>
  sg_next :: nat
  sg_timeouts :: "string list"         \<comment> \<open>calls of \<open>onEntryTimeout\<close>\<close>

definition new_guard :: "nat option \<Rightarrow> real option \<Rightarrow> guard" where
  "new_guard maxInFlight entryTimeoutMs =
    \<lparr>sg_inFlight = [], sg_maxInFlight = nullish maxInFlight 10000, sg_entryTimeoutMs = entryTimeoutMs,
     sg_activeTasks = 0, sg_heap = (\<lambda>_. \<lparr>en_references = 0, en_settled = False, en_timedOut = False\<rparr>),
     sg_next = 0, sg_timeouts = []\<rparr>"

definition sg_execute :: "string \<Rightarrow> guard \<Rightarrow> nat result \<times> guard" where
  \<comment> \<open>up to the first await: the entry the call waits for, or the refusal\<close>
  "sg_execute key g = (case map_of (sg_inFlight g) key of
      Some i \<Rightarrow> (Inr i, g\<lparr>sg_heap := (sg_heap g)(i := (sg_heap g i)\<lparr>en_references := en_references (sg_heap g i) + 1\<rparr>)\<rparr>)
    | None \<Rightarrow>
        if sg_activeTasks g \<ge> sg_maxInFlight g then (Inl (InFlightLimit (sg_maxInFlight g)), g)
        else let i = sg_next g in
          (Inr i, g\<lparr>sg_heap := (sg_heap g)(i := \<lparr>en_references = 1, en_settled = False, en_timedOut = False\<rparr>),
                    sg_next := i + 1, sg_activeTasks := sg_activeTasks g + 1,
                    sg_inFlight := AList.update key i (sg_inFlight g)\<rparr>))"

definition releaseTimedOut :: "string \<Rightarrow> guard \<Rightarrow> guard" where
  "releaseTimedOut key g = (case map_of (sg_inFlight g) key of
      None \<Rightarrow> g
    | Some i \<Rightarrow>
        if en_timedOut (sg_heap g i) then g
        else g\<lparr>sg_heap := (sg_heap g)(i := (sg_heap g i)\<lparr>en_timedOut := True\<rparr>),
               sg_inFlight := AList.delete key (sg_inFlight g),
               sg_timeouts := sg_timeouts g @ [key]\<rparr>)"

definition timeout_fires :: "string \<Rightarrow> nat \<Rightarrow> guard \<Rightarrow> guard" where
  \<comment> \<open>the timer of \<open>withTimeout\<close>\<close>
  "timeout_fires key i g = (if map_of (sg_inFlight g) key = Some i then releaseTimedOut key g else g)"

definition releaseEntry :: "string \<Rightarrow> nat \<Rightarrow> guard \<Rightarrow> guard" where
  "releaseEntry key i g =
    (let e = (sg_heap g i)\<lparr>en_references := en_references (sg_heap g i) - 1\<rparr>;
         g1 = g\<lparr>sg_heap := (sg_heap g)(i := e)\<rparr>
     in if map_of (sg_inFlight g1) key = Some i \<and> en_references e = 0 \<and> en_settled e
        then g1\<lparr>sg_inFlight := AList.delete key (sg_inFlight g1)\<rparr> else g1)"

definition settleEntry :: "string \<Rightarrow> nat \<Rightarrow> guard \<Rightarrow> guard" where
  "settleEntry key i g =
    (let e = (sg_heap g i)\<lparr>en_settled := True\<rparr>;
         g1 = g\<lparr>sg_heap := (sg_heap g)(i := e), sg_activeTasks := sg_activeTasks g - 1\<rparr>
     in if en_references e = 0 \<and> map_of (sg_inFlight g1) key = Some i
        then g1\<lparr>sg_inFlight := AList.delete key (sg_inFlight g1)\<rparr> else g1)"

subsection \<open>Interleavings\<close>

record guard_system =
  gs_guard :: guard
  gs_tasks :: "(string \<times> nat) list"     \<comment> \<open>tasks started and not settled\<close>
  gs_waiters :: "(string \<times> nat) list"   \<comment> \<open>calls awaiting an entry\<close>

inductive sg_step :: "guard_system \<Rightarrow> guard_system \<Rightarrow> bool" where
  join: "map_of (sg_inFlight (gs_guard s)) key = Some i \<Longrightarrow> sg_execute key (gs_guard s) = (Inr i, g) \<Longrightarrow>
    sg_step s (s\<lparr>gs_guard := g, gs_waiters := (key, i) # gs_waiters s\<rparr>)"
| begin_task: "map_of (sg_inFlight (gs_guard s)) key = None \<Longrightarrow> sg_execute key (gs_guard s) = (Inr i, g) \<Longrightarrow>
    sg_step s (s\<lparr>gs_guard := g, gs_tasks := (key, i) # gs_tasks s, gs_waiters := (key, i) # gs_waiters s\<rparr>)"
| refuse: "sg_execute key (gs_guard s) = (Inl e, g) \<Longrightarrow> sg_step s (s\<lparr>gs_guard := g\<rparr>)"
| settle: "(key, i) \<in> set (gs_tasks s) \<Longrightarrow>
    sg_step s (s\<lparr>gs_guard := settleEntry key i (gs_guard s), gs_tasks := remove1 (key, i) (gs_tasks s)\<rparr>)"
| time_out: "(key, i) \<in> set (gs_waiters s) \<Longrightarrow> sg_entryTimeoutMs (gs_guard s) \<noteq> None \<Longrightarrow>
    sg_step s (s\<lparr>gs_guard := timeout_fires key i (gs_guard s)\<rparr>)"
| detach: "sg_step s (s\<lparr>gs_guard := releaseTimedOut key (gs_guard s)\<rparr>)"
| return: "(key, i) \<in> set (gs_waiters s) \<Longrightarrow>
    sg_step s (s\<lparr>gs_guard := releaseEntry key i (gs_guard s), gs_waiters := remove1 (key, i) (gs_waiters s)\<rparr>)"

inductive_cases sg_stepE: "sg_step s s'"

subsection \<open>Invariant\<close>

definition refs_of :: "nat \<Rightarrow> (string \<times> nat) list \<Rightarrow> nat" where
  "refs_of i ws = length (filter (\<lambda>w. snd w = i) ws)"

definition tasks_ok :: "guard_system \<Rightarrow> bool" where
  \<comment> \<open>the unsettled entries are the running tasks, each counted once\<close>
  "tasks_ok s \<longleftrightarrow> distinct (map snd (gs_tasks s)) \<and>
     (\<forall>i. (\<exists>k. (k, i) \<in> set (gs_tasks s)) \<longleftrightarrow> i < sg_next (gs_guard s) \<and> \<not> en_settled (sg_heap (gs_guard s) i)) \<and>
     sg_activeTasks (gs_guard s) = length (gs_tasks s) \<and>
     sg_activeTasks (gs_guard s) \<le> sg_maxInFlight (gs_guard s)"

definition refs_ok :: "guard_system \<Rightarrow> bool" where
  "refs_ok s \<longleftrightarrow> (\<forall>i. if i < sg_next (gs_guard s)
     then en_references (sg_heap (gs_guard s) i) = refs_of i (gs_waiters s) else refs_of i (gs_waiters s) = 0)"

definition live_ok :: "guard_system \<Rightarrow> bool" where
  \<comment> \<open>an entry that is not timed out is in the map, under its key, exactly while it is running or waited for\<close>
  "live_ok s \<longleftrightarrow> jsmap_ok (sg_inFlight (gs_guard s)) \<and>
     (\<forall>k i. map_of (sg_inFlight (gs_guard s)) k = Some i \<longrightarrow>
        (k, i) \<in> set (gs_tasks s) \<union> set (gs_waiters s) \<and> \<not> en_timedOut (sg_heap (gs_guard s) i)) \<and>
     (\<forall>k i. (k, i) \<in> set (gs_tasks s) \<union> set (gs_waiters s) \<longrightarrow>
        en_timedOut (sg_heap (gs_guard s) i) \<or> map_of (sg_inFlight (gs_guard s)) k = Some i)"

definition owner_ok :: "guard_system \<Rightarrow> bool" where
  \<comment> \<open>a task or waiter of an entry carries the entry's key\<close>
  "owner_ok s \<longleftrightarrow> (\<forall>k k' i. (k, i) \<in> set (gs_tasks s) \<union> set (gs_waiters s) \<longrightarrow>
     (k', i) \<in> set (gs_tasks s) \<union> set (gs_waiters s) \<longrightarrow> k = k')"

definition guard_ok :: "guard_system \<Rightarrow> bool" where
  "guard_ok s \<longleftrightarrow> tasks_ok s \<and> refs_ok s \<and> live_ok s \<and> owner_ok s"

lemma refs_of_Cons [simp]: "refs_of i ((k, j) # ws) = (if j = i then Suc (refs_of i ws) else refs_of i ws)"
  by (simp add: refs_of_def)

lemma refs_of_Nil [simp]: "refs_of i [] = 0"
  by (simp add: refs_of_def)

lemma refs_of_pos: "(k, i) \<in> set ws \<Longrightarrow> 0 < refs_of i ws"
  by (force simp: refs_of_def filter_empty_conv)

lemma refs_of_remove1: "(k, j) \<in> set ws \<Longrightarrow> refs_of i (remove1 (k, j) ws) = refs_of i ws - (if j = i then 1 else 0)"
proof (induction ws)
  case (Cons w ws)
  obtain a b where w: "w = (a, b)" by (cases w)
  show ?case
  proof (cases "w = (k, j)")
    case False
    then have "(k, j) \<in> set ws" using Cons(2) by auto
    then show ?thesis using Cons(1) False w refs_of_pos [of k j ws] by auto
  qed (simp add: w)
qed simp

lemma refs_of_exists: "0 < refs_of i ws \<Longrightarrow> \<exists>k. (k, i) \<in> set ws"
  by (induction ws) (auto split: if_splits)

lemma in_remove1_distinct:
  "distinct (map snd ts) \<Longrightarrow> (k, i) \<in> set ts \<Longrightarrow> (k', j) \<in> set (remove1 (k, i) ts) \<longleftrightarrow> (k', j) \<in> set ts \<and> j \<noteq> i"
  by (induction ts) (auto split: if_splits simp: image_iff)

lemma task_bound: "tasks_ok s \<Longrightarrow> (k, i) \<in> set (gs_tasks s) \<Longrightarrow> i < sg_next (gs_guard s)"
  unfolding tasks_ok_def by blast

lemma waiter_bound: "refs_ok s \<Longrightarrow> (k, i) \<in> set (gs_waiters s) \<Longrightarrow> i < sg_next (gs_guard s)"
  unfolding refs_ok_def using refs_of_pos by (metis less_numeral_extra(3))

lemma live_okI:
  assumes "jsmap_ok (sg_inFlight (gs_guard s))"
    and "\<And>k i. map_of (sg_inFlight (gs_guard s)) k = Some i \<Longrightarrow> (k, i) \<in> set (gs_tasks s) \<union> set (gs_waiters s)"
    and "\<And>k i. map_of (sg_inFlight (gs_guard s)) k = Some i \<Longrightarrow> \<not> en_timedOut (sg_heap (gs_guard s) i)"
    and "\<And>k i. (k, i) \<in> set (gs_tasks s) \<union> set (gs_waiters s) \<Longrightarrow> \<not> en_timedOut (sg_heap (gs_guard s) i) \<Longrightarrow>
       map_of (sg_inFlight (gs_guard s)) k = Some i"
  shows "live_ok s"
  using assms unfolding live_ok_def by blast

lemma owner_okI:
  assumes "owner_ok s" "set (gs_tasks s') \<union> set (gs_waiters s') \<subseteq> set (gs_tasks s) \<union> set (gs_waiters s)"
  shows "owner_ok s'"
  using assms unfolding owner_ok_def by (meson subsetD)

lemma guard_okD:
  assumes "guard_ok s"
  shows "tasks_ok s" "refs_ok s" "live_ok s" "owner_ok s"
    "map_of (sg_inFlight (gs_guard s)) k = Some i \<Longrightarrow> (k, i) \<in> set (gs_tasks s) \<union> set (gs_waiters s)"
    "(k, i) \<in> set (gs_tasks s) \<union> set (gs_waiters s) \<Longrightarrow> (k', i) \<in> set (gs_tasks s) \<union> set (gs_waiters s) \<Longrightarrow> k = k'"
    "(k, i) \<in> set (gs_tasks s) \<union> set (gs_waiters s) \<Longrightarrow> i < sg_next (gs_guard s)"
    "i < sg_next (gs_guard s) \<Longrightarrow> en_references (sg_heap (gs_guard s) i) = refs_of i (gs_waiters s)"
    "(k, i) \<in> set (gs_tasks s) \<union> set (gs_waiters s) \<Longrightarrow> \<not> en_timedOut (sg_heap (gs_guard s) i) \<Longrightarrow>
       map_of (sg_inFlight (gs_guard s)) k = Some i"
    "map_of (sg_inFlight (gs_guard s)) k = Some i \<Longrightarrow> \<not> en_timedOut (sg_heap (gs_guard s) i)"
    "jsmap_ok (sg_inFlight (gs_guard s))"
  using assms task_bound waiter_bound unfolding guard_ok_def live_ok_def owner_ok_def refs_ok_def by (blast | metis)+

lemma guard_ok_join:
  assumes "guard_ok s" "map_of (sg_inFlight (gs_guard s)) key = Some i" "sg_execute key (gs_guard s) = (Inr i, g)"
  shows "guard_ok (s\<lparr>gs_guard := g, gs_waiters := (key, i) # gs_waiters s\<rparr>)" (is "guard_ok ?s")
proof -
  note d = guard_okD [OF assms(1)]
  have g: "g = gs_guard s\<lparr>sg_heap := (sg_heap (gs_guard s))(i := (sg_heap (gs_guard s) i)\<lparr>en_references := en_references (sg_heap (gs_guard s) i) + 1\<rparr>)\<rparr>"
    using assms(2,3) by (simp add: sg_execute_def)
  have own: "(key, i) \<in> set (gs_tasks s) \<union> set (gs_waiters s)" using d(5) assms(2) .
  have "tasks_ok ?s" using d(1) by (simp add: tasks_ok_def g)
  moreover have "refs_ok ?s" using d(2) d(7) [OF own] by (auto simp: refs_ok_def g)
  moreover have "live_ok ?s" using d(3) assms(2) by (auto simp: live_ok_def g)
  moreover have "owner_ok ?s" using d(4) own unfolding owner_ok_def by auto
  ultimately show ?thesis by (simp add: guard_ok_def)
qed

lemma guard_ok_begin:
  assumes "guard_ok s" "map_of (sg_inFlight (gs_guard s)) key = None" "sg_execute key (gs_guard s) = (Inr i, g)"
  shows "guard_ok (s\<lparr>gs_guard := g, gs_tasks := (key, i) # gs_tasks s, gs_waiters := (key, i) # gs_waiters s\<rparr>)" (is "guard_ok ?s")
proof -
  note d = guard_okD [OF assms(1)]
  let ?g = "gs_guard s"
  have i: "i = sg_next ?g" and a: "sg_activeTasks ?g < sg_maxInFlight ?g" and
    g: "g = ?g\<lparr>sg_heap := (sg_heap ?g)(i := \<lparr>en_references = 1, en_settled = False, en_timedOut = False\<rparr>),
                    sg_next := i + 1, sg_activeTasks := sg_activeTasks ?g + 1,
                    sg_inFlight := AList.update key i (sg_inFlight ?g)\<rparr>"
    using assms(2,3) by (auto simp: sg_execute_def Let_def split: if_splits)
  have new: "(k, i) \<notin> set (gs_tasks s) \<union> set (gs_waiters s)" for k
    using d(7) [of k i] i by blast
  have "tasks_ok ?s"
    using d(1) new a i unfolding tasks_ok_def g by (auto simp: less_Suc_eq image_iff)
  moreover have "refs_ok ?s"
    using d(2) i unfolding refs_ok_def g by (auto simp: less_Suc_eq)
  moreover have "live_ok ?s"
  proof (rule live_okI)
    fix k j assume "(k, j) \<in> set (gs_tasks ?s) \<union> set (gs_waiters ?s)" "\<not> en_timedOut (sg_heap (gs_guard ?s) j)"
    then show "map_of (sg_inFlight (gs_guard ?s)) k = Some j"
      using d(9) [of k j] assms(2) new by (auto simp: g jsmap_simps split: if_splits)
  next
    fix k j assume "map_of (sg_inFlight (gs_guard ?s)) k = Some j"
    then show "(k, j) \<in> set (gs_tasks ?s) \<union> set (gs_waiters ?s)" "\<not> en_timedOut (sg_heap (gs_guard ?s) j)"
      using d(5,10) [of k j] new by (auto simp: g jsmap_simps split: if_splits)
  qed (simp add: g d(11) jsmap_ok_update)
  moreover have "owner_ok ?s" using d(4) new unfolding owner_ok_def by auto
  ultimately show ?thesis by (simp add: guard_ok_def)
qed

lemma guard_ok_settle:
  assumes "guard_ok s" "(key, i) \<in> set (gs_tasks s)"
  shows "guard_ok (s\<lparr>gs_guard := settleEntry key i (gs_guard s), gs_tasks := remove1 (key, i) (gs_tasks s)\<rparr>)" (is "guard_ok ?s")
proof -
  note d = guard_okD [OF assms(1)]
  let ?g = "gs_guard s" let ?t = "remove1 (key, i) (gs_tasks s)"
  have dis: "distinct (map snd (gs_tasks s))" using d(1) by (simp add: tasks_ok_def)
  note r = in_remove1_distinct [OF dis assms(2)]
  have p: "length ?t = length (gs_tasks s) - 1" "0 < length (gs_tasks s)"
    using assms(2) by (auto simp: length_remove1 length_pos_if_in_set)
  have dis': "distinct (map snd ?t)"
    using dis by (metis distinct_map distinct_remove1 inj_on_subset set_remove1_subset)
  have i: "i < sg_next ?g" using d(7) [of key i] assms(2) by simp
  have h: "sg_heap (settleEntry key i ?g) = (sg_heap ?g)(i := (sg_heap ?g i)\<lparr>en_settled := True\<rparr>)"
    and f: "sg_next (settleEntry key i ?g) = sg_next ?g" "sg_maxInFlight (settleEntry key i ?g) = sg_maxInFlight ?g"
      "sg_activeTasks (settleEntry key i ?g) = sg_activeTasks ?g - 1"
    by (simp_all add: settleEntry_def Let_def)
  have m: "map_of (sg_inFlight (settleEntry key i ?g)) k =
      (if k = key \<and> map_of (sg_inFlight ?g) key = Some i \<and> refs_of i (gs_waiters s) = 0 then None
       else map_of (sg_inFlight ?g) k)" for k
    using d(8) [OF i] by (simp add: settleEntry_def Let_def jsmap_simps)
  have j: "jsmap_ok (sg_inFlight (settleEntry key i ?g))"
    using d(3) by (simp add: settleEntry_def Let_def live_ok_def jsmap_ok_delete)
  have "tasks_ok ?s"
    using d(1) dis' p i unfolding tasks_ok_def by (auto simp: h f r)
  moreover have "refs_ok ?s" using d(2) unfolding refs_ok_def by (simp add: h f)
  moreover have "live_ok ?s"
  proof (rule live_okI)
    show "jsmap_ok (sg_inFlight (gs_guard ?s))" using j by simp
  next
    fix k n assume mk: "map_of (sg_inFlight (gs_guard ?s)) k = Some n"
    then have k: "map_of (sg_inFlight ?g) k = Some n" by (simp add: m split: if_splits)
    show "\<not> en_timedOut (sg_heap (gs_guard ?s) n)" using d(10) [OF k] by (auto simp: h)
    show "(k, n) \<in> set (gs_tasks ?s) \<union> set (gs_waiters ?s)"
    proof (cases "n = i")
      case True
      then have "k = key" using d(6) [OF d(5) [OF k]] assms(2) by blast
      then have "0 < refs_of i (gs_waiters s)" using mk True k by (auto simp: m split: if_splits)
      then obtain k' where "(k', i) \<in> set (gs_waiters s)" using refs_of_exists by blast
      then show ?thesis using d(6) [of k' i key] assms(2) \<open>k = key\<close> True by auto
    qed (use d(5) [OF k] in \<open>auto simp: r\<close>)
  next
    fix k n assume a: "(k, n) \<in> set (gs_tasks ?s) \<union> set (gs_waiters ?s)" "\<not> en_timedOut (sg_heap (gs_guard ?s) n)"
    then have "map_of (sg_inFlight ?g) k = Some n" using d(9) [of k n] by (auto simp: r h split: if_splits)
    moreover have "\<not> (n = i \<and> refs_of i (gs_waiters s) = 0)" using a refs_of_pos [of k n] by (auto simp: r)
    ultimately show "map_of (sg_inFlight (gs_guard ?s)) k = Some n" by (auto simp: m)
  qed
  moreover have "owner_ok ?s" using d(4) by (rule owner_okI) (auto simp: r)
  ultimately show ?thesis by (simp add: guard_ok_def)
qed

lemma guard_ok_release_timed_out:
  assumes "guard_ok s"
  shows "guard_ok (s\<lparr>gs_guard := releaseTimedOut key (gs_guard s)\<rparr>)" (is "guard_ok ?s")
proof (cases "map_of (sg_inFlight (gs_guard s)) key")
  case None
  then show ?thesis using assms by (simp add: releaseTimedOut_def)
next
  case (Some i)
  note d = guard_okD [OF assms]
  let ?g = "gs_guard s"
  have nt: "\<not> en_timedOut (sg_heap ?g i)" using d(3) Some unfolding live_ok_def by blast
  have g: "releaseTimedOut key ?g = ?g\<lparr>sg_heap := (sg_heap ?g)(i := (sg_heap ?g i)\<lparr>en_timedOut := True\<rparr>),
               sg_inFlight := AList.delete key (sg_inFlight ?g), sg_timeouts := sg_timeouts ?g @ [key]\<rparr>"
    using Some nt by (simp add: releaseTimedOut_def)
  have inj: "k = key" if "map_of (sg_inFlight ?g) k = Some i" for k
    using d(6) [OF d(5) [OF that] d(5) [OF Some]] .
  have "tasks_ok ?s" using d(1) unfolding tasks_ok_def by (auto simp: g)
  moreover have "refs_ok ?s" using d(2) unfolding refs_ok_def by (simp add: g)
  moreover have "live_ok ?s"
  proof (rule live_okI)
    fix k n assume "map_of (sg_inFlight (gs_guard ?s)) k = Some n"
    then show "(k, n) \<in> set (gs_tasks ?s) \<union> set (gs_waiters ?s)" "\<not> en_timedOut (sg_heap (gs_guard ?s) n)"
      using d(5,10) [of k n] inj by (auto simp: g jsmap_simps split: if_splits)
  next
    fix k n assume "(k, n) \<in> set (gs_tasks ?s) \<union> set (gs_waiters ?s)" "\<not> en_timedOut (sg_heap (gs_guard ?s) n)"
    then show "map_of (sg_inFlight (gs_guard ?s)) k = Some n"
      using d(9) [of k n] Some by (auto simp: g jsmap_simps split: if_splits)
  qed (simp add: g d(11) jsmap_ok_delete)
  moreover have "owner_ok ?s" using d(4) by (simp add: owner_ok_def)
  ultimately show ?thesis by (simp add: guard_ok_def)
qed

lemma guard_ok_return:
  assumes "guard_ok s" "(key, i) \<in> set (gs_waiters s)"
  shows "guard_ok (s\<lparr>gs_guard := releaseEntry key i (gs_guard s), gs_waiters := remove1 (key, i) (gs_waiters s)\<rparr>)" (is "guard_ok ?s")
proof -
  note d = guard_okD [OF assms(1)]
  let ?g = "gs_guard s" let ?w = "remove1 (key, i) (gs_waiters s)"
  note r = refs_of_remove1 [OF assms(2)]
  have own: "(key, i) \<in> set (gs_tasks s) \<union> set (gs_waiters s)" using assms(2) by simp
  have i: "i < sg_next ?g" using d(7) [OF own] .
  have sub: "(k, j) \<in> set (gs_waiters s)" if "(k, j) \<in> set ?w" for k j
    using that by (metis notin_set_remove1)
  have sup: "(k, j) \<in> set ?w" if "(k, j) \<in> set (gs_waiters s)" "j \<noteq> i" for k j
    using that by (simp add: in_set_remove1)
  have h: "sg_heap (releaseEntry key i ?g) = (sg_heap ?g)(i := (sg_heap ?g i)\<lparr>en_references := refs_of i (gs_waiters s) - 1\<rparr>)"
    and f: "sg_next (releaseEntry key i ?g) = sg_next ?g" "sg_maxInFlight (releaseEntry key i ?g) = sg_maxInFlight ?g"
      "sg_activeTasks (releaseEntry key i ?g) = sg_activeTasks ?g"
    using d(8) [OF i] by (simp_all add: releaseEntry_def Let_def)
  have m: "map_of (sg_inFlight (releaseEntry key i ?g)) k =
      (if k = key \<and> map_of (sg_inFlight ?g) key = Some i \<and> refs_of i ?w = 0 \<and> en_settled (sg_heap ?g i) then None
       else map_of (sg_inFlight ?g) k)" for k
    using d(8) [OF i] by (simp add: releaseEntry_def Let_def jsmap_simps r)
  have j: "jsmap_ok (sg_inFlight (releaseEntry key i ?g))"
    using d(3) by (simp add: releaseEntry_def Let_def live_ok_def jsmap_ok_delete)
  have task: "(\<exists>k. (k, i) \<in> set (gs_tasks s)) \<longleftrightarrow> \<not> en_settled (sg_heap ?g i)"
    using d(1) i unfolding tasks_ok_def by blast
  have "tasks_ok ?s" using d(1) unfolding tasks_ok_def by (auto simp: h f)
  moreover have "refs_ok ?s" using d(2) r unfolding refs_ok_def by (auto simp: h f)
  moreover have "live_ok ?s"
  proof (rule live_okI)
    show "jsmap_ok (sg_inFlight (gs_guard ?s))" using j by simp
  next
    fix k n assume mk: "map_of (sg_inFlight (gs_guard ?s)) k = Some n"
    then have k: "map_of (sg_inFlight ?g) k = Some n" by (simp add: m split: if_splits)
    show "\<not> en_timedOut (sg_heap (gs_guard ?s) n)" using d(10) [OF k] by (auto simp: h)
    show "(k, n) \<in> set (gs_tasks ?s) \<union> set (gs_waiters ?s)"
    proof (cases "n = i")
      case True
      then have key: "k = key" using d(6) [OF d(5) [OF k]] own by blast
      then have "0 < refs_of i ?w \<or> (\<exists>k. (k, i) \<in> set (gs_tasks s))"
        using mk True k task by (auto simp: m split: if_splits)
      then obtain k' where k': "(k', i) \<in> set (gs_tasks s) \<union> set ?w" using refs_of_exists by blast
      then have "k' = key" using d(6) [OF _ own, of k'] sub by blast
      then show ?thesis using k' key True by simp
    qed (use d(5) [OF k] sup in auto)
  next
    fix k n assume a: "(k, n) \<in> set (gs_tasks ?s) \<union> set (gs_waiters ?s)" "\<not> en_timedOut (sg_heap (gs_guard ?s) n)"
    then have "map_of (sg_inFlight ?g) k = Some n"
      using d(9) [of k n] sub by (auto simp: h split: if_splits)
    moreover have "\<not> (n = i \<and> refs_of i ?w = 0 \<and> en_settled (sg_heap ?g i))"
      using a task refs_of_pos [of k i ?w] by auto
    ultimately show "map_of (sg_inFlight (gs_guard ?s)) k = Some n" by (auto simp: m)
  qed
  moreover have "owner_ok ?s" using d(4) by (rule owner_okI) (use sub in auto)
  ultimately show ?thesis by (simp add: guard_ok_def)
qed

lemma guard_ok_step: "sg_step s s' \<Longrightarrow> guard_ok s \<Longrightarrow> guard_ok s'"
proof (induction rule: sg_step.induct)
  case (refuse key s e g)
  then have "g = gs_guard s" by (auto simp: sg_execute_def Let_def split: option.splits if_splits)
  then show ?case using refuse by simp
next
  case (time_out key i s)
  then show ?case using guard_ok_release_timed_out [of s key] by (simp add: timeout_fires_def)
qed (blast intro: guard_ok_join guard_ok_begin guard_ok_settle guard_ok_release_timed_out guard_ok_return)+

definition guard_init :: "nat option \<Rightarrow> real option \<Rightarrow> guard_system" where
  "guard_init maxInFlight timeout = \<lparr>gs_guard = new_guard maxInFlight timeout, gs_tasks = [], gs_waiters = []\<rparr>"

lemma guard_ok_init: "guard_ok (guard_init n t)"
  by (simp add: guard_init_def guard_ok_def tasks_ok_def refs_ok_def live_ok_def owner_ok_def new_guard_def)

lemma guard_ok_reach: "sg_step\<^sup>*\<^sup>* (guard_init n t) s \<Longrightarrow> guard_ok s"
  by (induction rule: rtranclp_induct) (auto intro: guard_ok_step guard_ok_init)

text \<open>
  C17: single flight, bounded and leak-free. In every reachable state at most \<open>maxInFlight\<close> tasks are
  unsettled; two unsettled tasks of one key are the same task unless one of them has timed out; and
  the in-flight table holds only entries that are running or awaited, so it is empty once every task
  has settled and every call has returned.
\<close>

theorem stampede_single_flight:
  assumes "sg_step\<^sup>*\<^sup>* (guard_init n t) s"
  shows "length (gs_tasks s) \<le> sg_maxInFlight (gs_guard s) \<and>
     (\<forall>k i j. (k, i) \<in> set (gs_tasks s) \<and> (k, j) \<in> set (gs_tasks s) \<and>
        \<not> en_timedOut (sg_heap (gs_guard s) i) \<and> \<not> en_timedOut (sg_heap (gs_guard s) j) \<longrightarrow> i = j) \<and>
     (gs_tasks s = [] \<and> gs_waiters s = [] \<longrightarrow> sg_inFlight (gs_guard s) = [] \<and> sg_activeTasks (gs_guard s) = 0)"
proof (intro conjI allI impI)
  note d = guard_okD [OF guard_ok_reach [OF assms]]
  show "length (gs_tasks s) \<le> sg_maxInFlight (gs_guard s)" using d(1) by (simp add: tasks_ok_def)
  show "i = j" if "(k, i) \<in> set (gs_tasks s) \<and> (k, j) \<in> set (gs_tasks s) \<and>
        \<not> en_timedOut (sg_heap (gs_guard s) i) \<and> \<not> en_timedOut (sg_heap (gs_guard s) j)" for k i j
  proof -
    have "map_of (sg_inFlight (gs_guard s)) k = Some i" "map_of (sg_inFlight (gs_guard s)) k = Some j"
      using d(3) that unfolding live_ok_def by blast+
    then show ?thesis by simp
  qed
  assume e: "gs_tasks s = [] \<and> gs_waiters s = []"
  then have "map_of (sg_inFlight (gs_guard s)) k = None" for k
    using d(5) [of k] by (cases "map_of (sg_inFlight (gs_guard s)) k") auto
  then show "sg_inFlight (gs_guard s) = []"
    by (metis map_of_eq_empty_iff ext)
  show "sg_activeTasks (gs_guard s) = 0" using d(1) e by (simp add: tasks_ok_def)
qed

text \<open>
  Callers share one task. In every reachable state, a call for a key that has a running or
  awaited task that has not timed out waits for that task and starts none, even when the guard is
  full.
\<close>

theorem stampede_deduplicates:
  assumes "sg_step\<^sup>*\<^sup>* (guard_init n t) s" and "(k, i) \<in> set (gs_tasks s) \<union> set (gs_waiters s)"
    and "\<not> en_timedOut (sg_heap (gs_guard s) i)"
  shows "\<exists>g. sg_execute k (gs_guard s) = (Inr i, g) \<and> sg_activeTasks g = sg_activeTasks (gs_guard s) \<and>
     sg_step s (s\<lparr>gs_guard := g, gs_waiters := (k, i) # gs_waiters s\<rparr>)"
proof -
  have m: "map_of (sg_inFlight (gs_guard s)) k = Some i"
    using guard_okD(3) [OF guard_ok_reach [OF assms(1)]] assms(2,3) unfolding live_ok_def by blast
  then obtain g where g: "sg_execute k (gs_guard s) = (Inr i, g)" "sg_activeTasks g = sg_activeTasks (gs_guard s)"
    by (simp add: sg_execute_def)
  show ?thesis using g sg_step.join [OF m g(1)] by blast
qed

subsection \<open>A reachable state\<close>

definition one_task :: guard_system where
  "one_task = (let (r, g) = sg_execute ''k'' (new_guard (Some 1) None)
     in \<lparr>gs_guard = g, gs_tasks = [(''k'', 0)], gs_waiters = [(''k'', 0)]\<rparr>)"

lemma one_task_reach: "sg_step\<^sup>*\<^sup>* (guard_init (Some 1) None) one_task"
proof -
  obtain g where g: "sg_execute ''k'' (new_guard (Some 1) None) = (Inr 0, g)"
    by (simp add: sg_execute_def new_guard_def)
  have "sg_step (guard_init (Some 1) None) (guard_init (Some 1) None\<lparr>gs_guard := g,
      gs_tasks := (''k'', 0) # gs_tasks (guard_init (Some 1) None),
      gs_waiters := (''k'', 0) # gs_waiters (guard_init (Some 1) None)\<rparr>)"
    using g by (intro sg_step.begin_task) (simp_all add: guard_init_def new_guard_def)
  then show ?thesis using g by (simp add: one_task_def guard_init_def r_into_rtranclp)
qed

lemma one_task_fields [simp]:
  "gs_tasks one_task = [(''k'', 0)]" "gs_waiters one_task = [(''k'', 0)]"
  "\<not> en_timedOut (sg_heap (gs_guard one_task) 0)" "sg_maxInFlight (gs_guard one_task) = 1"
  by (simp_all add: one_task_def sg_execute_def new_guard_def)

theorem stampede_single_flight_witness:
  "gs_tasks one_task = [(''k'', 0)] \<and> length (gs_tasks one_task) \<le> sg_maxInFlight (gs_guard one_task)"
  using stampede_single_flight [OF one_task_reach] by simp

theorem stampede_deduplicates_witness:
  "\<exists>g. sg_execute ''k'' (gs_guard one_task) = (Inr 0, g)"
  using stampede_deduplicates [OF one_task_reach, of "''k''" 0] by auto

end
