(* ===== verification/PatternMatcher.thy ===== *)
theory PatternMatcher
  imports Prelude
begin

text \<open>
  Glob matching (\<open>src/src/invalidation/PatternMatcher.ts\<close>): the two-pointer loop with its indices,
  as a partial function (a loop that did not end would be \<open>None\<close>), and its equivalence with the
  meaning of a glob: \<open>*\<close> matches any sequence of characters and \<open>?\<close> any single one.
\<close>

subsection \<open>The matcher\<close>

definition char_at :: "string \<Rightarrow> nat \<Rightarrow> char option" where
  \<comment> \<open>\<open>s[i]\<close>, \<open>undefined\<close> past the end\<close>
  "char_at s i = (if i < length s then Some (s ! i) else None)"

partial_function (option) match_loop :: "string \<Rightarrow> string \<Rightarrow> nat \<Rightarrow> nat \<Rightarrow> nat option \<Rightarrow> nat \<Rightarrow> bool option" where
  "match_loop pat val patternIndex valueIndex starIndex backtrackValueIndex =
    (if valueIndex < length val then
       (let patternChar = char_at pat patternIndex; valueChar = char_at val valueIndex in
        if patternChar = Some CHR ''*'' \<and> patternIndex < length pat
        then match_loop pat val (patternIndex + 1) valueIndex (Some patternIndex) valueIndex
        else if patternChar = Some CHR ''?'' \<or> patternChar = valueChar
        then match_loop pat val (patternIndex + 1) (valueIndex + 1) starIndex backtrackValueIndex
        else case starIndex of
          Some s \<Rightarrow> match_loop pat val (s + 1) (backtrackValueIndex + 1) (Some s) (backtrackValueIndex + 1)
        | None \<Rightarrow> Some False)
     else Some (patternIndex + length (takeWhile (\<lambda>c. c = CHR ''*'') (drop patternIndex pat)) = length pat))"

definition matchLinear :: "string \<Rightarrow> string \<Rightarrow> bool option" where
  "matchLinear pattern val = match_loop pattern val 0 0 None 0"

definition matches :: "string \<Rightarrow> string \<Rightarrow> bool" where
  \<comment> \<open>the value returned; the loop always returns (theorem below)\<close>
  "matches pattern val = (matchLinear pattern val = Some True)"

subsection \<open>The meaning of a glob\<close>

fun glob :: "string \<Rightarrow> string \<Rightarrow> bool" where
  "glob [] v = (v = [])"
| "glob (c # p) [] = (c = CHR ''*'' \<and> glob p [])"
| "glob (c # p) (x # v) =
    (if c = CHR ''*'' then glob p (x # v) \<or> glob (c # p) v else (c = CHR ''?'' \<or> c = x) \<and> glob p v)"

lemma ex_le_Suc: "(\<exists>n \<le> Suc m. P n) \<longleftrightarrow> P 0 \<or> (\<exists>n \<le> m. P (Suc n))"
proof
  assume "\<exists>n \<le> Suc m. P n"
  then obtain n where "n \<le> Suc m" "P n" by blast
  then show "P 0 \<or> (\<exists>n \<le> m. P (Suc n))" by (cases n) auto
qed auto

lemma glob_star: "glob (CHR ''*'' # p) v \<longleftrightarrow> (\<exists>n \<le> length v. glob p (drop n v))"
proof (induction v)
  case (Cons x v)
  then show ?case by (simp add: ex_le_Suc)
qed simp

lemma glob_star_more:
  "glob (CHR ''*'' # p) (drop j v) \<Longrightarrow> i \<le> j \<Longrightarrow> glob (CHR ''*'' # p) (drop i v)"
proof -
  assume "glob (CHR ''*'' # p) (drop j v)" "i \<le> j"
  then obtain n where "n \<le> length (drop j v)" "glob p (drop n (drop j v))" by (auto simp: glob_star)
  then have "glob p (drop (n + (j - i)) (drop i v))" "n + (j - i) \<le> length (drop i v) \<or> length v < j"
    using \<open>i \<le> j\<close> by (auto simp: add.commute)
  then show ?thesis
    by (cases "length v < j") (auto simp: glob_star intro: exI [of _ "length v - i"])
qed

lemma glob_literal:
  "CHR ''*'' \<notin> set m \<Longrightarrow> glob (m @ r) w \<Longrightarrow> length m \<le> length w \<and> glob r (drop (length m) w)"
proof (induction m arbitrary: w)
  case (Cons c m)
  then show ?case by (cases w) auto
qed simp

lemma glob_all_stars: "glob p [] \<longleftrightarrow> length (takeWhile (\<lambda>c. c = CHR ''*'') p) = length p"
  by (induction p) auto


subsection \<open>The loop returns, and returns the meaning\<close>

definition star_ok :: "string \<Rightarrow> string \<Rightarrow> nat \<Rightarrow> nat \<Rightarrow> nat option \<Rightarrow> nat \<Rightarrow> bool" where
  \<comment> \<open>since the last star the pattern read no star and one value character per pattern character\<close>
  "star_ok pat val pp vv st bt \<longleftrightarrow> pp \<le> length pat \<and> vv \<le> length val \<and>
     (case st of None \<Rightarrow> True
      | Some s \<Rightarrow> pp = s + 1 + (vv - bt) \<and> bt \<le> vv \<and> CHR ''*'' \<notin> set (take (vv - bt) (drop (s + 1) pat)))"

definition loop_value :: "string \<Rightarrow> string \<Rightarrow> nat \<Rightarrow> nat \<Rightarrow> nat option \<Rightarrow> nat \<Rightarrow> bool" where
  "loop_value pat val pp vv st bt \<longleftrightarrow> glob (drop pp pat) (drop vv val) \<or>
     (\<exists>s j. st = Some s \<and> bt < j \<and> j \<le> length val \<and> glob (drop (s + 1) pat) (drop j val))"

lemma retry_split:
  \<comment> \<open>a later restart of the last star consumes the literal segment further right\<close>
  assumes "star_ok pat val pp vv (Some s) bt" "bt < j" "j \<le> length val" "glob (drop (s + 1) pat) (drop j val)"
  shows "\<exists>i > vv. i \<le> length val \<and> glob (drop pp pat) (drop i val)"
proof -
  let ?m = "take (vv - bt) (drop (s + 1) pat)"
  have ok: "pp = s + 1 + (vv - bt)" "bt \<le> vv" "pp \<le> length pat" "CHR ''*'' \<notin> set ?m"
    using assms(1) by (auto simp: star_ok_def)
  have len: "length ?m = vv - bt" using ok by simp
  have "?m @ drop pp pat = drop (s + 1) pat"
    using ok(1) by (metis append_take_drop_id drop_drop add.commute)
  then have "glob (?m @ drop pp pat) (drop j val)" using assms(4) by simp
  then have g: "vv - bt \<le> length (drop j val)" "glob (drop pp pat) (drop (vv - bt) (drop j val))"
    using glob_literal [OF ok(4)] len by metis+
  have "vv < j + (vv - bt)" "j + (vv - bt) \<le> length val" using g(1) ok(2) assms(2,3) by auto
  then show ?thesis using g(2) by (auto simp: add.commute intro!: exI [of _ "j + (vv - bt)"])
qed

lemma drop_at: "i < length xs \<Longrightarrow> drop i xs = xs ! i # drop (Suc i) xs"
  by (simp add: Cons_nth_drop_Suc)

lemma loop_value_star:
  assumes "star_ok pat val pp vv st bt" "vv < length val" "pp < length pat" "pat ! pp = CHR ''*''"
  shows "loop_value pat val (Suc pp) vv (Some pp) vv = loop_value pat val pp vv st bt"
    and "star_ok pat val (Suc pp) vv (Some pp) vv"
proof -
  have g: "glob (drop pp pat) w \<longleftrightarrow> glob (CHR ''*'' # drop (Suc pp) pat) w" for w
    using assms(3,4) by (simp add: drop_at)
  have new: "loop_value pat val (Suc pp) vv (Some pp) vv \<longleftrightarrow> glob (drop pp pat) (drop vv val)"
  proof -
    have "(\<exists>n \<le> length (drop vv val). glob (drop (Suc pp) pat) (drop n (drop vv val))) \<longleftrightarrow>
        (\<exists>j. vv \<le> j \<and> j \<le> length val \<and> glob (drop (Suc pp) pat) (drop j val))"
    proof
      assume "\<exists>n \<le> length (drop vv val). glob (drop (Suc pp) pat) (drop n (drop vv val))"
      then obtain n where "n \<le> length val - vv" "glob (drop (Suc pp) pat) (drop (n + vv) val)" by (auto simp: add.commute)
      then show "\<exists>j. vv \<le> j \<and> j \<le> length val \<and> glob (drop (Suc pp) pat) (drop j val)"
        using assms(2) by (intro exI [of _ "n + vv"]) auto
    next
      assume "\<exists>j. vv \<le> j \<and> j \<le> length val \<and> glob (drop (Suc pp) pat) (drop j val)"
      then obtain j where "vv \<le> j" "j \<le> length val" "glob (drop (Suc pp) pat) (drop j val)" by blast
      then show "\<exists>n \<le> length (drop vv val). glob (drop (Suc pp) pat) (drop n (drop vv val))"
        by (intro exI [of _ "j - vv"]) auto
    qed
    then show ?thesis
      unfolding g glob_star loop_value_def using assms(2) by (auto simp: le_less intro: exI [of _ vv])
  qed
  have "glob (drop pp pat) (drop vv val)" if a: "st = Some s" "bt < j" "j \<le> length val" "glob (drop (s + 1) pat) (drop j val)" for s j
  proof -
    obtain i where "i > vv" "glob (drop pp pat) (drop i val)"
      using retry_split [of pat val pp vv s bt j] assms(1) a by blast
    then show ?thesis unfolding g using glob_star_more [of _ i val vv] by simp
  qed
  then show "loop_value pat val (Suc pp) vv (Some pp) vv = loop_value pat val pp vv st bt"
    unfolding new unfolding loop_value_def by blast
  show "star_ok pat val (Suc pp) vv (Some pp) vv" using assms(1,3) by (simp add: star_ok_def)
qed

lemma loop_value_match:
  assumes "star_ok pat val pp vv st bt" "vv < length val" "pp < length pat" "pat ! pp \<noteq> CHR ''*''"
    and "pat ! pp = CHR ''?'' \<or> pat ! pp = val ! vv"
  shows "loop_value pat val (Suc pp) (Suc vv) st bt = loop_value pat val pp vv st bt"
    and "star_ok pat val (Suc pp) (Suc vv) st bt"
proof -
  have "glob (drop pp pat) (drop vv val) = glob (drop (Suc pp) pat) (drop (Suc vv) val)"
    using assms(2-5) by (simp add: drop_at)
  then show "loop_value pat val (Suc pp) (Suc vv) st bt = loop_value pat val pp vv st bt"
    by (simp add: loop_value_def)
  show "star_ok pat val (Suc pp) (Suc vv) st bt"
    using assms(1-4) by (auto simp: star_ok_def Suc_diff_le take_Suc_conv_app_nth split: option.splits)
qed

lemma loop_value_mismatch:
  assumes "vv < length val" "pp < length pat \<longrightarrow> pat ! pp \<noteq> CHR ''*'' \<and> pat ! pp \<noteq> CHR ''?'' \<and> pat ! pp \<noteq> val ! vv"
    and "pp \<le> length pat"
  shows "loop_value pat val pp vv st bt \<longleftrightarrow>
     (\<exists>s j. st = Some s \<and> bt < j \<and> j \<le> length val \<and> glob (drop (s + 1) pat) (drop j val))"
  using assms by (cases "pp < length pat") (auto simp: loop_value_def drop_at)

lemma loop_value_retry:
  assumes "star_ok pat val pp vv (Some s) bt" "vv < length val"
  shows "loop_value pat val (Suc s) (Suc bt) (Some s) (Suc bt) \<longleftrightarrow>
     (\<exists>j. bt < j \<and> j \<le> length val \<and> glob (drop (s + 1) pat) (drop j val))"
    and "star_ok pat val (Suc s) (Suc bt) (Some s) (Suc bt)"
proof -
  have "bt < length val" using assms by (simp add: star_ok_def)
  then show "loop_value pat val (Suc s) (Suc bt) (Some s) (Suc bt) \<longleftrightarrow>
     (\<exists>j. bt < j \<and> j \<le> length val \<and> glob (drop (s + 1) pat) (drop j val))"
    unfolding loop_value_def by (auto simp: Suc_le_eq dest: Suc_lessD) (metis Suc_lessI)
  show "star_ok pat val (Suc s) (Suc bt) (Some s) (Suc bt)" using assms by (auto simp: star_ok_def)
qed

lemma loop_value_end:
  assumes "star_ok pat val pp vv st bt" "\<not> vv < length val"
  shows "loop_value pat val pp vv st bt \<longleftrightarrow> pp + length (takeWhile (\<lambda>c. c = CHR ''*'') (drop pp pat)) = length pat"
proof -
  have "\<not> (\<exists>s j. st = Some s \<and> bt < j \<and> j \<le> length val \<and> glob (drop (s + 1) pat) (drop j val))"
    using retry_split [of pat val pp vv _ bt] assms by fastforce
  moreover have "vv = length val" "pp \<le> length pat" using assms by (auto simp: star_ok_def)
  ultimately show ?thesis by (auto simp: loop_value_def glob_all_stars)
qed

lemma match_loop_correct:
  assumes "star_ok pat val pp vv st bt"
  shows "match_loop pat val pp vv st bt = Some (loop_value pat val pp vv st bt)"
  using assms
proof (induction "(length pat - (case st of None \<Rightarrow> 0 | Some s \<Rightarrow> Suc s),
      length val - (case st of None \<Rightarrow> 0 | Some s \<Rightarrow> bt), length val - vv)"
    arbitrary: pp vv st bt rule: wf_induct_rule [OF wf_lex_prod [OF wf_less wf_lex_prod [OF wf_less wf_less]]])
  case (1 vv st bt pp)
  note IH = 1(1)
  show ?case
  proof (cases "vv < length val")
    case False
    then show ?thesis using loop_value_end [OF 1(2) False] by (subst match_loop.simps) simp
  next
    case True
    have le: "pp \<le> length pat" using 1(2) by (simp add: star_ok_def)
    consider (star) "pp < length pat" "pat ! pp = CHR ''*''"
      | (match) "pp < length pat" "pat ! pp \<noteq> CHR ''*''" "pat ! pp = CHR ''?'' \<or> pat ! pp = val ! vv"
      | (mis) "pp < length pat \<longrightarrow> pat ! pp \<noteq> CHR ''*'' \<and> pat ! pp \<noteq> CHR ''?'' \<and> pat ! pp \<noteq> val ! vv" by blast
    then show ?thesis
    proof cases
      case star
      note l = loop_value_star [OF 1(2) True star]
      have "match_loop pat val (Suc pp) vv (Some pp) vv = Some (loop_value pat val (Suc pp) vv (Some pp) vv)"
        using 1(2) star by (intro IH l(2)) (auto simp: star_ok_def split: option.splits)
      then show ?thesis using True star l(1) by (subst match_loop.simps) (simp add: char_at_def)
    next
      case match
      note l = loop_value_match [OF 1(2) True match]
      have "match_loop pat val (Suc pp) (Suc vv) st bt = Some (loop_value pat val (Suc pp) (Suc vv) st bt)"
        using True by (intro IH l(2)) auto
      then show ?thesis using True match l(1) by (subst match_loop.simps) (auto simp: char_at_def)
    next
      case mis
      note l = loop_value_mismatch [OF True mis le, of st bt]
      show ?thesis
      proof (cases st)
        case None
        then show ?thesis using True mis l by (subst match_loop.simps) (auto simp: char_at_def)
      next
        case (Some s)
        note r = loop_value_retry [OF 1(2) [unfolded Some] True]
        have "bt < length val" using 1(2) Some True by (simp add: star_ok_def)
        then have "match_loop pat val (Suc s) (Suc bt) (Some s) (Suc bt) = Some (loop_value pat val (Suc s) (Suc bt) (Some s) (Suc bt))"
          using Some by (intro IH r(2)) auto
        then show ?thesis using True mis l r(1) Some by (subst match_loop.simps) (auto simp: char_at_def)
      qed
    qed
  qed
qed

text \<open>
  C20: the matcher decides the glob. For every pattern and value the two-pointer loop returns, and it
  returns true exactly when the value matches the pattern read as a glob.
\<close>

theorem matcher_decides_glob: "matchLinear pattern val = Some (glob pattern val) \<and> matches pattern val = glob pattern val"
proof -
  have "star_ok pattern val 0 0 None 0" by (simp add: star_ok_def)
  then show ?thesis
    using match_loop_correct [of pattern val 0 0 None 0] by (simp add: matchLinear_def matches_def loop_value_def)
qed

lemma matches_glob: "matches pattern val = glob pattern val"
proof -
  have "star_ok pattern val 0 0 None 0" by (simp add: star_ok_def)
  then show ?thesis
    using match_loop_correct [of pattern val 0 0 None 0] by (simp add: matchLinear_def matches_def loop_value_def)
qed

end
