(* ===== verification/TagIndex.thy ===== *)
theory TagIndex
  imports PatternMatcher
begin

text \<open>
  The in-process tag index (\<open>src/src/invalidation/TagIndex.ts\<close>): known keys with their last touch,
  the two tag maps, and a trie of the known keys that answers pre and pattern queries. A trie
  node is a value (the \<open>id\<close> of the code's node is never read and is left out); \<open>Date.now()\<close> is the
  parameter \<open>now\<close>. A visitor is a state transformer that may throw.

  Lemmas: the trie holds exactly the known keys and has no dead branch; the two tag maps are
  inverse to each other; the index refines an abstract relation between keys and tags, through the
  locale \<open>tag_directory\<close> that states the contract the invalidation code relies on.
\<close>

subsection \<open>The trie\<close>

datatype trie = TNode (terminal: bool) (children: "(char \<times> trie) list")

definition createTrieNode :: trie where
  "createTrieNode = TNode False []"

fun trie_insert :: "string \<Rightarrow> trie \<Rightarrow> trie" where
  \<comment> \<open>the walk of \<open>insertKnownKey\<close>: missing children are created, the last node becomes terminal\<close>
  "trie_insert [] (TNode t cs) = TNode True cs"
| "trie_insert (c # k) (TNode t cs) =
    TNode t (AList.update c (trie_insert k (case map_of cs c of None \<Rightarrow> createTrieNode | Some ch \<Rightarrow> ch)) cs)"

fun findNode :: "string \<Rightarrow> trie \<Rightarrow> trie option" where
  "findNode [] n = Some n"
| "findNode (c # k) (TNode t cs) = (case map_of cs c of None \<Rightarrow> None | Some ch \<Rightarrow> findNode k ch)"

fun trie_prune :: "string \<Rightarrow> trie \<Rightarrow> trie \<times> bool" where
  \<comment> \<open>the last node loses its mark; then, from the bottom, childless unmarked nodes are dropped until
      the first one that stays (the flag says the upward loop has not met its \<open>break\<close>)\<close>
  "trie_prune [] (TNode t cs) = (TNode False cs, True)"
| "trie_prune (c # k) (TNode t cs) =
    (case map_of cs c of
       None \<Rightarrow> (TNode t cs, False)
     | Some ch \<Rightarrow>
         (let (ch', going) = trie_prune k ch in
          if going \<and> \<not> (terminal ch' \<or> children ch' \<noteq> [])
          then (TNode t (AList.delete c cs), True)
          else (TNode t (AList.update c ch' cs), False)))"

definition trie_remove :: "string \<Rightarrow> trie \<Rightarrow> trie" where
  \<comment> \<open>a key without a path leaves the trie alone\<close>
  "trie_remove key n = (if findNode key n = None then n else fst (trie_prune key n))"

text \<open>The explicit stack of \<open>collectFromNode\<close> and \<open>visitFromNode\<close>; its top is the list's head.\<close>

definition push_children :: "string \<Rightarrow> (char \<times> trie) list \<Rightarrow> (trie \<times> string) list \<Rightarrow> (trie \<times> string) list" where
  "push_children pre cs stack = fold (\<lambda>(character, child) st. (child, pre @ [character]) # st) (rev cs) stack"

fun trie_nodes :: "trie \<Rightarrow> nat" where
  "trie_nodes (TNode t cs) = Suc (sum_list (map (\<lambda>p. trie_nodes (snd p)) cs))"

lemma fold_push: "fold (\<lambda>(c, ch) st. (ch, p @ [c]) # st) xs st = map (\<lambda>(c, ch). (ch, p @ [c])) (rev xs) @ st"
  by (induction xs arbitrary: st) auto

lemma push_children_append: "push_children p cs st = map (\<lambda>(c, ch). (ch, p @ [c])) cs @ st"
  unfolding push_children_def fold_push by simp

lemma stack_nodes_push:
  "sum_list (map (\<lambda>p. trie_nodes (fst p)) (push_children p cs st)) =
     sum_list (map (\<lambda>p. trie_nodes (snd p)) cs) + sum_list (map (\<lambda>p. trie_nodes (fst p)) st)"
  by (simp add: push_children_append comp_def case_prod_unfold)

function collectFromNode :: "(trie \<times> string) list \<Rightarrow> string list \<Rightarrow> string list" where
  "collectFromNode [] matched = matched"
| "collectFromNode ((TNode t cs, pre) # stack) matched =
    collectFromNode (push_children pre cs stack) (if t then matched @ [pre] else matched)"
  by pat_completeness auto
termination
  by (relation "measure (\<lambda>(stack, _). sum_list (map (\<lambda>p. trie_nodes (fst p)) stack))") (auto simp: stack_nodes_push)

function visitFromNode :: "'w visitor \<Rightarrow> (trie \<times> string) list \<Rightarrow> 'w \<Rightarrow> unit result \<times> 'w" where
  "visitFromNode visitor [] w = (Inr (), w)"
| "visitFromNode visitor ((TNode t cs, pre) # stack) w =
    (if t then
       (case visitor pre w of
          (Inl e, w') \<Rightarrow> (Inl e, w')
        | (Inr _, w') \<Rightarrow> visitFromNode visitor (push_children pre cs stack) w')
     else visitFromNode visitor (push_children pre cs stack) w)"
  by pat_completeness auto
termination
  by (relation "measure (\<lambda>(_, stack, _). sum_list (map (\<lambda>p. trie_nodes (fst p)) stack))") (auto simp: stack_nodes_push)

subsection \<open>The index\<close>

record tag_index =
  tagToKeys :: "(string, string list) jsmap"
  keyToTags :: "(string, string list) jsmap"
  knownKeys :: "(string, real) jsmap"
  maxKnownKeys :: nat
  touchRefreshIntervalMs :: real
  root :: trie

definition new_tag_index :: "nat option \<Rightarrow> real option \<Rightarrow> tag_index" where
  "new_tag_index maxKeys refresh =
    \<lparr>tagToKeys = [], keyToTags = [], knownKeys = [], maxKnownKeys = nullish maxKeys 100000,
     touchRefreshIntervalMs = nullish refresh 1000, root = createTrieNode\<rparr>"

definition insertKnownKey :: "string \<Rightarrow> real \<Rightarrow> tag_index \<Rightarrow> bool \<times> tag_index" where
  "insertKnownKey key now ix =
    (case map_of (knownKeys ix) key of
       Some previousTouch \<Rightarrow>
         if now - previousTouch < touchRefreshIntervalMs ix then (False, ix)
         else (True, ix\<lparr>knownKeys := AList.update key now (AList.delete key (knownKeys ix))\<rparr>)
     | None \<Rightarrow> (True, ix\<lparr>knownKeys := AList.update key now (knownKeys ix), root := trie_insert key (root ix)\<rparr>))"

definition removeKnownKey :: "string \<Rightarrow> tag_index \<Rightarrow> tag_index" where
  "removeKnownKey key ix =
    (if map_of (knownKeys ix) key = None then ix
     else ix\<lparr>knownKeys := AList.delete key (knownKeys ix), root := trie_remove key (root ix)\<rparr>)"

fun remove_oldest_known :: "nat \<Rightarrow> tag_index \<Rightarrow> tag_index" where
  "remove_oldest_known 0 ix = ix"
| "remove_oldest_known (Suc n) ix =
    (case knownKeys ix of [] \<Rightarrow> ix | (oldestKey, _) # _ \<Rightarrow> remove_oldest_known n (removeKnownKey oldestKey ix))"

definition pruneKnownKeysIfNeeded :: "tag_index \<Rightarrow> tag_index" where
  "pruneKnownKeysIfNeeded ix =
    (if length (knownKeys ix) \<le> maxKnownKeys ix then ix
     else remove_oldest_known (tenth_up (maxKnownKeys ix)) ix)"

definition touch :: "string \<Rightarrow> real \<Rightarrow> tag_index \<Rightarrow> tag_index" where
  "touch key now ix =
    (let (changed, ix1) = insertKnownKey key now ix in if changed then pruneKnownKeysIfNeeded ix1 else ix1)"

definition drop_key_from_tag :: "string \<Rightarrow> string \<Rightarrow> (string, string list) jsmap \<Rightarrow> (string, string list) jsmap" where
  \<comment> \<open>\<open>tagToKeys.get(tag)?.delete(key)\<close>: the set stays, possibly empty\<close>
  "drop_key_from_tag key tag m = (case map_of m tag of None \<Rightarrow> m | Some keys \<Rightarrow> AList.update tag (js_remove key keys) m)"

definition add_key_to_tag :: "string \<Rightarrow> string \<Rightarrow> (string, string list) jsmap \<Rightarrow> (string, string list) jsmap" where
  "add_key_to_tag key tag m = AList.update tag (js_add key (nullish (map_of m tag) [])) m"

definition track :: "string \<Rightarrow> string list \<Rightarrow> real \<Rightarrow> tag_index \<Rightarrow> tag_index" where
  "track key tags now ix =
    (let ix1 = touch key now ix in
     if tags = [] then ix1
     else
       (let cleared = fold (drop_key_from_tag key) (nullish (map_of (keyToTags ix1) key) []) (tagToKeys ix1);
            tagSet = js_unique tags
        in ix1\<lparr>keyToTags := AList.update key tagSet (keyToTags ix1),
               tagToKeys := fold (add_key_to_tag key) tagSet cleared\<rparr>))"

definition purge_key_from_tag :: "string \<Rightarrow> string \<Rightarrow> (string, string list) jsmap \<Rightarrow> (string, string list) jsmap" where
  \<comment> \<open>the loop body of \<open>removeKey\<close>: an emptied set is dropped\<close>
  "purge_key_from_tag key tag m =
    (case map_of m tag of
       None \<Rightarrow> m
     | Some keys \<Rightarrow>
         if js_remove key keys = [] then AList.delete tag m else AList.update tag (js_remove key keys) m)"

definition removeKey :: "string \<Rightarrow> tag_index \<Rightarrow> tag_index" where
  "removeKey key ix =
    (let ix1 = removeKnownKey key ix in
     case map_of (keyToTags ix1) key of
       None \<Rightarrow> ix1
     | Some tags \<Rightarrow>
         ix1\<lparr>tagToKeys := fold (purge_key_from_tag key) tags (tagToKeys ix1),
             keyToTags := AList.delete key (keyToTags ix1)\<rparr>)"

definition index_clear :: "tag_index \<Rightarrow> tag_index" where
  "index_clear ix =
    ix\<lparr>tagToKeys := [], keyToTags := [], knownKeys := [], root := TNode False []\<rparr>"

definition keysForTag :: "string \<Rightarrow> tag_index \<Rightarrow> string list" where
  "keysForTag tag ix = nullish (map_of (tagToKeys ix) tag) []"

definition forEachKeyForTag :: "string \<Rightarrow> 'w visitor \<Rightarrow> tag_index \<Rightarrow> 'w \<Rightarrow> unit result \<times> 'w" where
  "forEachKeyForTag tag visitor ix w = visit_all visitor (nullish (map_of (tagToKeys ix) tag) []) w"

definition tagsForKey :: "string \<Rightarrow> tag_index \<Rightarrow> string list" where
  "tagsForKey key ix = nullish (map_of (keyToTags ix) key) []"

definition keysForPrefix :: "string \<Rightarrow> tag_index \<Rightarrow> string list" where
  "keysForPrefix pre ix =
    (case findNode pre (root ix) of None \<Rightarrow> [] | Some node \<Rightarrow> collectFromNode [(node, pre)] [])"

definition forEachKeyForPrefix :: "string \<Rightarrow> 'w visitor \<Rightarrow> tag_index \<Rightarrow> 'w \<Rightarrow> unit result \<times> 'w" where
  "forEachKeyForPrefix pre visitor ix w =
    (case findNode pre (root ix) of None \<Rightarrow> (Inr (), w) | Some node \<Rightarrow> visitFromNode visitor [(node, pre)] w)"

definition literalPrefix :: "string \<Rightarrow> string" where
  "literalPrefix pattern = takeWhile (\<lambda>c. c \<noteq> CHR ''*'' \<and> c \<noteq> CHR ''?'') pattern"

definition matchPattern :: "string \<Rightarrow> tag_index \<Rightarrow> string list" where
  "matchPattern pattern ix =
    (case findNode (literalPrefix pattern) (root ix) of
       None \<Rightarrow> []
     | Some node \<Rightarrow> filter (matches pattern) (collectFromNode [(node, literalPrefix pattern)] []))"

definition forEachKeyMatchingPattern :: "string \<Rightarrow> 'w visitor \<Rightarrow> tag_index \<Rightarrow> 'w \<Rightarrow> unit result \<times> 'w" where
  "forEachKeyMatchingPattern pattern visitor ix w = visit_all visitor (matchPattern pattern ix) w"


subsection \<open>What the trie holds\<close>

definition trie_mem :: "string \<Rightarrow> trie \<Rightarrow> bool" where
  "trie_mem k n = (case findNode k n of None \<Rightarrow> False | Some m \<Rightarrow> terminal m)"

definition live :: "trie \<Rightarrow> bool" where
  "live n \<longleftrightarrow> terminal n \<or> children n \<noteq> []"

fun trie_ok :: "trie \<Rightarrow> bool" where
  \<comment> \<open>one child per character, and no child without a key below it\<close>
  "trie_ok (TNode t cs) \<longleftrightarrow> jsmap_ok cs \<and> (\<forall>p \<in> set cs. trie_ok (snd p) \<and> live (snd p))"

lemma trie_mem_simps [simp]:
  "trie_mem [] n = terminal n"
  "trie_mem (c # k) (TNode t cs) = (case map_of cs c of None \<Rightarrow> False | Some ch \<Rightarrow> trie_mem k ch)"
  by (auto simp: trie_mem_def split: option.splits)

lemma live_simps [simp]: "live (TNode t cs) \<longleftrightarrow> t \<or> cs \<noteq> []"
  by (simp add: live_def)

lemma set_update_cases: "p \<in> set (AList.update k v m) \<Longrightarrow> p = (k, v) \<or> p \<in> set m"
  by (induction m) (auto split: if_splits)

lemma set_delete_subset: "p \<in> set (AList.delete k m) \<Longrightarrow> p \<in> set m"
  by (simp add: AList.delete_eq)

lemma update_not_Nil [simp]: "AList.update k v m \<noteq> []"
  by (cases m) auto

lemma trie_ok_child: "trie_ok (TNode t cs) \<Longrightarrow> map_of cs c = Some ch \<Longrightarrow> trie_ok ch \<and> live ch"
  by (auto dest!: map_of_SomeD)

lemma trie_ok_update:
  "trie_ok (TNode t cs) \<Longrightarrow> trie_ok ch \<Longrightarrow> live ch \<Longrightarrow> trie_ok (TNode t' (AList.update c ch cs))"
  by (auto simp: jsmap_ok_update dest!: set_update_cases)

lemma trie_ok_delete: "trie_ok (TNode t cs) \<Longrightarrow> trie_ok (TNode t' (AList.delete c cs))"
  by (auto simp: jsmap_ok_delete dest!: set_delete_subset)

lemma trie_ok_empty [simp]: "trie_ok createTrieNode" "trie_mem k createTrieNode = False"
  by (simp_all add: createTrieNode_def) (cases k, simp_all)

lemma trie_insert_ok: "trie_ok n \<Longrightarrow> trie_ok (trie_insert k n) \<and> live (trie_insert k n)"
proof (induction k n rule: trie_insert.induct)
  case (2 c k t cs)
  have "trie_ok (case map_of cs c of None \<Rightarrow> createTrieNode | Some ch \<Rightarrow> ch)"
    using trie_ok_child [OF 2(2)] by (auto split: option.splits)
  from 2(1) [OF this] show ?case using trie_ok_update [OF 2(2)] by (simp del: trie_ok.simps)
qed simp

lemma trie_mem_insert: "trie_mem k' (trie_insert k n) \<longleftrightarrow> k' = k \<or> trie_mem k' n"
proof (induction k n arbitrary: k' rule: trie_insert.induct)
  case (1 t cs)
  then show ?case by (cases k') auto
next
  case (2 c k t cs)
  then show ?case by (cases k') (auto simp: jsmap_simps split: option.splits)
qed

lemma trie_prune_break: "findNode k n \<noteq> None \<Longrightarrow> \<not> snd (trie_prune k n) \<Longrightarrow> live (fst (trie_prune k n))"
  by (induction k n rule: trie_prune.induct) (auto split: option.splits if_splits prod.splits simp: Let_def)

lemma trie_prune_ok: "trie_ok n \<Longrightarrow> findNode k n \<noteq> None \<Longrightarrow> trie_ok (fst (trie_prune k n))"
proof (induction k n rule: trie_prune.induct)
  case (2 c k t cs)
  then obtain ch where ch: "map_of cs c = Some ch" "findNode k ch \<noteq> None" by (auto split: option.splits)
  have ok: "trie_ok (fst (trie_prune k ch))"
    using 2 ch trie_ok_child by blast
  obtain ch' going where p: "trie_prune k ch = (ch', going)" by fastforce
  have "live ch'" if "\<not> (going \<and> \<not> (terminal ch' \<or> children ch' \<noteq> []))"
    using that trie_prune_break [OF ch(2)] p by (auto simp: live_def)
  then show ?case using ch p ok trie_ok_update [OF 2(2)] trie_ok_delete [OF 2(2)] by (simp add: Let_def)
qed simp

lemma trie_mem_dead: "\<not> live n \<Longrightarrow> \<not> trie_mem k n"
  by (cases n; cases k) auto

lemma trie_mem_prune:
  "findNode k n \<noteq> None \<Longrightarrow> trie_mem k' (fst (trie_prune k n)) \<longleftrightarrow> k' \<noteq> k \<and> trie_mem k' n"
proof (induction k n arbitrary: k' rule: trie_prune.induct)
  case (1 t cs)
  then show ?case by (cases k') auto
next
  case (2 c k t cs)
  then obtain ch where ch: "map_of cs c = Some ch" "findNode k ch \<noteq> None" by (auto split: option.splits)
  obtain ch' going where p: "trie_prune k ch = (ch', going)" by fastforce
  have IH: "trie_mem r ch' \<longleftrightarrow> r \<noteq> k \<and> trie_mem r ch" for r
    using 2(1) [OF ch] p by simp
  have "\<not> trie_mem r ch'" if "\<not> (terminal ch' \<or> children ch' \<noteq> [])" for r
    using that trie_mem_dead by (auto simp: live_def)
  then show ?case using ch p IH by (cases k') (auto simp: Let_def jsmap_simps split: option.splits)
qed

lemma trie_remove_ok: "trie_ok n \<Longrightarrow> trie_ok (trie_remove k n)"
  by (auto simp: trie_remove_def trie_prune_ok)

lemma trie_mem_remove: "trie_mem k' (trie_remove k n) \<longleftrightarrow> k' \<noteq> k \<and> trie_mem k' n"
  by (auto simp: trie_remove_def trie_mem_prune) (auto simp: trie_mem_def)

text \<open>The words below a node in depth-first order, what the stack loop computes.\<close>

fun words_below :: "string \<Rightarrow> trie \<Rightarrow> string list" where
  "words_below pre (TNode t cs) =
    (if t then [pre] else []) @ concat (map (\<lambda>p. words_below (pre @ [fst p]) (snd p)) cs)"

lemma words_pushed:
  "concat (map (\<lambda>(n, p). words_below p n) (push_children pre cs stack)) =
     concat (map (\<lambda>p. words_below (pre @ [fst p]) (snd p)) cs) @ concat (map (\<lambda>(n, p). words_below p n) stack)"
  by (simp add: push_children_append comp_def case_prod_unfold)

lemma collect_words: "collectFromNode stack matched = matched @ concat (map (\<lambda>(n, p). words_below p n) stack)"
  by (induction stack matched rule: collectFromNode.induct) (auto simp: words_pushed)

lemma visit_words: "visitFromNode visitor stack w = visit_all visitor (concat (map (\<lambda>(n, p). words_below p n) stack)) w"
  by (induction visitor stack w rule: visitFromNode.induct)
    (auto simp: words_pushed split: sum.splits prod.splits)

lemma words_below_mem: "trie_ok n \<Longrightarrow> w \<in> set (words_below pre n) \<longleftrightarrow> (\<exists>k. w = pre @ k \<and> trie_mem k n)"
proof (induction pre n arbitrary: w rule: words_below.induct)
  case (1 pre t cs)
  have d: "distinct (map fst cs)" using 1(2) by (simp add: jsmap_ok_def)
  have "(\<exists>p \<in> set cs. w \<in> set (words_below (pre @ [fst p]) (snd p))) \<longleftrightarrow>
      (\<exists>c ch. map_of cs c = Some ch \<and> (\<exists>k. w = pre @ c # k \<and> trie_mem k ch))"
    using 1 d by (fastforce simp: map_of_eq_Some_iff)
  also have "\<dots> \<longleftrightarrow> (\<exists>c k. w = pre @ c # k \<and> trie_mem (c # k) (TNode t cs))"
    by (auto split: option.splits)
  finally have "w \<in> set (words_below pre (TNode t cs)) \<longleftrightarrow>
      (t \<and> w = pre) \<or> (\<exists>c k. w = pre @ c # k \<and> trie_mem (c # k) (TNode t cs))"
    by auto
  also have "\<dots> \<longleftrightarrow> (\<exists>k. w = pre @ k \<and> trie_mem k (TNode t cs))"
  proof -
    have "(\<exists>k. Q k) \<longleftrightarrow> Q [] \<or> (\<exists>c k. Q (c # k))" for Q :: "string \<Rightarrow> bool"
      by (metis list.exhaust)
    from this [of "\<lambda>k. w = pre @ k \<and> trie_mem k (TNode t cs)"] show ?thesis
      by (simp del: trie_mem_simps(2)) blast
  qed
  finally show ?case .
qed

lemma distinct_concat_headed:
  assumes "distinct (map fst cs)" "\<And>p. p \<in> set cs \<Longrightarrow> distinct (f p)"
    and "\<And>p w. p \<in> set cs \<Longrightarrow> w \<in> set (f p) \<Longrightarrow> \<exists>k. w = pre @ fst p # k"
  shows "distinct (concat (map f cs))"
  using assms
proof (induction cs)
  case (Cons a cs)
  have "set (f a) \<inter> set (concat (map f cs)) = {}"
  proof -
    have "False" if w: "w \<in> set (f a)" "p \<in> set cs" "w \<in> set (f p)" for w p
    proof -
      have "fst a = fst p" using Cons(4) [of a w] Cons(4) [of p w] w by auto
      then show False using Cons(2) w(2) by (auto simp: image_iff)
    qed
    then show ?thesis by auto
  qed
  then show ?case using Cons by simp
qed simp

lemma distinct_words_below: "trie_ok n \<Longrightarrow> distinct (words_below pre n)"
proof (induction pre n rule: words_below.induct)
  case (1 pre t cs)
  have heads: "\<exists>k. w = pre @ fst p # k" if "p \<in> set cs" "w \<in> set (words_below (pre @ [fst p]) (snd p))" for p w
    using that 1(2) by (auto simp: words_below_mem)
  have "distinct (concat (map (\<lambda>p. words_below (pre @ [fst p]) (snd p)) cs))"
    using 1 heads by (intro distinct_concat_headed [of _ _ pre]) (auto simp: jsmap_ok_def)
  then show ?case using heads by fastforce
qed

lemma findNode_ok: "trie_ok n \<Longrightarrow> findNode k n = Some m \<Longrightarrow> trie_ok m"
  by (induction k n rule: findNode.induct) (auto split: option.splits dest!: map_of_SomeD)

lemma trie_mem_append:
  "trie_mem (k @ r) n \<longleftrightarrow> (case findNode k n of None \<Rightarrow> False | Some m \<Rightarrow> trie_mem r m)"
  by (induction k n rule: findNode.induct) (auto split: option.splits)

definition stored_below :: "string \<Rightarrow> trie \<Rightarrow> string list" where
  \<comment> \<open>what a prefix query collects\<close>
  "stored_below pre n = (case findNode pre n of None \<Rightarrow> [] | Some m \<Rightarrow> collectFromNode [(m, pre)] [])"

lemma stored_below_props:
  assumes "trie_ok n"
  shows "distinct (stored_below pre n)" and "w \<in> set (stored_below pre n) \<longleftrightarrow> (\<exists>k. w = pre @ k) \<and> trie_mem w n"
proof -
  show "distinct (stored_below pre n)"
    using assms
    by (auto simp: stored_below_def collect_words findNode_ok distinct_words_below split: option.splits)
  show "w \<in> set (stored_below pre n) \<longleftrightarrow> (\<exists>k. w = pre @ k) \<and> trie_mem w n"
  proof (cases "findNode pre n")
    case None
    then show ?thesis by (auto simp: stored_below_def trie_mem_append)
  next
    case (Some m)
    then show ?thesis using findNode_ok [OF assms Some]
      by (auto simp: stored_below_def collect_words words_below_mem trie_mem_append)
  qed
qed


subsection \<open>Known keys\<close>

definition known :: "tag_index \<Rightarrow> string set" where
  "known ix = fst ` set (knownKeys ix)"

definition known_ok :: "tag_index \<Rightarrow> bool" where
  "known_ok ix \<longleftrightarrow> jsmap_ok (knownKeys ix) \<and> trie_ok (root ix) \<and> (\<forall>k. trie_mem k (root ix) \<longleftrightarrow> k \<in> known ix)"

definition within_bound :: "tag_index \<Rightarrow> bool" where
  "within_bound ix \<longleftrightarrow> (0 < maxKnownKeys ix \<longrightarrow> length (knownKeys ix) \<le> maxKnownKeys ix)"

lemma known_ok_removeKnownKey: "known_ok ix \<Longrightarrow> known_ok (removeKnownKey key ix)"
  by (auto simp: known_ok_def removeKnownKey_def known_def jsmap_ok_delete trie_remove_ok trie_mem_remove dom_delete)

lemma known_removeKnownKey: "known (removeKnownKey key ix) = known ix - {key}"
  by (auto simp: removeKnownKey_def known_def dom_delete map_of_eq_None_iff)

lemma knownKeys_removeKnownKey: "knownKeys (removeKnownKey key ix) = AList.delete key (knownKeys ix)"
  by (auto simp: removeKnownKey_def map_of_eq_None_iff delete_absent)

lemma removeKnownKey_frame [simp]:
  "tagToKeys (removeKnownKey key ix) = tagToKeys ix" "keyToTags (removeKnownKey key ix) = keyToTags ix"
  "maxKnownKeys (removeKnownKey key ix) = maxKnownKeys ix"
  "touchRefreshIntervalMs (removeKnownKey key ix) = touchRefreshIntervalMs ix"
  by (simp_all add: removeKnownKey_def)

lemma remove_oldest_known_props:
  "known_ok ix \<Longrightarrow> known_ok (remove_oldest_known n ix) \<and> knownKeys (remove_oldest_known n ix) = drop n (knownKeys ix)
     \<and> tagToKeys (remove_oldest_known n ix) = tagToKeys ix \<and> keyToTags (remove_oldest_known n ix) = keyToTags ix
     \<and> maxKnownKeys (remove_oldest_known n ix) = maxKnownKeys ix
     \<and> touchRefreshIntervalMs (remove_oldest_known n ix) = touchRefreshIntervalMs ix"
proof (induction n arbitrary: ix)
  case (Suc n)
  show ?case
  proof (cases "knownKeys ix")
    case Nil
    then show ?thesis using Suc(2) by simp
  next
    case (Cons p m)
    then have "knownKeys (removeKnownKey (fst p) ix) = m"
      using Suc(2) by (cases p) (auto simp: knownKeys_removeKnownKey known_ok_def jsmap_ok_Cons delete_absent)
    then show ?thesis
      using Suc(1) [OF known_ok_removeKnownKey [OF Suc(2), of "fst p"]] Cons by (auto simp: split_beta)
  qed
qed simp

lemma pruneKnownKeys_props:
  assumes "known_ok ix"
  shows "known_ok (pruneKnownKeysIfNeeded ix)"
    and "knownKeys (pruneKnownKeysIfNeeded ix) =
       (if length (knownKeys ix) \<le> maxKnownKeys ix then knownKeys ix else drop (tenth_up (maxKnownKeys ix)) (knownKeys ix))"
    and "tagToKeys (pruneKnownKeysIfNeeded ix) = tagToKeys ix" "keyToTags (pruneKnownKeysIfNeeded ix) = keyToTags ix"
    and "maxKnownKeys (pruneKnownKeysIfNeeded ix) = maxKnownKeys ix"
    and "touchRefreshIntervalMs (pruneKnownKeysIfNeeded ix) = touchRefreshIntervalMs ix"
  using assms by (simp_all add: pruneKnownKeysIfNeeded_def remove_oldest_known_props)

lemma insertKnownKey_props:
  assumes "known_ok ix" "insertKnownKey key now ix = (changed, ix1)"
  shows "known_ok ix1" "known ix1 = insert key (known ix)"
    and "tagToKeys ix1 = tagToKeys ix" "keyToTags ix1 = keyToTags ix" "maxKnownKeys ix1 = maxKnownKeys ix"
    and "touchRefreshIntervalMs ix1 = touchRefreshIntervalMs ix"
    and "changed \<Longrightarrow> knownKeys ix1 = AList.delete key (knownKeys ix) @ [(key, now)]"
    and "\<not> changed \<Longrightarrow> ix1 = ix"
proof -
  have k: "map_of (knownKeys ix) key = None \<longleftrightarrow> key \<notin> known ix" by (simp add: known_def map_of_eq_None_iff)
  show "known ix1 = insert key (known ix)"
  proof (cases "map_of (knownKeys ix) key")
    case None
    then show ?thesis
      using assms(2) by (simp add: insertKnownKey_def known_def) (clarify, simp add: dom_update)
  next
    case (Some t)
    have "knownKeys ix1 = (if now - t < touchRefreshIntervalMs ix then knownKeys ix
        else AList.update key now (AList.delete key (knownKeys ix)))"
      using assms(2) Some by (auto simp: insertKnownKey_def split: if_splits)
    then show ?thesis
      unfolding known_def using insert_absorb [OF map_of_in_dom [OF Some]] by (simp add: dom_update dom_delete)
  qed
  moreover have "jsmap_ok (knownKeys ix1)" "root ix1 = root ix \<and> key \<in> known ix \<or> root ix1 = trie_insert key (root ix)"
    using assms k map_of_in_dom [of "knownKeys ix" key]
    by (auto simp: insertKnownKey_def known_ok_def known_def jsmap_ok_update jsmap_ok_delete split: option.splits if_splits)
  moreover have "trie_ok (root ix)" "\<And>k. trie_mem k (root ix) \<longleftrightarrow> k \<in> known ix" using assms(1) by (simp_all add: known_ok_def)
  ultimately show "known_ok ix1" unfolding known_ok_def using trie_insert_ok trie_mem_insert by (metis insert_absorb insert_iff)
  show "tagToKeys ix1 = tagToKeys ix" "keyToTags ix1 = keyToTags ix" "maxKnownKeys ix1 = maxKnownKeys ix"
    "touchRefreshIntervalMs ix1 = touchRefreshIntervalMs ix"
    using assms(2) by (auto simp: insertKnownKey_def split: option.splits if_splits)
  show "knownKeys ix1 = AList.delete key (knownKeys ix) @ [(key, now)]" if changed
    using assms(2) that k
    by (auto simp: insertKnownKey_def known_def update_absent dom_delete delete_absent split: option.splits if_splits)
  show "ix1 = ix" if "\<not> changed"
    using assms(2) that by (auto simp: insertKnownKey_def split: option.splits if_splits)
qed

lemma touch_frame:
  assumes "known_ok ix"
  shows "known_ok (touch key now ix)" "tagToKeys (touch key now ix) = tagToKeys ix"
    "keyToTags (touch key now ix) = keyToTags ix" "maxKnownKeys (touch key now ix) = maxKnownKeys ix"
proof -
  obtain changed ix1 where i: "insertKnownKey key now ix = (changed, ix1)" by fastforce
  note p = insertKnownKey_props [OF assms i] pruneKnownKeys_props [OF insertKnownKey_props(1) [OF assms i]]
  show "known_ok (touch key now ix)" "tagToKeys (touch key now ix) = tagToKeys ix"
    "keyToTags (touch key now ix) = keyToTags ix" "maxKnownKeys (touch key now ix) = maxKnownKeys ix"
    using p assms by (simp_all add: touch_def i)
qed

lemma touch_bound:
  assumes "known_ok ix" "within_bound ix"
  shows "within_bound (touch key now ix)"
proof -
  obtain changed ix1 where i: "insertKnownKey key now ix = (changed, ix1)" by fastforce
  note p = insertKnownKey_props [OF assms(1) i] pruneKnownKeys_props [OF insertKnownKey_props(1) [OF assms(1) i]]
  have "length (knownKeys ix1) \<le> Suc (length (knownKeys ix))" if changed
    using p(7) [OF that] length_delete_le [of key "knownKeys ix"] by simp
  then show ?thesis
    using assms(2) p(5,8,10,13) tenth_up_pos [of "maxKnownKeys ix"] by (auto simp: touch_def i within_bound_def)
qed

lemma touch_keeps_key:
  \<comment> \<open>the pruning that a touch triggers never takes the touched key\<close>
  assumes "known_ok ix" "0 < maxKnownKeys ix"
  shows "key \<in> known (touch key now ix)"
proof -
  obtain changed ix1 where i: "insertKnownKey key now ix = (changed, ix1)" by fastforce
  note p = insertKnownKey_props [OF assms(1) i] pruneKnownKeys_props [OF insertKnownKey_props(1) [OF assms(1) i]]
  have "key \<in> known (pruneKnownKeysIfNeeded ix1)" if changed
  proof -
    have "(key, now) \<in> set (knownKeys (pruneKnownKeysIfNeeded ix1))"
      using p(5,7,10) that tenth_up_le [of "maxKnownKeys ix"] by (auto simp: not_le)
    then show ?thesis by (force simp: known_def)
  qed
  then show ?thesis using p(2,8) by (auto simp: touch_def i)
qed

subsection \<open>The tag maps\<close>

definition held :: "(string, string list) jsmap \<Rightarrow> string \<Rightarrow> string list" where
  "held m x = nullish (map_of m x) []"

lemma js_remove_Nil [simp]: "js_remove x [] = []"
  by (simp add: js_remove_def)

lemma js_remove_idem [simp]: "js_remove x (js_remove x xs) = js_remove x xs"
  by (simp add: js_remove_def)

lemma js_add_idem [simp]: "js_add x (js_add x xs) = js_add x xs"
  by (simp add: js_add_def)

lemma held_update [simp]: "held (AList.update k v m) x = (if x = k then v else held m x)"
  by (simp add: held_def jsmap_simps)

lemma held_delete [simp]: "held (AList.delete k m) x = (if x = k then [] else held m x)"
  by (simp add: held_def jsmap_simps)

lemma held_drop: "held (drop_key_from_tag key tag m) x = (if x = tag then js_remove key (held m x) else held m x)"
  by (auto simp: drop_key_from_tag_def split: option.splits) (simp_all add: held_def)

lemma held_add: "held (add_key_to_tag key tag m) x = (if x = tag then js_add key (held m x) else held m x)"
  by (auto simp: add_key_to_tag_def) (simp add: held_def)

lemma held_purge: "held (purge_key_from_tag key tag m) x = (if x = tag then js_remove key (held m x) else held m x)"
  by (auto simp: purge_key_from_tag_def split: option.splits) (simp_all add: held_def)

lemma held_fold:
  assumes "\<And>tag m x. held (f tag m) x = (if x = tag then g (held m x) else held m x)" "\<And>ks. g (g ks) = g ks"
  shows "held (fold f tags m) x = (if x \<in> set tags then g (held m x) else held m x)"
  by (induction tags arbitrary: m) (auto simp: assms)

lemmas held_folds =
  held_fold [of "drop_key_from_tag key" "js_remove key" for key, OF held_drop js_remove_idem]
  held_fold [of "add_key_to_tag key" "js_add key" for key, OF held_add js_add_idem]
  held_fold [of "purge_key_from_tag key" "js_remove key" for key, OF held_purge js_remove_idem]

lemma jsmap_ok_fold: "(\<And>x m. jsmap_ok m \<Longrightarrow> jsmap_ok (f x m)) \<Longrightarrow> jsmap_ok m \<Longrightarrow> jsmap_ok (fold f xs m)"
  by (induction xs arbitrary: m) auto

definition tag_maps_ok :: "(string, string list) jsmap \<Rightarrow> (string, string list) jsmap \<Rightarrow> bool" where
  "tag_maps_ok tk kt \<longleftrightarrow> (\<forall>key tag. key \<in> set (held tk tag) \<longleftrightarrow> tag \<in> set (held kt key)) \<and>
     (\<forall>tag. distinct (held tk tag)) \<and> (\<forall>key. distinct (held kt key))"

definition tag_index_ok :: "tag_index \<Rightarrow> bool" where
  "tag_index_ok ix \<longleftrightarrow> known_ok ix \<and> within_bound ix \<and> tag_maps_ok (tagToKeys ix) (keyToTags ix)"

lemma tag_maps_track:
  assumes "tag_maps_ok tk kt" "distinct ts"
  shows "tag_maps_ok (fold (add_key_to_tag key) ts (fold (drop_key_from_tag key) (held kt key) tk)) (AList.update key ts kt)"
  using assms by (auto simp: tag_maps_ok_def held_folds distinct_js_add distinct_js_remove)

lemma tag_maps_remove:
  assumes "tag_maps_ok tk kt"
  shows "tag_maps_ok (fold (purge_key_from_tag key) (held kt key) tk) (AList.delete key kt)"
  using assms by (auto simp: tag_maps_ok_def held_folds distinct_js_remove)

lemma track_as_touch:
  "track key tags now ix =
    (if tags = [] then touch key now ix
     else (touch key now ix)
       \<lparr>keyToTags := AList.update key (js_unique tags) (keyToTags (touch key now ix)),
        tagToKeys := fold (add_key_to_tag key) (js_unique tags)
          (fold (drop_key_from_tag key) (held (keyToTags (touch key now ix)) key) (tagToKeys (touch key now ix)))\<rparr>)"
  by (simp add: track_def held_def Let_def)

lemma same_maps: "tagToKeys r = a \<Longrightarrow> keyToTags r = b \<Longrightarrow> r\<lparr>tagToKeys := a, keyToTags := b\<rparr> = (r :: tag_index)"
  by auto

lemma removeKey_as_maps:
  "removeKey key ix =
    (removeKnownKey key ix)
       \<lparr>tagToKeys := fold (purge_key_from_tag key) (held (keyToTags ix) key) (tagToKeys ix),
        keyToTags := AList.delete key (keyToTags ix)\<rparr>"
  by (cases "map_of (keyToTags ix) key")
    (simp_all add: removeKey_def held_def Let_def, simp add: delete_absent map_of_eq_None_iff [symmetric] same_maps)

lemma known_frame:
  "known_ok (ix\<lparr>keyToTags := a, tagToKeys := b\<rparr>) = known_ok ix" "within_bound (ix\<lparr>keyToTags := a, tagToKeys := b\<rparr>) = within_bound ix"
  "known_ok (ix\<lparr>tagToKeys := b, keyToTags := a\<rparr>) = known_ok ix" "within_bound (ix\<lparr>tagToKeys := b, keyToTags := a\<rparr>) = within_bound ix"
  "known (ix\<lparr>keyToTags := a, tagToKeys := b\<rparr>) = known ix" "known (ix\<lparr>tagToKeys := b, keyToTags := a\<rparr>) = known ix"
  by (simp_all add: known_ok_def within_bound_def known_def)


subsection \<open>Runs of the index, and the contract the invalidation code relies on\<close>

datatype index_op =
    TouchKey string real
  | TrackKey string "string list" real
  | RemoveKey string
  | ClearIndex

fun index_step :: "index_op \<Rightarrow> tag_index \<Rightarrow> tag_index" where
  "index_step (TouchKey key now) ix = touch key now ix"
| "index_step (TrackKey key tags now) ix = track key tags now ix"
| "index_step (RemoveKey key) ix = removeKey key ix"
| "index_step ClearIndex ix = index_clear ix"

text \<open>The abstract index: for every key its current tags.\<close>

fun tag_spec_step :: "index_op \<Rightarrow> (string \<Rightarrow> string set) \<Rightarrow> string \<Rightarrow> string set" where
  "tag_spec_step (TouchKey key now) R = R"
| "tag_spec_step (TrackKey key tags now) R = (if tags = [] then R else R(key := set tags))"
| "tag_spec_step (RemoveKey key) R = R(key := {})"
| "tag_spec_step ClearIndex R = (\<lambda>_. {})"

locale tag_directory =
  fixes step :: "index_op \<Rightarrow> 's \<Rightarrow> 's"
    and ok :: "'s \<Rightarrow> bool"
    and tags_for :: "string \<Rightarrow> 's \<Rightarrow> string list"
    and keys_for :: "string \<Rightarrow> 's \<Rightarrow> string list"
    and spec :: "index_op \<Rightarrow> (string \<Rightarrow> string set) \<Rightarrow> string \<Rightarrow> string set"
  assumes ok_step: "ok s \<Longrightarrow> ok (step act s)"
    and tags_step: "ok s \<Longrightarrow> set (tags_for key (step act s)) = spec act (\<lambda>k. set (tags_for k s)) key"
    and inverse: "ok s \<Longrightarrow> key \<in> set (keys_for tag s) \<longleftrightarrow> tag \<in> set (tags_for key s)"
    and keys_distinct: "ok s \<Longrightarrow> distinct (keys_for tag s)"
begin

lemma ok_run: "ok s \<Longrightarrow> ok (fold step ops s)"
  by (induction ops arbitrary: s) (auto simp: ok_step)

lemma tags_run_from:
  "ok s \<Longrightarrow> (\<lambda>key. set (tags_for key (fold step ops s))) = fold spec ops (\<lambda>key. set (tags_for key s))"
proof (induction ops arbitrary: s)
  case (Cons act ops)
  have "(\<lambda>key. set (tags_for key (step act s))) = spec act (\<lambda>key. set (tags_for key s))"
    using tags_step [OF Cons(2)] by blast
  then show ?case using Cons(1) [OF ok_step [OF Cons(2)]] by simp
qed simp

lemma tags_run:
  "ok s \<Longrightarrow> (\<And>k. tags_for k s = []) \<Longrightarrow> set (tags_for key (fold step ops s)) = fold spec ops (\<lambda>_. {}) key"
  using tags_run_from [of s ops] by (simp add: fun_eq_iff)

lemma keys_run:
  "ok s \<Longrightarrow> (\<And>k. tags_for k s = []) \<Longrightarrow> set (keys_for tag (fold step ops s)) = {key. tag \<in> fold spec ops (\<lambda>_. {}) key}"
  using inverse [OF ok_run] tags_run by auto

end

lemma known_frame_two [simp]:
  "maxKnownKeys (index_clear ix) = maxKnownKeys ix" "knownKeys (index_clear ix) = []" "root (index_clear ix) = createTrieNode"
  "tagToKeys (index_clear ix) = []" "keyToTags (index_clear ix) = []"
  by (simp_all add: index_clear_def createTrieNode_def)

lemma tag_index_ok_new: "tag_index_ok (new_tag_index mk tr)"
  by (simp add: new_tag_index_def tag_index_ok_def known_ok_def within_bound_def tag_maps_ok_def known_def held_def)

lemma no_tags_new: "tagsForKey key (new_tag_index mk tr) = []"
  by (simp add: tagsForKey_def new_tag_index_def)

lemma within_bound_remove: "within_bound ix \<Longrightarrow> within_bound (removeKnownKey key ix)"
  using length_delete_le [of key "knownKeys ix"] by (auto simp: within_bound_def knownKeys_removeKnownKey)

lemma tag_index_ok_step: "tag_index_ok ix \<Longrightarrow> tag_index_ok (index_step act ix)"
proof (cases act)
  case (TouchKey key now)
  assume "tag_index_ok ix"
  then show ?thesis using TouchKey by (simp add: tag_index_ok_def touch_frame touch_bound)
next
  case (TrackKey key tags now)
  assume ok: "tag_index_ok ix"
  then show ?thesis
    using TrackKey by (simp add: tag_index_ok_def touch_frame touch_bound track_as_touch known_frame tag_maps_track)
next
  case (RemoveKey key)
  assume "tag_index_ok ix"
  then show ?thesis
    using RemoveKey
    by (simp add: tag_index_ok_def removeKey_as_maps known_frame known_ok_removeKnownKey within_bound_remove tag_maps_remove)
next
  case ClearIndex
  then show ?thesis
    by (simp add: tag_index_ok_def known_ok_def within_bound_def tag_maps_ok_def known_def held_def)
qed

lemma tagsForKey_step:
  assumes "tag_index_ok ix"
  shows "set (tagsForKey key (index_step act ix)) = tag_spec_step act (\<lambda>k. set (tagsForKey k ix)) key"
  using assms
  by (cases act)
    (auto simp: tag_index_ok_def tagsForKey_def track_as_touch touch_frame removeKey_as_maps held_def [symmetric])

interpretation ti: tag_directory index_step tag_index_ok tagsForKey keysForTag tag_spec_step
proof
  fix s key tag act
  assume ok: "tag_index_ok s"
  show "tag_index_ok (index_step act s)" using ok by (rule tag_index_ok_step)
  show "set (tagsForKey key (index_step act s)) = tag_spec_step act (\<lambda>k. set (tagsForKey k s)) key"
    using ok by (rule tagsForKey_step)
  show "key \<in> set (keysForTag tag s) \<longleftrightarrow> tag \<in> set (tagsForKey key s)" "distinct (keysForTag tag s)"
    using ok by (auto simp: tag_index_ok_def tag_maps_ok_def keysForTag_def tagsForKey_def held_def)
qed

text \<open>
  C21: tag queries refine an abstract relation. After any sequence of touches, trackings, removals and
  clears, whatever the bound and the pruning it causes, the keys reported for a tag are, without
  duplicates, exactly the keys whose latest non-empty tracking since their last removal names the tag.
\<close>

theorem tag_queries_refine_relation:
  "distinct (keysForTag tag (fold index_step ops (new_tag_index mk tr))) \<and>
   set (keysForTag tag (fold index_step ops (new_tag_index mk tr))) = {key. tag \<in> fold tag_spec_step ops (\<lambda>_. {}) key}"
  using ti.keys_distinct [OF ti.ok_run [OF tag_index_ok_new]] ti.keys_run [OF tag_index_ok_new no_tags_new] by simp

subsection \<open>Prefix and pattern queries\<close>

lemma keysForPrefix_stored: "keysForPrefix pre ix = stored_below pre (root ix)"
  by (simp add: keysForPrefix_def stored_below_def)

lemma matchPattern_stored: "matchPattern pattern ix = filter (matches pattern) (stored_below (literalPrefix pattern) (root ix))"
  by (simp add: matchPattern_def stored_below_def split: option.splits)

lemma glob_literalPrefix: "glob p v \<Longrightarrow> \<exists>r. v = literalPrefix p @ r"
  unfolding literalPrefix_def by (induction p v rule: glob.induct) (auto split: if_splits)

lemma prefix_query:
  assumes "tag_index_ok ix"
  shows "key \<in> set (keysForPrefix pre ix) \<longleftrightarrow> key \<in> known ix \<and> (\<exists>r. key = pre @ r)"
proof -
  have "trie_ok (root ix)" "trie_mem key (root ix) \<longleftrightarrow> key \<in> known ix"
    using assms by (simp_all add: tag_index_ok_def known_ok_def)
  then show ?thesis by (auto simp: keysForPrefix_stored stored_below_props(2))
qed

lemma pattern_query:
  assumes "tag_index_ok ix"
  shows "set (matchPattern pattern ix) = {key \<in> known ix. glob pattern key}"
  using prefix_query [OF assms, of _ "literalPrefix pattern"] glob_literalPrefix [of pattern]
  by (auto simp: matchPattern_stored keysForPrefix_stored matches_glob)

lemma queries_distinct:
  "tag_index_ok ix \<Longrightarrow> distinct (keysForPrefix pre ix)" "tag_index_ok ix \<Longrightarrow> distinct (matchPattern pattern ix)"
  by (simp_all add: keysForPrefix_stored matchPattern_stored stored_below_props tag_index_ok_def known_ok_def)

lemma forEachKeyForPrefix_visits: "forEachKeyForPrefix pre visitor ix w = visit_all visitor (keysForPrefix pre ix) w"
  by (simp add: forEachKeyForPrefix_def keysForPrefix_def visit_words collect_words split: option.splits)

text \<open>
  Wildcard queries are exact. After any sequence of index operations, the pattern query returns,
  without duplicates, exactly the known keys that match the pattern as a glob: narrowing the search to
  the trie node of the literal prefix loses nothing, and no removed or pruned key is reported.
\<close>

theorem pattern_query_exact:
  "distinct (matchPattern pattern (fold index_step ops (new_tag_index mk tr))) \<and>
   set (matchPattern pattern (fold index_step ops (new_tag_index mk tr))) =
     {key \<in> known (fold index_step ops (new_tag_index mk tr)). glob pattern key}"
  using ti.ok_run [OF tag_index_ok_new] queries_distinct(2) pattern_query by blast

text \<open>
  The index stays bounded and forgets old keys first. After any sequence of operations on an index
  with a positive bound, touching a key leaves at most the bound of known keys, and the touched key is
  one of them.
\<close>

theorem known_keys_bounded:
  fixes key :: string and now :: real and ops :: "index_op list" and mk :: "nat option" and tr :: "real option"
  assumes "0 < nullish mk 100000"
  defines "ix \<equiv> touch key now (fold index_step ops (new_tag_index mk tr))"
  shows "length (knownKeys ix) \<le> nullish mk 100000 \<and> key \<in> known ix"
proof -
  have m: "maxKnownKeys (fold index_step ops jx) = maxKnownKeys jx" if "tag_index_ok jx" for jx
    using that
  proof (induction ops arbitrary: jx)
    case (Cons act ops)
    have "maxKnownKeys (index_step act jx) = maxKnownKeys jx"
      using Cons(2) by (cases act) (auto simp: tag_index_ok_def touch_frame track_as_touch removeKey_as_maps)
    then show ?case using Cons(1) [OF tag_index_ok_step [OF Cons(2)]] by simp
  qed simp
  have max: "maxKnownKeys (fold index_step ops (new_tag_index mk tr)) = nullish mk 100000"
    using m [OF tag_index_ok_new] by (simp add: new_tag_index_def)
  have ok: "known_ok (fold index_step ops (new_tag_index mk tr))" "within_bound (fold index_step ops (new_tag_index mk tr))"
    using ti.ok_run [OF tag_index_ok_new [of mk tr], of ops] by (auto simp: tag_index_ok_def)
  show ?thesis
    using touch_bound [OF ok, of key now] touch_keeps_key [OF ok(1), of key now] touch_frame(4) [OF ok(1), of key now]
      assms(1) max by (simp add: ix_def within_bound_def)
qed

theorem known_keys_bounded_witness:
  "length (knownKeys (touch ''b'' 5 (fold index_step [TouchKey ''a'' 1] (new_tag_index (Some 1) None)))) \<le> nullish (Some 1) 100000 \<and>
   ''b'' \<in> known (touch ''b'' 5 (fold index_step [TouchKey ''a'' 1] (new_tag_index (Some 1) None)))"
  by (rule known_keys_bounded) simp

end
