(* ===== verification/Stack.thy ===== *)
theory Stack
  imports Metrics Validation RuntimePolicy Generation TtlResolver CircuitBreaker Maintenance StampedeGuard TagIndex
begin

text \<open>
  The state of a cache stack (\<open>src/src/CacheStack.ts\<close>) and the helpers its operations share.

  \<^item> An action is a function on the stack that may throw; \<open>Promise.all\<close> over synchronous prefixes runs
    every operation and then reports the first error.
  \<^item> A layer is its public data, its methods on a state \<open>'l\<close> and that state; a missing optional method
    is \<open>None\<close>. \<open>Date.now()\<close> is \<open>sk_now\<close>.
  \<^item> A fetcher is an identity (the code compares fetchers by identity); the configuration says what
    calling it does. While a fetcher or a rate-limit slot is awaited anything may happen to the stack:
    these are actions of the configuration. So are the random draw, the elapsed read time and the
    result of a task another call started.
  \<^item> A deferred write of the write-behind queue is the data its closure captures.
\<close>

subsection \<open>Actions that may throw\<close>

type_synonym ('s, 'a) action = "'s \<Rightarrow> 'a result \<times> 's"

definition ret :: "'a \<Rightarrow> ('s, 'a) action" where
  "ret x s = (Inr x, s)"

definition throw_error :: "error \<Rightarrow> ('s, 'a) action" where
  "throw_error e s = (Inl e, s)"

definition andthen :: "('s, 'a) action \<Rightarrow> ('a \<Rightarrow> ('s, 'b) action) \<Rightarrow> ('s, 'b) action" where
  "andthen m f s = (case m s of (Inl e, s') \<Rightarrow> (Inl e, s') | (Inr x, s') \<Rightarrow> f x s')"

definition catching :: "('s, 'a) action \<Rightarrow> (error \<Rightarrow> ('s, 'a) action) \<Rightarrow> ('s, 'a) action" where
  "catching m h s = (case m s of (Inl e, s') \<Rightarrow> h e s' | (Inr x, s') \<Rightarrow> (Inr x, s'))"

fun each :: "('x \<Rightarrow> ('s, unit) action) \<Rightarrow> 'x list \<Rightarrow> ('s, unit) action" where
  \<comment> \<open>\<open>for (const x of xs) await f(x)\<close>\<close>
  "each f [] s = (Inr (), s)"
| "each f (x # xs) s = (case f x s of (Inl e, s') \<Rightarrow> (Inl e, s') | (Inr _, s') \<Rightarrow> each f xs s')"

fun promise_all :: "('s, unit) action list \<Rightarrow> ('s, unit) action" where
  "promise_all [] s = (Inr (), s)"
| "promise_all (p # ps) s =
    (case p s of (r, s1) \<Rightarrow> case promise_all ps s1 of (r', s2) \<Rightarrow>
       (case r of Inl e \<Rightarrow> (Inl e, s2) | Inr _ \<Rightarrow> (r', s2)))"

fun all_settled :: "('s, unit) action list \<Rightarrow> 's \<Rightarrow> error list \<times> 's" where
  \<comment> \<open>the reasons of the rejected ones\<close>
  "all_settled [] s = ([], s)"
| "all_settled (p # ps) s =
    (case p s of (r, s1) \<Rightarrow> case all_settled ps s1 of (es, s2) \<Rightarrow>
       (case r of Inl e \<Rightarrow> (e # es, s2) | Inr _ \<Rightarrow> (es, s2)))"

subsection \<open>Layers\<close>

record 'l layer_api =
  la_get :: "real \<Rightarrow> string \<Rightarrow> ('l, js) action"
  la_getEntry :: "(real \<Rightarrow> string \<Rightarrow> ('l, js) action) option"
  la_getMany :: "(real \<Rightarrow> string list \<Rightarrow> ('l, js list) action) option"
  la_set :: "real \<Rightarrow> string \<Rightarrow> js \<Rightarrow> real option \<Rightarrow> ('l, unit) action"
  la_setMany :: "(real \<Rightarrow> set_many_entry list \<Rightarrow> ('l, unit) action) option"
  la_delete :: "real \<Rightarrow> string \<Rightarrow> ('l, unit) action"
  la_deleteMany :: "(real \<Rightarrow> string list \<Rightarrow> ('l, unit) action) option"
  la_clear :: "real \<Rightarrow> ('l, unit) action"
  la_has :: "(real \<Rightarrow> string \<Rightarrow> ('l, bool) action) option"
  la_ttl :: "(real \<Rightarrow> string \<Rightarrow> ('l, real option) action) option"
  la_keys :: "(real \<Rightarrow> ('l, string list) action) option"    \<comment> \<open>\<open>forEachKey\<close>, else \<open>keys\<close>: the keys visited\<close>
  la_visited :: "real \<Rightarrow> 'l \<Rightarrow> string list"                 \<comment> \<open>the keys visited before \<open>forEachKey\<close> fails\<close>

record 'l layer =
  ly_name :: string
  ly_defaultTtl :: "real option"
  ly_isLocal :: bool
  ly_api :: "'l layer_api"
  ly_state :: 'l

subsection \<open>The stack\<close>

record deferred_write =
  dw_layer :: nat
  dw_key :: string
  dw_kind :: write_kind
  dw_value :: js
  dw_options :: write_options
  dw_now :: real
  dw_clearEpoch :: nat
  dw_keyEpoch :: nat

record deferred_batch =
  db_layer :: nat
  db_entries :: "set_many_entry list"
  db_clearEpoch :: nat
  db_entryEpochs :: "(string, nat) jsmap"

datatype deferred = DWrite deferred_write | DBatch deferred_batch

record refresh_task =
  rf_key :: string
  rf_fetcher :: nat
  rf_options :: write_options
  rf_clearEpoch :: nat
  rf_keyEpoch :: nat
  rf_context :: fetcher_context

datatype cache_event =
    EvHit string string stored_value_state
  | EvMiss string string
  | EvStaleServe string stored_value_state string
  | EvBackfill string string
  | EvSet string write_kind "string list option"
  | EvDelete "string list"
  | EvExpire "string list"
  | EvWarm string
  | EvDedupe string
  | EvError string

record 'l stack =
  sk_now :: real
  sk_layers :: "'l layer list"
  sk_degradedUntil :: "(string, real) jsmap"
  sk_maint :: "deferred maintenance"
  sk_tags :: tag_index
  sk_metrics :: metrics_collector
  sk_breakers :: breaker_manager
  sk_ttl :: ttl_resolver
  sk_guard :: guard
  sk_refreshes :: "refresh_task list"
  sk_events :: "cache_event list"
  sk_disconnecting :: bool
  sk_generation :: "nat option"
  sk_cleanups :: "nat list"    \<comment> \<open>generations whose scheduled cleanup has not run\<close>

record 'l stack_config =
  cf_gracefulDegradation :: "degradation option"
  cf_negativeTtl :: "layer_ms option"
  cf_staleWhileRevalidate :: "layer_ms option"
  cf_staleIfError :: "layer_ms option"
  cf_refreshAhead :: "layer_ms option"
  cf_negativeCaching :: "bool option"
  cf_cacheNullValues :: "bool option"
  cf_stampedePrevention :: "bool option"
  cf_bestEffort :: bool
  cf_writeBehind :: bool
  cf_writeBehindOptions :: "write_behind_options option"
  cf_circuitBreaker :: "circuit_breaker_options option"
  cf_fetcherRateLimit :: "rate_limit_options option"
  cf_broadcastL1 :: bool
  cf_invalidationMaxKeys :: match_limit
  cf_snapshotMaxEntries :: match_limit
  cf_generationCleanup :: "generation_cleanup option"
  cf_instanceId :: string
  cf_publish :: "(invalidation_message \<Rightarrow> ('l stack, unit) action) option"
  cf_fetch :: "nat \<Rightarrow> fetcher_context \<Rightarrow> ('l stack, js) action"
  cf_await_slot :: "rate_limit_options \<Rightarrow> string \<Rightarrow> nat \<Rightarrow> ('l stack, unit) action"
  cf_await_task :: "nat \<Rightarrow> ('l stack, js) action"
  cf_random :: "'l stack \<Rightarrow> real"
  cf_read_duration :: "'l stack \<Rightarrow> real"
  cf_local_time :: local_time

subsection \<open>Calling a layer\<close>

definition the_layer :: "nat \<Rightarrow> 'l stack \<Rightarrow> 'l layer" where
  "the_layer i s = sk_layers s ! i"

definition call_layer :: "nat \<Rightarrow> ('l layer_api \<Rightarrow> real \<Rightarrow> ('l, 'a) action) \<Rightarrow> ('l stack, 'a) action" where
  \<comment> \<open>a method of layer \<open>i\<close>, given the time, on that layer's state\<close>
  "call_layer i f s =
    (case f (ly_api (the_layer i s)) (sk_now s) (ly_state (the_layer i s)) of (r, l) \<Rightarrow>
       (r, s\<lparr>sk_layers := (sk_layers s)[i := (the_layer i s)\<lparr>ly_state := l\<rparr>]\<rparr>))"

definition visited_keys :: "nat \<Rightarrow> 'l stack \<Rightarrow> string list" where
  \<comment> \<open>what a scan of layer \<open>i\<close> that fails has handed to its visitor\<close>
  "visited_keys i s = la_visited (ly_api (the_layer i s)) (sk_now s) (ly_state (the_layer i s))"

definition count_metric :: "metric_field \<Rightarrow> int \<Rightarrow> 'l stack \<Rightarrow> 'l stack" where
  "count_metric f n s = s\<lparr>sk_metrics := increment f n (sk_metrics s)\<rparr>"

definition emit :: "cache_event \<Rightarrow> 'l stack \<Rightarrow> 'l stack" where
  "emit e s = s\<lparr>sk_events := sk_events s @ [e]\<rparr>"

definition skip_layer :: "nat \<Rightarrow> 'l stack \<Rightarrow> bool \<times> 'l stack" where
  \<comment> \<open>\<open>CacheStack.shouldSkipLayer\<close>: an elapsed degradation is forgotten\<close>
  "skip_layer i s =
    (let name = ly_name (the_layer i s);
         degradedUntil = map_of (sk_degradedUntil s) name;
         skip = shouldSkipLayer degradedUntil (sk_now s)
     in if \<not> skip \<and> degradedUntil \<noteq> None
        then (skip, s\<lparr>sk_degradedUntil := AList.delete name (sk_degradedUntil s)\<rparr>)
        else (skip, s))"

definition handleLayerFailure :: "'l stack_config \<Rightarrow> nat \<Rightarrow> string \<Rightarrow> error \<Rightarrow> ('l stack, unit) action" where
  "handleLayerFailure cf i operation error s =
    (case resolveRecoverableLayerFailure (cf_gracefulDegradation cf) (sk_now s) of
       None \<Rightarrow> (Inl error, s)
     | Some degradedUntil \<Rightarrow>
         (Inr (), emit (EvError operation) (count_metric MDegradedOperations 1
            (s\<lparr>sk_degradedUntil := AList.update (ly_name (the_layer i s)) degradedUntil (sk_degradedUntil s)\<rparr>))))"

definition recover_layer :: "'l stack_config \<Rightarrow> nat \<Rightarrow> string \<Rightarrow> ('l stack, unit) action \<Rightarrow> ('l stack, unit) action" where
  \<comment> \<open>\<open>try { await layer.op() } catch (error) { await handleLayerFailure(layer, op, error) }\<close>\<close>
  "recover_layer cf i operation m = catching m (handleLayerFailure cf i operation)"

definition shouldWriteBehind :: "'l stack_config \<Rightarrow> nat \<Rightarrow> 'l stack \<Rightarrow> bool" where
  "shouldWriteBehind cf i s = (cf_writeBehind cf \<and> \<not> ly_isLocal (the_layer i s))"

definition publishInvalidation :: "'l stack_config \<Rightarrow> invalidation_message \<Rightarrow> ('l stack, unit) action" where
  "publishInvalidation cf msg = (case cf_publish cf of None \<Rightarrow> ret () | Some publish \<Rightarrow> publish msg)"

definition inv_message :: "'l stack_config \<Rightarrow> inv_scope \<Rightarrow> string list option \<Rightarrow> inv_operation \<Rightarrow> invalidation_message" where
  "inv_message cf scope keys operation =
    \<lparr>im_scope = scope, im_sourceId = cf_instanceId cf, im_keys = keys, im_operation = Some operation\<rparr>"

definition tags_of_key_touch :: "string \<Rightarrow> 'l stack \<Rightarrow> 'l stack" where
  "tags_of_key_touch key s = s\<lparr>sk_tags := touch key (sk_now s) (sk_tags s)\<rparr>"

definition clear_epoch :: "'l stack \<Rightarrow> nat" where
  "clear_epoch s = currentClearEpoch (sk_maint s)"

definition key_epoch :: "string \<Rightarrow> 'l stack \<Rightarrow> nat" where
  "key_epoch key s = currentKeyEpoch key (sk_maint s)"

definition fresh_ttl :: "'l stack_config \<Rightarrow> string \<Rightarrow> nat \<Rightarrow> write_kind \<Rightarrow> write_options \<Rightarrow> js \<Rightarrow> 'l stack \<Rightarrow> real option" where
  \<comment> \<open>\<open>CacheStack.resolveFreshTtl\<close> for layer \<open>i\<close>\<close>
  "fresh_ttl cf key i kind opts value s =
    resolveFreshTtl (sk_ttl s) (sk_now s) (cf_local_time cf) (cf_random cf s) key (ly_name (the_layer i s)) kind opts
      (ly_defaultTtl (the_layer i s)) (cf_negativeTtl cf) None value"

subsection \<open>Sequencing\<close>

lemma andthen_simps [simp]:
  "andthen (ret x) f s = f x s" "andthen (throw_error e) f s = (Inl e, s)"
  by (simp_all add: andthen_def ret_def throw_error_def)

lemma andthen_eq: "m s = (Inr x, s') \<Longrightarrow> andthen m f s = f x s'" "m s = (Inl e, s') \<Longrightarrow> andthen m f s = (Inl e, s')"
  by (simp_all add: andthen_def)

lemma andthen_cases:
  "andthen m f s = (case m s of (Inl e, s') \<Rightarrow> (Inl e, s') | (Inr x, s') \<Rightarrow> f x s')"
  by (simp add: andthen_def)

end
