(* ===== verification/LayerWriter.thy ===== *)
theory LayerWriter
  imports Stack
begin

text \<open>
  Writing entries to the layers (\<open>src/src/internal/CacheStackLayerWriter.ts\<close>): the envelope and storage
  TTL of every layer, the fence around a write with its compensating deletes, the write policies, the
  write-behind queue and batch writes. The admission and the order of serialized writes are the step
  relation of \<open>WriteChains\<close>; here an admitted write runs.
\<close>

definition envelope_kind :: "write_kind \<Rightarrow> env_kind" where
  "envelope_kind kind = (case kind of WValue \<Rightarrow> KValue | WEmpty \<Rightarrow> KEmpty)"

definition buildLayerSetEntry ::
    "'l stack_config \<Rightarrow> nat \<Rightarrow> string \<Rightarrow> write_kind \<Rightarrow> js \<Rightarrow> write_options \<Rightarrow> real \<Rightarrow> 'l stack \<Rightarrow> set_many_entry" where
  "buildLayerSetEntry cf i key kind value opts now s =
    (let name = ly_name (the_layer i s);
         freshTtl = fresh_ttl cf key i kind opts value s;
         staleWhileRevalidate = resolveLayerMs name (o_staleWhileRevalidate opts) (cf_staleWhileRevalidate cf) None;
         staleIfError = resolveLayerMs name (o_staleIfError opts) (cf_staleIfError cf) None;
         payload = js_of_envelope
           (createStoredValueEnvelope (envelope_kind kind) value freshTtl staleWhileRevalidate staleIfError now);
         ttl = nullish_opt (remainingStoredTtlMs (sk_now s) payload now) freshTtl
     in \<lparr>sm_key = key, sm_value = payload, sm_ttl = ttl\<rparr>)"

definition write_to_layer ::
    "'l stack_config \<Rightarrow> nat \<Rightarrow> string \<Rightarrow> write_kind \<Rightarrow> js \<Rightarrow> write_options \<Rightarrow> real \<Rightarrow> nat \<Rightarrow> nat \<Rightarrow> ('l stack, unit) action" where
  \<comment> \<open>the \<open>operation\<close> of \<open>writeAcrossLayers\<close> for layer \<open>i\<close>\<close>
  "write_to_layer cf i key kind value opts now clearEpoch keyEpoch s =
    (if isWriteOutdated key (Some clearEpoch) (Some keyEpoch) (sk_maint s) then (Inr (), s)
     else case skip_layer i s of (skip, s1) \<Rightarrow>
       if skip then (Inr (), s1)
       else let entry = buildLayerSetEntry cf i key kind value opts now s1 in
         recover_layer cf i ''write''
           (call_layer i (\<lambda>api t. la_set api t (sm_key entry) (sm_value entry) (sm_ttl entry))) s1)"

definition deleteFromLayers :: "'l stack_config \<Rightarrow> string \<Rightarrow> nat list \<Rightarrow> ('l stack, unit) action" where
  "deleteFromLayers cf key layers =
    promise_all (map (\<lambda>i. recover_layer cf i ''stale-write-cleanup'' (call_layer i (\<lambda>api t. la_delete api t key))) layers)"

definition executeLayerOperations :: "'l stack_config \<Rightarrow> ('l stack, unit) action list \<Rightarrow> string \<Rightarrow> ('l stack, unit) action" where
  "executeLayerOperations cf operations act s =
    (if \<not> cf_bestEffort cf then promise_all operations s
     else case all_settled operations s of (failures, s1) \<Rightarrow>
       if failures = [] then (Inr (), s1)
       else let s2 = count_metric MWriteFailures (int (length failures)) s1 in
         if length failures = length operations then (Inl (AllLayersFailed act), s2) else (Inr (), s2))"

fun active_layers :: "'l stack_config \<Rightarrow> nat list \<Rightarrow> 'l stack \<Rightarrow> nat list \<times> 'l stack" where
  \<comment> \<open>\<open>layers.filter((layer) => !shouldSkipLayer(layer) && !shouldWriteBehind(layer))\<close>\<close>
  "active_layers cf [] s = ([], s)"
| "active_layers cf (i # is) s =
    (case skip_layer i s of (skip, s1) \<Rightarrow>
       case active_layers cf is s1 of (js, s2) \<Rightarrow>
         (if \<not> skip \<and> \<not> shouldWriteBehind cf i s1 then i # js else js, s2))"

definition drop_result :: "('s, 'a) action \<Rightarrow> ('s, unit) action" where
  "drop_result m = andthen m (\<lambda>_. ret ())"

subsection \<open>Batches\<close>

definition batch_epoch :: "(string, nat) jsmap \<Rightarrow> string \<Rightarrow> nat" where
  "batch_epoch epochs key = nullish (map_of epochs key) 0"

definition set_entries :: "nat \<Rightarrow> set_many_entry list \<Rightarrow> ('l stack, unit) action" where
  \<comment> \<open>\<open>setMany\<close> where the layer has it, else one \<open>set\<close> per entry\<close>
  "set_entries i es s =
    (case la_setMany (ly_api (the_layer i s)) of
       Some setMany \<Rightarrow> call_layer i (\<lambda>api t. setMany t es) s
     | None \<Rightarrow>
         promise_all (map (\<lambda>e. call_layer i (\<lambda>api t. la_set api t (sm_key e) (sm_value e) (sm_ttl e))) es) s)"

definition write_batch_to_layer :: "'l stack_config \<Rightarrow> deferred_batch \<Rightarrow> ('l stack, unit) action" where
  \<comment> \<open>the \<open>operation\<close> of \<open>writeBatch\<close> for one layer\<close>
  "write_batch_to_layer cf b s =
    (if db_clearEpoch b \<noteq> clear_epoch s then (Inr (), s)
     else let activeEntries = filter (\<lambda>e. batch_epoch (db_entryEpochs b) (sm_key e) = key_epoch (sm_key e) s) (db_entries b) in
       if activeEntries = [] then (Inr (), s)
       else andthen (recover_layer cf (db_layer b) ''write'' (set_entries (db_layer b) activeEntries)) (\<lambda>_ s1.
         let staleKeys = map sm_key (filter (\<lambda>e.
               isWriteOutdated (sm_key e) (Some (db_clearEpoch b)) (map_of (db_entryEpochs b) (sm_key e)) (sk_maint s1)) activeEntries)
         in if staleKeys = [] then (Inr (), s1)
            else promise_all (map (\<lambda>key. deleteFromLayers cf key [db_layer b]) staleKeys) s1) s)"

subsection \<open>Write-behind\<close>

definition run_deferred :: "'l stack_config \<Rightarrow> deferred \<Rightarrow> ('l stack, unit) action" where
  "run_deferred cf d =
    (case d of
       DWrite w \<Rightarrow> drop_result (runFencedWrite sk_maint (dw_key w) (dw_clearEpoch w) (dw_keyEpoch w)
         (write_to_layer cf (dw_layer w) (dw_key w) (dw_kind w) (dw_value w) (dw_options w) (dw_now w) (dw_clearEpoch w) (dw_keyEpoch w))
         (deleteFromLayers cf (dw_key w) [dw_layer w]))
     | DBatch b \<Rightarrow> write_batch_to_layer cf b)"

definition runWriteBehindBatch :: "'l stack_config \<Rightarrow> deferred list \<Rightarrow> ('l stack, unit) action" where
  \<comment> \<open>\<open>CacheStack.runWriteBehindBatch\<close>: in queue order, failures counted and not thrown\<close>
  "runWriteBehindBatch cf batch s =
    (case all_settled (map (run_deferred cf) batch) s of (failures, s1) \<Rightarrow>
       if failures = [] then (Inr (), s1)
       else (Inr (), emit (EvError ''write-behind'') (count_metric MWriteFailures (int (length failures)) s1)))"

definition enqueue_deferred :: "'l stack_config \<Rightarrow> deferred \<Rightarrow> ('l stack, unit) action" where
  \<comment> \<open>a zero batch size, which never returns, is the error \<open>diverges\<close>\<close>
  "enqueue_deferred cf d s =
    (case enqueueWriteBehind d (cf_writeBehindOptions cf) (runWriteBehindBatch cf) (sk_maint s) s of
       None \<Rightarrow> (Inl (OtherError ''diverges''), s)
     | Some (r, m, s1) \<Rightarrow> (r, s1\<lparr>sk_maint := m\<rparr>))"

subsection \<open>Writes\<close>

definition writeAcrossLayers ::
    "'l stack_config \<Rightarrow> string \<Rightarrow> write_kind \<Rightarrow> js \<Rightarrow> write_options \<Rightarrow> (nat \<times> nat) option \<Rightarrow> ('l stack, bool) action" where
  "writeAcrossLayers cf key kind value opts fence s =
    (let now = sk_now s;
         clearEpoch = nullish (map_option fst fence) (clear_epoch s);
         keyEpoch = nullish (map_option snd fence) (key_epoch key s);
         indices = [0..<length (sk_layers s)];
         operation = (\<lambda>i. write_to_layer cf i key kind value opts now clearEpoch keyEpoch);
         immediateOperations = map operation (filter (\<lambda>i. \<not> shouldWriteBehind cf i s) indices);
         deferredWrites = map (\<lambda>i. \<lparr>dw_layer = i, dw_key = key, dw_kind = kind, dw_value = value, dw_options = opts,
             dw_now = now, dw_clearEpoch = clearEpoch, dw_keyEpoch = keyEpoch\<rparr>) (filter (\<lambda>i. shouldWriteBehind cf i s) indices)
     in case active_layers cf indices s of (immediateLayers, s1) \<Rightarrow>
       andthen
         (runFencedWrite sk_maint key clearEpoch keyEpoch
           (executeLayerOperations cf immediateOperations (if kind = WEmpty then ''negative-set'' else ''set''))
           (deleteFromLayers cf key immediateLayers))
         (\<lambda>committed. andthen (promise_all (map (\<lambda>w. enqueue_deferred cf (DWrite w)) deferredWrites)) (\<lambda>_. ret committed)) s1)"

fun bucket_layers ::
    "'l stack_config \<Rightarrow> mset_entry \<Rightarrow> real \<Rightarrow> nat list \<Rightarrow> (nat, set_many_entry list) jsmap \<times> 'l stack
      \<Rightarrow> (nat, set_many_entry list) jsmap \<times> 'l stack" where
  "bucket_layers cf e now [] (buckets, s) = (buckets, s)"
| "bucket_layers cf e now (i # is) (buckets, s) =
    (case skip_layer i s of (skip, s1) \<Rightarrow>
       if skip then bucket_layers cf e now is (buckets, s1)
       else let layerEntry = buildLayerSetEntry cf i (ms_key e) WValue (ms_value e) (nullish (ms_options e) no_write_options) now s1
         in bucket_layers cf e now is (AList.update i (nullish (map_of buckets i) [] @ [layerEntry]) buckets, s1))"

definition writeBatch :: "'l stack_config \<Rightarrow> mset_entry list \<Rightarrow> ('l stack, nat \<times> (string, nat) jsmap) action" where
  "writeBatch cf entries s =
    (let now = sk_now s;
         clearEpoch = clear_epoch s;
         entryEpochs = fold (\<lambda>e m. AList.update (ms_key e) (key_epoch (ms_key e) s) m) entries [];
         indices = [0..<length (sk_layers s)]
     in case fold (\<lambda>e. bucket_layers cf e now indices) entries ([], s) of (entriesByLayer, s1) \<Rightarrow>
       let batches = map (\<lambda>(i, es). \<lparr>db_layer = i, db_entries = es, db_clearEpoch = clearEpoch, db_entryEpochs = entryEpochs\<rparr>) entriesByLayer;
           immediate = filter (\<lambda>b. \<not> shouldWriteBehind cf (db_layer b) s1) batches;
           deferredBatches = filter (\<lambda>b. shouldWriteBehind cf (db_layer b) s1) batches
       in andthen (executeLayerOperations cf (map (write_batch_to_layer cf) immediate) ''mset'')
            (\<lambda>_. andthen (promise_all (map (\<lambda>b. enqueue_deferred cf (DBatch b)) deferredBatches))
              (\<lambda>_. ret (clearEpoch, entryEpochs))) s1)"

end
