(* ===== verification/Reader.thy ===== *)
theory Reader
  imports LayerWriter FetchRateLimiter
begin

text \<open>
  Reads and read-through fetches (\<open>src/src/internal/CacheStackReader.ts\<close>), with the write path of
  \<open>CacheStack.storeEntry\<close> they end in. The single-flight coordinator, an injected service, is absent
  here (\<open>singleFlightCoordinator === undefined\<close>); the branch with one is theory DistributedFetch. A call that joins a running task awaits it through
  the configuration. A background refresh is scheduled as data and runs later, as a step of its own;
  its timeout only reports.
\<close>

subsection \<open>Storing an entry\<close>

definition merge_context_options :: "write_options \<Rightarrow> entry_write_options \<Rightarrow> write_options" where
  \<comment> \<open>\<open>{ ...baseOptions, ...overrides }\<close>, \<open>contextOptions\<close> removed\<close>
  "merge_context_options base over = base\<lparr>
     o_tags := nullish_opt (o_tags over) (o_tags base),
     o_ttl := nullish_opt (o_ttl over) (o_ttl base),
     o_ttlPolicy := nullish_opt (o_ttlPolicy over) (o_ttlPolicy base),
     o_negativeTtl := nullish_opt (o_negativeTtl over) (o_negativeTtl base),
     o_staleWhileRevalidate := nullish_opt (o_staleWhileRevalidate over) (o_staleWhileRevalidate base),
     o_staleIfError := nullish_opt (o_staleIfError over) (o_staleIfError base),
     o_ttlJitter := nullish_opt (o_ttlJitter over) (o_ttlJitter base),
     o_adaptiveTtl := nullish_opt (o_adaptiveTtl over) (o_adaptiveTtl base),
     o_contextOptions := None\<rparr>"

definition resolveContextOptions :: "string \<Rightarrow> write_kind \<Rightarrow> js \<Rightarrow> write_options \<Rightarrow> write_options result" where
  "resolveContextOptions key kind value opts =
    (case o_contextOptions opts of
       None \<Rightarrow> Inr opts
     | Some contextOptions \<Rightarrow>
         (case contextOptions \<lparr>co_key = key, co_value = value, co_kind = kind\<rparr> of
            None \<Rightarrow> Inr (opts\<lparr>o_contextOptions := None\<rparr>)
          | Some overrides \<Rightarrow>
              (case validateContextEntryOptions ''options.contextOptions()'' overrides of
                 Inl e \<Rightarrow> Inl (InvalidOption ''options.contextOptions()'')
               | Inr _ \<Rightarrow> Inr (merge_context_options opts overrides))))"

definition storeEntry ::
    "'l stack_config \<Rightarrow> string \<Rightarrow> write_kind \<Rightarrow> js \<Rightarrow> write_options \<Rightarrow> (nat \<times> nat) option \<Rightarrow> ('l stack, bool) action" where
  "storeEntry cf key kind value opts fence s =
    (case resolveContextOptions key kind value opts of
       Inl e \<Rightarrow> (Inl e, s)
     | Inr resolved \<Rightarrow>
         let clearEpoch = clear_epoch s; keyEpoch = key_epoch key s in
         andthen (writeAcrossLayers cf key kind value resolved fence) (\<lambda>committed s1.
           if \<not> committed then (Inr False, s1)
           else if isWriteOutdated key (Some clearEpoch) (Some keyEpoch) (sk_maint s1) then (Inr False, s1)
           else
             let s2 = (case o_tags resolved of
                         Some tags \<Rightarrow> s1\<lparr>sk_tags := track key tags (sk_now s1) (sk_tags s1)\<rparr>
                       | None \<Rightarrow> s1\<lparr>sk_tags := touch key (sk_now s1) (sk_tags s1)\<rparr>);
                 s3 = emit (EvSet key kind (o_tags resolved)) (count_metric MSets 1 s2)
             in if cf_broadcastL1 cf
                then andthen (publishInvalidation cf (inv_message cf ScopeKey (Some [key]) OpWrite)) (\<lambda>_. ret True) s3
                else (Inr True, s3)) s)"

subsection \<open>Reading the layers\<close>

datatype read_mode = AllowStale | FreshOnly

record read_hit =
  rh_value :: js             \<comment> \<open>\<open>JUndef\<close> for a negative entry\<close>
  rh_stored :: js
  rh_state :: stored_value_state
  rh_layerIndex :: nat
  rh_layerName :: string

definition isNegativeStoredValue :: "real \<Rightarrow> js \<Rightarrow> bool" where
  "isNegativeStoredValue date_now stored =
    (isStoredValueEnvelope date_now stored \<and> env_kind (envelope_of stored) = KEmpty)"

definition readLayerEntry :: "'l stack_config \<Rightarrow> nat \<Rightarrow> string \<Rightarrow> ('l stack, js) action" where
  "readLayerEntry cf i key s =
    (case skip_layer i s of (skip, s1) \<Rightarrow>
       if skip then (Inr JNull, s1)
       else catching
         (call_layer i (\<lambda>api t. case la_getEntry api of Some getEntry \<Rightarrow> getEntry t key | None \<Rightarrow> la_get api t key))
         (\<lambda>e. andthen (handleLayerFailure cf i ''read'' e) (\<lambda>_. ret JNull)) s1)"

definition backfill_layer :: "'l stack_config \<Rightarrow> string \<Rightarrow> js \<Rightarrow> nat \<times> real option \<Rightarrow> ('l stack, unit) action" where
  \<comment> \<open>one \<open>operation\<close> of \<open>backfill\<close>: a recovered failure ends it without counting\<close>
  "backfill_layer cf key stored it s =
    (case call_layer (fst it) (\<lambda>api t. la_set api t key stored (snd it)) s of
       (Inl e, s1) \<Rightarrow> handleLayerFailure cf (fst it) ''backfill'' e s1
     | (Inr _, s1) \<Rightarrow> (Inr (), emit (EvBackfill key (ly_name (the_layer (fst it) s1))) (count_metric MBackfills 1 s1)))"

fun backfill_targets :: "'l stack_config \<Rightarrow> js \<Rightarrow> layer_ms option \<Rightarrow> nat list \<Rightarrow> 'l stack \<Rightarrow> (nat \<times> real option) list \<times> 'l stack" where
  \<comment> \<open>the layers that are not skipped, each with its TTL\<close>
  "backfill_targets cf stored ttlOption [] s = ([], s)"
| "backfill_targets cf stored ttlOption (i # is) s =
    (case skip_layer i s of (skip, s1) \<Rightarrow>
       if skip then backfill_targets cf stored ttlOption is s1
       else let ttl = nullish_opt (remainingStoredTtlMs (sk_now s1) stored (sk_now s1))
                        (resolveLayerMs (ly_name (the_layer i s1)) ttlOption None (ly_defaultTtl (the_layer i s1)))
            in case backfill_targets cf stored ttlOption is s1 of (its, s2) \<Rightarrow> ((i, ttl) # its, s2))"

definition backfill :: "'l stack_config \<Rightarrow> string \<Rightarrow> js \<Rightarrow> nat \<Rightarrow> write_options \<Rightarrow> nat \<times> nat \<Rightarrow> ('l stack, unit) action" where
  \<comment> \<open>into the layers before index \<open>n\<close> (the code's \<open>upToIndex\<close> is \<open>n - 1\<close>)\<close>
  "backfill cf key stored n opts fence s =
    (if n = 0 then (Inr (), s)
     else case backfill_targets cf stored (o_ttl opts) [0..<n] s of (its, s1) \<Rightarrow>
       drop_result
         (runFencedWrite sk_maint key (fst fence) (snd fence)
           (promise_all (map (backfill_layer cf key stored) its))
           (promise_all (map (\<lambda>i. call_layer i (\<lambda>api t. la_delete api t key)) [0..<n]))) s1)"

fun read_layers ::
    "'l stack_config \<Rightarrow> string \<Rightarrow> write_options \<Rightarrow> read_mode \<Rightarrow> nat \<times> nat \<Rightarrow> nat list \<Rightarrow> bool
      \<Rightarrow> ('l stack, read_hit option) action" where
  \<comment> \<open>the loop of \<open>readFromLayers\<close> over the remaining layer indices; the flag is \<open>sawRetainableValue\<close>\<close>
  "read_layers cf key opts mode fence [] saw s =
    (let s1 = (if saw then s else s\<lparr>sk_tags := removeKey key (sk_tags s)\<rparr>)
     in (Inr None, emit (EvMiss key (if mode = AllowStale then ''allow-stale'' else ''fresh-only'')) s1))"
| "read_layers cf key opts mode fence (i # is) saw s =
    (case readLayerEntry cf i key s of
       (Inl e, s1) \<Rightarrow> (Inl e, s1)
     | (Inr stored, s1) \<Rightarrow>
         let name = ly_name (the_layer i s1);
             s2 = s1\<lparr>sk_metrics := recordLatency name (cf_read_duration cf s1) (sk_metrics s1)\<rparr>
         in if stored = JNull
            then read_layers cf key opts mode fence is saw (s2\<lparr>sk_metrics := incrementLayer MissesByLayer name (sk_metrics s2)\<rparr>)
            else let resolved = resolveStoredValue (sk_now s2) stored (sk_now s2) in
              if rsv_state resolved = Expired
              then (case call_layer i (\<lambda>api t. la_delete api t key) s2 of
                      (Inl e, s3) \<Rightarrow> (Inl e, s3)
                    | (Inr _, s3) \<Rightarrow> read_layers cf key opts mode fence is saw s3)
              else if mode = FreshOnly \<and> rsv_state resolved \<noteq> Fresh
              then read_layers cf key opts mode fence is True s2
              else (case backfill cf key stored i opts fence (s2\<lparr>sk_tags := touch key (sk_now s2) (sk_tags s2)\<rparr>) of
                      (Inl e, s3) \<Rightarrow> (Inl e, s3)
                    | (Inr _, s3) \<Rightarrow>
                        (Inr (Some \<lparr>rh_value = (if isNegativeStoredValue (sk_now s3) stored then JUndef else rsv_value resolved),
                                    rh_stored = stored, rh_state = rsv_state resolved,
                                    rh_layerIndex = i, rh_layerName = name\<rparr>),
                         emit (EvHit key name (rsv_state resolved))
                           (s3\<lparr>sk_metrics := incrementLayer HitsByLayer name (sk_metrics s3)\<rparr>))))"

definition readFromLayers :: "'l stack_config \<Rightarrow> string \<Rightarrow> write_options \<Rightarrow> read_mode \<Rightarrow> ('l stack, read_hit option) action" where
  "readFromLayers cf key opts mode s =
    read_layers cf key opts mode (clear_epoch s, key_epoch key s) [0..<length (sk_layers s)] False s"

subsection \<open>Fetching\<close>

definition resolveCircuitBreakerKey :: "string \<Rightarrow> circuit_breaker_options option \<Rightarrow> string" where
  "resolveCircuitBreakerKey key options =
    (case options of
       None \<Rightarrow> ''key:'' @ key
     | Some opts \<Rightarrow>
         if cb_breakerKey opts \<noteq> None \<and> cb_breakerKey opts \<noteq> Some [] then ''custom:'' @ the (cb_breakerKey opts)
         else if cb_scope opts = Some BShared then ''scope:shared''
         else ''key:'' @ key)"

definition recordCircuitFailure :: "string \<Rightarrow> circuit_breaker_options option \<Rightarrow> 'l stack \<Rightarrow> 'l stack" where
  "recordCircuitFailure breakerKey options s =
    (if options = None then s
     else let s1 = s\<lparr>sk_breakers := recordFailure (sk_now s) breakerKey options (sk_breakers s)\<rparr> in
       case br_isOpen (sk_now s1) breakerKey (sk_breakers s1) of (isOpen, b) \<Rightarrow>
         let s2 = s1\<lparr>sk_breakers := b\<rparr>;
             s3 = (if isOpen then count_metric MCircuitBreakerTrips 1 s2 else s2)
         in emit (EvError ''fetch'') s3)"

definition shouldNegativeCache :: "'l stack_config \<Rightarrow> write_options \<Rightarrow> bool" where
  "shouldNegativeCache cf opts = nullish (nullish_opt (o_negativeCache opts) (cf_negativeCaching cf)) False"

definition shouldCacheNullValues :: "'l stack_config \<Rightarrow> write_options \<Rightarrow> bool" where
  "shouldCacheNullValues cf opts = nullish (nullish_opt (o_cacheNullValues opts) (cf_cacheNullValues cf)) True"

definition scheduled_fetch :: "'l stack_config \<Rightarrow> string \<Rightarrow> nat \<Rightarrow> write_options \<Rightarrow> fetcher_context \<Rightarrow> ('l stack, js) action" where
  \<comment> \<open>\<open>fetchRateLimiter.schedule\<close>: without a limit the fetcher runs at once\<close>
  "scheduled_fetch cf key fetcher opts ctx s =
    (let run = cf_fetch cf fetcher ctx in
     case nullish_opt (o_fetcherRateLimit opts) (cf_fetcherRateLimit cf) of
       None \<Rightarrow> run s
     | Some rl \<Rightarrow>
         (case rl_normalize rl of
            None \<Rightarrow> run s
          | Some limits \<Rightarrow> andthen (cf_await_slot cf limits key fetcher) (\<lambda>_. run) s))"

fun is_rate_limit_error :: "error \<Rightarrow> bool" where
  "is_rate_limit_error (FetchRateLimit _) = True"
| "is_rate_limit_error _ = False"

definition store_fetched ::
    "'l stack_config \<Rightarrow> string \<Rightarrow> js \<Rightarrow> write_options \<Rightarrow> nat \<times> nat \<Rightarrow> ('l stack, js) action" where
  \<comment> \<open>the end of \<open>fetchAndPopulate\<close>, after the fetcher answered\<close>
  "store_fetched cf key fetched opts fence s =
    (if fetched = JUndef \<or> (fetched = JNull \<and> \<not> shouldCacheNullValues cf opts) then
       (if \<not> shouldNegativeCache cf opts then (Inr JUndef, s)
        else if isWriteOutdated key (Some (fst fence)) (Some (snd fence)) (sk_maint s) then (Inr JUndef, s)
        else andthen (storeEntry cf key WEmpty JNull opts (Some fence)) (\<lambda>_. ret JUndef) s)
     else if (case o_shouldCache opts of None \<Rightarrow> False | Some shouldCache \<Rightarrow> \<not> shouldCache fetched) then (Inr fetched, s)
     else if isWriteOutdated key (Some (fst fence)) (Some (snd fence)) (sk_maint s) then (Inr fetched, s)
     else andthen (storeEntry cf key WValue fetched opts (Some fence)) (\<lambda>_. ret fetched) s)"

definition fetchAndPopulate ::
    "'l stack_config \<Rightarrow> string \<Rightarrow> nat \<Rightarrow> write_options \<Rightarrow> nat \<times> nat \<Rightarrow> fetcher_context \<Rightarrow> ('l stack, js) action" where
  "fetchAndPopulate cf key fetcher opts fence ctx s =
    (let breakerOptions = nullish_opt (o_circuitBreaker opts) (cf_circuitBreaker cf);
         breakerKey = resolveCircuitBreakerKey key breakerOptions
     in case assertClosed (sk_now s) breakerKey (sk_breakers s) of
          (Inl e, b) \<Rightarrow> (Inl e, s\<lparr>sk_breakers := b\<rparr>)
        | (Inr _, b) \<Rightarrow>
            (case scheduled_fetch cf key fetcher opts ctx (count_metric MFetches 1 (s\<lparr>sk_breakers := b\<rparr>)) of
               (Inl e, s1) \<Rightarrow> (Inl e, if is_rate_limit_error e then s1 else recordCircuitFailure breakerKey breakerOptions s1)
             | (Inr fetched, s1) \<Rightarrow>
                 store_fetched cf key fetched opts fence (s1\<lparr>sk_breakers := recordSuccess breakerKey (sk_breakers s1)\<rparr>)))"

definition fetch_task ::
    "'l stack_config \<Rightarrow> string \<Rightarrow> nat \<Rightarrow> write_options \<Rightarrow> nat \<times> nat \<Rightarrow> fetcher_context \<Rightarrow> ('l stack, js) action" where
  \<comment> \<open>\<open>fetchTask\<close>: without a coordinator the fresh layers are always read again\<close>
  "fetch_task cf key fetcher opts fence ctx =
    andthen (readFromLayers cf key opts FreshOnly) (\<lambda>secondHit s.
      case secondHit of
        Some hit \<Rightarrow> (Inr (rh_value hit), count_metric MHits 1 s)
      | None \<Rightarrow> fetchAndPopulate cf key fetcher opts fence ctx s)"

text \<open>
  The timer of \<open>withTimeout\<close> (\<open>StampedeGuard.ts\<close>) runs beside the task of a new in-flight entry. Time passes in the task only while
  it awaits the rate limiter or the fetcher, so the timer is looked at when they return: when it is due it detaches the entry and bumps
  the key's epoch (\<open>onEntryTimeout\<close>), which makes the task drop what it fetched, and the caller is rejected. The rest of
  such a task runs in the background; here it is finished before the caller goes on.
\<close>

definition stampede_deadline :: "'l stack \<Rightarrow> real option" where
  "stampede_deadline s = (case sg_entryTimeoutMs (sk_guard s) of None \<Rightarrow> None | Some t \<Rightarrow> if t = 0 then None else Some (sk_now s + t))"

definition is_due :: "real option \<Rightarrow> 'l stack \<Rightarrow> bool" where
  "is_due deadline s = (case deadline of None \<Rightarrow> False | Some d \<Rightarrow> d \<le> sk_now s)"

definition stampede_timer :: "string \<Rightarrow> nat \<Rightarrow> real option \<Rightarrow> 'l stack \<Rightarrow> 'l stack" where
  "stampede_timer key i deadline s =
    (if is_due deadline s \<and> map_of (sg_inFlight (sk_guard s)) key = Some i \<and> \<not> en_timedOut (sg_heap (sk_guard s) i)
     then s\<lparr>sk_guard := timeout_fires key i (sk_guard s), sk_maint := bumpKeyEpochs [key] (sk_maint s)\<rparr> else s)"

definition under_timer :: "string \<Rightarrow> nat \<Rightarrow> real option \<Rightarrow> 'l stack_config \<Rightarrow> 'l stack_config" where
  "under_timer key i deadline cf = cf\<lparr>
     cf_fetch := (\<lambda>fetcher ctx s. case cf_fetch cf fetcher ctx s of (r, s1) \<Rightarrow> (r, stampede_timer key i deadline s1)),
     cf_await_slot := (\<lambda>limits k fetcher s. case cf_await_slot cf limits k fetcher s of (r, s1) \<Rightarrow> (r, stampede_timer key i deadline s1))\<rparr>"

definition in_time :: "string \<Rightarrow> real option \<Rightarrow> js result \<Rightarrow> 'l stack \<Rightarrow> js result" where
  \<comment> \<open>what the caller gets from the promise of \<open>withTimeout\<close>\<close>
  "in_time key deadline r s = (if is_due deadline s then Inl (TaskTimeout key) else r)"

definition fetchWithGuards ::
    "'l stack_config \<Rightarrow> string \<Rightarrow> nat \<Rightarrow> write_options \<Rightarrow> nat \<times> nat \<Rightarrow> fetcher_context \<Rightarrow> ('l stack, js) action" where
  \<comment> \<open>a new in-flight entry runs the task, settles and is released; an existing one is awaited and released\<close>
  "fetchWithGuards cf key fetcher opts fence ctx s =
    (if cf_stampedePrevention cf = Some False then fetch_task cf key fetcher opts fence ctx s
     else case map_of (sg_inFlight (sk_guard s)) key of
       Some _ \<Rightarrow>
         (case sg_execute key (sk_guard s) of
            (Inl e, g) \<Rightarrow> (Inl e, s\<lparr>sk_guard := g\<rparr>)
          | (Inr i, g) \<Rightarrow>
              (case cf_await_task cf i (s\<lparr>sk_guard := g\<rparr>) of
                 (r, s1) \<Rightarrow> (r, s1\<lparr>sk_guard := releaseEntry key i (sk_guard s1)\<rparr>)))
     | None \<Rightarrow>
         (case sg_execute key (sk_guard s) of
            (Inl e, g) \<Rightarrow> (Inl e, s\<lparr>sk_guard := g\<rparr>)
          | (Inr i, g) \<Rightarrow>
              (case fetch_task (under_timer key i (stampede_deadline s) cf) key fetcher opts fence ctx (s\<lparr>sk_guard := g\<rparr>) of
                 (r, s1) \<Rightarrow> (in_time key (stampede_deadline s) r s1,
                   s1\<lparr>sk_guard := releaseEntry key i (settleEntry key i (sk_guard s1))\<rparr>))))"

subsection \<open>Background refresh\<close>

definition fetch_state_of :: "stored_value_state \<Rightarrow> fetch_state" where
  "fetch_state_of st = (case st of Fresh \<Rightarrow> FsFresh | StaleWhileRevalidate \<Rightarrow> FsStaleWhileRevalidate
     | StaleIfError \<Rightarrow> FsStaleIfError | Expired \<Rightarrow> FsMiss)"

definition createFetcherContext :: "string \<Rightarrow> read_hit \<Rightarrow> fetcher_context" where
  "createFetcherContext key hit = \<lparr>fc_key = key, fc_currentValue = rh_value hit, fc_state = fetch_state_of (rh_state hit),
     fc_layer = Some (rh_layerName hit)\<rparr>"

definition scheduleBackgroundRefresh :: "string \<Rightarrow> nat \<Rightarrow> write_options \<Rightarrow> fetcher_context \<Rightarrow> 'l stack \<Rightarrow> 'l stack" where
  "scheduleBackgroundRefresh key fetcher opts ctx s =
    (if \<not> shouldStartBackgroundRefresh (sk_disconnecting s) (key \<in> rf_key ` set (sk_refreshes s)) then s
     else count_metric MRefreshes 1 (s\<lparr>sk_refreshes := sk_refreshes s @ [\<lparr>rf_key = key, rf_fetcher = fetcher, rf_options = opts,
            rf_clearEpoch = clear_epoch s, rf_keyEpoch = key_epoch key s, rf_context = ctx\<rparr>]\<rparr>))"

definition run_refresh :: "'l stack_config \<Rightarrow> refresh_task \<Rightarrow> 'l stack \<Rightarrow> 'l stack" where
  \<comment> \<open>the refresh's own fetch; an error is only counted\<close>
  "run_refresh cf rf s =
    (case fetchWithGuards cf (rf_key rf) (rf_fetcher rf) (rf_options rf) (rf_clearEpoch rf, rf_keyEpoch rf) (rf_context rf) s of
       (r, s1) \<Rightarrow>
         let s2 = (case r of Inl _ \<Rightarrow> count_metric MRefreshErrors 1 s1 | Inr _ \<Rightarrow> s1)
         in s2\<lparr>sk_refreshes := filter (\<lambda>x. rf_key x \<noteq> rf_key rf) (sk_refreshes s2)\<rparr>)"

definition slide_layer :: "'l stack_config \<Rightarrow> string \<Rightarrow> js \<Rightarrow> real option \<Rightarrow> nat \<Rightarrow> ('l stack, unit) action" where
  "slide_layer cf key stored ttl i s =
    (case skip_layer i s of (skip, s1) \<Rightarrow>
       if skip then (Inr (), s1)
       else recover_layer cf i ''sliding-ttl'' (call_layer i (\<lambda>api t. la_set api t key stored ttl)) s1)"

definition applyFreshReadPolicies :: "'l stack_config \<Rightarrow> string \<Rightarrow> read_hit \<Rightarrow> write_options \<Rightarrow> nat option \<Rightarrow> ('l stack, unit) action" where
  "applyFreshReadPolicies cf key hit opts fetcher s =
    (let plan = planFreshReadPolicies (sk_now s) (rh_stored hit) (fetcher \<noteq> None) (nullish (o_slidingTtl opts) False)
           (nullish (resolveLayerMs (rh_layerName hit) (o_refreshAhead opts) (cf_refreshAhead cf) (Some 0)) 0)
     in andthen
          (case refreshedStored plan of
             None \<Rightarrow> ret ()
           | Some stored \<Rightarrow> each (slide_layer cf key stored (refreshedStoredTtl plan)) [0..<Suc (rh_layerIndex hit)])
          (\<lambda>_ s1. (Inr (),
             (case fetcher of
                Some f \<Rightarrow> if shouldScheduleBackgroundRefresh plan
                          then scheduleBackgroundRefresh key f opts (createFetcherContext key hit) s1 else s1
              | None \<Rightarrow> s1))) s)"

subsection \<open>The read path\<close>

definition serve_stale :: "string \<Rightarrow> read_hit \<Rightarrow> 'l stack \<Rightarrow> 'l stack" where
  "serve_stale key hit s =
    emit (EvStaleServe key (rh_state hit) (rh_layerName hit)) (count_metric MStaleHits 1 (count_metric MHits 1 s))"

definition getPrepared :: "'l stack_config \<Rightarrow> string \<Rightarrow> nat option \<Rightarrow> write_options \<Rightarrow> ('l stack, js) action" where
  "getPrepared cf key fetcher opts s =
    (let fence = (clear_epoch s, key_epoch key s) in
     andthen (readFromLayers cf key opts AllowStale) (\<lambda>found s1.
       case found of
         Some hit \<Rightarrow>
           (let s2 = s1\<lparr>sk_ttl := recordAccess (sk_now s1) key (sk_ttl s1)\<rparr>;
                s3 = (if isNegativeStoredValue (sk_now s2) (rh_stored hit) then count_metric MNegativeCacheHits 1 s2 else s2)
            in if rh_state hit = Fresh
               then andthen (applyFreshReadPolicies cf key hit opts fetcher) (\<lambda>_. ret (rh_value hit)) (count_metric MHits 1 s3)
               else if rh_state hit = StaleWhileRevalidate
               then let s4 = serve_stale key hit s3 in
                 (Inr (rh_value hit),
                  (case fetcher of None \<Rightarrow> s4 | Some f \<Rightarrow> scheduleBackgroundRefresh key f opts (createFetcherContext key hit) s4))
               else (case fetcher of
                 None \<Rightarrow> (Inr (rh_value hit), serve_stale key hit s3)
               | Some f \<Rightarrow>
                   catching (fetchWithGuards cf key f opts fence (createFetcherContext key hit))
                     (\<lambda>e s4. (Inr (rh_value hit), count_metric MRefreshErrors 1 (count_metric MStaleHits 1 s4))) s3))
       | None \<Rightarrow>
           (let s2 = count_metric MMisses 1 s1 in
            case fetcher of
              None \<Rightarrow> (Inr JUndef, s2)
            | Some f \<Rightarrow> fetchWithGuards cf key f opts fence
                \<lparr>fc_key = key, fc_currentValue = JUndef, fc_state = FsMiss, fc_layer = None\<rparr> s2)) s)"

end
