(* ===== verification/StackOps.thy ===== *)
theory StackOps
  imports Reader
begin

text \<open>
  The public operations of \<open>src/src/CacheStack.ts\<close>, with the invalidation support
  (\<open>src/src/internal/CacheStackInvalidationSupport.ts\<close>) and the key discovery
  (\<open>src/src/internal/CacheKeyDiscovery.ts\<close>) they use. The start-up promise is resolved; the
  operation events around a call are those of theory Telemetry.
\<close>

subsection \<open>Invalidation support\<close>

definition over_limit :: "match_limit \<Rightarrow> nat \<Rightarrow> bool" where
  "over_limit maxKeys n = (case maxKeys of NoLimit \<Rightarrow> False | Limit m \<Rightarrow> n > m)"

definition limit_of :: "match_limit \<Rightarrow> nat" where
  "limit_of maxKeys = (case maxKeys of NoLimit \<Rightarrow> 0 | Limit m \<Rightarrow> m)"

definition assertWithinLimit :: "match_limit \<Rightarrow> nat \<Rightarrow> unit result" where
  "assertWithinLimit maxKeys n = (if over_limit maxKeys n then Inl (InvalidationLimit n (limit_of maxKeys)) else Inr ())"

fun collect_limited :: "match_limit \<Rightarrow> string list \<Rightarrow> string list \<Rightarrow> string list result" where
  \<comment> \<open>adding keys to a set one by one, checking the limit after each\<close>
  "collect_limited maxKeys acc [] = Inr acc"
| "collect_limited maxKeys acc (key # keys) =
    (let acc' = js_add key acc in bind_result (assertWithinLimit maxKeys (length acc')) (\<lambda>_. collect_limited maxKeys acc' keys))"

definition collectKeysForTag :: "match_limit \<Rightarrow> string \<Rightarrow> 'l stack \<Rightarrow> string list result" where
  "collectKeysForTag maxKeys tag s = collect_limited maxKeys [] (keysForTag tag (sk_tags s))"

definition intersectKeys :: "string list list \<Rightarrow> string list" where
  "intersectKeys groups =
    (case groups of
       [] \<Rightarrow> []
     | firstGroup # others \<Rightarrow> filter (\<lambda>key. \<forall>group \<in> set others. key \<in> set group) (js_unique firstGroup))"

definition delete_from_layer :: "'l stack_config \<Rightarrow> string list \<Rightarrow> nat \<Rightarrow> ('l stack, unit) action" where
  "delete_from_layer cf keys i s =
    (case skip_layer i s of (skip, s1) \<Rightarrow>
       if skip then (Inr (), s1)
       else case la_deleteMany (ly_api (the_layer i s1)) of
         Some deleteMany \<Rightarrow> recover_layer cf i ''delete'' (call_layer i (\<lambda>api t. deleteMany t keys)) s1
       | None \<Rightarrow>
           promise_all (map (\<lambda>key. recover_layer cf i ''delete'' (call_layer i (\<lambda>api t. la_delete api t key))) keys) s1)"

definition deleteKeysFromLayers :: "'l stack_config \<Rightarrow> nat list \<Rightarrow> string list \<Rightarrow> ('l stack, unit) action" where
  "deleteKeysFromLayers cf layers keys = promise_all (map (delete_from_layer cf keys) layers)"

text \<open>\<open>expireKeysInLayers\<close> collects the keys it found; they are threaded through the loop.\<close>

definition read_raw :: "nat \<Rightarrow> string \<Rightarrow> ('l stack, js) action" where
  "read_raw i key = call_layer i (\<lambda>api t. case la_getEntry api of Some getEntry \<Rightarrow> getEntry t key | None \<Rightarrow> la_get api t key)"

fun expire_keys_in_layer :: "'l stack_config \<Rightarrow> nat \<Rightarrow> string list \<Rightarrow> string list \<Rightarrow> ('l stack, string list) action" where
  \<comment> \<open>the keys of one layer in turn; an unrecovered error is thrown after the others ran\<close>
  "expire_keys_in_layer cf i [] found s = (Inr found, s)"
| "expire_keys_in_layer cf i (key # keys) found s =
    (case read_raw i key s of
       (Inl e, s1) \<Rightarrow>
         (case handleLayerFailure cf i ''expire'' e s1 of
            (Inl e', s2) \<Rightarrow> (case expire_keys_in_layer cf i keys found s2 of (_, s3) \<Rightarrow> (Inl e', s3))
          | (Inr _, s2) \<Rightarrow> expire_keys_in_layer cf i keys found s2)
     | (Inr stored, s1) \<Rightarrow>
         if stored = JNull then expire_keys_in_layer cf i keys found s1
         else let found' = js_add key found; expired = expireStoredEnvelope (sk_now s1) stored (sk_now s1) in
           if \<not> isStoredValueEnvelope (sk_now s1) stored then   \<comment> \<open>\<open>expired === stored\<close>: no envelope, the object itself\<close>
              expire_keys_in_layer cf i keys found' s1
           else (case recover_layer cf i ''expire''
                   (call_layer i (\<lambda>api t. la_set api t key expired (remainingStoredTtlMs (sk_now s1) expired (sk_now s1)))) s1 of
                   (Inl e', s2) \<Rightarrow> (case expire_keys_in_layer cf i keys found' s2 of (_, s3) \<Rightarrow> (Inl e', s3))
                 | (Inr _, s2) \<Rightarrow> expire_keys_in_layer cf i keys found' s2))"

fun expireKeysInLayers :: "'l stack_config \<Rightarrow> nat list \<Rightarrow> string list \<Rightarrow> string list \<Rightarrow> ('l stack, string list) action" where
  "expireKeysInLayers cf [] keys found s = (Inr found, s)"
| "expireKeysInLayers cf (i # is) keys found s =
    (case skip_layer i s of (skip, s1) \<Rightarrow>
       if skip then expireKeysInLayers cf is keys found s1
       else (case expire_keys_in_layer cf i keys found s1 of
               (Inl e, s2) \<Rightarrow> (case expireKeysInLayers cf is keys found s2 of (_, s3) \<Rightarrow> (Inl e, s3))
             | (Inr found', s2) \<Rightarrow> expireKeysInLayers cf is keys found' s2))"

subsection \<open>Key discovery\<close>

fun scan_layers ::
    "'l stack_config \<Rightarrow> string \<Rightarrow> (string \<Rightarrow> bool) \<Rightarrow> match_limit \<Rightarrow> nat list \<Rightarrow> string list \<Rightarrow> ('l stack, string list) action" where
  \<comment> \<open>every layer that can list its keys adds the selected ones, also when its listing fails half-way; the limit error is not recovered\<close>
  "scan_layers cf operation sel maxMatches [] found s = (Inr found, s)"
| "scan_layers cf operation sel maxMatches (i # is) found s =
    (case la_keys (ly_api (the_layer i s)) of
       None \<Rightarrow> scan_layers cf operation sel maxMatches is found s
     | Some keysOf \<Rightarrow>
         (case skip_layer i s of (skip, s1) \<Rightarrow>
            if skip then scan_layers cf operation sel maxMatches is found s1
            else (case call_layer i (\<lambda>api t. keysOf t) s1 of
                    (Inl e, s2) \<Rightarrow>
                      (case collect_limited maxMatches found (filter sel (visited_keys i s1)) of
                         Inl limit \<Rightarrow> (Inl limit, s2)
                       | Inr found' \<Rightarrow>
                           (case handleLayerFailure cf i operation e s2 of
                              (Inl e', s3) \<Rightarrow> (Inl e', s3)
                            | (Inr _, s3) \<Rightarrow> scan_layers cf operation sel maxMatches is found' s3))
                  | (Inr keys, s2) \<Rightarrow>
                      (case collect_limited maxMatches found (filter sel keys) of
                         Inl e \<Rightarrow> (Inl e, s2)
                       | Inr found' \<Rightarrow> scan_layers cf operation sel maxMatches is found' s2))))"

definition starts_with :: "string \<Rightarrow> string \<Rightarrow> bool" where
  "starts_with key pre = (take (length pre) key = pre)"

definition collectKeysWithPrefix :: "'l stack_config \<Rightarrow> string \<Rightarrow> match_limit \<Rightarrow> ('l stack, string list) action" where
  "collectKeysWithPrefix cf pre maxMatches s =
    (case collect_limited maxMatches [] (keysForPrefix pre (sk_tags s)) of
       Inl e \<Rightarrow> (Inl e, s)
     | Inr found \<Rightarrow>
         scan_layers cf ''invalidate-prefix-scan'' (\<lambda>key. starts_with key pre) maxMatches [0..<length (sk_layers s)] found s)"

definition collectKeysMatchingPattern :: "'l stack_config \<Rightarrow> string \<Rightarrow> match_limit \<Rightarrow> ('l stack, string list) action" where
  "collectKeysMatchingPattern cf pattern maxMatches s =
    (case collect_limited maxMatches [] (matchPattern pattern (sk_tags s)) of
       Inl e \<Rightarrow> (Inl e, s)
     | Inr found \<Rightarrow>
         scan_layers cf ''invalidate-pattern-scan'' (matches pattern) maxMatches [0..<length (sk_layers s)] found s)"

subsection \<open>Deleting and expiring keys\<close>

definition forget_key :: "string \<Rightarrow> 'l stack \<Rightarrow> 'l stack" where
  "forget_key key s = s\<lparr>sk_tags := removeKey key (sk_tags s), sk_ttl := deleteProfile key (sk_ttl s),
     sk_breakers := br_delete (''key:'' @ key) (sk_breakers s)\<rparr>"

definition all_layers :: "'l stack \<Rightarrow> nat list" where
  "all_layers s = [0..<length (sk_layers s)]"

definition deleteKeys :: "'l stack_config \<Rightarrow> string list \<Rightarrow> ('l stack, unit) action" where
  "deleteKeys cf keys s =
    (if keys = [] then (Inr (), s)
     else let s1 = s\<lparr>sk_maint := bumpKeyEpochs keys (sk_maint s)\<rparr> in
       andthen (deleteKeysFromLayers cf (all_layers s1) keys) (\<lambda>_ s2.
         (Inr (), emit (EvDelete keys) (count_metric MInvalidations 1
            (count_metric MDeletes (int (length keys)) (fold forget_key keys s2))))) s1)"

definition expireKeys :: "'l stack_config \<Rightarrow> string list \<Rightarrow> ('l stack, unit) action" where
  "expireKeys cf keys s =
    (if keys = [] then (Inr (), s)
     else let s1 = s\<lparr>sk_maint := bumpKeyEpochs keys (sk_maint s)\<rparr> in
       andthen (expireKeysInLayers cf (all_layers s1) keys []) (\<lambda>foundKeys s2.
         (Inr (), emit (EvExpire keys) (count_metric MInvalidations 1
            (fold (\<lambda>key s. if key \<in> set foundKeys then s else forget_key key s) keys s2)))) s1)"

subsection \<open>Public operations\<close>

definition assertActive :: "string \<Rightarrow> ('l stack, unit) action" where
  "assertActive operation s = (if sk_disconnecting s then (Inl (Disconnecting operation), s) else (Inr (), s))"

definition lift_result :: "'a result \<Rightarrow> ('s, 'a) action" where
  "lift_result r s = (r, s)"

definition qualify_user_key :: "string \<Rightarrow> ('l stack, string) action" where
  \<comment> \<open>\<open>qualifyKey(validateCacheKey(key))\<close>\<close>
  "qualify_user_key key s = (map_sum id (\<lambda>k. qualifyGenerationKey k (sk_generation s)) (validateCacheKey key), s)"

definition stack_get :: "'l stack_config \<Rightarrow> string \<Rightarrow> nat option \<Rightarrow> write_options option \<Rightarrow> ('l stack, js) action" where
  "stack_get cf key fetcher options =
    andthen (qualify_user_key key) (\<lambda>normalizedKey.
    andthen (lift_result (validateWriteOptions options)) (\<lambda>_.
    andthen (assertActive ''get'') (\<lambda>_.
      getPrepared cf normalizedKey fetcher (nullish options no_write_options))))"

definition getOrThrow :: "'l stack_config \<Rightarrow> string \<Rightarrow> nat option \<Rightarrow> write_options option \<Rightarrow> ('l stack, js) action" where
  "getOrThrow cf key fetcher options =
    andthen (stack_get cf key fetcher options) (\<lambda>v. if v = JUndef then throw_error (CacheMiss key) else ret v)"

definition stack_set :: "'l stack_config \<Rightarrow> string \<Rightarrow> js \<Rightarrow> write_options option \<Rightarrow> ('l stack, unit) action" where
  "stack_set cf key value options =
    andthen (qualify_user_key key) (\<lambda>normalizedKey.
    andthen (lift_result (validateWriteOptions options)) (\<lambda>_.
    andthen (assertActive ''set'') (\<lambda>_.
      drop_result (storeEntry cf normalizedKey WValue value (nullish options no_write_options) None))))"

definition stack_delete :: "'l stack_config \<Rightarrow> string \<Rightarrow> ('l stack, unit) action" where
  "stack_delete cf key =
    andthen (qualify_user_key key) (\<lambda>normalizedKey.
    andthen (assertActive ''delete'') (\<lambda>_.
    andthen (deleteKeys cf [normalizedKey]) (\<lambda>_.
      publishInvalidation cf (inv_message cf ScopeKey (Some [normalizedKey]) OpDelete))))"

definition clear_state :: "'l stack \<Rightarrow> 'l stack" where
  "clear_state s = s\<lparr>sk_tags := index_clear (sk_tags s), sk_ttl := clearProfiles (sk_ttl s), sk_breakers := br_clear (sk_breakers s)\<rparr>"

definition clear_layers :: "nat list \<Rightarrow> ('l stack, unit) action" where
  "clear_layers layers = promise_all (map (\<lambda>i. call_layer i (\<lambda>api t. la_clear api t)) layers)"

definition stack_clear :: "'l stack_config \<Rightarrow> ('l stack, unit) action" where
  "stack_clear cf =
    andthen (assertActive ''clear'') (\<lambda>_ s.
      let s1 = s\<lparr>sk_maint := beginClearEpoch (sk_maint s)\<rparr> in
      andthen (clear_layers (all_layers s1)) (\<lambda>_ s2.
        publishInvalidation cf (inv_message cf ScopeClear None OpClear) (count_metric MInvalidations 1 (clear_state s2))) s1)"

fun qualify_all :: "string list \<Rightarrow> ('l stack, string list) action" where
  "qualify_all [] s = (Inr [], s)"
| "qualify_all (key # keys) s =
    (case qualify_user_key key s of
       (Inl e, s1) \<Rightarrow> (Inl e, s1)
     | (Inr k, s1) \<Rightarrow> (case qualify_all keys s1 of (Inl e, s2) \<Rightarrow> (Inl e, s2) | (Inr ks, s2) \<Rightarrow> (Inr (k # ks), s2)))"

definition mdelete :: "'l stack_config \<Rightarrow> string list \<Rightarrow> ('l stack, unit) action" where
  "mdelete cf keys =
    (if keys = [] then ret ()
     else andthen (assertActive ''mdelete'') (\<lambda>_.
          andthen (qualify_all keys) (\<lambda>cacheKeys.
          andthen (deleteKeys cf cacheKeys) (\<lambda>_.
            publishInvalidation cf (inv_message cf ScopeKeys (Some cacheKeys) OpDelete)))))"

definition expireByKey :: "'l stack_config \<Rightarrow> string \<Rightarrow> ('l stack, unit) action" where
  "expireByKey cf key =
    andthen (qualify_user_key key) (\<lambda>normalizedKey.
    andthen (assertActive ''expireByKey'') (\<lambda>_.
    andthen (expireKeys cf [normalizedKey]) (\<lambda>_.
      publishInvalidation cf (inv_message cf ScopeKey (Some [normalizedKey]) OpExpire))))"

definition expireByKeys :: "'l stack_config \<Rightarrow> string list \<Rightarrow> ('l stack, unit) action" where
  "expireByKeys cf keys =
    (if keys = [] then ret ()
     else andthen (qualify_all keys) (\<lambda>cacheKeys.
          andthen (assertActive ''expireByKeys'') (\<lambda>_.
          andthen (expireKeys cf cacheKeys) (\<lambda>_.
            publishInvalidation cf (inv_message cf ScopeKeys (Some cacheKeys) OpExpire)))))"

definition collect_tag :: "'l stack_config \<Rightarrow> string \<Rightarrow> ('l stack, string list) action" where
  "collect_tag cf tag s = (collectKeysForTag (cf_invalidationMaxKeys cf) tag s, s)"

definition invalidateByTag :: "'l stack_config \<Rightarrow> string \<Rightarrow> ('l stack, unit) action" where
  "invalidateByTag cf tag =
    andthen (lift_result (validateTag tag)) (\<lambda>_.
    andthen (assertActive ''invalidateByTag'') (\<lambda>_.
    andthen (collect_tag cf tag) (\<lambda>keys.
    andthen (deleteKeys cf keys) (\<lambda>_.
      publishInvalidation cf (inv_message cf ScopeKeys (Some keys) OpInvalidate)))))"

definition expireByTag :: "'l stack_config \<Rightarrow> string \<Rightarrow> ('l stack, unit) action" where
  "expireByTag cf tag =
    andthen (lift_result (validateTag tag)) (\<lambda>_.
    andthen (assertActive ''expireByTag'') (\<lambda>_.
    andthen (collect_tag cf tag) (\<lambda>keys.
    andthen (expireKeys cf keys) (\<lambda>_.
      publishInvalidation cf (inv_message cf ScopeKeys (Some keys) OpExpire)))))"

fun collect_tags :: "'l stack_config \<Rightarrow> string list \<Rightarrow> ('l stack, string list list) action" where
  "collect_tags cf [] s = (Inr [], s)"
| "collect_tags cf (tag # tags) s =
    (case collect_tag cf tag s of
       (Inl e, s1) \<Rightarrow> (Inl e, s1)
     | (Inr ks, s1) \<Rightarrow> (case collect_tags cf tags s1 of (Inl e, s2) \<Rightarrow> (Inl e, s2) | (Inr kss, s2) \<Rightarrow> (Inr (ks # kss), s2)))"

datatype tag_mode = AnyTag | AllTags

definition keys_by_tags :: "'l stack_config \<Rightarrow> string \<Rightarrow> string list \<Rightarrow> tag_mode \<Rightarrow> ('l stack, string list) action" where
  \<comment> \<open>the common part of \<open>invalidateByTags\<close> and \<open>expireByTags\<close>\<close>
  "keys_by_tags cf operation tags mode =
    andthen (lift_result (validateTags (Some tags))) (\<lambda>_.
    andthen (assertActive operation) (\<lambda>_.
    andthen (collect_tags cf tags) (\<lambda>keysByTag.
      let keys = (if mode = AllTags then intersectKeys keysByTag else js_unique (concat keysByTag))
      in andthen (lift_result (assertWithinLimit (cf_invalidationMaxKeys cf) (length keys))) (\<lambda>_. ret keys))))"

definition invalidateByTags :: "'l stack_config \<Rightarrow> string list \<Rightarrow> tag_mode \<Rightarrow> ('l stack, unit) action" where
  "invalidateByTags cf tags mode =
    (if tags = [] then ret ()
     else andthen (keys_by_tags cf ''invalidateByTags'' tags mode) (\<lambda>keys.
          andthen (deleteKeys cf keys) (\<lambda>_.
            publishInvalidation cf (inv_message cf ScopeKeys (Some keys) OpInvalidate))))"

definition expireByTags :: "'l stack_config \<Rightarrow> string list \<Rightarrow> tag_mode \<Rightarrow> ('l stack, unit) action" where
  "expireByTags cf tags mode =
    (if tags = [] then ret ()
     else andthen (keys_by_tags cf ''expireByTags'' tags mode) (\<lambda>keys.
          andthen (expireKeys cf keys) (\<lambda>_.
            publishInvalidation cf (inv_message cf ScopeKeys (Some keys) OpExpire))))"

definition qualified_pattern :: "string \<Rightarrow> ('l stack, string) action" where
  "qualified_pattern pattern s = (Inr (qualifyGenerationPattern pattern (sk_generation s)), s)"

definition invalidateByPattern :: "'l stack_config \<Rightarrow> string \<Rightarrow> ('l stack, unit) action" where
  "invalidateByPattern cf pattern =
    andthen (lift_result (validatePattern pattern)) (\<lambda>_.
    andthen (assertActive ''invalidateByPattern'') (\<lambda>_.
    andthen (qualified_pattern pattern) (\<lambda>q.
    andthen (collectKeysMatchingPattern cf q (cf_invalidationMaxKeys cf)) (\<lambda>keys.
    andthen (deleteKeys cf keys) (\<lambda>_.
      publishInvalidation cf (inv_message cf ScopeKeys (Some keys) OpInvalidate))))))"

definition expireByPattern :: "'l stack_config \<Rightarrow> string \<Rightarrow> ('l stack, unit) action" where
  "expireByPattern cf pattern =
    andthen (lift_result (validatePattern pattern)) (\<lambda>_.
    andthen (assertActive ''expireByPattern'') (\<lambda>_.
    andthen (qualified_pattern pattern) (\<lambda>q.
    andthen (collectKeysMatchingPattern cf q (cf_invalidationMaxKeys cf)) (\<lambda>keys.
    andthen (expireKeys cf keys) (\<lambda>_.
      publishInvalidation cf (inv_message cf ScopeKeys (Some keys) OpExpire))))))"

definition invalidateByPrefix :: "'l stack_config \<Rightarrow> string \<Rightarrow> ('l stack, unit) action" where
  "invalidateByPrefix cf pre =
    andthen (assertActive ''invalidateByPrefix'') (\<lambda>_.
    andthen (qualify_user_key pre) (\<lambda>q.
    andthen (collectKeysWithPrefix cf q (cf_invalidationMaxKeys cf)) (\<lambda>keys.
    andthen (deleteKeys cf keys) (\<lambda>_.
      publishInvalidation cf (inv_message cf ScopeKeys (Some keys) OpInvalidate)))))"

definition expireByPrefix :: "'l stack_config \<Rightarrow> string \<Rightarrow> ('l stack, unit) action" where
  "expireByPrefix cf pre =
    andthen (assertActive ''expireByPrefix'') (\<lambda>_.
    andthen (qualify_user_key pre) (\<lambda>q.
    andthen (collectKeysWithPrefix cf q (cf_invalidationMaxKeys cf)) (\<lambda>keys.
    andthen (expireKeys cf keys) (\<lambda>_.
      publishInvalidation cf (inv_message cf ScopeKeys (Some keys) OpExpire)))))"

definition local_layers :: "'l stack \<Rightarrow> nat list" where
  "local_layers s = filter (\<lambda>i. ly_isLocal (the_layer i s)) (all_layers s)"

definition handleInvalidationMessage :: "'l stack_config \<Rightarrow> invalidation_message \<Rightarrow> ('l stack, unit) action" where
  "handleInvalidationMessage cf msg s =
    (if im_sourceId msg = cf_instanceId cf then (Inr (), s)
     else if im_scope msg = ScopeClear then
       (let s1 = s\<lparr>sk_maint := beginClearEpoch (sk_maint s)\<rparr> in
        andthen (clear_layers (local_layers s1)) (\<lambda>_ s2. (Inr (), clear_state s2)) s1)
     else
       (let keys = nullish (im_keys msg) [];
            s1 = s\<lparr>sk_maint := bumpKeyEpochs keys (sk_maint s)\<rparr>
        in if im_operation msg = Some OpExpire
           then (if keys = [] then (Inr (), s1) else drop_result (expireKeysInLayers cf (local_layers s1) keys []) s1)
           else andthen (deleteKeysFromLayers cf (local_layers s1) keys) (\<lambda>_ s2.
             (Inr (), if im_operation msg \<noteq> Some OpWrite then fold forget_key keys s2 else s2)) s1))"

end
