(* ===== verification/StackReads.thy ===== *)
theory StackReads
  imports StackOps
begin

text \<open>
  The remaining reads and the batch operations of \<open>src/src/CacheStack.ts\<close>: \<open>getEntry\<close>, \<open>has\<close>, \<open>ttl\<close>, the bulk
  path of \<open>mget\<close> (every entry without fetcher and options) and \<open>mset\<close>.
\<close>

subsection \<open>getEntry\<close>

record entry_result =
  er_key :: string
  er_value :: js
  er_kind :: env_kind
  er_state :: stored_value_state
  er_layer :: string

fun get_entry_layers ::
    "'l stack_config \<Rightarrow> string \<Rightarrow> string \<Rightarrow> nat \<times> nat \<Rightarrow> nat list \<Rightarrow> bool \<Rightarrow> ('l stack, entry_result option) action" where
  "get_entry_layers cf userKey key fence [] saw s =
    (let s1 = (if saw then s else s\<lparr>sk_tags := removeKey key (sk_tags s)\<rparr>)
     in (Inr None, emit (EvMiss key ''getEntry'') (count_metric MMisses 1 s1)))"
| "get_entry_layers cf userKey key fence (i # is) saw s =
    (case skip_layer i s of (skip, s0) \<Rightarrow>
       if skip then get_entry_layers cf userKey key fence is saw s0
       else (case readLayerEntry cf i key s0 of
         (Inl e, s1) \<Rightarrow> (Inl e, s1)
       | (Inr stored, s1) \<Rightarrow>
           let name = ly_name (the_layer i s1);
               s2 = s1\<lparr>sk_metrics := recordLatency name (cf_read_duration cf s1) (sk_metrics s1)\<rparr>
           in if stored = JNull
              then get_entry_layers cf userKey key fence is saw (s2\<lparr>sk_metrics := incrementLayer MissesByLayer name (sk_metrics s2)\<rparr>)
              else let resolved = resolveStoredValue (sk_now s2) stored (sk_now s2) in
                if rsv_state resolved = Expired
                then (case call_layer i (\<lambda>api t. la_delete api t key) s2 of
                        (Inl e, s3) \<Rightarrow> (Inl e, s3)
                      | (Inr _, s3) \<Rightarrow> get_entry_layers cf userKey key fence is saw s3)
                else (case backfill cf key stored i no_write_options fence (s2\<lparr>sk_tags := touch key (sk_now s2) (sk_tags s2)\<rparr>) of
                        (Inl e, s3) \<Rightarrow> (Inl e, s3)
                      | (Inr _, s3) \<Rightarrow>
                          let s4 = count_metric MHits 1 s3;
                              s5 = (if rsv_state resolved = StaleWhileRevalidate \<or> rsv_state resolved = StaleIfError
                                    then count_metric MStaleHits 1 s4 else s4)
                          in (Inr (Some \<lparr>er_key = userKey, er_value = rsv_value resolved,
                                er_kind = (case rsv_envelope resolved of None \<Rightarrow> KValue | Some e \<Rightarrow> env_kind e),
                                er_state = rsv_state resolved, er_layer = name\<rparr>),
                              emit (EvHit key name (rsv_state resolved))
                                (s5\<lparr>sk_metrics := incrementLayer HitsByLayer name (sk_metrics s5)\<rparr>)))))"

definition stack_getEntry :: "'l stack_config \<Rightarrow> string \<Rightarrow> ('l stack, entry_result option) action" where
  "stack_getEntry cf key =
    andthen (qualify_user_key key) (\<lambda>normalizedKey.
    andthen (assertActive ''getEntry'') (\<lambda>_ s.
      get_entry_layers cf key normalizedKey (clear_epoch s, key_epoch normalizedKey s) (all_layers s) False s))"

subsection \<open>has and ttl\<close>

definition reportRecoverableLayerFailure :: "'l stack_config \<Rightarrow> nat \<Rightarrow> string \<Rightarrow> error \<Rightarrow> ('l stack, unit) action" where
  "reportRecoverableLayerFailure cf i operation error s =
    (if (case cf_gracefulDegradation cf of None \<Rightarrow> False | Some (DegBool b) \<Rightarrow> b | Some (DegOptions _) \<Rightarrow> True)
     then handleLayerFailure cf i operation error s
     else (Inr (), emit (EvError operation) s))"

fun has_layers :: "'l stack_config \<Rightarrow> string \<Rightarrow> nat list \<Rightarrow> ('l stack, bool) action" where
  "has_layers cf key [] s = (Inr False, s)"
| "has_layers cf key (i # is) s =
    (case skip_layer i s of (skip, s1) \<Rightarrow>
       if skip then has_layers cf key is s1
       else case la_has (ly_api (the_layer i s1)) of
         Some hasKey \<Rightarrow>
           (case call_layer i (\<lambda>api t. hasKey t key) s1 of
              (Inl e, s2) \<Rightarrow>
                (case reportRecoverableLayerFailure cf i ''has'' (BackendError ''has'') s2 of
                   (Inl e', s3) \<Rightarrow> (Inl e', s3)
                 | (Inr _, s3) \<Rightarrow> has_layers cf key is s3)
            | (Inr found, s2) \<Rightarrow> if found then (Inr True, s2) else has_layers cf key is s2)
       | None \<Rightarrow>
           (case call_layer i (\<lambda>api t. la_get api t key) s1 of
              (Inl e, s2) \<Rightarrow>
                (case reportRecoverableLayerFailure cf i ''has'' e s2 of
                   (Inl e', s3) \<Rightarrow> (Inl e', s3)
                 | (Inr _, s3) \<Rightarrow> has_layers cf key is s3)
            | (Inr value, s2) \<Rightarrow> if value \<noteq> JNull then (Inr True, s2) else has_layers cf key is s2))"

definition stack_has :: "'l stack_config \<Rightarrow> string \<Rightarrow> ('l stack, bool) action" where
  "stack_has cf key =
    andthen (qualify_user_key key) (\<lambda>normalizedKey.
    andthen (assertActive ''has'') (\<lambda>_ s. has_layers cf normalizedKey (all_layers s) s))"

fun ttl_layers :: "string \<Rightarrow> nat list \<Rightarrow> ('l stack, real option) action" where
  \<comment> \<open>an error of a layer falls through to the next one\<close>
  "ttl_layers key [] s = (Inr None, s)"
| "ttl_layers key (i # is) s =
    (case skip_layer i s of (skip, s1) \<Rightarrow>
       if skip then ttl_layers key is s1
       else case la_ttl (ly_api (the_layer i s1)) of
         None \<Rightarrow> ttl_layers key is s1
       | Some ttl \<Rightarrow>
           (case call_layer i (\<lambda>api t. ttl t key) s1 of
              (Inr (Some remaining), s2) \<Rightarrow> (Inr (Some remaining), s2)
            | (_, s2) \<Rightarrow> ttl_layers key is s2))"

definition stack_ttl :: "string \<Rightarrow> ('l stack, real option) action" where
  "stack_ttl key =
    andthen (qualify_user_key key) (\<lambda>normalizedKey.
    andthen (assertActive ''ttl'') (\<lambda>_ s. ttl_layers normalizedKey (all_layers s) s))"

subsection \<open>mget\<close>

record mget_state =
  mg_pending :: "string list"
  mg_results :: "(string, js) jsmap"

fun read_entries :: "'l stack_config \<Rightarrow> nat \<Rightarrow> string list \<Rightarrow> ('l stack, js list) action" where
  \<comment> \<open>\<open>Promise.all(keys.map(readLayerEntry))\<close>\<close>
  "read_entries cf i [] s = (Inr [], s)"
| "read_entries cf i (key # keys) s =
    (case readLayerEntry cf i key s of
       (r, s1) \<Rightarrow> case read_entries cf i keys s1 of
         (r', s2) \<Rightarrow> (case r of Inl e \<Rightarrow> Inl e | Inr v \<Rightarrow> (case r' of Inl e \<Rightarrow> Inl e | Inr vs \<Rightarrow> Inr (v # vs)), s2))"

fun mget_values ::
    "'l stack_config \<Rightarrow> string list \<Rightarrow> (string \<Rightarrow> nat \<times> nat) \<Rightarrow> nat \<Rightarrow> (string \<times> js) list \<Rightarrow> mget_state
      \<Rightarrow> ('l stack, mget_state) action" where
  \<comment> \<open>the values one layer returned; \<open>allKeys\<close> gives how often a key was asked for\<close>
  "mget_values cf allKeys fences i [] m s = (Inr m, s)"
| "mget_values cf allKeys fences i ((key, stored) # kvs) m s =
    (if key = [] \<or> stored = JNull then mget_values cf allKeys fences i kvs m s
     else let resolved = resolveStoredValue (sk_now s) stored (sk_now s); n = int (count_list allKeys key) in
       if rsv_state resolved = Expired
       then (case call_layer i (\<lambda>api t. la_delete api t key) s of
               (Inl e, s1) \<Rightarrow> (Inl e, s1) | (Inr _, s1) \<Rightarrow> mget_values cf allKeys fences i kvs m s1)
       else let s1 = (if rsv_state resolved = StaleWhileRevalidate \<or> rsv_state resolved = StaleIfError
                      then count_metric MStaleHits n s else s)
         in (case backfill cf key stored i no_write_options (fences key) (s1\<lparr>sk_tags := touch key (sk_now s1) (sk_tags s1)\<rparr>) of
               (Inl e, s2) \<Rightarrow> (Inl e, s2)
             | (Inr _, s2) \<Rightarrow>
                 mget_values cf allKeys fences i kvs
                   (m\<lparr>mg_results := AList.update key (if isNegativeStoredValue (sk_now s2) stored then JUndef else rsv_value resolved) (mg_results m),
                      mg_pending := js_remove key (mg_pending m)\<rparr>)
                   (count_metric MHits n s2)))"

fun mget_layers ::
    "'l stack_config \<Rightarrow> string list \<Rightarrow> (string \<Rightarrow> nat \<times> nat) \<Rightarrow> nat list \<Rightarrow> mget_state \<Rightarrow> ('l stack, mget_state) action" where
  \<comment> \<open>an error of \<open>getMany\<close> is not recovered\<close>
  "mget_layers cf allKeys fences [] m s = (Inr m, s)"
| "mget_layers cf allKeys fences (i # is) m s =
    (case skip_layer i s of (skip, s1) \<Rightarrow>
       if skip then mget_layers cf allKeys fences is m s1
       else let keys = mg_pending m in
         if keys = [] then (Inr m, s1)
         else (case (case la_getMany (ly_api (the_layer i s1)) of
                       Some getMany \<Rightarrow> call_layer i (\<lambda>api t. getMany t keys) s1
                     | None \<Rightarrow> read_entries cf i keys s1) of
                 (Inl e, s2) \<Rightarrow> (Inl e, s2)
               | (Inr values, s2) \<Rightarrow>
                   (case mget_values cf allKeys fences i (zip keys values) m s2 of
                      (Inl e, s3) \<Rightarrow> (Inl e, s3)
                    | (Inr m', s3) \<Rightarrow> mget_layers cf allKeys fences is m' s3)))"

definition mget_bulk :: "'l stack_config \<Rightarrow> string list \<Rightarrow> ('l stack, js list) action" where
  \<comment> \<open>\<open>mget\<close> when no entry has a fetcher or options\<close>
  "mget_bulk cf userKeys =
    andthen (assertActive ''mget'') (\<lambda>_.
      if userKeys = [] then ret []
      else andthen (qualify_all userKeys) (\<lambda>keys.
           andthen (assertActive ''mget'') (\<lambda>_ s.
             let fences = (\<lambda>key. (clear_epoch s, key_epoch key s)) in
             andthen (mget_layers cf keys fences (all_layers s) \<lparr>mg_pending = js_unique keys, mg_results = []\<rparr>) (\<lambda>m s1.
               let s2 = fold (\<lambda>key s. count_metric MMisses (int (count_list keys key))
                           (s\<lparr>sk_tags := removeKey key (sk_tags s)\<rparr>)) (mg_pending m) s1
               in (Inr (map (\<lambda>key. nullish (map_of (mg_results m) key) JUndef) keys), s2)) s)))"

subsection \<open>mset\<close>

fun qualify_entries :: "mset_entry list \<Rightarrow> ('l stack, mset_entry list) action" where
  "qualify_entries [] s = (Inr [], s)"
| "qualify_entries (e # es) s =
    (case qualify_user_key (ms_key e) s of
       (Inl er, s1) \<Rightarrow> (Inl er, s1)
     | (Inr k, s1) \<Rightarrow> (case qualify_entries es s1 of (Inl er, s2) \<Rightarrow> (Inl er, s2) | (Inr es', s2) \<Rightarrow> (Inr (e\<lparr>ms_key := k\<rparr> # es'), s2)))"

fun resolve_entries :: "mset_entry list \<Rightarrow> mset_entry list result" where
  "resolve_entries [] = Inr []"
| "resolve_entries (e # es) =
    bind_result
      (case ms_options e of
         None \<Rightarrow> Inr e
       | Some opts \<Rightarrow> bind_result (resolveContextOptions (ms_key e) WValue (ms_value e) opts) (\<lambda>o'. Inr (e\<lparr>ms_options := Some o'\<rparr>)))
      (\<lambda>e'. bind_result (resolve_entries es) (\<lambda>es'. Inr (e' # es')))"

fun record_batch :: "nat \<times> (string, nat) jsmap \<Rightarrow> mset_entry list \<Rightarrow> 'l stack \<Rightarrow> 'l stack" where
  \<comment> \<open>tags, metrics and events of the entries no invalidation overtook\<close>
  "record_batch epochs [] s = s"
| "record_batch epochs (e # es) s =
    (if isWriteOutdated (ms_key e) (Some (fst epochs)) (map_of (snd epochs) (ms_key e)) (sk_maint s) then record_batch epochs es s
     else let tags = (case ms_options e of None \<Rightarrow> None | Some opts \<Rightarrow> o_tags opts);
              s1 = (case tags of
                      Some ts \<Rightarrow> s\<lparr>sk_tags := track (ms_key e) ts (sk_now s) (sk_tags s)\<rparr>
                    | None \<Rightarrow> s\<lparr>sk_tags := touch (ms_key e) (sk_now s) (sk_tags s)\<rparr>)
       in record_batch epochs es (emit (EvSet (ms_key e) WValue tags) (count_metric MSets 1 s1)))"

definition stack_writeBatch :: "'l stack_config \<Rightarrow> mset_entry list \<Rightarrow> ('l stack, unit) action" where
  "stack_writeBatch cf entries =
    andthen (lift_result (resolve_entries entries)) (\<lambda>resolvedEntries.
    andthen (writeBatch cf resolvedEntries) (\<lambda>epochs s.
      if fst epochs \<noteq> clear_epoch s then (Inr (), s)
      else let s1 = record_batch epochs resolvedEntries s in
        if cf_broadcastL1 cf
        then publishInvalidation cf (inv_message cf ScopeKeys (Some (map ms_key entries)) OpWrite) s1
        else (Inr (), s1)))"

definition stack_mset :: "'l stack_config \<Rightarrow> mset_entry list \<Rightarrow> ('l stack, unit) action" where
  "stack_mset cf entries =
    andthen (assertActive ''mset'') (\<lambda>_.
    andthen (qualify_entries entries) (\<lambda>normalizedEntries.
    andthen (lift_result (validate_each (\<lambda>e. validateWriteOptions (ms_options e)) normalizedEntries)) (\<lambda>_.
    andthen (assertActive ''mset'') (\<lambda>_.
      stack_writeBatch cf normalizedEntries))))"

end
