(* ===== verification/StackAdmin.thy ===== *)
theory StackAdmin
  imports StackReads
begin

text \<open>
  The remaining operations of \<open>src/src/CacheStack.ts\<close>: the aliases, the per-entry path of \<open>mget\<close>, warming,
  generations and their cleanup, inspection, statistics, snapshots in memory
  (\<open>src/src/internal/CacheStackSnapshotManager.ts\<close>) and shutdown.

  \<^item> A scheduled generation cleanup is a number in \<open>sk_cleanups\<close> (the promise chain); running the next
    one is a step of its own.
  \<^item> \<open>ping\<close> and \<open>dispose\<close> of a layer are arguments.
\<close>

subsection \<open>Aliases\<close>

definition getOrSet :: "'l stack_config \<Rightarrow> string \<Rightarrow> nat \<Rightarrow> write_options option \<Rightarrow> ('l stack, js) action" where
  "getOrSet cf key fetcher options = stack_get cf key (Some fetcher) options"

definition invalidateByKey :: "'l stack_config \<Rightarrow> string \<Rightarrow> ('l stack, unit) action" where
  "invalidateByKey cf key = stack_delete cf key"

definition invalidateByKeys :: "'l stack_config \<Rightarrow> string list \<Rightarrow> ('l stack, unit) action" where
  "invalidateByKeys cf keys = mdelete cf keys"

subsection \<open>mget with fetchers or options\<close>

record read_request =
  rq_key :: string
  rq_fetch :: "nat option"
  rq_options :: "write_options option"

text \<open>
  The signature of the options of an entry is an argument: the text \<open>serializeOptions\<close> builds, or the
  error it throws. Reads that were started go on after a conflict was thrown; the first error of the
  map is the one thrown, else the first error of a read.
\<close>

record pending_read =
  pr_result :: "js result"
  pr_fetch :: "nat option"
  pr_signature :: string

fun mget_each ::
    "'l stack_config \<Rightarrow> (write_options option \<Rightarrow> string result) \<Rightarrow> (string, pending_read) jsmap \<Rightarrow> read_request list
      \<Rightarrow> ('l stack, js result list) action" where
  "mget_each cf signature pendingReads [] s = (Inr [], s)"
| "mget_each cf signature pendingReads (q # qs) s =
    (case signature (rq_options q) of
       Inl e \<Rightarrow> (Inl e, s)
     | Inr sig \<Rightarrow>
         (case map_of pendingReads (rq_key q) of
            None \<Rightarrow>
              (case getPrepared cf (rq_key q) (rq_fetch q) (nullish (rq_options q) no_write_options) s of
                 (r, s1) \<Rightarrow>
                   (case mget_each cf signature
                      (AList.update (rq_key q) \<lparr>pr_result = r, pr_fetch = rq_fetch q, pr_signature = sig\<rparr> pendingReads) qs s1 of
                      (Inl e, s2) \<Rightarrow> (Inl e, s2) | (Inr rs, s2) \<Rightarrow> (Inr (r # rs), s2)))
          | Some existing \<Rightarrow>
              if pr_fetch existing \<noteq> rq_fetch q \<or> pr_signature existing \<noteq> sig
              then (Inl (OtherError ''mget received conflicting entries''), s)
              else (case mget_each cf signature pendingReads qs s of
                      (Inl e, s2) \<Rightarrow> (Inl e, s2) | (Inr rs, s2) \<Rightarrow> (Inr (pr_result existing # rs), s2))))"

fun first_error :: "'a result list \<Rightarrow> 'a list result" where
  \<comment> \<open>\<open>Promise.all\<close> of settled reads\<close>
  "first_error [] = Inr []"
| "first_error (r # rs) = bind_result r (\<lambda>v. bind_result (first_error rs) (\<lambda>vs. Inr (v # vs)))"

fun qualify_requests :: "read_request list \<Rightarrow> ('l stack, read_request list) action" where
  "qualify_requests [] s = (Inr [], s)"
| "qualify_requests (q # qs) s =
    (case qualify_user_key (rq_key q) s of
       (Inl e, s1) \<Rightarrow> (Inl e, s1)
     | (Inr k, s1) \<Rightarrow> (case qualify_requests qs s1 of (Inl e, s2) \<Rightarrow> (Inl e, s2) | (Inr qs', s2) \<Rightarrow> (Inr (q\<lparr>rq_key := k\<rparr> # qs'), s2)))"

definition stack_mget ::
    "'l stack_config \<Rightarrow> (write_options option \<Rightarrow> string result) \<Rightarrow> read_request list \<Rightarrow> ('l stack, js list) action" where
  "stack_mget cf signature requests =
    (if list_all (\<lambda>q. rq_fetch q = None \<and> rq_options q = None) requests then mget_bulk cf (map rq_key requests)
     else andthen (assertActive ''mget'') (\<lambda>_.
          andthen (qualify_requests requests) (\<lambda>qs.
          andthen (lift_result (validate_each (\<lambda>q. validateWriteOptions (rq_options q)) qs)) (\<lambda>_.
          andthen (assertActive ''mget'') (\<lambda>_.
          andthen (mget_each cf signature [] qs) (\<lambda>rs. lift_result (first_error rs)))))))"

subsection \<open>Warming\<close>

record warm_entry =
  we_key :: string
  we_fetcher :: nat
  we_options :: "write_options option"
  we_priority :: "real option"

record warm_progress =
  wp_completed :: nat
  wp_total :: nat
  wp_key :: string
  wp_success :: bool

definition warm_queue :: "warm_entry list \<Rightarrow> warm_entry list" where
  \<comment> \<open>the stable sort by descending priority\<close>
  "warm_queue entries = sort_key (\<lambda>e. - nullish (we_priority e) 0) entries"

fun warm_loop ::
    "'l stack_config \<Rightarrow> bool \<Rightarrow> nat \<Rightarrow> nat \<Rightarrow> warm_entry list \<Rightarrow> warm_progress list \<Rightarrow> 'l stack
      \<Rightarrow> error option \<times> warm_progress list \<times> 'l stack" where
  \<comment> \<open>entries are taken from the queue in order; an error ends one of the workers\<close>
  "warm_loop cf continueOnError entryCount workers [] ps s = (None, ps, s)"
| "warm_loop cf continueOnError entryCount workers (e # es) ps s =
    (if workers = 0 then (None, ps, s)
     else case stack_get cf (we_key e) (Some (we_fetcher e)) (we_options e) s of
       (Inr _, s1) \<Rightarrow>
         warm_loop cf continueOnError entryCount workers es
           (ps @ [\<lparr>wp_completed = Suc (length ps), wp_total = entryCount, wp_key = we_key e, wp_success = True\<rparr>]) (emit (EvWarm (we_key e)) s1)
     | (Inl er, s1) \<Rightarrow>
         (case warm_loop cf continueOnError entryCount (if continueOnError then workers else workers - 1) es
            (ps @ [\<lparr>wp_completed = Suc (length ps), wp_total = entryCount, wp_key = we_key e, wp_success = False\<rparr>])
            (emit (EvError ''warm'') s1) of
            (later, ps', s2) \<Rightarrow> (if continueOnError then later else Some er, ps', s2)))"

definition warm :: "'l stack_config \<Rightarrow> nat option \<Rightarrow> bool \<Rightarrow> warm_entry list \<Rightarrow> 'l stack \<Rightarrow> unit result \<times> warm_progress list \<times> 'l stack" where
  \<comment> \<open>with the calls of \<open>onProgress\<close> it makes\<close>
  "warm cf concurrency continueOnError entries s =
    (case assertActive ''warm'' s of
       (Inl e, s1) \<Rightarrow> (Inl e, [], s1)
     | (Inr _, s1) \<Rightarrow>
         (let workers = min (max 1 (nullish concurrency 4)) (if entries = [] then 1 else length entries) in
          case warm_loop cf continueOnError (length entries) workers (warm_queue entries) [] s1 of
            (e, ps, s2) \<Rightarrow> (case e of None \<Rightarrow> Inr () | Some er \<Rightarrow> Inl er, ps, s2)))"

subsection \<open>Generations\<close>

definition bumpGeneration :: "'l stack_config \<Rightarrow> nat option \<Rightarrow> 'l stack \<Rightarrow> nat \<times> 'l stack" where
  "bumpGeneration cf nextGeneration s =
    (let current = nullish (sk_generation s) 0;
         updatedGeneration = nullish nextGeneration (current + 1);
         target = resolveGenerationCleanupTarget (sk_generation s) updatedGeneration (cf_generationCleanup cf);
         s1 = s\<lparr>sk_generation := Some updatedGeneration\<rparr>
     in (updatedGeneration, case target of None \<Rightarrow> s1 | Some g \<Rightarrow> s1\<lparr>sk_cleanups := sk_cleanups s1 @ [g]\<rparr>))"

definition getGeneration :: "'l stack \<Rightarrow> nat option" where
  "getGeneration s = sk_generation s"

text \<open>
  \<open>forEachKeyWithPrefix\<close> hands every new key to a visitor that may change the stack; the set of keys
  already visited survives an error of one layer's scan. The keys of the index and of a layer are read
  when their visit begins: the visitor only removes keys it has been given.
\<close>

fun visit_new ::
    "match_limit \<Rightarrow> (string \<Rightarrow> ('w, unit) action) \<Rightarrow> string list \<Rightarrow> string list \<Rightarrow> 'w \<Rightarrow> unit result \<times> string list \<times> 'w" where
  "visit_new maxMatches visitor seen [] w = (Inr (), seen, w)"
| "visit_new maxMatches visitor seen (key # keys) w =
    (if key \<in> set seen then visit_new maxMatches visitor seen keys w
     else let seen' = seen @ [key] in
       case assertWithinLimit maxMatches (length seen') of
         Inl e \<Rightarrow> (Inl e, seen', w)
       | Inr _ \<Rightarrow>
           (case visitor key w of
              (Inl e, w') \<Rightarrow> (Inl e, seen', w')
            | (Inr _, w') \<Rightarrow> visit_new maxMatches visitor seen' keys w'))"

fun is_limit_error :: "error \<Rightarrow> bool" where
  "is_limit_error (InvalidationLimit _ _) = True"
| "is_limit_error _ = False"

type_synonym 'l batching = "'l stack \<times> string list"   \<comment> \<open>the stack and the keys of the open batch\<close>

definition visit_layer_keys ::
    "'l stack_config \<Rightarrow> string \<Rightarrow> match_limit \<Rightarrow> (string \<Rightarrow> ('l batching, unit) action) \<Rightarrow> string list \<Rightarrow> nat \<Rightarrow> 'l batching
      \<Rightarrow> unit result \<times> string list \<times> 'l batching" where
  \<comment> \<open>one layer of \<open>forEachKeyWithPrefix\<close>\<close>
  "visit_layer_keys cf pre maxMatches visitor seen i w =
    (case la_keys (ly_api (the_layer i (fst w))) of
       None \<Rightarrow> (Inr (), seen, w)
     | Some keysOf \<Rightarrow>
         (case skip_layer i (fst w) of (skip, s1) \<Rightarrow>
            if skip then (Inr (), seen, (s1, snd w))
            else
              let (r, seen', w') =
                (case call_layer i (\<lambda>api t. keysOf t) s1 of
                   (Inl e, s2) \<Rightarrow>
                     (case visit_new maxMatches visitor seen (filter (\<lambda>key. starts_with key pre) (visited_keys i s1)) (s2, snd w) of
                        (Inl e', seen', w') \<Rightarrow> (Inl e', seen', w')
                      | (Inr _, seen', w') \<Rightarrow> (Inl e, seen', w'))
                 | (Inr keys, s2) \<Rightarrow> visit_new maxMatches visitor seen (filter (\<lambda>key. starts_with key pre) keys) (s2, snd w))
              in case r of
                   Inr _ \<Rightarrow> (Inr (), seen', w')
                 | Inl e \<Rightarrow>
                     if is_limit_error e then (Inl e, seen', w')
                     else (case handleLayerFailure cf i ''invalidate-prefix-scan'' e (fst w') of
                             (r', s3) \<Rightarrow> (r', seen', (s3, snd w')))))"

fun visit_layers ::
    "'l stack_config \<Rightarrow> string \<Rightarrow> match_limit \<Rightarrow> (string \<Rightarrow> ('l batching, unit) action) \<Rightarrow> string list \<Rightarrow> nat list \<Rightarrow> ('l batching, unit) action" where
  "visit_layers cf pre maxMatches visitor seen [] w = (Inr (), w)"
| "visit_layers cf pre maxMatches visitor seen (i # is) w =
    (case visit_layer_keys cf pre maxMatches visitor seen i w of
       (Inl e, seen', w') \<Rightarrow> (Inl e, w')
     | (Inr _, seen', w') \<Rightarrow> visit_layers cf pre maxMatches visitor seen' is w')"

definition forEachKeyWithPrefix ::
    "'l stack_config \<Rightarrow> string \<Rightarrow> (string \<Rightarrow> ('l batching, unit) action) \<Rightarrow> match_limit \<Rightarrow> ('l batching, unit) action" where
  "forEachKeyWithPrefix cf pre visitor maxMatches w =
    (case visit_new maxMatches visitor [] (keysForPrefix pre (sk_tags (fst w))) w of
       (Inl e, seen, w') \<Rightarrow> (Inl e, w')
     | (Inr _, seen, w') \<Rightarrow> visit_layers cf pre maxMatches visitor seen [0..<length (sk_layers (fst w'))] w')"

definition flush_batch :: "'l stack_config \<Rightarrow> ('l batching, unit) action" where
  "flush_batch cf w =
    (if snd w = [] then (Inr (), w)
     else case andthen (deleteKeys cf (snd w)) (\<lambda>_.
              publishInvalidation cf (inv_message cf ScopeKeys (Some (snd w)) OpInvalidate)) (fst w) of
            (r, s1) \<Rightarrow> (r, (s1, [])))"

definition batch_visitor :: "'l stack_config \<Rightarrow> nat \<Rightarrow> string \<Rightarrow> ('l batching, unit) action" where
  "batch_visitor cf batchSize key w =
    (let w1 = (fst w, snd w @ [key]) in if batchSize \<le> length (snd w1) then flush_batch cf w1 else (Inr (), w1))"

definition cleanupGeneration :: "'l stack_config \<Rightarrow> nat \<Rightarrow> ('l stack, unit) action" where
  "cleanupGeneration cf generation s =
    (let pre = ''v'' @ decimal generation @ '':'';
         batchSize = resolveGenerationCleanupBatchSize (cf_generationCleanup cf);
         maxMatches = resolveGenerationCleanupMaxMatches (cf_generationCleanup cf)
     in case andthen (forEachKeyWithPrefix cf pre (batch_visitor cf batchSize) maxMatches) (\<lambda>_. flush_batch cf) (s, []) of
          (r, w) \<Rightarrow> (r, fst w))"

definition run_cleanup :: "'l stack_config \<Rightarrow> 'l stack \<Rightarrow> 'l stack" where
  \<comment> \<open>the next task of the chain; its error is only logged\<close>
  "run_cleanup cf s =
    (case sk_cleanups s of
       [] \<Rightarrow> s
     | g # gs \<Rightarrow> snd (cleanupGeneration cf g (s\<lparr>sk_cleanups := gs\<rparr>)))"

subsection \<open>Inspection\<close>

definition ttl_left :: "real \<Rightarrow> real option \<Rightarrow> real option" where
  "ttl_left now deadline = map_option (\<lambda>d. max 0 (math_ceil (d - now))) deadline"

fun inspect_layers :: "'l stack_config \<Rightarrow> string \<Rightarrow> nat list \<Rightarrow> inspect_result \<Rightarrow> ('l stack, inspect_result) action" where
  "inspect_layers cf key [] found s = (Inr found, s)"
| "inspect_layers cf key (i # is) found s =
    (case skip_layer i s of (skip, s0) \<Rightarrow>
       if skip then inspect_layers cf key is found s0
       else (case readLayerEntry cf i key s0 of
         (Inl e, s1) \<Rightarrow> (Inl e, s1)
       | (Inr stored, s1) \<Rightarrow>
           if stored = JNull then inspect_layers cf key is found s1
           else let resolved = resolveStoredValue (sk_now s1) stored (sk_now s1) in
             if rsv_state resolved = Expired then inspect_layers cf key is found s1
             else let found1 = found\<lparr>ir_foundInLayers := ir_foundInLayers found @ [ly_name (the_layer i s1)]\<rparr>;
                      found2 = (case rsv_envelope resolved of
                          Some e \<Rightarrow>
                            if length (ir_foundInLayers found1) = 1
                            then found1\<lparr>ir_freshTtlMs := ttl_left (sk_now s1) (freshUntil e),
                                   ir_staleTtlMs := ttl_left (sk_now s1) (staleUntil e),
                                   ir_errorTtlMs := ttl_left (sk_now s1) (errorUntil e),
                                   ir_isStale := (rsv_state resolved = StaleWhileRevalidate \<or> rsv_state resolved = StaleIfError)\<rparr>
                            else found1
                        | None \<Rightarrow> found1)
                  in inspect_layers cf key is found2 s1))"

definition stack_inspect :: "'l stack_config \<Rightarrow> string \<Rightarrow> ('l stack, inspect_result option) action" where
  "stack_inspect cf key =
    andthen (qualify_user_key key) (\<lambda>normalizedKey.
    andthen (assertActive ''inspect'') (\<lambda>_ s.
    andthen (inspect_layers cf normalizedKey (all_layers s)
        \<lparr>ir_key = key, ir_foundInLayers = [], ir_freshTtlMs = None, ir_staleTtlMs = None, ir_errorTtlMs = None,
         ir_isStale = False, ir_tags = []\<rparr>)
      (\<lambda>found s1. (Inr (if ir_foundInLayers found = [] then None
                        else Some (found\<lparr>ir_tags := tagsForKey normalizedKey (sk_tags s1)\<rparr>)), s1)) s))"

subsection \<open>Statistics\<close>

record layer_stats =
  ls_name :: string
  ls_isLocal :: bool
  ls_degradedUntil :: "real option"

record stats_snapshot =
  ss_metrics :: metrics_snapshot
  ss_layers :: "layer_stats list"
  ss_backgroundRefreshes :: nat

definition getMetrics :: "'l stack \<Rightarrow> metrics_snapshot" where
  "getMetrics s = mc_data (sk_metrics s)"

definition getStats :: "'l stack \<Rightarrow> stats_snapshot" where
  "getStats s = \<lparr>ss_metrics = getMetrics s,
     ss_layers = map (\<lambda>ly. \<lparr>ls_name = ly_name ly, ls_isLocal = ly_isLocal ly,
       ls_degradedUntil = map_of (sk_degradedUntil s) (ly_name ly)\<rparr>) (sk_layers s),
     ss_backgroundRefreshes = length (sk_refreshes s)\<rparr>"

definition resetMetrics :: "'l stack \<Rightarrow> 'l stack" where
  "resetMetrics s = s\<lparr>sk_metrics := mc_reset (sk_now s) (sk_metrics s)\<rparr>"

definition getHitRate :: "'l stack \<Rightarrow> hit_rate_snapshot" where
  "getHitRate s = hit_rate (getMetrics s)"

record health_check_result =
  hc_layer :: string
  hc_healthy :: bool
  hc_latencyMs :: real
  hc_error :: "error option"

definition healthCheck :: "(nat \<Rightarrow> bool result option) \<Rightarrow> (nat \<Rightarrow> real) \<Rightarrow> 'l stack \<Rightarrow> health_check_result list" where
  \<comment> \<open>the \<open>ping\<close> hooks of the layers and the measured latencies are arguments\<close>
  "healthCheck ping elapsed s =
    map (\<lambda>i. case ping i of
           None \<Rightarrow> \<lparr>hc_layer = ly_name (the_layer i s), hc_healthy = True, hc_latencyMs = elapsed i, hc_error = None\<rparr>
         | Some (Inr healthy) \<Rightarrow> \<lparr>hc_layer = ly_name (the_layer i s), hc_healthy = healthy, hc_latencyMs = elapsed i, hc_error = None\<rparr>
         | Some (Inl e) \<Rightarrow> \<lparr>hc_layer = ly_name (the_layer i s), hc_healthy = False, hc_latencyMs = elapsed i, hc_error = Some e\<rparr>)
      (all_layers s)"

definition captureMetrics :: "('l stack, 'a) action \<Rightarrow> 'l stack \<Rightarrow> 'a result \<times> metrics_snapshot \<times> 'l stack" where
  "captureMetrics operation s = capture sk_metrics (\<lambda>c s. s\<lparr>sk_metrics := c\<rparr>) (sk_now s) operation s"

subsection \<open>Snapshots\<close>

fun export_keys ::
    "'l stack_config \<Rightarrow> match_limit \<Rightarrow> (snapshot_entry \<Rightarrow> 'l stack \<times> 'w \<Rightarrow> unit result \<times> ('l stack \<times> 'w)) \<Rightarrow> nat \<Rightarrow> string list
      \<Rightarrow> string list \<Rightarrow> ('l stack \<times> 'w, string list) action" where
  \<comment> \<open>\<open>visitKey\<close> over the keys of one layer, with the keys already exported\<close>
  "export_keys cf maxEntries visitor i exported [] w = (Inr exported, w)"
| "export_keys cf maxEntries visitor i exported (key # keys) w =
    (let exportedKey = stripGenerationPrefix key (sk_generation (fst w)) in
     if exportedKey \<in> set exported then export_keys cf maxEntries visitor i exported keys w
     else (case readLayerEntry cf i key (fst w) of
             (Inl e, s1) \<Rightarrow> (Inl e, (s1, snd w))
           | (Inr stored, s1) \<Rightarrow>
               if stored = JNull then export_keys cf maxEntries visitor i exported keys (s1, snd w)
               else let exported' = exported @ [exportedKey] in
                 if over_limit maxEntries (length exported')
                 then (Inl (OtherError ''Snapshot export exceeds snapshotMaxEntries limit''), (s1, snd w))
                 else (case visitor \<lparr>se_key = exportedKey, se_value = stored, se_ttl = remainingStoredTtlMs (sk_now s1) stored (sk_now s1)\<rparr> (s1, snd w) of
                         (Inl e, w2) \<Rightarrow> (Inl e, w2)
                       | (Inr _, w2) \<Rightarrow> export_keys cf maxEntries visitor i exported' keys w2)))"

fun visitExportEntries ::
    "'l stack_config \<Rightarrow> match_limit \<Rightarrow> (snapshot_entry \<Rightarrow> 'l stack \<times> 'w \<Rightarrow> unit result \<times> ('l stack \<times> 'w)) \<Rightarrow> nat list
      \<Rightarrow> string list \<Rightarrow> ('l stack \<times> 'w, unit) action" where
  "visitExportEntries cf maxEntries visitor [] exported w = (Inr (), w)"
| "visitExportEntries cf maxEntries visitor (i # is) exported w =
    (case la_keys (ly_api (the_layer i (fst w))) of
       None \<Rightarrow> visitExportEntries cf maxEntries visitor is exported w
     | Some keysOf \<Rightarrow>
         (case call_layer i (\<lambda>api t. keysOf t) (fst w) of
            (Inl e, s1) \<Rightarrow>
              (case export_keys cf maxEntries visitor i exported (visited_keys i (fst w)) (s1, snd w) of
                 (Inl e', w2) \<Rightarrow> (Inl e', w2)
               | (Inr _, w2) \<Rightarrow> (Inl e, w2))
          | (Inr keys, s1) \<Rightarrow>
              (case export_keys cf maxEntries visitor i exported keys (s1, snd w) of
                 (Inl e, w2) \<Rightarrow> (Inl e, w2)
               | (Inr exported', w2) \<Rightarrow> visitExportEntries cf maxEntries visitor is exported' w2)))"

definition exportState :: "'l stack_config \<Rightarrow> ('l stack, snapshot_entry list) action" where
  "exportState cf =
    andthen (assertActive ''exportState'') (\<lambda>_ s.
      case visitExportEntries cf (cf_snapshotMaxEntries cf) (\<lambda>e (s, es). (Inr (), (s, es @ [e]))) (all_layers s) [] (s, []) of
        (Inl e, (s1, es)) \<Rightarrow> (Inl e, s1)
      | (Inr _, (s1, es)) \<Rightarrow> (Inr es, s1))"

fun qualify_snapshot :: "snapshot_entry list \<Rightarrow> ('l stack, snapshot_entry list) action" where
  "qualify_snapshot [] s = (Inr [], s)"
| "qualify_snapshot (e # es) s =
    (case qualify_user_key (se_key e) s of
       (Inl er, s1) \<Rightarrow> (Inl er, s1)
     | (Inr k, s1) \<Rightarrow>
         (case qualify_snapshot es s1 of (Inl er, s2) \<Rightarrow> (Inl er, s2) | (Inr es', s2) \<Rightarrow> (Inr (e\<lparr>se_key := k\<rparr> # es'), s2)))"

definition import_to_layer :: "'l stack_config \<Rightarrow> snapshot_entry \<Rightarrow> nat \<Rightarrow> ('l stack, unit) action" where
  "import_to_layer cf e i s =
    (case skip_layer i s of (skip, s1) \<Rightarrow>
       if skip then (Inr (), s1)
       else recover_layer cf i ''write'' (call_layer i (\<lambda>api t. la_set api t (se_key e) (se_value e) (se_ttl e))) s1)"

definition import_entry :: "'l stack_config \<Rightarrow> snapshot_entry \<Rightarrow> ('l stack, unit) action" where
  "import_entry cf e s =
    andthen (promise_all (map (import_to_layer cf e) (all_layers s))) (\<lambda>_ s1. (Inr (), tags_of_key_touch (se_key e) s1)) s"

definition SNAPSHOT_IMPORT_BATCH_SIZE :: nat where
  "SNAPSHOT_IMPORT_BATCH_SIZE = 50"

function import_batches :: "'l stack_config \<Rightarrow> snapshot_entry list \<Rightarrow> ('l stack, unit) action" where
  "import_batches cf es s =
    (if es = [] then (Inr (), s)
     else case promise_all (map (import_entry cf) (take SNAPSHOT_IMPORT_BATCH_SIZE es)) s of
       (Inl e, s1) \<Rightarrow> (Inl e, s1)
     | (Inr _, s1) \<Rightarrow> import_batches cf (drop SNAPSHOT_IMPORT_BATCH_SIZE es) s1)"
  by auto
termination by (relation "measure (\<lambda>(cf, es, s). length es)") (auto simp: SNAPSHOT_IMPORT_BATCH_SIZE_def)

declare import_batches.simps [simp del]

definition importState :: "'l stack_config \<Rightarrow> snapshot_entry list \<Rightarrow> ('l stack, unit) action" where
  "importState cf entries =
    andthen (assertActive ''importState'') (\<lambda>_.
    andthen (qualify_snapshot entries) (import_batches cf))"

subsection \<open>Shutdown\<close>

definition flush_writes :: "'l stack_config \<Rightarrow> ('l stack, unit) action" where
  \<comment> \<open>\<open>CacheStack.flushWriteBehindQueue\<close>\<close>
  "flush_writes cf s =
    (case flushWriteBehindQueue (cf_writeBehindOptions cf) (runWriteBehindBatch cf) (sk_maint s) s of
       None \<Rightarrow> (Inl (OtherError ''diverges''), s)
     | Some (r, m, s1) \<Rightarrow> (r, s1\<lparr>sk_maint := m\<rparr>))"

definition run_aborted_refresh :: "'l stack_config \<Rightarrow> refresh_task \<Rightarrow> 'l stack \<Rightarrow> 'l stack" where
  \<comment> \<open>a refresh that settles after \<open>abortAllRefreshes\<close>: its error is not counted\<close>
  "run_aborted_refresh cf rf s =
    (let s1 = snd (fetchWithGuards cf (rf_key rf) (rf_fetcher rf) (rf_options rf) (rf_clearEpoch rf, rf_keyEpoch rf) (rf_context rf) s)
     in s1\<lparr>sk_refreshes := filter (\<lambda>x. rf_key x \<noteq> rf_key rf) (sk_refreshes s1)\<rparr>)"

definition stack_disconnect ::
    "'l stack_config \<Rightarrow> ('l stack, unit) action \<Rightarrow> (refresh_task \<Rightarrow> bool) \<Rightarrow> (nat \<Rightarrow> ('l stack, unit) action) \<Rightarrow> ('l stack, unit) action" where
  \<comment> \<open>the first call; \<open>settles\<close> tells which refreshes end within five seconds\<close>
  "stack_disconnect cf unsubscribe settles dispose s =
    andthen unsubscribe (\<lambda>_.
    andthen (flush_writes cf) (\<lambda>_ s1.
      let s2 = (run_cleanup cf ^^ length (sk_cleanups s1)) s1;
          s3 = fold (run_aborted_refresh cf) (filter settles (sk_refreshes s2)) s2;
          s4 = s3\<lparr>sk_maint := disposeWriteBehindTimer (sk_maint s3)\<rparr>;
          (failures, s5) = all_settled (map dispose (all_layers s4)) s4
      in (Inr (), s5))) (s\<lparr>sk_disconnecting := True\<rparr>)"

end
