(* ===== verification/KeySerialization.thy ===== *)
theory KeySerialization
  imports Generation
begin

text \<open>
  Cache keys from arguments (\<open>src/src/internal/CacheKeySerialization.ts\<close>) and the key \<open>CacheStack.wrap\<close>
  builds. A value is a \<open>kv\<close>: the kinds the code distinguishes; a circular object has no such value.

  \<^item> An object's list of properties is in enumeration order: array indices ascending, then the
    other keys in insertion order.
  \<^item> The text of a whole number below \<open>10 ^ 21\<close> is its decimal; the text of other finite numbers
    (\<open>ft\<close>), \<open>toISOString\<close> (\<open>iso\<close>) and the order of \<open>localeCompare\<close> (\<open>coll\<close>) are arguments.
  \<^item> The sort of the entries of a \<open>Map\<close> calls a comparator that throws when its left argument is an
    \<open>undefined\<close> key; which argument that is depends on the engine. Here several entries with such a
    key are the error.
  \<^item> JSON text is written for 8-bit characters, which are never surrogates.
\<close>

subsection \<open>Values\<close>

datatype kv =
    KvUndefined
  | KvNull
  | KvBoolean bool
  | KvNumber jsnum
  | KvString string
  | KvArray "kv list"
  | KvObject "(string \<times> kv) list"     \<comment> \<open>a plain object, or one without prototype\<close>
  | KvDate "int option"                 \<comment> \<open>\<open>None\<close> when invalid\<close>
  | KvUrl string
  | KvRegExp string string
  | KvMap "(kv \<times> kv) list"
  | KvSet "kv list"
  | KvInstance string                   \<comment> \<open>an instance of another class\<close>
  | KvFunction
  | KvSymbol
  | KvBigInt int

definition DANGEROUS_OBJECT_KEYS :: "string list" where
  "DANGEROUS_OBJECT_KEYS = [''__proto__'', ''prototype'', ''constructor'']"

definition RESERVED_TYPE_TAGS :: "string list" where
  "RESERVED_TYPE_TAGS = [''Date'', ''URL'', ''RegExp'', ''Map'', ''Set'']"

subsection \<open>Texts of the language\<close>

definition int_text :: "int \<Rightarrow> string" where
  "int_text n = (if n < 0 then CHR ''-'' # decimal (nat (- n)) else decimal (nat n))"

definition is_whole :: "real \<Rightarrow> bool" where
  "is_whole x \<longleftrightarrow> of_int \<lfloor>x\<rfloor> = x \<and> \<bar>x\<bar> < 10 ^ 21"

fun number_text :: "(real \<Rightarrow> string) \<Rightarrow> jsnum \<Rightarrow> string" where
  "number_text ft (Fin x) = (if is_whole x then int_text \<lfloor>x\<rfloor> else ft x)"
| "number_text ft PosInf = ''Infinity''"
| "number_text ft NegInf = ''-Infinity''"
| "number_text ft NaN = ''NaN''"

definition hex_digit :: "nat \<Rightarrow> char" where
  "hex_digit n = (if n < 10 then digit n else char_of (87 + n))"

definition esc_char :: "char \<Rightarrow> string" where
  "esc_char c =
    (if c = CHR 0x22 then [CHR 0x5C, CHR 0x22]
     else if c = CHR 0x5C then [CHR 0x5C, CHR 0x5C]
     else if c = CHR 0x08 then [CHR 0x5C, CHR ''b'']
     else if c = CHR 0x09 then [CHR 0x5C, CHR ''t'']
     else if c = CHR 0x0A then [CHR 0x5C, CHR ''n'']
     else if c = CHR 0x0C then [CHR 0x5C, CHR ''f'']
     else if c = CHR 0x0D then [CHR 0x5C, CHR ''r'']
     else if (of_char c :: nat) < 32
     then [CHR 0x5C, CHR ''u'', CHR ''0'', CHR ''0'', hex_digit (of_char c div 16), hex_digit (of_char c mod 16)]
     else [c])"

definition json_string :: "string \<Rightarrow> string" where
  "json_string s = CHR 0x22 # concat (map esc_char s) @ [CHR 0x22]"

fun json :: "(real \<Rightarrow> string) \<Rightarrow> js \<Rightarrow> string"
  and json_elements :: "(real \<Rightarrow> string) \<Rightarrow> bool \<Rightarrow> js list \<Rightarrow> string"
  and json_members :: "(real \<Rightarrow> string) \<Rightarrow> bool \<Rightarrow> (string \<times> js) list \<Rightarrow> string" where
  \<comment> \<open>\<open>JSON.stringify\<close>; inside an array \<open>undefined\<close> is written \<open>null\<close>, as a member it is left out\<close>
  "json ft JUndef = ''null''"
| "json ft JNull = ''null''"
| "json ft (JBool b) = (if b then ''true'' else ''false'')"
| "json ft (JNum n) = (case n of Fin x \<Rightarrow> number_text ft n | _ \<Rightarrow> ''null'')"
| "json ft (JStr s) = json_string s"
| "json ft (JArr xs) = CHR ''['' # json_elements ft True xs @ '']''"
| "json ft (JObj ps) = CHR ''{'' # json_members ft True ps @ ''}''"
| "json_elements ft first [] = []"
| "json_elements ft first (x # xs) = (if first then [] else '','') @ json ft x @ json_elements ft False xs"
| "json_members ft first [] = []"
| "json_members ft first ((k, v) # ps) =
    (if v = JUndef then json_members ft first ps
     else (if first then [] else '','') @ json_string k @ CHR '':'' # json ft v @ json_members ft False ps)"

definition json_stringify :: "(real \<Rightarrow> string) \<Rightarrow> js \<Rightarrow> string" where
  \<comment> \<open>as a template literal prints it\<close>
  "json_stringify ft v = (if v = JUndef then ''undefined'' else json ft v)"

definition is_digit :: "char \<Rightarrow> bool" where
  "is_digit c \<longleftrightarrow> 48 \<le> (of_char c :: nat) \<and> (of_char c :: nat) \<le> 57"

definition digits_value :: "string \<Rightarrow> nat" where
  "digits_value s = fold (\<lambda>c n. 10 * n + (of_char c - 48)) s 0"

definition is_array_index :: "string \<Rightarrow> bool" where
  "is_array_index k \<longleftrightarrow> k \<noteq> [] \<and> list_all is_digit k \<and> (hd k \<noteq> CHR ''0'' \<or> length k = 1) \<and> digits_value k < 4294967295"

definition enumeration_order :: "(string \<times> 'a) list \<Rightarrow> (string \<times> 'a) list" where
  \<comment> \<open>the properties of an object that was given these, in this order\<close>
  "enumeration_order ps =
    sort_key (\<lambda>p. digits_value (fst p)) (filter (\<lambda>p. is_array_index (fst p)) ps) @ filter (\<lambda>p. \<not> is_array_index (fst p)) ps"

fun char_less_eq :: "string \<Rightarrow> string \<Rightarrow> bool" where
  \<comment> \<open>the order of the default \<open>sort\<close>, by code units\<close>
  "char_less_eq [] t = True"
| "char_less_eq (c # s) [] = False"
| "char_less_eq (c # s) (d # t) =
    ((of_char c :: nat) < of_char d \<or> (c = d \<and> char_less_eq s t))"

fun insert_by :: "('a \<Rightarrow> 'a \<Rightarrow> bool) \<Rightarrow> 'a \<Rightarrow> 'a list \<Rightarrow> 'a list" where
  "insert_by le x [] = [x]"
| "insert_by le x (y # ys) = (if le x y then x # y # ys else y # insert_by le x ys)"

definition sort_by :: "('a \<Rightarrow> 'a \<Rightarrow> bool) \<Rightarrow> 'a list \<Rightarrow> 'a list" where
  \<comment> \<open>a stable sort\<close>
  "sort_by le xs = foldr (insert_by le) xs []"

definition sort_defined :: "(js \<Rightarrow> js \<Rightarrow> bool) \<Rightarrow> js list \<Rightarrow> js list" where
  \<comment> \<open>\<open>Array.prototype.sort\<close> moves \<open>undefined\<close> to the end without comparing it\<close>
  "sort_defined le xs = sort_by le (filter (\<lambda>x. x \<noteq> JUndef) xs) @ filter (\<lambda>x. x = JUndef) xs"

subsection \<open>Normalization\<close>

record texts =
  tx_frac :: "real \<Rightarrow> string"
  tx_iso :: "int \<Rightarrow> string"
  tx_coll :: "string \<Rightarrow> string \<Rightarrow> bool"   \<comment> \<open>\<open>left.localeCompare(right) <= 0\<close>\<close>

definition typed :: "string \<Rightarrow> (string \<times> js) list \<Rightarrow> js" where
  "typed tag ps = JObj ((''$type'', JStr tag) # ps)"

definition supplied_type :: "(string \<times> kv) list \<Rightarrow> string option" where
  "supplied_type ps = (case map_of ps ''$type'' of Some (KvString t) \<Rightarrow> Some t | _ \<Rightarrow> None)"

definition by_json :: "texts \<Rightarrow> js \<Rightarrow> js \<Rightarrow> bool" where
  "by_json tx a b = tx_coll tx (json_stringify (tx_frac tx) a) (json_stringify (tx_frac tx) b)"

definition first_of :: "js \<Rightarrow> js" where
  "first_of p = (case p of JArr (x # _) \<Rightarrow> x | _ \<Rightarrow> JUndef)"

definition normalized_object :: "(string \<times> js) list \<Rightarrow> js" where
  \<comment> \<open>an object filled in the order of its sorted keys\<close>
  "normalized_object ps = JObj (enumeration_order (sort_by (\<lambda>p q. char_less_eq (fst p) (fst q)) ps))"

function (sequential) normalizeValue :: "texts \<Rightarrow> kv \<Rightarrow> js result"
  and normalize_list :: "texts \<Rightarrow> kv list \<Rightarrow> js list result"
  and normalize_pairs :: "texts \<Rightarrow> (kv \<times> kv) list \<Rightarrow> js list result"
  and normalize_members :: "texts \<Rightarrow> (string \<times> kv) list \<Rightarrow> (string \<times> js) list result" where
  "normalizeValue tx KvUndefined = Inr JUndef"
| "normalizeValue tx KvNull = Inr JNull"
| "normalizeValue tx (KvBoolean b) = Inr (JBool b)"
| "normalizeValue tx (KvNumber n) = Inr (JNum n)"
| "normalizeValue tx (KvString s) = Inr (JStr s)"
| "normalizeValue tx (KvArray xs) = map_sum id JArr (normalize_list tx xs)"
| "normalizeValue tx (KvDate t) =
    (case t of None \<Rightarrow> Inl (OtherError ''Cannot serialize an invalid Date as a cache key.'')
     | Some ms \<Rightarrow> Inr (typed ''Date'' [(''value'', JStr (tx_iso tx ms))]))"
| "normalizeValue tx (KvUrl href) = Inr (typed ''URL'' [(''value'', JStr href)])"
| "normalizeValue tx (KvRegExp source flags) = Inr (typed ''RegExp'' [(''source'', JStr source), (''flags'', JStr flags)])"
| "normalizeValue tx (KvMap es) =
    bind_result (normalize_pairs tx es) (\<lambda>ps. if length ps > 1 \<and> (\<exists>p \<in> set ps. first_of p = JUndef)
       then Inl (OtherError ''TypeError'') else Inr ( typed ''Map'' [(''entries'', JArr (sort_by (\<lambda>p q. by_json tx (first_of p) (first_of q)) ps))]))"
| "normalizeValue tx (KvSet xs) =
    map_sum id (\<lambda>vs. typed ''Set'' [(''values'', JArr (sort_defined (by_json tx) vs))]) (normalize_list tx xs)"
| "normalizeValue tx (KvInstance className) = Inl (OtherError ''Unsupported cache-key object type'')"
| "normalizeValue tx (KvObject ps) =
    (case supplied_type ps of
       Some t \<Rightarrow> if t \<in> set RESERVED_TYPE_TAGS then Inl (OtherError ''Reserved cache-key type tag'')
                 else map_sum id normalized_object (normalize_members tx ps)
     | None \<Rightarrow> map_sum id normalized_object (normalize_members tx ps))"
| "normalizeValue tx KvFunction = Inl (OtherError ''Unsupported cache-key value type'')"
| "normalizeValue tx KvSymbol = Inl (OtherError ''Unsupported cache-key value type'')"
| "normalizeValue tx (KvBigInt n) = Inl (OtherError ''Do not know how to serialize a BigInt'')"
| "normalize_list tx [] = Inr []"
| "normalize_list tx (x # xs) = bind_result (normalizeValue tx x) (\<lambda>v. bind_result (normalize_list tx xs) (\<lambda>vs. Inr (v # vs)))"
| "normalize_pairs tx [] = Inr []"
| "normalize_pairs tx ((k, x) # es) =
    bind_result (normalizeValue tx k) (\<lambda>k'. bind_result (normalizeValue tx x) (\<lambda>v.
      bind_result (normalize_pairs tx es) (\<lambda>ps. Inr (JArr [k', v] # ps))))"
| "normalize_members tx [] = Inr []"
| "normalize_members tx ((k, x) # ps) =
    (if k \<in> set DANGEROUS_OBJECT_KEYS then normalize_members tx ps
     else bind_result (normalizeValue tx x) (\<lambda>v. bind_result (normalize_members tx ps) (\<lambda>qs. Inr ((k, v) # qs))))"
  by pat_completeness auto

termination
  by (relation "measure (\<lambda>x. case x of
       Inl (Inl (tx, v)) \<Rightarrow> size v
     | Inl (Inr (tx, xs)) \<Rightarrow> size_list size xs
     | Inr (Inl (tx, es)) \<Rightarrow> size_list (size_prod size size) es
     | Inr (Inr (tx, ps)) \<Rightarrow> size_list (size_prod (\<lambda>_. 0) size) ps)") auto

definition escape_part :: "string \<Rightarrow> string" where
  \<comment> \<open>\<open>replace(/%/g, '%25').replace(/:/g, '%3A')\<close>\<close>
  "escape_part s = concat (map (\<lambda>c. if c = CHR ''%'' then ''%25'' else if c = CHR '':'' then ''%3A'' else [c]) s)"

fun serializeKeyPart :: "texts \<Rightarrow> kv \<Rightarrow> string result" where
  "serializeKeyPart tx (KvString s) = Inr (''s:'' @ escape_part s)"
| "serializeKeyPart tx (KvNumber n) = Inr (''n:'' @ number_text (tx_frac tx) n)"
| "serializeKeyPart tx (KvBoolean b) = Inr (''b:'' @ (if b then ''true'' else ''false''))"
| "serializeKeyPart tx v = map_sum id (\<lambda>n. ''j2:'' @ json_stringify (tx_frac tx) n) (normalizeValue tx v)"

definition serializeOptions :: "texts \<Rightarrow> kv \<Rightarrow> string result" where
  "serializeOptions tx options = map_sum id (\<lambda>n. json (tx_frac tx) (js_nullish n JNull)) (normalizeValue tx options)"

fun serialize_parts :: "texts \<Rightarrow> kv list \<Rightarrow> string list result" where
  "serialize_parts tx [] = Inr []"
| "serialize_parts tx (a # as) =
    bind_result (serializeKeyPart tx a) (\<lambda>p. bind_result (serialize_parts tx as) (\<lambda>ps. Inr (p # ps)))"

fun join_parts :: "string list \<Rightarrow> string" where
  "join_parts [] = []"
| "join_parts [p] = p"
| "join_parts (p # q # ps) = p @ CHR '':'' # join_parts (q # ps)"

definition wrap_key :: "texts \<Rightarrow> (kv list \<Rightarrow> string) option \<Rightarrow> string \<Rightarrow> kv list \<Rightarrow> string result" where
  \<comment> \<open>the key \<open>CacheStack.wrap\<close> reads: from the resolver, or from the serialized arguments\<close>
  "wrap_key tx keyResolver pre args =
    bind_result (case keyResolver of Some f \<Rightarrow> Inr (f args) | None \<Rightarrow> map_sum id join_parts (serialize_parts tx args))
      (\<lambda>suffix. Inr (if length suffix > 0 then pre @ CHR '':'' # suffix else pre))"

subsection \<open>What a key shows of its arguments\<close>

text \<open>
  JSON text shows a value without its undefined members; undefined elements and numbers that are not
  finite read as \<open>null\<close>.
\<close>

fun visible :: "js \<Rightarrow> js" where
  "visible JUndef = JNull"
| "visible (JNum n) = (case n of Fin x \<Rightarrow> JNum n | _ \<Rightarrow> JNull)"
| "visible (JArr xs) = JArr (map visible xs)"
| "visible (JObj ps) = JObj (map (map_prod id visible) (filter (\<lambda>p. snd p \<noteq> JUndef) ps))"
| "visible v = v"

fun whole_js :: "js \<Rightarrow> bool" where
  "whole_js JUndef = False"
| "whole_js (JNum n) = (case n of Fin x \<Rightarrow> is_whole x | _ \<Rightarrow> False)"
| "whole_js (JArr xs) = list_all whole_js xs"
| "whole_js (JObj ps) = list_all (\<lambda>p. whole_js (snd p)) ps"
| "whole_js v = True"

datatype key_part =
    PString string
  | PNumber jsnum
  | PBoolean bool
  | PUndefined
  | PJson js
  | PError error

fun part_of :: "texts \<Rightarrow> kv \<Rightarrow> key_part" where
  "part_of tx (KvString s) = PString s"
| "part_of tx (KvNumber n) = PNumber n"
| "part_of tx (KvBoolean b) = PBoolean b"
| "part_of tx v = (case normalizeValue tx v of Inl e \<Rightarrow> PError e | Inr n \<Rightarrow> if n = JUndef then PUndefined else PJson (visible n))"

fun whole_part :: "key_part \<Rightarrow> bool" where
  \<comment> \<open>every finite number is whole and below \<open>10 ^ 21\<close>\<close>
  "whole_part (PNumber n) = (case n of Fin x \<Rightarrow> is_whole x | _ \<Rightarrow> True)"
| "whole_part (PJson v) = whole_js v"
| "whole_part _ = True"

subsection \<open>Texts are self-delimiting\<close>

definition ends :: "string \<Rightarrow> bool" where
  "ends r \<longleftrightarrow> r = [] \<or> hd r \<in> {CHR '','', CHR '']'', CHR ''}'', CHR '':''}"

lemma word_cut:
  assumes "x @ r = y @ r'" "set x \<inter> {CHR '','', CHR '']'', CHR ''}'', CHR '':''} = {}" "set y \<inter> {CHR '','', CHR '']'', CHR ''}'', CHR '':''} = {}"
    "ends r" "ends r'"
  shows "x = y \<and> r = r'"
proof -
  let ?P = "\<lambda>c. c \<notin> {CHR '','', CHR '']'', CHR ''}'', CHR '':''}"
  have t: "takeWhile ?P (x @ r) = x" if "set x \<inter> {CHR '','', CHR '']'', CHR ''}'', CHR '':''} = {}" "ends r" for x r
  proof -
    have "takeWhile ?P (x @ r) = x @ takeWhile ?P r" using that(1) by (intro takeWhile_append2) blast
    moreover have "takeWhile ?P r = []" using that(2) by (cases r) (auto simp: ends_def)
    ultimately show ?thesis by simp
  qed
  have "x = y" using t [OF assms(2,4)] t [OF assms(3,5)] assms(1) by simp
  then show ?thesis using assms(1) by simp
qed

lemma decimal_is_digit: "c \<in> set (decimal n) \<Longrightarrow> is_digit c"
  using decimal_digits [of n] by (auto simp: is_digit_def of_char_of take_bit_nat_eq_self)

lemma not_digit [simp]:
  "\<not> is_digit (CHR '','')" "\<not> is_digit (CHR '']'')" "\<not> is_digit (CHR ''}'')" "\<not> is_digit (CHR '':'')" "\<not> is_digit (CHR ''-'')"
  "\<not> is_digit (CHR ''n'')" "\<not> is_digit (CHR ''t'')" "\<not> is_digit (CHR ''f'')" "\<not> is_digit (CHR ''['')" "\<not> is_digit (CHR ''{'')"
  "\<not> is_digit (CHR 0x22)" "\<not> is_digit (CHR ''N'')" "\<not> is_digit (CHR ''I'')"
  by (simp_all add: is_digit_def)

lemma int_text_chars: "c \<in> set (int_text n) \<Longrightarrow> is_digit c \<or> c = CHR ''-''"
  by (auto simp: int_text_def decimal_is_digit split: if_splits)

lemma int_text_cut_free: "set (int_text n) \<inter> {CHR '','', CHR '']'', CHR ''}'', CHR '':''} = {}"
  by (auto dest!: int_text_chars)

lemma int_text_inj: "int_text m = int_text n \<Longrightarrow> m = n"
proof -
  have "hd (decimal k) \<noteq> CHR ''-''" for k using decimal_is_digit [of "hd (decimal k)" k] by auto
  then have ne: "decimal j \<noteq> CHR ''-'' # decimal k" for j k by (metis list.sel(1))
  assume "int_text m = int_text n"
  then show "m = n" using ne decimal_inj [of "nat m" "nat n"] decimal_inj [of "nat (- m)" "nat (- n)"] ne [symmetric]
    by (auto simp: int_text_def split: if_splits)
qed

lemma int_text_hd: "\<exists>c cs. int_text n = c # cs \<and> (is_digit c \<or> c = CHR ''-'')"
proof -
  have "int_text n \<noteq> []" by (simp add: int_text_def)
  then show ?thesis using int_text_chars [of "hd (int_text n)" n] by (metis list.exhaust_sel hd_in_set)
qed

lemma whole_number_inj: "is_whole x \<Longrightarrow> is_whole y \<Longrightarrow> int_text \<lfloor>x\<rfloor> = int_text \<lfloor>y\<rfloor> \<Longrightarrow> x = y"
  using int_text_inj [of "\<lfloor>x\<rfloor>" "\<lfloor>y\<rfloor>"] by (auto simp: is_whole_def)

lemma hex_digit_inj: "m < 16 \<Longrightarrow> n < 16 \<Longrightarrow> hex_digit m = hex_digit n \<Longrightarrow> m = n"
  by (auto simp: hex_digit_def char_of_eq_iff take_bit_nat_eq_self split: if_splits)

lemma control_pair_inj:
  assumes "(of_char c :: nat) < 32" "(of_char d :: nat) < 32" "hex_digit (of_char c div 16) = hex_digit (of_char d div 16)"
    "hex_digit (of_char c mod 16) = hex_digit (of_char d mod 16)"
  shows "c = d"
proof -
  have "(of_char c :: nat) div 16 = of_char d div 16" "(of_char c :: nat) mod 16 = of_char d mod 16"
    using assms by (auto intro: hex_digit_inj)
  then have "(of_char c :: nat) = of_char d" by (metis div_mult_mod_eq)
  then show ?thesis by simp
qed

lemma esc_char_cut: "esc_char c @ x = esc_char d @ y \<Longrightarrow> c = d \<and> x = y"
  using control_pair_inj [of c d] by (auto simp: esc_char_def split: if_splits)

lemma esc_char_hd: "\<exists>a as. esc_char c = a # as \<and> a \<noteq> CHR 0x22"
  by (simp add: esc_char_def)

lemma escaped_cut:
  "concat (map esc_char s) @ CHR 0x22 # r = concat (map esc_char t) @ CHR 0x22 # r' \<Longrightarrow> s = t \<and> r = r'"
proof (induction s arbitrary: t)
  case Nil
  then show ?case using esc_char_hd [of "hd t"] by (cases t) auto
next
  case (Cons c s)
  show ?case
  proof (cases t)
    case Nil
    then show ?thesis using Cons(2) esc_char_hd [of c] by auto
  next
    case (Cons d t')
    then have "c = d \<and> concat (map esc_char s) @ CHR 0x22 # r = concat (map esc_char t') @ CHR 0x22 # r'"
      using Cons.prems esc_char_cut [of c _ d] by simp
    then show ?thesis using Cons.IH [of t'] Cons by simp
  qed
qed

lemma json_string_cut: "json_string s @ r = json_string t @ r' \<Longrightarrow> s = t \<and> r = r'"
  using escaped_cut [of s r t r'] by (simp add: json_string_def)

end
