(* ===== verification/Namespace.thy ===== *)
theory Namespace
  imports StackAdmin KeySerialization
begin

text \<open>
  Namespaces (\<open>src/src/CacheNamespace.ts\<close>): a prefix and its own metrics over a cache stack. An operation
  works on the pair of the namespace and the stack; the metrics it caused are added whether it
  succeeds or throws. The mutex around that addition is not modelled: it is one step here.
\<close>

record namespace =
  ns_prefix :: string
  ns_metrics :: metrics_snapshot

type_synonym 'l scoped = "namespace \<times> 'l stack"

definition MAX_NAMESPACE_LENGTH :: nat where
  "MAX_NAMESPACE_LENGTH = 256"

definition validateNamespaceKey :: "string \<Rightarrow> unit result" where
  "validateNamespaceKey key =
    (if length key = 0 then Inl (EmptyInput ''Namespace prefix'')
     else if length key > MAX_NAMESPACE_LENGTH then Inl (TooLong ''Namespace prefix'' MAX_NAMESPACE_LENGTH)
     else if list_ex control_char key then Inl (ControlCharacters ''Namespace prefix'')
     else if list_ex surrogate key then Inl (SurrogateCodePoints ''Namespace prefix'')
     else Inr ())"

definition new_namespace :: "real \<Rightarrow> string \<Rightarrow> namespace result" where
  \<comment> \<open>\<open>new CacheNamespace(cache, prefix)\<close>, at a time\<close>
  "new_namespace now pre =
    bind_result (validateNamespaceKey pre) (\<lambda>_. Inr \<lparr>ns_prefix = pre, ns_metrics = empty_metrics now\<rparr>)"

definition nested_namespace :: "real \<Rightarrow> namespace \<Rightarrow> string \<Rightarrow> namespace result" where
  \<comment> \<open>\<open>namespace(childPrefix)\<close>\<close>
  "nested_namespace now ns childPrefix =
    bind_result (validateNamespaceKey childPrefix) (\<lambda>_. new_namespace now (ns_prefix ns @ CHR '':'' # childPrefix))"

definition qualify :: "namespace \<Rightarrow> string \<Rightarrow> string" where
  "qualify ns key = ns_prefix ns @ CHR '':'' # key"

definition namespaceKeyPrefix :: "namespace \<Rightarrow> string" where
  "namespaceKeyPrefix ns = ns_prefix ns @ '':''"

definition qualifyTag :: "namespace \<Rightarrow> string \<Rightarrow> string" where
  "qualifyTag ns tag = ns_prefix ns @ CHR '':'' # tag"

definition qualifyWriteOptions :: "namespace \<Rightarrow> write_options option \<Rightarrow> write_options option" where
  \<comment> \<open>also \<open>qualifyGetOptions\<close> and \<open>qualifyWrapOptions\<close>: the tags a \<open>contextOptions\<close> callback returns stay as they are\<close>
  "qualifyWriteOptions ns options =
    (case options of
       None \<Rightarrow> None
     | Some opts \<Rightarrow>
         (case o_tags opts of
            None \<Rightarrow> Some opts
          | Some tags \<Rightarrow> if tags = [] then Some opts else Some (opts\<lparr>o_tags := Some (map (qualifyTag ns) tags)\<rparr>)))"

definition trackMetrics :: "('l stack, 'a) action \<Rightarrow> ('l scoped, 'a) action" where
  "trackMetrics operation w =
    (case captureMetrics operation (snd w) of
       (r, metrics, s) \<Rightarrow> (r, ((fst w)\<lparr>ns_metrics := addNamespaceMetrics (ns_metrics (fst w)) metrics\<rparr>, s)))"

definition scoped :: "(namespace \<Rightarrow> ('l stack, 'a) action) \<Rightarrow> ('l scoped, 'a) action" where
  \<comment> \<open>\<open>trackMetrics(() => ...)\<close> with the namespace at hand\<close>
  "scoped operation w = trackMetrics (operation (fst w)) w"

subsection \<open>Reads and writes\<close>

definition ns_get :: "'l stack_config \<Rightarrow> string \<Rightarrow> nat option \<Rightarrow> write_options option \<Rightarrow> ('l scoped, js) action" where
  "ns_get cf key fetcher options = scoped (\<lambda>ns. stack_get cf (qualify ns key) fetcher (qualifyWriteOptions ns options))"

definition ns_getOrSet :: "'l stack_config \<Rightarrow> string \<Rightarrow> nat \<Rightarrow> write_options option \<Rightarrow> ('l scoped, js) action" where
  "ns_getOrSet cf key fetcher options = scoped (\<lambda>ns. getOrSet cf (qualify ns key) fetcher (qualifyWriteOptions ns options))"

definition ns_getEntry :: "'l stack_config \<Rightarrow> string \<Rightarrow> ('l scoped, entry_result option) action" where
  "ns_getEntry cf key =
    andthen (scoped (\<lambda>ns. stack_getEntry cf (qualify ns key))) (\<lambda>entry. ret (map_option (\<lambda>e. e\<lparr>er_key := key\<rparr>) entry))"

definition ns_getOrThrow :: "'l stack_config \<Rightarrow> string \<Rightarrow> nat option \<Rightarrow> write_options option \<Rightarrow> ('l scoped, js) action" where
  "ns_getOrThrow cf key fetcher options = scoped (\<lambda>ns. getOrThrow cf (qualify ns key) fetcher (qualifyWriteOptions ns options))"

definition ns_has :: "'l stack_config \<Rightarrow> string \<Rightarrow> ('l scoped, bool) action" where
  "ns_has cf key = scoped (\<lambda>ns. stack_has cf (qualify ns key))"

definition ns_ttl :: "string \<Rightarrow> ('l scoped, real option) action" where
  "ns_ttl key = scoped (\<lambda>ns. stack_ttl (qualify ns key))"

definition ns_set :: "'l stack_config \<Rightarrow> string \<Rightarrow> js \<Rightarrow> write_options option \<Rightarrow> ('l scoped, unit) action" where
  "ns_set cf key v options = scoped (\<lambda>ns. stack_set cf (qualify ns key) v (qualifyWriteOptions ns options))"

definition ns_mget ::
    "'l stack_config \<Rightarrow> (write_options option \<Rightarrow> string result) \<Rightarrow> read_request list \<Rightarrow> ('l scoped, js list) action" where
  "ns_mget cf signature requests = scoped (\<lambda>ns. stack_mget cf signature
     (map (\<lambda>q. q\<lparr>rq_key := qualify ns (rq_key q), rq_options := qualifyWriteOptions ns (rq_options q)\<rparr>) requests))"

definition ns_mset :: "'l stack_config \<Rightarrow> mset_entry list \<Rightarrow> ('l scoped, unit) action" where
  "ns_mset cf entries = scoped (\<lambda>ns. stack_mset cf
     (map (\<lambda>e. e\<lparr>ms_key := qualify ns (ms_key e), ms_options := qualifyWriteOptions ns (ms_options e)\<rparr>) entries))"

subsection \<open>Invalidation\<close>

definition ns_delete :: "'l stack_config \<Rightarrow> string \<Rightarrow> ('l scoped, unit) action" where
  "ns_delete cf key = scoped (\<lambda>ns. stack_delete cf (qualify ns key))"

definition ns_mdelete :: "'l stack_config \<Rightarrow> string list \<Rightarrow> ('l scoped, unit) action" where
  "ns_mdelete cf keys = scoped (\<lambda>ns. mdelete cf (map (qualify ns) keys))"

definition ns_invalidateByKey :: "'l stack_config \<Rightarrow> string \<Rightarrow> ('l scoped, unit) action" where
  "ns_invalidateByKey cf key = scoped (\<lambda>ns. invalidateByKey cf (qualify ns key))"

definition ns_invalidateByKeys :: "'l stack_config \<Rightarrow> string list \<Rightarrow> ('l scoped, unit) action" where
  "ns_invalidateByKeys cf keys = scoped (\<lambda>ns. invalidateByKeys cf (map (qualify ns) keys))"

definition ns_expireByKey :: "'l stack_config \<Rightarrow> string \<Rightarrow> ('l scoped, unit) action" where
  "ns_expireByKey cf key = scoped (\<lambda>ns. expireByKey cf (qualify ns key))"

definition ns_expireByKeys :: "'l stack_config \<Rightarrow> string list \<Rightarrow> ('l scoped, unit) action" where
  "ns_expireByKeys cf keys = scoped (\<lambda>ns. expireByKeys cf (map (qualify ns) keys))"

definition ns_clear :: "'l stack_config \<Rightarrow> ('l scoped, unit) action" where
  "ns_clear cf = scoped (\<lambda>ns. invalidateByPrefix cf (namespaceKeyPrefix ns))"

definition ns_invalidateByTag :: "'l stack_config \<Rightarrow> string \<Rightarrow> ('l scoped, unit) action" where
  "ns_invalidateByTag cf tag = scoped (\<lambda>ns. invalidateByTag cf (qualifyTag ns tag))"

definition ns_expireByTag :: "'l stack_config \<Rightarrow> string \<Rightarrow> ('l scoped, unit) action" where
  "ns_expireByTag cf tag = scoped (\<lambda>ns. expireByTag cf (qualifyTag ns tag))"

definition ns_invalidateByTags :: "'l stack_config \<Rightarrow> string list \<Rightarrow> tag_mode \<Rightarrow> ('l scoped, unit) action" where
  "ns_invalidateByTags cf tags mode = scoped (\<lambda>ns. invalidateByTags cf (map (qualifyTag ns) tags) mode)"

definition ns_expireByTags :: "'l stack_config \<Rightarrow> string list \<Rightarrow> tag_mode \<Rightarrow> ('l scoped, unit) action" where
  "ns_expireByTags cf tags mode = scoped (\<lambda>ns. expireByTags cf (map (qualifyTag ns) tags) mode)"

definition ns_invalidateByPattern :: "'l stack_config \<Rightarrow> string \<Rightarrow> ('l scoped, unit) action" where
  "ns_invalidateByPattern cf pattern = scoped (\<lambda>ns. invalidateByPattern cf (qualify ns pattern))"

definition ns_expireByPattern :: "'l stack_config \<Rightarrow> string \<Rightarrow> ('l scoped, unit) action" where
  "ns_expireByPattern cf pattern = scoped (\<lambda>ns. expireByPattern cf (qualify ns pattern))"

definition ns_invalidateByPrefix :: "'l stack_config \<Rightarrow> string \<Rightarrow> ('l scoped, unit) action" where
  "ns_invalidateByPrefix cf pre = scoped (\<lambda>ns. invalidateByPrefix cf (qualify ns pre))"

definition ns_expireByPrefix :: "'l stack_config \<Rightarrow> string \<Rightarrow> ('l scoped, unit) action" where
  "ns_expireByPrefix cf pre = scoped (\<lambda>ns. expireByPrefix cf (qualify ns pre))"

subsection \<open>Inspection, wrapping and warming\<close>

definition ns_inspect :: "'l stack_config \<Rightarrow> string \<Rightarrow> ('l scoped, inspect_result option) action" where
  "ns_inspect cf key w =
    (case stack_inspect cf (qualify (fst w) key) (snd w) of
       (r, s) \<Rightarrow>
         (map_sum id (map_option (\<lambda>ir. ir\<lparr>ir_tags :=
            map (drop (length (ns_prefix (fst w)) + 1)) (filter (\<lambda>tag. starts_with tag (namespaceKeyPrefix (fst w))) (ir_tags ir))\<rparr>)) r,
          (fst w, s)))"

definition wrapped_get ::
    "'l stack_config \<Rightarrow> texts \<Rightarrow> (kv list \<Rightarrow> string) option \<Rightarrow> string \<Rightarrow> (kv list \<Rightarrow> nat) \<Rightarrow> write_options \<Rightarrow> kv list \<Rightarrow> ('l stack, js) action" where
  \<comment> \<open>the function \<open>CacheStack.wrap\<close> returns, on one argument list; \<open>fetcher\<close> names the call \<open>fetcher(...args)\<close>\<close>
  "wrapped_get cf tx keyResolver pre fetcher opts args =
    andthen (lift_result (wrap_key tx keyResolver pre args)) (\<lambda>key. stack_get cf key (Some (fetcher args)) (Some opts))"

definition ns_wrapped_get ::
    "'l stack_config \<Rightarrow> texts \<Rightarrow> (kv list \<Rightarrow> string) option \<Rightarrow> namespace \<Rightarrow> string \<Rightarrow> (kv list \<Rightarrow> nat) \<Rightarrow> write_options \<Rightarrow> kv list \<Rightarrow> ('l stack, js) action" where
  "ns_wrapped_get cf tx keyResolver ns keyPrefix fetcher opts args =
    wrapped_get cf tx keyResolver (qualify ns keyPrefix) fetcher (nullish (qualifyWriteOptions ns (Some opts)) opts) args"

definition ns_warm :: "'l stack_config \<Rightarrow> namespace \<Rightarrow> nat option \<Rightarrow> bool \<Rightarrow> warm_entry list \<Rightarrow> 'l stack \<Rightarrow> unit result \<times> warm_progress list \<times> 'l stack" where
  "ns_warm cf ns concurrency continueOnError entries =
    warm cf concurrency continueOnError
      (map (\<lambda>e. e\<lparr>we_key := qualify ns (we_key e), we_options := qualifyWriteOptions ns (we_options e)\<rparr>) entries)"

definition ns_getMetrics :: "namespace \<Rightarrow> metrics_snapshot" where
  "ns_getMetrics ns = ns_metrics ns"

definition ns_getHitRate :: "namespace \<Rightarrow> hit_rate_snapshot" where
  "ns_getHitRate ns = hit_rate (ns_metrics ns)"

end
