(* ===== verification/MemoryLayer.thy ===== *)
theory MemoryLayer
  imports StoredValue
begin

text \<open>
  The in-process layer (\<open>src/src/layers/MemoryLayer.ts\<close>). The entries are the JavaScript map in
  insertion order, which is the recency order for \<open>lru\<close> and the arrival order for \<open>fifo\<close>.
  \<open>Date.now()\<close> is the parameter \<open>now\<close>; calls of \<open>onEvict\<close> are recorded in \<open>ml_evicted\<close>.

  Lemmas: the size bound, and that the layer refines a map of the latest writes (it may forget an
  entry, but never answers with an overwritten, deleted, cleared or expired one), through the locale
  \<open>cache_layer\<close>; the least-recently-used guarantee; the behaviour of \<open>lfu\<close> on a full layer.
\<close>

subsection \<open>State\<close>

datatype eviction_policy = Lru | Lfu | Fifo

record memory_entry =
  me_value :: js
  me_expiresAt :: "real option"
  me_accessCount :: nat
  me_insertedAt :: real

record memory_layer =
  ml_name :: string
  ml_defaultTtl :: "real option"
  ml_maxSize :: nat
  ml_policy :: eviction_policy
  ml_entries :: "(string, memory_entry) jsmap"
  ml_evicted :: "(string \<times> js) list"

record memory_snapshot_entry =
  mse_key :: string
  mse_value :: js
  mse_expiresAt :: "real option"

text \<open>
  \<open>maxSize\<close> is a count here. The constructor does not check it, and with a negative one the eviction loop of \<open>set\<close> never ends: such
  layers are outside the model.
\<close>

definition new_memory_layer :: "string option \<Rightarrow> real option \<Rightarrow> nat option \<Rightarrow> eviction_policy option \<Rightarrow> memory_layer" where
  "new_memory_layer name ttl maxSize policy =
    \<lparr>ml_name = nullish name ''memory'', ml_defaultTtl = ttl, ml_maxSize = nullish maxSize 1000,
     ml_policy = nullish policy Lru, ml_entries = [], ml_evicted = []\<rparr>"

definition ml_isExpired :: "real \<Rightarrow> memory_entry \<Rightarrow> bool" where
  "ml_isExpired now entry = (case me_expiresAt entry of None \<Rightarrow> False | Some t \<Rightarrow> t \<le> now)"

definition ml_pruneExpired :: "real \<Rightarrow> memory_layer \<Rightarrow> memory_layer" where
  \<comment> \<open>the loop deletes every expired entry it visits\<close>
  "ml_pruneExpired now l = l\<lparr>ml_entries := filter (\<lambda>(_, entry). \<not> ml_isExpired now entry) (ml_entries l)\<rparr>"

subsection \<open>Eviction\<close>

fun lfu_victim :: "(string, memory_entry) jsmap \<Rightarrow> (string \<times> nat \<times> real) option \<Rightarrow> (string \<times> nat \<times> real) option" where
  \<comment> \<open>\<open>victimKey\<close>, \<open>minCount\<close> and \<open>minInsertedAt\<close>; before the first entry both minima are infinite\<close>
  "lfu_victim [] best = best"
| "lfu_victim ((key, entry) # es) best =
    lfu_victim es
      (case best of
         None \<Rightarrow> Some (key, me_accessCount entry, me_insertedAt entry)
       | Some (victimKey, minCount, minInsertedAt) \<Rightarrow>
           if me_accessCount entry < minCount \<or> (me_accessCount entry = minCount \<and> me_insertedAt entry < minInsertedAt)
           then Some (key, me_accessCount entry, me_insertedAt entry)
           else best)"

definition victim :: "memory_layer \<Rightarrow> string option" where
  "victim l =
    (if ml_policy l = Lru \<or> ml_policy l = Fifo
     then (case ml_entries l of [] \<Rightarrow> None | (oldestKey, _) # _ \<Rightarrow> Some oldestKey)
     else map_option fst (lfu_victim (ml_entries l) None))"

definition evict :: "real \<Rightarrow> memory_layer \<Rightarrow> memory_layer" where
  "evict now l =
    (case victim l of
       None \<Rightarrow> l
     | Some key \<Rightarrow>
         l\<lparr>ml_entries := AList.delete key (ml_entries l),
           ml_evicted := ml_evicted l @ (case map_of (ml_entries l) key of
             None \<Rightarrow> [] | Some entry \<Rightarrow> [(key, unwrapStoredValue now (me_value entry))])\<rparr>)"

lemma lfu_victim_in:
  "(\<exists>k c t. lfu_victim es best = Some (k, c, t) \<and> (k \<in> fst ` set es \<or> best = Some (k, c, t))) \<or>
   (es = [] \<and> best = None \<and> lfu_victim es best = None)"
proof (induction es best rule: lfu_victim.induct)
  case (2 key entry es best)
  then show ?case by (cases best) (auto split: if_splits prod.splits)
qed (auto split: prod.splits)

lemma victim_cases: "(ml_entries l = [] \<and> victim l = None) \<or> (\<exists>k. k \<in> fst ` set (ml_entries l) \<and> victim l = Some k)"
proof (cases "ml_policy l = Lru \<or> ml_policy l = Fifo")
  case True
  then show ?thesis by (cases "ml_entries l") (auto simp: victim_def)
next
  case False
  then show ?thesis
    using lfu_victim_in [of "ml_entries l" None]
    by (elim disjE exE conjE) (simp_all add: victim_def image_iff)
qed

lemma length_delete_less: "k \<in> fst ` set m \<Longrightarrow> length (AList.delete k m) < length m"
proof (induction m)
  case (Cons p m)
  then show ?case using length_delete_le [of k m] by (cases p) auto
qed simp

lemma evict_less:
  assumes "ml_entries l \<noteq> []"
  shows "length (ml_entries (evict now l)) < length (ml_entries l)"
proof -
  obtain k where "k \<in> fst ` set (ml_entries l)" "victim l = Some k" using victim_cases [of l] assms by auto
  then show ?thesis using length_delete_less [of k "ml_entries l"] by (simp add: evict_def)
qed

lemma evict_frame [simp]:
  "ml_maxSize (evict now l) = ml_maxSize l" "ml_policy (evict now l) = ml_policy l"
  "ml_defaultTtl (evict now l) = ml_defaultTtl l" "ml_name (evict now l) = ml_name l"
  by (simp_all add: evict_def split: option.splits)

function evict_while_full :: "real \<Rightarrow> memory_layer \<Rightarrow> memory_layer" where
  "evict_while_full now l =
    (if length (ml_entries l) > ml_maxSize l then evict_while_full now (evict now l) else l)"
  by pat_completeness auto
termination
  by (relation "measure (\<lambda>(_, l). length (ml_entries l))") (auto intro!: evict_less)

declare evict_while_full.simps [simp del]

subsection \<open>Operations\<close>

definition ml_getEntry :: "real \<Rightarrow> string \<Rightarrow> memory_layer \<Rightarrow> js \<times> memory_layer" where
  "ml_getEntry now key l =
    (case map_of (ml_entries l) key of
       None \<Rightarrow> (JNull, l)
     | Some entry \<Rightarrow>
         if ml_isExpired now entry then (JNull, l\<lparr>ml_entries := AList.delete key (ml_entries l)\<rparr>)
         else
           (let counted = entry\<lparr>me_accessCount := me_accessCount entry + 1\<rparr> in
            (me_value entry,
             (case ml_policy l of
                Lru \<Rightarrow> l\<lparr>ml_entries := AList.update key counted (AList.delete key (ml_entries l))\<rparr>
              | Lfu \<Rightarrow> l\<lparr>ml_entries := AList.update key counted (ml_entries l)\<rparr>
              | Fifo \<Rightarrow> l))))"

definition ml_get :: "real \<Rightarrow> string \<Rightarrow> memory_layer \<Rightarrow> js \<times> memory_layer" where
  "ml_get now key l = (let (v, l') = ml_getEntry now key l in (unwrapStoredValue now v, l'))"

fun ml_getMany :: "real \<Rightarrow> string list \<Rightarrow> memory_layer \<Rightarrow> js list \<times> memory_layer" where
  "ml_getMany now [] l = ([], l)"
| "ml_getMany now (key # keys) l =
    (let (v, l1) = ml_getEntry now key l; (vs, l2) = ml_getMany now keys l1 in (v # vs, l2))"

definition ml_set :: "real \<Rightarrow> string \<Rightarrow> js \<Rightarrow> real option \<Rightarrow> memory_layer \<Rightarrow> memory_layer" where
  \<comment> \<open>\<open>ttlArg = None\<close> takes the default parameter\<close>
  "ml_set now key v ttlArg l =
    (let ttl = nullish_opt ttlArg (ml_defaultTtl l);
         entry = \<lparr>me_value = v,
                  me_expiresAt = (case ttl of None \<Rightarrow> None | Some t \<Rightarrow> if t \<noteq> 0 \<and> t > 0 then Some (now + t) else None),
                  me_accessCount = 0, me_insertedAt = now\<rparr>
     in evict_while_full now (l\<lparr>ml_entries := AList.update key entry (AList.delete key (ml_entries l))\<rparr>))"

fun ml_setMany :: "real \<Rightarrow> (string \<times> js \<times> real option) list \<Rightarrow> memory_layer \<Rightarrow> memory_layer" where
  "ml_setMany now [] l = l"
| "ml_setMany now ((key, v, ttl) # es) l = ml_setMany now es (ml_set now key v ttl l)"

definition ml_has :: "real \<Rightarrow> string \<Rightarrow> memory_layer \<Rightarrow> bool \<times> memory_layer" where
  "ml_has now key l =
    (case map_of (ml_entries l) key of
       None \<Rightarrow> (False, l)
     | Some entry \<Rightarrow>
         if ml_isExpired now entry then (False, l\<lparr>ml_entries := AList.delete key (ml_entries l)\<rparr>) else (True, l))"

definition ml_ttl :: "real \<Rightarrow> string \<Rightarrow> memory_layer \<Rightarrow> real option \<times> memory_layer" where
  "ml_ttl now key l =
    (case map_of (ml_entries l) key of
       None \<Rightarrow> (None, l)
     | Some entry \<Rightarrow>
         if ml_isExpired now entry then (None, l\<lparr>ml_entries := AList.delete key (ml_entries l)\<rparr>)
         else (case me_expiresAt entry of
                 None \<Rightarrow> (None, l)
               | Some t \<Rightarrow> (Some (max 0 (math_ceil (t - now))), l)))"

definition ml_size :: "real \<Rightarrow> memory_layer \<Rightarrow> nat \<times> memory_layer" where
  "ml_size now l = (let l' = ml_pruneExpired now l in (length (ml_entries l'), l'))"

definition ml_delete :: "string \<Rightarrow> memory_layer \<Rightarrow> memory_layer" where
  "ml_delete key l = l\<lparr>ml_entries := AList.delete key (ml_entries l)\<rparr>"

fun ml_deleteMany :: "string list \<Rightarrow> memory_layer \<Rightarrow> memory_layer" where
  "ml_deleteMany [] l = l"
| "ml_deleteMany (key # keys) l = ml_deleteMany keys (ml_delete key l)"

definition ml_clear :: "memory_layer \<Rightarrow> memory_layer" where
  "ml_clear l = l\<lparr>ml_entries := []\<rparr>"

definition ml_keys :: "real \<Rightarrow> memory_layer \<Rightarrow> string list \<times> memory_layer" where
  "ml_keys now l = (let l' = ml_pruneExpired now l in (map fst (ml_entries l'), l'))"

text \<open>
  \<open>forEachKey\<close> iterates the live map; here the keys are those held when it begins. The visitors of the program only remove keys they
  have been given or collect keys, except the export's, whose reads can put a key back: the live iteration would meet it a second time and
  the export skips keys it has seen.
\<close>

definition ml_forEachKey :: "real \<Rightarrow> 'w visitor \<Rightarrow> memory_layer \<Rightarrow> 'w \<Rightarrow> unit result \<times> 'w \<times> memory_layer" where
  "ml_forEachKey now visitor l w =
    (let l' = ml_pruneExpired now l; (r, w') = visit_all visitor (map fst (ml_entries l')) w in (r, w', l'))"

definition ml_exportState :: "real \<Rightarrow> memory_layer \<Rightarrow> memory_snapshot_entry list \<times> memory_layer" where
  "ml_exportState now l =
    (let l' = ml_pruneExpired now l in
     (map (\<lambda>(key, entry). \<lparr>mse_key = key, mse_value = me_value entry, mse_expiresAt = me_expiresAt entry\<rparr>) (ml_entries l'), l'))"

fun import_entries :: "real \<Rightarrow> memory_snapshot_entry list \<Rightarrow> (string, memory_entry) jsmap \<Rightarrow> (string, memory_entry) jsmap" where
  "import_entries now [] m = m"
| "import_entries now (e # es) m =
    import_entries now es
      (if (case mse_expiresAt e of None \<Rightarrow> False | Some t \<Rightarrow> t \<le> now) then m
       else AList.update (mse_key e)
         \<lparr>me_value = mse_value e, me_expiresAt = mse_expiresAt e, me_accessCount = 0, me_insertedAt = now\<rparr> m)"

definition ml_importState :: "real \<Rightarrow> memory_snapshot_entry list \<Rightarrow> memory_layer \<Rightarrow> memory_layer" where
  "ml_importState now es l = evict_while_full now (l\<lparr>ml_entries := import_entries now es (ml_entries l)\<rparr>)"


subsection \<open>Runs, and the map of the latest writes\<close>

datatype layer_op =
    LGet string
  | LGetMany "string list"
  | LSet string js "real option"
  | LSetMany "(string \<times> js \<times> real option) list"
  | LHas string
  | LTtl string
  | LPrune                              \<comment> \<open>\<open>size\<close>, \<open>keys\<close>, \<open>forEachKey\<close>, \<open>exportState\<close>, the cleanup timer\<close>
  | LDelete string
  | LDeleteMany "string list"
  | LClear
  | LImport "memory_snapshot_entry list"

fun layer_step :: "real \<times> layer_op \<Rightarrow> memory_layer \<Rightarrow> memory_layer" where
  "layer_step (now, LGet key) l = snd (ml_getEntry now key l)"
| "layer_step (now, LGetMany keys) l = snd (ml_getMany now keys l)"
| "layer_step (now, LSet key v ttl) l = ml_set now key v ttl l"
| "layer_step (now, LSetMany es) l = ml_setMany now es l"
| "layer_step (now, LHas key) l = snd (ml_has now key l)"
| "layer_step (now, LTtl key) l = snd (ml_ttl now key l)"
| "layer_step (now, LPrune) l = ml_pruneExpired now l"
| "layer_step (now, LDelete key) l = ml_delete key l"
| "layer_step (now, LDeleteMany keys) l = ml_deleteMany keys l"
| "layer_step (now, LClear) l = ml_clear l"
| "layer_step (now, LImport es) l = ml_importState now es l"

definition expiry_at :: "real \<Rightarrow> real option \<Rightarrow> real option" where
  "expiry_at now ttl = (case ttl of None \<Rightarrow> None | Some t \<Rightarrow> if t > 0 then Some (now + t) else None)"

type_synonym writes = "string \<Rightarrow> (js \<times> real option) option"

fun write_entries :: "real option \<Rightarrow> real \<Rightarrow> (string \<times> js \<times> real option) list \<Rightarrow> writes \<Rightarrow> writes" where
  "write_entries d now [] W = W"
| "write_entries d now ((key, v, ttl) # es) W = write_entries d now es (W(key \<mapsto> (v, expiry_at now (nullish_opt ttl d))))"

definition lapsed :: "real \<Rightarrow> real option \<Rightarrow> bool" where
  "lapsed now e = (case e of None \<Rightarrow> False | Some t \<Rightarrow> t \<le> now)"

fun import_effect :: "real \<Rightarrow> memory_snapshot_entry list \<Rightarrow> writes \<Rightarrow> writes" where
  "import_effect now [] W = W"
| "import_effect now (e # es) W =
    import_effect now es (if lapsed now (mse_expiresAt e) then W else W(mse_key e \<mapsto> (mse_value e, mse_expiresAt e)))"

fun layer_effect :: "real option \<Rightarrow> real \<times> layer_op \<Rightarrow> writes \<Rightarrow> writes" where
  "layer_effect d (now, LSet key v ttl) W = W(key \<mapsto> (v, expiry_at now (nullish_opt ttl d)))"
| "layer_effect d (now, LSetMany es) W = write_entries d now es W"
| "layer_effect d (now, LDelete key) W = W(key := None)"
| "layer_effect d (now, LDeleteMany keys) W = (\<lambda>k. if k \<in> set keys then None else W k)"
| "layer_effect d (now, LClear) W = Map.empty"
| "layer_effect d (now, LImport es) W = import_effect now es W"
| "layer_effect d (now, act) W = W"

definition ml_holds :: "memory_layer \<Rightarrow> writes" where
  "ml_holds l key = map_option (\<lambda>e. (me_value e, me_expiresAt e)) (map_of (ml_entries l) key)"

definition ml_ok :: "memory_layer \<Rightarrow> bool" where
  "ml_ok l \<longleftrightarrow> jsmap_ok (ml_entries l) \<and> length (ml_entries l) \<le> ml_maxSize l"

text \<open>Static fields never change.\<close>

definition same_config :: "memory_layer \<Rightarrow> memory_layer \<Rightarrow> bool" where
  "same_config l l' \<longleftrightarrow> ml_maxSize l' = ml_maxSize l \<and> ml_policy l' = ml_policy l \<and> ml_defaultTtl l' = ml_defaultTtl l \<and> ml_name l' = ml_name l"

lemma same_config_simps [simp]:
  "same_config l l"
  "same_config l (l\<lparr>ml_entries := m\<rparr>)"
  by (simp_all add: same_config_def)

lemma same_config_trans: "same_config l l' \<Longrightarrow> same_config l' l'' \<Longrightarrow> same_config l l''"
  by (simp add: same_config_def)

lemma evict_config [simp]: "same_config l (evict now l)"
  by (simp add: same_config_def)

lemma evict_while_config [simp]: "same_config l (evict_while_full now l)"
  by (induction now l rule: evict_while_full.induct)
    (metis evict_config evict_while_full.simps same_config_simps(1) same_config_trans)

lemma evict_while_config_upd [simp]: "same_config l (evict_while_full now (l\<lparr>ml_entries := m\<rparr>))"
  by (rule same_config_trans [OF same_config_simps(2) evict_while_config])

lemma ml_set_config [simp]: "same_config l (ml_set now key v ttl l)"
  by (simp add: ml_set_def Let_def)

lemma ml_getEntry_config [simp]: "same_config l (snd (ml_getEntry now key l))"
  by (auto simp: ml_getEntry_def Let_def split: option.splits eviction_policy.splits)

lemma ml_getMany_config [simp]: "same_config l (snd (ml_getMany now keys l))"
proof (induction keys arbitrary: l)
  case (Cons k keys)
  then show ?case using same_config_trans [OF ml_getEntry_config [of l now k] Cons] by (simp add: split_beta)
qed simp

lemma ml_setMany_config [simp]: "same_config l (ml_setMany now es l)"
  by (induction now es l rule: ml_setMany.induct) (auto intro: same_config_trans [OF ml_set_config])

lemma ml_deleteMany_entries: "ml_deleteMany keys l = l\<lparr>ml_entries := fold AList.delete keys (ml_entries l)\<rparr>"
  by (induction keys arbitrary: l) (simp_all add: ml_delete_def)

lemma layer_step_config: "same_config l (layer_step act l)"
proof -
  obtain now op where "act = (now, op)" by fastforce
  then show ?thesis
    by (cases op)
      (auto simp: ml_has_def ml_ttl_def ml_delete_def ml_deleteMany_entries ml_clear_def ml_pruneExpired_def ml_importState_def
        split: option.splits)
qed

subsection \<open>Every operation against the map of writes\<close>

lemma holds_update: "ml_holds (l\<lparr>ml_entries := AList.update k e m\<rparr>) = (ml_holds (l\<lparr>ml_entries := m\<rparr>))(k \<mapsto> (me_value e, me_expiresAt e))"
  by (auto simp: ml_holds_def jsmap_simps)

lemma holds_delete: "ml_holds (l\<lparr>ml_entries := AList.delete k m\<rparr>) = (ml_holds (l\<lparr>ml_entries := m\<rparr>))(k := None)"
  by (auto simp: ml_holds_def jsmap_simps)

lemma map_le_forget: "W(k := None) \<subseteq>\<^sub>m W"
  by (simp add: map_le_def)

lemma evict_holds: "ml_holds (evict now l) \<subseteq>\<^sub>m ml_holds l"
  by (auto simp: evict_def ml_holds_def map_le_def jsmap_simps split: option.splits if_splits)

lemma evict_jsmap_ok: "jsmap_ok (ml_entries l) \<Longrightarrow> jsmap_ok (ml_entries (evict now l))"
  by (auto simp: evict_def jsmap_ok_delete split: option.splits)

lemma evict_while_holds: "ml_holds (evict_while_full now l) \<subseteq>\<^sub>m ml_holds l"
proof (induction now l rule: evict_while_full.induct)
  case (1 now l)
  then show ?case
    using map_le_trans [OF _ evict_holds [of now l], of "ml_holds (evict_while_full now (evict now l))"]
    by (subst evict_while_full.simps) simp
qed

lemma evict_while_ok: "jsmap_ok (ml_entries l) \<Longrightarrow> ml_ok (evict_while_full now l)"
proof (induction now l rule: evict_while_full.induct)
  case (1 now l)
  then show ?case by (subst evict_while_full.simps) (auto simp: ml_ok_def evict_jsmap_ok)
qed

lemma ml_set_holds: "ml_holds (ml_set now key v ttl l) \<subseteq>\<^sub>m (ml_holds l)(key \<mapsto> (v, expiry_at now (nullish_opt ttl (ml_defaultTtl l))))"
proof -
  let ?e = "\<lparr>me_value = v, me_expiresAt = expiry_at now (nullish_opt ttl (ml_defaultTtl l)), me_accessCount = 0, me_insertedAt = now\<rparr>"
  have "ml_set now key v ttl l = evict_while_full now (l\<lparr>ml_entries := AList.update key ?e (AList.delete key (ml_entries l))\<rparr>)"
    by (auto simp: ml_set_def Let_def expiry_at_def split: option.splits intro!: arg_cong2 [where f = evict_while_full])
  then show ?thesis using evict_while_holds [of now "l\<lparr>ml_entries := AList.update key ?e (AList.delete key (ml_entries l))\<rparr>"]
    by (simp add: holds_update holds_delete)
qed

lemma ml_set_ok: "ml_ok l \<Longrightarrow> ml_ok (ml_set now key v ttl l)"
  by (simp add: ml_set_def Let_def ml_ok_def [of l] evict_while_ok jsmap_ok_update jsmap_ok_delete)

lemma ml_getEntry_holds: "ml_holds (snd (ml_getEntry now key l)) \<subseteq>\<^sub>m ml_holds l"
  by (auto simp: ml_getEntry_def Let_def holds_update holds_delete map_le_forget map_le_def split: option.splits eviction_policy.splits)
    (auto simp: ml_holds_def)

lemma length_refresh: "map_of m k = Some v \<Longrightarrow> jsmap_ok m \<Longrightarrow> length (AList.update k w (AList.delete k m)) = length m"
  using length_delete_present [of m k] length_update_absent [of k "AList.delete k m"] map_of_in_dom [of m k]
  by (simp add: dom_delete)

lemma ml_getEntry_ok: "ml_ok l \<Longrightarrow> ml_ok (snd (ml_getEntry now key l))"
  using length_delete_le [of key "ml_entries l"] map_of_in_dom [of "ml_entries l" key]
  by (auto simp: ml_getEntry_def Let_def ml_ok_def jsmap_ok_update jsmap_ok_delete length_refresh length_update_present
      split: option.splits eviction_policy.splits)

lemma ml_getMany_props:
  "ml_ok l \<Longrightarrow> ml_ok (snd (ml_getMany now keys l)) \<and> ml_holds (snd (ml_getMany now keys l)) \<subseteq>\<^sub>m ml_holds l"
proof (induction keys arbitrary: l)
  case (Cons k keys)
  then show ?case
    using ml_getEntry_ok [of l now k] ml_getEntry_holds [of now k l] map_le_trans by (auto simp: split_beta)
qed simp

lemma write_entries_mono: "m \<subseteq>\<^sub>m m' \<Longrightarrow> write_entries d now es m \<subseteq>\<^sub>m write_entries d now es m'"
  by (induction d now es m arbitrary: m' rule: write_entries.induct) (auto intro: map_le_upd)

lemma import_effect_mono: "m \<subseteq>\<^sub>m m' \<Longrightarrow> import_effect now es m \<subseteq>\<^sub>m import_effect now es m'"
  by (induction now es m arbitrary: m' rule: import_effect.induct) (auto intro: map_le_upd)

lemma ml_setMany_props:
  "ml_ok l \<Longrightarrow> ml_ok (ml_setMany now es l) \<and> ml_holds (ml_setMany now es l) \<subseteq>\<^sub>m write_entries (ml_defaultTtl l) now es (ml_holds l)"
proof (induction now es l rule: ml_setMany.induct)
  case (2 now key v ttl es l)
  then show ?case
    using ml_set_ok [of l now key v ttl] write_entries_mono [OF ml_set_holds [of now key v ttl l]] ml_set_config [of l now key v ttl]
    by (auto simp: same_config_def intro: map_le_trans)
qed simp

lemma import_entries_holds:
  "ml_holds (l\<lparr>ml_entries := import_entries now es m\<rparr>) = import_effect now es (ml_holds (l\<lparr>ml_entries := m\<rparr>))"
  by (induction now es m rule: import_entries.induct) (auto simp: holds_update lapsed_def fun_upd_def)

lemma import_entries_ok: "jsmap_ok m \<Longrightarrow> jsmap_ok (import_entries now es m)"
  by (induction now es m rule: import_entries.induct) (auto simp: jsmap_ok_update)

lemma prune_holds: "jsmap_ok (ml_entries l) \<Longrightarrow> ml_holds (ml_pruneExpired now l) \<subseteq>\<^sub>m ml_holds l"
proof -
  assume "jsmap_ok (ml_entries l)"
  then have "map_of (filter P (ml_entries l)) k = Some e \<Longrightarrow> map_of (ml_entries l) k = Some e" for P k e
    by (metis (no_types) filter_is_subset jsmap_ok_def jsmap_ok_filter map_of_SomeD map_of_is_SomeI subsetD)
  then show ?thesis by (fastforce simp: ml_pruneExpired_def ml_holds_def map_le_def)
qed


lemma holds_deleteMany: "ml_holds (ml_deleteMany keys l) k = (if k \<in> set keys then None else ml_holds l k)"
  by (induction keys arbitrary: l) (auto simp: ml_delete_def holds_delete)

lemma ml_deleteMany_ok: "ml_ok l \<Longrightarrow> ml_ok (ml_deleteMany keys l)"
proof (induction keys arbitrary: l)
  case (Cons k keys)
  then show ?case using length_delete_le [of k "ml_entries l"] by (simp add: ml_delete_def ml_ok_def jsmap_ok_delete)
qed simp

lemma ml_look_props:
  "ml_holds (snd (ml_has now key l)) \<subseteq>\<^sub>m ml_holds l" "ml_ok l \<Longrightarrow> ml_ok (snd (ml_has now key l))"
  "ml_holds (snd (ml_ttl now key l)) \<subseteq>\<^sub>m ml_holds l" "ml_ok l \<Longrightarrow> ml_ok (snd (ml_ttl now key l))"
  using length_delete_le [of key "ml_entries l"]
  by (auto simp: ml_has_def ml_ttl_def holds_delete map_le_forget ml_ok_def jsmap_ok_delete split: option.splits)

lemma layer_effect_mono: "m \<subseteq>\<^sub>m m' \<Longrightarrow> layer_effect d act m \<subseteq>\<^sub>m layer_effect d act m'"
  by (induction d act m rule: layer_effect.induct)
    (auto simp: write_entries_mono import_effect_mono intro: map_le_upd, auto simp: map_le_def split: if_splits)

definition ml_inv :: "real option \<Rightarrow> memory_layer \<Rightarrow> bool" where
  "ml_inv d l \<longleftrightarrow> ml_ok l \<and> ml_defaultTtl l = d"

lemma layer_step_ok: "ml_ok l \<Longrightarrow> ml_ok (layer_step act l)"
proof -
  assume ok: "ml_ok l"
  obtain now op where "act = (now, op)" by fastforce
  then show ?thesis using ok
  proof (cases op)
    case LPrune
    then show ?thesis
      using ok \<open>act = _\<close>
      by (auto simp: ml_ok_def ml_pruneExpired_def jsmap_ok_filter intro: le_trans [OF length_filter_le])
  next
    case (LDelete key)
    then show ?thesis
      using ok \<open>act = _\<close> length_delete_le [of key "ml_entries l"] by (simp add: ml_ok_def ml_delete_def jsmap_ok_delete)
  next
    case LClear
    then show ?thesis using \<open>act = _\<close> by (simp add: ml_ok_def ml_clear_def)
  next
    case (LImport es)
    then show ?thesis using ok \<open>act = _\<close> by (simp add: ml_importState_def evict_while_ok import_entries_ok ml_ok_def [of l])
  qed (simp_all add: ml_getEntry_ok ml_getMany_props ml_set_ok ml_setMany_props ml_look_props ml_deleteMany_ok)
qed

lemma layer_step_effect: "ml_ok l \<Longrightarrow> ml_holds (layer_step act l) \<subseteq>\<^sub>m layer_effect (ml_defaultTtl l) act (ml_holds l)"
proof -
  assume ok: "ml_ok l"
  obtain now op where act: "act = (now, op)" by fastforce
  show ?thesis
  proof (cases op)
    case LClear
    then show ?thesis using act by (simp add: ml_holds_def ml_clear_def map_le_def)
  next
    case (LDeleteMany keys)
    then show ?thesis using act by (simp add: map_le_def holds_deleteMany)
  next
    case (LImport es)
    then show ?thesis
      using act evict_while_holds [of now "l\<lparr>ml_entries := import_entries now es (ml_entries l)\<rparr>"]
      by (simp add: ml_importState_def import_entries_holds)
  next
    case LPrune
    then show ?thesis using act ok prune_holds by (simp add: ml_ok_def)
  qed (use act ok in \<open>simp_all add: ml_getEntry_holds ml_getMany_props ml_set_holds ml_setMany_props ml_look_props
      ml_delete_def holds_delete\<close>)
qed

interpretation mem: forgetful_store layer_step ml_holds "layer_effect d" "ml_inv d"
proof
  fix l :: memory_layer and act m m'
  show "ml_inv d l \<Longrightarrow> ml_inv d (layer_step act l)"
    using layer_step_ok layer_step_config [of l act] by (simp add: ml_inv_def same_config_def)
  show "ml_inv d l \<Longrightarrow> ml_holds (layer_step act l) \<subseteq>\<^sub>m layer_effect d act (ml_holds l)"
    using layer_step_effect [of l act] by (simp add: ml_inv_def)
  show "m \<subseteq>\<^sub>m m' \<Longrightarrow> layer_effect d act m \<subseteq>\<^sub>m layer_effect d act m'" by (rule layer_effect_mono)
qed

lemma new_layer_inv: "ml_inv d (new_memory_layer name d maxSize policy)" "ml_holds (new_memory_layer name d maxSize policy) = Map.empty"
  by (simp_all add: ml_inv_def ml_ok_def new_memory_layer_def ml_holds_def fun_eq_iff)

lemma getEntry_answer:
  "fst (ml_getEntry now key l) = (case ml_holds l key of None \<Rightarrow> JNull | Some (v, e) \<Rightarrow> if lapsed now e then JNull else v)"
  by (auto simp: ml_getEntry_def ml_holds_def ml_isExpired_def lapsed_def Let_def split: option.splits)

text \<open>
  C32: the memory layer never lies. After any sequence of operations on a new layer, under every
  eviction policy, a read answers \<open>null\<close> or the value of the latest write of that key that no later
  delete or clear removed, and only before that write's expiry.
\<close>

theorem memory_layer_never_lies:
  "fst (ml_getEntry now key (fold layer_step acts (new_memory_layer name d maxSize policy))) = JNull \<or>
   (\<exists>v e. fold (layer_effect d) acts Map.empty key = Some (v, e) \<and> lapsed now e = False \<and>
      fst (ml_getEntry now key (fold layer_step acts (new_memory_layer name d maxSize policy))) = v)"
proof -
  have "ml_inv d (new_memory_layer name d maxSize policy)" by (rule new_layer_inv)
  from mem.held_was_written [OF this new_layer_inv(2), of acts key]
  show ?thesis by (auto simp: getEntry_answer split: option.split)
qed

text \<open>
  The memory layer is bounded. After any sequence of operations on a new layer it holds at most
  \<open>maxSize\<close> entries, one per key.
\<close>

theorem memory_layer_bounded:
  "length (ml_entries (fold layer_step acts (new_memory_layer name d maxSize policy))) \<le> nullish maxSize 1000 \<and>
   jsmap_ok (ml_entries (fold layer_step acts (new_memory_layer name d maxSize policy)))"
proof -
  have "same_config l (fold layer_step acts l)" for l
    by (induction acts arbitrary: l) (auto intro: same_config_trans [OF layer_step_config])
  from this [of "new_memory_layer name d maxSize policy"]
  show ?thesis
    using mem.ok_run [of d "new_memory_layer name d maxSize policy" acts] new_layer_inv(1) [of d name maxSize policy]
    by (simp add: ml_inv_def ml_ok_def same_config_def new_memory_layer_def)
qed


subsection \<open>Least recently used\<close>

text \<open>\<open>k\<close> is held, and every key used more recently is in \<open>S\<close>.\<close>

definition held_behind :: "string \<Rightarrow> string set \<Rightarrow> js \<Rightarrow> real option \<Rightarrow> (string, memory_entry) jsmap \<Rightarrow> bool" where
  "held_behind k S v x m \<longleftrightarrow> jsmap_ok m \<and>
     (\<exists>pre e post. m = pre @ (k, e) # post \<and> me_value e = v \<and> me_expiresAt e = x \<and> fst ` set post \<subseteq> S)"

fun op_uses :: "layer_op \<Rightarrow> string set" where
  "op_uses (LGet key) = {key}"
| "op_uses (LGetMany keys) = set keys"
| "op_uses (LSet key v ttl) = {key}"
| "op_uses (LSetMany es) = fst ` set es"
| "op_uses (LImport es) = mse_key ` set es"
| "op_uses _ = {}"

fun op_replaces :: "layer_op \<Rightarrow> string \<Rightarrow> bool" where
  \<comment> \<open>the operation overwrites or removes the key\<close>
  "op_replaces (LSet key v ttl) k = (key = k)"
| "op_replaces (LSetMany es) k = (k \<in> fst ` set es)"
| "op_replaces (LDelete key) k = (key = k)"
| "op_replaces (LDeleteMany keys) k = (k \<in> set keys)"
| "op_replaces LClear k = True"
| "op_replaces (LImport es) k = (k \<in> mse_key ` set es)"
| "op_replaces _ k = False"

lemma delete_append: "AList.delete k (xs @ ys) = AList.delete k xs @ AList.delete k ys"
  by (simp add: AList.delete_eq)

lemma held_behindI:
  "m = pre @ (k, e) # post \<Longrightarrow> jsmap_ok m \<Longrightarrow> me_value e = v \<Longrightarrow> me_expiresAt e = x \<Longrightarrow> fst ` set post \<subseteq> S
     \<Longrightarrow> held_behind k S v x m"
  unfolding held_behind_def by blast

lemma held_behindE:
  assumes "held_behind k S v x m"
  obtains pre e post where "m = pre @ (k, e) # post" "me_value e = v" "me_expiresAt e = x" "fst ` set post \<subseteq> S" "jsmap_ok m"
  using assms unfolding held_behind_def by blast

lemma held_behind_delete:
  assumes "held_behind k S v x m" "k' \<noteq> k"
  shows "held_behind k (S - {k'}) v x (AList.delete k' m)"
proof -
  obtain pre e post where m: "m = pre @ (k, e) # post" "me_value e = v" "me_expiresAt e = x" "fst ` set post \<subseteq> S" "jsmap_ok m"
    using assms(1) by (rule held_behindE)
  have "AList.delete k' m = AList.delete k' pre @ (k, e) # AList.delete k' post" using m(1) assms(2) by (simp add: delete_append)
  moreover have "fst ` set (AList.delete k' post) \<subseteq> S - {k'}" using m(4) unfolding dom_delete by blast
  ultimately show ?thesis using m(2,3) jsmap_ok_delete [OF m(5), of k'] by (intro held_behindI)
qed

lemma held_behind_mono: "held_behind k S v x m \<Longrightarrow> S \<subseteq> S' \<Longrightarrow> held_behind k S' v x m"
  unfolding held_behind_def by blast

lemma held_behind_append:
  assumes "held_behind k S v x m" "k' \<notin> fst ` set m"
  shows "held_behind k (insert k' S) v x (m @ [(k', f)])"
proof -
  obtain pre e post where m: "m = pre @ (k, e) # post" "me_value e = v" "me_expiresAt e = x" "fst ` set post \<subseteq> S" "jsmap_ok m"
    using assms(1) by (rule held_behindE)
  show ?thesis
  proof (rule held_behindI [of _ pre k e "post @ [(k', f)]"])
    show "jsmap_ok (m @ [(k', f)])" using m(5) assms(2) by (simp add: jsmap_ok_def)
    show "fst ` set (post @ [(k', f)]) \<subseteq> insert k' S" using m(4) by auto
  qed (use m in auto)
qed

lemma held_behind_move:
  assumes "held_behind k S v x m" "k' \<noteq> k"
  shows "held_behind k (insert k' S) v x (AList.update k' f (AList.delete k' m))"
proof -
  have "k' \<notin> fst ` set (AList.delete k' m)" by (simp add: dom_delete)
  then show ?thesis
    using held_behind_append [OF held_behind_delete [OF assms]] held_behind_mono [of k "insert k' (S - {k'})"]
    by (metis insert_Diff_single order_refl update_absent)
qed

lemma held_behind_self:
  assumes "jsmap_ok m" "me_value e = v" "me_expiresAt e = x"
  shows "held_behind k S v x (AList.update k e (AList.delete k m))"
proof -
  have "AList.update k e (AList.delete k m) = AList.delete k m @ (k, e) # []"
    by (simp add: update_absent dom_delete)
  then show ?thesis
    using assms unfolding held_behind_def by (metis empty_set empty_subsetI image_empty jsmap_ok_delete jsmap_ok_update)
qed

lemma update_append:
  "AList.update k' e (xs @ ys) = (if k' \<in> fst ` set xs then AList.update k' e xs @ ys else xs @ AList.update k' e ys)"
  by (induction xs) auto

lemma held_behind_update:
  assumes "held_behind k S v x m" "k' \<noteq> k"
  shows "held_behind k (insert k' S) v x (AList.update k' f m)"
proof -
  obtain pre e post where m: "m = pre @ (k, e) # post" "me_value e = v" "me_expiresAt e = x" "fst ` set post \<subseteq> S" "jsmap_ok m"
    using assms(1) by (rule held_behindE)
  have split: "AList.update k' f m = (if k' \<in> fst ` set pre then AList.update k' f pre @ (k, e) # post
      else pre @ (k, e) # AList.update k' f post)"
    using m(1) assms(2) by (simp add: update_append)
  have "fst ` set (AList.update k' f post) \<subseteq> insert k' S" using m(4) unfolding dom_update by blast
  moreover have "fst ` set post \<subseteq> insert k' S" using m(4) by blast
  moreover have "jsmap_ok (AList.update k' f m)" using m(5) by (rule jsmap_ok_update)
  ultimately show ?thesis
    using split m(2,3) held_behindI [of "AList.update k' f m" _ k e] by (cases "k' \<in> fst ` set pre") auto
qed

lemma evict_lru: "ml_policy l \<noteq> Lfu \<Longrightarrow> jsmap_ok (ml_entries l) \<Longrightarrow> ml_entries (evict now l) = drop 1 (ml_entries l)"
  by (cases "ml_entries l"; cases "ml_policy l") (auto simp: evict_def victim_def jsmap_ok_Cons delete_absent)

lemma evict_while_lru:
  "ml_policy l \<noteq> Lfu \<Longrightarrow> jsmap_ok (ml_entries l) \<Longrightarrow>
     ml_entries (evict_while_full now l) = drop (length (ml_entries l) - ml_maxSize l) (ml_entries l)"
proof (induction now l rule: evict_while_full.induct)
  case (1 now l)
  show ?case
  proof (cases "length (ml_entries l) > ml_maxSize l")
    case True
    then show ?thesis
      using 1 evict_jsmap_ok [of l now]
      by (subst evict_while_full.simps) (simp add: evict_lru drop_Suc [symmetric] Suc_diff_Suc del: drop_Suc)
  next
    case False
    then show ?thesis by (subst evict_while_full.simps) simp
  qed
qed

lemma held_behind_drop:
  assumes "held_behind k S v x m" "finite S" "card S < mx"
  shows "held_behind k S v x (drop (length m - mx) m)"
proof -
  obtain pre e post where m: "m = pre @ (k, e) # post" "me_value e = v" "me_expiresAt e = x" "fst ` set post \<subseteq> S" "jsmap_ok m"
    using assms(1) by (rule held_behindE)
  have "distinct (map fst post)" using m(1,5) by (simp add: jsmap_ok_def)
  then have "length post = card (fst ` set post)" using distinct_card by fastforce
  also have "\<dots> \<le> card S" using assms(2) m(4) by (rule card_mono)
  finally have "drop (length m - mx) m = drop (length m - mx) pre @ (k, e) # post" using m(1) assms(3) by simp
  then show ?thesis using m(2-4) jsmap_ok_drop [OF m(5)] by (intro held_behindI)
qed


text \<open>The state in which \<open>k\<close> is safe from eviction, and its preservation.\<close>

definition lru_safe :: "string \<Rightarrow> string set \<Rightarrow> js \<Rightarrow> real option \<Rightarrow> memory_layer \<Rightarrow> bool" where
  "lru_safe k S v x l \<longleftrightarrow> ml_policy l = Lru \<and> k \<notin> S \<and> finite S \<and> card S < ml_maxSize l \<and> held_behind k S v x (ml_entries l)"

lemma lru_safe_same:
  "lru_safe k S v x l \<Longrightarrow> held_behind k S v x m \<Longrightarrow> lru_safe k S v x (l\<lparr>ml_entries := m\<rparr>)"
  by (simp add: lru_safe_def)

lemma held_behind_lookup: "held_behind k S v x m \<Longrightarrow> \<exists>e. map_of m k = Some e \<and> me_value e = v \<and> me_expiresAt e = x"
  by (erule held_behindE) (metis in_set_conv_decomp jsmap_ok_def map_of_is_SomeI)

lemma lru_safe_evict:
  assumes "lru_safe k S v x l" "held_behind k S v x m"
  shows "lru_safe k S v x (evict_while_full now (l\<lparr>ml_entries := m\<rparr>))"
  using assms evict_while_config [of "l\<lparr>ml_entries := m\<rparr>" now] held_behind_drop [OF assms(2)]
  by (auto simp: lru_safe_def same_config_def evict_while_lru held_behind_def)

lemma held_behind_in: "k' \<in> S \<Longrightarrow> held_behind k (insert k' S) v x m \<Longrightarrow> held_behind k S v x m"
  by (simp add: insert_absorb)

lemma lru_safe_get:
  assumes "lru_safe k S v x l" "\<not> lapsed now x" "k' = k \<or> k' \<in> S"
  shows "lru_safe k S v x (snd (ml_getEntry now k' l))"
proof -
  have h: "held_behind k S v x (ml_entries l)" "ml_policy l = Lru" "k \<notin> S" using assms(1) by (auto simp: lru_safe_def)
  obtain e where e: "map_of (ml_entries l) k = Some e" "me_value e = v" "me_expiresAt e = x"
    using held_behind_lookup [OF h(1)] by blast
  show ?thesis
  proof (cases "k' = k")
    case True
    have "held_behind k S v x (AList.update k (e\<lparr>me_accessCount := me_accessCount e + 1\<rparr>) (AList.delete k (ml_entries l)))"
      using h(1) e by (intro held_behind_self) (auto simp: held_behind_def)
    then show ?thesis
      using True e h(2) assms(2) lru_safe_same [OF assms(1)] by (simp add: ml_getEntry_def ml_isExpired_def lapsed_def Let_def)
  next
    case False
    then have "k' \<in> S" using assms(3) by simp
    have "held_behind k S v x (AList.delete k' (ml_entries l))"
      using held_behind_mono [OF held_behind_delete [OF h(1) False]] by blast
    moreover have "held_behind k S v x (AList.update k' f (AList.delete k' (ml_entries l)))" for f
      using held_behind_in [OF \<open>k' \<in> S\<close> held_behind_move [OF h(1) False]] .
    ultimately show ?thesis
      using assms(1) lru_safe_same [OF assms(1)] h(2) by (simp add: ml_getEntry_def Let_def split: option.split)
  qed
qed

lemma lru_safe_set:
  assumes "lru_safe k S v x l" "k' \<in> S"
  shows "lru_safe k S v x (ml_set now k' w ttl l)"
proof -
  have "k' \<noteq> k" "held_behind k S v x (ml_entries l)" using assms by (auto simp: lru_safe_def)
  then show ?thesis
    using lru_safe_evict [OF assms(1) held_behind_in [OF assms(2) held_behind_move]] by (simp add: ml_set_def Let_def)
qed

lemma lru_safe_getMany:
  "lru_safe k S v x l \<Longrightarrow> \<not> lapsed now x \<Longrightarrow> set keys - {k} \<subseteq> S \<Longrightarrow> lru_safe k S v x (snd (ml_getMany now keys l))"
proof (induction keys arbitrary: l)
  case (Cons k' keys)
  have "lru_safe k S v x (snd (ml_getEntry now k' l))" using Cons by (intro lru_safe_get) auto
  then show ?case using Cons by (simp add: split_beta subset_iff)
qed simp

lemma lru_safe_setMany:
  "lru_safe k S v x l \<Longrightarrow> fst ` set es \<subseteq> S \<Longrightarrow> lru_safe k S v x (ml_setMany now es l)"
  by (induction now es l rule: ml_setMany.induct) (auto simp: lru_safe_set)

lemma lru_safe_import:
  "held_behind k S v x m \<Longrightarrow> k \<notin> mse_key ` set es \<Longrightarrow> mse_key ` set es \<subseteq> S \<Longrightarrow> held_behind k S v x (import_entries now es m)"
proof (induction now es m rule: import_entries.induct)
  case (2 now e es m)
  have "held_behind k S v x (AList.update (mse_key e) f m)" for f
    using 2(2-4) held_behind_in [OF _ held_behind_update [OF 2(2)]] by auto
  then show ?case using 2 by simp
qed simp

lemma held_behind_filter:
  assumes "held_behind k S v x m" "\<And>e. me_expiresAt e = x \<Longrightarrow> P (k, e)"
  shows "held_behind k S v x (filter P m)"
proof -
  obtain pre e post where m: "m = pre @ (k, e) # post" "me_value e = v" "me_expiresAt e = x" "fst ` set post \<subseteq> S" "jsmap_ok m"
    using assms(1) by (rule held_behindE)
  have "filter P m = filter P pre @ (k, e) # filter P post" using m(1,3) assms(2) by simp
  moreover have "fst ` set (filter P post) \<subseteq> S" using m(4) by auto
  ultimately show ?thesis using m(2,3) jsmap_ok_filter [OF m(5)] by (intro held_behindI)
qed

lemma lru_safe_step:
  assumes "lru_safe k S v x l" "\<not> lapsed now x" "op_uses act - {k} \<subseteq> S" "\<not> op_replaces act k"
  shows "lru_safe k S v x (layer_step (now, act) l)"
proof -
  have h: "held_behind k S v x (ml_entries l)" "ml_policy l = Lru" "k \<notin> S" using assms(1) by (auto simp: lru_safe_def)
  have del: "held_behind k S v x (AList.delete k' m)" if "held_behind k S v x m" "k' \<noteq> k" for k' m
    using held_behind_mono [OF held_behind_delete [OF that]] by blast
  have dels: "held_behind k S v x (fold AList.delete ks m)" if "held_behind k S v x m" "k \<notin> set ks" for ks m
    using that
  proof (induction ks arbitrary: m)
    case (Cons a ks)
    then have "a \<noteq> k" by auto
    then show ?case using Cons del [OF Cons(2), of a] by simp
  qed simp
  show ?thesis
  proof (cases act)
    case (LGet key)
    then show ?thesis using assms lru_safe_get [OF assms(1,2), of key] by (auto simp: subset_iff)
  next
    case (LHas key)
    show ?thesis
    proof (cases "key = k")
      case True
      then show ?thesis using LHas assms(1,2) held_behind_lookup [OF h(1)] by (auto simp: ml_has_def ml_isExpired_def lapsed_def)
    next
      case False
      then show ?thesis
        using LHas assms(1) lru_safe_same [OF assms(1) del [OF h(1) False]] by (simp add: ml_has_def split: option.split)
    qed
  next
    case (LTtl key)
    show ?thesis
    proof (cases "key = k")
      case True
      then show ?thesis
        using LTtl assms(1,2) held_behind_lookup [OF h(1)] by (auto simp: ml_ttl_def ml_isExpired_def lapsed_def split: option.split)
    next
      case False
      then show ?thesis
        using LTtl assms(1) lru_safe_same [OF assms(1) del [OF h(1) False]] by (simp add: ml_ttl_def split: option.split)
    qed
  next
    case LPrune
    have "held_behind k S v x (filter (\<lambda>(_, entry). \<not> ml_isExpired now entry) (ml_entries l))"
      using h(1) assms(2) by (intro held_behind_filter) (auto simp: ml_isExpired_def lapsed_def)
    then show ?thesis using LPrune lru_safe_same [OF assms(1)] by (simp add: ml_pruneExpired_def)
  next
    case (LImport es)
    then have "held_behind k S v x (import_entries now es (ml_entries l))"
      using assms(3,4) by (intro lru_safe_import [OF h(1)]) auto
    then show ?thesis using LImport lru_safe_evict [OF assms(1)] by (simp add: ml_importState_def)
  qed (use assms h in \<open>auto simp: lru_safe_set lru_safe_setMany lru_safe_getMany ml_delete_def ml_deleteMany_entries
      intro!: lru_safe_same del dels\<close>)
qed

lemma lru_safe_run:
  "lru_safe k S v x l \<Longrightarrow> \<forall>(now, act) \<in> set acts. \<not> lapsed now x \<and> op_uses act - {k} \<subseteq> S \<and> \<not> op_replaces act k \<Longrightarrow>
     lru_safe k S v x (fold layer_step acts l)"
proof (induction acts arbitrary: l)
  case (Cons a acts)
  obtain now act where a: "a = (now, act)" by fastforce
  have "lru_safe k S v x (layer_step a l)" using Cons(2,3) a lru_safe_step by auto
  then show ?case using Cons by auto
qed simp

lemma lru_safe_after_set:
  assumes "ml_ok l" "ml_policy l = Lru" "k \<notin> S" "finite S" "card S < ml_maxSize l"
  shows "lru_safe k S v (expiry_at now (nullish_opt ttl (ml_defaultTtl l))) (ml_set now k v ttl l)"
proof -
  let ?x = "expiry_at now (nullish_opt ttl (ml_defaultTtl l))"
  let ?e = "\<lparr>me_value = v, me_expiresAt = ?x, me_accessCount = 0, me_insertedAt = now\<rparr>"
  let ?m = "AList.update k ?e (AList.delete k (ml_entries l))"
  have set: "ml_set now k v ttl l = evict_while_full now (l\<lparr>ml_entries := ?m\<rparr>)"
    by (auto simp: ml_set_def Let_def expiry_at_def split: option.splits intro!: arg_cong2 [where f = evict_while_full])
  have h: "held_behind k S v ?x ?m" using assms(1) by (intro held_behind_self) (auto simp: ml_ok_def)
  then have "lru_safe k S v ?x (l\<lparr>ml_entries := ?m\<rparr>)" using assms by (simp add: lru_safe_def)
  from lru_safe_evict [OF this h, of now] show ?thesis by (simp add: set)
qed

text \<open>
  The least-recently-used guarantee. An entry written to an \<open>lru\<close> layer is still answered after any
  later operations that neither overwrite nor remove it, as long as it has not expired and fewer than
  \<open>maxSize\<close> other keys have been used since.
\<close>

theorem lru_keeps_recently_used:
  assumes "ml_ok l" "ml_policy l = Lru"
    and "\<forall>(t, act) \<in> set acts. \<not> lapsed t (expiry_at now (nullish_opt ttl (ml_defaultTtl l))) \<and> \<not> op_replaces act k"
    and "card ((\<Union>(t, act) \<in> set acts. op_uses act) - {k}) < ml_maxSize l"
    and "\<not> lapsed later (expiry_at now (nullish_opt ttl (ml_defaultTtl l)))"
  shows "fst (ml_getEntry later k (fold layer_step acts (ml_set now k v ttl l))) = v"
proof -
  let ?x = "expiry_at now (nullish_opt ttl (ml_defaultTtl l))"
  let ?S = "(\<Union>(t, act) \<in> set acts. op_uses act) - {k}"
  have "finite (op_uses act)" for act by (cases act) auto
  then have "finite ?S" by auto
  then have "lru_safe k ?S v ?x (ml_set now k v ttl l)" using lru_safe_after_set assms(1,2,4) by blast
  then have "lru_safe k ?S v ?x (fold layer_step acts (ml_set now k v ttl l))"
    using assms(3) by (intro lru_safe_run) auto
  then show ?thesis
    using held_behind_lookup assms(5) by (fastforce simp: lru_safe_def getEntry_answer ml_holds_def)
qed

theorem lru_keeps_recently_used_witness:
  "fst (ml_getEntry 9 ''a'' (fold layer_step [(1, LSet ''b'' JNull None), (2, LGet ''a''), (3, LGet ''b'')]
     (ml_set 0 ''a'' (JStr ''x'') (Some 10) (new_memory_layer None None (Some 2) None)))) = JStr ''x''"
  by (rule lru_keeps_recently_used)
    (auto simp: ml_ok_def new_memory_layer_def expiry_at_def lapsed_def insert_commute [of "''b''" "''a''"])

subsection \<open>Least frequently used\<close>

lemma lfu_victim_newest:
  "(\<forall>e \<in> snd ` set es. 0 < me_accessCount e) \<Longrightarrow> me_accessCount entry = 0 \<Longrightarrow> (\<forall>b. best = Some b \<longrightarrow> 0 < fst (snd b)) \<Longrightarrow>
     lfu_victim (es @ [(key, entry)]) best = Some (key, 0, me_insertedAt entry)"
proof (induction es arbitrary: best)
  case Nil
  then show ?case by (cases best) auto
next
  case (Cons a es)
  obtain k e where a: "a = (k, e)" by fastforce
  let ?best = "case best of None \<Rightarrow> Some (k, me_accessCount e, me_insertedAt e)
     | Some (vk, mc, mi) \<Rightarrow> if me_accessCount e < mc \<or> (me_accessCount e = mc \<and> me_insertedAt e < mi)
         then Some (k, me_accessCount e, me_insertedAt e) else best"
  have "\<forall>b. ?best = Some b \<longrightarrow> 0 < fst (snd b)"
    using Cons(2,4) a by (cases best) (auto split: if_split_asm)
  then show ?case using Cons(1) [of ?best] Cons(2,3) a by simp
qed

text \<open>
  On a full \<open>lfu\<close> layer whose entries have all been read, writing a new key stores nothing: the new
  entry has the smallest access count, so the write evicts it at once and the layer keeps its old entries.
\<close>

theorem lfu_full_layer_drops_new_key:
  assumes "ml_ok l" "ml_policy l = Lfu" "length (ml_entries l) = ml_maxSize l"
    and "\<forall>e \<in> snd ` set (ml_entries l). 0 < me_accessCount e" "key \<notin> fst ` set (ml_entries l)"
  shows "ml_entries (ml_set now key v ttl l) = ml_entries l"
proof -
  let ?x = "expiry_at now (nullish_opt ttl (ml_defaultTtl l))"
  let ?e = "\<lparr>me_value = v, me_expiresAt = ?x, me_accessCount = 0, me_insertedAt = now\<rparr>"
  let ?l = "l\<lparr>ml_entries := ml_entries l @ [(key, ?e)]\<rparr>"
  have set: "ml_set now key v ttl l = evict_while_full now ?l"
    using assms(5)
    by (auto simp: ml_set_def Let_def expiry_at_def delete_absent update_absent split: option.splits
        intro!: arg_cong2 [where f = evict_while_full])
  have "victim ?l = Some key"
    using lfu_victim_newest [OF assms(4), of ?e None key] assms(2) by (simp add: victim_def)
  then have "ml_entries (evict now ?l) = ml_entries l"
    using assms(5) by (simp add: evict_def delete_append delete_absent)
  then show ?thesis
    unfolding set using assms(3) by (subst evict_while_full.simps, simp) (subst evict_while_full.simps, simp)
qed

theorem lfu_full_layer_drops_new_key_witness:
  "ml_entries (ml_set 9 ''b'' JNull None (snd (ml_getEntry 1 ''a'' (ml_set 0 ''a'' JNull None (new_memory_layer None None (Some 1) (Some Lfu)))))) =
   ml_entries (snd (ml_getEntry 1 ''a'' (ml_set 0 ''a'' JNull None (new_memory_layer None None (Some 1) (Some Lfu)))))"
proof -
  have "evict_while_full 0 l = l" if "length (ml_entries l) \<le> ml_maxSize l" for l
    using that by (subst evict_while_full.simps) simp
  then show ?thesis
    by (intro lfu_full_layer_drops_new_key)
      (simp_all add: ml_ok_def new_memory_layer_def ml_set_def ml_getEntry_def ml_isExpired_def jsmap_ok_def)
qed

end
