(* ===== verification/LayerContract.thy ===== *)
theory LayerContract
  imports StackReads MemoryLayer
begin

text \<open>
  What the stack relies on in a cache layer, as the locale \<open>cache_layer\<close>: reads answer, a write is
  answered until its TTL has passed, a delete is final, and no operation makes another key answer
  anything new. A contract names the states in which a layer keeps these laws, what a read of a key
  answers at a time, the layer's default TTL, and the keys, values and TTLs it takes: a remote layer
  refuses some keys and cannot encode every value. The memory layer provides it (\<open>memory_api\<close>), under
  \<open>lru\<close> and \<open>fifo\<close>, for every key, value and TTL; under \<open>lfu\<close> it does not, because a full layer drops new keys.
  \<open>coarse_layer\<close> is the weaker contract of a backend that counts time in larger steps.
\<close>

definition read_api :: "'l layer_api \<Rightarrow> real \<Rightarrow> string \<Rightarrow> ('l, js) action" where
  "read_api api t key = (case la_getEntry api of Some getEntry \<Rightarrow> getEntry t key | None \<Rightarrow> la_get api t key)"

definition alive :: "real \<Rightarrow> real option \<Rightarrow> real \<Rightarrow> bool" where
  \<comment> \<open>written at \<open>now\<close> with this TTL (none, or not positive: no expiry), not yet expired at \<open>t\<close>\<close>
  "alive now ttl t = (case ttl of None \<Rightarrow> True | Some x \<Rightarrow> x \<le> 0 \<or> t < now + x)"

record 'l contract =
  ct_ok :: "'l \<Rightarrow> bool"
  ct_answer :: "real \<Rightarrow> 'l \<Rightarrow> string \<Rightarrow> js"
  ct_dflt :: "'l \<Rightarrow> real option"
  ct_key :: "string \<Rightarrow> bool"
  ct_value :: "js \<Rightarrow> bool"
  ct_ttl :: "real \<Rightarrow> real option \<Rightarrow> bool"

definition deleted :: "'l contract \<Rightarrow> real \<Rightarrow> string list \<Rightarrow> 'l \<Rightarrow> 'l \<Rightarrow> bool" where
  \<comment> \<open>from \<open>now\<close> on the keys answer \<open>null\<close>, all others what they answered\<close>
  "deleted ct now keys l l' \<longleftrightarrow> (\<forall>t k. now \<le> t \<longrightarrow> ct_answer ct t l' k = (if k \<in> set keys then JNull else ct_answer ct t l k))"

locale cache_layer =
  fixes api :: "'l layer_api"
    and ct :: "'l contract"
  assumes read: "ct_ok ct l \<Longrightarrow> ct_key ct k \<Longrightarrow> \<exists>l'. read_api api t k l = (Inr (ct_answer ct t l k), l') \<and> ct_ok ct l' \<and>
      (\<forall>t' k'. t \<le> t' \<longrightarrow> ct_answer ct t' l' k' = ct_answer ct t' l k')"
    and set: "ct_ok ct l \<Longrightarrow> ct_key ct k \<Longrightarrow> ct_value ct v \<Longrightarrow> ct_ttl ct t ttl \<Longrightarrow>
      \<exists>l'. la_set api t k v ttl l = (Inr (), l') \<and> ct_ok ct l' \<and>
      (\<forall>t'. t \<le> t' \<longrightarrow> alive t (nullish_opt ttl (ct_dflt ct l)) t' \<longrightarrow> ct_answer ct t' l' k = v) \<and>
      (\<forall>t' k'. t \<le> t' \<longrightarrow> k' \<noteq> k \<longrightarrow> ct_answer ct t' l' k' = JNull \<or> ct_answer ct t' l' k' = ct_answer ct t' l k')"
    and delete: "ct_ok ct l \<Longrightarrow> ct_key ct k \<Longrightarrow> \<exists>l'. la_delete api t k l = (Inr (), l') \<and> ct_ok ct l' \<and> deleted ct t [k] l l'"
    and deleteMany: "ct_ok ct l \<Longrightarrow> \<forall>k \<in> set ks. ct_key ct k \<Longrightarrow> la_deleteMany api = Some f \<Longrightarrow>
      \<exists>l'. f t ks l = (Inr (), l') \<and> ct_ok ct l' \<and> deleted ct t ks l l'"
begin

text \<open>Deleting one by one and in bulk agree.\<close>

fun delete_each :: "real \<Rightarrow> string list \<Rightarrow> 'l \<Rightarrow> unit result \<times> 'l" where
  "delete_each t [] l = (Inr (), l)"
| "delete_each t (k # ks) l = (case la_delete api t k l of (r, l1) \<Rightarrow> case delete_each t ks l1 of (r', l2) \<Rightarrow>
     (case r of Inl e \<Rightarrow> (Inl e, l2) | Inr _ \<Rightarrow> (r', l2)))"

lemma delete_each:
  "ct_ok ct l \<Longrightarrow> \<forall>k \<in> set ks. ct_key ct k \<Longrightarrow> \<exists>l'. delete_each t ks l = (Inr (), l') \<and> ct_ok ct l' \<and> deleted ct t ks l l'"
proof (induction ks arbitrary: l)
  case (Cons k ks)
  obtain l1 where l1: "la_delete api t k l = (Inr (), l1)" "ct_ok ct l1" "deleted ct t [k] l l1"
    using delete [OF Cons(2), of k t] Cons(3) by auto
  obtain l2 where l2: "delete_each t ks l1 = (Inr (), l2)" "ct_ok ct l2" "deleted ct t ks l1 l2"
    using Cons(1) [OF l1(2)] Cons(3) by auto
  show ?case using l1 l2 by (auto simp: deleted_def)
qed (simp add: deleted_def)

end

text \<open>
  The contract of a backend whose clock is coarse: an entry is answered while it \<open>lives\<close>, which may end before its
  TTL has passed, and no longer once it is \<open>over\<close>, which may be after that; in between the key answers the written value or nothing.
  The other laws are those of \<open>cache_layer\<close>.
\<close>

locale coarse_layer =
  fixes api :: "'l layer_api"
    and ct :: "'l contract"
    and lives over :: "real \<Rightarrow> real option \<Rightarrow> real \<Rightarrow> bool"
  assumes read: "ct_ok ct l \<Longrightarrow> ct_key ct k \<Longrightarrow> \<exists>l'. read_api api t k l = (Inr (ct_answer ct t l k), l') \<and> ct_ok ct l' \<and>
      (\<forall>t' k'. t \<le> t' \<longrightarrow> ct_answer ct t' l' k' = ct_answer ct t' l k')"
    and set: "ct_ok ct l \<Longrightarrow> ct_key ct k \<Longrightarrow> ct_value ct v \<Longrightarrow> ct_ttl ct t ttl \<Longrightarrow>
      \<exists>l'. la_set api t k v ttl l = (Inr (), l') \<and> ct_ok ct l' \<and>
      (\<forall>t'. t \<le> t' \<longrightarrow> lives t (nullish_opt ttl (ct_dflt ct l)) t' \<longrightarrow> ct_answer ct t' l' k = v) \<and>
      (\<forall>t'. t \<le> t' \<longrightarrow> over t (nullish_opt ttl (ct_dflt ct l)) t' \<longrightarrow> ct_answer ct t' l' k = JNull) \<and>
      (\<forall>t'. t \<le> t' \<longrightarrow> ct_answer ct t' l' k = JNull \<or> ct_answer ct t' l' k = v) \<and>
      (\<forall>t' k'. t \<le> t' \<longrightarrow> k' \<noteq> k \<longrightarrow> ct_answer ct t' l' k' = JNull \<or> ct_answer ct t' l' k' = ct_answer ct t' l k')"
    and delete: "ct_ok ct l \<Longrightarrow> ct_key ct k \<Longrightarrow> \<exists>l'. la_delete api t k l = (Inr (), l') \<and> ct_ok ct l' \<and> deleted ct t [k] l l'"
    and deleteMany: "ct_ok ct l \<Longrightarrow> \<forall>k \<in> set ks. ct_key ct k \<Longrightarrow> la_deleteMany api = Some f \<Longrightarrow>
      \<exists>l'. f t ks l = (Inr (), l') \<and> ct_ok ct l' \<and> deleted ct t ks l l'"
begin

lemma write_then_read:
  assumes "ct_ok ct l" "ct_key ct k" "ct_value ct v" "ct_ttl ct t ttl" "t \<le> t'"
  shows "\<exists>l1 l2 r. la_set api t k v ttl l = (Inr (), l1) \<and> read_api api t' k l1 = (Inr r, l2) \<and> ct_ok ct l2 \<and>
    (r = JNull \<or> r = v) \<and> (lives t (nullish_opt ttl (ct_dflt ct l)) t' \<longrightarrow> r = v) \<and>
    (over t (nullish_opt ttl (ct_dflt ct l)) t' \<longrightarrow> r = JNull)"
proof -
  obtain l1 where l1: "la_set api t k v ttl l = (Inr (), l1)" "ct_ok ct l1"
    "\<forall>t'. t \<le> t' \<longrightarrow> lives t (nullish_opt ttl (ct_dflt ct l)) t' \<longrightarrow> ct_answer ct t' l1 k = v"
    "\<forall>t'. t \<le> t' \<longrightarrow> over t (nullish_opt ttl (ct_dflt ct l)) t' \<longrightarrow> ct_answer ct t' l1 k = JNull"
    "\<forall>t'. t \<le> t' \<longrightarrow> ct_answer ct t' l1 k = JNull \<or> ct_answer ct t' l1 k = v"
    using set [OF assms(1-4)] by blast
  obtain l2 where "read_api api t' k l1 = (Inr (ct_answer ct t' l1 k), l2)" "ct_ok ct l2" using read [OF l1(2) assms(2), of t'] by blast
  then show ?thesis using l1 assms(5) by blast
qed

end

text \<open>
  A layer that can list its keys lists every key it answers, and a key it does not answer stays
  unanswered until it is written. The scans for a prefix or a pattern rest on it.
\<close>

locale listed_layer = cache_layer +
  assumes keys: "ct_ok ct l \<Longrightarrow> la_keys api = Some f \<Longrightarrow> \<exists>ks l'. f t l = (Inr ks, l') \<and> ct_ok ct l' \<and>
      (\<forall>k. ct_answer ct t l k \<noteq> JNull \<longrightarrow> k \<in> set ks) \<and> (\<forall>k \<in> set ks. ct_key ct k) \<and>
      (\<forall>t' k. t \<le> t' \<longrightarrow> ct_answer ct t' l' k = ct_answer ct t' l k)"
    and lists: "la_keys api \<noteq> None"
    and gone: "t \<le> t' \<Longrightarrow> ct_answer ct t l k = JNull \<Longrightarrow> ct_answer ct t' l k = JNull"
begin

lemma listing:
  assumes "ct_ok ct l"
  obtains f ks l' where "la_keys api = Some f" "f t l = (Inr ks, l')" "ct_ok ct l'"
    "\<forall>k. ct_answer ct t l k \<noteq> JNull \<longrightarrow> k \<in> set ks" "\<forall>k \<in> set ks. ct_key ct k"
    "\<forall>t' k. t \<le> t' \<longrightarrow> ct_answer ct t' l' k = ct_answer ct t' l k"
proof -
  obtain f where f: "la_keys api = Some f" using lists by blast
  show thesis using keys [OF assms f, of t] f that by blast
qed

end

subsection \<open>The memory layer as a layer of the stack\<close>

definition pure_action :: "('l \<Rightarrow> 'a \<times> 'l) \<Rightarrow> ('l, 'a) action" where
  "pure_action f l = (case f l of (x, l') \<Rightarrow> (Inr x, l'))"

definition memory_api :: "memory_layer layer_api" where
  "memory_api = \<lparr>
     la_get = (\<lambda>t k. pure_action (ml_get t k)),
     la_getEntry = Some (\<lambda>t k. pure_action (ml_getEntry t k)),
     la_getMany = Some (\<lambda>t ks. pure_action (ml_getMany t ks)),
     la_set = (\<lambda>t k v ttl. pure_action (\<lambda>l. ((), ml_set t k v ttl l))),
     la_setMany = Some (\<lambda>t es. pure_action (\<lambda>l. ((), ml_setMany t (map (\<lambda>e. (sm_key e, sm_value e, sm_ttl e)) es) l))),
     la_delete = (\<lambda>t k. pure_action (\<lambda>l. ((), ml_delete k l))),
     la_deleteMany = Some (\<lambda>t ks. pure_action (\<lambda>l. ((), ml_deleteMany ks l))),
     la_clear = (\<lambda>t. pure_action (\<lambda>l. ((), ml_clear l))),
     la_has = Some (\<lambda>t k. pure_action (ml_has t k)),
     la_ttl = Some (\<lambda>t k. pure_action (ml_ttl t k)),
     la_keys = Some (\<lambda>t. pure_action (ml_keys t)),
     la_visited = (\<lambda>_ _. [])\<rparr>"

definition memory_layer_of :: "memory_layer \<Rightarrow> memory_layer layer" where
  "memory_layer_of l = \<lparr>ly_name = ml_name l, ly_defaultTtl = ml_defaultTtl l, ly_isLocal = True, ly_api = memory_api, ly_state = l\<rparr>"

definition keeps_new_keys :: "memory_layer \<Rightarrow> bool" where
  "keeps_new_keys l \<longleftrightarrow> ml_ok l \<and> ml_policy l \<noteq> Lfu \<and> 0 < ml_maxSize l"

definition memory_answer :: "real \<Rightarrow> memory_layer \<Rightarrow> string \<Rightarrow> js" where
  "memory_answer t l k = fst (ml_getEntry t k l)"

definition memory_contract :: "memory_layer contract" where
  "memory_contract = \<lparr>ct_ok = keeps_new_keys, ct_answer = memory_answer, ct_dflt = ml_defaultTtl, ct_key = (\<lambda>_. True), ct_value = (\<lambda>_. True),
     ct_ttl = (\<lambda>_ _. True)\<rparr>"

lemma memory_contract_simps [simp]:
  "ct_ok memory_contract = keeps_new_keys" "ct_answer memory_contract = memory_answer" "ct_dflt memory_contract = ml_defaultTtl"
  "ct_key memory_contract k" "ct_value memory_contract v" "ct_ttl memory_contract t ttl"
  by (simp_all add: memory_contract_def)

lemma memory_answer_holds:
  "memory_answer t l k = (case ml_holds l k of None \<Rightarrow> JNull | Some (v, e) \<Rightarrow> if lapsed t e then JNull else v)"
  by (simp add: memory_answer_def getEntry_answer)

lemma memory_answer_le:
  assumes "ml_holds l' \<subseteq>\<^sub>m (ml_holds l)(k := x)" "k' \<noteq> k"
  shows "memory_answer t l' k' = JNull \<or> memory_answer t l' k' = memory_answer t l k'"
proof (cases "ml_holds l' k'")
  case None
  then show ?thesis by (simp add: memory_answer_holds)
next
  case (Some p)
  then have "ml_holds l k' = Some p" using assms by (force simp: map_le_def)
  then show ?thesis using Some by (simp add: memory_answer_holds)
qed

lemma ml_getEntry_holds_now:
  "ml_holds (snd (ml_getEntry t k l)) k' =
     (if k' = k \<and> (case ml_holds l k of None \<Rightarrow> False | Some (v, e) \<Rightarrow> lapsed t e) then None else ml_holds l k')"
  by (auto simp: ml_getEntry_def ml_holds_def ml_isExpired_def lapsed_def Let_def jsmap_simps
      split: option.splits eviction_policy.splits)

lemma lapsed_mono: "lapsed t e \<Longrightarrow> t \<le> t' \<Longrightarrow> lapsed t' e"
  by (auto simp: lapsed_def split: option.splits)

lemma ml_set_keeps_new:
  assumes "keeps_new_keys l"
  shows "ml_holds (ml_set t k v ttl l) k = Some (v, expiry_at t (nullish_opt ttl (ml_defaultTtl l)))"
proof -
  let ?x = "expiry_at t (nullish_opt ttl (ml_defaultTtl l))"
  let ?e = "\<lparr>me_value = v, me_expiresAt = ?x, me_accessCount = 0, me_insertedAt = t\<rparr>"
  let ?m = "AList.update k ?e (AList.delete k (ml_entries l))"
  let ?l = "l\<lparr>ml_entries := ?m\<rparr>"
  have set: "ml_set t k v ttl l = evict_while_full t ?l"
    by (auto simp: ml_set_def Let_def expiry_at_def split: option.splits intro!: arg_cong2 [where f = evict_while_full])
  have ok: "jsmap_ok ?m" using assms by (simp add: keeps_new_keys_def ml_ok_def jsmap_ok_update jsmap_ok_delete)
  have m: "?m = AList.delete k (ml_entries l) @ [(k, ?e)]" by (simp add: update_absent dom_delete)
  have "length ?m - ml_maxSize l \<le> length (AList.delete k (ml_entries l))"
    using assms length_delete_le [of k "ml_entries l"] unfolding m by (auto simp: keeps_new_keys_def ml_ok_def)
  then have "(k, ?e) \<in> set (drop (length ?m - ml_maxSize l) ?m)" unfolding m by simp
  then have "map_of (drop (length ?m - ml_maxSize l) ?m) k = Some ?e"
    using jsmap_ok_drop [OF ok, of "length ?m - ml_maxSize l"] by (simp add: jsmap_ok_def)
  moreover have "ml_entries (evict_while_full t ?l) = drop (length ?m - ml_maxSize l) ?m"
    using assms ok by (simp add: evict_while_lru keeps_new_keys_def)
  ultimately show ?thesis unfolding set ml_holds_def by simp
qed

lemma keeps_new_keys_same: "keeps_new_keys l \<Longrightarrow> ml_ok l' \<Longrightarrow> same_config l l' \<Longrightarrow> keeps_new_keys l'"
  by (simp add: keeps_new_keys_def same_config_def)

interpretation memory: cache_layer memory_api memory_contract
proof (unfold_locales, unfold memory_contract_simps)
  fix l :: memory_layer and t k v ttl f ks
  assume ok: "keeps_new_keys l"
  then have mo: "ml_ok l" by (simp add: keeps_new_keys_def)
  have "memory_answer t' (snd (ml_getEntry t k l)) k' = memory_answer t' l k'" if "t \<le> t'" for t' k'
    using lapsed_mono [OF _ that]
    by (auto simp: memory_answer_holds ml_getEntry_holds_now split: option.splits)
  moreover have "keeps_new_keys (snd (ml_getEntry t k l))"
    using keeps_new_keys_same [OF ok ml_getEntry_ok [OF mo] ml_getEntry_config] .
  ultimately show "\<exists>l'. read_api memory_api t k l = (Inr (memory_answer t l k), l') \<and> keeps_new_keys l' \<and>
      (\<forall>t' k'. t \<le> t' \<longrightarrow> memory_answer t' l' k' = memory_answer t' l k')"
    by (auto simp: read_api_def memory_api_def pure_action_def memory_answer_def split: prod.split)
  let ?l = "ml_set t k v ttl l"
  have "memory_answer t' ?l k = v" if "t \<le> t'" "alive t (nullish_opt ttl (ml_defaultTtl l)) t'" for t'
    using that ml_set_keeps_new [OF ok, of t k v ttl]
    by (auto simp: memory_answer_holds lapsed_def expiry_at_def alive_def split: option.splits)
  moreover have "memory_answer t' ?l k' = JNull \<or> memory_answer t' ?l k' = memory_answer t' l k'" if "k' \<noteq> k" for t' k'
    using memory_answer_le [OF ml_set_holds that] .
  moreover have "keeps_new_keys ?l" using keeps_new_keys_same [OF ok ml_set_ok [OF mo] ml_set_config] .
  ultimately show "\<exists>l'. la_set memory_api t k v ttl l = (Inr (), l') \<and> keeps_new_keys l' \<and>
      (\<forall>t'. t \<le> t' \<longrightarrow> alive t (nullish_opt ttl (ml_defaultTtl l)) t' \<longrightarrow> memory_answer t' l' k = v) \<and>
      (\<forall>t' k'. t \<le> t' \<longrightarrow> k' \<noteq> k \<longrightarrow> memory_answer t' l' k' = JNull \<or> memory_answer t' l' k' = memory_answer t' l k')"
    by (auto simp: memory_api_def pure_action_def)
  have d: "same_config l (ml_deleteMany ks l)" for ks by (simp add: ml_deleteMany_entries)
  have dm: "keeps_new_keys (ml_deleteMany ks l)" for ks using keeps_new_keys_same [OF ok ml_deleteMany_ok [OF mo] d] .
  have da: "deleted memory_contract t ks l (ml_deleteMany ks l)" for ks
    by (simp add: deleted_def memory_answer_holds holds_deleteMany)
  show "\<exists>l'. la_delete memory_api t k l = (Inr (), l') \<and> keeps_new_keys l' \<and> deleted memory_contract t [k] l l'"
    using dm [of "[k]"] da [of "[k]"] by (simp add: memory_api_def pure_action_def)
  show "la_deleteMany memory_api = Some f \<Longrightarrow> \<exists>l'. f t ks l = (Inr (), l') \<and> keeps_new_keys l' \<and> deleted memory_contract t ks l l'"
    using dm [of ks] da [of ks] by (auto simp: memory_api_def pure_action_def)
qed

interpretation memory_coarse: coarse_layer memory_api memory_contract alive "\<lambda>now ttl t. \<not> alive now ttl t"
proof
  show "ct_ok memory_contract l \<Longrightarrow> ct_key memory_contract k \<Longrightarrow> \<exists>l'. read_api memory_api t k l = (Inr (ct_answer memory_contract t l k), l') \<and>
      ct_ok memory_contract l' \<and> (\<forall>t' k'. t \<le> t' \<longrightarrow> ct_answer memory_contract t' l' k' = ct_answer memory_contract t' l k')" for l k t
    by (rule memory.read)
  show "\<exists>l'. la_set memory_api t k v ttl l = (Inr (), l') \<and> ct_ok memory_contract l' \<and>
      (\<forall>t'. t \<le> t' \<longrightarrow> alive t (nullish_opt ttl (ct_dflt memory_contract l)) t' \<longrightarrow> ct_answer memory_contract t' l' k = v) \<and>
      (\<forall>t'. t \<le> t' \<longrightarrow> \<not> alive t (nullish_opt ttl (ct_dflt memory_contract l)) t' \<longrightarrow> ct_answer memory_contract t' l' k = JNull) \<and>
      (\<forall>t'. t \<le> t' \<longrightarrow> ct_answer memory_contract t' l' k = JNull \<or> ct_answer memory_contract t' l' k = v) \<and>
      (\<forall>t' k'. t \<le> t' \<longrightarrow> k' \<noteq> k \<longrightarrow> ct_answer memory_contract t' l' k' = JNull \<or> ct_answer memory_contract t' l' k' = ct_answer memory_contract t' l k')"
    if "ct_ok memory_contract l" "ct_key memory_contract k" "ct_value memory_contract v" "ct_ttl memory_contract t ttl" for l k v t ttl
  proof -
    have "ct_answer memory_contract t' (ml_set t k v ttl l) k \<in> {JNull, v}" for t'
      using that(1) ml_set_keeps_new [of l t k v ttl] by (auto simp: memory_answer_holds split: option.splits)
    moreover have "ct_answer memory_contract t' (ml_set t k v ttl l) k = JNull" if "\<not> alive t (nullish_opt ttl (ml_defaultTtl l)) t'" for t'
      using that \<open>ct_ok memory_contract l\<close> ml_set_keeps_new [of l t k v ttl]
      by (auto simp: memory_answer_holds lapsed_def expiry_at_def alive_def split: option.splits if_splits)
    ultimately show ?thesis using memory.set [OF that] by (auto simp: memory_api_def pure_action_def)
  qed
qed (rule memory.delete memory.deleteMany; assumption)+

lemma prune_holds_now:
  assumes "jsmap_ok (ml_entries l)"
  shows "ml_holds (ml_pruneExpired t l) k =
     (case ml_holds l k of None \<Rightarrow> None | Some (v, e) \<Rightarrow> if lapsed t e then None else Some (v, e))"
proof -
  have "map_of (filter (\<lambda>(_, entry). \<not> ml_isExpired t entry) m) k =
      (case map_of m k of None \<Rightarrow> None | Some e \<Rightarrow> if ml_isExpired t e then None else Some e)" if "jsmap_ok m" for m
    using that
  proof (induction m)
    case (Cons p m)
    then show ?case by (cases p) (auto simp: jsmap_ok_Cons map_of_eq_None_iff [symmetric] split: option.splits)
  qed simp
  from this [OF assms] show ?thesis
    by (auto simp: ml_holds_def ml_pruneExpired_def ml_isExpired_def lapsed_def split: option.splits)
qed

interpretation memory_listed: listed_layer memory_api memory_contract
proof (unfold_locales)
  fix l :: memory_layer and f t
  assume "ct_ok memory_contract l" and f: "la_keys memory_api = Some f"
  then have ok: "keeps_new_keys l" and m: "jsmap_ok (ml_entries l)" "ml_ok l" by (simp_all add: keeps_new_keys_def ml_ok_def)
  let ?l = "ml_pruneExpired t l"
  have f: "f t l = (Inr (map fst (ml_entries ?l)), ?l)"
    using f by (auto simp: memory_api_def pure_action_def ml_keys_def Let_def)
  have "ml_ok ?l"
    using m(2) by (auto simp: ml_ok_def ml_pruneExpired_def jsmap_ok_filter intro: order_trans [OF length_filter_le])
  then have ok': "keeps_new_keys ?l" using keeps_new_keys_same [OF ok] by (simp add: same_config_def ml_pruneExpired_def)
  have listed: "k \<in> set (map fst (ml_entries ?l))" if "memory_answer t l k \<noteq> JNull" for k
  proof -
    have "ml_holds ?l k \<noteq> None"
      using that prune_holds_now [OF m(1), of t k] by (auto simp: memory_answer_holds split: option.splits if_splits)
    then show ?thesis by (auto simp: ml_holds_def dest: map_of_in_dom)
  qed
  have "memory_answer t' ?l k = memory_answer t' l k" if "t \<le> t'" for t' k
    using prune_holds_now [OF m(1), of t k] lapsed_mono [OF _ that] by (auto simp: memory_answer_holds split: option.splits)
  then show "\<exists>ks l'. f t l = (Inr ks, l') \<and> ct_ok memory_contract l' \<and>
      (\<forall>k. ct_answer memory_contract t l k \<noteq> JNull \<longrightarrow> k \<in> set ks) \<and> (\<forall>k \<in> set ks. ct_key memory_contract k) \<and>
      (\<forall>t' k. t \<le> t' \<longrightarrow> ct_answer memory_contract t' l' k = ct_answer memory_contract t' l k)"
    using f ok' listed by auto
next
  fix t t' l k
  assume "t \<le> t'" "ct_answer memory_contract t l k = JNull"
  then show "ct_answer memory_contract t' l k = JNull"
    using lapsed_mono [OF _ \<open>t \<le> t'\<close>] by (auto simp: memory_answer_holds split: option.splits if_splits)
qed (simp add: memory_api_def)

lemma memory_layer_lists: "listed_layer memory_api memory_contract"
  by (rule memory_listed.listed_layer_axioms)

lemma memory_layer_lawful: "cache_layer memory_api memory_contract"
  by (rule memory.cache_layer_axioms)

end
