(* ===== verification/HealthyStack.thy ===== *)
theory HealthyStack
  imports LayerContract
begin

text \<open>
  Stacks none of whose layers is degraded and all of whose layers keep the contract \<open>cache_layer\<close>: what a
  layer call does to such a stack, the operations that visit every layer, and the deletion of keys.
\<close>

subsection \<open>Layer states\<close>

definition layer_info :: "'l layer \<Rightarrow> string \<times> real option \<times> bool \<times> 'l layer_api" where
  "layer_info ly = (ly_name ly, ly_defaultTtl ly, ly_isLocal ly, ly_api ly)"

definition state_of :: "'l stack \<Rightarrow> nat \<Rightarrow> 'l" where
  "state_of s i = ly_state (sk_layers s ! i)"

definition put_state :: "nat \<Rightarrow> 'l \<Rightarrow> 'l stack \<Rightarrow> 'l stack" where
  "put_state i l s = s\<lparr>sk_layers := (sk_layers s)[i := (the_layer i s)\<lparr>ly_state := l\<rparr>]\<rparr>"

definition same_rest :: "'l stack \<Rightarrow> 'l stack \<Rightarrow> bool" where
  \<comment> \<open>only layer states, metrics and events differ\<close>
  "same_rest s s' \<longleftrightarrow> sk_now s' = sk_now s \<and> sk_degradedUntil s' = sk_degradedUntil s \<and> sk_maint s' = sk_maint s \<and>
     sk_tags s' = sk_tags s \<and> sk_breakers s' = sk_breakers s \<and> sk_ttl s' = sk_ttl s \<and> sk_guard s' = sk_guard s \<and>
     sk_refreshes s' = sk_refreshes s \<and> sk_disconnecting s' = sk_disconnecting s \<and> sk_generation s' = sk_generation s \<and>
     map layer_info (sk_layers s') = map layer_info (sk_layers s)"

lemma same_rest_refl [simp]: "same_rest s s"
  by (simp add: same_rest_def)

lemma same_rest_trans: "same_rest a b \<Longrightarrow> same_rest b c \<Longrightarrow> same_rest a c"
  by (simp add: same_rest_def)

lemma same_rest_length: "same_rest s s' \<Longrightarrow> length (sk_layers s') = length (sk_layers s)"
  unfolding same_rest_def by (metis length_map)

lemma call_layer_put:
  "call_layer i f s = (case f (ly_api (the_layer i s)) (sk_now s) (state_of s i) of (r, l) \<Rightarrow> (r, put_state i l s))"
  by (simp add: call_layer_def put_state_def state_of_def the_layer_def)

lemma map_list_update_same: "f x = f (xs ! i) \<Longrightarrow> map f (xs[i := x]) = map f xs"
  by (metis list_update_id map_update)

lemma same_rest_put [simp]: "same_rest s (put_state i l s)"
  unfolding same_rest_def put_state_def by (simp add: map_list_update_same layer_info_def the_layer_def)

lemma put_state_length [simp]: "length (sk_layers (put_state i l s)) = length (sk_layers s)"
  by (simp add: put_state_def)

lemma state_of_put: "i < length (sk_layers s) \<Longrightarrow> state_of (put_state i l s) j = (if j = i then l else state_of s j)"
  by (simp add: state_of_def put_state_def the_layer_def nth_list_update)

lemma put_state_fields [simp]:
  "sk_now (put_state i l s) = sk_now s" "sk_degradedUntil (put_state i l s) = sk_degradedUntil s"
  "sk_maint (put_state i l s) = sk_maint s" "sk_tags (put_state i l s) = sk_tags s"
  "sk_generation (put_state i l s) = sk_generation s" "sk_disconnecting (put_state i l s) = sk_disconnecting s"
  "sk_breakers (put_state i l s) = sk_breakers s" "sk_ttl (put_state i l s) = sk_ttl s"
  by (simp_all add: put_state_def)

lemma layer_api_put [simp]: "ly_api (sk_layers (put_state i l s) ! j) = ly_api (sk_layers s ! j)"
  by (cases "i < length (sk_layers s)"; cases "j = i") (auto simp: put_state_def the_layer_def nth_list_update list_update_beyond)

lemma same_rest_counts [simp]:
  "same_rest s (count_metric f n s')= same_rest s s'" "same_rest s (emit e s') = same_rest s s'"
  "same_rest s (s'\<lparr>sk_metrics := m\<rparr>) = same_rest s s'"
  by (simp_all add: same_rest_def count_metric_def emit_def)

subsection \<open>Stacks of working layers\<close>

definition healthy :: "'l contract \<Rightarrow> 'l stack \<Rightarrow> bool" where
  \<comment> \<open>no layer is degraded and every layer keeps the contract\<close>
  "healthy ct s \<longleftrightarrow> sk_degradedUntil s = [] \<and>
     (\<forall>i < length (sk_layers s). cache_layer (ly_api (sk_layers s ! i)) ct \<and> ct_ok ct (state_of s i))"

lemma healthy_skip: "healthy ct s \<Longrightarrow> skip_layer i s = (False, s)"
  by (simp add: healthy_def skip_layer_def shouldSkipLayer_def Let_def)

lemma healthy_put: "healthy ct s \<Longrightarrow> i < length (sk_layers s) \<Longrightarrow> ct_ok ct l \<Longrightarrow> healthy ct (put_state i l s)"
  by (auto simp: healthy_def state_of_put)

lemma healthy_cong:
  "healthy ct s \<Longrightarrow> sk_layers s' = sk_layers s \<Longrightarrow> sk_degradedUntil s' = sk_degradedUntil s \<Longrightarrow> healthy ct s'"
  by (simp add: healthy_def state_of_def)

lemma healthy_metrics [simp]:
  "healthy ct (count_metric f n s) = healthy ct s" "healthy ct (emit e s) = healthy ct s"
  "healthy ct (s\<lparr>sk_metrics := m\<rparr>) = healthy ct s" "healthy ct (s\<lparr>sk_tags := g\<rparr>) = healthy ct s"
  "healthy ct (s\<lparr>sk_maint := mt\<rparr>) = healthy ct s" "healthy ct (s\<lparr>sk_ttl := tr\<rparr>) = healthy ct s"
  "healthy ct (s\<lparr>sk_breakers := b\<rparr>) = healthy ct s" "healthy ct (s\<lparr>sk_now := t\<rparr>) = healthy ct s"
  by (simp_all add: healthy_def state_of_def count_metric_def emit_def)

lemma state_of_frame [simp]:
  "state_of (count_metric f n s) i = state_of s i" "state_of (emit e s) i = state_of s i"
  "state_of (s\<lparr>sk_metrics := m\<rparr>) i = state_of s i" "state_of (s\<lparr>sk_tags := g\<rparr>) i = state_of s i"
  "state_of (s\<lparr>sk_maint := mt\<rparr>) i = state_of s i" "state_of (s\<lparr>sk_ttl := tr\<rparr>) i = state_of s i"
  "state_of (s\<lparr>sk_breakers := b\<rparr>) i = state_of s i" "state_of (s\<lparr>sk_now := t\<rparr>) i = state_of s i"
  by (simp_all add: state_of_def count_metric_def emit_def)

lemma counts_frame [simp]:
  "sk_now (count_metric f n s) = sk_now s" "sk_now (emit e s) = sk_now s"
  "sk_layers (count_metric f n s) = sk_layers s" "sk_layers (emit e s) = sk_layers s"
  "sk_maint (count_metric f n s) = sk_maint s" "sk_maint (emit e s) = sk_maint s"
  "sk_tags (count_metric f n s) = sk_tags s" "sk_tags (emit e s) = sk_tags s"
  "sk_generation (count_metric f n s) = sk_generation s" "sk_generation (emit e s) = sk_generation s"
  "sk_disconnecting (count_metric f n s) = sk_disconnecting s" "sk_disconnecting (emit e s) = sk_disconnecting s"
  "sk_degradedUntil (count_metric f n s) = sk_degradedUntil s" "sk_degradedUntil (emit e s) = sk_degradedUntil s"
  by (simp_all add: count_metric_def emit_def)

text \<open>A layer call on a healthy stack.\<close>

lemma healthy_layer:
  "healthy ct s \<Longrightarrow> i < length (sk_layers s) \<Longrightarrow> cache_layer (ly_api (the_layer i s)) ct \<and> ct_ok ct (state_of s i)"
  by (simp add: healthy_def the_layer_def)

lemma healthy_read:
  assumes "healthy ct s" "i < length (sk_layers s)" "ct_key ct k"
  shows "\<exists>l. call_layer i (\<lambda>api t. read_api api t k) s = (Inr (ct_answer ct (sk_now s) (state_of s i) k), put_state i l s) \<and> ct_ok ct l \<and>
    (\<forall>t k'. sk_now s \<le> t \<longrightarrow> ct_answer ct t l k' = ct_answer ct t (state_of s i) k')"
  using cache_layer.read [OF conjunct1 [OF healthy_layer [OF assms(1,2)]] conjunct2 [OF healthy_layer [OF assms(1,2)]] assms(3), of "sk_now s"]
  by (auto simp: call_layer_put)

lemma healthy_set:
  assumes "healthy ct s" "i < length (sk_layers s)" "ct_key ct k" "ct_value ct v" "ct_ttl ct (sk_now s) ttl"
  shows "\<exists>l. call_layer i (\<lambda>api t. la_set api t k v ttl) s = (Inr (), put_state i l s) \<and> ct_ok ct l \<and>
    (\<forall>t. sk_now s \<le> t \<longrightarrow> alive (sk_now s) (nullish_opt ttl (ct_dflt ct (state_of s i))) t \<longrightarrow> ct_answer ct t l k = v)"
  using cache_layer.set [OF conjunct1 [OF healthy_layer [OF assms(1,2)]] conjunct2 [OF healthy_layer [OF assms(1,2)]] assms(3-5)]
  by (auto simp: call_layer_put)

lemma healthy_delete:
  assumes "healthy ct s" "i < length (sk_layers s)" "ct_key ct k"
  shows "\<exists>l. call_layer i (\<lambda>api t. la_delete api t k) s = (Inr (), put_state i l s) \<and> ct_ok ct l \<and>
    deleted ct (sk_now s) [k] (state_of s i) l"
  using cache_layer.delete [OF conjunct1 [OF healthy_layer [OF assms(1,2)]] conjunct2 [OF healthy_layer [OF assms(1,2)]] assms(3), of "sk_now s"]
  by (auto simp: call_layer_put)

lemma recover_ok: "m s = (Inr (), s') \<Longrightarrow> recover_layer cf i opn m s = (Inr (), s')"
  by (simp add: recover_layer_def catching_def)

text \<open>An action that visits layer \<open>i\<close> of a healthy stack and succeeds there.\<close>

definition visits :: "'l contract \<Rightarrow> nat \<Rightarrow> 'l stack \<Rightarrow> 'l stack \<Rightarrow> bool" where
  "visits ct i s s' \<longleftrightarrow> healthy ct s' \<and> same_rest s s' \<and> (\<forall>j. j \<noteq> i \<longrightarrow> state_of s' j = state_of s j)"

lemma visits_put: "healthy ct s \<Longrightarrow> i < length (sk_layers s) \<Longrightarrow> ct_ok ct l \<Longrightarrow> visits ct i s (put_state i l s)"
  by (simp add: visits_def healthy_put state_of_put)

lemma promise_all_visits:
  assumes "\<And>i u. i \<in> set is \<Longrightarrow> healthy ct u \<Longrightarrow> same_rest s0 u \<Longrightarrow> state_of u i = st i \<Longrightarrow>
      \<exists>s'. f i u = (Inr (), s') \<and> visits ct i u s' \<and> Q i (state_of s' i)"
    and "\<forall>i \<in> set is. state_of s i = st i"
    and "healthy ct s" "same_rest s0 s" "distinct is"
  shows "\<exists>s'. promise_all (map f is) s = (Inr (), s') \<and> healthy ct s' \<and> same_rest s s' \<and>
    (\<forall>i \<in> set is. Q i (state_of s' i)) \<and> (\<forall>j. j \<notin> set is \<longrightarrow> state_of s' j = state_of s j)"
  using assms
proof (induction "is" arbitrary: s)
  case (Cons i "is")
  obtain s1 where s1: "f i s = (Inr (), s1)" "visits ct i s s1" "Q i (state_of s1 i)"
    using Cons(2) [of i s] Cons(3-) by auto
  then have h: "healthy ct s1" "same_rest s s1" by (simp_all add: visits_def)
  have st: "\<forall>j \<in> set is. state_of s1 j = st j" using s1(2) Cons(3,6) by (auto simp: visits_def)
  obtain s2 where s2: "promise_all (map f is) s1 = (Inr (), s2)" "healthy ct s2" "same_rest s1 s2"
    "\<forall>i \<in> set is. Q i (state_of s2 i)" "\<forall>j. j \<notin> set is \<longrightarrow> state_of s2 j = state_of s1 j"
    using Cons(1) [of s1] Cons(2) h(1) st same_rest_trans [OF Cons(5) h(2)] Cons(6) by auto
  have "promise_all (map f (i # is)) s = (Inr (), s2)" using s1(1) s2(1) by simp
  moreover have "same_rest s s2" using h(2) s2(3) by (rule same_rest_trans)
  moreover have "Q j (state_of s2 j)" if "j \<in> set (i # is)" for j
    using that s1(3) s2(4,5) Cons(6) by auto
  moreover have "state_of s2 j = state_of s j" if "j \<notin> set (i # is)" for j
    using that s2(5) s1(2) by (auto simp: visits_def)
  ultimately show ?case using s2(2) by blast
qed simp

subsection \<open>Deleting keys\<close>

lemma healthy_delete_visits:
  assumes "healthy ct s" "i < length (sk_layers s)" "ct_key ct k"
  shows "\<exists>s'. recover_layer cf i opn (call_layer i (\<lambda>api t. la_delete api t k)) s = (Inr (), s') \<and> visits ct i s s' \<and>
    deleted ct (sk_now s) [k] (state_of s i) (state_of s' i)"
proof -
  obtain l where l: "call_layer i (\<lambda>api t. la_delete api t k) s = (Inr (), put_state i l s)" "ct_ok ct l"
    "deleted ct (sk_now s) [k] (state_of s i) l"
    using healthy_delete [OF assms] by blast
  then show ?thesis
    using visits_put [OF assms(1,2) l(2)] assms(2)
    by (intro exI [of _ "put_state i l s"]) (simp add: state_of_put recover_layer_def catching_def)
qed

lemma visits_trans: "visits ct i a b \<Longrightarrow> visits ct i b c \<Longrightarrow> visits ct i a c"
  by (auto simp: visits_def intro: same_rest_trans)

lemma visits_length: "visits ct i s s' \<Longrightarrow> length (sk_layers s') = length (sk_layers s)"
  by (simp add: visits_def same_rest_length)

lemma deleted_trans: "deleted ct now [k] a b \<Longrightarrow> deleted ct now ks b c \<Longrightarrow> deleted ct now (k # ks) a c"
  by (simp add: deleted_def)

lemma delete_each_visits:
  assumes "healthy ct s" "i < length (sk_layers s)" "\<forall>k \<in> set keys. ct_key ct k"
  shows "\<exists>s'. promise_all (map (\<lambda>key. recover_layer cf i opn (call_layer i (\<lambda>api t. la_delete api t key))) keys) s = (Inr (), s') \<and>
    visits ct i s s' \<and> deleted ct (sk_now s) keys (state_of s i) (state_of s' i)"
  using assms
proof (induction keys arbitrary: s)
  case Nil
  then show ?case by (simp add: visits_def deleted_def)
next
  case (Cons k keys)
  obtain s1 where s1: "recover_layer cf i opn (call_layer i (\<lambda>api t. la_delete api t k)) s = (Inr (), s1)" "visits ct i s s1"
    "deleted ct (sk_now s) [k] (state_of s i) (state_of s1 i)"
    using healthy_delete_visits [OF Cons(2,3), of k cf opn] Cons(4) by auto
  have h: "healthy ct s1" "i < length (sk_layers s1)" "sk_now s1 = sk_now s"
    using s1(2) visits_length [OF s1(2)] Cons(3) by (simp_all add: visits_def same_rest_def)
  obtain s2 where s2: "promise_all (map (\<lambda>key. recover_layer cf i opn (call_layer i (\<lambda>api t. la_delete api t key))) keys) s1 = (Inr (), s2)"
    "visits ct i s1 s2" "deleted ct (sk_now s) keys (state_of s1 i) (state_of s2 i)"
    using Cons(1) [OF h(1,2)] Cons(4) h(3) by auto
  show ?case using s1 s2 visits_trans [OF s1(2) s2(2)] deleted_trans [OF s1(3) s2(3)] by (intro exI [of _ s2]) simp
qed

lemma delete_from_layer_visits:
  assumes "healthy ct s" "i < length (sk_layers s)" "\<forall>k \<in> set keys. ct_key ct k"
  shows "\<exists>s'. delete_from_layer cf keys i s = (Inr (), s') \<and> visits ct i s s' \<and> deleted ct (sk_now s) keys (state_of s i) (state_of s' i)"
proof (cases "la_deleteMany (ly_api (the_layer i s))")
  case None
  then show ?thesis
    using delete_each_visits [OF assms, of cf "''delete''"] by (simp add: delete_from_layer_def healthy_skip [OF assms(1)])
next
  case (Some dm)
  obtain l where l: "dm (sk_now s) keys (state_of s i) = (Inr (), l)" "ct_ok ct l" "deleted ct (sk_now s) keys (state_of s i) l"
    using cache_layer.deleteMany [OF conjunct1 [OF healthy_layer [OF assms(1,2)]] conjunct2 [OF healthy_layer [OF assms(1,2)]] assms(3) Some] by blast
  have "call_layer i (\<lambda>api t. dm t keys) s = (Inr (), put_state i l s)" using l(1) by (simp add: call_layer_put)
  then have "delete_from_layer cf keys i s = (Inr (), put_state i l s)"
    using Some by (simp add: delete_from_layer_def healthy_skip [OF assms(1)] recover_ok)
  then show ?thesis
    using visits_put [OF assms(1,2) l(2)] l(3) assms(2) by (intro exI [of _ "put_state i l s"]) (simp add: state_of_put)
qed

lemma deleteKeysFromLayers_some:
  assumes "healthy ct s" "\<forall>k \<in> set keys. ct_key ct k" "distinct is" "set is \<subseteq> {..<length (sk_layers s)}"
  shows "\<exists>s'. deleteKeysFromLayers cf is keys s = (Inr (), s') \<and> healthy ct s' \<and> same_rest s s' \<and>
    (\<forall>i \<in> set is. deleted ct (sk_now s) keys (state_of s i) (state_of s' i)) \<and> (\<forall>j. j \<notin> set is \<longrightarrow> state_of s' j = state_of s j)"
  unfolding deleteKeysFromLayers_def
proof (rule promise_all_visits [where Q = "\<lambda>i l. deleted ct (sk_now s) keys (state_of s i) l" and st = "state_of s" and ?s0.0 = s])
  fix i and u :: "'a stack"
  assume "i \<in> set is" "healthy ct u" "same_rest s u" "state_of u i = state_of s i"
  then show "\<exists>s'. delete_from_layer cf keys i u = (Inr (), s') \<and> visits ct i u s' \<and> deleted ct (sk_now s) keys (state_of s i) (state_of s' i)"
    using delete_from_layer_visits [of ct u i keys cf] assms(2,4) same_rest_length [of s u] by (auto simp: same_rest_def)
qed (use assms in auto)

lemma deleteKeysFromLayers_healthy:
  assumes "healthy ct s" "\<forall>k \<in> set keys. ct_key ct k"
  shows "\<exists>s'. deleteKeysFromLayers cf (all_layers s) keys s = (Inr (), s') \<and> healthy ct s' \<and> same_rest s s' \<and>
    (\<forall>i < length (sk_layers s). deleted ct (sk_now s) keys (state_of s i) (state_of s' i))"
proof -
  have "distinct (all_layers s)" "set (all_layers s) = {..<length (sk_layers s)}" by (auto simp: all_layers_def)
  then show ?thesis using deleteKeysFromLayers_some [OF assms, of "all_layers s" cf] by auto
qed

lemma forget_keys_fields:
  "sk_layers (fold forget_key keys s) = sk_layers s" "sk_degradedUntil (fold forget_key keys s) = sk_degradedUntil s"
  "sk_maint (fold forget_key keys s) = sk_maint s" "sk_tags (fold forget_key keys s) = fold removeKey keys (sk_tags s)"
  by (induction keys arbitrary: s) (simp_all add: forget_key_def)

lemma deleteKeys_healthy:
  assumes "healthy ct s" "keys \<noteq> []" "\<forall>k \<in> set keys. ct_key ct k"
  shows "\<exists>s'. deleteKeys cf keys s = (Inr (), s') \<and> healthy ct s' \<and>
    sk_maint s' = bumpKeyEpochs keys (sk_maint s) \<and> sk_tags s' = fold removeKey keys (sk_tags s) \<and>
    length (sk_layers s') = length (sk_layers s) \<and>
    (\<forall>i < length (sk_layers s). deleted ct (sk_now s) keys (state_of s i) (state_of s' i))"
proof -
  let ?s1 = "s\<lparr>sk_maint := bumpKeyEpochs keys (sk_maint s)\<rparr>"
  have h: "healthy ct ?s1" using assms(1) by simp
  obtain s2 where s2: "deleteKeysFromLayers cf (all_layers ?s1) keys ?s1 = (Inr (), s2)" "healthy ct s2" "same_rest ?s1 s2"
    "\<forall>i < length (sk_layers ?s1). deleted ct (sk_now ?s1) keys (state_of ?s1 i) (state_of s2 i)"
    using deleteKeysFromLayers_healthy [OF h assms(3), of cf] by blast
  let ?s' = "emit (EvDelete keys) (count_metric MInvalidations 1 (count_metric MDeletes (int (length keys)) (fold forget_key keys s2)))"
  have "deleteKeys cf keys s = (Inr (), ?s')"
    using assms(2) s2(1) by (simp add: deleteKeys_def Let_def andthen_def)
  moreover have "healthy ct ?s'" using healthy_cong [OF s2(2)] by (simp add: forget_keys_fields)
  moreover have "state_of ?s' i = state_of s2 i" for i by (simp add: state_of_def forget_keys_fields)
  ultimately show ?thesis
    using s2(3,4) same_rest_length [OF s2(3)] by (auto simp: forget_keys_fields same_rest_def)
qed

lemma removeKey_gone: "known (removeKey a ix) = known ix - {a}" "tagsForKey k (removeKey a ix) = (if a = k then [] else tagsForKey k ix)"
  by (simp add: removeKey_as_maps known_frame known_removeKnownKey)
    (simp add: removeKey_as_maps tagsForKey_def held_def jsmap_simps)

lemma removed_keys_stay_gone:
  "k \<notin> known ix \<Longrightarrow> tagsForKey k ix = [] \<Longrightarrow> k \<notin> known (fold removeKey keys ix) \<and> tagsForKey k (fold removeKey keys ix) = []"
  by (induction keys arbitrary: ix) (simp_all add: removeKey_gone)

lemma removed_keys_gone: "k \<in> set keys \<Longrightarrow> k \<notin> known (fold removeKey keys ix) \<and> tagsForKey k (fold removeKey keys ix) = []"
proof (induction keys arbitrary: ix)
  case (Cons a keys)
  show ?case
  proof (cases "a = k")
    case True
    then show ?thesis using removed_keys_stay_gone [of k "removeKey a ix" keys] by (simp add: removeKey_gone)
  qed (use Cons in simp)
qed simp

end
