(* ===== verification/StackConfig.thy ===== *)
theory StackConfig
  imports HealthyStack
begin

text \<open>
  Configuration and construction of a stack (\<open>src/src/CacheStack.ts\<close>): the options, their validation,
  the configuration the operations read, and the state the constructor builds. The tag index is the
  default in-memory one; of the injected single-flight coordinator only its presence is recorded.
  A generation is an integer.
\<close>

subsection \<open>Options\<close>

record stack_options =
  so_stampedePrevention :: "bool option"
  so_stampedeMaxInFlight :: "nat option"
  so_stampedeEntryTimeoutMs :: "real option"
  so_generation :: "int option"
  so_generationCleanup :: "generation_cleanup option"
  so_broadcastL1Invalidation :: "bool option"
  so_publishSetInvalidation :: "bool option"
  so_negativeCaching :: "bool option"
  so_cacheNullValues :: "bool option"
  so_negativeTtl :: "layer_ms option"
  so_staleWhileRevalidate :: "layer_ms option"
  so_staleIfError :: "layer_ms option"
  so_ttlJitter :: "layer_ms option"
  so_refreshAhead :: "layer_ms option"
  so_adaptiveTtl :: "adaptive_ttl option"
  so_circuitBreaker :: "circuit_breaker_options option"
  so_gracefulDegradation :: "degradation option"
  so_bestEffort :: bool                   \<comment> \<open>\<open>writePolicy === 'best-effort'\<close>\<close>
  so_writeBehindStrategy :: bool          \<comment> \<open>\<open>writeStrategy === 'write-behind'\<close>\<close>
  so_writeBehind :: "write_behind_options option"
  so_writeCoordination :: "write_coordination_options option"
  so_fetcherRateLimit :: "rate_limit_options option"
  so_backgroundRefreshTimeoutMs :: "jsnum option"
  so_singleFlightCoordinator :: bool
  so_singleFlightLeaseMs :: "jsnum option"
  so_singleFlightTimeoutMs :: "jsnum option"
  so_singleFlightPollMs :: "jsnum option"
  so_singleFlightRenewIntervalMs :: "jsnum option"
  so_snapshotMaxBytes :: "match_limit option"
  so_snapshotMaxEntries :: "match_limit option"
  so_invalidationMaxKeys :: "match_limit option"
  so_maxProfileEntries :: "nat option"

definition no_options :: stack_options where
  \<comment> \<open>\<open>options = {}\<close>\<close>
  "no_options = \<lparr>so_stampedePrevention = None, so_stampedeMaxInFlight = None, so_stampedeEntryTimeoutMs = None,
     so_generation = None, so_generationCleanup = None, so_broadcastL1Invalidation = None, so_publishSetInvalidation = None,
     so_negativeCaching = None, so_cacheNullValues = None, so_negativeTtl = None, so_staleWhileRevalidate = None,
     so_staleIfError = None, so_ttlJitter = None, so_refreshAhead = None, so_adaptiveTtl = None, so_circuitBreaker = None,
     so_gracefulDegradation = None, so_bestEffort = False, so_writeBehindStrategy = False, so_writeBehind = None,
     so_writeCoordination = None, so_fetcherRateLimit = None, so_backgroundRefreshTimeoutMs = None,
     so_singleFlightCoordinator = False, so_singleFlightLeaseMs = None, so_singleFlightTimeoutMs = None,
     so_singleFlightPollMs = None, so_singleFlightRenewIntervalMs = None, so_snapshotMaxBytes = None,
     so_snapshotMaxEntries = None, so_invalidationMaxKeys = None, so_maxProfileEntries = None\<rparr>"

subsection \<open>Validation\<close>

definition validate_limit :: "string \<Rightarrow> match_limit option \<Rightarrow> unit result" where
  \<comment> \<open>\<open>if (value !== false) validatePositiveNumber(name, value)\<close>\<close>
  "validate_limit name value =
    (case value of
       None \<Rightarrow> validatePositiveNumber name None
     | Some NoLimit \<Rightarrow> Inr ()
     | Some (Limit n) \<Rightarrow> validatePositiveNumber name (nat_num (Some n)))"

definition validate_cleanup :: "generation_cleanup option \<Rightarrow> unit result" where
  "validate_cleanup cleanup =
    (case cleanup of
       Some (GcOptions batchSize maxMatches) \<Rightarrow>
         bind_result (validatePositiveNumber ''generationCleanup.batchSize'' (nat_num batchSize)) (\<lambda>_.
           validate_limit ''generationCleanup.maxMatches'' maxMatches)
     | _ \<Rightarrow> Inr ())"

definition coordination_of :: "write_coordination_options option \<Rightarrow> write_coordination_options" where
  "coordination_of c = nullish c \<lparr>wc_maxPendingWrites = None, wc_maxActiveKeys = None, wc_maxPendingWritesPerKey = None\<rparr>"

fun validate_all :: "unit result list \<Rightarrow> unit result" where
  \<comment> \<open>statements that may throw, one after the other\<close>
  "validate_all [] = Inr ()"
| "validate_all (c # cs) = bind_result c (\<lambda>_. validate_all cs)"

definition validateConfiguration :: "stack_options \<Rightarrow> unit result" where
  "validateConfiguration opts = validate_all [
     (if so_broadcastL1Invalidation opts \<noteq> None \<and> so_publishSetInvalidation opts \<noteq> None \<and>
         so_broadcastL1Invalidation opts \<noteq> so_publishSetInvalidation opts
      then Inl (OtherError ''broadcastL1Invalidation and publishSetInvalidation cannot conflict.'') else Inr ()),
     (if so_stampedePrevention opts = Some False \<and> so_singleFlightCoordinator opts
      then Inl (OtherError ''singleFlightCoordinator requires stampedePrevention to remain enabled.'') else Inr ()),
     validateLayerNumberOption ''negativeTtl'' (so_negativeTtl opts),
     validateLayerNumberOption ''staleWhileRevalidate'' (so_staleWhileRevalidate opts),
     validateLayerNumberOption ''staleIfError'' (so_staleIfError opts),
     validateLayerNumberOption ''ttlJitter'' (so_ttlJitter opts),
     validateLayerNumberOption ''refreshAhead'' (so_refreshAhead opts),
     validatePositiveNumber ''singleFlightLeaseMs'' (so_singleFlightLeaseMs opts),
     validatePositiveNumber ''singleFlightTimeoutMs'' (so_singleFlightTimeoutMs opts),
     validatePositiveNumber ''singleFlightPollMs'' (so_singleFlightPollMs opts),
     validatePositiveNumber ''singleFlightRenewIntervalMs'' (so_singleFlightRenewIntervalMs opts),
     validatePositiveNumber ''backgroundRefreshTimeoutMs'' (so_backgroundRefreshTimeoutMs opts),
     validate_limit ''snapshotMaxBytes'' (so_snapshotMaxBytes opts),
     validate_limit ''snapshotMaxEntries'' (so_snapshotMaxEntries opts),
     validate_limit ''invalidationMaxKeys'' (so_invalidationMaxKeys opts),
     validateRateLimitOptions ''fetcherRateLimit'' (so_fetcherRateLimit opts),
     validateAdaptiveTtlOptions (so_adaptiveTtl opts),
     validateCircuitBreakerOptions (so_circuitBreaker opts),
     validate_cleanup (so_generationCleanup opts),
     validatePositiveNumber ''writeCoordination.maxPendingWrites'' (nat_num (wc_maxPendingWrites (coordination_of (so_writeCoordination opts)))),
     validatePositiveNumber ''writeCoordination.maxActiveKeys'' (nat_num (wc_maxActiveKeys (coordination_of (so_writeCoordination opts)))),
     validatePositiveNumber ''writeCoordination.maxPendingWritesPerKey''
       (nat_num (wc_maxPendingWritesPerKey (coordination_of (so_writeCoordination opts)))),
     (case so_generation opts of None \<Rightarrow> Inr () | Some g \<Rightarrow> validateNonNegativeNumber ''generation'' (Fin (of_int g)))]"

subsection \<open>Construction\<close>

definition DEFAULT_MAX_PROFILE_ENTRIES :: nat where
  "DEFAULT_MAX_PROFILE_ENTRIES = 100000"

definition default_limit :: "match_limit option \<Rightarrow> nat \<Rightarrow> match_limit" where
  \<comment> \<open>\<open>value === false ? false : (value ?? fallback)\<close>\<close>
  "default_limit value fallback = (case value of None \<Rightarrow> Limit fallback | Some l \<Rightarrow> l)"

definition invalidationMaxKeys :: "stack_options \<Rightarrow> match_limit" where
  "invalidationMaxKeys opts = default_limit (so_invalidationMaxKeys opts) 10000"

definition snapshotMaxEntries :: "stack_options \<Rightarrow> match_limit" where
  "snapshotMaxEntries opts = default_limit (so_snapshotMaxEntries opts) 10000"

definition snapshotMaxBytes :: "stack_options \<Rightarrow> match_limit" where
  "snapshotMaxBytes opts = default_limit (so_snapshotMaxBytes opts) 16777216"

definition shouldBroadcastL1Invalidation :: "stack_options \<Rightarrow> bool" where
  "shouldBroadcastL1Invalidation opts =
    nullish (nullish_opt (so_broadcastL1Invalidation opts) (so_publishSetInvalidation opts)) False"

definition configure :: "stack_options \<Rightarrow> 'l stack_config \<Rightarrow> 'l stack_config" where
  \<comment> \<open>the options the operations read; the environment (bus, fetchers, awaited steps, clock offset) stays\<close>
  "configure opts env = env\<lparr>
     cf_gracefulDegradation := so_gracefulDegradation opts,
     cf_negativeTtl := so_negativeTtl opts,
     cf_staleWhileRevalidate := so_staleWhileRevalidate opts,
     cf_staleIfError := so_staleIfError opts,
     cf_refreshAhead := so_refreshAhead opts,
     cf_negativeCaching := so_negativeCaching opts,
     cf_cacheNullValues := so_cacheNullValues opts,
     cf_stampedePrevention := so_stampedePrevention opts,
     cf_bestEffort := so_bestEffort opts,
     cf_writeBehind := so_writeBehindStrategy opts,
     cf_writeBehindOptions := so_writeBehind opts,
     cf_circuitBreaker := so_circuitBreaker opts,
     cf_fetcherRateLimit := so_fetcherRateLimit opts,
     cf_broadcastL1 := shouldBroadcastL1Invalidation opts,
     cf_invalidationMaxKeys := invalidationMaxKeys opts,
     cf_snapshotMaxEntries := snapshotMaxEntries opts,
     cf_generationCleanup := so_generationCleanup opts\<rparr>"

definition initial_stack :: "stack_options \<Rightarrow> real \<Rightarrow> 'l layer list \<Rightarrow> 'l stack" where
  "initial_stack opts now layers =
    (let maxProfileEntries = nullish (so_maxProfileEntries opts) DEFAULT_MAX_PROFILE_ENTRIES in
     \<lparr>sk_now = now, sk_layers = layers, sk_degradedUntil = [],
      sk_maint = initializeWriteBehindTimer (so_writeBehindStrategy opts) (so_writeBehind opts)
        (new_maintenance (coordination_of (so_writeCoordination opts))),
      sk_tags = new_tag_index None None,
      sk_metrics = new_collector now,
      sk_breakers = \<lparr>breakers = [], br_maxEntries = maxProfileEntries\<rparr>,
      sk_ttl = \<lparr>accessProfiles = [], maxProfileEntries = maxProfileEntries\<rparr>,
      sk_guard = new_guard (so_stampedeMaxInFlight opts) (so_stampedeEntryTimeoutMs opts),
      sk_refreshes = [], sk_events = [], sk_disconnecting = False,
      sk_generation = map_option nat (so_generation opts), sk_cleanups = []\<rparr>)"

definition new_stack :: "stack_options \<Rightarrow> real \<Rightarrow> 'l layer list \<Rightarrow> 'l stack result" where
  "new_stack opts now layers =
    (if layers = [] then Inl (OtherError ''CacheStack requires at least one cache layer.'')
     else bind_result (validateConfiguration opts) (\<lambda>_. Inr (initial_stack opts now layers)))"

subsection \<open>A new stack satisfies the invariants\<close>

definition stack_ok :: "'l stack \<Rightarrow> bool" where
  "stack_ok s \<longleftrightarrow> epoch_ok (sk_maint s) \<and> tag_index_ok (sk_tags s)"

lemma new_maintenance_epoch_ok: "epoch_ok (initializeWriteBehindTimer b w (new_maintenance wc))"
  by (auto simp: initializeWriteBehindTimer_def disposeWriteBehindTimer_def new_maintenance_def epoch_ok_def Let_def)

lemma initial_stack_ok: "stack_ok (initial_stack opts now layers)"
  by (simp add: stack_ok_def initial_stack_def Let_def new_maintenance_epoch_ok tag_index_ok_new)

lemma initial_fields [simp]:
  "sk_now (initial_stack opts now layers) = now" "sk_layers (initial_stack opts now layers) = layers"
  "sk_degradedUntil (initial_stack opts now layers) = []" "sk_disconnecting (initial_stack opts now layers) = False"
  "sk_generation (initial_stack opts now layers) = map_option nat (so_generation opts)"
  "sk_tags (initial_stack opts now layers) = new_tag_index None None"
  by (simp_all add: initial_stack_def Let_def)

lemma initial_stack_healthy:
  assumes "\<And>ly. ly \<in> set layers \<Longrightarrow> cache_layer (ly_api ly) ct \<and> ct_ok ct (ly_state ly)"
  shows "healthy ct (initial_stack opts now layers)"
  using assms by (simp add: healthy_def state_of_def)

lemma validate_all_iff: "validate_all cs = Inr () \<longleftrightarrow> (\<forall>c \<in> set cs. c = Inr ())"
  by (induction cs) (auto simp: bind_result_Inr)

subsection \<open>A concrete stack\<close>

text \<open>Two memory layers and an environment without a bus: the setting of the examples.\<close>

definition demo_config :: "'l stack_config" where
  "demo_config = configure no_options
     \<lparr>cf_gracefulDegradation = None, cf_negativeTtl = None, cf_staleWhileRevalidate = None, cf_staleIfError = None,
      cf_refreshAhead = None, cf_negativeCaching = None, cf_cacheNullValues = None, cf_stampedePrevention = None,
      cf_bestEffort = False, cf_writeBehind = False, cf_writeBehindOptions = None, cf_circuitBreaker = None,
      cf_fetcherRateLimit = None, cf_broadcastL1 = False, cf_invalidationMaxKeys = NoLimit,
      cf_snapshotMaxEntries = NoLimit, cf_generationCleanup = None, cf_instanceId = ''here'',
      cf_publish = None, cf_fetch = (\<lambda>_ _ s. (Inl (BackendError ''down''), s)), cf_await_slot = (\<lambda>_ _ _ s. (Inr (), s)),
      cf_await_task = (\<lambda>_ s. (Inl (BackendError ''down''), s)), cf_random = (\<lambda>_. 0), cf_read_duration = (\<lambda>_. 0), cf_local_time = fixed_offset 0\<rparr>"

definition demo_layers :: "memory_layer layer list" where
  "demo_layers = [memory_layer_of (new_memory_layer (Some ''l1'') (Some 1000) None None),
                  memory_layer_of (new_memory_layer (Some ''l2'') (Some 60000) None None)]"

definition demo_stack :: "memory_layer stack" where
  "demo_stack = initial_stack no_options 1000 demo_layers"

lemma demo_fields [simp]:
  "cf_publish demo_config = None" "cf_writeBehind demo_config = False" "cf_bestEffort demo_config = False"
  "cf_gracefulDegradation demo_config = None" "cf_broadcastL1 demo_config = False" "cf_instanceId demo_config = ''here''"
  "cf_invalidationMaxKeys demo_config = Limit 10000" "isl (fst (cf_fetch demo_config f ctx s))" "isl (fst (cf_await_task demo_config i s))"
  by (simp_all add: demo_config_def configure_def no_options_def shouldBroadcastL1Invalidation_def invalidationMaxKeys_def default_limit_def)

lemma demo_stack_fields [simp]:
  "sk_now demo_stack = 1000" "sk_layers demo_stack = demo_layers" "length demo_layers = 2" "sk_degradedUntil demo_stack = []"
  "sk_disconnecting demo_stack = False" "sk_generation demo_stack = None"
  by (simp_all add: demo_stack_def demo_layers_def no_options_def)

lemma new_memory_layer_keeps: "0 < nullish ms 1000 \<Longrightarrow> nullish p Lru \<noteq> Lfu \<Longrightarrow> keeps_new_keys (new_memory_layer n ttl ms p)"
  by (simp add: keeps_new_keys_def new_memory_layer_def ml_ok_def)

lemma demo_healthy: "healthy memory_contract demo_stack"
  unfolding demo_stack_def
  by (rule initial_stack_healthy) (auto simp: demo_layers_def memory_layer_of_def memory_layer_lawful new_memory_layer_keeps)

lemma demo_stack_ok: "stack_ok demo_stack"
  by (simp add: demo_stack_def initial_stack_ok)

end
