(* ===== verification/HealthyWrites.thy ===== *)
theory HealthyWrites
  imports StackConfig
begin

text \<open>
  Writing and reading entries of a stack of working layers: a write reaches every layer it is not
  deferred for, and a read is answered by the fastest layer that has the key.
\<close>

subsection \<open>Writing an entry\<close>

lemma current_not_outdated: "\<not> isWriteOutdated k (Some (clear_epoch s)) (Some (key_epoch k s)) (sk_maint s)"
  by (simp add: isWriteOutdated_def clear_epoch_def key_epoch_def currentClearEpoch_def)

lemma remaining_alive:
  assumes "envelope_ok now e" "freshUntil e \<noteq> None" "now \<le> t" "rsv_state (resolveStoredValue t (js_of_envelope e) t) \<noteq> Expired"
  shows "\<exists>x. remainingStoredTtlMs now (js_of_envelope e) now = Some x \<and> alive now (Some x) t"
proof -
  obtain m where m: "maxExpiry e = Some m" using maxExpiry_None [OF assms(1)] assms(2) by (cases "maxExpiry e") auto
  have "t < m"
    using maxExpiry_upper(2) [OF assms(1) m, of t] assms(2,4) envelope_ok_later [OF assms(1,3)]
    by (auto simp: resolve_js_of_envelope Let_def split: if_splits)
  then show ?thesis
    using assms(1,3) m math_ceil_ge [of "m - now"] by (auto simp: remainingStoredTtlMs_def Let_def alive_def max_def)
qed

lemma some_remaining:
  "envelope_ok now e \<Longrightarrow> freshUntil e \<noteq> None \<Longrightarrow> \<exists>r. remainingStoredTtlMs now (js_of_envelope e) now = Some r"
  using maxExpiry_None [of now e] by (cases "maxExpiry e") (auto simp: remainingStoredTtlMs_def Let_def)

lemma fresh_not_expired:
  "envelope_ok t e \<Longrightarrow> freshUntil e = Some d \<Longrightarrow> t < d \<Longrightarrow> rsv_state (resolveStoredValue t (js_of_envelope e) t) = Fresh"
  by (simp add: resolve_js_of_envelope Let_def)

definition written_entry :: "'l stack_config \<Rightarrow> nat \<Rightarrow> string \<Rightarrow> write_kind \<Rightarrow> js \<Rightarrow> write_options \<Rightarrow> 'l stack \<Rightarrow> stored_value_envelope" where
  \<comment> \<open>the envelope a write of now puts into layer \<open>i\<close>\<close>
  "written_entry cf i key kind value opts s =
    createStoredValueEnvelope (envelope_kind kind) value (fresh_ttl cf key i kind opts value s)
      (resolveLayerMs (ly_name (the_layer i s)) (o_staleWhileRevalidate opts) (cf_staleWhileRevalidate cf) None)
      (resolveLayerMs (ly_name (the_layer i s)) (o_staleIfError opts) (cf_staleIfError cf) None) (sk_now s)"

lemma entry_built:
  "sm_key (buildLayerSetEntry cf i key kind value opts (sk_now s) s) = key"
  "sm_value (buildLayerSetEntry cf i key kind value opts (sk_now s) s) = js_of_envelope (written_entry cf i key kind value opts s)"
  "sm_ttl (buildLayerSetEntry cf i key kind value opts (sk_now s) s) =
     nullish_opt (remainingStoredTtlMs (sk_now s) (js_of_envelope (written_entry cf i key kind value opts s)) (sk_now s))
       (fresh_ttl cf key i kind opts value s)"
  by (simp_all add: buildLayerSetEntry_def written_entry_def Let_def)

definition takes_entry :: "'l contract \<Rightarrow> real \<Rightarrow> set_many_entry \<Rightarrow> bool" where
  "takes_entry ct now e \<longleftrightarrow> ct_key ct (sm_key e) \<and> ct_value ct (sm_value e) \<and> ct_ttl ct now (sm_ttl e)"

definition takes_write :: "'l contract \<Rightarrow> 'l stack_config \<Rightarrow> string \<Rightarrow> write_kind \<Rightarrow> js \<Rightarrow> write_options \<Rightarrow> 'l stack \<Rightarrow> bool" where
  \<comment> \<open>every layer takes the entry that a write builds for it, whatever the random draws\<close>
  "takes_write ct cf key kind value opts s \<longleftrightarrow> (\<forall>u. same_rest s u \<longrightarrow>
     (\<forall>i < length (sk_layers s). takes_entry ct (sk_now s) (buildLayerSetEntry cf i key kind value opts (sk_now s) u)))"

lemma takes_write_here:
  "takes_write ct cf key kind value opts s \<Longrightarrow> same_rest s u \<Longrightarrow> i < length (sk_layers s) \<Longrightarrow>
   takes_entry ct (sk_now s) (buildLayerSetEntry cf i key kind value opts (sk_now s) u)"
  by (simp add: takes_write_def)

lemma takes_write_later: "takes_write ct cf key kind value opts s \<Longrightarrow> same_rest s u \<Longrightarrow> takes_write ct cf key kind value opts u"
  using same_rest_length [of s u] same_rest_trans [of s u]
  by (auto simp: takes_write_def same_rest_def [of s u])

lemma write_to_layer_visits:
  assumes "healthy ct s" "i < length (sk_layers s)" "\<not> isWriteOutdated key (Some c) (Some e) (sk_maint s)"
    and "takes_entry ct (sk_now s) (buildLayerSetEntry cf i key kind value opts (sk_now s) s)"
  shows "\<exists>s'. write_to_layer cf i key kind value opts (sk_now s) c e s = (Inr (), s') \<and> visits ct i s s' \<and>
    (\<forall>t. sk_now s \<le> t \<longrightarrow>
       alive (sk_now s) (nullish_opt (sm_ttl (buildLayerSetEntry cf i key kind value opts (sk_now s) s)) (ct_dflt ct (state_of s i))) t \<longrightarrow>
       ct_answer ct t (state_of s' i) key = js_of_envelope (written_entry cf i key kind value opts s))"
proof -
  let ?x = "buildLayerSetEntry cf i key kind value opts (sk_now s) s"
  obtain l where l: "call_layer i (\<lambda>api t. la_set api t (sm_key ?x) (sm_value ?x) (sm_ttl ?x)) s = (Inr (), put_state i l s)" "ct_ok ct l"
    "\<forall>t. sk_now s \<le> t \<longrightarrow> alive (sk_now s) (nullish_opt (sm_ttl ?x) (ct_dflt ct (state_of s i))) t \<longrightarrow> ct_answer ct t l (sm_key ?x) = sm_value ?x"
    using healthy_set [OF assms(1,2), of "sm_key ?x" "sm_value ?x" "sm_ttl ?x"] assms(4)
    by (auto simp: takes_entry_def)
  have "write_to_layer cf i key kind value opts (sk_now s) c e s = (Inr (), put_state i l s)"
    using assms(3) l(1) by (simp add: write_to_layer_def healthy_skip [OF assms(1)] Let_def recover_layer_def catching_def)
  then show ?thesis
    using visits_put [OF assms(1,2) l(2)] l(3) assms(2)
    by (intro exI [of _ "put_state i l s"]) (simp add: state_of_put entry_built)
qed

lemma all_settled_ok: "promise_all ps s = (Inr (), s') \<Longrightarrow> all_settled ps s = ([], s')"
  by (induction ps arbitrary: s) (auto split: prod.splits sum.splits)

lemma executeLayerOperations_ok: "promise_all ps s = (Inr (), s') \<Longrightarrow> executeLayerOperations cf ps act s = (Inr (), s')"
  by (simp add: executeLayerOperations_def all_settled_ok)

lemma active_layers_healthy: "healthy ct s \<Longrightarrow> snd (active_layers cf is s) = s"
  by (induction "is") (auto simp: healthy_skip split: prod.splits)

lemma shouldWriteBehind_off: "\<not> cf_writeBehind cf \<Longrightarrow> \<not> shouldWriteBehind cf i s"
  by (simp add: shouldWriteBehind_def)

text \<open>A write through every layer; what it leaves in the fastest one.\<close>

lemma write_rest_visits:
  assumes "healthy ct s" "\<not> isWriteOutdated key (Some c) (Some e) (sk_maint s)" "now = sk_now s"
    and "distinct is" "set is \<subseteq> {..<length (sk_layers s)}"
    and "takes_write ct cf key kind value opts s"
  shows "\<exists>s'. promise_all (map (\<lambda>i. write_to_layer cf i key kind value opts now c e) is) s = (Inr (), s') \<and>
    healthy ct s' \<and> same_rest s s' \<and> (\<forall>j. j \<notin> set is \<longrightarrow> state_of s' j = state_of s j)"
proof -
  have "\<exists>s'. promise_all (map (\<lambda>i. write_to_layer cf i key kind value opts now c e) is) s = (Inr (), s') \<and>
    healthy ct s' \<and> same_rest s s' \<and> (\<forall>i \<in> set is. True) \<and> (\<forall>j. j \<notin> set is \<longrightarrow> state_of s' j = state_of s j)"
  proof (rule promise_all_visits [where Q = "\<lambda>_ _. True" and st = "state_of s"])
    fix i and u :: "'a stack"
    assume "i \<in> set is" "healthy ct u" "same_rest s u"
    then show "\<exists>s'. write_to_layer cf i key kind value opts now c e u = (Inr (), s') \<and> visits ct i u s' \<and> True"
      using write_to_layer_visits [of ct u i key c e cf kind "value" opts] takes_write_here [OF assms(6), of u i] assms(2,3,5)
        same_rest_length [of s u] by (auto simp: same_rest_def)
  qed (use assms in auto)
  then show ?thesis by auto
qed

lemma upt_first: "0 < n \<Longrightarrow> [0..<n] = 0 # [1..<n]"
  by (simp add: upt_conv_Cons)

lemma writeAcrossLayers_healthy:
  assumes "healthy ct s" "0 < length (sk_layers s)" "\<not> cf_writeBehind cf"
    and "fresh_ttl cf key 0 kind opts value s = Some f" "0 < f" "0 \<le> sk_now s"
    and "f + window (resolveLayerMs (ly_name (the_layer 0 s)) (o_staleWhileRevalidate opts) (cf_staleWhileRevalidate cf) None) \<le> ten_years_ms"
    and "f + window (resolveLayerMs (ly_name (the_layer 0 s)) (o_staleIfError opts) (cf_staleIfError cf) None) \<le> ten_years_ms"
    and "takes_write ct cf key kind value opts s"
  shows "\<exists>s'. writeAcrossLayers cf key kind value opts None s = (Inr True, s') \<and> healthy ct s' \<and> same_rest s s' \<and>
    (\<forall>t. sk_now s \<le> t \<longrightarrow> t < sk_now s + f \<longrightarrow> ct_answer ct t (state_of s' 0) key = js_of_envelope (written_entry cf 0 key kind value opts s))"
proof -
  let ?c = "clear_epoch s" and ?e = "key_epoch key s" and ?n = "length (sk_layers s)"
  let ?op = "\<lambda>i. write_to_layer cf i key kind value opts (sk_now s) ?c ?e"
  let ?w = "written_entry cf 0 key kind value opts s"
  note out = current_not_outdated [of key s]
  have ok: "envelope_ok (sk_now s) ?w" "freshUntil ?w = Some (sk_now s + f)"
    using assms(4-8) by (simp_all add: written_entry_def create_ok create_deadlines)
  obtain s1 where s1: "?op 0 s = (Inr (), s1)" "visits ct 0 s s1"
    "\<forall>t. sk_now s \<le> t \<longrightarrow> alive (sk_now s) (nullish_opt (sm_ttl (buildLayerSetEntry cf 0 key kind value opts (sk_now s) s)) (ct_dflt ct (state_of s 0))) t \<longrightarrow>
       ct_answer ct t (state_of s1 0) key = js_of_envelope ?w"
    using write_to_layer_visits [OF assms(1,2) out takes_write_here [OF assms(9) same_rest_refl assms(2)]] by blast
  have h1: "healthy ct s1" "same_rest s s1" "sk_now s1 = sk_now s" "sk_maint s1 = sk_maint s"
    "length (sk_layers s1) = ?n" using s1(2) by (auto simp: visits_def same_rest_def dest: map_eq_imp_length_eq)
  obtain s2 where s2: "promise_all (map ?op [1..<?n]) s1 = (Inr (), s2)" "healthy ct s2" "same_rest s1 s2"
    "\<forall>j. j \<notin> set [1..<?n] \<longrightarrow> state_of s2 j = state_of s1 j"
    using write_rest_visits [OF h1(1), of key ?c ?e "sk_now s" "[1..<?n]" cf kind "value" opts] h1 out takes_write_later [OF assms(9) h1(2)] by fastforce
  have all: "promise_all (map ?op [0..<?n]) s = (Inr (), s2)"
    using s1(1) s2(1) assms(2) by (simp add: upt_first)
  have "sk_maint s2 = sk_maint s" using h1(4) s2(3) by (simp add: same_rest_def)
  then have "runFencedWrite sk_maint key ?c ?e (executeLayerOperations cf (map ?op [0..<?n]) act)
      (deleteFromLayers cf key ls) s = (Inr True, s2)" for act ls
    using executeLayerOperations_ok [OF all] out by (simp add: runFencedWrite_def)
  moreover obtain ls where "active_layers cf [0..<?n] s = (ls, s)"
    using active_layers_healthy [OF assms(1), of cf "[0..<?n]"] by (cases "active_layers cf [0..<?n] s") simp
  ultimately have "writeAcrossLayers cf key kind value opts None s = (Inr True, s2)"
    by (simp add: writeAcrossLayers_def Let_def shouldWriteBehind_off [OF assms(3)] andthen_def ret_def)
  moreover have "ct_answer ct t (state_of s2 0) key = js_of_envelope ?w" if "sk_now s \<le> t" "t < sk_now s + f" for t
    using s1(3) s2(4) that ok(2) fresh_not_expired [OF envelope_ok_later [OF ok(1) that(1)] ok(2) that(2)]
      remaining_alive [OF ok(1) _ that(1)] by (auto simp: entry_built)
  ultimately show ?thesis using s2(2) same_rest_trans [OF h1(2) s2(3)] by blast
qed

end
