(* ===== verification/HealthyReads.thy ===== *)
theory HealthyReads
  imports HealthyWrites
begin

text \<open>
  Reading a stack of working layers: the fastest layer that has the key answers, and the faster layers
  are filled from it.
\<close>

subsection \<open>One layer\<close>

lemma readLayerEntry_visits:
  assumes "healthy ct s" "i < length (sk_layers s)" "ct_key ct key"
  shows "\<exists>s'. readLayerEntry cf i key s = (Inr (ct_answer ct (sk_now s) (state_of s i) key), s') \<and> visits ct i s s' \<and>
    (\<forall>t k'. sk_now s \<le> t \<longrightarrow> ct_answer ct t (state_of s' i) k' = ct_answer ct t (state_of s i) k')"
proof -
  obtain l where l: "call_layer i (\<lambda>api t. read_api api t key) s = (Inr (ct_answer ct (sk_now s) (state_of s i) key), put_state i l s)" "ct_ok ct l"
    "\<forall>t k'. sk_now s \<le> t \<longrightarrow> ct_answer ct t l k' = ct_answer ct t (state_of s i) k'"
    using healthy_read [OF assms] by blast
  have "readLayerEntry cf i key s = (Inr (ct_answer ct (sk_now s) (state_of s i) key), put_state i l s)"
    using l(1) by (simp add: readLayerEntry_def healthy_skip [OF assms(1)] catching_def read_api_def)
  then show ?thesis using visits_put [OF assms(1,2) l(2)] l(3) assms(2) by (intro exI [of _ "put_state i l s"]) (simp add: state_of_put)
qed

lemma visits_metrics [simp]:
  "visits ct i s (s'\<lparr>sk_metrics := m\<rparr>) = visits ct i s s'"
  "visits ct i s (count_metric f n s') = visits ct i s s'"
  "visits ct i s (emit e s') = visits ct i s s'"
  by (simp_all add: visits_def)

subsection \<open>Filling the faster layers\<close>

definition backfill_ttl :: "js \<Rightarrow> layer_ms option \<Rightarrow> 'l stack \<Rightarrow> nat \<Rightarrow> real option" where
  "backfill_ttl stored ttlOption s i = nullish_opt (remainingStoredTtlMs (sk_now s) stored (sk_now s))
     (resolveLayerMs (ly_name (the_layer i s)) ttlOption None (ly_defaultTtl (the_layer i s)))"

lemma backfill_targets_healthy:
  "healthy ct s \<Longrightarrow> backfill_targets cf stored ttlOption is s = (map (\<lambda>i. (i, backfill_ttl stored ttlOption s i)) is, s)"
  by (induction "is") (simp_all add: healthy_skip backfill_ttl_def)

lemma backfill_layer_visits:
  assumes "healthy ct s" "i < length (sk_layers s)" "ct_key ct key" "ct_value ct stored" "ct_ttl ct (sk_now s) ttl"
  shows "\<exists>s'. backfill_layer cf key stored (i, ttl) s = (Inr (), s') \<and> visits ct i s s' \<and>
    (\<forall>t. sk_now s \<le> t \<longrightarrow> alive (sk_now s) (nullish_opt ttl (ct_dflt ct (state_of s i))) t \<longrightarrow> ct_answer ct t (state_of s' i) key = stored)"
proof -
  obtain l where l: "call_layer i (\<lambda>api t. la_set api t key stored ttl) s = (Inr (), put_state i l s)" "ct_ok ct l"
    "\<forall>t. sk_now s \<le> t \<longrightarrow> alive (sk_now s) (nullish_opt ttl (ct_dflt ct (state_of s i))) t \<longrightarrow> ct_answer ct t l key = stored"
    using healthy_set [OF assms] by blast
  then show ?thesis
    using visits_put [OF assms(1,2) l(2)] assms(2) by (auto simp: backfill_layer_def state_of_put)
qed

definition takes_copy :: "'l contract \<Rightarrow> string \<Rightarrow> stored_value_envelope \<Rightarrow> real \<Rightarrow> bool" where
  \<comment> \<open>the layers take an envelope read from another one, with the TTL that remains\<close>
  "takes_copy ct key e now \<longleftrightarrow> ct_key ct key \<and> ct_value ct (js_of_envelope e) \<and>
     ct_ttl ct now (remainingStoredTtlMs now (js_of_envelope e) now)"

lemma backfill_healthy:
  assumes "healthy ct s" "n \<le> length (sk_layers s)"
    and "\<not> isWriteOutdated key (Some (fst fence)) (Some (snd fence)) (sk_maint s)"
    and "envelope_ok (sk_now s) e" "freshUntil e \<noteq> None" "n \<noteq> 0 \<Longrightarrow> takes_copy ct key e (sk_now s)"
  shows "\<exists>s'. backfill cf key (js_of_envelope e) n opts fence s = (Inr (), s') \<and> healthy ct s' \<and> same_rest s s' \<and>
    (\<forall>j. n \<le> j \<longrightarrow> state_of s' j = state_of s j) \<and>
    (\<forall>j < n. \<forall>t. sk_now s \<le> t \<longrightarrow> rsv_state (resolveStoredValue t (js_of_envelope e) t) \<noteq> Expired \<longrightarrow>
       ct_answer ct t (state_of s' j) key = js_of_envelope e)"
proof (cases "n = 0")
  case True
  then show ?thesis using assms(1) by (auto simp: backfill_def)
next
  case False
  let ?v = "js_of_envelope e"
  let ?f = "\<lambda>i. backfill_layer cf key ?v (i, backfill_ttl ?v (o_ttl opts) s i)"
  have "\<exists>s'. promise_all (map ?f [0..<n]) s = (Inr (), s') \<and> healthy ct s' \<and> same_rest s s' \<and>
      (\<forall>i \<in> set [0..<n]. \<forall>t. sk_now s \<le> t \<longrightarrow> rsv_state (resolveStoredValue t ?v t) \<noteq> Expired \<longrightarrow> ct_answer ct t (state_of s' i) key = ?v) \<and>
      (\<forall>j. j \<notin> set [0..<n] \<longrightarrow> state_of s' j = state_of s j)"
  proof (rule promise_all_visits [where Q = "\<lambda>i l. \<forall>t. sk_now s \<le> t \<longrightarrow>
        rsv_state (resolveStoredValue t ?v t) \<noteq> Expired \<longrightarrow> ct_answer ct t l key = ?v" and st = "state_of s"])
    fix i and u :: "'a stack"
    assume u0: "i \<in> set [0..<n]" "healthy ct u" "same_rest s u"
    then have u: "i \<in> set [0..<n]" "healthy ct u" "sk_now u = sk_now s" "length (sk_layers u) = length (sk_layers s)"
      using same_rest_length [of s u] by (simp_all add: same_rest_def)
    obtain r where rem: "remainingStoredTtlMs (sk_now s) ?v (sk_now s) = Some r" using some_remaining [OF assms(4,5)] by blast
    then have "ct_ttl ct (sk_now s) (backfill_ttl ?v (o_ttl opts) s i)" using assms(6) False by (simp add: backfill_ttl_def takes_copy_def)
    with u obtain u' where u': "?f i u = (Inr (), u')" "visits ct i u u'"
      "\<forall>t. sk_now u \<le> t \<longrightarrow> alive (sk_now u) (nullish_opt (backfill_ttl ?v (o_ttl opts) s i) (ct_dflt ct (state_of u i))) t \<longrightarrow>
         ct_answer ct t (state_of u' i) key = ?v"
      using backfill_layer_visits [of ct u i key ?v "backfill_ttl ?v (o_ttl opts) s i" cf] assms(2,6) False u(3) by (auto simp: takes_copy_def)
    have "ct_answer ct t (state_of u' i) key = ?v" if "sk_now s \<le> t" "rsv_state (resolveStoredValue t ?v t) \<noteq> Expired" for t
      using u'(3) u(3) remaining_alive [OF assms(4,5) that] that(1) by (auto simp: backfill_ttl_def)
    then show "\<exists>s'. ?f i u = (Inr (), s') \<and> visits ct i u s' \<and> (\<forall>t. sk_now s \<le> t \<longrightarrow>
        rsv_state (resolveStoredValue t ?v t) \<noteq> Expired \<longrightarrow> ct_answer ct t (state_of s' i) key = ?v)"
      using u'(1,2) by blast
  qed (use assms(1) in auto)
  then obtain s' where s': "promise_all (map ?f [0..<n]) s = (Inr (), s')" "healthy ct s'" "same_rest s s'"
      "\<forall>i < n. \<forall>t. sk_now s \<le> t \<longrightarrow> rsv_state (resolveStoredValue t ?v t) \<noteq> Expired \<longrightarrow> ct_answer ct t (state_of s' i) key = ?v"
      "\<forall>j. n \<le> j \<longrightarrow> state_of s' j = state_of s j"
    by auto
  have "sk_maint s' = sk_maint s" using s'(3) by (simp add: same_rest_def)
  then have "backfill cf key ?v n opts fence s = (Inr (), s')"
    using False assms(3) s'(1)
    by (simp add: backfill_def backfill_targets_healthy [OF assms(1)] runFencedWrite_def drop_result_def andthen_def ret_def comp_def)
  then show ?thesis using s'(2-5) by blast
qed

subsection \<open>The read loop\<close>

lemma read_layers_miss:
  assumes "healthy ct s" "i < length (sk_layers s)" "ct_key ct key" "ct_answer ct (sk_now s) (state_of s i) key = JNull"
  shows "\<exists>s'. read_layers cf key opts mode fence (i # is) saw s = read_layers cf key opts mode fence is saw s' \<and>
    visits ct i s s' \<and> (\<forall>t k'. sk_now s \<le> t \<longrightarrow> ct_answer ct t (state_of s' i) k' = ct_answer ct t (state_of s i) k')"
proof -
  obtain s1 where s1: "readLayerEntry cf i key s = (Inr JNull, s1)" "visits ct i s s1"
    "\<forall>t k'. sk_now s \<le> t \<longrightarrow> ct_answer ct t (state_of s1 i) k' = ct_answer ct t (state_of s i) k'"
    using readLayerEntry_visits [OF assms(1-3), of cf] assms(4) by auto
  then show ?thesis by (fastforce simp: Let_def)
qed

lemma visits_frame:
  "visits ct i s s' \<Longrightarrow> healthy ct s' \<and> sk_now s' = sk_now s \<and> sk_maint s' = sk_maint s \<and>
     length (sk_layers s') = length (sk_layers s) \<and> (\<forall>j. j \<noteq> i \<longrightarrow> state_of s' j = state_of s j)"
  by (auto simp: visits_def same_rest_def dest: map_eq_imp_length_eq)

lemma read_layers_misses:
  assumes "healthy ct s" "ct_key ct key" "set is \<subseteq> {..<length (sk_layers s)}" "distinct is"
    and "\<forall>j \<in> set is. ct_answer ct (sk_now s) (state_of s j) key = JNull"
  shows "\<exists>s'. read_layers cf key opts mode fence (is @ rest) saw s = read_layers cf key opts mode fence rest saw s' \<and>
    healthy ct s' \<and> same_rest s s' \<and> (\<forall>j. j \<notin> set is \<longrightarrow> state_of s' j = state_of s j) \<and>
    (\<forall>t k'. \<forall>j. sk_now s \<le> t \<longrightarrow> ct_answer ct t (state_of s' j) k' = ct_answer ct t (state_of s j) k')"
  using assms
proof (induction "is" arbitrary: s)
  case Nil
  then show ?case by (intro exI [of _ s]) simp
next
  case (Cons i "is")
  obtain s1 where s1: "read_layers cf key opts mode fence (i # is @ rest) saw s = read_layers cf key opts mode fence (is @ rest) saw s1"
    "visits ct i s s1" "\<forall>t k'. sk_now s \<le> t \<longrightarrow> ct_answer ct t (state_of s1 i) k' = ct_answer ct t (state_of s i) k'"
    using read_layers_miss [OF Cons(2) _ Cons(3), of i cf opts mode fence "is @ rest" saw] Cons(4,6) by auto
  note f = visits_frame [OF s1(2)]
  have same: "\<forall>t k'. \<forall>j. sk_now s \<le> t \<longrightarrow> ct_answer ct t (state_of s1 j) k' = ct_answer ct t (state_of s j) k'"
    using s1(3) f by metis
  obtain s2 where s2: "read_layers cf key opts mode fence (is @ rest) saw s1 = read_layers cf key opts mode fence rest saw s2"
    "healthy ct s2" "same_rest s1 s2" "\<forall>j. j \<notin> set is \<longrightarrow> state_of s2 j = state_of s1 j"
    "\<forall>t k'. \<forall>j. sk_now s1 \<le> t \<longrightarrow> ct_answer ct t (state_of s2 j) k' = ct_answer ct t (state_of s1 j) k'"
    using Cons(1) [of s1] Cons(3-6) f same by auto
  show ?case
    using s1(1) s2 same f same_rest_trans [OF _ s2(3), of s] s1(2) by (intro exI [of _ s2]) (auto simp: visits_def)
qed

definition hit_at :: "nat \<Rightarrow> string \<Rightarrow> stored_value_envelope \<Rightarrow> real \<Rightarrow> read_hit" where
  \<comment> \<open>the answer when layer \<open>i\<close>, named \<open>name\<close>, holds the envelope\<close>
  "hit_at i name e t = \<lparr>rh_value = (if env_kind e = KEmpty then JUndef else stored_view (env_kind e) (env_value e)),
     rh_stored = js_of_envelope e, rh_state = rsv_state (resolveStoredValue t (js_of_envelope e) t),
     rh_layerIndex = i, rh_layerName = name\<rparr>"

lemma same_rest_name: "same_rest s s' \<Longrightarrow> i < length (sk_layers s) \<Longrightarrow> ly_name (the_layer i s') = ly_name (the_layer i s)"
  unfolding same_rest_def the_layer_def layer_info_def by (metis (no_types, lifting) length_map nth_map prod.inject)

lemma read_layers_hit:
  assumes "healthy ct s" "i < length (sk_layers s)" "ct_answer ct (sk_now s) (state_of s i) key = js_of_envelope e"
    and "envelope_ok (sk_now s) e" "freshUntil e \<noteq> None"
    and "rsv_state (resolveStoredValue (sk_now s) (js_of_envelope e) (sk_now s)) \<noteq> Expired"
    and "mode = FreshOnly \<Longrightarrow> rsv_state (resolveStoredValue (sk_now s) (js_of_envelope e) (sk_now s)) = Fresh"
    and "\<not> isWriteOutdated key (Some (fst fence)) (Some (snd fence)) (sk_maint s)" "ct_key ct key" "i \<noteq> 0 \<Longrightarrow> takes_copy ct key e (sk_now s)"
  shows "\<exists>s'. read_layers cf key opts mode fence (i # is) saw s = (Inr (Some (hit_at i (ly_name (the_layer i s)) e (sk_now s))), s') \<and>
    healthy ct s' \<and> sk_now s' = sk_now s \<and> sk_maint s' = sk_maint s \<and> length (sk_layers s') = length (sk_layers s) \<and>
    (\<forall>j < i. \<forall>t. sk_now s \<le> t \<longrightarrow> rsv_state (resolveStoredValue t (js_of_envelope e) t) \<noteq> Expired \<longrightarrow>
       ct_answer ct t (state_of s' j) key = js_of_envelope e) \<and>
    (\<forall>j \<ge> i. \<forall>t k'. sk_now s \<le> t \<longrightarrow> ct_answer ct t (state_of s' j) k' = ct_answer ct t (state_of s j) k')"
proof -
  let ?v = "js_of_envelope e"
  obtain s1 where s1: "readLayerEntry cf i key s = (Inr ?v, s1)" "visits ct i s s1"
    "\<forall>t k'. sk_now s \<le> t \<longrightarrow> ct_answer ct t (state_of s1 i) k' = ct_answer ct t (state_of s i) k'"
    using readLayerEntry_visits [OF assms(1,2), of key cf] assms(3,9) by auto
  note f1 = visits_frame [OF s1(2)]
  have n1: "ly_name (the_layer i s1) = ly_name (the_layer i s)"
    using s1(2) by (intro same_rest_name [OF _ assms(2)]) (simp add: visits_def)
  let ?s2 = "s1\<lparr>sk_metrics := recordLatency (ly_name (the_layer i s1)) (cf_read_duration cf s1) (sk_metrics s1)\<rparr>"
  let ?s3 = "?s2\<lparr>sk_tags := touch key (sk_now ?s2) (sk_tags ?s2)\<rparr>"
  have h3: "healthy ct ?s3" "i \<le> length (sk_layers ?s3)" "sk_now ?s3 = sk_now s" "sk_maint ?s3 = sk_maint s"
    using f1 assms(2) by simp_all
  obtain s4 where s4: "backfill cf key ?v i opts fence ?s3 = (Inr (), s4)" "healthy ct s4" "same_rest ?s3 s4"
    "\<forall>j < i. \<forall>t. sk_now ?s3 \<le> t \<longrightarrow> rsv_state (resolveStoredValue t ?v t) \<noteq> Expired \<longrightarrow> ct_answer ct t (state_of s4 j) key = ?v"
    "\<forall>j. i \<le> j \<longrightarrow> state_of s4 j = state_of ?s3 j"
    using backfill_healthy [OF h3(1,2), of key fence e cf opts] assms(4,5,8,10) h3(3,4) by auto
  have f4: "sk_now s4 = sk_now s" "sk_maint s4 = sk_maint s" "length (sk_layers s4) = length (sk_layers s)"
    using s4(3) h3(3,4) f1 same_rest_length [OF s4(3)] by (simp_all add: same_rest_def)
  have nn: "?v \<noteq> JNull" using is_object_envelope [of e] is_object.simps(4) by metis
  have val: "rsv_value (resolveStoredValue (sk_now s) ?v (sk_now s)) = stored_view (env_kind e) (env_value e)"
    using assms(6) unfolding resolve_js_of_envelope [OF assms(4)] by (simp add: Let_def)
  let ?s5 = "emit (EvHit key (ly_name (the_layer i s)) (rsv_state (resolveStoredValue (sk_now s) ?v (sk_now s))))
    (s4\<lparr>sk_metrics := incrementLayer HitsByLayer (ly_name (the_layer i s)) (sk_metrics s4)\<rparr>)"
  have "read_layers cf key opts mode fence (i # is) saw s = (Inr (Some (hit_at i (ly_name (the_layer i s)) e (sk_now s))), ?s5)"
    using s1(1) s4(1) nn assms(4,6,7) val f1 f4 n1
    by (cases "mode = FreshOnly") (simp_all add: Let_def hit_at_def isNegativeStoredValue_def)
  moreover have "ct_answer ct t (state_of ?s5 j) k' = ct_answer ct t (state_of s j) k'" if "i \<le> j" "sk_now s \<le> t" for j t k'
    using s4(5) s1(3) f1 that by (cases "j = i") simp_all
  ultimately show ?thesis using s4(2,4) f4 h3(3) by (intro exI [of _ ?s5]) simp
qed

lemma split_at: "i < n \<Longrightarrow> [0..<n] = [0..<i] @ i # [Suc i..<n]"
  using upt_add_eq_append [of 0 i "n - i"] by (simp add: upt_conv_Cons)

lemma readFromLayers_hit:
  assumes "healthy ct s" "i < length (sk_layers s)" "\<forall>j < i. ct_answer ct (sk_now s) (state_of s j) key = JNull"
    and "ct_answer ct (sk_now s) (state_of s i) key = js_of_envelope e" "envelope_ok (sk_now s) e" "freshUntil e \<noteq> None"
    and "rsv_state (resolveStoredValue (sk_now s) (js_of_envelope e) (sk_now s)) \<noteq> Expired"
    and "mode = FreshOnly \<Longrightarrow> rsv_state (resolveStoredValue (sk_now s) (js_of_envelope e) (sk_now s)) = Fresh"
    and "ct_key ct key" "i \<noteq> 0 \<Longrightarrow> takes_copy ct key e (sk_now s)"
  shows "\<exists>s'. readFromLayers cf key opts mode s = (Inr (Some (hit_at i (ly_name (the_layer i s)) e (sk_now s))), s') \<and>
    healthy ct s' \<and> sk_now s' = sk_now s \<and> sk_maint s' = sk_maint s \<and> length (sk_layers s') = length (sk_layers s) \<and>
    (\<forall>j < i. \<forall>t. sk_now s \<le> t \<longrightarrow> rsv_state (resolveStoredValue t (js_of_envelope e) t) \<noteq> Expired \<longrightarrow>
       ct_answer ct t (state_of s' j) key = js_of_envelope e) \<and>
    (\<forall>j \<ge> i. \<forall>t k'. sk_now s \<le> t \<longrightarrow> ct_answer ct t (state_of s' j) k' = ct_answer ct t (state_of s j) k')"
proof -
  let ?fence = "(clear_epoch s, key_epoch key s)"
  obtain s1 where s1: "read_layers cf key opts mode ?fence ([0..<i] @ i # [Suc i..<length (sk_layers s)]) False s =
      read_layers cf key opts mode ?fence (i # [Suc i..<length (sk_layers s)]) False s1"
    "healthy ct s1" "same_rest s s1" "\<forall>j. j \<notin> set [0..<i] \<longrightarrow> state_of s1 j = state_of s j"
    using read_layers_misses [OF assms(1) assms(9), of "[0..<i]" cf opts mode ?fence "i # [Suc i..<length (sk_layers s)]" False] assms(2,3)
    by force
  have f: "sk_now s1 = sk_now s" "sk_maint s1 = sk_maint s" "length (sk_layers s1) = length (sk_layers s)"
    "ly_name (the_layer i s1) = ly_name (the_layer i s)" "state_of s1 i = state_of s i"
    using s1(3,4) same_rest_length [OF s1(3)] same_rest_name [OF s1(3) assms(2)] by (simp_all add: same_rest_def)
  have out: "\<not> isWriteOutdated key (Some (fst ?fence)) (Some (snd ?fence)) (sk_maint s1)"
    using current_not_outdated [of key s] f(2) by simp
  have at: "\<forall>j \<ge> i. state_of s1 j = state_of s j" using s1(4) by simp
  have pre: "i < length (sk_layers s1)" "ct_answer ct (sk_now s1) (state_of s1 i) key = js_of_envelope e" "envelope_ok (sk_now s1) e"
    "rsv_state (resolveStoredValue (sk_now s1) (js_of_envelope e) (sk_now s1)) \<noteq> Expired"
    using assms f by simp_all
  have pre': "rsv_state (resolveStoredValue (sk_now s1) (js_of_envelope e) (sk_now s1)) = Fresh" if "mode = FreshOnly"
    using assms(8) f that by simp
  have copy: "takes_copy ct key e (sk_now s1)" if "i \<noteq> 0" using assms(10) f that by simp
  obtain s' where s': "read_layers cf key opts mode ?fence (i # [Suc i..<length (sk_layers s)]) False s1 =
      (Inr (Some (hit_at i (ly_name (the_layer i s1)) e (sk_now s1))), s')"
    "healthy ct s'" "sk_now s' = sk_now s1" "sk_maint s' = sk_maint s1" "length (sk_layers s') = length (sk_layers s1)"
    "\<forall>j < i. \<forall>t. sk_now s1 \<le> t \<longrightarrow> rsv_state (resolveStoredValue t (js_of_envelope e) t) \<noteq> Expired \<longrightarrow>
       ct_answer ct t (state_of s' j) key = js_of_envelope e"
    "\<forall>j \<ge> i. \<forall>t k'. sk_now s1 \<le> t \<longrightarrow> ct_answer ct t (state_of s' j) k' = ct_answer ct t (state_of s1 j) k'"
    by (rule exE [OF read_layers_hit [OF s1(2) pre(1,2,3) assms(6) pre(4) pre' out assms(9) copy]], assumption+, elim conjE, rule that, assumption+)
  have "readFromLayers cf key opts mode s = (Inr (Some (hit_at i (ly_name (the_layer i s)) e (sk_now s))), s')"
    using s'(1) s1(1) f(1,4) by (simp only: readFromLayers_def split_at [OF assms(2)])
  then show ?thesis using s'(2-7) f at by (intro exI [of _ s']) simp
qed

lemma read_layers_stale:
  assumes "healthy ct s" "i < length (sk_layers s)" "ct_key ct key" "ct_answer ct (sk_now s) (state_of s i) key = js_of_envelope e"
    and "rsv_state (resolveStoredValue (sk_now s) (js_of_envelope e) (sk_now s)) \<notin> {Fresh, Expired}"
  shows "\<exists>s'. read_layers cf key opts FreshOnly fence (i # is) saw s = read_layers cf key opts FreshOnly fence is True s' \<and>
    visits ct i s s' \<and> (\<forall>t k'. sk_now s \<le> t \<longrightarrow> ct_answer ct t (state_of s' i) k' = ct_answer ct t (state_of s i) k')"
proof -
  obtain s1 where s1: "readLayerEntry cf i key s = (Inr (js_of_envelope e), s1)" "visits ct i s s1"
    "\<forall>t k'. sk_now s \<le> t \<longrightarrow> ct_answer ct t (state_of s1 i) k' = ct_answer ct t (state_of s i) k'"
    using readLayerEntry_visits [OF assms(1-3), of cf] assms(4) by auto
  have "js_of_envelope e \<noteq> JNull" using is_object_envelope [of e] is_object.simps(4) by metis
  then have "read_layers cf key opts FreshOnly fence (i # is) saw s = read_layers cf key opts FreshOnly fence is True
      (s1\<lparr>sk_metrics := recordLatency (ly_name (the_layer i s1)) (cf_read_duration cf s1) (sk_metrics s1)\<rparr>)"
    using s1(1) assms(5) visits_frame [OF s1(2)] by (simp add: Let_def)
  then show ?thesis using s1(2,3) by (intro exI [of _ "s1\<lparr>sk_metrics := _\<rparr>"]) simp
qed

lemma read_layers_no_fresh:
  assumes "healthy ct s" "ct_key ct key" "set is \<subseteq> {..<length (sk_layers s)}" "distinct is"
    and "\<forall>j \<in> set is. ct_answer ct (sk_now s) (state_of s j) key \<in> {JNull, js_of_envelope e}"
    and "rsv_state (resolveStoredValue (sk_now s) (js_of_envelope e) (sk_now s)) \<notin> {Fresh, Expired}"
  shows "fst (read_layers cf key opts FreshOnly fence is saw s) = Inr None"
  using assms
proof (induction "is" arbitrary: s saw)
  case Nil
  then show ?case by (simp add: Let_def)
next
  case (Cons i "is")
  have i: "i < length (sk_layers s)" "ct_answer ct (sk_now s) (state_of s i) key \<in> {JNull, js_of_envelope e}" using Cons(4,6) by auto
  have "\<exists>s' saw'. read_layers cf key opts FreshOnly fence (i # is) saw s = read_layers cf key opts FreshOnly fence is saw' s' \<and>
      visits ct i s s'"
    using read_layers_miss [OF Cons(2) i(1) Cons(3), of cf opts FreshOnly fence "is" saw] read_layers_stale [OF Cons(2) i(1) Cons(3) _ Cons(7), of cf opts fence "is" saw] i(2)
    by blast
  then obtain s' saw' where s': "read_layers cf key opts FreshOnly fence (i # is) saw s = read_layers cf key opts FreshOnly fence is saw' s'"
    "visits ct i s s'" by blast
  note f = visits_frame [OF s'(2)]
  have same: "state_of s' j = state_of s j" if "j \<in> set is" for j using f Cons(5) that by auto
  have "fst (read_layers cf key opts FreshOnly fence is saw' s') = Inr None"
    using f Cons(3-7) by (intro Cons(1)) (simp_all add: same)
  then show ?case using s'(1) by simp
qed

end
