(* ===== verification/HealthyScans.thy ===== *)
theory HealthyScans
  imports HealthyReads
begin

text \<open>
  Key discovery on a stack of working layers that list their keys: a scan finds every selected key a
  layer answers, or reports that the limit is exceeded, and changes no answer.
\<close>

definition listed :: "'l contract \<Rightarrow> 'l stack \<Rightarrow> bool" where
  "listed ct s \<longleftrightarrow> healthy ct s \<and>
     (\<forall>i < length (sk_layers s). listed_layer (ly_api (sk_layers s ! i)) ct)"

lemma listed_healthy: "listed ct s \<Longrightarrow> healthy ct s"
  by (simp add: listed_def)

lemma same_rest_api: "same_rest s s' \<Longrightarrow> i < length (sk_layers s) \<Longrightarrow> ly_api (sk_layers s' ! i) = ly_api (sk_layers s ! i)"
proof -
  assume s: "same_rest s s'" "i < length (sk_layers s)"
  then have "map layer_info (sk_layers s') ! i = map layer_info (sk_layers s) ! i" by (simp add: same_rest_def)
  then show ?thesis using s(2) same_rest_length [OF s(1)] by (simp add: layer_info_def)
qed

lemma listed_same_rest: "listed ct s \<Longrightarrow> same_rest s s' \<Longrightarrow> healthy ct s' \<Longrightarrow> listed ct s'"
  using same_rest_length [of s s'] same_rest_api [of s s'] by (simp add: listed_def)

lemma listed_stack_layer:
  "listed ct s \<Longrightarrow> i < length (sk_layers s) \<Longrightarrow> listed_layer (ly_api (the_layer i s)) ct \<and> ct_ok ct (state_of s i)"
  by (simp add: listed_def healthy_def the_layer_def)

definition same_answers :: "'l contract \<Rightarrow> 'l stack \<Rightarrow> 'l stack \<Rightarrow> bool" where
  \<comment> \<open>from now on every layer answers every key alike\<close>
  "same_answers ct s s' \<longleftrightarrow> (\<forall>j t k. sk_now s \<le> t \<longrightarrow> ct_answer ct t (state_of s' j) k = ct_answer ct t (state_of s j) k)"

lemma same_answers_refl [simp]: "same_answers ct s s"
  by (simp add: same_answers_def)

lemma same_answers_trans: "same_answers ct a b \<Longrightarrow> sk_now b = sk_now a \<Longrightarrow> same_answers ct b c \<Longrightarrow> same_answers ct a c"
  by (simp add: same_answers_def)

lemma collect_limited_ok:
  "collect_limited m acc xs = Inr r \<Longrightarrow> set r = set acc \<union> set xs"
  by (induction m acc xs rule: collect_limited.induct) (auto simp: Let_def bind_result_Inr)

definition limit_error :: "match_limit \<Rightarrow> error \<Rightarrow> bool" where
  "limit_error m e \<longleftrightarrow> m \<noteq> NoLimit \<and> (\<exists>n. e = InvalidationLimit n (limit_of m))"

lemma collect_limited_error: "collect_limited m acc xs = Inl e \<Longrightarrow> limit_error m e"
  by (induction m acc xs rule: collect_limited.induct)
    (auto simp: Let_def bind_result_def assertWithinLimit_def over_limit_def limit_error_def split: sum.splits if_splits match_limit.splits)

lemma scan_one:
  assumes "listed ct s" "i < length (sk_layers s)"
  shows "\<exists>keys s'. same_rest s s' \<and> healthy ct s' \<and> same_answers ct s s' \<and>
    (\<forall>k. ct_answer ct (sk_now s) (state_of s i) k \<noteq> JNull \<longrightarrow> k \<in> set keys) \<and> (\<forall>k \<in> set keys. ct_key ct k) \<and>
    scan_layers cf opn sel m (i # is) found s =
      (case collect_limited m found (filter sel keys) of Inl e \<Rightarrow> (Inl e, s') | Inr found' \<Rightarrow> scan_layers cf opn sel m is found' s')"
proof -
  note l = listed_stack_layer [OF assms]
  obtain f ks l' where f: "la_keys (ly_api (the_layer i s)) = Some f" "f (sk_now s) (state_of s i) = (Inr ks, l')" "ct_ok ct l'"
    "\<forall>k. ct_answer ct (sk_now s) (state_of s i) k \<noteq> JNull \<longrightarrow> k \<in> set ks" "\<forall>k \<in> set ks. ct_key ct k"
    "\<forall>t' k. sk_now s \<le> t' \<longrightarrow> ct_answer ct t' l' k = ct_answer ct t' (state_of s i) k"
    using listed_layer.listing [OF conjunct1 [OF l] conjunct2 [OF l]] by metis
  have call: "call_layer i (\<lambda>api t. f t) s = (Inr ks, put_state i l' s)" using f(2) by (simp add: call_layer_put)
  have "healthy ct (put_state i l' s)" using healthy_put [OF listed_healthy [OF assms(1)] assms(2) f(3)] .
  moreover have "same_answers ct s (put_state i l' s)" using f(6) assms(2) by (simp add: same_answers_def state_of_put)
  ultimately show ?thesis
    using f(1,4,5) call healthy_skip [OF listed_healthy [OF assms(1)], of i] by (intro exI [of _ ks] exI [of _ "put_state i l' s"]) simp
qed

lemma scan_layers_listed:
  assumes "listed ct s" "set is \<subseteq> {..<length (sk_layers s)}" "scan_layers cf opn sel m is found s = (r, s')"
    and "\<forall>k \<in> set found. ct_key ct k"
  shows "same_rest s s' \<and> healthy ct s' \<and> same_answers ct s s' \<and>
    (case r of Inl e \<Rightarrow> limit_error m e
     | Inr keys \<Rightarrow> set found \<subseteq> set keys \<and> (\<forall>k \<in> set keys. ct_key ct k \<and> (k \<in> set found \<or> sel k)) \<and>
         (\<forall>k. \<forall>i \<in> set is. sel k \<longrightarrow> ct_answer ct (sk_now s) (state_of s i) k \<noteq> JNull \<longrightarrow> k \<in> set keys))"
  using assms
proof (induction "is" arbitrary: found s)
  case Nil
  then show ?case using listed_healthy by auto
next
  case (Cons i "is")
  obtain ks s1 where s1: "same_rest s s1" "healthy ct s1" "same_answers ct s s1"
    "\<forall>k. ct_answer ct (sk_now s) (state_of s i) k \<noteq> JNull \<longrightarrow> k \<in> set ks" "\<forall>k \<in> set ks. ct_key ct k"
    "scan_layers cf opn sel m (i # is) found s =
      (case collect_limited m found (filter sel ks) of Inl e \<Rightarrow> (Inl e, s1) | Inr found' \<Rightarrow> scan_layers cf opn sel m is found' s1)"
    using scan_one [OF Cons(2), of i cf opn sel m "is" found] Cons(3) by auto
  show ?case
  proof (cases "collect_limited m found (filter sel ks)")
    case (Inl e)
    then have "r = Inl e" "s' = s1" using s1(6) Cons(4) by (simp_all del: scan_layers.simps)
    then show ?thesis using s1(1-3) collect_limited_error [OF Inl] by simp
  next
    case (Inr found')
    have now: "sk_now s1 = sk_now s" "length (sk_layers s1) = length (sk_layers s)"
      using s1(1) same_rest_length [OF s1(1)] by (simp_all add: same_rest_def)
    have scan: "scan_layers cf opn sel m is found' s1 = (r, s')" using s1(6) Inr Cons(4) by (simp del: scan_layers.simps)
    have found': "set found' = set found \<union> {k \<in> set ks. sel k}" using collect_limited_ok [OF Inr] by simp
    have IH: "same_rest s1 s' \<and> healthy ct s' \<and> same_answers ct s1 s' \<and>
      (case r of Inl e \<Rightarrow> limit_error m e
       | Inr keys \<Rightarrow> set found' \<subseteq> set keys \<and> (\<forall>k \<in> set keys. ct_key ct k \<and> (k \<in> set found' \<or> sel k)) \<and>
           (\<forall>k. \<forall>i \<in> set is. sel k \<longrightarrow> ct_answer ct (sk_now s1) (state_of s1 i) k \<noteq> JNull \<longrightarrow> k \<in> set keys))"
      using Cons(1) [OF listed_same_rest [OF Cons(2) s1(1,2)] _ scan] Cons(3,5) now(2) found' s1(5) by auto
    have same: "ct_answer ct (sk_now s) (state_of s1 j) k = ct_answer ct (sk_now s) (state_of s j) k" for j k
      using s1(3) by (simp add: same_answers_def)
    show ?thesis
      using IH same_rest_trans [OF s1(1)] same_answers_trans [OF s1(3) now(1)] found' s1(4) now(1) same
      by (cases r) auto
  qed
qed

subsection \<open>Scan and delete\<close>

definition discover :: "'l stack_config \<Rightarrow> string \<Rightarrow> (string \<Rightarrow> bool) \<Rightarrow> match_limit \<Rightarrow> string list \<Rightarrow> ('l stack, string list) action" where
  \<comment> \<open>the common shape of the two collections: keys of the index, then keys of the layers\<close>
  "discover cf opn sel m indexed s =
    (case collect_limited m [] indexed of
       Inl e \<Rightarrow> (Inl e, s)
     | Inr found \<Rightarrow> scan_layers cf opn sel m [0..<length (sk_layers s)] found s)"

lemma collect_as_discover:
  "collectKeysMatchingPattern cf pattern m s = discover cf ''invalidate-pattern-scan'' (matches pattern) m (matchPattern pattern (sk_tags s)) s"
  "collectKeysWithPrefix cf pre m s = discover cf ''invalidate-prefix-scan'' (\<lambda>key. starts_with key pre) m (keysForPrefix pre (sk_tags s)) s"
  by (simp_all add: collectKeysMatchingPattern_def collectKeysWithPrefix_def discover_def)

definition selected_gone :: "'l contract \<Rightarrow> (string \<Rightarrow> bool) \<Rightarrow> 'l stack \<Rightarrow> 'l stack \<Rightarrow> bool" where
  \<comment> \<open>from now on no layer answers a selected key; all others answer as before\<close>
  "selected_gone ct sel s s' \<longleftrightarrow> (\<forall>i < length (sk_layers s). \<forall>t k. sk_now s \<le> t \<longrightarrow>
     ct_answer ct t (state_of s' i) k = (if sel k then JNull else ct_answer ct t (state_of s i) k))"

lemma discover_and_delete:
  assumes "listed ct s" "\<forall>k \<in> set indexed. sel k \<and> ct_key ct k"
    and "andthen (discover cf opn sel m indexed) (deleteKeys cf) s = (r, s')"
  shows "case r of Inl e \<Rightarrow> limit_error m e \<and> same_answers ct s s' | Inr _ \<Rightarrow> selected_gone ct sel s s'"
proof (cases "discover cf opn sel m indexed s")
  case (Pair d s1)
  show ?thesis
  proof (cases "collect_limited m [] indexed")
    case (Inl e)
    then have "r = Inl e" "s' = s" using assms(3) by (simp_all add: discover_def andthen_def)
    then show ?thesis using collect_limited_error [OF Inl] by simp
  next
    case (Inr found)
    then have scan: "scan_layers cf opn sel m [0..<length (sk_layers s)] found s = (d, s1)" using Pair by (simp add: discover_def)
    have found: "set found = set indexed" using collect_limited_ok [OF Inr] by simp
    have "set [0..<length (sk_layers s)] \<subseteq> {..<length (sk_layers s)}" by auto
    then have sc: "same_rest s s1 \<and> healthy ct s1 \<and> same_answers ct s s1 \<and>
      (case d of Inl e \<Rightarrow> limit_error m e
       | Inr keys \<Rightarrow> set found \<subseteq> set keys \<and> (\<forall>k \<in> set keys. ct_key ct k \<and> (k \<in> set found \<or> sel k)) \<and>
           (\<forall>k. \<forall>i \<in> set [0..<length (sk_layers s)]. sel k \<longrightarrow> ct_answer ct (sk_now s) (state_of s i) k \<noteq> JNull \<longrightarrow> k \<in> set keys))"
      using scan_layers_listed [OF assms(1) _ scan] assms(2) found by blast
    have s1: "same_rest s s1" "healthy ct s1" "same_answers ct s s1" using sc by auto
    show ?thesis
    proof (cases d)
      case (Inl e)
      then show ?thesis using sc assms(3) Pair by (auto simp: andthen_def)
    next
      case (Inr keys)
      have len: "length (sk_layers s1) = length (sk_layers s)" using same_rest_length [OF s1(1)] .
      have keys: "\<forall>k \<in> set keys. sel k" "\<forall>k \<in> set keys. ct_key ct k"
        "\<forall>k. \<forall>i < length (sk_layers s). sel k \<longrightarrow> ct_answer ct (sk_now s) (state_of s i) k \<noteq> JNull \<longrightarrow> k \<in> set keys"
        using sc Inr found assms(2) by auto
      have del: "deleteKeys cf keys s1 = (r, s')" using assms(3) Pair Inr by (simp add: andthen_def)
      have "r = Inr () \<and> (\<forall>i < length (sk_layers s). deleted ct (sk_now s) keys (state_of s1 i) (state_of s' i))"
      proof (cases "keys = []")
        case True
        then show ?thesis using del by (auto simp: deleteKeys_def deleted_def)
      next
        case False
        then show ?thesis using deleteKeys_healthy [OF s1(2) False keys(2), of cf] del len s1(1) by (auto simp: same_rest_def)
      qed
      moreover have "ct_answer ct t (state_of s i) k = JNull" if "i < length (sk_layers s)" "sk_now s \<le> t" "sel k" "k \<notin> set keys" for i t k
        using keys(3) that listed_layer.gone [OF conjunct1 [OF listed_stack_layer [OF assms(1) that(1)]] that(2)] by blast
      ultimately show ?thesis using keys(1) s1(3) by (auto simp: selected_gone_def deleted_def same_answers_def)
    qed
  qed
qed

end
