(* ===== verification/StackProps.thy ===== *)
theory StackProps
  imports HealthyReads
begin

text \<open>
  What the operations of the stack achieve on layers that keep the contract \<open>cache_layer\<close>: a value that
  was set is read back, a hit fills the faster layers, a deleted or invalidated key is gone from every
  layer; and on any layers: a stale value survives a failing fetch, a fetch overtaken by an
  invalidation stores nothing, a failing layer is skipped while it is degraded.
\<close>

text \<open>
  C2: a delete reaches every layer and nothing else. On a stack whose layers keep their contract, deleting
  keys succeeds; afterwards no layer answers any of them from now on, every other key answers as before in
  every layer, the deleted keys are neither known nor tagged in the index, and every write that carries
  epochs captured before is outdated.
\<close>

theorem delete_reaches_every_layer:
  assumes "healthy ct s" "keys \<noteq> []" "tag_index_ok (sk_tags s)" "epoch_ok (sk_maint s)"
    and "\<forall>k \<in> set keys. ct_key ct k" "k \<in> set keys" "i < length (sk_layers s)" "sk_now s \<le> t"
  shows "fst (deleteKeys cf keys s) = Inr () \<and>
    ct_answer ct t (state_of (snd (deleteKeys cf keys s)) i) k' = (if k' \<in> set keys then JNull else ct_answer ct t (state_of s i) k') \<and>
    k \<notin> known (sk_tags (snd (deleteKeys cf keys s))) \<and> tagsForKey k (sk_tags (snd (deleteKeys cf keys s))) = [] \<and>
    isWriteOutdated k (Some (clear_epoch s)) (Some (key_epoch k s)) (sk_maint (snd (deleteKeys cf keys s)))"
proof -
  obtain s' where s': "deleteKeys cf keys s = (Inr (), s')" "sk_maint s' = bumpKeyEpochs keys (sk_maint s)"
    "sk_tags s' = fold removeKey keys (sk_tags s)" "\<forall>i < length (sk_layers s). deleted ct (sk_now s) keys (state_of s i) (state_of s' i)"
    using deleteKeys_healthy [OF assms(1,2,5), of cf] by blast
  have "epoch_past k (mt_clearEpoch (sk_maint s)) (currentKeyEpoch k (sk_maint s)) (bumpKeyEpochs keys (sk_maint s))"
    using bumpKeyEpochs_spec(3) [OF assms(4,6)] .
  then have "isWriteOutdated k (Some (clear_epoch s)) (Some (key_epoch k s)) (sk_maint s')"
    using epoch_past_outdated [of k _ _ "sk_maint s'"] s'(2) by (simp add: clear_epoch_def key_epoch_def currentClearEpoch_def)
  moreover have "k \<notin> known (sk_tags s') \<and> tagsForKey k (sk_tags s') = []" using removed_keys_gone [OF assms(6), of "sk_tags s"] s'(3) by simp
  ultimately show ?thesis using s'(1,4) assms(6-8) by (simp add: deleted_def)
qed

theorem delete_reaches_every_layer_witness:
  "fst (deleteKeys demo_config [''k''] demo_stack) = Inr () \<and>
   memory_answer 2000 (state_of (snd (deleteKeys demo_config [''k''] demo_stack)) 1) ''k'' = JNull"
  using delete_reaches_every_layer [OF demo_healthy, of "[''k'']" "''k''" 1 2000 demo_config "''k''"] demo_stack_ok
  by (simp add: stack_ok_def)

subsection \<open>Reading and writing\<close>

text \<open>
  C4: a hit fills the faster layers. When the layers before \<open>i\<close> do not have the key and layer \<open>i\<close> holds an
  entry that is not expired, the read answers from layer \<open>i\<close> and from then on every faster layer answers the
  same entry for as long as it is servable.
\<close>

theorem read_hit_fills_faster_layers:
  assumes "healthy ct s" "i < length (sk_layers s)" "\<forall>j < i. ct_answer ct (sk_now s) (state_of s j) key = JNull"
    and "ct_answer ct (sk_now s) (state_of s i) key = js_of_envelope e" "envelope_ok (sk_now s) e" "freshUntil e \<noteq> None"
    and "rsv_state (resolveStoredValue (sk_now s) (js_of_envelope e) (sk_now s)) \<noteq> Expired"
    and "takes_copy ct key e (sk_now s)" "j < i" "sk_now s \<le> t" "rsv_state (resolveStoredValue t (js_of_envelope e) t) \<noteq> Expired"
  shows "fst (readFromLayers cf key opts AllowStale s) = Inr (Some (hit_at i (ly_name (the_layer i s)) e (sk_now s))) \<and>
    ct_answer ct t (state_of (snd (readFromLayers cf key opts AllowStale s)) j) key = js_of_envelope e"
  using readFromLayers_hit [OF assms(1-7), of AllowStale cf opts] assms(8-11) by (auto simp: takes_copy_def)

definition demo_entry :: stored_value_envelope where
  "demo_entry = createStoredValueEnvelope KValue (JStr ''v'') (Some 5000) None None 1000"

definition demo_half :: "memory_layer stack" where
  \<comment> \<open>the key only in the slower layer\<close>
  "demo_half = put_state 1 (ml_set 1000 ''k'' (js_of_envelope demo_entry) (Some 5000) (state_of demo_stack 1)) demo_stack"

lemma demo_half_healthy: "healthy memory_contract demo_half"
  unfolding demo_half_def
proof (rule healthy_put [OF demo_healthy])
  have ok: "keeps_new_keys (state_of demo_stack 1)" using demo_healthy by (simp add: healthy_def)
  then show "ct_ok memory_contract (ml_set 1000 ''k'' (js_of_envelope demo_entry) (Some 5000) (state_of demo_stack 1))"
    using keeps_new_keys_same [OF ok ml_set_ok ml_set_config] by (simp add: keeps_new_keys_def)
qed simp

lemma demo_half_answers:
  "memory_answer 1000 (state_of demo_half 0) ''k'' = JNull"
  "memory_answer 1000 (state_of demo_half 1) ''k'' = js_of_envelope demo_entry"
proof -
  have "keeps_new_keys (state_of demo_stack 1)" using demo_healthy by (simp add: healthy_def)
  from ml_set_keeps_new [OF this, of 1000 "''k''" "js_of_envelope demo_entry" "Some 5000"]
  show "memory_answer 1000 (state_of demo_half 1) ''k'' = js_of_envelope demo_entry"
    by (simp add: demo_half_def state_of_put memory_answer_holds expiry_at_def lapsed_def)
  show "memory_answer 1000 (state_of demo_half 0) ''k'' = JNull"
    using state_of_put [of 1 demo_stack _ 0]
    by (simp add: demo_half_def memory_answer_holds ml_holds_def)
      (simp add: state_of_def demo_layers_def memory_layer_of_def new_memory_layer_def)
qed

lemma demo_entry_ok:
  "1000 \<le> t \<Longrightarrow> envelope_ok t demo_entry" "freshUntil demo_entry = Some 6000"
  by (simp_all add: demo_entry_def create_ok create_deadlines window_def ten_years_ms_def)

theorem read_hit_fills_faster_layers_witness:
  "memory_answer 2000 (state_of (snd (readFromLayers demo_config ''k'' no_write_options AllowStale demo_half)) 0) ''k'' = js_of_envelope demo_entry"
  using read_hit_fills_faster_layers [OF demo_half_healthy, of 1 "''k''" demo_entry 0 2000 demo_config no_write_options]
    demo_half_answers demo_entry_ok fresh_not_expired [of 1000 demo_entry 6000] fresh_not_expired [of 2000 demo_entry 6000]
  by (simp add: demo_half_def takes_copy_def)

lemma publish_none: "cf_publish cf = None \<Longrightarrow> publishInvalidation cf msg s = (Inr (), s)"
  by (simp add: publishInvalidation_def ret_def)

lemma storeEntry_healthy:
  assumes "healthy ct s" "0 < length (sk_layers s)" "\<not> cf_writeBehind cf" "cf_publish cf = None" "o_contextOptions opts = None"
    and "fresh_ttl cf key 0 kind opts value s = Some f" "0 < f" "0 \<le> sk_now s"
    and "f + window (resolveLayerMs (ly_name (the_layer 0 s)) (o_staleWhileRevalidate opts) (cf_staleWhileRevalidate cf) None) \<le> ten_years_ms"
    and "f + window (resolveLayerMs (ly_name (the_layer 0 s)) (o_staleIfError opts) (cf_staleIfError cf) None) \<le> ten_years_ms"
    and "takes_write ct cf key kind value opts s"
  shows "\<exists>s'. storeEntry cf key kind value opts None s = (Inr True, s') \<and> healthy ct s' \<and>
    sk_now s' = sk_now s \<and> sk_generation s' = sk_generation s \<and> sk_disconnecting s' = sk_disconnecting s \<and>
    length (sk_layers s') = length (sk_layers s) \<and>
    (\<forall>t. sk_now s \<le> t \<longrightarrow> t < sk_now s + f \<longrightarrow> ct_answer ct t (state_of s' 0) key = js_of_envelope (written_entry cf 0 key kind value opts s))"
proof -
  obtain s1 where s1: "writeAcrossLayers cf key kind value opts None s = (Inr True, s1)" "healthy ct s1" "same_rest s s1"
    "\<forall>t. sk_now s \<le> t \<longrightarrow> t < sk_now s + f \<longrightarrow> ct_answer ct t (state_of s1 0) key = js_of_envelope (written_entry cf 0 key kind value opts s)"
    using writeAcrossLayers_healthy [OF assms(1-3,6-11)] by blast
  have out: "\<not> isWriteOutdated key (Some (clear_epoch s)) (Some (key_epoch key s)) (sk_maint s1)"
    using current_not_outdated [of key s] s1(3) by (simp add: same_rest_def)
  let ?g = "(case o_tags opts of Some tags \<Rightarrow> track key tags (sk_now s1) (sk_tags s1) | None \<Rightarrow> touch key (sk_now s1) (sk_tags s1))"
  let ?s' = "emit (EvSet key kind (o_tags opts)) (count_metric MSets 1 (s1\<lparr>sk_tags := ?g\<rparr>))"
  have "storeEntry cf key kind value opts None s = (Inr True, ?s')"
    using s1(1) out assms(4,5)
    by (simp add: storeEntry_def resolveContextOptions_def Let_def andthen_def publish_none ret_def split: option.splits)
  then show ?thesis using s1(2-4) same_rest_length [OF s1(3)] by (intro exI [of _ ?s']) (simp add: same_rest_def)
qed

lemma qualify_clean: "clean_name key \<Longrightarrow> qualify_user_key key s = (Inr (qualifyGenerationKey key (sk_generation s)), s)"
  using validate_key_iff [of key key] by (simp add: qualify_user_key_def)

lemma stack_get_prepared:
  assumes "clean_name key" "validateWriteOptions options = Inr ()" "\<not> sk_disconnecting s"
  shows "stack_get cf key fetcher options s =
    getPrepared cf (qualifyGenerationKey key (sk_generation s)) fetcher (nullish options no_write_options) s"
  using assms by (simp add: stack_get_def qualify_clean andthen_def lift_result_def assertActive_def)

lemma getPrepared_fresh:
  assumes "readFromLayers cf key opts AllowStale s = (Inr (Some hit), s1)" "rh_state hit = Fresh" "o_slidingTtl opts \<noteq> Some True"
  shows "fst (getPrepared cf key fetcher opts s) = Inr (rh_value hit)"
  using assms
  by (cases "o_slidingTtl opts")
    (auto simp: getPrepared_def Let_def andthen_def applyFreshReadPolicies_def planFreshReadPolicies_def ret_def split: option.splits)

lemma stack_set_get:
  fixes opts :: write_options
  assumes "healthy ct s" "0 < length (sk_layers s)" "\<not> sk_disconnecting s" "\<not> cf_writeBehind cf" "cf_publish cf = None"
    and "clean_name key" "validateWriteOptions (Some opts) = Inr ()" "o_contextOptions opts = None"
    and "fresh_ttl cf (qualifyGenerationKey key (sk_generation s)) 0 WValue opts v s = Some f" "0 < f" "0 \<le> sk_now s"
    and "f + window (resolveLayerMs (ly_name (the_layer 0 s)) (o_staleWhileRevalidate opts) (cf_staleWhileRevalidate cf) None) \<le> ten_years_ms"
    and "f + window (resolveLayerMs (ly_name (the_layer 0 s)) (o_staleIfError opts) (cf_staleIfError cf) None) \<le> ten_years_ms"
    and "validateWriteOptions ropts = Inr ()" "o_slidingTtl (nullish ropts no_write_options) \<noteq> Some True"
    and "sk_now s \<le> t" "t < sk_now s + f" "takes_write ct cf (qualifyGenerationKey key (sk_generation s)) WValue v opts s"
  shows "fst (stack_set cf key v (Some opts) s) = Inr () \<and>
    fst (stack_get cf key fetcher ropts ((snd (stack_set cf key v (Some opts) s))\<lparr>sk_now := t\<rparr>)) = Inr (if is_nullish v then JNull else v)"
proof -
  let ?k = "qualifyGenerationKey key (sk_generation s)"
  let ?e = "written_entry cf 0 ?k WValue v opts s"
  obtain s1 where s1: "storeEntry cf ?k WValue v opts None s = (Inr True, s1)" "healthy ct s1"
    "sk_generation s1 = sk_generation s" "sk_disconnecting s1 = sk_disconnecting s" "length (sk_layers s1) = length (sk_layers s)"
    "\<forall>t. sk_now s \<le> t \<longrightarrow> t < sk_now s + f \<longrightarrow> ct_answer ct t (state_of s1 0) ?k = js_of_envelope ?e"
    using storeEntry_healthy [OF assms(1,2,4,5,8,9-13,18)] by blast
  have set: "stack_set cf key v (Some opts) s = (Inr (), s1)"
    using assms(3,6,7) s1(1) by (simp add: stack_set_def qualify_clean andthen_def lift_result_def assertActive_def drop_result_def ret_def)
  have e: "envelope_ok t ?e" "freshUntil ?e = Some (sk_now s + f)" "env_kind ?e = KValue" "env_value ?e = v"
    using assms(9-13,16) by (simp_all add: written_entry_def create_ok create_deadlines envelope_kind_def)
  let ?u = "s1\<lparr>sk_now := t\<rparr>"
  have fresh: "rsv_state (resolveStoredValue t (js_of_envelope ?e) t) = Fresh"
    using fresh_not_expired [OF e(1,2)] assms(17) by simp
  have "\<exists>s'. readFromLayers cf ?k (nullish ropts no_write_options) AllowStale ?u =
      (Inr (Some (hit_at 0 (ly_name (the_layer 0 ?u)) ?e t)), s')"
    using readFromLayers_hit [of ct ?u 0 ?k ?e AllowStale cf "nullish ropts no_write_options"] s1(2,5,6) assms(2,16,17) e(1,2) fresh
      takes_write_here [OF assms(18) same_rest_refl assms(2)] by (auto simp: takes_entry_def entry_built)
  then obtain s' where "readFromLayers cf ?k (nullish ropts no_write_options) AllowStale ?u =
      (Inr (Some (hit_at 0 (ly_name (the_layer 0 ?u)) ?e t)), s')" by blast
  from getPrepared_fresh [OF this _ assms(15), of fetcher] fresh
  have "fst (getPrepared cf ?k fetcher (nullish ropts no_write_options) ?u) = Inr (stored_view KValue v)"
    using e(3,4) by (simp add: hit_at_def)
  then show ?thesis
    using set stack_get_prepared [of key ropts ?u cf fetcher] assms(3,6,14) s1(3,4) by (simp add: stored_view_def)
qed

text \<open>
  C1: what was set is read. On a stack of working layers, with write-through and without a bus, setting a
  value with a positive fresh TTL succeeds, and every \<open>get\<close> of the key before that TTL has passed, with or
  without a fetcher, returns the value (\<open>null\<close> for \<open>null\<close> and \<open>undefined\<close>).
\<close>

theorem set_then_get:
  fixes opts :: write_options
  assumes "healthy ct s" "0 < length (sk_layers s)" "\<not> sk_disconnecting s" "\<not> cf_writeBehind cf" "cf_publish cf = None"
    and "clean_name key" "validateWriteOptions (Some opts) = Inr ()" "o_contextOptions opts = None"
    and "fresh_ttl cf (qualifyGenerationKey key (sk_generation s)) 0 WValue opts v s = Some f" "0 < f" "0 \<le> sk_now s"
    and "f + window (resolveLayerMs (ly_name (the_layer 0 s)) (o_staleWhileRevalidate opts) (cf_staleWhileRevalidate cf) None) \<le> ten_years_ms"
    and "f + window (resolveLayerMs (ly_name (the_layer 0 s)) (o_staleIfError opts) (cf_staleIfError cf) None) \<le> ten_years_ms"
    and "validateWriteOptions ropts = Inr ()" "o_slidingTtl (nullish ropts no_write_options) \<noteq> Some True"
    and "sk_now s \<le> t" "t < sk_now s + f" "takes_write ct cf (qualifyGenerationKey key (sk_generation s)) WValue v opts s"
  shows "fst (stack_set cf key v (Some opts) s) = Inr () \<and>
    fst (stack_get cf key fetcher ropts ((snd (stack_set cf key v (Some opts) s))\<lparr>sk_now := t\<rparr>)) = Inr (if is_nullish v then JNull else v)"
  by (rule stack_set_get [OF assms])

lemma demo_fresh_ttl: "fresh_ttl demo_config k 0 WValue no_write_options v demo_stack = Some 1000"
  by (simp add: fresh_ttl_def resolveFreshTtl_def no_write_options_def Let_def the_layer_def demo_layers_def memory_layer_of_def
      new_memory_layer_def resolveLayerMs_def applyAdaptiveTtl_def applyJitter_def)

lemma demo_validate: "validateWriteOptions (Some no_write_options) = Inr ()" "validateWriteOptions None = Inr ()"
  by (simp_all add: validateWriteOptions_def no_write_options_def validateLayerNumberOption_def validateTtlPolicy_def
      validateAdaptiveTtlOptions_def validateCircuitBreakerOptions_def validateRateLimitOptions_def validateTags_def)

lemma demo_windows:
  "resolveLayerMs n (o_staleWhileRevalidate no_write_options) (cf_staleWhileRevalidate demo_config) None = None"
  "resolveLayerMs n (o_staleIfError no_write_options) (cf_staleIfError demo_config) None = None"
  "o_contextOptions no_write_options = None" "o_slidingTtl no_write_options = None" "window None = 0" "1000 \<le> ten_years_ms"
  by (simp_all add: resolveLayerMs_def no_write_options_def demo_config_def configure_def no_options_def window_def ten_years_ms_def)

theorem set_then_get_witness:
  "fst (stack_get demo_config ''k'' None None ((snd (stack_set demo_config ''k'' (JStr ''v'') (Some no_write_options) demo_stack))\<lparr>sk_now := 1999\<rparr>))
     = Inr (JStr ''v'')"
  using set_then_get [OF demo_healthy, of demo_config "''k''" no_write_options "JStr ''v''" 1000 None 1999 None] demo_fresh_ttl
  by (simp add: takes_write_def takes_entry_def clean_name_def qualifyGenerationKey_def generationPrefix_def demo_validate demo_windows control_char_def surrogate_def MAX_CACHE_KEY_LENGTH_def)

subsection \<open>Failing fetchers\<close>

lemma not_isl_cases: "isl (fst p) \<Longrightarrow> \<exists>e s. p = (Inl e, s)"
  by (cases p) (auto simp: isl_def)

lemma scheduled_fetch_fails:
  assumes "\<And>ctx u. isl (fst (cf_fetch cf f ctx u))"
  shows "isl (fst (scheduled_fetch cf key f opts ctx s))"
  using assms by (auto simp: scheduled_fetch_def andthen_def Let_def split: option.splits sum.splits prod.splits)

lemma fetchAndPopulate_fails:
  assumes "\<And>ctx u. isl (fst (cf_fetch cf f ctx u))"
  shows "isl (fst (fetchAndPopulate cf key f opts fence ctx s))"
proof -
  let ?k = "resolveCircuitBreakerKey key (nullish_opt (o_circuitBreaker opts) (cf_circuitBreaker cf))"
  obtain r b where b: "assertClosed (sk_now s) ?k (sk_breakers s) = (r, b)" by fastforce
  obtain e s1 where "scheduled_fetch cf key f opts ctx (count_metric MFetches 1 (s\<lparr>sk_breakers := b\<rparr>)) = (Inl e, s1)"
    using not_isl_cases [OF scheduled_fetch_fails [OF assms]] by blast
  then show ?thesis by (cases r) (simp_all add: fetchAndPopulate_def Let_def b)
qed

text \<open>Under the timer of the stampede guard the layers are read as without it.\<close>

lemma under_timer_duration: "cf_read_duration (under_timer key i d cf) = cf_read_duration cf"
  by (simp add: under_timer_def)

lemma handleLayerFailure_timed [simp]: "handleLayerFailure (under_timer key i d cf) = handleLayerFailure cf"
  by (intro ext) (simp add: handleLayerFailure_def under_timer_def)

lemma readLayerEntry_timed [simp]: "readLayerEntry (under_timer key i d cf) = readLayerEntry cf"
  by (intro ext) (simp add: readLayerEntry_def split: prod.split)

lemma backfill_targets_timed [simp]: "backfill_targets (under_timer key i d cf) stored ttl is s = backfill_targets cf stored ttl is s"
  by (induction "is" arbitrary: s) (simp_all add: Let_def split: prod.split)

lemma backfill_layer_timed [simp]: "backfill_layer (under_timer key i d cf) = backfill_layer cf"
  by (intro ext) (simp add: backfill_layer_def cong: prod.case_cong sum.case_cong)

lemma backfill_timed [simp]: "backfill (under_timer key i d cf) = backfill cf"
  by (intro ext) (simp add: backfill_def split: prod.split)

lemma read_layers_timed: "read_layers (under_timer key i d cf) k opts mode fence is saw s = read_layers cf k opts mode fence is saw s"
  by (induction "is" arbitrary: saw s mode) (simp_all add: Let_def under_timer_duration cong: prod.case_cong sum.case_cong if_cong)

lemma readFromLayers_timed [simp]: "readFromLayers (under_timer key i d cf) = readFromLayers cf"
  by (intro ext) (simp add: readFromLayers_def read_layers_timed)

lemma fetchWithGuards_fails:
  assumes "\<And>ctx u. isl (fst (cf_fetch cf f ctx u))" "\<And>i u. isl (fst (cf_await_task cf i u))"
    and "\<And>g. fst (readFromLayers cf key opts FreshOnly (s\<lparr>sk_guard := g\<rparr>)) = Inr None"
  shows "isl (fst (fetchWithGuards cf key f opts fence ctx s))"
proof -
  have task: "isl (fst (fetch_task cf' key f opts fence ctx (s\<lparr>sk_guard := g\<rparr>)))"
    if fails: "\<And>ctx u. isl (fst (cf_fetch cf' f ctx u))" and reads: "readFromLayers cf' = readFromLayers cf" for g cf'
  proof -
    obtain s1 where "readFromLayers cf' key opts FreshOnly (s\<lparr>sk_guard := g\<rparr>) = (Inr None, s1)"
      using assms(3) [of g] reads by (metis prod.collapse)
    then show ?thesis using fetchAndPopulate_fails [OF fails, of key opts fence ctx s1] by (simp add: fetch_task_def andthen_def)
  qed
  have fails: "isl (fst (cf_fetch (under_timer key i d cf) f c u))" for i d c u
    using assms(1) [of c u] by (cases "cf_fetch cf f c u") (simp add: under_timer_def)
  have timed: "isl (fst (fetch_task (under_timer key i d cf) key f opts fence ctx (s\<lparr>sk_guard := g\<rparr>)))" for i d g
    by (rule task) (rule fails, simp)
  have late: "isl (in_time key d r u)" if "isl r" for d r u using that by (simp add: in_time_def)
  have fetch: "isl r" if "fetch_task (under_timer key i d cf) key f opts fence ctx (s\<lparr>sk_guard := g\<rparr>) = (r, u)" for i d g r u
    using timed [of i d g] that by simp
  have await: "isl r" if "cf_await_task cf i u = (r, w)" for i u r w using assms(2) [of i u] that by simp
  show ?thesis
    using task [OF assms(1), of "sk_guard s"]
    by (auto simp: fetchWithGuards_def split: option.splits prod.splits sum.splits intro!: late intro: fetch await)
qed

lemma guard_frame [simp]:
  "healthy ct (s\<lparr>sk_guard := g\<rparr>) = healthy ct s" "state_of (s\<lparr>sk_guard := g\<rparr>) i = state_of s i"
  by (simp_all add: healthy_def state_of_def)

text \<open>
  C5: a stale value outlives the fetcher. When the fastest layer that has the key holds an entry in its
  stale-if-error window, and no slower layer has the key, a \<open>get\<close> whose fetcher throws (and every running
  fetch it could join fails) does not throw: it returns the stored value.
\<close>

theorem stale_value_survives_failing_fetch:
  assumes "healthy ct s" "i < length (sk_layers s)" "\<forall>j < length (sk_layers s). j \<noteq> i \<longrightarrow> ct_answer ct (sk_now s) (state_of s j) key = JNull"
    and "ct_answer ct (sk_now s) (state_of s i) key = js_of_envelope e" "envelope_ok (sk_now s) e" "freshUntil e \<noteq> None"
    and "rsv_state (resolveStoredValue (sk_now s) (js_of_envelope e) (sk_now s)) = StaleIfError"
    and "\<And>ctx u. isl (fst (cf_fetch cf f ctx u))" "\<And>n u. isl (fst (cf_await_task cf n u))"
    and "takes_copy ct key e (sk_now s)"
  shows "fst (getPrepared cf key (Some f) opts s) = Inr (if env_kind e = KEmpty then JUndef else stored_view (env_kind e) (env_value e))"
proof -
  let ?hit = "hit_at i (ly_name (the_layer i s)) e (sk_now s)"
  obtain s1 where s1: "readFromLayers cf key opts AllowStale s = (Inr (Some ?hit), s1)" "healthy ct s1" "sk_now s1 = sk_now s"
    "length (sk_layers s1) = length (sk_layers s)"
    "\<forall>j < i. \<forall>t. sk_now s \<le> t \<longrightarrow> rsv_state (resolveStoredValue t (js_of_envelope e) t) \<noteq> Expired \<longrightarrow>
       ct_answer ct t (state_of s1 j) key = js_of_envelope e"
    "\<forall>j \<ge> i. \<forall>t k'. sk_now s \<le> t \<longrightarrow> ct_answer ct t (state_of s1 j) k' = ct_answer ct t (state_of s j) k'"
    using readFromLayers_hit [OF assms(1,2) _ assms(4-6), of AllowStale cf opts] assms(2,3,7,10) by (auto simp: takes_copy_def)
  have stale: "rsv_state (resolveStoredValue (sk_now s) (js_of_envelope e) (sk_now s)) \<notin> {Fresh, Expired}" using assms(7) by simp
  have answers: "ct_answer ct (sk_now s) (state_of s1 j) key \<in> {JNull, js_of_envelope e}" if "j < length (sk_layers s)" for j
    using s1(5,6) assms(3,4,7) that by (cases "j < i"; cases "j = i") auto
  let ?u = "\<lambda>m g. s1\<lparr>sk_ttl := recordAccess (sk_now s1) key (sk_ttl s1), sk_metrics := m, sk_guard := g\<rparr>"
  have none: "fst (readFromLayers cf key opts FreshOnly (?u m g)) = Inr None" for m g
    unfolding readFromLayers_def
    using read_layers_no_fresh [of ct "?u m g" key "[0..<length (sk_layers s)]" e] s1(2-4) answers stale assms(10)
    by (simp add: lessThan_atLeast0 takes_copy_def)
  have fails: "\<exists>er w. fetchWithGuards cf key f opts fence ctx (s1\<lparr>sk_ttl := recordAccess (sk_now s1) key (sk_ttl s1), sk_metrics := m\<rparr>) = (Inl er, w)"
    for fence ctx m
    using none [where m = m] by (intro not_isl_cases fetchWithGuards_fails [OF assms(8,9)]) simp
  let ?t = "s1\<lparr>sk_ttl := recordAccess (sk_now s1) key (sk_ttl s1)\<rparr>"
  let ?s3 = "if isNegativeStoredValue (sk_now ?t) (js_of_envelope e) then count_metric MNegativeCacheHits 1 ?t else ?t"
  have "?s3 = s1\<lparr>sk_ttl := recordAccess (sk_now s1) key (sk_ttl s1), sk_metrics := sk_metrics ?s3\<rparr>"
    by (cases "isNegativeStoredValue (sk_now ?t) (js_of_envelope e)") (simp_all add: count_metric_def)
  from arg_cong [where f = "fetchWithGuards cf key f opts (clear_epoch s, key_epoch key s) (createFetcherContext key ?hit)", OF this]
  obtain er w where f: "fetchWithGuards cf key f opts (clear_epoch s, key_epoch key s) (createFetcherContext key ?hit) ?s3 = (Inl er, w)"
    using fails [of "(clear_epoch s, key_epoch key s)" "createFetcherContext key ?hit" "sk_metrics ?s3"] by (elim exE) (erule (1) trans [THEN that])
  have "rh_state ?hit = StaleIfError" "rh_stored ?hit = js_of_envelope e" using assms(7) by (simp_all add: hit_at_def)
  then have "getPrepared cf key (Some f) opts s =
      (Inr (rh_value ?hit), count_metric MRefreshErrors 1 (count_metric MStaleHits 1 w))"
    using f by (simp only: getPrepared_def andthen_def s1(1) Let_def prod.case sum.case option.case catching_def stored_value_state.simps if_False)
  then show ?thesis by (simp add: hit_at_def)
qed

definition demo_stale_entry :: stored_value_envelope where
  "demo_stale_entry = createStoredValueEnvelope KValue (JStr ''v'') (Some 5000) None (Some 10000) 1000"

definition demo_stale :: "memory_layer stack" where
  \<comment> \<open>the fastest layer holds an entry past its fresh TTL\<close>
  "demo_stale = (put_state 0 (ml_set 1000 ''k'' (js_of_envelope demo_stale_entry) (Some 20000) (state_of demo_stack 0)) demo_stack)
     \<lparr>sk_now := 10000\<rparr>"

lemma demo_stale_healthy: "healthy memory_contract demo_stale"
proof -
  have ok: "keeps_new_keys (state_of demo_stack 0)" using demo_healthy by (simp add: healthy_def)
  then have "keeps_new_keys (ml_set 1000 ''k'' (js_of_envelope demo_stale_entry) (Some 20000) (state_of demo_stack 0))"
    using keeps_new_keys_same [OF ok ml_set_ok ml_set_config] by (simp add: keeps_new_keys_def)
  then show ?thesis unfolding demo_stale_def by (simp add: healthy_put [OF demo_healthy])
qed

lemma demo_stale_answers:
  "memory_answer 10000 (state_of demo_stale 0) ''k'' = js_of_envelope demo_stale_entry"
  "memory_answer 10000 (state_of demo_stale 1) ''k'' = JNull"
proof -
  have "keeps_new_keys (state_of demo_stack 0)" using demo_healthy by (simp add: healthy_def)
  from ml_set_keeps_new [OF this, of 1000 "''k''" "js_of_envelope demo_stale_entry" "Some 20000"]
  show "memory_answer 10000 (state_of demo_stale 0) ''k'' = js_of_envelope demo_stale_entry"
    by (simp add: demo_stale_def state_of_put memory_answer_holds expiry_at_def lapsed_def)
  show "memory_answer 10000 (state_of demo_stale 1) ''k'' = JNull"
    using state_of_put [of 0 demo_stack _ 1]
    by (simp add: demo_stale_def memory_answer_holds ml_holds_def)
      (simp add: state_of_def demo_layers_def memory_layer_of_def new_memory_layer_def)
qed

lemma demo_stale_state:
  "envelope_ok 10000 demo_stale_entry" "freshUntil demo_stale_entry = Some 6000" "env_kind demo_stale_entry = KValue"
  "env_value demo_stale_entry = JStr ''v''"
  "rsv_state (resolveStoredValue 10000 (js_of_envelope demo_stale_entry) 10000) = StaleIfError"
proof -
  show ok: "envelope_ok 10000 demo_stale_entry" by (simp add: demo_stale_entry_def create_ok window_def ten_years_ms_def)
  show "freshUntil demo_stale_entry = Some 6000" "env_kind demo_stale_entry = KValue" "env_value demo_stale_entry = JStr ''v''"
    by (simp_all add: demo_stale_entry_def create_deadlines)
  show "rsv_state (resolveStoredValue 10000 (js_of_envelope demo_stale_entry) 10000) = StaleIfError"
    unfolding resolve_js_of_envelope [OF ok] by (simp add: demo_stale_entry_def create_deadlines)
qed

theorem stale_value_survives_failing_fetch_witness:
  "fst (getPrepared demo_config ''k'' (Some 0) no_write_options demo_stale) = Inr (JStr ''v'')"
proof -
  have *: "\<forall>j < 2. j \<noteq> 0 \<longrightarrow> memory_answer 10000 (state_of demo_stale j) ''k'' = JNull"
    using demo_stale_answers(2) by (auto simp: numeral_2_eq_2 less_Suc_eq)
  have "sk_now demo_stale = 10000" "length (sk_layers demo_stale) = 2" by (simp_all add: demo_stale_def)
  then show ?thesis
    using stale_value_survives_failing_fetch [OF demo_stale_healthy, of 0 "''k''" demo_stale_entry demo_config 0 no_write_options]
      * demo_stale_answers(1) demo_stale_state by (simp add: stored_view_def takes_copy_def)
qed

text \<open>
  C3: a fetch overtaken by an invalidation stores nothing. If, while the fetcher of a read-through
  fetch is awaited, the key is invalidated (an epoch bump that names it, or a clear, among any others), the
  fetched value is still returned to the caller, but no layer, tag or epoch changes after the fetcher.
\<close>

theorem overtaken_fetch_stores_nothing:
  assumes "epoch_ok (sk_maint s)"
    and "assertClosed (sk_now s) (resolveCircuitBreakerKey key (nullish_opt (o_circuitBreaker opts) (cf_circuitBreaker cf))) (sk_breakers s) = (Inr (), b)"
    and "scheduled_fetch cf key f opts ctx (count_metric MFetches 1 (s\<lparr>sk_breakers := b\<rparr>)) = (Inr v, u)"
    and "sk_maint u = fold apply_event evs (sk_maint s)" "\<exists>ev \<in> set evs. epoch_hits key ev"
  shows "fst (fetchAndPopulate cf key f opts (clear_epoch s, key_epoch key s) ctx s) \<in> {Inr v, Inr JUndef} \<and>
    (\<not> is_nullish v \<longrightarrow> fst (fetchAndPopulate cf key f opts (clear_epoch s, key_epoch key s) ctx s) = Inr v) \<and>
    (\<exists>b'. snd (fetchAndPopulate cf key f opts (clear_epoch s, key_epoch key s) ctx s) = u\<lparr>sk_breakers := b'\<rparr>)"
proof -
  have "isWriteOutdated key (Some (clear_epoch s)) (Some (key_epoch key s)) (sk_maint u)"
    using fence_detects [OF assms(1,5)] assms(4) by (simp add: clear_epoch_def key_epoch_def)
  then show ?thesis
    using assms(2,3) by (auto simp: fetchAndPopulate_def Let_def store_fetched_def)
qed

definition racing_config :: "memory_layer stack_config" where
  \<comment> \<open>the key is deleted while its fetcher runs\<close>
  "racing_config = demo_config\<lparr>cf_fetch := (\<lambda>_ _ s. (Inr (JStr ''v''), s\<lparr>sk_maint := apply_event (EvBump [''k'']) (sk_maint s)\<rparr>))\<rparr>"

theorem overtaken_fetch_stores_nothing_witness:
  "fst (fetchAndPopulate racing_config ''k'' 0 no_write_options (clear_epoch demo_stack, key_epoch ''k'' demo_stack)
     \<lparr>fc_key = ''k'', fc_currentValue = JUndef, fc_state = FsMiss, fc_layer = None\<rparr> demo_stack) = Inr (JStr ''v'')"
proof -
  let ?u = "(count_metric MFetches 1 (demo_stack\<lparr>sk_breakers := sk_breakers demo_stack\<rparr>))\<lparr>sk_maint := apply_event (EvBump [''k'']) (sk_maint demo_stack)\<rparr>"
  have closed: "assertClosed 1000 k (sk_breakers demo_stack) = (Inr (), sk_breakers demo_stack)" for k
    by (simp add: assertClosed_def demo_stack_def initial_stack_def Let_def)
  have run: "scheduled_fetch racing_config ''k'' 0 no_write_options ctx (count_metric MFetches 1 (demo_stack\<lparr>sk_breakers := sk_breakers demo_stack\<rparr>))
      = (Inr (JStr ''v''), ?u)" for ctx
    by (simp add: scheduled_fetch_def racing_config_def no_write_options_def demo_config_def configure_def no_options_def Let_def)
  show ?thesis
    using overtaken_fetch_stores_nothing [of demo_stack "''k''" no_write_options racing_config "sk_breakers demo_stack" 0 _ "JStr ''v''" ?u "[EvBump [''k'']]"]
      demo_stack_ok closed run by (simp add: stack_ok_def)
qed

subsection \<open>Tags\<close>

lemma collect_limited_distinct:
  "distinct (acc @ xs) \<Longrightarrow> \<not> over_limit m (length acc) \<Longrightarrow>
     (\<not> over_limit m (length acc + length xs) \<longrightarrow> collect_limited m acc xs = Inr (acc @ xs)) \<and>
     (over_limit m (length acc + length xs) \<longrightarrow> collect_limited m acc xs = Inl (InvalidationLimit (Suc (limit_of m)) (limit_of m)))"
proof (induction xs arbitrary: acc)
  case Nil
  then show ?case by simp
next
  case (Cons x xs)
  have x: "js_add x acc = acc @ [x]" using Cons(2) by (simp add: js_add_def)
  show ?case
  proof (cases "over_limit m (length (acc @ [x]))")
    case True
    then show ?thesis using Cons(3) x by (auto simp: over_limit_def limit_of_def assertWithinLimit_def Let_def split: match_limit.splits)
  next
    case False
    then show ?thesis using Cons(1) [of "acc @ [x]"] Cons(2) x by (simp add: assertWithinLimit_def Let_def)
  qed
qed

lemma keys_of_tag:
  assumes "tag_index_ok ix"
  shows "distinct (keysForTag tag ix)" "k \<in> set (keysForTag tag ix) \<longleftrightarrow> tag \<in> set (tagsForKey k ix)"
  using assms by (auto simp: tag_index_ok_def tag_maps_ok_def keysForTag_def tagsForKey_def held_def)

text \<open>
  C6: invalidating a tag is complete, or refused. On a stack of working layers, if the tag has no more
  keys than the invalidation limit, \<open>invalidateByTag\<close> succeeds and afterwards no layer answers any key that
  carried the tag, and the key carries no tag; otherwise it throws the limit error and nothing has changed.
\<close>

theorem invalidate_tag_complete_or_refused:
  assumes "healthy ct s" "stack_ok s" "clean_name tag" "\<not> sk_disconnecting s" "cf_publish cf = None"
    and "tag \<in> set (tagsForKey k (sk_tags s))" "i < length (sk_layers s)" "sk_now s \<le> t"
    and "\<forall>k \<in> set (keysForTag tag (sk_tags s)). ct_key ct k"
  shows "if over_limit (cf_invalidationMaxKeys cf) (length (keysForTag tag (sk_tags s)))
     then invalidateByTag cf tag s = (Inl (InvalidationLimit (Suc (limit_of (cf_invalidationMaxKeys cf))) (limit_of (cf_invalidationMaxKeys cf))), s)
     else fst (invalidateByTag cf tag s) = Inr () \<and> ct_answer ct t (state_of (snd (invalidateByTag cf tag s)) i) k = JNull \<and>
       tagsForKey k (sk_tags (snd (invalidateByTag cf tag s))) = []"
proof -
  let ?keys = "keysForTag tag (sk_tags s)" and ?m = "cf_invalidationMaxKeys cf"
  have ix: "tag_index_ok (sk_tags s)" using assms(2) by (simp add: stack_ok_def)
  note keys = keys_of_tag [OF ix, where tag = tag]
  have collect: "(\<not> over_limit ?m (length ?keys) \<longrightarrow> collectKeysForTag ?m tag s = Inr ?keys) \<and>
      (over_limit ?m (length ?keys) \<longrightarrow> collectKeysForTag ?m tag s = Inl (InvalidationLimit (Suc (limit_of ?m)) (limit_of ?m)))"
    using collect_limited_distinct [of "[]" ?keys ?m] keys(1)
    by (simp add: collectKeysForTag_def over_limit_def split: match_limit.splits)
  have unfold: "invalidateByTag cf tag s = (case collectKeysForTag ?m tag s of Inl e \<Rightarrow> (Inl e, s)
      | Inr ks \<Rightarrow> andthen (deleteKeys cf ks) (\<lambda>_. publishInvalidation cf (inv_message cf ScopeKeys (Some ks) OpInvalidate)) s)"
    using validate_tag_iff [of tag tag] assms(3,4)
    by (simp add: invalidateByTag_def andthen_def lift_result_def assertActive_def collect_tag_def split: sum.splits)
  have k: "k \<in> set ?keys" using keys(2) assms(6) by simp
  then obtain s' where s': "deleteKeys cf ?keys s = (Inr (), s')" "sk_tags s' = fold removeKey ?keys (sk_tags s)"
      "\<forall>i < length (sk_layers s). deleted ct (sk_now s) ?keys (state_of s i) (state_of s' i)"
    using deleteKeys_healthy [OF assms(1) _ assms(9), of cf] by force
  then show ?thesis
    using collect unfold removed_keys_gone [OF k, of "sk_tags s"] k assms(5,7,8) by (simp add: andthen_def publish_none deleted_def)
qed

definition demo_tagged :: "memory_layer stack" where
  "demo_tagged = demo_half\<lparr>sk_tags := index_step (TrackKey ''k'' [''t''] 1000) (sk_tags demo_half)\<rparr>"

theorem invalidate_tag_complete_or_refused_witness:
  "fst (invalidateByTag demo_config ''t'' demo_tagged) = Inr () \<and>
   memory_answer 1000 (state_of (snd (invalidateByTag demo_config ''t'' demo_tagged)) 1) ''k'' = JNull"
proof -
  have ok: "stack_ok demo_half" using demo_stack_ok by (simp add: stack_ok_def demo_half_def)
  have h: "healthy memory_contract demo_tagged" using demo_half_healthy by (simp add: demo_tagged_def)
  have ok2: "stack_ok demo_tagged"
    using ok tag_index_ok_step [of "sk_tags demo_half" "TrackKey ''k'' [''t''] 1000"] by (simp add: stack_ok_def demo_tagged_def)
  have tags: "sk_tags demo_half = new_tag_index None None" by (simp add: demo_half_def demo_stack_def)
  have "tagsForKey ''k'' (sk_tags demo_tagged) = [''t'']" "keysForTag ''t'' (sk_tags demo_tagged) = [''k'']"
    by (simp_all add: demo_tagged_def tags new_tag_index_def tagsForKey_def keysForTag_def track_def add_key_to_tag_def touch_def
        insertKnownKey_def pruneKnownKeysIfNeeded_def js_unique_def js_add_def Let_def)
  then show ?thesis
    using invalidate_tag_complete_or_refused [OF h ok2, of "''t''" demo_config "''k''" 1 1000]
    by (simp add: clean_name_def control_char_def surrogate_def MAX_CACHE_KEY_LENGTH_def over_limit_def demo_tagged_def demo_half_def)
qed

subsection \<open>Degraded layers\<close>

text \<open>
  Graceful degradation. With degradation enabled, a read of a layer never throws: if the
  backend throws, the layer answers \<open>null\<close> and is skipped by every operation exactly until its retry time.
\<close>

theorem failing_layer_is_skipped:
  assumes "resolveRecoverableLayerFailure (cf_gracefulDegradation cf) (sk_now s) = Some u" "\<not> fst (skip_layer i s)"
    and "i < length (sk_layers s)" "fst (call_layer i (\<lambda>api t. read_api api t key) (snd (skip_layer i s))) = Inl e"
  shows "fst (readLayerEntry cf i key s) = Inr JNull \<and>
    (fst (skip_layer i ((snd (readLayerEntry cf i key s))\<lparr>sk_now := t\<rparr>)) \<longleftrightarrow> t < u)"
proof -
  obtain s1 where s1: "skip_layer i s = (False, s1)" "sk_now s1 = sk_now s" "sk_layers s1 = sk_layers s"
    using assms(2) by (auto simp: skip_layer_def Let_def split: if_splits)
  obtain l where l: "call_layer i (\<lambda>api t. read_api api t key) s1 = (Inl e, put_state i l s1)"
    using assms(4) s1(1) by (auto simp: call_layer_put split: prod.splits)
  let ?s2 = "put_state i l s1"
  let ?n = "ly_name (the_layer i s)"
  have n: "ly_name (the_layer i ?s2) = ?n"
    using same_rest_name [OF same_rest_put, of i s1 i l] s1(3) assms(3) by (simp add: the_layer_def)
  have "readLayerEntry cf i key s = (Inr JNull, emit (EvError ''read'') (count_metric MDegradedOperations 1
      (?s2\<lparr>sk_degradedUntil := AList.update ?n u (sk_degradedUntil ?s2)\<rparr>)))"
    using s1(1,2) l n assms(1)
    by (simp add: readLayerEntry_def catching_def andthen_def handleLayerFailure_def ret_def read_api_def)
  then show ?thesis
    using n by (simp add: skip_layer_def shouldSkipLayer_def Let_def the_layer_def jsmap_simps count_metric_def emit_def)
qed

definition broken_api :: "memory_layer layer_api" where
  "broken_api = memory_api\<lparr>la_getEntry := Some (\<lambda>_ _ l. (Inl (BackendError ''down''), l))\<rparr>"

theorem failing_layer_is_skipped_witness:
  "fst (skip_layer 0 ((snd (readLayerEntry (demo_config\<lparr>cf_gracefulDegradation := Some (DegBool True)\<rparr>) 0 ''k''
      (demo_stack\<lparr>sk_layers := [(hd demo_layers)\<lparr>ly_api := broken_api\<rparr>]\<rparr>)))\<lparr>sk_now := 10999\<rparr>))"
  using failing_layer_is_skipped [of "demo_config\<lparr>cf_gracefulDegradation := Some (DegBool True)\<rparr>"
      "demo_stack\<lparr>sk_layers := [(hd demo_layers)\<lparr>ly_api := broken_api\<rparr>]\<rparr>" 11000 0 "''k''" "BackendError ''down''" 10999]
  by (simp add: resolveRecoverableLayerFailure_def skip_layer_def shouldSkipLayer_def Let_def call_layer_def read_api_def broken_api_def the_layer_def)

end
