(* ===== verification/ScanProps.thy ===== *)
theory ScanProps
  imports HealthyScans StackProps
begin

text \<open>
  What \<open>invalidateByPattern\<close> and \<open>invalidateByPrefix\<close> promise on a stack of working layers that list
  their keys: they are exact, or refused.
\<close>

lemma discover_delete_publish:
  \<comment> \<open>discovery, deletion and a publication that nobody listens to\<close>
  assumes "listed ct s" "\<forall>k \<in> set indexed. sel k \<and> ct_key ct k" "cf_publish cf = None"
  shows "case andthen (discover cf opn sel m indexed) (\<lambda>keys. andthen (deleteKeys cf keys) (\<lambda>_. publishInvalidation cf (msg keys))) s of
      (Inl e, s') \<Rightarrow> limit_error m e \<and> same_answers ct s s' | (Inr _, s') \<Rightarrow> selected_gone ct sel s s'"
proof -
  obtain r s' where r: "andthen (discover cf opn sel m indexed) (deleteKeys cf) s = (r, s')" by fastforce
  then have "andthen (discover cf opn sel m indexed) (\<lambda>keys. andthen (deleteKeys cf keys) (\<lambda>_. publishInvalidation cf (msg keys))) s = (r, s')"
    using assms(3) by (auto simp: andthen_def publish_none split: prod.splits sum.splits)
  then show ?thesis using discover_and_delete [OF assms(1,2) r] by (simp split: sum.splits)
qed

text \<open>
  C7: invalidating a pattern is exact, or refused. On a stack of working layers that list their
  keys, after \<open>invalidateByPattern\<close> no layer answers, now or later, any key of the current generation that the
  glob matches, and every other key is answered as before; if it throws, the error is the limit error
  and every layer answers every key as before.
\<close>

theorem invalidate_pattern_exact_or_refused:
  assumes "listed ct s" "stack_ok s" "validatePattern pattern = Inr ()" "\<not> sk_disconnecting s" "cf_publish cf = None"
    and "\<forall>k \<in> known (sk_tags s). ct_key ct k"
  shows "case invalidateByPattern cf pattern s of
      (Inl e, s') \<Rightarrow> limit_error (cf_invalidationMaxKeys cf) e \<and> same_answers ct s s'
    | (Inr _, s') \<Rightarrow> selected_gone ct (glob (qualifyGenerationPattern pattern (sk_generation s))) s s'"
proof -
  let ?q = "qualifyGenerationPattern pattern (sk_generation s)"
  have ix: "tag_index_ok (sk_tags s)" using assms(2) by (simp add: stack_ok_def)
  have sel: "matches ?q = glob ?q" by (rule ext) (rule matches_glob)
  have indexed: "\<forall>k \<in> set (matchPattern ?q (sk_tags s)). glob ?q k \<and> ct_key ct k" using pattern_query [OF ix] assms(6) by auto
  have "invalidateByPattern cf pattern s =
      andthen (discover cf ''invalidate-pattern-scan'' (glob ?q) (cf_invalidationMaxKeys cf) (matchPattern ?q (sk_tags s)))
        (\<lambda>keys. andthen (deleteKeys cf keys) (\<lambda>_. publishInvalidation cf (inv_message cf ScopeKeys (Some keys) OpInvalidate))) s"
    using assms(3,4)
    by (simp add: invalidateByPattern_def andthen_cases lift_result_def assertActive_def qualified_pattern_def collect_as_discover sel)
  then show ?thesis
    using discover_delete_publish [OF assms(1) indexed assms(5), where msg = "\<lambda>keys. inv_message cf ScopeKeys (Some keys) OpInvalidate"]
    by simp
qed

definition unlimited_config :: "memory_layer stack_config" where
  "unlimited_config = demo_config\<lparr>cf_invalidationMaxKeys := NoLimit\<rparr>"

lemma demo_half_listed: "listed memory_contract demo_half"
  unfolding listed_def
proof (intro conjI allI impI demo_half_healthy)
  fix i assume "i < length (sk_layers demo_half)"
  then have "i = 0 \<or> i = 1" by (auto simp: demo_half_def)
  then have "ly_api (sk_layers demo_half ! i) = memory_api" by (auto simp: demo_half_def put_state_def demo_layers_def memory_layer_of_def the_layer_def)
  then show "listed_layer (ly_api (sk_layers demo_half ! i)) memory_contract"
    by (simp add: memory_layer_lists)
qed

theorem invalidate_pattern_exact_or_refused_witness:
  "memory_answer 1000 (state_of demo_half 1) ''k'' \<noteq> JNull \<and>
   memory_answer 1000 (state_of (snd (invalidateByPattern unlimited_config ''?*'' demo_half)) 1) ''k'' = JNull"
proof -
  have "stack_ok demo_half" using demo_stack_ok by (simp add: stack_ok_def demo_half_def)
  then have "case invalidateByPattern unlimited_config ''?*'' demo_half of
      (Inl e, s') \<Rightarrow> limit_error (cf_invalidationMaxKeys unlimited_config) e \<and> same_answers memory_contract demo_half s'
    | (Inr _, s') \<Rightarrow> selected_gone memory_contract (glob (qualifyGenerationPattern ''?*'' (sk_generation demo_half))) demo_half s'"
    by (intro invalidate_pattern_exact_or_refused [OF demo_half_listed])
      (simp_all add: validatePattern_def control_char_def MAX_PATTERN_LENGTH_def demo_half_def unlimited_config_def)
  moreover have "limit_error (cf_invalidationMaxKeys unlimited_config) e = False" for e
    by (simp add: limit_error_def unlimited_config_def)
  moreover have "glob (qualifyGenerationPattern ''?*'' (sk_generation demo_half)) ''k''" "sk_now demo_half = 1000" "length (sk_layers demo_half) = 2"
    by (simp_all add: demo_half_def qualifyGenerationPattern_def qualifyGenerationKey_def generationPrefix_def)
  ultimately show ?thesis
    using demo_half_answers(2) by (auto simp: selected_gone_def js_of_envelope_def split: prod.splits sum.splits)
qed

end
