(* ===== verification/NamespaceProps.thy ===== *)
theory NamespaceProps
  imports Namespace ScanProps
begin

text \<open>
  What a namespace promises: clearing it removes exactly its own keys, and a wildcard invalidation
  stays inside it unless its own prefix holds wildcards.
\<close>

lemma prefix_lists: "starts_with key pre \<longleftrightarrow> (\<exists>r. key = pre @ r)"
  by (auto simp: starts_with_def) (metis append_take_drop_id)

lemma invalidate_prefix_exact:
  assumes "listed ct s" "stack_ok s" "clean_name pre" "\<not> sk_disconnecting s" "cf_publish cf = None"
    and "\<forall>k \<in> known (sk_tags s). ct_key ct k"
  shows "case invalidateByPrefix cf pre s of
      (Inl e, s') \<Rightarrow> limit_error (cf_invalidationMaxKeys cf) e \<and> same_answers ct s s'
    | (Inr _, s') \<Rightarrow> selected_gone ct (\<lambda>k. starts_with k (qualifyGenerationKey pre (sk_generation s))) s s'"
proof -
  let ?q = "qualifyGenerationKey pre (sk_generation s)"
  have ix: "tag_index_ok (sk_tags s)" using assms(2) by (simp add: stack_ok_def)
  have indexed: "\<forall>k \<in> set (keysForPrefix ?q (sk_tags s)). starts_with k ?q \<and> ct_key ct k" using prefix_query [OF ix] prefix_lists assms(6) by blast
  have "validateCacheKey pre = Inr pre" using validate_key_iff assms(3) by blast
  then have "invalidateByPrefix cf pre s =
      andthen (discover cf ''invalidate-prefix-scan'' (\<lambda>k. starts_with k ?q) (cf_invalidationMaxKeys cf) (keysForPrefix ?q (sk_tags s)))
        (\<lambda>keys. andthen (deleteKeys cf keys) (\<lambda>_. publishInvalidation cf (inv_message cf ScopeKeys (Some keys) OpInvalidate))) s"
    using assms(4)
    by (simp add: invalidateByPrefix_def andthen_cases assertActive_def qualify_user_key_def collect_as_discover)
  then show ?thesis
    using discover_delete_publish [OF assms(1) indexed assms(5), where msg = "\<lambda>keys. inv_message cf ScopeKeys (Some keys) OpInvalidate"]
    by simp
qed

subsection \<open>Tracking does not touch the layers\<close>

lemma state_of_metrics [simp]: "state_of (s\<lparr>sk_metrics := c\<rparr>) i = state_of s i"
  by (simp add: state_of_def)

lemma listed_metrics [simp]: "listed ct (s\<lparr>sk_metrics := c\<rparr>) = listed ct s"
  by (simp add: listed_def)

lemma scoped_stack:
  \<comment> \<open>result and stack of a scoped operation: those of the operation, up to the collector's captures\<close>
  "\<exists>c c' m. scoped operation (ns, s) =
     (let (r, s1) = operation ns (s\<lparr>sk_metrics := c\<rparr>) in (r, (ns\<lparr>ns_metrics := m\<rparr>, s1\<lparr>sk_metrics := c'\<rparr>)))"
proof -
  let ?c = "(sk_metrics s)\<lparr>mc_captures := mc_captures (sk_metrics s) @ [empty_metrics (sk_now s)]\<rparr>"
  obtain r s1 where o: "operation ns (s\<lparr>sk_metrics := ?c\<rparr>) = (r, s1)" by fastforce
  show ?thesis
    by (rule exI [of _ ?c], intro exI) (simp add: scoped_def trackMetrics_def captureMetrics_def capture_def Let_def o)
qed

lemma same_answers_metrics [simp]:
  "same_answers ct (s\<lparr>sk_metrics := c\<rparr>) (s'\<lparr>sk_metrics := c'\<rparr>) = same_answers ct s s'"
  "same_answers ct (s\<lparr>sk_metrics := c\<rparr>) s' = same_answers ct s s'"
  "same_answers ct s (s'\<lparr>sk_metrics := c'\<rparr>) = same_answers ct s s'"
  by (simp_all add: same_answers_def)

lemma selected_gone_metrics [simp]:
  "selected_gone ct sel (s\<lparr>sk_metrics := c\<rparr>) s' = selected_gone ct sel s s'"
  "selected_gone ct sel s (s'\<lparr>sk_metrics := c'\<rparr>) = selected_gone ct sel s s'"
  by (simp_all add: selected_gone_def)

lemma namespace_clean:
  assumes "validateNamespaceKey pre = Inr ()"
  shows "clean_name (pre @ '':'')"
  using assms by (auto simp: validateNamespaceKey_def clean_name_def MAX_NAMESPACE_LENGTH_def MAX_CACHE_KEY_LENGTH_def
      control_char_def surrogate_def list_ex_iff split: if_splits)

text \<open>
  C8: clearing a namespace is exact, or refused. On a stack of working layers that list their keys,
  \<open>clear\<close> of a namespace leaves no layer that answers, now or later, a key of the namespace in the
  current generation; every other key, those of other namespaces and generations included, is answered as
  before. If it throws, the error is the limit error and every layer answers every key as before.
\<close>

theorem namespace_clear_exact_or_refused:
  assumes "listed ct s" "stack_ok s" "validateNamespaceKey (ns_prefix ns) = Inr ()" "\<not> sk_disconnecting s"
    and "cf_publish cf = None" "\<forall>k \<in> known (sk_tags s). ct_key ct k"
  shows "case ns_clear cf (ns, s) of
      (Inl e, w) \<Rightarrow> limit_error (cf_invalidationMaxKeys cf) e \<and> same_answers ct s (snd w)
    | (Inr _, w) \<Rightarrow> selected_gone ct (\<lambda>k. \<exists>key. k = qualifyGenerationKey (qualify ns key) (sk_generation s)) s (snd w)"
proof -
  obtain c c' m where sc: "ns_clear cf (ns, s) =
     (let (r, s1) = invalidateByPrefix cf (namespaceKeyPrefix ns) (s\<lparr>sk_metrics := c\<rparr>) in (r, (ns\<lparr>ns_metrics := m\<rparr>, s1\<lparr>sk_metrics := c'\<rparr>)))"
    using scoped_stack [of "\<lambda>ns. invalidateByPrefix cf (namespaceKeyPrefix ns)" ns s] by (auto simp: ns_clear_def)
  have "stack_ok (s\<lparr>sk_metrics := c\<rparr>)" using assms(2) by (simp add: stack_ok_def)
  then have inv: "case invalidateByPrefix cf (namespaceKeyPrefix ns) (s\<lparr>sk_metrics := c\<rparr>) of
      (Inl e, s') \<Rightarrow> limit_error (cf_invalidationMaxKeys cf) e \<and> same_answers ct s s'
    | (Inr _, s') \<Rightarrow> selected_gone ct (\<lambda>k. starts_with k (qualifyGenerationKey (namespaceKeyPrefix ns) (sk_generation s))) s s'"
    using invalidate_prefix_exact [of ct "s\<lparr>sk_metrics := c\<rparr>" "namespaceKeyPrefix ns" cf] assms(1,4,5,6)
      namespace_clean [OF assms(3)] by (auto simp: namespaceKeyPrefix_def split: prod.splits sum.splits)
  have "starts_with k (qualifyGenerationKey (namespaceKeyPrefix ns) g) \<longleftrightarrow> (\<exists>key. k = qualifyGenerationKey (qualify ns key) g)" for k g
    by (auto simp: prefix_lists qualifyGenerationKey_def namespaceKeyPrefix_def qualify_def Let_def)
  then show ?thesis using inv by (simp add: sc Let_def split: prod.splits sum.splits)
qed

definition demo_namespace :: namespace where
  "demo_namespace = \<lparr>ns_prefix = ''t'', ns_metrics = empty_metrics 0\<rparr>"

definition demo_scoped_stack :: "memory_layer stack" where
  \<comment> \<open>one key inside the namespace, in the slower layer\<close>
  "demo_scoped_stack = put_state 1 (ml_set 1000 ''t:k'' (JStr ''v'') None (state_of demo_stack 1)) demo_stack"

lemma demo_scoped_listed: "listed memory_contract demo_scoped_stack"
  unfolding listed_def
proof (intro conjI allI impI)
  have ok: "keeps_new_keys (state_of demo_stack 1)" using demo_healthy by (simp add: healthy_def)
  then have "keeps_new_keys (ml_set 1000 ''t:k'' (JStr ''v'') None (state_of demo_stack 1))"
    using keeps_new_keys_same [OF ok ml_set_ok ml_set_config] by (simp add: keeps_new_keys_def)
  then show "healthy memory_contract demo_scoped_stack"
    unfolding demo_scoped_stack_def by (intro healthy_put [OF demo_healthy]) simp_all
  fix i assume "i < length (sk_layers demo_scoped_stack)"
  then have "i = 0 \<or> i = 1" by (auto simp: demo_scoped_stack_def)
  then have "ly_api (sk_layers demo_scoped_stack ! i) = memory_api"
    by (auto simp: demo_scoped_stack_def put_state_def demo_layers_def memory_layer_of_def the_layer_def)
  then show "listed_layer (ly_api (sk_layers demo_scoped_stack ! i)) memory_contract"
    by (simp add: memory_layer_lists)
qed

lemma demo_scoped_answer: "memory_answer 1000 (state_of demo_scoped_stack 1) ''t:k'' = JStr ''v''"
proof -
  have "keeps_new_keys (state_of demo_stack 1)" using demo_healthy by (simp add: healthy_def)
  from ml_set_keeps_new [OF this, of 1000 "''t:k''" "JStr ''v''" None] show ?thesis
    by (simp add: demo_scoped_stack_def state_of_put memory_answer_holds expiry_at_def lapsed_def)
      (simp add: state_of_def demo_layers_def memory_layer_of_def new_memory_layer_def)
qed

theorem namespace_clear_exact_or_refused_witness:
  "memory_answer 1000 (state_of demo_scoped_stack 1) ''t:k'' = JStr ''v'' \<and>
   memory_answer 1000 (state_of (snd (snd (ns_clear unlimited_config (demo_namespace, demo_scoped_stack)))) 1) ''t:k'' = JNull"
proof -
  have "stack_ok demo_scoped_stack" using demo_stack_ok by (simp add: stack_ok_def demo_scoped_stack_def)
  then have "case ns_clear unlimited_config (demo_namespace, demo_scoped_stack) of
      (Inl e, w) \<Rightarrow> limit_error (cf_invalidationMaxKeys unlimited_config) e \<and> same_answers memory_contract demo_scoped_stack (snd w)
    | (Inr _, w) \<Rightarrow> selected_gone memory_contract
        (\<lambda>k. \<exists>key. k = qualifyGenerationKey (qualify demo_namespace key) (sk_generation demo_scoped_stack)) demo_scoped_stack (snd w)"
    by (intro namespace_clear_exact_or_refused [OF demo_scoped_listed])
      (simp_all add: validateNamespaceKey_def control_char_def surrogate_def MAX_NAMESPACE_LENGTH_def demo_namespace_def
        demo_scoped_stack_def unlimited_config_def)
  moreover have "limit_error (cf_invalidationMaxKeys unlimited_config) e = False" for e
    by (simp add: limit_error_def unlimited_config_def)
  moreover have "\<exists>key. ''t:k'' = qualifyGenerationKey (qualify demo_namespace key) (sk_generation demo_scoped_stack)"
    by (rule exI [of _ "''k''"]) (simp add: qualifyGenerationKey_def generationPrefix_def qualify_def demo_namespace_def demo_scoped_stack_def)
  moreover have "sk_now demo_scoped_stack = 1000" "length (sk_layers demo_scoped_stack) = 2" by (simp_all add: demo_scoped_stack_def)
  ultimately show ?thesis
    using demo_scoped_answer by (auto simp: selected_gone_def split: prod.splits sum.splits)
qed

end
