(* ===== verification/Sanitizer.thy ===== *)
theory Sanitizer
  imports KeySerialization
begin

text \<open>
  The sanitizer of decoded data (\<open>src/src/internal/StructuredDataSanitizer.ts\<close>): it rebuilds a value
  without the keys that could reach a prototype and bounds its depth and its number of nodes. The node
  counter the code shares through all calls is threaded; an error ends the traversal.
\<close>

record sanitize_options =
  sz_maxDepth :: nat
  sz_maxNodes :: nat
  sz_label :: string

definition DANGEROUS_KEYS :: "string list" where
  "DANGEROUS_KEYS = [''__proto__'', ''prototype'', ''constructor'']"

definition admit_node :: "sanitize_options \<Rightarrow> nat \<Rightarrow> nat \<Rightarrow> nat result" where
  \<comment> \<open>the two checks on entry, with the counter they leave\<close>
  "admit_node opts depth count =
    (if count + 1 > sz_maxNodes opts then Inl (TooManyNodes (sz_label opts) (sz_maxNodes opts))
     else if depth > sz_maxDepth opts then Inl (TooDeep (sz_label opts) (sz_maxDepth opts))
     else Inr (count + 1))"

fun sanitizeValue :: "sanitize_options \<Rightarrow> nat \<Rightarrow> js \<Rightarrow> nat \<Rightarrow> (js \<times> nat) result"
  and sanitize_entries :: "sanitize_options \<Rightarrow> nat \<Rightarrow> js list \<Rightarrow> nat \<Rightarrow> (js list \<times> nat) result"
  and sanitize_members :: "sanitize_options \<Rightarrow> nat \<Rightarrow> (string \<times> js) list \<Rightarrow> nat \<Rightarrow> ((string \<times> js) list \<times> nat) result" where
  "sanitizeValue opts depth (JArr xs) count =
    bind_result (admit_node opts depth count) (\<lambda>c. map_sum id (\<lambda>(ys, c'). (JArr ys, c')) (sanitize_entries opts (depth + 1) xs c))"
| "sanitizeValue opts depth (JObj ps) count =
    bind_result (admit_node opts depth count) (\<lambda>c. map_sum id (\<lambda>(qs, c'). (JObj qs, c')) (sanitize_members opts (depth + 1) ps c))"
| "sanitizeValue opts depth JUndef count = bind_result (admit_node opts depth count) (\<lambda>c. Inr (JUndef, c))"
| "sanitizeValue opts depth JNull count = bind_result (admit_node opts depth count) (\<lambda>c. Inr (JNull, c))"
| "sanitizeValue opts depth (JBool b) count = bind_result (admit_node opts depth count) (\<lambda>c. Inr (JBool b, c))"
| "sanitizeValue opts depth (JNum n) count = bind_result (admit_node opts depth count) (\<lambda>c. Inr (JNum n, c))"
| "sanitizeValue opts depth (JStr s) count = bind_result (admit_node opts depth count) (\<lambda>c. Inr (JStr s, c))"
| "sanitize_entries opts depth [] count = Inr ([], count)"
| "sanitize_entries opts depth (x # xs) count =
    bind_result (sanitizeValue opts depth x count) (\<lambda>(y, c). bind_result (sanitize_entries opts depth xs c) (\<lambda>(ys, c'). Inr (y # ys, c')))"
| "sanitize_members opts depth [] count = Inr ([], count)"
| "sanitize_members opts depth ((k, x) # ps) count =
    (if k \<in> set DANGEROUS_KEYS then sanitize_members opts depth ps count
     else bind_result (sanitizeValue opts depth x count) (\<lambda>(y, c).
            bind_result (sanitize_members opts depth ps c) (\<lambda>(qs, c'). Inr ((k, y) # qs, c'))))"

definition sanitizeStructuredData :: "sanitize_options \<Rightarrow> js \<Rightarrow> js result" where
  "sanitizeStructuredData opts v = map_sum id fst (sanitizeValue opts 0 v 0)"

subsection \<open>What the sanitizer computes\<close>

fun strip :: "js \<Rightarrow> js" where
  \<comment> \<open>the value without dangerous keys\<close>
  "strip (JArr xs) = JArr (map strip xs)"
| "strip (JObj ps) = JObj (map (map_prod id strip) (filter (\<lambda>p. fst p \<notin> set DANGEROUS_KEYS) ps))"
| "strip v = v"

fun nodes :: "js \<Rightarrow> nat" where
  "nodes (JArr xs) = Suc (sum_list (map nodes xs))"
| "nodes (JObj ps) = Suc (sum_list (map (\<lambda>p. nodes (snd p)) ps))"
| "nodes v = 1"

fun height :: "js \<Rightarrow> nat" where
  \<comment> \<open>the depth of the deepest node below the root\<close>
  "height (JArr xs) = (if xs = [] then 0 else Suc (Max (set (map height xs))))"
| "height (JObj ps) = (if ps = [] then 0 else Suc (Max (set (map (\<lambda>p. height (snd p)) ps))))"
| "height v = 0"

fun safe :: "js \<Rightarrow> bool" where
  "safe (JArr xs) = list_all safe xs"
| "safe (JObj ps) = list_all (\<lambda>p. fst p \<notin> set DANGEROUS_KEYS \<and> safe (snd p)) ps"
| "safe v = True"

lemma safe_strip: "safe (strip v)"
  by (induction v) (auto simp: list_all_iff)

lemma strip_safe: "safe v \<Longrightarrow> strip v = v"
proof (induction v)
  case (JArr xs)
  then show ?case by (auto simp: list_all_iff intro: map_idI)
next
  case (JObj ps)
  then have "\<forall>p \<in> set ps. fst p \<notin> set DANGEROUS_KEYS \<and> strip (snd p) = snd p" by (fastforce simp: list_all_iff)
  then show ?case by (auto simp: prod_eq_iff intro!: map_idI)
qed simp_all

lemma nodes_pos: "0 < nodes v"
  by (cases v) simp_all

text \<open>A traversal succeeds exactly when its nodes fit in the budget and none lies too deep.\<close>

definition fits :: "sanitize_options \<Rightarrow> nat \<Rightarrow> js \<Rightarrow> nat \<Rightarrow> bool" where
  "fits opts depth v count \<longleftrightarrow> count + nodes v \<le> sz_maxNodes opts \<and> depth + height v \<le> sz_maxDepth opts"

lemma height_array: "d + height (JArr xs) \<le> m \<longleftrightarrow> d \<le> m \<and> (\<forall>x \<in> set xs. Suc d + height x \<le> m)"
proof (cases "xs = []")
  case False
  then have "Max (set (map height xs)) \<in> height ` set xs" "\<forall>x \<in> set xs. height x \<le> Max (set (map height xs))"
    using Max_in [of "set (map height xs)"] by auto
  then show ?thesis using False by fastforce
qed simp

lemma height_object: "d + height (JObj ps) \<le> m \<longleftrightarrow> d \<le> m \<and> (\<forall>p \<in> set ps. Suc d + height (snd p) \<le> m)"
  using height_array [of d "map snd ps" m] by (cases ps) (simp_all add: comp_def image_image)

lemma admit_node_ok: "count + 1 \<le> sz_maxNodes opts \<Longrightarrow> depth \<le> sz_maxDepth opts \<Longrightarrow> admit_node opts depth count = Inr (count + 1)"
  by (simp add: admit_node_def)

lemma admit_node_refuses: "\<not> (count + 1 \<le> sz_maxNodes opts \<and> depth \<le> sz_maxDepth opts) \<Longrightarrow> isl (admit_node opts depth count)"
  by (auto simp: admit_node_def)

lemma isl_bind: "isl r \<Longrightarrow> isl (bind_result r f)"
  by (cases r) simp_all

lemma isl_map: "isl (map_sum f g r) = isl r"
  by (cases r) simp_all

definition exact :: "sanitize_options \<Rightarrow> js \<Rightarrow> bool" where
  "exact opts v \<longleftrightarrow> (\<forall>depth count.
     (fits opts depth (strip v) count \<longrightarrow> sanitizeValue opts depth v count = Inr (strip v, count + nodes (strip v))) \<and>
     (\<not> fits opts depth (strip v) count \<longrightarrow> isl (sanitizeValue opts depth v count)))"

lemma exact_entries:
  assumes "\<forall>x \<in> set xs. exact opts x" "count \<le> sz_maxNodes opts"
  shows "if count + sum_list (map nodes (map strip xs)) \<le> sz_maxNodes opts \<and> (\<forall>x \<in> set xs. depth + height (strip x) \<le> sz_maxDepth opts)
    then sanitize_entries opts depth xs count = Inr (map strip xs, count + sum_list (map nodes (map strip xs)))
    else isl (sanitize_entries opts depth xs count)"
  using assms
proof (induction xs arbitrary: count)
  case (Cons x xs)
  show ?case
  proof (cases "fits opts depth (strip x) count")
    case True
    then have v: "sanitizeValue opts depth x count = Inr (strip x, count + nodes (strip x))" "count + nodes (strip x) \<le> sz_maxNodes opts"
      using Cons.prems(1) by (simp_all add: exact_def fits_def)
    then show ?thesis using Cons.IH [of "count + nodes (strip x)"] Cons.prems(1) True
      by (auto simp: fits_def add.assoc intro: isl_bind split: if_splits)
  next
    case False
    then have "isl (sanitizeValue opts depth x count)" using Cons.prems(1) by (simp add: exact_def)
    then show ?thesis using False by (auto simp: fits_def isl_bind)
  qed
qed simp

definition kept :: "(string \<times> js) list \<Rightarrow> (string \<times> js) list" where
  "kept ps = map (map_prod id strip) (filter (\<lambda>p. fst p \<notin> set DANGEROUS_KEYS) ps)"

lemma strip_object: "strip (JObj ps) = JObj (kept ps)"
  by (simp add: kept_def)

lemma exact_members:
  assumes "\<forall>p \<in> set ps. exact opts (snd p)" "count \<le> sz_maxNodes opts"
  shows "if count + sum_list (map (\<lambda>p. nodes (snd p)) (kept ps)) \<le> sz_maxNodes opts \<and> (\<forall>p \<in> set (kept ps). depth + height (snd p) \<le> sz_maxDepth opts)
    then sanitize_members opts depth ps count = Inr (kept ps, count + sum_list (map (\<lambda>p. nodes (snd p)) (kept ps)))
    else isl (sanitize_members opts depth ps count)"
  using assms
proof (induction ps arbitrary: count)
  case (Cons p ps)
  obtain k x where p: "p = (k, x)" by fastforce
  show ?case
  proof (cases "k \<in> set DANGEROUS_KEYS")
    case True
    then show ?thesis using Cons.IH [OF _ Cons.prems(2)] Cons.prems(1) by (simp add: p kept_def)
  next
    case safe: False
    show ?thesis
    proof (cases "fits opts depth (strip x) count")
      case True
      then have v: "sanitizeValue opts depth x count = Inr (strip x, count + nodes (strip x))" "count + nodes (strip x) \<le> sz_maxNodes opts"
        using Cons.prems(1) p by (simp_all add: exact_def fits_def)
      then show ?thesis using Cons.IH [of "count + nodes (strip x)"] Cons.prems(1) True safe
        by (auto simp: p kept_def fits_def add.assoc intro: isl_bind split: if_splits)
    next
      case False
      then have "isl (sanitizeValue opts depth x count)" using Cons.prems(1) p by (simp add: exact_def)
      then show ?thesis using False safe by (auto simp: p kept_def fits_def isl_bind)
    qed
  qed
qed (simp add: kept_def)

lemma sanitize_exact: "exact opts v"
proof (induction v)
  case (JArr xs)
  then have xs: "\<forall>x \<in> set xs. exact opts x" by blast
  show ?case unfolding exact_def
  proof (intro allI)
    fix depth count
    show "(fits opts depth (strip (JArr xs)) count \<longrightarrow>
        sanitizeValue opts depth (JArr xs) count = Inr (strip (JArr xs), count + nodes (strip (JArr xs)))) \<and>
      (\<not> fits opts depth (strip (JArr xs)) count \<longrightarrow> isl (sanitizeValue opts depth (JArr xs) count))"
    proof (cases "count + 1 \<le> sz_maxNodes opts \<and> depth \<le> sz_maxDepth opts")
      case True
      then show ?thesis using exact_entries [OF xs, of "count + 1" "depth + 1"]
        by (auto simp: isl_map admit_node_ok fits_def height_array simp del: height.simps split: if_splits sum.splits)
    next
      case False
      then show ?thesis by (auto simp: fits_def height_array admit_node_refuses isl_bind simp del: height.simps)
    qed
  qed
next
  case (JObj ps)
  then have ps: "\<forall>p \<in> set ps. exact opts (snd p)" by (metis prod.collapse snds.intros)
  show ?case unfolding exact_def
  proof (intro allI)
    fix depth count
    show "(fits opts depth (strip (JObj ps)) count \<longrightarrow>
        sanitizeValue opts depth (JObj ps) count = Inr (strip (JObj ps), count + nodes (strip (JObj ps)))) \<and>
      (\<not> fits opts depth (strip (JObj ps)) count \<longrightarrow> isl (sanitizeValue opts depth (JObj ps) count))"
    proof (cases "count + 1 \<le> sz_maxNodes opts \<and> depth \<le> sz_maxDepth opts")
      case True
      then show ?thesis using exact_members [OF ps, of "count + 1" "depth + 1"]
        by (auto simp: isl_map strip_object admit_node_ok fits_def height_object simp del: height.simps strip.simps split: if_splits sum.splits)
    next
      case False
      then show ?thesis by (auto simp: strip_object fits_def height_object admit_node_refuses isl_bind simp del: height.simps strip.simps)
    qed
  qed
qed (auto simp: exact_def fits_def admit_node_def)

lemma sanitized_iff:
  "sanitizeStructuredData opts v = Inr v' \<longleftrightarrow> v' = strip v \<and> nodes (strip v) \<le> sz_maxNodes opts \<and> height (strip v) \<le> sz_maxDepth opts"
proof -
  have "sanitizeStructuredData opts v = Inr v' \<longleftrightarrow> v' = strip v \<and> fits opts 0 (strip v) 0"
  proof (cases "fits opts 0 (strip v) 0")
    case True
    then have "sanitizeValue opts 0 v 0 = Inr (strip v, nodes (strip v))" using sanitize_exact [of opts v] by (simp add: exact_def)
    then show ?thesis using True by (auto simp: sanitizeStructuredData_def)
  next
    case False
    then have "isl (sanitizeValue opts 0 v 0)" using sanitize_exact [of opts v] by (simp add: exact_def)
    then show ?thesis using False by (auto simp: sanitizeStructuredData_def isl_def)
  qed
  then show ?thesis by (auto simp: fits_def)
qed


text \<open>
  C13: sanitized data is safe and exact. The sanitizer returns a value exactly when the value without
  its dangerous keys has at most the allowed nodes and depth; it is then that value, so no object in it, at
  any depth, has a key \<open>__proto__\<close>, \<open>prototype\<close> or \<open>constructor\<close>, and a value without such keys comes back
  unchanged.
\<close>

theorem sanitized_data_is_safe:
  "(sanitizeStructuredData opts v = Inr v' \<longleftrightarrow>
      v' = strip v \<and> nodes (strip v) \<le> sz_maxNodes opts \<and> height (strip v) \<le> sz_maxDepth opts) \<and>
   safe (strip v) \<and> (safe v \<longleftrightarrow> strip v = v)"
  using sanitized_iff [of opts v v'] safe_strip [of v] strip_safe [of v] by auto

end
