(* ===== verification/KeyInjectivity.thy ===== *)
theory KeyInjectivity
  imports KeySerialization
begin

text \<open>
  The keys of wrapped functions tell their arguments apart: JSON text and the parts of a key can be
  read back from the front, whatever follows them.
\<close>

lemma json_visible_lists:
  "json ft (visible v) = json ft v"
  "json_elements ft b (map visible xs) = json_elements ft b xs"
  "json_members ft b (map (map_prod id visible) (filter (\<lambda>p. snd p \<noteq> JUndef) ps)) = json_members ft b ps"
proof (induction ft v and ft b xs and ft b ps rule: json_json_elements_json_members.induct)
  case (11 ft b k v ps)
  have "visible v \<noteq> JUndef" by (cases v) (auto split: jsnum.splits)
  then show ?case using 11 by simp
qed (auto simp: id_def split: jsnum.splits)

definition starts :: "js \<Rightarrow> char \<Rightarrow> bool" where
  "starts v c = (case v of
      JUndef \<Rightarrow> c = CHR ''n'' | JNull \<Rightarrow> c = CHR ''n'' | JBool b \<Rightarrow> c = (if b then CHR ''t'' else CHR ''f'')
    | JNum n \<Rightarrow> is_digit c \<or> c = CHR ''-'' | JStr _ \<Rightarrow> c = CHR 0x22 | JArr _ \<Rightarrow> c = CHR ''['' | JObj _ \<Rightarrow> c = CHR ''{'')"

lemma json_starts: "whole_js v \<Longrightarrow> \<exists>c cs. json ft v = c # cs \<and> starts v c"
proof (cases v)
  case (JNum n)
  assume "whole_js v"
  then show ?thesis using JNum int_text_hd by (auto simp: starts_def split: jsnum.splits)
qed (auto simp: starts_def json_string_def)

lemma starts_not_close: "starts v c \<Longrightarrow> c \<notin> {CHR '','', CHR '']'', CHR ''}''}"
  by (auto simp: starts_def split: js.splits if_splits)

definition cut :: "(real \<Rightarrow> string) \<Rightarrow> js \<Rightarrow> bool" where
  "cut ft v \<longleftrightarrow> (\<forall>w r r'. whole_js w \<longrightarrow> ends r \<longrightarrow> ends r' \<longrightarrow> json ft v @ r = json ft w @ r' \<longrightarrow> v = w \<and> r = r')"

lemma cutD: "cut ft v \<Longrightarrow> whole_js w \<Longrightarrow> ends r \<Longrightarrow> ends r' \<Longrightarrow> json ft v @ r = json ft w @ r' \<Longrightarrow> v = w \<and> r = r'"
  by (simp add: cut_def)

lemma ends_elements: "ends (json_elements ft False xs @ CHR '']'' # r)"
  by (cases xs) (simp_all add: ends_def)

lemma elements_cut:
  assumes "\<forall>x \<in> set xs. whole_js x \<and> cut ft x" "list_all whole_js ys"
    "json_elements ft b xs @ CHR '']'' # r = json_elements ft b ys @ CHR '']'' # r'"
  shows "xs = ys \<and> r = r'"
  using assms
proof (induction xs arbitrary: ys b)
  case Nil
  show ?case
  proof (cases ys)
    case Nil
    then show ?thesis using Nil.prems by simp
  next
    case (Cons y ys')
    then obtain c cs where "json ft y = c # cs" "starts y c" using json_starts Nil.prems(2) by fastforce
    then show ?thesis using Nil.prems(3) Cons starts_not_close [of y c] by (auto split: if_splits)
  qed
next
  case (Cons x xs)
  obtain c cs where c: "json ft x = c # cs" "starts x c" using json_starts Cons.prems(1) by fastforce
  show ?case
  proof (cases ys)
    case Nil
    then show ?thesis using Cons.prems(3) c starts_not_close [of x c] by (auto split: if_splits)
  next
    case (Cons y ys')
    then have "json ft x @ json_elements ft False xs @ CHR '']'' # r = json ft y @ json_elements ft False ys' @ CHR '']'' # r'"
      using Cons.prems(3) by (simp split: if_splits)
    then have "x = y \<and> json_elements ft False xs @ CHR '']'' # r = json_elements ft False ys' @ CHR '']'' # r'"
      using cutD [of ft x y] Cons.prems(1,2) Cons ends_elements by (metis list.set_intros(1) list.pred_inject(2))
    then show ?thesis using Cons.IH [of ys' False] Cons.prems(1,2) Cons by simp
  qed
qed

lemma ends_members: "\<forall>p \<in> set ps. snd p \<noteq> JUndef \<Longrightarrow> ends (json_members ft False ps @ CHR ''}'' # r)"
  by (cases ps) (auto simp: ends_def)

lemma members_cut:
  assumes "\<forall>p \<in> set ps. whole_js (snd p) \<and> cut ft (snd p)" "list_all (\<lambda>p. whole_js (snd p)) qs"
    "json_members ft b ps @ CHR ''}'' # r = json_members ft b qs @ CHR ''}'' # r'"
  shows "ps = qs \<and> r = r'"
  using assms
proof (induction ps arbitrary: qs b)
  case Nil
  show ?case
  proof (cases qs)
    case Nil
    then show ?thesis using Nil.prems by simp
  next
    case (Cons q qs')
    then have "snd q \<noteq> JUndef" using Nil.prems(2) by auto
    then show ?thesis using Nil.prems(3) Cons by (cases q) (auto simp: json_string_def split: if_splits)
  qed
next
  case (Cons p ps)
  have p: "snd p \<noteq> JUndef" using Cons.prems(1) by auto
  show ?case
  proof (cases qs)
    case Nil
    then show ?thesis using Cons.prems(3) p by (cases p) (auto simp: json_string_def split: if_splits)
  next
    case (Cons q qs')
    have q: "snd q \<noteq> JUndef" using Cons.prems(2) Cons by auto
    have defined: "\<forall>p \<in> set ps. snd p \<noteq> JUndef" "\<forall>p \<in> set qs'. snd p \<noteq> JUndef"
      using Cons.prems(1,2) Cons by (auto simp: list_all_iff)
    have "json_string (fst p) @ CHR '':'' # json ft (snd p) @ json_members ft False ps @ CHR ''}'' # r =
        json_string (fst q) @ CHR '':'' # json ft (snd q) @ json_members ft False qs' @ CHR ''}'' # r'"
      using Cons.prems(3) Cons p q by (cases p; cases q) (simp split: if_splits)
    then have k: "fst p = fst q" "json ft (snd p) @ json_members ft False ps @ CHR ''}'' # r =
        json ft (snd q) @ json_members ft False qs' @ CHR ''}'' # r'"
      using json_string_cut [of "fst p" _ "fst q"] by (auto dest!: json_string_cut)
    then have "snd p = snd q \<and> json_members ft False ps @ CHR ''}'' # r = json_members ft False qs' @ CHR ''}'' # r'"
      using cutD [of ft "snd p" "snd q", OF _ _ ends_members [OF defined(1)] ends_members [OF defined(2)]] Cons.prems(1,2) Cons by simp
    then show ?thesis using Cons.IH [of qs' False] Cons.prems(1,2) Cons k(1) by (simp add: prod_eq_iff)
  qed
qed

lemma same_start:
  assumes "whole_js v" "whole_js w" "json ft v @ r = json ft w @ r'"
  shows "\<exists>c. starts v c \<and> starts w c"
proof -
  obtain c cs d ds where "json ft v = c # cs" "starts v c" "json ft w = d # ds" "starts w d"
    using json_starts [OF assms(1)] json_starts [OF assms(2)] by metis
  then show ?thesis using assms(3) by auto
qed

lemma starts_same_kind:
  assumes "starts v c" "starts w c" "whole_js v" "whole_js w"
  shows "case v of JUndef \<Rightarrow> False | JNull \<Rightarrow> w = JNull | JBool b \<Rightarrow> w = JBool b | JNum _ \<Rightarrow> (\<exists>m. w = JNum m)
    | JStr _ \<Rightarrow> (\<exists>t. w = JStr t) | JArr _ \<Rightarrow> (\<exists>ys. w = JArr ys) | JObj _ \<Rightarrow> (\<exists>qs. w = JObj qs)"
  using assms by (cases v; cases w) (auto simp: starts_def split: if_splits)

lemma json_cut: "whole_js v \<Longrightarrow> cut ft v"
proof (induction v)
  case (JNum n)
  obtain x where x: "n = Fin x" "is_whole x" using JNum by (cases n) auto
  show ?case unfolding cut_def
  proof (intro allI impI)
    fix w r r' assume w: "whole_js w" "ends r" "ends r'" "json ft (JNum n) @ r = json ft w @ r'"
    then obtain m where m: "w = JNum m" using same_start [OF JNum w(1,4)] starts_same_kind [OF _ _ JNum w(1)] by auto
    then obtain y where y: "w = JNum (Fin y)" "is_whole y" using w(1) by (cases m) auto
    then have "int_text \<lfloor>x\<rfloor> = int_text \<lfloor>y\<rfloor> \<and> r = r'"
      using word_cut [OF _ int_text_cut_free int_text_cut_free w(2,3), of "\<lfloor>x\<rfloor>" "\<lfloor>y\<rfloor>"] w(4) x by simp
    then show "JNum n = w \<and> r = r'" using whole_number_inj [OF x(2) y(2)] x(1) y(1) by simp
  qed
next
  case (JArr xs)
  then have "\<forall>x \<in> set xs. whole_js x \<and> cut ft x" by (auto simp: list_all_iff)
  note el = elements_cut [OF this, where b = True]
  show ?case unfolding cut_def
  proof (intro allI impI)
    fix w r r' assume w: "whole_js w" "ends r" "ends r'" "json ft (JArr xs) @ r = json ft w @ r'"
    then obtain ys where ys: "w = JArr ys" using same_start [OF JArr(2) w(1,4)] starts_same_kind [OF _ _ JArr(2) w(1)] by auto
    then show "JArr xs = w \<and> r = r'" using el [of ys r r'] w(1,4) by simp
  qed
next
  case (JObj ps)
  then have "\<forall>p \<in> set ps. whole_js (snd p) \<and> cut ft (snd p)" by (auto simp: list_all_iff)
  note me = members_cut [OF this, where b = True]
  show ?case unfolding cut_def
  proof (intro allI impI)
    fix w r r' assume w: "whole_js w" "ends r" "ends r'" "json ft (JObj ps) @ r = json ft w @ r'"
    then obtain qs where qs: "w = JObj qs" using same_start [OF JObj(2) w(1,4)] starts_same_kind [OF _ _ JObj(2) w(1)] by auto
    then show "JObj ps = w \<and> r = r'" using me [of qs r r'] w(1,4) by simp
  qed
next
  case (JStr s)
  show ?case unfolding cut_def
  proof (intro allI impI)
    fix w r r' assume w: "whole_js w" "ends r" "ends r'" "json ft (JStr s) @ r = json ft w @ r'"
    then obtain t where t: "w = JStr t" using same_start [OF JStr w(1,4)] starts_same_kind [OF _ _ JStr w(1)] by auto
    then show "JStr s = w \<and> r = r'" using json_string_cut [of s r t r'] w(4) by simp
  qed
next
  case JNull
  show ?case unfolding cut_def
  proof (intro allI impI)
    fix w r r' assume w: "whole_js w" "ends r" "ends r'" "json ft JNull @ r = json ft w @ r'"
    then have "w = JNull" using same_start [OF JNull w(1,4)] starts_same_kind [OF _ _ JNull w(1)] by auto
    then show "JNull = w \<and> r = r'" using w(4) by simp
  qed
next
  case (JBool b)
  show ?case unfolding cut_def
  proof (intro allI impI)
    fix w r r' assume w: "whole_js w" "ends r" "ends r'" "json ft (JBool b) @ r = json ft w @ r'"
    then have "w = JBool b" using same_start [OF JBool w(1,4)] starts_same_kind [OF _ _ JBool w(1)] by auto
    then show "JBool b = w \<and> r = r'" using w(4) by simp
  qed
qed simp

subsection \<open>Parts\<close>

lemma escape_cut_free: "CHR '':'' \<notin> set (escape_part s)"
  by (auto simp: escape_part_def split: if_splits)

lemma escape_inj: "escape_part s = escape_part t \<Longrightarrow> s = t"
proof (induction s arbitrary: t)
  case Nil
  then show ?case by (cases t) (auto simp: escape_part_def split: if_splits)
next
  case (Cons c s)
  then show ?case by (cases t) (auto simp: escape_part_def split: if_splits)
qed

lemma colon_cut:
  assumes "x @ r = y @ r'" "CHR '':'' \<notin> set x" "CHR '':'' \<notin> set y" "r = [] \<or> hd r = CHR '':''" "r' = [] \<or> hd r' = CHR '':''"
  shows "x = y \<and> r = r'"
proof -
  have t: "takeWhile (\<lambda>c. c \<noteq> CHR '':'') (x @ r) = x" if "CHR '':'' \<notin> set x" "r = [] \<or> hd r = CHR '':''" for x r
  proof -
    have "takeWhile (\<lambda>c. c \<noteq> CHR '':'') (x @ r) = x @ takeWhile (\<lambda>c. c \<noteq> CHR '':'') r"
      using that(1) by (intro takeWhile_append2) auto
    moreover have "takeWhile (\<lambda>c. c \<noteq> CHR '':'') r = []" using that(2) by (cases r) auto
    ultimately show ?thesis by simp
  qed
  have "x = y" using t [OF assms(2,4)] t [OF assms(3,5)] assms(1) by simp
  then show ?thesis using assms(1) by simp
qed

fun part_text :: "(real \<Rightarrow> string) \<Rightarrow> key_part \<Rightarrow> string" where
  "part_text ft (PString s) = ''s:'' @ escape_part s"
| "part_text ft (PNumber n) = ''n:'' @ number_text ft n"
| "part_text ft (PBoolean b) = ''b:'' @ (if b then ''true'' else ''false'')"
| "part_text ft PUndefined = ''j2:undefined''"
| "part_text ft (PJson v) = ''j2:'' @ json ft v"
| "part_text ft (PError e) = []"

lemma part_text_of:
  "serializeKeyPart tx a = Inr p \<Longrightarrow> p = part_text (tx_frac tx) (part_of tx a) \<and> (\<forall>e. part_of tx a \<noteq> PError e)"
  by (cases a) (auto simp: json_stringify_def json_visible_lists split: sum.splits)

lemma number_text_cut_free: "whole_part (PNumber n) \<Longrightarrow> CHR '':'' \<notin> set (number_text ft n)"
  using int_text_cut_free by (cases n) auto

lemma number_text_inj:
  assumes "whole_part (PNumber m)" "whole_part (PNumber n)" "number_text ft m = number_text ft n"
  shows "m = n"
proof -
  have digitless: "int_text k \<noteq> ''Infinity''" "int_text k \<noteq> ''-Infinity''" "int_text k \<noteq> ''NaN''" for k
    using int_text_chars [of "CHR ''I''" k] int_text_chars [of "CHR ''N''" k] by auto
  show ?thesis using assms whole_number_inj digitless digitless [symmetric] by (cases m; cases n) auto
qed

lemma json_not_undefined: "whole_js v \<Longrightarrow> json ft v @ r \<noteq> ''undefined'' @ r'"
proof
  assume w: "whole_js v" "json ft v @ r = ''undefined'' @ r'"
  obtain c cs where c: "json ft v = c # cs" "starts v c" using json_starts [OF w(1)] by blast
  then have "starts v (CHR ''u'')" using w(2) by simp
  then show False by (auto simp: starts_def is_digit_def split: js.splits if_splits)
qed

lemma part_cut:
  assumes "part_text ft p @ r = part_text ft q @ r'" "whole_part p" "whole_part q"
    "\<forall>e. p \<noteq> PError e" "\<forall>e. q \<noteq> PError e" "r = [] \<or> hd r = CHR '':''" "r' = [] \<or> hd r' = CHR '':''"
  shows "p = q \<and> r = r'"
proof -
  have e: "ends r" "ends r'" using assms(6,7) by (auto simp: ends_def)
  show ?thesis
  proof (cases p)
    case (PString s)
    then obtain t where t: "q = PString t" using assms(1,5) by (cases q) auto
    then show ?thesis
      using colon_cut [OF _ escape_cut_free escape_cut_free assms(6,7), of s t] escape_inj [of s t] assms(1) PString by simp
  next
    case (PNumber m)
    then obtain n where n: "q = PNumber n" using assms(1,5) by (cases q) auto
    then show ?thesis
      using colon_cut [OF _ number_text_cut_free number_text_cut_free assms(6,7), of ft m ft n] number_text_inj [of m n ft] assms(1-3) PNumber
      by (simp del: whole_part.simps)
  next
    case (PBoolean b)
    then obtain c where c: "q = PBoolean c" using assms(1,5) by (cases q) auto
    then show ?thesis using assms(1) PBoolean by (cases b; cases c) auto
  next
    case PUndefined
    then show ?thesis using assms(1,3,5) json_not_undefined [of _ ft r' r] by (cases q) (auto dest: sym)
  next
    case (PJson v)
    show ?thesis
    proof (cases q)
      case (PJson w)
      then show ?thesis using cutD [OF json_cut _ e, of v w ft] assms(1-3) \<open>p = PJson v\<close> by simp
    next
      case PUndefined
      then show ?thesis using assms(1,2) json_not_undefined [of v ft r r'] \<open>p = PJson v\<close> by simp
    qed (use assms(1,5) \<open>p = PJson v\<close> in auto)
  qed (use assms(4) in simp)
qed

lemma parts_cut:
  assumes "join_parts (map (part_text ft) ps) = join_parts (map (part_text ft) qs)"
    "\<forall>p \<in> set ps \<union> set qs. whole_part p \<and> (\<forall>e. p \<noteq> PError e)"
  shows "ps = qs"
  using assms
proof (induction ps arbitrary: qs)
  case Nil
  have ne: "part_text ft q \<noteq> []" if "\<forall>e. q \<noteq> PError e" for q using that by (cases q) auto
  show ?case
  proof (cases qs)
    case (Cons q qs')
    then show ?thesis using Nil ne [of q] by (cases qs') auto
  qed simp
next
  case (Cons p ps)
  have ne: "part_text ft q \<noteq> []" if "\<forall>e. q \<noteq> PError e" for q using that by (cases q) auto
  obtain r where r: "join_parts (map (part_text ft) (p # ps)) = part_text ft p @ r" "r = [] \<or> hd r = CHR '':''"
      "r = (if ps = [] then [] else CHR '':'' # join_parts (map (part_text ft) ps))"
    by (cases ps) auto
  show ?case
  proof (cases qs)
    case Nil
    then show ?thesis using Cons.prems r(1) ne [of p] by simp
  next
    case (Cons q qs')
    obtain r' where r': "join_parts (map (part_text ft) (q # qs')) = part_text ft q @ r'" "r' = [] \<or> hd r' = CHR '':''"
        "r' = (if qs' = [] then [] else CHR '':'' # join_parts (map (part_text ft) qs'))"
      by (cases qs') auto
    have "p = q \<and> r = r'"
      using part_cut [of ft p r q r'] r(1,2) r'(1,2) Cons.prems Cons by (simp del: join_parts.simps)
    moreover have "ps = qs'" if "r = r'"
      using that r(3) r'(3) Cons.IH [of qs'] Cons.prems(2) Cons by (auto split: if_splits)
    ultimately show ?thesis using Cons by simp
  qed
qed

subsection \<open>Plain data\<close>

text \<open>Plain data: no dates, maps or undefined members; object keys are names in sorted order.\<close>

definition canonical_keys :: "string list \<Rightarrow> bool" where
  "canonical_keys ks \<longleftrightarrow> sorted_wrt char_less_eq ks \<and>
     list_all (\<lambda>k. \<not> is_array_index k \<and> k \<notin> set DANGEROUS_OBJECT_KEYS \<and> k \<noteq> ''$type'') ks"

fun plain_kv :: "kv \<Rightarrow> bool" where
  "plain_kv KvNull = True"
| "plain_kv (KvBoolean b) = True"
| "plain_kv (KvNumber n) = (case n of Fin x \<Rightarrow> True | _ \<Rightarrow> False)"
| "plain_kv (KvString s) = True"
| "plain_kv (KvArray xs) = list_all plain_kv xs"
| "plain_kv (KvObject ps) = (canonical_keys (map fst ps) \<and> list_all (\<lambda>p. plain_kv (snd p)) ps)"
| "plain_kv _ = False"

fun plain_js :: "kv \<Rightarrow> js" where
  "plain_js (KvBoolean b) = JBool b"
| "plain_js (KvNumber n) = JNum n"
| "plain_js (KvString s) = JStr s"
| "plain_js (KvArray xs) = JArr (map plain_js xs)"
| "plain_js (KvObject ps) = JObj (map (map_prod id plain_js) ps)"
| "plain_js _ = JNull"

lemma sort_by_sorted: "sorted_wrt le xs \<Longrightarrow> sort_by le xs = xs"
proof -
  have "insert_by le x ys = x # ys" if "\<forall>y \<in> set ys. le x y" for x ys using that by (cases ys) auto
  then show "sorted_wrt le xs \<Longrightarrow> sort_by le xs = xs" unfolding sort_by_def by (induction xs) auto
qed

lemma normalized_plain_object:
  assumes "canonical_keys (map fst ps)"
  shows "normalized_object ps = JObj ps"
proof -
  have "sorted_wrt (\<lambda>p q. char_less_eq (fst p) (fst q)) ps"
    using assms by (simp add: canonical_keys_def sorted_wrt_map)
  moreover have "\<forall>p \<in> set ps. \<not> is_array_index (fst p)" using assms by (auto simp: canonical_keys_def list_all_iff)
  ultimately show ?thesis by (simp add: normalized_object_def enumeration_order_def sort_by_sorted)
qed

lemma plain_list: "\<forall>x \<in> set xs. normalizeValue tx x = Inr (plain_js x) \<Longrightarrow> normalize_list tx xs = Inr (map plain_js xs)"
  by (induction xs) auto

lemma plain_members:
  "\<forall>p \<in> set ps. normalizeValue tx (snd p) = Inr (plain_js (snd p)) \<and> fst p \<notin> set DANGEROUS_OBJECT_KEYS \<Longrightarrow>
     normalize_members tx ps = Inr (map (map_prod id plain_js) ps)"
  by (induction ps) (auto simp: DANGEROUS_OBJECT_KEYS_def)

lemma plain_normalizes: "plain_kv v \<Longrightarrow> normalizeValue tx v = Inr (plain_js v) \<and> plain_js v \<noteq> JUndef \<and> visible (plain_js v) = plain_js v"
proof (induction v)
  case (KvNumber n)
  then show ?case by (cases n) auto
next
  case (KvArray xs)
  then show ?case using plain_list [of xs tx] by (auto simp: list_all_iff)
next
  case (KvObject ps)
  have m: "\<forall>p \<in> set ps. normalizeValue tx (snd p) = Inr (plain_js (snd p)) \<and> plain_js (snd p) \<noteq> JUndef \<and>
      visible (plain_js (snd p)) = plain_js (snd p)"
    using KvObject by (fastforce simp: list_all_iff)
  have k: "\<forall>p \<in> set ps. fst p \<notin> set DANGEROUS_OBJECT_KEYS \<and> fst p \<noteq> ''$type''"
    using KvObject(2) by (auto simp: canonical_keys_def list_all_iff)
  have n: "normalized_object (map (map_prod id plain_js) ps) = JObj (map (map_prod id plain_js) ps)"
    using KvObject(2) by (intro normalized_plain_object) (simp add: comp_def)
  have "supplied_type ps = None"
    using k by (auto simp: supplied_type_def split: option.split kv.split dest!: map_of_SomeD)
  moreover have "normalize_members tx ps = Inr (map (map_prod id plain_js) ps)" using m k by (intro plain_members) blast
  moreover have "filter (\<lambda>p. snd p \<noteq> JUndef) (map (map_prod id plain_js) ps) = map (map_prod id plain_js) ps"
    using m by (auto intro: filter_True)
  ultimately show ?case using m n by (auto simp: id_def)
qed auto

lemma plain_js_inj: "plain_kv v \<Longrightarrow> plain_kv w \<Longrightarrow> plain_js v = plain_js w \<Longrightarrow> v = w"
proof (induction v arbitrary: w)
  case (KvArray xs)
  then obtain ys where ys: "w = KvArray ys" "map plain_js xs = map plain_js ys" by (cases w) auto
  have "xs = ys"
    using list.inj_map_strong [OF _ ys(2)] KvArray(1-3) ys(1) by (metis (no_types, lifting) list_all_iff plain_kv.simps(5))
  then show ?case using ys(1) by simp
next
  case (KvObject ps)
  then obtain qs where qs: "w = KvObject qs" "map (map_prod id plain_js) ps = map (map_prod id plain_js) qs" by (cases w) auto
  have plain: "\<forall>p \<in> set ps. plain_kv (snd p)" "\<forall>q \<in> set qs. plain_kv (snd q)"
    using KvObject(2,3) qs(1) by (auto simp: list_all_iff)
  have inj: "\<forall>p \<in> set ps. \<forall>q. plain_kv (snd p) \<longrightarrow> plain_kv q \<longrightarrow> plain_js (snd p) = plain_js q \<longrightarrow> snd p = q"
    using KvObject(1) by (metis prod.collapse snds.intros)
  have "ps = qs"
  proof (rule list.inj_map_strong [OF _ qs(2)])
    fix p q assume pq: "p \<in> set ps" "q \<in> set qs" "map_prod id plain_js p = map_prod id plain_js q"
    have "fst p = fst q" "plain_js (snd p) = plain_js (snd q)"
      using arg_cong [OF pq(3), of fst] arg_cong [OF pq(3), of snd] by simp_all
    then show "p = q" using inj plain pq(1,2) by (metis prod_eq_iff)
  qed
  then show ?case using qs(1) by simp
next
  case KvNull
  then show ?case by (cases w) auto
next
  case (KvBoolean b)
  then show ?case by (cases w) auto
next
  case (KvNumber n)
  then show ?case by (cases w) auto
next
  case (KvString s)
  then show ?case by (cases w) auto
qed simp_all

lemma plain_part:
  assumes "plain_kv v"
  shows "part_of tx v = (case v of KvString s \<Rightarrow> PString s | KvNumber n \<Rightarrow> PNumber n | KvBoolean b \<Rightarrow> PBoolean b | _ \<Rightarrow> PJson (plain_js v))"
proof (cases "(\<exists>s. v = KvString s) \<or> (\<exists>n. v = KvNumber n) \<or> (\<exists>b. v = KvBoolean b)")
  case True
  then show ?thesis by auto
next
  case False
  then have "part_of tx v = (case normalizeValue tx v of Inl e \<Rightarrow> PError e | Inr n \<Rightarrow> if n = JUndef then PUndefined else PJson (visible n))"
    by (cases v) (simp_all del: normalizeValue.simps)
  then have "part_of tx v = PJson (plain_js v)" using plain_normalizes [OF assms, of tx] by simp
  then show ?thesis using False by (cases v) simp_all
qed

lemma plain_part_inj: "plain_kv v \<Longrightarrow> plain_kv w \<Longrightarrow> part_of tx v = part_of tx w \<Longrightarrow> v = w"
  using plain_js_inj [of v w] unfolding plain_part by (cases v; cases w) simp_all

lemma serialize_parts_texts:
  "serialize_parts tx args = Inr ps \<Longrightarrow> ps = map (part_text (tx_frac tx)) (map (part_of tx) args) \<and> (\<forall>a \<in> set args. \<forall>e. part_of tx a \<noteq> PError e)"
  by (induction args arbitrary: ps) (auto simp: bind_result_Inr dest!: part_text_of)

text \<open>
  C9: a wrapped function never answers one call with the entry of another. If two argument
  lists lead \<open>wrap\<close> to the same key, then argument by argument they show the same: the same string, number
  or boolean, or the same JSON data after normalization; plain data (null, booleans, finite numbers,
  strings, arrays, objects in canonical key order) is then equal.
\<close>

theorem wrap_key_injective:
  assumes "wrap_key tx None pre args = Inr k" "wrap_key tx None pre args' = Inr k"
    and "\<forall>a \<in> set args \<union> set args'. whole_part (part_of tx a)"
  shows "map (part_of tx) args = map (part_of tx) args' \<and>
    (list_all plain_kv args \<longrightarrow> list_all plain_kv args' \<longrightarrow> args = args')"
proof -
  obtain ps where ps: "serialize_parts tx args = Inr ps" "k = (if length (join_parts ps) > 0 then pre @ CHR '':'' # join_parts ps else pre)"
    using assms(1) by (cases "serialize_parts tx args") (auto simp: wrap_key_def)
  obtain qs where qs: "serialize_parts tx args' = Inr qs" "k = (if length (join_parts qs) > 0 then pre @ CHR '':'' # join_parts qs else pre)"
    using assms(2) by (cases "serialize_parts tx args'") (auto simp: wrap_key_def)
  note t = serialize_parts_texts [OF ps(1)] serialize_parts_texts [OF qs(1)]
  have "join_parts ps = join_parts qs" using ps(2) qs(2) by (auto split: if_splits)
  then have eq: "map (part_of tx) args = map (part_of tx) args'"
    using t assms(3) by (intro parts_cut [of "tx_frac tx"]) auto
  have "args = args'" if "list_all plain_kv args" "list_all plain_kv args'"
    using eq that
  proof (induction args arbitrary: args')
    case (Cons a as)
    then obtain b bs where "args' = b # bs" by (cases args') auto
    then show ?case using Cons plain_part_inj [of a b tx] by auto
  qed simp
  then show ?thesis using eq by blast
qed

definition demo_texts :: texts where
  "demo_texts = \<lparr>tx_frac = (\<lambda>_. ''?''), tx_iso = int_text, tx_coll = char_less_eq\<rparr>"

theorem wrap_key_injective_witness:
  "wrap_key demo_texts None ''user'' [KvString ''a:b'', KvArray [KvNull]] = Inr ''user:s:a%3Ab:j2:[null]'' \<and>
   map (part_of demo_texts) [KvString ''a:b'', KvArray [KvNull]] = [PString ''a:b'', PJson (JArr [JNull])]"
proof -
  have k: "wrap_key demo_texts None ''user'' [KvString ''a:b'', KvArray [KvNull]] = Inr ''user:s:a%3Ab:j2:[null]''"
    by (simp add: wrap_key_def escape_part_def json_stringify_def)
  have "\<forall>a \<in> set [KvString ''a:b'', KvArray [KvNull]] \<union> set [KvString ''a:b'', KvArray [KvNull]]. whole_part (part_of demo_texts a)"
    by simp
  from wrap_key_injective [OF k k this] show ?thesis using k by simp
qed

end
