(* ===== verification/JsonText.thy ===== *)
theory JsonText
  imports KeyInjectivity
begin

text \<open>
  \<open>JSON.parse\<close> as the code uses it, and that it reads back what \<open>JSON.stringify\<close> writes.

  \<^item> Numbers are read exactly; strings hold 8-bit characters, so an escape beyond them is refused.
  \<^item> The recursion is on fuel; \<open>fuel_enough\<close> shows that twice the length of the text suffices: more
    fuel never changes the result.
\<close>

subsection \<open>Parsing\<close>

definition json_ws :: "char \<Rightarrow> bool" where
  "json_ws c \<longleftrightarrow> c \<in> {CHR 0x20, CHR 0x09, CHR 0x0A, CHR 0x0D}"

definition skip_ws :: "string \<Rightarrow> string" where
  "skip_ws s = dropWhile json_ws s"

definition simple_escape :: "char \<Rightarrow> char option" where
  "simple_escape e =
    (if e = CHR 0x22 \<or> e = CHR 0x5C \<or> e = CHR ''/'' then Some e
     else if e = CHR ''b'' then Some (CHR 0x08)
     else if e = CHR ''f'' then Some (CHR 0x0C)
     else if e = CHR ''n'' then Some (CHR 0x0A)
     else if e = CHR ''r'' then Some (CHR 0x0D)
     else if e = CHR ''t'' then Some (CHR 0x09)
     else None)"

definition hex_value :: "char \<Rightarrow> nat option" where
  "hex_value c =
    (let n = of_char c in
     if 48 \<le> n \<and> n \<le> 57 then Some (n - 48)
     else if 97 \<le> n \<and> n \<le> 102 then Some (n - 87)
     else if 65 \<le> n \<and> n \<le> 70 then Some (n - 55)
     else None)"

definition unicode_escape :: "string \<Rightarrow> (char \<times> string) option" where
  \<comment> \<open>the four hexadecimal digits after \<open>\\u\<close>\<close>
  "unicode_escape s =
    (case s of
       a # b # c # d # r \<Rightarrow>
         (case (hex_value a, hex_value b, hex_value c, hex_value d) of
            (Some i, Some j, Some k, Some l) \<Rightarrow>
              (let n = ((i * 16 + j) * 16 + k) * 16 + l in if n < 256 then Some (char_of n, r) else None)
          | _ \<Rightarrow> None)
     | _ \<Rightarrow> None)"

definition escape_sequence :: "string \<Rightarrow> (char \<times> string) option" where
  "escape_sequence s =
    (case s of
       [] \<Rightarrow> None
     | e # r \<Rightarrow> if e = CHR ''u'' then unicode_escape r else map_option (\<lambda>c. (c, r)) (simple_escape e))"

lemma escape_sequence_shorter: "escape_sequence s = Some (c, r) \<Longrightarrow> length r < length s"
  by (auto simp: escape_sequence_def unicode_escape_def Let_def split: list.splits if_splits option.splits)

function scan_string :: "string \<Rightarrow> (string \<times> string) option" where
  \<comment> \<open>the characters up to the closing quote, and what follows it\<close>
  "scan_string s =
    (case s of
       [] \<Rightarrow> None
     | c # r \<Rightarrow>
         if c = CHR 0x22 then Some ([], r)
         else if c = CHR 0x5C
         then (case escape_sequence r of
                 None \<Rightarrow> None
               | Some (d, r') \<Rightarrow> map_option (\<lambda>(t, u). (d # t, u)) (scan_string r'))
         else if (of_char c :: nat) < 32 then None
         else map_option (\<lambda>(t, u). (c # t, u)) (scan_string r))"
  by auto
termination
  by (relation "measure length") (auto dest: escape_sequence_shorter)

declare scan_string.simps [simp del]

definition scan_fraction :: "string \<Rightarrow> (real \<times> string) option" where
  "scan_fraction s =
    (case s of
       CHR ''.'' # r \<Rightarrow>
         (let fs = takeWhile is_digit r in
          if fs = [] then None else Some (real (digits_value fs) / 10 ^ length fs, dropWhile is_digit r))
     | _ \<Rightarrow> Some (0, s))"

definition scan_exponent :: "string \<Rightarrow> (real \<times> string) option" where
  \<comment> \<open>the power of ten\<close>
  "scan_exponent s =
    (case s of
       [] \<Rightarrow> Some (1, s)
     | e # r \<Rightarrow>
         if e = CHR ''e'' \<or> e = CHR ''E'' then
           (let neg = (r \<noteq> [] \<and> hd r = CHR ''-'');
                r1 = (if r \<noteq> [] \<and> (hd r = CHR ''-'' \<or> hd r = CHR ''+'') then tl r else r);
                es = takeWhile is_digit r1
            in if es = [] then None
               else Some (if neg then 1 / 10 ^ digits_value es else 10 ^ digits_value es, dropWhile is_digit r1))
         else Some (1, s))"

definition scan_number :: "string \<Rightarrow> (real \<times> string) option" where
  "scan_number s =
    (let neg = (s \<noteq> [] \<and> hd s = CHR ''-'');
         s1 = (if neg then tl s else s);
         ds = takeWhile is_digit s1
     in if ds = [] \<or> (hd ds = CHR ''0'' \<and> length ds > 1) then None
        else (case scan_fraction (dropWhile is_digit s1) of
                None \<Rightarrow> None
              | Some (fraction, s2) \<Rightarrow>
                  (case scan_exponent s2 of
                     None \<Rightarrow> None
                   | Some (scale, s3) \<Rightarrow>
                       Some ((if neg then -1 else 1) * (real (digits_value ds) + fraction) * scale, s3))))"

definition built_object :: "(string \<times> js) list \<Rightarrow> js" where
  \<comment> \<open>a later member of the same name replaces the value of an earlier one\<close>
  "built_object ps = JObj (enumeration_order (fold (\<lambda>(k, v) m. AList.update k v m) ps []))"

fun parse_value :: "nat \<Rightarrow> string \<Rightarrow> (js \<times> string) option"
  and parse_elements :: "nat \<Rightarrow> string \<Rightarrow> (js list \<times> string) option"
  and parse_members :: "nat \<Rightarrow> string \<Rightarrow> ((string \<times> js) list \<times> string) option" where
  "parse_value 0 s = None"
| "parse_value (Suc n) s =
    (case skip_ws s of
       [] \<Rightarrow> None
     | c # r \<Rightarrow>
         if c = CHR 0x22 then map_option (\<lambda>(t, u). (JStr t, u)) (scan_string r)
         else if c = CHR ''['' then
           (if skip_ws r \<noteq> [] \<and> hd (skip_ws r) = CHR '']'' then Some (JArr [], tl (skip_ws r))
            else map_option (\<lambda>(vs, u). (JArr vs, u)) (parse_elements n r))
         else if c = CHR ''{'' then
           (if skip_ws r \<noteq> [] \<and> hd (skip_ws r) = CHR ''}'' then Some (JObj [], tl (skip_ws r))
            else map_option (\<lambda>(ps, u). (built_object ps, u)) (parse_members n r))
         else if take 4 (c # r) = ''null'' then Some (JNull, drop 4 (c # r))
         else if take 4 (c # r) = ''true'' then Some (JBool True, drop 4 (c # r))
         else if take 5 (c # r) = ''false'' then Some (JBool False, drop 5 (c # r))
         else map_option (\<lambda>(x, u). (JNum (Fin x), u)) (scan_number (c # r)))"
| "parse_elements 0 s = None"
| "parse_elements (Suc n) s =
    (case parse_value n s of
       None \<Rightarrow> None
     | Some (v, r) \<Rightarrow>
         (case skip_ws r of
            [] \<Rightarrow> None
          | c # r' \<Rightarrow>
              if c = CHR '','' then map_option (\<lambda>(vs, u). (v # vs, u)) (parse_elements n r')
              else if c = CHR '']'' then Some ([v], r')
              else None))"
| "parse_members 0 s = None"
| "parse_members (Suc n) s =
    (case skip_ws s of
       [] \<Rightarrow> None
     | q # r \<Rightarrow>
         if q \<noteq> CHR 0x22 then None
         else (case scan_string r of
           None \<Rightarrow> None
         | Some (k, r1) \<Rightarrow>
             (if skip_ws r1 = [] \<or> hd (skip_ws r1) \<noteq> CHR '':'' then None
              else (case parse_value n (tl (skip_ws r1)) of
                None \<Rightarrow> None
              | Some (v, r2) \<Rightarrow>
                  (case skip_ws r2 of
                     [] \<Rightarrow> None
                   | c # r3 \<Rightarrow>
                       if c = CHR '','' then map_option (\<lambda>(ps, u). ((k, v) # ps, u)) (parse_members n r3)
                       else if c = CHR ''}'' then Some ([(k, v)], r3)
                       else None)))))"

definition json_parse :: "string \<Rightarrow> js option" where
  "json_parse s =
    (case parse_value (2 * length s + 1) s of
       None \<Rightarrow> None
     | Some (v, r) \<Rightarrow> if skip_ws r = [] then Some v else None)"

subsection \<open>The fuel is enough\<close>

lemma skip_ws_shorter: "length (skip_ws s) \<le> length s"
  by (simp add: skip_ws_def length_dropWhile_le)

lemma skip_ws_Cons: "skip_ws s = c # r \<Longrightarrow> length r < length s"
  using skip_ws_shorter [of s] by simp

lemma scan_string_shorter: "scan_string s = Some (t, r) \<Longrightarrow> length r < length s"
proof (induction s arbitrary: t r rule: scan_string.induct)
  case (1 s)
  show ?case
  proof (cases s)
    case Nil
    then show ?thesis using 1(3) by (simp add: scan_string.simps)
  next
    case (Cons c u)
    show ?thesis
    proof (cases "c = CHR 0x22")
      case True
      then show ?thesis using 1(3) Cons by (simp add: scan_string.simps)
    next
      case not_quote: False
      show ?thesis
      proof (cases "c = CHR 0x5C")
        case True
        then obtain d u' t' where e: "escape_sequence u = Some (d, u')" "scan_string u' = Some (t', r)"
          using 1(3) Cons not_quote by (subst (asm) scan_string.simps) (auto split: option.splits)
        then show ?thesis using 1(1) [OF Cons not_quote True e(1) refl e(2)] escape_sequence_shorter [OF e(1)] Cons by simp
      next
        case False
        then obtain t' where e: "\<not> (of_char c :: nat) < 32" "scan_string u = Some (t', r)"
          using 1(3) Cons not_quote by (subst (asm) scan_string.simps) (auto split: if_splits)
        then show ?thesis using 1(2) [OF Cons not_quote False e] Cons by simp
      qed
    qed
  qed
qed

lemma dropWhile_shorter: "takeWhile P s \<noteq> [] \<Longrightarrow> length (dropWhile P s) < length s"
  by (cases s) (auto simp: less_Suc_eq_le length_dropWhile_le split: if_splits)

lemma scan_number_shorter: "scan_number s = Some (x, r) \<Longrightarrow> length r < length s"
proof -
  assume s: "scan_number s = Some (x, r)"
  let ?s1 = "if s \<noteq> [] \<and> hd s = CHR ''-'' then tl s else s"
  obtain f s2 e where f: "takeWhile is_digit ?s1 \<noteq> []" "scan_fraction (dropWhile is_digit ?s1) = Some (f, s2)" "scan_exponent s2 = Some (e, r)"
    using s by (auto simp: scan_number_def Let_def split: if_splits option.splits)
  have "length s2 \<le> length (dropWhile is_digit ?s1)"
    using f(2) by (auto simp: scan_fraction_def Let_def length_dropWhile_le le_SucI split: list.splits char.splits bool.splits if_splits)
  moreover have "length r \<le> length s2"
  proof -
    have tl: "length (dropWhile is_digit (tl r)) \<le> length r" for r
      using length_dropWhile_le [of is_digit "tl r"] by simp
    show ?thesis
      using f(3) tl by (auto simp: scan_exponent_def Let_def length_dropWhile_le le_SucI split: list.splits if_splits)
  qed
  moreover have "length (dropWhile is_digit ?s1) < length ?s1" using dropWhile_shorter [OF f(1)] .
  moreover have "length ?s1 \<le> length s" by simp
  ultimately show ?thesis by linarith
qed

lemma parse_shorter:
  "parse_value n s = Some (v, r) \<Longrightarrow> length r < length s"
  "parse_elements n s = Some (vs, r) \<Longrightarrow> length r < length s"
  "parse_members n s = Some (ps, r) \<Longrightarrow> length r < length s"
proof (induction n arbitrary: s v vs ps r)
  case (Suc n)
  {
    case 1
    then obtain c u where c: "skip_ws s = c # u" by (auto split: list.splits)
    have u: "length u < length s" using skip_ws_Cons [OF c] .
    have tl: "length (tl (skip_ws u)) < length s" using u skip_ws_shorter [of u] by simp
    have num: "scan_number (c # u) = Some (x, r) \<Longrightarrow> length r < length s" for x
      using scan_number_shorter [of "c # u" x r] u by simp
    have d: "length (drop k (c # u)) < length s" if "k > 0" for k using u that by (cases k) auto
    show ?case
      using 1 c u tl num d [of 4] d [of 5] scan_string_shorter [of u] Suc.IH(2) [of u] Suc.IH(3) [of u]
      by (auto split: if_splits dest: less_trans simp del: drop_Suc_Cons)
  next
    case 2
    then obtain v u where v: "parse_value n s = Some (v, u)" by (auto split: option.splits)
    then obtain c u' where c: "skip_ws u = c # u'" using 2 by (auto split: list.splits)
    have "length u' < length s" using Suc.IH(1) [OF v] skip_ws_Cons [OF c] by simp
    then show ?case using 2 v c Suc.IH(2) [of u'] by (auto split: if_splits dest: less_trans)
  next
    case 3
    then obtain u where u: "skip_ws s = CHR 0x22 # u" by (auto split: list.splits if_splits)
    then obtain k u1 where k: "scan_string u = Some (k, u1)" "skip_ws u1 \<noteq> []" "hd (skip_ws u1) = CHR '':''"
      using 3 by (auto split: option.splits if_splits)
    then obtain v u2 where v: "parse_value n (tl (skip_ws u1)) = Some (v, u2)" using 3 u by (auto split: option.splits)
    then obtain c u3 where c: "skip_ws u2 = c # u3" using 3 u k by (auto split: list.splits)
    have "length u3 < length s"
      using skip_ws_Cons [OF u] scan_string_shorter [OF k(1)] skip_ws_shorter [of u1] Suc.IH(1) [OF v] skip_ws_Cons [OF c] by simp
    then show ?case using 3 u k v c Suc.IH(3) [of u3] by (auto split: if_splits dest: less_trans)
  }
qed simp_all

lemma fuel_enough:
  "2 * length s + 1 \<le> n \<Longrightarrow> parse_value (Suc n) s = parse_value n s"
  "2 * length s + 2 \<le> n \<Longrightarrow> parse_elements (Suc n) s = parse_elements n s"
  "2 * length s + 2 \<le> n \<Longrightarrow> parse_members (Suc n) s = parse_members n s"
proof (induction n arbitrary: s)
  case (Suc n)
  {
    case 1
    show ?case
    proof (cases "skip_ws s")
      case Nil
      then show ?thesis by simp
    next
      case (Cons c u)
      then have "2 * length u + 2 \<le> n" using skip_ws_Cons [OF Cons] 1 by simp
      then show ?thesis using Cons Suc.IH(2,3) [of u] by (simp del: parse_elements.simps parse_members.simps)
    qed
  next
    case 2
    have v: "parse_value (Suc n) s = parse_value n s" using Suc.IH(1) [of s] 2 by simp
    show ?case
    proof (cases "parse_value n s")
      case None
      then show ?thesis using v by (simp del: parse_value.simps)
    next
      case (Some p)
      obtain x u where p: "p = (x, u)" by fastforce
      show ?thesis
      proof (cases "skip_ws u")
        case Nil
        then show ?thesis using v Some p by (simp del: parse_value.simps)
      next
        case (Cons c u')
        then have "2 * length u' + 2 \<le> n" using skip_ws_Cons [OF Cons] parse_shorter(1) Some p 2 by fastforce
        then show ?thesis using v Some p Cons Suc.IH(2) [of u'] by (simp del: parse_value.simps)
      qed
    qed
  next
    case 3
    show ?case
    proof (cases "\<exists>u k u1. skip_ws s = CHR 0x22 # u \<and> scan_string u = Some (k, u1) \<and> skip_ws u1 \<noteq> [] \<and> hd (skip_ws u1) = CHR '':''")
      case True
      then obtain u k u1 where k: "skip_ws s = CHR 0x22 # u" "scan_string u = Some (k, u1)" "skip_ws u1 \<noteq> []" "hd (skip_ws u1) = CHR '':''"
        by blast
      let ?t = "tl (skip_ws u1)"
      have t: "length ?t < length s"
        using skip_ws_Cons [OF k(1)] scan_string_shorter [OF k(2)] skip_ws_shorter [of u1] by simp
      have v: "parse_value (Suc n) ?t = parse_value n ?t" using Suc.IH(1) [of ?t] 3 t by simp
      show ?thesis
      proof (cases "parse_value n ?t")
        case None
        then show ?thesis using v k by (simp del: parse_value.simps)
      next
        case (Some p)
        obtain x u2 where p: "p = (x, u2)" by fastforce
        show ?thesis
        proof (cases "skip_ws u2")
          case Nil
          then show ?thesis using v Some p k by (simp del: parse_value.simps)
        next
          case (Cons c u3)
          then have "2 * length u3 + 2 \<le> n" using skip_ws_Cons [OF Cons] parse_shorter(1) [of n ?t x u2] Some p t 3 by simp
          then show ?thesis using v Some p Cons k Suc.IH(3) [of u3]
            by (simp del: parse_value.simps)
        qed
      qed
    next
      case False
      then show ?thesis by (auto split: list.splits option.splits)
    qed
  }
qed simp_all

subsection \<open>Reading back what was written\<close>

lemma digits_value_append: "digits_value (s @ [c]) = 10 * digits_value s + (of_char c - 48)"
  by (simp add: digits_value_def)

lemma digits_value_decimal: "digits_value (decimal n) = n"
proof (induction n rule: decimal.induct)
  case (1 n)
  have d: "of_char (digit k) = (48 + k :: nat)" if "k < 10" for k using that by (simp add: of_char_of take_bit_nat_eq_self)
  show ?case
  proof (cases "n < 10")
    case True
    then show ?thesis using d [of n] by (subst decimal.simps) (simp add: digits_value_def del: digit.simps)
  next
    case False
    then show ?thesis using 1 d [of "n mod 10"] by (subst decimal.simps) (simp add: digits_value_append del: digit.simps)
  qed
qed

lemma decimal_hd: "hd (decimal n) = CHR ''0'' \<Longrightarrow> n = 0"
proof (induction n rule: decimal.induct)
  case (1 n)
  have d: "digit k = CHR ''0'' \<Longrightarrow> k = 0" if "k < 10" for k
  proof -
    assume "digit k = CHR ''0''"
    then have "of_char (digit k) = (48 :: nat)" by simp
    then show "k = 0" using that by (simp add: of_char_of take_bit_nat_eq_self)
  qed
  show ?case
  proof (cases "n < 10")
    case True
    then show ?thesis using 1(2) d [of n] by (subst (asm) decimal.simps) (simp del: digit.simps)
  next
    case False
    then have "hd (decimal (n div 10)) = CHR ''0''" using 1(2) by (subst (asm) decimal.simps) simp
    then show ?thesis using 1(1) [OF False] False by simp
  qed
qed

lemma decimal_all_digits: "list_all is_digit (decimal n)"
  using decimal_is_digit by (auto simp: list_all_iff)

definition number_ends :: "string \<Rightarrow> bool" where
  "number_ends r \<longleftrightarrow> r = [] \<or> \<not> is_digit (hd r) \<and> hd r \<notin> {CHR ''.'', CHR ''e'', CHR ''E''}"

lemma takeWhile_decimal:
  assumes "number_ends r"
  shows "takeWhile is_digit (decimal n @ r) = decimal n" "dropWhile is_digit (decimal n @ r) = r"
proof -
  have all: "\<And>c. c \<in> set (decimal n) \<Longrightarrow> is_digit c" using decimal_is_digit .
  have "takeWhile is_digit r = []" "dropWhile is_digit r = r" using assms by (cases r; simp add: number_ends_def)+
  then show "takeWhile is_digit (decimal n @ r) = decimal n" "dropWhile is_digit (decimal n @ r) = r"
    using all by (simp_all add: takeWhile_append2 dropWhile_append2)
qed

lemma scan_int_text:
  assumes "number_ends r"
  shows "scan_number (int_text k @ r) = Some (of_int k, r)"
proof -
  have no_fraction: "scan_fraction r = Some (0, r)" using assms by (auto simp: scan_fraction_def number_ends_def split: list.split char.split bool.split)
  have no_exponent: "scan_exponent r = Some (1, r)" using assms by (cases r) (auto simp: scan_exponent_def number_ends_def)
  have zero: "length (decimal 0) = 1" by (subst decimal.simps) simp
  have lead: "\<not> (hd (decimal n) = CHR ''0'' \<and> length (decimal n) > 1)" for n using decimal_hd [of n] zero by auto
  have minus: "hd (decimal n) \<noteq> CHR ''-''" for n
    using decimal_is_digit [of "hd (decimal n)" n] by auto
  note d = takeWhile_decimal [OF assms] digits_value_decimal no_fraction no_exponent
  show ?thesis
  proof (cases "k < 0")
    case True
    then show ?thesis using lead [of "nat (- k)"] by (auto simp: scan_number_def int_text_def d)
  next
    case False
    then show ?thesis using lead [of "nat k"] minus [of "nat k"] by (auto simp: scan_number_def int_text_def d hd_append)
  qed
qed

lemma hex_value_digit: "n < 16 \<Longrightarrow> hex_value (hex_digit n) = Some n"
  by (auto simp: hex_value_def hex_digit_def Let_def of_char_of take_bit_nat_eq_self)

lemma scan_plain: "c \<noteq> CHR 0x22 \<Longrightarrow> c \<noteq> CHR 0x5C \<Longrightarrow> \<not> (of_char c :: nat) < 32 \<Longrightarrow>
    scan_string (c # x) = map_option (\<lambda>(t, u). (c # t, u)) (scan_string x)"
  by (subst scan_string.simps) simp

lemma scan_escape: "escape_sequence s = Some (d, x) \<Longrightarrow> scan_string (CHR 0x5C # s) = map_option (\<lambda>(t, u). (d # t, u)) (scan_string x)"
  by (subst scan_string.simps) simp

lemma scan_escaped_char: "scan_string (esc_char c @ x) = map_option (\<lambda>(t, u). (c # t, u)) (scan_string x)"
proof (cases "c \<in> {CHR 0x22, CHR 0x5C, CHR 0x08, CHR 0x09, CHR 0x0A, CHR 0x0C, CHR 0x0D}")
  case True
  then obtain e where e: "esc_char c = [CHR 0x5C, e]" "e \<noteq> CHR ''u''" "simple_escape e = Some c"
    by (auto simp: esc_char_def simple_escape_def)
  then have "escape_sequence (e # x) = Some (c, x)" by (simp add: escape_sequence_def)
  then show ?thesis using scan_escape [of "e # x" c x] e(1) by simp
next
  case plain: False
  show ?thesis
  proof (cases "(of_char c :: nat) < 32")
    case True
    let ?n = "of_char c :: nat"
    have h: "hex_value (hex_digit (?n div 16)) = Some (?n div 16)" "hex_value (hex_digit (?n mod 16)) = Some (?n mod 16)" "hex_value (CHR ''0'') = Some 0"
      using True hex_value_digit [of "?n div 16"] hex_value_digit [of "?n mod 16"] by (simp_all add: hex_value_def)
    have "((0 * 16 + 0) * 16 + ?n div 16) * 16 + ?n mod 16 = ?n" by simp
    then have "escape_sequence (CHR ''u'' # CHR ''0'' # CHR ''0'' # hex_digit (?n div 16) # hex_digit (?n mod 16) # x) = Some (c, x)"
      using True by (simp add: escape_sequence_def unicode_escape_def h Let_def)
    then show ?thesis using plain True scan_escape by (simp add: esc_char_def)
  next
    case False
    then show ?thesis using plain scan_plain [of c x] by (simp add: esc_char_def)
  qed
qed

lemma scan_json_string: "scan_string (concat (map esc_char s) @ CHR 0x22 # r) = Some (s, r)"
proof (induction s)
  case Nil
  then show ?case by (subst scan_string.simps) simp
next
  case (Cons c s)
  then show ?case using scan_escaped_char [of c] by simp
qed

fun wf_js :: "js \<Rightarrow> bool" where
  \<comment> \<open>the properties of every object are distinct and in enumeration order\<close>
  "wf_js (JArr xs) = list_all wf_js xs"
| "wf_js (JObj ps) = (distinct (map fst ps) \<and> enumeration_order ps = ps \<and> list_all (\<lambda>p. wf_js (snd p)) ps)"
| "wf_js v = True"

lemma built_object_same:
  assumes "distinct (map fst ps)" "enumeration_order ps = ps"
  shows "built_object ps = JObj ps"
proof -
  have "fold (\<lambda>(k, v) m. AList.update k v m) qs acc = acc @ qs" if "distinct (map fst (acc @ qs))" for qs acc :: "(string \<times> js) list"
    using that
  proof (induction qs arbitrary: acc)
    case (Cons q qs)
    obtain k v where q: "q = (k, v)" by fastforce
    then have "AList.update k v acc = acc @ [q]" using Cons.prems by (intro trans [OF update_absent]) auto
    then show ?case using Cons.IH [of "acc @ [q]"] Cons.prems q by simp
  qed simp
  from this [of "[]" ps] show ?thesis using assms by (simp add: built_object_def)
qed

lemma skip_ws_plain: "\<not> json_ws c \<Longrightarrow> skip_ws (c # s) = c # s"
  by (simp add: skip_ws_def)

lemma skip_ws_marks [simp]:
  "skip_ws (CHR '','' # s) = CHR '','' # s" "skip_ws (CHR '']'' # s) = CHR '']'' # s" "skip_ws (CHR ''}'' # s) = CHR ''}'' # s"
  "skip_ws (CHR '':'' # s) = CHR '':'' # s" "skip_ws (CHR 0x22 # s) = CHR 0x22 # s" "skip_ws [] = []"
  by (simp_all add: skip_ws_def json_ws_def)

lemma scan_number_not_mark: "is_digit c \<or> c = CHR ''-'' \<Longrightarrow> c \<notin> {CHR 0x22, CHR ''['', CHR ''{'', CHR ''n'', CHR ''t'', CHR ''f''}"
  by auto

text \<open>The texts of a value: JSON with any white space between its tokens.\<close>

abbreviation space :: "string \<Rightarrow> bool" where
  "space s \<equiv> list_all json_ws s"

inductive json_text :: "js \<Rightarrow> string \<Rightarrow> bool"
  and elements_text :: "js list \<Rightarrow> string \<Rightarrow> bool"
  and members_text :: "(string \<times> js) list \<Rightarrow> string \<Rightarrow> bool" where
  text_null: "json_text JNull ''null''"
| text_bool: "json_text (JBool b) (if b then ''true'' else ''false'')"
| text_int: "json_text (JNum (Fin (of_int k))) (int_text k)"
| text_string: "json_text (JStr s) (json_string s)"
| text_no_elements: "space a \<Longrightarrow> json_text (JArr []) (CHR ''['' # a @ '']'')"
| text_elements: "elements_text xs t \<Longrightarrow> json_text (JArr xs) (CHR ''['' # t)"
| text_no_members: "space a \<Longrightarrow> json_text (JObj []) (CHR ''{'' # a @ ''}'')"
| text_members: "members_text ps t \<Longrightarrow> json_text (built_object ps) (CHR ''{'' # t)"
| last_element: "space a \<Longrightarrow> json_text x s \<Longrightarrow> space b \<Longrightarrow> elements_text [x] (a @ s @ b @ '']'')"
| more_elements: "space a \<Longrightarrow> json_text x s \<Longrightarrow> space b \<Longrightarrow> elements_text xs t \<Longrightarrow> elements_text (x # xs) (a @ s @ b @ CHR '','' # t)"
| last_member: "space a \<Longrightarrow> space b \<Longrightarrow> space c \<Longrightarrow> json_text v s \<Longrightarrow> space d \<Longrightarrow>
    members_text [(k, v)] (a @ json_string k @ b @ CHR '':'' # c @ s @ d @ ''}'')"
| more_members: "space a \<Longrightarrow> space b \<Longrightarrow> space c \<Longrightarrow> json_text v s \<Longrightarrow> space d \<Longrightarrow> members_text ps t \<Longrightarrow>
    members_text ((k, v) # ps) (a @ json_string k @ b @ CHR '':'' # c @ s @ d @ CHR '','' # t)"

lemma skip_space [simp]: "space a \<Longrightarrow> skip_ws (a @ s) = skip_ws s"
  by (simp add: skip_ws_def list_all_iff)

lemma space_ends: "space b \<Longrightarrow> c \<in> {CHR '','', CHR '']'', CHR ''}''} \<Longrightarrow> number_ends (b @ c # r)"
  by (cases b) (auto simp: number_ends_def json_ws_def is_digit_def)

lemma skip_ws_brackets [simp]: "skip_ws (CHR ''['' # s) = CHR ''['' # s" "skip_ws (CHR ''{'' # s) = CHR ''{'' # s"
  "skip_ws (CHR ''n'' # s) = CHR ''n'' # s" "skip_ws (CHR ''t'' # s) = CHR ''t'' # s" "skip_ws (CHR ''f'' # s) = CHR ''f'' # s"
  by (simp_all add: skip_ws_def json_ws_def)

lemma text_starts:
  assumes "json_text v s"
  shows "\<exists>c cs. s = c # cs \<and> \<not> json_ws c \<and> c \<noteq> CHR '']''"
  using assms
proof (cases rule: json_text.cases)
  case (text_int k)
  then show ?thesis using int_text_hd [of k] by (auto simp: json_ws_def is_digit_def)
qed (auto simp: json_string_def json_ws_def)

lemma first_element: "elements_text xs t \<Longrightarrow> skip_ws (t @ r) \<noteq> [] \<and> hd (skip_ws (t @ r)) \<noteq> CHR '']''"
  by (cases rule: elements_text.cases) (auto dest!: text_starts simp: skip_ws_plain)

lemma first_member: "members_text ps t \<Longrightarrow> skip_ws (t @ r) \<noteq> [] \<and> hd (skip_ws (t @ r)) \<noteq> CHR ''}''"
  by (cases rule: members_text.cases) (auto simp: json_string_def)

lemma text_parses:
  "json_text v s \<Longrightarrow> number_ends r \<Longrightarrow> space a \<Longrightarrow> 2 * length (s @ r) + 1 \<le> n \<Longrightarrow> parse_value n (a @ s @ r) = Some (v, r)"
  "elements_text xs t \<Longrightarrow> 2 * length (t @ r) + 2 \<le> n \<Longrightarrow> parse_elements n (t @ r) = Some (xs, r)"
  "members_text ps t \<Longrightarrow> 2 * length (t @ r) + 2 \<le> n \<Longrightarrow> parse_members n (t @ r) = Some (ps, r)"
proof (induction arbitrary: n r a and n r and n r rule: json_text_elements_text_members_text.inducts)
  case text_null
  then show ?case by (cases n) simp_all
next
  case (text_bool b)
  then show ?case by (cases n; cases b) simp_all
next
  case (text_int k)
  obtain c cs where c: "int_text k = c # cs" "is_digit c \<or> c = CHR ''-''" using int_text_hd by blast
  have "\<not> json_ws c" using c(2) by (auto simp: json_ws_def is_digit_def)
  then show ?case
    using text_int scan_int_text [OF text_int(1), of k] scan_number_not_mark [OF c(2)] c(1) by (cases n) (simp_all add: skip_ws_plain)
next
  case (text_string s)
  then show ?case using scan_json_string [of s r] by (cases n) (simp_all add: json_string_def)
next
  case (text_no_elements b)
  then show ?case by (cases n) simp_all
next
  case (text_elements xs t)
  then show ?case using first_element [OF text_elements(1), of r] by (cases n) (simp_all del: parse_elements.simps)
next
  case (text_no_members b)
  then show ?case by (cases n) simp_all
next
  case (text_members ps t)
  then show ?case using first_member [OF text_members(1), of r] by (cases n) (simp_all del: parse_members.simps)
next
  case (last_element a x s b)
  obtain m where m: "n = Suc m" using last_element by (cases n) simp_all
  have "parse_value m (a @ s @ (b @ CHR '']'' # r)) = Some (x, b @ CHR '']'' # r)"
    by (rule last_element.IH) (use last_element m space_ends in simp_all)
  then show ?case using m last_element(3) by (simp del: parse_value.simps)
next
  case (more_elements a x s b xs t)
  obtain m where m: "n = Suc m" using more_elements by (cases n) simp_all
  have "parse_value m (a @ s @ (b @ CHR '','' # t @ r)) = Some (x, b @ CHR '','' # t @ r)"
    by (rule more_elements.IH(1)) (use more_elements m space_ends in simp_all)
  moreover have "parse_elements m (t @ r) = Some (xs, r)"
    by (rule more_elements.IH(2)) (use more_elements m in simp_all)
  ultimately show ?case using m more_elements(3) by (simp del: parse_value.simps)
next
  case (last_member a b c v s d k)
  obtain m where m: "n = Suc m" using last_member by (cases n) simp_all
  have "parse_value m (c @ s @ (d @ CHR ''}'' # r)) = Some (v, d @ CHR ''}'' # r)"
    by (rule last_member.IH) (use last_member m space_ends in simp_all)
  then show ?case using m last_member(1-3,5) scan_json_string [of k] by (simp add: json_string_def del: parse_value.simps)
next
  case (more_members a b c v s d ps t k)
  obtain m where m: "n = Suc m" using more_members by (cases n) simp_all
  have "parse_value m (c @ s @ (d @ CHR '','' # t @ r)) = Some (v, d @ CHR '','' # t @ r)"
    by (rule more_members.IH(1)) (use more_members m space_ends in simp_all)
  moreover have "parse_members m (t @ r) = Some (ps, r)"
    by (rule more_members.IH(2)) (use more_members m in simp_all)
  ultimately show ?case using m more_members(1-3,5) scan_json_string [of k] by (simp add: json_string_def del: parse_value.simps)
qed

lemma text_parse:
  assumes "json_text v s" "space a"
  shows "json_parse (a @ s) = Some v"
  using text_parses(1) [OF assms(1) _ assms(2), of "[]" "2 * length (a @ s) + 1"]
  by (simp add: json_parse_def number_ends_def del: parse_value.simps)

lemma elements_are_text:
  "\<forall>x \<in> set xs. json_text x (json ft x) \<Longrightarrow> xs \<noteq> [] \<Longrightarrow> elements_text xs (json_elements ft True xs @ '']'')"
proof (induction xs)
  case (Cons x xs)
  show ?case
  proof (cases xs)
    case Nil
    then show ?thesis using last_element [of "[]" x "json ft x" "[]"] Cons.prems by simp
  next
    case (Cons y ys)
    then show ?thesis using more_elements [of "[]" x "json ft x" "[]"] Cons.prems \<open>_ \<Longrightarrow> _ \<Longrightarrow> elements_text xs _\<close> by simp
  qed
qed simp

lemma members_are_text:
  "\<forall>p \<in> set ps. snd p \<noteq> JUndef \<and> json_text (snd p) (json ft (snd p)) \<Longrightarrow> ps \<noteq> [] \<Longrightarrow> members_text ps (json_members ft True ps @ ''}'')"
proof (induction ps)
  case (Cons p ps)
  obtain k v where p: "p = (k, v)" by fastforce
  show ?case
  proof (cases ps)
    case Nil
    then show ?thesis using last_member [of "[]" "[]" "[]" v "json ft v" "[]" k] Cons.prems p by simp
  next
    case (Cons q qs)
    then show ?thesis
      using more_members [of "[]" "[]" "[]" v "json ft v" "[]"] Cons.prems \<open>_ \<Longrightarrow> _ \<Longrightarrow> members_text ps _\<close> p by (cases q) simp
  qed
qed simp

lemma json_is_text: "whole_js v \<Longrightarrow> wf_js v \<Longrightarrow> json_text v (json ft v)"
proof (induction v)
  case (JNum m)
  then obtain x where x: "m = Fin x" "is_whole x" by (cases m) auto
  then have "real_of_int \<lfloor>x\<rfloor> = x" by (auto simp: is_whole_def)
  then show ?case using text_int [of "\<lfloor>x\<rfloor>"] x by (simp only:) (simp add: x)
next
  case (JArr xs)
  then show ?case using elements_are_text [of xs ft] text_no_elements [of "[]"] by (cases "xs = []") (auto simp: list_all_iff intro: text_elements)
next
  case (JObj ps)
  have built: "built_object ps = JObj ps" using JObj(3) by (intro built_object_same) simp_all
  have "snd p \<noteq> JUndef \<and> json_text (snd p) (json ft (snd p))" if "p \<in> set ps" for p
    using JObj that by (cases p) (force simp: list_all_iff)
  then show ?case
    using members_are_text [of ps ft] text_no_members [of "[]"] text_members [of ps "json_members ft True ps @ ''}''"] built
    by (cases "ps = []") auto
next
  case (JBool b)
  show ?case using text_bool [of b] by simp
qed (auto intro: text_null text_string)

lemma json_parse_json:
  assumes "whole_js v" "wf_js v"
  shows "json_parse (json ft v) = Some v"
  using text_parse [OF json_is_text [OF assms], of "[]"] by simp

end
