(* ===== verification/Serializers.thy ===== *)
theory Serializers
  imports Sanitizer JsonText
begin

text \<open>
  The serializers (\<open>src/src/serialization/JsonSerializer.ts\<close>, \<open>src/src/serialization/MsgpackSerializer.ts\<close>)
  and the contract \<open>cache_serializer\<close> that layers storing bytes rely on.

  \<^item> A payload is a text or a byte string. Texts hold 8-bit characters, so a byte string that decodes
    to other characters is outside the model and reads as malformed.
  \<^item> The MessagePack codec is a third-party package: \<open>encode\<close> and \<open>decode\<close> are arguments, with the
    container limits handed to \<open>decode\<close>.
\<close>

subsection \<open>Payloads\<close>

datatype payload = PText string | PBytes string

fun utf8_encode :: "string \<Rightarrow> string" where
  "utf8_encode [] = []"
| "utf8_encode (c # s) =
    (let n = (of_char c :: nat) in
     if n < 128 then c # utf8_encode s
     else char_of (192 + n div 64) # char_of (128 + n mod 64) # utf8_encode s)"

fun utf8_decode :: "string \<Rightarrow> string option" where
  "utf8_decode [] = Some []"
| "utf8_decode (a # s) =
    (if (of_char a :: nat) < 128 then map_option (Cons a) (utf8_decode s)
     else (case s of
             [] \<Rightarrow> None
           | b # r \<Rightarrow>
               if ((of_char a :: nat) = 194 \<or> (of_char a :: nat) = 195) \<and> 128 \<le> (of_char b :: nat) \<and> (of_char b :: nat) < 192
               then map_option (Cons (char_of ((of_char a - 192) * 64 + (of_char b - 128) :: nat))) (utf8_decode r)
               else None))"

fun payload_bytes :: "payload \<Rightarrow> string" where
  \<comment> \<open>\<open>Buffer.from(payload)\<close>\<close>
  "payload_bytes (PText s) = utf8_encode s"
| "payload_bytes (PBytes b) = b"

fun payload_text :: "payload \<Rightarrow> string option" where
  "payload_text (PText s) = Some s"
| "payload_text (PBytes b) = utf8_decode b"

lemma utf8_round_trip: "utf8_decode (utf8_encode s) = Some s"
proof (induction s)
  case (Cons c s)
  let ?n = "of_char c :: nat"
  have n: "?n < 256" by simp
  show ?case
  proof (cases "?n < 128")
    case True
    then show ?thesis using Cons by (simp add: Let_def)
  next
    case False
    have "?n div 64 < 4" using n by (simp add: less_mult_imp_div_less)
    then have a: "of_char (char_of (192 + ?n div 64)) = (192 + ?n div 64 :: nat)" and b: "of_char (char_of (128 + ?n mod 64)) = (128 + ?n mod 64 :: nat)"
      using n by (simp_all add: of_char_of take_bit_nat_eq_self)
    have "2 \<le> ?n div 64" using False div_le_mono [of 128 ?n 64] by simp
    then have "?n div 64 = 2 \<or> ?n div 64 = 3" using \<open>?n div 64 < 4\<close> by linarith
    moreover have "char_of (128 + ?n mod 64) = c" if "?n div 64 = 2"
    proof -
      have "128 + ?n mod 64 = ?n" using that div_mult_mod_eq [of ?n 64] by linarith
      then show ?thesis by (simp only: char_of_char)
    qed
    moreover have "char_of (192 + ?n mod 64) = c" if "?n div 64 = 3"
    proof -
      have "192 + ?n mod 64 = ?n" using that div_mult_mod_eq [of ?n 64] by linarith
      then show ?thesis by (simp only: char_of_char)
    qed
    ultimately show ?thesis using False Cons by (auto simp: Let_def a b)
  qed
qed simp

subsection \<open>JSON\<close>

record serializer_options =
  so_maxBytes :: nat
  so_maxDepth :: nat
  so_maxNodes :: nat

definition json_serializer_options :: "nat option \<Rightarrow> nat option \<Rightarrow> nat option \<Rightarrow> serializer_options" where
  \<comment> \<open>the constructor's defaults\<close>
  "json_serializer_options maxBytes maxDepth maxNodes =
    \<lparr>so_maxBytes = nullish maxBytes 4194304, so_maxDepth = nullish maxDepth 200, so_maxNodes = nullish maxNodes 10000\<rparr>"

definition json_serialize :: "(real \<Rightarrow> string) \<Rightarrow> js \<Rightarrow> payload result" where
  \<comment> \<open>\<open>undefined\<close> has no JSON text: the error is the one its user meets\<close>
  "json_serialize ft v = (if v = JUndef then Inl (OtherError ''TypeError'') else Inr (PText (json ft v)))"

definition json_deserialize :: "serializer_options \<Rightarrow> payload \<Rightarrow> js result" where
  "json_deserialize opts p =
    (if length (payload_bytes p) > so_maxBytes opts then Inl (TooLong ''JsonSerializer: payload'' (so_maxBytes opts))
     else case (case payload_text p of None \<Rightarrow> None | Some s \<Rightarrow> json_parse s) of
       None \<Rightarrow> Inl (OtherError ''JsonSerializer: failed to parse JSON payload'')
     | Some parsed \<Rightarrow>
         sanitizeStructuredData \<lparr>sz_maxDepth = so_maxDepth opts, sz_maxNodes = so_maxNodes opts, sz_label = ''JSON payload''\<rparr> parsed)"

subsection \<open>MessagePack\<close>

definition msgpack_serializer_options :: "nat option \<Rightarrow> nat option \<Rightarrow> nat option \<Rightarrow> serializer_options" where
  "msgpack_serializer_options maxBytes maxDepth maxNodes =
    \<lparr>so_maxBytes = nullish maxBytes 4194304, so_maxDepth = nullish maxDepth 64, so_maxNodes = nullish maxNodes 10000\<rparr>"

definition latin1_bytes :: "payload \<Rightarrow> string" where
  \<comment> \<open>\<open>Buffer.from(payload, 'latin1')\<close> keeps 8-bit characters as bytes\<close>
  "latin1_bytes p = (case p of PText s \<Rightarrow> s | PBytes b \<Rightarrow> b)"

definition msgpack_serialize :: "(js \<Rightarrow> string) \<Rightarrow> js \<Rightarrow> payload result" where
  "msgpack_serialize encode v = Inr (PBytes (encode v))"

definition msgpack_deserialize ::
    "(nat \<Rightarrow> nat \<Rightarrow> string \<Rightarrow> js result) \<Rightarrow> nat option \<Rightarrow> serializer_options \<Rightarrow> payload \<Rightarrow> js result" where
  \<comment> \<open>\<open>decode\<close> is given the limits of strings and of containers\<close>
  "msgpack_deserialize decode maxContainerLength opts p =
    (if length (latin1_bytes p) > so_maxBytes opts then Inl (TooLong ''MsgpackSerializer: payload'' (so_maxBytes opts))
     else bind_result (decode (so_maxBytes opts) (nullish maxContainerLength (so_maxNodes opts)) (latin1_bytes p))
       (sanitizeStructuredData \<lparr>sz_maxDepth = so_maxDepth opts, sz_maxNodes = so_maxNodes opts, sz_label = ''MessagePack payload''\<rparr>))"

record serializer =
  sr_serialize :: "js \<Rightarrow> payload result"
  sr_deserialize :: "payload \<Rightarrow> js result"

definition json_serializer :: "(real \<Rightarrow> string) \<Rightarrow> serializer_options \<Rightarrow> serializer" where
  "json_serializer ft opts = \<lparr>sr_serialize = json_serialize ft, sr_deserialize = json_deserialize opts\<rparr>"

subsection \<open>The contract\<close>

locale cache_serializer =
  fixes serialize :: "js \<Rightarrow> payload result"
    and deserialize :: "payload \<Rightarrow> js result"
    and storable :: "js \<Rightarrow> bool"
  assumes serializes: "storable v \<Longrightarrow> \<exists>p. serialize v = Inr p \<and> deserialize p = Inr v \<and> deserialize (PBytes (payload_bytes p)) = Inr v"
    and safe_result: "deserialize p = Inr v \<Longrightarrow> safe v"
begin

definition stored_bytes :: "js \<Rightarrow> string" where
  \<comment> \<open>what a layer that keeps bytes stores\<close>
  "stored_bytes v = (case serialize v of Inr p \<Rightarrow> payload_bytes p | Inl _ \<Rightarrow> [])"

lemma read_stored_bytes: "storable v \<Longrightarrow> deserialize (PBytes (stored_bytes v)) = Inr v"
  using serializes [of v] by (auto simp: stored_bytes_def)

lemma stored_bytes_inj: "storable v \<Longrightarrow> storable w \<Longrightarrow> stored_bytes v = stored_bytes w \<Longrightarrow> v = w"
  using read_stored_bytes [of v] read_stored_bytes [of w] by (metis sum.inject(2))

end

definition sane :: "serializer_options \<Rightarrow> js \<Rightarrow> bool" where
  \<comment> \<open>a value the sanitizer returns unchanged\<close>
  "sane opts v \<longleftrightarrow> safe v \<and> nodes v \<le> so_maxNodes opts \<and> height v \<le> so_maxDepth opts"

definition json_storable :: "(real \<Rightarrow> string) \<Rightarrow> serializer_options \<Rightarrow> js \<Rightarrow> bool" where
  "json_storable ft opts v \<longleftrightarrow> whole_js v \<and> wf_js v \<and> sane opts v \<and> length (utf8_encode (json ft v)) \<le> so_maxBytes opts"

lemma sanitize_iff:
  "sanitizeStructuredData opts v = Inr v' \<longleftrightarrow> v' = strip v \<and> nodes (strip v) \<le> sz_maxNodes opts \<and> height (strip v) \<le> sz_maxDepth opts"
  by (rule sanitized_iff)

lemma sanitize_sane:
  "sane opts v \<Longrightarrow> sanitizeStructuredData \<lparr>sz_maxDepth = so_maxDepth opts, sz_maxNodes = so_maxNodes opts, sz_label = label\<rparr> v = Inr v"
  using strip_safe [of v] by (simp add: sanitize_iff sane_def)

lemma sanitize_safe: "sanitizeStructuredData opts v = Inr v' \<Longrightarrow> safe v'"
  using safe_strip by (simp add: sanitize_iff)

interpretation json: cache_serializer "json_serialize ft" "json_deserialize opts" "json_storable ft opts"
  for ft :: "real \<Rightarrow> string" and opts :: serializer_options
proof
  fix v assume v: "json_storable ft opts v"
  then have "json_serialize ft v = Inr (PText (json ft v))" "json_parse (json ft v) = Some v"
    by (auto simp: json_serialize_def json_storable_def json_parse_json)
  then show "\<exists>p. json_serialize ft v = Inr p \<and> json_deserialize opts p = Inr v \<and> json_deserialize opts (PBytes (payload_bytes p)) = Inr v"
    using v by (simp add: json_deserialize_def json_storable_def utf8_round_trip sanitize_sane)
next
  fix p v assume "json_deserialize opts p = Inr v"
  then show "safe v" by (auto simp: json_deserialize_def sanitize_safe split: if_splits option.splits)
qed

lemma msgpack_serializer:
  assumes "\<And>v. ok v \<Longrightarrow> decode (so_maxBytes opts) (nullish maxContainerLength (so_maxNodes opts)) (encode v) = Inr v"
    and "\<And>v. ok v \<Longrightarrow> sane opts v \<and> length (encode v) \<le> so_maxBytes opts"
  shows "cache_serializer (msgpack_serialize encode) (msgpack_deserialize decode maxContainerLength opts) ok"
proof
  fix v assume "ok v"
  then show "\<exists>p. msgpack_serialize encode v = Inr p \<and> msgpack_deserialize decode maxContainerLength opts p = Inr v \<and>
      msgpack_deserialize decode maxContainerLength opts (PBytes (payload_bytes p)) = Inr v"
    using assms [of v] by (simp add: msgpack_serialize_def msgpack_deserialize_def latin1_bytes_def sanitize_sane)
next
  fix p v assume "msgpack_deserialize decode maxContainerLength opts p = Inr v"
  then show "safe v" by (auto simp: msgpack_deserialize_def bind_result_Inr sanitize_safe split: if_splits)
qed

text \<open>
  C12: the JSON serializer loses nothing and lets nothing dangerous in. A value of whole numbers,
  well-formed objects and safe keys that fits the limits is read back unchanged, from its text and from its
  UTF-8 bytes; a payload over the byte limit is refused; and whatever a payload is, a value read from it
  has no dangerous key and respects the limits.
\<close>

theorem json_serializer_round_trip:
  "(json_storable ft opts v \<longrightarrow> (\<exists>p. json_serialize ft v = Inr p \<and> json_deserialize opts p = Inr v \<and>
      json_deserialize opts (PBytes (payload_bytes p)) = Inr v)) \<and>
   (length (payload_bytes p) > so_maxBytes opts \<longrightarrow> isl (json_deserialize opts p)) \<and>
   (json_deserialize opts p = Inr w \<longrightarrow> sane opts w)"
proof -
  have "sane opts w" if "json_deserialize opts p = Inr w"
    using that safe_strip by (auto simp: json_deserialize_def sanitize_iff sane_def split: if_splits option.splits)
  then show ?thesis using json.serializes [of ft opts v] by (auto simp: json_deserialize_def)
qed

definition demo_json :: js where
  "demo_json = JObj [(''id'', JNum (Fin 7)), (''tags'', JArr [JStr ''a\"'', JNull, JBool True])]"

theorem json_serializer_round_trip_witness:
  "\<exists>p. json_serialize (\<lambda>_. []) demo_json = Inr p \<and> json_deserialize (json_serializer_options None None None) p = Inr demo_json"
proof -
  have d: "decimal 7 = ''7''" by (subst decimal.simps) (simp add: char_of_def bit_simps)
  have "json_storable (\<lambda>_. []) (json_serializer_options None None None) demo_json"
    by (simp add: json_storable_def demo_json_def sane_def json_serializer_options_def is_whole_def d int_text_def DANGEROUS_KEYS_def
        enumeration_order_def is_array_index_def is_digit_def json_string_def esc_char_def)
  then show ?thesis using json_serializer_round_trip [of "\<lambda>_. []" "json_serializer_options None None None" demo_json] by blast
qed

end
