(* ===== verification/RedisLayer.thy ===== *)
theory RedisLayer
  imports LayerContract Serializers
begin

text \<open>
  The Redis layer (\<open>src/src/layers/RedisLayer.ts\<close>). The ioredis client and zlib are arguments.

  \<^item> A client is a record of the commands the layer issues, each an action on the state \<open>'c\<close> of the
    connection and the server; a command may throw. \<open>rc_duration\<close> is how long the next command takes,
    against which \<open>runCommand\<close> races its timer: the command still has its effect when the timer wins.
  \<^item> zlib is a compressor and a decompressor; the decompressor gives the chunks it emits and whether it
    ends (\<open>True\<close>) or fails.
  \<^item> Redis keeps bytes: a text payload is stored as its UTF-8 bytes. Keys are texts.
  \<^item> A \<open>SCAN\<close> loop ends when the server says so; one that never ends is \<open>None\<close>.
\<close>

subsection \<open>Client and compression\<close>

datatype redis_reply = RNil | RPayload payload | ROther

record 'c redis_client =
  rc_duration :: "'c \<Rightarrow> real"
  rc_getBuffer :: "real \<Rightarrow> string \<Rightarrow> ('c, string option) action"
  rc_set :: "real \<Rightarrow> string \<Rightarrow> payload \<Rightarrow> real option \<Rightarrow> ('c, unit) action"   \<comment> \<open>with \<open>PX\<close> when a TTL is given\<close>
  rc_del :: "real \<Rightarrow> string list \<Rightarrow> ('c, nat) action"
  rc_exists :: "real \<Rightarrow> string \<Rightarrow> ('c, nat) action"
  rc_pttl :: "real \<Rightarrow> string \<Rightarrow> ('c, real) action"
  rc_dbsize :: "real \<Rightarrow> ('c, nat) action"
  rc_scan :: "real \<Rightarrow> string \<Rightarrow> string \<Rightarrow> real \<Rightarrow> ('c, string \<times> string list) action"   \<comment> \<open>cursor, \<open>MATCH\<close>, \<open>COUNT\<close>\<close>
  rc_ping :: "real \<Rightarrow> ('c, string) action"
  rc_exec_get :: "real \<Rightarrow> string list \<Rightarrow> ('c, (error option \<times> redis_reply) list option) action"
    \<comment> \<open>\<open>exec\<close> of a pipeline of \<open>getBuffer\<close> commands\<close>
  rc_exec_set :: "real \<Rightarrow> (string \<times> payload \<times> real option) list \<Rightarrow> ('c, error option list option) action"

datatype compression = Gzip | Brotli

record zlib =
  zl_compress :: "compression \<Rightarrow> string \<Rightarrow> string"
  zl_decompress :: "compression \<Rightarrow> string \<Rightarrow> string list \<times> bool"

subsection \<open>Options\<close>

datatype serializer_option = DefaultSerializer | OneSerializer serializer | SerializerChain "serializer list"

record redis_options =
  ro_ttl :: "real option"
  ro_name :: "string option"
  ro_serializer :: serializer_option
  ro_prefix :: "string option"
  ro_allowUnprefixedClear :: "bool option"
  ro_scanCount :: "real option"
  ro_compression :: "compression option"
  ro_compressionThreshold :: "nat option"
  ro_decompressionMaxBytes :: "nat option"
  ro_decompressionMaxInputBytes :: "nat option"
  ro_decompressionMaxRatio :: "real option"
  ro_commandTimeoutMs :: "jsnum option"
  ro_disconnectOnDispose :: "bool option"

record redis_layer =
  rd_name :: string
  rd_defaultTtl :: "real option"
  rd_serializers :: "serializer list"
  rd_prefix :: string
  rd_allowUnprefixedClear :: bool
  rd_scanCount :: real
  rd_compression :: "compression option"
  rd_compressionThreshold :: nat
  rd_decompressionMaxBytes :: nat
  rd_decompressionMaxInputBytes :: nat
  rd_decompressionMaxRatio :: real
  rd_commandTimeoutMs :: "real option"
  rd_disconnectOnDispose :: bool

definition BATCH_DELETE_SIZE :: nat where "BATCH_DELETE_SIZE = 500"

definition normalizeCommandTimeoutMs :: "jsnum option \<Rightarrow> real option result" where
  "normalizeCommandTimeoutMs value =
    (case value of
       None \<Rightarrow> Inr None
     | Some (Fin x) \<Rightarrow> if x \<le> 0 then Inl (MustBePositive ''RedisLayer.commandTimeoutMs'') else Inr (Some x)
     | Some _ \<Rightarrow> Inl (MustBePositive ''RedisLayer.commandTimeoutMs''))"

definition new_redis_layer :: "(real \<Rightarrow> string) \<Rightarrow> redis_options \<Rightarrow> redis_layer result" where
  \<comment> \<open>the constructor; \<open>ft\<close> prints fractions in the default serializer\<close>
  "new_redis_layer ft options =
    bind_result (normalizeCommandTimeoutMs (ro_commandTimeoutMs options)) (\<lambda>timeout. Inr
      \<lparr>rd_name = nullish (ro_name options) ''redis'',
       rd_defaultTtl = ro_ttl options,
       rd_serializers = (case ro_serializer options of
           DefaultSerializer \<Rightarrow> [json_serializer ft (json_serializer_options None None None)]
         | OneSerializer sr \<Rightarrow> [sr]
         | SerializerChain srs \<Rightarrow> srs),
       rd_prefix = nullish (ro_prefix options) [],
       rd_allowUnprefixedClear = nullish (ro_allowUnprefixedClear options) False,
       rd_scanCount = nullish (ro_scanCount options) 100,
       rd_compression = ro_compression options,
       rd_compressionThreshold = nullish (ro_compressionThreshold options) 1024,
       rd_decompressionMaxBytes = nullish (ro_decompressionMaxBytes options) (64 * 1024 * 1024),
       rd_decompressionMaxInputBytes = nullish (ro_decompressionMaxInputBytes options) (4 * 1024 * 1024),
       rd_decompressionMaxRatio = nullish (ro_decompressionMaxRatio options) 10000,
       rd_commandTimeoutMs = timeout,
       rd_disconnectOnDispose = nullish (ro_disconnectOnDispose options) False\<rparr>)"

subsection \<open>Commands and keys\<close>

definition runCommand :: "'c redis_client \<Rightarrow> redis_layer \<Rightarrow> string \<Rightarrow> ('c, 'a) action \<Rightarrow> ('c, 'a) action" where
  \<comment> \<open>\<open>Promise.race\<close> of the command and its timer\<close>
  "runCommand cl rd operation command c =
    (case command c of (r, c') \<Rightarrow>
       case rd_commandTimeoutMs rd of
         None \<Rightarrow> (r, c')
       | Some timeout \<Rightarrow> if timeout \<noteq> 0 \<and> timeout < rc_duration cl c then (Inl (TaskTimeout operation), c') else (r, c'))"

definition withPrefix :: "redis_layer \<Rightarrow> string \<Rightarrow> string" where
  "withPrefix rd key = rd_prefix rd @ key"

definition rd_validateKey :: "string \<Rightarrow> unit result" where
  "rd_validateKey key =
    (if length key = 0 then Inl (EmptyInput ''RedisLayer: key'')
     else if length key > 1024 then Inl (TooLong ''RedisLayer: key'' 1024)
     else if list_ex control_char key then Inl (ControlCharacters ''RedisLayer: key'')
     else if list_ex surrogate key then Inl (SurrogateCodePoints ''RedisLayer: key'')
     else Inr ())"

definition displayKey :: "string \<Rightarrow> string" where
  "displayKey key = (if length key > 64 then take 64 key @ ''...'' else key)"

definition op_name :: "string \<Rightarrow> string \<Rightarrow> string" where
  \<comment> \<open>the name of a command in a timeout error\<close>
  "op_name command key = command @ ''('' @ displayKey key @ '')''"

definition primarySerializer :: "redis_layer \<Rightarrow> serializer result" where
  "primarySerializer rd =
    (case rd_serializers rd of
       [] \<Rightarrow> Inl (OtherError ''RedisLayer requires at least one serializer.'')
     | sr # _ \<Rightarrow> Inr sr)"

definition assertBulkKeyOwnership :: "redis_layer \<Rightarrow> string \<Rightarrow> unit result" where
  "assertBulkKeyOwnership rd operation =
    (if rd_prefix rd = [] \<and> \<not> rd_allowUnprefixedClear rd
     then Inl (OtherError (''RedisLayer.'' @ operation @ ''() requires a prefix or allowUnprefixedClear=true'')) else Inr ())"

subsection \<open>Compression\<close>

fun header :: "compression \<Rightarrow> string" where
  "header Gzip = ''LCZ1:gzip:''"
| "header Brotli = ''LCZ1:brotli:''"

definition encodePayload :: "zlib \<Rightarrow> redis_layer \<Rightarrow> payload \<Rightarrow> payload" where
  "encodePayload z rd p =
    (case rd_compression rd of
       None \<Rightarrow> p
     | Some algorithm \<Rightarrow>
         let source = payload_bytes p in
         if length source < rd_compressionThreshold rd then p
         else PBytes (header algorithm @ zl_compress z algorithm source))"

fun collect_chunks :: "redis_layer \<Rightarrow> real \<Rightarrow> string list \<Rightarrow> bool \<Rightarrow> string \<Rightarrow> string result" where
  \<comment> \<open>the \<open>data\<close> events, then \<open>end\<close> or \<open>error\<close>; \<open>acc\<close> is what has been emitted\<close>
  "collect_chunks rd ratioLimit [] ended acc =
    (if ended then Inr acc else Inl (OtherError ''zlib''))"
| "collect_chunks rd ratioLimit (chunk # chunks) ended acc =
    (let totalBytes = length (acc @ chunk) in
     if totalBytes > rd_decompressionMaxBytes rd \<or> real totalBytes > ratioLimit
     then Inl (TooLong ''Decompressed payload'' (rd_decompressionMaxBytes rd))
     else collect_chunks rd ratioLimit chunks ended (acc @ chunk))"

definition decompressWithLimit :: "zlib \<Rightarrow> redis_layer \<Rightarrow> compression \<Rightarrow> string \<Rightarrow> string result" where
  "decompressWithLimit z rd algorithm b =
    (if length b > rd_decompressionMaxInputBytes rd then Inl (TooLong ''Compressed payload'' (rd_decompressionMaxInputBytes rd))
     else case zl_decompress z algorithm b of (chunks, ended) \<Rightarrow>
       collect_chunks rd (real (max 1 (length b)) * rd_decompressionMaxRatio rd) chunks ended [])"

definition decodePayload :: "zlib \<Rightarrow> redis_layer \<Rightarrow> payload \<Rightarrow> payload result" where
  "decodePayload z rd p =
    (case p of
       PText s \<Rightarrow> Inr p
     | PBytes b \<Rightarrow>
         if take 10 b = header Gzip then
           (if rd_compression rd \<noteq> Some Gzip then Inr p else map_sum id PBytes (decompressWithLimit z rd Gzip (drop 10 b)))
         else if take 12 b = header Brotli then
           (if rd_compression rd \<noteq> Some Brotli then Inr p else map_sum id PBytes (decompressWithLimit z rd Brotli (drop 12 b)))
         else Inr p)"

subsection \<open>Reading\<close>

definition rd_deleteCorruptedKey :: "'c redis_client \<Rightarrow> redis_layer \<Rightarrow> real \<Rightarrow> string \<Rightarrow> 'c \<Rightarrow> 'c" where
  \<comment> \<open>a failing delete is only logged\<close>
  "rd_deleteCorruptedKey cl rd t key c =
    snd (runCommand cl rd (op_name ''deleteCorrupted'' key) (rc_del cl t [withPrefix rd key]) c)"

definition rewriteWithPrimarySerializer :: "'c redis_client \<Rightarrow> zlib \<Rightarrow> redis_layer \<Rightarrow> real \<Rightarrow> string \<Rightarrow> js \<Rightarrow> ('c, unit) action" where
  "rewriteWithPrimarySerializer cl z rd t key v =
    (case bind_result (primarySerializer rd) (\<lambda>sr. sr_serialize sr v) of
       Inl e \<Rightarrow> throw_error e
     | Inr serialized \<Rightarrow>
         let payload = encodePayload z rd serialized in
         andthen (runCommand cl rd (op_name ''rewrite-ttl'' key) (rc_pttl cl t (withPrefix rd key))) (\<lambda>ttl.
           if ttl > 0 then runCommand cl rd (op_name ''rewrite-set'' key) (rc_set cl t (withPrefix rd key) payload (Some ttl))
           else runCommand cl rd (op_name ''rewrite-set'' key) (rc_set cl t (withPrefix rd key) payload None)))"

fun try_serializers ::
    "'c redis_client \<Rightarrow> zlib \<Rightarrow> redis_layer \<Rightarrow> real \<Rightarrow> string \<Rightarrow> payload \<Rightarrow> bool \<Rightarrow> serializer list \<Rightarrow> 'c \<Rightarrow> js option \<times> 'c" where
  \<comment> \<open>the loop over the serializers; \<open>primary\<close>: the next one is the primary one\<close>
  "try_serializers cl z rd t key decoded primary [] c = (None, c)"
| "try_serializers cl z rd t key decoded primary (sr # srs) c =
    (case sr_deserialize sr decoded of
       Inl _ \<Rightarrow> try_serializers cl z rd t key decoded False srs c
     | Inr v \<Rightarrow> (Some v, if primary then c else snd (rewriteWithPrimarySerializer cl z rd t key v c)))"

definition deserializeOrDelete :: "'c redis_client \<Rightarrow> zlib \<Rightarrow> redis_layer \<Rightarrow> real \<Rightarrow> string \<Rightarrow> payload \<Rightarrow> 'c \<Rightarrow> js \<times> 'c" where
  "deserializeOrDelete cl z rd t key payload c =
    (case decodePayload z rd payload of
       Inl _ \<Rightarrow> (JNull, rd_deleteCorruptedKey cl rd t key c)
     | Inr decoded \<Rightarrow>
         (case try_serializers cl z rd t key decoded True (rd_serializers rd) c of
            (Some v, c') \<Rightarrow> (v, c')
          | (None, c') \<Rightarrow> (JNull, rd_deleteCorruptedKey cl rd t key c')))"

definition checked :: "unit result \<Rightarrow> ('c, 'a) action \<Rightarrow> ('c, 'a) action" where
  \<comment> \<open>a validation that may throw, then the rest\<close>
  "checked r m c = (case r of Inl e \<Rightarrow> (Inl e, c) | Inr _ \<Rightarrow> m c)"

definition rd_getEntry :: "'c redis_client \<Rightarrow> zlib \<Rightarrow> redis_layer \<Rightarrow> real \<Rightarrow> string \<Rightarrow> ('c, js) action" where
  "rd_getEntry cl z rd t key =
    checked (rd_validateKey key)
      (andthen (runCommand cl rd (op_name ''get'' key) (rc_getBuffer cl t (withPrefix rd key)))
        (\<lambda>payload. case payload of
           None \<Rightarrow> ret JNull
         | Some b \<Rightarrow> (\<lambda>c. case deserializeOrDelete cl z rd t key (PBytes b) c of (v, c') \<Rightarrow> (Inr v, c'))))"

definition rd_get :: "'c redis_client \<Rightarrow> zlib \<Rightarrow> redis_layer \<Rightarrow> real \<Rightarrow> string \<Rightarrow> ('c, js) action" where
  "rd_get cl z rd t key = andthen (rd_getEntry cl z rd t key) (\<lambda>payload. ret (unwrapStoredValue t payload))"

fun read_results ::
    "'c redis_client \<Rightarrow> zlib \<Rightarrow> redis_layer \<Rightarrow> real \<Rightarrow> string list \<Rightarrow> (error option \<times> redis_reply) list \<Rightarrow> 'c \<Rightarrow> js list \<times> 'c" where
  \<comment> \<open>\<open>results.map(...)\<close>; a result without a key is read under the empty one\<close>
  "read_results cl z rd t keys [] c = ([], c)"
| "read_results cl z rd t keys ((err, reply) # results) c =
    (case (case (err, reply) of
             (None, RPayload payload) \<Rightarrow> deserializeOrDelete cl z rd t (case keys of [] \<Rightarrow> [] | k # _ \<Rightarrow> k) payload c
           | _ \<Rightarrow> (JNull, c)) of
       (v, c1) \<Rightarrow> (case read_results cl z rd t (tl keys) results c1 of (vs, c2) \<Rightarrow> (v # vs, c2)))"

definition rd_getMany :: "'c redis_client \<Rightarrow> zlib \<Rightarrow> redis_layer \<Rightarrow> real \<Rightarrow> string list \<Rightarrow> ('c, js list) action" where
  "rd_getMany cl z rd t keys =
    (if keys = [] then ret []
     else checked (validate_each rd_validateKey keys)
       (andthen (runCommand cl rd ''mget'' (rc_exec_get cl t (map (withPrefix rd) keys)))
         (\<lambda>results. case results of
            None \<Rightarrow> ret (map (\<lambda>_. JNull) keys)
          | Some rs \<Rightarrow> (\<lambda>c. case read_results cl z rd t keys rs c of (vs, c') \<Rightarrow> (Inr vs, c')))))"

definition rd_has :: "'c redis_client \<Rightarrow> redis_layer \<Rightarrow> real \<Rightarrow> string \<Rightarrow> ('c, bool) action" where
  "rd_has cl rd t key =
    checked (rd_validateKey key)
      (andthen (runCommand cl rd (op_name ''has'' key) (rc_exists cl t (withPrefix rd key))) (\<lambda>n. ret (n > 0)))"

definition rd_ttl :: "'c redis_client \<Rightarrow> redis_layer \<Rightarrow> real \<Rightarrow> string \<Rightarrow> ('c, real option) action" where
  "rd_ttl cl rd t key =
    checked (rd_validateKey key)
      (andthen (runCommand cl rd (op_name ''ttl'' key) (rc_pttl cl t (withPrefix rd key)))
        (\<lambda>remaining. ret (if remaining < 0 then None else Some remaining)))"

definition rd_ping :: "'c redis_client \<Rightarrow> redis_layer \<Rightarrow> real \<Rightarrow> ('c, bool) action" where
  "rd_ping cl rd t c =
    (case runCommand cl rd ''ping()'' (rc_ping cl t) c of
       (Inl _, c') \<Rightarrow> (Inr False, c')
     | (Inr answer, c') \<Rightarrow> (Inr (answer = ''PONG''), c'))"

subsection \<open>Writing\<close>

definition px :: "real option \<Rightarrow> real option" where
  \<comment> \<open>\<open>PX\<close> is given when \<open>ttl && ttl > 0\<close>\<close>
  "px ttl = (case ttl of None \<Rightarrow> None | Some x \<Rightarrow> if x > 0 then Some x else None)"

definition encoded :: "zlib \<Rightarrow> redis_layer \<Rightarrow> js \<Rightarrow> payload result" where
  \<comment> \<open>serialize with the primary serializer, then \<open>encodePayload\<close>\<close>
  "encoded z rd v = bind_result (primarySerializer rd) (\<lambda>sr. map_sum id (encodePayload z rd) (sr_serialize sr v))"

definition rd_set :: "'c redis_client \<Rightarrow> zlib \<Rightarrow> redis_layer \<Rightarrow> real \<Rightarrow> string \<Rightarrow> js \<Rightarrow> real option \<Rightarrow> ('c, unit) action" where
  "rd_set cl z rd t key v ttl =
    checked (rd_validateKey key)
      (case encoded z rd v of
         Inl e \<Rightarrow> throw_error e
       | Inr payload \<Rightarrow>
           runCommand cl rd (op_name ''set'' key)
             (rc_set cl t (withPrefix rd key) payload (px (nullish_opt ttl (rd_defaultTtl rd)))))"

fun pipeline_of :: "zlib \<Rightarrow> redis_layer \<Rightarrow> set_many_entry list \<Rightarrow> (string \<times> payload \<times> real option) list result" where
  "pipeline_of z rd [] = Inr []"
| "pipeline_of z rd (e # es) =
    bind_result (encoded z rd (sm_value e)) (\<lambda>payload.
      map_sum id (Cons (withPrefix rd (sm_key e), payload, px (sm_ttl e))) (pipeline_of z rd es))"

definition rd_setMany :: "'c redis_client \<Rightarrow> zlib \<Rightarrow> redis_layer \<Rightarrow> real \<Rightarrow> set_many_entry list \<Rightarrow> ('c, unit) action" where
  \<comment> \<open>the results of the single commands are not looked at\<close>
  "rd_setMany cl z rd t entries =
    (if entries = [] then ret ()
     else checked (validate_each (\<lambda>e. rd_validateKey (sm_key e)) entries)
       (case pipeline_of z rd entries of
          Inl e \<Rightarrow> throw_error e
        | Inr commands \<Rightarrow> andthen (runCommand cl rd ''mset'' (rc_exec_set cl t commands)) (\<lambda>_. ret ())))"

definition rd_delete :: "'c redis_client \<Rightarrow> redis_layer \<Rightarrow> real \<Rightarrow> string \<Rightarrow> ('c, unit) action" where
  "rd_delete cl rd t key =
    checked (rd_validateKey key)
      (andthen (runCommand cl rd (op_name ''delete'' key) (rc_del cl t [withPrefix rd key])) (\<lambda>_. ret ()))"

definition rd_deleteMany :: "'c redis_client \<Rightarrow> redis_layer \<Rightarrow> real \<Rightarrow> string list \<Rightarrow> ('c, unit) action" where
  "rd_deleteMany cl rd t keys =
    (if keys = [] then ret ()
     else checked (validate_each rd_validateKey keys)
       (andthen (runCommand cl rd ''deleteMany'' (rc_del cl t (map (withPrefix rd) keys))) (\<lambda>_. ret ())))"

subsection \<open>Scans\<close>

partial_function (option) scan_loop ::
    "(string \<Rightarrow> ('c, string \<times> string list) action) \<Rightarrow> (string list \<Rightarrow> ('c, unit) action) \<Rightarrow> string \<Rightarrow> 'c \<Rightarrow> (string list result \<times> 'c) option" where
  \<comment> \<open>\<open>do { [nextCursor, keys] = await scan(cursor); ...; } while (cursor !== '0')\<close>, with the keys scanned\<close>
  "scan_loop scan body cursor c =
    (case scan cursor c of
       (Inl e, c1) \<Rightarrow> Some (Inl e, c1)
     | (Inr (nextCursor, keys), c1) \<Rightarrow>
         (case body keys c1 of
            (Inl e, c2) \<Rightarrow> Some (Inl e, c2)
          | (Inr _, c2) \<Rightarrow>
              if nextCursor = ''0'' then Some (Inr keys, c2)
              else Option.bind (scan_loop scan body nextCursor c2) (\<lambda>(r, c3). Some (map_sum id (\<lambda>ks. keys @ ks) r, c3))))"

definition scan_pattern :: "redis_layer \<Rightarrow> string" where
  "scan_pattern rd = rd_prefix rd @ ''*''"

definition scan_page :: "'c redis_client \<Rightarrow> redis_layer \<Rightarrow> real \<Rightarrow> string \<Rightarrow> ('c, string \<times> string list) action" where
  "scan_page cl rd t cursor = runCommand cl rd ''scan'' (rc_scan cl t cursor (scan_pattern rd) (rd_scanCount rd))"

definition scanKeys :: "'c redis_client \<Rightarrow> redis_layer \<Rightarrow> real \<Rightarrow> 'c \<Rightarrow> (string list result \<times> 'c) option" where
  "scanKeys cl rd t = scan_loop (scan_page cl rd t) (\<lambda>_. ret ()) ''0''"

definition rd_size :: "'c redis_client \<Rightarrow> redis_layer \<Rightarrow> real \<Rightarrow> 'c \<Rightarrow> (nat result \<times> 'c) option" where
  "rd_size cl rd t c =
    (if rd_prefix rd = [] then Some (runCommand cl rd ''dbsize()'' (rc_dbsize cl t) c)
     else map_option (\<lambda>(r, c'). (map_sum id length r, c')) (scanKeys cl rd t c))"

definition rd_keys :: "'c redis_client \<Rightarrow> redis_layer \<Rightarrow> real \<Rightarrow> 'c \<Rightarrow> (string list result \<times> 'c) option" where
  "rd_keys cl rd t c =
    (case assertBulkKeyOwnership rd ''keys'' of
       Inl e \<Rightarrow> Some (Inl e, c)
     | Inr _ \<Rightarrow> map_option (\<lambda>(r, c'). (map_sum id (\<lambda>keys. if rd_prefix rd = [] then keys else map (drop (length (rd_prefix rd))) keys) r, c'))
         (scanKeys cl rd t c))"

partial_function (option) scanned_pages :: "(string \<Rightarrow> ('c, string \<times> string list) action) \<Rightarrow> string \<Rightarrow> 'c \<Rightarrow> string list option" where
  \<comment> \<open>the keys of the pages a scan gets before it fails or ends\<close>
  "scanned_pages scan cursor c =
    (case scan cursor c of
       (Inl e, c1) \<Rightarrow> Some []
     | (Inr (nextCursor, keys), c1) \<Rightarrow>
         if nextCursor = ''0'' then Some keys else Option.bind (scanned_pages scan nextCursor c1) (\<lambda>ks. Some (keys @ ks)))"

definition rd_visited :: "'c redis_client \<Rightarrow> redis_layer \<Rightarrow> real \<Rightarrow> 'c \<Rightarrow> string list" where
  \<comment> \<open>what \<open>forEachKey\<close> has handed to its visitor when it fails\<close>
  "rd_visited cl rd t c =
    (case assertBulkKeyOwnership rd ''forEachKey'' of
       Inl e \<Rightarrow> []
     | Inr _ \<Rightarrow> map (\<lambda>key. if rd_prefix rd \<noteq> [] then drop (length (rd_prefix rd)) key else key) (nullish (scanned_pages (scan_page cl rd t) ''0'' c) []))"

fun visit_keys :: "'c redis_client \<Rightarrow> redis_layer \<Rightarrow> (string \<Rightarrow> ('c, unit) action) \<Rightarrow> string list \<Rightarrow> ('c, unit) action" where
  "visit_keys cl rd visitor [] c = (Inr (), c)"
| "visit_keys cl rd visitor (key # keys) c =
    (case visitor (if rd_prefix rd \<noteq> [] then drop (length (rd_prefix rd)) key else key) c of
       (Inl e, c') \<Rightarrow> (Inl e, c')
     | (Inr _, c') \<Rightarrow> visit_keys cl rd visitor keys c')"

definition rd_forEachKey ::
    "'c redis_client \<Rightarrow> redis_layer \<Rightarrow> real \<Rightarrow> (string \<Rightarrow> ('c, unit) action) \<Rightarrow> 'c \<Rightarrow> (unit result \<times> 'c) option" where
  "rd_forEachKey cl rd t visitor c =
    (case assertBulkKeyOwnership rd ''forEachKey'' of
       Inl e \<Rightarrow> Some (Inl e, c)
     | Inr _ \<Rightarrow> map_option (\<lambda>(r, c'). (map_sum id (\<lambda>_. ()) r, c')) (scan_loop (scan_page cl rd t) (visit_keys cl rd visitor) ''0'' c))"

function delete_batches :: "'c redis_client \<Rightarrow> redis_layer \<Rightarrow> real \<Rightarrow> string list \<Rightarrow> ('c, unit) action" where
  \<comment> \<open>\<open>for (i = 0; i < keys.length; i += BATCH_DELETE_SIZE)\<close>\<close>
  "delete_batches cl rd t keys c =
    (if keys = [] then (Inr (), c)
     else case runCommand cl rd ''clear-del'' (rc_del cl t (take BATCH_DELETE_SIZE keys)) c of
            (Inl e, c') \<Rightarrow> (Inl e, c')
          | (Inr _, c') \<Rightarrow> delete_batches cl rd t (drop BATCH_DELETE_SIZE keys) c')"
  by pat_completeness auto
termination by (relation "measure (\<lambda>(_, _, _, keys, _). length keys)") (auto simp: BATCH_DELETE_SIZE_def)

declare delete_batches.simps [simp del]

definition rd_clear :: "'c redis_client \<Rightarrow> redis_layer \<Rightarrow> real \<Rightarrow> 'c \<Rightarrow> (unit result \<times> 'c) option" where
  "rd_clear cl rd t c =
    (if rd_prefix rd = [] \<and> \<not> rd_allowUnprefixedClear rd
     then Some (Inl (OtherError ''RedisLayer.clear() requires a prefix or allowUnprefixedClear=true''), c)
     else map_option (\<lambda>(r, c'). (map_sum id (\<lambda>_. ()) r, c')) (scan_loop (scan_page cl rd t) (delete_batches cl rd t) ''0'' c))"

subsection \<open>As a layer of the stack\<close>

definition returned :: "(('a result \<times> 'c) option) \<Rightarrow> 'c \<Rightarrow> 'a result \<times> 'c" where
  \<comment> \<open>a loop that never ends has no result; the stack's actions return, so it stands as an error\<close>
  "returned r c = (case r of Some x \<Rightarrow> x | None \<Rightarrow> (Inl (OtherError ''never returns''), c))"

definition redis_api :: "'c redis_client \<Rightarrow> zlib \<Rightarrow> redis_layer \<Rightarrow> 'c layer_api" where
  "redis_api cl z rd = \<lparr>
     la_get = rd_get cl z rd,
     la_getEntry = Some (rd_getEntry cl z rd),
     la_getMany = Some (rd_getMany cl z rd),
     la_set = rd_set cl z rd,
     la_setMany = Some (rd_setMany cl z rd),
     la_delete = rd_delete cl rd,
     la_deleteMany = Some (rd_deleteMany cl rd),
     la_clear = (\<lambda>t c. returned (rd_clear cl rd t c) c),
     la_has = Some (rd_has cl rd),
     la_ttl = Some (rd_ttl cl rd),
     la_keys = Some (\<lambda>t c. returned (rd_keys cl rd t c) c),
     la_visited = rd_visited cl rd\<rparr>"

end
