(* ===== verification/RedisContract.thy ===== *)
theory RedisContract
  imports RedisLayer
begin

text \<open>
  What the Redis layer relies on in the server, and that on such a server it keeps the contract of a
  layer of the stack (theory LayerContract).

  \<^item> A view of the server gives the states it can be in, the bytes and the expiry instant it holds under a
    key, and for a running \<open>SCAN\<close> the keys still to be reported and a bound on the remaining pages.
  \<^item> \<open>redis_server\<close> states the documented behaviour of the commands on such a view: \<open>SET\<close> with \<open>PX\<close>, expiry,
    \<open>DEL\<close>, \<open>EXISTS\<close>, \<open>PTTL\<close>, and the guarantee of \<open>SCAN\<close> that a full iteration reports every key present
    throughout. It is assumed for prefixes without glob characters, where the pattern means what it says.
\<close>

subsection \<open>The server\<close>

record 'c redis_view =
  rv_inv :: "'c \<Rightarrow> bool"
  rv_holds :: "'c \<Rightarrow> string \<Rightarrow> (string \<times> real option) option"
  rv_pending :: "'c \<Rightarrow> string \<Rightarrow> string \<Rightarrow> string set"
  rv_work :: "'c \<Rightarrow> string \<Rightarrow> string \<Rightarrow> nat"

definition shown :: "'c redis_view \<Rightarrow> real \<Rightarrow> 'c \<Rightarrow> string \<Rightarrow> string option" where
  \<comment> \<open>the bytes a read at time \<open>t\<close> gets\<close>
  "shown rv t c k = (case rv_holds rv c k of
       None \<Rightarrow> None
     | Some (b, None) \<Rightarrow> Some b
     | Some (b, Some e) \<Rightarrow> if t < e then Some b else None)"

definition left_of :: "'c redis_view \<Rightarrow> real \<Rightarrow> 'c \<Rightarrow> string \<Rightarrow> real" where
  "left_of rv t c k = (if shown rv t c k = None then -2 else case snd (the (rv_holds rv c k)) of None \<Rightarrow> -1 | Some e \<Rightarrow> e - t)"

definition steps_to :: "'c redis_view \<Rightarrow> real \<Rightarrow> string set \<Rightarrow> 'c \<Rightarrow> 'c \<Rightarrow> bool" where
  \<comment> \<open>a command at time \<open>t\<close> that touches at most the keys \<open>ks\<close>\<close>
  "steps_to rv t ks c c' \<longleftrightarrow> rv_inv rv c' \<and> dom (rv_holds rv c') \<subseteq> dom (rv_holds rv c) \<union> ks \<and>
     (\<forall>k t'. k \<notin> ks \<longrightarrow> t \<le> t' \<longrightarrow> shown rv t' c' k = shown rv t' c k)"

definition plain :: "string \<Rightarrow> bool" where
  \<comment> \<open>no character that a Redis pattern treats specially\<close>
  "plain p \<longleftrightarrow> list_all (\<lambda>ch. ch \<notin> set ''*?[]^'' \<and> (of_char ch :: nat) \<noteq> 92) p"

definition server_reads :: "'c redis_client \<Rightarrow> 'c redis_view \<Rightarrow> bool" where
  "server_reads cl rv \<longleftrightarrow> (\<forall>t c k. rv_inv rv c \<longrightarrow>
     (\<exists>c'. rc_getBuffer cl t k c = (Inr (shown rv t c k), c') \<and> steps_to rv t {} c c') \<and>
     (\<exists>c'. rc_exists cl t k c = (Inr (if shown rv t c k = None then 0 else 1), c') \<and> steps_to rv t {} c c') \<and>
     (\<exists>c'. rc_pttl cl t k c = (Inr (left_of rv t c k), c') \<and> steps_to rv t {} c c'))"

definition server_writes :: "'c redis_client \<Rightarrow> 'c redis_view \<Rightarrow> bool" where
  \<comment> \<open>\<open>PX\<close> takes a positive whole number of milliseconds\<close>
  "server_writes cl rv \<longleftrightarrow> (\<forall>t c k p ttl. rv_inv rv c \<longrightarrow> (case ttl of None \<Rightarrow> True | Some x \<Rightarrow> 0 < x \<and> math_ceil x = x) \<longrightarrow>
     (\<exists>c'. rc_set cl t k p ttl c = (Inr (), c') \<and> steps_to rv t {k} c c' \<and>
        (\<forall>t'. t \<le> t' \<longrightarrow> shown rv t' c' k = (if alive t ttl t' then Some (payload_bytes p) else None))))"

definition server_deletes :: "'c redis_client \<Rightarrow> 'c redis_view \<Rightarrow> bool" where
  "server_deletes cl rv \<longleftrightarrow> (\<forall>t c ks. rv_inv rv c \<longrightarrow> ks \<noteq> [] \<longrightarrow>
     (\<exists>n c'. rc_del cl t ks c = (Inr n, c') \<and> steps_to rv t (set ks) c c' \<and> dom (rv_holds rv c') \<subseteq> dom (rv_holds rv c) \<and>
        (\<forall>k \<in> set ks. \<forall>t'. t \<le> t' \<longrightarrow> shown rv t' c' k = None) \<and>
        (\<forall>p cur. rv_pending rv c p cur - set ks \<subseteq> rv_pending rv c' p cur \<and> rv_work rv c' p cur \<le> rv_work rv c p cur)))"

definition server_scans :: "'c redis_client \<Rightarrow> 'c redis_view \<Rightarrow> bool" where
  "server_scans cl rv \<longleftrightarrow> (\<forall>t c p cur n. rv_inv rv c \<longrightarrow> plain p \<longrightarrow> 1 \<le> n \<longrightarrow> math_ceil n = n \<longrightarrow>
     {k. rv_holds rv c k \<noteq> None \<and> starts_with k p} \<subseteq> rv_pending rv c p ''0'' \<and>
     (\<exists>cur' ks c'. rc_scan cl t cur (p @ ''*'') n c = (Inr (cur', ks), c') \<and> steps_to rv t {} c c' \<and>
        (\<forall>k \<in> set ks. starts_with k p \<and> shown rv t c k \<noteq> None) \<and>
        {k \<in> rv_pending rv c p cur. shown rv t c k \<noteq> None} \<subseteq> set ks \<union> (if cur' = ''0'' then {} else rv_pending rv c' p cur') \<and>
        (cur' \<noteq> ''0'' \<longrightarrow> rv_work rv c' p cur' < rv_work rv c p cur)))"

definition redis_server :: "'c redis_client \<Rightarrow> 'c redis_view \<Rightarrow> bool" where
  "redis_server cl rv \<longleftrightarrow> server_reads cl rv \<and> server_writes cl rv \<and> server_deletes cl rv \<and> server_scans cl rv"

lemma serves:
  assumes "redis_server cl rv" "rv_inv rv c"
  shows serves_get: "\<exists>c'. rc_getBuffer cl t k c = (Inr (shown rv t c k), c') \<and> steps_to rv t {} c c'"
    and serves_exists: "\<exists>c'. rc_exists cl t k c = (Inr (if shown rv t c k = None then 0 else 1), c') \<and> steps_to rv t {} c c'"
    and serves_pttl: "\<exists>c'. rc_pttl cl t k c = (Inr (left_of rv t c k), c') \<and> steps_to rv t {} c c'"
    and serves_set: "(case ttl of None \<Rightarrow> True | Some x \<Rightarrow> 0 < x \<and> math_ceil x = x) \<Longrightarrow>
      \<exists>c'. rc_set cl t k p ttl c = (Inr (), c') \<and> steps_to rv t {k} c c' \<and>
        (\<forall>t'. t \<le> t' \<longrightarrow> shown rv t' c' k = (if alive t ttl t' then Some (payload_bytes p) else None))"
    and serves_del: "ks \<noteq> [] \<Longrightarrow> \<exists>n c'. rc_del cl t ks c = (Inr n, c') \<and> steps_to rv t (set ks) c c' \<and>
        dom (rv_holds rv c') \<subseteq> dom (rv_holds rv c) \<and> (\<forall>k \<in> set ks. \<forall>t'. t \<le> t' \<longrightarrow> shown rv t' c' k = None) \<and>
        (\<forall>p cur. rv_pending rv c p cur - set ks \<subseteq> rv_pending rv c' p cur \<and> rv_work rv c' p cur \<le> rv_work rv c p cur)"
proof -
  have r: "server_reads cl rv" "server_writes cl rv" "server_deletes cl rv" using assms(1) by (simp_all add: redis_server_def)
  show "\<exists>c'. rc_getBuffer cl t k c = (Inr (shown rv t c k), c') \<and> steps_to rv t {} c c'"
    "\<exists>c'. rc_exists cl t k c = (Inr (if shown rv t c k = None then 0 else 1), c') \<and> steps_to rv t {} c c'"
    "\<exists>c'. rc_pttl cl t k c = (Inr (left_of rv t c k), c') \<and> steps_to rv t {} c c'"
    using r(1) [unfolded server_reads_def, rule_format, OF assms(2), of t k] by simp_all
  show "\<exists>c'. rc_set cl t k p ttl c = (Inr (), c') \<and> steps_to rv t {k} c c' \<and>
      (\<forall>t'. t \<le> t' \<longrightarrow> shown rv t' c' k = (if alive t ttl t' then Some (payload_bytes p) else None))"
    if "case ttl of None \<Rightarrow> True | Some x \<Rightarrow> 0 < x \<and> math_ceil x = x"
    using r(2) [unfolded server_writes_def] assms(2) that by simp
  show "\<exists>n c'. rc_del cl t ks c = (Inr n, c') \<and> steps_to rv t (set ks) c c' \<and>
      dom (rv_holds rv c') \<subseteq> dom (rv_holds rv c) \<and> (\<forall>k \<in> set ks. \<forall>t'. t \<le> t' \<longrightarrow> shown rv t' c' k = None) \<and>
      (\<forall>p cur. rv_pending rv c p cur - set ks \<subseteq> rv_pending rv c' p cur \<and> rv_work rv c' p cur \<le> rv_work rv c p cur)"
    if "ks \<noteq> []"
    using r(3) [unfolded server_deletes_def] assms(2) that by simp
qed

lemma serves_scan:
  assumes "redis_server cl rv" "rv_inv rv c" "plain p" "1 \<le> n" "math_ceil n = n"
  obtains cur' ks c' where "rc_scan cl t cur (p @ ''*'') n c = (Inr (cur', ks), c')" "steps_to rv t {} c c'"
    "\<forall>k \<in> set ks. starts_with k p \<and> shown rv t c k \<noteq> None"
    "{k \<in> rv_pending rv c p cur. shown rv t c k \<noteq> None} \<subseteq> set ks \<union> (if cur' = ''0'' then {} else rv_pending rv c' p cur')"
    "cur' \<noteq> ''0'' \<longrightarrow> rv_work rv c' p cur' < rv_work rv c p cur"
proof -
  have "server_scans cl rv" using assms(1) by (simp add: redis_server_def)
  from this [unfolded server_scans_def] assms(2-) have
    "\<exists>cur' ks c'. rc_scan cl t cur (p @ ''*'') n c = (Inr (cur', ks), c') \<and> steps_to rv t {} c c' \<and>
        (\<forall>k \<in> set ks. starts_with k p \<and> shown rv t c k \<noteq> None) \<and>
        {k \<in> rv_pending rv c p cur. shown rv t c k \<noteq> None} \<subseteq> set ks \<union> (if cur' = ''0'' then {} else rv_pending rv c' p cur') \<and>
        (cur' \<noteq> ''0'' \<longrightarrow> rv_work rv c' p cur' < rv_work rv c p cur)" by blast
  then show thesis by (elim exE conjE) (rule that)
qed

lemma scan_starts:
  "redis_server cl rv \<Longrightarrow> rv_inv rv c \<Longrightarrow> plain p \<Longrightarrow> {k. rv_holds rv c k \<noteq> None \<and> starts_with k p} \<subseteq> rv_pending rv c p ''0''"
proof -
  assume a: "redis_server cl rv" "rv_inv rv c" "plain p"
  then have "server_scans cl rv" by (simp add: redis_server_def)
  from this [unfolded server_scans_def, rule_format, OF a(2,3), of 1] show ?thesis
    using math_ceil_int [of 1] by auto
qed

subsection \<open>The layer's contract\<close>

definition read_bytes :: "zlib \<Rightarrow> redis_layer \<Rightarrow> string \<Rightarrow> js" where
  \<comment> \<open>what the layer makes of stored bytes\<close>
  "read_bytes z rd b =
    (case bind_result (decodePayload z rd (PBytes b)) (\<lambda>d. bind_result (primarySerializer rd) (\<lambda>sr. sr_deserialize sr d)) of
       Inl _ \<Rightarrow> JNull | Inr v \<Rightarrow> v)"

definition redis_contract :: "'c redis_view \<Rightarrow> zlib \<Rightarrow> redis_layer \<Rightarrow> 'c contract" where
  "redis_contract rv z rd = \<lparr>
     ct_ok = (\<lambda>c. rv_inv rv c \<and> (\<forall>k. rv_holds rv c (withPrefix rd k) \<noteq> None \<longrightarrow> clean_name k)),
     ct_answer = (\<lambda>t c k. case shown rv t c (withPrefix rd k) of None \<Rightarrow> JNull | Some b \<Rightarrow> read_bytes z rd b),
     ct_dflt = (\<lambda>_. rd_defaultTtl rd),
     ct_key = clean_name,
     ct_value = (\<lambda>v. case encoded z rd v of Inl _ \<Rightarrow> False | Inr p \<Rightarrow> read_bytes z rd (payload_bytes p) = v),
     ct_ttl = (\<lambda>_ ttl. case nullish_opt ttl (rd_defaultTtl rd) of None \<Rightarrow> True | Some x \<Rightarrow> x \<le> 0 \<or> math_ceil x = x)\<rparr>"

definition redis_config_ok :: "'c redis_client \<Rightarrow> 'c redis_view \<Rightarrow> redis_layer \<Rightarrow> bool" where
  \<comment> \<open>one serializer, a prefix that can be scanned for, and a server that answers before the timeout\<close>
  "redis_config_ok cl rv rd \<longleftrightarrow> (\<exists>sr. rd_serializers rd = [sr]) \<and> plain (rd_prefix rd) \<and>
     (rd_prefix rd \<noteq> [] \<or> rd_allowUnprefixedClear rd) \<and> 1 \<le> rd_scanCount rd \<and> math_ceil (rd_scanCount rd) = rd_scanCount rd \<and>
     (\<forall>c timeout. rv_inv rv c \<longrightarrow> rd_commandTimeoutMs rd = Some timeout \<longrightarrow> rc_duration cl c \<le> timeout)"

lemma shown_later: "shown rv t' c k = Some b \<Longrightarrow> t \<le> t' \<Longrightarrow> shown rv t c k = Some b"
  by (auto simp: shown_def split: option.splits if_splits)

lemma shown_holds: "shown rv t c k \<noteq> None \<Longrightarrow> rv_holds rv c k \<noteq> None"
  by (auto simp: shown_def split: option.splits)

lemma runCommand_quick:
  "redis_config_ok cl rv rd \<Longrightarrow> rv_inv rv c \<Longrightarrow> runCommand cl rd operation command c = command c"
  by (auto simp: runCommand_def redis_config_ok_def not_less [symmetric] split: prod.split option.split)

lemma rd_validate_iff: "rd_validateKey k = Inr () \<longleftrightarrow> clean_name k"
  by (auto simp: rd_validateKey_def clean_name_def MAX_CACHE_KEY_LENGTH_def list_ex_iff)

lemma rd_validate_clean [simp]: "clean_name k \<Longrightarrow> rd_validateKey k = Inr ()"
  by (simp add: rd_validate_iff)

lemma rd_validate_each [simp]: "\<forall>k \<in> set ks. clean_name k \<Longrightarrow> validate_each rd_validateKey ks = Inr ()"
  by (simp add: validate_each_iff)

lemma steps_to_trans:
  assumes "steps_to rv t A c c1" "steps_to rv t B c1 c2"
  shows "steps_to rv t (A \<union> B) c c2"
proof -
  have "dom (rv_holds rv c2) \<subseteq> dom (rv_holds rv c) \<union> (A \<union> B)" using assms unfolding steps_to_def by blast
  then show ?thesis using assms by (simp add: steps_to_def)
qed

lemma withPrefix_inj [simp]: "withPrefix rd k = withPrefix rd k' \<longleftrightarrow> k = k'"
  by (simp add: withPrefix_def)

lemma withPrefix_image [simp]: "withPrefix rd k \<in> withPrefix rd ` S \<longleftrightarrow> k \<in> S"
  by auto

lemma steps_to_ok:
  assumes "ct_ok (redis_contract rv z rd) c" "steps_to rv t ks c c'" "\<And>k. withPrefix rd k \<in> ks \<Longrightarrow> clean_name k"
  shows "ct_ok (redis_contract rv z rd) c'"
  using assms by (auto simp: redis_contract_def steps_to_def)

subsection \<open>Reads\<close>

lemma deserialize_outcome:
  assumes "redis_config_ok cl rv rd"
  shows "deserializeOrDelete cl z rd t k (PBytes b) c = (read_bytes z rd b, c) \<or>
    read_bytes z rd b = JNull \<and> deserializeOrDelete cl z rd t k (PBytes b) c = (JNull, rd_deleteCorruptedKey cl rd t k c)"
proof -
  obtain sr where sr: "rd_serializers rd = [sr]" using assms by (auto simp: redis_config_ok_def)
  show ?thesis
    by (cases "decodePayload z rd (PBytes b)") (auto simp: deserializeOrDelete_def read_bytes_def primarySerializer_def sr split: sum.splits)
qed

lemma contract_read:
  assumes "redis_server cl rv" "redis_config_ok cl rv rd" "ct_ok (redis_contract rv z rd) c" "clean_name k"
  shows "\<exists>c'. rd_getEntry cl z rd t k c = (Inr (ct_answer (redis_contract rv z rd) t c k), c') \<and> ct_ok (redis_contract rv z rd) c' \<and>
    (\<forall>t' k'. t \<le> t' \<longrightarrow> ct_answer (redis_contract rv z rd) t' c' k' = ct_answer (redis_contract rv z rd) t' c k')"
proof -
  let ?ct = "redis_contract rv z rd" and ?k = "withPrefix rd k"
  have inv: "rv_inv rv c" using assms(3) by (simp add: redis_contract_def)
  obtain c1 where c1: "rc_getBuffer cl t ?k c = (Inr (shown rv t c ?k), c1)" "steps_to rv t {} c c1"
    using serves_get [OF assms(1) inv] by blast
  have inv1: "rv_inv rv c1" and same1: "\<forall>k t'. t \<le> t' \<longrightarrow> shown rv t' c1 k = shown rv t' c k"
    using c1(2) by (auto simp: steps_to_def)
  have ok1: "ct_ok ?ct c1" using steps_to_ok [OF assms(3) c1(2)] by simp
  have ans1: "\<forall>t' k'. t \<le> t' \<longrightarrow> ct_answer ?ct t' c1 k' = ct_answer ?ct t' c k'" using same1 by (simp add: redis_contract_def)
  have get: "rd_getEntry cl z rd t k c = (case shown rv t c ?k of None \<Rightarrow> (Inr JNull, c1)
      | Some b \<Rightarrow> (case deserializeOrDelete cl z rd t k (PBytes b) c1 of (v, c') \<Rightarrow> (Inr v, c')))"
    using c1(1) assms(4)
    by (simp add: rd_getEntry_def checked_def andthen_def ret_def runCommand_quick [OF assms(2) inv] split: option.splits)
  show ?thesis
  proof (cases "shown rv t c ?k")
    case None
    then show ?thesis using get ok1 ans1 by (simp add: redis_contract_def)
  next
    case (Some b)
    consider "deserializeOrDelete cl z rd t k (PBytes b) c1 = (read_bytes z rd b, c1)"
      | "read_bytes z rd b = JNull" "deserializeOrDelete cl z rd t k (PBytes b) c1 = (JNull, rd_deleteCorruptedKey cl rd t k c1)"
      using deserialize_outcome [OF assms(2)] by blast
    then show ?thesis
    proof cases
      case 1
      then show ?thesis using get Some ok1 ans1 by (simp add: redis_contract_def)
    next
      case 2
      obtain n c2 where c2: "rc_del cl t [?k] c1 = (Inr n, c2)" "steps_to rv t {?k} c1 c2" "\<forall>t'. t \<le> t' \<longrightarrow> shown rv t' c2 ?k = None"
        using serves_del [OF assms(1) inv1, of "[?k]" t] by auto
      have "rd_deleteCorruptedKey cl rd t k c1 = c2"
        using c2(1) by (simp add: rd_deleteCorruptedKey_def runCommand_quick [OF assms(2) inv1])
      moreover have "ct_ok ?ct c2" using steps_to_ok [OF ok1 c2(2)] assms(4) by simp
      moreover have "ct_answer ?ct t' c2 k' = ct_answer ?ct t' c k'" if "t \<le> t'" for t' k'
      proof (cases "k' = k")
        case True
        have "ct_answer ?ct t' c k = JNull"
          using shown_later [of rv t' c ?k _ t] that Some 2(1) by (fastforce simp: redis_contract_def split: option.splits)
        then show ?thesis using True c2(3) that by (simp add: redis_contract_def)
      next
        case False
        then show ?thesis using c2(2) same1 that by (simp add: redis_contract_def steps_to_def)
      qed
      ultimately show ?thesis using get Some 2 by (simp add: redis_contract_def)
    qed
  qed
qed

subsection \<open>Writes and deletes\<close>

lemma alive_px: "alive t (px ttl) t' = alive t ttl t'"
  by (auto simp: alive_def px_def split: option.split)

lemma contract_set:
  assumes "redis_server cl rv" "redis_config_ok cl rv rd" "ct_ok (redis_contract rv z rd) c" "clean_name k"
    and "encoded z rd v = Inr p" "ct_ttl (redis_contract rv z rd) t ttl"
  shows "\<exists>c'. rd_set cl z rd t k v ttl c = (Inr (), c') \<and> ct_ok (redis_contract rv z rd) c' \<and>
    (\<forall>t'. t \<le> t' \<longrightarrow> alive t (nullish_opt ttl (rd_defaultTtl rd)) t' \<longrightarrow>
       ct_answer (redis_contract rv z rd) t' c' k = read_bytes z rd (payload_bytes p)) \<and>
    (\<forall>t' k'. t \<le> t' \<longrightarrow> k' \<noteq> k \<longrightarrow> ct_answer (redis_contract rv z rd) t' c' k' = ct_answer (redis_contract rv z rd) t' c k')"
proof -
  let ?ct = "redis_contract rv z rd" and ?x = "nullish_opt ttl (rd_defaultTtl rd)"
  have inv: "rv_inv rv c" using assms(3) by (simp add: redis_contract_def)
  have "case px ?x of None \<Rightarrow> True | Some x \<Rightarrow> 0 < x \<and> math_ceil x = x"
    using assms(6) by (auto simp: redis_contract_def px_def split: option.splits)
  from serves_set [OF assms(1) inv this, of t "withPrefix rd k" p] obtain c1 where
    c1: "rc_set cl t (withPrefix rd k) p (px ?x) c = (Inr (), c1)" "steps_to rv t {withPrefix rd k} c c1"
      "\<forall>t'. t \<le> t' \<longrightarrow> shown rv t' c1 (withPrefix rd k) = (if alive t ?x t' then Some (payload_bytes p) else None)"
    by (auto simp: alive_px)
  have "rd_set cl z rd t k v ttl c = (Inr (), c1)"
    using c1(1) assms(4,5) by (simp add: rd_set_def checked_def runCommand_quick [OF assms(2) inv])
  moreover have "ct_ok ?ct c1" using steps_to_ok [OF assms(3) c1(2)] assms(4) by simp
  ultimately show ?thesis using c1(2,3) by (auto simp: redis_contract_def steps_to_def)
qed

lemma contract_del:
  assumes "redis_server cl rv" "redis_config_ok cl rv rd" "ct_ok (redis_contract rv z rd) c" "\<forall>k \<in> set ks. clean_name k" "ks \<noteq> []"
  shows "\<exists>n c'. rc_del cl t (map (withPrefix rd) ks) c = (Inr n, c') \<and> ct_ok (redis_contract rv z rd) c' \<and>
    deleted (redis_contract rv z rd) t ks c c'"
proof -
  have inv: "rv_inv rv c" using assms(3) by (simp add: redis_contract_def)
  from serves_del [OF assms(1) inv, of "map (withPrefix rd) ks" t] assms(5) obtain n c1 where
    c1: "rc_del cl t (map (withPrefix rd) ks) c = (Inr n, c1)" "steps_to rv t (withPrefix rd ` set ks) c c1"
      "\<forall>k \<in> set ks. \<forall>t'. t \<le> t' \<longrightarrow> shown rv t' c1 (withPrefix rd k) = None" by auto
  have "clean_name k" if "withPrefix rd k \<in> withPrefix rd ` set ks" for k using that assms(4) by auto
  from steps_to_ok [OF assms(3) c1(2) this] have "ct_ok (redis_contract rv z rd) c1" .
  moreover have "deleted (redis_contract rv z rd) t ks c c1"
    using c1(2,3) by (auto simp: deleted_def redis_contract_def steps_to_def)
  ultimately show ?thesis using c1(1) by blast
qed

subsection \<open>Scans\<close>

lemma scan_keys_loop:
  assumes "redis_server cl rv" "redis_config_ok cl rv rd" "rv_inv rv c"
  shows "\<exists>ks c'. scan_loop (scan_page cl rd t) (\<lambda>_. ret ()) cur c = Some (Inr ks, c') \<and> steps_to rv t {} c c' \<and>
    (\<forall>k \<in> set ks. starts_with k (rd_prefix rd) \<and> shown rv t c k \<noteq> None) \<and>
    {k \<in> rv_pending rv c (rd_prefix rd) cur. shown rv t c k \<noteq> None} \<subseteq> set ks"
  using assms(3)
proof (induction "rv_work rv c (rd_prefix rd) cur" arbitrary: cur c rule: less_induct)
  case less
  have cfg: "plain (rd_prefix rd)" "1 \<le> rd_scanCount rd" "math_ceil (rd_scanCount rd) = rd_scanCount rd"
    using assms(2) by (simp_all add: redis_config_ok_def)
  obtain cur' ks c1 where s: "rc_scan cl t cur (rd_prefix rd @ ''*'') (rd_scanCount rd) c = (Inr (cur', ks), c1)" "steps_to rv t {} c c1"
    "\<forall>k \<in> set ks. starts_with k (rd_prefix rd) \<and> shown rv t c k \<noteq> None"
    "{k \<in> rv_pending rv c (rd_prefix rd) cur. shown rv t c k \<noteq> None} \<subseteq>
       set ks \<union> (if cur' = ''0'' then {} else rv_pending rv c1 (rd_prefix rd) cur')"
    "cur' \<noteq> ''0'' \<longrightarrow> rv_work rv c1 (rd_prefix rd) cur' < rv_work rv c (rd_prefix rd) cur"
    by (rule serves_scan [OF assms(1) less(2) cfg, where t = t and cur = cur]) (rule that)
  have page: "scan_page cl rd t cur c = (Inr (cur', ks), c1)" using s(1) by (simp add: scan_page_def scan_pattern_def runCommand_quick [OF assms(2) less(2)])
  have same: "rv_inv rv c1" "\<forall>k. shown rv t c1 k = shown rv t c k" using s(2) by (simp_all add: steps_to_def)
  show ?case
  proof (cases "cur' = ''0''")
    case True
    then have "scan_loop (scan_page cl rd t) (\<lambda>_. ret ()) cur c = Some (Inr ks, c1)" using page by (simp add: scan_loop.simps ret_def)
    then show ?thesis using s(2-4) True by auto
  next
    case False
    obtain ks' c2 where r: "scan_loop (scan_page cl rd t) (\<lambda>_. ret ()) cur' c1 = Some (Inr ks', c2)" "steps_to rv t {} c1 c2"
      "\<forall>k \<in> set ks'. starts_with k (rd_prefix rd) \<and> shown rv t c1 k \<noteq> None"
      "{k \<in> rv_pending rv c1 (rd_prefix rd) cur'. shown rv t c1 k \<noteq> None} \<subseteq> set ks'"
      using less(1) [OF s(5) [rule_format, OF False] same(1)] by blast
    have "scan_loop (scan_page cl rd t) (\<lambda>_. ret ()) cur c = Some (Inr (ks @ ks'), c2)"
      using page False r(1) by (subst scan_loop.simps) (simp add: ret_def)
    moreover have "steps_to rv t {} c c2" using steps_to_trans [OF s(2) r(2)] by simp
    ultimately show ?thesis using s(3,4) r(3,4) same(2) False by fastforce
  qed
qed

lemma contract_keys:
  assumes "redis_server cl rv" "redis_config_ok cl rv rd" "ct_ok (redis_contract rv z rd) c"
  shows "\<exists>ks c'. rd_keys cl rd t c = Some (Inr ks, c') \<and> ct_ok (redis_contract rv z rd) c' \<and>
    (\<forall>k. k \<in> set ks \<longleftrightarrow> shown rv t c (withPrefix rd k) \<noteq> None) \<and> (\<forall>k \<in> set ks. clean_name k) \<and>
    (\<forall>t' k. t \<le> t' \<longrightarrow> ct_answer (redis_contract rv z rd) t' c' k = ct_answer (redis_contract rv z rd) t' c k)"
proof -
  have inv: "rv_inv rv c" using assms(3) by (simp add: redis_contract_def)
  obtain ks c1 where s: "scanKeys cl rd t c = Some (Inr ks, c1)" "steps_to rv t {} c c1"
    "\<forall>k \<in> set ks. starts_with k (rd_prefix rd) \<and> shown rv t c k \<noteq> None"
    "{k \<in> rv_pending rv c (rd_prefix rd) ''0''. shown rv t c k \<noteq> None} \<subseteq> set ks"
    unfolding scanKeys_def using scan_keys_loop [OF assms(1,2) inv, of t "''0''"] by blast
  have plain: "plain (rd_prefix rd)" "rd_prefix rd \<noteq> [] \<or> rd_allowUnprefixedClear rd" using assms(2) by (simp_all add: redis_config_ok_def)
  have all: "k \<in> set ks" if "shown rv t c k \<noteq> None" "starts_with k (rd_prefix rd)" for k
    using scan_starts [OF assms(1) inv plain(1)] shown_holds [OF that(1)] that s(4) by blast
  let ?ks = "map (drop (length (rd_prefix rd))) ks"
  have "rd_keys cl rd t c = Some (Inr ?ks, c1)"
    using s(1) plain(2) by (auto simp: rd_keys_def assertBulkKeyOwnership_def)
  moreover have mem: "k \<in> set ?ks \<longleftrightarrow> shown rv t c (withPrefix rd k) \<noteq> None" for k
  proof
    assume "k \<in> set ?ks"
    then obtain q where q: "q \<in> set ks" "k = drop (length (rd_prefix rd)) q" by auto
    then have "q = withPrefix rd k" using s(3) by (auto simp: starts_with_def withPrefix_def) (metis append_take_drop_id)
    then show "shown rv t c (withPrefix rd k) \<noteq> None" using s(3) q(1) by auto
  next
    assume "shown rv t c (withPrefix rd k) \<noteq> None"
    then have "withPrefix rd k \<in> set ks" using all by (simp add: withPrefix_def starts_with_def)
    then show "k \<in> set ?ks" by (force simp: withPrefix_def)
  qed
  moreover have "\<forall>k \<in> set ?ks. clean_name k"
    using mem shown_holds assms(3) by (force simp: redis_contract_def)
  moreover have "ct_ok (redis_contract rv z rd) c1" using steps_to_ok [OF assms(3) s(2)] by simp
  moreover have "\<forall>t' k. t \<le> t' \<longrightarrow> ct_answer (redis_contract rv z rd) t' c1 k = ct_answer (redis_contract rv z rd) t' c k"
    using s(2) by (simp add: redis_contract_def steps_to_def)
  ultimately show ?thesis by blast
qed

subsection \<open>Clearing\<close>

definition shrinks_to :: "'c redis_view \<Rightarrow> real \<Rightarrow> string set \<Rightarrow> 'c \<Rightarrow> 'c \<Rightarrow> bool" where
  \<comment> \<open>only keys of \<open>ks\<close> may be gone, all others are as they were\<close>
  "shrinks_to rv t ks c c' \<longleftrightarrow> rv_inv rv c' \<and>
     (\<forall>k t'. t \<le> t' \<longrightarrow> shown rv t' c' k = shown rv t' c k \<or> k \<in> ks \<and> shown rv t' c' k = None)"

lemma shrinks_to_trans: "shrinks_to rv t A c c1 \<Longrightarrow> shrinks_to rv t A c1 c2 \<Longrightarrow> shrinks_to rv t A c c2"
  unfolding shrinks_to_def by metis

lemma delete_batches_spec:
  assumes "redis_server cl rv" "redis_config_ok cl rv rd" "rv_inv rv c" "set ks \<subseteq> A"
  shows "\<exists>c'. delete_batches cl rd t ks c = (Inr (), c') \<and> shrinks_to rv t A c c' \<and>
    (\<forall>k \<in> set ks. \<forall>t'. t \<le> t' \<longrightarrow> shown rv t' c' k = None) \<and>
    (\<forall>p cur. rv_pending rv c p cur - set ks \<subseteq> rv_pending rv c' p cur \<and> rv_work rv c' p cur \<le> rv_work rv c p cur)"
  using assms(3,4)
proof (induction ks arbitrary: c rule: length_induct)
  case (1 ks)
  show ?case
  proof (cases "ks = []")
    case True
    then show ?thesis using 1(2) by (simp add: delete_batches.simps shrinks_to_def)
  next
    case False
    let ?b = "take BATCH_DELETE_SIZE ks" and ?r = "drop BATCH_DELETE_SIZE ks"
    have b: "?b \<noteq> []" "length ?r < length ks" using False by (simp_all add: BATCH_DELETE_SIZE_def)
    obtain n c1 where c1: "rc_del cl t ?b c = (Inr n, c1)" "steps_to rv t (set ?b) c c1" "\<forall>k \<in> set ?b. \<forall>t'. t \<le> t' \<longrightarrow> shown rv t' c1 k = None"
      "\<forall>p cur. rv_pending rv c p cur - set ?b \<subseteq> rv_pending rv c1 p cur \<and> rv_work rv c1 p cur \<le> rv_work rv c p cur"
      using serves_del [OF assms(1) 1(2) b(1), of t] by blast
    have sub: "set ?b \<subseteq> A" "set ?r \<subseteq> A" using 1(3) by (auto dest: in_set_takeD in_set_dropD)
    have s1: "shrinks_to rv t A c c1" using c1(2,3) sub(1) by (auto simp: shrinks_to_def steps_to_def)
    have inv1: "rv_inv rv c1" using c1(2) by (simp add: steps_to_def)
    obtain c2 where c2: "delete_batches cl rd t ?r c1 = (Inr (), c2)" "shrinks_to rv t A c1 c2"
      "\<forall>k \<in> set ?r. \<forall>t'. t \<le> t' \<longrightarrow> shown rv t' c2 k = None"
      "\<forall>p cur. rv_pending rv c1 p cur - set ?r \<subseteq> rv_pending rv c2 p cur \<and> rv_work rv c2 p cur \<le> rv_work rv c1 p cur"
      using 1(1) b(2) inv1 sub(2) by blast
    have "delete_batches cl rd t ks c = (Inr (), c2)"
      using False c1(1) c2(1) by (subst delete_batches.simps) (simp add: runCommand_quick [OF assms(2) 1(2)])
    moreover have "set ks = set ?b \<union> set ?r" by (metis append_take_drop_id set_append)
    moreover have "\<forall>k \<in> set ?b. \<forall>t'. t \<le> t' \<longrightarrow> shown rv t' c2 k = None" using c1(3) c2(2) unfolding shrinks_to_def by metis
    moreover have "rv_work rv c2 p cur \<le> rv_work rv c p cur" for p cur using c1(4) c2(4) order_trans by blast
    ultimately show ?thesis using c1(4) c2(3,4) shrinks_to_trans [OF s1 c2(2)] by (intro exI [of _ c2]) blast
  qed
qed

lemma clear_loop:
  assumes "redis_server cl rv" "redis_config_ok cl rv rd" "rv_inv rv c"
  shows "\<exists>ks c'. scan_loop (scan_page cl rd t) (delete_batches cl rd t) cur c = Some (Inr ks, c') \<and>
    shrinks_to rv t {k. starts_with k (rd_prefix rd)} c c' \<and>
    (\<forall>k \<in> rv_pending rv c (rd_prefix rd) cur. \<forall>t'. t \<le> t' \<longrightarrow> shown rv t' c' k = None)"
  using assms(3)
proof (induction "rv_work rv c (rd_prefix rd) cur" arbitrary: cur c rule: less_induct)
  case less
  let ?p = "rd_prefix rd" and ?A = "{k. starts_with k (rd_prefix rd)}"
  have cfg: "plain ?p" "1 \<le> rd_scanCount rd" "math_ceil (rd_scanCount rd) = rd_scanCount rd"
    using assms(2) by (simp_all add: redis_config_ok_def)
  obtain cur' ks c1 where s: "rc_scan cl t cur (rd_prefix rd @ ''*'') (rd_scanCount rd) c = (Inr (cur', ks), c1)" "steps_to rv t {} c c1"
    "\<forall>k \<in> set ks. starts_with k ?p \<and> shown rv t c k \<noteq> None"
    "{k \<in> rv_pending rv c ?p cur. shown rv t c k \<noteq> None} \<subseteq> set ks \<union> (if cur' = ''0'' then {} else rv_pending rv c1 ?p cur')"
    "cur' \<noteq> ''0'' \<longrightarrow> rv_work rv c1 ?p cur' < rv_work rv c ?p cur"
    by (rule serves_scan [OF assms(1) less(2) cfg, where t = t and cur = cur]) (rule that)
  have page: "scan_page cl rd t cur c = (Inr (cur', ks), c1)" using s(1) by (simp add: scan_page_def scan_pattern_def runCommand_quick [OF assms(2) less(2)])
  have inv1: "rv_inv rv c1" and s1: "shrinks_to rv t ?A c c1" using s(2) by (simp_all add: steps_to_def shrinks_to_def)
  obtain c2 where c2: "delete_batches cl rd t ks c1 = (Inr (), c2)" "shrinks_to rv t ?A c1 c2"
    "\<forall>k \<in> set ks. \<forall>t'. t \<le> t' \<longrightarrow> shown rv t' c2 k = None"
    "rv_pending rv c1 ?p cur' - set ks \<subseteq> rv_pending rv c2 ?p cur'" "rv_work rv c2 ?p cur' \<le> rv_work rv c1 ?p cur'"
    using delete_batches_spec [OF assms(1,2) inv1, of ks ?A t] s(3) by blast
  note s2 = shrinks_to_trans [OF s1 c2(2)]
  have dead: "shown rv t' c2 k = None" if "shown rv t c k = None" "t \<le> t'" for k t'
    using that shown_later [of rv t' c k _ t] s2 unfolding shrinks_to_def by (metis not_None_eq)
  show ?case
  proof (cases "cur' = ''0''")
    case True
    then have "scan_loop (scan_page cl rd t) (delete_batches cl rd t) cur c = Some (Inr ks, c2)"
      using page c2(1) by (simp add: scan_loop.simps)
    moreover have "shown rv t' c2 k = None" if "k \<in> rv_pending rv c ?p cur" "t \<le> t'" for k t'
      using that s(4) True c2(3) dead by fastforce
    ultimately show ?thesis using s2 by blast
  next
    case False
    have inv2: "rv_inv rv c2" using c2(2) by (simp add: shrinks_to_def)
    have "rv_work rv c2 ?p cur' < rv_work rv c ?p cur" using s(5) False c2(5) by simp
    from less(1) [OF this inv2] obtain ks' c3 where
      c3: "scan_loop (scan_page cl rd t) (delete_batches cl rd t) cur' c2 = Some (Inr ks', c3)" "shrinks_to rv t ?A c2 c3"
        "\<forall>k \<in> rv_pending rv c2 ?p cur'. \<forall>t'. t \<le> t' \<longrightarrow> shown rv t' c3 k = None" by blast
    have "scan_loop (scan_page cl rd t) (delete_batches cl rd t) cur c = Some (Inr (ks @ ks'), c3)"
      using page c2(1) False c3(1) by (subst scan_loop.simps) simp
    moreover have stay: "shown rv t' c3 k = None" if "shown rv t' c2 k = None" "t \<le> t'" for k t'
      using that c3(2) unfolding shrinks_to_def by metis
    moreover have "shown rv t' c3 k = None" if k: "k \<in> rv_pending rv c ?p cur" "t \<le> t'" for k t'
    proof (cases "shown rv t c k = None")
      case True
      then show ?thesis using dead stay k(2) by blast
    next
      case False
      then have "k \<in> set ks \<or> k \<in> rv_pending rv c2 ?p cur'" using k(1) s(4) c2(4) \<open>cur' \<noteq> ''0''\<close> by auto
      then show ?thesis using c2(3) c3(3) stay k(2) by blast
    qed
    ultimately show ?thesis using shrinks_to_trans [OF s2 c3(2)] by blast
  qed
qed

subsection \<open>The contract is kept\<close>

lemma redis_layer_lawful:
  assumes "redis_server cl rv" "redis_config_ok cl rv rd"
  shows "cache_layer (redis_api cl z rd) (redis_contract rv z rd)"
proof
  fix c t k v ttl ks f
  let ?ct = "redis_contract rv z rd"
  assume ok: "ct_ok ?ct c"
  have inv: "rv_inv rv c" using ok by (simp add: redis_contract_def)
  have key: "ct_key ?ct = clean_name" "ct_dflt ?ct c = rd_defaultTtl rd" by (simp_all add: redis_contract_def)
  show "\<exists>c'. read_api (redis_api cl z rd) t k c = (Inr (ct_answer ?ct t c k), c') \<and> ct_ok ?ct c' \<and>
      (\<forall>t' k'. t \<le> t' \<longrightarrow> ct_answer ?ct t' c' k' = ct_answer ?ct t' c k')" if "ct_key ?ct k"
    using contract_read [OF assms ok] that by (simp add: read_api_def redis_api_def key)
  show "\<exists>c'. la_set (redis_api cl z rd) t k v ttl c = (Inr (), c') \<and> ct_ok ?ct c' \<and>
      (\<forall>t'. t \<le> t' \<longrightarrow> alive t (nullish_opt ttl (ct_dflt ?ct c)) t' \<longrightarrow> ct_answer ?ct t' c' k = v) \<and>
      (\<forall>t' k'. t \<le> t' \<longrightarrow> k' \<noteq> k \<longrightarrow> ct_answer ?ct t' c' k' = JNull \<or> ct_answer ?ct t' c' k' = ct_answer ?ct t' c k')"
    if "ct_key ?ct k" "ct_value ?ct v" "ct_ttl ?ct t ttl"
  proof -
    obtain p where p: "encoded z rd v = Inr p" "read_bytes z rd (payload_bytes p) = v"
      using \<open>ct_value ?ct v\<close> by (auto simp: redis_contract_def split: sum.splits)
    show ?thesis using contract_set [OF assms ok _ p(1) \<open>ct_ttl ?ct t ttl\<close>, of k] that(1) p(2) by (auto simp: redis_api_def key)
  qed
  show "\<exists>c'. la_delete (redis_api cl z rd) t k c = (Inr (), c') \<and> ct_ok ?ct c' \<and> deleted ?ct t [k] c c'" if "ct_key ?ct k"
    using contract_del [OF assms ok, of "[k]" t] that
    by (auto simp: redis_api_def key rd_delete_def checked_def andthen_def ret_def runCommand_quick [OF assms(2) inv])
  show "\<exists>c'. f t ks c = (Inr (), c') \<and> ct_ok ?ct c' \<and> deleted ?ct t ks c c'"
    if "\<forall>k \<in> set ks. ct_key ?ct k" "la_deleteMany (redis_api cl z rd) = Some f"
  proof (cases "ks = []")
    case True
    then show ?thesis using that ok by (auto simp: redis_api_def rd_deleteMany_def ret_def deleted_def)
  next
    case False
    then show ?thesis using contract_del [OF assms ok, of ks t] that
      by (auto simp: redis_api_def key rd_deleteMany_def checked_def andthen_def ret_def runCommand_quick [OF assms(2) inv])
  qed
qed

lemma redis_answer_gone:
  "t \<le> t' \<Longrightarrow> ct_answer (redis_contract rv z rd) t c k = JNull \<Longrightarrow> ct_answer (redis_contract rv z rd) t' c k = JNull"
  using shown_later [of rv t' c "withPrefix rd k" _ t] by (fastforce simp: redis_contract_def split: option.splits)

text \<open>
  C22: the Redis layer is a layer the stack can rely on. On a server that behaves as documented, a Redis
  layer with one serializer, a scannable prefix and timely answers keeps the whole contract: reads answer
  the latest write until its TTL has passed, writes and deletes touch no other key, a listing names
  every key that is answered, and corrupt payloads are removed without anyone noticing.
\<close>

theorem redis_layer_keeps_contract:
  assumes "redis_server cl rv" "redis_config_ok cl rv rd"
  shows "listed_layer (redis_api cl z rd) (redis_contract rv z rd)"
proof (rule listed_layer.intro [OF redis_layer_lawful [OF assms]], rule listed_layer_axioms.intro)
  fix c t f
  let ?ct = "redis_contract rv z rd"
  assume ok: "ct_ok ?ct c" and f: "la_keys (redis_api cl z rd) = Some f"
  obtain ks c' where k: "rd_keys cl rd t c = Some (Inr ks, c')" "ct_ok ?ct c'"
    "\<forall>k. k \<in> set ks \<longleftrightarrow> shown rv t c (withPrefix rd k) \<noteq> None" "\<forall>k \<in> set ks. clean_name k"
    "\<forall>t' k. t \<le> t' \<longrightarrow> ct_answer ?ct t' c' k = ct_answer ?ct t' c k" using contract_keys [OF assms ok] by blast
  have "f t c = (Inr ks, c')" using f k(1) by (auto simp: redis_api_def returned_def)
  moreover have "\<forall>k. ct_answer ?ct t c k \<noteq> JNull \<longrightarrow> k \<in> set ks" using k(3) by (auto simp: redis_contract_def split: option.splits)
  ultimately show "\<exists>ks c'. f t c = (Inr ks, c') \<and> ct_ok ?ct c' \<and> (\<forall>k. ct_answer ?ct t c k \<noteq> JNull \<longrightarrow> k \<in> set ks) \<and>
      (\<forall>k \<in> set ks. ct_key ?ct k) \<and> (\<forall>t' k. t \<le> t' \<longrightarrow> ct_answer ?ct t' c' k = ct_answer ?ct t' c k)"
    using k(2,4,5) by (auto simp: redis_contract_def)
qed (auto simp: redis_api_def intro: redis_answer_gone)

text \<open>
  C23: clearing a Redis layer removes its keys and nothing else. With a prefix (or the explicit
  permission to go without), \<open>clear\<close> returns, and from then on no key with the prefix is shown and every other key
  shows what it showed; without both it throws and the server is untouched.
\<close>

theorem redis_clear_exact:
  assumes "redis_server cl rv" "rv_inv rv c"
  shows "(rd_prefix rd = [] \<and> \<not> rd_allowUnprefixedClear rd \<longrightarrow> (\<exists>e. rd_clear cl rd t c = Some (Inl e, c))) \<and>
    (redis_config_ok cl rv rd \<longrightarrow> (\<exists>c'. rd_clear cl rd t c = Some (Inr (), c') \<and> (\<forall>k t'. t \<le> t' \<longrightarrow>
       shown rv t' c' k = (if starts_with k (rd_prefix rd) then None else shown rv t' c k))))"
proof (intro conjI impI)
  assume cfg: "redis_config_ok cl rv rd"
  obtain ks c' where c': "scan_loop (scan_page cl rd t) (delete_batches cl rd t) ''0'' c = Some (Inr ks, c')"
    "shrinks_to rv t {k. starts_with k (rd_prefix rd)} c c'"
    "\<forall>k \<in> rv_pending rv c (rd_prefix rd) ''0''. \<forall>t'. t \<le> t' \<longrightarrow> shown rv t' c' k = None"
    using clear_loop [OF assms(1) cfg assms(2)] by blast
  have start: "{k. rv_holds rv c k \<noteq> None \<and> starts_with k (rd_prefix rd)} \<subseteq> rv_pending rv c (rd_prefix rd) ''0''"
    using scan_starts [OF assms(1,2)] cfg by (simp add: redis_config_ok_def)
  have "shown rv t' c' k = None" if k: "starts_with k (rd_prefix rd)" "t \<le> t'" for k t'
  proof (cases "shown rv t' c k = None")
    case True
    then show ?thesis using c'(2) k(2) unfolding shrinks_to_def by metis
  next
    case False
    then show ?thesis using start c'(3) k shown_holds [OF False] by blast
  qed
  then show "\<exists>c'. rd_clear cl rd t c = Some (Inr (), c') \<and> (\<forall>k t'. t \<le> t' \<longrightarrow>
       shown rv t' c' k = (if starts_with k (rd_prefix rd) then None else shown rv t' c k))"
    using cfg c'(1,2) by (auto simp: rd_clear_def shrinks_to_def redis_config_ok_def)
qed (simp add: rd_clear_def)

subsection \<open>Compressed payloads\<close>

definition zlib_ok :: "zlib \<Rightarrow> bool" where
  \<comment> \<open>decompression inverts compression, in whatever chunks\<close>
  "zlib_ok z \<longleftrightarrow> (\<forall>a b. snd (zl_decompress z a (zl_compress z a b)) \<and> concat (fst (zl_decompress z a (zl_compress z a b))) = b)"

definition readable_back :: "zlib \<Rightarrow> redis_layer \<Rightarrow> string \<Rightarrow> bool" where
  \<comment> \<open>not compressed, or within the limits of decompression\<close>
  "readable_back z rd b = (case rd_compression rd of
       None \<Rightarrow> True
     | Some a \<Rightarrow> length b < rd_compressionThreshold rd \<or>
         (let n = length (zl_compress z a b) in n \<le> rd_decompressionMaxInputBytes rd \<and> length b \<le> rd_decompressionMaxBytes rd \<and>
            real (length b) \<le> real (max 1 n) * rd_decompressionMaxRatio rd))"

lemma collect_chunks_limit:
  "length acc \<le> rd_decompressionMaxBytes rd \<Longrightarrow> real (length acc) \<le> rl \<Longrightarrow>
   (if length (acc @ concat chunks) \<le> rd_decompressionMaxBytes rd \<and> real (length (acc @ concat chunks)) \<le> rl
    then collect_chunks rd rl chunks True acc = Inr (acc @ concat chunks) else isl (collect_chunks rd rl chunks True acc))"
proof (induction chunks arbitrary: acc)
  case (Cons x chunks)
  show ?case
  proof (cases "length (acc @ x) \<le> rd_decompressionMaxBytes rd \<and> real (length (acc @ x)) \<le> rl")
    case True
    then show ?thesis using Cons(1) [of "acc @ x"] by (simp add: Let_def not_less [symmetric] algebra_simps)
  qed (auto simp: Let_def)
qed simp

lemma decompress_compressed:
  assumes "zlib_ok z" "0 \<le> rd_decompressionMaxRatio rd"
  shows "let n = length (zl_compress z a b) in
    if n \<le> rd_decompressionMaxInputBytes rd \<and> length b \<le> rd_decompressionMaxBytes rd \<and> real (length b) \<le> real (max 1 n) * rd_decompressionMaxRatio rd
    then decompressWithLimit z rd a (zl_compress z a b) = Inr b else isl (decompressWithLimit z rd a (zl_compress z a b))"
proof -
  let ?lim = "real (max 1 (length (zl_compress z a b))) * rd_decompressionMaxRatio rd"
  obtain chunks where c: "zl_decompress z a (zl_compress z a b) = (chunks, True)" "concat chunks = b"
    using assms(1) unfolding zlib_ok_def by (metis eq_snd_iff prod.collapse)
  have "0 \<le> ?lim" using assms(2) by (intro mult_nonneg_nonneg) simp_all
  then show ?thesis
    using collect_chunks_limit [of "[]" rd ?lim chunks] c by (auto simp: decompressWithLimit_def Let_def split: if_splits)
qed

lemma json_no_header:
  assumes "whole_js v"
  shows "take 10 (utf8_encode (json ft v)) \<noteq> header Gzip" "take 12 (utf8_encode (json ft v)) \<noteq> header Brotli"
proof -
  obtain c cs where c: "json ft v = c # cs" "starts v c" using json_starts [OF assms] by blast
  have "c \<noteq> CHR ''L''" "(of_char c :: nat) < 128" using c(2) by (auto simp: starts_def is_digit_def split: js.splits if_splits)
  then show "take 10 (utf8_encode (json ft v)) \<noteq> header Gzip" "take 12 (utf8_encode (json ft v)) \<noteq> header Brotli"
    using c(1) by simp_all
qed

lemma json_bytes_round_trip:
  assumes "zlib_ok z" "rd_serializers rd = [json_serializer ft opts]" "json_storable ft opts v" "0 \<le> rd_decompressionMaxRatio rd"
  shows "\<exists>p. encoded z rd v = Inr p \<and>
    read_bytes z rd (payload_bytes p) = (if readable_back z rd (utf8_encode (json ft v)) then v else JNull)"
proof -
  let ?b = "utf8_encode (json ft v)"
  have v: "whole_js v" using assms(3) by (simp add: json_storable_def)
  have ser: "json_serialize ft v = Inr (PText (json ft v))" "json_deserialize opts (PBytes ?b) = Inr v"
    using json.serializes [OF assms(3)] by (auto simp: json_serialize_def split: if_splits)
  note no = json_no_header [OF v, of ft]
  have prim: "primarySerializer rd = Inr (json_serializer ft opts)" using assms(2) by (simp add: primarySerializer_def)
  have enc: "encoded z rd v = Inr (encodePayload z rd (PText (json ft v)))"
    using ser(1) by (simp add: encoded_def prim json_serializer_def)
  have plain: "read_bytes z rd ?b = v" using ser(2) no by (simp add: read_bytes_def prim decodePayload_def json_serializer_def)
  show ?thesis
  proof (cases "rd_compression rd")
    case None
    then show ?thesis using enc plain by (simp add: encodePayload_def readable_back_def)
  next
    case (Some a)
    show ?thesis
    proof (cases "length ?b < rd_compressionThreshold rd")
      case True
      then show ?thesis using enc plain Some by (simp add: encodePayload_def readable_back_def Let_def)
    next
      case False
      have "read_bytes z rd (header a @ zl_compress z a ?b) =
          (case decompressWithLimit z rd a (zl_compress z a ?b) of Inl _ \<Rightarrow> JNull | Inr d \<Rightarrow> (case json_deserialize opts (PBytes d) of Inl _ \<Rightarrow> JNull | Inr w \<Rightarrow> w))"
        using Some by (cases a) (auto simp: read_bytes_def decodePayload_def prim json_serializer_def split: sum.splits)
      then show ?thesis
        using decompress_compressed [OF assms(1,4), of a ?b] enc Some False ser(2)
        by (auto simp: encodePayload_def readable_back_def Let_def isl_def split: if_splits)
    qed
  qed
qed

text \<open>
  What a Redis layer with the JSON serializer stores comes back exactly when it fits the limits of
  decompression. \<open>set\<close> accepts every storable value; until its TTL has passed a read returns it if the
  payload was not compressed or stays within the input, output and ratio limits, and otherwise answers \<open>null\<close>.
\<close>

theorem redis_payload_round_trip:
  assumes "redis_server cl rv" "redis_config_ok cl rv rd" "ct_ok (redis_contract rv z rd) c" "clean_name k"
    and "zlib_ok z" "rd_serializers rd = [json_serializer ft opts]" "json_storable ft opts v" "0 \<le> rd_decompressionMaxRatio rd"
    and "ct_ttl (redis_contract rv z rd) t ttl" "t \<le> t'" "alive t (nullish_opt ttl (rd_defaultTtl rd)) t'"
  shows "fst (rd_set cl z rd t k v ttl c) = Inr () \<and>
    fst (rd_getEntry cl z rd t' k (snd (rd_set cl z rd t k v ttl c))) =
      Inr (if readable_back z rd (utf8_encode (json ft v)) then v else JNull)"
proof -
  obtain p where p: "encoded z rd v = Inr p"
    "read_bytes z rd (payload_bytes p) = (if readable_back z rd (utf8_encode (json ft v)) then v else JNull)"
    using json_bytes_round_trip [OF assms(5-8)] by blast
  obtain c' where c': "rd_set cl z rd t k v ttl c = (Inr (), c')" "ct_ok (redis_contract rv z rd) c'"
    "ct_answer (redis_contract rv z rd) t' c' k = read_bytes z rd (payload_bytes p)"
    using contract_set [OF assms(1-4) p(1) assms(9)] assms(10,11) by blast
  show ?thesis using contract_read [OF assms(1,2) c'(2) assms(4), of t'] c'(1,3) p(2) by auto
qed

subsection \<open>A server with this behaviour\<close>

text \<open>
  The smallest server that behaves as documented: an association list with lazy expiry that answers a
  \<open>SCAN\<close> in one page, and a compression that does nothing.
\<close>

type_synonym small_redis = "(string, string \<times> real option) jsmap"

definition small_view :: "small_redis redis_view" where
  "small_view = \<lparr>rv_inv = (\<lambda>_. True), rv_holds = map_of,
     rv_pending = (\<lambda>c p cur. {k. map_of c k \<noteq> None \<and> starts_with k p}), rv_work = (\<lambda>_ _ _. 0)\<rparr>"

definition small_put :: "real \<Rightarrow> string \<Rightarrow> payload \<Rightarrow> real option \<Rightarrow> small_redis \<Rightarrow> small_redis" where
  "small_put t k p ttl c = AList.update k (payload_bytes p, map_option (\<lambda>x. t + x) ttl) c"

definition small_redis :: "small_redis redis_client" where
  "small_redis = \<lparr>
     rc_duration = (\<lambda>_. 0),
     rc_getBuffer = (\<lambda>t k c. (Inr (shown small_view t c k), c)),
     rc_set = (\<lambda>t k p ttl c. (Inr (), small_put t k p ttl c)),
     rc_del = (\<lambda>t ks c. (Inr (length (filter (\<lambda>k. shown small_view t c k \<noteq> None) ks)), fold AList.delete ks c)),
     rc_exists = (\<lambda>t k c. (Inr (if shown small_view t c k = None then 0 else 1), c)),
     rc_pttl = (\<lambda>t k c. (Inr (left_of small_view t c k), c)),
     rc_dbsize = (\<lambda>t c. (Inr (length c), c)),
     rc_scan = (\<lambda>t cur pattern n c. (Inr (''0'', filter (\<lambda>k. glob pattern k \<and> shown small_view t c k \<noteq> None) (map fst c)), c)),
     rc_ping = (\<lambda>t c. (Inr ''PONG'', c)),
     rc_exec_get = (\<lambda>t ks c. (Inr (Some (map (\<lambda>k. (None, case shown small_view t c k of None \<Rightarrow> RNil | Some b \<Rightarrow> RPayload (PBytes b))) ks)), c)),
     rc_exec_set = (\<lambda>t es c. (Inr (Some (map (\<lambda>_. None) es)), fold (\<lambda>(k, p, ttl). small_put t k p ttl) es c))\<rparr>"

lemma glob_prefix: "plain p \<Longrightarrow> glob (p @ ''*'') k \<longleftrightarrow> starts_with k p"
proof (induction p arbitrary: k)
  case Nil
  have "glob ''*'' k" by (induction k) auto
  then show ?case by (simp add: starts_with_def)
next
  case (Cons c p)
  then show ?case by (cases k) (auto simp: plain_def starts_with_def)
qed

lemma map_of_fold_delete: "map_of (fold AList.delete ks c) k = (if k \<in> set ks then None else map_of c k)"
  by (induction ks arbitrary: c) (auto simp: delete_conv)

lemma small_fields [simp]:
  "rv_inv small_view c" "rv_holds small_view c = map_of c" "rv_pending small_view c p cur = {k. map_of c k \<noteq> None \<and> starts_with k p}"
  "rv_work small_view c p cur = 0"
  by (simp_all add: small_view_def)

lemma small_put_shown:
  "shown small_view t' (small_put t k p ttl c) k' =
     (if k' = k then (if case ttl of None \<Rightarrow> True | Some x \<Rightarrow> t' < t + x then Some (payload_bytes p) else None) else shown small_view t' c k')"
  by (auto simp: shown_def small_put_def update_conv split: option.splits)

lemma small_put_dom: "map_of (small_put t k p ttl c) k' = (if k' = k then Some (payload_bytes p, map_option (\<lambda>x. t + x) ttl) else map_of c k')"
  by (simp add: small_put_def update_conv)

lemma small_delete_shown: "shown small_view t (fold AList.delete ks c) k = (if k \<in> set ks then None else shown small_view t c k)"
  by (simp add: shown_def map_of_fold_delete)

lemma steps_to_self [simp]: "steps_to small_view t {} c c"
  by (simp add: steps_to_def)

lemma small_redis_serves: "redis_server small_redis small_view"
  unfolding redis_server_def
proof (intro conjI)
  show "server_reads small_redis small_view" by (simp add: server_reads_def small_redis_def)
  show "server_writes small_redis small_view"
    by (auto simp: server_writes_def small_redis_def steps_to_def small_put_shown small_put_dom alive_def
        simp del: map_of_eq_None_iff split: option.splits)
  show "server_deletes small_redis small_view"
    by (auto simp: server_deletes_def small_redis_def steps_to_def small_delete_shown map_of_fold_delete split: if_splits)
  show "server_scans small_redis small_view"
    unfolding server_scans_def
  proof (intro allI impI conjI)
    fix t and c :: small_redis and p cur :: string and n :: real
    assume p: "plain p"
    let ?ks = "filter (\<lambda>k. glob (p @ ''*'') k \<and> shown small_view t c k \<noteq> None) (map fst c)"
    have "k \<in> set ?ks" if "map_of c k \<noteq> None" "starts_with k p" "shown small_view t c k \<noteq> None" for k
      using that p by (auto simp: glob_prefix map_of_eq_None_iff)
    then show "\<exists>cur' ks c'. rc_scan small_redis t cur (p @ ''*'') n c = (Inr (cur', ks), c') \<and> steps_to small_view t {} c c' \<and>
        (\<forall>k \<in> set ks. starts_with k p \<and> shown small_view t c k \<noteq> None) \<and>
        {k \<in> rv_pending small_view c p cur. shown small_view t c k \<noteq> None} \<subseteq>
          set ks \<union> (if cur' = ''0'' then {} else rv_pending small_view c' p cur') \<and>
        (cur' \<noteq> ''0'' \<longrightarrow> rv_work small_view c' p cur' < rv_work small_view c p cur)"
      using p by (intro exI [of _ "''0''"] exI [of _ ?ks] exI [of _ c]) (auto simp: small_redis_def glob_prefix)
  qed simp
qed

definition small_options :: redis_options where
  "small_options = \<lparr>ro_ttl = None, ro_name = None, ro_serializer = DefaultSerializer, ro_prefix = Some ''app-'', ro_allowUnprefixedClear = None,
     ro_scanCount = None, ro_compression = Some Gzip, ro_compressionThreshold = None, ro_decompressionMaxBytes = None,
     ro_decompressionMaxInputBytes = None, ro_decompressionMaxRatio = None, ro_commandTimeoutMs = Some (Fin 200),
     ro_disconnectOnDispose = None\<rparr>"

definition small_layer :: redis_layer where
  "small_layer = (case new_redis_layer (\<lambda>_. []) small_options of Inr rd \<Rightarrow> rd)"

definition store_only :: zlib where
  "store_only = \<lparr>zl_compress = (\<lambda>_ b. b), zl_decompress = (\<lambda>_ b. ([b], True))\<rparr>"

lemma small_config_ok: "redis_config_ok small_redis small_view small_layer"
  by (simp add: redis_config_ok_def small_layer_def new_redis_layer_def small_options_def normalizeCommandTimeoutMs_def plain_def
      small_redis_def math_ceil_def)

theorem redis_layer_keeps_contract_witness:
  "listed_layer (redis_api small_redis store_only small_layer) (redis_contract small_view store_only small_layer)"
  by (rule redis_layer_keeps_contract [OF small_redis_serves small_config_ok])

theorem redis_clear_exact_witness:
  "\<exists>c'. rd_clear small_redis small_layer 5 [(''app-k'', ''v'', None), (''other'', ''w'', None)] = Some (Inr (), c') \<and>
     shown small_view 5 c' ''app-k'' = None \<and> shown small_view 5 c' ''other'' = Some ''w''"
proof -
  have p: "rd_prefix small_layer = ''app-''"
    by (simp add: small_layer_def new_redis_layer_def small_options_def normalizeCommandTimeoutMs_def)
  show ?thesis
    using redis_clear_exact [OF small_redis_serves, of "[(''app-k'', ''v'', None), (''other'', ''w'', None)]" small_layer 5] small_config_ok
    by (auto simp: p starts_with_def shown_def)
qed

theorem redis_payload_round_trip_witness:
  "fst (rd_getEntry small_redis store_only small_layer 8 ''k'' (snd (rd_set small_redis store_only small_layer 5 ''k'' demo_json (Some 10) [])))
     = Inr demo_json"
proof -
  have d: "decimal 7 = ''7''" by (subst decimal.simps) (simp add: char_of_def bit_simps)
  have st: "json_storable (\<lambda>_. []) (json_serializer_options None None None) demo_json"
    by (simp add: json_storable_def demo_json_def sane_def json_serializer_options_def is_whole_def d int_text_def DANGEROUS_KEYS_def
        enumeration_order_def is_array_index_def is_digit_def json_string_def esc_char_def)
  have rd: "rd_serializers small_layer = [json_serializer (\<lambda>_. []) (json_serializer_options None None None)]"
    "0 \<le> rd_decompressionMaxRatio small_layer" "rd_compression small_layer = Some Gzip" "rd_compressionThreshold small_layer = 1024"
    by (simp_all add: small_layer_def new_redis_layer_def small_options_def normalizeCommandTimeoutMs_def)
  have r: "readable_back store_only small_layer (utf8_encode (json (\<lambda>_. []) demo_json))"
    by (simp add: readable_back_def rd demo_json_def d int_text_def json_string_def esc_char_def is_whole_def)
  have k: "clean_name ''k''" by (simp add: clean_name_def control_char_def surrogate_def MAX_CACHE_KEY_LENGTH_def)
  have z: "zlib_ok store_only" by (simp add: zlib_ok_def store_only_def)
  have c: "ct_ok (redis_contract small_view store_only small_layer) []" "ct_ttl (redis_contract small_view store_only small_layer) 5 (Some 10)"
    by (simp_all add: redis_contract_def math_ceil_def)
  show ?thesis
    using redis_payload_round_trip [OF small_redis_serves small_config_ok c(1) k z rd(1) st rd(2) c(2), of 8] r by (simp add: alive_def)
qed

end
