(* ===== verification/PayloadProtection.thy ===== *)
theory PayloadProtection
  imports Serializers
begin

text \<open>
  Encryption and signatures of stored payloads (\<open>src/src/internal/PayloadProtection.ts\<close>). Buffers are
  byte strings. The primitives of \<open>node:crypto\<close> are arguments, and what the code relies on is the
  hypothesis \<open>crypto_ok\<close>; the random initialisation vector of an encryption is an argument too.
\<close>

record crypto =
  cr_sha256 :: "string \<Rightarrow> string"
  cr_encrypt :: "string \<Rightarrow> string \<Rightarrow> string \<Rightarrow> string \<times> string"
    \<comment> \<open>AES-256-GCM under a key and an initialisation vector: ciphertext and authentication tag\<close>
  cr_decrypt :: "string \<Rightarrow> string \<Rightarrow> string \<Rightarrow> string \<Rightarrow> string option"
    \<comment> \<open>key, vector, tag, ciphertext; \<open>None\<close> when it throws\<close>
  cr_hmac :: "string \<Rightarrow> string \<Rightarrow> string"

fun hex :: "string \<Rightarrow> string" where
  \<comment> \<open>\<open>digest('hex')\<close>\<close>
  "hex [] = []"
| "hex (c # s) = hex_digit (of_char c div 16) # hex_digit (of_char c mod 16) # hex s"

fun from_hex :: "string \<Rightarrow> string" where
  \<comment> \<open>\<open>Buffer.from(text, 'hex')\<close> stops at the first pair that is not hexadecimal\<close>
  "from_hex (a # b # s) = (case (hex_value a, hex_value b) of
     (Some x, Some y) \<Rightarrow> char_of (x * 16 + y) # from_hex s | _ \<Rightarrow> [])"
| "from_hex _ = []"

lemma from_hex_hex: "from_hex (hex s) = s"
proof (induction s)
  case (Cons c s)
  have "(of_char c :: nat) div 16 < 16" by (simp add: less_mult_imp_div_less)
  then show ?case using Cons by (simp add: hex_value_digit div_mult_mod_eq)
qed simp

definition MAGIC_ENCRYPTED :: string where
  "MAGIC_ENCRYPTED = ''LCP1:''"

definition MAGIC_SIGNED :: string where
  "MAGIC_SIGNED = ''LCS1:''"

definition IV_LENGTH :: nat where "IV_LENGTH = 12"
definition AUTH_TAG_LENGTH :: nat where "AUTH_TAG_LENGTH = 16"
definition HMAC_LENGTH :: nat where "HMAC_LENGTH = 32"

definition crypto_ok :: "crypto \<Rightarrow> bool" where
  \<comment> \<open>decryption inverts encryption; tags and digests have their documented lengths\<close>
  "crypto_ok c \<longleftrightarrow>
     (\<forall>key iv plain. length iv = IV_LENGTH \<longrightarrow>
        length (snd (cr_encrypt c key iv plain)) = AUTH_TAG_LENGTH \<and>
        cr_decrypt c key iv (snd (cr_encrypt c key iv plain)) (fst (cr_encrypt c key iv plain)) = Some plain) \<and>
     (\<forall>key d. length (cr_hmac c key d) = HMAC_LENGTH)"

datatype key_material = KeyText string | KeyBuffer string

fun key_given :: "key_material option \<Rightarrow> bool" where
  \<comment> \<open>truthiness: an empty string counts as absent, an empty buffer does not\<close>
  "key_given None = False"
| "key_given (Some (KeyText s)) = (s \<noteq> [])"
| "key_given (Some (KeyBuffer b)) = True"

fun key_bytes :: "key_material \<Rightarrow> string" where
  "key_bytes (KeyText s) = utf8_encode s"
| "key_bytes (KeyBuffer b) = b"

record protection =
  pp_encryptionKey :: "string option"
  pp_signingKey :: "string option"
  pp_allowLegacyPlaintext :: bool

definition new_protection :: "crypto \<Rightarrow> key_material option \<Rightarrow> key_material option \<Rightarrow> bool option \<Rightarrow> protection" where
  "new_protection c encryptionKey signingKey allowLegacyPlaintext =
    \<lparr>pp_encryptionKey = (if key_given encryptionKey then Some (cr_sha256 c (key_bytes (the encryptionKey))) else None),
     pp_signingKey = (if key_given signingKey \<and> \<not> key_given encryptionKey then Some (cr_sha256 c (key_bytes (the signingKey))) else None),
     pp_allowLegacyPlaintext = (allowLegacyPlaintext = Some True)\<rparr>"

definition protection_enabled :: "protection \<Rightarrow> bool" where
  "protection_enabled p \<longleftrightarrow> pp_encryptionKey p \<noteq> None \<or> pp_signingKey p \<noteq> None"

definition subarray :: "nat \<Rightarrow> nat \<Rightarrow> string \<Rightarrow> string" where
  "subarray from to b = take (to - from) (drop from b)"

definition encrypt_payload :: "crypto \<Rightarrow> string \<Rightarrow> string \<Rightarrow> string \<Rightarrow> string" where
  "encrypt_payload c iv plaintext key =
    (case cr_encrypt c key iv plaintext of (encrypted, authTag) \<Rightarrow> MAGIC_ENCRYPTED @ iv @ authTag @ encrypted)"

definition decrypt_payload :: "crypto \<Rightarrow> string \<Rightarrow> string \<Rightarrow> string result" where
  "decrypt_payload c payload key =
    (let headerEnd = length MAGIC_ENCRYPTED;
         iv = subarray headerEnd (headerEnd + IV_LENGTH) payload;
         authTag = subarray (headerEnd + IV_LENGTH) (headerEnd + IV_LENGTH + AUTH_TAG_LENGTH) payload;
         ciphertext = drop (headerEnd + IV_LENGTH + AUTH_TAG_LENGTH) payload
     in case cr_decrypt c key iv authTag ciphertext of
          None \<Rightarrow> Inl (ProtectionError ''Decryption failed'')
        | Some plain \<Rightarrow> Inr plain)"

definition sign_payload :: "crypto \<Rightarrow> string \<Rightarrow> string \<Rightarrow> string" where
  "sign_payload c payload key = MAGIC_SIGNED @ cr_hmac c key payload @ payload"

definition verify_payload :: "crypto \<Rightarrow> string \<Rightarrow> string \<Rightarrow> string result" where
  "verify_payload c payload key =
    (let headerEnd = length MAGIC_SIGNED;
         receivedHmac = subarray headerEnd (headerEnd + HMAC_LENGTH) payload;
         data = drop (headerEnd + HMAC_LENGTH) payload
     in if length receivedHmac \<noteq> HMAC_LENGTH \<or> receivedHmac \<noteq> cr_hmac c key data
        then Inl (ProtectionError ''HMAC verification failed'') else Inr data)"

definition has_magic :: "string \<Rightarrow> string \<Rightarrow> bool" where
  \<comment> \<open>\<open>startsWith\<close>\<close>
  "has_magic payload magic = (if length payload < length magic then False else take (length magic) payload = magic)"

definition protect :: "crypto \<Rightarrow> protection \<Rightarrow> string \<Rightarrow> string \<Rightarrow> string" where
  "protect c p iv payload =
    (case pp_encryptionKey p of
       Some key \<Rightarrow> encrypt_payload c iv payload key
     | None \<Rightarrow> (case pp_signingKey p of Some key \<Rightarrow> sign_payload c payload key | None \<Rightarrow> payload))"

definition unprotect :: "crypto \<Rightarrow> protection \<Rightarrow> string \<Rightarrow> string result" where
  "unprotect c p payload =
    (if has_magic payload MAGIC_ENCRYPTED then
       (case pp_encryptionKey p of
          None \<Rightarrow> Inl (ProtectionError ''Encrypted payload but no encryptionKey configured.'')
        | Some key \<Rightarrow> decrypt_payload c payload key)
     else if has_magic payload MAGIC_SIGNED then
       (case pp_signingKey p of
          None \<Rightarrow> Inl (ProtectionError ''Signed payload but no signingKey configured.'')
        | Some key \<Rightarrow> verify_payload c payload key)
     else if protection_enabled p \<and> \<not> pp_allowLegacyPlaintext p
     then Inl (ProtectionError ''Unprotected plaintext payload rejected because payload protection is configured.'')
     else Inr payload)"

subsection \<open>Round trip and rejection\<close>

lemma unprotect_encrypted:
  assumes "crypto_ok c" "length iv = IV_LENGTH" "pp_encryptionKey p = Some key"
  shows "unprotect c p (encrypt_payload c iv d key) = Inr d"
proof -
  obtain ct tag where e: "cr_encrypt c key iv d = (ct, tag)" by fastforce
  have "length tag = AUTH_TAG_LENGTH" "cr_decrypt c key iv tag ct = Some d"
    using assms(1,2) e unfolding crypto_ok_def by (metis fst_conv snd_conv)+
  then show ?thesis using assms(2,3) e
    by (simp add: unprotect_def encrypt_payload_def has_magic_def decrypt_payload_def subarray_def MAGIC_ENCRYPTED_def
        IV_LENGTH_def AUTH_TAG_LENGTH_def Let_def)
qed

lemma unprotect_signed:
  assumes "crypto_ok c" "pp_signingKey p = Some key"
  shows "unprotect c p (sign_payload c d key) = Inr d"
  using assms by (simp add: unprotect_def sign_payload_def has_magic_def verify_payload_def subarray_def MAGIC_ENCRYPTED_def
      MAGIC_SIGNED_def HMAC_LENGTH_def crypto_ok_def Let_def)

lemma verified_was_signed:
  assumes "verify_payload c payload key = Inr d" "has_magic payload MAGIC_SIGNED"
  shows "payload = sign_payload c d key"
proof -
  let ?h = "subarray (length MAGIC_SIGNED) (length MAGIC_SIGNED + HMAC_LENGTH) payload"
  have v: "d = drop (length MAGIC_SIGNED + HMAC_LENGTH) payload" "?h = cr_hmac c key d"
    using assms(1) by (auto simp: verify_payload_def Let_def split: if_splits)
  have "payload = take (length MAGIC_SIGNED) payload @ drop (length MAGIC_SIGNED) payload" by simp
  also have "drop (length MAGIC_SIGNED) payload = ?h @ d"
    using append_take_drop_id [of HMAC_LENGTH "drop (length MAGIC_SIGNED) payload"] v(1) by (simp add: subarray_def add.commute)
  also have "take (length MAGIC_SIGNED) payload = MAGIC_SIGNED" using assms(2) by (auto simp: has_magic_def split: if_splits)
  finally show ?thesis using v(2) by (simp add: sign_payload_def)
qed

text \<open>
  C11: protected payloads come back intact and nothing else is accepted. With an encryption or a
  signing key, what \<open>protect\<close> wrote is read back unchanged; with a signing key and legacy reads off, a payload
  is only accepted if it is exactly the signed form of the data returned; with any key and legacy reads
  off, a payload without a header is rejected, so a plaintext written into the backend is never served.
\<close>

theorem payload_protection_sound:
  assumes "crypto_ok c" "length iv = IV_LENGTH" "p = new_protection c encryptionKey signingKey legacy"
    and "key_given encryptionKey \<or> key_given signingKey"
  shows "unprotect c p (protect c p iv d) = Inr d \<and>
    (legacy \<noteq> Some True \<longrightarrow> \<not> key_given encryptionKey \<longrightarrow> unprotect c p payload = Inr r \<longrightarrow>
       payload = sign_payload c r (cr_sha256 c (key_bytes (the signingKey)))) \<and>
    (legacy \<noteq> Some True \<longrightarrow> \<not> has_magic payload MAGIC_ENCRYPTED \<longrightarrow> \<not> has_magic payload MAGIC_SIGNED \<longrightarrow> isl (unprotect c p payload))"
proof (cases "key_given encryptionKey")
  case True
  let ?k = "cr_sha256 c (key_bytes (the encryptionKey))"
  have k: "pp_encryptionKey p = Some ?k" using True assms(3) by (simp add: new_protection_def)
  then have "unprotect c p (protect c p iv d) = Inr d" using unprotect_encrypted [OF assms(1,2) k] by (simp add: protect_def)
  then show ?thesis using True k assms(3) by (auto simp: unprotect_def protection_enabled_def new_protection_def)
next
  case False
  let ?k = "cr_sha256 c (key_bytes (the signingKey))"
  have k: "pp_encryptionKey p = None" "pp_signingKey p = Some ?k" "pp_allowLegacyPlaintext p = (legacy = Some True)"
    using False assms(3,4) by (auto simp: new_protection_def)
  have "unprotect c p (protect c p iv d) = Inr d" using unprotect_signed [OF assms(1) k(2)] k(1,2) by (simp add: protect_def)
  then show ?thesis using k verified_was_signed [of c payload ?k r]
    by (auto simp: unprotect_def protection_enabled_def split: if_splits)
qed

definition demo_crypto :: crypto where
  \<comment> \<open>a stand-in without secrecy: the tag and the digest are the right length\<close>
  "demo_crypto = \<lparr>cr_sha256 = (\<lambda>s. s), cr_encrypt = (\<lambda>key iv d. (rev d, replicate AUTH_TAG_LENGTH (CHR ''t''))),
     cr_decrypt = (\<lambda>key iv tag d. if tag = replicate AUTH_TAG_LENGTH (CHR ''t'') then Some (rev d) else None),
     cr_hmac = (\<lambda>key d. replicate HMAC_LENGTH (CHR ''h''))\<rparr>"

theorem payload_protection_sound_witness:
  "unprotect demo_crypto (new_protection demo_crypto None (Some (KeyText ''secret'')) None)
     (protect demo_crypto (new_protection demo_crypto None (Some (KeyText ''secret'')) None) (replicate 12 CHR ''i'') ''data'') = Inr ''data'' \<and>
   isl (unprotect demo_crypto (new_protection demo_crypto None (Some (KeyText ''secret'')) None) ''data'')"
proof -
  have "crypto_ok demo_crypto" by (simp add: crypto_ok_def demo_crypto_def AUTH_TAG_LENGTH_def HMAC_LENGTH_def)
  then show ?thesis
    using payload_protection_sound [of demo_crypto "replicate 12 CHR ''i''" _ None "Some (KeyText ''secret'')" None "''data''" "''data''"]
    by (simp add: IV_LENGTH_def has_magic_def MAGIC_ENCRYPTED_def MAGIC_SIGNED_def)
qed

end
