(* ===== verification/DiskLayer.thy ===== *)
theory DiskLayer
  imports LayerContract PayloadProtection
begin

text \<open>
  The disk layer (\<open>src/src/layers/DiskLayer.ts\<close>) over a model of the file operations it uses.

  \<^item> The directory of the layer is a list of files, each with its content and modification time; \<open>dk_listing\<close> is the
    order in which a call of \<open>readdir\<close> names them. File names are taken relative to the directory.
  \<^item> Every call to \<open>node:fs\<close> has a number. \<open>dk_faults\<close> says which calls fail, with the error and, for a write
    that fails half-way, how many bytes reached the file; \<open>dk_clock\<close> is the time a write stamps on
    the file. A \<open>rename\<close> replaces its target in one step, and an open file keeps its content.
  \<^item> \<open>dk_random\<close> is what \<open>randomBytes\<close> answers to the n-th draw. The hash functions, the process id and the text
    of numbers are arguments (\<open>node_env\<close>).
  \<^item> \<open>dk_depth\<close> is \<open>writeQueueDepth\<close>: the writes that are queued or running.
\<close>

subsection \<open>Files\<close>

record disk =
  dk_dir :: bool
  dk_files :: "(string, string \<times> real) jsmap"
  dk_faults :: "nat \<Rightarrow> (string \<times> nat option) option"
  dk_clock :: "nat \<Rightarrow> real"
  dk_listing :: "nat \<Rightarrow> string list \<Rightarrow> string list"
  dk_calls :: nat
  dk_random :: "nat \<Rightarrow> nat \<Rightarrow> string"
  dk_draws :: nat
  dk_depth :: nat

record node_env =
  nd_crypto :: crypto
  nd_pid :: string
  nd_number :: "real \<Rightarrow> string"

definition fs_call :: "(disk, 'a) action \<Rightarrow> (disk, 'a) action" where
  "fs_call m d =
    (let d' = d\<lparr>dk_calls := Suc (dk_calls d)\<rparr> in
     case dk_faults d (dk_calls d) of Some (code, _) \<Rightarrow> (Inl (BackendError code), d') | None \<Rightarrow> m d')"

definition fs_mkdir :: "(disk, unit) action" where
  "fs_mkdir = fs_call (\<lambda>d. (Inr (), d\<lparr>dk_dir := True\<rparr>))"

definition put_file :: "string \<Rightarrow> string \<Rightarrow> real \<Rightarrow> disk \<Rightarrow> disk" where
  "put_file name content mtime d = d\<lparr>dk_files := AList.update name (content, mtime) (dk_files d)\<rparr>"

definition fs_writeFile :: "string \<Rightarrow> string \<Rightarrow> (disk, unit) action" where
  "fs_writeFile name content d =
    (let n = dk_calls d; d' = d\<lparr>dk_calls := Suc n\<rparr> in
     case dk_faults d n of
       Some (code, Some k) \<Rightarrow> (Inl (BackendError code), if dk_dir d then put_file name (take k content) (dk_clock d n) d' else d')
     | Some (code, None) \<Rightarrow> (Inl (BackendError code), d')
     | None \<Rightarrow> if dk_dir d then (Inr (), put_file name content (dk_clock d n) d') else (Inl (BackendError ''ENOENT''), d'))"

definition fs_rename :: "string \<Rightarrow> string \<Rightarrow> (disk, unit) action" where
  "fs_rename from to = fs_call (\<lambda>d. case map_of (dk_files d) from of
     None \<Rightarrow> (Inl (BackendError ''ENOENT''), d)
   | Some file \<Rightarrow> (Inr (), d\<lparr>dk_files := AList.update to file (AList.delete from (dk_files d))\<rparr>))"

definition fs_unlink :: "string \<Rightarrow> (disk, unit) action" where
  "fs_unlink name = fs_call (\<lambda>d. if map_of (dk_files d) name = None then (Inl (BackendError ''ENOENT''), d)
     else (Inr (), d\<lparr>dk_files := AList.delete name (dk_files d)\<rparr>))"

definition fs_readdir :: "(disk, string list) action" where
  "fs_readdir = fs_call (\<lambda>d. if dk_dir d then (Inr (dk_listing d (dk_calls d) (map fst (dk_files d))), d) else (Inl (BackendError ''ENOENT''), d))"

definition fs_stat :: "string \<Rightarrow> (disk, real) action" where
  \<comment> \<open>the \<open>mtimeMs\<close>\<close>
  "fs_stat name = fs_call (\<lambda>d. case map_of (dk_files d) name of
     None \<Rightarrow> (Inl (BackendError ''ENOENT''), d) | Some (_, mtime) \<Rightarrow> (Inr mtime, d))"

definition fs_open :: "string \<Rightarrow> (disk, string) action" where
  \<comment> \<open>a handle is the content of the opened file\<close>
  "fs_open name = fs_call (\<lambda>d. case map_of (dk_files d) name of
     None \<Rightarrow> (Inl (BackendError ''ENOENT''), d) | Some (content, _) \<Rightarrow> (Inr content, d))"

definition fs_close :: "disk \<Rightarrow> disk" where
  \<comment> \<open>a failing \<open>close\<close> is ignored\<close>
  "fs_close d = snd (fs_call (ret ()) d)"

definition draw :: "nat \<Rightarrow> disk \<Rightarrow> string \<times> disk" where
  \<comment> \<open>\<open>randomBytes(n)\<close>\<close>
  "draw n d = (dk_random d (dk_draws d) n, d\<lparr>dk_draws := Suc (dk_draws d)\<rparr>)"

subsection \<open>The layer\<close>

datatype byte_limit = NoByteLimit | ByteLimit real   \<comment> \<open>\<open>number | false\<close>\<close>

datatype number_option = FalseOption | NumberOption jsnum

record disk_options =
  do_directory :: string
  do_ttl :: "real option"
  do_name :: "string option"
  do_serializer :: "serializer option"
  do_maxFiles :: "jsnum option"
  do_maxEntryBytes :: "number_option option"
  do_maxWriteQueueDepth :: "number_option option"
  do_encryptionKey :: "key_material option"
  do_signingKey :: "key_material option"
  do_allowLegacyPlaintext :: "bool option"

record disk_layer =
  dl_name :: string
  dl_defaultTtl :: "real option"
  dl_serializer :: serializer
  dl_maxFiles :: "nat option"
  dl_maxEntryBytes :: byte_limit
  dl_maxWriteQueueDepth :: match_limit
  dl_protection :: protection

definition whole_positive :: "jsnum \<Rightarrow> nat option" where
  \<comment> \<open>\<open>Number.isInteger(n) && n > 0\<close>\<close>
  "whole_positive n = (case n of Fin x \<Rightarrow> if is_whole x \<and> x > 0 then Some (nat \<lfloor>x\<rfloor>) else None | _ \<Rightarrow> None)"

definition normalizeMaxFiles :: "jsnum option \<Rightarrow> nat option result" where
  "normalizeMaxFiles maxFiles =
    (case maxFiles of
       None \<Rightarrow> Inr (Some 50000)
     | Some PosInf \<Rightarrow> Inr None
     | Some n \<Rightarrow> (case whole_positive n of
         None \<Rightarrow> Inl (MustBePositive ''DiskLayer.maxFiles'') | Some k \<Rightarrow> Inr (Some k)))"

definition normalizeMaxEntryBytes :: "number_option option \<Rightarrow> byte_limit result" where
  "normalizeMaxEntryBytes maxEntryBytes =
    (case nullish maxEntryBytes (NumberOption (Fin (16 * 1024 * 1024))) of
       FalseOption \<Rightarrow> Inr NoByteLimit
     | NumberOption (Fin x) \<Rightarrow> if x \<le> 0 then Inl (MustBePositive ''DiskLayer.maxEntryBytes'') else Inr (ByteLimit x)
     | NumberOption _ \<Rightarrow> Inl (MustBePositive ''DiskLayer.maxEntryBytes''))"

definition normalizeMaxWriteQueueDepth :: "number_option option \<Rightarrow> match_limit result" where
  "normalizeMaxWriteQueueDepth maxWriteQueueDepth =
    (case nullish maxWriteQueueDepth (NumberOption (Fin 10000)) of
       FalseOption \<Rightarrow> Inr NoLimit
     | NumberOption n \<Rightarrow> (case whole_positive n of
         None \<Rightarrow> Inl (MustBePositive ''DiskLayer.maxWriteQueueDepth'') | Some k \<Rightarrow> Inr (Limit k)))"

definition js_space :: "char \<Rightarrow> bool" where
  \<comment> \<open>white space of \<open>trim\<close>\<close>
  "js_space c = (let n = (of_char c :: nat) in 9 \<le> n \<and> n \<le> 13 \<or> n = 32 \<or> n = 160)"

definition resolveDirectory :: "string \<Rightarrow> unit result" where
  \<comment> \<open>the checks; the resolved path is the directory of the state\<close>
  "resolveDirectory directory =
    (if list_all js_space directory then Inl (EmptyInput ''DiskLayer.directory'')
     else if CHR 0x00 \<in> set directory then Inl (ControlCharacters ''DiskLayer.directory'')
     else Inr ())"

definition new_disk_layer :: "node_env \<Rightarrow> disk_options \<Rightarrow> disk_layer result" where
  "new_disk_layer nd options =
    bind_result (resolveDirectory (do_directory options)) (\<lambda>_.
    bind_result (normalizeMaxFiles (do_maxFiles options)) (\<lambda>maxFiles.
    bind_result (normalizeMaxEntryBytes (do_maxEntryBytes options)) (\<lambda>maxEntryBytes.
    bind_result (normalizeMaxWriteQueueDepth (do_maxWriteQueueDepth options)) (\<lambda>maxWriteQueueDepth.
      Inr \<lparr>dl_name = nullish (do_name options) ''disk'', dl_defaultTtl = do_ttl options,
           dl_serializer = nullish (do_serializer options) (json_serializer (nd_number nd) (json_serializer_options None None None)),
           dl_maxFiles = maxFiles, dl_maxEntryBytes = maxEntryBytes, dl_maxWriteQueueDepth = maxWriteQueueDepth,
           dl_protection = new_protection (nd_crypto nd) (do_encryptionKey options) (do_signingKey options) (do_allowLegacyPlaintext options)\<rparr>))))"

subsection \<open>Entries\<close>

record disk_entry =
  de_key :: string
  de_value :: js
  de_expiresAt :: "jsnum option"

definition js_of_entry :: "string \<Rightarrow> js \<Rightarrow> real option \<Rightarrow> js" where
  "js_of_entry key v expiresAt = JObj [(''key'', JStr key), (''value'', v), (''expiresAt'', js_of_num expiresAt)]"

definition disk_entry_of :: "js \<Rightarrow> disk_entry option" where
  \<comment> \<open>\<open>isDiskEntry\<close>, with the entry the value then stands for\<close>
  "disk_entry_of v =
    (case v of
       JObj ps \<Rightarrow>
         (case (js_prop v ''key'', js_prop v ''expiresAt'') of
            (JStr key, JNull) \<Rightarrow> if ''value'' \<in> fst ` set ps then Some \<lparr>de_key = key, de_value = js_prop v ''value'', de_expiresAt = None\<rparr> else None
          | (JStr key, JNum n) \<Rightarrow> if ''value'' \<in> fst ` set ps then Some \<lparr>de_key = key, de_value = js_prop v ''value'', de_expiresAt = Some n\<rparr> else None
          | _ \<Rightarrow> None)
     | _ \<Rightarrow> None)"

definition deserializeEntry :: "node_env \<Rightarrow> disk_layer \<Rightarrow> string \<Rightarrow> disk_entry result" where
  "deserializeEntry nd dl raw =
    bind_result (unprotect (nd_crypto nd) (dl_protection dl) raw) (\<lambda>unprotected.
    bind_result (sr_deserialize (dl_serializer dl) (PBytes unprotected)) (\<lambda>v.
      case disk_entry_of v of None \<Rightarrow> Inl (OtherError ''Invalid disk cache entry.'') | Some entry \<Rightarrow> Inr entry))"

definition entry_expired :: "disk_entry \<Rightarrow> real \<Rightarrow> bool" where
  \<comment> \<open>\<open>entry.expiresAt !== null && entry.expiresAt <= Date.now()\<close>\<close>
  "entry_expired entry now = (case de_expiresAt entry of Some (Fin x) \<Rightarrow> x \<le> now | Some NegInf \<Rightarrow> True | _ \<Rightarrow> False)"

definition keyToPath :: "node_env \<Rightarrow> string \<Rightarrow> string" where
  "keyToPath nd key = hex (cr_sha256 (nd_crypto nd) (utf8_encode key)) @ ''.lc''"

definition lc_file :: "string \<Rightarrow> bool" where
  \<comment> \<open>\<open>name.endsWith('.lc')\<close>\<close>
  "lc_file name = (drop (length name - 3) name = ''.lc'')"

subsection \<open>Reading files\<close>

definition safeDelete :: "string \<Rightarrow> disk \<Rightarrow> disk" where
  "safeDelete path d = snd (fs_unlink path d)"

function read_chunks :: "real \<Rightarrow> string \<Rightarrow> string \<Rightarrow> (disk, string) action" where
  \<comment> \<open>the loop of \<open>readHandleWithLimit\<close>; \<open>acc\<close> is what has been read\<close>
  "read_chunks maxBytes content acc d =
    (case fs_call (ret (take (nat \<lfloor>min 65536 (maxBytes - real (length acc) + 1)\<rfloor>) (drop (length acc) content))) d of
       (Inl e, d1) \<Rightarrow> (Inl e, d1)
     | (Inr chunk, d1) \<Rightarrow>
         if chunk = [] then (Inr acc, d1)
         else if real (length acc + length chunk) > maxBytes then (Inl (OtherError ''DiskLayer entry exceeds maxEntryBytes limit''), d1)
         else read_chunks maxBytes content (acc @ chunk) d1)"
  by pat_completeness auto
termination
proof (relation "measure (\<lambda>(_, content, acc, _). length content - length acc)", simp, clarify)
  fix maxBytes and content acc chunk :: string and d d1 :: disk
  assume "(Inr chunk, d1) = fs_call (ret (take (nat \<lfloor>min 65536 (maxBytes - real (length acc) + 1)\<rfloor>) (drop (length acc) content))) d" "chunk \<noteq> []"
  then have c: "chunk = take (nat \<lfloor>min 65536 (maxBytes - real (length acc) + 1)\<rfloor>) (drop (length acc) content)" "chunk \<noteq> []"
    by (auto simp: fs_call_def ret_def Let_def split: option.splits)
  have "length chunk \<le> length content - length acc" unfolding c(1) by simp
  moreover have "0 < length chunk" using c(2) by simp
  ultimately have "length content - (length acc + length chunk) < length content - length acc" by linarith
  then show "((maxBytes, content, acc @ chunk, d1), maxBytes, content, acc, d) \<in> measure (\<lambda>(_, content, acc, _). length content - length acc)"
    by simp
qed

declare read_chunks.simps [simp del]

definition readHandleWithLimit :: "disk_layer \<Rightarrow> string \<Rightarrow> (disk, string) action" where
  "readHandleWithLimit dl content =
    (case dl_maxEntryBytes dl of
       NoByteLimit \<Rightarrow> fs_call (ret content)
     | ByteLimit maxBytes \<Rightarrow> andthen (fs_call (ret (length content))) (\<lambda>size.
         if real size > maxBytes then throw_error (OtherError ''DiskLayer entry exceeds maxEntryBytes limit'')
         else read_chunks maxBytes content []))"

text \<open>
  A read is not queued behind the writes, so a write can land between its two halves: what it sees of
  the file (\<open>open_entry\<close>), and what it then does about it (\<open>settle_file\<close>: a file that could not be
  read is deleted).
\<close>

definition open_entry :: "disk_layer \<Rightarrow> string \<Rightarrow> disk \<Rightarrow> (string result \<times> bool) \<times> disk" where
  \<comment> \<open>with whether a handle was opened\<close>
  "open_entry dl path d =
    (case fs_open path d of
       (Inl e, d1) \<Rightarrow> ((Inl e, False), d1)
     | (Inr content, d1) \<Rightarrow> (case readHandleWithLimit dl content d1 of (r, d2) \<Rightarrow> ((r, True), d2)))"

definition settle_file :: "string \<Rightarrow> string result \<times> bool \<Rightarrow> disk \<Rightarrow> string option \<times> disk" where
  "settle_file path seen d =
    (let close = (if snd seen then fs_close else (\<lambda>d. d)) in
     case fst seen of Inl _ \<Rightarrow> (None, close (safeDelete path d)) | Inr raw \<Rightarrow> (Some raw, close d))"

definition readEntryFile :: "disk_layer \<Rightarrow> string \<Rightarrow> disk \<Rightarrow> string option \<times> disk" where
  "readEntryFile dl path d = (case open_entry dl path d of (seen, d1) \<Rightarrow> settle_file path seen d1)"

definition settle_entry :: "node_env \<Rightarrow> disk_layer \<Rightarrow> real \<Rightarrow> string \<Rightarrow> string option \<Rightarrow> disk \<Rightarrow> disk_entry option \<times> disk" where
  \<comment> \<open>the rest of \<open>getEntry\<close>: a corrupt or expired entry is deleted\<close>
  "settle_entry nd dl now path raw d =
    (case raw of
       None \<Rightarrow> (None, d)
     | Some b \<Rightarrow>
         (case deserializeEntry nd dl b of
            Inl _ \<Rightarrow> (None, safeDelete path d)
          | Inr entry \<Rightarrow> if entry_expired entry now then (None, safeDelete path d) else (Some entry, d)))"

definition read_entry :: "node_env \<Rightarrow> disk_layer \<Rightarrow> real \<Rightarrow> string \<Rightarrow> disk \<Rightarrow> disk_entry option \<times> disk" where
  "read_entry nd dl now path d = (case readEntryFile dl path d of (raw, d1) \<Rightarrow> settle_entry nd dl now path raw d1)"

definition value_of :: "disk_entry option \<Rightarrow> js" where
  "value_of e = (case e of None \<Rightarrow> JNull | Some entry \<Rightarrow> de_value entry)"

definition dk_getEntry :: "node_env \<Rightarrow> disk_layer \<Rightarrow> real \<Rightarrow> string \<Rightarrow> (disk, js) action" where
  "dk_getEntry nd dl now key d = (case read_entry nd dl now (keyToPath nd key) d of (e, d1) \<Rightarrow> (Inr (value_of e), d1))"

definition dk_get :: "node_env \<Rightarrow> disk_layer \<Rightarrow> real \<Rightarrow> string \<Rightarrow> (disk, js) action" where
  "dk_get nd dl now key = andthen (dk_getEntry nd dl now key) (\<lambda>payload. ret (unwrapStoredValue now payload))"

fun dk_getMany :: "node_env \<Rightarrow> disk_layer \<Rightarrow> real \<Rightarrow> string list \<Rightarrow> (disk, js list) action" where
  \<comment> \<open>\<open>Promise.all\<close> over reads that never throw, one after the other\<close>
  "dk_getMany nd dl now [] d = (Inr [], d)"
| "dk_getMany nd dl now (key # keys) d =
    (case read_entry nd dl now (keyToPath nd key) d of (e, d1) \<Rightarrow>
     case dk_getMany nd dl now keys d1 of (r, d2) \<Rightarrow> (map_sum id (Cons (value_of e)) r, d2))"

definition dk_has :: "node_env \<Rightarrow> disk_layer \<Rightarrow> real \<Rightarrow> string \<Rightarrow> (disk, bool) action" where
  "dk_has nd dl now key = andthen (dk_getEntry nd dl now key) (\<lambda>v. ret (v \<noteq> JNull))"

definition dk_ttl :: "node_env \<Rightarrow> disk_layer \<Rightarrow> real \<Rightarrow> string \<Rightarrow> (disk, jsnum option) action" where
  "dk_ttl nd dl now key d =
    (let path = keyToPath nd key in
     case readEntryFile dl path d of
       (None, d1) \<Rightarrow> (Inr None, d1)
     | (Some raw, d1) \<Rightarrow>
         (case deserializeEntry nd dl raw of
            Inl _ \<Rightarrow> (Inr None, safeDelete path d1)
          | Inr entry \<Rightarrow>
              (Inr (case de_expiresAt entry of
                 None \<Rightarrow> None
               | Some (Fin x) \<Rightarrow> let remaining = math_ceil (x - now) in if remaining \<le> 0 then None else Some (Fin remaining)
               | Some NegInf \<Rightarrow> None
               | Some n \<Rightarrow> Some n), d1)))"

subsection \<open>The write queue\<close>

definition queue_full :: "disk_layer \<Rightarrow> disk \<Rightarrow> bool" where
  "queue_full dl d = (case dl_maxWriteQueueDepth dl of NoLimit \<Rightarrow> False | Limit n \<Rightarrow> dk_depth d \<ge> n)"

definition queue_error :: error where
  "queue_error = OtherError ''DiskLayer write queue limit exceeded.''"

definition enqueueWrite :: "disk_layer \<Rightarrow> (disk, unit) action \<Rightarrow> (disk, unit) action" where
  \<comment> \<open>a write that finds the queue empty\<close>
  "enqueueWrite dl operation d =
    (if queue_full dl d then (Inl queue_error, d)
     else case operation (d\<lparr>dk_depth := Suc (dk_depth d)\<rparr>) of (r, d1) \<Rightarrow> (r, d1\<lparr>dk_depth := dk_depth d1 - 1\<rparr>))"

fun admit_writes :: "disk_layer \<Rightarrow> (disk, unit) action list \<Rightarrow> disk \<Rightarrow> (disk, unit) action list \<times> bool \<times> disk" where
  \<comment> \<open>writes enqueued in one go: those admitted, and whether one was refused\<close>
  "admit_writes dl [] d = ([], False, d)"
| "admit_writes dl (m # ms) d =
    (if queue_full dl d then (case admit_writes dl ms d of (qs, _, d1) \<Rightarrow> (qs, True, d1))
     else case admit_writes dl ms (d\<lparr>dk_depth := Suc (dk_depth d)\<rparr>) of (qs, refused, d1) \<Rightarrow> (m # qs, refused, d1))"

fun run_writes :: "(disk, unit) action list \<Rightarrow> (disk, unit) action" where
  \<comment> \<open>the queue runs the writes one after the other, whatever their outcome; with the first error\<close>
  "run_writes [] d = (Inr (), d)"
| "run_writes (m # ms) d =
    (case m d of (r, d1) \<Rightarrow> case run_writes ms (d1\<lparr>dk_depth := dk_depth d1 - 1\<rparr>) of (r', d2) \<Rightarrow>
       (case r of Inl e \<Rightarrow> (Inl e, d2) | Inr _ \<Rightarrow> (r', d2)))"

definition enqueue_all :: "disk_layer \<Rightarrow> (disk, unit) action list \<Rightarrow> (disk, unit) action" where
  \<comment> \<open>\<open>Promise.all\<close> over enqueued writes: a refusal is reported before any write has run\<close>
  "enqueue_all dl ms d =
    (case admit_writes dl ms d of (qs, refused, d1) \<Rightarrow> case run_writes qs d1 of (r, d2) \<Rightarrow>
       (if refused then Inl queue_error else r, d2))"

subsection \<open>Writing and deleting\<close>

fun stat_all :: "string list \<Rightarrow> disk \<Rightarrow> (string \<times> real) list \<times> disk" where
  "stat_all [] d = ([], d)"
| "stat_all (name # names) d =
    (case fs_stat name d of (r, d1) \<Rightarrow> case stat_all names d1 of (xs, d2) \<Rightarrow>
       ((name, case r of Inl _ \<Rightarrow> 0 | Inr mtime \<Rightarrow> mtime) # xs, d2))"

definition enforceMaxFiles :: "disk_layer \<Rightarrow> disk \<Rightarrow> disk" where
  "enforceMaxFiles dl d =
    (case dl_maxFiles dl of
       None \<Rightarrow> d
     | Some maxFiles \<Rightarrow>
         (case fs_readdir d of
            (Inl _, d1) \<Rightarrow> d1
          | (Inr entries, d1) \<Rightarrow>
              let lcFiles = filter lc_file entries in
              if length lcFiles \<le> maxFiles then d1
              else case stat_all lcFiles d1 of (withStats, d2) \<Rightarrow>
                fold safeDelete (map fst (take (length lcFiles - maxFiles) (sort_key snd withStats))) d2))"

definition tempPath :: "node_env \<Rightarrow> real \<Rightarrow> string \<Rightarrow> string \<Rightarrow> string" where
  "tempPath nd now targetPath random =
    targetPath @ ''.'' @ nd_pid nd @ ''.'' @ number_text (nd_number nd) (Fin now) @ ''.'' @ hex random @ ''.tmp''"

definition store_file :: "string \<Rightarrow> string \<Rightarrow> string \<Rightarrow> (disk, unit) action" where
  \<comment> \<open>the temporary file and its \<open>rename\<close>\<close>
  "store_file temp targetPath content =
    catching (andthen (fs_writeFile temp content) (\<lambda>_. fs_rename temp targetPath))
      (\<lambda>e d. (Inl e, safeDelete temp d))"

definition write_entry :: "node_env \<Rightarrow> disk_layer \<Rightarrow> real \<Rightarrow> string \<Rightarrow> js \<Rightarrow> real option \<Rightarrow> (disk, unit) action" where
  \<comment> \<open>the operation \<open>set\<close> queues; the vector of an encryption and the temporary name are drawn here\<close>
  "write_entry nd dl now key v ttl =
    andthen fs_mkdir (\<lambda>_ d.
      let expiresAt = (case ttl of Some x \<Rightarrow> if x > 0 then Some (now + x) else None | None \<Rightarrow> None) in
      case sr_serialize (dl_serializer dl) (js_of_entry key v expiresAt) of
        Inl e \<Rightarrow> (Inl e, d)
      | Inr payload \<Rightarrow>
          case draw IV_LENGTH d of (iv, d1) \<Rightarrow> case draw 8 d1 of (random, d2) \<Rightarrow>
            andthen (store_file (tempPath nd now (keyToPath nd key) random) (keyToPath nd key)
                (protect (nd_crypto nd) (dl_protection dl) iv (payload_bytes payload)))
              (\<lambda>_ d3. (Inr (), enforceMaxFiles dl d3)) d2)"

definition dk_set :: "node_env \<Rightarrow> disk_layer \<Rightarrow> real \<Rightarrow> string \<Rightarrow> js \<Rightarrow> real option \<Rightarrow> (disk, unit) action" where
  "dk_set nd dl now key v ttl = enqueueWrite dl (write_entry nd dl now key v (nullish_opt ttl (dl_defaultTtl dl)))"

definition dk_setMany :: "node_env \<Rightarrow> disk_layer \<Rightarrow> real \<Rightarrow> set_many_entry list \<Rightarrow> (disk, unit) action" where
  "dk_setMany nd dl now entries =
    enqueue_all dl (map (\<lambda>e. write_entry nd dl now (sm_key e) (sm_value e) (nullish_opt (sm_ttl e) (dl_defaultTtl dl))) entries)"

definition dk_delete :: "node_env \<Rightarrow> disk_layer \<Rightarrow> string \<Rightarrow> (disk, unit) action" where
  "dk_delete nd dl key = enqueueWrite dl (\<lambda>d. (Inr (), safeDelete (keyToPath nd key) d))"

definition dk_deleteMany :: "node_env \<Rightarrow> disk_layer \<Rightarrow> string list \<Rightarrow> (disk, unit) action" where
  \<comment> \<open>\<open>deletePathsWithConcurrency\<close>: its workers take the paths in order\<close>
  "dk_deleteMany nd dl keys = enqueueWrite dl (\<lambda>d. (Inr (), fold safeDelete (map (keyToPath nd) keys) d))"

definition clear_files :: "(disk, unit) action" where
  "clear_files d =
    (case fs_readdir d of
       (Inl _, d1) \<Rightarrow> (Inr (), d1)
     | (Inr entries, d1) \<Rightarrow> (Inr (), fold safeDelete (filter lc_file entries) d1))"

definition dk_clear :: "disk_layer \<Rightarrow> (disk, unit) action" where
  "dk_clear dl = enqueueWrite dl clear_files"

definition dk_ping :: "(disk, bool) action" where
  "dk_ping d = (case fs_mkdir d of (Inl _, d1) \<Rightarrow> (Inr False, d1) | (Inr _, d1) \<Rightarrow> (Inr True, d1))"

subsection \<open>Scans\<close>

definition FILE_SCAN_CONCURRENCY :: nat where "FILE_SCAN_CONCURRENCY = 32"

fun scan_files :: "node_env \<Rightarrow> disk_layer \<Rightarrow> real \<Rightarrow> (disk_entry \<Rightarrow> 'w \<Rightarrow> unit result \<times> 'w) \<Rightarrow> nat \<Rightarrow> string list \<Rightarrow> disk \<Rightarrow> 'w \<Rightarrow> unit result \<times> disk \<times> 'w" where
  \<comment> \<open>the workers take the files in order; a visitor that throws ends its worker only, and the first
    error is reported\<close>
  "scan_files nd dl now visitor workers [] d w = (Inr (), d, w)"
| "scan_files nd dl now visitor workers (name # names) d w =
    (if workers = 0 then (Inr (), d, w)
     else case read_entry nd dl now name d of
       (None, d1) \<Rightarrow> scan_files nd dl now visitor workers names d1 w
     | (Some entry, d1) \<Rightarrow>
         (case visitor entry w of
            (Inr _, w1) \<Rightarrow> scan_files nd dl now visitor workers names d1 w1
          | (Inl e, w1) \<Rightarrow> (case scan_files nd dl now visitor (workers - 1) names d1 w1 of (_, d2, w2) \<Rightarrow> (Inl e, d2, w2))))"

definition scanEntries :: "node_env \<Rightarrow> disk_layer \<Rightarrow> real \<Rightarrow> (disk_entry \<Rightarrow> 'w \<Rightarrow> unit result \<times> 'w) \<Rightarrow> disk \<Rightarrow> 'w \<Rightarrow> unit result \<times> disk \<times> 'w" where
  "scanEntries nd dl now visitor d w =
    (case fs_readdir d of
       (Inl _, d1) \<Rightarrow> (Inr (), d1, w)
     | (Inr entries, d1) \<Rightarrow>
         let lcFiles = filter lc_file entries in
         scan_files nd dl now visitor (min FILE_SCAN_CONCURRENCY (length lcFiles)) lcFiles d1 w)"

definition dk_keys :: "node_env \<Rightarrow> disk_layer \<Rightarrow> real \<Rightarrow> (disk, string list) action" where
  "dk_keys nd dl now d =
    (case scanEntries nd dl now (\<lambda>entry ks. (Inr (), ks @ [de_key entry])) d [] of (r, d1, ks) \<Rightarrow> (map_sum id (\<lambda>_. ks) r, d1))"

definition dk_forEachKey :: "node_env \<Rightarrow> disk_layer \<Rightarrow> real \<Rightarrow> 'w visitor \<Rightarrow> disk \<Rightarrow> 'w \<Rightarrow> unit result \<times> disk \<times> 'w" where
  "dk_forEachKey nd dl now visitor d w = scanEntries nd dl now (\<lambda>entry. visitor (de_key entry)) d w"

definition dk_size :: "node_env \<Rightarrow> disk_layer \<Rightarrow> real \<Rightarrow> (disk, nat) action" where
  "dk_size nd dl now d =
    (case scanEntries nd dl now (\<lambda>_ n. (Inr (), n + 1)) d 0 of (r, d1, n) \<Rightarrow> (map_sum id (\<lambda>_. n) r, d1))"

subsection \<open>As a layer of the stack\<close>

definition finite_ttl :: "jsnum option \<Rightarrow> real option" where
  \<comment> \<open>a non-finite expiry, which only a foreign serializer can produce, reads as none\<close>
  "finite_ttl n = (case n of Some (Fin x) \<Rightarrow> Some x | _ \<Rightarrow> None)"

definition disk_api :: "node_env \<Rightarrow> disk_layer \<Rightarrow> disk layer_api" where
  "disk_api nd dl = \<lparr>
     la_get = dk_get nd dl,
     la_getEntry = Some (dk_getEntry nd dl),
     la_getMany = Some (dk_getMany nd dl),
     la_set = dk_set nd dl,
     la_setMany = Some (dk_setMany nd dl),
     la_delete = (\<lambda>_. dk_delete nd dl),
     la_deleteMany = Some (\<lambda>_. dk_deleteMany nd dl),
     la_clear = (\<lambda>_. dk_clear dl),
     la_has = Some (dk_has nd dl),
     la_ttl = Some (\<lambda>now key. andthen (dk_ttl nd dl now key) (\<lambda>n. ret (finite_ttl n))),
     la_keys = Some (dk_keys nd dl),
     la_visited = (\<lambda>_ _. [])\<rparr>   \<comment> \<open>only a visitor can make a scan fail\<close>"

end
