(* ===== verification/DiskContract.thy ===== *)
theory DiskContract
  imports DiskLayer "HOL-Library.Multiset"
begin

text \<open>
  What the disk layer guarantees: on a file system without failures it keeps the contract of a layer
  of the stack; a write replaces the file of its key in one step whatever fails; the number of files
  stays within its limit; and what a read does that overlaps a write.
\<close>

subsection \<open>A file system without failures\<close>

text \<open>
  The clock of the file system may be coarse: it never runs backwards, but any number of calls may see the same
  time. \<open>stamped\<close> are the files with a modification time from \<open>x\<close> on, \<open>ticks\<close> the calls made at or after
  \<open>x\<close>: each such file was written by one of these calls, or \<open>x\<close> is a time before the first call of this process.
\<close>

definition stamped :: "disk \<Rightarrow> real \<Rightarrow> string set" where
  "stamped d x = {name. \<exists>b mtime. map_of (dk_files d) name = Some (b, mtime) \<and> x \<le> mtime}"

definition ticks :: "disk \<Rightarrow> real \<Rightarrow> nat set" where
  "ticks d x = {m. m < dk_calls d \<and> x \<le> dk_clock d m}"

definition calm :: "disk \<Rightarrow> bool" where
  \<comment> \<open>no call fails, random bytes have their length, a listing names every file once in some order, the clock
    never runs backwards, and files of earlier runs are older than the first call\<close>
  "calm d \<longleftrightarrow> (\<forall>n. dk_faults d n = None) \<and> (\<forall>i n. length (dk_random d i n) = n) \<and> jsmap_ok (dk_files d) \<and>
     (\<forall>n names. mset (dk_listing d n names) = mset names) \<and>
     (\<forall>m n. m \<le> n \<longrightarrow> dk_clock d m \<le> dk_clock d n) \<and>
     (\<forall>x. dk_clock d 0 \<le> x \<longrightarrow> card (stamped d x) \<le> card (ticks d x))"

definition roomy :: "disk_layer \<Rightarrow> disk \<Rightarrow> bool" where
  \<comment> \<open>with a limit on the files: no more calls than the limit see the same time of the clock\<close>
  "roomy dl d \<longleftrightarrow> (\<forall>m n. dl_maxFiles dl = Some m \<longrightarrow> dk_clock d n < dk_clock d (n + m))"

definition later :: "disk \<Rightarrow> disk \<Rightarrow> bool" where
  \<comment> \<open>the same disk some calls later, but for its files\<close>
  "later d d' \<longleftrightarrow> dk_faults d' = dk_faults d \<and> dk_random d' = dk_random d \<and> dk_clock d' = dk_clock d \<and> dk_listing d' = dk_listing d \<and> dk_dir d' = dk_dir d \<and>
     dk_depth d' = dk_depth d \<and> dk_calls d \<le> dk_calls d'"

definition same_files :: "disk \<Rightarrow> disk \<Rightarrow> bool" where
  "same_files d d' \<longleftrightarrow> later d d' \<and> dk_files d' = dk_files d"

definition without :: "string set \<Rightarrow> disk \<Rightarrow> disk \<Rightarrow> bool" where
  \<comment> \<open>the same disk some calls later, without these files\<close>
  "without names d d' \<longleftrightarrow> later d d' \<and> jsmap_ok (dk_files d') \<and>
     (\<forall>name. map_of (dk_files d') name = (if name \<in> names then None else map_of (dk_files d) name))"

lemma later_refl [simp]: "later d d"
  by (simp add: later_def)

lemma later_trans: "later d d1 \<Longrightarrow> later d1 d2 \<Longrightarrow> later d d2"
  by (auto simp: later_def)

lemma same_files_refl [simp]: "same_files d d"
  by (simp add: same_files_def)

lemma same_files_trans: "same_files d d1 \<Longrightarrow> same_files d1 d2 \<Longrightarrow> same_files d d2"
  using later_trans by (auto simp: same_files_def)

lemma without_none: "calm d \<Longrightarrow> same_files d d' \<Longrightarrow> without {} d d'"
  by (simp add: without_def same_files_def calm_def)

lemma without_trans: "without A d d1 \<Longrightarrow> without B d1 d2 \<Longrightarrow> without (A \<union> B) d d2"
  using later_trans by (auto simp: without_def)

lemma finite_stamped [simp]: "finite (stamped d x)"
  by (rule finite_subset [OF _ finite_dom_map_of [of "dk_files d"]]) (auto simp: stamped_def)

lemma finite_ticks [simp]: "finite (ticks d x)"
  by (simp add: ticks_def)

lemma calm_step:
  assumes "calm d" "later d d'" "jsmap_ok (dk_files d')" "\<And>x. stamped d' x \<subseteq> stamped d x"
  shows "calm d'"
proof -
  have l: "dk_faults d' = dk_faults d" "dk_random d' = dk_random d" "dk_clock d' = dk_clock d" "dk_listing d' = dk_listing d" "dk_calls d \<le> dk_calls d'"
    using assms(2) by (simp_all add: later_def)
  have "card (stamped d' x) \<le> card (ticks d' x)" if "dk_clock d 0 \<le> x" for x
  proof -
    have "card (stamped d' x) \<le> card (stamped d x)" by (intro card_mono assms(4) finite_stamped)
    also have "\<dots> \<le> card (ticks d x)" using assms(1) that by (simp add: calm_def)
    also have "\<dots> \<le> card (ticks d' x)" using l by (intro card_mono finite_ticks) (auto simp: ticks_def)
    finally show ?thesis .
  qed
  then show ?thesis using assms(1,3) l by (simp add: calm_def)
qed

lemma calm_without: "calm d \<Longrightarrow> without names d d' \<Longrightarrow> calm d'"
  by (erule calm_step) (auto simp: without_def stamped_def split: if_splits)

lemma roomy_later: "roomy dl d \<Longrightarrow> later d d' \<Longrightarrow> roomy dl d'"
  by (simp add: roomy_def later_def)

lemma calm_same: "calm d \<Longrightarrow> same_files d d' \<Longrightarrow> calm d'"
  using calm_without [OF _ without_none] by blast

lemma calm_call: "calm d \<Longrightarrow> fs_call m d = m (d\<lparr>dk_calls := Suc (dk_calls d)\<rparr>)"
  by (simp add: fs_call_def calm_def)

lemma tick_same [simp]: "same_files d (d\<lparr>dk_calls := Suc (dk_calls d)\<rparr>)"
  by (simp add: same_files_def later_def)

lemma safeDelete_without:
  assumes "calm d"
  shows "without {name} d (safeDelete name d)"
proof -
  have "jsmap_ok (dk_files d)" using assms by (simp add: calm_def)
  then show ?thesis
    by (auto simp: safeDelete_def fs_unlink_def calm_call [OF assms] without_def later_def map_of_delete jsmap_ok_delete)
qed

lemma fold_safeDelete_without:
  "calm d \<Longrightarrow> without (set names) d (fold safeDelete names d)"
proof (induction names arbitrary: d)
  case Nil
  then show ?case using without_none [OF Nil same_files_refl] by simp
next
  case (Cons name names)
  note w = safeDelete_without [OF Cons(2), of name]
  show ?case using without_trans [OF w Cons(1) [OF calm_without [OF Cons(2) w]]] by simp
qed

subsection \<open>What a file says\<close>

definition fits_limit :: "disk_layer \<Rightarrow> string \<Rightarrow> bool" where
  "fits_limit dl b = (case dl_maxEntryBytes dl of NoByteLimit \<Rightarrow> True | ByteLimit m \<Rightarrow> real (length b) \<le> m)"

definition entry_in :: "node_env \<Rightarrow> disk_layer \<Rightarrow> real \<Rightarrow> string \<Rightarrow> disk_entry option" where
  \<comment> \<open>the live entry that bytes hold\<close>
  "entry_in nd dl t b =
    (if fits_limit dl b then (case deserializeEntry nd dl b of Inl _ \<Rightarrow> None | Inr e \<Rightarrow> if entry_expired e t then None else Some e) else None)"

definition entry_at :: "node_env \<Rightarrow> disk_layer \<Rightarrow> real \<Rightarrow> disk \<Rightarrow> string \<Rightarrow> disk_entry option" where
  "entry_at nd dl t d name = (case map_of (dk_files d) name of None \<Rightarrow> None | Some (b, _) \<Rightarrow> entry_in nd dl t b)"

lemma entry_expired_mono: "t \<le> t' \<Longrightarrow> entry_expired e t \<Longrightarrow> entry_expired e t'"
  by (auto simp: entry_expired_def split: option.splits jsnum.splits)

lemma entry_in_mono: "t \<le> t' \<Longrightarrow> entry_in nd dl t b = None \<Longrightarrow> entry_in nd dl t' b = None"
  using entry_expired_mono by (auto simp: entry_in_def split: sum.splits if_splits)

lemma entry_in_later: "t \<le> t' \<Longrightarrow> entry_in nd dl t' b = Some e \<Longrightarrow> entry_in nd dl t b = Some e"
  using entry_expired_mono by (auto simp: entry_in_def split: sum.splits if_splits)

lemma entry_at_without:
  "without names d d' \<Longrightarrow> entry_at nd dl t d' name = (if name \<in> names then None else entry_at nd dl t d name)"
  by (simp add: entry_at_def without_def)

definition disk_config_ok :: "node_env \<Rightarrow> disk_layer \<Rightarrow> bool" where
  \<comment> \<open>positive limits, as the constructor checks, and no collision of file names\<close>
  "disk_config_ok nd dl \<longleftrightarrow> inj (keyToPath nd) \<and> dl_maxFiles dl \<noteq> Some 0 \<and> dl_maxWriteQueueDepth dl \<noteq> Limit 0 \<and>
     (case dl_maxEntryBytes dl of NoByteLimit \<Rightarrow> True | ByteLimit m \<Rightarrow> 0 < m)"

subsection \<open>Reading\<close>

lemma read_chunks_calm:
  assumes "calm d" "real (length acc) \<le> m" "acc = take (length acc) content"
  shows "\<exists>d'. same_files d d' \<and> (if real (length content) \<le> m then read_chunks m content acc d = (Inr content, d')
     else \<exists>e. read_chunks m content acc d = (Inl e, d'))"
  using assms
proof (induction m content acc d rule: read_chunks.induct)
  case (1 m content acc d)
  let ?n = "nat \<lfloor>min 65536 (m - real (length acc) + 1)\<rfloor>"
  let ?chunk = "take ?n (drop (length acc) content)" and ?d1 = "d\<lparr>dk_calls := Suc (dk_calls d)\<rparr>"
  have call: "fs_call (ret ?chunk) d = (Inr ?chunk, ?d1)" by (simp add: calm_call [OF 1(2)] ret_def)
  have n: "0 < ?n" using 1(3) by linarith
  have le: "length acc \<le> length content" using arg_cong [OF 1(4), of length] by simp
  have step: "read_chunks m content acc d =
      (if ?chunk = [] then (Inr acc, ?d1)
       else if real (length acc + length ?chunk) > m then (Inl (OtherError ''DiskLayer entry exceeds maxEntryBytes limit''), ?d1)
       else read_chunks m content (acc @ ?chunk) ?d1)"
    using call by (subst read_chunks.simps) simp
  show ?case
  proof (cases "?chunk = []")
    case True
    then have "length content \<le> length acc" using n by auto
    then have "acc = content" using 1(4) by simp
    then show ?thesis using step True 1(3) by (intro exI [of _ ?d1]) simp
  next
    case False
    have acc: "acc @ ?chunk = take (length acc + ?n) content" by (simp only: take_add 1(4) [symmetric])
    have len: "length acc + length ?chunk \<le> length content" using le by auto
    show ?thesis
    proof (cases "real (length acc + length ?chunk) > m")
      case True
      then have "\<not> real (length content) \<le> m" using len by linarith
      then show ?thesis using step True False by (intro exI [of _ ?d1]) simp
    next
      case small: False
      have c: "calm ?d1" using calm_same [OF 1(2) tick_same] .
      have b: "real (length (acc @ ?chunk)) \<le> m" using small by simp
      have t: "acc @ ?chunk = take (length (acc @ ?chunk)) content" unfolding acc by (simp add: min_def)
      obtain d' where d': "same_files ?d1 d'" "if real (length content) \<le> m then read_chunks m content (acc @ ?chunk) ?d1 = (Inr content, d')
          else \<exists>e. read_chunks m content (acc @ ?chunk) ?d1 = (Inl e, d')"
        using 1(1) [OF call [symmetric] refl False small c b t] by blast
      have "read_chunks m content acc d = read_chunks m content (acc @ ?chunk) ?d1" using step False small by simp
      then show ?thesis using d'(2) same_files_trans [OF tick_same d'(1)] by (intro exI [of _ d']) simp
    qed
  qed
qed

lemma readHandleWithLimit_calm:
  assumes "calm d" "disk_config_ok nd dl"
  shows "\<exists>d'. same_files d d' \<and> (if fits_limit dl content then readHandleWithLimit dl content d = (Inr content, d')
     else \<exists>e. readHandleWithLimit dl content d = (Inl e, d'))"
proof (cases "dl_maxEntryBytes dl")
  case NoByteLimit
  then show ?thesis
    by (intro exI [of _ "d\<lparr>dk_calls := Suc (dk_calls d)\<rparr>"]) (simp add: fits_limit_def readHandleWithLimit_def calm_call [OF assms(1)] ret_def)
next
  case (ByteLimit m)
  let ?d1 = "d\<lparr>dk_calls := Suc (dk_calls d)\<rparr>"
  have "0 < m" using assms(2) ByteLimit by (simp add: disk_config_ok_def)
  then obtain d' where d': "same_files ?d1 d'" "if real (length content) \<le> m then read_chunks m content [] ?d1 = (Inr content, d')
      else \<exists>e. read_chunks m content [] ?d1 = (Inl e, d')"
    using read_chunks_calm [OF calm_same [OF assms(1) tick_same], of "[]" m content] by auto
  show ?thesis
  proof (cases "real (length content) \<le> m")
    case True
    then show ?thesis using d' ByteLimit same_files_trans [OF tick_same d'(1)]
      by (intro exI [of _ d']) (simp add: fits_limit_def readHandleWithLimit_def calm_call [OF assms(1)] ret_def andthen_def)
  next
    case False
    then show ?thesis using ByteLimit
      by (intro exI [of _ ?d1]) (simp add: fits_limit_def readHandleWithLimit_def calm_call [OF assms(1)] ret_def andthen_def throw_error_def)
  qed
qed

lemma open_entry_calm:
  assumes "calm d" "disk_config_ok nd dl"
  shows "\<exists>seen d'. open_entry dl path d = (seen, d') \<and> same_files d d' \<and>
    (case map_of (dk_files d) path of None \<Rightarrow> isl (fst seen) | Some (b, _) \<Rightarrow> if fits_limit dl b then fst seen = Inr b else isl (fst seen))"
proof (cases "map_of (dk_files d) path")
  case None
  then show ?thesis by (simp add: open_entry_def fs_open_def calm_call [OF assms(1)])
next
  case (Some f)
  obtain b mtime where f: "f = (b, mtime)" by fastforce
  let ?d1 = "d\<lparr>dk_calls := Suc (dk_calls d)\<rparr>"
  obtain d' where d': "same_files ?d1 d'" "if fits_limit dl b then readHandleWithLimit dl b ?d1 = (Inr b, d')
     else \<exists>e. readHandleWithLimit dl b ?d1 = (Inl e, d')"
    using readHandleWithLimit_calm [OF calm_same [OF assms(1) tick_same] assms(2), of b] by blast
  then show ?thesis using Some f same_files_trans [OF tick_same d'(1)]
    by (cases "fits_limit dl b") (auto simp: open_entry_def fs_open_def calm_call [OF assms(1)])
qed

text \<open>What a read does after its look at the file, on whatever disk it finds then.\<close>

lemma settle_calm:
  fixes nd :: node_env and now :: real
  assumes "calm d" "case f of None \<Rightarrow> isl (fst seen) | Some (b, _) \<Rightarrow> if fits_limit dl b then fst seen = Inr b else isl (fst seen)"
  defines "found \<equiv> (case f of None \<Rightarrow> None | Some (b, _) \<Rightarrow> entry_in nd dl now b)"
  shows "case settle_file path seen d of (raw, d1) \<Rightarrow> case settle_entry nd dl now path raw d1 of (e, d2) \<Rightarrow>
    e = found \<and> (if found = None then without {path} d d2 else same_files d d2)"
proof -
  have close: "same_files u (fs_close u)" if "calm u" for u
    by (simp add: fs_close_def calm_call [OF that] ret_def)
  let ?close = "if snd seen then fs_close else (\<lambda>d. d)"
  have c: "same_files u (?close u)" if "calm u" for u using close [OF that] by simp
  note del = safeDelete_without [OF assms(1), of path]
  have calm': "calm (safeDelete path d)" using calm_without [OF assms(1) del] .
  have del2: "without {path} d (?close (safeDelete path d))"
    using without_trans [OF del without_none [OF calm' c [OF calm']]] by simp
  have after: "without {path} d (safeDelete path (?close d))"
    using without_trans [OF without_none [OF assms(1) c [OF assms(1)]] safeDelete_without [OF calm_same [OF assms(1) c [OF assms(1)]], of path]] by simp
  show ?thesis
  proof (cases "fst seen")
    case (Inl e)
    then have "found = None" using assms(2) by (auto simp: found_def entry_in_def split: option.splits if_splits)
    then show ?thesis using Inl del2 by (simp add: settle_file_def settle_entry_def)
  next
    case (Inr raw)
    then obtain mtime where f: "f = Some (raw, mtime)" "fits_limit dl raw"
      using assms(2) by (auto simp: isl_def split: option.splits if_splits)
    then have found: "found = entry_in nd dl now raw" by (simp add: found_def)
    show ?thesis
      using Inr f(2) after c [OF assms(1)] by (auto simp: settle_file_def settle_entry_def found entry_in_def split: sum.splits)
  qed
qed

lemma read_entry_calm:
  assumes "calm d" "disk_config_ok nd dl"
  shows "\<exists>d'. read_entry nd dl now path d = (entry_at nd dl now d path, d') \<and>
    (if entry_at nd dl now d path = None then without {path} d d' else same_files d d')"
proof -
  obtain seen d1 where o: "open_entry dl path d = (seen, d1)" "same_files d d1"
    "case map_of (dk_files d) path of None \<Rightarrow> isl (fst seen) | Some (b, _) \<Rightarrow> if fits_limit dl b then fst seen = Inr b else isl (fst seen)"
    using open_entry_calm [OF assms, of path] by blast
  obtain raw d2 where s: "settle_file path seen d1 = (raw, d2)" by fastforce
  obtain e d3 where e: "settle_entry nd dl now path raw d2 = (e, d3)" by fastforce
  have "e = entry_at nd dl now d path \<and> (if entry_at nd dl now d path = None then without {path} d1 d3 else same_files d1 d3)"
    using settle_calm [OF calm_same [OF assms(1) o(2)] o(3), where nd = nd and now = now and path = path] s e by (simp add: entry_at_def)
  moreover have "read_entry nd dl now path d = (e, d3)" using o(1) s e by (simp add: read_entry_def readEntryFile_def)
  moreover have "without {path} d d3" if "without {path} d1 d3" using without_trans [OF without_none [OF assms(1) o(2)] that] by simp
  moreover have "same_files d d3" if "same_files d1 d3" using same_files_trans [OF o(2) that] .
  ultimately show ?thesis by auto
qed

subsection \<open>Eviction\<close>

lemma stat_all_calm:
  "calm d \<Longrightarrow> set names \<subseteq> dom (map_of (dk_files d)) \<Longrightarrow>
   \<exists>d'. stat_all names d = (map (\<lambda>n. (n, snd (the (map_of (dk_files d) n)))) names, d') \<and> same_files d d'"
proof (induction names arbitrary: d)
  case (Cons name names)
  let ?d1 = "d\<lparr>dk_calls := Suc (dk_calls d)\<rparr>"
  obtain b mtime where f: "map_of (dk_files d) name = Some (b, mtime)" using Cons(3) by auto
  have "fs_stat name d = (Inr mtime, ?d1)" using f by (simp add: fs_stat_def calm_call [OF Cons(2)])
  moreover obtain d' where "stat_all names ?d1 = (map (\<lambda>n. (n, snd (the (map_of (dk_files d) n)))) names, d')" "same_files ?d1 d'"
    using Cons(1) [OF calm_same [OF Cons(2) tick_same]] Cons(3) by auto
  ultimately show ?case using f same_files_trans [OF tick_same, of d d'] by simp
qed simp

lemma distinct_keys_sorted: "distinct (map fst xs) \<Longrightarrow> distinct (map fst (sort_key f xs))"
  by (simp add: distinct_map)

text \<open>
  Sorting by time and taking the oldest: an element is safe if at most \<open>m\<close> elements, itself included,
  are at least as new and all but \<open>m\<close> are taken.
\<close>

lemma young_not_evicted:
  assumes "distinct (map fst xs)" "(x, t) \<in> set xs" "finite N" "card N \<le> m" "\<And>y k. (y, k) \<in> set xs \<Longrightarrow> t \<le> k \<Longrightarrow> y \<in> N" "m < length xs"
  shows "x \<notin> fst ` set (take (length xs - m) (sort_key snd xs))"
proof
  let ?ys = "sort_key snd xs" and ?j = "length xs - m"
  assume "x \<in> fst ` set (take ?j ?ys)"
  then obtain i where i: "i < ?j" "fst (?ys ! i) = x" by (auto simp: in_set_conv_nth)
  have d: "distinct (map fst ?ys)" using distinct_keys_sorted [OF assms(1)] .
  have "?ys ! i \<in> set xs" using i(1) nth_mem [of i ?ys] by simp
  then have t: "snd (?ys ! i) = t" using i(2) assms(1,2) eq_key_imp_eq_value [of xs x] by (metis prod.collapse)
  have "fst (?ys ! k) \<in> N" if "i \<le> k" "k < length xs" for k
  proof -
    have "snd (?ys ! i) \<le> snd (?ys ! k)" using sorted_nth_mono [of "map snd ?ys" i k] that by simp
    moreover have "?ys ! k \<in> set xs" using that(2) nth_mem [of k ?ys] by simp
    ultimately show ?thesis using assms(5) [of "fst (?ys ! k)" "snd (?ys ! k)"] t by simp
  qed
  then have "fst (drop i ?ys ! k) \<in> N" if "k < length xs - i" for k using that i(1) by (simp add: add.commute less_diff_conv)
  then have "set (map fst (drop i ?ys)) \<subseteq> N" by (fastforce simp: in_set_conv_nth)
  then have "card (set (map fst (drop i ?ys))) \<le> m" using card_mono [OF assms(3)] assms(4) le_trans by blast
  moreover have "card (set (map fst (drop i ?ys))) = length xs - i" using distinct_card [of "map fst (drop i ?ys)"] d by (simp add: drop_map [symmetric])
  ultimately show False using i(1) assms(6) by linarith
qed

definition lc_files :: "disk \<Rightarrow> string list" where
  "lc_files d = filter lc_file (map fst (dk_files d))"

definition listed :: "disk \<Rightarrow> string list" where
  \<comment> \<open>the entry files in the order the next call lists them\<close>
  "listed d = filter lc_file (dk_listing d (Suc (dk_calls d)) (map fst (dk_files d)))"

lemma listed_lc_files:
  assumes "calm d"
  shows "mset (listed d) = mset (lc_files d)" "set (listed d) = set (lc_files d)" "length (listed d) = length (lc_files d)" "distinct (listed d)"
proof -
  show m: "mset (listed d) = mset (lc_files d)" using assms by (simp add: listed_def lc_files_def calm_def)
  show "set (listed d) = set (lc_files d)" "length (listed d) = length (lc_files d)" using m mset_eq_setD mset_eq_length by blast+
  have "distinct (lc_files d)" using assms by (simp add: lc_files_def calm_def jsmap_ok_def)
  then show "distinct (listed d)" using m mset_eq_imp_distinct_iff by blast
qed

lemma fs_readdir_calm:
  assumes "calm d" "dk_dir d"
  shows "\<exists>names. fs_readdir d = (Inr names, d\<lparr>dk_calls := Suc (dk_calls d)\<rparr>) \<and> filter lc_file names = listed d"
  using assms by (simp add: fs_readdir_def calm_call listed_def)

lemma lc_files_dom: "set (lc_files d) = {name. lc_file name \<and> map_of (dk_files d) name \<noteq> None}"
  by (auto simp: lc_files_def map_of_eq_None_iff)

lemma enforceMaxFiles_calm:
  assumes "calm d" "dk_dir d"
  shows "\<exists>gone. without gone d (enforceMaxFiles dl d) \<and> gone \<subseteq> {name. lc_file name} \<and>
    (\<forall>m. dl_maxFiles dl = Some m \<longrightarrow> length (lc_files (enforceMaxFiles dl d)) \<le> m) \<and>
    (dl_maxFiles dl = None \<longrightarrow> gone = {}) \<and>
    (\<forall>x b t m. dl_maxFiles dl = Some m \<longrightarrow> map_of (dk_files d) x = Some (b, t) \<longrightarrow> card (stamped d t) \<le> m \<longrightarrow> x \<notin> gone)"
proof (cases "dl_maxFiles dl")
  case None
  then show ?thesis using without_none [OF assms(1) same_files_refl] by (intro exI [of _ "{}"]) (simp add: enforceMaxFiles_def)
next
  case (Some m)
  let ?d1 = "d\<lparr>dk_calls := Suc (dk_calls d)\<rparr>" and ?lc = "listed d"
  obtain names where rd: "fs_readdir d = (Inr names, ?d1)" and lc1: "filter lc_file names = ?lc" using fs_readdir_calm [OF assms] by blast
  note l = listed_lc_files [OF assms(1)]
  have same: "lc_files ?d1 = lc_files d" by (simp add: lc_files_def)
  show ?thesis
  proof (cases "length ?lc \<le> m")
    case True
    then have "enforceMaxFiles dl d = ?d1" using Some rd lc1 by (simp add: enforceMaxFiles_def)
    then show ?thesis using Some True l same without_none [OF assms(1) tick_same] by (intro exI [of _ "{}"]) simp
  next
    case False
    have c1: "calm ?d1" using calm_same [OF assms(1) tick_same] .
    have "set ?lc \<subseteq> dom (map_of (dk_files ?d1))" using lc_files_dom [of d] l(2) by auto
    then obtain d2 where d2: "stat_all ?lc ?d1 = (map (\<lambda>n. (n, snd (the (map_of (dk_files d) n)))) ?lc, d2)" "same_files ?d1 d2"
      using stat_all_calm [OF c1] by auto
    let ?xs = "map (\<lambda>n. (n, snd (the (map_of (dk_files d) n)))) ?lc" and ?j = "length ?lc - m"
    let ?gone = "map fst (take ?j (sort_key snd ?xs))"
    have e: "enforceMaxFiles dl d = fold safeDelete ?gone d2" using Some rd lc1 False d2(1) by (simp add: enforceMaxFiles_def Let_def)
    have c2: "calm d2" and s2: "same_files d d2" using calm_same [OF c1 d2(2)] same_files_trans [OF tick_same d2(2)] by simp_all
    have w: "without (set ?gone) d (enforceMaxFiles dl d)"
      using without_trans [OF without_none [OF assms(1) s2] fold_safeDelete_without [OF c2, of ?gone]] e by simp
    note dist = l(4)
    have dxs: "distinct (map fst ?xs)" "length ?xs = length ?lc" "set (map fst ?xs) = set ?lc" using dist by (simp_all add: comp_def)
    have sorted: "distinct (map fst (sort_key snd ?xs))" "length (sort_key snd ?xs) = length ?lc"
      using distinct_keys_sorted [OF dxs(1)] by simp_all
    have "set ?gone \<subseteq> set (map fst (sort_key snd ?xs))" unfolding set_map by (intro image_mono set_take_subset)
    also have "\<dots> = set (map fst ?xs)" by (simp only: set_map set_sort)
    finally have sub: "set ?gone \<subseteq> set ?lc" using dxs(3) by simp
    have card: "card (set ?gone) = ?j"
    proof -
      have "distinct ?gone" using sorted(1) by (simp add: take_map [symmetric])
      from distinct_card [OF this] show ?thesis using sorted(2) by simp
    qed
    have left: "set (lc_files (enforceMaxFiles dl d)) = set ?lc - set ?gone"
      using w l(2) by (auto simp: lc_files_dom without_def)
    have "distinct (lc_files (enforceMaxFiles dl d))" using w by (simp add: lc_files_def without_def jsmap_ok_def)
    then have "length (lc_files (enforceMaxFiles dl d)) = card (set ?lc - set ?gone)" using left distinct_card by metis
    also have "\<dots> = length ?lc - ?j" using sub card dist by (simp add: card_Diff_subset distinct_card)
    finally have bound: "length (lc_files (enforceMaxFiles dl d)) \<le> m" using False by simp
    have keep: "x \<notin> set ?gone" if "map_of (dk_files d) x = Some (b, t)" "card (stamped d t) \<le> m" for x b t
    proof (cases "x \<in> set ?lc")
      case True
      have "x \<notin> fst ` set (take (length ?xs - m) (sort_key snd ?xs))"
      proof (rule young_not_evicted [OF dxs(1) _ finite_stamped that(2)])
        show "(x, t) \<in> set ?xs" using True that(1) by force
        show "y \<in> stamped d t" if "(y, k) \<in> set ?xs" "t \<le> k" for y k
          using that l(2) by (auto simp: lc_files_dom stamped_def)
        show "m < length ?xs" using False by simp
      qed
      then show ?thesis by simp
    qed (use sub in blast)
    show ?thesis
    proof (intro exI [of _ "set ?gone"] conjI)
      show "set ?gone \<subseteq> {name. lc_file name}" using sub l(2) lc_files_dom [of d] by blast
    qed (use w bound keep Some in auto)
  qed
qed

subsection \<open>Writing\<close>

lemma lc_target [simp]: "lc_file (keyToPath nd k)"
  by (simp add: lc_file_def keyToPath_def)

lemma lc_temp [simp]: "\<not> lc_file (tempPath nd now target random)"
proof
  assume "lc_file (tempPath nd now target random)"
  then have "last (tempPath nd now target random) = CHR ''c''" unfolding lc_file_def by (metis append_take_drop_id last.simps last_appendR list.distinct(1))
  then show False by (simp add: tempPath_def)
qed

lemma writeFile_frame:
  assumes "fs_writeFile name content d = (r, d1)"
  shows "(\<forall>n. n \<noteq> name \<longrightarrow> map_of (dk_files d1) n = map_of (dk_files d) n) \<and>
    (r = Inr () \<longrightarrow> (\<exists>mtime. map_of (dk_files d1) name = Some (content, mtime)))"
  using assms by (auto simp: fs_writeFile_def put_file_def map_of_update Let_def split: option.splits if_splits prod.splits)

lemma rename_frame:
  assumes "fs_rename from to d = (r, d1)" "from \<noteq> to"
  shows "(\<exists>e. r = Inl e \<and> dk_files d1 = dk_files d) \<or>
    (r = Inr () \<and> map_of (dk_files d1) to = map_of (dk_files d) from \<and>
     (\<forall>n. n \<noteq> from \<longrightarrow> n \<noteq> to \<longrightarrow> map_of (dk_files d1) n = map_of (dk_files d) n))"
  using assms by (auto simp: fs_rename_def fs_call_def map_of_update map_of_delete Let_def split: option.splits if_splits)

lemma safeDelete_frame:
  "map_of (dk_files (safeDelete name d)) n = map_of (dk_files d) n \<or> n = name \<and> map_of (dk_files (safeDelete name d)) n = None"
  by (auto simp: safeDelete_def fs_unlink_def fs_call_def map_of_delete Let_def split: option.splits)

lemma store_file_atomic:
  assumes "store_file temp target content d = (r, d')" "temp \<noteq> target"
  shows "(r = Inr () \<and> (\<exists>mtime. \<forall>n. n \<noteq> temp \<longrightarrow> map_of (dk_files d') n = (if n = target then Some (content, mtime) else map_of (dk_files d) n))) \<or>
    (\<exists>e. r = Inl e \<and> (\<forall>n. n \<noteq> temp \<longrightarrow> map_of (dk_files d') n = map_of (dk_files d) n))"
proof -
  obtain r1 d1 where w: "fs_writeFile temp content d = (r1, d1)" by fastforce
  note f1 = writeFile_frame [OF w]
  have del: "map_of (dk_files (safeDelete temp u)) n = map_of (dk_files u) n" if "n \<noteq> temp" for u n
    using safeDelete_frame [of temp u n] that by blast
  show ?thesis
  proof (cases r1)
    case (Inl e)
    then show ?thesis using assms(1) w f1 del by (auto simp: store_file_def catching_def andthen_def)
  next
    case (Inr x)
    obtain r2 d2 where m: "fs_rename temp target d1 = (r2, d2)" by fastforce
    from rename_frame [OF m assms(2)] show ?thesis
    proof (elim disjE exE conjE)
      fix e assume "r2 = Inl e" "dk_files d2 = dk_files d1"
      then show ?thesis using assms(1) w m Inr f1 del by (auto simp: store_file_def catching_def andthen_def)
    next
      assume a: "r2 = Inr ()" "map_of (dk_files d2) target = map_of (dk_files d1) temp"
        "\<forall>n. n \<noteq> temp \<longrightarrow> n \<noteq> target \<longrightarrow> map_of (dk_files d2) n = map_of (dk_files d1) n"
      obtain mtime where "map_of (dk_files d1) temp = Some (content, mtime)" using f1 Inr by auto
      then have "\<forall>n. n \<noteq> temp \<longrightarrow> map_of (dk_files d2) n = (if n = target then Some (content, mtime) else map_of (dk_files d) n)"
        using a f1 by auto
      moreover have "r = Inr ()" "d' = d2" using assms(1) w m Inr a(1) by (simp_all add: store_file_def catching_def andthen_def)
      ultimately show ?thesis by blast
    qed
  qed
qed

lemma fold_safeDelete_frame:
  "map_of (dk_files (fold safeDelete names d)) n = map_of (dk_files d) n \<or> map_of (dk_files (fold safeDelete names d)) n = None"
proof (induction names arbitrary: d)
  case (Cons name names)
  show ?case using Cons [of "safeDelete name d"] safeDelete_frame [of name d n] by auto
qed simp

lemma stat_all_files: "dk_files (snd (stat_all names d)) = dk_files d"
proof (induction names arbitrary: d)
  case (Cons name names)
  have "dk_files (snd (fs_stat name d)) = dk_files d" by (simp add: fs_stat_def fs_call_def Let_def split: option.splits prod.splits)
  then show ?case using Cons [of "snd (fs_stat name d)"] by (cases "fs_stat name d"; cases "stat_all names (snd (fs_stat name d))") simp
qed simp

lemma enforceMaxFiles_frame:
  "(map_of (dk_files (enforceMaxFiles dl d)) n = map_of (dk_files d) n \<or> map_of (dk_files (enforceMaxFiles dl d)) n = None) \<and>
   (dl_maxFiles dl = None \<longrightarrow> enforceMaxFiles dl d = d)"
proof -
  have rd: "dk_files (snd (fs_readdir d)) = dk_files d" by (simp add: fs_readdir_def fs_call_def Let_def split: option.splits)
  obtain r d1 where r: "fs_readdir d = (r, d1)" by fastforce
  show ?thesis
  proof (cases "dl_maxFiles dl")
    case (Some m)
    show ?thesis
    proof (cases r)
      case (Inl e)
      then show ?thesis using Some r rd by (simp add: enforceMaxFiles_def)
    next
      case (Inr entries)
      obtain xs d2 where x: "stat_all (filter lc_file entries) d1 = (xs, d2)" by fastforce
      have "dk_files d2 = dk_files d" using stat_all_files [of "filter lc_file entries" d1] x r rd by simp
      then show ?thesis
        using Some Inr r rd x fold_safeDelete_frame [of "map fst (take (length (filter lc_file entries) - m) (sort_key snd xs))" d2 n]
        by (auto simp: enforceMaxFiles_def Let_def)
    qed
  qed (simp add: enforceMaxFiles_def)
qed

definition expiry_of :: "real \<Rightarrow> real option \<Rightarrow> real option" where
  "expiry_of now ttl = (case ttl of Some x \<Rightarrow> if x > 0 then Some (now + x) else None | None \<Rightarrow> None)"

text \<open>
  C25: a write to disk is all or nothing, whatever fails. For every pattern of failing file operations,
  half-written files included: if \<open>set\<close> throws, no entry file of the directory has changed; if it succeeds, the
  file of the key holds the complete new content and every other entry file is unchanged, except
  for files that eviction removed, and without a file limit nothing is removed. A reader never sees a
  partial entry.
\<close>

theorem disk_write_atomic:
  assumes "dk_set nd dl now k v ttl d = (r, d')" "lc_file name"
  shows "case r of
      Inl _ \<Rightarrow> map_of (dk_files d') name = map_of (dk_files d) name
    | Inr _ \<Rightarrow> \<exists>p mtime. sr_serialize (dl_serializer dl) (js_of_entry k v (expiry_of now (nullish_opt ttl (dl_defaultTtl dl)))) = Inr p \<and>
        (let content = protect (nd_crypto nd) (dl_protection dl) (dk_random d (dk_draws d) IV_LENGTH) (payload_bytes p);
             written = (if name = keyToPath nd k then Some (content, mtime) else map_of (dk_files d) name)
         in map_of (dk_files d') name = written \<or> dl_maxFiles dl \<noteq> None \<and> map_of (dk_files d') name = None)"
proof (cases "queue_full dl d")
  case True
  then show ?thesis using assms(1) by (auto simp: dk_set_def enqueueWrite_def)
next
  case False
  let ?ttl = "nullish_opt ttl (dl_defaultTtl dl)" and ?d0 = "d\<lparr>dk_depth := Suc (dk_depth d)\<rparr>"
  obtain d1 where w: "write_entry nd dl now k v ?ttl ?d0 = (r, d1)" "dk_files d' = dk_files d1"
    using assms(1) False by (auto simp: dk_set_def enqueueWrite_def split: prod.splits)
  obtain r2 d2 where m: "fs_mkdir ?d0 = (r2, d2)" by fastforce
  have d2: "dk_files d2 = dk_files d" "dk_random d2 = dk_random d" "dk_draws d2 = dk_draws d"
    using m by (auto simp: fs_mkdir_def fs_call_def Let_def split: option.splits)
  show ?thesis
  proof (cases r2)
    case (Inl e)
    then show ?thesis using w m d2 by (auto simp: write_entry_def andthen_def)
  next
    case (Inr x)
    show ?thesis
    proof (cases "sr_serialize (dl_serializer dl) (js_of_entry k v (expiry_of now ?ttl))")
      case (Inl e)
      then show ?thesis using w m d2 \<open>r2 = Inr x\<close> by (auto simp: write_entry_def andthen_def expiry_of_def)
    next
      case p: (Inr p)
      let ?content = "protect (nd_crypto nd) (dl_protection dl) (dk_random d (dk_draws d) IV_LENGTH) (payload_bytes p)"
      let ?temp = "tempPath nd now (keyToPath nd k) (dk_random d (Suc (dk_draws d)) 8)"
      let ?d3 = "d2\<lparr>dk_draws := Suc (Suc (dk_draws d))\<rparr>"
      obtain r4 d4 where s: "store_file ?temp (keyToPath nd k) ?content ?d3 = (r4, d4)" by fastforce
      have ne: "?temp \<noteq> keyToPath nd k" "name \<noteq> ?temp" using lc_target [of nd k] lc_temp [of nd now "keyToPath nd k"] assms(2) by metis+
      have w4: "(r, d1) = (case r4 of Inl e \<Rightarrow> (Inl e, d4) | Inr _ \<Rightarrow> (Inr (), enforceMaxFiles dl d4))"
        using w(1) m \<open>r2 = Inr x\<close> p s d2 by (simp add: write_entry_def andthen_def expiry_of_def draw_def Let_def split: sum.splits)
      from store_file_atomic [OF s ne(1)] show ?thesis
      proof (elim disjE exE conjE)
        fix mtime
        assume a: "r4 = Inr ()" "\<forall>n. n \<noteq> ?temp \<longrightarrow> map_of (dk_files d4) n = (if n = keyToPath nd k then Some (?content, mtime) else map_of (dk_files ?d3) n)"
        then have "r = Inr ()" "d1 = enforceMaxFiles dl d4" using w4 by simp_all
        then show ?thesis using a(2) ne(2) p w(2) d2 enforceMaxFiles_frame [of dl d4 name]
          by (auto simp: Let_def intro!: exI [of _ mtime])
      next
        fix e assume "r4 = Inl e" "\<forall>n. n \<noteq> ?temp \<longrightarrow> map_of (dk_files d4) n = map_of (dk_files ?d3) n"
        then show ?thesis using w4 w(2) d2 ne(2) by simp
      qed
    qed
  qed
qed

subsection \<open>Writing without failures\<close>

lemma calm_cong:
  assumes "calm d" "dk_faults d' = dk_faults d" "dk_random d' = dk_random d" "dk_clock d' = dk_clock d" "dk_listing d' = dk_listing d" "dk_files d' = dk_files d" "dk_calls d \<le> dk_calls d'"
  shows "calm d'"
  using calm_same [of d "d'\<lparr>dk_dir := dk_dir d, dk_depth := dk_depth d\<rparr>"] assms
  by (simp add: calm_def same_files_def later_def stamped_def ticks_def)

text \<open>A write adds at most one file to those with a recent stamp, and it takes one more call.\<close>

lemma store_file_calm:
  assumes "calm d" "dk_dir d" "temp \<noteq> target"
  shows "\<exists>d'. store_file temp target content d = (Inr (), d') \<and> calm d' \<and> dk_dir d' \<and> dk_depth d' = dk_depth d \<and> dk_clock d' = dk_clock d \<and>
    map_of (dk_files d') = (map_of (dk_files d))(temp := None, target := Some (content, dk_clock d (dk_calls d))) \<and>
    card (stamped d' (dk_clock d (dk_calls d))) \<le> Suc (card (ticks d (dk_clock d (dk_calls d))))"
proof -
  let ?n = "dk_calls d" and ?file = "(content, dk_clock d (dk_calls d))"
  let ?d' = "d\<lparr>dk_calls := Suc (Suc ?n), dk_files := AList.update target ?file (AList.delete temp (AList.update temp ?file (dk_files d)))\<rparr>"
  have c: "dk_faults d m = None" "jsmap_ok (dk_files d)" for m using assms(1) by (simp_all add: calm_def)
  have mono: "dk_clock d i \<le> dk_clock d j" if "i \<le> j" for i j using assms(1) that by (simp add: calm_def)
  have run: "store_file temp target content d = (Inr (), ?d')"
    using assms(2) by (simp add: store_file_def catching_def andthen_def fs_writeFile_def fs_rename_def fs_call_def put_file_def c map_of_update Let_def)
  have files: "map_of (dk_files ?d') = (map_of (dk_files d))(temp := None, target := Some ?file)"
    using assms(3) by (auto simp: map_of_update map_of_delete)
  have older: "card (stamped d x) \<le> card (ticks d x)" if "dk_clock d 0 \<le> x" for x using assms(1) that by (simp add: calm_def)
  have one_more: "card (stamped ?d' x) \<le> Suc (card (stamped d x))" for x
  proof -
    have "stamped ?d' x \<subseteq> insert target (stamped d x)" unfolding stamped_def files using assms(3) by (auto split: if_splits)
    then have "card (stamped ?d' x) \<le> card (insert target (stamped d x))" by (intro card_mono) simp_all
    also have "\<dots> \<le> Suc (card (stamped d x))" by (simp add: card_insert_if)
    finally show ?thesis .
  qed
  have "card (stamped ?d' x) \<le> card (ticks ?d' x)" if x: "dk_clock d 0 \<le> x" for x
  proof (cases "x \<le> dk_clock d ?n")
    case True
    have "insert ?n (ticks d x) \<subseteq> ticks ?d' x" using True by (auto simp: ticks_def)
    then have "card (insert ?n (ticks d x)) \<le> card (ticks ?d' x)" by (intro card_mono) simp_all
    moreover have "card (insert ?n (ticks d x)) = Suc (card (ticks d x))" by (simp add: ticks_def)
    ultimately show ?thesis using one_more [of x] older [OF x] by linarith
  next
    case False
    have "stamped ?d' x \<subseteq> stamped d x" using False assms(3) unfolding stamped_def files by (auto split: if_splits)
    then have "card (stamped ?d' x) \<le> card (stamped d x)" by (intro card_mono) simp_all
    moreover have "card (ticks d x) \<le> card (ticks ?d' x)" by (intro card_mono) (auto simp: ticks_def)
    ultimately show ?thesis using older [OF x] by linarith
  qed
  then have "calm ?d'" using assms(1) c(2) by (simp add: calm_def jsmap_ok_update jsmap_ok_delete)
  moreover have "card (stamped ?d' (dk_clock d ?n)) \<le> Suc (card (ticks d (dk_clock d ?n)))"
    using one_more [of "dk_clock d ?n"] older [of "dk_clock d ?n"] mono [of 0 ?n] by simp
  ultimately show ?thesis using run files assms(2) by (intro exI [of _ ?d'] conjI) (simp_all del: fun_upd_apply)
qed

lemma roomy_ticks:
  assumes "calm d" "roomy dl d" "dl_maxFiles dl = Some m" "0 < m"
  shows "Suc (card (ticks d (dk_clock d (dk_calls d)))) \<le> m"
proof -
  let ?n = "dk_calls d"
  have "?n < k + m" if "k \<in> ticks d (dk_clock d ?n)" for k
  proof (rule ccontr)
    assume "\<not> ?n < k + m"
    then have "dk_clock d (k + m) \<le> dk_clock d ?n" using assms(1) by (simp add: calm_def)
    also have "\<dots> \<le> dk_clock d k" using that by (simp add: ticks_def)
    also have "\<dots> < dk_clock d (k + m)" using assms(2,3) by (simp add: roomy_def)
    finally show False by simp
  qed
  then have "ticks d (dk_clock d ?n) \<subseteq> {Suc ?n - m ..< ?n}" by (fastforce simp: ticks_def)
  then have "card (ticks d (dk_clock d ?n)) \<le> card {Suc ?n - m ..< ?n}" by (intro card_mono) simp_all
  then show ?thesis using assms(4) by simp
qed

lemma queue_idle: "dk_depth d = 0 \<Longrightarrow> disk_config_ok nd dl \<Longrightarrow> \<not> queue_full dl d"
  by (cases "dl_maxWriteQueueDepth dl") (auto simp: queue_full_def disk_config_ok_def)

lemma dk_set_calm:
  assumes "calm d" "roomy dl d" "dk_depth d = 0" "disk_config_ok nd dl"
    and "sr_serialize (dl_serializer dl) (js_of_entry k v (expiry_of now (nullish_opt ttl (dl_defaultTtl dl)))) = Inr p"
  defines "content \<equiv> protect (nd_crypto nd) (dl_protection dl) (dk_random d (dk_draws d) IV_LENGTH) (payload_bytes p)"
  shows "\<exists>d' mtime. dk_set nd dl now k v ttl d = (Inr (), d') \<and> calm d' \<and> roomy dl d' \<and> dk_depth d' = 0 \<and> dk_dir d' \<and>
    map_of (dk_files d') (keyToPath nd k) = Some (content, mtime) \<and>
    (\<forall>n. lc_file n \<longrightarrow> n \<noteq> keyToPath nd k \<longrightarrow> map_of (dk_files d') n = None \<or> map_of (dk_files d') n = map_of (dk_files d) n) \<and>
    (\<forall>n. dl_maxFiles dl = None \<longrightarrow> lc_file n \<longrightarrow> n \<noteq> keyToPath nd k \<longrightarrow> map_of (dk_files d') n = map_of (dk_files d) n) \<and>
    (\<forall>m. dl_maxFiles dl = Some m \<longrightarrow> length (lc_files d') \<le> m)"
proof -
  let ?target = "keyToPath nd k"
  let ?temp = "tempPath nd now ?target (dk_random d (Suc (dk_draws d)) 8)"
  let ?d1 = "d\<lparr>dk_depth := Suc 0, dk_calls := Suc (dk_calls d), dk_dir := True, dk_draws := Suc (Suc (dk_draws d))\<rparr>"
  have ne: "?temp \<noteq> ?target" using lc_target [of nd k] lc_temp [of nd now ?target] by metis
  have faults: "dk_faults d n = None" for n using assms(1) by (simp add: calm_def)
  have c1: "calm ?d1" by (rule calm_cong [OF assms(1)]) simp_all
  have r1: "roomy dl ?d1" using assms(2) by (simp add: roomy_def)
  obtain d2 where d2: "store_file ?temp ?target content ?d1 = (Inr (), d2)" "calm d2" "dk_dir d2" "dk_depth d2 = Suc 0" "dk_clock d2 = dk_clock ?d1"
    "map_of (dk_files d2) = (map_of (dk_files ?d1))(?temp := None, ?target := Some (content, dk_clock ?d1 (dk_calls ?d1)))"
    "card (stamped d2 (dk_clock ?d1 (dk_calls ?d1))) \<le> Suc (card (ticks ?d1 (dk_clock ?d1 (dk_calls ?d1))))"
    using store_file_calm [OF c1 _ ne, of content] by auto
  obtain gone where g: "without gone d2 (enforceMaxFiles dl d2)" "gone \<subseteq> {name. lc_file name}"
    "\<forall>m. dl_maxFiles dl = Some m \<longrightarrow> length (lc_files (enforceMaxFiles dl d2)) \<le> m" "dl_maxFiles dl = None \<longrightarrow> gone = {}"
    "\<forall>x b t m. dl_maxFiles dl = Some m \<longrightarrow> map_of (dk_files d2) x = Some (b, t) \<longrightarrow> card (stamped d2 t) \<le> m \<longrightarrow> x \<notin> gone"
    using enforceMaxFiles_calm [OF d2(2,3), of dl] by (elim exE conjE) (rule that)
  have stays: "?target \<notin> gone"
  proof (cases "dl_maxFiles dl")
    case None
    then show ?thesis using g(4) by simp
  next
    case (Some m)
    have "0 < m" using assms(4) Some by (simp add: disk_config_ok_def)
    then have "card (stamped d2 (dk_clock ?d1 (dk_calls ?d1))) \<le> m" using d2(7) roomy_ticks [OF c1 r1 Some] by linarith
    then show ?thesis using g(5) Some d2(6) by (metis fun_upd_same)
  qed
  have l: "later d2 (enforceMaxFiles dl d2)" using g(1) by (simp add: without_def)
  let ?d' = "(enforceMaxFiles dl d2)\<lparr>dk_depth := 0\<rparr>"
  have full: "\<not> queue_full dl d" using queue_idle [OF assms(3,4)] .
  have "write_entry nd dl now k v (nullish_opt ttl (dl_defaultTtl dl)) (d\<lparr>dk_depth := Suc 0\<rparr>) = (Inr (), enforceMaxFiles dl d2)"
    using d2(1) assms(5)
    by (simp add: write_entry_def andthen_def fs_mkdir_def fs_call_def faults draw_def Let_def content_def expiry_of_def)
  then have run: "dk_set nd dl now k v ttl d = (Inr (), ?d')"
    using full assms(3) l d2(4) by (simp add: dk_set_def enqueueWrite_def later_def)
  have "calm ?d'" by (rule calm_cong [OF calm_without [OF d2(2) g(1)]]) simp_all
  moreover have "roomy dl ?d'" using r1 l d2(5) by (simp add: roomy_def later_def)
  moreover have "dk_dir ?d'" using l d2(3) by (simp add: later_def)
  moreover have "lc_files ?d' = lc_files (enforceMaxFiles dl d2)" by (simp add: lc_files_def)
  moreover have files: "map_of (dk_files ?d') n = (if n \<in> gone then None else map_of (dk_files d2) n)" for n using g(1) by (simp add: without_def)
  moreover have "n \<noteq> ?temp" if "lc_file n" for n using that lc_temp by metis
  ultimately show ?thesis using run g(3,4) stays d2(6)
    by (intro exI [of _ ?d'] exI [of _ "dk_clock ?d1 (dk_calls ?d1)"]) auto
qed

lemma delete_paths_calm:
  assumes "calm d" "dk_depth d = 0" "disk_config_ok nd dl"
  shows "\<exists>d'. enqueueWrite dl (\<lambda>d. (Inr (), fold safeDelete names d)) d = (Inr (), d') \<and> calm d' \<and> dk_depth d' = 0 \<and> without (set names) d d'"
proof -
  let ?d1 = "d\<lparr>dk_depth := Suc 0\<rparr>"
  have c1: "calm ?d1" by (rule calm_cong [OF assms(1)]) simp_all
  note w = fold_safeDelete_without [OF c1, of names]
  let ?d' = "(fold safeDelete names ?d1)\<lparr>dk_depth := 0\<rparr>"
  have "\<not> queue_full dl d" using queue_idle [OF assms(2,3)] .
  then have "enqueueWrite dl (\<lambda>d. (Inr (), fold safeDelete names d)) d = (Inr (), ?d')"
    using assms(2) w by (simp add: enqueueWrite_def without_def later_def)
  moreover have "calm ?d'" by (rule calm_cong [OF calm_without [OF c1 w]]) simp_all
  moreover have "without (set names) d ?d'" using w assms(2) by (simp add: without_def later_def)
  ultimately show ?thesis by auto
qed

subsection \<open>Scanning\<close>

definition live_keys :: "node_env \<Rightarrow> disk_layer \<Rightarrow> real \<Rightarrow> disk \<Rightarrow> string list \<Rightarrow> string list" where
  "live_keys nd dl t d names = map de_key (List.map_filter (entry_at nd dl t d) names)"

lemma scan_keys_calm:
  assumes "disk_config_ok nd dl"
  shows "calm d \<Longrightarrow> distinct names \<Longrightarrow> 0 < workers \<Longrightarrow> \<exists>d' gone.
    scan_files nd dl now (\<lambda>entry ks. (Inr (), ks @ [de_key entry])) workers names d ks = (Inr (), d', ks @ live_keys nd dl now d names) \<and>
    without gone d d' \<and> gone \<subseteq> {n \<in> set names. entry_at nd dl now d n = None}"
proof (induction names arbitrary: d ks)
  case Nil
  then show ?case using without_none [OF Nil(1) same_files_refl] by (intro exI [of _ d] exI [of _ "{}"]) (simp add: live_keys_def map_filter_simps)
next
  case (Cons name names)
  obtain d1 where r: "read_entry nd dl now name d = (entry_at nd dl now d name, d1)"
    "if entry_at nd dl now d name = None then without {name} d d1 else same_files d d1"
    using read_entry_calm [OF Cons(2) assms] by blast
  let ?g = "if entry_at nd dl now d name = None then {name} else {}"
  have w: "without ?g d d1" using r(2) without_none [OF Cons(2)] by (simp split: if_splits)
  have same: "entry_at nd dl now d1 n = entry_at nd dl now d n" if "n \<in> set names" for n
    using entry_at_without [OF w, of nd dl now n] that Cons(3) by auto
  then have live: "live_keys nd dl now d1 names = live_keys nd dl now d names"
    by (auto simp: live_keys_def map_filter_def intro!: map_cong filter_cong)
  let ?ks = "ks @ (case entry_at nd dl now d name of None \<Rightarrow> [] | Some e \<Rightarrow> [de_key e])"
  obtain d2 gone where IH: "scan_files nd dl now (\<lambda>entry ks. (Inr (), ks @ [de_key entry])) workers names d1 ?ks = (Inr (), d2, ?ks @ live_keys nd dl now d1 names)"
    "without gone d1 d2" "gone \<subseteq> {n \<in> set names. entry_at nd dl now d1 n = None}"
    using Cons(1) [OF calm_without [OF Cons(2) w], of ?ks] Cons(3,4) by auto
  have "scan_files nd dl now (\<lambda>entry ks. (Inr (), ks @ [de_key entry])) workers (name # names) d ks = (Inr (), d2, ks @ live_keys nd dl now d (name # names))"
    using r(1) IH(1) Cons(4) live by (auto simp: live_keys_def map_filter_simps split: option.splits)
  moreover have "?g \<union> gone \<subseteq> {n \<in> set (name # names). entry_at nd dl now d n = None}" using IH(3) same by auto
  ultimately show ?case using without_trans [OF w IH(2)] by blast
qed

lemma dk_keys_calm:
  assumes "calm d" "disk_config_ok nd dl"
  shows "\<exists>ks d' gone. dk_keys nd dl now d = (Inr ks, d') \<and> calm d' \<and> without gone d d' \<and>
    (\<forall>n \<in> gone. entry_at nd dl now d n = None) \<and> (dk_dir d \<longrightarrow> ks = live_keys nd dl now d (listed d)) \<and> (\<not> dk_dir d \<longrightarrow> ks = [])"
proof (cases "dk_dir d")
  case False
  let ?d1 = "d\<lparr>dk_calls := Suc (dk_calls d)\<rparr>"
  have "dk_keys nd dl now d = (Inr [], ?d1)" using False by (simp add: dk_keys_def scanEntries_def fs_readdir_def calm_call [OF assms(1)])
  then show ?thesis using False calm_same [OF assms(1) tick_same] without_none [OF assms(1) tick_same] by (intro exI [of _ "[]"] exI [of _ ?d1] exI [of _ "{}"]) simp
next
  case True
  let ?d1 = "d\<lparr>dk_calls := Suc (dk_calls d)\<rparr>"
  obtain names where rd: "fs_readdir d = (Inr names, ?d1)" and lc: "filter lc_file names = listed d" using fs_readdir_calm [OF assms(1) True] by blast
  have same: "entry_at nd dl now ?d1 = entry_at nd dl now d" by (intro ext) (simp add: entry_at_def)
  note c1 = calm_same [OF assms(1) tick_same]
  note dist = listed_lc_files(4) [OF assms(1)]
  have "\<exists>d' gone. scan_files nd dl now (\<lambda>entry ks. (Inr (), ks @ [de_key entry])) (min FILE_SCAN_CONCURRENCY (length (listed d))) (listed d) ?d1 []
      = (Inr (), d', live_keys nd dl now d (listed d)) \<and> without gone ?d1 d' \<and> gone \<subseteq> {n \<in> set (listed d). entry_at nd dl now d n = None}"
  proof (cases "listed d = []")
    case True
    then show ?thesis using without_none [OF c1 same_files_refl]
      by (intro exI [of _ ?d1] exI [of _ "{}"]) (simp add: live_keys_def map_filter_simps)
  next
    case False
    then have "0 < min FILE_SCAN_CONCURRENCY (length (listed d))" by (simp add: FILE_SCAN_CONCURRENCY_def)
    from scan_keys_calm [OF assms(2) c1 dist this, of now "[]"] show ?thesis by (simp add: live_keys_def same)
  qed
  then obtain d' gone where d': "scan_files nd dl now (\<lambda>entry ks. (Inr (), ks @ [de_key entry])) (min FILE_SCAN_CONCURRENCY (length (listed d))) (listed d) ?d1 []
      = (Inr (), d', live_keys nd dl now d (listed d))" "without gone ?d1 d'" "gone \<subseteq> {n \<in> set (listed d). entry_at nd dl now d n = None}" by blast
  have "dk_keys nd dl now d = (Inr (live_keys nd dl now d (listed d)), d')"
    using rd d'(1) by (simp add: dk_keys_def scanEntries_def lc Let_def)
  moreover have "without gone d d'" using without_trans [OF without_none [OF assms(1) tick_same] d'(2)] by simp
  ultimately show ?thesis using True d'(3) calm_without [OF c1 d'(2)] by blast
qed

subsection \<open>The contract of a layer\<close>

definition expiry_ok :: "real option \<Rightarrow> bool" where
  \<comment> \<open>an instant that the text of an entry can carry exactly\<close>
  "expiry_ok e \<longleftrightarrow> (case e of None \<Rightarrow> True | Some x \<Rightarrow> is_whole x \<and> \<bar>x\<bar> \<le> 9007199254740991)"

definition entry_reads_back :: "node_env \<Rightarrow> disk_layer \<Rightarrow> string \<Rightarrow> js \<Rightarrow> real option \<Rightarrow> string \<Rightarrow> bool" where
  "entry_reads_back nd dl k v e iv \<longleftrightarrow>
    (case sr_serialize (dl_serializer dl) (js_of_entry k v e) of
       Inl _ \<Rightarrow> False
     | Inr p \<Rightarrow> let b = protect (nd_crypto nd) (dl_protection dl) iv (payload_bytes p) in
         fits_limit dl b \<and> deserializeEntry nd dl b = Inr \<lparr>de_key = k, de_value = v, de_expiresAt = map_option Fin e\<rparr>)"

definition well_filed :: "node_env \<Rightarrow> disk_layer \<Rightarrow> disk \<Rightarrow> bool" where
  \<comment> \<open>entries lie under the name of their key\<close>
  "well_filed nd dl d \<longleftrightarrow> (\<forall>name b mtime e. map_of (dk_files d) name = Some (b, mtime) \<longrightarrow> lc_file name \<longrightarrow>
     deserializeEntry nd dl b = Inr e \<longrightarrow> name = keyToPath nd (de_key e) \<and> clean_name (de_key e))"

lemma well_filedD:
  "well_filed nd dl d \<Longrightarrow> map_of (dk_files d) name = Some (b, mtime) \<Longrightarrow> lc_file name \<Longrightarrow> deserializeEntry nd dl b = Inr e \<Longrightarrow>
   name = keyToPath nd (de_key e) \<and> clean_name (de_key e)"
  unfolding well_filed_def by blast

definition disk_contract :: "node_env \<Rightarrow> disk_layer \<Rightarrow> disk contract" where
  "disk_contract nd dl = \<lparr>
     ct_ok = (\<lambda>d. calm d \<and> roomy dl d \<and> dk_depth d = 0 \<and> well_filed nd dl d \<and> (dk_dir d \<or> dk_files d = [])),
     ct_answer = (\<lambda>t d k. value_of (entry_at nd dl t d (keyToPath nd k))),
     ct_dflt = (\<lambda>_. dl_defaultTtl dl),
     ct_key = clean_name,
     ct_value = (\<lambda>v. \<forall>k e iv. clean_name k \<longrightarrow> expiry_ok e \<longrightarrow> length iv = IV_LENGTH \<longrightarrow> entry_reads_back nd dl k v e iv),
     ct_ttl = (\<lambda>t ttl. expiry_ok (expiry_of t (nullish_opt ttl (dl_defaultTtl dl))))\<rparr>"

lemma disk_contract_simps [simp]:
  "ct_ok (disk_contract nd dl) d \<longleftrightarrow> calm d \<and> roomy dl d \<and> dk_depth d = 0 \<and> well_filed nd dl d \<and> (dk_dir d \<or> dk_files d = [])"
  "ct_answer (disk_contract nd dl) t d k = value_of (entry_at nd dl t d (keyToPath nd k))"
  "ct_dflt (disk_contract nd dl) d = dl_defaultTtl dl" "ct_key (disk_contract nd dl) = clean_name"
  "ct_value (disk_contract nd dl) v \<longleftrightarrow> (\<forall>k e iv. clean_name k \<longrightarrow> expiry_ok e \<longrightarrow> length iv = IV_LENGTH \<longrightarrow> entry_reads_back nd dl k v e iv)"
  "ct_ttl (disk_contract nd dl) t ttl \<longleftrightarrow> expiry_ok (expiry_of t (nullish_opt ttl (dl_defaultTtl dl)))"
  by (simp_all add: disk_contract_def)

lemma ok_without:
  assumes "ct_ok (disk_contract nd dl) d" "without names d d'"
  shows "ct_ok (disk_contract nd dl) d'"
proof -
  have "dk_files d' = []" if "dk_files d = []"
  proof -
    have "map_of (dk_files d') = Map.empty" using that assms(2) by (intro ext) (simp add: without_def)
    then show ?thesis by simp
  qed
  then show ?thesis
    using assms calm_without [OF _ assms(2)] roomy_later [of dl d d'] by (auto simp: well_filed_def without_def later_def split: if_splits)
qed

lemma disk_read:
  assumes "disk_config_ok nd dl" "ct_ok (disk_contract nd dl) d"
  shows "\<exists>d'. dk_getEntry nd dl t k d = (Inr (ct_answer (disk_contract nd dl) t d k), d') \<and> ct_ok (disk_contract nd dl) d' \<and>
    (\<forall>t' k'. t \<le> t' \<longrightarrow> ct_answer (disk_contract nd dl) t' d' k' = ct_answer (disk_contract nd dl) t' d k')"
proof -
  let ?path = "keyToPath nd k"
  have calm: "calm d" using assms(2) by simp
  obtain d' where r: "read_entry nd dl t ?path d = (entry_at nd dl t d ?path, d')"
    "if entry_at nd dl t d ?path = None then without {?path} d d' else same_files d d'"
    using read_entry_calm [OF calm assms(1)] by blast
  define gone where "gone = (if entry_at nd dl t d ?path = None then {?path} else {})"
  have w: "without gone d d'" using r(2) without_none [OF calm] by (simp add: gone_def split: if_splits)
  have "entry_at nd dl t' d' name = entry_at nd dl t' d name" if "t \<le> t'" for t' name
    using entry_at_without [OF w, of nd dl t' name] that entry_in_mono [OF that] by (auto simp: gone_def entry_at_def split: option.splits if_splits)
  then show ?thesis using r(1) ok_without [OF assms(2) w] by (simp add: dk_getEntry_def)
qed

lemma disk_set:
  assumes "disk_config_ok nd dl" "ct_ok (disk_contract nd dl) d" "clean_name k"
    and "ct_ttl (disk_contract nd dl) t ttl"
    and "entry_reads_back nd dl k v (expiry_of t (nullish_opt ttl (dl_defaultTtl dl))) (dk_random d (dk_draws d) IV_LENGTH)"
  shows "\<exists>d'. dk_set nd dl t k v ttl d = (Inr (), d') \<and> ct_ok (disk_contract nd dl) d' \<and>
    (\<forall>t'. entry_at nd dl t' d' (keyToPath nd k) = (if alive t (nullish_opt ttl (dl_defaultTtl dl)) t'
       then Some \<lparr>de_key = k, de_value = v, de_expiresAt = map_option Fin (expiry_of t (nullish_opt ttl (dl_defaultTtl dl)))\<rparr> else None)) \<and>
    (\<forall>t' k'. k' \<noteq> k \<longrightarrow> ct_answer (disk_contract nd dl) t' d' k' = JNull \<or> ct_answer (disk_contract nd dl) t' d' k' = ct_answer (disk_contract nd dl) t' d k')"
proof -
  let ?ttl = "nullish_opt ttl (dl_defaultTtl dl)"
  let ?e = "\<lparr>de_key = k, de_value = v, de_expiresAt = map_option Fin (expiry_of t ?ttl)\<rparr>"
  obtain p where p: "sr_serialize (dl_serializer dl) (js_of_entry k v (expiry_of t ?ttl)) = Inr p"
    using assms(5) by (auto simp: entry_reads_back_def split: sum.splits)
  define b where "b = protect (nd_crypto nd) (dl_protection dl) (dk_random d (dk_draws d) IV_LENGTH) (payload_bytes p)"
  have b: "fits_limit dl b" "deserializeEntry nd dl b = Inr ?e" using assms(5) p by (simp_all add: entry_reads_back_def b_def Let_def)
  have calm: "calm d" "roomy dl d" "dk_depth d = 0" using assms(2) by simp_all
  obtain d' mtime where d': "dk_set nd dl t k v ttl d = (Inr (), d')" "calm d'" "roomy dl d'" "dk_depth d' = 0" "dk_dir d'"
    "map_of (dk_files d') (keyToPath nd k) = Some (b, mtime)"
    "\<forall>n. lc_file n \<longrightarrow> n \<noteq> keyToPath nd k \<longrightarrow> map_of (dk_files d') n = None \<or> map_of (dk_files d') n = map_of (dk_files d) n"
    using dk_set_calm [OF calm assms(1) p] by (auto simp: b_def)
  have expired: "entry_expired ?e t' \<longleftrightarrow> \<not> alive t ?ttl t'" for t'
    by (auto simp: entry_expired_def expiry_of_def alive_def split: option.splits)
  have at: "entry_at nd dl t' d' (keyToPath nd k) = (if alive t ?ttl t' then Some ?e else None)" for t'
    using d'(6) b expired [of t'] by (simp add: entry_at_def entry_in_def)
  have inj: "keyToPath nd k' \<noteq> keyToPath nd k" if "k' \<noteq> k" for k' using assms(1) that by (auto simp: disk_config_ok_def inj_def)
  have other: "entry_at nd dl t' d' (keyToPath nd k') \<in> {None, entry_at nd dl t' d (keyToPath nd k')}" if "k' \<noteq> k" for t' k'
    using d'(7) inj [OF that] lc_target [of nd k'] by (fastforce simp: entry_at_def split: option.splits)
  have filed: "name = keyToPath nd (de_key e) \<and> clean_name (de_key e)"
    if f: "map_of (dk_files d') name = Some (c, m)" "lc_file name" "deserializeEntry nd dl c = Inr e" for name c m e
  proof (cases "name = keyToPath nd k")
    case True
    then show ?thesis using f d'(6) b assms(3) by simp
  next
    case False
    then have "map_of (dk_files d) name = Some (c, m)" using f d'(7) by fastforce
    moreover have "well_filed nd dl d" using assms(2) by simp
    ultimately show ?thesis using f(2,3) well_filedD by blast
  qed
  have "well_filed nd dl d'" unfolding well_filed_def by (intro allI impI) (rule filed)
  then show ?thesis
  proof (intro exI [of _ d'] conjI allI impI)
    fix t' k' assume "k' \<noteq> k"
    from other [OF this, of t'] show "ct_answer (disk_contract nd dl) t' d' k' = JNull \<or>
        ct_answer (disk_contract nd dl) t' d' k' = ct_answer (disk_contract nd dl) t' d k'" by (auto simp: value_of_def)
  qed (use d' at in simp_all)
qed

lemma disk_delete:
  assumes "disk_config_ok nd dl" "ct_ok (disk_contract nd dl) d"
  shows "\<exists>d'. dk_deleteMany nd dl keys d = (Inr (), d') \<and> ct_ok (disk_contract nd dl) d' \<and> deleted (disk_contract nd dl) t keys d d'"
proof -
  let ?names = "map (keyToPath nd) keys"
  have calm: "calm d" "dk_depth d = 0" using assms(2) by simp_all
  obtain d' where d': "enqueueWrite dl (\<lambda>d. (Inr (), fold safeDelete ?names d)) d = (Inr (), d')" "without (set ?names) d d'"
    using delete_paths_calm [OF calm assms(1), of ?names] by blast
  have "inj (keyToPath nd)" using assms(1) by (simp add: disk_config_ok_def)
  then have "keyToPath nd k \<in> set ?names \<longleftrightarrow> k \<in> set keys" for k by (auto simp: inj_def)
  then have "deleted (disk_contract nd dl) t keys d d'"
    using entry_at_without [OF d'(2), of nd dl] by (simp add: deleted_def value_of_def)
  then show ?thesis using d' ok_without [OF assms(2) d'(2)] by (auto simp: dk_deleteMany_def)
qed

lemma dk_delete_single: "dk_delete nd dl k = dk_deleteMany nd dl [k]"
  by (simp add: dk_delete_def dk_deleteMany_def)

lemma disk_keys:
  assumes "disk_config_ok nd dl" "ct_ok (disk_contract nd dl) d"
  shows "\<exists>ks d'. dk_keys nd dl t d = (Inr ks, d') \<and> ct_ok (disk_contract nd dl) d' \<and>
    (\<forall>k. ct_answer (disk_contract nd dl) t d k \<noteq> JNull \<longrightarrow> k \<in> set ks) \<and> (\<forall>k \<in> set ks. clean_name k) \<and>
    (\<forall>t' k. t \<le> t' \<longrightarrow> ct_answer (disk_contract nd dl) t' d' k = ct_answer (disk_contract nd dl) t' d k)"
proof -
  have calm: "calm d" and filed: "well_filed nd dl d" and dir: "dk_dir d \<or> dk_files d = []" using assms(2) by simp_all
  obtain ks d' gone where k: "dk_keys nd dl t d = (Inr ks, d')" "without gone d d'" "\<forall>n \<in> gone. entry_at nd dl t d n = None"
    "dk_dir d \<longrightarrow> ks = live_keys nd dl t d (listed d)" "\<not> dk_dir d \<longrightarrow> ks = []"
    using dk_keys_calm [OF calm assms(1)] by blast
  have entry: "name = keyToPath nd (de_key e) \<and> clean_name (de_key e)"
    if "entry_at nd dl t d name = Some e" "lc_file name" for name e
    using that well_filedD [OF filed, of name] by (auto simp: entry_at_def entry_in_def split: option.splits sum.splits if_splits)
  have live: "k \<in> set (live_keys nd dl t d (listed d))" if ne: "entry_at nd dl t d (keyToPath nd k) \<noteq> None" for k
  proof -
    obtain e where e: "entry_at nd dl t d (keyToPath nd k) = Some e" using ne by blast
    then have "keyToPath nd k \<in> set (listed d)" using listed_lc_files(2) [OF calm] by (auto simp: lc_files_dom entry_at_def split: option.splits)
    moreover have "de_key e = k" using entry [OF e] assms(1) by (auto simp: disk_config_ok_def inj_def)
    ultimately show ?thesis using e by (force simp: live_keys_def map_filter_def image_iff)
  qed
  have clean: "\<forall>k \<in> set (live_keys nd dl t d (listed d)). clean_name k"
    using entry listed_lc_files(2) [OF calm] by (auto simp: live_keys_def map_filter_def lc_files_dom)
  have none: "entry_at nd dl t d name = None" if "\<not> dk_dir d" for name using that dir by (simp add: entry_at_def)
  have "\<forall>k. ct_answer (disk_contract nd dl) t d k \<noteq> JNull \<longrightarrow> k \<in> set ks"
    using live none k(4) by (auto simp: value_of_def split: option.splits)
  moreover have "entry_at nd dl t' d' name = entry_at nd dl t' d name" if "t \<le> t'" for t' name
    using entry_at_without [OF k(2), of nd dl t' name] k(3) entry_in_mono [OF that] by (auto simp: entry_at_def split: option.splits if_splits)
  ultimately show ?thesis using k(1,4,5) clean ok_without [OF assms(2) k(2)]
    by (intro exI [of _ ks] exI [of _ d']) (cases "dk_dir d"; simp)
qed

text \<open>
  The bound on the clock cannot be dropped: with one file allowed and two files of the same modification time,
  a directory listing that names the new file first makes the eviction after its write delete it.
\<close>

lemma tied_stamps_evict_new_entry:
  assumes "calm d" "dk_dir d" "dl_maxFiles dl = Some 1" "listed d = [new, old]"
    and "map_of (dk_files d) new = Some (b, t)" "map_of (dk_files d) old = Some (c, t)"
  shows "map_of (dk_files (enforceMaxFiles dl d)) new = None \<and> map_of (dk_files (enforceMaxFiles dl d)) old = Some (c, t)"
proof -
  let ?d1 = "d\<lparr>dk_calls := Suc (dk_calls d)\<rparr>"
  obtain names where rd: "fs_readdir d = (Inr names, ?d1)" "filter lc_file names = [new, old]" using fs_readdir_calm [OF assms(1,2)] assms(4) by auto
  have c1: "calm ?d1" using calm_same [OF assms(1) tick_same] .
  obtain d2 where d2: "stat_all [new, old] ?d1 = ([(new, t), (old, t)], d2)" "same_files ?d1 d2"
    using stat_all_calm [OF c1, of "[new, old]"] assms(5,6) by auto
  have e: "enforceMaxFiles dl d = safeDelete new d2" using assms(3) rd d2(1) by (simp add: enforceMaxFiles_def Let_def)
  have "new \<noteq> old" using listed_lc_files(4) [OF assms(1)] assms(4) by simp
  then show ?thesis using safeDelete_without [OF calm_same [OF c1 d2(2)], of new] d2(2) assms(6) by (simp add: e without_def same_files_def)
qed

text \<open>
  C24: the disk layer is a layer the stack can rely on. On a file system whose calls do not fail, with hashes that
  do not collide, a disk layer keeps the whole contract: reads answer the latest write until its TTL
  has passed, a write makes no other key answer anything new (eviction may remove some, never the entry just
  written), deletes are final, and a listing names every key that is answered. The file system may list a directory in any order
  and its clock may be coarse, so that files share a modification time. Eviction sorts by that time, so with \<open>maxFiles\<close> the
  states of the contract (\<open>roomy\<close>) are those where fewer of the layer's calls than \<open>maxFiles\<close> fall into one tick of that clock and
  files of earlier runs are older than the first call; without \<open>maxFiles\<close> the clock only has to run forwards. That ties beyond this
  bound lose the new entry is \<open>tied_stamps_evict_new_entry\<close>.
\<close>

theorem disk_layer_keeps_contract:
  assumes "disk_config_ok nd dl"
  shows "listed_layer (disk_api nd dl) (disk_contract nd dl)"
proof
  let ?ct = "disk_contract nd dl"
  fix d t k v ttl ks f
  assume ok: "ct_ok ?ct d"
  show "\<exists>d'. read_api (disk_api nd dl) t k d = (Inr (ct_answer ?ct t d k), d') \<and> ct_ok ?ct d' \<and>
      (\<forall>t' k'. t \<le> t' \<longrightarrow> ct_answer ?ct t' d' k' = ct_answer ?ct t' d k')" if "ct_key ?ct k"
    using disk_read [OF assms ok, of t k] by (simp add: read_api_def disk_api_def)
  show "\<exists>d'. la_set (disk_api nd dl) t k v ttl d = (Inr (), d') \<and> ct_ok ?ct d' \<and>
      (\<forall>t'. t \<le> t' \<longrightarrow> alive t (nullish_opt ttl (ct_dflt ?ct d)) t' \<longrightarrow> ct_answer ?ct t' d' k = v) \<and>
      (\<forall>t' k'. t \<le> t' \<longrightarrow> k' \<noteq> k \<longrightarrow> ct_answer ?ct t' d' k' = JNull \<or> ct_answer ?ct t' d' k' = ct_answer ?ct t' d k')"
    if c: "ct_key ?ct k" "ct_value ?ct v" "ct_ttl ?ct t ttl"
  proof -
    have cl: "clean_name k" and rb: "entry_reads_back nd dl k v (expiry_of t (nullish_opt ttl (dl_defaultTtl dl))) (dk_random d (dk_draws d) IV_LENGTH)"
      using c ok by (simp_all add: calm_def)
    obtain d' where "dk_set nd dl t k v ttl d = (Inr (), d')" "ct_ok ?ct d'"
      "\<forall>t'. entry_at nd dl t' d' (keyToPath nd k) = (if alive t (nullish_opt ttl (dl_defaultTtl dl)) t'
       then Some \<lparr>de_key = k, de_value = v, de_expiresAt = map_option Fin (expiry_of t (nullish_opt ttl (dl_defaultTtl dl)))\<rparr> else None)"
      "\<forall>t' k'. k' \<noteq> k \<longrightarrow> ct_answer ?ct t' d' k' = JNull \<or> ct_answer ?ct t' d' k' = ct_answer ?ct t' d k'"
      using disk_set [OF assms ok cl c(3) rb] by blast
    then show ?thesis by (intro exI [of _ d']) (simp add: disk_api_def value_of_def)
  qed
  show "\<exists>d'. la_delete (disk_api nd dl) t k d = (Inr (), d') \<and> ct_ok ?ct d' \<and> deleted ?ct t [k] d d'" if "ct_key ?ct k"
    using disk_delete [OF assms ok, of "[k]" t] by (simp add: disk_api_def dk_delete_single)
  show "\<exists>d'. f t ks d = (Inr (), d') \<and> ct_ok ?ct d' \<and> deleted ?ct t ks d d'"
    if "\<forall>k \<in> set ks. ct_key ?ct k" "la_deleteMany (disk_api nd dl) = Some f"
    using disk_delete [OF assms ok, of ks t] that(2) by (auto simp: disk_api_def)
next
  let ?ct = "disk_contract nd dl"
  fix d t f
  assume "ct_ok ?ct d" "la_keys (disk_api nd dl) = Some f"
  then show "\<exists>ks d'. f t d = (Inr ks, d') \<and> ct_ok ?ct d' \<and> (\<forall>k. ct_answer ?ct t d k \<noteq> JNull \<longrightarrow> k \<in> set ks) \<and>
      (\<forall>k \<in> set ks. ct_key ?ct k) \<and> (\<forall>t' k. t \<le> t' \<longrightarrow> ct_answer ?ct t' d' k = ct_answer ?ct t' d k)"
    using disk_keys [OF assms, of d t] by (auto simp: disk_api_def)
next
  show "la_keys (disk_api nd dl) \<noteq> None" by (simp add: disk_api_def)
next
  fix t t' :: real and d k
  assume "t \<le> t'" "ct_answer (disk_contract nd dl) t d k = JNull"
  then show "ct_answer (disk_contract nd dl) t' d k = JNull"
    using entry_in_later [of t t' nd dl] by (fastforce simp: value_of_def entry_at_def split: option.splits)
qed

end
