(* ===== verification/DiskProps.thy ===== *)
theory DiskProps
  imports DiskContract
begin

text \<open>
  Properties of the disk layer: what a read and a write that overlap do to each other, and the round trip of
  entries through the JSON serializer, the payload protection and the size limit.
\<close>

subsection \<open>A configured layer\<close>

lemma new_disk_layer_ok:
  assumes "new_disk_layer nd options = Inr dl" "inj (keyToPath nd)"
  shows "disk_config_ok nd dl"
proof -
  have positive: "whole_positive n = Some k \<Longrightarrow> 0 < k" for n k
  proof -
    assume "whole_positive n = Some k"
    then obtain x where "is_whole x" "0 < x" "k = nat \<lfloor>x\<rfloor>" by (auto simp: whole_positive_def split: jsnum.splits if_splits)
    moreover from this have "1 \<le> \<lfloor>x\<rfloor>" by (auto simp: is_whole_def)
    ultimately show "0 < k" by simp
  qed
  obtain mf eb qd where c: "normalizeMaxFiles (do_maxFiles options) = Inr mf" "normalizeMaxEntryBytes (do_maxEntryBytes options) = Inr eb"
    "normalizeMaxWriteQueueDepth (do_maxWriteQueueDepth options) = Inr qd"
    "dl_maxFiles dl = mf" "dl_maxEntryBytes dl = eb" "dl_maxWriteQueueDepth dl = qd"
    using assms(1) by (auto simp: new_disk_layer_def bind_result_Inr)
  have "mf \<noteq> Some 0" using c(1) positive by (auto simp: normalizeMaxFiles_def split: option.splits jsnum.splits)
  moreover have "qd \<noteq> Limit 0" using c(3) positive by (auto simp: normalizeMaxWriteQueueDepth_def split: number_option.splits option.splits)
  moreover have "case eb of NoByteLimit \<Rightarrow> True | ByteLimit m \<Rightarrow> 0 < m"
    using c(2) by (auto simp: normalizeMaxEntryBytes_def split: number_option.splits jsnum.splits if_splits)
  ultimately show ?thesis using assms(2) c by (simp add: disk_config_ok_def)
qed

subsection \<open>A read that overlaps a write\<close>

text \<open>
  A read that finds nothing deletes the value written meanwhile. Reads are not queued behind writes. If a
  \<open>set\<close> of the key runs between a read's look at the file and the cleanup after it, then the \<open>set\<close> succeeds and its
  value is stored; but when the read had found no live entry (no file, an expired, oversized or corrupt
  one), its cleanup deletes the new file and the key answers \<open>null\<close> from then on. When it had found a
  live entry the write survives.
\<close>

theorem overlapping_miss_loses_write:
  assumes "disk_config_ok nd dl" "ct_ok (disk_contract nd dl) d" "clean_name k"
    and "open_entry dl (keyToPath nd k) d = (seen, d1)"
    and "ct_ttl (disk_contract nd dl) now ttl"
    and "entry_reads_back nd dl k v (expiry_of now (nullish_opt ttl (dl_defaultTtl dl))) (dk_random d1 (dk_draws d1) IV_LENGTH)"
    and "dk_set nd dl now k v ttl d1 = (r, d2)"
    and "settle_file (keyToPath nd k) seen d2 = (raw, d3)" "settle_entry nd dl now (keyToPath nd k) raw d3 = (e, d4)"
  shows "r = Inr () \<and> ct_answer (disk_contract nd dl) now d2 k = v \<and> e = entry_at nd dl now d (keyToPath nd k) \<and>
    (\<forall>t. ct_answer (disk_contract nd dl) t d4 k =
      (if entry_at nd dl now d (keyToPath nd k) = None then JNull else ct_answer (disk_contract nd dl) t d2 k))"
proof -
  have calm: "calm d" using assms(2) by simp
  have o: "same_files d d1"
    "case map_of (dk_files d) (keyToPath nd k) of None \<Rightarrow> isl (fst seen) | Some (b, _) \<Rightarrow> if fits_limit dl b then fst seen = Inr b else isl (fst seen)"
    using open_entry_calm [OF calm assms(1), of "keyToPath nd k"] assms(4) by auto
  have ok1: "ct_ok (disk_contract nd dl) d1" using ok_without [OF assms(2) without_none [OF calm o(1)]] .
  let ?ttl = "nullish_opt ttl (dl_defaultTtl dl)"
  obtain d' where d': "dk_set nd dl now k v ttl d1 = (Inr (), d')" "ct_ok (disk_contract nd dl) d'"
    "\<forall>t'. entry_at nd dl t' d' (keyToPath nd k) = (if alive now ?ttl t'
       then Some \<lparr>de_key = k, de_value = v, de_expiresAt = map_option Fin (expiry_of now ?ttl)\<rparr> else None)"
    using disk_set [OF assms(1) ok1 assms(3,5,6)] by blast
  have d2: "r = Inr ()" "d' = d2" using d'(1) assms(7) by simp_all
  have "alive now ?ttl now" by (auto simp: alive_def split: option.split)
  then have written: "ct_answer (disk_contract nd dl) now d2 k = v" using d'(3) d2(2) by (simp add: value_of_def)
  have calm2: "calm d2" using d'(2) d2(2) by simp
  have s: "e = entry_at nd dl now d (keyToPath nd k) \<and>
      (if entry_at nd dl now d (keyToPath nd k) = None then without {keyToPath nd k} d2 d4 else same_files d2 d4)"
    using settle_calm [OF calm2 o(2), where nd = nd and now = now and path = "keyToPath nd k"] assms(8,9) by (simp add: entry_at_def)
  have "entry_at nd dl t d4 (keyToPath nd k) = None" if "without {keyToPath nd k} d2 d4" for t
    using entry_at_without [OF that, of nd dl t] by simp
  moreover have "entry_at nd dl t d4 name = entry_at nd dl t d2 name" if "same_files d2 d4" for t name
    using that by (simp add: entry_at_def same_files_def)
  ultimately show ?thesis using d2(1) written s by (simp add: value_of_def split: if_splits)
qed

subsection \<open>Entries through the JSON serializer\<close>

lemma entry_of_js_of_entry: "disk_entry_of (js_of_entry k v e) = Some \<lparr>de_key = k, de_value = v, de_expiresAt = map_option Fin e\<rparr>"
  by (cases e) (simp_all add: disk_entry_of_def js_of_entry_def js_of_num_def)

lemma protected_bytes_back:
  assumes "crypto_ok c" "length iv = IV_LENGTH" "\<not> has_magic b MAGIC_ENCRYPTED" "\<not> has_magic b MAGIC_SIGNED"
  shows "unprotect c (new_protection c ek sk legacy) (protect c (new_protection c ek sk legacy) iv b) = Inr b"
proof -
  let ?p = "new_protection c ek sk legacy"
  show ?thesis
  proof (cases "pp_encryptionKey ?p")
    case (Some key)
    then show ?thesis using unprotect_encrypted [OF assms(1,2) Some] by (simp add: protect_def)
  next
    case None
    note enc = None
    show ?thesis
    proof (cases "pp_signingKey ?p")
      case (Some key)
      then show ?thesis using unprotect_signed [OF assms(1) Some] enc by (simp add: protect_def)
    next
      case None
      then show ?thesis using assms(3,4) enc by (simp add: protect_def unprotect_def protection_enabled_def)
    qed
  qed
qed

lemma json_entry_deserialized:
  assumes "dl_serializer dl = json_serializer ft opts" "dl_protection dl = new_protection (nd_crypto nd) ek sk legacy"
    and "crypto_ok (nd_crypto nd)" "length iv = IV_LENGTH" "json_storable ft opts (js_of_entry k v e)"
  shows "\<exists>p. sr_serialize (dl_serializer dl) (js_of_entry k v e) = Inr p \<and>
    deserializeEntry nd dl (protect (nd_crypto nd) (dl_protection dl) iv (payload_bytes p)) = Inr \<lparr>de_key = k, de_value = v, de_expiresAt = map_option Fin e\<rparr>"
proof -
  let ?v = "js_of_entry k v e"
  let ?b = "utf8_encode (json ft ?v)"
  have ser: "json_serialize ft ?v = Inr (PText (json ft ?v))" "json_deserialize opts (PBytes ?b) = Inr ?v"
    using json.serializes [OF assms(5)] by (auto simp: json_serialize_def split: if_splits)
  have w: "whole_js ?v" using assms(5) by (simp add: json_storable_def)
  obtain c cs where c: "json ft ?v = c # cs" "starts ?v c" using json_starts [OF w] by blast
  then have "c = CHR ''{''" by (simp add: starts_def js_of_entry_def)
  then have "\<not> has_magic ?b MAGIC_ENCRYPTED" "\<not> has_magic ?b MAGIC_SIGNED"
    using c(1) by (simp_all add: has_magic_def MAGIC_ENCRYPTED_def MAGIC_SIGNED_def)
  from protected_bytes_back [OF assms(3,4) this, of ek sk legacy]
  have "unprotect (nd_crypto nd) (dl_protection dl) (protect (nd_crypto nd) (dl_protection dl) iv ?b) = Inr ?b" by (simp add: assms(2))
  then show ?thesis using ser by (simp add: assms(1) json_serializer_def deserializeEntry_def entry_of_js_of_entry)
qed

text \<open>
  An entry on disk comes back exactly when it fits the read limit. With the JSON serializer and any
  protection, \<open>set\<close> accepts every storable value whatever its size; until its TTL has passed a read returns it
  if the protected file is within \<open>maxEntryBytes\<close>, and otherwise answers \<open>null\<close>.
\<close>

theorem disk_entry_round_trip:
  assumes "disk_config_ok nd dl" "ct_ok (disk_contract nd dl) d"
    and "dl_serializer dl = json_serializer ft opts" "dl_protection dl = new_protection (nd_crypto nd) ek sk legacy" "crypto_ok (nd_crypto nd)"
    and "json_storable ft opts (js_of_entry k v (expiry_of t (nullish_opt ttl (dl_defaultTtl dl))))"
    and "t \<le> t'" "alive t (nullish_opt ttl (dl_defaultTtl dl)) t'"
  shows "fst (dk_set nd dl t k v ttl d) = Inr () \<and>
    fst (dk_getEntry nd dl t' k (snd (dk_set nd dl t k v ttl d))) =
      Inr (if fits_limit dl (protect (nd_crypto nd) (dl_protection dl) (dk_random d (dk_draws d) IV_LENGTH)
              (utf8_encode (json ft (js_of_entry k v (expiry_of t (nullish_opt ttl (dl_defaultTtl dl)))))))
           then v else JNull)"
proof -
  let ?ttl = "nullish_opt ttl (dl_defaultTtl dl)" and ?iv = "dk_random d (dk_draws d) IV_LENGTH"
  let ?x = "js_of_entry k v (expiry_of t ?ttl)" and ?e = "\<lparr>de_key = k, de_value = v, de_expiresAt = map_option Fin (expiry_of t ?ttl)\<rparr>"
  have calm: "calm d" "roomy dl d" "dk_depth d = 0" using assms(2) by simp_all
  have iv: "length ?iv = IV_LENGTH" using calm(1) by (simp add: calm_def)
  have p: "sr_serialize (dl_serializer dl) ?x = Inr (PText (json ft ?x))"
    using json.serializes [OF assms(6)] by (auto simp: assms(3) json_serializer_def json_serialize_def split: if_splits)
  let ?b = "protect (nd_crypto nd) (dl_protection dl) ?iv (utf8_encode (json ft ?x))"
  have b: "deserializeEntry nd dl ?b = Inr ?e" using json_entry_deserialized [OF assms(3-5) iv assms(6)] p by auto
  obtain d' mtime where d': "dk_set nd dl t k v ttl d = (Inr (), d')" "calm d'" "map_of (dk_files d') (keyToPath nd k) = Some (?b, mtime)"
    using dk_set_calm [OF calm assms(1) p] by auto
  have "\<not> entry_expired ?e t'" using assms(8) by (auto simp: entry_expired_def expiry_of_def alive_def split: option.splits)
  then have "entry_at nd dl t' d' (keyToPath nd k) = (if fits_limit dl ?b then Some ?e else None)"
    using d'(3) b by (simp add: entry_at_def entry_in_def)
  moreover obtain d'' where "read_entry nd dl t' (keyToPath nd k) d' = (entry_at nd dl t' d' (keyToPath nd k), d'')"
    using read_entry_calm [OF d'(2) assms(1)] by blast
  ultimately show ?thesis using d'(1) by (simp add: dk_getEntry_def value_of_def)
qed

subsection \<open>Witnesses\<close>

definition demo_node :: node_env where
  "demo_node = \<lparr>nd_crypto = demo_crypto, nd_pid = ''1'', nd_number = (\<lambda>_. [])\<rparr>"

definition demo_disk_layer :: disk_layer where
  "demo_disk_layer = \<lparr>dl_name = ''disk'', dl_defaultTtl = None,
     dl_serializer = json_serializer (\<lambda>_. []) (json_serializer_options None None None),
     dl_maxFiles = Some 2, dl_maxEntryBytes = ByteLimit 100, dl_maxWriteQueueDepth = Limit 10,
     dl_protection = new_protection demo_crypto None (Some (KeyText ''secret'')) None\<rparr>"

definition demo_disk :: disk where
  "demo_disk = \<lparr>dk_dir = False, dk_files = [], dk_faults = (\<lambda>_. None), dk_clock = (\<lambda>n. real (n div 2)), dk_listing = (\<lambda>_. rev), dk_calls = 0,
     dk_random = (\<lambda>_ n. replicate n (CHR ''r'')), dk_draws = 0, dk_depth = 0\<rparr>"

lemma demo_paths: "inj (keyToPath demo_node)"
proof (rule injI)
  fix k l assume "keyToPath demo_node k = keyToPath demo_node l"
  then have "hex (utf8_encode k) = hex (utf8_encode l)" by (simp add: keyToPath_def demo_node_def demo_crypto_def)
  then have "utf8_encode k = utf8_encode l" using from_hex_hex by metis
  then show "k = l" using utf8_round_trip by (metis option.inject)
qed

lemma demo_disk_config: "disk_config_ok demo_node demo_disk_layer"
  using demo_paths by (simp add: disk_config_ok_def demo_disk_layer_def)

lemma demo_disk_ok: "ct_ok (disk_contract demo_node demo_disk_layer) demo_disk"
  by (simp add: demo_disk_def demo_disk_layer_def calm_def roomy_def stamped_def well_filed_def div_le_mono)

theorem disk_layer_keeps_contract_witness:
  "listed_layer (disk_api demo_node demo_disk_layer) (disk_contract demo_node demo_disk_layer) \<and>
   ct_ok (disk_contract demo_node demo_disk_layer) demo_disk"
  using disk_layer_keeps_contract [OF demo_disk_config] demo_disk_ok by simp

lemma demo_storable: "json_storable (\<lambda>_. []) (json_serializer_options None None None) (js_of_entry ''k'' (JStr ''v'') (Some 15))"
proof -
  have d: "decimal 15 = ''15''" by (subst decimal.simps, subst decimal.simps) (simp add: char_of_def bit_simps)
  show ?thesis
    by (simp add: js_of_entry_def js_of_num_def json_storable_def sane_def json_serializer_options_def is_whole_def d int_text_def DANGEROUS_KEYS_def
        enumeration_order_def is_array_index_def is_digit_def json_string_def esc_char_def)
qed

lemma demo_entry_text: "json (\<lambda>_. []) (js_of_entry ''k'' (JStr ''v'') (Some 15)) = ''{\"key\":\"k\",\"value\":\"v\",\"expiresAt\":15}''"
proof -
  have d: "decimal 15 = ''15''" by (subst decimal.simps, subst decimal.simps) (simp add: char_of_def bit_simps)
  show ?thesis by (simp add: js_of_entry_def js_of_num_def d int_text_def is_whole_def json_string_def esc_char_def
        enumeration_order_def is_array_index_def is_digit_def)
qed

lemma demo_crypto_ok: "crypto_ok demo_crypto"
  by (simp add: crypto_ok_def demo_crypto_def AUTH_TAG_LENGTH_def HMAC_LENGTH_def)

theorem disk_entry_round_trip_witness:
  "fst (dk_getEntry demo_node demo_disk_layer 8 ''k'' (snd (dk_set demo_node demo_disk_layer 5 ''k'' (JStr ''v'') (Some 10) demo_disk))) = Inr (JStr ''v'')"
proof -
  have l: "dl_serializer demo_disk_layer = json_serializer (\<lambda>_. []) (json_serializer_options None None None)"
    "dl_protection demo_disk_layer = new_protection (nd_crypto demo_node) None (Some (KeyText ''secret'')) None" "dl_maxEntryBytes demo_disk_layer = ByteLimit 100"
    by (simp_all add: demo_disk_layer_def demo_node_def)
  have e: "expiry_of 5 (Some 10) = Some 15" by (simp add: expiry_of_def)
  have c: "nd_crypto demo_node = demo_crypto" by (simp add: demo_node_def)
  have fit: "fits_limit demo_disk_layer (protect (nd_crypto demo_node) (dl_protection demo_disk_layer) iv
      (utf8_encode (json (\<lambda>_. []) (js_of_entry ''k'' (JStr ''v'') (Some 15)))))" for iv
    unfolding demo_entry_text
    by (simp add: fits_limit_def l protect_def new_protection_def sign_payload_def MAGIC_SIGNED_def demo_node_def demo_crypto_def HMAC_LENGTH_def)
  show ?thesis
    using disk_entry_round_trip [OF demo_disk_config demo_disk_ok l(1,2), of "''k''" "JStr ''v''" 5 "Some 10" 8] demo_storable demo_crypto_ok fit
    by (simp add: e c alive_def)
qed

lemma demo_reads_back: "entry_reads_back demo_node demo_disk_layer ''k'' (JStr ''v'') (Some 15) (replicate 12 CHR ''r'')"
proof -
  have l: "dl_serializer demo_disk_layer = json_serializer (\<lambda>_. []) (json_serializer_options None None None)"
    "dl_protection demo_disk_layer = new_protection (nd_crypto demo_node) None (Some (KeyText ''secret'')) None" "crypto_ok (nd_crypto demo_node)"
    "dl_maxEntryBytes demo_disk_layer = ByteLimit 100"
    using demo_crypto_ok by (simp_all add: demo_disk_layer_def demo_node_def)
  have iv: "length (replicate 12 CHR ''r'') = IV_LENGTH" by (simp add: IV_LENGTH_def)
  obtain p where p: "sr_serialize (dl_serializer demo_disk_layer) (js_of_entry ''k'' (JStr ''v'') (Some 15)) = Inr p"
    "deserializeEntry demo_node demo_disk_layer (protect (nd_crypto demo_node) (dl_protection demo_disk_layer) (replicate 12 CHR ''r'') (payload_bytes p))
      = Inr \<lparr>de_key = ''k'', de_value = JStr ''v'', de_expiresAt = map_option Fin (Some 15)\<rparr>"
    using json_entry_deserialized [OF l(1-3) iv demo_storable] by blast
  have "p = PText (json (\<lambda>_. []) (js_of_entry ''k'' (JStr ''v'') (Some 15)))"
    using p(1) by (auto simp: l(1) json_serializer_def json_serialize_def split: if_splits)
  then have "fits_limit demo_disk_layer (protect (nd_crypto demo_node) (dl_protection demo_disk_layer) (replicate 12 CHR ''r'') (payload_bytes p))"
    by (simp add: demo_entry_text) (simp add: fits_limit_def l protect_def new_protection_def sign_payload_def MAGIC_SIGNED_def demo_node_def demo_crypto_def HMAC_LENGTH_def)
  then show ?thesis using p by (simp add: entry_reads_back_def)
qed

theorem overlapping_miss_loses_write_witness:
  "\<exists>seen d1 d2 raw d3 e d4. open_entry demo_disk_layer (keyToPath demo_node ''k'') demo_disk = (seen, d1) \<and>
     dk_set demo_node demo_disk_layer 5 ''k'' (JStr ''v'') (Some 10) d1 = (Inr (), d2) \<and>
     value_of (entry_at demo_node demo_disk_layer 5 d2 (keyToPath demo_node ''k'')) = JStr ''v'' \<and>
     settle_file (keyToPath demo_node ''k'') seen d2 = (raw, d3) \<and>
     settle_entry demo_node demo_disk_layer 5 (keyToPath demo_node ''k'') raw d3 = (e, d4) \<and>
     value_of (entry_at demo_node demo_disk_layer 6 d4 (keyToPath demo_node ''k'')) = JNull"
proof -
  let ?path = "keyToPath demo_node ''k''"
  obtain seen d1 where o: "open_entry demo_disk_layer ?path demo_disk = (seen, d1)" by fastforce
  obtain r d2 where s: "dk_set demo_node demo_disk_layer 5 ''k'' (JStr ''v'') (Some 10) d1 = (r, d2)" by fastforce
  obtain raw d3 where f: "settle_file ?path seen d2 = (raw, d3)" by fastforce
  obtain e d4 where g: "settle_entry demo_node demo_disk_layer 5 ?path raw d3 = (e, d4)" by fastforce
  have d1: "dk_random d1 (dk_draws d1) IV_LENGTH = replicate 12 CHR ''r''"
    using o by (auto simp: open_entry_def fs_open_def fs_call_def demo_disk_def IV_LENGTH_def)
  have e: "expiry_of 5 (Some 10) = Some 15" by (simp add: expiry_of_def)
  have k: "clean_name ''k''" by (simp add: clean_name_def control_char_def surrogate_def MAX_CACHE_KEY_LENGTH_def)
  have t: "ct_ttl (disk_contract demo_node demo_disk_layer) 5 (Some 10)" by (simp add: e expiry_ok_def is_whole_def)
  have b: "entry_reads_back demo_node demo_disk_layer ''k'' (JStr ''v'') (expiry_of 5 (nullish_opt (Some 10) (dl_defaultTtl demo_disk_layer)))
      (dk_random d1 (dk_draws d1) IV_LENGTH)" using demo_reads_back by (simp add: e d1)
  have none: "entry_at demo_node demo_disk_layer 5 demo_disk ?path = None" by (simp add: entry_at_def demo_disk_def)
  show ?thesis
    using overlapping_miss_loses_write [OF demo_disk_config demo_disk_ok k o t b s f g] none o s f g by auto
qed

theorem disk_write_atomic_witness:
  "map_of (dk_files (snd (dk_set demo_node demo_disk_layer 5 ''k'' (JStr ''v'') (Some 10)
     (demo_disk\<lparr>dk_dir := True, dk_files := [(keyToPath demo_node ''k'', (''old'', 0))], dk_faults := (\<lambda>n. if n = 1 then Some (''ENOSPC'', Some 3) else None)\<rparr>))))
   (keyToPath demo_node ''k'') = Some (''old'', 0)"
proof -
  let ?d = "demo_disk\<lparr>dk_dir := True, dk_files := [(keyToPath demo_node ''k'', (''old'', 0))], dk_faults := (\<lambda>n. if n = 1 then Some (''ENOSPC'', Some 3) else None)\<rparr>"
  obtain r d' where s: "dk_set demo_node demo_disk_layer 5 ''k'' (JStr ''v'') (Some 10) ?d = (r, d')" by fastforce
  have "isl r"
  proof -
    have "\<not> queue_full demo_disk_layer ?d" by (simp add: queue_full_def demo_disk_layer_def demo_disk_def)
    moreover obtain p where "sr_serialize (dl_serializer demo_disk_layer) (js_of_entry ''k'' (JStr ''v'') (expiry_of 5 (Some 10))) = Inr p"
      using demo_reads_back by (auto simp: entry_reads_back_def expiry_of_def split: sum.splits)
    ultimately show ?thesis using s
      by (auto simp: dk_set_def enqueueWrite_def write_entry_def andthen_def fs_mkdir_def fs_call_def demo_disk_def draw_def Let_def
          store_file_def catching_def fs_writeFile_def expiry_of_def isl_def split: prod.splits)
  qed
  then show ?thesis using disk_write_atomic [OF s lc_target, of demo_node "''k''"] s by (auto simp: isl_def)
qed

end
