(* ===== verification/RedisTagIndex.thy ===== *)
theory RedisTagIndex
  imports RedisLayer PatternMatcher "HOL-Library.Word"
begin

text \<open>
  The tag index in Redis (\<open>src/src/invalidation/RedisTagIndex.ts\<close>): sets of known keys in shards, a set of tags
  per key and a set of keys per tag. The client is a record of the commands the index issues, each an
  action on the state \<open>'c\<close> of the connection and the server. Warnings about a legacy layout are left out.
\<close>

subsection \<open>Client\<close>

datatype set_command = CmdSAdd string "string list" | CmdSRem string string | CmdDel string

record 'c set_client =
  sc_sadd :: "string \<Rightarrow> string list \<Rightarrow> ('c, unit) action"
  sc_smembers :: "string \<Rightarrow> ('c, string list) action"
  sc_sscan :: "string \<Rightarrow> string \<Rightarrow> string option \<Rightarrow> real \<Rightarrow> ('c, string \<times> string list) action"   \<comment> \<open>set, cursor, \<open>MATCH\<close>, \<open>COUNT\<close>\<close>
  sc_scan :: "string \<Rightarrow> string \<Rightarrow> real \<Rightarrow> ('c, string \<times> string list) action"   \<comment> \<open>cursor, \<open>MATCH\<close>, \<open>COUNT\<close>\<close>
  sc_exists :: "string \<Rightarrow> ('c, nat) action"
  sc_del :: "string list \<Rightarrow> ('c, nat) action"
  sc_exec :: "set_command list \<Rightarrow> ('c, unit) action"   \<comment> \<open>\<open>exec\<close> of a pipeline; its results are not looked at\<close>

subsection \<open>Names in Redis\<close>

definition uri_unreserved :: "nat \<Rightarrow> bool" where
  "uri_unreserved n \<longleftrightarrow> 48 \<le> n \<and> n \<le> 57 \<or> 65 \<le> n \<and> n \<le> 90 \<or> 97 \<le> n \<and> n \<le> 122 \<or> n \<in> {33, 39, 40, 41, 42, 45, 46, 95, 126}"

definition hex_upper :: "nat \<Rightarrow> char" where
  "hex_upper n = (if n < 10 then char_of (48 + n) else char_of (55 + n))"

fun percent_encode :: "string \<Rightarrow> string" where
  "percent_encode [] = []"
| "percent_encode (c # s) =
    (let n = (of_char c :: nat) in
     if uri_unreserved n then c # percent_encode s
     else CHR ''%'' # hex_upper (n div 16) # hex_upper (n mod 16) # percent_encode s)"

definition encodeURIComponent :: "string \<Rightarrow> string" where
  "encodeURIComponent s = percent_encode (utf8_encode s)"

record redis_tag_index =
  ri_prefix :: string
  ri_scanCount :: real
  ri_shards :: nat

definition normalizeKnownKeysShards :: "real option \<Rightarrow> nat result" where
  "normalizeKnownKeysShards shards =
    (case shards of
       None \<Rightarrow> Inr 16
     | Some x \<Rightarrow> if \<not> is_whole x \<or> x \<le> 0 then Inl (MustBePositive ''RedisTagIndex.knownKeysShards'') else Inr (nat \<lfloor>x\<rfloor>))"

definition new_redis_tag_index :: "string option \<Rightarrow> real option \<Rightarrow> real option \<Rightarrow> redis_tag_index result" where
  "new_redis_tag_index pre scanCount shards =
    bind_result (normalizeKnownKeysShards shards) (\<lambda>n. Inr
      \<lparr>ri_prefix = nullish pre ''layercache:tag-index'', ri_scanCount = nullish scanCount 100, ri_shards = n\<rparr>)"

definition simpleHash :: "string \<Rightarrow> 32 word" where
  \<comment> \<open>\<open>hash * 31 + code\<close> stays below \<open>2^53\<close>, then \<open>>>> 0\<close> cuts it to 32 bits\<close>
  "simpleHash s = foldl (\<lambda>hash c. hash * 31 + of_nat (of_char c)) 0 s"

definition legacyKnownKeysKey :: "redis_tag_index \<Rightarrow> string" where
  "legacyKnownKeysKey ri = ri_prefix ri @ '':keys''"

definition shard_key :: "redis_tag_index \<Rightarrow> nat \<Rightarrow> string" where
  "shard_key ri i = ri_prefix ri @ '':keys:'' @ decimal i"

definition shard_of :: "redis_tag_index \<Rightarrow> string \<Rightarrow> nat" where
  "shard_of ri key = unat (simpleHash key) mod ri_shards ri"

definition knownKeysKeyFor :: "redis_tag_index \<Rightarrow> string \<Rightarrow> string" where
  "knownKeysKeyFor ri key = (if ri_shards ri = 1 then legacyKnownKeysKey ri else shard_key ri (shard_of ri key))"

definition knownKeysKeys :: "redis_tag_index \<Rightarrow> string list" where
  "knownKeysKeys ri = (if ri_shards ri = 1 then [legacyKnownKeysKey ri] else map (shard_key ri) [0..<ri_shards ri])"

definition keyTagsKey :: "redis_tag_index \<Rightarrow> string \<Rightarrow> string" where
  "keyTagsKey ri key = ri_prefix ri @ '':key:'' @ encodeURIComponent key"

definition tagKeysKey :: "redis_tag_index \<Rightarrow> string \<Rightarrow> string" where
  "tagKeysKey ri tag = ri_prefix ri @ '':tag:'' @ encodeURIComponent tag"

subsection \<open>Updates\<close>

definition rt_touch :: "'c set_client \<Rightarrow> redis_tag_index \<Rightarrow> string \<Rightarrow> ('c, unit) action" where
  "rt_touch cl ri key = sc_sadd cl (knownKeysKeyFor ri key) [key]"

definition track_commands :: "redis_tag_index \<Rightarrow> string \<Rightarrow> string list \<Rightarrow> string list \<Rightarrow> set_command list" where
  "track_commands ri key tags existingTags =
    [CmdSAdd (knownKeysKeyFor ri key) [key]]
    @ map (\<lambda>tag. CmdSRem (tagKeysKey ri tag) key) existingTags
    @ [CmdDel (keyTagsKey ri key)]
    @ (if tags \<noteq> [] then CmdSAdd (keyTagsKey ri key) tags # map (\<lambda>tag. CmdSAdd (tagKeysKey ri tag) [key]) (js_unique tags) else [])"

definition rt_track :: "'c set_client \<Rightarrow> redis_tag_index \<Rightarrow> string \<Rightarrow> string list \<Rightarrow> ('c, unit) action" where
  "rt_track cl ri key tags =
    andthen (sc_smembers cl (keyTagsKey ri key)) (\<lambda>existingTags. sc_exec cl (track_commands ri key tags existingTags))"

definition remove_commands :: "redis_tag_index \<Rightarrow> string \<Rightarrow> string list \<Rightarrow> set_command list" where
  "remove_commands ri key existingTags =
    [CmdSRem (knownKeysKeyFor ri key) key]
    @ (if ri_shards ri > 1 then [CmdSRem (legacyKnownKeysKey ri) key] else [])
    @ [CmdDel (keyTagsKey ri key)]
    @ map (\<lambda>tag. CmdSRem (tagKeysKey ri tag) key) existingTags"

definition rt_remove :: "'c set_client \<Rightarrow> redis_tag_index \<Rightarrow> string \<Rightarrow> ('c, unit) action" where
  "rt_remove cl ri key =
    andthen (sc_smembers cl (keyTagsKey ri key)) (\<lambda>existingTags. sc_exec cl (remove_commands ri key existingTags))"

subsection \<open>Queries\<close>

definition rt_keysForTag :: "'c set_client \<Rightarrow> redis_tag_index \<Rightarrow> string \<Rightarrow> ('c, string list) action" where
  "rt_keysForTag cl ri tag = sc_smembers cl (tagKeysKey ri tag)"

definition rt_tagsForKey :: "'c set_client \<Rightarrow> redis_tag_index \<Rightarrow> string \<Rightarrow> ('c, string list) action" where
  "rt_tagsForKey cl ri key = sc_smembers cl (keyTagsKey ri key)"

definition rt_forEachKeyForTag ::
    "'c set_client \<Rightarrow> redis_tag_index \<Rightarrow> string \<Rightarrow> (string \<Rightarrow> ('c, unit) action) \<Rightarrow> 'c \<Rightarrow> (unit result \<times> 'c) option" where
  "rt_forEachKeyForTag cl ri tag visitor c =
    map_option (\<lambda>(r, c'). (map_sum id (\<lambda>_. ()) r, c'))
      (scan_loop (\<lambda>cursor. sc_sscan cl (tagKeysKey ri tag) cursor None (ri_scanCount ri)) (each visitor) ''0'' c)"

definition knownKeysKeysForRead :: "'c set_client \<Rightarrow> redis_tag_index \<Rightarrow> ('c, string list) action" where
  "knownKeysKeysForRead cl ri =
    (if ri_shards ri = 1 then ret [legacyKnownKeysKey ri]
     else andthen (sc_exists cl (legacyKnownKeysKey ri)) (\<lambda>n.
       ret (if n > 0 then legacyKnownKeysKey ri # knownKeysKeys ri else knownKeysKeys ri)))"

fun scan_sets :: "'c set_client \<Rightarrow> redis_tag_index \<Rightarrow> string option \<Rightarrow> string list \<Rightarrow> 'c \<Rightarrow> (string list result \<times> 'c) option" where
  \<comment> \<open>the members of several sets, one \<open>SSCAN\<close> loop after the other\<close>
  "scan_sets cl ri pattern [] c = Some (Inr [], c)"
| "scan_sets cl ri pattern (key # keys) c =
    Option.bind (scan_loop (\<lambda>cursor. sc_sscan cl key cursor pattern (ri_scanCount ri)) (\<lambda>_. ret ()) ''0'' c) (\<lambda>(r, c1).
      case r of
        Inl e \<Rightarrow> Some (Inl e, c1)
      | Inr found \<Rightarrow> map_option (\<lambda>(r', c2). (map_sum id (\<lambda>more. found @ more) r', c2)) (scan_sets cl ri pattern keys c1))"

definition known_matching :: "'c set_client \<Rightarrow> redis_tag_index \<Rightarrow> string option \<Rightarrow> (string \<Rightarrow> bool) \<Rightarrow> 'c \<Rightarrow> (string list result \<times> 'c) option" where
  \<comment> \<open>the set \<open>matches\<close> as an array\<close>
  "known_matching cl ri pattern wanted c =
    (case knownKeysKeysForRead cl ri c of
       (Inl e, c1) \<Rightarrow> Some (Inl e, c1)
     | (Inr sets, c1) \<Rightarrow>
         map_option (\<lambda>(r, c2). (map_sum id (\<lambda>found. js_unique (filter wanted found)) r, c2)) (scan_sets cl ri pattern sets c1))"

definition rt_keysForPrefix :: "'c set_client \<Rightarrow> redis_tag_index \<Rightarrow> string \<Rightarrow> 'c \<Rightarrow> (string list result \<times> 'c) option" where
  "rt_keysForPrefix cl ri pre = known_matching cl ri None (\<lambda>key. starts_with key pre)"

definition rt_matchPattern :: "'c set_client \<Rightarrow> redis_tag_index \<Rightarrow> string \<Rightarrow> 'c \<Rightarrow> (string list result \<times> 'c) option" where
  "rt_matchPattern cl ri pattern = known_matching cl ri (Some pattern) (matches pattern)"

fun visit_unseen :: "(string \<Rightarrow> bool) \<Rightarrow> (string \<Rightarrow> ('c, unit) action) \<Rightarrow> string list \<Rightarrow> ('c \<times> string list, unit) action" where
  \<comment> \<open>the state carries the keys visited\<close>
  "visit_unseen wanted visitor [] cv = (Inr (), cv)"
| "visit_unseen wanted visitor (key # keys) (c, visited) =
    (if wanted key \<and> key \<notin> set visited then
       (case visitor key c of
          (Inl e, c1) \<Rightarrow> (Inl e, (c1, visited @ [key]))
        | (Inr _, c1) \<Rightarrow> visit_unseen wanted visitor keys (c1, visited @ [key]))
     else visit_unseen wanted visitor keys (c, visited))"

definition with_visited :: "('c, 'a) action \<Rightarrow> ('c \<times> string list, 'a) action" where
  "with_visited m cv = (case m (fst cv) of (r, c1) \<Rightarrow> (r, (c1, snd cv)))"

fun visit_sets ::
    "'c set_client \<Rightarrow> redis_tag_index \<Rightarrow> string option \<Rightarrow> (string \<Rightarrow> bool) \<Rightarrow> (string \<Rightarrow> ('c, unit) action) \<Rightarrow> string list \<Rightarrow>
     'c \<times> string list \<Rightarrow> (unit result \<times> ('c \<times> string list)) option" where
  "visit_sets cl ri pattern wanted visitor [] cv = Some (Inr (), cv)"
| "visit_sets cl ri pattern wanted visitor (key # keys) cv =
    Option.bind (scan_loop (\<lambda>cursor. with_visited (sc_sscan cl key cursor pattern (ri_scanCount ri))) (visit_unseen wanted visitor) ''0'' cv) (\<lambda>(r, cv1).
      case r of Inl e \<Rightarrow> Some (Inl e, cv1) | Inr _ \<Rightarrow> visit_sets cl ri pattern wanted visitor keys cv1)"

definition visit_matching ::
    "'c set_client \<Rightarrow> redis_tag_index \<Rightarrow> string option \<Rightarrow> (string \<Rightarrow> bool) \<Rightarrow> (string \<Rightarrow> ('c, unit) action) \<Rightarrow> 'c \<Rightarrow> (unit result \<times> 'c) option" where
  "visit_matching cl ri pattern wanted visitor c =
    (case knownKeysKeysForRead cl ri c of
       (Inl e, c1) \<Rightarrow> Some (Inl e, c1)
     | (Inr sets, c1) \<Rightarrow> map_option (\<lambda>(r, cv). (r, fst cv)) (visit_sets cl ri pattern wanted visitor sets (c1, [])))"

definition rt_forEachKeyForPrefix ::
    "'c set_client \<Rightarrow> redis_tag_index \<Rightarrow> string \<Rightarrow> (string \<Rightarrow> ('c, unit) action) \<Rightarrow> 'c \<Rightarrow> (unit result \<times> 'c) option" where
  "rt_forEachKeyForPrefix cl ri pre = visit_matching cl ri None (\<lambda>key. starts_with key pre)"

definition rt_forEachKeyMatchingPattern ::
    "'c set_client \<Rightarrow> redis_tag_index \<Rightarrow> string \<Rightarrow> (string \<Rightarrow> ('c, unit) action) \<Rightarrow> 'c \<Rightarrow> (unit result \<times> 'c) option" where
  "rt_forEachKeyMatchingPattern cl ri pattern = visit_matching cl ri (Some pattern) (matches pattern)"

subsection \<open>Clearing and migrating\<close>

definition scanIndexKeys :: "'c set_client \<Rightarrow> redis_tag_index \<Rightarrow> 'c \<Rightarrow> (string list result \<times> 'c) option" where
  "scanIndexKeys cl ri = scan_loop (\<lambda>cursor. sc_scan cl cursor (ri_prefix ri @ '':*'') (ri_scanCount ri)) (\<lambda>_. ret ()) ''0''"

definition rt_clear :: "'c set_client \<Rightarrow> redis_tag_index \<Rightarrow> 'c \<Rightarrow> (unit result \<times> 'c) option" where
  "rt_clear cl ri c =
    map_option (\<lambda>(r, c1). case r of
        Inl e \<Rightarrow> (Inl e, c1)
      | Inr indexKeys \<Rightarrow> if indexKeys = [] then (Inr (), c1) else andthen (sc_del cl indexKeys) (\<lambda>_. ret ()) c1)
      (scanIndexKeys cl ri c)"

definition migrate_page :: "'c set_client \<Rightarrow> redis_tag_index \<Rightarrow> string list \<Rightarrow> ('c, unit) action" where
  "migrate_page cl ri keys = (if keys = [] then ret () else sc_exec cl (map (\<lambda>key. CmdSAdd (knownKeysKeyFor ri key) [key]) keys))"

definition migrateLegacyKnownKeys :: "'c set_client \<Rightarrow> redis_tag_index \<Rightarrow> 'c \<Rightarrow> (nat result \<times> 'c) option" where
  \<comment> \<open>\<open>migratedKeys\<close>: the sum of the pages' lengths\<close>
  "migrateLegacyKnownKeys cl ri c =
    (if ri_shards ri = 1 then Some (Inr 0, c)
     else map_option (\<lambda>(r, c1). case r of
         Inl e \<Rightarrow> (Inl e, c1)
       | Inr keys \<Rightarrow> if length keys > 0 then andthen (sc_del cl [legacyKnownKeysKey ri]) (\<lambda>_. ret (length keys)) c1 else (Inr 0, c1))
       (scan_loop (\<lambda>cursor. sc_sscan cl (legacyKnownKeysKey ri) cursor None (ri_scanCount ri)) (migrate_page cl ri) ''0'' c))"

end
