(* ===== verification/RedisTagProps.thy ===== *)
theory RedisTagProps
  imports RedisTagIndex RedisContract
begin

text \<open>
  The tag index in Redis refines the same kind of abstract index as the one in memory, and its scans
  end with exactly the known keys. A view of the server gives the states it can be in, the members of
  each set and, for running scans, what is still to be reported and a bound on the remaining pages; the
  documented behaviour of the commands is stated on it (\<open>set_server\<close>).
\<close>

subsection \<open>The server\<close>

record 'c set_view =
  sv_inv :: "'c \<Rightarrow> bool"
  sv_members :: "'c \<Rightarrow> string \<Rightarrow> string set"
  sv_pending :: "'c \<Rightarrow> string \<Rightarrow> string option \<Rightarrow> string \<Rightarrow> string set"   \<comment> \<open>members a scan of the set has still to report\<close>
  sv_work :: "'c \<Rightarrow> string \<Rightarrow> string option \<Rightarrow> string \<Rightarrow> nat"
  sv_keys_pending :: "'c \<Rightarrow> string \<Rightarrow> string \<Rightarrow> string set"
  sv_keys_work :: "'c \<Rightarrow> string \<Rightarrow> string \<Rightarrow> nat"

fun apply_command :: "set_command \<Rightarrow> (string \<Rightarrow> string set) \<Rightarrow> string \<Rightarrow> string set" where
  "apply_command (CmdSAdd k ms) M = M(k := M k \<union> set ms)"
| "apply_command (CmdSRem k m) M = M(k := M k - {m})"
| "apply_command (CmdDel k) M = M(k := {})"

fun command_key :: "set_command \<Rightarrow> string" where
  "command_key (CmdSAdd k ms) = k" | "command_key (CmdSRem k m) = k" | "command_key (CmdDel k) = k"

definition fits_pattern :: "string option \<Rightarrow> string \<Rightarrow> bool" where
  "fits_pattern pattern k \<longleftrightarrow> (case pattern of None \<Rightarrow> True | Some p \<Rightarrow> glob p k)"

definition no_classes :: "string \<Rightarrow> bool" where
  \<comment> \<open>the pattern language of Redis and that of the index agree: no brackets and no backslash\<close>
  "no_classes p \<longleftrightarrow> list_all (\<lambda>ch. ch \<notin> set ''[]'' \<and> (of_char ch :: nat) \<noteq> 92) p"

definition simple_pattern :: "string option \<Rightarrow> bool" where
  "simple_pattern pattern \<longleftrightarrow> (case pattern of None \<Rightarrow> True | Some p \<Rightarrow> no_classes p)"

definition unmoved :: "'c set_view \<Rightarrow> 'c \<Rightarrow> 'c \<Rightarrow> bool" where
  "unmoved sv c c' \<longleftrightarrow> sv_inv sv c' \<and> sv_members sv c' = sv_members sv c"

definition sets_read :: "'c set_client \<Rightarrow> 'c set_view \<Rightarrow> bool" where
  "sets_read cl sv \<longleftrightarrow> (\<forall>c k. sv_inv sv c \<longrightarrow>
     (\<exists>ks c'. sc_smembers cl k c = (Inr ks, c') \<and> set ks = sv_members sv c k \<and> distinct ks \<and> unmoved sv c c') \<and>
     (\<exists>n c'. sc_exists cl k c = (Inr n, c') \<and> (0 < n \<longleftrightarrow> sv_members sv c k \<noteq> {}) \<and> unmoved sv c c'))"

definition sets_write :: "'c set_client \<Rightarrow> 'c set_view \<Rightarrow> bool" where
  \<comment> \<open>a pipeline runs its commands in order; scans of other sets go on\<close>
  "sets_write cl sv \<longleftrightarrow> (\<forall>c. sv_inv sv c \<longrightarrow>
     (\<forall>cmds. \<exists>c'. sc_exec cl cmds c = (Inr (), c') \<and> sv_inv sv c' \<and> sv_members sv c' = fold apply_command cmds (sv_members sv c) \<and>
        (\<forall>k pattern cur. k \<notin> command_key ` set cmds \<longrightarrow>
           sv_pending sv c k pattern cur \<subseteq> sv_pending sv c' k pattern cur \<and> sv_work sv c' k pattern cur \<le> sv_work sv c k pattern cur)) \<and>
     (\<forall>k ms. \<exists>c'. sc_sadd cl k ms c = (Inr (), c') \<and> sv_inv sv c' \<and> sv_members sv c' = apply_command (CmdSAdd k ms) (sv_members sv c)) \<and>
     (\<forall>ks. \<exists>n c'. sc_del cl ks c = (Inr n, c') \<and> sv_inv sv c' \<and> sv_members sv c' = (\<lambda>k. if k \<in> set ks then {} else sv_members sv c k)))"

definition sets_scan :: "'c set_client \<Rightarrow> 'c set_view \<Rightarrow> bool" where
  "sets_scan cl sv \<longleftrightarrow> (\<forall>c k pattern n. sv_inv sv c \<longrightarrow> simple_pattern pattern \<longrightarrow> 1 \<le> n \<longrightarrow> math_ceil n = n \<longrightarrow>
     {m \<in> sv_members sv c k. fits_pattern pattern m} \<subseteq> sv_pending sv c k pattern ''0'' \<and>
     (\<forall>cur. \<exists>cur' ks c'. sc_sscan cl k cur pattern n c = (Inr (cur', ks), c') \<and> unmoved sv c c' \<and>
        set ks \<subseteq> {m \<in> sv_members sv c k. fits_pattern pattern m} \<and>
        sv_pending sv c k pattern cur \<subseteq> set ks \<union> (if cur' = ''0'' then {} else sv_pending sv c' k pattern cur') \<and>
        (cur' \<noteq> ''0'' \<longrightarrow> sv_work sv c' k pattern cur' < sv_work sv c k pattern cur)))"

definition keys_scan :: "'c set_client \<Rightarrow> 'c set_view \<Rightarrow> bool" where
  "keys_scan cl sv \<longleftrightarrow> (\<forall>c p n. sv_inv sv c \<longrightarrow> plain p \<longrightarrow> 1 \<le> n \<longrightarrow> math_ceil n = n \<longrightarrow>
     {k. sv_members sv c k \<noteq> {} \<and> starts_with k p} \<subseteq> sv_keys_pending sv c p ''0'' \<and>
     (\<forall>cur. \<exists>cur' ks c'. sc_scan cl cur (p @ ''*'') n c = (Inr (cur', ks), c') \<and> unmoved sv c c' \<and>
        set ks \<subseteq> {k. starts_with k p} \<and>
        sv_keys_pending sv c p cur \<subseteq> set ks \<union> (if cur' = ''0'' then {} else sv_keys_pending sv c' p cur') \<and>
        (cur' \<noteq> ''0'' \<longrightarrow> sv_keys_work sv c' p cur' < sv_keys_work sv c p cur)))"

definition set_server :: "'c set_client \<Rightarrow> 'c set_view \<Rightarrow> bool" where
  "set_server cl sv \<longleftrightarrow> sets_read cl sv \<and> sets_write cl sv \<and> sets_scan cl sv \<and> keys_scan cl sv"

lemma set_serves:
  assumes "set_server cl sv" "sv_inv sv c"
  shows serves_smembers: "\<exists>ks c'. sc_smembers cl k c = (Inr ks, c') \<and> set ks = sv_members sv c k \<and> distinct ks \<and> unmoved sv c c'"
    and serves_sexists: "\<exists>n c'. sc_exists cl k c = (Inr n, c') \<and> (0 < n \<longleftrightarrow> sv_members sv c k \<noteq> {}) \<and> unmoved sv c c'"
    and serves_exec: "\<exists>c'. sc_exec cl cmds c = (Inr (), c') \<and> sv_inv sv c' \<and> sv_members sv c' = fold apply_command cmds (sv_members sv c) \<and>
        (\<forall>k pattern cur. k \<notin> command_key ` set cmds \<longrightarrow>
           sv_pending sv c k pattern cur \<subseteq> sv_pending sv c' k pattern cur \<and> sv_work sv c' k pattern cur \<le> sv_work sv c k pattern cur)"
    and serves_sadd: "\<exists>c'. sc_sadd cl k ms c = (Inr (), c') \<and> sv_inv sv c' \<and> sv_members sv c' = apply_command (CmdSAdd k ms) (sv_members sv c)"
    and serves_sdel: "\<exists>n c'. sc_del cl ks c = (Inr n, c') \<and> sv_inv sv c' \<and> sv_members sv c' = (\<lambda>k. if k \<in> set ks then {} else sv_members sv c k)"
proof -
  have r: "sets_read cl sv" "sets_write cl sv" using assms(1) by (simp_all add: set_server_def)
  note w = r(2) [unfolded sets_write_def, rule_format, OF assms(2)]
  show "\<exists>ks c'. sc_smembers cl k c = (Inr ks, c') \<and> set ks = sv_members sv c k \<and> distinct ks \<and> unmoved sv c c'"
    "\<exists>n c'. sc_exists cl k c = (Inr n, c') \<and> (0 < n \<longleftrightarrow> sv_members sv c k \<noteq> {}) \<and> unmoved sv c c'"
    using r(1) [unfolded sets_read_def, rule_format, OF assms(2), of k] by simp_all
  show "\<exists>c'. sc_exec cl cmds c = (Inr (), c') \<and> sv_inv sv c' \<and> sv_members sv c' = fold apply_command cmds (sv_members sv c) \<and>
      (\<forall>k pattern cur. k \<notin> command_key ` set cmds \<longrightarrow>
         sv_pending sv c k pattern cur \<subseteq> sv_pending sv c' k pattern cur \<and> sv_work sv c' k pattern cur \<le> sv_work sv c k pattern cur)"
    using conjunct1 [OF w] by (rule spec)
  show "\<exists>c'. sc_sadd cl k ms c = (Inr (), c') \<and> sv_inv sv c' \<and> sv_members sv c' = apply_command (CmdSAdd k ms) (sv_members sv c)"
    "\<exists>n c'. sc_del cl ks c = (Inr n, c') \<and> sv_inv sv c' \<and> sv_members sv c' = (\<lambda>k. if k \<in> set ks then {} else sv_members sv c k)"
    using conjunct2 [OF w] by blast+
qed

subsection \<open>Scan loops\<close>

lemma scan_loop_visits:
  \<comment> \<open>a loop whose cursors progress returns what is pending, and its body leaves every page behind in \<open>seen\<close>\<close>
  assumes "\<And>cur c. good c \<Longrightarrow> \<exists>cur' ks c1 c2. scan cur c = (Inr (cur', ks), c1) \<and> body ks c1 = (Inr (), c2) \<and> good c2 \<and> set ks \<subseteq> A \<and>
      seen c \<union> set ks \<subseteq> seen c2 \<and> pend c cur \<subseteq> set ks \<union> (if cur' = ''0'' then {} else pend c2 cur') \<and>
      (cur' \<noteq> ''0'' \<longrightarrow> (work c2 cur' :: nat) < work c cur)"
  shows "good c \<Longrightarrow> \<exists>ks c'. scan_loop scan body cur c = Some (Inr ks, c') \<and> good c' \<and> set ks \<subseteq> A \<and> pend c cur \<subseteq> set ks \<and> seen c \<union> set ks \<subseteq> seen c'"
proof (induction "work c cur" arbitrary: cur c rule: less_induct)
  case less
  obtain cur' ks c1 c2 where s: "scan cur c = (Inr (cur', ks), c1)" "body ks c1 = (Inr (), c2)" "good c2" "set ks \<subseteq> A"
    "seen c \<union> set ks \<subseteq> seen c2" "pend c cur \<subseteq> set ks \<union> (if cur' = ''0'' then {} else pend c2 cur')"
    "cur' \<noteq> ''0'' \<longrightarrow> work c2 cur' < work c cur"
    using assms [OF less(2), of cur] by (elim exE conjE) (rule that)
  show ?case
  proof (cases "cur' = ''0''")
    case True
    then show ?thesis using s by (subst scan_loop.simps) simp
  next
    case False
    then have "work c2 cur' < work c cur" using s(7) by simp
    from less(1) [OF this s(3)] obtain ks' c3 where
      IH: "scan_loop scan body cur' c2 = Some (Inr ks', c3)" "good c3" "set ks' \<subseteq> A" "pend c2 cur' \<subseteq> set ks'" "seen c2 \<union> set ks' \<subseteq> seen c3"
      by (elim exE conjE) (rule that)
    have "scan_loop scan body cur c = Some (Inr (ks @ ks'), c3)"
      using s(1,2) False IH(1) by (subst scan_loop.simps) simp
    then show ?thesis using s(4-6) IH(2-5) False by (intro exI [of _ "ks @ ks'"] exI [of _ c3]) auto
  qed
qed

definition scannable :: "redis_tag_index \<Rightarrow> bool" where
  "scannable ri \<longleftrightarrow> 0 < ri_shards ri \<and> 1 \<le> ri_scanCount ri \<and> math_ceil (ri_scanCount ri) = ri_scanCount ri"

lemma sscan_collects:
  assumes "set_server cl sv" "scannable ri" "simple_pattern pattern" "sv_inv sv c"
  shows "\<exists>ks c'. scan_loop (\<lambda>cursor. sc_sscan cl k cursor pattern (ri_scanCount ri)) (\<lambda>_. ret ()) ''0'' c = Some (Inr ks, c') \<and>
    unmoved sv c c' \<and> set ks = {m \<in> sv_members sv c k. fits_pattern pattern m}"
proof -
  let ?M = "sv_members sv c" and ?A = "{m \<in> sv_members sv c k. fits_pattern pattern m}"
  have law: "sets_scan cl sv" and cfg: "1 \<le> ri_scanCount ri" "math_ceil (ri_scanCount ri) = ri_scanCount ri"
    using assms(1,2) by (simp_all add: set_server_def scannable_def)
  note l = law [unfolded sets_scan_def, rule_format, OF _ assms(3) cfg]
  have start: "?A \<subseteq> sv_pending sv c k pattern ''0''" using l [OF assms(4), of k] by blast
  have "\<exists>cur' ks c1 c2. sc_sscan cl k cur pattern (ri_scanCount ri) u = (Inr (cur', ks), c1) \<and> ret () c1 = (Inr (), c2) \<and>
      (sv_inv sv c2 \<and> sv_members sv c2 = ?M) \<and> set ks \<subseteq> ?A \<and> UNIV \<union> set ks \<subseteq> UNIV \<and>
      sv_pending sv u k pattern cur \<subseteq> set ks \<union> (if cur' = ''0'' then {} else sv_pending sv c2 k pattern cur') \<and>
      (cur' \<noteq> ''0'' \<longrightarrow> sv_work sv c2 k pattern cur' < sv_work sv u k pattern cur)"
    if "sv_inv sv u \<and> sv_members sv u = ?M" for u cur
    using conjunct2 [OF l [OF conjunct1 [OF that], of k], THEN spec, of cur] that by (fastforce simp: unmoved_def ret_def)
  from scan_loop_visits [where good = "\<lambda>u. sv_inv sv u \<and> sv_members sv u = ?M" and seen = "\<lambda>_. UNIV" and cur = "''0''", OF this]
  obtain ks c' where "scan_loop (\<lambda>cursor. sc_sscan cl k cursor pattern (ri_scanCount ri)) (\<lambda>_. ret ()) ''0'' c = Some (Inr ks, c')"
    "sv_inv sv c' \<and> sv_members sv c' = ?M" "set ks \<subseteq> ?A" "sv_pending sv c k pattern ''0'' \<subseteq> set ks"
    using assms(4) by blast
  then show ?thesis using start by (intro exI [of _ ks] exI [of _ c']) (auto simp: unmoved_def)
qed

lemma keys_collect:
  assumes "set_server cl sv" "scannable ri" "plain p" "sv_inv sv c"
  shows "\<exists>ks c'. scan_loop (\<lambda>cursor. sc_scan cl cursor (p @ ''*'') (ri_scanCount ri)) (\<lambda>_. ret ()) ''0'' c = Some (Inr ks, c') \<and>
    unmoved sv c c' \<and> set ks \<subseteq> {k. starts_with k p} \<and> {k. sv_members sv c k \<noteq> {} \<and> starts_with k p} \<subseteq> set ks"
proof -
  let ?M = "sv_members sv c" and ?A = "{k. starts_with k p}"
  have law: "keys_scan cl sv" and cfg: "1 \<le> ri_scanCount ri" "math_ceil (ri_scanCount ri) = ri_scanCount ri"
    using assms(1,2) by (simp_all add: set_server_def scannable_def)
  note l = law [unfolded keys_scan_def, rule_format, OF _ assms(3) cfg]
  have start: "{k. sv_members sv c k \<noteq> {} \<and> starts_with k p} \<subseteq> sv_keys_pending sv c p ''0''" using l [OF assms(4)] by blast
  have "\<exists>cur' ks c1 c2. sc_scan cl cur (p @ ''*'') (ri_scanCount ri) u = (Inr (cur', ks), c1) \<and> ret () c1 = (Inr (), c2) \<and>
      (sv_inv sv c2 \<and> sv_members sv c2 = ?M) \<and> set ks \<subseteq> ?A \<and> UNIV \<union> set ks \<subseteq> UNIV \<and>
      sv_keys_pending sv u p cur \<subseteq> set ks \<union> (if cur' = ''0'' then {} else sv_keys_pending sv c2 p cur') \<and>
      (cur' \<noteq> ''0'' \<longrightarrow> sv_keys_work sv c2 p cur' < sv_keys_work sv u p cur)"
    if "sv_inv sv u \<and> sv_members sv u = ?M" for u cur
    using conjunct2 [OF l [OF conjunct1 [OF that]], THEN spec, of cur] that by (fastforce simp: unmoved_def ret_def)
  from scan_loop_visits [where good = "\<lambda>u. sv_inv sv u \<and> sv_members sv u = ?M" and seen = "\<lambda>_. UNIV" and cur = "''0''", OF this]
  obtain ks c' where "scan_loop (\<lambda>cursor. sc_scan cl cursor (p @ ''*'') (ri_scanCount ri)) (\<lambda>_. ret ()) ''0'' c = Some (Inr ks, c')"
    "sv_inv sv c' \<and> sv_members sv c' = ?M" "set ks \<subseteq> ?A" "sv_keys_pending sv c p ''0'' \<subseteq> set ks"
    using assms(4) by blast
  then show ?thesis using start by (intro exI [of _ ks] exI [of _ c']) (auto simp: unmoved_def)
qed

subsection \<open>Names\<close>

lemma hex_upper_code: "n < 16 \<Longrightarrow> (of_char (hex_upper n) :: nat) = (if n < 10 then 48 + n else 55 + n)"
  by (simp add: hex_upper_def)

lemma hex_upper_eq: "m < 16 \<Longrightarrow> n < 16 \<Longrightarrow> hex_upper m = hex_upper n \<Longrightarrow> m = n"
proof -
  assume a: "m < 16" "n < 16" "hex_upper m = hex_upper n"
  have "(if m < 10 then 48 + m else 55 + m) = (of_char (hex_upper m) :: nat)" by (rule hex_upper_code [OF a(1), symmetric])
  also have "\<dots> = (if n < 10 then 48 + n else 55 + n)" unfolding a(3) by (rule hex_upper_code [OF a(2)])
  finally show "m = n" by (simp split: if_splits)
qed

lemma percent_encode_inj: "percent_encode s = percent_encode t \<Longrightarrow> s = t"
proof (induction s arbitrary: t)
  case Nil
  then show ?case by (cases t) (auto simp: Let_def split: if_splits)
next
  case (Cons c s)
  obtain d t' where t: "t = d # t'" using Cons(2) by (cases t) (auto simp: Let_def split: if_splits)
  let ?c = "of_char c :: nat" and ?d = "of_char d :: nat"
  have bound: "?c < 256" "?d < 256" by simp_all
  have no: "\<not> uri_unreserved (of_char CHR ''%'')" by (simp add: uri_unreserved_def)
  have "c = d \<and> percent_encode s = percent_encode t'"
  proof (cases "uri_unreserved ?c \<or> uri_unreserved ?d")
    case True
    then show ?thesis using Cons(2) no by (auto simp: t Let_def split: if_splits)
  next
    case False
    then have "hex_upper (?c div 16) = hex_upper (?d div 16)" "hex_upper (?c mod 16) = hex_upper (?d mod 16)"
      "percent_encode s = percent_encode t'"
      using Cons(2) by (simp_all add: t Let_def)
    moreover have "?c div 16 < 16" "?d div 16 < 16" using bound by (simp_all add: less_mult_imp_div_less)
    ultimately have "?c div 16 = ?d div 16" "?c mod 16 = ?d mod 16" using hex_upper_eq by simp_all
    then have "?c = ?d" by (metis div_mod_decomp)
    then show ?thesis using \<open>percent_encode s = percent_encode t'\<close> of_char_eq_iff by blast
  qed
  then show ?case using Cons(1) t by simp
qed

lemma encodeURIComponent_eq [simp]: "encodeURIComponent s = encodeURIComponent t \<longleftrightarrow> s = t"
proof
  assume "encodeURIComponent s = encodeURIComponent t"
  then have "utf8_encode s = utf8_encode t" by (simp add: encodeURIComponent_def percent_encode_inj)
  then have "utf8_decode (utf8_encode s) = utf8_decode (utf8_encode t)" by simp
  then show "s = t" by (simp add: utf8_round_trip)
qed simp

lemma decimal_eq [simp]: "decimal m = decimal n \<longleftrightarrow> m = n"
  using decimal_inj by blast

lemma decimal_not_Nil [simp]: "decimal n \<noteq> []"
  by (subst decimal.simps) simp

lemma set_names [simp]:
  "keyTagsKey ri k = keyTagsKey ri l \<longleftrightarrow> k = l" "tagKeysKey ri t = tagKeysKey ri u \<longleftrightarrow> t = u"
  "keyTagsKey ri k \<noteq> tagKeysKey ri t" "tagKeysKey ri t \<noteq> keyTagsKey ri k"
  "keyTagsKey ri k \<noteq> legacyKnownKeysKey ri" "legacyKnownKeysKey ri \<noteq> keyTagsKey ri k"
  "tagKeysKey ri k \<noteq> legacyKnownKeysKey ri" "legacyKnownKeysKey ri \<noteq> tagKeysKey ri k"
  "keyTagsKey ri k \<noteq> shard_key ri i" "shard_key ri i \<noteq> keyTagsKey ri k"
  "tagKeysKey ri k \<noteq> shard_key ri i" "shard_key ri i \<noteq> tagKeysKey ri k"
  "shard_key ri i \<noteq> legacyKnownKeysKey ri" "legacyKnownKeysKey ri \<noteq> shard_key ri i"
  "shard_key ri i = shard_key ri j \<longleftrightarrow> i = j"
  by (auto simp: keyTagsKey_def tagKeysKey_def legacyKnownKeysKey_def shard_key_def)

lemma known_names [simp]:
  "knownKeysKeyFor ri k \<noteq> keyTagsKey ri l" "knownKeysKeyFor ri k \<noteq> tagKeysKey ri t"
  "keyTagsKey ri l \<noteq> knownKeysKeyFor ri k" "tagKeysKey ri t \<noteq> knownKeysKeyFor ri k"
  by (simp_all add: knownKeysKeyFor_def)

lemma names_under_prefix:
  "starts_with (keyTagsKey ri k) (ri_prefix ri @ '':'')" "starts_with (tagKeysKey ri k) (ri_prefix ri @ '':'')"
  "starts_with (legacyKnownKeysKey ri) (ri_prefix ri @ '':'')" "starts_with (shard_key ri i) (ri_prefix ri @ '':'')"
  by (simp_all add: starts_with_def keyTagsKey_def tagKeysKey_def legacyKnownKeysKey_def shard_key_def)

end
