(* ===== verification/RedisTagRuns.thy ===== *)
theory RedisTagRuns
  imports RedisTagProps TagIndex
begin

text \<open>
  Runs of the tag index in Redis. On a server that behaves as documented every operation returns, keeps
  the two directions of the tag relation inverse to each other and every known key in its shard, and so
  the index instantiates \<open>tag_directory\<close>, the contract the invalidation code relies on; prefix and
  pattern queries end with exactly the known keys. Two trackings of one key that overlap do break the
  relation: the code reads the old tags before it queues its pipeline.
\<close>

subsection \<open>Pipelines on the members\<close>

lemma apply_removals:
  "fold apply_command (map (\<lambda>t. CmdSRem (f t) (g t)) ts) M = (\<lambda>k. M k - {g t |t. t \<in> set ts \<and> f t = k})"
proof (induction ts arbitrary: M)
  case (Cons t ts)
  then show ?case by (auto simp: fun_eq_iff)
qed simp

lemma apply_additions:
  "fold apply_command (map (\<lambda>t. CmdSAdd (f t) [g t]) ts) M = (\<lambda>k. M k \<union> {g t |t. t \<in> set ts \<and> f t = k})"
proof (induction ts arbitrary: M)
  case (Cons t ts)
  then show ?case by (auto simp: fun_eq_iff)
qed simp

definition known_members :: "redis_tag_index \<Rightarrow> (string \<Rightarrow> string set) \<Rightarrow> string set" where
  "known_members ri M = M (legacyKnownKeysKey ri) \<union> (if ri_shards ri = 1 then {} else (\<Union>i<ri_shards ri. M (shard_key ri i)))"

definition inverse_sets :: "redis_tag_index \<Rightarrow> (string \<Rightarrow> string set) \<Rightarrow> bool" where
  "inverse_sets ri M \<longleftrightarrow> (\<forall>k t. k \<in> M (tagKeysKey ri t) \<longleftrightarrow> t \<in> M (keyTagsKey ri k))"

definition sharded_sets :: "redis_tag_index \<Rightarrow> (string \<Rightarrow> string set) \<Rightarrow> bool" where
  "sharded_sets ri M \<longleftrightarrow> (ri_shards ri \<noteq> 1 \<longrightarrow> (\<forall>i < ri_shards ri. \<forall>k \<in> M (shard_key ri i). shard_of ri k = i))"

lemma track_members:
  fixes M ri key tags old
  assumes "inverse_sets ri M" "set old = M (keyTagsKey ri key)"
  defines "M' \<equiv> fold apply_command (track_commands ri key tags old) M"
  shows "M' (keyTagsKey ri k) = (if k = key then set tags else M (keyTagsKey ri k))"
    and "M' (tagKeysKey ri t) = (M (tagKeysKey ri t) - {key}) \<union> (if t \<in> set tags then {key} else {})"
    and "M' (legacyKnownKeysKey ri) = M (legacyKnownKeysKey ri) \<union> (if knownKeysKeyFor ri key = legacyKnownKeysKey ri then {key} else {})"
    and "M' (shard_key ri i) = M (shard_key ri i) \<union> (if knownKeysKeyFor ri key = shard_key ri i then {key} else {})"
proof -
  have M': "M' = (let M1 = M(knownKeysKeyFor ri key := M (knownKeysKeyFor ri key) \<union> {key});
      M2 = (\<lambda>k. M1 k - {key |t. t \<in> set old \<and> tagKeysKey ri t = k}); M3 = M2(keyTagsKey ri key := {}) in
      if tags = [] then M3
      else (\<lambda>k. (M3(keyTagsKey ri key := M3 (keyTagsKey ri key) \<union> set tags)) k \<union> {key |t. t \<in> set tags \<and> tagKeysKey ri t = k}))"
    unfolding M'_def track_commands_def by (simp add: apply_removals apply_additions Let_def)
  show "M' (keyTagsKey ri k) = (if k = key then set tags else M (keyTagsKey ri k))"
    "M' (legacyKnownKeysKey ri) = M (legacyKnownKeysKey ri) \<union> (if knownKeysKeyFor ri key = legacyKnownKeysKey ri then {key} else {})"
    "M' (shard_key ri i) = M (shard_key ri i) \<union> (if knownKeysKeyFor ri key = shard_key ri i then {key} else {})"
    unfolding M' by (auto simp: Let_def)
  have "key \<in> M (tagKeysKey ri t) \<longleftrightarrow> t \<in> set old" using assms(1,2) by (simp add: inverse_sets_def)
  then show "M' (tagKeysKey ri t) = (M (tagKeysKey ri t) - {key}) \<union> (if t \<in> set tags then {key} else {})"
    unfolding M' by (auto simp: Let_def)
qed

lemma remove_members:
  fixes M ri key old
  assumes "inverse_sets ri M" "set old = M (keyTagsKey ri key)"
  defines "M' \<equiv> fold apply_command (remove_commands ri key old) M"
  shows "M' (keyTagsKey ri k) = (if k = key then {} else M (keyTagsKey ri k))"
    and "M' (tagKeysKey ri t) = M (tagKeysKey ri t) - {key}"
    and "ri_shards ri > 0 \<Longrightarrow> M' (legacyKnownKeysKey ri) = M (legacyKnownKeysKey ri) - {key}"
    and "M' (shard_key ri i) = M (shard_key ri i) - (if knownKeysKeyFor ri key = shard_key ri i then {key} else {})"
proof -
  have M': "M' = (let M1 = M(knownKeysKeyFor ri key := M (knownKeysKeyFor ri key) - {key});
      M2 = (if ri_shards ri > 1 then M1(legacyKnownKeysKey ri := M1 (legacyKnownKeysKey ri) - {key}) else M1);
      M3 = M2(keyTagsKey ri key := {}) in (\<lambda>k. M3 k - {key |t. t \<in> set old \<and> tagKeysKey ri t = k}))"
    unfolding M'_def remove_commands_def by (cases "1 < ri_shards ri") (simp_all add: apply_removals Let_def fun_eq_iff)
  show "M' (keyTagsKey ri k) = (if k = key then {} else M (keyTagsKey ri k))"
    "M' (shard_key ri i) = M (shard_key ri i) - (if knownKeysKeyFor ri key = shard_key ri i then {key} else {})"
    unfolding M' by (auto simp: Let_def)
  show "M' (legacyKnownKeysKey ri) = M (legacyKnownKeysKey ri) - {key}" if "ri_shards ri > 0"
    using that unfolding M' by (auto simp: Let_def knownKeysKeyFor_def)
  have "key \<in> M (tagKeysKey ri t) \<longleftrightarrow> t \<in> set old" using assms(1,2) by (simp add: inverse_sets_def)
  then show "M' (tagKeysKey ri t) = M (tagKeysKey ri t) - {key}"
    unfolding M' by (auto simp: Let_def)
qed

lemma shard_of_less: "ri_shards ri > 0 \<Longrightarrow> shard_of ri k < ri_shards ri"
  by (simp add: shard_of_def)

lemma known_in_shard:
  "sharded_sets ri M \<Longrightarrow> ri_shards ri > 0 \<Longrightarrow>
   k \<in> known_members ri M \<longleftrightarrow> k \<in> M (legacyKnownKeysKey ri) \<or> k \<in> M (knownKeysKeyFor ri k)"
  using shard_of_less [of ri k] by (auto simp: known_members_def sharded_sets_def knownKeysKeyFor_def)

lemma track_keeps:
  fixes ri key tags old
  assumes "inverse_sets ri M" "sharded_sets ri M" "ri_shards ri > 0" "set old = M (keyTagsKey ri key)"
  defines "M' \<equiv> fold apply_command (track_commands ri key tags old) M"
  shows "inverse_sets ri M' \<and> sharded_sets ri M' \<and> known_members ri M' = insert key (known_members ri M)"
proof -
  note t = track_members [OF assms(1,4), of tags, folded M'_def]
  have "inverse_sets ri M'" using assms(1) by (auto simp: inverse_sets_def t(1,2))
  moreover have "sharded_sets ri M'" using assms(2) by (auto simp: sharded_sets_def t(4) knownKeysKeyFor_def split: if_splits)
  moreover have "known_members ri M' = insert key (known_members ri M)"
    using shard_of_less [OF assms(3), of key] by (auto simp: known_members_def t(3,4) knownKeysKeyFor_def split: if_splits)
  ultimately show ?thesis by simp
qed

lemma remove_keeps:
  fixes ri key old
  assumes "inverse_sets ri M" "sharded_sets ri M" "ri_shards ri > 0" "set old = M (keyTagsKey ri key)"
  defines "M' \<equiv> fold apply_command (remove_commands ri key old) M"
  shows "inverse_sets ri M' \<and> sharded_sets ri M' \<and> known_members ri M' = known_members ri M - {key}"
proof -
  note t = remove_members [OF assms(1,4), folded M'_def]
  have "inverse_sets ri M'" using assms(1) by (auto simp: inverse_sets_def t(1,2))
  moreover have sh: "sharded_sets ri M'" using assms(2) by (auto simp: sharded_sets_def t(4))
  moreover have "k \<in> known_members ri M' \<longleftrightarrow> k \<in> known_members ri M - {key}" for k
    using known_in_shard [OF sh assms(3), of k] known_in_shard [OF assms(2,3), of k]
    by (auto simp: t(3) [OF assms(3)] t(4) knownKeysKeyFor_def split: if_splits)
  ultimately show ?thesis by blast
qed

lemma touch_keeps:
  fixes ri key
  assumes "inverse_sets ri M" "sharded_sets ri M" "ri_shards ri > 0"
  defines "M' \<equiv> apply_command (CmdSAdd (knownKeysKeyFor ri key) [key]) M"
  shows "inverse_sets ri M' \<and> sharded_sets ri M' \<and> known_members ri M' = insert key (known_members ri M) \<and>
    (\<forall>k. M' (keyTagsKey ri k) = M (keyTagsKey ri k))"
proof -
  have "inverse_sets ri M'" "\<forall>k. M' (keyTagsKey ri k) = M (keyTagsKey ri k)"
    using assms(1) by (auto simp: inverse_sets_def M'_def)
  moreover have "sharded_sets ri M'" using assms(2) by (auto simp: sharded_sets_def M'_def knownKeysKeyFor_def)
  moreover have "known_members ri M' = insert key (known_members ri M)"
    using shard_of_less [OF assms(3), of key] by (auto simp: known_members_def M'_def knownKeysKeyFor_def)
  ultimately show ?thesis by blast
qed

subsection \<open>Operations on the server\<close>

definition rt_op :: "'c set_client \<Rightarrow> redis_tag_index \<Rightarrow> index_op \<Rightarrow> 'c \<Rightarrow> (unit result \<times> 'c) option" where
  "rt_op cl ri act = (case act of
      TouchKey key now \<Rightarrow> (\<lambda>c. Some (rt_touch cl ri key c))
    | TrackKey key tags now \<Rightarrow> (\<lambda>c. Some (rt_track cl ri key tags c))
    | RemoveKey key \<Rightarrow> (\<lambda>c. Some (rt_remove cl ri key c))
    | ClearIndex \<Rightarrow> rt_clear cl ri)"

definition rt_step :: "'c set_client \<Rightarrow> redis_tag_index \<Rightarrow> index_op \<Rightarrow> 'c \<Rightarrow> 'c" where
  "rt_step cl ri act c = (case rt_op cl ri act c of Some (_, c') \<Rightarrow> c' | None \<Rightarrow> c)"

fun redis_tag_spec :: "index_op \<Rightarrow> (string \<Rightarrow> string set) \<Rightarrow> string \<Rightarrow> string set" where
  "redis_tag_spec (TouchKey key now) R = R"
| "redis_tag_spec (TrackKey key tags now) R = R(key := set tags)"
| "redis_tag_spec (RemoveKey key) R = R(key := {})"
| "redis_tag_spec ClearIndex R = (\<lambda>_. {})"

fun known_spec :: "index_op \<Rightarrow> string set \<Rightarrow> string set" where
  "known_spec (TouchKey key now) K = insert key K"
| "known_spec (TrackKey key tags now) K = insert key K"
| "known_spec (RemoveKey key) K = K - {key}"
| "known_spec ClearIndex K = {}"

definition redis_index_ok :: "'c set_client \<Rightarrow> 'c set_view \<Rightarrow> redis_tag_index \<Rightarrow> 'c \<Rightarrow> bool" where
  "redis_index_ok cl sv ri c \<longleftrightarrow> set_server cl sv \<and> scannable ri \<and> plain (ri_prefix ri) \<and> sv_inv sv c \<and>
     inverse_sets ri (sv_members sv c) \<and> sharded_sets ri (sv_members sv c)"

lemma redis_index_unmoved: "redis_index_ok cl sv ri c \<Longrightarrow> unmoved sv c c' \<Longrightarrow> redis_index_ok cl sv ri c'"
  by (simp add: redis_index_ok_def unmoved_def)

lemma plain_colon: "plain p \<Longrightarrow> plain (p @ '':'')"
  by (simp add: plain_def)

text \<open>What one operation does: it returns, and the sets follow the abstract step.\<close>

definition rt_effect :: "'c set_client \<Rightarrow> 'c set_view \<Rightarrow> redis_tag_index \<Rightarrow> index_op \<Rightarrow> 'c \<Rightarrow> 'c \<Rightarrow> bool" where
  "rt_effect cl sv ri act c c' \<longleftrightarrow> rt_op cl ri act c = Some (Inr (), c') \<and> redis_index_ok cl sv ri c' \<and>
     known_members ri (sv_members sv c') = known_spec act (known_members ri (sv_members sv c)) \<and>
     (\<forall>k. sv_members sv c' (keyTagsKey ri k) = redis_tag_spec act (\<lambda>k. sv_members sv c (keyTagsKey ri k)) k)"

lemma rt_track_effect:
  assumes "redis_index_ok cl sv ri c"
  shows "\<exists>c'. rt_effect cl sv ri (TrackKey key tags now) c c'"
proof -
  have ok: "set_server cl sv" "sv_inv sv c" "inverse_sets ri (sv_members sv c)" "sharded_sets ri (sv_members sv c)" "ri_shards ri > 0"
    using assms by (simp_all add: redis_index_ok_def scannable_def)
  obtain old c1 where r: "sc_smembers cl (keyTagsKey ri key) c = (Inr old, c1)" "set old = sv_members sv c (keyTagsKey ri key)" "unmoved sv c c1"
    using serves_smembers [OF ok(1,2)] by blast
  then have inv: "sv_inv sv c1" and M: "sv_members sv c1 = sv_members sv c" by (simp_all add: unmoved_def)
  obtain c2 where w: "sc_exec cl (track_commands ri key tags old) c1 = (Inr (), c2)" "sv_inv sv c2"
    "sv_members sv c2 = fold apply_command (track_commands ri key tags old) (sv_members sv c)"
    using serves_exec [OF ok(1) inv, of "track_commands ri key tags old"] M by auto
  have "rt_op cl ri (TrackKey key tags now) c = Some (Inr (), c2)"
    using r(1) w(1) by (simp add: rt_op_def rt_track_def andthen_def)
  then show ?thesis
    using assms w(2) track_keeps [OF ok(3,4,5) r(2), of tags] track_members(1) [OF ok(3) r(2), of tags]
    by (auto simp: rt_effect_def redis_index_ok_def w(3) intro!: exI [of _ c2])
qed

lemma rt_remove_effect:
  assumes "redis_index_ok cl sv ri c"
  shows "\<exists>c'. rt_effect cl sv ri (RemoveKey key) c c'"
proof -
  have ok: "set_server cl sv" "sv_inv sv c" "inverse_sets ri (sv_members sv c)" "sharded_sets ri (sv_members sv c)" "ri_shards ri > 0"
    using assms by (simp_all add: redis_index_ok_def scannable_def)
  obtain old c1 where r: "sc_smembers cl (keyTagsKey ri key) c = (Inr old, c1)" "set old = sv_members sv c (keyTagsKey ri key)" "unmoved sv c c1"
    using serves_smembers [OF ok(1,2)] by blast
  then have inv: "sv_inv sv c1" and M: "sv_members sv c1 = sv_members sv c" by (simp_all add: unmoved_def)
  obtain c2 where w: "sc_exec cl (remove_commands ri key old) c1 = (Inr (), c2)" "sv_inv sv c2"
    "sv_members sv c2 = fold apply_command (remove_commands ri key old) (sv_members sv c)"
    using serves_exec [OF ok(1) inv, of "remove_commands ri key old"] M by auto
  have "rt_op cl ri (RemoveKey key) c = Some (Inr (), c2)"
    using r(1) w(1) by (simp add: rt_op_def rt_remove_def andthen_def)
  then show ?thesis
    using assms w(2) remove_keeps [OF ok(3,4,5) r(2)] remove_members(1) [OF ok(3) r(2)]
    by (auto simp: rt_effect_def redis_index_ok_def w(3) intro!: exI [of _ c2])
qed

lemma rt_touch_effect:
  assumes "redis_index_ok cl sv ri c"
  shows "\<exists>c'. rt_effect cl sv ri (TouchKey key now) c c'"
proof -
  have ok: "set_server cl sv" "sv_inv sv c" "inverse_sets ri (sv_members sv c)" "sharded_sets ri (sv_members sv c)" "ri_shards ri > 0"
    using assms by (simp_all add: redis_index_ok_def scannable_def)
  obtain c1 where w: "sc_sadd cl (knownKeysKeyFor ri key) [key] c = (Inr (), c1)" "sv_inv sv c1"
    "sv_members sv c1 = apply_command (CmdSAdd (knownKeysKeyFor ri key) [key]) (sv_members sv c)"
    using serves_sadd [OF ok(1,2)] by blast
  then show ?thesis
    using assms touch_keeps [OF ok(3,4,5), of key]
    by (auto simp: rt_effect_def redis_index_ok_def rt_op_def rt_touch_def simp del: apply_command.simps intro!: exI [of _ c1])
qed

lemma known_empty: "(\<And>k. starts_with k (ri_prefix ri @ '':'') \<Longrightarrow> M k = {}) \<Longrightarrow>
    known_members ri M = {} \<and> inverse_sets ri M \<and> sharded_sets ri M \<and> M (keyTagsKey ri k) = {}"
  by (simp add: known_members_def inverse_sets_def sharded_sets_def names_under_prefix)

lemma rt_clear_effect:
  assumes "redis_index_ok cl sv ri c"
  shows "\<exists>c'. rt_effect cl sv ri ClearIndex c c'"
proof -
  let ?p = "ri_prefix ri @ '':''"
  have ok: "set_server cl sv" "scannable ri" "plain ?p" "sv_inv sv c"
    using assms by (simp_all add: redis_index_ok_def plain_colon)
  obtain ks c1 where r: "scanIndexKeys cl ri c = Some (Inr ks, c1)" "unmoved sv c c1"
    "{k. sv_members sv c k \<noteq> {} \<and> starts_with k ?p} \<subseteq> set ks"
    using keys_collect [OF ok] by (auto simp: scanIndexKeys_def)
  have inv: "sv_inv sv c1" and M: "sv_members sv c1 = sv_members sv c" using r(2) by (simp_all add: unmoved_def)
  have "\<exists>c'. rt_clear cl ri c = Some (Inr (), c') \<and> sv_inv sv c' \<and> sv_members sv c' = (\<lambda>k. if k \<in> set ks then {} else sv_members sv c k)"
  proof (cases "ks = []")
    case True
    then show ?thesis using r inv M by (auto simp: rt_clear_def)
  next
    case False
    obtain n c2 where "sc_del cl ks c1 = (Inr n, c2)" "sv_inv sv c2" "sv_members sv c2 = (\<lambda>k. if k \<in> set ks then {} else sv_members sv c k)"
      using serves_sdel [OF ok(1) inv, of ks] unfolding M by (elim exE conjE) (rule that)
    then show ?thesis using r(1) False by (simp add: rt_clear_def andthen_def ret_def)
  qed
  then obtain c' where c': "rt_clear cl ri c = Some (Inr (), c')" "sv_inv sv c'"
    "sv_members sv c' = (\<lambda>k. if k \<in> set ks then {} else sv_members sv c k)" by blast
  have "sv_members sv c' k = {}" if "starts_with k ?p" for k using r(3) that by (auto simp: c'(3))
  note e = known_empty [of ri "sv_members sv c'", OF this]
  show ?thesis using assms c'(1,2) e by (auto simp: rt_effect_def redis_index_ok_def rt_op_def intro!: exI [of _ c'])
qed

lemma rt_op_effect:
  assumes "redis_index_ok cl sv ri c"
  shows "rt_effect cl sv ri act c (rt_step cl ri act c)"
proof -
  have "\<exists>c'. rt_effect cl sv ri act c c'"
    by (cases act) (simp_all add: assms rt_track_effect rt_remove_effect rt_touch_effect rt_clear_effect)
  then obtain c' where c': "rt_effect cl sv ri act c c'" ..
  moreover have "c' = rt_step cl ri act c" using c' by (simp add: rt_effect_def rt_step_def)
  ultimately show ?thesis by simp
qed

definition answered :: "'a list result \<times> 'c \<Rightarrow> 'a list" where
  "answered r = (case fst r of Inr xs \<Rightarrow> xs | Inl _ \<Rightarrow> [])"

lemma rt_sets_answered:
  assumes "redis_index_ok cl sv ri c"
  shows "\<exists>ks c'. rt_keysForTag cl ri tag c = (Inr ks, c') \<and> set ks = sv_members sv c (tagKeysKey ri tag) \<and> distinct ks \<and> unmoved sv c c'"
    and "\<exists>ts c'. rt_tagsForKey cl ri key c = (Inr ts, c') \<and> set ts = sv_members sv c (keyTagsKey ri key) \<and> distinct ts \<and> unmoved sv c c'"
proof -
  have "set_server cl sv" "sv_inv sv c" using assms by (simp_all add: redis_index_ok_def)
  note r = serves_smembers [OF this]
  show "\<exists>ks c'. rt_keysForTag cl ri tag c = (Inr ks, c') \<and> set ks = sv_members sv c (tagKeysKey ri tag) \<and> distinct ks \<and> unmoved sv c c'"
    "\<exists>ts c'. rt_tagsForKey cl ri key c = (Inr ts, c') \<and> set ts = sv_members sv c (keyTagsKey ri key) \<and> distinct ts \<and> unmoved sv c c'"
    unfolding rt_keysForTag_def rt_tagsForKey_def by (rule r)+
qed

lemma answered_sets:
  assumes "redis_index_ok cl sv ri c"
  shows "set (answered (rt_keysForTag cl ri tag c)) = sv_members sv c (tagKeysKey ri tag)" "distinct (answered (rt_keysForTag cl ri tag c))"
    and "set (answered (rt_tagsForKey cl ri key c)) = sv_members sv c (keyTagsKey ri key)"
  using rt_sets_answered(1) [OF assms, of tag] rt_sets_answered(2) [OF assms, of key] by (auto simp: answered_def)

interpretation rti: tag_directory "rt_step cl ri" "redis_index_ok cl sv ri" "\<lambda>key c. answered (rt_tagsForKey cl ri key c)"
    "\<lambda>tag c. answered (rt_keysForTag cl ri tag c)" redis_tag_spec
proof
  fix c act key tag
  assume ok: "redis_index_ok cl sv ri c"
  have e: "rt_effect cl sv ri act c (rt_step cl ri act c)" using ok by (rule rt_op_effect)
  then show ok': "redis_index_ok cl sv ri (rt_step cl ri act c)" by (simp add: rt_effect_def)
  show "set (answered (rt_tagsForKey cl ri key (rt_step cl ri act c))) = redis_tag_spec act (\<lambda>k. set (answered (rt_tagsForKey cl ri k c))) key"
    using e by (simp add: answered_sets(3) [OF ok] answered_sets(3) [OF ok'] rt_effect_def)
  show "key \<in> set (answered (rt_keysForTag cl ri tag c)) \<longleftrightarrow> tag \<in> set (answered (rt_tagsForKey cl ri key c))"
    "distinct (answered (rt_keysForTag cl ri tag c))"
    using ok by (simp_all add: answered_sets [OF ok] redis_index_ok_def inverse_sets_def)
qed

lemma known_run:
  "redis_index_ok cl sv ri c \<Longrightarrow>
   known_members ri (sv_members sv (fold (rt_step cl ri) ops c)) = fold known_spec ops (known_members ri (sv_members sv c))"
proof (induction ops arbitrary: c)
  case (Cons act ops)
  have "rt_effect cl sv ri act c (rt_step cl ri act c)" using Cons(2) by (rule rt_op_effect)
  then show ?case using Cons(1) by (simp add: rt_effect_def)
qed simp

subsection \<open>Queries over the known keys\<close>

lemma scan_sets_collects:
  assumes "set_server cl sv" "scannable ri" "simple_pattern pattern"
  shows "sv_inv sv c \<Longrightarrow> \<exists>ks c'. scan_sets cl ri pattern sets c = Some (Inr ks, c') \<and> unmoved sv c c' \<and>
    set ks = {m. fits_pattern pattern m \<and> (\<exists>s \<in> set sets. m \<in> sv_members sv c s)}"
proof (induction sets arbitrary: c)
  case Nil
  then show ?case by (simp add: unmoved_def)
next
  case (Cons s sets)
  obtain found c1 where f: "scan_loop (\<lambda>cursor. sc_sscan cl s cursor pattern (ri_scanCount ri)) (\<lambda>_. ret ()) ''0'' c = Some (Inr found, c1)"
    "unmoved sv c c1" "set found = {m \<in> sv_members sv c s. fits_pattern pattern m}"
    using sscan_collects [OF assms Cons(2), of s] by blast
  then have inv: "sv_inv sv c1" and M: "sv_members sv c1 = sv_members sv c" by (simp_all add: unmoved_def)
  obtain more c2 where "scan_sets cl ri pattern sets c1 = Some (Inr more, c2)" "unmoved sv c1 c2"
    "set more = {m. fits_pattern pattern m \<and> (\<exists>s \<in> set sets. m \<in> sv_members sv c s)}"
    using Cons(1) [OF inv] unfolding M by blast
  then show ?case using f M by (intro exI [of _ "found @ more"] exI [of _ c2]) (auto simp: unmoved_def)
qed

lemma knownKeysKeysForRead_returns:
  assumes "redis_index_ok cl sv ri c"
  shows "\<exists>sets c'. knownKeysKeysForRead cl ri c = (Inr sets, c') \<and> unmoved sv c c' \<and>
    (\<Union>s \<in> set sets. sv_members sv c s) = known_members ri (sv_members sv c)"
proof (cases "ri_shards ri = 1")
  case True
  then show ?thesis using assms by (simp add: knownKeysKeysForRead_def ret_def known_members_def unmoved_def redis_index_ok_def)
next
  case False
  have "set_server cl sv" "sv_inv sv c" using assms by (simp_all add: redis_index_ok_def)
  from serves_sexists [OF this, of "legacyKnownKeysKey ri"] obtain n c1 where
    n: "sc_exists cl (legacyKnownKeysKey ri) c = (Inr n, c1)" "0 < n \<longleftrightarrow> sv_members sv c (legacyKnownKeysKey ri) \<noteq> {}" "unmoved sv c c1"
    by blast
  have sh: "(\<Union>s \<in> set (knownKeysKeys ri). sv_members sv c s) = (\<Union>i<ri_shards ri. sv_members sv c (shard_key ri i))"
    using False by (auto simp: knownKeysKeys_def)
  show ?thesis
    using n False sh
    by (intro exI [of _ "if n > 0 then legacyKnownKeysKey ri # knownKeysKeys ri else knownKeysKeys ri"] exI [of _ c1])
      (auto simp: knownKeysKeysForRead_def andthen_def ret_def known_members_def)
qed

lemma known_matching_returns:
  assumes "redis_index_ok cl sv ri c" "simple_pattern pattern" "\<And>k. wanted k \<Longrightarrow> fits_pattern pattern k"
  shows "\<exists>ks c'. known_matching cl ri pattern wanted c = Some (Inr ks, c') \<and> unmoved sv c c' \<and> distinct ks \<and>
    set ks = {k \<in> known_members ri (sv_members sv c). wanted k}"
proof -
  obtain sets c1 where s: "knownKeysKeysForRead cl ri c = (Inr sets, c1)" "unmoved sv c c1"
    "(\<Union>s \<in> set sets. sv_members sv c s) = known_members ri (sv_members sv c)"
    using knownKeysKeysForRead_returns [OF assms(1)] by blast
  have sv: "set_server cl sv" "scannable ri" "sv_inv sv c1" "sv_members sv c1 = sv_members sv c"
    using assms(1) s(2) by (simp_all add: redis_index_ok_def unmoved_def)
  obtain ks c2 where k: "scan_sets cl ri pattern sets c1 = Some (Inr ks, c2)" "unmoved sv c1 c2"
    "set ks = {m. fits_pattern pattern m \<and> (\<exists>s \<in> set sets. m \<in> sv_members sv c s)}"
    using scan_sets_collects [OF sv(1,2) assms(2) sv(3), of sets] unfolding sv(4) by blast
  then show ?thesis using s assms(3)
    by (intro exI [of _ "js_unique (filter wanted ks)"] exI [of _ c2]) (auto simp: known_matching_def unmoved_def)
qed

lemma rt_queries_return:
  assumes "redis_index_ok cl sv ri c"
  shows "\<exists>ks c'. rt_keysForPrefix cl ri pre c = Some (Inr ks, c') \<and> unmoved sv c c' \<and> distinct ks \<and>
      set ks = {k \<in> known_members ri (sv_members sv c). starts_with k pre}"
    and "no_classes pattern \<Longrightarrow> \<exists>ks c'. rt_matchPattern cl ri pattern c = Some (Inr ks, c') \<and> unmoved sv c c' \<and> distinct ks \<and>
      set ks = {k \<in> known_members ri (sv_members sv c). glob pattern k}"
  using known_matching_returns [OF assms, of None "\<lambda>key. starts_with key pre"]
    known_matching_returns [OF assms, of "Some pattern" "matches pattern"]
  by (simp_all add: simple_pattern_def fits_pattern_def rt_keysForPrefix_def rt_matchPattern_def matches_glob)

end
