(* ===== verification/RedisTagQueries.thy ===== *)
theory RedisTagQueries
  imports RedisTagRuns
begin

text \<open>
  What the tag index in Redis promises, on a server with the documented behaviour: runs refine the
  abstract index, queries over the known keys end and are exact, and the migration of the legacy set
  loses no key. The server of the witnesses keeps lists and hands out one member per \<open>SSCAN\<close> page.
\<close>

subsection \<open>Migration\<close>

lemma migrate_members:
  fixes ri ks M
  assumes "set ks \<subseteq> M (legacyKnownKeysKey ri)" "ri_shards ri > 0" "ri_shards ri \<noteq> 1" "inverse_sets ri M" "sharded_sets ri M"
  defines "M' \<equiv> fold apply_command (map (\<lambda>key. CmdSAdd (knownKeysKeyFor ri key) [key]) ks) M"
  shows "M' (legacyKnownKeysKey ri) = M (legacyKnownKeysKey ri)" "M' (keyTagsKey ri k) = M (keyTagsKey ri k)"
    and "inverse_sets ri M'" "sharded_sets ri M'" "known_members ri M' = known_members ri M"
    and "(\<Union>i<ri_shards ri. M (shard_key ri i)) \<union> set ks \<subseteq> (\<Union>i<ri_shards ri. M' (shard_key ri i))"
proof -
  have M': "M' = (\<lambda>k. M k \<union> {key |key. key \<in> set ks \<and> knownKeysKeyFor ri key = k})"
    unfolding M'_def by (rule apply_additions)
  have ne: "knownKeysKeyFor ri k \<noteq> legacyKnownKeysKey ri" for k using assms(3) by (simp add: knownKeysKeyFor_def)
  show leg: "M' (legacyKnownKeysKey ri) = M (legacyKnownKeysKey ri)" and "M' (keyTagsKey ri k) = M (keyTagsKey ri k)"
    by (auto simp: M' ne)
  show "inverse_sets ri M'" using assms(4) by (simp add: inverse_sets_def M')
  show "sharded_sets ri M'" using assms(3,5) by (auto simp: sharded_sets_def M' knownKeysKeyFor_def)
  show "(\<Union>i<ri_shards ri. M (shard_key ri i)) \<union> set ks \<subseteq> (\<Union>i<ri_shards ri. M' (shard_key ri i))"
    using shard_of_less [OF assms(2)] assms(3) by (auto simp: M' knownKeysKeyFor_def)
  show "known_members ri M' = known_members ri M"
    using assms(1) by (auto simp: known_members_def leg) (auto simp: M' known_members_def)
qed

lemma migrate_run:
  assumes "redis_index_ok cl sv ri c" "ri_shards ri \<noteq> 1"
  shows "\<exists>ks c'. scan_loop (\<lambda>cursor. sc_sscan cl (legacyKnownKeysKey ri) cursor None (ri_scanCount ri)) (migrate_page cl ri) ''0'' c = Some (Inr ks, c') \<and>
    redis_index_ok cl sv ri c' \<and> set ks = sv_members sv c (legacyKnownKeysKey ri) \<and>
    sv_members sv c' (legacyKnownKeysKey ri) = sv_members sv c (legacyKnownKeysKey ri) \<and>
    (\<forall>k. sv_members sv c' (keyTagsKey ri k) = sv_members sv c (keyTagsKey ri k)) \<and>
    known_members ri (sv_members sv c') = known_members ri (sv_members sv c) \<and>
    set ks \<subseteq> (\<Union>i<ri_shards ri. sv_members sv c' (shard_key ri i))"
proof -
  let ?l = "legacyKnownKeysKey ri" and ?M = "sv_members sv"
  have law: "set_server cl sv" "sets_scan cl sv" and cfg: "1 \<le> ri_scanCount ri" "math_ceil (ri_scanCount ri) = ri_scanCount ri"
    and sh: "ri_shards ri > 0"
    using assms(1) by (simp_all add: redis_index_ok_def set_server_def scannable_def)
  have simple: "simple_pattern None" "fits_pattern None m" for m by (simp_all add: simple_pattern_def fits_pattern_def)
  note l = law(2) [unfolded sets_scan_def, rule_format, OF _ simple(1) cfg, of _ ?l]
  let ?good = "\<lambda>u. redis_index_ok cl sv ri u \<and> ?M u ?l = ?M c ?l \<and> (\<forall>k. ?M u (keyTagsKey ri k) = ?M c (keyTagsKey ri k)) \<and>
    known_members ri (?M u) = known_members ri (?M c)"
  let ?seen = "\<lambda>u. \<Union>i<ri_shards ri. ?M u (shard_key ri i)"
  have page: "\<exists>cur' ks c1 c2. sc_sscan cl ?l cur None (ri_scanCount ri) u = (Inr (cur', ks), c1) \<and> migrate_page cl ri ks c1 = (Inr (), c2) \<and>
      ?good c2 \<and> set ks \<subseteq> ?M c ?l \<and> ?seen u \<union> set ks \<subseteq> ?seen c2 \<and>
      sv_pending sv u ?l None cur \<subseteq> set ks \<union> (if cur' = ''0'' then {} else sv_pending sv c2 ?l None cur') \<and>
      (cur' \<noteq> ''0'' \<longrightarrow> sv_work sv c2 ?l None cur' < sv_work sv u ?l None cur)"
    if good: "?good u" for u cur
  proof -
    have inv: "sv_inv sv u" using good by (simp add: redis_index_ok_def)
    obtain cur' ks c1 where s: "sc_sscan cl ?l cur None (ri_scanCount ri) u = (Inr (cur', ks), c1)" "unmoved sv u c1"
      "set ks \<subseteq> ?M u ?l" "sv_pending sv u ?l None cur \<subseteq> set ks \<union> (if cur' = ''0'' then {} else sv_pending sv c1 ?l None cur')"
      "cur' \<noteq> ''0'' \<longrightarrow> sv_work sv c1 ?l None cur' < sv_work sv u ?l None cur"
      using conjunct2 [OF l [OF inv], THEN spec, of cur] by (elim exE conjE) (rule that, auto)
    have ok1: "redis_index_ok cl sv ri c1" using good redis_index_unmoved [OF _ s(2)] by blast
    have inv1: "sv_inv sv c1" and M1: "?M c1 = ?M u" using s(2) by (simp_all add: unmoved_def)
    let ?cmds = "map (\<lambda>key. CmdSAdd (knownKeysKeyFor ri key) [key]) ks"
    have other: "?l \<notin> command_key ` set ?cmds" using assms(2) by (auto simp: knownKeysKeyFor_def)
    have "\<exists>c2. migrate_page cl ri ks c1 = (Inr (), c2) \<and> sv_inv sv c2 \<and> ?M c2 = fold apply_command ?cmds (?M u) \<and>
        (\<forall>cur. sv_pending sv c1 ?l None cur \<subseteq> sv_pending sv c2 ?l None cur \<and> sv_work sv c2 ?l None cur \<le> sv_work sv c1 ?l None cur)"
    proof (cases "ks = []")
      case True
      then show ?thesis using inv1 M1 by (simp add: migrate_page_def ret_def)
    next
      case False
      then show ?thesis using serves_exec [OF law(1) inv1, of ?cmds] other unfolding M1 by (auto simp: migrate_page_def)
    qed
    then obtain c2 where w: "migrate_page cl ri ks c1 = (Inr (), c2)" "sv_inv sv c2" "?M c2 = fold apply_command ?cmds (?M u)"
      "\<And>cur. sv_pending sv c1 ?l None cur \<subseteq> sv_pending sv c2 ?l None cur" "\<And>cur. sv_work sv c2 ?l None cur \<le> sv_work sv c1 ?l None cur"
      by blast
    have wf: "inverse_sets ri (?M u)" "sharded_sets ri (?M u)" using good by (simp_all add: redis_index_ok_def)
    note m = migrate_members [OF s(3) sh assms(2) wf, folded w(3)]
    have "?good c2" using ok1 w(2) good m(1-5) by (simp add: redis_index_ok_def)
    moreover have "sv_work sv c2 ?l None cur' < sv_work sv u ?l None cur" if "cur' \<noteq> ''0''"
      using s(5) w(5) [of cur'] that by (simp add: le_less_trans)
    moreover have "sv_pending sv u ?l None cur \<subseteq> set ks \<union> (if cur' = ''0'' then {} else sv_pending sv c2 ?l None cur')"
      using s(4) w(4) [of cur'] by (auto split: if_splits)
    moreover have "set ks \<subseteq> ?M c ?l" using s(3) good by simp
    ultimately show ?thesis using s(1) w(1) m(6) by blast
  qed
  have start: "?good c" using assms(1) by simp
  have "\<exists>ks c'. scan_loop (\<lambda>cursor. sc_sscan cl ?l cursor None (ri_scanCount ri)) (migrate_page cl ri) ''0'' c = Some (Inr ks, c') \<and>
      ?good c' \<and> set ks \<subseteq> ?M c ?l \<and> sv_pending sv c ?l None ''0'' \<subseteq> set ks \<and> ?seen c \<union> set ks \<subseteq> ?seen c'"
    by (rule scan_loop_visits [where pend = "\<lambda>u. sv_pending sv u ?l None" and work = "\<lambda>u. sv_work sv u ?l None"], rule page, assumption, rule start)
  then obtain ks c' where r: "scan_loop (\<lambda>cursor. sc_sscan cl ?l cursor None (ri_scanCount ri)) (migrate_page cl ri) ''0'' c = Some (Inr ks, c')"
    "?good c'" "set ks \<subseteq> ?M c ?l" "sv_pending sv c ?l None ''0'' \<subseteq> set ks" "?seen c \<union> set ks \<subseteq> ?seen c'"
    by (elim exE conjE) (rule that, simp_all)
  have "?M c ?l \<subseteq> sv_pending sv c ?l None ''0''"
    using conjunct1 [OF l, of c] assms(1) simple(2) by (auto simp: redis_index_ok_def)
  then have "set ks = ?M c ?l" "set ks \<subseteq> ?seen c'" using r(3-5) by auto
  then show ?thesis using r(1,2) by auto
qed

subsection \<open>A small server\<close>

text \<open>Lists of members by name; \<open>SSCAN\<close> hands out one position per page and its cursor is the position in unary.\<close>

definition listed_members :: "(string, string list) jsmap \<Rightarrow> string \<Rightarrow> string list" where
  "listed_members c k = nullish (map_of c k) []"

fun listing_command :: "set_command \<Rightarrow> (string, string list) jsmap \<Rightarrow> (string, string list) jsmap" where
  "listing_command (CmdSAdd k ms) c = AList.update k (fold js_add ms (listed_members c k)) c"
| "listing_command (CmdSRem k m) c = AList.update k (js_remove m (listed_members c k)) c"
| "listing_command (CmdDel k) c = AList.update k [] c"

definition cursor_at :: "string \<Rightarrow> nat" where
  "cursor_at cur = (if cur = ''0'' then 0 else length cur)"

definition listing_sscan :: "string \<Rightarrow> string \<Rightarrow> string option \<Rightarrow> real \<Rightarrow> ((string, string list) jsmap, string \<times> string list) action" where
  "listing_sscan k cur pattern n c =
    (let ms = listed_members c k; i = cursor_at cur in
     (Inr (if Suc i < length ms then replicate (Suc i) CHR ''1'' else ''0'', filter (fits_pattern pattern) (take 1 (drop i ms))), c))"

definition listing_client :: "(string, string list) jsmap set_client" where
  "listing_client = \<lparr>
     sc_sadd = (\<lambda>k ms c. (Inr (), listing_command (CmdSAdd k ms) c)),
     sc_smembers = (\<lambda>k c. (Inr (listed_members c k), c)),
     sc_sscan = listing_sscan,
     sc_scan = (\<lambda>cur pattern n c. (Inr (''0'', if cur = ''0'' then map fst (filter (\<lambda>(k, ms). ms \<noteq> [] \<and> starts_with k (butlast pattern)) c) else []), c)),
     sc_exists = (\<lambda>k c. (Inr (if listed_members c k = [] then 0 else 1), c)),
     sc_del = (\<lambda>ks c. (Inr (length ks), fold listing_command (map CmdDel ks) c)),
     sc_exec = (\<lambda>cmds c. (Inr (), fold listing_command cmds c))\<rparr>"

definition listing_view :: "(string, string list) jsmap set_view" where
  "listing_view = \<lparr>
     sv_inv = (\<lambda>c. \<forall>k. distinct (listed_members c k)),
     sv_members = (\<lambda>c k. set (listed_members c k)),
     sv_pending = (\<lambda>c k pattern cur. {m \<in> set (drop (cursor_at cur) (listed_members c k)). fits_pattern pattern m}),
     sv_work = (\<lambda>c k pattern cur. length (listed_members c k) - cursor_at cur),
     sv_keys_pending = (\<lambda>c p cur. if cur = ''0'' then {k. listed_members c k \<noteq> [] \<and> starts_with k p} else {}),
     sv_keys_work = (\<lambda>c p cur. 0)\<rparr>"

lemma listed_members_update: "listed_members (AList.update k ms c) k' = (if k' = k then ms else listed_members c k')"
  by (simp add: listed_members_def map_of_update)

lemma set_fold_js_add: "set (fold js_add ms xs) = set xs \<union> set ms"
  by (induction ms arbitrary: xs) (auto simp: js_add_def)

lemma distinct_fold_js_add: "distinct xs \<Longrightarrow> distinct (fold js_add ms xs)"
  by (induction ms arbitrary: xs) (simp_all add: distinct_js_add)

lemma listing_command_sets: "set (listed_members (listing_command cmd c) k) = apply_command cmd (\<lambda>k. set (listed_members c k)) k"
  by (cases cmd) (simp_all add: listed_members_update set_fold_js_add)

lemma listing_command_distinct: "\<forall>k. distinct (listed_members c k) \<Longrightarrow> \<forall>k. distinct (listed_members (listing_command cmd c) k)"
  by (cases cmd) (simp_all add: listed_members_update distinct_fold_js_add distinct_js_remove)

lemma listing_commands_sets:
  "(\<lambda>k. set (listed_members (fold listing_command cmds c) k)) = fold apply_command cmds (\<lambda>k. set (listed_members c k))"
proof (induction cmds arbitrary: c)
  case (Cons cmd cmds)
  have "(\<lambda>k. set (listed_members (listing_command cmd c) k)) = apply_command cmd (\<lambda>k. set (listed_members c k))"
    by (simp add: fun_eq_iff listing_command_sets)
  then show ?case using Cons by simp
qed simp

lemma listing_commands_distinct:
  "\<forall>k. distinct (listed_members c k) \<Longrightarrow> \<forall>k. distinct (listed_members (fold listing_command cmds c) k)"
proof (induction cmds arbitrary: c)
  case (Cons cmd cmds)
  show ?case using Cons(1) [OF listing_command_distinct [OF Cons(2)]] by simp
qed simp

lemma listing_commands_other:
  "k \<notin> command_key ` set cmds \<Longrightarrow> listed_members (fold listing_command cmds c) k = listed_members c k"
proof (induction cmds arbitrary: c)
  case (Cons cmd cmds)
  then show ?case by (cases cmd) (simp_all add: listed_members_update)
qed simp

lemma apply_deletions: "fold apply_command (map CmdDel ks) M = (\<lambda>k. if k \<in> set ks then {} else M k)"
  by (induction ks arbitrary: M) (auto simp: fun_eq_iff)

lemma listing_reads_writes: "sets_read listing_client listing_view" "sets_write listing_client listing_view"
proof -
  show "sets_read listing_client listing_view" by (simp add: sets_read_def listing_client_def listing_view_def unmoved_def)
  have del: "(\<lambda>k. set (listed_members (fold listing_command (map CmdDel ks) c) k)) = (\<lambda>k. if k \<in> set ks then {} else set (listed_members c k))" for ks c
    by (simp add: listing_commands_sets apply_deletions)
  show "sets_write listing_client listing_view"
    unfolding sets_write_def
  proof (intro allI impI conjI)
    fix c
    assume inv: "sv_inv listing_view c"
    show "\<exists>c'. sc_exec listing_client cmds c = (Inr (), c') \<and> sv_inv listing_view c' \<and> sv_members listing_view c' = fold apply_command cmds (sv_members listing_view c) \<and>
        (\<forall>k pattern cur. k \<notin> command_key ` set cmds \<longrightarrow> sv_pending listing_view c k pattern cur \<subseteq> sv_pending listing_view c' k pattern cur \<and>
           sv_work listing_view c' k pattern cur \<le> sv_work listing_view c k pattern cur)" for cmds
      using inv listing_commands_distinct [of c cmds] by (simp add: listing_client_def listing_view_def listing_commands_sets listing_commands_other)
    show "\<exists>c'. sc_sadd listing_client k ms c = (Inr (), c') \<and> sv_inv listing_view c' \<and> sv_members listing_view c' = apply_command (CmdSAdd k ms) (sv_members listing_view c)" for k ms
      using inv listing_command_distinct [of c "CmdSAdd k ms"] listing_command_sets [of "CmdSAdd k ms" c] by (simp add: listing_client_def listing_view_def fun_eq_iff)
    show "\<exists>n c'. sc_del listing_client ks c = (Inr n, c') \<and> sv_inv listing_view c' \<and> sv_members listing_view c' = (\<lambda>k. if k \<in> set ks then {} else sv_members listing_view c k)" for ks
      using inv listing_commands_distinct [of c "map CmdDel ks"] del [of ks c] by (simp add: listing_client_def listing_view_def fun_eq_iff)
  qed
qed

lemma listing_server: "set_server listing_client listing_view"
proof -
  have drop_step: "set (drop i ms) = set (take 1 (drop i ms)) \<union> set (drop (Suc i) ms)" for i and ms :: "string list"
    by (cases "drop i ms") (simp_all add: drop_Suc, metis drop_Suc list.sel(3) tl_drop)
  have take_sub: "set (take 1 (drop i ms)) \<subseteq> set ms" for i and ms :: "string list"
    by (meson order_trans set_drop_subset set_take_subset)
  have next_cursor: "cursor_at (replicate (Suc i) CHR ''1'') = Suc i" for i by (cases i) (simp_all add: cursor_at_def)
  have "sets_scan listing_client listing_view"
    unfolding sets_scan_def
  proof (intro allI impI conjI)
    fix c k pattern n cur
    show "{m \<in> sv_members listing_view c k. fits_pattern pattern m} \<subseteq> sv_pending listing_view c k pattern ''0''"
      by (simp add: listing_view_def cursor_at_def)
    assume inv: "sv_inv listing_view c"
    let ?ms = "listed_members c k" and ?i = "cursor_at cur"
    show "\<exists>cur' ks c'. sc_sscan listing_client k cur pattern n c = (Inr (cur', ks), c') \<and> unmoved listing_view c c' \<and>
        set ks \<subseteq> {m \<in> sv_members listing_view c k. fits_pattern pattern m} \<and>
        sv_pending listing_view c k pattern cur \<subseteq> set ks \<union> (if cur' = ''0'' then {} else sv_pending listing_view c' k pattern cur') \<and>
        (cur' \<noteq> ''0'' \<longrightarrow> sv_work listing_view c' k pattern cur' < sv_work listing_view c k pattern cur)"
    proof (cases "Suc ?i < length ?ms")
      case True
      then show ?thesis using inv drop_step [of ?i ?ms] take_sub [of ?i ?ms] next_cursor [of ?i]
        by (auto simp: listing_client_def listing_sscan_def listing_view_def unmoved_def Let_def)
    next
      case False
      then show ?thesis using inv drop_step [of ?i ?ms] take_sub [of ?i ?ms]
        by (auto simp: listing_client_def listing_sscan_def listing_view_def unmoved_def Let_def)
    qed
  qed
  moreover have "x \<in> fst ` {(k, ms). (k, ms) \<in> set c \<and> ms \<noteq> [] \<and> starts_with k p}" if "listed_members c x \<noteq> []" "starts_with x p" for c x p
    using that by (cases "map_of c x") (auto simp: listed_members_def dest!: map_of_SomeD intro: rev_image_eqI)
  then have "keys_scan listing_client listing_view"
    by (fastforce simp: keys_scan_def listing_client_def listing_view_def unmoved_def)
  ultimately show ?thesis using listing_reads_writes by (simp add: set_server_def)
qed

definition demo_index :: redis_tag_index where
  "demo_index = \<lparr>ri_prefix = ''t'', ri_scanCount = 100, ri_shards = 2\<rparr>"

lemma demo_index_ok:
  assumes "\<And>k. listed_members c k \<noteq> [] \<Longrightarrow> k = ''t:keys''" "distinct (listed_members c ''t:keys'')"
  shows "redis_index_ok listing_client listing_view demo_index c"
proof -
  have m: "listed_members c k = (if k = ''t:keys'' then listed_members c k else [])" for k using assms(1) by auto
  have d: "\<forall>k. distinct (listed_members c k)" using assms by (metis distinct.simps(1))
  have "listed_members c (keyTagsKey demo_index k) = []" "listed_members c (tagKeysKey demo_index k) = []" "listed_members c (shard_key demo_index i) = []" for k i
    using m [of "keyTagsKey demo_index k"] m [of "tagKeysKey demo_index k"] m [of "shard_key demo_index i"]
    by (simp_all add: keyTagsKey_def tagKeysKey_def shard_key_def demo_index_def)
  moreover have "scannable demo_index" "plain (ri_prefix demo_index)"
    by (simp_all add: scannable_def demo_index_def plain_def math_ceil_def)
  ultimately show ?thesis using d
    by (simp add: redis_index_ok_def listing_server) (simp add: listing_view_def inverse_sets_def sharded_sets_def)
qed

lemma empty_index_ok: "redis_index_ok listing_client listing_view demo_index []"
  by (rule demo_index_ok) (simp_all add: listed_members_def)

subsection \<open>The properties\<close>

text \<open>
  C26: the tag index in Redis refines the same relation between keys and tags as an abstract index, for any
  number of shards. From a server without tags under the prefix, every touch, tracking, removal and clear returns,
  and after any sequence of them the keys reported for a tag are, without duplicates, exactly the keys whose
  latest tracking since their last removal names the tag.
\<close>

theorem redis_tag_queries_refine:
  assumes "redis_index_ok cl sv ri c" "\<And>k. sv_members sv c (keyTagsKey ri k) = {}"
  shows "rt_op cl ri act (fold (rt_step cl ri) ops c) = Some (Inr (), rt_step cl ri act (fold (rt_step cl ri) ops c)) \<and>
    (\<exists>ks c'. rt_keysForTag cl ri tag (fold (rt_step cl ri) ops c) = (Inr ks, c') \<and> distinct ks \<and>
       set ks = {key. tag \<in> fold redis_tag_spec ops (\<lambda>_. {}) key})"
proof -
  have ok: "redis_index_ok cl sv ri (fold (rt_step cl ri) ops c)" using assms(1) by (rule rti.ok_run)
  have none: "answered (rt_tagsForKey cl ri k c) = []" for k
    using answered_sets(3) [OF assms(1), of k] assms(2) by simp
  have "set (answered (rt_keysForTag cl ri tag (fold (rt_step cl ri) ops c))) = {key. tag \<in> fold redis_tag_spec ops (\<lambda>_. {}) key}"
    using assms(1) none by (rule rti.keys_run)
  moreover have "rt_op cl ri act (fold (rt_step cl ri) ops c) = Some (Inr (), rt_step cl ri act (fold (rt_step cl ri) ops c))"
    using rt_op_effect [OF ok] by (simp add: rt_effect_def)
  ultimately show ?thesis using rt_sets_answered(1) [OF ok, of tag] by (auto simp: answered_def)
qed

theorem redis_tag_queries_refine_witness:
  "\<exists>ks c'. rt_keysForTag listing_client demo_index ''red'' (fold (rt_step listing_client demo_index)
      [TrackKey ''a'' [''red'', ''blue''] 1, TrackKey ''b'' [''red''] 2, TrackKey ''a'' [''blue''] 3] []) = (Inr ks, c') \<and> distinct ks \<and> set ks = {''b''}"
proof -
  have none: "sv_members listing_view [] (keyTagsKey demo_index k) = {}" for k by (simp add: listing_view_def listed_members_def)
  have "{key. ''red'' \<in> fold redis_tag_spec [TrackKey ''a'' [''red'', ''blue''] 1, TrackKey ''b'' [''red''] 2, TrackKey ''a'' [''blue''] 3] (\<lambda>_. {}) key} = {''b''}"
    by auto
  then show ?thesis
    using redis_tag_queries_refine [OF empty_index_ok none, of ClearIndex "[TrackKey ''a'' [''red'', ''blue''] 1, TrackKey ''b'' [''red''] 2, TrackKey ''a'' [''blue''] 3]" "''red''"]
    by simp
qed

text \<open>
  Queries over the known keys end and are exact. After any sequence of operations on an index without known
  keys, the prefix query and, for patterns without brackets and backslashes, the wildcard query return on every
  server whose cursors progress, and list without duplicates exactly the keys touched or tracked since their last
  removal that match, although the keys are spread over shards by their hash.
\<close>

theorem redis_key_queries_return:
  assumes "redis_index_ok cl sv ri c" "known_members ri (sv_members sv c) = {}" "no_classes pattern"
  shows "(\<exists>ks c'. rt_matchPattern cl ri pattern (fold (rt_step cl ri) ops c) = Some (Inr ks, c') \<and> distinct ks \<and>
      set ks = {k \<in> fold known_spec ops {}. glob pattern k}) \<and>
    (\<exists>ks c'. rt_keysForPrefix cl ri pre (fold (rt_step cl ri) ops c) = Some (Inr ks, c') \<and> distinct ks \<and>
      set ks = {k \<in> fold known_spec ops {}. starts_with k pre})"
  using rt_queries_return(1) [OF rti.ok_run [OF assms(1)], of pre ops] rt_queries_return(2) [OF rti.ok_run [OF assms(1)] assms(3), of ops]
    known_run [OF assms(1), of ops] assms(2) by auto

theorem redis_key_queries_return_witness:
  "\<exists>ks c'. rt_matchPattern listing_client demo_index ''a*'' (fold (rt_step listing_client demo_index)
      [TouchKey ''ab'' 1, TrackKey ''ac'' [] 2, TouchKey ''b'' 3, RemoveKey ''ab''] []) = Some (Inr ks, c') \<and> distinct ks \<and> set ks = {''ac''}"
proof -
  have none: "known_members demo_index (sv_members listing_view []) = {}" by (simp add: known_members_def listing_view_def listed_members_def)
  have "{k \<in> fold known_spec [TouchKey ''ab'' 1, TrackKey ''ac'' [] 2, TouchKey ''b'' 3, RemoveKey ''ab''] {}. glob ''a*'' k} = {''ac''}"
    by auto
  moreover have "no_classes ''a*''" by (simp add: no_classes_def)
  ultimately show ?thesis
    using redis_key_queries_return [OF empty_index_ok none, of "''a*''" "[TouchKey ''ab'' 1, TrackKey ''ac'' [] 2, TouchKey ''b'' 3, RemoveKey ''ab'']" "[]"]
    by simp
qed

text \<open>
  Migrating the legacy set loses no key. On a sharded index the migration returns; afterwards the legacy set
  is empty, the known keys are the same, each in the shard of its hash, and no tag has changed.
\<close>

theorem migration_keeps_known_keys:
  assumes "redis_index_ok cl sv ri c" "ri_shards ri \<noteq> 1"
  shows "\<exists>n c'. migrateLegacyKnownKeys cl ri c = Some (Inr n, c') \<and> redis_index_ok cl sv ri c' \<and>
    sv_members sv c' (legacyKnownKeysKey ri) = {} \<and> known_members ri (sv_members sv c') = known_members ri (sv_members sv c) \<and>
    (\<forall>k. sv_members sv c' (keyTagsKey ri k) = sv_members sv c (keyTagsKey ri k))"
proof -
  let ?l = "legacyKnownKeysKey ri"
  obtain ks c1 where r: "scan_loop (\<lambda>cursor. sc_sscan cl ?l cursor None (ri_scanCount ri)) (migrate_page cl ri) ''0'' c = Some (Inr ks, c1)"
    "redis_index_ok cl sv ri c1" "set ks = sv_members sv c ?l" "sv_members sv c1 ?l = sv_members sv c ?l"
    "\<forall>k. sv_members sv c1 (keyTagsKey ri k) = sv_members sv c (keyTagsKey ri k)"
    "known_members ri (sv_members sv c1) = known_members ri (sv_members sv c)" "set ks \<subseteq> (\<Union>i<ri_shards ri. sv_members sv c1 (shard_key ri i))"
    using migrate_run [OF assms] by (elim exE conjE) (rule that)
  show ?thesis
  proof (cases "ks = []")
    case True
    then show ?thesis using r assms(2) by (intro exI [of _ 0] exI [of _ c1]) (simp add: migrateLegacyKnownKeys_def)
  next
    case False
    have "set_server cl sv" "sv_inv sv c1" using r(2) by (simp_all add: redis_index_ok_def)
    from serves_sdel [OF this, of "[?l]"] obtain n c2 where
      d: "sc_del cl [?l] c1 = (Inr n, c2)" "sv_inv sv c2" "sv_members sv c2 = (\<lambda>k. if k \<in> set [?l] then {} else sv_members sv c1 k)"
      by (elim exE conjE) (rule that)
    have m: "migrateLegacyKnownKeys cl ri c = Some (Inr (length ks), c2)"
      using r(1) False assms(2) d(1) by (simp add: migrateLegacyKnownKeys_def andthen_def ret_def)
    have ok: "redis_index_ok cl sv ri c2" using r(2) d(2) by (simp add: redis_index_ok_def d(3) inverse_sets_def sharded_sets_def)
    have "known_members ri (sv_members sv c2) = known_members ri (sv_members sv c1)"
      using r(3,4,7) assms(2) by (auto simp: known_members_def d(3))
    then show ?thesis using m ok r(5,6) by (intro exI [of _ "length ks"] exI [of _ c2]) (simp add: d(3))
  qed
qed

theorem migration_keeps_known_keys_witness:
  "\<exists>n c'. migrateLegacyKnownKeys listing_client demo_index [(''t:keys'', [''a'', ''b'', ''c''])] = Some (Inr n, c') \<and>
    sv_members listing_view c' (legacyKnownKeysKey demo_index) = {} \<and> known_members demo_index (sv_members listing_view c') = {''a'', ''b'', ''c''}"
proof -
  let ?c = "[(''t:keys'', [''a'', ''b'', ''c''])]"
  have ok: "redis_index_ok listing_client listing_view demo_index ?c"
    by (rule demo_index_ok) (auto simp: listed_members_def split: if_splits)
  have m: "listed_members ?c k = (if k = ''t:keys'' then [''a'', ''b'', ''c''] else [])" for k by (simp add: listed_members_def)
  have known: "known_members demo_index (sv_members listing_view ?c) = {''a'', ''b'', ''c''}"
    by (auto simp: known_members_def listing_view_def m legacyKnownKeysKey_def shard_key_def demo_index_def)
  have "ri_shards demo_index \<noteq> 1" by (simp add: demo_index_def)
  from migration_keeps_known_keys [OF ok this] show ?thesis
    unfolding known by (elim exE conjE) (intro exI conjI)
qed

text \<open>
  Two trackings of one key that overlap leave it under a tag it no longer has. The old tags are read before the
  pipeline is queued, so if both read first, the pipeline that runs second does not know the tags of the first: a tag
  named by the first tracking alone still lists the key, although the key's own tags do not contain it.
\<close>

theorem overlapping_trackings_leave_stale_tag:
  assumes "redis_index_ok cl sv ri c" "t \<in> set tags1" "t \<notin> set tags2" "t \<notin> sv_members sv c (keyTagsKey ri key)"
  shows "\<exists>old1 c1 old2 c2 c3 c4 ts c5 ks c6.
    sc_smembers cl (keyTagsKey ri key) c = (Inr old1, c1) \<and> sc_smembers cl (keyTagsKey ri key) c1 = (Inr old2, c2) \<and>
    sc_exec cl (track_commands ri key tags1 old1) c2 = (Inr (), c3) \<and> sc_exec cl (track_commands ri key tags2 old2) c3 = (Inr (), c4) \<and>
    rt_tagsForKey cl ri key c4 = (Inr ts, c5) \<and> t \<notin> set ts \<and> rt_keysForTag cl ri t c5 = (Inr ks, c6) \<and> key \<in> set ks"
proof -
  let ?M = "sv_members sv" and ?k = "keyTagsKey ri key"
  have sv: "set_server cl sv" "sv_inv sv c" and inverse: "inverse_sets ri (?M c)" using assms(1) by (simp_all add: redis_index_ok_def)
  obtain old1 c1 where r1: "sc_smembers cl ?k c = (Inr old1, c1)" "set old1 = ?M c ?k" "unmoved sv c c1" using serves_smembers [OF sv] by blast
  then have s1: "sv_inv sv c1" "?M c1 = ?M c" by (simp_all add: unmoved_def)
  obtain old2 c2 where r2: "sc_smembers cl ?k c1 = (Inr old2, c2)" "set old2 = ?M c1 ?k" "unmoved sv c1 c2"
    using serves_smembers [OF sv(1) s1(1)] by blast
  then have s2: "sv_inv sv c2" "?M c2 = ?M c" using s1 by (simp_all add: unmoved_def)
  obtain c3 where w1: "sc_exec cl (track_commands ri key tags1 old1) c2 = (Inr (), c3)" "sv_inv sv c3"
    "?M c3 = fold apply_command (track_commands ri key tags1 old1) (?M c)"
    using serves_exec [OF sv(1) s2(1), of "track_commands ri key tags1 old1"] s2(2) by auto
  obtain c4 where w2: "sc_exec cl (track_commands ri key tags2 old2) c3 = (Inr (), c4)" "sv_inv sv c4"
    "?M c4 = fold apply_command (track_commands ri key tags2 old2) (?M c3)"
    using serves_exec [OF sv(1) w1(2), of "track_commands ri key tags2 old2"] by auto
  have listed: "key \<in> ?M c3 (tagKeysKey ri t)"
    using track_members(2) [OF inverse r1(2), of tags1 t] assms(2) by (simp add: w1(3))
  have old: "t \<notin> set old2" using r2(2) s1(2) assms(4) by simp
  have "?M c4 ?k = set tags2"
    unfolding w2(3) track_commands_def
    by (auto simp: apply_removals apply_additions split: if_splits)
  moreover have "key \<in> ?M c4 (tagKeysKey ri t)"
    unfolding w2(3) track_commands_def using listed old by (auto simp: apply_removals apply_additions split: if_splits)
  moreover obtain ts c5 where q1: "rt_tagsForKey cl ri key c4 = (Inr ts, c5)" "set ts = ?M c4 ?k" "unmoved sv c4 c5"
    using serves_smembers [OF sv(1) w2(2)] unfolding rt_tagsForKey_def by blast
  moreover obtain ks c6 where "rt_keysForTag cl ri t c5 = (Inr ks, c6)" "set ks = ?M c5 (tagKeysKey ri t)"
    using serves_smembers [OF sv(1), of c5] q1(3) unfolding rt_keysForTag_def unmoved_def by blast
  ultimately show ?thesis using r1(1) r2(1) w1(1) w2(1) assms(3) by (auto simp: unmoved_def)
qed

theorem overlapping_trackings_leave_stale_tag_witness:
  "\<exists>c4 ts c5 ks c6. rt_tagsForKey listing_client demo_index ''a'' c4 = (Inr ts, c5) \<and> ''red'' \<notin> set ts \<and>
    rt_keysForTag listing_client demo_index ''red'' c5 = (Inr ks, c6) \<and> ''a'' \<in> set ks"
proof -
  have "''red'' \<notin> sv_members listing_view [] (keyTagsKey demo_index ''a'')" by (simp add: listing_view_def listed_members_def)
  from overlapping_trackings_leave_stale_tag [OF empty_index_ok _ _ this, of "[''red'']" "[''blue'']"] show ?thesis
    by simp (elim exE conjE, intro exI conjI, assumption+)
qed

end
