(* ===== verification/InvalidationBus.thy ===== *)
theory InvalidationBus
  imports PayloadProtection StackProps
begin

text \<open>
  The Redis invalidation bus (\<open>src/src/invalidation/RedisInvalidationBus.ts\<close>): messages as JSON texts on
  a channel, signed when a secret is configured. The hash functions of \<open>node:crypto\<close> and the two Redis
  clients are arguments; logging is left out. A handler is an action on a world \<open>'w\<close> that may throw.
\<close>

subsection \<open>Messages on the wire\<close>

fun scope_name :: "inv_scope \<Rightarrow> string" where
  "scope_name ScopeKey = ''key''" | "scope_name ScopeKeys = ''keys''" | "scope_name ScopeClear = ''clear''"

fun operation_name :: "inv_operation \<Rightarrow> string" where
  "operation_name OpWrite = ''write''" | "operation_name OpDelete = ''delete''" | "operation_name OpInvalidate = ''invalidate''"
| "operation_name OpExpire = ''expire''" | "operation_name OpClear = ''clear''"

definition js_of_message :: "invalidation_message \<Rightarrow> js" where
  \<comment> \<open>the object literal of the callers; absent properties do not reach the text\<close>
  "js_of_message m = JObj
    ([(''scope'', JStr (scope_name (im_scope m)))]
     @ (case im_keys m of None \<Rightarrow> [] | Some keys \<Rightarrow> [(''keys'', JArr (map JStr keys))])
     @ [(''sourceId'', JStr (im_sourceId m))]
     @ (case im_operation m of None \<Rightarrow> [] | Some operation \<Rightarrow> [(''operation'', JStr (operation_name operation))]))"

fun scope_of :: "js \<Rightarrow> inv_scope option" where
  "scope_of (JStr s) = (if s = ''key'' then Some ScopeKey else if s = ''keys'' then Some ScopeKeys
     else if s = ''clear'' then Some ScopeClear else None)"
| "scope_of _ = None"

fun operation_of :: "js \<Rightarrow> inv_operation option" where
  "operation_of (JStr s) = (if s = ''write'' then Some OpWrite else if s = ''delete'' then Some OpDelete
     else if s = ''invalidate'' then Some OpInvalidate else if s = ''expire'' then Some OpExpire
     else if s = ''clear'' then Some OpClear else None)"
| "operation_of _ = None"

fun text_of :: "js \<Rightarrow> string option" where
  "text_of (JStr s) = Some s"
| "text_of _ = None"

fun texts_of :: "js list \<Rightarrow> string list option" where
  \<comment> \<open>\<open>keys.every((key) => typeof key === 'string')\<close>, with the keys\<close>
  "texts_of [] = Some []"
| "texts_of (x # xs) = (case (text_of x, texts_of xs) of (Some s, Some ss) \<Rightarrow> Some (s # ss) | _ \<Rightarrow> None)"

fun keys_of :: "js \<Rightarrow> string list option option" where
  \<comment> \<open>\<open>undefined\<close> or an array of strings\<close>
  "keys_of JUndef = Some None"
| "keys_of (JArr xs) = map_option Some (texts_of xs)"
| "keys_of _ = None"

definition message_of :: "js \<Rightarrow> invalidation_message option" where
  \<comment> \<open>\<open>isInvalidationMessage\<close>, with the message the value then stands for\<close>
  "message_of v =
    (if \<not> is_object v then None
     else case (scope_of (js_prop v ''scope''), text_of (js_prop v ''sourceId''), keys_of (js_prop v ''keys''),
                if js_prop v ''operation'' = JUndef then Some None else map_option Some (operation_of (js_prop v ''operation''))) of
       (Some scope, Some sourceId, Some keys, Some operation) \<Rightarrow>
         if sourceId = [] then None
         else Some \<lparr>im_scope = scope, im_sourceId = sourceId, im_keys = keys, im_operation = operation\<rparr>
     | _ \<Rightarrow> None)"

subsection \<open>Signatures\<close>

definition isEqualSignature :: "string \<Rightarrow> string \<Rightarrow> bool" where
  "isEqualSignature actual expected \<longleftrightarrow> length (from_hex actual) = length (from_hex expected) \<and> from_hex actual = from_hex expected"

definition resolveSigningSecret :: "key_material option \<Rightarrow> key_material option" where
  \<comment> \<open>an empty text or buffer counts as missing\<close>
  "resolveSigningSecret secret = (case secret of
     None \<Rightarrow> None
   | Some (KeyText s) \<Rightarrow> if length s > 0 then secret else None
   | Some (KeyBuffer b) \<Rightarrow> if length b > 0 then secret else None)"

definition normalizeSigningSecret :: "crypto \<Rightarrow> key_material \<Rightarrow> string" where
  "normalizeSigningSecret c secret = cr_sha256 c (key_bytes secret)"

record 'w bus =
  bs_channel :: string
  bs_signingKey :: "string option"
  bs_handlers :: "(nat \<times> (invalidation_message \<Rightarrow> 'w \<Rightarrow> unit result \<times> 'w)) list"   \<comment> \<open>the set of handlers, by identity\<close>
  bs_shared :: bool          \<comment> \<open>\<open>sharedListener\<close> is set\<close>
  bs_listeners :: nat        \<comment> \<open>listeners attached to the subscriber\<close>

definition new_bus :: "crypto \<Rightarrow> string option \<Rightarrow> key_material option \<Rightarrow> bool option \<Rightarrow> 'w bus result" where
  "new_bus c channel signingSecret requireSignature =
    (let signingKey = map_option (normalizeSigningSecret c) (resolveSigningSecret signingSecret) in
     if signingKey = None \<and> requireSignature = Some True
     then Inl (OtherError ''RedisInvalidationBus requires a signingSecret when requireSignature=true.'')
     else Inr \<lparr>bs_channel = nullish channel ''layercache:invalidation'', bs_signingKey = signingKey,
               bs_handlers = [], bs_shared = False, bs_listeners = 0\<rparr>)"

definition createSignature :: "crypto \<Rightarrow> string \<Rightarrow> string \<Rightarrow> string" where
  "createSignature c key payload = hex (cr_hmac c key (utf8_encode payload))"

definition signMessage :: "crypto \<Rightarrow> (real \<Rightarrow> string) \<Rightarrow> string \<Rightarrow> invalidation_message \<Rightarrow> js" where
  "signMessage c ft key m =
    JObj [(''payload'', js_of_message m), (''signature'', JStr (createSignature c key (json ft (js_of_message m))))]"

definition verifySignedEnvelope :: "crypto \<Rightarrow> (real \<Rightarrow> string) \<Rightarrow> string \<Rightarrow> js \<Rightarrow> js result" where
  "verifySignedEnvelope c ft key v =
    (if \<not> is_object v then Inl (OtherError ''Signed invalidation envelope must be an object.'')
     else let body = js_prop v ''payload'' in
       case text_of (js_prop v ''signature'') of
         None \<Rightarrow> Inl (OtherError ''Signed invalidation envelope is missing payload or signature.'')
       | Some signature \<Rightarrow>
           if \<not> is_object body then Inl (OtherError ''Signed invalidation envelope is missing payload or signature.'')
           else if \<not> isEqualSignature signature (createSignature c key (json ft body))
           then Inl (OtherError ''Invalid invalidation message signature.'')
           else Inr body)"

subsection \<open>Publishing and dispatching\<close>

definition publish_text :: "crypto \<Rightarrow> (real \<Rightarrow> string) \<Rightarrow> 'w bus \<Rightarrow> invalidation_message \<Rightarrow> string" where
  \<comment> \<open>what \<open>publish\<close> hands to the publisher\<close>
  "publish_text c ft bus m =
    json ft (case bs_signingKey bus of Some key \<Rightarrow> signMessage c ft key m | None \<Rightarrow> js_of_message m)"

definition bus_sanitize :: sanitize_options where
  "bus_sanitize = \<lparr>sz_maxDepth = 64, sz_maxNodes = 10000, sz_label = ''Invalidation payload''\<rparr>"

definition decode_message :: "crypto \<Rightarrow> (real \<Rightarrow> string) \<Rightarrow> 'w bus \<Rightarrow> string \<Rightarrow> invalidation_message result" where
  \<comment> \<open>the \<open>try\<close> block of \<open>dispatchToHandlers\<close>\<close>
  "decode_message c ft bus text =
    bind_result (case json_parse text of None \<Rightarrow> Inl (OtherError ''SyntaxError'') | Some v \<Rightarrow> sanitizeStructuredData bus_sanitize v) (\<lambda>parsed.
    bind_result (case bs_signingKey bus of Some key \<Rightarrow> verifySignedEnvelope c ft key parsed | None \<Rightarrow> Inr parsed) (\<lambda>candidate.
      case message_of candidate of
        None \<Rightarrow> Inl (OtherError ''Invalid invalidation payload shape.'')
      | Some m \<Rightarrow> Inr m))"

fun run_handlers :: "('i \<times> (invalidation_message \<Rightarrow> 'w \<Rightarrow> unit result \<times> 'w)) list \<Rightarrow> invalidation_message \<Rightarrow> 'w \<Rightarrow> 'w" where
  \<comment> \<open>every handler runs; what one throws is only reported\<close>
  "run_handlers [] m w = w"
| "run_handlers (h # hs) m w = run_handlers hs m (snd (snd h m w))"

definition dispatchToHandlers :: "crypto \<Rightarrow> (real \<Rightarrow> string) \<Rightarrow> 'w bus \<Rightarrow> string \<Rightarrow> 'w \<Rightarrow> 'w" where
  "dispatchToHandlers c ft bus text w =
    (case decode_message c ft bus text of Inl _ \<Rightarrow> w | Inr m \<Rightarrow> run_handlers (bs_handlers bus) m w)"

definition receive :: "crypto \<Rightarrow> (real \<Rightarrow> string) \<Rightarrow> 'w bus \<Rightarrow> string \<Rightarrow> 'w \<Rightarrow> 'w" where
  \<comment> \<open>every attached listener dispatches the text\<close>
  "receive c ft bus text w = (dispatchToHandlers c ft bus text ^^ bs_listeners bus) w"

subsection \<open>Subscriptions\<close>

definition subscribe :: "nat \<Rightarrow> (invalidation_message \<Rightarrow> 'w \<Rightarrow> unit result \<times> 'w) \<Rightarrow> error option \<Rightarrow> 'w bus \<Rightarrow> unit result \<times> 'w bus" where
  \<comment> \<open>one call, those before it finished; \<open>failure\<close> is what the Redis \<open>SUBSCRIBE\<close> of a first subscriber throws\<close>
  "subscribe i handler failure bus =
    (if bs_handlers bus = [] then
       (let attached = bus\<lparr>bs_shared := True, bs_listeners := Suc (bs_listeners bus)\<rparr> in
        case failure of
          Some e \<Rightarrow> (Inl e, attached)
        | None \<Rightarrow> (Inr (), attached\<lparr>bs_handlers := [(i, handler)]\<rparr>))
     else (Inr (), if i \<in> fst ` set (bs_handlers bus) then bus else bus\<lparr>bs_handlers := bs_handlers bus @ [(i, handler)]\<rparr>))"

definition unsubscribe :: "nat \<Rightarrow> 'w bus \<Rightarrow> 'w bus" where
  "unsubscribe i bus =
    (let rest = filter (\<lambda>h. fst h \<noteq> i) (bs_handlers bus) in
     if rest = [] \<and> bs_shared bus
     then bus\<lparr>bs_handlers := rest, bs_shared := False, bs_listeners := bs_listeners bus - 1\<rparr>
     else bus\<lparr>bs_handlers := rest\<rparr>)"

subsection \<open>What arrives\<close>

lemma texts_of_map [simp]: "texts_of (map JStr ks) = Some ks"
  by (induction ks) simp_all

lemma scope_of_name [simp]: "scope_of (JStr (scope_name x)) = Some x"
  by (cases x) simp_all

lemma operation_of_name [simp]: "operation_of (JStr (operation_name x)) = Some x"
  by (cases x) simp_all

lemma message_of_js [simp]: "message_of (js_of_message m) = (if im_sourceId m = [] then None else Some m)"
  by (cases m; cases "im_keys m"; cases "im_operation m")
    (simp_all add: message_of_def js_of_message_def del: scope_of.simps operation_of.simps)

lemma enumeration_order_names:
  "list_all (\<lambda>p. \<not> is_array_index (fst p)) ps \<Longrightarrow> enumeration_order ps = ps"
  by (simp add: enumeration_order_def list_all_iff filter_id_conv)

lemma message_names: "\<not> is_array_index ''scope''" "\<not> is_array_index ''keys''" "\<not> is_array_index ''sourceId''"
  "\<not> is_array_index ''operation''" "\<not> is_array_index ''payload''" "\<not> is_array_index ''signature''"
  by (simp_all add: is_array_index_def is_digit_def)

lemma message_wf: "wf_js (js_of_message m) \<and> whole_js (js_of_message m) \<and> safe (js_of_message m) \<and> height (js_of_message m) \<le> 2"
proof -
  have list: "Max (height ` JStr ` set ks) = 0" if "ks \<noteq> []" for ks
  proof -
    have "height ` JStr ` set ks = {0}" using that by (cases ks) auto
    then show ?thesis by simp
  qed
  show ?thesis
    by (cases "im_keys m"; cases "im_operation m")
      (auto simp: js_of_message_def enumeration_order_names message_names list_all_iff DANGEROUS_KEYS_def list)
qed

lemma message_nodes:
  "nodes (js_of_message m) = 3 + (case im_keys m of None \<Rightarrow> 0 | Some ks \<Rightarrow> Suc (length ks)) + (case im_operation m of None \<Rightarrow> 0 | Some _ \<Rightarrow> 1)"
  by (cases "im_keys m"; cases "im_operation m") (simp_all add: js_of_message_def sum_list_triv comp_def)

lemma parsed_text:
  assumes "wf_js v" "whole_js v" "safe v" "height v \<le> 64"
  shows "(case json_parse (json ft v) of None \<Rightarrow> Inl e | Some v \<Rightarrow> sanitizeStructuredData bus_sanitize v) =
    (if nodes v \<le> 10000 then Inr v else sanitizeStructuredData bus_sanitize v)"
    "\<not> nodes v \<le> 10000 \<Longrightarrow> isl (sanitizeStructuredData bus_sanitize v)"
proof -
  have ok: "sanitizeStructuredData bus_sanitize v = Inr w \<longleftrightarrow> w = v \<and> nodes v \<le> 10000" for w
    using strip_safe [OF assms(3)] assms(4) by (auto simp: sanitized_iff bus_sanitize_def)
  then show "\<not> nodes v \<le> 10000 \<Longrightarrow> isl (sanitizeStructuredData bus_sanitize v)"
    by (cases "sanitizeStructuredData bus_sanitize v") auto
  show "(case json_parse (json ft v) of None \<Rightarrow> Inl e | Some v \<Rightarrow> sanitizeStructuredData bus_sanitize v) =
    (if nodes v \<le> 10000 then Inr v else sanitizeStructuredData bus_sanitize v)"
    using ok json_parse_json [OF assms(2,1), of ft] by auto
qed

lemma bus_arrives:
  fixes keys :: "string list" and cf :: "'l stack_config" and scope :: inv_scope and operation :: inv_operation
  assumes "bs_signingKey sender = bs_signingKey receiver"
  defines "m \<equiv> inv_message cf scope (Some keys) operation"
  shows "if cf_instanceId cf \<noteq> [] \<and> length keys + (if bs_signingKey sender = None then 5 else 7) \<le> 10000
     then decode_message c ft receiver (publish_text c ft sender m) = Inr m
     else isl (decode_message c ft receiver (publish_text c ft sender m))"
proof -
  have n: "nodes (js_of_message m) = length keys + 5" by (simp add: message_nodes m_def inv_message_def)
  have src: "im_sourceId m = cf_instanceId cf" by (simp add: m_def inv_message_def)
  note wf = message_wf [of m]
  show ?thesis
  proof (cases "bs_signingKey sender")
    case None
    then have "decode_message c ft receiver (publish_text c ft sender m) =
        bind_result (if length keys + 5 \<le> 10000 then Inr (js_of_message m) else sanitizeStructuredData bus_sanitize (js_of_message m))
          (\<lambda>v. case message_of v of None \<Rightarrow> Inl (OtherError ''Invalid invalidation payload shape.'') | Some m \<Rightarrow> Inr m)"
      using assms(1) wf parsed_text(1) [of "js_of_message m"] n by (simp add: decode_message_def publish_text_def)
    then show ?thesis using None src parsed_text(2) [of "js_of_message m"] wf n by (auto simp: isl_def)
  next
    case (Some key)
    have r: "bs_signingKey receiver = Some key" using assms(1) Some by simp
    let ?v = "signMessage c ft key m"
    have v: "wf_js ?v" "whole_js ?v" "safe ?v" "height ?v \<le> 64" "nodes ?v = length keys + 7"
      using wf n by (simp_all add: signMessage_def enumeration_order_names message_names DANGEROUS_KEYS_def)
    have "is_object (js_of_message m)" by (simp add: js_of_message_def)
    then have "verifySignedEnvelope c ft key ?v = Inr (js_of_message m)"
      by (simp add: verifySignedEnvelope_def signMessage_def isEqualSignature_def)
    moreover have "decode_message c ft receiver (publish_text c ft sender m) =
        bind_result (if length keys + 7 \<le> 10000 then Inr ?v else sanitizeStructuredData bus_sanitize ?v) (\<lambda>parsed.
        bind_result (verifySignedEnvelope c ft key parsed)
          (\<lambda>v. case message_of v of None \<Rightarrow> Inl (OtherError ''Invalid invalidation payload shape.'') | Some m \<Rightarrow> Inr m))"
      using r Some parsed_text(1) [OF v(1-4)] v(5) by (simp add: decode_message_def publish_text_def)
    ultimately show ?thesis using Some src parsed_text(2) [OF v(1-4)] v(5) by (auto simp: isl_def)
  qed
qed

text \<open>
  Invalidation messages arrive unchanged, or not at all when they are too large. Between buses with the
  same signing key (or none), the message of an invalidation is delivered exactly as it was published if
  the instance has an identifier and there are at most 9995 keys (9993 when signed); a message with
  more keys is refused by every receiver, whatever the invalidation limit of the sender.
\<close>

theorem bus_round_trip:
  fixes keys :: "string list" and cf :: "'l stack_config" and scope :: inv_scope and operation :: inv_operation
  assumes "bs_signingKey sender = bs_signingKey receiver"
  defines "m \<equiv> inv_message cf scope (Some keys) operation"
  shows "if cf_instanceId cf \<noteq> [] \<and> length keys + (if bs_signingKey sender = None then 5 else 7) \<le> 10000
     then decode_message c ft receiver (publish_text c ft sender m) = Inr m
     else isl (decode_message c ft receiver (publish_text c ft sender m))"
  unfolding m_def by (rule bus_arrives [OF assms(1)])

definition listening :: "string option \<Rightarrow> 'l stack_config \<Rightarrow> 'l stack bus" where
  \<comment> \<open>a bus after the subscription of one stack\<close>
  "listening key cf = \<lparr>bs_channel = ''layercache:invalidation'', bs_signingKey = key,
     bs_handlers = [(0, handleInvalidationMessage cf)], bs_shared = True, bs_listeners = 1\<rparr>"

lemma listening_fields [simp]:
  "bs_signingKey (listening key cf) = key" "bs_listeners (listening key cf) = 1"
  "bs_handlers (listening key cf) = [(0, handleInvalidationMessage cf)]"
  by (simp_all add: listening_def)

theorem bus_round_trip_witness:
  "decode_message demo_crypto (\<lambda>_. []) (listening (Some ''key'') (demo_config :: memory_layer stack_config))
     (publish_text demo_crypto (\<lambda>_. []) (listening (Some ''key'') (demo_config :: memory_layer stack_config)) (inv_message (demo_config :: memory_layer stack_config) ScopeKeys (Some [''k'', ''l'']) OpDelete))
   = Inr (inv_message (demo_config :: memory_layer stack_config) ScopeKeys (Some [''k'', ''l'']) OpDelete)"
  using bus_round_trip [of "listening (Some ''key'') (demo_config :: memory_layer stack_config)" "listening (Some ''key'') (demo_config :: memory_layer stack_config)" "demo_config :: memory_layer stack_config" "[''k'', ''l'']"
      demo_crypto "\<lambda>_. []" ScopeKeys OpDelete]
  by simp

text \<open>
  With a signing key, only messages authenticated under that key are delivered. A text decodes to a message exactly
  when it is an envelope within the structural bounds whose payload is that message and whose signature
  is the hexadecimal form of the HMAC of the payload's own text.
\<close>

theorem bus_delivers_only_signed:
  assumes "bs_signingKey bus = Some key"
  shows "decode_message c ft bus text = Inr m \<longleftrightarrow>
    (\<exists>v envelope signature. json_parse text = Some v \<and> sanitizeStructuredData bus_sanitize v = Inr envelope \<and>
       is_object envelope \<and> is_object (js_prop envelope ''payload'') \<and> js_prop envelope ''signature'' = JStr signature \<and>
       from_hex signature = cr_hmac c key (utf8_encode (json ft (js_prop envelope ''payload''))) \<and>
       message_of (js_prop envelope ''payload'') = Some m)"
proof -
  have str: "text_of x = Some s \<longleftrightarrow> x = JStr s" for x s by (cases x) simp_all
  have none: "text_of x = None \<longleftrightarrow> (\<forall>s. x \<noteq> JStr s)" for x by (cases x) simp_all
  show ?thesis
    using assms
    by (auto simp: decode_message_def verifySignedEnvelope_def isEqualSignature_def createSignature_def from_hex_hex str none Let_def
        bind_result_def split: option.splits sum.splits if_splits)
qed

definition demo_bus :: "memory_layer stack bus" where
  "demo_bus = listening (Some ''key'') demo_config"

definition demo_message :: invalidation_message where
  "demo_message = inv_message (demo_config :: memory_layer stack_config) ScopeKeys (Some [''k'']) OpDelete"

theorem bus_delivers_only_signed_witness:
  "\<exists>v envelope signature. json_parse (publish_text demo_crypto (\<lambda>_. []) demo_bus demo_message) = Some v \<and>
    sanitizeStructuredData bus_sanitize v = Inr envelope \<and> js_prop envelope ''signature'' = JStr signature \<and>
    from_hex signature = cr_hmac demo_crypto ''key'' (utf8_encode (json (\<lambda>_. []) (js_prop envelope ''payload'')))"
proof -
  have key: "bs_signingKey demo_bus = Some ''key''" by (simp add: demo_bus_def)
  have "decode_message demo_crypto (\<lambda>_. []) demo_bus (publish_text demo_crypto (\<lambda>_. []) demo_bus demo_message) = Inr demo_message"
    using bus_arrives [of demo_bus demo_bus "demo_config :: memory_layer stack_config" "[''k'']" demo_crypto "\<lambda>_. []" ScopeKeys OpDelete]
    by (simp add: demo_message_def)
  with bus_delivers_only_signed [OF key] show ?thesis by blast
qed

text \<open>A delivered invalidation is carried out on the receiving stack.\<close>

lemma handled_deletes_local:
  assumes "healthy ct s" "\<forall>k \<in> set keys. ct_key ct k" "im_sourceId m \<noteq> cf_instanceId cf" "im_scope m \<noteq> ScopeClear"
    "im_keys m = Some keys" "im_operation m \<noteq> Some OpExpire"
  shows "\<exists>s'. handleInvalidationMessage cf m s = (Inr (), s') \<and> healthy ct s' \<and> sk_maint s' = bumpKeyEpochs keys (sk_maint s) \<and>
    (\<forall>i < length (sk_layers s). if ly_isLocal (the_layer i s) then deleted ct (sk_now s) keys (state_of s i) (state_of s' i)
       else state_of s' i = state_of s i)"
proof -
  let ?s1 = "s\<lparr>sk_maint := bumpKeyEpochs keys (sk_maint s)\<rparr>"
  have same: "local_layers ?s1 = local_layers s" "state_of ?s1 i = state_of s i" for i
    by (simp_all add: local_layers_def all_layers_def the_layer_def state_of_def)
  have "healthy ct ?s1" "distinct (local_layers s)" "set (local_layers s) \<subseteq> {..<length (sk_layers s)}"
    using assms(1) by (auto simp: local_layers_def all_layers_def)
  then obtain s2 where s2: "deleteKeysFromLayers cf (local_layers s) keys ?s1 = (Inr (), s2)" "healthy ct s2" "same_rest ?s1 s2"
    "\<forall>i \<in> set (local_layers s). deleted ct (sk_now s) keys (state_of s i) (state_of s2 i)"
    "\<forall>j. j \<notin> set (local_layers s) \<longrightarrow> state_of s2 j = state_of s j"
    using deleteKeysFromLayers_some [of ct ?s1 keys "local_layers s" cf] assms(2) by (auto simp: same)
  let ?s' = "if im_operation m \<noteq> Some OpWrite then fold forget_key keys s2 else s2"
  have "handleInvalidationMessage cf m s = (Inr (), ?s')"
    using assms(3-6) s2(1) by (simp add: handleInvalidationMessage_def Let_def andthen_def same)
  moreover have "healthy ct ?s'" using healthy_cong [OF s2(2)] s2(2) by (simp add: forget_keys_fields)
  moreover have "state_of ?s' i = state_of s2 i" for i by (simp add: state_of_def forget_keys_fields)
  moreover have "sk_maint ?s' = bumpKeyEpochs keys (sk_maint s)" using s2(3) by (simp add: forget_keys_fields same_rest_def)
  ultimately show ?thesis using s2(4,5) by (intro exI [of _ ?s']) (auto simp: local_layers_def all_layers_def)
qed

text \<open>
  C10: a remote invalidation clears the local layers of the other instances. When one instance publishes the
  deletion of keys and another one, with the same signing key, healthy layers and its handler subscribed,
  receives the text, every local layer of the receiver answers \<open>null\<close> for these keys from then on and answers
  all other keys as before, its shared layers are not touched, and writes it prepared before are outdated.
\<close>

theorem remote_invalidation_reaches_local_layers:
  fixes cf' :: "'k stack_config" and sender :: "'w bus" and c :: crypto and ft :: "real \<Rightarrow> string"
  assumes "healthy ct s" "\<forall>k \<in> set keys. ct_key ct k" "bs_signingKey sender = key"
    and "cf_instanceId cf' \<noteq> []" "cf_instanceId cf' \<noteq> cf_instanceId cf" "length keys \<le> 9993"
    and "scope \<noteq> ScopeClear" "operation \<noteq> OpExpire"
  defines "s' \<equiv> receive c ft (listening key cf) (publish_text c ft sender (inv_message cf' scope (Some keys) operation)) s"
  shows "healthy ct s' \<and> sk_maint s' = bumpKeyEpochs keys (sk_maint s) \<and>
    (\<forall>i < length (sk_layers s). if ly_isLocal (the_layer i s) then deleted ct (sk_now s) keys (state_of s i) (state_of s' i)
       else state_of s' i = state_of s i)"
proof -
  let ?m = "inv_message cf' scope (Some keys) operation"
  have "decode_message c ft (listening key cf) (publish_text c ft sender ?m) = Inr ?m"
    using bus_arrives [of sender "listening key cf" cf' keys c ft scope operation] assms(3,4,6) by simp
  then have "s' = snd (handleInvalidationMessage cf ?m s)"
    by (simp add: s'_def receive_def dispatchToHandlers_def)
  moreover have "im_sourceId ?m \<noteq> cf_instanceId cf" "im_scope ?m \<noteq> ScopeClear" "im_keys ?m = Some keys" "im_operation ?m \<noteq> Some OpExpire"
    using assms(5,7,8) by (simp_all add: inv_message_def)
  ultimately show ?thesis using handled_deletes_local [OF assms(1,2), of ?m cf] by auto
qed

theorem remote_invalidation_reaches_local_layers_witness:
  "memory_answer 1000 (state_of demo_half 1) ''k'' \<noteq> JNull \<and>
   memory_answer 1000 (state_of (receive demo_crypto (\<lambda>_. []) (listening (Some ''key'') demo_config)
     (publish_text demo_crypto (\<lambda>_. []) (listening (Some ''key'') (demo_config :: memory_layer stack_config))
        (inv_message ((demo_config :: memory_layer stack_config)\<lparr>cf_instanceId := ''there''\<rparr>) ScopeKey (Some [''k'']) OpDelete)) demo_half) 1) ''k'' = JNull"
proof -
  have f: "length (sk_layers demo_half) = 2" "sk_now demo_half = 1000" "ly_isLocal (the_layer 1 demo_half)"
    by (simp_all add: demo_half_def put_state_def the_layer_def demo_layers_def memory_layer_of_def)
  let ?s' = "receive demo_crypto (\<lambda>_. []) (listening (Some ''key'') demo_config)
     (publish_text demo_crypto (\<lambda>_. []) (listening (Some ''key'') (demo_config :: memory_layer stack_config))
        (inv_message ((demo_config :: memory_layer stack_config)\<lparr>cf_instanceId := ''there''\<rparr>) ScopeKey (Some [''k'']) OpDelete)) demo_half"
  have "\<forall>i < length (sk_layers demo_half). if ly_isLocal (the_layer i demo_half)
      then deleted memory_contract (sk_now demo_half) [''k''] (state_of demo_half i) (state_of ?s' i) else state_of ?s' i = state_of demo_half i"
    using remote_invalidation_reaches_local_layers [OF demo_half_healthy, of "[''k'']" "listening (Some ''key'') (demo_config :: memory_layer stack_config)" "Some ''key''"
        "(demo_config :: memory_layer stack_config)\<lparr>cf_instanceId := ''there''\<rparr>" demo_config ScopeKey OpDelete demo_crypto "\<lambda>_. []"] by simp
  then have "deleted memory_contract 1000 [''k''] (state_of demo_half 1) (state_of ?s' 1)" using f by (metis one_less_numeral_iff semiring_norm(76))
  then show ?thesis using demo_half_answers(2) by (simp add: deleted_def js_of_envelope_def)
qed

end
