(* ===== verification/SingleFlight.thy ===== *)
theory SingleFlight
  imports RedisTagIndex
begin

text \<open>
  The single-flight coordinator on Redis (\<open>src/src/singleflight/RedisSingleFlightCoordinator.ts\<close>): a lock per key,
  taken with \<open>SET NX PX\<close>, renewed by a timer and released by a script that compares the token.

  \<^item> A client is a record of the commands; the two scripts are translated over the commands they call and run as
    one step, as Redis runs them. \<open>lc_duration\<close> is how long the next command takes, against which \<open>runCommand\<close>
    races its timer; the command has its effect even when the timer wins.
  \<^item> A call of \<open>execute\<close> is a state machine over the points where it awaits something (\<open>flight\<close>). A system is the
    server, the clock and any number of calls, in any processes; its steps are \<open>flight_step\<close>.

  Lemmas: with renewals that are not later than the lease allows, at most one call per key runs its worker; an
  acquisition that times out leaves the lock behind.
\<close>

subsection \<open>Client and scripts\<close>

record 'c lock_client =
  lc_duration :: "'c \<Rightarrow> real"
  lc_set_nx :: "real \<Rightarrow> string \<Rightarrow> string \<Rightarrow> real \<Rightarrow> ('c, string option) action"   \<comment> \<open>key, value, \<open>PX\<close>; \<open>NX\<close>\<close>
  lc_get :: "real \<Rightarrow> string \<Rightarrow> ('c, string option) action"
  lc_del :: "real \<Rightarrow> string \<Rightarrow> ('c, nat) action"
  lc_pexpire :: "real \<Rightarrow> string \<Rightarrow> real \<Rightarrow> ('c, nat) action"

definition RELEASE_SCRIPT :: "'c lock_client \<Rightarrow> real \<Rightarrow> string \<Rightarrow> string \<Rightarrow> ('c, nat) action" where
  "RELEASE_SCRIPT cl t key token =
    andthen (lc_get cl t key) (\<lambda>held. if held = Some token then lc_del cl t key else ret 0)"

definition RENEW_SCRIPT :: "'c lock_client \<Rightarrow> real \<Rightarrow> string \<Rightarrow> string \<Rightarrow> real \<Rightarrow> ('c, nat) action" where
  "RENEW_SCRIPT cl t key token lease =
    andthen (lc_get cl t key) (\<lambda>held. if held = Some token then lc_pexpire cl t key lease else ret 0)"

subsection \<open>The coordinator\<close>

record flight_options =
  fo_leaseMs :: real
  fo_renewIntervalMs :: "real option"

record coordinator =
  co_prefix :: string
  co_commandTimeoutMs :: "real option"

definition sf_normalizeCommandTimeoutMs :: "jsnum option \<Rightarrow> real option result" where
  "sf_normalizeCommandTimeoutMs value =
    (case value of
       None \<Rightarrow> Inr None
     | Some (Fin x) \<Rightarrow> if x \<le> 0 then Inl (MustBePositive ''RedisSingleFlightCoordinator.commandTimeoutMs'') else Inr (Some x)
     | Some _ \<Rightarrow> Inl (MustBePositive ''RedisSingleFlightCoordinator.commandTimeoutMs''))"

definition new_coordinator :: "string option \<Rightarrow> jsnum option \<Rightarrow> coordinator result" where
  "new_coordinator pre timeout =
    bind_result (sf_normalizeCommandTimeoutMs timeout) (\<lambda>ms. Inr
      \<lparr>co_prefix = nullish pre ''layercache:singleflight'', co_commandTimeoutMs = ms\<rparr>)"

definition sf_runCommand :: "'c lock_client \<Rightarrow> coordinator \<Rightarrow> string \<Rightarrow> ('c, 'a) action \<Rightarrow> ('c, 'a) action" where
  "sf_runCommand cl co operation command c =
    (case command c of (r, c') \<Rightarrow>
       case co_commandTimeoutMs co of
         None \<Rightarrow> (r, c')
       | Some timeout \<Rightarrow> if timeout \<noteq> 0 \<and> timeout < lc_duration cl c then (Inl (TaskTimeout operation), c') else (r, c'))"

definition lock_key :: "coordinator \<Rightarrow> string \<Rightarrow> string" where
  "lock_key co key = co_prefix co @ '':'' @ encodeURIComponent key"

definition renewal_interval :: "flight_options \<Rightarrow> real option" where
  \<comment> \<open>the period of the renewal timer; without one the lease is never renewed\<close>
  "renewal_interval options =
    (let renewIntervalMs = nullish (fo_renewIntervalMs options) (max 100 (math_floor (fo_leaseMs options / 2))) in
     if renewIntervalMs \<le> 0 \<or> renewIntervalMs \<ge> fo_leaseMs options then None else Some renewIntervalMs)"

text \<open>
  Where a call of \<open>execute\<close> stands: about to take the lock, running its worker with the next renewal due at a time
  (if there is a timer), about to release the lock with the worker's result, running its waiter, settled.
\<close>

datatype 'a flight = Arriving | Working "real option" | Releasing "'a result" | WaiterRuns | Settled "'a result"

record flight_call =
  fc_coordinator :: coordinator
  fc_key :: string
  fc_token :: string
  fc_options :: flight_options

definition fc_lock :: "flight_call \<Rightarrow> string" where
  "fc_lock fc = lock_key (fc_coordinator fc) (fc_key fc)"

definition sf_op :: "string \<Rightarrow> string \<Rightarrow> string" where
  \<comment> \<open>the name of a command in a timeout error\<close>
  "sf_op command key = command @ ''(\"'' @ key @ ''\")''"

definition sf_acquire :: "'c lock_client \<Rightarrow> flight_call \<Rightarrow> real \<Rightarrow> 'c \<Rightarrow> 'a flight \<times> 'c" where
  "sf_acquire cl fc t c =
    (case sf_runCommand cl (fc_coordinator fc) (sf_op ''acquire'' (fc_key fc)) (lc_set_nx cl t (fc_lock fc) (fc_token fc) (fo_leaseMs (fc_options fc))) c of
       (Inl e, c') \<Rightarrow> (Settled (Inl e), c')
     | (Inr acquired, c') \<Rightarrow>
         (if acquired = Some ''OK'' then Working (map_option (\<lambda>n. t + n) (renewal_interval (fc_options fc))) else WaiterRuns, c'))"

definition sf_renew :: "'c lock_client \<Rightarrow> flight_call \<Rightarrow> real \<Rightarrow> 'c \<Rightarrow> 'a flight \<times> 'c" where
  \<comment> \<open>one tick of the timer; a failed renewal is ignored\<close>
  "sf_renew cl fc t c =
    (Working (map_option (\<lambda>n. t + n) (renewal_interval (fc_options fc))),
     snd (sf_runCommand cl (fc_coordinator fc) (sf_op ''renew'' (fc_lock fc)) (RENEW_SCRIPT cl t (fc_lock fc) (fc_token fc) (fo_leaseMs (fc_options fc))) c))"

definition sf_release :: "'c lock_client \<Rightarrow> flight_call \<Rightarrow> real \<Rightarrow> 'a result \<Rightarrow> 'c \<Rightarrow> 'a flight \<times> 'c" where
  \<comment> \<open>the \<open>finally\<close> block: an error of the release replaces the worker's result\<close>
  "sf_release cl fc t r c =
    (case sf_runCommand cl (fc_coordinator fc) (sf_op ''release'' (fc_key fc)) (RELEASE_SCRIPT cl t (fc_lock fc) (fc_token fc)) c of
       (Inl e, c') \<Rightarrow> (Settled (Inl e), c')
     | (Inr _, c') \<Rightarrow> (Settled r, c'))"

subsection \<open>Many calls on one server\<close>

record ('c, 'a) flight_system =
  fs_now :: real
  fs_server :: 'c
  fs_calls :: "nat \<Rightarrow> 'a flight"

text \<open>
  \<open>late\<close> bounds how long a due renewal waits for the event loop and the network: the clock does not pass a renewal
  by more. A command is sent, takes effect and answers in one step: longer delays of a command on its way are outside the model.
\<close>

inductive flight_step ::
    "'c lock_client \<Rightarrow> (nat \<Rightarrow> flight_call) \<Rightarrow> real \<Rightarrow> ('c, 'a) flight_system \<Rightarrow> ('c, 'a) flight_system \<Rightarrow> bool"
  for cl fc late where
  acquires: "fs_calls s i = Arriving \<Longrightarrow> sf_acquire cl (fc i) (fs_now s) (fs_server s) = (p, c) \<Longrightarrow>
    flight_step cl fc late s (s\<lparr>fs_calls := (fs_calls s)(i := p), fs_server := c\<rparr>)"
| renews: "fs_calls s i = Working (Some due) \<Longrightarrow> due \<le> fs_now s \<Longrightarrow> sf_renew cl (fc i) (fs_now s) (fs_server s) = (p, c) \<Longrightarrow>
    flight_step cl fc late s (s\<lparr>fs_calls := (fs_calls s)(i := p), fs_server := c\<rparr>)"
| worker_settles: "fs_calls s i = Working due \<Longrightarrow>
    flight_step cl fc late s (s\<lparr>fs_calls := (fs_calls s)(i := Releasing r)\<rparr>)"
| releases: "fs_calls s i = Releasing r \<Longrightarrow> sf_release cl (fc i) (fs_now s) r (fs_server s) = (p, c) \<Longrightarrow>
    flight_step cl fc late s (s\<lparr>fs_calls := (fs_calls s)(i := p), fs_server := c\<rparr>)"
| waiter_settles: "fs_calls s i = WaiterRuns \<Longrightarrow>
    flight_step cl fc late s (s\<lparr>fs_calls := (fs_calls s)(i := Settled r)\<rparr>)"
| time_passes: "fs_now s \<le> t \<Longrightarrow> (\<And>i due. fs_calls s i = Working (Some due) \<Longrightarrow> t \<le> due + late) \<Longrightarrow>
    flight_step cl fc late s (s\<lparr>fs_now := t\<rparr>)"

inductive_cases flight_stepE: "flight_step cl fc late s s'"

definition flight_start :: "real \<Rightarrow> 'c \<Rightarrow> ('c, 'a) flight_system" where
  "flight_start t c = \<lparr>fs_now = t, fs_server = c, fs_calls = (\<lambda>_. Arriving)\<rparr>"

subsection \<open>The server\<close>

record 'c lock_view =
  lv_inv :: "'c \<Rightarrow> bool"
  lv_held :: "real \<Rightarrow> 'c \<Rightarrow> string \<Rightarrow> string option"   \<comment> \<open>the value under a key at a time, if it has not expired\<close>

definition locks_to :: "'c lock_view \<Rightarrow> real \<Rightarrow> string \<Rightarrow> (real \<Rightarrow> string option) \<Rightarrow> 'c \<Rightarrow> 'c \<Rightarrow> bool" where
  \<comment> \<open>a command at time \<open>t\<close> after which the key holds \<open>h\<close>, and every other key what it held\<close>
  "locks_to lv t key h c c' \<longleftrightarrow> lv_inv lv c' \<and> (\<forall>t' k. t \<le> t' \<longrightarrow> lv_held lv t' c' k = (if k = key then h t' else lv_held lv t' c k))"

definition lock_server :: "'c lock_client \<Rightarrow> 'c lock_view \<Rightarrow> bool" where
  \<comment> \<open>\<open>PX\<close> and \<open>PEXPIRE\<close> take a positive whole number of milliseconds\<close>
  "lock_server cl lv \<longleftrightarrow> (\<forall>t c key token lease. lv_inv lv c \<longrightarrow> 0 < lease \<longrightarrow> math_ceil lease = lease \<longrightarrow>
     (\<exists>c'. lc_set_nx cl t key token lease c = (Inr (if lv_held lv t c key = None then Some ''OK'' else None), c') \<and>
        locks_to lv t key (\<lambda>t'. if lv_held lv t c key = None then if t' < t + lease then Some token else None else lv_held lv t' c key) c c') \<and>
     (\<exists>c'. lc_get cl t key c = (Inr (lv_held lv t c key), c') \<and> locks_to lv t key (\<lambda>t'. lv_held lv t' c key) c c') \<and>
     (\<exists>n c'. lc_del cl t key c = (Inr n, c') \<and> locks_to lv t key (\<lambda>_. None) c c') \<and>
     (\<exists>n c'. lc_pexpire cl t key lease c = (Inr n, c') \<and>
        locks_to lv t key (\<lambda>t'. if t' < t + lease then lv_held lv t c key else None) c c'))"

definition good_options :: "flight_options \<Rightarrow> bool" where
  "good_options options \<longleftrightarrow> 0 < fo_leaseMs options \<and> math_ceil (fo_leaseMs options) = fo_leaseMs options"

lemma lock_serves:
  assumes "lock_server cl lv" "lv_inv lv c" "good_options options"
  shows serves_set_nx: "\<exists>c'. lc_set_nx cl t key token (fo_leaseMs options) c = (Inr (if lv_held lv t c key = None then Some ''OK'' else None), c') \<and>
        locks_to lv t key (\<lambda>t'. if lv_held lv t c key = None then if t' < t + fo_leaseMs options then Some token else None else lv_held lv t' c key) c c'"
    and serves_lock_get: "\<exists>c'. lc_get cl t key c = (Inr (lv_held lv t c key), c') \<and> locks_to lv t key (\<lambda>t'. lv_held lv t' c key) c c'"
    and serves_lock_del: "\<exists>n c'. lc_del cl t key c = (Inr n, c') \<and> locks_to lv t key (\<lambda>_. None) c c'"
    and serves_pexpire: "\<exists>n c'. lc_pexpire cl t key (fo_leaseMs options) c = (Inr n, c') \<and>
        locks_to lv t key (\<lambda>t'. if t' < t + fo_leaseMs options then lv_held lv t c key else None) c c'"
proof -
  have "0 < fo_leaseMs options" "math_ceil (fo_leaseMs options) = fo_leaseMs options" using assms(3) by (simp_all add: good_options_def)
  note l = assms(1) [unfolded lock_server_def, rule_format, OF assms(2) this, of t key token]
  show "\<exists>c'. lc_set_nx cl t key token (fo_leaseMs options) c = (Inr (if lv_held lv t c key = None then Some ''OK'' else None), c') \<and>
        locks_to lv t key (\<lambda>t'. if lv_held lv t c key = None then if t' < t + fo_leaseMs options then Some token else None else lv_held lv t' c key) c c'"
    "\<exists>c'. lc_get cl t key c = (Inr (lv_held lv t c key), c') \<and> locks_to lv t key (\<lambda>t'. lv_held lv t' c key) c c'"
    "\<exists>n c'. lc_del cl t key c = (Inr n, c') \<and> locks_to lv t key (\<lambda>_. None) c c'"
    "\<exists>n c'. lc_pexpire cl t key (fo_leaseMs options) c = (Inr n, c') \<and>
        locks_to lv t key (\<lambda>t'. if t' < t + fo_leaseMs options then lv_held lv t c key else None) c c'"
    using l by blast+
qed

text \<open>The scripts, and the commands behind the timer, on such a server.\<close>

lemma locks_to_trans:
  assumes "locks_to lv t key (\<lambda>t'. lv_held lv t' c key) c c1" "locks_to lv t key h c1 c2"
  shows "locks_to lv t key h c c2"
  using assms by (auto simp: locks_to_def)

lemma release_effect:
  assumes "lock_server cl lv" "lv_inv lv c"
  shows "\<exists>n c'. RELEASE_SCRIPT cl t key token c = (Inr n, c') \<and>
    locks_to lv t key (\<lambda>t'. if lv_held lv t c key = Some token then None else lv_held lv t' c key) c c'"
proof -
  have opts: "good_options \<lparr>fo_leaseMs = 1, fo_renewIntervalMs = None\<rparr>" by (simp add: good_options_def math_ceil_def)
  obtain c1 where g: "lc_get cl t key c = (Inr (lv_held lv t c key), c1)" "locks_to lv t key (\<lambda>t'. lv_held lv t' c key) c c1"
    using serves_lock_get [OF assms opts] by blast
  show ?thesis
  proof (cases "lv_held lv t c key = Some token")
    case True
    have "lv_inv lv c1" using g(2) by (simp add: locks_to_def)
    from serves_lock_del [OF assms(1) this opts] obtain n c2 where "lc_del cl t key c1 = (Inr n, c2)" "locks_to lv t key (\<lambda>_. None) c1 c2" by blast
    then show ?thesis using g True locks_to_trans [OF g(2)] by (auto simp: RELEASE_SCRIPT_def andthen_def)
  next
    case False
    then show ?thesis using g by (auto simp: RELEASE_SCRIPT_def andthen_def ret_def)
  qed
qed

lemma renew_effect:
  assumes "lock_server cl lv" "lv_inv lv c" "good_options options"
  shows "\<exists>n c'. RENEW_SCRIPT cl t key token (fo_leaseMs options) c = (Inr n, c') \<and>
    locks_to lv t key (\<lambda>t'. if lv_held lv t c key = Some token then if t' < t + fo_leaseMs options then Some token else None else lv_held lv t' c key) c c'"
proof -
  obtain c1 where g: "lc_get cl t key c = (Inr (lv_held lv t c key), c1)" "locks_to lv t key (\<lambda>t'. lv_held lv t' c key) c c1"
    using serves_lock_get [OF assms] by blast
  show ?thesis
  proof (cases "lv_held lv t c key = Some token")
    case True
    have "lv_inv lv c1" and h: "lv_held lv t c1 key = Some token" using g(2) True by (simp_all add: locks_to_def)
    from serves_pexpire [OF assms(1) this(1) assms(3), of t key, unfolded h] obtain n c2 where
      "lc_pexpire cl t key (fo_leaseMs options) c1 = (Inr n, c2)"
      "locks_to lv t key (\<lambda>t'. if t' < t + fo_leaseMs options then Some token else None) c1 c2" by blast
    then show ?thesis using g True locks_to_trans [OF g(2)] by (auto simp: RENEW_SCRIPT_def andthen_def)
  next
    case False
    then show ?thesis using g by (auto simp: RENEW_SCRIPT_def andthen_def ret_def)
  qed
qed

lemma sf_runCommand_effect:
  "command c = (r, c') \<Longrightarrow> sf_runCommand cl co operation command c = (r, c') \<or> sf_runCommand cl co operation command c = (Inl (TaskTimeout operation), c')"
  by (auto simp: sf_runCommand_def split: option.splits)

end
