(* ===== verification/SingleFlightProps.thy ===== *)
theory SingleFlightProps
  imports SingleFlight
begin

text \<open>
  The promise of the single-flight coordinator: as long as renewals are punctual, one worker per key at a time,
  across all processes. The invariant says of every worker with a renewal timer how long its lock is held.
\<close>

subsection \<open>Effects of a call on the locks\<close>

definition spares :: "'c lock_view \<Rightarrow> real \<Rightarrow> string \<Rightarrow> 'c \<Rightarrow> 'c \<Rightarrow> bool" where
  \<comment> \<open>locks held with another token stay as they are\<close>
  "spares lv t token c c' \<longleftrightarrow> lv_inv lv c' \<and>
     (\<forall>k u. lv_held lv t c k = Some u \<longrightarrow> u \<noteq> token \<longrightarrow> (\<forall>t'. t \<le> t' \<longrightarrow> lv_held lv t' c' k = lv_held lv t' c k))"

lemma acquire_outcome:
  assumes "lock_server cl lv" "lv_inv lv c" "good_options (fc_options fc)" "sf_acquire cl fc t c = (p, c')"
  shows "spares lv t (fc_token fc) c c'"
    and "p = Working due \<Longrightarrow> due = map_option (\<lambda>n. t + n) (renewal_interval (fc_options fc)) \<and>
      (\<forall>t'. t \<le> t' \<longrightarrow> t' < t + fo_leaseMs (fc_options fc) \<longrightarrow> lv_held lv t' c' (fc_lock fc) = Some (fc_token fc))"
    and "lv_held lv t c (fc_lock fc) = None \<Longrightarrow>
      (\<forall>t'. t \<le> t' \<longrightarrow> t' < t + fo_leaseMs (fc_options fc) \<longrightarrow> lv_held lv t' c' (fc_lock fc) = Some (fc_token fc))"
proof -
  let ?cmd = "lc_set_nx cl t (fc_lock fc) (fc_token fc) (fo_leaseMs (fc_options fc))"
  let ?h = "lv_held lv t c (fc_lock fc)"
  obtain c1 where s: "?cmd c = (Inr (if ?h = None then Some ''OK'' else None), c1)"
    "locks_to lv t (fc_lock fc) (\<lambda>t'. if ?h = None then if t' < t + fo_leaseMs (fc_options fc) then Some (fc_token fc) else None else lv_held lv t' c (fc_lock fc)) c c1"
    using serves_set_nx [OF assms(1-3)] by blast
  have "p = (if ?h = None then Working (map_option (\<lambda>n. t + n) (renewal_interval (fc_options fc))) else WaiterRuns) \<and> c' = c1 \<or>
      (\<exists>e. p = Settled (Inl e)) \<and> c' = c1"
    using assms(4) sf_runCommand_effect [where command = ?cmd and c = c, OF s(1), of cl "fc_coordinator fc" "sf_op ''acquire'' (fc_key fc)"] by (auto simp: sf_acquire_def)
  then have c': "c' = c1"
    and w: "p = Working due \<Longrightarrow> ?h = None \<and> due = map_option (\<lambda>n. t + n) (renewal_interval (fc_options fc))"
    by (auto split: if_splits)
  show "spares lv t (fc_token fc) c c'" using s(2) by (auto simp: locks_to_def spares_def c')
  show "p = Working due \<Longrightarrow> due = map_option (\<lambda>n. t + n) (renewal_interval (fc_options fc)) \<and>
      (\<forall>t'. t \<le> t' \<longrightarrow> t' < t + fo_leaseMs (fc_options fc) \<longrightarrow> lv_held lv t' c' (fc_lock fc) = Some (fc_token fc))"
    "?h = None \<Longrightarrow> (\<forall>t'. t \<le> t' \<longrightarrow> t' < t + fo_leaseMs (fc_options fc) \<longrightarrow> lv_held lv t' c' (fc_lock fc) = Some (fc_token fc))"
    using s(2) w by (simp_all add: locks_to_def c')
qed

lemma renew_outcome:
  assumes "lock_server cl lv" "lv_inv lv c" "good_options (fc_options fc)" "sf_renew cl fc t c = (p, c')"
  shows "p = Working (map_option (\<lambda>n. t + n) (renewal_interval (fc_options fc)))" "spares lv t (fc_token fc) c c'"
    and "lv_held lv t c (fc_lock fc) = Some (fc_token fc) \<Longrightarrow> t \<le> t' \<Longrightarrow> t' < t + fo_leaseMs (fc_options fc) \<Longrightarrow>
      lv_held lv t' c' (fc_lock fc) = Some (fc_token fc)"
proof -
  obtain n c1 where s: "RENEW_SCRIPT cl t (fc_lock fc) (fc_token fc) (fo_leaseMs (fc_options fc)) c = (Inr n, c1)"
    "locks_to lv t (fc_lock fc) (\<lambda>t'. if lv_held lv t c (fc_lock fc) = Some (fc_token fc)
       then if t' < t + fo_leaseMs (fc_options fc) then Some (fc_token fc) else None else lv_held lv t' c (fc_lock fc)) c c1"
    using renew_effect [OF assms(1-3)] by blast
  have e: "p = Working (map_option (\<lambda>n. t + n) (renewal_interval (fc_options fc)))" "c' = c1"
    using assms(4) sf_runCommand_effect [where command = "RENEW_SCRIPT cl t (fc_lock fc) (fc_token fc) (fo_leaseMs (fc_options fc))" and c = c, OF s(1), of cl "fc_coordinator fc" "sf_op ''renew'' (fc_lock fc)"] by (auto simp: sf_renew_def)
  then show "p = Working (map_option (\<lambda>n. t + n) (renewal_interval (fc_options fc)))" by simp
  show "spares lv t (fc_token fc) c c'" using s(2) e(2) by (auto simp: locks_to_def spares_def)
  show "lv_held lv t c (fc_lock fc) = Some (fc_token fc) \<Longrightarrow> t \<le> t' \<Longrightarrow> t' < t + fo_leaseMs (fc_options fc) \<Longrightarrow>
      lv_held lv t' c' (fc_lock fc) = Some (fc_token fc)"
    using s(2) e(2) by (simp add: locks_to_def)
qed

lemma release_outcome:
  assumes "lock_server cl lv" "lv_inv lv c" "sf_release cl fc t r c = (p, c')"
  shows "p = Settled r \<or> (\<exists>e. p = Settled (Inl e))" "spares lv t (fc_token fc) c c'"
    and "lv_held lv t c (fc_lock fc) = Some (fc_token fc) \<Longrightarrow> lv_held lv t c' (fc_lock fc) = None"
proof -
  obtain n c1 where s: "RELEASE_SCRIPT cl t (fc_lock fc) (fc_token fc) c = (Inr n, c1)"
    "locks_to lv t (fc_lock fc) (\<lambda>t'. if lv_held lv t c (fc_lock fc) = Some (fc_token fc) then None else lv_held lv t' c (fc_lock fc)) c c1"
    using release_effect [OF assms(1,2)] by blast
  have e: "p = Settled r \<or> (\<exists>e. p = Settled (Inl e))" "c' = c1"
    using assms(3) sf_runCommand_effect [where command = "RELEASE_SCRIPT cl t (fc_lock fc) (fc_token fc)" and c = c, OF s(1), of cl "fc_coordinator fc" "sf_op ''release'' (fc_key fc)"] by (auto simp: sf_release_def)
  then show "p = Settled r \<or> (\<exists>e. p = Settled (Inl e))" by simp
  show "spares lv t (fc_token fc) c c'" "lv_held lv t c (fc_lock fc) = Some (fc_token fc) \<Longrightarrow> lv_held lv t c' (fc_lock fc) = None"
    using s(2) e(2) by (auto simp: locks_to_def spares_def)
qed

subsection \<open>The invariant\<close>

definition timely :: "(nat \<Rightarrow> flight_call) \<Rightarrow> real \<Rightarrow> bool" where
  \<comment> \<open>tokens are fresh, leases usable, and a renewal that is late by at most \<open>late\<close> is still in time\<close>
  "timely fc late \<longleftrightarrow> inj (\<lambda>i. fc_token (fc i)) \<and> 0 \<le> late \<and> (\<forall>i. good_options (fc_options (fc i)) \<and>
     (case renewal_interval (fc_options (fc i)) of None \<Rightarrow> True | Some n \<Rightarrow> n + late < fo_leaseMs (fc_options (fc i))))"

definition covered :: "'c lock_view \<Rightarrow> flight_call \<Rightarrow> real \<Rightarrow> real \<Rightarrow> real \<Rightarrow> 'c \<Rightarrow> bool" where
  "covered lv fc late now due c \<longleftrightarrow> now \<le> due + late \<and> (\<exists>n. renewal_interval (fc_options fc) = Some n \<and>
     (\<forall>t'. now \<le> t' \<longrightarrow> t' < due - n + fo_leaseMs (fc_options fc) \<longrightarrow> lv_held lv t' c (fc_lock fc) = Some (fc_token fc)))"

definition leases_ok :: "'c lock_view \<Rightarrow> (nat \<Rightarrow> flight_call) \<Rightarrow> real \<Rightarrow> ('c, 'a) flight_system \<Rightarrow> bool" where
  "leases_ok lv fc late s \<longleftrightarrow> lv_inv lv (fs_server s) \<and>
     (\<forall>i due. fs_calls s i = Working (Some due) \<longrightarrow> covered lv (fc i) late (fs_now s) due (fs_server s))"

lemma covered_holds:
  assumes "timely fc late" "covered lv (fc i) late now due c"
  shows "lv_held lv now c (fc_lock (fc i)) = Some (fc_token (fc i))"
proof -
  obtain n where n: "renewal_interval (fc_options (fc i)) = Some n" "now \<le> due + late"
    "\<forall>t'. now \<le> t' \<longrightarrow> t' < due - n + fo_leaseMs (fc_options (fc i)) \<longrightarrow> lv_held lv t' c (fc_lock (fc i)) = Some (fc_token (fc i))"
    using assms(2) by (auto simp: covered_def)
  have "n + late < fo_leaseMs (fc_options (fc i))"
    using assms(1) n(1) unfolding timely_def by (metis option.simps(5))
  then show ?thesis using n(2,3) by simp
qed

lemma working_holds:
  assumes "timely fc late" "leases_ok lv fc late s" "fs_calls s i = Working (Some due)"
  shows "lv_held lv (fs_now s) (fs_server s) (fc_lock (fc i)) = Some (fc_token (fc i))"
proof (rule covered_holds [OF assms(1)])
  show "covered lv (fc i) late (fs_now s) due (fs_server s)" using assms(2,3) by (simp add: leases_ok_def)
qed

lemma covered_spares:
  assumes "timely fc late" "covered lv (fc i) late now due c" "spares lv now (fc_token (fc j)) c c'" "i \<noteq> j"
  shows "covered lv (fc i) late now due c'"
proof -
  have "fc_token (fc i) \<noteq> fc_token (fc j)" using assms(1,4) by (auto simp: timely_def dest: injD)
  then have "lv_held lv t' c' (fc_lock (fc i)) = lv_held lv t' c (fc_lock (fc i))" if "now \<le> t'" for t'
    using assms(3) covered_holds [OF assms(1,2)] that by (auto simp: spares_def)
  then show ?thesis using assms(2) unfolding covered_def by (metis (no_types, lifting))
qed

lemma fresh_covered:
  assumes "timely fc late" "Some due = map_option (\<lambda>n. t + n) (renewal_interval (fc_options (fc i)))"
    "\<forall>t'. t \<le> t' \<longrightarrow> t' < t + fo_leaseMs (fc_options (fc i)) \<longrightarrow> lv_held lv t' c (fc_lock (fc i)) = Some (fc_token (fc i))"
  shows "covered lv (fc i) late t due c"
proof -
  obtain n where n: "renewal_interval (fc_options (fc i)) = Some n" "due = t + n" using assms(2) by (cases "renewal_interval (fc_options (fc i))") auto
  then have "0 < n" by (auto simp: renewal_interval_def Let_def split: if_splits)
  moreover have "0 \<le> late" using assms(1) by (simp add: timely_def)
  ultimately show ?thesis using n assms(3) by (simp add: covered_def)
qed

lemma leases_ok_update:
  assumes "timely fc late" "leases_ok lv fc late s" "spares lv (fs_now s) (fc_token (fc j)) (fs_server s) c'"
    "\<And>due. p = Working (Some due) \<Longrightarrow> covered lv (fc j) late (fs_now s) due c'"
  shows "leases_ok lv fc late (s\<lparr>fs_calls := (fs_calls s)(j := p), fs_server := c'\<rparr>)"
proof -
  have "covered lv (fc i) late (fs_now s) due c'" if "((fs_calls s)(j := p)) i = Working (Some due)" for i due
  proof (cases "i = j")
    case True
    then show ?thesis using assms(4) that by simp
  next
    case False
    then have "covered lv (fc i) late (fs_now s) due (fs_server s)" using assms(2) that by (simp add: leases_ok_def)
    then show ?thesis using covered_spares [OF assms(1) _ assms(3) False] by simp
  qed
  then show ?thesis using assms(3) by (simp add: leases_ok_def spares_def)
qed

lemma spares_refl: "lv_inv lv c \<Longrightarrow> spares lv t token c c"
  by (simp add: spares_def)

lemma leases_ok_step:
  assumes server: "lock_server cl lv" and time: "timely fc late" and inv: "leases_ok lv fc late s"
    and step: "flight_step cl fc late s s'"
  shows "leases_ok lv fc late s'"
proof -
  have good: "good_options (fc_options (fc i))" for i using time by (simp add: timely_def)
  have sinv: "lv_inv lv (fs_server s)" using inv by (simp add: leases_ok_def)
  from step show ?thesis
  proof cases
    case (acquires i p c)
    note a = acquire_outcome [OF server sinv good acquires(3)]
    have "covered lv (fc i) late (fs_now s) due c" if "p = Working (Some due)" for due
      using fresh_covered [OF time conjunct1 [OF a(2) [OF that]] conjunct2 [OF a(2) [OF that]]] .
    then show ?thesis using leases_ok_update [OF time inv a(1)] acquires(1) by simp
  next
    case (renews i due p c)
    note r = renew_outcome [OF server sinv good renews(4)]
    have "covered lv (fc i) late (fs_now s) due (fs_server s)" using inv renews(2) by (simp add: leases_ok_def)
    note held = covered_holds [OF time this]
    have "covered lv (fc i) late (fs_now s) due' c" if "p = Working (Some due')" for due'
      by (rule fresh_covered [OF time]) (use r(1) r(3) [OF held] that in auto)
    then show ?thesis using leases_ok_update [OF time inv r(2)] renews(1) by simp
  next
    case (worker_settles i due r)
    then show ?thesis using leases_ok_update [OF time inv spares_refl [OF sinv], of "Releasing r" i] by simp
  next
    case (releases i r p c)
    note o = release_outcome [OF server sinv releases(3)]
    show ?thesis using leases_ok_update [OF time inv o(2)] o(1) releases(1) by auto
  next
    case (waiter_settles i r)
    then show ?thesis using leases_ok_update [OF time inv spares_refl [OF sinv], of "Settled r" i] by simp
  next
    case (time_passes t)
    have "covered lv (fc i) late t due (fs_server s)" if "fs_calls s i = Working (Some due)" for i due
    proof -
      have "covered lv (fc i) late (fs_now s) due (fs_server s)" using inv that by (simp add: leases_ok_def)
      then show ?thesis using time_passes(2) time_passes(3) [OF that] by (auto simp: covered_def)
    qed
    then show ?thesis using sinv time_passes(1) by (simp add: leases_ok_def)
  qed
qed

lemma leases_ok_reachable:
  assumes "lock_server cl lv" "timely fc late" "lv_inv lv c" "(flight_step cl fc late)\<^sup>*\<^sup>* (flight_start t c) s"
  shows "leases_ok lv fc late s"
  using assms(4)
proof (induction rule: rtranclp_induct)
  case base
  then show ?case using assms(3) by (simp add: leases_ok_def flight_start_def)
next
  case (step s s')
  then show ?case using leases_ok_step [OF assms(1,2)] by blast
qed

subsection \<open>A lock server\<close>

type_synonym lock_table = "string \<Rightarrow> (string \<times> real) option"

definition table_held :: "real \<Rightarrow> lock_table \<Rightarrow> string \<Rightarrow> string option" where
  "table_held t c k = (case c k of None \<Rightarrow> None | Some (v, e) \<Rightarrow> if t < e then Some v else None)"

definition table_client :: "real \<Rightarrow> lock_table lock_client" where
  \<comment> \<open>every command takes \<open>d\<close> milliseconds\<close>
  "table_client d = \<lparr>
     lc_duration = (\<lambda>_. d),
     lc_set_nx = (\<lambda>t k v lease c. if table_held t c k = None then (Inr (Some ''OK''), c(k \<mapsto> (v, t + lease))) else (Inr None, c)),
     lc_get = (\<lambda>t k c. (Inr (table_held t c k), c)),
     lc_del = (\<lambda>t k c. (Inr 1, c(k := None))),
     lc_pexpire = (\<lambda>t k lease c. case table_held t c k of None \<Rightarrow> (Inr 0, c(k := None)) | Some v \<Rightarrow> (Inr 1, c(k \<mapsto> (v, t + lease))))\<rparr>"

definition table_view :: "lock_table lock_view" where
  "table_view = \<lparr>lv_inv = (\<lambda>_. True), lv_held = table_held\<rparr>"

lemma table_serves: "lock_server (table_client d) table_view"
proof -
  have held: "table_held t' (c(k \<mapsto> (v, e))) k' = (if k' = k then if t' < e then Some v else None else table_held t' c k')"
    "table_held t' (c(k := None)) k' = (if k' = k then None else table_held t' c k')" for t' c k v e k'
    by (simp_all add: table_held_def)
  show ?thesis
    unfolding lock_server_def
    by (intro allI impI conjI)
      (auto simp: table_client_def table_view_def locks_to_def held split: option.splits)
qed

definition demo_flight :: "nat \<Rightarrow> flight_call" where
  "demo_flight i = \<lparr>fc_coordinator = \<lparr>co_prefix = ''sf'', co_commandTimeoutMs = Some 50\<rparr>, fc_key = ''k'', fc_token = decimal i,
     fc_options = \<lparr>fo_leaseMs = 1000, fo_renewIntervalMs = None\<rparr>\<rparr>"

lemma demo_options: "good_options (fc_options (demo_flight i))" "renewal_interval (fc_options (demo_flight i)) = Some 500"
  by (simp_all add: good_options_def demo_flight_def math_ceil_def renewal_interval_def math_floor_def Let_def)

lemma demo_timely: "timely demo_flight 100"
proof -
  have "inj (\<lambda>i. fc_token (demo_flight i))" by (rule injI) (auto simp: demo_flight_def dest: decimal_inj)
  then show ?thesis by (simp add: timely_def demo_options) (simp add: demo_flight_def)
qed

subsection \<open>The properties\<close>

text \<open>
  C27: one worker per key. Whatever the interleaving of calls in any number of processes, while leases are renewed
  and no renewal is later than its lease allows, at most one call per key runs its worker at a time: no
  call takes, renews or releases a lock that another one holds.
\<close>

theorem single_flight_excludes:
  assumes "lock_server cl lv" "timely fc late" "lv_inv lv c" "(flight_step cl fc late)\<^sup>*\<^sup>* (flight_start t c) s"
  shows "\<exists>i. {j. fc_lock (fc j) = lock \<and> (\<exists>due. fs_calls s j = Working (Some due))} \<subseteq> {i}"
proof -
  have ok: "leases_ok lv fc late s" using assms by (rule leases_ok_reachable)
  have held: "lv_held lv (fs_now s) (fs_server s) (fc_lock (fc j)) = Some (fc_token (fc j))" if "fs_calls s j = Working (Some due)" for j due
    using working_holds [OF assms(2) ok that] .
  have same: "i = j" if "fs_calls s i = Working (Some due)" "fs_calls s j = Working (Some due')" "fc_lock (fc i) = fc_lock (fc j)" for i j due due'
    using held [OF that(1)] held [OF that(2)] that(3) assms(2) by (auto simp: timely_def dest: injD)
  show ?thesis using same by (cases "\<exists>i due. fc_lock (fc i) = lock \<and> fs_calls s i = Working (Some due)") blast+
qed

lemma demo_first_flight:
  "flight_step (table_client 10) demo_flight 100 (flight_start 0 (\<lambda>_. None))
     ((flight_start 0 (\<lambda>_. None) :: (lock_table, nat) flight_system)
        \<lparr>fs_calls := (\<lambda>_. Arriving)(0 := Working (Some 500)), fs_server := [fc_lock (demo_flight 0) \<mapsto> (fc_token (demo_flight 0), 1000)]\<rparr>)"
proof -
  have "sf_acquire (table_client 10) (demo_flight 0) 0 (\<lambda>_. None) =
      (Working (Some 500), [fc_lock (demo_flight 0) \<mapsto> (fc_token (demo_flight 0), 1000)])"
    by (simp add: sf_acquire_def sf_runCommand_def table_client_def table_held_def demo_options)
      (simp add: demo_flight_def renewal_interval_def math_floor_def Let_def)
  then show ?thesis
    using flight_step.acquires [where s = "flight_start 0 (\<lambda>_. None) :: (lock_table, nat) flight_system" and i = 0
        and cl = "table_client 10" and fc = demo_flight] by (simp add: flight_start_def)
qed

theorem single_flight_excludes_witness:
  "\<exists>i. {j. fc_lock (demo_flight j) = fc_lock (demo_flight 0) \<and> (\<exists>due. (((\<lambda>_. Arriving)(0 := Working (Some 500))) j :: nat flight) = Working (Some due))} \<subseteq> {i}"
  using single_flight_excludes [OF table_serves demo_timely _ r_into_rtranclp [where r = "flight_step (table_client 10) demo_flight 100", OF demo_first_flight], where lock = "fc_lock (demo_flight 0)"]
  by (simp add: table_view_def)

definition in_time :: "'c lock_client \<Rightarrow> flight_call \<Rightarrow> 'c \<Rightarrow> bool" where
  \<comment> \<open>the next command is answered before the call's timer\<close>
  "in_time cl fc c \<longleftrightarrow> (case co_commandTimeoutMs (fc_coordinator fc) of None \<Rightarrow> True | Some timeout \<Rightarrow> lc_duration cl c \<le> timeout)"

text \<open>
  The lock is handed over. When a worker whose lease is renewed in time settles and its release is answered, the
  call returns the worker's own result and the next call for the key runs its worker. If the answer of the release
  is late the call rejects, and the result of the worker is lost.
\<close>

theorem single_flight_hands_over:
  assumes "lock_server cl lv" "timely fc late" "lv_inv lv c" "(flight_step cl fc late)\<^sup>*\<^sup>* (flight_start t c) s"
    and "fs_calls s i = Working (Some due)" "sf_release cl (fc i) (fs_now s) r (fs_server s) = (p, c')"
    and "fc_lock (fc j) = fc_lock (fc i)" "in_time cl (fc j) c'" "sf_acquire cl (fc j) (fs_now s) c' = (q, c'')"
  shows "(p = Settled r \<or> (\<exists>operation. p = Settled (Inl (TaskTimeout operation)))) \<and>
    (in_time cl (fc i) (fs_server s) \<longrightarrow> p = Settled r) \<and> (\<exists>due. q = Working due)"
proof -
  have ok: "leases_ok lv fc late s" using assms(1-4) by (rule leases_ok_reachable)
  then have inv: "lv_inv lv (fs_server s)" and held: "lv_held lv (fs_now s) (fs_server s) (fc_lock (fc i)) = Some (fc_token (fc i))"
    using working_holds [OF assms(2) ok assms(5)] by (simp_all add: leases_ok_def)
  note o = release_outcome [OF assms(1) inv assms(6)]
  obtain n c1 where "RELEASE_SCRIPT cl (fs_now s) (fc_lock (fc i)) (fc_token (fc i)) (fs_server s) = (Inr n, c1)"
    using release_effect [OF assms(1) inv] by blast
  then have "p = Settled r \<or> (\<exists>operation. p = Settled (Inl (TaskTimeout operation)))"
    "in_time cl (fc i) (fs_server s) \<longrightarrow> p = Settled r"
    using assms(6) by (auto simp: in_time_def sf_release_def sf_runCommand_def split: option.splits if_splits)
  moreover have "\<exists>due. q = Working due"
  proof -
    have inv': "lv_inv lv c'" using o(2) by (simp add: spares_def)
    have good: "good_options (fc_options (fc j))" using assms(2) by (simp add: timely_def)
    obtain c2 where "lc_set_nx cl (fs_now s) (fc_lock (fc j)) (fc_token (fc j)) (fo_leaseMs (fc_options (fc j))) c' = (Inr (Some ''OK''), c2)"
      using serves_set_nx [OF assms(1) inv' good, of "fs_now s" "fc_lock (fc j)" "fc_token (fc j)"] o(3) [OF held] assms(7) by auto
    then show ?thesis using assms(8,9) by (auto simp: in_time_def sf_acquire_def sf_runCommand_def split: option.splits if_splits)
  qed
  ultimately show ?thesis by blast
qed

theorem single_flight_hands_over_witness:
  "\<exists>p c' q c'' due. sf_release (table_client 10) (demo_flight 0) 0 (Inr (7 :: nat))
      [fc_lock (demo_flight 0) \<mapsto> (fc_token (demo_flight 0), 1000)] = (p, c') \<and> p = Settled (Inr 7) \<and>
    sf_acquire (table_client 10) (demo_flight 1) 0 c' = (q, c'') \<and> q = (Working due :: nat flight)"
proof -
  let ?s = "(flight_start 0 (\<lambda>_. None) :: (lock_table, nat) flight_system)
      \<lparr>fs_calls := (\<lambda>_. Arriving)(0 := Working (Some 500)), fs_server := [fc_lock (demo_flight 0) \<mapsto> (fc_token (demo_flight 0), 1000)]\<rparr>"
  obtain p c' where p: "sf_release (table_client 10) (demo_flight 0) 0 (Inr (7 :: nat))
      [fc_lock (demo_flight 0) \<mapsto> (fc_token (demo_flight 0), 1000)] = (p, c')" by fastforce
  obtain q :: "nat flight" and c'' where q: "sf_acquire (table_client 10) (demo_flight 1) 0 c' = (q, c'')" by fastforce
  have reach: "(flight_step (table_client 10) demo_flight 100)\<^sup>*\<^sup>* (flight_start 0 (\<lambda>_. None)) ?s" by (rule r_into_rtranclp) (rule demo_first_flight)
  have inv: "lv_inv table_view (\<lambda>_. None)" by (simp add: table_view_def)
  have works: "fs_calls ?s 0 = Working (Some 500)" by simp
  have p': "sf_release (table_client 10) (demo_flight 0) (fs_now ?s) (Inr 7) (fs_server ?s) = (p, c')" using p by (simp add: flight_start_def)
  have q': "sf_acquire (table_client 10) (demo_flight 1) (fs_now ?s) c' = (q, c'')" using q by (simp add: flight_start_def)
  have time: "in_time (table_client 10) (demo_flight i) c" for i c by (simp add: in_time_def demo_flight_def table_client_def)
  have lock: "fc_lock (demo_flight 1) = fc_lock (demo_flight 0)" by (simp add: fc_lock_def demo_flight_def)
  show ?thesis
    using single_flight_hands_over [OF table_serves demo_timely inv reach works p' lock time q'] time p q by blast
qed

text \<open>
  An acquisition whose answer is late blocks its key. The server has taken the lock although the call
  rejects and nobody will release it: until the lease has run out no call for the key runs its worker.
\<close>

theorem late_acquisition_blocks_key:
  assumes "lock_server cl lv" "lv_inv lv c" "good_options (fc_options fc)" "lv_held lv t c (fc_lock fc) = None"
    and "co_commandTimeoutMs (fc_coordinator fc) = Some timeout" "timeout \<noteq> 0" "timeout < lc_duration cl c"
  shows "\<exists>c1. sf_acquire cl fc t c = (Settled (Inl (TaskTimeout (sf_op ''acquire'' (fc_key fc)))) :: 'a flight, c1) \<and>
    (\<forall>t' other. t \<le> t' \<and> t' < t + fo_leaseMs (fc_options fc) \<and> fc_lock other = fc_lock fc \<and> good_options (fc_options other) \<longrightarrow>
       \<not> (\<exists>due c2. sf_acquire cl other t' c1 = (Working due :: 'a flight, c2)))"
proof -
  obtain p :: "'a flight" and c1 where a: "sf_acquire cl fc t c = (p, c1)" by fastforce
  note o = acquire_outcome [OF assms(1-3) a]
  obtain r where "lc_set_nx cl t (fc_lock fc) (fc_token fc) (fo_leaseMs (fc_options fc)) c = (r, c1)" "p = Settled (Inl (TaskTimeout (sf_op ''acquire'' (fc_key fc))))"
    using a assms(5-7) serves_set_nx [OF assms(1-3), of t "fc_lock fc" "fc_token fc"] by (auto simp: sf_acquire_def sf_runCommand_def)
  moreover have "\<not> (\<exists>due c2. sf_acquire cl other t' c1 = (Working due :: 'a flight, c2))"
    if o': "t \<le> t'" "t' < t + fo_leaseMs (fc_options fc)" "fc_lock other = fc_lock fc" "good_options (fc_options other)" for t' other
  proof -
    have inv: "lv_inv lv c1" and held: "lv_held lv t' c1 (fc_lock other) = Some (fc_token fc)"
      using o(1,3) assms(4) o' by (simp_all add: spares_def)
    obtain c2 where "lc_set_nx cl t' (fc_lock other) (fc_token other) (fo_leaseMs (fc_options other)) c1 = (Inr None, c2)"
      using serves_set_nx [OF assms(1) inv o'(4), of t' "fc_lock other" "fc_token other"] held by auto
    then show ?thesis by (auto simp: sf_acquire_def sf_runCommand_def split: option.splits if_splits)
  qed
  ultimately show ?thesis using a by (intro exI [of _ c1] conjI allI impI) (simp, blast)
qed

theorem late_acquisition_blocks_key_witness:
  "\<exists>c1. sf_acquire (table_client 80) (demo_flight 0) 0 (\<lambda>_. None) = (Settled (Inl (TaskTimeout (sf_op ''acquire'' ''k''))) :: nat flight, c1) \<and>
    \<not> (\<exists>due c2. sf_acquire (table_client 80) (demo_flight 1) 999 c1 = (Working due :: nat flight, c2))"
proof -
  have inv: "lv_inv table_view (\<lambda>_. None)" and free: "lv_held table_view 0 (\<lambda>_. None) (fc_lock (demo_flight 0)) = None"
    by (simp_all add: table_view_def table_held_def)
  have timeout: "co_commandTimeoutMs (fc_coordinator (demo_flight 0)) = Some 50" and late: "50 < lc_duration (table_client 80) (\<lambda>_. None)"
    and lock: "fc_lock (demo_flight 1) = fc_lock (demo_flight 0)" and lease: "fo_leaseMs (fc_options (demo_flight 0)) = 1000" and key: "fc_key (demo_flight 0) = ''k''"
    by (simp_all add: demo_flight_def fc_lock_def table_client_def)
  show ?thesis
    using late_acquisition_blocks_key [where 'a = nat, OF table_serves inv demo_options(1) free timeout _ late] demo_options(1) [of 1] lock
    by (simp add: lease key) (elim exE conjE, rule exI, rule conjI, assumption, simp)
qed

end
