(* ===== verification/GenerationStore.thy ===== *)
theory GenerationStore
  imports Stack JsonText
begin

text \<open>
  The generation store on Redis (\<open>src/src/generation/RedisGenerationStore.ts\<close>): one key holds the active generation as
  decimal text. The client is an argument; \<open>generation_server\<close> states the documented behaviour of its three commands.
  A number that \<open>parseInt\<close> reads is exact up to \<open>2^53 - 1\<close>; a larger one is no safe integer, rounded or not.

  Lemmas: exactly the canonical texts of safe integers are accepted; what is set or bumped is read back; a bump past
  the largest safe integer makes the store unreadable.
\<close>

subsection \<open>Client\<close>

record 'c generation_client =
  gc_get :: "string \<Rightarrow> ('c, string option) action"
  gc_set :: "string \<Rightarrow> string \<Rightarrow> bool \<Rightarrow> ('c, unit) action"   \<comment> \<open>the flag is \<open>NX\<close>\<close>
  gc_incr :: "string \<Rightarrow> ('c, int) action"

subsection \<open>Store\<close>

definition DEFAULT_GENERATION_KEY :: string where
  "DEFAULT_GENERATION_KEY = ''layercache:generation''"

definition new_generation_store :: "string option \<Rightarrow> string" where
  \<comment> \<open>a store is its key\<close>
  "new_generation_store key = nullish key DEFAULT_GENERATION_KEY"

definition max_safe :: nat where "max_safe = 9007199254740991"

definition isGeneration :: "jsnum \<Rightarrow> bool" where
  "isGeneration value = (case value of Fin x \<Rightarrow> is_whole x \<and> \<bar>x\<bar> \<le> real max_safe \<and> x \<ge> 0 | _ \<Rightarrow> False)"

definition assertGeneration :: "jsnum \<Rightarrow> unit result" where
  "assertGeneration value =
    (if isGeneration value then Inr () else Inl (MustBeNonNegative ''RedisGenerationStore generation''))"

definition js_blank :: "char \<Rightarrow> bool" where
  "js_blank ch \<longleftrightarrow> (of_char ch :: nat) \<in> {9, 10, 11, 12, 13, 32, 160}"

definition parseInt :: "string \<Rightarrow> int option" where
  \<comment> \<open>\<open>Number.parseInt(text, 10)\<close>; \<open>None\<close> is \<open>NaN\<close>\<close>
  "parseInt text =
    (let s = dropWhile js_blank text;
         negative = take 1 s = ''-'';
         ds = takeWhile is_digit (if take 1 s = ''-'' \<or> take 1 s = ''+'' then drop 1 s else s) in
     if ds = [] then None else Some (if negative then - int (digits_value ds) else int (digits_value ds)))"

definition parseGeneration :: "string \<Rightarrow> string \<Rightarrow> nat result" where
  "parseGeneration store text =
    (case parseInt text of
       None \<Rightarrow> Inl (OtherError (''RedisGenerationStore found invalid persisted generation value for key '' @ store))
     | Some generation \<Rightarrow>
         if int_text generation \<noteq> text \<or> \<not> isGeneration (Fin (of_int generation))
         then Inl (OtherError (''RedisGenerationStore found invalid persisted generation value for key '' @ store))
         else Inr (nat generation))"

definition gs_get :: "'c generation_client \<Rightarrow> string \<Rightarrow> ('c, nat option) action" where
  "gs_get cl store =
    andthen (gc_get cl store) (\<lambda>stored c. case stored of
        None \<Rightarrow> (Inr None, c)
      | Some text \<Rightarrow> (map_sum id Some (parseGeneration store text), c))"

definition generation_text :: "jsnum \<Rightarrow> string" where
  \<comment> \<open>\<open>String(n)\<close> of a number that passed \<open>assertGeneration\<close>\<close>
  "generation_text value = (case value of Fin x \<Rightarrow> decimal (nat \<lfloor>x\<rfloor>) | _ \<Rightarrow> [])"

definition gs_getOrInitialize :: "'c generation_client \<Rightarrow> string \<Rightarrow> jsnum option \<Rightarrow> ('c, nat) action" where
  "gs_getOrInitialize cl store initial c =
    (let initialGeneration = nullish initial (Fin 0) in
     case assertGeneration initialGeneration of
       Inl e \<Rightarrow> (Inl e, c)
     | Inr _ \<Rightarrow>
         andthen (gc_set cl store (generation_text initialGeneration) True) (\<lambda>_. andthen (gs_get cl store) (\<lambda>generation.
           case generation of
             None \<Rightarrow> throw_error (OtherError (''RedisGenerationStore failed to initialize generation key '' @ store))
           | Some g \<Rightarrow> ret g)) c)"

definition gs_set :: "'c generation_client \<Rightarrow> string \<Rightarrow> jsnum \<Rightarrow> ('c, unit) action" where
  "gs_set cl store generation c =
    (case assertGeneration generation of
       Inl e \<Rightarrow> (Inl e, c)
     | Inr _ \<Rightarrow> gc_set cl store (generation_text generation) False c)"

definition gs_bump :: "'c generation_client \<Rightarrow> string \<Rightarrow> ('c, int) action" where
  "gs_bump cl store =
    andthen (gc_incr cl store) (\<lambda>generation c.
      case assertGeneration (Fin (of_int generation)) of Inl e \<Rightarrow> (Inl e, c) | Inr _ \<Rightarrow> (Inr generation, c))"

subsection \<open>The server\<close>

definition generation_server :: "'c generation_client \<Rightarrow> ('c \<Rightarrow> string \<Rightarrow> string option) \<Rightarrow> bool" where
  \<comment> \<open>\<open>INCR\<close> counts a missing value as zero\<close>
  "generation_server cl stored \<longleftrightarrow> (\<forall>c k.
     (\<exists>c'. gc_get cl k c = (Inr (stored c k), c') \<and> stored c' = stored c) \<and>
     (\<forall>v nx. \<exists>c'. gc_set cl k v nx c = (Inr (), c') \<and> stored c' = (if nx \<and> stored c k \<noteq> None then stored c else (stored c)(k \<mapsto> v))) \<and>
     (\<forall>n \<le> max_safe. (case stored c k of None \<Rightarrow> n = 0 | Some text \<Rightarrow> text = decimal n) \<longrightarrow>
        (\<exists>c'. gc_incr cl k c = (Inr (int n + 1), c') \<and> stored c' = (stored c)(k \<mapsto> decimal (n + 1)))))"

lemma generation_serves:
  assumes "generation_server cl stored"
  shows serves_gen_get: "\<exists>c'. gc_get cl k c = (Inr (stored c k), c') \<and> stored c' = stored c"
    and serves_gen_set: "\<exists>c'. gc_set cl k v nx c = (Inr (), c') \<and> stored c' = (if nx \<and> stored c k \<noteq> None then stored c else (stored c)(k \<mapsto> v))"
    and serves_gen_incr: "n \<le> max_safe \<Longrightarrow> (case stored c k of None \<Rightarrow> n = 0 | Some text \<Rightarrow> text = decimal n) \<Longrightarrow>
        \<exists>c'. gc_incr cl k c = (Inr (int n + 1), c') \<and> stored c' = (stored c)(k \<mapsto> decimal (n + 1))"
  using assms [unfolded generation_server_def, THEN spec [of _ c], THEN spec [of _ k]] by blast+

subsection \<open>Parsing\<close>

lemma parseInt_decimal: "parseInt (decimal n) = Some (int n)"
proof -
  obtain c s where d: "decimal n = c # s" by (cases "decimal n") simp_all
  have c: "is_digit c" using decimal_is_digit [of c n] d by simp
  then have "\<not> js_blank c" "c \<noteq> CHR ''-''" "c \<noteq> CHR ''+''" by (auto simp: is_digit_def js_blank_def)
  then have "dropWhile js_blank (decimal n) = decimal n" "take 1 (decimal n) \<noteq> ''-''" "take 1 (decimal n) \<noteq> ''+''" by (simp_all add: d)
  then show ?thesis
    using takeWhile_decimal(1) [of "[]" n] by (simp add: parseInt_def Let_def digits_value_decimal number_ends_def del: takeWhile_eq_all_conv)
qed

lemma isGeneration_int: "isGeneration (Fin (of_int n)) \<longleftrightarrow> 0 \<le> n \<and> n \<le> int max_safe"
  by (auto simp: isGeneration_def is_whole_def max_safe_def)

lemma generation_of_nat: "isGeneration (Fin (real n)) \<longleftrightarrow> n \<le> max_safe"
  using isGeneration_int [of "int n"] by simp

lemma parseGeneration_iff: "parseGeneration store text = Inr n \<longleftrightarrow> text = decimal n \<and> n \<le> max_safe"
proof
  assume "parseGeneration store text = Inr n"
  then obtain g where "int_text g = text" "isGeneration (Fin (of_int g))" "n = nat g"
    by (auto simp: parseGeneration_def split: option.splits if_splits)
  then show "text = decimal n \<and> n \<le> max_safe" by (auto simp: isGeneration_int int_text_def)
next
  assume "text = decimal n \<and> n \<le> max_safe"
  then show "parseGeneration store text = Inr n"
    by (simp add: parseGeneration_def parseInt_decimal int_text_def generation_of_nat)
qed

lemma gs_get_value:
  assumes "generation_server cl stored"
  shows "\<exists>c'. gs_get cl k c = (case stored c k of None \<Rightarrow> Inr None | Some text \<Rightarrow> map_sum id Some (parseGeneration k text), c') \<and> stored c' = stored c"
  using serves_gen_get [OF assms, of k c] by (auto simp: gs_get_def andthen_def split: option.splits)

text \<open>
  A generation survives the store. After setting a generation, a read returns it; a bump returns its successor,
  which the next read returns too; initialising a store that has a generation keeps that generation, and initialising
  an empty one stores and returns the given one.
\<close>

theorem generation_store_round_trip:
  assumes "generation_server cl stored" "n < max_safe"
  shows "(\<exists>c1 c2 c3 c4 c5. gs_set cl k (Fin (real n)) c = (Inr (), c1) \<and> gs_get cl k c1 = (Inr (Some n), c2) \<and>
      gs_bump cl k c2 = (Inr (int n + 1), c3) \<and> gs_get cl k c3 = (Inr (Some (n + 1)), c4) \<and>
      gs_getOrInitialize cl k initial c4 = ((if isGeneration (nullish initial (Fin 0)) then Inr (n + 1) else Inl (MustBeNonNegative ''RedisGenerationStore generation'')), c5)) \<and>
    (stored c k = None \<longrightarrow> (\<exists>c'. gs_getOrInitialize cl k (Some (Fin (real n))) c = (Inr n, c')))"
proof -
  have n: "n \<le> max_safe" "n + 1 \<le> max_safe" using assms(2) by simp_all
  obtain c1 where s: "gs_set cl k (Fin (real n)) c = (Inr (), c1)" "stored c1 k = Some (decimal n)"
    using serves_gen_set [OF assms(1), of k "decimal n" False c] generation_of_nat [of n] n(1)
    by (auto simp: gs_set_def assertGeneration_def generation_text_def)
  obtain c2 where g: "gs_get cl k c1 = (Inr (Some n), c2)" "stored c2 k = Some (decimal n)"
    using gs_get_value [OF assms(1), of k c1] s(2) parseGeneration_iff [of k "decimal n" n] n(1) by auto
  obtain c3 where b: "gs_bump cl k c2 = (Inr (int n + 1), c3)" "stored c3 k = Some (decimal (n + 1))"
    using serves_gen_incr [OF assms(1) n(1), of c2 k] g(2) isGeneration_int [of "int n + 1"] n(2)
    by (auto simp: gs_bump_def andthen_def assertGeneration_def)
  obtain c4 where r: "gs_get cl k c3 = (Inr (Some (n + 1)), c4)" "stored c4 k = Some (decimal (n + 1))"
    using gs_get_value [OF assms(1), of k c3] b(2) parseGeneration_iff [of k "decimal (n + 1)" "n + 1"] n(2) by auto
  have "\<exists>c5. gs_getOrInitialize cl k initial c4 = ((if isGeneration (nullish initial (Fin 0)) then Inr (n + 1) else Inl (MustBeNonNegative ''RedisGenerationStore generation'')), c5)"
  proof (cases "isGeneration (nullish initial (Fin 0))")
    case True
    obtain c5 where i: "gc_set cl k (generation_text (nullish initial (Fin 0))) True c4 = (Inr (), c5)" "stored c5 k = Some (decimal (n + 1))"
      using serves_gen_set [OF assms(1), of k "generation_text (nullish initial (Fin 0))" True c4] r(2) by auto
    obtain c6 where "gs_get cl k c5 = (Inr (Some (n + 1)), c6)"
      using gs_get_value [OF assms(1), of k c5] i(2) parseGeneration_iff [of k "decimal (n + 1)" "n + 1"] n(2) by auto
    then show ?thesis using True i(1) by (simp add: gs_getOrInitialize_def Let_def assertGeneration_def andthen_def ret_def)
  next
    case False
    then show ?thesis by (simp add: gs_getOrInitialize_def Let_def assertGeneration_def)
  qed
  then have "\<exists>c1 c2 c3 c4 c5. gs_set cl k (Fin (real n)) c = (Inr (), c1) \<and> gs_get cl k c1 = (Inr (Some n), c2) \<and>
      gs_bump cl k c2 = (Inr (int n + 1), c3) \<and> gs_get cl k c3 = (Inr (Some (n + 1)), c4) \<and>
      gs_getOrInitialize cl k initial c4 = ((if isGeneration (nullish initial (Fin 0)) then Inr (n + 1) else Inl (MustBeNonNegative ''RedisGenerationStore generation'')), c5)"
    using s(1) g(1) b(1) r(1) by blast
  moreover have "\<exists>c'. gs_getOrInitialize cl k (Some (Fin (real n))) c = (Inr n, c')" if "stored c k = None"
  proof -
    obtain c1 where i: "gc_set cl k (decimal n) True c = (Inr (), c1)" "stored c1 k = Some (decimal n)"
      using serves_gen_set [OF assms(1), of k "decimal n" True c] \<open>stored c k = None\<close> by auto
    obtain c2 where "gs_get cl k c1 = (Inr (Some n), c2)"
      using gs_get_value [OF assms(1), of k c1] i(2) parseGeneration_iff [of k "decimal n" n] n(1) by auto
    then show ?thesis using i(1) generation_of_nat [of n] n(1)
      by (simp add: gs_getOrInitialize_def Let_def assertGeneration_def generation_text_def andthen_def ret_def)
  qed
  ultimately show ?thesis by blast
qed

text \<open>
  A bump at the largest safe integer breaks the store. It throws after the server has counted on, and from then
  on every read throws as well, until the generation is set anew.
\<close>

theorem bump_past_safe_integers_breaks_store:
  assumes "generation_server cl stored" "stored c k = Some (decimal max_safe)"
  shows "\<exists>e c1. gs_bump cl k c = (Inl e, c1) \<and> (\<exists>e c2. gs_get cl k c1 = (Inl e, c2)) \<and>
    (\<forall>initial. \<exists>e c2. gs_getOrInitialize cl k initial c1 = (Inl e, c2)) \<and>
    (\<forall>n \<le> max_safe. \<exists>c2 c3. gs_set cl k (Fin (real n)) c1 = (Inr (), c2) \<and> gs_get cl k c2 = (Inr (Some n), c3))"
proof -
  obtain c1 where b: "gc_incr cl k c = (Inr (int max_safe + 1), c1)" "stored c1 k = Some (decimal (max_safe + 1))"
    using serves_gen_incr [OF assms(1), of max_safe c k] assms(2) by auto
  have bad: "\<exists>e. parseGeneration k (decimal (max_safe + 1)) = Inl e"
    using parseGeneration_iff [of k "decimal (max_safe + 1)"] decimal_inj by (cases "parseGeneration k (decimal (max_safe + 1))") fastforce+
  then have get: "\<exists>e c2. gs_get cl k c' = (Inl e, c2)" if "stored c' k = Some (decimal (max_safe + 1))" for c'
    using gs_get_value [OF assms(1), of k c'] that by auto
  have "\<exists>e c2. gs_getOrInitialize cl k initial c1 = (Inl e, c2)" for initial
  proof (cases "isGeneration (nullish initial (Fin 0))")
    case True
    obtain c2 where i: "gc_set cl k (generation_text (nullish initial (Fin 0))) True c1 = (Inr (), c2)" "stored c2 k = Some (decimal (max_safe + 1))"
      using serves_gen_set [OF assms(1), of k "generation_text (nullish initial (Fin 0))" True c1] b(2) by auto
    then show ?thesis using get [OF i(2)] True by (auto simp: gs_getOrInitialize_def Let_def assertGeneration_def andthen_def)
  next
    case False
    then show ?thesis by (simp add: gs_getOrInitialize_def Let_def assertGeneration_def)
  qed
  moreover have "\<exists>c2 c3. gs_set cl k (Fin (real n)) c1 = (Inr (), c2) \<and> gs_get cl k c2 = (Inr (Some n), c3)" if n: "n \<le> max_safe" for n
  proof -
    obtain c2 where "gs_set cl k (Fin (real n)) c1 = (Inr (), c2)" "stored c2 k = Some (decimal n)"
      using serves_gen_set [OF assms(1), of k "decimal n" False c1] generation_of_nat [of n] n
      by (auto simp: gs_set_def assertGeneration_def generation_text_def)
    then show ?thesis using gs_get_value [OF assms(1), of k c2] parseGeneration_iff [of k "decimal n" n] n by auto
  qed
  moreover have "gs_bump cl k c = (Inl (MustBeNonNegative ''RedisGenerationStore generation''), c1)"
    using b(1) isGeneration_int [of "int max_safe + 1"] by (simp add: gs_bump_def andthen_def assertGeneration_def)
  ultimately show ?thesis using get [OF b(2)] by blast
qed

subsection \<open>Witnesses\<close>

definition map_server :: "(string \<Rightarrow> string option) generation_client" where
  "map_server = \<lparr>
     gc_get = (\<lambda>k c. (Inr (c k), c)),
     gc_set = (\<lambda>k v nx c. (Inr (), if nx \<and> c k \<noteq> None then c else c(k \<mapsto> v))),
     gc_incr = (\<lambda>k c. case c k of
        None \<Rightarrow> (Inr 1, c(k \<mapsto> ''1''))
      | Some text \<Rightarrow> let n = digits_value text in (Inr (int n + 1), c(k \<mapsto> decimal (n + 1))))\<rparr>"

lemma map_server_serves: "generation_server map_server (\<lambda>c. c)"
proof -
  have "decimal (Suc 0) = ''1''" by (subst decimal.simps) (simp add: char_of_def bit_simps)
  then show ?thesis by (auto simp: generation_server_def map_server_def Let_def digits_value_decimal split: option.splits)
qed

theorem generation_store_round_trip_witness:
  "\<exists>c1 c2 c3 c4. gs_set map_server ''g'' (Fin 41) (\<lambda>_. None) = (Inr (), c1) \<and> gs_get map_server ''g'' c1 = (Inr (Some 41), c2) \<and>
    gs_bump map_server ''g'' c2 = (Inr 42, c3) \<and> gs_get map_server ''g'' c3 = (Inr (Some 42), c4)"
  using generation_store_round_trip [OF map_server_serves, of 41 "''g''" "\<lambda>_. None" None]
  by (simp add: max_safe_def del: ex_simps) blast

theorem bump_past_safe_integers_breaks_store_witness:
  "\<exists>e c1. gs_bump map_server ''g'' [''g'' \<mapsto> decimal max_safe] = (Inl e, c1) \<and> (\<exists>e c2. gs_get map_server ''g'' c1 = (Inl e, c2))"
  using bump_past_safe_integers_breaks_store [OF map_server_serves, of "[''g'' \<mapsto> decimal max_safe]" "''g''"] by auto

end
