(* ===== verification/MemcachedLayer.thy ===== *)
theory MemcachedLayer
  imports LayerContract Serializers
begin

text \<open>
  The Memcached layer (\<open>src/src/layers/MemcachedLayer.ts\<close>). The client is a record of its three commands, each an
  action on the state \<open>'c\<close> of the connection and the server. \<open>memcached_server\<close> states their documented behaviour on a
  view of the server that this client alone writes to.

  Lemmas: for TTLs of at most thirty days the layer keeps the contract of a layer with a coarse clock; an entry written with a longer
  TTL is gone at once, and one with a TTL of a second may be.
\<close>

subsection \<open>Client and options\<close>

record 'c memcached_client =
  mc_client_get :: "real \<Rightarrow> string \<Rightarrow> ('c, string option option) action"   \<comment> \<open>\<open>null\<close>, or an object whose \<open>value\<close> may be \<open>null\<close>\<close>
  mc_client_set :: "real \<Rightarrow> string \<Rightarrow> payload \<Rightarrow> real option \<Rightarrow> ('c, unit) action"   \<comment> \<open>\<open>expires\<close>, in seconds\<close>
  mc_client_delete :: "real \<Rightarrow> string \<Rightarrow> ('c, unit) action"

record memcached_options =
  mo_ttl :: "real option"
  mo_name :: "string option"
  mo_keyPrefix :: "string option"
  mo_serializer :: "serializer option"

record memcached_layer =
  mc_name :: string
  mc_defaultTtl :: "real option"
  mc_keyPrefix :: string
  mc_serializer :: serializer

definition new_memcached_layer :: "(real \<Rightarrow> string) \<Rightarrow> memcached_options \<Rightarrow> memcached_layer" where
  \<comment> \<open>the constructor; \<open>ft\<close> prints fractions in the default serializer\<close>
  "new_memcached_layer ft options =
    \<lparr>mc_name = nullish (mo_name options) ''memcached'', mc_defaultTtl = mo_ttl options, mc_keyPrefix = nullish (mo_keyPrefix options) [],
     mc_serializer = nullish (mo_serializer options) (json_serializer ft (json_serializer_options None None None))\<rparr>"

subsection \<open>Operations\<close>

definition mc_withPrefix :: "memcached_layer \<Rightarrow> string \<Rightarrow> string" where
  "mc_withPrefix ml key = mc_keyPrefix ml @ key"

definition mc_refused_char :: "char \<Rightarrow> bool" where
  \<comment> \<open>the class of white space and control characters\<close>
  "mc_refused_char ch \<longleftrightarrow> (of_char ch :: nat) \<le> 32 \<or> (of_char ch :: nat) \<in> {127, 160}"

definition mc_validateKey :: "memcached_layer \<Rightarrow> string \<Rightarrow> unit result" where
  "mc_validateKey ml key =
    (let fullKey = mc_withPrefix ml key in
     if length (utf8_encode fullKey) > 250 then Inl (TooLong ''MemcachedLayer: key'' 250)
     else if list_ex mc_refused_char fullKey then Inl (ControlCharacters ''MemcachedLayer: key'')
     else Inr ())"

definition mc_checked :: "memcached_layer \<Rightarrow> string \<Rightarrow> ('c, 'a) action \<Rightarrow> ('c, 'a) action" where
  \<comment> \<open>\<open>this.validateKey(key)\<close> before the rest of a method\<close>
  "mc_checked ml key rest c = (case mc_validateKey ml key of Inl e \<Rightarrow> (Inl e, c) | Inr _ \<Rightarrow> rest c)"

definition mc_getEntry :: "'c memcached_client \<Rightarrow> memcached_layer \<Rightarrow> real \<Rightarrow> string \<Rightarrow> ('c, js) action" where
  "mc_getEntry cl ml t key = mc_checked ml key (andthen (mc_client_get cl t (mc_withPrefix ml key)) (\<lambda>found c.
    case Option.bind found id of
      None \<Rightarrow> (Inr JNull, c)
    | Some b \<Rightarrow>
        (case sr_deserialize (mc_serializer ml) (PBytes b) of
           Inl _ \<Rightarrow> (Inr JNull, snd (mc_client_delete cl t (mc_withPrefix ml key) c))
         | Inr v \<Rightarrow> (Inr v, c))))"

definition mc_get :: "'c memcached_client \<Rightarrow> memcached_layer \<Rightarrow> real \<Rightarrow> string \<Rightarrow> ('c, js) action" where
  "mc_get cl ml t key = andthen (mc_getEntry cl ml t key) (\<lambda>stored. ret (unwrapStoredValue t stored))"

fun mc_getMany :: "'c memcached_client \<Rightarrow> memcached_layer \<Rightarrow> real \<Rightarrow> string list \<Rightarrow> ('c, js list) action" where
  \<comment> \<open>\<open>Promise.all\<close>: every read runs, the first error is reported\<close>
  "mc_getMany cl ml t [] c = (Inr [], c)"
| "mc_getMany cl ml t (key # keys) c =
    (case mc_getEntry cl ml t key c of (r, c1) \<Rightarrow> case mc_getMany cl ml t keys c1 of (rs, c2) \<Rightarrow>
       (bind_result r (\<lambda>v. map_sum id (Cons v) rs), c2))"

definition mc_expires :: "real option \<Rightarrow> real option" where
  "mc_expires ttl = (case ttl of Some x \<Rightarrow> if x > 0 then Some (math_ceil (x / 1000)) else None | None \<Rightarrow> None)"

definition mc_set :: "'c memcached_client \<Rightarrow> memcached_layer \<Rightarrow> real \<Rightarrow> string \<Rightarrow> js \<Rightarrow> real option \<Rightarrow> ('c, unit) action" where
  "mc_set cl ml t key v ttl = mc_checked ml key (\<lambda>c.
    case sr_serialize (mc_serializer ml) v of
      Inl e \<Rightarrow> (Inl e, c)
    | Inr payload \<Rightarrow> mc_client_set cl t (mc_withPrefix ml key) payload (mc_expires (nullish_opt ttl (mc_defaultTtl ml))) c)"

definition mc_has :: "'c memcached_client \<Rightarrow> memcached_layer \<Rightarrow> real \<Rightarrow> string \<Rightarrow> ('c, bool) action" where
  "mc_has cl ml t key = mc_checked ml key (andthen (mc_client_get cl t (mc_withPrefix ml key)) (\<lambda>found. ret (Option.bind found id \<noteq> None)))"

definition mc_delete :: "'c memcached_client \<Rightarrow> memcached_layer \<Rightarrow> real \<Rightarrow> string \<Rightarrow> ('c, unit) action" where
  "mc_delete cl ml t key = mc_checked ml key (mc_client_delete cl t (mc_withPrefix ml key))"

definition mc_deleteMany :: "'c memcached_client \<Rightarrow> memcached_layer \<Rightarrow> real \<Rightarrow> string list \<Rightarrow> ('c, unit) action" where
  "mc_deleteMany cl ml t keys = promise_all (map (mc_delete cl ml t) keys)"

definition mc_clear :: "('c, unit) action" where
  "mc_clear = throw_error (OtherError ''MemcachedLayer.clear() is not supported. Use a key prefix and rotate it to effectively invalidate all keys.'')"

definition memcached_api :: "'c memcached_client \<Rightarrow> memcached_layer \<Rightarrow> 'c layer_api" where
  "memcached_api cl ml = \<lparr>
     la_get = mc_get cl ml,
     la_getEntry = Some (mc_getEntry cl ml),
     la_getMany = Some (mc_getMany cl ml),
     la_set = mc_set cl ml,
     la_setMany = None,
     la_delete = mc_delete cl ml,
     la_deleteMany = Some (mc_deleteMany cl ml),
     la_clear = (\<lambda>_. mc_clear),
     la_has = Some (mc_has cl ml),
     la_ttl = None,
     la_keys = None,
     la_visited = (\<lambda>_ _. [])\<rparr>"

subsection \<open>The server\<close>

text \<open>
  What the protocol of Memcached documents. A key has one to 250 bytes and neither white space nor control characters; an item
  has a greatest size. An expiry of at most thirty days counts from the server's clock, a larger one is a date. The clock counts
  whole seconds, so an item with \<open>n\<close> seconds is there for at least \<open>n - 1\<close> seconds and gone after \<open>n + 1\<close>; in between it may
  be either. A server short of memory may drop any item when another one is stored. What \<open>mv_shown\<close> shows are the items the server
  would answer at a time if nothing more is written.
\<close>

record 'c memcached_view =
  mv_inv :: "'c \<Rightarrow> bool"
  mv_shown :: "real \<Rightarrow> 'c \<Rightarrow> string \<Rightarrow> string option"
  mv_limit :: nat   \<comment> \<open>a payload of at most so many bytes fits an item under every key\<close>

definition thirty_days :: real where "thirty_days = 2592000"

definition server_key :: "string \<Rightarrow> bool" where
  "server_key k \<longleftrightarrow> k \<noteq> [] \<and> length (utf8_encode k) \<le> 250 \<and> (\<forall>ch \<in> set k. 32 < (of_char ch :: nat) \<and> (of_char ch :: nat) \<noteq> 127)"

definition server_expiry :: "real option \<Rightarrow> bool" where
  \<comment> \<open>none, or a positive whole number of 31 bits\<close>
  "server_expiry expires \<longleftrightarrow> (case expires of None \<Rightarrow> True | Some n \<Rightarrow> 0 < n \<and> is_whole n \<and> n < 2147483648)"

definition expiry_date :: "real \<Rightarrow> real \<Rightarrow> real" where
  "expiry_date now n = (if n \<le> thirty_days then now + n * 1000 else n * 1000)"

definition surely_shown :: "real \<Rightarrow> real option \<Rightarrow> real \<Rightarrow> bool" where
  "surely_shown now expires t = (case expires of None \<Rightarrow> True | Some n \<Rightarrow> t < expiry_date now n - 1000)"

definition surely_gone :: "real \<Rightarrow> real option \<Rightarrow> real \<Rightarrow> bool" where
  "surely_gone now expires t = (case expires of None \<Rightarrow> False | Some n \<Rightarrow> expiry_date now n + 1000 \<le> t)"

definition server_get :: "'c memcached_client \<Rightarrow> 'c memcached_view \<Rightarrow> real \<Rightarrow> string \<Rightarrow> 'c \<Rightarrow> bool" where
  "server_get cl mv t k c \<longleftrightarrow> (\<exists>found c'. mc_client_get cl t k c = (Inr found, c') \<and> Option.bind found id = mv_shown mv t c k \<and> mv_inv mv c' \<and>
     (\<forall>t' k'. t \<le> t' \<longrightarrow> mv_shown mv t' c' k' = mv_shown mv t' c k'))"

definition server_set :: "'c memcached_client \<Rightarrow> 'c memcached_view \<Rightarrow> real \<Rightarrow> string \<Rightarrow> payload \<Rightarrow> real option \<Rightarrow> 'c \<Rightarrow> bool" where
  "server_set cl mv t k p expires c \<longleftrightarrow> (\<exists>c'. mc_client_set cl t k p expires c = (Inr (), c') \<and> mv_inv mv c' \<and>
     (\<forall>t'. t \<le> t' \<longrightarrow> mv_shown mv t' c' k \<in> {None, Some (payload_bytes p)}) \<and>
     (\<forall>t'. t \<le> t' \<longrightarrow> surely_shown t expires t' \<longrightarrow> mv_shown mv t' c' k = Some (payload_bytes p)) \<and>
     (\<forall>t'. t \<le> t' \<longrightarrow> surely_gone t expires t' \<longrightarrow> mv_shown mv t' c' k = None) \<and>
     (\<forall>t' k'. t \<le> t' \<longrightarrow> k' \<noteq> k \<longrightarrow> mv_shown mv t' c' k' = None \<or> mv_shown mv t' c' k' = mv_shown mv t' c k'))"

definition server_delete :: "'c memcached_client \<Rightarrow> 'c memcached_view \<Rightarrow> real \<Rightarrow> string \<Rightarrow> 'c \<Rightarrow> bool" where
  "server_delete cl mv t k c \<longleftrightarrow> (\<exists>c'. mc_client_delete cl t k c = (Inr (), c') \<and> mv_inv mv c' \<and>
     (\<forall>t' k'. t \<le> t' \<longrightarrow> mv_shown mv t' c' k' = (if k' = k then None else mv_shown mv t' c k')))"

definition memcached_server :: "'c memcached_client \<Rightarrow> 'c memcached_view \<Rightarrow> bool" where
  \<comment> \<open>commands on keys the protocol allows, with payloads that fit; an item that is gone stays gone\<close>
  "memcached_server cl mv \<longleftrightarrow>
     (\<forall>t c k. mv_inv mv c \<longrightarrow> server_key k \<longrightarrow> server_get cl mv t k c \<and> server_delete cl mv t k c \<and>
        (\<forall>p expires. length (payload_bytes p) \<le> mv_limit mv \<longrightarrow> server_expiry expires \<longrightarrow> server_set cl mv t k p expires c)) \<and>
     (\<forall>t t' c k b. t \<le> t' \<longrightarrow> mv_shown mv t' c k = Some b \<longrightarrow> mv_shown mv t c k = Some b)"

lemma mc_serves:
  assumes "memcached_server cl mv" "mv_inv mv c" "server_key k"
  shows serves_mc_get: "server_get cl mv t k c"
    and serves_mc_delete: "server_delete cl mv t k c"
    and serves_mc_set: "length (payload_bytes p) \<le> mv_limit mv \<Longrightarrow> server_expiry expires \<Longrightarrow> server_set cl mv t k p expires c"
  using assms unfolding memcached_server_def by blast+

subsection \<open>The contract\<close>

definition mc_read :: "memcached_layer \<Rightarrow> string option \<Rightarrow> js" where
  "mc_read ml shown = (case shown of None \<Rightarrow> JNull | Some b \<Rightarrow> (case sr_deserialize (mc_serializer ml) (PBytes b) of Inl _ \<Rightarrow> JNull | Inr v \<Rightarrow> v))"

definition memcached_contract :: "'c memcached_view \<Rightarrow> memcached_layer \<Rightarrow> 'c contract" where
  "memcached_contract mv ml = \<lparr>
     ct_ok = mv_inv mv,
     ct_answer = (\<lambda>t c k. mc_read ml (mv_shown mv t c (mc_withPrefix ml k))),
     ct_dflt = (\<lambda>_. mc_defaultTtl ml),
     ct_key = (\<lambda>k. mc_validateKey ml k = Inr () \<and> mc_withPrefix ml k \<noteq> []),
     ct_value = (\<lambda>v. case sr_serialize (mc_serializer ml) v of
        Inl _ \<Rightarrow> False | Inr p \<Rightarrow> length (payload_bytes p) \<le> mv_limit mv \<and> mc_read ml (Some (payload_bytes p)) = v),
     ct_ttl = (\<lambda>_ ttl. case nullish_opt ttl (mc_defaultTtl ml) of None \<Rightarrow> True | Some x \<Rightarrow> x \<le> thirty_days * 1000)\<rparr>"

definition memcached_lives :: "real \<Rightarrow> real option \<Rightarrow> real \<Rightarrow> bool" where
  \<comment> \<open>written at \<open>now\<close> with this TTL, surely still there at \<open>t\<close>: its seconds, rounded up, less one\<close>
  "memcached_lives now ttl t = (case ttl of None \<Rightarrow> True | Some x \<Rightarrow> x \<le> 0 \<or> t < now + (math_ceil (x / 1000) - 1) * 1000)"

definition memcached_over :: "real \<Rightarrow> real option \<Rightarrow> real \<Rightarrow> bool" where
  \<comment> \<open>surely gone at \<open>t\<close>: its seconds, rounded up, and one more have passed\<close>
  "memcached_over now ttl t = (case ttl of None \<Rightarrow> False | Some x \<Rightarrow> 0 < x \<and> now + (math_ceil (x / 1000) + 1) * 1000 \<le> t)"

lemma allowed_key: "mc_validateKey ml k = Inr () \<Longrightarrow> mc_withPrefix ml k \<noteq> [] \<Longrightarrow> server_key (mc_withPrefix ml k)"
  by (auto simp: mc_validateKey_def server_key_def mc_refused_char_def list_ex_iff Let_def split: if_splits)

lemma mc_withPrefix_inj [simp]: "mc_withPrefix ml k = mc_withPrefix ml k' \<longleftrightarrow> k = k'"
  by (simp add: mc_withPrefix_def)

lemma mc_expires_ok:
  assumes "case ttl of None \<Rightarrow> True | Some x \<Rightarrow> x \<le> thirty_days * 1000"
  shows "server_expiry (mc_expires ttl)" "surely_shown t (mc_expires ttl) t' \<longleftrightarrow> memcached_lives t ttl t'"
    "surely_gone t (mc_expires ttl) t' \<longleftrightarrow> memcached_over t ttl t'"
proof -
  have up: "0 < math_ceil (x / 1000)" "math_ceil (x / 1000) \<le> thirty_days" if "0 < x" "x \<le> thirty_days * 1000" for x
  proof -
    show "0 < math_ceil (x / 1000)" using math_ceil_ge [of "x / 1000"] that(1) by (simp add: less_le_trans [of 0 "x / 1000"])
    have "math_ceil (x / 1000) \<le> math_ceil thirty_days" using that(2) by (intro math_ceil_mono) simp
    then show "math_ceil (x / 1000) \<le> thirty_days" by (simp add: thirty_days_def math_ceil_def)
  qed
  show "server_expiry (mc_expires ttl)"
    using assms up by (force simp: server_expiry_def mc_expires_def is_whole_def math_ceil_def thirty_days_def split: option.splits)
  show "surely_shown t (mc_expires ttl) t' \<longleftrightarrow> memcached_lives t ttl t'"
    using assms up by (auto simp: surely_shown_def mc_expires_def memcached_lives_def expiry_date_def algebra_simps split: option.splits)
  show "surely_gone t (mc_expires ttl) t' \<longleftrightarrow> memcached_over t ttl t'"
    using assms up by (auto simp: surely_gone_def mc_expires_def memcached_over_def expiry_date_def algebra_simps split: option.splits)
qed

lemma mc_contract_read:
  assumes "memcached_server cl mv" "mv_inv mv c" "mc_validateKey ml k = Inr ()" "mc_withPrefix ml k \<noteq> []"
  shows "\<exists>c'. mc_getEntry cl ml t k c = (Inr (mc_read ml (mv_shown mv t c (mc_withPrefix ml k))), c') \<and> mv_inv mv c' \<and>
    (\<forall>t' k'. t \<le> t' \<longrightarrow> mc_read ml (mv_shown mv t' c' (mc_withPrefix ml k')) = mc_read ml (mv_shown mv t' c (mc_withPrefix ml k')))"
proof -
  let ?k = "mc_withPrefix ml k"
  note key = allowed_key [OF assms(3,4)]
  obtain found c1 where g: "mc_client_get cl t ?k c = (Inr found, c1)" "Option.bind found id = mv_shown mv t c ?k" "mv_inv mv c1"
    "\<forall>t' k'. t \<le> t' \<longrightarrow> mv_shown mv t' c1 k' = mv_shown mv t' c k'"
    using serves_mc_get [OF assms(1,2) key, of t] unfolding server_get_def by blast
  show ?thesis
  proof (cases "mv_shown mv t c ?k")
    case None
    then show ?thesis using g assms(3) by (simp add: mc_getEntry_def mc_checked_def andthen_def mc_read_def)
  next
    case (Some b)
    show ?thesis
    proof (cases "sr_deserialize (mc_serializer ml) (PBytes b)")
      case (Inr v)
      then show ?thesis using g assms(3) Some by (simp add: mc_getEntry_def mc_checked_def andthen_def mc_read_def)
    next
      case (Inl e)
      obtain c2 where d: "mc_client_delete cl t ?k c1 = (Inr (), c2)" "mv_inv mv c2"
        "\<forall>t' k'. t \<le> t' \<longrightarrow> mv_shown mv t' c2 k' = (if k' = ?k then None else mv_shown mv t' c1 k')"
        using serves_mc_delete [OF assms(1) g(3) key, of t] unfolding server_delete_def by blast
      have "mc_read ml (mv_shown mv t' c ?k) = JNull" if "t \<le> t'" for t'
      proof (cases "mv_shown mv t' c ?k")
        case (Some b')
        then have "mv_shown mv t c ?k = Some b'" using assms(1) that unfolding memcached_server_def by blast
        then show ?thesis using Some Inl \<open>mv_shown mv t c ?k = Some b\<close> by (simp add: mc_read_def)
      qed (simp add: mc_read_def)
      then have "mc_read ml (mv_shown mv t' c2 (mc_withPrefix ml k')) = mc_read ml (mv_shown mv t' c (mc_withPrefix ml k'))" if "t \<le> t'" for t' k'
        using d(3) g(4) that by (cases "k' = k") (simp_all, simp add: mc_read_def)
      moreover have "mc_getEntry cl ml t k c = (Inr JNull, c2)"
        using g(1,2) assms(3) Some Inl d(1) by (simp add: mc_getEntry_def mc_checked_def andthen_def)
      ultimately show ?thesis using d(2) Some Inl by (simp add: mc_read_def)
    qed
  qed
qed

lemma mc_contract_delete:
  assumes "memcached_server cl mv" "mv_inv mv c" "mc_validateKey ml k = Inr ()" "mc_withPrefix ml k \<noteq> []"
  shows "\<exists>c'. mc_delete cl ml t k c = (Inr (), c') \<and> mv_inv mv c' \<and> deleted (memcached_contract mv ml) t [k] c c'"
proof -
  obtain c1 where "mc_client_delete cl t (mc_withPrefix ml k) c = (Inr (), c1)" "mv_inv mv c1"
    "\<forall>t' k'. t \<le> t' \<longrightarrow> mv_shown mv t' c1 k' = (if k' = mc_withPrefix ml k then None else mv_shown mv t' c k')"
    using serves_mc_delete [OF assms(1,2) allowed_key [OF assms(3,4)], of t] unfolding server_delete_def by blast
  then show ?thesis using assms(3)
    by (auto simp: mc_delete_def mc_checked_def deleted_def memcached_contract_def mc_read_def)
qed

lemma mc_contract_deleteMany:
  assumes "memcached_server cl mv" "\<forall>k \<in> set ks. mc_validateKey ml k = Inr () \<and> mc_withPrefix ml k \<noteq> []"
  shows "mv_inv mv c \<Longrightarrow> \<exists>c'. mc_deleteMany cl ml t ks c = (Inr (), c') \<and> mv_inv mv c' \<and> deleted (memcached_contract mv ml) t ks c c'"
  using assms(2)
proof (induction ks arbitrary: c)
  case Nil
  then show ?case by (simp add: mc_deleteMany_def deleted_def)
next
  case (Cons k ks)
  obtain c1 where c1: "mc_delete cl ml t k c = (Inr (), c1)" "mv_inv mv c1" "deleted (memcached_contract mv ml) t [k] c c1"
    using mc_contract_delete [OF assms(1) Cons(2), of ml k t] Cons(3) by auto
  obtain c2 where "mc_deleteMany cl ml t ks c1 = (Inr (), c2)" "mv_inv mv c2" "deleted (memcached_contract mv ml) t ks c1 c2"
    using Cons(1) [OF c1(2)] Cons(3) by auto
  then show ?case using c1 by (auto simp: mc_deleteMany_def deleted_def)
qed

lemma mc_contract_set:
  assumes "memcached_server cl mv" "mv_inv mv c" "ct_key (memcached_contract mv ml) k" "ct_value (memcached_contract mv ml) v" "ct_ttl (memcached_contract mv ml) t ttl"
  shows "\<exists>c'. mc_set cl ml t k v ttl c = (Inr (), c') \<and> mv_inv mv c' \<and>
    (\<forall>t'. t \<le> t' \<longrightarrow> memcached_lives t (nullish_opt ttl (mc_defaultTtl ml)) t' \<longrightarrow> ct_answer (memcached_contract mv ml) t' c' k = v) \<and>
    (\<forall>t'. t \<le> t' \<longrightarrow> memcached_over t (nullish_opt ttl (mc_defaultTtl ml)) t' \<longrightarrow> ct_answer (memcached_contract mv ml) t' c' k = JNull) \<and>
    (\<forall>t'. t \<le> t' \<longrightarrow> ct_answer (memcached_contract mv ml) t' c' k = JNull \<or> ct_answer (memcached_contract mv ml) t' c' k = v) \<and>
    (\<forall>t' k'. t \<le> t' \<longrightarrow> k' \<noteq> k \<longrightarrow> ct_answer (memcached_contract mv ml) t' c' k' = JNull \<or>
       ct_answer (memcached_contract mv ml) t' c' k' = ct_answer (memcached_contract mv ml) t' c k')"
proof -
  let ?x = "nullish_opt ttl (mc_defaultTtl ml)" and ?k = "mc_withPrefix ml k"
  obtain p where p: "sr_serialize (mc_serializer ml) v = Inr p" "length (payload_bytes p) \<le> mv_limit mv" "mc_read ml (Some (payload_bytes p)) = v"
    using assms(4) by (auto simp: memcached_contract_def split: sum.splits)
  have key: "mc_validateKey ml k = Inr ()" "server_key ?k" using assms(3) allowed_key by (auto simp: memcached_contract_def)
  have ttl: "case ?x of None \<Rightarrow> True | Some x \<Rightarrow> x \<le> thirty_days * 1000" using assms(5) by (simp add: memcached_contract_def)
  obtain c1 where c1: "mc_client_set cl t ?k p (mc_expires ?x) c = (Inr (), c1)" "mv_inv mv c1"
    "\<forall>t'. t \<le> t' \<longrightarrow> mv_shown mv t' c1 ?k \<in> {None, Some (payload_bytes p)}"
    "\<forall>t'. t \<le> t' \<longrightarrow> surely_shown t (mc_expires ?x) t' \<longrightarrow> mv_shown mv t' c1 ?k = Some (payload_bytes p)"
    "\<forall>t'. t \<le> t' \<longrightarrow> surely_gone t (mc_expires ?x) t' \<longrightarrow> mv_shown mv t' c1 ?k = None"
    "\<forall>t' k'. t \<le> t' \<longrightarrow> k' \<noteq> ?k \<longrightarrow> mv_shown mv t' c1 k' = None \<or> mv_shown mv t' c1 k' = mv_shown mv t' c k'"
    using serves_mc_set [OF assms(1,2) key(2) p(2) mc_expires_ok(1) [OF ttl], of t] unfolding server_set_def by blast
  have "mc_read ml (mv_shown mv t' c1 ?k) \<in> {JNull, v}" if "t \<le> t'" for t'
  proof -
    have "mv_shown mv t' c1 ?k = None \<or> mv_shown mv t' c1 ?k = Some (payload_bytes p)" using c1(3) that by blast
    then show ?thesis using p(3) by (auto simp: mc_read_def)
  qed
  moreover have "mc_read ml (mv_shown mv t' c1 (mc_withPrefix ml k')) \<in> {JNull, mc_read ml (mv_shown mv t' c (mc_withPrefix ml k'))}" if "t \<le> t'" "k' \<noteq> k" for t' k'
  proof -
    have "mv_shown mv t' c1 (mc_withPrefix ml k') = None \<or> mv_shown mv t' c1 (mc_withPrefix ml k') = mv_shown mv t' c (mc_withPrefix ml k')"
      using c1(6) that mc_withPrefix_inj by blast
    then show ?thesis by (auto simp: mc_read_def)
  qed
  moreover have "mc_read ml (mv_shown mv t' c1 ?k) = JNull" if "t \<le> t'" "memcached_over t ?x t'" for t'
    using c1(5) that mc_expires_ok(3) [OF ttl] by (simp add: mc_read_def)
  ultimately show ?thesis using c1(1,2,4) p(1,3) key(1) mc_expires_ok(2) [OF ttl]
    by (intro exI [of _ c1]) (simp add: mc_set_def mc_checked_def memcached_contract_def)
qed

text \<open>
  C30: the Memcached layer is a layer the stack can rely on, up to the clock of Memcached, for TTLs of at most thirty days,
  keys that are not empty with their prefix, and values whose payload fits an item. On a server that behaves as documented,
  a read answers the latest write or nothing; it answers the write for the seconds of its TTL, rounded up, less
  one, and nothing once these seconds and one more have passed: the server's clock counts whole seconds. Writes and deletes make no other key answer anything new,
  deletes are final, and a corrupt payload is removed and reads as missing.
\<close>

theorem memcached_layer_keeps_contract:
  assumes "memcached_server cl mv"
  shows "coarse_layer (memcached_api cl ml) (memcached_contract mv ml) memcached_lives memcached_over"
proof
  fix c t k v ttl ks f
  let ?ct = "memcached_contract mv ml"
  assume "ct_ok ?ct c"
  then have inv: "mv_inv mv c" by (simp add: memcached_contract_def)
  show "\<exists>c'. read_api (memcached_api cl ml) t k c = (Inr (ct_answer ?ct t c k), c') \<and> ct_ok ?ct c' \<and>
      (\<forall>t' k'. t \<le> t' \<longrightarrow> ct_answer ?ct t' c' k' = ct_answer ?ct t' c k')" if "ct_key ?ct k"
    using mc_contract_read [OF assms inv, of ml k t] that by (simp add: read_api_def memcached_api_def memcached_contract_def)
  show "\<exists>c'. la_delete (memcached_api cl ml) t k c = (Inr (), c') \<and> ct_ok ?ct c' \<and> deleted ?ct t [k] c c'" if "ct_key ?ct k"
    using mc_contract_delete [OF assms inv, of ml k t] that by (simp add: memcached_api_def memcached_contract_def)
  show "\<exists>c'. f t ks c = (Inr (), c') \<and> ct_ok ?ct c' \<and> deleted ?ct t ks c c'"
    if "\<forall>k \<in> set ks. ct_key ?ct k" "la_deleteMany (memcached_api cl ml) = Some f"
    using mc_contract_deleteMany [OF assms _ inv, of ks ml t] that by (auto simp: memcached_api_def memcached_contract_def)
  show "\<exists>c'. la_set (memcached_api cl ml) t k v ttl c = (Inr (), c') \<and> ct_ok ?ct c' \<and>
      (\<forall>t'. t \<le> t' \<longrightarrow> memcached_lives t (nullish_opt ttl (ct_dflt ?ct c)) t' \<longrightarrow> ct_answer ?ct t' c' k = v) \<and>
      (\<forall>t'. t \<le> t' \<longrightarrow> memcached_over t (nullish_opt ttl (ct_dflt ?ct c)) t' \<longrightarrow> ct_answer ?ct t' c' k = JNull) \<and>
      (\<forall>t'. t \<le> t' \<longrightarrow> ct_answer ?ct t' c' k = JNull \<or> ct_answer ?ct t' c' k = v) \<and>
      (\<forall>t' k'. t \<le> t' \<longrightarrow> k' \<noteq> k \<longrightarrow> ct_answer ?ct t' c' k' = JNull \<or> ct_answer ?ct t' c' k' = ct_answer ?ct t' c k')"
    if "ct_key ?ct k" "ct_value ?ct v" "ct_ttl ?ct t ttl"
    using mc_contract_set [OF assms inv that] by (simp add: memcached_api_def) (simp add: memcached_contract_def)
qed

text \<open>
  A TTL of more than thirty days loses the entry. The layer passes the seconds of the TTL on as they are, and
  the server takes so large a number as a date, which lies in 1970 or soon after: the write succeeds, and from then on the key
  answers nothing.
\<close>

theorem memcached_long_ttl_loses_entry:
  assumes "memcached_server cl mv" "mv_inv mv c" "mc_validateKey ml k = Inr ()" "mc_withPrefix ml k \<noteq> []"
    and "sr_serialize (mc_serializer ml) v = Inr p" "length (payload_bytes p) \<le> mv_limit mv"
    and "nullish_opt ttl (mc_defaultTtl ml) = Some x" "thirty_days < math_ceil (x / 1000)" "math_ceil (x / 1000) < 2147483648"
    and "(math_ceil (x / 1000) + 1) * 1000 \<le> t"
  shows "\<exists>c1 c2. mc_set cl ml t k v ttl c = (Inr (), c1) \<and> mc_getEntry cl ml t k c1 = (Inr JNull, c2)"
proof -
  let ?k = "mc_withPrefix ml k"
  have "0 < x"
  proof (rule ccontr)
    assume "\<not> 0 < x"
    then have "math_ceil (x / 1000) \<le> math_ceil 0" by (intro math_ceil_mono) simp
    then show False using assms(8) by (simp add: thirty_days_def math_ceil_def)
  qed
  then have e: "mc_expires (Some x) = Some (math_ceil (x / 1000))" by (simp add: mc_expires_def)
  have ok: "server_expiry (mc_expires (Some x))" and gone: "surely_gone t (mc_expires (Some x)) t"
    using assms(8,9,10) by (simp_all add: e server_expiry_def surely_gone_def expiry_date_def thirty_days_def is_whole_def math_ceil_def algebra_simps)
  obtain c1 where "mc_client_set cl t ?k p (mc_expires (Some x)) c = (Inr (), c1)" "mv_inv mv c1" "mv_shown mv t c1 ?k = None"
    using serves_mc_set [OF assms(1,2) allowed_key [OF assms(3,4)] assms(6) ok, of t] gone unfolding server_set_def by blast
  then show ?thesis
    using mc_contract_read [OF assms(1) _ assms(3,4), of c1 t] assms(3,5,7)
    by (auto simp: mc_set_def mc_checked_def mc_read_def)
qed

subsection \<open>Witnesses\<close>

text \<open>
  A server whose clock drops the milliseconds: an item is gone when the second of its expiry begins. It refuses the
  keys the protocol forbids and payloads of more than a hundred bytes.
\<close>

type_synonym memcached_table = "string \<Rightarrow> (string \<times> real option) option"

definition server_second :: "real \<Rightarrow> real" where
  "server_second t = math_floor (t / 1000)"

definition slab_shown :: "real \<Rightarrow> memcached_table \<Rightarrow> string \<Rightarrow> string option" where
  "slab_shown t c k = (case c k of None \<Rightarrow> None | Some (b, None) \<Rightarrow> Some b | Some (b, Some e) \<Rightarrow> if server_second t < e then Some b else None)"

definition slab_client :: "memcached_table memcached_client" where
  "slab_client = \<lparr>
     mc_client_get = (\<lambda>t k c. (Inr (map_option Some (slab_shown t c k)), c)),
     mc_client_set = (\<lambda>t k p expires c.
       if \<not> server_key k then (Inl (BackendError ''CLIENT_ERROR''), c)
       else if 100 < length (payload_bytes p) then (Inl (BackendError ''SERVER_ERROR object too large for cache''), c)
       else (Inr (), c(k \<mapsto> (payload_bytes p, map_option (\<lambda>n. if n \<le> thirty_days then server_second t + n else n) expires)))),
     mc_client_delete = (\<lambda>t k c. (Inr (), c(k := None)))\<rparr>"

definition slab_view :: "memcached_table memcached_view" where
  "slab_view = \<lparr>mv_inv = (\<lambda>_. True), mv_shown = slab_shown, mv_limit = 100\<rparr>"

lemma server_second_bounds: "server_second t * 1000 \<le> t" "t < server_second t * 1000 + 1000"
  unfolding server_second_def math_floor_def by linarith+

lemma server_second_mono: "t \<le> t' \<Longrightarrow> server_second t \<le> server_second t'"
  by (simp add: server_second_def math_floor_def floor_mono divide_right_mono)

lemma slab_serves: "memcached_server slab_client slab_view"
proof -
  have shown: "slab_shown t' (c(k \<mapsto> (b, e))) k' = (if k' = k then (case e of None \<Rightarrow> Some b | Some x \<Rightarrow> if server_second t' < x then Some b else None) else slab_shown t' c k')"
    "slab_shown t' (c(k := None)) k' = (if k' = k then None else slab_shown t' c k')" for t' c k b e k'
    by (simp_all add: slab_shown_def split: option.splits)
  have later: "slab_shown t c k = Some b" if "t \<le> t'" "slab_shown t' c k = Some b" for t t' c k b
    using that server_second_mono [OF that(1)] by (auto simp: slab_shown_def split: option.splits if_splits)
  have before: "server_second t' < (if n \<le> thirty_days then server_second t + n else n)" if "t' < expiry_date t n - 1000" for t t' n
    using that server_second_bounds(1) [of t'] server_second_bounds(2) [of t] by (simp add: expiry_date_def split: if_splits)
  have after: "\<not> server_second t' < (if n \<le> thirty_days then server_second t + n else n)" if "expiry_date t n + 1000 \<le> t'" for t t' n
    using that server_second_bounds(2) [of t'] server_second_bounds(1) [of t] by (simp add: expiry_date_def split: if_splits)
  have get: "Option.bind (map_option Some x) id = x" for x :: "string option" by (cases x) simp_all
  have "server_get slab_client slab_view t k c" "server_delete slab_client slab_view t k c" for t k c
    by (auto simp: server_get_def server_delete_def slab_client_def slab_view_def get shown)
  moreover have "server_set slab_client slab_view t k p expires c" if "server_key k" "length (payload_bytes p) \<le> mv_limit slab_view" for t k p expires c
    using that before [of _ t] after [of t] unfolding server_set_def
    by (auto simp: slab_client_def slab_view_def shown surely_shown_def surely_gone_def split: option.splits)
  ultimately show ?thesis using later unfolding memcached_server_def by (auto simp: slab_view_def)
qed

definition demo_memcached :: memcached_layer where
  "demo_memcached = new_memcached_layer (\<lambda>_. []) \<lparr>mo_ttl = None, mo_name = None, mo_keyPrefix = Some ''app:'', mo_serializer = None\<rparr>"

theorem memcached_layer_keeps_contract_witness:
  "coarse_layer (memcached_api slab_client demo_memcached) (memcached_contract slab_view demo_memcached) memcached_lives memcached_over"
  by (rule memcached_layer_keeps_contract [OF slab_serves])

lemma demo_memcached_write:
  "mc_serializer demo_memcached = json_serializer (\<lambda>_. []) (json_serializer_options None None None)" "mc_keyPrefix demo_memcached = ''app:''"
  "mc_validateKey demo_memcached ''k'' = Inr ()" "mc_withPrefix demo_memcached ''k'' = ''app:k''" "server_key ''app:k''"
  "sr_serialize (mc_serializer demo_memcached) (JStr ''v'') = Inr (PText (json (\<lambda>_. []) (JStr ''v'')))"
  "length (payload_bytes (PText (json (\<lambda>_. []) (JStr ''v'')))) \<le> mv_limit slab_view"
proof -
  show s: "mc_serializer demo_memcached = json_serializer (\<lambda>_. []) (json_serializer_options None None None)" "mc_keyPrefix demo_memcached = ''app:''"
    by (simp_all add: demo_memcached_def new_memcached_layer_def)
  show k: "mc_validateKey demo_memcached ''k'' = Inr ()" "mc_withPrefix demo_memcached ''k'' = ''app:k''"
    by (simp_all add: mc_validateKey_def mc_withPrefix_def s Let_def mc_refused_char_def)
  show "server_key ''app:k''" using allowed_key [OF k(1)] k(2) by simp
  show "sr_serialize (mc_serializer demo_memcached) (JStr ''v'') = Inr (PText (json (\<lambda>_. []) (JStr ''v'')))"
    by (simp add: s json_serializer_def json_serialize_def)
  show "length (payload_bytes (PText (json (\<lambda>_. []) (JStr ''v'')))) \<le> mv_limit slab_view"
    by (simp add: slab_view_def json_string_def esc_char_def)
qed

theorem memcached_long_ttl_loses_entry_witness:
  "\<exists>c1 c2. mc_set slab_client demo_memcached 1700000000000 ''k'' (JStr ''v'') (Some 2678400000) (\<lambda>_. None) = (Inr (), c1) \<and>
    mc_getEntry slab_client demo_memcached 1700000000000 ''k'' c1 = (Inr JNull, c2)"
proof -
  have c: "math_ceil (2678400000 / 1000) = 2678400" by (simp add: math_ceil_def)
  show ?thesis
    using memcached_long_ttl_loses_entry [OF slab_serves, of "\<lambda>_. None" demo_memcached "''k''" "JStr ''v''" _ "Some 2678400000" 2678400000 1700000000000]
      demo_memcached_write c
    by (simp add: thirty_days_def slab_view_def)
qed

text \<open>A TTL of one second may last a millisecond: the write comes just before the server's next second.\<close>

lemma memcached_short_ttl_may_vanish:
  "\<exists>c1. mc_set slab_client demo_memcached 1999 ''k'' (JStr ''v'') (Some 1000) (\<lambda>_. None) = (Inr (), c1) \<and>
    mc_getEntry slab_client demo_memcached 2000 ''k'' c1 = (Inr JNull, c1)"
proof -
  let ?c = "[''app:k'' \<mapsto> (payload_bytes (PText (json (\<lambda>_. []) (JStr ''v''))), Some 2)]"
  have n: "mc_expires (Some 1000) = Some 1" "server_second 1999 = 1" "server_second 2000 = 2"
    by (simp_all add: mc_expires_def math_ceil_def server_second_def math_floor_def)
  have "mc_set slab_client demo_memcached 1999 ''k'' (JStr ''v'') (Some 1000) (\<lambda>_. None) = (Inr (), ?c)"
    using demo_memcached_write n by (simp add: mc_set_def mc_checked_def slab_client_def slab_view_def thirty_days_def)
  moreover have "mc_getEntry slab_client demo_memcached 2000 ''k'' ?c = (Inr JNull, ?c)"
    using demo_memcached_write n by (simp add: mc_getEntry_def mc_checked_def andthen_def slab_client_def slab_shown_def)
  ultimately show ?thesis by blast
qed

end
