(* ===== verification/DistributedFetch.thy ===== *)
theory DistributedFetch
  imports HealthyReads StackConfig
begin

text \<open>
  The branch of \<open>fetchWithGuards\<close> with a distributed single-flight coordinator (\<open>src/src/internal/CacheStackReader.ts\<close>).

  \<^item> The coordinator is injected: \<open>fe_execute\<close> runs a worker or a waiter, and may throw. Theory SingleFlight models the
    one on Redis.
  \<^item> \<open>sleep\<close> is awaited, so anything may happen to the stack meanwhile (\<open>fe_sleep\<close>); \<open>Math.random()\<close> is \<open>fe_random\<close>.
  \<^item> A task that never settles is \<open>None\<close>.

  Lemmas: without a coordinator the branch is the one of theory Reader; waiting ends; a waiter takes over the value another
  process stores in time; under graceful degradation a failing fetcher runs twice.
\<close>

subsection \<open>Tasks\<close>

type_synonym 'l task = "'l stack \<Rightarrow> (js result \<times> 'l stack) option"

definition settles :: "('l stack, js) action \<Rightarrow> 'l task" where
  "settles m s = Some (m s)"

record single_flight_settings =
  fs_leaseMs :: "real option"
  fs_timeoutMs :: "real option"
  fs_pollMs :: "real option"
  fs_renewIntervalMs :: "real option"

record single_flight_options =
  sx_leaseMs :: real
  sx_waitTimeoutMs :: real
  sx_pollIntervalMs :: real
  sx_renewIntervalMs :: "real option"

record 'l single_flight =
  fe_settings :: single_flight_settings
  fe_execute :: "string \<Rightarrow> single_flight_options \<Rightarrow> 'l task \<Rightarrow> 'l task \<Rightarrow> 'l task"
  fe_sleep :: "real \<Rightarrow> 'l stack \<Rightarrow> 'l stack"
  fe_random :: "'l stack \<Rightarrow> real"

definition flight_timeout :: "'l single_flight \<Rightarrow> real" where
  "flight_timeout fe = nullish (fs_timeoutMs (fe_settings fe)) 5000"

definition flight_poll :: "'l single_flight \<Rightarrow> real" where
  "flight_poll fe = nullish (fs_pollMs (fe_settings fe)) 50"

definition resolveSingleFlightOptions :: "'l single_flight \<Rightarrow> single_flight_options" where
  "resolveSingleFlightOptions fe =
    \<lparr>sx_leaseMs = nullish (fs_leaseMs (fe_settings fe)) 30000, sx_waitTimeoutMs = flight_timeout fe,
     sx_pollIntervalMs = flight_poll fe, sx_renewIntervalMs = fs_renewIntervalMs (fe_settings fe)\<rparr>"

subsection \<open>Waiting\<close>

definition jitterSingleFlightPoll :: "real \<Rightarrow> real \<Rightarrow> real" where
  \<comment> \<open>the first argument is the random number; the jitter is a fifth\<close>
  "jitterSingleFlightPoll r delayMs =
    (let jitterRange = delayMs * (1 / 5) in max 1 (math_round (delayMs - jitterRange + r * jitterRange * 2)))"

definition next_poll :: "real \<Rightarrow> real \<Rightarrow> real" where
  "next_poll timeoutMs nextPollMs = min (min (nextPollMs * 2) 1000) timeoutMs"

partial_function (option) poll_loop ::
    "'l single_flight \<Rightarrow> 'l stack_config \<Rightarrow> string \<Rightarrow> write_options \<Rightarrow> real \<Rightarrow> real \<Rightarrow> real \<Rightarrow> 'l stack \<Rightarrow> (js option result \<times> 'l stack) option" where
  \<comment> \<open>the loop of \<open>waitForFreshValue\<close>; \<open>Inr None\<close> when the deadline has passed\<close>
  "poll_loop fe cf key opts deadline timeoutMs nextPollMs s =
    (if sk_now s < deadline then
       (case readFromLayers cf key opts FreshOnly s of
          (Inl e, s1) \<Rightarrow> Some (Inl e, s1)
        | (Inr found, s1) \<Rightarrow>
            (case found of
               Some hit \<Rightarrow> Some (Inr (Some (rh_value hit)), count_metric MHits 1 s1)
             | None \<Rightarrow>
                 if deadline - sk_now s1 \<le> 0 then Some (Inr None, s1)
                 else poll_loop fe cf key opts deadline timeoutMs (next_poll timeoutMs nextPollMs)
                   (fe_sleep fe (min (jitterSingleFlightPoll (fe_random fe s1) nextPollMs) (deadline - sk_now s1)) s1)))
     else Some (Inr None, s))"

definition begin_wait :: "string \<Rightarrow> 'l stack \<Rightarrow> 'l stack" where
  "begin_wait key s = emit (EvDedupe key) (count_metric MSingleFlightWaits 1 s)"

definition wait_until ::
    "'l single_flight \<Rightarrow> 'l stack_config \<Rightarrow> string \<Rightarrow> write_options \<Rightarrow> real \<Rightarrow> 'l task \<Rightarrow> 'l task" where
  \<comment> \<open>\<open>waitForFreshValue\<close> up to the loop's end, then \<open>late\<close>\<close>
  "wait_until fe cf key opts deadline late s =
    Option.bind (poll_loop fe cf key opts deadline (flight_timeout fe) (flight_poll fe) (begin_wait key s)) (\<lambda>(r, s1).
      case r of
        Inl e \<Rightarrow> Some (Inl e, s1)
      | Inr (Some v) \<Rightarrow> Some (Inr v, s1)
      | Inr None \<Rightarrow> late s1)"

definition wait_again ::
    "'l single_flight \<Rightarrow> 'l stack_config \<Rightarrow> string \<Rightarrow> write_options \<Rightarrow> real \<Rightarrow> 'l task" where
  \<comment> \<open>the second wait (\<open>coordinatorRetries = 1\<close>) gives up\<close>
  "wait_again fe cf key opts deadline = wait_until fe cf key opts deadline (settles (throw_error (SingleFlightTimeout key)))"

definition waitForFreshValue ::
    "'l single_flight \<Rightarrow> 'l stack_config \<Rightarrow> string \<Rightarrow> nat \<Rightarrow> write_options \<Rightarrow> nat \<times> nat \<Rightarrow> fetcher_context \<Rightarrow> 'l task" where
  \<comment> \<open>the first wait; after it the coordinator is asked once more\<close>
  "waitForFreshValue fe cf key fetcher opts fence ctx s =
    (let operationDeadline = sk_now s + flight_timeout fe in
     wait_until fe cf key opts operationDeadline
       (fe_execute fe key (resolveSingleFlightOptions fe) (settles (fetchAndPopulate cf key fetcher opts fence ctx))
          (wait_again fe cf key opts operationDeadline)) s)"

subsection \<open>Fetching with a coordinator\<close>

definition isGracefulDegradationEnabled :: "'l stack_config \<Rightarrow> bool" where
  "isGracefulDegradationEnabled cf = (case cf_gracefulDegradation cf of None \<Rightarrow> False | Some (DegBool b) \<Rightarrow> b | Some (DegOptions _) \<Rightarrow> True)"

definition guarded_fetch ::
    "'l single_flight option \<Rightarrow> bool \<Rightarrow> 'l stack_config \<Rightarrow> string \<Rightarrow> nat \<Rightarrow> write_options \<Rightarrow> nat \<times> nat \<Rightarrow> fetcher_context \<Rightarrow> ('l stack, js) action" where
  \<comment> \<open>\<open>fetchTask\<close>: a confirmed miss with a coordinator is not read again\<close>
  "guarded_fetch co confirmed cf key fetcher opts fence ctx =
    (if confirmed \<and> co \<noteq> None then fetchAndPopulate cf key fetcher opts fence ctx else fetch_task cf key fetcher opts fence ctx)"

definition coordinator_failed :: "'l stack \<Rightarrow> 'l stack" where
  "coordinator_failed s = emit (EvError ''single-flight'') (count_metric MDegradedOperations 1 s)"

definition singleFlightTask ::
    "'l single_flight option \<Rightarrow> bool \<Rightarrow> 'l stack_config \<Rightarrow> string \<Rightarrow> nat \<Rightarrow> write_options \<Rightarrow> nat \<times> nat \<Rightarrow> fetcher_context \<Rightarrow> 'l task" where
  "singleFlightTask co confirmed cf key fetcher opts fence ctx s =
    (case co of
       None \<Rightarrow> settles (guarded_fetch co confirmed cf key fetcher opts fence ctx) s
     | Some fe \<Rightarrow>
         Option.bind (fe_execute fe key (resolveSingleFlightOptions fe)
             (settles (guarded_fetch co confirmed cf key fetcher opts fence ctx))
             (waitForFreshValue fe cf key fetcher opts fence ctx) s) (\<lambda>(r, s1).
           case r of
             Inr v \<Rightarrow> Some (Inr v, s1)
           | Inl e \<Rightarrow>
               if \<not> isGracefulDegradationEnabled cf then Some (Inl e, s1)
               else settles (guarded_fetch co confirmed cf key fetcher opts fence ctx) (coordinator_failed s1)))"

definition coordinator_under_timer :: "string \<Rightarrow> nat \<Rightarrow> real option \<Rightarrow> 'l single_flight \<Rightarrow> 'l single_flight" where
  \<comment> \<open>the coordinator and \<open>sleep\<close> are awaited as well: the timer of the stampede guard is looked at before a worker or waiter runs
    and when a call returns\<close>
  "coordinator_under_timer key i deadline fe =
    (let tick = stampede_timer key i deadline in fe\<lparr>
       fe_execute := (\<lambda>k options worker waiter s.
         map_option (map_prod id tick) (fe_execute fe k options (\<lambda>u. worker (tick u)) (\<lambda>u. waiter (tick u)) s)),
       fe_sleep := (\<lambda>d s. tick (fe_sleep fe d s))\<rparr>)"

definition fetchWithCoordinator ::
    "'l single_flight option \<Rightarrow> bool \<Rightarrow> 'l stack_config \<Rightarrow> string \<Rightarrow> nat \<Rightarrow> write_options \<Rightarrow> nat \<times> nat \<Rightarrow> fetcher_context \<Rightarrow> 'l task" where
  \<comment> \<open>\<open>fetchWithGuards\<close>: the stampede guard around the task\<close>
  "fetchWithCoordinator co confirmed cf key fetcher opts fence ctx s =
    (if cf_stampedePrevention cf = Some False then singleFlightTask co confirmed cf key fetcher opts fence ctx s
     else case map_of (sg_inFlight (sk_guard s)) key of
       Some _ \<Rightarrow>
         (case sg_execute key (sk_guard s) of
            (Inl e, g) \<Rightarrow> Some (Inl e, s\<lparr>sk_guard := g\<rparr>)
          | (Inr i, g) \<Rightarrow>
              (case cf_await_task cf i (s\<lparr>sk_guard := g\<rparr>) of
                 (r, s1) \<Rightarrow> Some (r, s1\<lparr>sk_guard := releaseEntry key i (sk_guard s1)\<rparr>)))
     | None \<Rightarrow>
         (case sg_execute key (sk_guard s) of
            (Inl e, g) \<Rightarrow> Some (Inl e, s\<lparr>sk_guard := g\<rparr>)
          | (Inr i, g) \<Rightarrow>
              map_option (\<lambda>(r, s1). (in_time key (stampede_deadline s) r s1, s1\<lparr>sk_guard := releaseEntry key i (settleEntry key i (sk_guard s1))\<rparr>))
                (singleFlightTask (map_option (coordinator_under_timer key i (stampede_deadline s)) co) confirmed
                  (under_timer key i (stampede_deadline s) cf) key fetcher opts fence ctx (s\<lparr>sk_guard := g\<rparr>))))"

subsection \<open>Time\<close>

text \<open>Reading the layers takes no time of the model: the clock of the stack moves only while something is awaited.\<close>

definition same_time :: "('l stack, 'a) action \<Rightarrow> bool" where
  "same_time m \<longleftrightarrow> (\<forall>s. sk_now (snd (m s)) = sk_now s)"

lemma same_timeD: "same_time m \<Longrightarrow> m s = (r, s') \<Longrightarrow> sk_now s' = sk_now s"
  unfolding same_time_def by (metis snd_conv)

lemma same_time_now: "same_time m \<Longrightarrow> sk_now (snd (m s)) = sk_now s"
  by (simp add: same_time_def)

lemma same_time_simple [simp]:
  "same_time (call_layer i f)" "same_time (ret x)" "sk_now (snd (skip_layer i s)) = sk_now s" "same_time (handleLayerFailure cf i op' e)"
  "sk_now (count_metric g n s) = sk_now s" "sk_now (emit ev s) = sk_now s"
  by (auto simp: same_time_def call_layer_def ret_def skip_layer_def handleLayerFailure_def count_metric_def emit_def Let_def split: prod.splits option.splits)

lemma now_simple [simp]:
  "sk_now (snd (call_layer i f s)) = sk_now s" "sk_now (snd (handleLayerFailure cf i op' e s)) = sk_now s"
  using same_time_simple(1,4) unfolding same_time_def by blast+

lemma same_time_andthen: "same_time m \<Longrightarrow> (\<And>x. same_time (f x)) \<Longrightarrow> same_time (andthen m f)"
  by (auto simp: same_time_def andthen_def split: prod.splits sum.splits) (metis snd_conv)+

lemma same_time_catching: "same_time m \<Longrightarrow> (\<And>e. same_time (h e)) \<Longrightarrow> same_time (catching m h)"
  by (auto simp: same_time_def catching_def split: prod.splits sum.splits) (metis snd_conv)+

lemma same_time_promise_all: "(\<And>p. p \<in> set ps \<Longrightarrow> same_time p) \<Longrightarrow> same_time (promise_all ps)"
proof (induction ps)
  case Nil
  then show ?case by (simp add: same_time_def)
next
  case (Cons p ps)
  then have "same_time p" "same_time (promise_all ps)" by simp_all
  then show ?case by (simp add: same_time_def case_prod_beta split: sum.split)
qed

lemma same_time_fenced: "same_time m \<Longrightarrow> same_time n \<Longrightarrow> same_time (drop_result (runFencedWrite sk_maint key a b m n))"
  by (auto simp: same_time_def drop_result_def andthen_def ret_def runFencedWrite_def split: prod.splits sum.splits) (metis snd_conv)+

lemma now_readLayerEntry: "same_time (readLayerEntry cf i key)"
proof -
  have t: "same_time (catching (call_layer i (\<lambda>api t. case la_getEntry api of Some getEntry \<Rightarrow> getEntry t key | None \<Rightarrow> la_get api t key))
      (\<lambda>e. andthen (handleLayerFailure cf i ''read'' e) (\<lambda>_. ret JNull)))"
    by (intro same_time_catching same_time_andthen) simp_all
  show ?thesis
    using t by (simp add: same_time_def readLayerEntry_def case_prod_beta)
qed

lemma now_backfill_targets: "sk_now (snd (backfill_targets cf stored ttlOption is s)) = sk_now s"
proof (induction "is" arbitrary: s)
  case (Cons i "is")
  obtain skip s1 where sk: "skip_layer i s = (skip, s1)" by fastforce
  then have "sk_now s1 = sk_now s" using same_time_simple(3) [of i s] by simp
  then show ?case using Cons [of s1] sk by (auto simp: Let_def split: prod.splits)
qed simp

lemma now_backfill: "same_time (backfill cf key stored n opts fence)"
proof -
  have one: "same_time (backfill_layer cf key stored it)" for it
    by (simp add: same_time_def backfill_layer_def case_prod_beta split: sum.split)
  have "same_time (drop_result (runFencedWrite sk_maint key (fst fence) (snd fence) (promise_all (map (backfill_layer cf key stored) its))
      (promise_all (map (\<lambda>i. call_layer i (\<lambda>api t. la_delete api t key)) [0..<n]))))" for its
    by (intro same_time_fenced same_time_promise_all) (auto simp: one)
  then show ?thesis
    using now_backfill_targets [of cf stored "o_ttl opts" "[0..<n]"]
    by (simp add: same_time_def backfill_def case_prod_beta)
qed

lemma now_read_layers: "same_time (read_layers cf key opts mode fence is saw)"
proof (induction "is" arbitrary: saw mode)
  case Nil
  then show ?case by (simp add: same_time_def Let_def)
next
  case (Cons i "is")
  have read: "sk_now (snd (readLayerEntry cf i key s)) = sk_now s" for s by (rule same_time_now [OF now_readLayerEntry])
  have fill: "sk_now (snd (backfill cf key stored i opts fence s)) = sk_now s" for stored s by (rule same_time_now [OF now_backfill])
  have rest: "sk_now (snd (read_layers cf key opts mode fence is saw s)) = sk_now s" for saw mode s by (rule same_time_now [OF Cons])
  show ?case
    by (simp add: read fill rest same_time_def Let_def case_prod_beta split: sum.split)
qed

lemma now_readFromLayers: "readFromLayers cf key opts mode s = (r, s') \<Longrightarrow> sk_now s' = sk_now s"
  using now_read_layers [of cf key opts mode "(clear_epoch s, key_epoch key s)" "[0..<length (sk_layers s)]" False]
  by (auto simp: readFromLayers_def dest: same_timeD)

subsection \<open>Waiting ends\<close>

definition sleeps :: "'l single_flight \<Rightarrow> real \<Rightarrow> bool" where
  \<comment> \<open>a timer fires no earlier than asked, at most \<open>late\<close> later; \<open>Math.random()\<close> lies between 0 and 1\<close>
  "sleeps fe late \<longleftrightarrow> (\<forall>d s. 0 \<le> d \<longrightarrow> sk_now s + d \<le> sk_now (fe_sleep fe d s) \<and> sk_now (fe_sleep fe d s) \<le> sk_now s + d + late) \<and>
     (\<forall>s. 0 \<le> fe_random fe s \<and> fe_random fe s \<le> 1)"

lemma sleepsD:
  assumes "sleeps fe late" "0 \<le> d"
  shows "sk_now s + d \<le> sk_now (fe_sleep fe d s)" "sk_now (fe_sleep fe d s) \<le> sk_now s + d + late"
  using assms unfolding sleeps_def by blast+

lemma jitter_ge: "1 \<le> jitterSingleFlightPoll r x"
  by (simp add: jitterSingleFlightPoll_def Let_def)

lemma jitter_le:
  assumes "r \<le> 1" "0 \<le> x"
  shows "jitterSingleFlightPoll r x \<le> max 1 (x * 6 / 5 + 1 / 2)"
proof -
  have "r * (x * (1 / 5)) \<le> 1 * (x * (1 / 5))" using assms by (intro mult_right_mono) simp_all
  then show ?thesis
    using math_round_bounds(2) [of "x - x * (1 / 5) + r * (x * (1 / 5)) * 2"] by (simp add: jitterSingleFlightPoll_def Let_def)
qed

lemma poll_loop_ends:
  assumes "sleeps fe late"
  shows "\<exists>r s'. poll_loop fe cf key opts deadline timeoutMs n s = Some (r, s')"
proof (induction "nat \<lceil>deadline - sk_now s\<rceil>" arbitrary: n s rule: less_induct)
  case less
  show ?case
  proof (cases "sk_now s < deadline")
    case False
    then show ?thesis by (subst poll_loop.simps) simp
  next
    case True
    obtain r s1 where read: "readFromLayers cf key opts FreshOnly s = (r, s1)" by fastforce
    have now: "sk_now s1 = sk_now s" using now_readFromLayers [OF read] .
    let ?d = "min (jitterSingleFlightPoll (fe_random fe s1) n) (deadline - sk_now s1)"
    show ?thesis
    proof (cases "r = Inr None")
      case False
      then show ?thesis using True read by (subst poll_loop.simps) (auto split: sum.splits option.splits)
    next
      case miss: True
      let ?s2 = "fe_sleep fe ?d s1"
      have "0 < ?d" using True now jitter_ge [of "fe_random fe s1" n] by simp
      then have later: "sk_now s + ?d \<le> sk_now ?s2" using sleepsD(1) [OF assms, of ?d s1] unfolding now by linarith
      have "\<exists>r s'. poll_loop fe cf key opts deadline timeoutMs (next_poll timeoutMs n) ?s2 = Some (r, s')"
      proof (cases "sk_now ?s2 < deadline")
        case False
        then show ?thesis by (subst poll_loop.simps) simp
      next
        case soon: True
        then have "1 \<le> ?d" using later now jitter_ge [of "fe_random fe s1" n] by (simp add: min_def split: if_splits)
        then have "deadline - sk_now ?s2 \<le> deadline - sk_now s - 1" using later by linarith
        then have "\<lceil>deadline - sk_now ?s2\<rceil> < \<lceil>deadline - sk_now s\<rceil>" by linarith
        then have "nat \<lceil>deadline - sk_now ?s2\<rceil> < nat \<lceil>deadline - sk_now s\<rceil>" using soon by linarith
        from less [OF this] show ?thesis .
      qed
      then show ?thesis using True read miss now by (subst poll_loop.simps) simp
    qed
  qed
qed

text \<open>
  A value that appears in time is found. \<open>waiting s\<close> describes the stack while the other process works: reads miss before \<open>t\<close> and
  find the value from \<open>t\<close> on, whatever happens while this one sleeps.
\<close>

definition found_from :: "'l single_flight \<Rightarrow> 'l stack_config \<Rightarrow> string \<Rightarrow> write_options \<Rightarrow> ('l stack \<Rightarrow> bool) \<Rightarrow> real \<Rightarrow> js \<Rightarrow> bool" where
  "found_from fe cf key opts waiting t v \<longleftrightarrow> (\<forall>s. waiting s \<longrightarrow>
     (sk_now s < t \<longrightarrow> (\<exists>s'. readFromLayers cf key opts FreshOnly s = (Inr None, s') \<and> (\<forall>d. waiting (fe_sleep fe d s')))) \<and>
     (t \<le> sk_now s \<longrightarrow> (\<exists>hit s'. readFromLayers cf key opts FreshOnly s = (Inr (Some hit), s') \<and> rh_value hit = v)))"

definition longest_gap :: "'l single_flight \<Rightarrow> real" where
  \<comment> \<open>no two polls are further apart\<close>
  "longest_gap fe = max (flight_poll fe) 1000 * 6 / 5 + 1 / 2"

lemma poll_loop_finds:
  assumes "sleeps fe late" "0 \<le> late" "found_from fe cf key opts waiting t v" "t + longest_gap fe + late < deadline" "0 \<le> timeoutMs"
  shows "waiting s \<Longrightarrow> sk_now s < t + longest_gap fe + late \<Longrightarrow> 0 \<le> n \<Longrightarrow> n \<le> max (flight_poll fe) 1000 \<Longrightarrow>
    \<exists>s'. poll_loop fe cf key opts deadline timeoutMs n s = Some (Inr (Some v), s')"
proof (induction "nat \<lceil>deadline - sk_now s\<rceil>" arbitrary: n s rule: less_induct)
  case less
  have before: "sk_now s < deadline" using less(3) assms(4) by simp
  show ?case
  proof (cases "sk_now s < t")
    case False
    then obtain hit s1 where "readFromLayers cf key opts FreshOnly s = (Inr (Some hit), s1)" "rh_value hit = v"
      using assms(3) less(2) by (fastforce simp: found_from_def)
    then show ?thesis using before by (subst poll_loop.simps) simp
  next
    case True
    then obtain s1 where read: "readFromLayers cf key opts FreshOnly s = (Inr None, s1)" and waits: "\<forall>d. waiting (fe_sleep fe d s1)"
      using assms(3) less(2) unfolding found_from_def by blast
    have now: "sk_now s1 = sk_now s" using now_readFromLayers [OF read] .
    let ?d = "min (jitterSingleFlightPoll (fe_random fe s1) n) (deadline - sk_now s1)" and ?n = "next_poll timeoutMs n"
    let ?s2 = "fe_sleep fe ?d s1"
    have r: "fe_random fe s1 \<le> 1" using assms(1) by (simp add: sleeps_def)
    have "max 1 (n * 6 / 5 + 1 / 2) \<le> longest_gap fe" using less(5) by (simp add: longest_gap_def)
    then have gap: "?d \<le> longest_gap fe" using jitter_le [OF r less(4)] by linarith
    have pos: "0 < ?d" using before now jitter_ge [of "fe_random fe s1" n] by simp
    then have later: "sk_now s + ?d \<le> sk_now ?s2" "sk_now ?s2 \<le> sk_now s + ?d + late"
      using sleepsD [OF assms(1), of ?d s1] unfolding now by linarith+
    have soon: "sk_now ?s2 < t + longest_gap fe + late" using later(2) gap True by simp
    then have "?d < deadline - sk_now s" using later(1) assms(4) by simp
    then have "1 \<le> ?d" using now jitter_ge [of "fe_random fe s1" n] by (simp add: min_def split: if_splits)
    then have "deadline - sk_now ?s2 \<le> deadline - sk_now s - 1" using later(1) by linarith
    then have "\<lceil>deadline - sk_now ?s2\<rceil> < \<lceil>deadline - sk_now s\<rceil>" by linarith
    then have "nat \<lceil>deadline - sk_now ?s2\<rceil> < nat \<lceil>deadline - sk_now s\<rceil>" using soon assms(4) by linarith
    moreover have "0 \<le> ?n" "?n \<le> max (flight_poll fe) 1000" using less(4) assms(5) by (simp_all add: next_poll_def)
    ultimately obtain s' where "poll_loop fe cf key opts deadline timeoutMs ?n ?s2 = Some (Inr (Some v), s')"
      using less(1) [of ?s2 ?n] waits soon by blast
    then show ?thesis using before read now by (subst poll_loop.simps) simp
  qed
qed

subsection \<open>The properties\<close>

lemma without_coordinator:
  "fetchWithCoordinator None confirmed cf key fetcher opts fence ctx s = Some (fetchWithGuards cf key fetcher opts fence ctx s)"
  by (auto simp: fetchWithCoordinator_def fetchWithGuards_def singleFlightTask_def settles_def guarded_fetch_def split: option.split sum.split prod.split)

lemma wait_until_ends:
  assumes "sleeps fe late" "\<And>s. then_do s \<noteq> None"
  shows "wait_until fe cf key opts deadline then_do s \<noteq> None"
proof -
  obtain r s1 where "poll_loop fe cf key opts deadline (flight_timeout fe) (flight_poll fe) (begin_wait key s) = Some (r, s1)"
    using poll_loop_ends [OF assms(1)] by blast
  then show ?thesis using assms(2) by (auto simp: wait_until_def split: sum.split option.split)
qed

lemma single_flight_settles:
  assumes "sleeps fe late"
    and "\<And>o' worker waiter s. (\<And>s. worker s \<noteq> None) \<Longrightarrow> (\<And>s. waiter s \<noteq> None) \<Longrightarrow> fe_execute fe key o' worker waiter s \<noteq> None"
  shows "singleFlightTask (Some fe) confirmed cf key fetcher opts fence ctx s \<noteq> None"
proof -
  have again: "wait_again fe cf key opts deadline s \<noteq> None" for deadline s
    unfolding wait_again_def by (rule wait_until_ends [OF assms(1)]) (simp add: settles_def)
  have wait: "waitForFreshValue fe cf key fetcher opts fence ctx s \<noteq> None" for s
    unfolding waitForFreshValue_def Let_def
    by (rule wait_until_ends [OF assms(1)]) (rule assms(2), simp_all add: settles_def again del: not_None_eq)
  have "fe_execute fe key (resolveSingleFlightOptions fe) (settles (guarded_fetch (Some fe) confirmed cf key fetcher opts fence ctx))
      (waitForFreshValue fe cf key fetcher opts fence ctx) s \<noteq> None"
    by (rule assms(2)) (simp_all add: settles_def wait del: not_None_eq)
  then show ?thesis by (auto simp: singleFlightTask_def settles_def split: sum.split)
qed

text \<open>The timer of the stampede guard takes no time and stops nothing.\<close>

lemma timer_now [simp]: "sk_now (stampede_timer key i deadline s) = sk_now s"
  by (simp add: stampede_timer_def)

lemma timer_sleeps: "sleeps fe late \<Longrightarrow> sleeps (coordinator_under_timer key i deadline fe) late"
  by (simp add: sleeps_def coordinator_under_timer_def Let_def)

lemma timer_executes:
  assumes "\<And>o' worker waiter s. (\<And>s. worker s \<noteq> None) \<Longrightarrow> (\<And>s. waiter s \<noteq> None) \<Longrightarrow> fe_execute fe key o' worker waiter s \<noteq> None"
    and "\<And>s. worker s \<noteq> None" "\<And>s. waiter s \<noteq> None"
  shows "fe_execute (coordinator_under_timer k i deadline fe) key o' worker waiter s \<noteq> None"
proof -
  let ?tick = "stampede_timer k i deadline"
  have "fe_execute fe key o' (\<lambda>u. worker (?tick u)) (\<lambda>u. waiter (?tick u)) s \<noteq> None" by (rule assms(1)) (rule assms(2,3))+
  then show ?thesis by (simp add: coordinator_under_timer_def Let_def)
qed

text \<open>
  C29: a fetch through the coordinator settles. Whatever the layers answer, if timers fire no earlier than asked and the
  coordinator settles whenever worker and waiter do, the fetch ends with a value or an error: polling
  stops at the deadline, and the second wait is the last.
\<close>

theorem coordinated_fetch_settles:
  assumes "sleeps fe late"
    and "\<And>o' worker waiter s. (\<And>s. worker s \<noteq> None) \<Longrightarrow> (\<And>s. waiter s \<noteq> None) \<Longrightarrow> fe_execute fe key o' worker waiter s \<noteq> None"
  shows "\<exists>r s'. fetchWithCoordinator (Some fe) confirmed cf key fetcher opts fence ctx s = Some (r, s')"
proof -
  have timed: "singleFlightTask (Some (coordinator_under_timer key i deadline fe)) confirmed cf key fetcher opts fence ctx u \<noteq> None" for i deadline cf u
    using single_flight_settles [OF timer_sleeps [OF assms(1)] timer_executes [where key = key, OF assms(2)]] .
  have "singleFlightTask (Some fe) confirmed cf key fetcher opts fence ctx s \<noteq> None" by (rule single_flight_settles [OF assms])
  then have "fetchWithCoordinator (Some fe) confirmed cf key fetcher opts fence ctx s \<noteq> None"
    using timed by (auto simp: fetchWithCoordinator_def split: option.split sum.split prod.split)
  then show ?thesis by auto
qed

text \<open>
  C28: a waiter takes over the value of the process that holds the lock. If that value becomes readable before the wait has
  run out, less the longest gap between two polls, the waiter returns it, and its own fetcher is not
  asked: the outcome is the same for every fetcher.
\<close>

theorem waiter_takes_over_value:
  assumes "sleeps fe late" "0 \<le> late" "\<And>worker waiter s. fe_execute fe key (resolveSingleFlightOptions fe) worker waiter s = waiter s"
    and "found_from fe cf key opts waiting t v" "waiting (begin_wait key s)"
    and "sk_now s < t + longest_gap fe + late" "t + longest_gap fe + late < sk_now s + flight_timeout fe" "0 \<le> flight_timeout fe" "0 \<le> flight_poll fe"
  shows "\<exists>s'. \<forall>confirmed fetcher fence ctx. singleFlightTask (Some fe) confirmed cf key fetcher opts fence ctx s = Some (Inr v, s')"
proof -
  have "\<exists>s'. poll_loop fe cf key opts (sk_now s + flight_timeout fe) (flight_timeout fe) (flight_poll fe) (begin_wait key s) = Some (Inr (Some v), s')"
    by (rule poll_loop_finds [OF assms(1,2,4,7,8,5)]) (use assms(6,9) in \<open>simp_all add: begin_wait_def\<close>)
  then obtain s' where "poll_loop fe cf key opts (sk_now s + flight_timeout fe) (flight_timeout fe) (flight_poll fe) (begin_wait key s) = Some (Inr (Some v), s')" ..
  then have "waitForFreshValue fe cf key fetcher opts fence ctx s = Some (Inr v, s')" for fetcher fence ctx
    by (simp add: waitForFreshValue_def wait_until_def Let_def)
  then show ?thesis by (intro exI [of _ s']) (simp add: singleFlightTask_def assms(3))
qed

text \<open>
  Under graceful degradation a fetcher that fails is asked twice. The branch takes every error of the coordinated
  call for a failure of the coordinator, the worker's own error included: it counts a degraded operation and runs
  the fetch again without the lock.
\<close>

theorem degraded_flight_fetches_twice:
  assumes "isGracefulDegradationEnabled cf" "fe_execute fe key (resolveSingleFlightOptions fe) = (\<lambda>worker waiter. worker)"
    and "cf_fetch cf fetcher ctx = throw_error e" "\<not> is_rate_limit_error e"
    and "o_circuitBreaker opts = None" "cf_circuitBreaker cf = None" "map_of (breakers (sk_breakers s)) (''key:'' @ key) = None"
    and "o_fetcherRateLimit opts = None" "cf_fetcherRateLimit cf = None"
  shows "singleFlightTask (Some fe) True cf key fetcher opts fence ctx s =
    Some (Inl e, count_metric MFetches 1 (coordinator_failed (count_metric MFetches 1 s)))"
proof -
  have fetch: "fetchAndPopulate cf key fetcher opts fence ctx u = (Inl e, count_metric MFetches 1 u)"
    if "map_of (breakers (sk_breakers u)) (''key:'' @ key) = None" for u
    using assms(3-6,8,9) that
    by (simp add: fetchAndPopulate_def Let_def resolveCircuitBreakerKey_def assertClosed_def scheduled_fetch_def throw_error_def recordCircuitFailure_def)
  have "map_of (breakers (sk_breakers (coordinator_failed (count_metric MFetches 1 s)))) (''key:'' @ key) = None"
    using assms(7) by (simp add: coordinator_failed_def emit_def count_metric_def)
  then show ?thesis
    using fetch [OF assms(7)] fetch assms(1,2) by (simp add: singleFlightTask_def settles_def guarded_fetch_def)
qed

subsection \<open>A coordinator at work\<close>

text \<open>One layer in which the value appears at time 100, timers that fire on time, and a coordinator that lets this process wait.\<close>

definition late_layer :: "unit layer" where
  "late_layer = \<lparr>ly_name = ''remote'', ly_defaultTtl = None, ly_isLocal = False,
     ly_api = \<lparr>la_get = (\<lambda>t _ u. (Inr (if t < 100 then JNull else JStr ''v''), u)), la_getEntry = None, la_getMany = None,
       la_set = (\<lambda>_ _ _ _ u. (Inr (), u)), la_setMany = None, la_delete = (\<lambda>_ _ u. (Inr (), u)), la_deleteMany = None,
       la_clear = (\<lambda>_ u. (Inr (), u)), la_has = None, la_ttl = None, la_keys = None, la_visited = (\<lambda>_ _. [])\<rparr>, ly_state = ()\<rparr>"

definition waiting_flight :: "'l single_flight" where
  "waiting_flight = \<lparr>fe_settings = \<lparr>fs_leaseMs = None, fs_timeoutMs = None, fs_pollMs = None, fs_renewIntervalMs = None\<rparr>,
     fe_execute = (\<lambda>_ _ worker waiter. waiter), fe_sleep = (\<lambda>d s. s\<lparr>sk_now := sk_now s + d\<rparr>), fe_random = (\<lambda>_. 1 / 2)\<rparr>"

definition late_stack :: "unit stack" where
  "late_stack = initial_stack no_options 0 [late_layer]"

definition no_fetch_context :: "string \<Rightarrow> fetcher_context" where
  "no_fetch_context key = \<lparr>fc_key = key, fc_currentValue = JUndef, fc_state = FsMiss, fc_layer = None\<rparr>"

lemma waiting_flight_fields [simp]:
  "flight_timeout waiting_flight = 5000" "flight_poll waiting_flight = 50" "fe_execute waiting_flight k o' w wt = wt"
  by (simp_all add: flight_timeout_def flight_poll_def waiting_flight_def)

lemma waiting_flight_sleeps: "sleeps waiting_flight 0"
  by (simp add: sleeps_def waiting_flight_def)

lemma late_layer_found:
  "found_from waiting_flight (demo_config :: unit stack_config) ''k'' no_write_options
     (\<lambda>s. sk_layers s = [late_layer] \<and> sk_degradedUntil s = []) 100 (JStr ''v'')"
proof -
  have plain: "\<not> isStoredValueEnvelope t (JStr w)" for t w by (simp add: isStoredValueEnvelope_def)
  show ?thesis
    unfolding found_from_def
    by (simp add: readFromLayers_def readLayerEntry_def skip_layer_def shouldSkipLayer_def call_layer_def late_layer_def catching_def the_layer_def
        resolveStoredValue_def plain isNegativeStoredValue_def backfill_def emit_def waiting_flight_def Let_def)
qed

lemma late_stack_fields [simp]: "sk_now late_stack = 0" "sk_layers late_stack = [late_layer]" "sk_degradedUntil late_stack = []"
  by (simp_all add: late_stack_def)

theorem waiter_takes_over_value_witness:
  "\<exists>s'. \<forall>confirmed fetcher fence ctx. singleFlightTask (Some waiting_flight) confirmed (demo_config :: unit stack_config) ''k''
     fetcher no_write_options fence ctx late_stack = Some (Inr (JStr ''v''), s')"
  by (rule waiter_takes_over_value [OF waiting_flight_sleeps _ _ late_layer_found]) (simp_all add: begin_wait_def emit_def count_metric_def longest_gap_def)

theorem coordinated_fetch_settles_witness:
  "\<exists>r s'. fetchWithCoordinator (Some waiting_flight) True (demo_config :: unit stack_config) ''other'' 0 no_write_options (0, 0)
     (no_fetch_context ''other'') late_stack = Some (r, s')"
  by (rule coordinated_fetch_settles [OF waiting_flight_sleeps]) simp

theorem degraded_flight_fetches_twice_witness:
  "singleFlightTask (Some (waiting_flight\<lparr>fe_execute := \<lambda>_ _ worker waiter. worker\<rparr>)) True
      ((demo_config :: unit stack_config)\<lparr>cf_gracefulDegradation := Some (DegBool True)\<rparr>) ''k'' 0 no_write_options (0, 0) (no_fetch_context ''k'') late_stack
   = Some (Inl (BackendError ''down''), count_metric MFetches 1 (coordinator_failed (count_metric MFetches 1 late_stack)))"
  by (rule degraded_flight_fetches_twice)
    (simp_all add: isGracefulDegradationEnabled_def demo_config_def configure_def no_options_def throw_error_def no_write_options_def late_stack_def initial_stack_def
       fun_eq_iff Let_def)

end
