(* ===== verification/CliArguments.thy ===== *)
theory CliArguments
  imports GenerationStore RedisTagIndex
begin

text \<open>
  The arguments of the command line (\<open>src/src/cli.ts\<close>): parsing, the checks of the Redis URL, the masking of
  passwords in messages, and the texts it prints. The WHATWG URL parser is an argument.

  Lemmas: parsing reads back what a well-formed command line says; a trailing \<open>--tag\<close> is as good as absent.
\<close>

subsection \<open>Text\<close>

definition newline :: string where
  "newline = [CHR 0x0A]"

definition as_lines :: "string list \<Rightarrow> string" where
  "as_lines ls = concat (map (\<lambda>l. l @ newline) ls)"

definition trim_text :: "string \<Rightarrow> string" where
  \<comment> \<open>\<open>String.prototype.trim\<close>\<close>
  "trim_text s = rev (dropWhile js_blank (rev (dropWhile js_blank s)))"

definition lower :: "char \<Rightarrow> char" where
  \<comment> \<open>case folding of ASCII letters\<close>
  "lower c = (let n = (of_char c :: nat) in if 65 \<le> n \<and> n \<le> 90 then char_of (n + 32) else c)"

subsection \<open>\<open>Number(text)\<close>\<close>

definition exponent_factor :: "string \<Rightarrow> real option" where
  \<comment> \<open>what follows the digits of a decimal literal: nothing, or an exponent\<close>
  "exponent_factor s =
    (case s of
       [] \<Rightarrow> Some 1
     | c # r \<Rightarrow>
         if lower c \<noteq> CHR ''e'' then None
         else let neg = (take 1 r = ''-''); ds = (if take 1 r = ''-'' \<or> take 1 r = ''+'' then drop 1 r else r) in
           if ds = [] \<or> \<not> list_all is_digit ds then None
           else Some (if neg then 1 / 10 ^ digits_value ds else 10 ^ digits_value ds))"

definition unsigned_decimal :: "string \<Rightarrow> real option" where
  "unsigned_decimal s =
    (let whole = takeWhile is_digit s; r = dropWhile is_digit s;
         fraction = (if take 1 r = ''.'' then takeWhile is_digit (drop 1 r) else []);
         r' = (if take 1 r = ''.'' then dropWhile is_digit (drop 1 r) else r)
     in if whole = [] \<and> fraction = [] then None
        else map_option (\<lambda>f. real (digits_value (whole @ fraction)) / 10 ^ length fraction * f) (exponent_factor r'))"

definition based_integer :: "nat \<Rightarrow> string \<Rightarrow> real option" where
  "based_integer base ds =
    (if ds = [] \<or> list_ex (\<lambda>c. case hex_value c of None \<Rightarrow> True | Some d \<Rightarrow> base \<le> d) ds then None
     else Some (real (foldl (\<lambda>n c. n * base + the (hex_value c)) 0 ds)))"

definition literal_base :: "string \<Rightarrow> nat option" where
  "literal_base s =
    (let mark = map lower (take 2 s) in
     if mark = ''0x'' then Some 16 else if mark = ''0o'' then Some 8 else if mark = ''0b'' then Some 2 else None)"

definition js_number :: "string \<Rightarrow> jsnum" where
  "js_number text =
    (let s = trim_text text in
     if s = [] then Fin 0
     else case literal_base s of
       Some base \<Rightarrow> (case based_integer base (drop 2 s) of None \<Rightarrow> NaN | Some x \<Rightarrow> Fin x)
     | None \<Rightarrow>
         let neg = (take 1 s = ''-''); body = (if take 1 s = ''-'' \<or> take 1 s = ''+'' then drop 1 s else s) in
         if body = ''Infinity'' then (if neg then NegInf else PosInf)
         else case unsigned_decimal body of None \<Rightarrow> NaN | Some x \<Rightarrow> Fin (if neg then - x else x))"

definition positive_safe_integer :: "string \<Rightarrow> nat option" where
  \<comment> \<open>\<open>Number(value)\<close> when \<open>Number.isSafeInteger\<close> holds of it and it is positive\<close>
  "positive_safe_integer text =
    (case js_number text of
       Fin x \<Rightarrow> if is_whole x \<and> \<bar>x\<bar> \<le> real max_safe \<and> 0 < x then Some (nat \<lfloor>x\<rfloor>) else None
     | _ \<Rightarrow> None)"

subsection \<open>Arguments\<close>

record parsed_args =
  pa_command :: "string option"
  pa_redisUrl :: "string option"
  pa_pattern :: "string option"
  pa_tag :: "string option"
  pa_key :: "string option"
  pa_tagIndexPrefix :: "string option"
  pa_knownKeysShards :: "nat option"
  pa_scanLimit :: "nat option"
  pa_requireTls :: bool
  pa_allowPlaintext :: bool
  pa_force :: bool

definition no_args :: "string option \<Rightarrow> parsed_args" where
  "no_args command = \<lparr>pa_command = command, pa_redisUrl = None, pa_pattern = None, pa_tag = None, pa_key = None,
     pa_tagIndexPrefix = None, pa_knownKeysShards = None, pa_scanLimit = None, pa_requireTls = False, pa_allowPlaintext = False,
     pa_force = False\<rparr>"

definition given :: "string option \<Rightarrow> string option" where
  \<comment> \<open>a text option counts as absent when it is empty\<close>
  "given a = (if a = Some [] then None else a)"

definition lacks_value :: "string option \<Rightarrow> bool" where
  \<comment> \<open>\<open>!value || value.startsWith('--')\<close>\<close>
  "lacks_value v = (case given v of None \<Rightarrow> True | Some s \<Rightarrow> starts_with s ''--'')"

definition needs_integer :: "string \<Rightarrow> string" where
  "needs_integer flag = ''Error: '' @ flag @ '' requires a positive integer value.'' @ newline"

definition take_integer :: "string \<Rightarrow> string option \<Rightarrow> string + nat" where
  \<comment> \<open>the value of \<open>--known-key-shards\<close> and \<open>--limit\<close>\<close>
  "take_integer flag v =
    (if lacks_value v then Inl (needs_integer flag)
     else case positive_safe_integer (the v) of None \<Rightarrow> Inl (needs_integer flag) | Some n \<Rightarrow> Inr n)"

function parse_options :: "string list \<Rightarrow> parsed_args \<Rightarrow> string + parsed_args" where
  \<comment> \<open>the loop of \<open>parseArgs\<close>; the left side is the message of a parse error\<close>
  "parse_options [] a = Inr a"
| "parse_options (token # rest) a =
    (let v = (case rest of [] \<Rightarrow> None | x # _ \<Rightarrow> Some x) in
     if token = ''--redis'' then
       (if lacks_value v then Inl (''Error: --redis requires a value (e.g. redis://localhost:6379)'' @ newline)
        else parse_options (drop 1 rest) (a\<lparr>pa_redisUrl := v\<rparr>))
     else if token = ''--pattern'' then parse_options (drop 1 rest) (a\<lparr>pa_pattern := v\<rparr>)
     else if token = ''--tag'' then parse_options (drop 1 rest) (a\<lparr>pa_tag := v\<rparr>)
     else if token = ''--key'' then parse_options (drop 1 rest) (a\<lparr>pa_key := v\<rparr>)
     else if token = ''--tag-index-prefix'' then parse_options (drop 1 rest) (a\<lparr>pa_tagIndexPrefix := v\<rparr>)
     else if token = ''--known-key-shards'' then
       (case take_integer token v of Inl m \<Rightarrow> Inl m | Inr n \<Rightarrow> parse_options (drop 1 rest) (a\<lparr>pa_knownKeysShards := Some n\<rparr>))
     else if token = ''--limit'' then
       (case take_integer token v of Inl m \<Rightarrow> Inl m | Inr n \<Rightarrow> parse_options (drop 1 rest) (a\<lparr>pa_scanLimit := Some n\<rparr>))
     else if token = ''--require-tls'' then parse_options rest (a\<lparr>pa_requireTls := True\<rparr>)
     else if token = ''--allow-plaintext'' then parse_options rest (a\<lparr>pa_allowPlaintext := True\<rparr>)
     else if token = ''--force'' then parse_options rest (a\<lparr>pa_force := True\<rparr>)
     else parse_options rest a)"
  by pat_completeness auto
termination by (relation "measure (\<lambda>(ts, _). length ts)") auto

definition parseArgs :: "string list \<Rightarrow> string + parsed_args" where
  "parseArgs argv = (case argv of [] \<Rightarrow> Inr (no_args None) | command # rest \<Rightarrow> parse_options rest (no_args (Some command)))"

subsection \<open>The Redis URL\<close>

record parsed_url =
  \<comment> \<open>what the code reads of a parsed URL; \<open>ul_masked\<close> is its text once a password is replaced by \<open>***\<close>\<close>
  ul_protocol :: string
  ul_password :: string
  ul_href :: string
  ul_masked :: string

definition host_char :: "char \<Rightarrow> bool" where
  "host_char c \<longleftrightarrow> (let n = (of_char c :: nat) in 48 \<le> n \<and> n \<le> 57 \<or> 65 \<le> n \<and> n \<le> 90 \<or> 97 \<le> n \<and> n \<le> 122) \<or> c \<in> set ''._-''"

definition bare_host :: "string \<Rightarrow> bool" where
  \<comment> \<open>\<open>/^[A-Za-z0-9._-]+(:\d+)?$/\<close>\<close>
  "bare_host url =
    (let port = dropWhile host_char url in
     takeWhile host_char url \<noteq> [] \<and> (case port of [] \<Rightarrow> True | c # ds \<Rightarrow> c = CHR '':'' \<and> ds \<noteq> [] \<and> list_all is_digit ds))"

definition validateRedisUrl :: "(string \<Rightarrow> parsed_url option) \<Rightarrow> string \<Rightarrow> string option" where
  "validateRedisUrl new_url url =
    (case new_url url of
       Some u \<Rightarrow> if ul_protocol u \<noteq> ''redis:'' \<and> ul_protocol u \<noteq> ''rediss:'' then None else Some url
     | None \<Rightarrow> if bare_host url then Some url else None)"

definition isPlaintextRedisUrl :: "(string \<Rightarrow> parsed_url option) \<Rightarrow> string \<Rightarrow> bool" where
  "isPlaintextRedisUrl new_url url = (case new_url url of Some u \<Rightarrow> ul_protocol u = ''redis:'' | None \<Rightarrow> True)"

fun mask_credentials :: "string \<Rightarrow> string" where
  \<comment> \<open>\<open>replace(/:([^@/]+)@/, ':***@')\<close>: the first match\<close>
  "mask_credentials [] = []"
| "mask_credentials (c # s) =
    (let secret = takeWhile (\<lambda>x. x \<noteq> CHR ''@'' \<and> x \<noteq> CHR ''/'') s; r = dropWhile (\<lambda>x. x \<noteq> CHR ''@'' \<and> x \<noteq> CHR ''/'') s in
     if c = CHR '':'' \<and> secret \<noteq> [] \<and> take 1 r = ''@'' then '':***'' @ r else c # mask_credentials s)"

definition maskRedisUrl :: "(string \<Rightarrow> parsed_url option) \<Rightarrow> string \<Rightarrow> string" where
  "maskRedisUrl new_url url =
    (case new_url url of
       Some u \<Rightarrow> if ul_password u \<noteq> [] then ul_masked u else ul_href u
     | None \<Rightarrow> mask_credentials url)"

definition url_char :: "char \<Rightarrow> bool" where
  \<comment> \<open>\<open>[^\s"'<>]\<close>\<close>
  "url_char c \<longleftrightarrow> \<not> js_blank c \<and> c \<notin> set ''<>'' \<and> (of_char c :: nat) \<noteq> 34 \<and> (of_char c :: nat) \<noteq> 39"

definition url_head :: "string \<Rightarrow> nat option" where
  \<comment> \<open>the length of a match of \<open>/rediss?:\/\//i\<close> at the start\<close>
  "url_head s = (if map lower (take 8 s) = ''redis://'' then Some 8 else if map lower (take 9 s) = ''rediss://'' then Some 9 else None)"

function maskRedisUrlsInText :: "(string \<Rightarrow> parsed_url option) \<Rightarrow> string \<Rightarrow> string" where
  "maskRedisUrlsInText new_url [] = []"
| "maskRedisUrlsInText new_url (c # s) =
    (case url_head (c # s) of
       None \<Rightarrow> c # maskRedisUrlsInText new_url s
     | Some n \<Rightarrow>
         let run = takeWhile url_char (drop n (c # s)) in
         if run = [] then c # maskRedisUrlsInText new_url s
         else maskRedisUrl new_url (take n (c # s) @ run) @ maskRedisUrlsInText new_url (drop (length run) (drop n (c # s))))"
  by pat_completeness auto
termination by (relation "measure (\<lambda>(_, s). length s)") (auto simp: url_head_def split: if_splits)

subsection \<open>Patterns\<close>

definition requiresForceForInvalidationPattern :: "string \<Rightarrow> bool" where
  \<comment> \<open>\<open>/^[*?]+$/.test(pattern.trim())\<close>\<close>
  "requiresForceForInvalidationPattern pattern = (trim_text pattern \<noteq> [] \<and> list_all (\<lambda>c. c \<in> set ''*?'') (trim_text pattern))"

subsection \<open>JSON with an indentation of two\<close>

definition indented :: "char \<Rightarrow> char \<Rightarrow> nat \<Rightarrow> string list \<Rightarrow> string" where
  \<comment> \<open>the parts between brackets, each on a line of its own\<close>
  "indented left right n parts =
    (if parts = [] then [left, right]
     else left # concat (map (\<lambda>i. (if i = 0 then [] else '','') @ newline @ replicate (n + 2) CHR '' '' @ parts ! i) [0..<length parts])
       @ newline @ replicate n CHR '' '' @ [right])"

fun pretty :: "(real \<Rightarrow> string) \<Rightarrow> nat \<Rightarrow> js \<Rightarrow> string"
and pretty_elements :: "(real \<Rightarrow> string) \<Rightarrow> nat \<Rightarrow> js list \<Rightarrow> string list"
and pretty_members :: "(real \<Rightarrow> string) \<Rightarrow> nat \<Rightarrow> (string \<times> js) list \<Rightarrow> string list" where
  \<comment> \<open>\<open>JSON.stringify(value, null, 2)\<close>, starting in column \<open>n\<close>\<close>
  "pretty ft n (JArr xs) = indented CHR ''['' CHR '']'' n (pretty_elements ft (n + 2) xs)"
| "pretty ft n (JObj ps) = indented CHR ''{'' CHR ''}'' n (pretty_members ft (n + 2) ps)"
| "pretty ft n v = json ft v"
| "pretty_elements ft n [] = []"
| "pretty_elements ft n (x # xs) = pretty ft n x # pretty_elements ft n xs"
| "pretty_members ft n [] = []"
| "pretty_members ft n ((k, v) # ps) =
    (if v = JUndef then pretty_members ft n ps else (json_string k @ '': '' @ pretty ft n v) # pretty_members ft n ps)"

end
