(* ===== verification/CommandLine.thy ===== *)
theory CommandLine
  imports CliArguments
begin

text \<open>
  The commands of the command line (\<open>src/src/cli.ts\<close>) as steps of a process with a connection, two output streams and an
  exit code. The Redis client, the URL parser and the decoding of bytes are arguments; a run whose scan never ends is
  \<open>None\<close>.
\<close>

subsection \<open>The process\<close>

record 'c process =
  px_conn :: 'c
  px_out :: string
  px_err :: string
  px_exit :: "nat option"

record 'c cli_host =
  ch_production :: bool    \<comment> \<open>\<open>process.env.NODE_ENV === 'production'\<close>\<close>
  ch_now :: real
  ch_url :: "string \<Rightarrow> parsed_url option"
  ch_utf8 :: "string \<Rightarrow> string"    \<comment> \<open>\<open>payload.toString('utf8')\<close>\<close>
  ch_fraction :: "real \<Rightarrow> string"    \<comment> \<open>the text of a number that is not whole\<close>
  ch_connect :: "'c \<Rightarrow> (string + unit) \<times> 'c"    \<comment> \<open>a failure with its message\<close>
  ch_disconnect :: "'c \<Rightarrow> 'c"
  ch_redis :: "'c redis_client"
  ch_sets :: "'c set_client"

type_synonym ('c, 'a) command = "'c process \<Rightarrow> ('a result \<times> 'c process) option"

definition print_out :: "string \<Rightarrow> 'c process \<Rightarrow> 'c process" where
  "print_out s p = p\<lparr>px_out := px_out p @ s\<rparr>"

definition print_err :: "string \<Rightarrow> 'c process \<Rightarrow> 'c process" where
  "print_err s p = p\<lparr>px_err := px_err p @ s\<rparr>"

definition failed :: "string \<Rightarrow> 'c process \<Rightarrow> 'c process" where
  \<comment> \<open>a message and exit code 1\<close>
  "failed s p = (print_err s p)\<lparr>px_exit := Some 1\<rparr>"

definition on_conn :: "('c, 'a) action \<Rightarrow> 'c process \<Rightarrow> 'a result \<times> 'c process" where
  "on_conn m p = (case m (px_conn p) of (r, c) \<Rightarrow> (r, p\<lparr>px_conn := c\<rparr>))"

definition andalso :: "('c, 'a) command \<Rightarrow> ('a \<Rightarrow> ('c, 'b) command) \<Rightarrow> ('c, 'b) command" where
  "andalso m f p = Option.bind (m p) (\<lambda>(r, p1). case r of Inl e \<Rightarrow> Some (Inl e, p1) | Inr x \<Rightarrow> f x p1)"

definition redis_call :: "('c, 'a) action \<Rightarrow> ('c, 'a) command" where
  "redis_call m p = Some (on_conn m p)"

definition finish :: "('c process \<Rightarrow> 'c process) \<Rightarrow> ('c, unit) command" where
  "finish f p = Some (Inr (), f p)"

subsection \<open>Messages\<close>

fun error_message :: "error \<Rightarrow> string" where
  \<comment> \<open>\<open>error.message\<close> of the errors that reach the command line\<close>
  "error_message (EmptyInput name) = name @ '' must not be empty.''"
| "error_message (TooLong name n) = name @ '' length must be at most '' @ decimal n @ '' characters.''"
| "error_message (ControlCharacters name) = name @ '' contains unsupported control characters.''"
| "error_message (SurrogateCodePoints name) = name @ '' contains unsupported surrogate code points.''"
| "error_message (MustBePositive name) = name @ '' must be a positive integer.''"
| "error_message (BackendError m) = m"
| "error_message (OtherError m) = m"
| "error_message e = ''Error''"

definition error_line :: "string \<Rightarrow> string" where
  "error_line m = ''Error: '' @ m @ newline"

definition usage :: string where
  "usage = as_lines
    [''Usage:'',
     ''  layercache stats --redis <url> [--pattern <glob>]'',
     ''  layercache keys --redis <url> [--pattern <glob>]'',
     ''  layercache inspect --redis <url> --key <key>'',
     ''  layercache invalidate --redis <url> [--pattern <glob> | --tag <tag>] [--tag-index-prefix <prefix>]'',
     ''  layercache migrate-tag-index --redis <url> [--tag-index-prefix <prefix>] [--known-key-shards <count>]'',
     '''',
     ''Options:'',
     ''  --redis <url>               Redis connection URL (e.g. redis://localhost:6379)'',
     ''  --pattern <glob>            Glob pattern to filter keys (default: *)'',
     ''  --key <key>                 Exact cache key to inspect'',
     ''  --tag <tag>                 Invalidate by tag name'',
     ''  --tag-index-prefix <prefix> Redis key prefix for tag index (default: layercache:tag-index)'',
     ''  --known-key-shards <count>  Shard count for RedisTagIndex migration (default: 16)'',
     ''  --limit <count>             Maximum Redis keys to scan (default: 100000)'',
     ''  --require-tls               Reject non-TLS (redis://) connections'',
     ''  --allow-plaintext          Explicitly allow redis:// when NODE_ENV=production'']"

definition printUsage :: "'c process \<Rightarrow> 'c process" where
  "printUsage = print_out usage"

definition print_json :: "'c cli_host \<Rightarrow> js \<Rightarrow> 'c process \<Rightarrow> 'c process" where
  "print_json h v = print_out (pretty (ch_fraction h) 0 v @ newline)"

definition js_nat :: "nat \<Rightarrow> js" where
  "js_nat n = JNum (Fin (real n))"

subsection \<open>Scanning and deleting\<close>

definition DEFAULT_SCAN_MAX_KEYS :: nat where "DEFAULT_SCAN_MAX_KEYS = 100000"

definition DELETE_BATCH :: nat where "DELETE_BATCH = 500"

definition scan_stopped :: "nat \<Rightarrow> string" where
  "scan_stopped limit = ''Warning: stopped scanning after '' @ decimal limit @ '' keys. Use --limit to raise the scan cap.'' @ newline"

partial_function (option) cli_scan :: "'c cli_host \<Rightarrow> string \<Rightarrow> nat \<Rightarrow> string \<Rightarrow> string list \<Rightarrow> ('c, string list) command" where
  \<comment> \<open>the loop of \<open>scanKeys\<close>\<close>
  "cli_scan h pattern limit cursor keys p =
    (case on_conn (rc_scan (ch_redis h) (ch_now h) cursor pattern 100) p of
       (Inl e, p1) \<Rightarrow> Some (Inl e, p1)
     | (Inr (nextCursor, batch), p1) \<Rightarrow>
         let keys' = keys @ take (limit - length keys) batch in
         if limit \<le> length keys' then Some (Inr keys', print_err (scan_stopped limit) p1)
         else if nextCursor \<noteq> ''0'' then cli_scan h pattern limit nextCursor keys' p1
         else Some (Inr keys', p1))"

definition cli_scanKeys :: "'c cli_host \<Rightarrow> string \<Rightarrow> nat \<Rightarrow> ('c, string list) command" where
  "cli_scanKeys h pattern limit = cli_scan h pattern limit ''0'' []"

function batchDelete :: "'c cli_host \<Rightarrow> string list \<Rightarrow> 'c process \<Rightarrow> unit result \<times> 'c process" where
  "batchDelete h keys p =
    (if keys = [] then (Inr (), p)
     else case on_conn (rc_del (ch_redis h) (ch_now h) (take DELETE_BATCH keys)) p of
       (Inl e, p1) \<Rightarrow> (Inl e, p1)
     | (Inr _, p1) \<Rightarrow> batchDelete h (drop DELETE_BATCH keys) p1)"
  by pat_completeness auto
termination by (relation "measure (\<lambda>(_, keys, _). length keys)") (auto simp: DELETE_BATCH_def)

declare batchDelete.simps [simp del]

subsection \<open>The commands\<close>

definition validated :: "(string \<Rightarrow> 'a result) \<Rightarrow> string option \<Rightarrow> ('c, unit) command \<Rightarrow> ('c, unit) command" where
  \<comment> \<open>\<open>if (value && !validateCliInput(value, validator)) return\<close>\<close>
  "validated validator v m p =
    (case given v of
       None \<Rightarrow> m p
     | Some s \<Rightarrow> (case validator s of Inl e \<Rightarrow> Some (Inr (), failed (error_line (error_message e)) p) | Inr _ \<Rightarrow> m p))"

definition selected_keys :: "'c cli_host \<Rightarrow> parsed_args \<Rightarrow> ('c, string list) command" where
  "selected_keys h a = cli_scanKeys h (nullish (pa_pattern a) ''*'') (nullish (pa_scanLimit a) DEFAULT_SCAN_MAX_KEYS)"

definition run_stats :: "'c cli_host \<Rightarrow> parsed_args \<Rightarrow> ('c, unit) command" where
  "run_stats h a =
    validated validatePattern (pa_pattern a) (andalso (selected_keys h a) (\<lambda>keys. finish
      (print_json h (JObj [(''totalKeys'', js_nat (length keys)), (''pattern'', JStr (nullish (pa_pattern a) ''*''))]))))"

definition run_keys :: "'c cli_host \<Rightarrow> parsed_args \<Rightarrow> ('c, unit) command" where
  "run_keys h a =
    validated validatePattern (pa_pattern a) (andalso (selected_keys h a) (\<lambda>keys. finish (\<lambda>p.
      if keys = [] then p else print_out (as_lines keys) p)))"

definition run_invalidate_tag :: "'c cli_host \<Rightarrow> parsed_args \<Rightarrow> ('c, unit) command" where
  "run_invalidate_tag h a =
    validated validateTag (pa_tag a)
      (case new_redis_tag_index (Some (nullish (pa_tagIndexPrefix a) ''layercache:tag-index'')) None None of
         Inl e \<Rightarrow> (\<lambda>p. Some (Inl e, p))
       | Inr ri \<Rightarrow>
           andalso (redis_call (rt_keysForTag (ch_sets h) ri (the (pa_tag a)))) (\<lambda>keys.
           andalso (\<lambda>p. Some (batchDelete h keys p)) (\<lambda>_. finish
             (print_json h (JObj [(''deletedKeys'', js_nat (length keys)), (''tag'', JStr (the (pa_tag a)))])))))"

definition confirm_needed :: "nat \<Rightarrow> string" where
  "confirm_needed n = ''Warning: this operation will invalidate '' @ decimal n @ '' keys. Use --force to confirm.'' @ newline"

definition run_invalidate_pattern :: "'c cli_host \<Rightarrow> parsed_args \<Rightarrow> ('c, unit) command" where
  "run_invalidate_pattern h a =
    (let effectivePattern = nullish (pa_pattern a) ''*'' in
     validated validatePattern (pa_pattern a) (andalso (selected_keys h a) (\<lambda>keys p.
       if requiresForceForInvalidationPattern effectivePattern \<and> \<not> pa_force a \<and> keys \<noteq> []
       then Some (Inr (), print_err (confirm_needed (length keys)) p)
       else andalso (\<lambda>p. Some (batchDelete h keys p)) (\<lambda>_. finish
         (print_json h (JObj [(''deletedKeys'', js_nat (length keys)), (''pattern'', JStr effectivePattern)]))) p)))"

definition run_migrate :: "'c cli_host \<Rightarrow> parsed_args \<Rightarrow> ('c, unit) command" where
  "run_migrate h a =
    (case new_redis_tag_index (Some (nullish (pa_tagIndexPrefix a) ''layercache:tag-index'')) None (map_option real (pa_knownKeysShards a)) of
       Inl e \<Rightarrow> (\<lambda>p. Some (Inl e, p))
     | Inr ri \<Rightarrow>
         andalso (\<lambda>p. map_option (\<lambda>(r, c). (r, p\<lparr>px_conn := c\<rparr>)) (migrateLegacyKnownKeys (ch_sets h) ri (px_conn p))) (\<lambda>n. finish
           (print_json h (JObj [(''migratedKeys'', js_nat n)]))))"

definition decodeInspectablePayload :: "'c cli_host \<Rightarrow> string option \<Rightarrow> js" where
  "decodeInspectablePayload h payload =
    (case payload of
       None \<Rightarrow> JNull
     | Some bytes \<Rightarrow>
         let txt = ch_utf8 h bytes in
         case json_parse txt of
           Some v \<Rightarrow> v
         | None \<Rightarrow> JStr (if 256 < length txt then take 256 txt @ ''...'' else txt))"

definition summarizeInspectableValue :: "real \<Rightarrow> js \<Rightarrow> js" where
  "summarizeInspectableValue date_now v =
    (if isStoredValueEnvelope date_now v
     then JObj (map (\<lambda>name. (name, js_prop v name)) [''kind'', ''value'', ''freshUntil'', ''staleUntil'', ''errorUntil''])
     else v)"

fun state_text :: "stored_value_state \<Rightarrow> string" where
  "state_text Fresh = ''fresh''"
| "state_text StaleWhileRevalidate = ''stale-while-revalidate''"
| "state_text StaleIfError = ''stale-if-error''"
| "state_text Expired = ''expired''"

definition inspection :: "'c cli_host \<Rightarrow> string \<Rightarrow> string option \<Rightarrow> real \<Rightarrow> js" where
  "inspection h key payload ttl =
    (let decoded = decodeInspectablePayload h payload in JObj
      [(''key'', JStr key), (''exists'', JBool (payload \<noteq> None)), (''ttlMs'', if 0 \<le> ttl then JNum (Fin ttl) else JNull),
       (''sizeBytes'', js_nat (case payload of None \<Rightarrow> 0 | Some b \<Rightarrow> length b)),
       (''isEnvelope'', JBool (isStoredValueEnvelope (ch_now h) decoded)),
       (''state'', if payload = None then JNull else JStr (state_text (rsv_state (resolveStoredValue (ch_now h) decoded (ch_now h))))),
       (''preview'', summarizeInspectableValue (ch_now h) decoded)])"

definition run_inspect :: "'c cli_host \<Rightarrow> parsed_args \<Rightarrow> ('c, unit) command" where
  "run_inspect h a =
    (case given (pa_key a) of
       None \<Rightarrow> (\<lambda>p. Some (Inl (OtherError ''inspect requires --key <key>.''), p))
     | Some key \<Rightarrow> validated validateCacheKey (Some key)
         (andalso (redis_call (rc_getBuffer (ch_redis h) (ch_now h) key)) (\<lambda>payload.
          andalso (redis_call (rc_pttl (ch_redis h) (ch_now h) key)) (\<lambda>ttl. finish (print_json h (inspection h key payload ttl))))))"

definition dispatch :: "'c cli_host \<Rightarrow> parsed_args \<Rightarrow> ('c, unit) command" where
  "dispatch h a =
    (let command = nullish (pa_command a) [] in
     if command = ''stats'' then run_stats h a
     else if command = ''keys'' then run_keys h a
     else if command = ''invalidate'' then (if given (pa_tag a) \<noteq> None then run_invalidate_tag h a else run_invalidate_pattern h a)
     else if command = ''migrate-tag-index'' then run_migrate h a
     else if command = ''inspect'' then run_inspect h a
     else finish (\<lambda>p. (printUsage p)\<lparr>px_exit := Some 1\<rparr>))"

subsection \<open>The program\<close>

definition connect_to :: "'c cli_host \<Rightarrow> string \<Rightarrow> ('c, unit) command" where
  "connect_to h url p =
    (case ch_connect h (px_conn p) of
       (Inl m, c) \<Rightarrow> Some (Inl (OtherError (''Failed to connect to Redis at '' @ maskRedisUrl (ch_url h) url @ '': '' @ maskRedisUrlsInText (ch_url h) m)), p\<lparr>px_conn := c\<rparr>)
     | (Inr _, c) \<Rightarrow> Some (Inr (), p\<lparr>px_conn := c\<rparr>))"

definition session_run :: "'c cli_host \<Rightarrow> string \<Rightarrow> parsed_args \<Rightarrow> 'c process \<Rightarrow> 'c process option" where
  \<comment> \<open>the \<open>try\<close> statement of \<open>main\<close>\<close>
  "session_run h url a p =
    map_option (\<lambda>(r, p1).
        (case r of Inl e \<Rightarrow> failed (error_line (error_message e)) p1 | Inr _ \<Rightarrow> p1)\<lparr>px_conn := ch_disconnect h (px_conn p1)\<rparr>)
      (andalso (connect_to h url) (\<lambda>_. dispatch h a) p)"

definition plaintext_warning :: string where
  "plaintext_warning = ''Warning: connecting to Redis without TLS (redis://). All data including cached values and credentials '' @
     ''will be transmitted in plaintext. Use rediss:// in production environments, or set --require-tls.'' @ newline"

definition main :: "'c cli_host \<Rightarrow> string list \<Rightarrow> 'c process \<Rightarrow> 'c process option" where
  "main h argv p0 =
    (let p = p0\<lparr>px_exit := None\<rparr> in
     case parseArgs argv of
       Inl m \<Rightarrow> Some (failed m p)
     | Inr a \<Rightarrow>
         if given (pa_command a) = None \<or> given (pa_redisUrl a) = None then Some ((printUsage p)\<lparr>px_exit := Some 1\<rparr>)
         else case validateRedisUrl (ch_url h) (the (pa_redisUrl a)) of
           None \<Rightarrow> Some (failed (''Error: invalid Redis URL. Expected format: redis://[user:password@]host[:port][/db]'' @ newline) p)
         | Some url \<Rightarrow>
             if isPlaintextRedisUrl (ch_url h) url then
               if pa_requireTls a then Some (failed (''Error: --require-tls is set but the URL uses redis:// (plaintext). '' @
                   ''Use rediss:// for TLS-encrypted connections.'' @ newline) p)
               else if ch_production h \<and> \<not> pa_allowPlaintext a
               then Some (failed (''Error: refusing plaintext redis:// connection because NODE_ENV=production. '' @
                   ''Use rediss:// for TLS-encrypted connections, or pass --allow-plaintext to explicitly override.'' @ newline) p)
               else session_run h url a (print_err plaintext_warning p)
             else session_run h url a p)"

end
