(* ===== verification/CommandLineProps.thy ===== *)
theory CommandLineProps
  imports CommandLine RedisContract
begin

text \<open>
  Properties of the command line: what its commands may change on the server, when it refuses to connect, and that its
  arguments are read as written. \<open>cli_server\<close> states the documented behaviour of the commands it sends.
\<close>

subsection \<open>The server\<close>

definition cli_server :: "'c cli_host \<Rightarrow> ('c \<Rightarrow> string \<Rightarrow> 'b option) \<Rightarrow> (string \<Rightarrow> string \<Rightarrow> bool) \<Rightarrow> bool" where
  \<comment> \<open>\<open>data\<close> is what the server stores, \<open>mat\<close> what \<open>MATCH\<close> selects: only \<open>DEL\<close> changes data, and only under its keys\<close>
  "cli_server h data mat \<longleftrightarrow>
    (\<forall>c. data (snd (ch_connect h c)) = data c \<and> data (ch_disconnect h c) = data c) \<and>
    (\<forall>c cur pat. data (snd (rc_scan (ch_redis h) (ch_now h) cur pat 100 c)) = data c \<and>
       (case fst (rc_scan (ch_redis h) (ch_now h) cur pat 100 c) of Inl _ \<Rightarrow> True | Inr (_, ks) \<Rightarrow> \<forall>k \<in> set ks. mat pat k)) \<and>
    (\<forall>c k. data (snd (rc_getBuffer (ch_redis h) (ch_now h) k c)) = data c \<and> data (snd (rc_pttl (ch_redis h) (ch_now h) k c)) = data c \<and>
       data (snd (sc_smembers (ch_sets h) k c)) = data c) \<and>
    (\<forall>c ks k. k \<notin> set ks \<longrightarrow> data (snd (rc_del (ch_redis h) (ch_now h) ks c)) k = data c k)"

definition keeps :: "('c \<Rightarrow> string \<Rightarrow> 'b option) \<Rightarrow> ('c, 'a) command \<Rightarrow> bool" where
  "keeps data m \<longleftrightarrow> (\<forall>p r p'. m p = Some (r, p') \<longrightarrow> data (px_conn p') = data (px_conn p))"

lemma keepsI: "(\<And>p r p'. m p = Some (r, p') \<Longrightarrow> data (px_conn p') = data (px_conn p)) \<Longrightarrow> keeps data m"
  by (simp add: keeps_def)

lemma process_fields [simp]:
  "px_conn (print_out s p) = px_conn p" "px_conn (print_err s p) = px_conn p" "px_conn (failed s p) = px_conn p"
  "px_conn (print_json h v p) = px_conn p" "px_conn (printUsage p) = px_conn p" "px_exit (failed s p) = Some 1"
  by (simp_all add: print_out_def print_err_def failed_def print_json_def printUsage_def)

lemma keeps_finish [intro]: "(\<And>p. px_conn (f p) = px_conn p) \<Longrightarrow> keeps data (finish f)"
  by (auto simp: keeps_def finish_def)

lemma keeps_andalso [intro]: "keeps data m \<Longrightarrow> (\<And>x. keeps data (f x)) \<Longrightarrow> keeps data (andalso m f)"
proof (rule keepsI)
  fix p r p' assume m: "keeps data m" and f: "\<And>x. keeps data (f x)" and run: "andalso m f p = Some (r, p')"
  then obtain q p1 where q: "m p = Some (q, p1)" and rest: "(case q of Inl e \<Rightarrow> Some (Inl e, p1) | Inr x \<Rightarrow> f x p1) = Some (r, p')"
    by (auto simp: andalso_def bind_eq_Some_conv)
  have "data (px_conn p1) = data (px_conn p)" using m q by (simp add: keeps_def)
  moreover have "data (px_conn p') = data (px_conn p1)" using f rest by (cases q) (auto simp: keeps_def)
  ultimately show "data (px_conn p') = data (px_conn p)" by simp
qed

lemma keeps_validated [intro]: "keeps data m \<Longrightarrow> keeps data (validated validator v m)"
  by (auto simp: keeps_def validated_def split: option.splits sum.splits)

lemma keeps_call [intro]: "(\<And>c. data (snd (m c)) = data c) \<Longrightarrow> keeps data (redis_call m)"
  by (auto simp: keeps_def redis_call_def on_conn_def split: prod.splits) (metis snd_conv)+

lemma keeps_throw [intro]: "keeps data (\<lambda>p. Some (Inl e, p))"
  by (simp add: keeps_def)

subsection \<open>Scanning\<close>

lemma server_scan:
  assumes "cli_server h data mat" "on_conn (rc_scan (ch_redis h) (ch_now h) cursor pattern 100) p = (r, p1)"
  shows "data (px_conn p1) = data (px_conn p)" and "r = Inr (nextCursor, ks) \<Longrightarrow> \<forall>k \<in> set ks. mat pattern k"
proof -
  obtain c where c: "rc_scan (ch_redis h) (ch_now h) cursor pattern 100 (px_conn p) = (r, c)" "p1 = p\<lparr>px_conn := c\<rparr>"
    using assms(2) by (auto simp: on_conn_def split: prod.splits)
  have "data (snd (rc_scan (ch_redis h) (ch_now h) cursor pattern 100 (px_conn p))) = data (px_conn p) \<and>
     (case fst (rc_scan (ch_redis h) (ch_now h) cursor pattern 100 (px_conn p)) of Inl _ \<Rightarrow> True | Inr (_, ks) \<Rightarrow> \<forall>k \<in> set ks. mat pattern k)"
    using assms(1) unfolding cli_server_def by blast
  then show "data (px_conn p1) = data (px_conn p)" "r = Inr (nextCursor, ks) \<Longrightarrow> \<forall>k \<in> set ks. mat pattern k" using c by auto
qed

definition scans_well :: "('c \<Rightarrow> string \<Rightarrow> 'b option) \<Rightarrow> (string \<Rightarrow> bool) \<Rightarrow> nat \<Rightarrow> 'c process \<Rightarrow> string list result \<times> 'c process \<Rightarrow> bool" where
  "scans_well data wanted limit p y \<longleftrightarrow> data (px_conn (snd y)) = data (px_conn p) \<and>
     (case fst y of Inl _ \<Rightarrow> True | Inr ks \<Rightarrow> length ks \<le> limit \<and> (\<forall>k \<in> set ks. wanted k))"

lemma scan_spec:
  fixes h :: "'c cli_host"
  assumes "cli_scan h pattern limit cursor keys p = Some y"
  shows "cli_server h data mat \<longrightarrow> length keys \<le> limit \<longrightarrow> (\<forall>k \<in> set keys. mat pattern k) \<longrightarrow> scans_well data (mat pattern) limit p y"
proof (rule cli_scan.raw_induct [where P = "\<lambda>h pattern limit cursor keys p y. cli_server h data mat \<longrightarrow> length keys \<le> limit \<longrightarrow>
    (\<forall>k \<in> set keys. mat pattern k) \<longrightarrow> scans_well data (mat pattern) limit p y", OF _ assms], intro impI)
  fix f and h :: "'c cli_host" and pattern limit cursor keys p and y :: "string list result \<times> 'c process"
  assume IH: "\<And>h pattern limit cursor keys p y. f h pattern limit cursor keys p = Some y \<Longrightarrow>
      cli_server h data mat \<longrightarrow> length keys \<le> limit \<longrightarrow> (\<forall>k \<in> set keys. mat pattern k) \<longrightarrow> scans_well data (mat pattern) limit p y"
    and run: "(case on_conn (rc_scan (ch_redis h) (ch_now h) cursor pattern 100) p of
       (Inl e, p1) \<Rightarrow> Some (Inl e, p1)
     | (Inr (nextCursor, batch), p1) \<Rightarrow>
         let keys' = keys @ take (limit - length keys) batch in
         if limit \<le> length keys' then Some (Inr keys', print_err (scan_stopped limit) p1)
         else if nextCursor \<noteq> ''0'' then f h pattern limit nextCursor keys' p1
         else Some (Inr keys', p1)) = Some y"
    and server: "cli_server h data mat" and keys: "length keys \<le> limit" "\<forall>k \<in> set keys. mat pattern k"
  obtain r p1 where call: "on_conn (rc_scan (ch_redis h) (ch_now h) cursor pattern 100) p = (r, p1)" by fastforce
  show "scans_well data (mat pattern) limit p y"
  proof (cases r)
    case (Inl e)
    then show ?thesis using run call server_scan(1) [OF server call] by (auto simp: scans_well_def)
  next
    case (Inr nb)
    obtain nextCursor batch where r: "r = Inr (nextCursor, batch)" using Inr by (cases nb) simp
    let ?keys = "keys @ take (limit - length keys) batch"
    have ok: "length ?keys \<le> limit" "\<forall>k \<in> set ?keys. mat pattern k"
      using keys server_scan(2) [OF server call r] by (auto dest: in_set_takeD)
    have same: "data (px_conn p1) = data (px_conn p)" by (rule server_scan(1) [OF server call])
    show ?thesis
    proof (cases "limit \<le> length ?keys \<or> nextCursor = ''0''")
      case True
      then have "fst y = Inr ?keys \<and> px_conn (snd y) = px_conn p1" using run call r by (auto simp: Let_def split: if_splits)
      then show ?thesis using same ok by (simp add: scans_well_def)
    next
      case False
      then have "f h pattern limit nextCursor ?keys p1 = Some y" using run call r by (simp add: Let_def)
      from IH [OF this] server ok have "scans_well data (mat pattern) limit p1 y" by blast
      then show ?thesis using same by (simp add: scans_well_def)
    qed
  qed
qed

lemma selected_spec:
  assumes "cli_server h data mat" "selected_keys h a p = Some y"
  shows "scans_well data (mat (nullish (pa_pattern a) ''*'')) (nullish (pa_scanLimit a) DEFAULT_SCAN_MAX_KEYS) p y"
  using scan_spec [of h _ _ "''0''" "[]" p y data mat] assms by (simp add: selected_keys_def cli_scanKeys_def)

lemma keeps_selected [intro]: "cli_server h data mat \<Longrightarrow> keeps data (selected_keys h a)"
  using selected_spec by (fastforce simp: keeps_def scans_well_def)

subsection \<open>Deleting\<close>

lemma batchDelete_spec:
  assumes "cli_server h data mat" "k \<notin> set keys"
  shows "data (px_conn (snd (batchDelete h keys p))) k = data (px_conn p) k"
  using assms(2)
proof (induction "length keys" arbitrary: keys p rule: less_induct)
  case less
  show ?case
  proof (cases "keys = []")
    case True
    then show ?thesis by (simp add: batchDelete.simps)
  next
    case False
    obtain r p1 where call: "on_conn (rc_del (ch_redis h) (ch_now h) (take DELETE_BATCH keys)) p = (r, p1)" by fastforce
    have away: "k \<notin> set (take DELETE_BATCH keys)" "k \<notin> set (drop DELETE_BATCH keys)"
      using less(2) by (auto dest: in_set_takeD in_set_dropD)
    then have "data (snd (rc_del (ch_redis h) (ch_now h) (take DELETE_BATCH keys) (px_conn p))) k = data (px_conn p) k"
      using assms(1) unfolding cli_server_def by blast
    then have "data (px_conn p1) k = data (px_conn p) k" using call by (auto simp: on_conn_def split: prod.splits)
    moreover have "data (px_conn (snd (batchDelete h (drop DELETE_BATCH keys) p1))) k = data (px_conn p1) k"
      using False away(2) by (intro less(1)) (simp_all add: DELETE_BATCH_def)
    ultimately show ?thesis using False call by (subst batchDelete.simps) (auto split: sum.split)
  qed
qed


subsection \<open>Arguments\<close>

lemma parse_options_command: "parse_options ts a = Inr b \<Longrightarrow> pa_command b = pa_command a"
proof (induction "length ts" arbitrary: ts a rule: less_induct)
  case less
  show ?case
  proof (cases ts)
    case (Cons token rest)
    have next_option: "length ts' < length ts \<Longrightarrow> parse_options ts' a' = Inr b \<Longrightarrow> pa_command a' = pa_command a \<Longrightarrow> ?thesis" for ts' a'
      using less(1) by metis
    show ?thesis
      using less(2) unfolding Cons parse_options.simps Let_def
      by (auto split: if_split_asm sum.split_asm elim!: next_option [rotated] simp: Cons)
  qed (use less in simp)
qed

lemma parseArgs_command: "parseArgs argv = Inr a \<Longrightarrow> pa_command a = (if argv = [] then None else Some (hd argv))"
  by (cases argv) (auto simp: parseArgs_def no_args_def dest: parse_options_command)

subsection \<open>What the commands may change\<close>

lemma server_calls:
  assumes "cli_server h data mat"
  shows "data (snd (rc_getBuffer (ch_redis h) (ch_now h) k c)) = data c" "data (snd (rc_pttl (ch_redis h) (ch_now h) k c)) = data c"
    "data (snd (sc_smembers (ch_sets h) k c)) = data c" "data (snd (ch_connect h c)) = data c" "data (ch_disconnect h c) = data c"
  using assms by (simp_all add: cli_server_def)

lemma keeps_dispatch:
  assumes "cli_server h data mat" "pa_command a \<notin> {Some ''invalidate'', Some ''migrate-tag-index''}"
  shows "keeps data (dispatch h a)"
proof -
  note calls = server_calls [OF assms(1)] and selected = keeps_selected [OF assms(1)]
  have "keeps data (run_stats h a)" "keeps data (run_keys h a)"
    unfolding run_stats_def run_keys_def by (intro keeps_validated keeps_andalso keeps_finish selected; simp)+
  moreover have "keeps data (run_inspect h a)"
    unfolding run_inspect_def by (cases "given (pa_key a)") (auto intro!: keeps_validated keeps_andalso keeps_finish keeps_call simp: calls)
  moreover have "keeps data (finish (\<lambda>p. (printUsage p)\<lparr>px_exit := Some 1\<rparr>))" by (rule keeps_finish) simp
  ultimately show ?thesis using assms(2) by (auto simp: dispatch_def Let_def nullish_def split: option.splits)
qed

lemma keeps_connect: "cli_server h data mat \<Longrightarrow> keeps data (connect_to h url)"
proof (rule keepsI)
  fix p r p' assume "cli_server h data mat" "connect_to h url p = Some (r, p')"
  then show "data (px_conn p') = data (px_conn p)"
    using server_calls(4) [of h data mat "px_conn p"] by (auto simp: connect_to_def split: prod.splits sum.splits)
qed

lemma session_run_data:
  assumes "cli_server h data mat" "keeps data (dispatch h a)" "session_run h url a p = Some p'"
  shows "data (px_conn p') = data (px_conn p)"
proof -
  have "keeps data (andalso (connect_to h url) (\<lambda>_. dispatch h a))" using assms(1,2) by (intro keeps_andalso keeps_connect)
  moreover obtain r p1 where run: "andalso (connect_to h url) (\<lambda>_. dispatch h a) p = Some (r, p1)"
    using assms(3) by (auto simp: session_run_def)
  ultimately have "data (px_conn p1) = data (px_conn p)" by (simp add: keeps_def)
  then show ?thesis using assms(3) run server_calls(5) [OF assms(1)] by (auto simp: session_run_def split: sum.splits)
qed

definition started :: "'c cli_host \<Rightarrow> parsed_args \<Rightarrow> 'c process \<Rightarrow> 'c process \<Rightarrow> bool" where
  "started h a p p' \<longleftrightarrow> (\<exists>url q. px_conn q = px_conn p \<and> session_run h url a q = Some p')"

lemma main_cases:
  assumes "main h argv p = Some p'"
  shows "px_conn p' = px_conn p \<or> (\<exists>a. parseArgs argv = Inr a \<and> started h a p p')"
proof (cases "parseArgs argv")
  case (Inr a)
  have "px_conn p' = px_conn p \<or> started h a p p'"
    using assms Inr unfolding main_def started_def by (force simp: Let_def split: if_splits option.splits)
  then show ?thesis using Inr by blast
qed (use assms in \<open>auto simp: main_def Let_def\<close>)

text \<open>
  Only \<open>invalidate\<close> and \<open>migrate-tag-index\<close> change what the server stores. Every other command line, malformed or
  unknown ones included, leaves the data as they were, whatever the server answers.
\<close>

theorem reading_commands_change_nothing:
  assumes "cli_server h data mat" "take 1 argv \<notin> {[''invalidate''], [''migrate-tag-index'']}" "main h argv p = Some p'"
  shows "data (px_conn p') = data (px_conn p)"
  using main_cases [OF assms(3)]
proof
  assume "\<exists>a. parseArgs argv = Inr a \<and> started h a p p'"
  then obtain a url q where a: "parseArgs argv = Inr a" "px_conn q = px_conn p" "session_run h url a q = Some p'" by (auto simp: started_def)
  have "pa_command a \<notin> {Some ''invalidate'', Some ''migrate-tag-index''}" using parseArgs_command [OF a(1)] assms(2) by (cases argv) auto
  from session_run_data [OF assms(1) keeps_dispatch [OF assms(1) this] a(3)] show ?thesis using a(2) by simp
qed simp

lemma validated_cases:
  assumes "validated validator v m p = Some (r, p')"
  shows "px_conn p' = px_conn p \<or> m p = Some (r, p')"
  using assms by (auto simp: validated_def split: option.splits sum.splits)

lemma invalidate_pattern_spec:
  assumes "cli_server h data mat" "run_invalidate_pattern h a p = Some (r, p')"
  shows "\<exists>D. length D \<le> nullish (pa_scanLimit a) DEFAULT_SCAN_MAX_KEYS \<and> (\<forall>k \<in> set D. mat (nullish (pa_pattern a) ''*'') k) \<and>
    (requiresForceForInvalidationPattern (nullish (pa_pattern a) ''*'') \<and> \<not> pa_force a \<longrightarrow> D = []) \<and>
    (\<forall>k. k \<notin> set D \<longrightarrow> data (px_conn p') k = data (px_conn p) k)" (is "\<exists>D. ?ok D p'")
proof -
  let ?stops = "\<lambda>keys. requiresForceForInvalidationPattern (nullish (pa_pattern a) ''*'') \<and> \<not> pa_force a \<and> keys \<noteq> []"
  let ?after = "\<lambda>keys p. if ?stops keys then Some (Inr (), print_err (confirm_needed (length keys)) p)
     else andalso (\<lambda>p. Some (batchDelete h keys p)) (\<lambda>_. finish
       (print_json h (JObj [(''deletedKeys'', js_nat (length keys)), (''pattern'', JStr (nullish (pa_pattern a) ''*''))]))) p"
  have "px_conn p' = px_conn p \<or> andalso (selected_keys h a) ?after p = Some (r, p')"
    using validated_cases assms(2) unfolding run_invalidate_pattern_def Let_def by blast
  then show ?thesis
  proof
    assume "px_conn p' = px_conn p"
    then have "?ok [] p'" by simp
    then show ?thesis ..
  next
    assume run: "andalso (selected_keys h a) ?after p = Some (r, p')"
    then obtain q p1 where q: "selected_keys h a p = Some (q, p1)" "(case q of Inl e \<Rightarrow> Some (Inl e, p1) | Inr ks \<Rightarrow> ?after ks p1) = Some (r, p')"
      by (auto simp: andalso_def bind_eq_Some_conv)
    have same: "data (px_conn p1) = data (px_conn p)"
      using selected_spec [OF assms(1) q(1)] by (simp add: scans_well_def)
    show ?thesis
    proof (cases q)
      case (Inl e)
      then have "?ok [] p'" using q(2) same by simp
      then show ?thesis ..
    next
      case (Inr keys)
      have keys: "length keys \<le> nullish (pa_scanLimit a) DEFAULT_SCAN_MAX_KEYS" "\<forall>k \<in> set keys. mat (nullish (pa_pattern a) ''*'') k"
        using selected_spec [OF assms(1) q(1)] Inr by (simp_all add: scans_well_def)
      show ?thesis
      proof (cases "?stops keys")
        case True
        then have "?ok [] p'" using q(2) Inr same by auto
        then show ?thesis ..
      next
        case False
        then have "px_conn p' = px_conn (snd (batchDelete h keys p1))"
          using q(2) Inr by (auto simp: andalso_def finish_def bind_eq_Some_conv split: sum.splits prod.splits)
        then have "?ok keys p'" using batchDelete_spec [OF assms(1)] keys same False by auto
        then show ?thesis ..
      qed
    qed
  qed
qed

text \<open>
  C31: \<open>invalidate\<close> by pattern deletes at most \<open>--limit\<close> keys, all of them selected by the pattern, and none when the
  pattern is made of wildcards only and \<open>--force\<close> is missing. Whatever fails on the way, every other key keeps its data.
\<close>

theorem pattern_invalidation_bounded:
  assumes "cli_server h data mat" "parseArgs argv = Inr a" "pa_command a = Some ''invalidate''" "given (pa_tag a) = None"
    and "main h argv p = Some p'"
  shows "\<exists>D. length D \<le> nullish (pa_scanLimit a) DEFAULT_SCAN_MAX_KEYS \<and> (\<forall>k \<in> set D. mat (nullish (pa_pattern a) ''*'') k) \<and>
    (requiresForceForInvalidationPattern (nullish (pa_pattern a) ''*'') \<and> \<not> pa_force a \<longrightarrow> D = []) \<and>
    (\<forall>k. k \<notin> set D \<longrightarrow> data (px_conn p') k = data (px_conn p) k)"
  using main_cases [OF assms(5)]
proof
  assume "px_conn p' = px_conn p"
  then show ?thesis by (intro exI [of _ "[]"]) simp
next
  assume "\<exists>a. parseArgs argv = Inr a \<and> started h a p p'"
  then obtain url q where q: "px_conn q = px_conn p" "session_run h url a q = Some p'" using assms(2) by (auto simp: started_def)
  then obtain r p1 where run: "andalso (connect_to h url) (\<lambda>_. dispatch h a) q = Some (r, p1)" "px_conn p' = ch_disconnect h (px_conn p1)"
    by (auto simp: session_run_def)
  then obtain r0 p0 where c: "connect_to h url q = Some (r0, p0)" "(case r0 of Inl e \<Rightarrow> Some (Inl e, p0) | Inr _ \<Rightarrow> dispatch h a p0) = Some (r, p1)"
    by (auto simp: andalso_def bind_eq_Some_conv)
  have start: "data (px_conn p0) = data (px_conn p)" using keeps_connect [OF assms(1)] c(1) q(1) by (simp add: keeps_def)
  have end_data: "data (px_conn p') = data (px_conn p1)" using run(2) server_calls(5) [OF assms(1)] by simp
  show ?thesis
  proof (cases r0)
    case (Inl e)
    then show ?thesis using c(2) start end_data by (intro exI [of _ "[]"]) simp
  next
    case (Inr u)
    have "dispatch h a = run_invalidate_pattern h a" using assms(3,4) by (simp add: dispatch_def)
    then show ?thesis using invalidate_pattern_spec [OF assms(1), of a p0 r p1] c(2) Inr start end_data by simp
  qed
qed

text \<open>
  No plaintext connection against the rules. With \<open>--require-tls\<close>, or in production without \<open>--allow-plaintext\<close>,
  a URL that is not TLS ends the program with exit code 1 before the connection is touched.
\<close>

theorem plaintext_refused:
  assumes "parseArgs argv = Inr a" "pa_redisUrl a = Some url" "isPlaintextRedisUrl (ch_url h) url"
    and "pa_requireTls a \<or> ch_production h \<and> \<not> pa_allowPlaintext a"
  shows "\<exists>p'. main h argv p = Some p' \<and> px_conn p' = px_conn p \<and> px_exit p' = Some 1"
proof (cases "given (pa_command a) = None \<or> given (pa_redisUrl a) = None \<or> validateRedisUrl (ch_url h) url = None")
  case True
  then show ?thesis using assms(1,2) by (auto simp: main_def Let_def)
next
  case False
  then obtain u where "validateRedisUrl (ch_url h) url = Some u" by auto
  moreover from this have "u = url" by (auto simp: validateRedisUrl_def split: option.splits if_splits)
  ultimately show ?thesis using assms False by (cases "pa_requireTls a") (auto simp: main_def Let_def)
qed

subsection \<open>Arguments are read as written\<close>

definition text_option :: "string \<Rightarrow> string option \<Rightarrow> string list" where
  "text_option flag v = (case v of None \<Rightarrow> [] | Some s \<Rightarrow> [flag, s])"

definition number_option :: "string \<Rightarrow> nat option \<Rightarrow> string list" where
  "number_option flag v = (case v of None \<Rightarrow> [] | Some n \<Rightarrow> [flag, decimal n])"

definition switch_option :: "string \<Rightarrow> bool \<Rightarrow> string list" where
  "switch_option flag b = (if b then [flag] else [])"

definition written_options :: "parsed_args \<Rightarrow> string list" where
  "written_options a =
    text_option ''--redis'' (pa_redisUrl a) @ text_option ''--pattern'' (pa_pattern a) @ text_option ''--tag'' (pa_tag a) @
    text_option ''--key'' (pa_key a) @ text_option ''--tag-index-prefix'' (pa_tagIndexPrefix a) @
    number_option ''--known-key-shards'' (pa_knownKeysShards a) @ number_option ''--limit'' (pa_scanLimit a) @
    switch_option ''--require-tls'' (pa_requireTls a) @ switch_option ''--allow-plaintext'' (pa_allowPlaintext a) @
    switch_option ''--force'' (pa_force a)"

definition writable_number :: "nat option \<Rightarrow> bool" where
  "writable_number v = (case v of None \<Rightarrow> True | Some n \<Rightarrow> 0 < n \<and> n \<le> max_safe)"

lemma decimal_nonempty: "decimal n \<noteq> []"
  by (subst decimal.simps) simp

lemma digit_plain: "is_digit c \<Longrightarrow> \<not> js_blank c \<and> c \<noteq> CHR ''-'' \<and> c \<noteq> CHR ''+'' \<and> lower c = c"
  by (auto simp: is_digit_def js_blank_def lower_def)

lemma trim_decimal: "trim_text (decimal n) = decimal n"
proof -
  have plain: "\<not> js_blank c" if "c \<in> set (decimal n)" for c using that decimal_is_digit digit_plain by blast
  have "dropWhile js_blank (decimal n) = decimal n" "dropWhile js_blank (rev (decimal n)) = rev (decimal n)"
    using plain decimal_nonempty [of n]
    by (metis dropWhile_eq_self_iff hd_in_set, metis dropWhile_eq_self_iff hd_in_set rev_is_Nil_conv set_rev)
  then show ?thesis by (simp add: trim_text_def)
qed

lemma positive_safe_decimal: "0 < n \<Longrightarrow> n \<le> max_safe \<Longrightarrow> positive_safe_integer (decimal n) = Some n"
proof -
  assume n: "0 < n" "n \<le> max_safe"
  obtain c cs where d: "decimal n = c # cs" using decimal_nonempty [of n] by (cases "decimal n") auto
  have digits: "is_digit c" "\<forall>x \<in> set cs. is_digit x" using decimal_is_digit [of _ n] d by auto
  have base: "literal_base (decimal n) = None"
    using d digits by (cases cs) (auto simp: literal_base_def digit_plain Let_def is_digit_def)
  have infinite: "decimal n \<noteq> ''Infinity''" using d digits(1) by (auto simp: is_digit_def)
  have all: "takeWhile is_digit (decimal n) = decimal n" "dropWhile is_digit (decimal n) = []"
    using decimal_is_digit [of _ n] by (simp_all add: takeWhile_eq_all_conv dropWhile_eq_Nil_conv)
  have "unsigned_decimal (decimal n) = Some (real n)"
    unfolding unsigned_decimal_def all using decimal_nonempty [of n] by (simp add: exponent_factor_def digits_value_decimal)
  moreover have "take 1 (decimal n) \<noteq> ''-''" "take 1 (decimal n) \<noteq> ''+''" using d digit_plain [OF digits(1)] by auto
  ultimately have "js_number (decimal n) = Fin (real n)"
    using base infinite by (simp add: js_number_def trim_decimal decimal_nonempty Let_def)
  then show ?thesis using n by (simp add: positive_safe_integer_def is_whole_def max_safe_def)
qed

lemma decimal_given: "\<not> lacks_value (Some (decimal n))"
  using decimal_nonempty [of n] decimal_is_digit [of "hd (decimal n)" n]
  by (cases "decimal n") (auto simp: lacks_value_def given_def starts_with_def)

lemma unchanged_args:
  fixes a :: parsed_args
  shows "pa_redisUrl a = None \<Longrightarrow> a\<lparr>pa_redisUrl := None\<rparr> = a" "pa_pattern a = None \<Longrightarrow> a\<lparr>pa_pattern := None\<rparr> = a"
    "pa_tag a = None \<Longrightarrow> a\<lparr>pa_tag := None\<rparr> = a" "pa_key a = None \<Longrightarrow> a\<lparr>pa_key := None\<rparr> = a"
    "pa_tagIndexPrefix a = None \<Longrightarrow> a\<lparr>pa_tagIndexPrefix := None\<rparr> = a" "pa_knownKeysShards a = None \<Longrightarrow> a\<lparr>pa_knownKeysShards := None\<rparr> = a"
    "pa_scanLimit a = None \<Longrightarrow> a\<lparr>pa_scanLimit := None\<rparr> = a" "\<not> pa_requireTls a \<Longrightarrow> a\<lparr>pa_requireTls := False\<rparr> = a"
    "\<not> pa_allowPlaintext a \<Longrightarrow> a\<lparr>pa_allowPlaintext := False\<rparr> = a" "\<not> pa_force a \<Longrightarrow> a\<lparr>pa_force := False\<rparr> = a"
  by (cases a; simp)+

lemma parse_text_options:
  "pa_redisUrl a = None \<Longrightarrow> \<not> lacks_value v \<Longrightarrow> parse_options (text_option ''--redis'' v @ ts) a = parse_options ts (a\<lparr>pa_redisUrl := v\<rparr>)"
  "pa_pattern a = None \<Longrightarrow> parse_options (text_option ''--pattern'' v @ ts) a = parse_options ts (a\<lparr>pa_pattern := v\<rparr>)"
  "pa_tag a = None \<Longrightarrow> parse_options (text_option ''--tag'' v @ ts) a = parse_options ts (a\<lparr>pa_tag := v\<rparr>)"
  "pa_key a = None \<Longrightarrow> parse_options (text_option ''--key'' v @ ts) a = parse_options ts (a\<lparr>pa_key := v\<rparr>)"
  "pa_tagIndexPrefix a = None \<Longrightarrow> parse_options (text_option ''--tag-index-prefix'' v @ ts) a = parse_options ts (a\<lparr>pa_tagIndexPrefix := v\<rparr>)"
  by (cases v; simp add: text_option_def unchanged_args)+

lemma parse_number_options:
  "pa_knownKeysShards a = None \<Longrightarrow> writable_number n \<Longrightarrow>
    parse_options (number_option ''--known-key-shards'' n @ ts) a = parse_options ts (a\<lparr>pa_knownKeysShards := n\<rparr>)"
  "pa_scanLimit a = None \<Longrightarrow> writable_number n \<Longrightarrow>
    parse_options (number_option ''--limit'' n @ ts) a = parse_options ts (a\<lparr>pa_scanLimit := n\<rparr>)"
  by (cases n; simp add: number_option_def writable_number_def take_integer_def decimal_given positive_safe_decimal unchanged_args)+

lemma parse_switches:
  "\<not> pa_requireTls a \<Longrightarrow> parse_options (switch_option ''--require-tls'' b @ ts) a = parse_options ts (a\<lparr>pa_requireTls := b\<rparr>)"
  "\<not> pa_allowPlaintext a \<Longrightarrow> parse_options (switch_option ''--allow-plaintext'' b @ ts) a = parse_options ts (a\<lparr>pa_allowPlaintext := b\<rparr>)"
  "\<not> pa_force a \<Longrightarrow> parse_options (switch_option ''--force'' b) a = Inr (a\<lparr>pa_force := b\<rparr>)"
  by (cases b; simp add: switch_option_def unchanged_args)+

text \<open>
  A command line is read as it was written: the command with its options, a URL that is no flag, any texts
  for the others and positive safe integers, parses to exactly these arguments.
\<close>

theorem parse_args_round_trip:
  assumes "pa_command a = Some command" "\<not> lacks_value (pa_redisUrl a)" "writable_number (pa_knownKeysShards a)" "writable_number (pa_scanLimit a)"
  shows "parseArgs (command # written_options (a :: parsed_args)) = Inr a"
  using assms by (cases a) (simp add: parseArgs_def written_options_def no_args_def parse_text_options parse_number_options parse_switches)

text \<open>
  A \<open>--tag\<close> without a value is dropped: the run goes on as an invalidation by pattern, with \<open>--force\<close> of every key.
\<close>

theorem tag_without_value_is_dropped:
  "main h [''invalidate'', ''--redis'', url, ''--force'', ''--tag''] p = main h [''invalidate'', ''--redis'', url, ''--force''] p"
proof -
  have "parseArgs [''invalidate'', ''--redis'', url, ''--force'', ''--tag''] = parseArgs [''invalidate'', ''--redis'', url, ''--force'']"
    by (cases "lacks_value (Some url)") (simp_all add: parseArgs_def no_args_def)
  then show ?thesis by (simp only: main_def)
qed

subsection \<open>A small server\<close>

definition plain_url :: "string \<Rightarrow> parsed_url option" where
  "plain_url url = Some \<lparr>ul_protocol = ''redis:'', ul_password = [], ul_href = url, ul_masked = url\<rparr>"

definition small_sets :: "small_redis set_client" where
  "small_sets = \<lparr>sc_sadd = (\<lambda>_ _ c. (Inr (), c)), sc_smembers = (\<lambda>_ c. (Inr [], c)), sc_sscan = (\<lambda>_ _ _ _ c. (Inr (''0'', []), c)),
     sc_scan = (\<lambda>_ _ _ c. (Inr (''0'', []), c)), sc_exists = (\<lambda>_ c. (Inr 0, c)), sc_del = (\<lambda>_ c. (Inr 0, c)), sc_exec = (\<lambda>_ c. (Inr (), c))\<rparr>"

definition small_host :: "small_redis cli_host" where
  "small_host = \<lparr>ch_production = True, ch_now = 5, ch_url = plain_url, ch_utf8 = (\<lambda>b. b), ch_fraction = (\<lambda>_. ''?''),
     ch_connect = (\<lambda>c. (Inr (), c)), ch_disconnect = (\<lambda>c. c), ch_redis = small_redis, ch_sets = small_sets\<rparr>"

definition small_process :: "small_redis process" where
  "small_process = \<lparr>px_conn = [(''app-k'', ''v'', None), (''other'', ''w'', None)], px_out = [], px_err = [], px_exit = None\<rparr>"

lemma small_host_serves: "cli_server small_host (\<lambda>c. map_of c) glob"
  by (auto simp: cli_server_def small_host_def small_redis_def small_sets_def map_of_fold_delete)

lemma small_scan:
  "rc_scan small_redis t cur pattern n c = (Inr (''0'', filter (\<lambda>k. glob pattern k \<and> shown small_view t c k \<noteq> None) (map fst c)), c)"
  by (simp add: small_redis_def)

definition small_invalidate :: "string list" where
  "small_invalidate = [''invalidate'', ''--redis'', ''redis://h'', ''--allow-plaintext'', ''--pattern'', ''app-?'']"

lemma small_args:
  "parseArgs small_invalidate = Inr ((no_args (Some ''invalidate''))\<lparr>pa_redisUrl := Some ''redis://h'', pa_allowPlaintext := True, pa_pattern := Some ''app-?''\<rparr>)"
  by (simp add: small_invalidate_def parseArgs_def lacks_value_def given_def starts_with_def)

lemma small_main: "\<exists>p'. main small_host small_invalidate small_process = Some p'"
proof -
  obtain q where q: "validateRedisUrl plain_url ''redis://h'' = Some ''redis://h''" "isPlaintextRedisUrl plain_url ''redis://h''"
    by (simp add: validateRedisUrl_def isPlaintextRedisUrl_def plain_url_def)
  have "\<exists>r p'. dispatch small_host ((no_args (Some ''invalidate''))\<lparr>pa_redisUrl := Some ''redis://h'', pa_allowPlaintext := True, pa_pattern := Some ''app-?''\<rparr>) p
      = Some (r, p')" for p
    by (simp add: dispatch_def run_invalidate_pattern_def validated_def andalso_def selected_keys_def cli_scanKeys_def cli_scan.simps [of _ _ _ "''0''"]
        on_conn_def small_scan small_host_def given_def no_args_def finish_def Let_def split: sum.split prod.split)
  then show ?thesis
    using q by (simp add: main_def small_args session_run_def connect_to_def andalso_def small_host_def no_args_def given_def split: sum.split)
qed

theorem pattern_invalidation_bounded_witness:
  "\<exists>p'. main small_host small_invalidate small_process = Some p' \<and> map_of (px_conn p') ''other'' = Some (''w'', None)"
proof -
  obtain p' where p': "main small_host small_invalidate small_process = Some p'" using small_main by blast
  obtain D where D: "\<forall>k \<in> set D. glob ''app-?'' k" "\<forall>k. k \<notin> set D \<longrightarrow> map_of (px_conn p') k = map_of (px_conn small_process) k"
    using pattern_invalidation_bounded [OF small_host_serves small_args _ _ p'] by (auto simp: no_args_def given_def)
  have "''other'' \<notin> set D" using D(1) by auto
  then show ?thesis using p' D(2) by (simp add: small_process_def)
qed

theorem reading_commands_change_nothing_witness:
  "\<exists>p'. main small_host [''keys''] small_process = Some p' \<and> map_of (px_conn p') = map_of (px_conn small_process)"
proof -
  have p': "main small_host [''keys''] small_process = Some ((printUsage (small_process\<lparr>px_exit := None\<rparr>))\<lparr>px_exit := Some 1\<rparr>)"
    by (simp add: main_def parseArgs_def no_args_def given_def)
  from reading_commands_change_nothing [OF small_host_serves _ p'] p' show ?thesis by simp
qed

theorem plaintext_refused_witness:
  "\<exists>p'. main small_host [''keys'', ''--redis'', ''redis://h''] small_process = Some p' \<and> px_conn p' = px_conn small_process \<and> px_exit p' = Some 1"
proof (rule plaintext_refused)
  show "parseArgs [''keys'', ''--redis'', ''redis://h''] = Inr ((no_args (Some ''keys''))\<lparr>pa_redisUrl := Some ''redis://h''\<rparr>)"
    by (simp add: parseArgs_def lacks_value_def given_def starts_with_def)
qed (simp_all add: no_args_def small_host_def isPlaintextRedisUrl_def plain_url_def)

theorem parse_args_round_trip_witness:
  "parseArgs (''invalidate'' # written_options ((no_args (Some ''invalidate''))\<lparr>pa_redisUrl := Some ''redis://h'', pa_tag := Some ''t'', pa_scanLimit := Some 10, pa_force := True\<rparr>))
   = Inr ((no_args (Some ''invalidate''))\<lparr>pa_redisUrl := Some ''redis://h'', pa_tag := Some ''t'', pa_scanLimit := Some 10, pa_force := True\<rparr>)"
  by (rule parse_args_round_trip) (simp_all add: no_args_def lacks_value_def given_def starts_with_def writable_number_def max_safe_def)

end
