(* ===== verification/HttpCacheKeys.thy ===== *)
theory HttpCacheKeys
  imports RedisTagProps CliArguments "HOL-Library.Char_ord" "HOL-Library.List_Lexorder" "HOL-Library.Multiset"
begin

text \<open>
  Cache keys from HTTP requests (\<open>src/src/integrations/httpCacheKeys.ts\<close>): the normalised URL and the detection of
  secrets in query and headers. The WHATWG URL parser is an argument that yields the path and the list of search
  parameters; the operations on that list (\<open>delete\<close>, \<open>sort\<close>, serialisation) are modelled.

  Lemmas: stripping and sorting are a filter and a stable sort; the serialisation is injective; two URLs have the same key
  exactly when path and public parameters agree.
\<close>

subsection \<open>Names\<close>

definition SENSITIVE_QUERY_PARAMETERS :: "string list" where
  "SENSITIVE_QUERY_PARAMETERS =
    [''access_token'', ''api_key'', ''apikey'', ''auth'', ''authorization'', ''client_assertion'', ''client_assertion_type'',
     ''client_secret'', ''code'', ''credentials'', ''id_token'', ''jwt'', ''password'', ''private_key'', ''refresh_token'',
     ''secret'', ''session'', ''sessionid'', ''session_id'', ''token'']"

definition SENSITIVE_HEADERS :: "string list" where
  "SENSITIVE_HEADERS =
    [''authorization'', ''cookie'', ''set-cookie'', ''x-api-key'', ''x-session-id'', ''x-auth-token'', ''x-forwarded-user'']"

definition lower_letter :: "char \<Rightarrow> char" where
  "lower_letter c = (let n = (of_char c :: nat) in if 65 \<le> n \<and> n \<le> 90 \<or> 192 \<le> n \<and> n \<le> 222 \<and> n \<noteq> 215 then char_of (n + 32) else c)"

definition toLowerCase :: "string \<Rightarrow> string" where
  "toLowerCase s = map lower_letter s"

definition sensitive_param :: "string \<Rightarrow> bool" where
  "sensitive_param name \<longleftrightarrow> toLowerCase name \<in> set SENSITIVE_QUERY_PARAMETERS"

subsection \<open>Search parameters\<close>

type_synonym search_params = "(string \<times> string) list"

definition form_safe :: "nat \<Rightarrow> bool" where
  "form_safe n \<longleftrightarrow> 48 \<le> n \<and> n \<le> 57 \<or> 65 \<le> n \<and> n \<le> 90 \<or> 97 \<le> n \<and> n \<le> 122 \<or> n \<in> {42, 45, 46, 95}"

fun form_bytes :: "string \<Rightarrow> string" where
  \<comment> \<open>the \<open>application/x-www-form-urlencoded\<close> percent-encoding of bytes\<close>
  "form_bytes [] = []"
| "form_bytes (c # s) =
    (let n = (of_char c :: nat) in
     if n = 32 then CHR ''+'' # form_bytes s
     else if form_safe n then c # form_bytes s
     else CHR ''%'' # hex_upper (n div 16) # hex_upper (n mod 16) # form_bytes s)"

definition form_encode :: "string \<Rightarrow> string" where
  "form_encode s = form_bytes (utf8_encode s)"

fun form_text :: "search_params \<Rightarrow> string" where
  "form_text [] = []"
| "form_text [(name, val)] = form_encode name @ ''='' @ form_encode val"
| "form_text ((name, val) # p # ps) = form_encode name @ ''='' @ form_encode val @ ''&'' @ form_text (p # ps)"

definition search_text :: "search_params \<Rightarrow> string" where
  \<comment> \<open>\<open>parsed.search\<close> after an update of the parameters\<close>
  "search_text ps = (if ps = [] then [] else ''?'' @ form_text ps)"

definition delete_param :: "string \<Rightarrow> search_params \<Rightarrow> search_params" where
  "delete_param name ps = filter (\<lambda>p. fst p \<noteq> name) ps"

definition sort_params :: "search_params \<Rightarrow> search_params" where
  \<comment> \<open>stable, by code units of the names\<close>
  "sort_params ps = sort_key fst ps"

subsection \<open>The URL\<close>

record http_url =
  hu_pathname :: string
  hu_params :: search_params

record inspected_url =
  iu_normalizedUrl :: string
  iu_hasSensitiveQuery :: bool

fun strip_params :: "string list \<Rightarrow> search_params \<Rightarrow> bool \<Rightarrow> search_params \<times> bool" where
  \<comment> \<open>the loop over a copy of the names\<close>
  "strip_params [] ps found = (ps, found)"
| "strip_params (name # names) ps found =
    (if sensitive_param name then strip_params names (delete_param name ps) True else strip_params names ps found)"

definition inspectHttpCacheUrl :: "(string \<Rightarrow> http_url option) \<Rightarrow> string \<Rightarrow> inspected_url" where
  "inspectHttpCacheUrl new_url url =
    (case new_url url of
       None \<Rightarrow> \<lparr>iu_normalizedUrl = url, iu_hasSensitiveQuery = True\<rparr>
     | Some parsed \<Rightarrow>
         (case strip_params (map fst (hu_params parsed)) (hu_params parsed) False of
            (ps, found) \<Rightarrow> \<lparr>iu_normalizedUrl = hu_pathname parsed @ search_text (sort_params ps), iu_hasSensitiveQuery = found\<rparr>))"

definition normalizeHttpCacheUrl :: "(string \<Rightarrow> http_url option) \<Rightarrow> string \<Rightarrow> string" where
  "normalizeHttpCacheUrl new_url url = iu_normalizedUrl (inspectHttpCacheUrl new_url url)"

definition hasSensitiveHttpCacheQuery :: "(string \<Rightarrow> http_url option) \<Rightarrow> string \<Rightarrow> bool" where
  "hasSensitiveHttpCacheQuery new_url url = iu_hasSensitiveQuery (inspectHttpCacheUrl new_url url)"

subsection \<open>Headers\<close>

record header_object =
  \<comment> \<open>the accessors \<open>get\<close> and \<open>header\<close> when they are functions, and the own enumerable entries\<close>
  ho_get :: "(string \<Rightarrow> js) option"
  ho_header :: "(string \<Rightarrow> js) option"
  ho_entries :: "(string \<times> js) list"

record http_message =
  hm_self :: header_object
  hm_headers :: "header_object option"

fun js_truthy :: "js \<Rightarrow> bool" where
  "js_truthy JUndef = False"
| "js_truthy JNull = False"
| "js_truthy (JBool b) = b"
| "js_truthy (JNum n) = (n \<noteq> Fin 0 \<and> n \<noteq> NaN)"
| "js_truthy (JStr t) = (t \<noteq> [])"
| "js_truthy (JArr _) = True"
| "js_truthy (JObj _) = True"

fun plain_header :: "string \<Rightarrow> (string \<times> js) list \<Rightarrow> js" where
  "plain_header name [] = JUndef"
| "plain_header name ((key, val) # es) =
    (case val of
       JStr s \<Rightarrow> if toLowerCase key = name \<and> s \<noteq> [] then JStr s else plain_header name es
     | _ \<Rightarrow> plain_header name es)"

definition readHeader :: "header_object \<Rightarrow> string \<Rightarrow> js" where
  \<comment> \<open>what an accessor answers may be any value: Express gives \<open>set-cookie\<close> as an array\<close>
  "readHeader h name =
    (case ho_get h of
       Some method \<Rightarrow> method name
     | None \<Rightarrow> (case ho_header h of Some method \<Rightarrow> method name | None \<Rightarrow> plain_header name (ho_entries h)))"

definition carries_secret :: "header_object \<Rightarrow> bool" where
  \<comment> \<open>the loop over the names\<close>
  "carries_secret h = list_ex (\<lambda>name. js_truthy (readHeader h name)) SENSITIVE_HEADERS"

definition hasSensitiveHttpCacheHeaders :: "http_message option \<Rightarrow> bool" where
  \<comment> \<open>\<open>None\<close>: the request is no object\<close>
  "hasSensitiveHttpCacheHeaders request =
    (case request of
       None \<Rightarrow> False
     | Some m \<Rightarrow> carries_secret (hm_self m) \<or> (case hm_headers m of None \<Rightarrow> False | Some h \<Rightarrow> carries_secret h))"

subsection \<open>Stripping and sorting\<close>

lemma strip_params_filter:
  "strip_params names ps found = (filter (\<lambda>p. \<not> (sensitive_param (fst p) \<and> fst p \<in> set names)) ps, found \<or> list_ex sensitive_param names)"
  by (induction names arbitrary: ps found) (auto simp: delete_param_def intro: filter_cong)

definition public_params :: "search_params \<Rightarrow> search_params" where
  "public_params ps = filter (\<lambda>p. \<not> sensitive_param (fst p)) ps"

lemma inspect_parsed:
  "new_url url = Some u \<Longrightarrow> inspectHttpCacheUrl new_url url =
    \<lparr>iu_normalizedUrl = hu_pathname u @ search_text (sort_params (public_params (hu_params u))),
     iu_hasSensitiveQuery = (\<exists>p \<in> set (hu_params u). sensitive_param (fst p))\<rparr>"
proof -
  assume u: "new_url url = Some u"
  have "filter (\<lambda>p. \<not> (sensitive_param (fst p) \<and> fst p \<in> set (map fst (hu_params u)))) (hu_params u) = public_params (hu_params u)"
    unfolding public_params_def by (rule filter_cong) auto
  then show ?thesis using u by (simp add: inspectHttpCacheUrl_def strip_params_filter list_ex_iff)
qed

definition values_of :: "string \<Rightarrow> search_params \<Rightarrow> string list" where
  \<comment> \<open>\<open>getAll\<close>\<close>
  "values_of name ps = map snd (filter (\<lambda>p. fst p = name) ps)"

lemma values_of_sort: "values_of name (sort_params ps) = values_of name ps"
proof -
  have "filter (\<lambda>p. fst p = name) (sort_key fst ps) = filter (\<lambda>p. fst p = name) ps"
    by (rule sort_key_stable)
  then show ?thesis by (simp add: values_of_def sort_params_def)
qed

lemma filter_values_of: "filter (\<lambda>p. fst p = name) ps = map (Pair name) (values_of name ps)"
  unfolding values_of_def by (induction ps) auto

lemma values_of_determine:
  assumes "\<And>name. values_of name ps = values_of name qs"
  shows "sort_params ps = sort_params qs"
proof -
  have same: "filter (\<lambda>p. fst p = name) ps = filter (\<lambda>p. fst p = name) qs" for name
    using assms by (simp add: filter_values_of)
  have "count (mset ps) x = count (mset qs) x" for x
  proof -
    have "count (mset ps) x = count (mset (filter (\<lambda>p. fst p = fst x) ps)) x" by simp
    also have "\<dots> = count (mset qs) x" unfolding same by simp
    finally show ?thesis .
  qed
  then have mset: "mset (sort_key fst ps) = mset qs" by (simp add: multiset_eq_iff)
  have "sort_key fst qs = sort_key fst ps"
  proof (rule properties_for_sort_key)
    show "mset (sort_key fst ps) = mset qs" by (rule mset)
    show "filter (\<lambda>x. fst k = fst x) (sort_key fst ps) = filter (\<lambda>x. fst k = fst x) qs" for k
    proof -
      have flip: "filter (\<lambda>x. fst k = fst x) xs = filter (\<lambda>x. fst x = fst k) xs" for xs :: search_params
        by (rule filter_cong) auto
      show ?thesis unfolding flip sort_key_stable by (rule same)
    qed
  qed simp
  then show ?thesis by (simp add: sort_params_def)
qed

subsection \<open>The serialisation is injective\<close>

lemma form_bytes_inj: "form_bytes s = form_bytes t \<Longrightarrow> s = t"
proof (induction s arbitrary: t)
  case Nil
  then show ?case by (cases t) (auto simp: Let_def split: if_splits)
next
  case (Cons c s)
  obtain d t' where t: "t = d # t'" using Cons(2) by (cases t) (auto simp: Let_def split: if_splits)
  let ?c = "of_char c :: nat" and ?d = "of_char d :: nat"
  have unsafe: "\<not> form_safe (of_char CHR ''+'')" "\<not> form_safe (of_char CHR ''%'')" "\<not> form_safe 32" by (simp_all add: form_safe_def)
  have "?c < 256" "?d < 256" by simp_all
  then have bound: "?c div 16 < 16" "?d div 16 < 16" by (simp_all add: less_mult_imp_div_less)
  have "?c = ?d \<and> form_bytes s = form_bytes t'"
  proof (cases "?c = 32 \<or> form_safe ?c \<or> ?d = 32 \<or> form_safe ?d")
    case True
    then show ?thesis using Cons(2) unsafe unfolding t form_bytes.simps Let_def by (elim disjE; simp split: if_splits; blast?)
  next
    case False
    then have hex: "hex_upper (?c div 16) = hex_upper (?d div 16)" "hex_upper (?c mod 16) = hex_upper (?d mod 16)"
      and rest: "form_bytes s = form_bytes t'" using Cons(2) by (simp_all add: t Let_def)
    have "?c div 16 = ?d div 16" by (rule hex_upper_eq [OF bound hex(1)])
    moreover have "?c mod 16 = ?d mod 16" by (rule hex_upper_eq [OF _ _ hex(2)]) simp_all
    ultimately show ?thesis using rest by (metis div_mod_decomp)
  qed
  then show ?case using Cons(1) t of_char_eq_iff by blast
qed

lemma form_encode_eq [simp]: "form_encode s = form_encode t \<longleftrightarrow> s = t"
proof
  assume "form_encode s = form_encode t"
  then have "utf8_encode s = utf8_encode t" by (simp add: form_encode_def form_bytes_inj)
  then have "utf8_decode (utf8_encode s) = utf8_decode (utf8_encode t)" by simp
  then show "s = t" by (simp add: utf8_round_trip)
qed simp

lemma hex_upper_plain: "n < 16 \<Longrightarrow> hex_upper n \<notin> {CHR ''='', CHR ''&'', CHR ''?''}"
proof
  assume n: "n < 16" "hex_upper n \<in> {CHR ''='', CHR ''&'', CHR ''?''}"
  then have "(of_char (hex_upper n) :: nat) \<in> {61, 38, 63}" by auto
  then show False using n(1) by (auto simp: hex_upper_code split: if_splits)
qed

lemma form_bytes_plain: "CHR ''='' \<notin> set (form_bytes s)" "CHR ''&'' \<notin> set (form_bytes s)"
proof (induction s)
  case (Cons c s)
  have "(of_char c :: nat) < 256" by simp
  then have "(of_char c :: nat) div 16 < 16" by (simp add: less_mult_imp_div_less)
  then have hex: "hex_upper (of_char c div 16) \<notin> {CHR ''='', CHR ''&'', CHR ''?''}" "hex_upper (of_char c mod 16) \<notin> {CHR ''='', CHR ''&'', CHR ''?''}"
    by (intro hex_upper_plain; simp)+
  have safe: "\<not> form_safe (of_char CHR ''='')" "\<not> form_safe (of_char CHR ''&'')" by (simp_all add: form_safe_def)
  have "set (form_bytes (c # s)) \<subseteq> {CHR ''+'', CHR ''%'', hex_upper (of_char c div 16), hex_upper (of_char c mod 16)}
      \<union> (if form_safe (of_char c) then {c} else {}) \<union> set (form_bytes s)"
    by (simp add: Let_def) blast
  then have "CHR ''='' \<notin> set (form_bytes (c # s)) \<and> CHR ''&'' \<notin> set (form_bytes (c # s))"
    using Cons hex safe by (auto simp del: form_bytes.simps split: if_splits)
  then show "CHR ''='' \<notin> set (form_bytes (c # s))" "CHR ''&'' \<notin> set (form_bytes (c # s))" by blast+
qed simp_all

lemma split_at_mark:
  assumes "a @ r = b @ r'" "c \<notin> set a" "c \<notin> set b" "r = [] \<or> hd r = c" "r' = [] \<or> hd r' = c"
  shows "a = b \<and> r = r'"
  using assms
proof (induction a arbitrary: b)
  case Nil
  then show ?case by (cases b) auto
next
  case (Cons x a)
  then show ?case by (cases b) auto
qed

lemma form_text_Cons: "form_text ((name, val) # ps) = form_encode name @ CHR ''='' # form_encode val @ (if ps = [] then [] else CHR ''&'' # form_text ps)"
  by (cases ps) auto

lemma form_text_inj: "form_text ps = form_text qs \<Longrightarrow> ps = qs"
proof (induction ps arbitrary: qs)
  case Nil
  then show ?case by (cases qs) (auto simp: form_text_Cons)
next
  case (Cons p ps)
  obtain n v where p: "p = (n, v)" by fastforce
  obtain m w qs' where q: "qs = (m, w) # qs'" using Cons(2) by (cases qs) (auto simp: p form_text_Cons)
  have plain: "CHR ''='' \<notin> set (form_encode t)" "CHR ''&'' \<notin> set (form_encode t)" for t
    by (simp_all add: form_encode_def form_bytes_plain)
  have "n = m" and rest: "form_encode v @ (if ps = [] then [] else CHR ''&'' # form_text ps) = form_encode w @ (if qs' = [] then [] else CHR ''&'' # form_text qs')"
    using split_at_mark [OF Cons(2) [unfolded p q form_text_Cons] plain(1) plain(1)] by auto
  have "v = w" "(if ps = [] then [] else CHR ''&'' # form_text ps) = (if qs' = [] then [] else CHR ''&'' # form_text qs')"
    using split_at_mark [OF rest plain(2) plain(2)] by auto
  then show ?case using Cons(1) [of qs'] \<open>n = m\<close> p q by (auto split: if_splits)
qed

lemma search_text_inj:
  assumes "a @ search_text ps = b @ search_text qs" "CHR ''?'' \<notin> set a" "CHR ''?'' \<notin> set b"
  shows "a = b \<and> ps = qs"
proof -
  have "a = b \<and> search_text ps = search_text qs"
    by (rule split_at_mark [OF assms]) (simp_all add: search_text_def)
  then show ?thesis by (auto simp: search_text_def form_text_inj split: if_splits)
qed

subsection \<open>Keys\<close>

definition parses_urls :: "(string \<Rightarrow> http_url option) \<Rightarrow> bool" where
  \<comment> \<open>a question mark ends the path of a URL\<close>
  "parses_urls new_url \<longleftrightarrow> (\<forall>url u. new_url url = Some u \<longrightarrow> CHR ''?'' \<notin> set (hu_pathname u))"

lemma values_of_public: "values_of name (public_params ps) = (if sensitive_param name then [] else values_of name ps)"
  unfolding values_of_def public_params_def by (auto intro!: arg_cong [of _ _ "map snd"] filter_cong simp: filter_empty_conv)

text \<open>
  C34: two URLs have the same key exactly when they name the same resource in public: the paths are equal and, for every
  parameter that is no secret, both carry the same values in the same order. The order of different parameters, the
  spelling of the escapes and every secret are without influence, and nothing else is.
\<close>

theorem http_keys_coincide:
  assumes "parses_urls new_url" "new_url url = Some u" "new_url url' = Some u'"
  shows "normalizeHttpCacheUrl new_url url = normalizeHttpCacheUrl new_url url' \<longleftrightarrow>
    hu_pathname u = hu_pathname u' \<and> (\<forall>name. sensitive_param name \<or> values_of name (hu_params u) = values_of name (hu_params u'))"
    (is "?same \<longleftrightarrow> ?path \<and> ?values")
proof -
  let ?ps = "public_params (hu_params u)" and ?qs = "public_params (hu_params u')"
  have paths: "CHR ''?'' \<notin> set (hu_pathname u)" "CHR ''?'' \<notin> set (hu_pathname u')"
    using assms unfolding parses_urls_def by blast+
  have "?same \<longleftrightarrow> hu_pathname u @ search_text (sort_params ?ps) = hu_pathname u' @ search_text (sort_params ?qs)"
    using assms(2,3) by (simp add: normalizeHttpCacheUrl_def inspect_parsed)
  also have "\<dots> \<longleftrightarrow> ?path \<and> sort_params ?ps = sort_params ?qs" using search_text_inj [OF _ paths] by auto
  also have "sort_params ?ps = sort_params ?qs \<longleftrightarrow> (\<forall>name. values_of name ?ps = values_of name ?qs)"
    using values_of_determine [of ?ps ?qs] values_of_sort by metis
  also have "\<dots> \<longleftrightarrow> ?values" by (auto simp: values_of_public)
  finally show ?thesis .
qed

definition example_urls :: "string \<Rightarrow> http_url option" where
  "example_urls url =
    (if url = ''/a?y=2&x=1'' then Some \<lparr>hu_pathname = ''/a'', hu_params = [(''y'', ''2''), (''x'', ''1'')]\<rparr>
     else if url = ''/a?x=1&Token=t&y=2'' then Some \<lparr>hu_pathname = ''/a'', hu_params = [(''x'', ''1''), (''Token'', ''t''), (''y'', ''2'')]\<rparr>
     else None)"

theorem http_keys_coincide_witness:
  "normalizeHttpCacheUrl example_urls ''/a?y=2&x=1'' = normalizeHttpCacheUrl example_urls ''/a?x=1&Token=t&y=2''"
proof -
  have t: "sensitive_param ''Token''"
    by (simp add: sensitive_param_def toLowerCase_def lower_letter_def SENSITIVE_QUERY_PARAMETERS_def Let_def char_of_def bit_simps)
  show ?thesis
    by (subst http_keys_coincide [of example_urls])
      (auto simp: parses_urls_def example_urls_def values_of_def t split: if_splits)
qed

end
