(* ===== verification/HttpMiddleware.thy ===== *)
theory HttpMiddleware
  imports HttpCacheKeys StackProps StackAdmin
begin

text \<open>
  Caching of JSON responses in web servers: the Express and Hono middlewares (\<open>src/src/integrations/express.ts\<close>,
  \<open>hono.ts\<close>) over the cache stack, and the guarded statistics routes (\<open>src/src/http/createCacheStatsHandler.ts\<close>,
  \<open>integrations/fastify.ts\<close>).

  \<^item> A middleware ends in a reply from the cache, in an error, or by handing the request on; then the route handler may
    send a body, which is captured as a step of its own.
  \<^item> The request is read, the response is a value: the headers sent with a JSON body.

  Lemmas: requests that may be private are handed on without touching the cache; a captured response is replayed to
  later requests with the same key; statistics are sent to authorised requests only.
\<close>

subsection \<open>Requests\<close>

record http_request =
  hq_method :: "string option"
  hq_originalUrl :: "string option"
  hq_url :: "string option"
  hq_path :: "string option"
  hq_message :: http_message

record middleware_options =
  mo_keyResolver :: "(http_request \<Rightarrow> string result) option"
  mo_methods :: "string list option"
  mo_allowPrivateCaching :: "bool option"
  mo_cache :: write_options

definition upper_letter :: "char \<Rightarrow> char" where
  \<comment> \<open>for the letters of HTTP methods, which are ASCII\<close>
  "upper_letter c = (let n = (of_char c :: nat) in if 97 \<le> n \<and> n \<le> 122 then char_of (n - 32) else c)"

definition toUpperCase :: "string \<Rightarrow> string" where
  "toUpperCase s = map upper_letter s"

definition request_method :: "http_request \<Rightarrow> string" where
  "request_method req = toUpperCase (nullish (hq_method req) ''GET'')"

definition allowed_methods :: "middleware_options \<Rightarrow> string list" where
  "allowed_methods opts = map toUpperCase (nullish (mo_methods opts) [''GET''])"

datatype decision = HandOn | UseKey string

definition implicit_key :: "(string \<Rightarrow> http_url option) \<Rightarrow> middleware_options \<Rightarrow> http_request \<Rightarrow> string \<Rightarrow> decision result" where
  \<comment> \<open>the guards and the key, for the raw URL or path\<close>
  "implicit_key new_url opts req rawUrl =
    (if request_method req \<notin> set (allowed_methods opts) then Inr HandOn
     else if mo_keyResolver opts = None \<and> mo_allowPrivateCaching opts \<noteq> Some True then Inr HandOn
     else if mo_keyResolver opts = None \<and> hasSensitiveHttpCacheQuery new_url rawUrl then Inr HandOn
     else if mo_keyResolver opts = None \<and> hasSensitiveHttpCacheHeaders (Some (hq_message req)) then Inr HandOn
     else case mo_keyResolver opts of
       Some keyResolver \<Rightarrow> map_sum id UseKey (keyResolver req)
     | None \<Rightarrow> Inr (UseKey (request_method req @ '':'' @ normalizeHttpCacheUrl new_url rawUrl)))"

definition express_decision :: "(string \<Rightarrow> http_url option) \<Rightarrow> middleware_options \<Rightarrow> http_request \<Rightarrow> decision result" where
  "express_decision new_url opts req = implicit_key new_url opts req (nullish (hq_originalUrl req) (nullish (hq_url req) ''/''))"

definition hono_decision :: "(string \<Rightarrow> http_url option) \<Rightarrow> middleware_options \<Rightarrow> http_request \<Rightarrow> decision result" where
  "hono_decision new_url opts req = implicit_key new_url opts req (nullish (hq_url req) (nullish (hq_path req) ''/''))"

subsection \<open>Middlewares\<close>

type_synonym response_headers = "(string \<times> string) list"

datatype outcome =
    Passed                            \<comment> \<open>\<open>next()\<close>, the response untouched\<close>
  | PassedCapturing string            \<comment> \<open>\<open>next()\<close> with \<open>json\<close> replaced, for this key\<close>
  | PassedError error                 \<comment> \<open>\<open>next(error)\<close>, or a rejected promise\<close>
  | Replied response_headers js

definition HIT_HEADERS :: response_headers where
  "HIT_HEADERS = [(''content-type'', ''application/json; charset=utf-8''), (''x-cache'', ''HIT'')]"

definition lookup_response :: "'l stack_config \<Rightarrow> middleware_options \<Rightarrow> response_headers \<Rightarrow> bool \<Rightarrow> decision result \<Rightarrow> 'l stack \<Rightarrow> outcome \<times> 'l stack" where
  \<comment> \<open>the flag: the response has a \<open>json\<close> method to replace\<close>
  "lookup_response cf opts hit_headers has_json d s =
    (case d of
       Inl e \<Rightarrow> (PassedError e, s)
     | Inr HandOn \<Rightarrow> (Passed, s)
     | Inr (UseKey key) \<Rightarrow>
         (case stack_get cf key None (Some (mo_cache opts)) s of
            (Inl e, s1) \<Rightarrow> (PassedError e, s1)
          | (Inr cached, s1) \<Rightarrow> if cached \<noteq> JUndef then (Replied hit_headers cached, s1)
              else (if has_json then PassedCapturing key else Passed, s1)))"

definition express_middleware :: "(string \<Rightarrow> http_url option) \<Rightarrow> 'l stack_config \<Rightarrow> middleware_options \<Rightarrow> bool \<Rightarrow> http_request \<Rightarrow> 'l stack \<Rightarrow> outcome \<times> 'l stack" where
  "express_middleware new_url cf opts has_json req = lookup_response cf opts HIT_HEADERS has_json (express_decision new_url opts req)"

definition hono_middleware :: "(string \<Rightarrow> http_url option) \<Rightarrow> 'l stack_config \<Rightarrow> middleware_options \<Rightarrow> http_request \<Rightarrow> 'l stack \<Rightarrow> outcome \<times> 'l stack" where
  "hono_middleware new_url cf opts req = lookup_response cf opts (rev HIT_HEADERS) True (hono_decision new_url opts req)"

definition isSuccessfulStatus :: "int option \<Rightarrow> bool" where
  "isSuccessfulStatus statusCode = (case statusCode of None \<Rightarrow> True | Some n \<Rightarrow> 200 \<le> n \<and> n < 300)"

definition captured_json :: "'l stack_config \<Rightarrow> middleware_options \<Rightarrow> string \<Rightarrow> int option \<Rightarrow> js \<Rightarrow> 'l stack \<Rightarrow> (response_headers \<times> js) \<times> 'l stack" where
  \<comment> \<open>\<open>res.json(body)\<close> on a captured response; a failing \<open>set\<close> is only reported\<close>
  "captured_json cf opts key statusCode body s =
    (([(''x-cache'', ''MISS'')], body),
     if isSuccessfulStatus statusCode
     then (case stack_set cf key body (Some (mo_cache opts)) s of (Inl e, s1) \<Rightarrow> emit (EvError ''set'') s1 | (Inr _, s1) \<Rightarrow> s1)
     else s)"

definition hono_json :: "'l stack_config \<Rightarrow> middleware_options \<Rightarrow> string \<Rightarrow> int option \<Rightarrow> int option \<Rightarrow> js \<Rightarrow> 'l stack \<Rightarrow> (response_headers \<times> js) \<times> 'l stack" where
  \<comment> \<open>\<open>context.json(body, status)\<close>, after \<open>context.status\<close> may have set a status\<close>
  "hono_json cf opts key currentStatus status body = captured_json cf opts key (nullish_opt status currentStatus) body"

subsection \<open>Statistics\<close>

record 'q stats_options =
  xo_exposeStatsRoute :: bool
  xo_publicAccess :: bool
  xo_authorize :: "('q \<Rightarrow> bool result) option"
  xo_unauthorizedStatusCode :: "nat option"

datatype stats_body = Forbidden | Stats stats_snapshot

record stats_response =
  xr_headers :: response_headers
  xr_status :: "nat option"
  xr_body :: "stats_body option"

definition authorized :: "'q stats_options \<Rightarrow> 'q \<Rightarrow> bool result" where
  "authorized opts request =
    (if xo_publicAccess opts then Inr True
     else case xo_authorize opts of Some f \<Rightarrow> f request | None \<Rightarrow> Inr False)"

definition stats_handler :: "'q stats_options \<Rightarrow> 'q \<Rightarrow> 'l stack \<Rightarrow> unit result \<times> stats_response" where
  \<comment> \<open>\<open>createCacheStatsHandler\<close>\<close>
  "stats_handler opts request s =
    (let res = \<lparr>xr_headers = [(''content-type'', ''application/json; charset=utf-8''), (''cache-control'', ''no-store''), (''x-content-type-options'', ''nosniff'')],
                xr_status = None, xr_body = None\<rparr>
     in case authorized opts request of
          Inl e \<Rightarrow> (Inl e, res)
        | Inr False \<Rightarrow> (Inr (), res\<lparr>xr_status := Some (nullish (xo_unauthorizedStatusCode opts) 403), xr_body := Some Forbidden\<rparr>)
        | Inr True \<Rightarrow> (Inr (), res\<lparr>xr_status := Some 200, xr_body := Some (Stats (getStats s))\<rparr>))"

definition fastify_stats_route :: "'q stats_options \<Rightarrow> ('q \<Rightarrow> 'l stack \<Rightarrow> unit result \<times> stats_response) option" where
  \<comment> \<open>the route the plugin registers, when it registers one\<close>
  "fastify_stats_route opts =
    (if xo_exposeStatsRoute opts then Some (\<lambda>request s.
       case authorized opts request of
         Inl e \<Rightarrow> (Inl e, \<lparr>xr_headers = [], xr_status = None, xr_body = None\<rparr>)
       | Inr ok \<Rightarrow>
           let res = \<lparr>xr_headers = [(''cache-control'', ''no-store''), (''x-content-type-options'', ''nosniff'')], xr_status = None, xr_body = None\<rparr>
           in if \<not> ok then (Inr (), res\<lparr>xr_status := Some (nullish (xo_unauthorizedStatusCode opts) 403), xr_body := Some Forbidden\<rparr>)
              else (Inr (), res\<lparr>xr_body := Some (Stats (getStats s))\<rparr>))
     else None)"

subsection \<open>Private requests\<close>

text \<open>
  What a request presents, independently of how the code looks for it. The credentials are those the README names.
  An object that offers headers is asked through its accessors, under a name in any case; without accessors its entries
  with texts count. Accessors ignore the case of a name, and \<open>get\<close> and \<open>header\<close> of one object agree, as those
  of Express, of Hono and of the web's \<open>Headers\<close> do.
\<close>

definition credential_header :: "string \<Rightarrow> bool" where
  "credential_header name \<longleftrightarrow> toLowerCase name \<in>
    {''authorization'', ''cookie'', ''set-cookie'', ''x-api-key'', ''x-session-id'', ''x-auth-token'', ''x-forwarded-user''}"

definition credential_param :: "string \<Rightarrow> bool" where
  "credential_param name \<longleftrightarrow> toLowerCase name \<in>
    {''token'', ''access_token'', ''refresh_token'', ''id_token'', ''jwt'', ''api_key'', ''apikey'', ''private_key'', ''secret'', ''client_secret'',
     ''client_assertion'', ''client_assertion_type'', ''code'', ''auth'', ''authorization'', ''credentials'', ''password'',
     ''session'', ''sessionid'', ''session_id''}"

definition accessors :: "header_object \<Rightarrow> (string \<Rightarrow> js) set" where
  "accessors h = {f. ho_get h = Some f \<or> ho_header h = Some f}"

definition regular_accessors :: "header_object \<Rightarrow> bool" where
  "regular_accessors h \<longleftrightarrow> (\<forall>f \<in> accessors h. \<forall>g \<in> accessors h. \<forall>name. f (toLowerCase name) = g name)"

definition presents :: "header_object \<Rightarrow> string \<Rightarrow> bool" where
  "presents h name \<longleftrightarrow>
    (if accessors h = {} then \<exists>val. (name, JStr val) \<in> set (ho_entries h) \<and> val \<noteq> []
     else \<exists>f \<in> accessors h. js_truthy (f name))"

definition header_sources :: "http_message \<Rightarrow> header_object set" where
  \<comment> \<open>the request itself and its \<open>headers\<close>\<close>
  "header_sources m = {h. h = hm_self m \<or> hm_headers m = Some h}"

definition secret_header :: "http_message \<Rightarrow> bool" where
  "secret_header m \<longleftrightarrow> (\<exists>h \<in> header_sources m. \<exists>name. presents h name \<and> credential_header name)"

definition secret_query :: "(string \<Rightarrow> http_url option) \<Rightarrow> string \<Rightarrow> bool" where
  \<comment> \<open>a parameter with the name of a credential, in any case; also a URL that does not parse\<close>
  "secret_query new_url url \<longleftrightarrow> (case new_url url of None \<Rightarrow> True | Some u \<Rightarrow> \<exists>p \<in> set (hu_params u). credential_param (fst p))"

definition may_be_private :: "(string \<Rightarrow> http_url option) \<Rightarrow> middleware_options \<Rightarrow> http_request \<Rightarrow> string \<Rightarrow> bool" where
  "may_be_private new_url opts req url \<longleftrightarrow>
    mo_allowPrivateCaching opts \<noteq> Some True \<or> secret_header (hq_message req) \<or> secret_query new_url url"

lemma plain_header_found:
  "(name, JStr val) \<in> set es \<Longrightarrow> val \<noteq> [] \<Longrightarrow> js_truthy (plain_header (toLowerCase name) es)"
  by (induction es) (auto split: js.splits)

lemma presents_read:
  assumes "regular_accessors h" "presents h name"
  shows "js_truthy (readHeader h (toLowerCase name))"
proof (cases "accessors h = {}")
  case True
  then have "ho_get h = None" "ho_header h = None" by (cases "ho_get h"; cases "ho_header h"; auto simp: accessors_def)+
  then show ?thesis using assms(2) True plain_header_found by (auto simp: presents_def readHeader_def)
next
  case False
  then obtain f where f: "f \<in> accessors h" "js_truthy (f name)" using assms(2) by (auto simp: presents_def)
  obtain g where g: "g \<in> accessors h" "readHeader h = g"
    using False by (cases "ho_get h"; cases "ho_header h") (auto simp: accessors_def readHeader_def fun_eq_iff)
  have "g (toLowerCase name) = f name" using assms(1) f(1) g(1) by (simp add: regular_accessors_def)
  then show ?thesis using f(2) g(2) by simp
qed

lemma secret_header_seen:
  assumes "\<forall>h \<in> header_sources m. regular_accessors h" "secret_header m"
  shows "hasSensitiveHttpCacheHeaders (Some m)"
proof -
  obtain h name where h: "h \<in> header_sources m" "presents h name" "credential_header name" using assms(2) by (auto simp: secret_header_def)
  have "toLowerCase name \<in> set SENSITIVE_HEADERS" using h(3) by (auto simp: credential_header_def SENSITIVE_HEADERS_def)
  then have "carries_secret h" using presents_read [OF _ h(2)] assms(1) h(1) by (auto simp: carries_secret_def list_ex_iff)
  then show ?thesis using h(1) by (auto simp: header_sources_def hasSensitiveHttpCacheHeaders_def)
qed

lemma secret_query_seen: "hasSensitiveHttpCacheQuery new_url url \<longleftrightarrow> secret_query new_url url"
proof -
  have "sensitive_param = credential_param"
    by (intro ext) (auto simp: sensitive_param_def credential_param_def SENSITIVE_QUERY_PARAMETERS_def)
  then show ?thesis
    by (cases "new_url url")
      (simp_all add: hasSensitiveHttpCacheQuery_def secret_query_def inspect_parsed, simp add: inspectHttpCacheUrl_def)
qed

text \<open>
  C33: without a key resolver no request that may be private touches the cache. Each middleware hands the request on and leaves
  the stack as it was, so that nothing is looked up and nothing will be captured, unless implicit caching is allowed, the
  query of its URL names no credential, and no credential header is presented, by the request itself (\<open>req.get()\<close>,
  \<open>req.header()\<close>) or by its \<open>headers\<close>, be it an object with an accessor or a plain record, under a name in any
  case. In a plain record this is about values that are texts: an array, as Node gives it for \<open>set-cookie\<close>, is not seen.
\<close>

theorem private_requests_bypass_cache:
  assumes "mo_keyResolver opts = None" "\<forall>h \<in> header_sources (hq_message req). regular_accessors h"
  shows "(may_be_private new_url opts req (nullish (hq_originalUrl req) (nullish (hq_url req) ''/'')) \<longrightarrow> express_middleware new_url cf opts has_json req s = (Passed, s)) \<and>
    (may_be_private new_url opts req (nullish (hq_url req) (nullish (hq_path req) ''/'')) \<longrightarrow> hono_middleware new_url cf opts req s = (Passed, s))"
proof -
  have "implicit_key new_url opts req url = Inr HandOn" if "may_be_private new_url opts req url" for url
    using that assms(1) secret_header_seen [OF assms(2)] by (auto simp: may_be_private_def implicit_key_def secret_query_seen)
  then show ?thesis
    by (simp add: express_middleware_def hono_middleware_def lookup_response_def express_decision_def hono_decision_def)
qed

subsection \<open>Replies from the cache\<close>

text \<open>
  A captured response is replayed. After a route handler sent a JSON body with a successful status for a request with
  some key, every later request with the same key is answered with that body from the cache, until its
  fresh TTL has passed.
\<close>

theorem captured_response_replayed:
  assumes "express_decision new_url mo req = Inr (UseKey key)" "isSuccessfulStatus status"
    and "healthy ct s" "0 < length (sk_layers s)" "\<not> sk_disconnecting s" "\<not> cf_writeBehind cf" "cf_publish cf = None"
    and "clean_name key" "validateWriteOptions (Some (mo_cache mo)) = Inr ()" "o_contextOptions (mo_cache mo) = None"
    and "fresh_ttl cf (qualifyGenerationKey key (sk_generation s)) 0 WValue (mo_cache mo) v s = Some f" "0 < f" "0 \<le> sk_now s"
    and "f + window (resolveLayerMs (ly_name (the_layer 0 s)) (o_staleWhileRevalidate (mo_cache mo)) (cf_staleWhileRevalidate cf) None) \<le> ten_years_ms"
    and "f + window (resolveLayerMs (ly_name (the_layer 0 s)) (o_staleIfError (mo_cache mo)) (cf_staleIfError cf) None) \<le> ten_years_ms"
    and "o_slidingTtl (mo_cache mo) \<noteq> Some True"
    and "sk_now s \<le> t" "t < sk_now s + f" "takes_write ct cf (qualifyGenerationKey key (sk_generation s)) WValue v (mo_cache mo) s"
  shows "fst (express_middleware new_url cf mo has_json req ((snd (captured_json cf mo key status v s))\<lparr>sk_now := t\<rparr>))
    = Replied HIT_HEADERS (if is_nullish v then JNull else v)"
proof -
  have set: "fst (stack_set cf key v (Some (mo_cache mo)) s) = Inr ()"
    and get: "fst (stack_get cf key None (Some (mo_cache mo)) ((snd (stack_set cf key v (Some (mo_cache mo)) s))\<lparr>sk_now := t\<rparr>)) = Inr (if is_nullish v then JNull else v)"
    using stack_set_get [OF assms(3-15) assms(9) _ assms(17-19), of None] assms(16) by simp_all
  have "snd (captured_json cf mo key status v s) = snd (stack_set cf key v (Some (mo_cache mo)) s)"
    using assms(2) set by (cases "stack_set cf key v (Some (mo_cache mo)) s") (simp add: captured_json_def)
  moreover have "(if is_nullish v then JNull else v) \<noteq> JUndef" by (cases v) auto
  ultimately show ?thesis
    using assms(1) get by (auto simp: express_middleware_def lookup_response_def split: prod.split sum.split)
qed

subsection \<open>Statistics\<close>

text \<open>
  Statistics are sent to authorised requests only: unless public access is switched on, a response with them means
  that the authorisation callback said yes.
\<close>

theorem stats_need_authorization:
  assumes "\<not> xo_publicAccess opts" "route = stats_handler opts \<or> fastify_stats_route opts = Some route"
    and "xr_body (snd (route request s)) = Some (Stats st)"
  shows "\<exists>f. xo_authorize opts = Some f \<and> f request = Inr True"
  using assms
  by (auto simp: stats_handler_def fastify_stats_route_def authorized_def Let_def split: option.splits sum.splits bool.splits if_splits)

subsection \<open>An example\<close>

definition demo_middleware :: middleware_options where
  "demo_middleware = \<lparr>mo_keyResolver = None, mo_methods = None, mo_allowPrivateCaching = Some True, mo_cache = no_write_options\<rparr>"

definition demo_request :: "(string \<times> js) list \<Rightarrow> http_request" where
  "demo_request headers = \<lparr>hq_method = None, hq_originalUrl = Some ''/a?y=2&x=1'', hq_url = None, hq_path = None,
     hq_message = \<lparr>hm_self = \<lparr>ho_get = None, ho_header = None, ho_entries = []\<rparr>,
       hm_headers = Some \<lparr>ho_get = None, ho_header = None, ho_entries = headers\<rparr>\<rparr>\<rparr>"

lemma toLowerCase_twice: "toLowerCase (toLowerCase s) = toLowerCase s"
proof -
  have "lower_letter (lower_letter c) = lower_letter c" for c
  proof (cases "lower_letter c = c")
    case False
    let ?n = "of_char c :: nat"
    have n: "65 \<le> ?n \<and> ?n \<le> 90 \<or> 192 \<le> ?n \<and> ?n \<le> 222" "lower_letter c = char_of (?n + 32)"
      using False by (auto simp: lower_letter_def Let_def split: if_splits)
    have "of_char (char_of (?n + 32)) = ?n + 32" using n(1) by auto
    then show ?thesis using n by (auto simp: lower_letter_def Let_def)
  qed simp
  then show ?thesis by (simp add: toLowerCase_def)
qed

definition hono_request :: http_request where
  \<comment> \<open>credentials are visible through \<open>req.header()\<close> alone\<close>
  "hono_request = \<lparr>hq_method = Some ''GET'', hq_originalUrl = None, hq_url = Some ''/a?y=2&x=1'', hq_path = None,
     hq_message = \<lparr>hm_self = \<lparr>ho_get = None, ho_header = Some (\<lambda>name. if toLowerCase name = ''authorization'' then JStr ''Bearer abc'' else JUndef),
       ho_entries = []\<rparr>, hm_headers = None\<rparr>\<rparr>"

theorem private_requests_bypass_cache_witness:
  "express_middleware example_urls (demo_config :: memory_layer stack_config) demo_middleware True (demo_request [(''Cookie'', JStr ''sid=1'')]) demo_stack = (Passed, demo_stack) \<and>
   hono_middleware example_urls (demo_config :: memory_layer stack_config) demo_middleware hono_request demo_stack = (Passed, demo_stack)"
proof -
  have key: "mo_keyResolver demo_middleware = None" by (simp add: demo_middleware_def)
  have cookie: "credential_header ''Cookie''" and auth: "credential_header ''Authorization''" "toLowerCase ''Authorization'' = ''authorization''"
    by (simp_all add: credential_header_def toLowerCase_def lower_letter_def Let_def char_of_def bit_simps)
  let ?express = "demo_request [(''Cookie'', JStr ''sid=1'')]"
  have e: "\<forall>h \<in> header_sources (hq_message ?express). regular_accessors h"
    by (auto simp: header_sources_def demo_request_def regular_accessors_def accessors_def)
  have "secret_header (hq_message ?express)"
    using cookie by (auto simp: secret_header_def header_sources_def demo_request_def presents_def accessors_def)
  moreover have h: "\<forall>h \<in> header_sources (hq_message hono_request). regular_accessors h"
    by (auto simp: header_sources_def hono_request_def regular_accessors_def accessors_def toLowerCase_twice)
  moreover have "secret_header (hq_message hono_request)"
    using auth by (auto simp: secret_header_def header_sources_def hono_request_def presents_def accessors_def intro!: exI [of _ "''Authorization''"])
  ultimately show ?thesis
    using private_requests_bypass_cache [OF key e] private_requests_bypass_cache [OF key h] unfolding may_be_private_def by blast
qed

lemma demo_key: "express_decision example_urls demo_middleware (demo_request []) = Inr (UseKey ''GET:/a?x=1&y=2'')"
proof -
  have plain: "\<not> sensitive_param ''x''" "\<not> sensitive_param ''y''"
    by (simp_all add: sensitive_param_def toLowerCase_def lower_letter_def SENSITIVE_QUERY_PARAMETERS_def)
  have get: "toUpperCase ''GET'' = ''GET''" by (simp add: toUpperCase_def upper_letter_def Let_def)
  have no_secret: "\<not> carries_secret \<lparr>ho_get = None, ho_header = None, ho_entries = []\<rparr>"
    unfolding carries_secret_def list_ex_iff by (simp add: readHeader_def)
  have key: "normalizeHttpCacheUrl example_urls ''/a?y=2&x=1'' = ''/a?x=1&y=2''" "\<not> hasSensitiveHttpCacheQuery example_urls ''/a?y=2&x=1''"
    using plain
    by (simp_all add: normalizeHttpCacheUrl_def hasSensitiveHttpCacheQuery_def inspectHttpCacheUrl_def example_urls_def sort_params_def
        search_text_def form_encode_def form_safe_def)
  show ?thesis
    by (simp add: get key express_decision_def implicit_key_def demo_middleware_def demo_request_def request_method_def allowed_methods_def
        hasSensitiveHttpCacheHeaders_def) (rule no_secret)
qed

theorem captured_response_replayed_witness:
  "fst (express_middleware example_urls demo_config demo_middleware True (demo_request [])
     ((snd (captured_json demo_config demo_middleware ''GET:/a?x=1&y=2'' (Some 200) (JStr ''v'') demo_stack))\<lparr>sk_now := 1999\<rparr>))
   = Replied HIT_HEADERS (JStr ''v'')"
  using captured_response_replayed [OF demo_key _ demo_healthy, of "Some 200" demo_config "JStr ''v''" 1000 1999] demo_fresh_ttl
  by (simp add: demo_middleware_def isSuccessfulStatus_def takes_write_def takes_entry_def clean_name_def qualifyGenerationKey_def
      generationPrefix_def demo_validate demo_windows control_char_def surrogate_def MAX_CACHE_KEY_LENGTH_def)

end
