(* ===== verification/SnapshotStore.thy ===== *)
theory SnapshotStore
  imports SnapshotFile StackAdmin CommandLine Sanitizer
begin

text \<open>
  Snapshots in files (\<open>persistToFile\<close> and \<open>restoreFromFile\<close> of \<open>src/src/internal/CacheStackSnapshotManager.ts\<close>, with
  their entry points in \<open>CacheStack\<close>), over the stack and a file system side by side.
\<close>

subsection \<open>Both states\<close>

definition on_stack :: "('l stack, 'a) action \<Rightarrow> ('l stack \<times> 'f, 'a) action" where
  "on_stack m sf = (case m (fst sf) of (r, s) \<Rightarrow> (r, (s, snd sf)))"

definition on_files :: "('f, 'a) action \<Rightarrow> ('l stack \<times> 'f, 'a) action" where
  "on_files m sf = (case m (snd sf) of (r, f) \<Rightarrow> (r, (fst sf, f)))"

record 'f snapshot_host =
  sh_fs :: "'f snapshot_fs"
  sh_cwd :: path
  sh_random :: string    \<comment> \<open>the random part of a temporary name\<close>
  sh_fraction :: "real \<Rightarrow> string"
  sh_serializer :: serializer    \<comment> \<open>\<open>snapshotSerializer\<close>\<close>

subsection \<open>Persisting\<close>

definition entry_json :: "snapshot_entry \<Rightarrow> js" where
  "entry_json e = JObj [(''key'', JStr (se_key e)), (''value'', se_value e), (''ttl'', case se_ttl e of None \<Rightarrow> JUndef | Some t \<Rightarrow> JNum (Fin t))]"

definition write_text :: "'f snapshot_host \<Rightarrow> path \<Rightarrow> string \<Rightarrow> ('f, unit) action" where
  \<comment> \<open>\<open>handle.writeFile(text, 'utf8')\<close>\<close>
  "write_text h tempPath txt = sf_append (sh_fs h) tempPath (utf8_encode txt)"

definition write_snapshot_entry :: "'f snapshot_host \<Rightarrow> path \<Rightarrow> snapshot_entry \<Rightarrow> ('l stack \<times> ('f \<times> bool), unit) action" where
  \<comment> \<open>the visitor; the flag is \<open>wroteAny\<close>\<close>
  "write_snapshot_entry h tempPath e w =
    (case w of (s, f, wroteAny) \<Rightarrow>
       case andthen (write_text h tempPath (if wroteAny then '','' @ newline else newline))
              (\<lambda>_. write_text h tempPath (pretty (sh_fraction h) 0 (entry_json e))) f of
         (Inl er, f1) \<Rightarrow> (Inl er, (s, f1, wroteAny))
       | (Inr _, f1) \<Rightarrow> (Inr (), (s, f1, True)))"

definition write_snapshot_entries :: "'f snapshot_host \<Rightarrow> 'l stack_config \<Rightarrow> match_limit \<Rightarrow> path \<Rightarrow> ('l stack \<times> 'f, bool) action" where
  \<comment> \<open>\<open>visitExportEntries\<close> with that visitor; the result is \<open>wroteAny\<close>\<close>
  "write_snapshot_entries h cf maxEntries tempPath sf =
    (case visitExportEntries cf maxEntries (write_snapshot_entry h tempPath) (all_layers (fst sf)) [] (fst sf, (snd sf, False)) of
       (Inl e, (s1, f1, _)) \<Rightarrow> (Inl e, (s1, f1))
     | (Inr _, (s1, f1, wroteAny)) \<Rightarrow> (Inr wroteAny, (s1, f1)))"

definition write_snapshot :: "'f snapshot_host \<Rightarrow> 'l stack_config \<Rightarrow> match_limit \<Rightarrow> path \<Rightarrow> ('l stack \<times> 'f, unit) action" where
  \<comment> \<open>the open handle, from the opening bracket to the closing one\<close>
  "write_snapshot h cf maxEntries tempPath =
    andthen (on_files (write_text h tempPath ''['')) (\<lambda>_.
    andthen (write_snapshot_entries h cf maxEntries tempPath) (\<lambda>wroteAny.
    on_files (write_text h tempPath (if wroteAny then newline @ '']'' else '']''))))"

definition discard_temp :: "'f snapshot_host \<Rightarrow> path \<Rightarrow> 'f \<Rightarrow> 'f" where
  "discard_temp h tempPath f = snd (sf_unlink (sh_fs h) tempPath f)"

definition persist_to :: "'f snapshot_host \<Rightarrow> 'l stack_config \<Rightarrow> match_limit \<Rightarrow> base_dir \<Rightarrow> path \<Rightarrow> ('l stack \<times> 'f, unit) action" where
  \<comment> \<open>the \<open>try\<close> statement: a failure closes the handle if it is open, and removes the temporary file\<close>
  "persist_to h cf maxEntries base targetPath sf =
    (let tempPath = atomicWriteTempPath (sh_random h) targetPath; fs = sh_fs h in
     case on_files (sf_create fs tempPath) sf of
       (Inl e, (s1, f1)) \<Rightarrow> (Inl e, (s1, discard_temp h tempPath f1))
     | (Inr _, sf1) \<Rightarrow>
         (case andthen (write_snapshot h cf maxEntries tempPath) (\<lambda>_. on_files (sf_close fs tempPath)) sf1 of
            (Inl e, (s2, f2)) \<Rightarrow> (Inl e, (s2, discard_temp h tempPath (snd (sf_close fs tempPath f2))))
          | (Inr _, sf2) \<Rightarrow>
              (case on_files (commitAtomicWrite fs (sh_cwd h) tempPath targetPath (Some base)) sf2 of
                 (Inl e, (s3, f3)) \<Rightarrow> (Inl e, (s3, discard_temp h tempPath f3))
               | (Inr _, sf3) \<Rightarrow> (Inr (), sf3))))"

definition persistToFile :: "'f snapshot_host \<Rightarrow> 'l stack_config \<Rightarrow> base_dir \<Rightarrow> string \<Rightarrow> ('l stack \<times> 'f, unit) action" where
  "persistToFile h cf base filePath =
    andthen (on_stack (assertActive ''persistToFile'')) (\<lambda>_.
    andthen (on_files (validateSnapshotFilePath (sh_fs h) (sh_cwd h) filePath WriteMode base)) (\<lambda>targetPath.
      persist_to h cf (cf_snapshotMaxEntries cf) base targetPath))"

subsection \<open>Restoring\<close>

definition snapshot_ttl :: "js \<Rightarrow> real option option" where
  \<comment> \<open>\<open>None\<close>: not a valid \<open>ttl\<close>\<close>
  "snapshot_ttl v = (case v of JUndef \<Rightarrow> Some None | JNum (Fin x) \<Rightarrow> if 0 \<le> x then Some (Some x) else None | _ \<Rightarrow> None)"

definition valid_entry :: "js \<Rightarrow> bool" where
  "valid_entry v = (is_object v \<and> (case js_prop v ''key'' of JStr _ \<Rightarrow> True | _ \<Rightarrow> False) \<and> snapshot_ttl (js_prop v ''ttl'') \<noteq> None)"

definition isCacheSnapshotEntries :: "js \<Rightarrow> js list option" where
  "isCacheSnapshotEntries v = (case v of JArr es \<Rightarrow> if list_all valid_entry es then Some es else None | _ \<Rightarrow> None)"

definition sanitizeSnapshotValue :: "'f snapshot_host \<Rightarrow> js \<Rightarrow> js result" where
  "sanitizeSnapshotValue h v =
    bind_result (sr_serialize (sh_serializer h) v) (\<lambda>p.
    bind_result (sr_deserialize (sh_serializer h) p) (\<lambda>roundTripped.
      sanitizeStructuredData \<lparr>sz_maxDepth = 64, sz_maxNodes = 10000, sz_label = ''Snapshot value''\<rparr> roundTripped))"

fun snapshot_entries :: "'f snapshot_host \<Rightarrow> js list \<Rightarrow> snapshot_entry list result" where
  "snapshot_entries h [] = Inr []"
| "snapshot_entries h (v # vs) =
    bind_result (sanitizeSnapshotValue h (js_prop v ''value'')) (\<lambda>val.
    bind_result (snapshot_entries h vs) (\<lambda>es.
      Inr (\<lparr>se_key = (case js_prop v ''key'' of JStr k \<Rightarrow> k | _ \<Rightarrow> []), se_value = val, se_ttl = the (snapshot_ttl (js_prop v ''ttl''))\<rparr> # es)))"

definition parse_snapshot :: "'f snapshot_host \<Rightarrow> string \<Rightarrow> snapshot_entry list result" where
  "parse_snapshot h raw =
    (case json_parse raw of
       None \<Rightarrow> Inl (OtherError ''Invalid snapshot file: could not parse JSON'')
     | Some parsed \<Rightarrow>
         (case isCacheSnapshotEntries parsed of
            None \<Rightarrow> Inl (OtherError ''Invalid snapshot file: expected an array of { key: string, value, ttl? } entries'')
          | Some es \<Rightarrow> snapshot_entries h es))"

definition closing :: "'f snapshot_fs \<Rightarrow> path \<Rightarrow> ('f, 'a) action \<Rightarrow> ('f, 'a) action" where
  \<comment> \<open>\<open>try { ... } finally { await handle.close() }\<close>: an error of \<open>close\<close> replaces the outcome\<close>
  "closing fs p m f =
    (case m f of (r, f1) \<Rightarrow> case sf_close fs p f1 of (Inl e, f2) \<Rightarrow> (Inl e, f2) | (Inr _, f2) \<Rightarrow> (r, f2))"

definition read_snapshot :: "'f snapshot_fs \<Rightarrow> path \<Rightarrow> nat option \<Rightarrow> ('f, string) action" where
  "read_snapshot fs p maxBytes =
    andthen (sf_open fs p) (\<lambda>_. closing fs p
      (andthen (case maxBytes of None \<Rightarrow> ret () | Some limit \<Rightarrow> andthen (sf_size fs p) (\<lambda>n. if limit < n then throw_error (too_large limit) else ret ()))
        (\<lambda>_. readUtf8HandleWithLimit fs p maxBytes)))"

definition restoreFromFile ::
    "'f snapshot_host \<Rightarrow> (string \<Rightarrow> string) \<Rightarrow> 'l stack_config \<Rightarrow> base_dir \<Rightarrow> nat option \<Rightarrow> string \<Rightarrow> ('l stack \<times> 'f, unit) action" where
  \<comment> \<open>the second argument decodes UTF-8 with replacement characters\<close>
  "restoreFromFile h decode cf base maxBytes filePath =
    andthen (on_stack (assertActive ''restoreFromFile'')) (\<lambda>_.
    andthen (on_files (validateSnapshotFilePath (sh_fs h) (sh_cwd h) filePath ReadMode base)) (\<lambda>validatedPath.
    andthen (on_files (read_snapshot (sh_fs h) validatedPath maxBytes)) (\<lambda>raw.
      case parse_snapshot h (decode raw) of
        Inl e \<Rightarrow> throw_error e
      | Inr entries \<Rightarrow> on_stack (andthen (qualify_snapshot entries) (import_batches cf)))))"

end
