(* ===== verification/SnapshotProps.thy ===== *)
theory SnapshotProps
  imports SnapshotStore StackConfig
begin

text \<open>
  Properties of snapshot files: a checked path lies under the base directory, a read is complete or refused, and a
  snapshot is written whole or not at all.
\<close>

subsection \<open>Paths\<close>

lemma relative_prefix: "prefix base p \<Longrightarrow> path_relative base p = drop (length base) p"
  by (induction base p rule: path_relative.induct) auto

lemma relative_outside: "\<not> prefix base p \<Longrightarrow> take 1 (path_relative base p) = [''..'']"
  by (induction base p rule: path_relative.induct) (auto simp: min_def Suc_le_eq)

lemma within_prefix: "isWithinSnapshotBase base p \<Longrightarrow> prefix base p"
  using relative_outside by (auto simp: isWithinSnapshotBase_def)

lemma within_prefix_iff: "''..'' \<notin> set p \<Longrightarrow> isWithinSnapshotBase base p \<longleftrightarrow> prefix base p"
proof
  assume p: "''..'' \<notin> set p" "prefix base p"
  have "''..'' \<notin> set (drop (length base) p)" using p(1) by (auto dest: in_set_dropD)
  then show "isWithinSnapshotBase base p"
    unfolding isWithinSnapshotBase_def relative_prefix [OF p(2)] by (cases "drop (length base) p") auto
qed (rule within_prefix)

lemma within_baseE:
  assumes "within_base base p m f = (Inr x, f')"
  obtains "prefix base p" "m f = (Inr x, f')"
  using assms within_prefix by (auto simp: within_base_def outside_def throw_error_def split: if_splits)

lemma andthenE:
  assumes "andthen m k s = (Inr y, s')"
  obtains x s1 where "m s = (Inr x, s1)" "k x s1 = (Inr y, s')"
  using assms by (auto simp: andthen_def split: prod.splits sum.splits)

lemma checked_write_within: "checked_write_path fs rb resolved f = (Inr target, f') \<Longrightarrow> prefix rb target"
  unfolding checked_write_path_def by (auto elim!: andthenE within_baseE simp: ret_def prefix_def)

text \<open>
  C37: a snapshot is read and written below the base directory. Whatever the file system answers, a path that passes
  the check for reading or writing extends the real path of the base directory: no relative segment, symbolic link or
  missing directory leads out of it.
\<close>

theorem snapshot_path_confined:
  assumes "base_path cwd base = Some dir" "sf_realpath fs dir (snd (sf_mkdir fs dir f)) = (Inr realBase, f1)"
    and "validateSnapshotFilePath fs cwd filePath mode base f = (Inr target, f')"
  shows "prefix realBase target"
proof -
  let ?resolved = "path_resolve cwd filePath"
  have run: "andthen (sf_mkdir fs dir) (\<lambda>_.
      andthen (sf_realpath fs dir) (\<lambda>realBaseDir.
      within_base realBaseDir (mapUnderRealBase ?resolved dir realBaseDir) (
        case mode of
          ReadMode \<Rightarrow> andthen (sf_realpath fs ?resolved) (\<lambda>realTarget. within_base realBaseDir realTarget (ret realTarget))
        | WriteMode \<Rightarrow> checked_write_path fs realBaseDir ?resolved))) f = (Inr target, f')"
    using assms(1,3) by (auto simp: validateSnapshotFilePath_def throw_error_def Let_def split: if_splits)
  from this obtain u f0 rb f2 where steps: "sf_mkdir fs dir f = (Inr u, f0)" "sf_realpath fs dir f0 = (Inr rb, f2)"
    "(case mode of
        ReadMode \<Rightarrow> andthen (sf_realpath fs ?resolved) (\<lambda>realTarget. within_base rb realTarget (ret realTarget))
      | WriteMode \<Rightarrow> checked_write_path fs rb ?resolved) f2 = (Inr target, f')"
    by (elim andthenE within_baseE) (rule that)
  then have "rb = realBase" using assms(2) by simp
  then show ?thesis
    using steps(3) checked_write_within by (cases mode) (auto elim!: andthenE within_baseE simp: ret_def)
qed

subsection \<open>Reading\<close>

definition reads_content :: "'f snapshot_fs \<Rightarrow> ('f \<Rightarrow> bool) \<Rightarrow> path \<Rightarrow> string \<Rightarrow> bool" where
  \<comment> \<open>in the states of the second argument a read returns a part of the file at the position, of at most the size asked for, and
      nothing only at the end\<close>
  "reads_content fs ok p content \<longleftrightarrow> (\<forall>n pos f. ok f \<longrightarrow> 0 < n \<longrightarrow> (\<exists>k f'. sf_read fs p n pos f = (Inr (take k (drop pos content)), f') \<and>
     ok f' \<and> k \<le> n \<and> (pos < length content \<longrightarrow> 0 < k)))"

lemma read_limited_content:
  assumes "reads_content fs ok p content"
  shows "ok f \<Longrightarrow> pos \<le> length content \<Longrightarrow> pos \<le> limit \<Longrightarrow>
    \<exists>f'. read_limited fs p limit (take pos content) f = (if length content \<le> limit then Inr content else Inl (too_large limit), f') \<and> ok f'"
proof (induction "Suc limit - pos" arbitrary: pos f rule: less_induct)
  case less
  let ?n = "min CHUNK (limit - pos + 1)"
  have pos: "length (take pos content) = pos" using less(3) by simp
  have "0 < ?n" by (simp add: CHUNK_def)
  then obtain k f' where k: "sf_read fs p ?n pos f = (Inr (take k (drop pos content)), f')" "k \<le> ?n" "pos < length content \<longrightarrow> 0 < k"
    and ok: "ok f'"
    using assms less(2) unfolding reads_content_def by blast
  have step: "read_limited fs p limit (take pos content) f =
      (if take k (drop pos content) = [] then (Inr (take pos content), f')
       else if pos + length (take k (drop pos content)) > limit then (Inl (too_large limit), f')
       else read_limited fs p limit (take pos content @ take k (drop pos content)) f')"
    using k(1) by (subst read_limited.simps) (simp only: pos, simp)
  show ?case
  proof (cases "pos = length content")
    case True
    then show ?thesis using step less(4) ok by simp
  next
    case False
    then have "pos < length content" using less(3) by simp
    then have part: "take k (drop pos content) \<noteq> []" using k(3) by simp
    let ?pos = "pos + length (take k (drop pos content))"
    have next_pos: "?pos \<le> length content" "pos < ?pos" using part less(3) by auto
    have chunk: "take pos content @ take k (drop pos content) = take ?pos content"
    proof -
      have "take ?pos content = take pos content @ take (length (take k (drop pos content))) (drop pos content)" by (rule take_add)
      then show ?thesis by (simp add: min_def split: if_splits)
    qed
    show ?thesis
    proof (cases "?pos > limit")
      case True
      then show ?thesis using step part next_pos(1) ok by simp
    next
      case within: False
      have "\<exists>f''. read_limited fs p limit (take ?pos content) f' = (if length content \<le> limit then Inr content else Inl (too_large limit), f'') \<and> ok f''"
        by (rule less(1)) (use next_pos within in linarith, rule ok, use next_pos within in linarith, use within in linarith)
      then show ?thesis using step part within unfolding chunk by simp
    qed
  qed
qed

text \<open>
  A snapshot file is read completely or refused. However the file system splits the reads, a file of at most
  \<open>maxBytes\<close> bytes is returned whole and a longer one is an error.
\<close>

theorem limited_read_complete:
  assumes "reads_content fs ok p content" "ok f"
  shows "fst (readUtf8HandleWithLimit fs p (Some limit) f) = (if length content \<le> limit then Inr content else Inl (too_large limit))"
  using read_limited_content [OF assms, of 0 limit] by (auto simp: readUtf8HandleWithLimit_def)

subsection \<open>Writing\<close>

definition file_laws :: "'f snapshot_fs \<Rightarrow> ('f \<Rightarrow> path \<Rightarrow> string option) \<Rightarrow> bool" where
  \<comment> \<open>what the calls do to the contents of files; every call may fail, a failed write may have written anything to its file\<close>
  "file_laws fs files \<longleftrightarrow>
    (\<forall>f p. files (snd (sf_realpath fs p f)) = files f \<and> files (snd (sf_lstat fs p f)) = files f \<and> files (snd (sf_mkdir fs p f)) = files f \<and>
       files (snd (sf_close fs p f)) = files f) \<and>
    (\<forall>f p. case sf_create fs p f of (Inr _, f') \<Rightarrow> files f p = None \<and> files f' = (files f)(p \<mapsto> []) | (Inl _, f') \<Rightarrow> files f' = files f) \<and>
    (\<forall>f p b. case sf_append fs p b f of (Inr _, f') \<Rightarrow> files f' = (files f)(p := map_option (\<lambda>c. c @ b) (files f p))
       | (Inl _, f') \<Rightarrow> \<exists>c. files f' = (files f)(p := c)) \<and>
    (\<forall>f p q. p \<noteq> q \<longrightarrow> (case sf_rename fs p q f of (Inr _, f') \<Rightarrow> files f' = (files f)(q := files f p, p := None) | (Inl _, f') \<Rightarrow> files f' = files f)) \<and>
    (\<forall>f p. case sf_unlink fs p f of (Inr _, f') \<Rightarrow> files f' = (files f)(p := None) | (Inl _, f') \<Rightarrow> files f' = files f)"

lemma file_lawsD:
  assumes "file_laws fs files"
  shows "files (snd (sf_realpath fs p f)) = files f" "files (snd (sf_lstat fs p f)) = files f" "files (snd (sf_close fs p f)) = files f"
    "sf_create fs p f = (Inr u, f') \<Longrightarrow> files f' = (files f)(p \<mapsto> [])" "sf_create fs p f = (Inl e, f') \<Longrightarrow> files f' = files f"
    "sf_append fs p b f = (Inr u, f') \<Longrightarrow> files f' = (files f)(p := map_option (\<lambda>c. c @ b) (files f p))"
    "sf_append fs p b f = (r, f') \<Longrightarrow> q \<noteq> p \<Longrightarrow> files f' q = files f q"
    "p \<noteq> q \<Longrightarrow> sf_rename fs p q f = (Inr u, f') \<Longrightarrow> files f' = (files f)(q := files f p, p := None)"
    "p \<noteq> q \<Longrightarrow> sf_rename fs p q f = (Inl e, f') \<Longrightarrow> files f' = files f"
    "sf_unlink fs p f = (r, f') \<Longrightarrow> q \<noteq> p \<Longrightarrow> files f' q = files f q"
proof -
  note laws = assms [unfolded file_laws_def]
  show "files (snd (sf_realpath fs p f)) = files f" "files (snd (sf_lstat fs p f)) = files f" "files (snd (sf_close fs p f)) = files f"
    using laws by blast+
  show "sf_create fs p f = (Inr u, f') \<Longrightarrow> files f' = (files f)(p \<mapsto> [])" "sf_create fs p f = (Inl e, f') \<Longrightarrow> files f' = files f"
    using conjunct1 [OF conjunct2 [OF laws], rule_format, of f p] by auto
  show "sf_append fs p b f = (Inr u, f') \<Longrightarrow> files f' = (files f)(p := map_option (\<lambda>c. c @ b) (files f p))"
    "sf_append fs p b f = (r, f') \<Longrightarrow> q \<noteq> p \<Longrightarrow> files f' q = files f q"
    using conjunct1 [OF conjunct2 [OF conjunct2 [OF laws]], rule_format, of f p b] by (auto split: sum.splits)
  show "p \<noteq> q \<Longrightarrow> sf_rename fs p q f = (Inr u, f') \<Longrightarrow> files f' = (files f)(q := files f p, p := None)"
    "p \<noteq> q \<Longrightarrow> sf_rename fs p q f = (Inl e, f') \<Longrightarrow> files f' = files f"
    using conjunct1 [OF conjunct2 [OF conjunct2 [OF conjunct2 [OF laws]]], rule_format, of p q f] by auto
  show "sf_unlink fs p f = (r, f') \<Longrightarrow> q \<noteq> p \<Longrightarrow> files f' q = files f q"
    using conjunct2 [OF conjunct2 [OF conjunct2 [OF conjunct2 [OF laws]]], rule_format, of f p] by (auto split: sum.splits)
qed

lemma utf8_encode_append: "utf8_encode (s @ t) = utf8_encode s @ utf8_encode t"
  by (induction s) (simp_all add: Let_def)

fun entries_text :: "(real \<Rightarrow> string) \<Rightarrow> bool \<Rightarrow> snapshot_entry list \<Rightarrow> string" where
  "entries_text ft any [] = []"
| "entries_text ft any (e # es) = (if any then '','' @ newline else newline) @ pretty ft 0 (entry_json e) @ entries_text ft True es"

definition snapshot_text :: "(real \<Rightarrow> string) \<Rightarrow> snapshot_entry list \<Rightarrow> string" where
  \<comment> \<open>the JSON array of the entries\<close>
  "snapshot_text ft es = ''['' @ entries_text ft False es @ (if es = [] then '']'' else newline @ '']'')"

lemma entries_text_append: "entries_text ft any (es @ es') = entries_text ft any es @ entries_text ft (any \<or> es \<noteq> []) es'"
  by (induction es arbitrary: any) auto

lemma write_text_spec:
  assumes "file_laws (sh_fs h) files" "write_text h tmp txt f = (r, f')"
  shows "q \<noteq> tmp \<Longrightarrow> files f' q = files f q"
    and "r = Inr u \<Longrightarrow> files f tmp = Some c \<Longrightarrow> files f' tmp = Some (c @ utf8_encode txt)"
  using file_lawsD(6,7) [OF assms(1)] assms(2) unfolding write_text_def by fastforce+

lemma write_snapshot_entry_spec:
  assumes "file_laws (sh_fs h) files" "write_snapshot_entry h tmp e (s, f, any) = (r, (s', f', any'))"
  shows "s' = s \<and> (\<forall>q. q \<noteq> tmp \<longrightarrow> files f' q = files f q) \<and>
    (\<forall>c. r = Inr () \<longrightarrow> files f tmp = Some c \<longrightarrow> any' \<and> files f' tmp = Some (c @ utf8_encode (entries_text (sh_fraction h) any [e])))"
proof -
  obtain r1 f1 where w1: "write_text h tmp (if any then '','' @ newline else newline) f = (r1, f1)" by fastforce
  note frame1 = write_text_spec(1) [OF assms(1) w1]
  show ?thesis
  proof (cases r1)
    case (Inl er)
    then show ?thesis using assms(2) w1 frame1 by (auto simp: write_snapshot_entry_def andthen_def)
  next
    case (Inr u)
    obtain r2 f2 where w2: "write_text h tmp (pretty (sh_fraction h) 0 (entry_json e)) f1 = (r2, f2)" by fastforce
    note frame2 = write_text_spec(1) [OF assms(1) w2]
    have res: "r = r2 \<and> s' = s \<and> f' = f2 \<and> (r2 = Inr () \<longrightarrow> any')"
      using assms(2) w1 w2 Inr by (auto simp: write_snapshot_entry_def andthen_def split: sum.splits)
    have "files f2 tmp = Some (c @ utf8_encode (entries_text (sh_fraction h) any [e]))" if "r2 = Inr ()" "files f tmp = Some c" for c
      using write_text_spec(2) [OF assms(1) w1 Inr that(2)] write_text_spec(2) [OF assms(1) w2 that(1)] by (simp add: utf8_encode_append)
    then show ?thesis using res frame1 frame2 by auto
  qed
qed

definition collect :: "snapshot_entry \<Rightarrow> 'l stack \<times> snapshot_entry list \<Rightarrow> unit result \<times> ('l stack \<times> snapshot_entry list)" where
  \<comment> \<open>the visitor of \<open>exportState\<close>\<close>
  "collect e w = (case w of (s, es) \<Rightarrow> (Inr (), (s, es @ [e])))"

definition wrote ::
    "(real \<Rightarrow> string) \<Rightarrow> ('f \<Rightarrow> path \<Rightarrow> string option) \<Rightarrow> path \<Rightarrow> (snapshot_entry list \<Rightarrow> 'a result \<times> ('l stack \<times> snapshot_entry list)) \<Rightarrow>
     'f \<times> bool \<Rightarrow> 'a result \<times> ('l stack \<times> ('f \<times> bool)) \<Rightarrow> bool" where
  \<comment> \<open>a writing run next to the collecting run: only the temporary file changes, and a success has written what is collected\<close>
  "wrote ft files tmp run fm out \<longleftrightarrow> (case out of (r, (s', f', any')) \<Rightarrow>
     (\<forall>q. q \<noteq> tmp \<longrightarrow> files f' q = files (fst fm) q) \<and>
     (\<forall>x c. r = Inr x \<longrightarrow> files (fst fm) tmp = Some c \<longrightarrow> (\<exists>es. (\<forall>acc. run acc = (Inr x, (s', acc @ es))) \<and>
        (any' \<longleftrightarrow> snd fm \<or> es \<noteq> []) \<and> files f' tmp = Some (c @ utf8_encode (entries_text ft (snd fm) es)))))"

lemma wrote_error: "(\<And>q. q \<noteq> tmp \<Longrightarrow> files f' q = files (fst fm) q) \<Longrightarrow> wrote ft files tmp run fm (Inl e, (s', f', any'))"
  by (simp add: wrote_def)

lemma wrote_done: "(\<And>acc. run acc = (Inr x, (s, acc))) \<Longrightarrow> wrote ft files tmp run fm (Inr x, (s, fm))"
  by (cases fm) (auto simp: wrote_def intro!: exI [of _ "[]"])

lemma wrote_then:
  \<comment> \<open>one run after another\<close>
  assumes "wrote ft files tmp run1 fm (Inr y, (s1, fm1))" "wrote ft files tmp run2 fm1 out"
    and "\<And>acc es. run1 acc = (Inr y, (s1, acc @ es)) \<Longrightarrow> run acc = run2 (acc @ es)"
  shows "wrote ft files tmp run fm out"
proof -
  obtain r s' f' any' where out: "out = (r, (s', f', any'))" by (cases out) auto
  have "files f' q = files (fst fm) q" if "q \<noteq> tmp" for q
    using assms(1,2) that by (cases fm1) (simp add: wrote_def out)
  moreover have "\<exists>es. (\<forall>acc. run acc = (Inr x, (s', acc @ es))) \<and> (any' \<longleftrightarrow> snd fm \<or> es \<noteq> []) \<and>
      files f' tmp = Some (c @ utf8_encode (entries_text ft (snd fm) es))" if r: "r = Inr x" "files (fst fm) tmp = Some c" for x c
  proof -
    obtain es1 where es1: "\<forall>acc. run1 acc = (Inr y, (s1, acc @ es1))" "snd fm1 \<longleftrightarrow> snd fm \<or> es1 \<noteq> []"
      "files (fst fm1) tmp = Some (c @ utf8_encode (entries_text ft (snd fm) es1))"
      using assms(1) r(2) by (cases fm1) (auto simp: wrote_def)
    then obtain es2 where es2: "\<forall>acc. run2 acc = (Inr x, (s', acc @ es2))" "any' \<longleftrightarrow> snd fm1 \<or> es2 \<noteq> []"
      "files f' tmp = Some ((c @ utf8_encode (entries_text ft (snd fm) es1)) @ utf8_encode (entries_text ft (snd fm1) es2))"
      using assms(2) r(1) by (auto simp: wrote_def out)
    have "run acc = (Inr x, (s', acc @ (es1 @ es2)))" for acc
      using assms(3) [of acc es1] es1(1) es2(1) by simp
    then show ?thesis using es1(2) es2(2,3) by (intro exI [of _ "es1 @ es2"]) (auto simp: entries_text_append utf8_encode_append)
  qed
  ultimately show ?thesis by (simp add: wrote_def out)
qed

lemma wrote_visit:
  assumes "file_laws (sh_fs h) files" "write_snapshot_entry h tmp e (s, fm) = (r, (s', fm'))"
  shows "wrote (sh_fraction h) files tmp (\<lambda>acc. collect e (s, acc)) fm (r, (s', fm'))"
proof -
  obtain f any f' any' where fm: "fm = (f, any)" "fm' = (f', any')" by (cases fm, cases fm')
  note spec = write_snapshot_entry_spec [OF assms(1) assms(2) [unfolded fm]]
  show ?thesis
    unfolding wrote_def fm using spec by (auto simp: collect_def intro!: exI [of _ "[e]"])
qed

lemma export_keys_wrote:
  assumes laws: "file_laws (sh_fs h) files"
  shows "wrote (sh_fraction h) files tmp (\<lambda>acc. export_keys cf m collect i exported keys (s, acc)) fm
    (export_keys cf m (write_snapshot_entry h tmp) i exported keys (s, fm))"
proof (induction keys arbitrary: s fm exported)
  case Nil
  show ?case by (simp add: wrote_done)
next
  case (Cons key keys)
  let ?k = "stripGenerationPrefix key (sk_generation s)"
  obtain r s1 where read: "readLayerEntry cf i key s = (r, s1)" by fastforce
  show ?case
  proof (cases "?k \<in> set exported")
    case True
    then show ?thesis using Cons by simp
  next
    case new: False
    show ?thesis
    proof (cases r)
      case (Inl e)
      then show ?thesis using new read by (cases fm) (simp add: wrote_error)
    next
      case (Inr stored)
      let ?e = "\<lparr>se_key = ?k, se_value = stored, se_ttl = remainingStoredTtlMs (sk_now s1) stored (sk_now s1)\<rparr>"
      consider "stored = JNull" | "stored \<noteq> JNull" "over_limit m (length (exported @ [?k]))" | "stored \<noteq> JNull" "\<not> over_limit m (length (exported @ [?k]))"
        by blast
      then show ?thesis
      proof cases
        case 1
        then show ?thesis using Cons [of exported s1 fm] new read Inr by simp
      next
        case 2
        then show ?thesis using new read Inr by (cases fm) (simp add: wrote_error)
      next
        case 3
        obtain rv s2 fm2 where visit: "write_snapshot_entry h tmp ?e (s1, fm) = (rv, (s2, fm2))" by (metis prod.exhaust)
        note here = wrote_visit [OF laws visit]
        show ?thesis
        proof (cases rv)
          case (Inl er)
          have "files (fst fm2) q = files (fst fm) q" if "q \<noteq> tmp" for q
            using here that by (cases fm2) (simp add: wrote_def)
          then show ?thesis using Inl 3 new read Inr visit by (cases fm2) (auto simp: wrote_error)
        next
          case (Inr u)
          have "wrote (sh_fraction h) files tmp (\<lambda>acc. export_keys cf m collect i exported (key # keys) (s, acc)) fm
              (export_keys cf m (write_snapshot_entry h tmp) i (exported @ [?k]) keys (s2, fm2))"
            by (rule wrote_then [OF here [unfolded Inr] Cons]) (use 3 new read \<open>r = Inr stored\<close> in \<open>simp add: Let_def\<close>)
          then show ?thesis using Inr 3 new read \<open>r = Inr stored\<close> visit by (simp add: Let_def)
        qed
      qed
    qed
  qed
qed

lemma visit_wrote:
  assumes laws: "file_laws (sh_fs h) files"
  shows "wrote (sh_fraction h) files tmp (\<lambda>acc. visitExportEntries cf m collect is exported (s, acc)) fm
    (visitExportEntries cf m (write_snapshot_entry h tmp) is exported (s, fm))"
proof (induction "is" arbitrary: s fm exported)
  case Nil
  show ?case by (simp add: wrote_done)
next
  case (Cons i "is")
  show ?case
  proof (cases "la_keys (ly_api (the_layer i s))")
    case None
    then show ?thesis using Cons by simp
  next
    case (Some keysOf)
    obtain r s1 where keys: "call_layer i (\<lambda>api t. keysOf t) s = (r, s1)" by fastforce
    show ?thesis
    proof (cases r)
      case (Inl e)
      obtain re s2 fm2 where export: "export_keys cf m (write_snapshot_entry h tmp) i exported (visited_keys i s) (s1, fm) = (re, (s2, fm2))"
        by (metis prod.exhaust)
      note here = export_keys_wrote [OF laws, of tmp cf m i exported "visited_keys i s" s1 fm, unfolded export]
      have "files (fst fm2) q = files (fst fm) q" if "q \<noteq> tmp" for q
        using here that by (cases fm2) (simp add: wrote_def)
      then show ?thesis using Inl Some keys export by (cases fm2; cases re) (auto simp: wrote_error)
    next
      case (Inr ks)
      obtain re s2 fm2 where export: "export_keys cf m (write_snapshot_entry h tmp) i exported ks (s1, fm) = (re, (s2, fm2))" by (metis prod.exhaust)
      note here = export_keys_wrote [OF laws, of tmp cf m i exported ks s1 fm, unfolded export]
      show ?thesis
      proof (cases re)
        case (Inl er)
        have "files (fst fm2) q = files (fst fm) q" if "q \<noteq> tmp" for q
          using here that by (cases fm2) (simp add: wrote_def)
        then show ?thesis using Inl Some keys \<open>r = Inr ks\<close> export by (cases fm2) (auto simp: wrote_error)
      next
        case (Inr exported')
        have "wrote (sh_fraction h) files tmp (\<lambda>acc. visitExportEntries cf m collect (i # is) exported (s, acc)) fm
            (visitExportEntries cf m (write_snapshot_entry h tmp) is exported' (s2, fm2))"
          by (rule wrote_then [OF here [unfolded Inr] Cons]) (use Some keys \<open>r = Inr ks\<close> in simp)
        then show ?thesis using Inr Some keys \<open>r = Inr ks\<close> export by simp
      qed
    qed
  qed
qed

definition exported_entries :: "'l stack_config \<Rightarrow> match_limit \<Rightarrow> 'l stack \<Rightarrow> unit result \<times> ('l stack \<times> snapshot_entry list)" where
  \<comment> \<open>what \<open>exportState\<close> collects\<close>
  "exported_entries cf m s = visitExportEntries cf m collect (all_layers s) [] (s, [])"

lemma write_snapshot_spec:
  assumes "file_laws (sh_fs h) files" "write_snapshot h cf m tmp (s, f) = (r, (s', f'))"
  shows "q \<noteq> tmp \<Longrightarrow> files f' q = files f q"
    and "r = Inr () \<Longrightarrow> files f tmp = Some [] \<Longrightarrow> \<exists>es. exported_entries cf m s = (Inr (), (s', es)) \<and>
      files f' tmp = Some (utf8_encode (snapshot_text (sh_fraction h) es))"
proof -
  obtain r1 f1 where w1: "write_text h tmp ''['' f = (r1, f1)" by fastforce
  note frame1 = write_text_spec(1) [OF assms(1) w1]
  have "(q \<noteq> tmp \<longrightarrow> files f' q = files f q) \<and> (r = Inr () \<longrightarrow> files f tmp = Some [] \<longrightarrow>
      (\<exists>es. exported_entries cf m s = (Inr (), (s', es)) \<and> files f' tmp = Some (utf8_encode (snapshot_text (sh_fraction h) es))))"
  proof (cases r1)
    case (Inl e)
    then show ?thesis using assms(2) w1 frame1 by (auto simp: write_snapshot_def andthen_def on_files_def)
  next
    case (Inr u)
    obtain r2 s2 f2 any where run: "visitExportEntries cf m (write_snapshot_entry h tmp) (all_layers s) [] (s, (f1, False)) = (r2, (s2, (f2, any)))"
      by (metis prod.exhaust)
    note w2 = visit_wrote [OF assms(1), of tmp cf m "all_layers s" "[]" s "(f1, False)", unfolded run]
    then have frame2: "q \<noteq> tmp \<Longrightarrow> files f2 q = files f1 q" for q by (simp add: wrote_def)
    show ?thesis
    proof (cases r2)
      case (Inl e)
      then show ?thesis using assms(2) w1 \<open>r1 = Inr u\<close> run frame1 frame2
        by (auto simp: write_snapshot_def write_snapshot_entries_def andthen_def on_files_def)
    next
      case (Inr v)
      obtain r3 f3 where w3: "write_text h tmp (if any then newline @ '']'' else '']'') f2 = (r3, f3)" by fastforce
      note frame3 = write_text_spec(1) [OF assms(1) w3]
      have res: "r = r3 \<and> s' = s2 \<and> f' = f3"
        using assms(2) w1 \<open>r1 = Inr u\<close> run Inr w3 by (simp add: write_snapshot_def write_snapshot_entries_def andthen_def on_files_def)
      have "\<exists>es. exported_entries cf m s = (Inr (), (s2, es)) \<and> files f3 tmp = Some (utf8_encode (snapshot_text (sh_fraction h) es))"
        if r3: "r3 = Inr ()" and start: "files f tmp = Some []"
      proof -
        have "files f1 tmp = Some (utf8_encode ''['')"
          using write_text_spec(2) [OF assms(1) w1 \<open>r1 = Inr u\<close> start] by simp
        then obtain es where es: "\<forall>acc. visitExportEntries cf m collect (all_layers s) [] (s, acc) = (Inr (), (s2, acc @ es))"
          "any \<longleftrightarrow> es \<noteq> []" "files f2 tmp = Some (utf8_encode ''['' @ utf8_encode (entries_text (sh_fraction h) False es))"
          using w2 Inr by (auto simp: wrote_def)
        have "files f3 tmp = Some (utf8_encode (snapshot_text (sh_fraction h) es))"
          using write_text_spec(2) [OF assms(1) w3 r3 es(3)] es(2) by (simp add: snapshot_text_def utf8_encode_append [symmetric])
        then show ?thesis using es(1) by (auto simp: exported_entries_def)
      qed
      then show ?thesis using res frame1 frame2 frame3 by auto
    qed
  qed
  then show "q \<noteq> tmp \<Longrightarrow> files f' q = files f q" "r = Inr () \<Longrightarrow> files f tmp = Some [] \<Longrightarrow> \<exists>es. exported_entries cf m s = (Inr (), (s', es)) \<and>
      files f' tmp = Some (utf8_encode (snapshot_text (sh_fraction h) es))" by blast+
qed

definition keeps_files :: "('f \<Rightarrow> path \<Rightarrow> string option) \<Rightarrow> ('f, 'a) action \<Rightarrow> bool" where
  "keeps_files files m \<longleftrightarrow> (\<forall>f. files (snd (m f)) = files f)"

lemma keeps_files_andthen: "keeps_files files m \<Longrightarrow> (\<And>x. keeps_files files (k x)) \<Longrightarrow> keeps_files files (andthen m k)"
  unfolding keeps_files_def andthen_def by (auto split: prod.splits sum.splits) (metis snd_conv)+

lemma keeps_files_simple [simp]: "keeps_files files (ret x)" "keeps_files files (throw_error e)" "keeps_files files (outside rb)"
  by (simp_all add: keeps_files_def ret_def throw_error_def outside_def)

lemma keeps_files_calls:
  assumes "file_laws fs files"
  shows "keeps_files files (sf_realpath fs p)" "keeps_files files (sf_lstat fs p)" "keeps_files files (sf_close fs p)"
  using file_lawsD(1-3) [OF assms] by (simp_all add: keeps_files_def)

lemma keeps_files_assert: "file_laws fs files \<Longrightarrow> keeps_files files (assertCommitParentInsideSnapshotBase fs cwd target b)"
  unfolding assertCommitParentInsideSnapshotBase_def within_base_def
  by (cases "base_path cwd b") (auto intro!: keeps_files_andthen keeps_files_calls)

lemma commit_spec:
  assumes "file_laws fs files" "tmp \<noteq> target" "commitAtomicWrite fs cwd tmp target b f = (r, f')"
  shows "r = Inr () \<Longrightarrow> files f' = (files f)(target := files f tmp, tmp := None)"
    and "r = Inl e \<Longrightarrow> q \<noteq> tmp \<Longrightarrow> files f' q = files f q"
proof -
  let ?check = "andthen (sf_lstat fs (path_dirname target)) (\<lambda>isLink.
      if isLink then throw_error (OtherError ''Snapshot target parent must not be a symbolic link.'')
      else case b of None \<Rightarrow> ret () | Some b \<Rightarrow> assertCommitParentInsideSnapshotBase fs cwd target b)"
  have same: "keeps_files files ?check"
    by (intro keeps_files_andthen keeps_files_calls [OF assms(1)]) (auto intro: keeps_files_assert [OF assms(1)] split: option.split)
  obtain r1 f1 where check: "?check f = (r1, f1)" by fastforce
  have files1: "files f1 = files f" using same check unfolding keeps_files_def by (metis snd_conv)
  have commit: "commitAtomicWrite fs cwd tmp target b = catching (andthen ?check (\<lambda>_. sf_rename fs tmp target)) (\<lambda>e s. (Inl e, snd (sf_unlink fs tmp s)))"
    unfolding commitAtomicWrite_def
    by (intro arg_cong2 [of _ _ _ _ catching] ext) (auto simp: andthen_def throw_error_def fun_eq_iff split: prod.split sum.split)
  obtain r2 f2 where inner: "andthen ?check (\<lambda>_. sf_rename fs tmp target) f = (r2, f2)" by fastforce
  have inner_files: "(r2 = Inr () \<longrightarrow> files f2 = (files f)(target := files f tmp, tmp := None)) \<and> (\<forall>e. r2 = Inl e \<longrightarrow> files f2 = files f)"
  proof (cases r1)
    case (Inl e)
    then show ?thesis using inner check files1 by (auto simp: andthen_def)
  next
    case (Inr u)
    then have rename: "sf_rename fs tmp target f1 = (r2, f2)" using inner check by (simp add: andthen_def)
    show ?thesis
      using file_lawsD(8) [OF assms(1,2)] file_lawsD(9) [OF assms(1,2)] rename files1 by (cases r2) auto
  qed
  show "r = Inr () \<Longrightarrow> files f' = (files f)(target := files f tmp, tmp := None)"
    using assms(3) inner inner_files unfolding commit by (auto simp: catching_def split: sum.splits)
  show "r = Inl e \<Longrightarrow> q \<noteq> tmp \<Longrightarrow> files f' q = files f q"
  proof -
    assume fails: "r = Inl e" "q \<noteq> tmp"
    obtain u f3 where unlink: "sf_unlink fs tmp f2 = (u, f3)" by fastforce
    then have "f' = f3" "isl r2" using assms(3) inner fails(1) unfolding commit by (auto simp: catching_def split: sum.splits)
    then show "files f' q = files f q" using file_lawsD(10) [OF assms(1) unlink fails(2)] inner_files by (cases r2) auto
  qed
qed

lemma temp_differs: "atomicWriteTempPath random target \<noteq> target"
proof
  assume a: "atomicWriteTempPath random target = target"
  then have "target \<noteq> []" by (auto simp: atomicWriteTempPath_def)
  moreover have "last (atomicWriteTempPath random target) = last target" unfolding a ..
  ultimately show False by (simp add: atomicWriteTempPath_def)
qed

lemma discard_spec: "file_laws (sh_fs h) files \<Longrightarrow> q \<noteq> tmp \<Longrightarrow> files (discard_temp h tmp f) q = files f q"
  unfolding discard_temp_def using file_lawsD(10) [of "sh_fs h" files tmp f] by (metis prod.collapse)

lemma persist_to_spec:
  assumes "file_laws (sh_fs h) files" "persist_to h cf m base target (s, f) = (r, (s', f'))"
  shows "case r of
      Inl _ \<Rightarrow> \<forall>q. q \<noteq> atomicWriteTempPath (sh_random h) target \<longrightarrow> files f' q = files f q
    | Inr _ \<Rightarrow> \<exists>es. exported_entries cf m s = (Inr (), (s', es)) \<and>
        files f' = (files f)(target \<mapsto> utf8_encode (snapshot_text (sh_fraction h) es), atomicWriteTempPath (sh_random h) target := None)"
proof -
  let ?tmp = "atomicWriteTempPath (sh_random h) target" and ?fs = "sh_fs h"
  note laws = assms(1)
  obtain r1 f1 where create: "sf_create ?fs ?tmp f = (r1, f1)" by fastforce
  show ?thesis
  proof (cases r1)
    case (Inl e)
    then have "files f1 = files f" using file_lawsD(5) [OF laws] create by blast
    then show ?thesis using assms(2) create Inl discard_spec [OF laws] by (auto simp: persist_to_def on_files_def Let_def)
  next
    case (Inr u)
    have files1: "files f1 = (files f)(?tmp \<mapsto> [])" using file_lawsD(4) [OF laws] create Inr by blast
    obtain r2 s2 f2 where w: "write_snapshot h cf m ?tmp (s, f1) = (r2, (s2, f2))" by (metis prod.exhaust)
    note written = write_snapshot_spec [OF laws w]
    obtain rc f3 where close: "sf_close ?fs ?tmp f2 = (rc, f3)" by fastforce
    have files3: "files f3 = files f2" using file_lawsD(3) [OF laws, of ?tmp f2] close by simp
    have closed: "files (snd (sf_close ?fs ?tmp f4)) = files f4" for f4 by (rule file_lawsD(3) [OF laws])
    show ?thesis
    proof (cases "r2 = Inr () \<and> rc = Inr ()")
      case False
      have "\<exists>e f4. files f4 = files f2 \<and> r = Inl e \<and> f' = discard_temp h ?tmp f4"
      proof (cases r2)
        case (Inl e)
        then have "r = Inl e \<and> f' = discard_temp h ?tmp f3"
          using assms(2) create Inr w close by (simp add: persist_to_def on_files_def andthen_def Let_def)
        then show ?thesis using files3 by blast
      next
        case (Inr v)
        then obtain e where "rc = Inl e" using False by (cases rc) auto
        then have "r = Inl e \<and> f' = discard_temp h ?tmp (snd (sf_close ?fs ?tmp f3))"
          using assms(2) create \<open>r1 = Inr u\<close> w close Inr by (simp add: persist_to_def on_files_def andthen_def Let_def)
        then show ?thesis using files3 closed by metis
      qed
      then show ?thesis using discard_spec [OF laws] written(1) files1 by auto
    next
      case True
      obtain es where es: "exported_entries cf m s = (Inr (), (s2, es))" "files f2 ?tmp = Some (utf8_encode (snapshot_text (sh_fraction h) es))"
        using written(2) True files1 by auto
      obtain r4 f4 where commit: "commitAtomicWrite ?fs (sh_cwd h) ?tmp target (Some base) f3 = (r4, f4)" by fastforce
      note committed = commit_spec [OF laws temp_differs commit]
      have out: "s' = s2 \<and> r = r4 \<and> f' = (if r4 = Inr () then f4 else discard_temp h ?tmp f4)"
        using assms(2) create Inr w close True commit
        by (cases r4) (auto simp: persist_to_def on_files_def andthen_def Let_def)
      show ?thesis
      proof (cases r4)
        case (Inl e)
        then show ?thesis using out committed(2) [OF Inl] discard_spec [OF laws] files3 written(1) files1 by auto
      next
        case (Inr v)
        then have "files f' = (files f2)(target := files f2 ?tmp, ?tmp := None)" using out committed(1) files3 by simp
        moreover have "files f2 q = files f q" if "q \<noteq> ?tmp" for q using written(1) [OF that] files1 that by simp
        ultimately have "files f' = (files f)(target \<mapsto> utf8_encode (snapshot_text (sh_fraction h) es), ?tmp := None)"
          using es(2) temp_differs [of "sh_random h" target] by (intro ext) auto
        then show ?thesis using out es(1) Inr by auto
      qed
    qed
  qed
qed

text \<open>
  C36: a snapshot is written whole or not at all. However the file system fails, \<open>persistToFile\<close> leaves every file but
  its temporary one as it was, or replaces exactly the target by the JSON array of all entries \<open>exportState\<close> would return.
\<close>

theorem snapshot_write_atomic:
  assumes "file_laws (sh_fs h) files" "persist_to h cf m base target (s, f) = (r, (s', f'))"
  shows "case r of
      Inl _ \<Rightarrow> \<forall>q. q \<noteq> atomicWriteTempPath (sh_random h) target \<longrightarrow> files f' q = files f q
    | Inr _ \<Rightarrow> \<exists>es. exported_entries cf m s = (Inr (), (s', es)) \<and>
        files f' = (files f)(target \<mapsto> utf8_encode (snapshot_text (sh_fraction h) es), atomicWriteTempPath (sh_random h) target := None)"
  by (rule persist_to_spec [OF assms])

subsection \<open>A file system in memory\<close>

definition memory_fs :: "(path \<Rightarrow> string option) snapshot_fs" where
  "memory_fs = \<lparr>sf_realpath = \<lambda>p f. (Inr p, f), sf_lstat = \<lambda>p f. (Inr False, f), sf_mkdir = \<lambda>p f. (Inr (), f),
     sf_rename = \<lambda>p q f. (case f p of None \<Rightarrow> (Inl (BackendError ''ENOENT''), f) | Some c \<Rightarrow> (Inr (), f(q \<mapsto> c, p := None))),
     sf_unlink = \<lambda>p f. (Inr (), f(p := None)),
     sf_create = \<lambda>p f. (case f p of None \<Rightarrow> (Inr (), f(p \<mapsto> [])) | Some _ \<Rightarrow> (Inl (BackendError ''EEXIST''), f)),
     sf_append = \<lambda>p b f. (Inr (), f(p := map_option (\<lambda>c. c @ b) (f p))), sf_close = \<lambda>p f. (Inr (), f),
     sf_open = \<lambda>p f. (Inr (), f), sf_size = \<lambda>p f. (Inr (length (the (f p))), f),
     sf_read = \<lambda>p n pos f. (Inr (take n (drop pos (the (f p)))), f), sf_readFile = \<lambda>p f. (Inr (the (f p)), f)\<rparr>"

lemma memory_fs_laws: "file_laws memory_fs (\<lambda>f. f)"
  unfolding file_laws_def memory_fs_def by (auto split: option.split)

definition slow_fs :: "(path \<Rightarrow> string option) snapshot_fs" where
  \<comment> \<open>one byte of a fixed file at a time\<close>
  "slow_fs = memory_fs\<lparr>sf_read := \<lambda>p n pos f. (Inr (take (min n 1) (drop pos ''[12]'')), f)\<rparr>"

lemma slow_fs_reads: "reads_content slow_fs (\<lambda>_. True) p ''[12]''"
  unfolding reads_content_def slow_fs_def by (auto intro!: exI [of _ "min _ 1"])

definition demo_host :: "(path \<Rightarrow> string option) snapshot_host" where
  "demo_host = \<lparr>sh_fs = memory_fs, sh_cwd = [''b''], sh_random = ''7f'', sh_fraction = (\<lambda>_. ''0''), sh_serializer = json_serializer (\<lambda>_. ''0'') (json_serializer_options None None None)\<rparr>"

theorem snapshot_path_confined_witness:
  "\<exists>f'. validateSnapshotFilePath memory_fs [''w''] ''x/../../b/s'' WriteMode (BaseDir ''/b'') (\<lambda>_. None) = (Inr [''b'', ''s''], f') \<and>
     prefix [''b''] [''b'', ''s'']"
proof -
  have "validateSnapshotFilePath memory_fs [''w''] ''x/../../b/s'' WriteMode (BaseDir ''/b'') (\<lambda>_. None) = (Inr [''b'', ''s''], \<lambda>_. None)"
    by (simp add: validateSnapshotFilePath_def path_resolve_def add_segment_def memory_fs_def andthen_def within_base_def mapUnderRealBase_def
        isWithinSnapshotBase_def checked_write_path_def findExistingAncestor.simps path_dirname_def path_basename_def refuse_symlink_def ret_def Let_def)
  then show ?thesis
    using snapshot_path_confined [of "[''w'']" "BaseDir ''/b''" "[''b'']" memory_fs "\<lambda>_. None" "[''b'']" "\<lambda>_. None" "''x/../../b/s''" WriteMode "[''b'', ''s'']" "\<lambda>_. None"]
    by (simp add: path_resolve_def add_segment_def memory_fs_def)
qed

theorem limited_read_complete_witness:
  "fst (readUtf8HandleWithLimit slow_fs [''f''] (Some 4) (\<lambda>_. None)) = Inr ''[12]'' \<and>
   fst (readUtf8HandleWithLimit slow_fs [''f''] (Some 3) (\<lambda>_. None)) = Inl (too_large 3)"
  by (simp add: limited_read_complete [OF slow_fs_reads])

lemma demo_exports_nothing:
  "visitExportEntries (demo_config :: memory_layer stack_config) NoLimit v (all_layers demo_stack) [] (demo_stack, w) = (Inr (), (demo_stack, w))"
proof -
  have keys: "ml_keys 1000 (new_memory_layer n t m p) = ([], new_memory_layer n t m p)" for n t m p
    by (simp add: ml_keys_def new_memory_layer_def ml_pruneExpired_def)
  have "call_layer i (\<lambda>api t. pure_action (ml_keys t)) demo_stack = (Inr [], demo_stack)" if "i < 2" for i
  proof -
    have "ml_keys 1000 (ly_state (demo_layers ! i)) = ([], ly_state (demo_layers ! i))"
      using that by (auto simp: demo_layers_def memory_layer_of_def keys less_2_cases_iff)
    then show ?thesis by (simp add: call_layer_def pure_action_def the_layer_def)
  qed
  then show ?thesis
    by (simp add: all_layers_def demo_layers_def numeral_2_eq_2 upt_rec the_layer_def memory_layer_of_def memory_api_def)
qed

lemma demo_persists:
  "persist_to demo_host (demo_config :: memory_layer stack_config) NoLimit DefaultBase [''b'', ''s''] (demo_stack, [[''b'', ''s''] \<mapsto> ''old''])
       = (Inr (), (demo_stack, [[''b'', ''s''] \<mapsto> ''[]'']))"
  by (auto simp: persist_to_def demo_host_def on_files_def memory_fs_def atomicWriteTempPath_def write_snapshot_def andthen_def write_text_def
      write_snapshot_entries_def demo_exports_nothing commitAtomicWrite_def catching_def assertCommitParentInsideSnapshotBase_def within_base_def isWithinSnapshotBase_def
      path_dirname_def ret_def Let_def fun_eq_iff)

theorem snapshot_write_atomic_witness:
  "\<exists>es. exported_entries (demo_config :: memory_layer stack_config) NoLimit demo_stack = (Inr (), (demo_stack, es)) \<and>
     [[''b'', ''s''] \<mapsto> ''[]''] = [[''b'', ''s''] \<mapsto> ''old''] ([''b'', ''s''] \<mapsto> utf8_encode (snapshot_text (\<lambda>_. ''0'') es), [''b'', ''s.tmp-7f''] := None)"
  using snapshot_write_atomic [OF _ demo_persists, of "\<lambda>f. f"] by (simp add: demo_host_def memory_fs_laws atomicWriteTempPath_def)

end
