(* ===== verification/SnapshotRoundTrip.thy ===== *)
theory SnapshotRoundTrip
  imports SnapshotProps Serializers
begin

text \<open>
  Restoring what was persisted: the indented JSON text is a text of its value, so the file \<open>persistToFile\<close> writes is read
  by \<open>restoreFromFile\<close> as the entries it was made of.
\<close>

subsection \<open>Indented text\<close>

definition padding :: "nat \<Rightarrow> string" where
  "padding n = newline @ replicate n CHR '' ''"

lemma space_padding [simp]: "space (padding n)"
  by (simp add: padding_def newline_def json_ws_def list_all_iff)

lemma space_nil [simp]: "space []"
  by simp

lemma indented_parts:
  "indented left right n (p # ps) =
    left # padding (n + 2) @ p @ concat (map (\<lambda>q. '','' @ padding (n + 2) @ q) ps) @ padding n @ [right]"
proof -
  let ?g = "\<lambda>i. (if i = 0 then [] else '','') @ newline @ replicate (n + 2) CHR '' '' @ (p # ps) ! i"
  have "map ?g [0..<length (p # ps)] = ?g 0 # map (\<lambda>q. '','' @ padding (n + 2) @ q) (map (\<lambda>i. ps ! i) [0..<length ps])"
    by (simp only: length_Cons upt_conv_Cons [OF zero_less_Suc] map_Suc_upt [symmetric] list.map map_map) (simp add: padding_def comp_def)
  then show ?thesis unfolding indented_def map_nth by (simp only: concat.simps) (simp add: padding_def)
qed

lemma elements_of_parts:
  "list_all2 json_text (x # xs) (p # ps) \<Longrightarrow> space a \<Longrightarrow> space b \<Longrightarrow>
    elements_text (x # xs) (a @ p @ concat (map (\<lambda>q. '','' @ a @ q) ps) @ b @ '']'')"
proof (induction xs arbitrary: x p ps)
  case Nil
  then show ?case using last_element by simp
next
  case (Cons y ys)
  then obtain q qs where q: "ps = q # qs" by (cases ps) simp_all
  have "elements_text (y # ys) (a @ q @ concat (map (\<lambda>q. '','' @ a @ q) qs) @ b @ '']'')"
    by (rule Cons.IH) (use Cons.prems q in simp_all)
  then show ?case using more_elements [of a x p "[]"] Cons.prems q by simp
qed

lemma members_of_parts:
  "list_all2 (\<lambda>(k, v) q. \<exists>t. q = json_string k @ '': '' @ t \<and> json_text v t) (m # ms) (p # ps) \<Longrightarrow> space a \<Longrightarrow> space b \<Longrightarrow>
    members_text (m # ms) (a @ p @ concat (map (\<lambda>q. '','' @ a @ q) ps) @ b @ ''}'')"
proof (induction ms arbitrary: m p ps)
  case Nil
  obtain k v where m: "m = (k, v)" by fastforce
  then obtain t where "p = json_string k @ '': '' @ t" "json_text v t" using Nil by auto
  then show ?case using last_member [of a "[]" "'' ''" v t b k] Nil m by (simp add: json_ws_def)
next
  case (Cons m' ms)
  then obtain q qs where q: "ps = q # qs" by (cases ps) simp_all
  obtain k v where m: "m = (k, v)" by fastforce
  then obtain t where t: "p = json_string k @ '': '' @ t" "json_text v t" using Cons by auto
  have "members_text (m' # ms) (a @ q @ concat (map (\<lambda>q. '','' @ a @ q) qs) @ b @ ''}'')"
    by (rule Cons.IH) (use Cons.prems q in simp_all)
  then show ?case using more_members [of a "[]" "'' ''" v t "[]"] Cons.prems q m t by (simp add: json_ws_def)
qed

lemma pretty_is_text: "whole_js v \<Longrightarrow> wf_js v \<Longrightarrow> json_text v (pretty ft n v)"
proof (induction v arbitrary: n)
  case (JArr xs)
  have parts: "list_all2 json_text xs (pretty_elements ft m xs)" for m
    using JArr by (induction xs) auto
  show ?case
  proof (cases xs)
    case Nil
    then show ?thesis using text_no_elements [of "[]"] by (simp add: indented_def)
  next
    case (Cons y ys)
    then show ?thesis
      using elements_of_parts [OF _ space_padding space_padding, of y ys "pretty ft (n + 2) y" "pretty_elements ft (n + 2) ys" "n + 2" n] parts [of "n + 2"]
      by (simp add: indented_parts text_elements)
  qed
next
  case (JObj ps)
  have parts: "list_all2 (\<lambda>(k, v) q. \<exists>t. q = json_string k @ '': '' @ t \<and> json_text v t) qs (pretty_members ft m qs)" if "set qs \<subseteq> set ps" for qs m
    using that
  proof (induction qs)
    case (Cons q qs)
    obtain k v where q: "q = (k, v)" by fastforce
    then have "(k, v) \<in> set ps" using Cons.prems by simp
    then have "whole_js v" "json_text v (pretty ft m v)" using JObj by (force simp: list_all_iff)+
    then show ?case using Cons q by auto
  qed simp
  have built: "built_object ps = JObj ps" using JObj(3) by (intro built_object_same) simp_all
  show ?case
  proof (cases ps)
    case Nil
    then show ?thesis using text_no_members [of "[]"] by (simp add: indented_def)
  next
    case (Cons q qs)
    then obtain r rs where r: "pretty_members ft (n + 2) ps = r # rs" using parts [of ps "n + 2"] by (auto simp: list_all2_Cons1)
    then show ?thesis
      using members_of_parts [OF _ space_padding space_padding, of q qs r rs "n + 2" n] parts [of ps "n + 2"] Cons built text_members [of ps]
      by (simp add: indented_parts)
  qed
next
  case (JNum m)
  then show ?case using json_is_text [of "JNum m" ft] by simp
next
  case (JBool b)
  show ?case using json_is_text [of "JBool b" ft] by simp
next
  case (JStr t)
  show ?case using json_is_text [of "JStr t" ft] by simp
qed (auto intro: text_null)

subsection \<open>The file\<close>

definition entry_members :: "snapshot_entry \<Rightarrow> (string \<times> js) list" where
  \<comment> \<open>the members written for an entry\<close>
  "entry_members e = [(''key'', JStr (se_key e)), (''value'', se_value e)] @ (case se_ttl e of None \<Rightarrow> [] | Some t \<Rightarrow> [(''ttl'', JNum (Fin t))])"

definition restorable :: "snapshot_entry \<Rightarrow> bool" where
  \<comment> \<open>a value of whole numbers, well-formed objects and safe keys, of at most 64 levels and 10 000 nodes\<close>
  "restorable e \<longleftrightarrow> whole_js (se_value e) \<and> wf_js (se_value e) \<and> safe (se_value e) \<and> nodes (se_value e) \<le> 10000 \<and> height (se_value e) \<le> 64 \<and>
     (case se_ttl e of None \<Rightarrow> True | Some t \<Rightarrow> is_whole t \<and> 0 \<le> t)"

lemma entry_members_order: "distinct (map fst (entry_members e)) \<and> enumeration_order (entry_members e) = entry_members e"
  by (cases "se_ttl e") (simp_all add: entry_members_def enumeration_order_def is_array_index_def is_digit_def)

lemma entry_json_text:
  assumes "restorable e"
  shows "json_text (JObj (entry_members e)) (pretty ft 0 (entry_json e))"
proof -
  have "se_value e \<noteq> JUndef" using assms by (auto simp: restorable_def)
  then have "pretty ft 0 (entry_json e) = pretty ft 0 (JObj (entry_members e))"
    by (cases "se_ttl e") (simp_all add: entry_json_def entry_members_def)
  moreover have "whole_js (JObj (entry_members e))" "wf_js (JObj (entry_members e))"
    using assms entry_members_order [of e] by (auto simp: restorable_def entry_members_def split: option.splits)
  ultimately show ?thesis using pretty_is_text by metis
qed

lemma entries_text_later: "entries_text ft True es = concat (map (\<lambda>q. '','' @ newline @ q) (map (\<lambda>e. pretty ft 0 (entry_json e)) es))"
  by (induction es) simp_all

lemma snapshot_text_parses:
  assumes "\<forall>e \<in> set es. restorable e"
  shows "json_parse (snapshot_text ft es) = Some (JArr (map (\<lambda>e. JObj (entry_members e)) es))"
proof -
  let ?vs = "\<lambda>es. map (\<lambda>e. JObj (entry_members e)) es" and ?ts = "\<lambda>es. map (\<lambda>e. pretty ft 0 (entry_json e)) es"
  have "space newline" by (simp add: newline_def json_ws_def)
  have "json_text (JArr (?vs es)) (snapshot_text ft es)"
  proof (cases es)
    case Nil
    then show ?thesis using text_no_elements [of "[]"] by (simp add: snapshot_text_def)
  next
    case (Cons e es')
    have "list_all2 json_text (?vs es) (?ts es)" using assms entry_json_text by (simp add: list_all2_map1 list_all2_map2 list_all2_same)
    then have "elements_text (?vs es) (newline @ pretty ft 0 (entry_json e) @ concat (map (\<lambda>q. '','' @ newline @ q) (?ts es')) @ newline @ '']'')"
      using elements_of_parts [OF _ \<open>space newline\<close> \<open>space newline\<close>, of "JObj (entry_members e)" "?vs es'" "pretty ft 0 (entry_json e)" "?ts es'"] Cons by simp
    then show ?thesis using Cons text_elements by (simp add: snapshot_text_def entries_text_later)
  qed
  then show ?thesis using text_parse [of _ _ "[]"] by simp
qed

lemma entry_props:
  "is_object (JObj (entry_members e))" "js_prop (JObj (entry_members e)) ''key'' = JStr (se_key e)" "js_prop (JObj (entry_members e)) ''value'' = se_value e"
  "restorable e \<Longrightarrow> snapshot_ttl (js_prop (JObj (entry_members e)) ''ttl'') = Some (se_ttl e)"
  by (auto simp: entry_members_def restorable_def snapshot_ttl_def split: option.splits)

lemma snapshot_value_kept:
  assumes "restorable e" "sh_serializer h = json_serializer ft opts" "json_storable ft opts (se_value e)"
  shows "sanitizeSnapshotValue h (se_value e) = Inr (se_value e)"
proof -
  obtain p where "json_serialize ft (se_value e) = Inr p" "json_deserialize opts p = Inr (se_value e)"
    using json.serializes [OF assms(3)] by blast
  then show ?thesis
    using assms(1,2) strip_safe [of "se_value e"] by (simp add: sanitizeSnapshotValue_def json_serializer_def sanitized_iff restorable_def)
qed

lemma snapshot_entries_kept:
  "(\<forall>e \<in> set es. restorable e \<and> json_storable ft opts (se_value e)) \<Longrightarrow> sh_serializer h = json_serializer ft opts \<Longrightarrow>
    snapshot_entries h (map (\<lambda>e. JObj (entry_members e)) es) = Inr es"
  by (induction es) (simp_all add: snapshot_value_kept entry_props del: js_prop.simps)

lemma parse_snapshot_text:
  assumes "\<forall>e \<in> set es. restorable e \<and> json_storable ft opts (se_value e)" "sh_serializer h = json_serializer ft opts"
  shows "parse_snapshot h (snapshot_text ft' es) = Inr es"
proof -
  have "list_all valid_entry (map (\<lambda>e. JObj (entry_members e)) es)"
    using assms(1) entry_props by (auto simp: list_all_iff valid_entry_def)
  then show ?thesis
    using snapshot_text_parses [of es ft'] snapshot_entries_kept [OF assms] assms(1) by (simp add: parse_snapshot_def isCacheSnapshotEntries_def)
qed

subsection \<open>Reading it again\<close>

definition reads_files :: "'f snapshot_fs \<Rightarrow> ('f \<Rightarrow> path \<Rightarrow> string option) \<Rightarrow> bool" where
  \<comment> \<open>a file that exists can be opened, measured, read and closed, and that changes no file; the file system splits reads as it likes\<close>
  "reads_files fs files \<longleftrightarrow> (\<forall>p content fl. fl p = Some content \<longrightarrow>
     reads_content fs (\<lambda>f. files f = fl) p content \<and>
     (\<forall>f. files f = fl \<longrightarrow>
       (\<exists>f'. sf_open fs p f = (Inr (), f') \<and> files f' = fl) \<and> (\<exists>f'. sf_size fs p f = (Inr (length content), f') \<and> files f' = fl) \<and>
       (\<exists>f'. sf_readFile fs p f = (Inr content, f') \<and> files f' = fl) \<and> (\<exists>f'. sf_close fs p f = (Inr (), f') \<and> files f' = fl)))"

lemma read_snapshot_content:
  assumes "reads_files fs files" "files f p = Some content" "\<And>limit. maxBytes = Some limit \<Longrightarrow> length content \<le> limit"
  shows "\<exists>f'. read_snapshot fs p maxBytes f = (Inr content, f')"
proof -
  let ?same = "\<lambda>g. files g = files f"
  have reads: "reads_content fs ?same p content" using assms(1,2) unfolding reads_files_def by blast
  have opens: "?same g \<Longrightarrow> \<exists>g'. sf_open fs p g = (Inr (), g') \<and> ?same g'" and size: "?same g \<Longrightarrow> \<exists>g'. sf_size fs p g = (Inr (length content), g') \<and> ?same g'"
    and all: "?same g \<Longrightarrow> \<exists>g'. sf_readFile fs p g = (Inr content, g') \<and> ?same g'" and closes: "?same g \<Longrightarrow> \<exists>g'. sf_close fs p g = (Inr (), g') \<and> ?same g'" for g
    using assms(1,2) unfolding reads_files_def by blast+
  obtain f1 where f1: "sf_open fs p f = (Inr (), f1)" "?same f1" using opens by blast
  have "\<exists>f3. andthen (case maxBytes of None \<Rightarrow> ret () | Some limit \<Rightarrow> andthen (sf_size fs p) (\<lambda>n. if limit < n then throw_error (too_large limit) else ret ()))
      (\<lambda>_. readUtf8HandleWithLimit fs p maxBytes) f1 = (Inr content, f3) \<and> ?same f3"
  proof (cases maxBytes)
    case None
    then show ?thesis using all [OF f1(2)] by (auto simp: andthen_def ret_def readUtf8HandleWithLimit_def)
  next
    case (Some limit)
    obtain f2 where f2: "sf_size fs p f1 = (Inr (length content), f2)" "?same f2" using size [OF f1(2)] by blast
    obtain f3 where "read_limited fs p limit [] f2 = (Inr content, f3)" "?same f3"
      using read_limited_content [OF reads f2(2), of 0 limit] assms(3) [OF Some] by auto
    then show ?thesis using Some f2 assms(3) [OF Some] by (simp add: andthen_def ret_def readUtf8HandleWithLimit_def)
  qed
  then obtain f3 where f3: "andthen (case maxBytes of None \<Rightarrow> ret () | Some limit \<Rightarrow> andthen (sf_size fs p) (\<lambda>n. if limit < n then throw_error (too_large limit) else ret ()))
      (\<lambda>_. readUtf8HandleWithLimit fs p maxBytes) f1 = (Inr content, f3)" "?same f3" by blast
  then show ?thesis using f1(1) closes [OF f3(2)] by (auto simp: read_snapshot_def andthen_def closing_def)
qed

lemma validate_keeps_files:
  assumes "file_laws fs files" "validateSnapshotFilePath fs cwd filePath ReadMode base f = (r, f')"
  shows "files f' = files f"
proof -
  have mkdir: "keeps_files files (sf_mkdir fs p)" for p using assms(1) by (simp add: file_laws_def keeps_files_def)
  have "keeps_files files (validateSnapshotFilePath fs cwd filePath ReadMode base)"
    unfolding validateSnapshotFilePath_def within_base_def Let_def
    by (auto intro!: keeps_files_andthen mkdir keeps_files_calls [OF assms(1)] split: option.split)
  then show ?thesis using assms(2) unfolding keeps_files_def by (metis snd_conv)
qed

text \<open>
  C35: what was persisted is restored. When \<open>persistToFile\<close> has returned, \<open>restoreFromFile\<close> of the same file does to the
  stack what \<open>importState\<close> does with exactly the entries that were exported, for values the JSON serializer keeps and a
  snapshot within the limits.
\<close>

theorem persisted_snapshot_restores:
  assumes "file_laws (sh_fs h) files" "reads_files (sh_fs h) files"
    and "persist_to h cf m base target (s, f) = (Inr (), (s', f'))" "exported_entries cf m s = (Inr (), (s', es))"
    and "sh_serializer h = json_serializer ft opts" "\<forall>e \<in> set es. restorable e \<and> json_storable ft opts (se_value e)"
    and "\<And>t. decode (utf8_encode t) = t" "\<And>limit. maxBytes = Some limit \<Longrightarrow> length (utf8_encode (snapshot_text (sh_fraction h) es)) \<le> limit"
    and "\<not> sk_disconnecting s'" "validateSnapshotFilePath (sh_fs h) (sh_cwd h) filePath ReadMode base' f' = (Inr target, f1)"
  shows "\<exists>f2. restoreFromFile h decode cf base' maxBytes filePath (s', f') = (case importState cf es s' of (r, s2) \<Rightarrow> (r, (s2, f2)))"
proof -
  let ?content = "utf8_encode (snapshot_text (sh_fraction h) es)"
  have "files f' target = Some ?content"
    using persist_to_spec [OF assms(1,3)] assms(4) temp_differs [of "sh_random h" target] by auto
  then have "files f1 target = Some ?content" using validate_keeps_files [OF assms(1,10)] by simp
  then obtain f2 where "read_snapshot (sh_fs h) target maxBytes f1 = (Inr ?content, f2)"
    using read_snapshot_content [OF assms(2)] assms(8) by blast
  then show ?thesis
    using assms(9,10) parse_snapshot_text [OF assms(6,5)] assms(7)
    by (auto simp: restoreFromFile_def importState_def on_stack_def on_files_def andthen_def assertActive_def split: prod.split)
qed

definition kept_layer :: memory_layer where
  "kept_layer = (new_memory_layer (Some ''l1'') None None (Some Fifo))\<lparr>
     ml_entries := [(''k'', \<lparr>me_value = JStr ''v'', me_expiresAt = None, me_accessCount = 0, me_insertedAt = 0\<rparr>)]\<rparr>"

definition kept_stack :: "memory_layer stack" where
  "kept_stack = demo_stack\<lparr>sk_layers := [memory_layer_of kept_layer]\<rparr>"

lemma kept_generation [simp]: "sk_generation kept_stack = None"
  by (simp add: kept_stack_def)

definition kept_entry :: snapshot_entry where
  "kept_entry = \<lparr>se_key = ''k'', se_value = JStr ''v'', se_ttl = None\<rparr>"

lemma kept_calls:
  "call_layer 0 (\<lambda>api t. pure_action (ml_keys t)) kept_stack = (Inr [''k''], kept_stack)"
  "call_layer 0 (\<lambda>api t. case la_getEntry api of Some getEntry \<Rightarrow> getEntry t ''k'' | None \<Rightarrow> la_get api t ''k'') kept_stack = (Inr (JStr ''v''), kept_stack)"
  by (simp_all add: call_layer_def pure_action_def kept_stack_def the_layer_def memory_layer_of_def memory_api_def kept_layer_def ml_keys_def ml_pruneExpired_def
      ml_getEntry_def ml_isExpired_def new_memory_layer_def Let_def)

lemma kept_exports:
  "visitExportEntries (demo_config :: memory_layer stack_config) NoLimit v (all_layers kept_stack) [] (kept_stack, w) = v kept_entry (kept_stack, w)"
proof -
  have "readLayerEntry (demo_config :: memory_layer stack_config) 0 ''k'' kept_stack = (Inr (JStr ''v''), kept_stack)"
  proof -
    have "skip_layer 0 kept_stack = (False, kept_stack)" by (simp add: skip_layer_def kept_stack_def shouldSkipLayer_def Let_def)
    then show ?thesis by (simp add: readLayerEntry_def catching_def kept_calls(2))
  qed
  moreover have "la_keys (ly_api (the_layer 0 kept_stack)) = Some (\<lambda>t. pure_action (ml_keys t))" "all_layers kept_stack = [0]"
    by (simp_all add: kept_stack_def the_layer_def memory_layer_of_def memory_api_def all_layers_def)
  ultimately show ?thesis
    using kept_calls(1)
    by (auto simp: kept_entry_def kept_generation stripGenerationPrefix_def generationPrefix_def remainingStoredTtlMs_def isStoredValueEnvelope_def over_limit_def Let_def
        split: prod.split sum.split)
qed

definition demo_decode :: "string \<Rightarrow> string" where
  "demo_decode b = (case utf8_decode b of None \<Rightarrow> [] | Some t \<Rightarrow> t)"

lemma kept_persists:
  "persist_to demo_host (demo_config :: memory_layer stack_config) NoLimit DefaultBase [''b'', ''s''] (kept_stack, Map.empty)
       = (Inr (), (kept_stack, [[''b'', ''s''] \<mapsto> utf8_encode (snapshot_text (\<lambda>_. ''0'') [kept_entry])]))"
  by (auto simp: persist_to_def demo_host_def on_files_def memory_fs_def atomicWriteTempPath_def write_snapshot_def andthen_def write_text_def
      write_snapshot_entries_def kept_exports write_snapshot_entry_def commitAtomicWrite_def catching_def assertCommitParentInsideSnapshotBase_def within_base_def
      isWithinSnapshotBase_def path_dirname_def ret_def snapshot_text_def utf8_encode_append Let_def fun_eq_iff)

lemma memory_fs_reads: "reads_files memory_fs (\<lambda>f. f)"
  unfolding reads_files_def reads_content_def memory_fs_def
proof (intro allI impI conjI, goal_cases)
  case (1 p content fl n pos f)
  then show ?case by (intro exI [of _ n] exI [of _ f]) simp
qed auto

theorem persisted_snapshot_restores_witness:
  "\<exists>f2. restoreFromFile demo_host demo_decode (demo_config :: memory_layer stack_config) DefaultBase None ''/b/s''
       (kept_stack, [[''b'', ''s''] \<mapsto> utf8_encode (snapshot_text (\<lambda>_. ''0'') [kept_entry])])
     = (case importState demo_config [kept_entry] kept_stack of (r, s2) \<Rightarrow> (r, (s2, f2)))"
proof -
  have "json_storable (\<lambda>_. ''0'') (json_serializer_options None None None) (JStr ''v'')"
    by (simp add: json_storable_def sane_def json_serializer_options_def json_string_def esc_char_def)
  moreover have "exported_entries (demo_config :: memory_layer stack_config) NoLimit kept_stack = (Inr (), (kept_stack, [kept_entry]))"
    by (simp add: exported_entries_def kept_exports collect_def)
  moreover have "validateSnapshotFilePath (sh_fs demo_host) (sh_cwd demo_host) ''/b/s'' ReadMode DefaultBase f = (Inr [''b'', ''s''], f)" for f
    by (simp add: demo_host_def validateSnapshotFilePath_def path_resolve_def add_segment_def memory_fs_def andthen_def within_base_def mapUnderRealBase_def
        isWithinSnapshotBase_def ret_def Let_def)
  ultimately show ?thesis
    by (intro persisted_snapshot_restores [OF _ _ kept_persists, of "\<lambda>f. f" "[kept_entry]" "\<lambda>_. ''0''" "json_serializer_options None None None"])
       (simp_all add: demo_host_def memory_fs_laws memory_fs_reads demo_decode_def utf8_round_trip restorable_def kept_entry_def kept_stack_def)
qed

end
