(* ===== verification/PrometheusExporter.thy ===== *)
theory PrometheusExporter
  imports StackConfig StackAdmin JsonText "HOL-Library.Multiset"
begin

text \<open>
  The Prometheus exporter (\<open>src/src/metrics/PrometheusExporter.ts\<close>): the text exposition of the metrics of one or more
  stacks. \<open>toFixed\<close> is exact below \<open>10 ^ 21\<close>; the text of a larger number is an argument.

  Lemma: a scraper of the text format, with its escapes, types and its refusal of duplicate series, reads exactly the metrics
  of every stack, whatever characters the names of stacks and layers contain, as long as they stay distinct.
\<close>

subsection \<open>Numbers and labels\<close>

definition digits_padded :: "nat \<Rightarrow> nat \<Rightarrow> string" where
  "digits_padded n k = replicate (n - length (decimal k)) CHR ''0'' @ decimal k"

definition toFixed :: "(real \<Rightarrow> string) \<Rightarrow> nat \<Rightarrow> real \<Rightarrow> string" where
  \<comment> \<open>for at least one digit: the nearest decimal, the larger one of two\<close>
  "toFixed ft digits x =
    (if 10 ^ 21 \<le> \<bar>x\<bar> then number_text ft (Fin x)
     else let n = nat \<lfloor>\<bar>x\<bar> * 10 ^ digits + 1 / 2\<rfloor> in
       (if x < 0 then ''-'' else []) @ decimal (n div 10 ^ digits) @ ''.'' @ digits_padded digits (n mod 10 ^ digits))"

definition sanitizeLabel :: "string \<Rightarrow> string" where
  "sanitizeLabel s = map (\<lambda>c. if c \<in> {CHR 0x22, CHR 0x5C, CHR 0x0A, CHR 0x0D} then CHR ''_'' else c) s"

definition cache_label :: "string \<Rightarrow> string" where
  "cache_label name = ''cache='' @ [CHR 0x22] @ sanitizeLabel name @ [CHR 0x22]"

definition layer_label :: "string \<Rightarrow> string \<Rightarrow> string" where
  "layer_label label layerName = label @ '',layer='' @ [CHR 0x22] @ sanitizeLabel layerName @ [CHR 0x22]"

definition sample_line :: "string \<Rightarrow> string \<Rightarrow> string \<Rightarrow> string" where
  "sample_line metric label val = metric @ ''{'' @ label @ ''} '' @ val"

subsection \<open>The exporter\<close>

datatype 'l exported_stacks = OneStack "'l stack" | NamedStacks "('l stack \<times> string) list"

definition stack_entries :: "'l exported_stacks \<Rightarrow> ('l stack \<times> string) list" where
  "stack_entries stacks = (case stacks of OneStack s \<Rightarrow> [(s, ''default'')] | NamedStacks es \<Rightarrow> es)"

definition HELP_LINES :: "string list" where
  "HELP_LINES =
    [''# HELP layercache_hits_total Total number of cache hits'',
     ''# TYPE layercache_hits_total counter'',
     ''# HELP layercache_misses_total Total number of cache misses'',
     ''# TYPE layercache_misses_total counter'',
     ''# HELP layercache_fetches_total Total fetcher invocations (full misses)'',
     ''# TYPE layercache_fetches_total counter'',
     ''# HELP layercache_sets_total Total number of cache sets'',
     ''# TYPE layercache_sets_total counter'',
     ''# HELP layercache_deletes_total Total number of cache deletes'',
     ''# TYPE layercache_deletes_total counter'',
     ''# HELP layercache_backfills_total Total number of backfill operations'',
     ''# TYPE layercache_backfills_total counter'',
     ''# HELP layercache_stale_hits_total Total number of stale hits served'',
     ''# TYPE layercache_stale_hits_total counter'',
     ''# HELP layercache_refreshes_total Background refreshes triggered'',
     ''# TYPE layercache_refreshes_total counter'',
     ''# HELP layercache_refresh_errors_total Background refresh errors'',
     ''# TYPE layercache_refresh_errors_total counter'',
     ''# HELP layercache_negative_cache_hits_total Negative cache hits'',
     ''# TYPE layercache_negative_cache_hits_total counter'',
     ''# HELP layercache_circuit_breaker_trips_total Circuit breaker trips'',
     ''# TYPE layercache_circuit_breaker_trips_total counter'',
     ''# HELP layercache_degraded_operations_total Operations run in degraded mode'',
     ''# TYPE layercache_degraded_operations_total counter'',
     ''# HELP layercache_hit_rate Overall cache hit rate (0-1)'',
     ''# TYPE layercache_hit_rate gauge'',
     ''# HELP layercache_hits_by_layer_total Hits broken down by layer'',
     ''# TYPE layercache_hits_by_layer_total counter'',
     ''# HELP layercache_misses_by_layer_total Misses broken down by layer'',
     ''# TYPE layercache_misses_by_layer_total counter'',
     ''# HELP layercache_layer_latency_avg_ms Average read latency per layer in milliseconds'',
     ''# TYPE layercache_layer_latency_avg_ms gauge'',
     ''# HELP layercache_layer_latency_max_ms Maximum read latency per layer in milliseconds'',
     ''# TYPE layercache_layer_latency_max_ms gauge'',
     ''# HELP layercache_layer_latency_count Number of read latency samples per layer'',
     ''# TYPE layercache_layer_latency_count counter'']"

definition stack_counters :: "metrics_snapshot \<Rightarrow> (string \<times> string) list" where
  \<comment> \<open>name and value of the counters of a whole stack\<close>
  "stack_counters m =
    [(''layercache_hits_total'', int_text (mx_hits m)),
     (''layercache_misses_total'', int_text (mx_misses m)),
     (''layercache_fetches_total'', int_text (mx_fetches m)),
     (''layercache_sets_total'', int_text (mx_sets m)),
     (''layercache_deletes_total'', int_text (mx_deletes m)),
     (''layercache_backfills_total'', int_text (mx_backfills m)),
     (''layercache_stale_hits_total'', int_text (mx_staleHits m)),
     (''layercache_refreshes_total'', int_text (mx_refreshes m)),
     (''layercache_refresh_errors_total'', int_text (mx_refreshErrors m)),
     (''layercache_negative_cache_hits_total'', int_text (mx_negativeCacheHits m)),
     (''layercache_circuit_breaker_trips_total'', int_text (mx_circuitBreakerTrips m)),
     (''layercache_degraded_operations_total'', int_text (mx_degradedOperations m))]"

definition stack_lines :: "(real \<Rightarrow> string) \<Rightarrow> 'l stack \<times> string \<Rightarrow> string list" where
  "stack_lines ft entry =
    (case entry of (s, name) \<Rightarrow>
      let m = getMetrics s; label = cache_label name in
      map (\<lambda>(metric, val). sample_line metric label val) (stack_counters m) @
      [sample_line ''layercache_hit_rate'' label (toFixed ft 6 (hr_overall (getHitRate s)))] @
      map (\<lambda>(layerName, count). sample_line ''layercache_hits_by_layer_total'' (layer_label label layerName) (int_text count))
        (enumeration_order (mx_hitsByLayer m)) @
      map (\<lambda>(layerName, count). sample_line ''layercache_misses_by_layer_total'' (layer_label label layerName) (int_text count))
        (enumeration_order (mx_missesByLayer m)) @
      concat (map (\<lambda>(layerName, latency).
          [sample_line ''layercache_layer_latency_avg_ms'' (layer_label label layerName) (toFixed ft 4 (ll_avgMs latency)),
           sample_line ''layercache_layer_latency_max_ms'' (layer_label label layerName) (toFixed ft 4 (ll_maxMs latency)),
           sample_line ''layercache_layer_latency_count'' (layer_label label layerName) (int_text (ll_count latency))])
        (enumeration_order (mx_latencyByLayer m))))"

fun join_lines :: "string list \<Rightarrow> string" where
  \<comment> \<open>\<open>lines.join('\n')\<close>\<close>
  "join_lines [] = []"
| "join_lines [l] = l"
| "join_lines (l # ls) = l @ CHR 0x0A # join_lines ls"

definition createPrometheusMetricsExporter :: "(real \<Rightarrow> string) \<Rightarrow> 'l exported_stacks \<Rightarrow> string" where
  "createPrometheusMetricsExporter ft stacks = join_lines (HELP_LINES @ concat (map (stack_lines ft) (stack_entries stacks)) @ [[]])"

subsection \<open>A scraper\<close>

text \<open>
  A reader of the text format, version 0.0.4, as it is documented. Lines end with a line feed, the last one included. Empty lines and
  comments are skipped, but for \<open># TYPE\<close> lines, which give a metric its type, at most once and before its first sample. In the value
  of a label a backslash escapes a backslash, a quote or (as \<open>n\<close>) a line feed. A value is a number, and no two samples may have the
  same metric and labels. What the format allows and the exporter never writes (samples without labels, time stamps) is refused. One rule is not
  checked: that the lines of a metric form one group, which the exporter breaks by writing all types first, then the samples of one stack
  after another.
\<close>

record sample =
  sp_metric :: string
  sp_kind :: string
  sp_labels :: "(string \<times> string) list"
  sp_value :: real

fun pieces :: "char \<Rightarrow> string \<Rightarrow> string list" where
  "pieces d [] = [[]]"
| "pieces d (c # s) =
    (if c = d then [] # pieces d s
     else case pieces d s of [] \<Rightarrow> [[c]] | l # ls \<Rightarrow> (c # l) # ls)"

definition name_char :: "char \<Rightarrow> bool" where
  "name_char c = (let n = (of_char c :: nat) in 97 \<le> n \<and> n \<le> 122 \<or> 65 \<le> n \<and> n \<le> 90 \<or> 48 \<le> n \<and> n \<le> 57 \<or> n = 95)"

fun label_text :: "string \<Rightarrow> (string \<times> string) option" where
  \<comment> \<open>the value up to its closing quote, and what follows\<close>
  "label_text [] = None"
| "label_text (c # s) =
    (if c = CHR 0x22 then Some ([], s)
     else if c = CHR 0x5C
     then (case s of
             [] \<Rightarrow> None
           | d # r \<Rightarrow>
               if d = CHR 0x5C \<or> d = CHR 0x22 then map_option (\<lambda>(t, u). (d # t, u)) (label_text r)
               else if d = CHR ''n'' then map_option (\<lambda>(t, u). (CHR 0x0A # t, u)) (label_text r)
               else None)
     else map_option (\<lambda>(t, u). (c # t, u)) (label_text s))"

lemma label_text_shorter: "label_text s = Some (t, u) \<Longrightarrow> length u < length s"
  by (induction s arbitrary: t u rule: label_text.induct) (auto split: if_splits list.splits, fastforce+)

function scrape_labels :: "string \<Rightarrow> ((string \<times> string) list \<times> string) option" where
  \<comment> \<open>the labels up to the closing brace, and what follows\<close>
  "scrape_labels s =
    (let name = takeWhile name_char s; r = drop (length name) s in
     if name = [] \<or> is_digit (hd name) \<or> take 2 r \<noteq> [CHR ''='', CHR 0x22] then None
     else case label_text (drop 2 r) of
            None \<Rightarrow> None
          | Some (val, u) \<Rightarrow>
              (case u of
                 [] \<Rightarrow> None
               | c # w \<Rightarrow>
                   if c = CHR ''}'' then Some ([(name, val)], w)
                   else if c = CHR '','' then map_option (\<lambda>(ls, v). ((name, val) # ls, v)) (scrape_labels w)
                   else None))"
  by pat_completeness auto
termination
  by (relation "measure length") (fastforce dest: label_text_shorter)+

declare scrape_labels.simps [simp del]

definition scrape_value :: "string \<Rightarrow> real option" where
  "scrape_value s = (case scan_number s of None \<Rightarrow> None | Some (x, r) \<Rightarrow> if r = [] then Some x else None)"

definition scrape_sample :: "string \<Rightarrow> (string \<times> (string \<times> string) list \<times> real) option" where
  "scrape_sample line =
    (let metric = takeWhile name_char line; r = drop (length metric) line in
     if metric = [] \<or> is_digit (hd metric) \<or> take 1 r \<noteq> ''{'' then None
     else case scrape_labels (drop 1 r) of
            None \<Rightarrow> None
          | Some (labels, u) \<Rightarrow>
              if take 1 u \<noteq> '' '' \<or> \<not> distinct (map fst labels) then None
              else map_option (\<lambda>x. (metric, labels, x)) (scrape_value (drop 1 u)))"

datatype comment_line = Ignored | TypeOf string string | Malformed

definition comment_of :: "string \<Rightarrow> comment_line" where
  "comment_of line =
    (let ws = pieces (CHR '' '') line in
     if take 2 ws \<noteq> [''#'', ''TYPE''] then Ignored
     else if length ws = 4 \<and> ws ! 3 \<in> {''counter'', ''gauge'', ''histogram'', ''summary'', ''untyped''} then TypeOf (ws ! 2) (ws ! 3)
     else Malformed)"

fun scrape_lines :: "(string \<times> string) list \<Rightarrow> (string \<times> (string \<times> string) list) list \<Rightarrow> string list \<Rightarrow> sample list option" where
  \<comment> \<open>the types and the series read so far\<close>
  "scrape_lines types seen [] = Some []"
| "scrape_lines types seen (line # rest) =
    (if line = [] then scrape_lines types seen rest
     else if hd line = CHR ''#''
     then (case comment_of line of
             Ignored \<Rightarrow> scrape_lines types seen rest
           | TypeOf metric kind \<Rightarrow>
               if metric \<in> fst ` set types \<or> metric \<in> fst ` set seen then None else scrape_lines ((metric, kind) # types) seen rest
           | Malformed \<Rightarrow> None)
     else case scrape_sample line of
            None \<Rightarrow> None
          | Some (metric, labels, x) \<Rightarrow>
              if (metric, labels) \<in> set seen then None
              else map_option (Cons \<lparr>sp_metric = metric, sp_kind = nullish (map_of types metric) ''untyped'', sp_labels = labels, sp_value = x\<rparr>)
                     (scrape_lines types ((metric, labels) # seen) rest))"

definition scrape :: "string \<Rightarrow> sample list option" where
  "scrape body = (let ls = pieces (CHR 0x0A) body in if last ls = [] then scrape_lines [] [] ls else None)"

subsection \<open>What it should read\<close>

text \<open>
  The metrics of a stack as they are to be exposed: the name of each, its type, where its number comes from, and how exactly it is
  given. Quotes, backslashes and line breaks of names are shown as underscores.
\<close>

record reading =
  rd_metric :: string
  rd_kind :: string
  rd_labels :: "(string \<times> string) list"
  rd_value :: real
  rd_tol :: real

definition counter_table :: "(string \<times> (metrics_snapshot \<Rightarrow> int)) list" where
  "counter_table =
    [(''layercache_hits_total'', mx_hits), (''layercache_misses_total'', mx_misses), (''layercache_fetches_total'', mx_fetches),
     (''layercache_sets_total'', mx_sets), (''layercache_deletes_total'', mx_deletes), (''layercache_backfills_total'', mx_backfills),
     (''layercache_stale_hits_total'', mx_staleHits), (''layercache_refreshes_total'', mx_refreshes),
     (''layercache_refresh_errors_total'', mx_refreshErrors), (''layercache_negative_cache_hits_total'', mx_negativeCacheHits),
     (''layercache_circuit_breaker_trips_total'', mx_circuitBreakerTrips), (''layercache_degraded_operations_total'', mx_degradedOperations)]"

definition latency_table :: "(string \<times> string \<times> (layer_latency \<Rightarrow> real) \<times> real) list" where
  "latency_table =
    [(''layercache_layer_latency_avg_ms'', ''gauge'', ll_avgMs, 1 / 20000), (''layercache_layer_latency_max_ms'', ''gauge'', ll_maxMs, 1 / 20000),
     (''layercache_layer_latency_count'', ''counter'', (\<lambda>t. of_int (ll_count t)), 0)]"

definition expected_hit_rate :: "metrics_snapshot \<Rightarrow> real" where
  "expected_hit_rate m = of_int (mx_hits m) / of_int (mx_hits m + mx_misses m)"   \<comment> \<open>0 when nothing was read\<close>

definition label_form :: "string \<Rightarrow> string" where
  "label_form name = map (\<lambda>c. if c \<in> {CHR 0x22, CHR 0x5C, CHR 0x0A, CHR 0x0D} then CHR ''_'' else c) name"

definition reading_of :: "string \<Rightarrow> string option \<Rightarrow> string \<Rightarrow> string \<Rightarrow> real \<Rightarrow> real \<Rightarrow> reading" where
  "reading_of name layerName metric kind x tol = \<lparr>rd_metric = metric, rd_kind = kind,
     rd_labels = (''cache'', label_form name) # (case layerName of None \<Rightarrow> [] | Some l \<Rightarrow> [(''layer'', label_form l)]),
     rd_value = x, rd_tol = tol\<rparr>"

definition stack_readings :: "'l stack \<times> string \<Rightarrow> reading list" where
  "stack_readings e =
    (let m = getMetrics (fst e); name = snd e in
     map (\<lambda>(metric, f). reading_of name None metric ''counter'' (of_int (f m)) 0) counter_table @
     [reading_of name None ''layercache_hit_rate'' ''gauge'' (expected_hit_rate m) (1 / 2000000)] @
     map (\<lambda>(l, n). reading_of name (Some l) ''layercache_hits_by_layer_total'' ''counter'' (of_int n) 0) (enumeration_order (mx_hitsByLayer m)) @
     map (\<lambda>(l, n). reading_of name (Some l) ''layercache_misses_by_layer_total'' ''counter'' (of_int n) 0) (enumeration_order (mx_missesByLayer m)) @
     concat (map (\<lambda>(l, t). map (\<lambda>(metric, kind, f, tol). reading_of name (Some l) metric kind (f t) tol) latency_table)
       (enumeration_order (mx_latencyByLayer m))))"

definition shows_reading :: "sample \<Rightarrow> reading \<Rightarrow> bool" where
  "shows_reading sp rd \<longleftrightarrow> sp_metric sp = rd_metric rd \<and> sp_kind sp = rd_kind rd \<and> sp_labels sp = rd_labels rd \<and> \<bar>sp_value sp - rd_value rd\<bar> \<le> rd_tol rd"

definition exposable :: "'l stack \<Rightarrow> bool" where
  \<comment> \<open>the layer names of each table stay distinct, no counter of reads is negative, latencies are below \<open>10 ^ 21\<close>\<close>
  "exposable s \<longleftrightarrow> (let m = getMetrics s in
     distinct (map (\<lambda>p. label_form (fst p)) (mx_hitsByLayer m)) \<and> distinct (map (\<lambda>p. label_form (fst p)) (mx_missesByLayer m)) \<and>
     distinct (map (\<lambda>p. label_form (fst p)) (mx_latencyByLayer m)) \<and> 0 \<le> mx_hits m \<and> 0 \<le> mx_misses m \<and>
     (\<forall>(l, t) \<in> set (mx_latencyByLayer m). \<bar>ll_avgMs t\<bar> < 10 ^ 21 \<and> \<bar>ll_maxMs t\<bar> < 10 ^ 21))"

subsection \<open>Reading a line\<close>

lemma label_text_clean:
  assumes "CHR 0x22 \<notin> set v" "CHR 0x5C \<notin> set v"
  shows "label_text (v @ CHR 0x22 # r) = Some (v, r)"
  using assms by (induction v) auto

lemma sanitized_clean: "CHR 0x22 \<notin> set (sanitizeLabel s)" "CHR 0x0A \<notin> set (sanitizeLabel s)" "CHR 0x5C \<notin> set (sanitizeLabel s)"
  by (auto simp: sanitizeLabel_def)

lemma sanitized_form: "sanitizeLabel s = label_form s"
  by (simp add: sanitizeLabel_def label_form_def)

lemma take_name:
  assumes "list_all name_char a" "\<not> name_char c"
  shows "takeWhile name_char (a @ c # r) = a"
  using assms by (induction a) auto

definition metric_name :: "string \<Rightarrow> bool" where
  "metric_name s \<longleftrightarrow> s \<noteq> [] \<and> list_all name_char s \<and> \<not> is_digit (hd s)"

lemma scrape_label_step:
  assumes "metric_name name" "CHR 0x22 \<notin> set v" "CHR 0x5C \<notin> set v"
  shows "scrape_labels (name @ ''='' @ [CHR 0x22] @ v @ [CHR 0x22] @ c # r) =
    (if c = CHR ''}'' then Some ([(name, v)], r)
     else if c = CHR '','' then map_option (\<lambda>(ls, u). ((name, v) # ls, u)) (scrape_labels r) else None)"
proof -
  have "takeWhile name_char (name @ CHR ''='' # u) = name" for u
    using take_name [of name "CHR ''=''"] assms(1) by (simp add: metric_name_def) (simp add: name_char_def)
  then show ?thesis using assms by (subst scrape_labels.simps) (simp add: Let_def label_text_clean metric_name_def)
qed

definition labels_of :: "string \<Rightarrow> string option \<Rightarrow> string" where
  "labels_of name layerName = (case layerName of None \<Rightarrow> cache_label name | Some l \<Rightarrow> layer_label (cache_label name) l)"

lemma scrape_sample_line:
  assumes "metric_name metric" "scan_number val = Some (x, [])"
  shows "scrape_sample (sample_line metric (labels_of name layerName) val) =
    Some (metric, (''cache'', label_form name) # (case layerName of None \<Rightarrow> [] | Some l \<Rightarrow> [(''layer'', label_form l)]), x)"
proof -
  have m: "takeWhile name_char (metric @ CHR ''{'' # u) = metric" for u
    using take_name [of metric "CHR ''{''"] assms(1) by (simp add: metric_name_def) (simp add: name_char_def)
  have n: "metric_name ''cache''" "metric_name ''layer''" by (simp_all add: metric_name_def name_char_def is_digit_def)
  note step = scrape_label_step [OF n(1) sanitized_clean(1,3), of name] scrape_label_step [OF n(2) sanitized_clean(1,3)]
  have v: "scrape_value val = Some x" using assms(2) by (simp add: scrape_value_def)
  show ?thesis
  proof (cases layerName)
    case None
    then show ?thesis using step(1) [of "CHR ''}''" "CHR '' '' # val"] assms(1) v
      by (simp add: scrape_sample_def sample_line_def cache_label_def labels_of_def m Let_def metric_name_def sanitized_form)
  next
    case (Some l)
    then show ?thesis using step(1) [of "CHR '',''" "''layer='' @ [CHR 0x22] @ sanitizeLabel l @ [CHR 0x22] @ ''} '' @ val"]
        step(2) [of l "CHR ''}''" "CHR '' '' # val"] assms(1) v
      by (simp add: scrape_sample_def sample_line_def cache_label_def layer_label_def labels_of_def m Let_def metric_name_def sanitized_form)
  qed
qed

subsection \<open>Numbers\<close>

lemma digits_value_padded: "digits_value (replicate k CHR ''0'' @ s) = digits_value s"
proof -
  have "fold (\<lambda>c n. 10 * n + (of_char c - 48)) (replicate k CHR ''0'') 0 = (0 :: nat)" by (induction k) simp_all
  then show ?thesis by (simp add: digits_value_def)
qed

lemma decimal_length: "n < 10 ^ d \<Longrightarrow> 0 < d \<Longrightarrow> length (decimal n) \<le> d"
proof (induction n arbitrary: d rule: decimal.induct)
  case (1 n)
  show ?case
  proof (cases "n < 10")
    case True
    then show ?thesis using 1(3) by (subst decimal.simps) simp
  next
    case False
    obtain e where d: "d = Suc e" using 1(3) by (cases d) auto
    have "0 < e" using False 1(2) d by (cases e) auto
    moreover have "n div 10 < 10 ^ e" using 1(2) d by (simp add: less_mult_imp_div_less mult.commute)
    ultimately have "length (decimal (n div 10)) \<le> e" using 1(1) [OF False] by blast
    then show ?thesis using False d by (subst decimal.simps) simp
  qed
qed

lemma scan_fixed:
  assumes "0 < d" "\<bar>x\<bar> < 10 ^ 21"
  shows "\<exists>y. scan_number (toFixed ft d x) = Some (y, []) \<and> \<bar>y - x\<bar> \<le> 1 / (2 * 10 ^ d)"
proof -
  define n where "n = nat \<lfloor>\<bar>x\<bar> * 10 ^ d + 1 / 2\<rfloor>"
  define q where "q = n div 10 ^ d"
  define r where "r = n mod 10 ^ d"
  define fs where "fs = digits_padded d r"
  have "r < 10 ^ d" by (simp add: r_def)
  then have len: "length fs = d" using decimal_length [OF _ assms(1), of r] by (simp add: fs_def digits_padded_def)
  have fsv: "digits_value fs = r" by (simp add: fs_def digits_padded_def digits_value_padded digits_value_decimal)
  have "list_all is_digit fs" using decimal_all_digits [of r] by (auto simp: fs_def digits_padded_def list_all_iff is_digit_def)
  then have all: "takeWhile is_digit fs = fs" "dropWhile is_digit fs = []" by (auto simp: list_all_iff takeWhile_eq_all_conv)
  have ne: "fs \<noteq> []" using len assms(1) by auto
  have fraction: "scan_fraction (CHR ''.'' # fs) = Some (real r / 10 ^ d, [])" by (simp add: scan_fraction_def Let_def all ne len fsv)
  have dq: "takeWhile is_digit (decimal q @ CHR ''.'' # fs) = decimal q" "dropWhile is_digit (decimal q @ CHR ''.'' # fs) = CHR ''.'' # fs"
    using decimal_is_digit [of _ q] by (simp_all add: takeWhile_append2 dropWhile_append2 is_digit_def)
  have zero: "length (decimal 0) = 1" by (subst decimal.simps) simp
  have lead: "\<not> (hd (decimal q) = CHR ''0'' \<and> length (decimal q) > 1)" using decimal_hd [of q] zero by auto
  have ne_q: "decimal q \<noteq> []" by (subst decimal.simps) simp
  have minus: "hd (decimal q) \<noteq> CHR ''-''" using decimal_is_digit [of "hd (decimal q)" q] ne_q by (auto simp: is_digit_def)
  have printed: "toFixed ft d x = (if x < 0 then ''-'' else []) @ decimal q @ CHR ''.'' # fs"
    using assms(2) by (simp add: toFixed_def Let_def n_def [symmetric] q_def r_def fs_def)
  have "real n = real q * 10 ^ d + real r"
  proof -
    have "n = q * 10 ^ d + r" unfolding q_def r_def by (rule div_mult_mod_eq [symmetric])
    then have "real n = real (q * 10 ^ d + r)" by (rule arg_cong)
    then show ?thesis by simp
  qed
  then have sum: "real q + real r / 10 ^ d = real n / 10 ^ d" by (simp add: field_simps)
  have scan: "scan_number (toFixed ft d x) = Some ((if x < 0 then - 1 else 1) * (real n / 10 ^ d), [])"
    unfolding printed sum [symmetric] using dq lead minus ne_q fraction
    by (auto simp: scan_number_def scan_exponent_def digits_value_decimal hd_append)
  have near: "\<bar>real n - \<bar>x\<bar> * 10 ^ d\<bar> \<le> 1 / 2"
  proof -
    have "0 \<le> \<bar>x\<bar> * 10 ^ d" by simp
    then have "real n = of_int \<lfloor>\<bar>x\<bar> * 10 ^ d + 1 / 2\<rfloor>" unfolding n_def by simp
    then show ?thesis by linarith
  qed
  have "\<bar>(if x < 0 then - 1 else 1) * (real n / 10 ^ d) - x\<bar> = \<bar>real n - \<bar>x\<bar> * 10 ^ d\<bar> / 10 ^ d"
  proof -
    have "\<bar>(if x < 0 then - 1 else 1) * (real n / 10 ^ d) - x\<bar> = \<bar>real n / 10 ^ d - \<bar>x\<bar>\<bar>" by (cases "x < 0") auto
    also have "real n / 10 ^ d - \<bar>x\<bar> = (real n - \<bar>x\<bar> * 10 ^ d) / 10 ^ d" by (simp add: field_simps)
    finally show ?thesis by simp
  qed
  also have "\<dots> \<le> 1 / 2 / 10 ^ d" using near by (intro divide_right_mono) simp_all
  finally show ?thesis using scan by (intro exI conjI) (assumption, simp)
qed

lemma fixed_one_line: "\<bar>x\<bar> < 10 ^ 21 \<Longrightarrow> CHR 0x0A \<notin> set (toFixed ft d x)"
  using decimal_is_digit [of "CHR 0x0A"] by (auto simp: toFixed_def digits_padded_def Let_def is_digit_def)

lemma int_text_one_line: "CHR 0x0A \<notin> set (int_text k)"
  using decimal_is_digit [of "CHR 0x0A"] by (auto simp: int_text_def is_digit_def)

subsection \<open>Reading the lines of a stack\<close>

definition writes :: "string \<Rightarrow> reading \<Rightarrow> bool" where
  "writes line rd \<longleftrightarrow> line \<noteq> [] \<and> hd line \<noteq> CHR ''#'' \<and> CHR 0x0A \<notin> set line \<and>
     (\<exists>x. scrape_sample line = Some (rd_metric rd, rd_labels rd, x) \<and> \<bar>x - rd_value rd\<bar> \<le> rd_tol rd)"

lemma writes_sample:
  assumes "metric_name metric" "scan_number val = Some (x, [])" "CHR 0x0A \<notin> set val" "\<bar>x - y\<bar> \<le> tol"
  shows "writes (sample_line metric (labels_of name lo) val) (reading_of name lo metric kind y tol)"
proof -
  have "hd metric \<noteq> CHR ''#''" "CHR 0x0A \<notin> set metric" "metric \<noteq> []"
    using assms(1) by (cases metric; auto simp: metric_name_def name_char_def list_all_iff)+
  then show ?thesis
    using scrape_sample_line [OF assms(1,2), of name lo] assms(3,4) sanitized_clean(2)
    by (auto simp: writes_def reading_of_def sample_line_def labels_of_def cache_label_def layer_label_def split: option.splits)
qed

lemma writes_count: "metric_name metric \<Longrightarrow> writes (sample_line metric (labels_of name lo) (int_text k)) (reading_of name lo metric kind (of_int k) 0)"
  using scan_int_text [of "[]" k] by (intro writes_sample int_text_one_line) (simp_all add: number_ends_def)

lemma writes_fixed:
  assumes "metric_name metric" "0 < d" "\<bar>x\<bar> < 10 ^ 21" "tol = 1 / (2 * 10 ^ d)"
  shows "writes (sample_line metric (labels_of name lo) (toFixed ft d x)) (reading_of name lo metric kind x tol)"
proof -
  obtain y where "scan_number (toFixed ft d x) = Some (y, [])" "\<bar>y - x\<bar> \<le> tol" using scan_fixed [OF assms(2,3)] assms(4) by blast
  then show ?thesis using assms(1) fixed_one_line [OF assms(3)] by (intro writes_sample)
qed

lemma list_all2_concat_map: "(\<And>x. x \<in> set xs \<Longrightarrow> list_all2 P (f x) (g x)) \<Longrightarrow> list_all2 P (concat (map f xs)) (concat (map g xs))"
  by (induction xs) (auto intro: list_all2_appendI)

lemma list_all2_partner:
  assumes "list_all2 P xs ys"
  shows "x \<in> set xs \<Longrightarrow> \<exists>y \<in> set ys. P x y" "y \<in> set ys \<Longrightarrow> \<exists>x \<in> set xs. P x y"
  using assms by (induction rule: list_all2_induct) auto

lemma set_enumeration: "set (enumeration_order ps) = set ps"
  by (auto simp: enumeration_order_def)

lemma distinct_enumeration: "distinct (map f (enumeration_order ps)) \<longleftrightarrow> distinct (map f ps)"
proof -
  have "mset (enumeration_order ps) = mset ps" by (simp add: enumeration_order_def)
  then have "mset (map f (enumeration_order ps)) = mset (map f ps)" by simp
  then show ?thesis by (rule mset_eq_imp_distinct_iff)
qed

lemma metric_names: "metric_name (fst r)" if "r \<in> set counter_table" for r
  using that by (auto simp: counter_table_def metric_name_def name_char_def is_digit_def)

lemma latency_metrics:
  "metric_name ''layercache_layer_latency_avg_ms''" "metric_name ''layercache_layer_latency_max_ms''" "metric_name ''layercache_layer_latency_count''"
  by (simp_all add: metric_name_def name_char_def is_digit_def)

lemma hit_rate_bounds:
  assumes "0 \<le> mx_hits m" "0 \<le> mx_misses m"
  shows "hr_overall (hit_rate m) = expected_hit_rate m" "\<bar>expected_hit_rate m\<bar> < 10 ^ 21"
proof -
  show "hr_overall (hit_rate m) = expected_hit_rate m" by (simp add: hit_rate_def expected_hit_rate_def Let_def)
  have "expected_hit_rate m \<le> 1" "0 \<le> expected_hit_rate m" using assms by (auto simp: expected_hit_rate_def divide_le_eq_1)
  then show "\<bar>expected_hit_rate m\<bar> < 10 ^ 21" by simp
qed

lemma stack_lines_write:
  assumes "exposable (fst e)"
  shows "list_all2 writes (stack_lines ft e) (stack_readings e)"
proof -
  obtain s name where e: "e = (s, name)" by fastforce
  let ?m = "getMetrics s" and ?label = "cache_label name"
  have ok: "0 \<le> mx_hits ?m" "0 \<le> mx_misses ?m"
    "\<And>l t. (l, t) \<in> set (mx_latencyByLayer ?m) \<Longrightarrow> \<bar>ll_avgMs t\<bar> < 10 ^ 21 \<and> \<bar>ll_maxMs t\<bar> < 10 ^ 21"
    using assms e by (auto simp: exposable_def Let_def)
  have l: "layer_label ?label lay = labels_of name (Some lay)" "?label = labels_of name None" for lay by (simp_all add: labels_of_def)
  have names: "metric_name ''layercache_hit_rate''" "metric_name ''layercache_hits_by_layer_total''" "metric_name ''layercache_misses_by_layer_total''"
    by (simp_all add: metric_name_def name_char_def is_digit_def)
  have counters: "stack_counters ?m = map (\<lambda>(metric, f). (metric, int_text (f ?m))) counter_table" by (simp add: stack_counters_def counter_table_def)
  have "list_all2 writes (map (\<lambda>(metric, val). sample_line metric ?label val) (stack_counters ?m))
      (map (\<lambda>(metric, f). reading_of name None metric ''counter'' (of_int (f ?m)) 0) counter_table)"
    using metric_names unfolding counters l by (auto simp: list_all2_map1 list_all2_map2 intro!: list_all2_same [THEN iffD2] writes_count)
  moreover have "list_all2 writes [sample_line ''layercache_hit_rate'' ?label (toFixed ft 6 (hr_overall (getHitRate s)))]
      [reading_of name None ''layercache_hit_rate'' ''gauge'' (expected_hit_rate ?m) (1 / 2000000)]"
    using hit_rate_bounds [OF ok(1,2)] names unfolding l getHitRate_def by (auto intro!: writes_fixed)
  moreover have "list_all2 writes (map (\<lambda>(lay, n). sample_line metric (layer_label ?label lay) (int_text n)) xs)
      (map (\<lambda>(lay, n). reading_of name (Some lay) metric ''counter'' (of_int n) 0) xs)" if "metric_name metric" for metric xs
    using that unfolding l(1) by (auto simp: list_all2_map1 list_all2_map2 intro!: list_all2_same [THEN iffD2] writes_count)
  moreover have "list_all2 writes
      (concat (map (\<lambda>(lay, t). [sample_line ''layercache_layer_latency_avg_ms'' (layer_label ?label lay) (toFixed ft 4 (ll_avgMs t)),
         sample_line ''layercache_layer_latency_max_ms'' (layer_label ?label lay) (toFixed ft 4 (ll_maxMs t)),
         sample_line ''layercache_layer_latency_count'' (layer_label ?label lay) (int_text (ll_count t))]) (enumeration_order (mx_latencyByLayer ?m))))
      (concat (map (\<lambda>(lay, t). map (\<lambda>(metric, kind, f, tol). reading_of name (Some lay) metric kind (f t) tol) latency_table)
         (enumeration_order (mx_latencyByLayer ?m))))"
  proof (rule list_all2_concat_map)
    fix p assume "p \<in> set (enumeration_order (mx_latencyByLayer ?m))"
    then have "(fst p, snd p) \<in> set (mx_latencyByLayer ?m)" by (simp add: set_enumeration)
    from ok(3) [OF this] show "list_all2 writes (case p of (lay, t) \<Rightarrow> [sample_line ''layercache_layer_latency_avg_ms'' (layer_label ?label lay) (toFixed ft 4 (ll_avgMs t)),
         sample_line ''layercache_layer_latency_max_ms'' (layer_label ?label lay) (toFixed ft 4 (ll_maxMs t)),
         sample_line ''layercache_layer_latency_count'' (layer_label ?label lay) (int_text (ll_count t))])
       (case p of (lay, t) \<Rightarrow> map (\<lambda>(metric, kind, f, tol). reading_of name (Some lay) metric kind (f t) tol) latency_table)"
      unfolding l(1) latency_table_def by (cases p) (auto intro!: writes_fixed writes_count simp: latency_metrics)
  qed
  ultimately show ?thesis
    using names(2,3) unfolding e stack_lines_def stack_readings_def Let_def prod.case fst_conv snd_conv by (intro list_all2_appendI)
qed

subsection \<open>Series\<close>

definition series :: "reading \<Rightarrow> string \<times> (string \<times> string) list" where
  "series rd = (rd_metric rd, rd_labels rd)"

lemma series_reading [simp]: "series (reading_of name lo metric kind x tol) =
    (metric, (''cache'', label_form name) # (case lo of None \<Rightarrow> [] | Some l \<Rightarrow> [(''layer'', label_form l)]))"
  by (simp add: series_def reading_of_def)

lemma distinct_layer_series:
  assumes "distinct (map (\<lambda>p. label_form (fst p)) ps)"
  shows "distinct (map series (map (\<lambda>(l, n). reading_of name (Some l) metric kind (f n) tol) (enumeration_order ps)))"
proof -
  have "distinct (map (\<lambda>p. label_form (fst p)) (enumeration_order ps))" using assms by (simp add: distinct_enumeration)
  then show ?thesis by (auto simp: distinct_map inj_on_def split_def)
qed

lemma distinct_latency_series:
  assumes "distinct (map (\<lambda>p. label_form (fst p)) ps)"
  shows "distinct (map series (concat (map (\<lambda>(l, t). map (\<lambda>(metric, kind, f, tol). reading_of name (Some l) metric kind (f t) tol) latency_table) ps)))"
  using assms
proof (induction ps)
  case (Cons p ps)
  then show ?case by (cases p) (auto simp: latency_table_def image_iff split_def)
qed simp

lemma stack_series:
  assumes "exposable (fst e)"
  shows "distinct (map series (stack_readings e))"
    and "sr \<in> set (map series (stack_readings e)) \<Longrightarrow> hd (snd sr) = (''cache'', label_form (snd e))"
proof -
  let ?m = "getMetrics (fst e)"
  have d: "distinct (map (\<lambda>p. label_form (fst p)) (mx_hitsByLayer ?m))" "distinct (map (\<lambda>p. label_form (fst p)) (mx_missesByLayer ?m))"
    "distinct (map (\<lambda>p. label_form (fst p)) (enumeration_order (mx_latencyByLayer ?m)))"
    using assms by (simp_all add: exposable_def Let_def distinct_enumeration)
  have counters: "distinct (map series (map (\<lambda>(metric, f). reading_of (snd e) None metric ''counter'' (of_int (f ?m)) 0) counter_table))"
    by (simp add: counter_table_def)
  show "distinct (map series (stack_readings e))"
    unfolding stack_readings_def Let_def map_append distinct_append
    using counters distinct_layer_series [OF d(1)] distinct_layer_series [OF d(2)] distinct_latency_series [OF d(3)]
    by (auto simp: counter_table_def latency_table_def)
  show "hd (snd sr) = (''cache'', label_form (snd e))" if "sr \<in> set (map series (stack_readings e))"
    using that by (auto simp: stack_readings_def Let_def counter_table_def latency_table_def)
qed

lemma all_series:
  assumes "distinct (map (\<lambda>e. label_form (snd e)) es)" "\<forall>e \<in> set es. exposable (fst e)"
  shows "distinct (map series (concat (map stack_readings es)))"
  using assms
proof (induction es)
  case (Cons e es)
  have "hd (snd sr) = (''cache'', label_form (snd e))" if "sr \<in> set (map series (stack_readings e))" for sr using stack_series(2) [OF _ that] Cons(3) by simp
  moreover have "hd (snd sr) \<noteq> (''cache'', label_form (snd e))" if sr: "sr \<in> set (map series (concat (map stack_readings es)))" for sr
  proof -
    obtain e' where e': "e' \<in> set es" "sr \<in> set (map series (stack_readings e'))" using sr by auto
    then show ?thesis using stack_series(2) [OF _ e'(2)] Cons(2,3) by (auto simp: image_iff)
  qed
  ultimately have "set (map series (stack_readings e)) \<inter> set (map series (concat (map stack_readings es))) = {}" by blast
  then show ?case using Cons stack_series(1) [of e] by (simp add: distinct_append)
qed simp

subsection \<open>Reading the whole text\<close>

definition metric_types :: "(string \<times> string) list" where
  \<comment> \<open>the types after the lines that declare them\<close>
  "metric_types =
    [(''layercache_layer_latency_count'', ''counter''), (''layercache_layer_latency_max_ms'', ''gauge''), (''layercache_layer_latency_avg_ms'', ''gauge''),
     (''layercache_misses_by_layer_total'', ''counter''), (''layercache_hits_by_layer_total'', ''counter''), (''layercache_hit_rate'', ''gauge''),
     (''layercache_degraded_operations_total'', ''counter''), (''layercache_circuit_breaker_trips_total'', ''counter''),
     (''layercache_negative_cache_hits_total'', ''counter''), (''layercache_refresh_errors_total'', ''counter''), (''layercache_refreshes_total'', ''counter''),
     (''layercache_stale_hits_total'', ''counter''), (''layercache_backfills_total'', ''counter''), (''layercache_deletes_total'', ''counter''),
     (''layercache_sets_total'', ''counter''), (''layercache_fetches_total'', ''counter''), (''layercache_misses_total'', ''counter''),
     (''layercache_hits_total'', ''counter'')]"

fun types_after :: "(string \<times> string) list \<Rightarrow> comment_line list \<Rightarrow> (string \<times> string) list option" where
  "types_after types [] = Some types"
| "types_after types (Ignored # cs) = types_after types cs"
| "types_after types (TypeOf metric kind # cs) = (if metric \<in> fst ` set types then None else types_after ((metric, kind) # types) cs)"
| "types_after types (Malformed # cs) = None"

lemma scrape_comments:
  "\<forall>l \<in> set cs. take 1 l = ''#'' \<Longrightarrow> types_after types (map comment_of cs) = Some types' \<Longrightarrow>
   scrape_lines types [] (cs @ ls) = scrape_lines types' [] ls"
proof (induction cs arbitrary: types)
  case (Cons l cs)
  have "l \<noteq> []" "hd l = CHR ''#''" using Cons(2) by (cases l; simp)+
  then show ?case using Cons by (cases "comment_of l") (auto split: if_splits)
qed simp

lemma help_types: "scrape_lines [] [] (HELP_LINES @ ls) = scrape_lines metric_types [] ls"
proof (rule scrape_comments)
  show "\<forall>l \<in> set HELP_LINES. take 1 l = ''#''" by (simp add: HELP_LINES_def)
  show "types_after [] (map comment_of HELP_LINES) = Some metric_types" by code_simp
qed

lemma reading_kinds: "rd \<in> set (stack_readings e) \<Longrightarrow> map_of metric_types (rd_metric rd) = Some (rd_kind rd)"
proof -
  have "\<forall>r \<in> set counter_table. map_of metric_types (fst r) = Some ''counter''" by (simp add: counter_table_def metric_types_def)
  moreover have "\<forall>r \<in> set latency_table. map_of metric_types (fst r) = Some (fst (snd r))" by (simp add: latency_table_def metric_types_def)
  moreover have "map_of metric_types ''layercache_hit_rate'' = Some ''gauge''" "map_of metric_types ''layercache_hits_by_layer_total'' = Some ''counter''"
    "map_of metric_types ''layercache_misses_by_layer_total'' = Some ''counter''" by (simp_all add: metric_types_def)
  ultimately show "rd \<in> set (stack_readings e) \<Longrightarrow> ?thesis" by (fastforce simp: stack_readings_def Let_def reading_of_def)
qed

lemma scrape_written:
  assumes "list_all2 writes ls rds" "\<forall>rd \<in> set rds. map_of types (rd_metric rd) = Some (rd_kind rd)"
    and "distinct (map series rds)" "set (map series rds) \<inter> set seen = {}"
  shows "\<exists>samples. scrape_lines types seen (ls @ [[]]) = Some samples \<and> list_all2 shows_reading samples rds"
  using assms
proof (induction arbitrary: seen rule: list_all2_induct)
  case (Cons l ls rd rds)
  obtain x where x: "scrape_sample l = Some (rd_metric rd, rd_labels rd, x)" "\<bar>x - rd_value rd\<bar> \<le> rd_tol rd"
    and l: "l \<noteq> []" "hd l \<noteq> CHR ''#''" using Cons(1) by (auto simp: writes_def)
  let ?sp = "\<lparr>sp_metric = rd_metric rd, sp_kind = rd_kind rd, sp_labels = rd_labels rd, sp_value = x\<rparr>"
  obtain samples where s: "scrape_lines types (series rd # seen) (ls @ [[]]) = Some samples" "list_all2 shows_reading samples rds"
    using Cons(3) [of "series rd # seen"] Cons(4-6) by auto
  have "(rd_metric rd, rd_labels rd) \<notin> set seen" using Cons(6) by (auto simp: series_def)
  then have "scrape_lines types seen ((l # ls) @ [[]]) = Some (?sp # samples)"
    using x(1) l s(1) Cons(4) by (simp add: series_def)
  moreover have "shows_reading ?sp rd" using x(2) by (simp add: shows_reading_def)
  ultimately show ?case using s(2) by auto
qed simp

lemma pieces_line: "d \<notin> set l \<Longrightarrow> pieces d l = [l] \<and> pieces d (l @ d # s) = l # pieces d s"
  by (induction l) auto

lemma pieces_join: "\<forall>l \<in> set ls. CHR 0x0A \<notin> set l \<Longrightarrow> ls \<noteq> [] \<Longrightarrow> pieces (CHR 0x0A) (join_lines ls) = ls"
  by (induction ls rule: join_lines.induct) (auto simp: pieces_line)

text \<open>
  C38: the exposition can be scraped, and it says what the metrics say. A reader of the Prometheus text format accepts the text of the
  exporter and gets exactly the metrics of every stack, in order and nothing else: each under its name and type, with the labels of its
  stack and layer, counts exactly and rates and latencies up to the digits printed. The reader checks types, escapes and duplicates, not the grouping
  of the lines of a metric. This holds whatever characters the names of stacks and
  layers contain, provided the names stay distinct when quotes, backslashes and line breaks are shown as underscores.
\<close>

theorem exposition_scrapes_back:
  assumes "distinct (map (\<lambda>e. label_form (snd e)) (stack_entries stacks))" "\<forall>e \<in> set (stack_entries stacks). exposable (fst e)"
  shows "\<exists>samples. scrape (createPrometheusMetricsExporter ft stacks) = Some samples \<and>
    list_all2 shows_reading samples (concat (map stack_readings (stack_entries stacks)))"
proof -
  let ?es = "stack_entries stacks"
  let ?ls = "concat (map (stack_lines ft) ?es)" and ?rds = "concat (map stack_readings ?es)"
  have w: "list_all2 writes ?ls ?rds" using assms(2) stack_lines_write by (intro list_all2_concat_map) blast
  have "CHR 0x0A \<notin> set l" if "l \<in> set ?ls" for l
    using list_all2_partner(1) [OF w that] unfolding writes_def by blast
  moreover have "\<forall>l \<in> set HELP_LINES. CHR 0x0A \<notin> set l" by (simp add: HELP_LINES_def)
  ultimately have lines: "pieces (CHR 0x0A) (join_lines (HELP_LINES @ ?ls @ [[]])) = HELP_LINES @ ?ls @ [[]]" by (intro pieces_join) auto
  obtain samples where "scrape_lines metric_types [] (?ls @ [[]]) = Some samples" "list_all2 shows_reading samples ?rds"
  proof -
    have kinds: "\<forall>rd \<in> set ?rds. map_of metric_types (rd_metric rd) = Some (rd_kind rd)" using reading_kinds by (auto simp del: map_of.simps)
    have "set (map series ?rds) \<inter> set [] = {}" by simp
    from scrape_written [OF w kinds all_series [OF assms] this] that show ?thesis by blast
  qed
  then show ?thesis by (simp add: scrape_def createPrometheusMetricsExporter_def lines help_types Let_def)
qed

definition hostile_stack :: "unit stack" where
  "hostile_stack = (initial_stack no_options 1000 [])\<lparr>sk_metrics := (new_collector 1000)\<lparr>mc_data := (mc_data (new_collector 1000))\<lparr>
     mx_hits := 3, mx_hitsByLayer := [([CHR 0x22, CHR ''}'', CHR 0x0A, CHR 0x5C], 3)]\<rparr>\<rparr>\<rparr>"

theorem exposition_scrapes_back_witness:
  "\<exists>samples sp. scrape (createPrometheusMetricsExporter (\<lambda>_. []) (NamedStacks [(hostile_stack, [CHR ''a'', CHR 0x5C])])) = Some samples \<and> sp \<in> set samples \<and>
     sp = \<lparr>sp_metric = ''layercache_hits_by_layer_total'', sp_kind = ''counter'', sp_labels = [(''cache'', ''a_''), (''layer'', ''_}__'')], sp_value = 3\<rparr>"
proof -
  let ?es = "NamedStacks [(hostile_stack, [CHR ''a'', CHR 0x5C])]"
  let ?rd = "reading_of [CHR ''a'', CHR 0x5C] (Some [CHR 0x22, CHR ''}'', CHR 0x0A, CHR 0x5C]) ''layercache_hits_by_layer_total'' ''counter'' 3 0"
  have m: "getMetrics hostile_stack = (mc_data (new_collector 1000))\<lparr>mx_hits := 3, mx_hitsByLayer := [([CHR 0x22, CHR ''}'', CHR 0x0A, CHR 0x5C], 3)]\<rparr>"
    by (simp add: hostile_stack_def getMetrics_def)
  have e: "exposable hostile_stack" by (simp add: exposable_def m new_collector_def empty_metrics_def Let_def)
  obtain samples where s: "scrape (createPrometheusMetricsExporter (\<lambda>_. []) ?es) = Some samples"
    "list_all2 shows_reading samples (concat (map stack_readings (stack_entries ?es)))"
    using exposition_scrapes_back [of ?es "\<lambda>_. []"] e by (auto simp: stack_entries_def)
  have "?rd \<in> set (concat (map stack_readings (stack_entries ?es)))"
    by (simp add: stack_entries_def stack_readings_def Let_def m enumeration_order_def is_array_index_def is_digit_def)
  then obtain sp where "sp \<in> set samples" "shows_reading sp ?rd" using list_all2_partner(2) [OF s(2)] by blast
  then show ?thesis using s(1) by (intro exI [of _ samples] exI [of _ sp]) (simp add: shows_reading_def reading_of_def label_form_def sample.equality)
qed

end
