(* ===== verification/Telemetry.thy ===== *)
theory Telemetry
  imports Stack Maintenance "HOL-Library.Multiset"
begin

text \<open>
  Observed operations (\<open>observeOperation\<close> of \<open>src/src/CacheStack.ts\<close>) and the OpenTelemetry plugin
  (\<open>src/src/integrations/opentelemetry.ts\<close>) as listener of their events. The tracer is an argument, a record of actions
  that may throw; so are the hash function and the text of attributes that are no strings.

  Lemmas: an operation is not changed by its observation while \<open>span.end\<close> does not throw; every span is ended
  exactly once, and at most \<open>MAX_SPANS\<close> are open.
\<close>

subsection \<open>Observed operations\<close>

type_synonym attributes = "(string \<times> js) list"

datatype op_event =
    OpStart nat string "attributes option"
  | OpEnd nat string "attributes option" bool "string option" "error option"

record ('s, 'o) observed =
  ob_nextOperationId :: nat
  ob_cache :: 's
  ob_listeners :: 'o

definition emit_op :: "(op_event \<Rightarrow> ('o, unit) action) \<Rightarrow> op_event \<Rightarrow> (('s, 'o) observed, unit) action" where
  \<comment> \<open>\<open>emit\<close> calls the listeners; what they throw it throws\<close>
  "emit_op listen e st = (case listen e (ob_listeners st) of (r, w) \<Rightarrow> (r, st\<lparr>ob_listeners := w\<rparr>))"

definition observeOperation ::
    "(op_event \<Rightarrow> ('o, unit) action) \<Rightarrow> ('a \<Rightarrow> string option) \<Rightarrow> string \<Rightarrow> attributes option \<Rightarrow> (('s, 'o) observed, 'a) action
      \<Rightarrow> (('s, 'o) observed, 'a) action" where
  \<comment> \<open>the second argument tells the results \<open>null\<close> and \<open>undefined\<close>\<close>
  "observeOperation listen kind name attrs execute st =
    (let i = ob_nextOperationId st in
     andthen (emit_op listen (OpStart i name attrs)) (\<lambda>_.
       catching
         (andthen execute (\<lambda>x. andthen (emit_op listen (OpEnd i name attrs True (kind x) None)) (\<lambda>_. ret x)))
         (\<lambda>e. andthen (emit_op listen (OpEnd i name attrs False None (Some e))) (\<lambda>_. throw_error e)))
       (st\<lparr>ob_nextOperationId := (i + 1) mod MAX_SAFE_INTEGER\<rparr>))"

subsection \<open>The plugin\<close>

definition MAX_SPANS :: nat where "MAX_SPANS = 10000"

definition RAW_KEY_ATTRIBUTE :: string where "RAW_KEY_ATTRIBUTE = ''layercache.key''"

definition KEY_HASH_ATTRIBUTE :: string where "KEY_HASH_ATTRIBUTE = ''layercache.key_hash''"

record ('p, 'w) tracer =
  \<comment> \<open>the optional methods of a span are per span\<close>
  tc_startSpan :: "string \<Rightarrow> attributes option \<Rightarrow> ('w, 'p) action"
  tc_setAttribute :: "'p \<Rightarrow> (string \<Rightarrow> js \<Rightarrow> ('w, unit) action) option"
  tc_recordException :: "'p \<Rightarrow> (error \<Rightarrow> ('w, unit) action) option"
  tc_end :: "'p \<Rightarrow> ('w, unit) action"

record plugin_options =
  po_includeRawKeyAttributes :: bool
  po_sha256 :: "string \<Rightarrow> string"    \<comment> \<open>hexadecimal\<close>
  po_text :: "js \<Rightarrow> string"    \<comment> \<open>\<open>String\<close> of a value that is no string\<close>

definition raw_key_text :: "plugin_options \<Rightarrow> js \<Rightarrow> string" where
  \<comment> \<open>\<open>String(rawKey ?? '')\<close>\<close>
  "raw_key_text opts v = (case v of JStr s \<Rightarrow> s | JUndef \<Rightarrow> [] | JNull \<Rightarrow> [] | _ \<Rightarrow> po_text opts v)"

definition sanitizeAttributes :: "plugin_options \<Rightarrow> attributes option \<Rightarrow> attributes option" where
  "sanitizeAttributes opts attrs =
    (case attrs of
       None \<Rightarrow> None
     | Some ps \<Rightarrow>
         if po_includeRawKeyAttributes opts then attrs
         else (case map_of ps RAW_KEY_ATTRIBUTE of
                 None \<Rightarrow> attrs
               | Some rawKey \<Rightarrow>
                   Some (AList.update KEY_HASH_ATTRIBUTE (JStr (po_sha256 opts (raw_key_text opts rawKey))) (AList.delete RAW_KEY_ATTRIBUTE ps))))"

type_synonym ('p, 'w) plugin = "(nat \<times> 'p) list \<times> 'w"    \<comment> \<open>the spans by operation, oldest first, and the state of the tracer\<close>

definition on_tracer :: "('w, 'a) action \<Rightarrow> ('p, 'w) plugin \<Rightarrow> 'a result \<times> ('p, 'w) plugin" where
  "on_tracer m pl = (case m (snd pl) of (r, w) \<Rightarrow> (r, (fst pl, w)))"

definition evict_oldest :: "('p, 'w) tracer \<Rightarrow> (('p, 'w) plugin, unit) action" where
  "evict_oldest tc pl =
    (if length (fst pl) < MAX_SPANS then (Inr (), pl)
     else case fst pl of
       [] \<Rightarrow> (Inr (), pl)
     | (oldest, p) # rest \<Rightarrow> andthen (on_tracer (tc_end tc p)) (\<lambda>_ pl'. (Inr (), (AList.delete oldest (fst pl'), snd pl'))) pl)"

definition onStart :: "('p, 'w) tracer \<Rightarrow> plugin_options \<Rightarrow> nat \<Rightarrow> string \<Rightarrow> attributes option \<Rightarrow> (('p, 'w) plugin, unit) action" where
  "onStart tc opts i name attrs =
    catching
      (andthen (evict_oldest tc) (\<lambda>_.
       andthen (on_tracer (tc_startSpan tc name (sanitizeAttributes opts attrs))) (\<lambda>p pl.
         (Inr (), (AList.update i p (fst pl), snd pl)))))
      (\<lambda>_. ret ())"

definition describe_end :: "('p, 'w) tracer \<Rightarrow> 'p \<Rightarrow> bool \<Rightarrow> string option \<Rightarrow> error option \<Rightarrow> ('w, unit) action" where
  \<comment> \<open>the \<open>try\<close> statement\<close>
  "describe_end tc p success res er =
    catching
      (andthen (case tc_setAttribute tc p of None \<Rightarrow> ret () | Some setAttribute \<Rightarrow> setAttribute ''layercache.success'' (JBool success)) (\<lambda>_.
       andthen (case (res, tc_setAttribute tc p) of (Some (c # s), Some setAttribute) \<Rightarrow> setAttribute ''layercache.result'' (JStr (c # s)) | _ \<Rightarrow> ret ()) (\<lambda>_.
         case (er, tc_recordException tc p) of (Some e, Some recordException) \<Rightarrow> recordException e | _ \<Rightarrow> ret ())))
      (\<lambda>_. ret ())"

definition onEnd :: "('p, 'w) tracer \<Rightarrow> nat \<Rightarrow> bool \<Rightarrow> string option \<Rightarrow> error option \<Rightarrow> (('p, 'w) plugin, unit) action" where
  "onEnd tc i success res er pl =
    (case map_of (fst pl) i of
       None \<Rightarrow> (Inr (), pl)
     | Some p \<Rightarrow> andthen (on_tracer (describe_end tc p success res er)) (\<lambda>_. on_tracer (tc_end tc p)) (AList.delete i (fst pl), snd pl))"

definition plugin_listener :: "('p, 'w) tracer \<Rightarrow> plugin_options \<Rightarrow> op_event \<Rightarrow> (('p, 'w) plugin, unit) action" where
  "plugin_listener tc opts e =
    (case e of
       OpStart i name attrs \<Rightarrow> onStart tc opts i name attrs
     | OpEnd i name attrs success res er \<Rightarrow> onEnd tc i success res er)"

definition uninstall :: "('p, 'w) tracer \<Rightarrow> (('p, 'w) plugin, unit) action" where
  "uninstall tc pl = andthen (each (\<lambda>(_, p). on_tracer (tc_end tc p)) (fst pl)) (\<lambda>_ pl'. (Inr (), ([], snd pl'))) pl"

subsection \<open>Observation changes nothing\<close>

definition of_cache :: "('s, 'a) action \<Rightarrow> (('s, 'o) observed, 'a) action" where
  "of_cache m st = (case m (ob_cache st) of (r, s) \<Rightarrow> (r, st\<lparr>ob_cache := s\<rparr>))"

definition ends_quietly :: "('p, 'w) tracer \<Rightarrow> bool" where
  "ends_quietly tc \<longleftrightarrow> (\<forall>p w. fst (tc_end tc p w) = Inr ())"

lemma on_tracer_fst: "fst (on_tracer m pl) = fst (m (snd pl))"
  by (simp add: on_tracer_def split: prod.split)

lemma onStart_returns: "fst (onStart tc opts i name attrs pl) = Inr ()"
  unfolding onStart_def catching_def ret_def by (simp split: prod.split sum.split)

lemma describe_end_returns: "fst (describe_end tc p success res er w) = Inr ()"
  unfolding describe_end_def catching_def ret_def by (simp split: prod.split sum.split)

lemma andthen_fst: "fst (m s) = Inr () \<Longrightarrow> fst (k () (snd (m s))) = Inr () \<Longrightarrow> fst (andthen m k s) = Inr ()"
  by (cases "m s") (simp add: andthen_def)

lemma onEnd_returns: "ends_quietly tc \<Longrightarrow> fst (onEnd tc i success res er pl) = Inr ()"
  by (auto simp: onEnd_def ends_quietly_def on_tracer_fst describe_end_returns intro!: andthen_fst split: option.split)

lemma listener_returns: "ends_quietly tc \<Longrightarrow> fst (plugin_listener tc opts e pl) = Inr ()"
  by (cases e) (simp_all add: plugin_listener_def onStart_returns onEnd_returns)

lemma emit_op_returns:
  assumes "ends_quietly tc"
  obtains pl' where "emit_op (plugin_listener tc opts) e st = (Inr (), st\<lparr>ob_listeners := pl'\<rparr>)"
  using listener_returns [OF assms, of opts e "ob_listeners st"]
  by (cases "plugin_listener tc opts e (ob_listeners st)") (simp add: emit_op_def)

text \<open>
  C40: tracing does not change the cache. While ending a span does not throw, an operation of the cache observed by the
  plugin returns what it returns alone and leaves the cache in the same state, whatever else the tracer does.
\<close>

theorem observed_operation_unchanged:
  assumes "ends_quietly tc"
  shows "map_prod id ob_cache (observeOperation (plugin_listener tc opts) kind name attrs (of_cache m) st) = m (ob_cache st)"
proof -
  let ?i = "ob_nextOperationId st" and ?st = "st\<lparr>ob_nextOperationId := (ob_nextOperationId st + 1) mod MAX_SAFE_INTEGER\<rparr>"
  obtain pl where start: "emit_op (plugin_listener tc opts) (OpStart ?i name attrs) ?st = (Inr (), ?st\<lparr>ob_listeners := pl\<rparr>)"
    by (rule emit_op_returns [OF assms])
  obtain r s where m: "m (ob_cache st) = (r, s)" by fastforce
  let ?st1 = "?st\<lparr>ob_listeners := pl, ob_cache := s\<rparr>"
  have run: "of_cache m (?st\<lparr>ob_listeners := pl\<rparr>) = (r, ?st1)" using m by (simp add: of_cache_def)
  have finish: "\<exists>pl'. emit_op (plugin_listener tc opts) e ?st1 = (Inr (), ?st1\<lparr>ob_listeners := pl'\<rparr>)" for e
    by (rule emit_op_returns [OF assms]) blast
  show ?thesis
  proof (cases r)
    case (Inl er)
    then show ?thesis
      using start run m finish [of "OpEnd ?i name attrs False None (Some er)"]
      by (auto simp: observeOperation_def andthen_def catching_def throw_error_def Let_def)
  next
    case (Inr x)
    then show ?thesis
      using start run m finish [of "OpEnd ?i name attrs True (kind x) None"]
      by (auto simp: observeOperation_def andthen_def catching_def ret_def Let_def)
  qed
qed

subsection \<open>Every span is ended once\<close>

record recording =
  rc_started :: nat    \<comment> \<open>the spans started are the numbers below\<close>
  rc_ended :: "nat list"

definition recording_tracer :: "(string \<Rightarrow> bool) \<Rightarrow> (nat, recording) tracer" where
  \<comment> \<open>a tracer that keeps books, refuses to start some spans and throws on every attribute\<close>
  "recording_tracer refuses =
    \<lparr>tc_startSpan = \<lambda>name _ w. if refuses name then (Inl (OtherError ''refused''), w) else (Inr (rc_started w), w\<lparr>rc_started := Suc (rc_started w)\<rparr>),
     tc_setAttribute = \<lambda>_. Some (\<lambda>_ _ w. (Inl (OtherError ''broken''), w)), tc_recordException = \<lambda>_. None,
     tc_end = \<lambda>p w. (Inr (), w\<lparr>rc_ended := rc_ended w @ [p]\<rparr>)\<rparr>"

definition run_events :: "('p, 'w) tracer \<Rightarrow> plugin_options \<Rightarrow> op_event list \<Rightarrow> ('p, 'w) plugin \<Rightarrow> ('p, 'w) plugin" where
  "run_events tc opts es pl = fold (\<lambda>e pl. snd (plugin_listener tc opts e pl)) es pl"

fun started_ids :: "op_event list \<Rightarrow> nat list" where
  "started_ids [] = []"
| "started_ids (OpStart i _ _ # es) = i # started_ids es"
| "started_ids (OpEnd _ _ _ _ _ _ # es) = started_ids es"

definition books_ok :: "(nat, recording) plugin \<Rightarrow> bool" where
  \<comment> \<open>a span started is open or has been ended, once; not too many are open\<close>
  "books_ok pl \<longleftrightarrow> distinct (map fst (fst pl)) \<and> length (fst pl) \<le> MAX_SPANS \<and>
     mset (map snd (fst pl)) + mset (rc_ended (snd pl)) = mset [0..<rc_started (snd pl)]"

lemma delete_mset: "distinct (map fst ps) \<Longrightarrow> map_of ps i = Some p \<Longrightarrow> mset (map snd ps) = add_mset p (mset (map snd (AList.delete i ps)))"
proof (induction ps)
  case (Cons q ps)
  have "AList.delete i ps = ps" if "i = fst q" using Cons.prems(1) that by (intro AList.delete_id) auto
  then show ?case using Cons by (cases q) (auto split: if_splits)
qed simp

lemma delete_first: "distinct (map fst ((i, p) # ps)) \<Longrightarrow> AList.delete i ((i, p) # ps) = ps"
  by (simp add: AList.delete_id)

lemma evict_books:
  assumes "books_ok pl"
  obtains pl' where "evict_oldest (recording_tracer refuses) pl = (Inr (), pl')" "books_ok pl'" "length (fst pl') < MAX_SPANS"
    "set (map fst (fst pl')) \<subseteq> set (map fst (fst pl))"
proof (cases "length (fst pl) < MAX_SPANS")
  case True
  then show ?thesis using assms that by (simp add: evict_oldest_def)
next
  case False
  then obtain i p rest where spans: "fst pl = (i, p) # rest" by (cases "fst pl") (auto simp: MAX_SPANS_def)
  let ?pl = "(rest, (snd pl)\<lparr>rc_ended := rc_ended (snd pl) @ [p]\<rparr>)"
  have dist: "distinct (map fst ((i, p) # rest))" using assms spans by (simp add: books_ok_def)
  have "evict_oldest (recording_tracer refuses) pl = (Inr (), ?pl)"
    using False spans delete_first [OF dist] by (simp add: evict_oldest_def andthen_def on_tracer_def recording_tracer_def)
  moreover have "books_ok ?pl" using assms spans by (simp add: books_ok_def)
  moreover have "length rest < MAX_SPANS" using assms spans by (simp add: books_ok_def)
  ultimately show ?thesis using that [of ?pl] spans by auto
qed

lemma start_books:
  assumes "books_ok pl" "i \<notin> set (map fst (fst pl))"
  shows "books_ok (snd (onStart (recording_tracer refuses) opts i name attrs pl))"
    and "set (map fst (fst (snd (onStart (recording_tracer refuses) opts i name attrs pl)))) \<subseteq> insert i (set (map fst (fst pl)))"
proof -
  obtain pl' where pl': "evict_oldest (recording_tracer refuses) pl = (Inr (), pl')" "books_ok pl'" "length (fst pl') < MAX_SPANS"
    "set (map fst (fst pl')) \<subseteq> set (map fst (fst pl))"
    by (rule evict_books [OF assms(1)])
  then have absent: "i \<notin> fst ` set (fst pl')" using assms(2) by auto
  have "snd (onStart (recording_tracer refuses) opts i name attrs pl) =
      (if refuses name then pl' else (fst pl' @ [(i, rc_started (snd pl'))], (snd pl')\<lparr>rc_started := Suc (rc_started (snd pl'))\<rparr>))"
    using pl'(1) absent by (auto simp: onStart_def catching_def andthen_def on_tracer_def recording_tracer_def ret_def update_absent)
  then show "books_ok (snd (onStart (recording_tracer refuses) opts i name attrs pl))"
    "set (map fst (fst (snd (onStart (recording_tracer refuses) opts i name attrs pl)))) \<subseteq> insert i (set (map fst (fst pl)))"
    using pl'(2-4) assms(2) by (auto simp: books_ok_def atLeastLessThanSuc)
qed

lemma end_books:
  assumes "books_ok pl"
  shows "books_ok (snd (onEnd (recording_tracer refuses) i success res er pl))"
    and "set (map fst (fst (snd (onEnd (recording_tracer refuses) i success res er pl)))) \<subseteq> set (map fst (fst pl))"
proof -
  have "snd (onEnd (recording_tracer refuses) i success res er pl) =
      (case map_of (fst pl) i of None \<Rightarrow> pl | Some p \<Rightarrow> (AList.delete i (fst pl), (snd pl)\<lparr>rc_ended := rc_ended (snd pl) @ [p]\<rparr>))"
    by (simp add: onEnd_def andthen_def on_tracer_def recording_tracer_def describe_end_def catching_def ret_def split: option.split)
  moreover have "distinct (map fst (AList.delete i (fst pl)))" using assms distinct_delete by (auto simp: books_ok_def)
  moreover have "set (map fst (AList.delete i (fst pl))) \<subseteq> set (map fst (fst pl))" by (auto simp: AList.delete_eq)
  moreover have "length (AList.delete i (fst pl)) \<le> length (fst pl)" by (simp add: AList.delete_eq)
  ultimately have "books_ok (snd (onEnd (recording_tracer refuses) i success res er pl)) \<and>
      set (map fst (fst (snd (onEnd (recording_tracer refuses) i success res er pl)))) \<subseteq> set (map fst (fst pl))"
    using assms delete_mset [of "fst pl" i] by (cases "map_of (fst pl) i") (simp_all add: books_ok_def)
  then show "books_ok (snd (onEnd (recording_tracer refuses) i success res er pl))"
    "set (map fst (fst (snd (onEnd (recording_tracer refuses) i success res er pl)))) \<subseteq> set (map fst (fst pl))" by blast+
qed

lemma run_books:
  assumes "books_ok pl" "distinct (started_ids es)" "set (started_ids es) \<inter> set (map fst (fst pl)) = {}"
  shows "books_ok (run_events (recording_tracer refuses) opts es pl)"
  using assms
proof (induction es arbitrary: pl rule: started_ids.induct)
  case 1
  then show ?case by (simp add: run_events_def)
next
  case (2 i name attrs es)
  then have "i \<notin> set (map fst (fst pl))" by auto
  note step = start_books [OF 2(2) this, of refuses opts name attrs]
  have "books_ok (run_events (recording_tracer refuses) opts es (snd (onStart (recording_tracer refuses) opts i name attrs pl)))"
  proof (rule 2(1) [OF step(1)])
    show "distinct (started_ids es)" using 2(3) by simp
    have "set (started_ids es) \<inter> insert i (set (map fst (fst pl))) = {}" using 2(3,4) by auto
    then show "set (started_ids es) \<inter> set (map fst (fst (snd (onStart (recording_tracer refuses) opts i name attrs pl)))) = {}" using step(2) by blast
  qed
  then show ?case by (simp add: run_events_def plugin_listener_def)
next
  case (3 i name attrs success res er es)
  note step = end_books [OF 3(2), of refuses i success res er]
  have "books_ok (run_events (recording_tracer refuses) opts es (snd (onEnd (recording_tracer refuses) i success res er pl)))"
  proof (rule 3(1) [OF step(1)])
    show "distinct (started_ids es)" using 3(3) by simp
    have "set (started_ids es) \<inter> set (map fst (fst pl)) = {}" using 3(4) by simp
    then show "set (started_ids es) \<inter> set (map fst (fst (snd (onEnd (recording_tracer refuses) i success res er pl)))) = {}" using step(2) by blast
  qed
  then show ?case by (simp add: run_events_def plugin_listener_def)
qed

lemma uninstall_ends:
  "uninstall (recording_tracer refuses) pl = (Inr (), ([], (snd pl)\<lparr>rc_ended := rc_ended (snd pl) @ map snd (fst pl)\<rparr>))"
proof -
  have "each (\<lambda>(_, p). on_tracer (tc_end (recording_tracer refuses) p)) ps pl = (Inr (), (fst pl, (snd pl)\<lparr>rc_ended := rc_ended (snd pl) @ map snd ps\<rparr>))"
    for ps :: "(nat \<times> nat) list" and pl :: "(nat, recording) plugin"
    by (induction ps arbitrary: pl) (auto simp: on_tracer_def recording_tracer_def andthen_def)
  then show ?thesis by (simp add: uninstall_def andthen_def)
qed

text \<open>
  C39: no span leaks. However starts and ends of operations interleave, when ends are missing, more than \<open>MAX_SPANS\<close>
  spans are opened, or the tracer refuses spans and throws on attributes: once the plugin is uninstalled, every
  span that was started has been ended exactly once.
\<close>

theorem spans_ended_once:
  assumes "distinct (started_ids es)"
  shows "mset (rc_ended (snd (snd (uninstall (recording_tracer refuses) (run_events (recording_tracer refuses) opts es ([], \<lparr>rc_started = 0, rc_ended = []\<rparr>)))))) =
    mset [0..<rc_started (snd (run_events (recording_tracer refuses) opts es ([], \<lparr>rc_started = 0, rc_ended = []\<rparr>)))]"
proof -
  have "books_ok (run_events (recording_tracer refuses) opts es ([], \<lparr>rc_started = 0, rc_ended = []\<rparr>))"
    by (rule run_books) (use assms in \<open>simp_all add: books_ok_def\<close>)
  then show ?thesis by (simp add: uninstall_ends books_ok_def add.commute)
qed

subsection \<open>Keys in attributes\<close>

lemma raw_keys_hidden: "\<not> po_includeRawKeyAttributes opts \<Longrightarrow> sanitizeAttributes opts attrs = Some ps \<Longrightarrow> map_of ps RAW_KEY_ATTRIBUTE = None"
proof -
  have differ: "RAW_KEY_ATTRIBUTE \<noteq> KEY_HASH_ATTRIBUTE" by (simp add: RAW_KEY_ATTRIBUTE_def KEY_HASH_ATTRIBUTE_def)
  show "\<not> po_includeRawKeyAttributes opts \<Longrightarrow> sanitizeAttributes opts attrs = Some ps \<Longrightarrow> map_of ps RAW_KEY_ATTRIBUTE = None"
    using differ by (auto simp: sanitizeAttributes_def AList.update_conv' AList.delete_conv' split: option.splits)
qed

subsection \<open>Runs\<close>

definition demo_plugin_options :: plugin_options where
  "demo_plugin_options = \<lparr>po_includeRawKeyAttributes = False, po_sha256 = (\<lambda>_. ''ab''), po_text = (\<lambda>_. [])\<rparr>"

definition throwing_tracer :: "(nat, recording) tracer" where
  "throwing_tracer = (recording_tracer (\<lambda>_. False))\<lparr>tc_end := \<lambda>p w. (Inl (OtherError ''exporter down''), w)\<rparr>"

definition demo_observed :: "(int, (nat, recording) plugin) observed" where
  "demo_observed = \<lparr>ob_nextOperationId = 7, ob_cache = 1, ob_listeners = ([], \<lparr>rc_started = 0, rc_ended = []\<rparr>)\<rparr>"

lemma throwing_end_fails_operation:
  \<comment> \<open>a successful operation is rejected with the error of \<open>span.end\<close>, after its effect\<close>
  "map_prod id ob_cache (observeOperation (plugin_listener throwing_tracer demo_plugin_options) (\<lambda>_. None) ''layercache.set'' None
      (of_cache (\<lambda>n. (Inr (), n + 1))) demo_observed) = (Inl (OtherError ''exporter down''), 2)"
  by (simp add: observeOperation_def emit_op_def plugin_listener_def onStart_def onEnd_def evict_oldest_def MAX_SPANS_def of_cache_def throwing_tracer_def
      recording_tracer_def demo_observed_def demo_plugin_options_def sanitizeAttributes_def on_tracer_def describe_end_def andthen_def catching_def ret_def throw_error_def Let_def)

theorem observed_operation_unchanged_witness:
  "map_prod id ob_cache (observeOperation (plugin_listener (recording_tracer (\<lambda>_. False)) demo_plugin_options) (\<lambda>_. None) ''layercache.set'' None
      (of_cache (\<lambda>n. (Inr (), n + 1))) demo_observed) = (Inr (), 2)"
  by (subst observed_operation_unchanged) (simp_all add: ends_quietly_def recording_tracer_def demo_observed_def)

definition demo_events :: "op_event list" where
  \<comment> \<open>two interleaved operations, one of them refused, and one that never ends\<close>
  "demo_events = [OpStart 1 ''a'' None, OpStart 2 ''b'' None, OpEnd 1 ''a'' None True None None, OpStart 3 ''c'' None, OpEnd 2 ''b'' None True None None]"

theorem spans_ended_once_witness:
  "mset (rc_ended (snd (snd (uninstall (recording_tracer (\<lambda>n. n = ''b'')) (run_events (recording_tracer (\<lambda>n. n = ''b'')) demo_plugin_options demo_events ([], \<lparr>rc_started = 0, rc_ended = []\<rparr>)))))) =
     {#0, 1#}"
proof -
  have "rc_started (snd (run_events (recording_tracer (\<lambda>n. n = ''b'')) demo_plugin_options demo_events ([], \<lparr>rc_started = 0, rc_ended = []\<rparr>))) = 2"
    by (simp add: demo_events_def run_events_def plugin_listener_def onStart_def onEnd_def evict_oldest_def MAX_SPANS_def recording_tracer_def
        on_tracer_def describe_end_def andthen_def catching_def ret_def)
  then show ?thesis
    by (subst spans_ended_once) (simp_all add: demo_events_def numeral_2_eq_2 atLeastLessThanSuc)
qed

end
