(* ===== verification/Wrappers.thy ===== *)
theory Wrappers
  imports StackOps KeySerialization
begin

text \<open>
  Cached functions: \<open>CacheStack.wrap\<close>, the GraphQL resolver (\<open>src/src/integrations/graphql.ts\<close>), the tRPC middleware
  (\<open>src/src/integrations/trpc.ts\<close>) and the method decorator (\<open>src/src/decorators/createCachedMethodDecorator.ts\<close>).
  A function is given by the number of the fetcher that runs it on its arguments.

  Lemmas: a failed tRPC result is returned and never stored; the keys of two decorated instances differ.
\<close>

subsection \<open>Wrapped functions\<close>

record wrap_options =
  wo_keyResolver :: "(kv list \<Rightarrow> string) option"
  wo_cache :: write_options

definition wrapped_call :: "'l stack_config \<Rightarrow> texts \<Rightarrow> wrap_options \<Rightarrow> string \<Rightarrow> (kv list \<Rightarrow> nat) \<Rightarrow> kv list \<Rightarrow> ('l stack, js) action" where
  \<comment> \<open>what \<open>wrap\<close> returns, called\<close>
  "wrapped_call cf tx opts pre fetcher args =
    andthen (lift_result (wrap_key tx (wo_keyResolver opts) pre args)) (\<lambda>key. stack_get cf key (Some (fetcher args)) (Some (wo_cache opts)))"

definition cacheGraphqlResolver ::
    "'l stack_config \<Rightarrow> texts \<Rightarrow> wrap_options \<Rightarrow> string \<Rightarrow> (kv list \<Rightarrow> nat) \<Rightarrow> (kv list \<Rightarrow> ('l stack, js) action) result" where
  "cacheGraphqlResolver cf tx opts pre resolver =
    (case wo_keyResolver opts of
       None \<Rightarrow> Inl (OtherError ''cacheGraphqlResolver requires a keyResolver that includes every resolver argument and request-context attribute affecting output.'')
     | Some _ \<Rightarrow> Inr (wrapped_call cf tx opts pre resolver))"

subsection \<open>Procedures\<close>

record 'c trpc_context =
  tp_path :: "string option"
  tp_type :: "string option"
  tp_input :: "js option"    \<comment> \<open>\<open>None\<close>: no own property\<close>
  tp_getRawInput :: "js result option"
  tp_rawInput :: js
  tp_ctx :: 'c

record 'c trpc_options =
  to_keyResolver :: "(js \<Rightarrow> string option \<Rightarrow> string option \<Rightarrow> 'c \<Rightarrow> string) option"
  to_cache :: write_options

definition resolveTrpcInput :: "'c trpc_context \<Rightarrow> js result" where
  "resolveTrpcInput c =
    (case tp_input c of Some v \<Rightarrow> Inr v | None \<Rightarrow> (case tp_getRawInput c of Some r \<Rightarrow> r | None \<Rightarrow> Inr (tp_rawInput c)))"

definition isSuccessfulTrpcResult :: "js \<Rightarrow> bool" where
  "isSuccessfulTrpcResult v \<longleftrightarrow> is_object v \<and> js_prop v ''ok'' = JBool True"

definition trpc_cache_options :: "write_options \<Rightarrow> write_options" where
  "trpc_cache_options opts = opts\<lparr>o_shouldCache := Some (\<lambda>result.
     if \<not> isSuccessfulTrpcResult result then False
     else case o_shouldCache opts of None \<Rightarrow> True | Some callerShouldCache \<Rightarrow> callerShouldCache result)\<rparr>"

definition trpc_middleware ::
    "'l stack_config \<Rightarrow> 'c trpc_options \<Rightarrow> string \<Rightarrow> (js \<Rightarrow> string option \<Rightarrow> string option \<Rightarrow> 'c \<Rightarrow> string) \<Rightarrow> nat \<Rightarrow> ('l stack, js) action
      \<Rightarrow> (nat \<Rightarrow> 'l stack \<Rightarrow> js option) \<Rightarrow> 'c trpc_context \<Rightarrow> ('l stack, js) action" where
  \<comment> \<open>the fetcher is the number of the closure; \<open>fetchedResult\<close> is what the closure recorded when it ran\<close>
  "trpc_middleware cf opts pre keyResolver fetcher nextCall fetchedResult c =
    andthen (lift_result (resolveTrpcInput c)) (\<lambda>input.
    andthen (stack_get cf (pre @ CHR '':'' # keyResolver input (tp_path c) (tp_type c) (tp_ctx c)) (Some fetcher) (Some (trpc_cache_options (to_cache opts)))) (\<lambda>cached s.
      if cached \<noteq> JUndef then (Inr cached, s)
      else case fetchedResult fetcher s of
        Some r \<Rightarrow> (Inr r, s)
      | None \<Rightarrow> nextCall s))"

definition createTrpcCacheMiddleware ::
    "'l stack_config \<Rightarrow> 'c trpc_options \<Rightarrow> string \<Rightarrow> (nat \<Rightarrow> ('l stack, js) action \<Rightarrow> (nat \<Rightarrow> 'l stack \<Rightarrow> js option) \<Rightarrow> 'c trpc_context \<Rightarrow> ('l stack, js) action) result" where
  "createTrpcCacheMiddleware cf opts pre =
    (case to_keyResolver opts of
       None \<Rightarrow> Inl (OtherError ''createTrpcCacheMiddleware requires a keyResolver that includes every request attribute affecting procedure output, including authenticated context.'')
     | Some keyResolver \<Rightarrow> Inr (trpc_middleware cf opts pre keyResolver))"

lemma failed_result_not_stored:
  assumes "\<not> isSuccessfulTrpcResult fetched" "fetched \<noteq> JUndef" "fetched \<noteq> JNull"
  shows "store_fetched cf key fetched (trpc_cache_options opts) fence s = (Inr fetched, s)"
  using assms by (simp add: store_fetched_def trpc_cache_options_def)

lemma trpc_keeps_caller_choice:
  "isSuccessfulTrpcResult r \<Longrightarrow> the (o_shouldCache (trpc_cache_options opts)) r = (case o_shouldCache opts of None \<Rightarrow> True | Some f \<Rightarrow> f r)"
  by (simp add: trpc_cache_options_def)

subsection \<open>Decorated methods\<close>

definition createInstanceId :: "string option \<Rightarrow> nat list option \<Rightarrow> string result" where
  \<comment> \<open>given what \<open>crypto.randomUUID\<close> and \<open>crypto.getRandomValues\<close> yield, where they exist; the latter yields 16 bytes\<close>
  "createInstanceId randomUUID randomBytes =
    (case randomUUID of
       Some u \<Rightarrow> Inr u
     | None \<Rightarrow> (case randomBytes of
         Some bytes \<Rightarrow> Inr (''layercache-'' @ concat (map (\<lambda>b. [hex_digit (b div 16), hex_digit (b mod 16)]) bytes))
       | None \<Rightarrow> Inl (OtherError ''layercache requires a cryptographic random source'')))"

lemma instance_id_length: "createInstanceId None (Some bytes) = Inr i \<Longrightarrow> length bytes = 16 \<Longrightarrow> length i = 43"
  by (auto simp: createInstanceId_def length_concat comp_def sum_list_triv)

record decorated =
  \<comment> \<open>\<open>wrappedByInstance\<close> with the identifier of each instance, and how many were made\<close>
  dc_ids :: "(nat \<times> string) list"
  dc_made :: nat

definition instance_id :: "(nat \<Rightarrow> string) \<Rightarrow> nat \<Rightarrow> decorated \<Rightarrow> string \<times> decorated" where
  \<comment> \<open>the first argument numbers the random identifiers\<close>
  "instance_id ids inst d =
    (case map_of (dc_ids d) inst of
       Some i \<Rightarrow> (i, d)
     | None \<Rightarrow> (let i = ids (dc_made d) in (i, d\<lparr>dc_ids := dc_ids d @ [(inst, i)], dc_made := Suc (dc_made d)\<rparr>)))"

definition instance_prefix :: "string option \<Rightarrow> string \<Rightarrow> string \<Rightarrow> string" where
  "instance_prefix pre propertyKey instanceId = nullish pre propertyKey @ '':instance:'' @ instanceId"

definition cached_method ::
    "'l stack_config \<Rightarrow> texts \<Rightarrow> (nat \<Rightarrow> string) \<Rightarrow> wrap_options \<Rightarrow> string option \<Rightarrow> string \<Rightarrow> (nat \<Rightarrow> kv list \<Rightarrow> nat) \<Rightarrow> nat \<Rightarrow> kv list
      \<Rightarrow> decorated \<times> 'l stack \<Rightarrow> js result \<times> decorated \<times> 'l stack" where
  \<comment> \<open>the decorated method called on an instance; \<open>original\<close> gives the fetcher of instance and arguments\<close>
  "cached_method cf tx ids opts pre propertyKey original inst args ds =
    (case instance_id ids inst (fst ds) of
       (i, d) \<Rightarrow> (case wrapped_call cf tx opts (instance_prefix pre propertyKey i) (original inst) args (snd ds) of (r, s) \<Rightarrow> (r, d, s)))"

definition own_ids :: "(nat \<Rightarrow> string) \<Rightarrow> decorated \<Rightarrow> bool" where
  \<comment> \<open>every instance has an identifier of its own\<close>
  "own_ids ids d \<longleftrightarrow> distinct (map fst (dc_ids d)) \<and> map snd (dc_ids d) = map ids [0..<dc_made d]"

lemma instance_id_ok:
  assumes "own_ids ids d" "instance_id ids inst d = (i, d')"
  shows "own_ids ids d'" "map_of (dc_ids d') inst = Some i" "map_of (dc_ids d) other = Some j \<Longrightarrow> map_of (dc_ids d') other = Some j"
  using assms by (auto simp: own_ids_def instance_id_def Let_def map_of_eq_None_iff map_add_Some_iff split: option.splits)

lemma different_instances_different_ids:
  assumes "own_ids ids d" "inj ids" "map_of (dc_ids d) inst = Some i" "map_of (dc_ids d) other = Some j" "inst \<noteq> other"
  shows "i \<noteq> j"
proof
  assume "i = j"
  obtain a b where a: "a < length (dc_ids d)" "dc_ids d ! a = (inst, i)" and b: "b < length (dc_ids d)" "dc_ids d ! b = (other, j)"
    using assms(3,4) by (metis in_set_conv_nth map_of_SomeD)
  have len: "length (dc_ids d) = dc_made d" using assms(1) by (metis own_ids_def length_map diff_zero length_upt)
  have "map snd (dc_ids d) ! a = ids a" "map snd (dc_ids d) ! b = ids b" using assms(1) a(1) b(1) len by (simp_all add: own_ids_def)
  then have "ids a = ids b" using a b \<open>i = j\<close> by simp
  then have "a = b" using assms(2) by (simp add: inj_eq)
  then show False using a(2) b(2) assms(5) by simp
qed

lemma instances_apart:
  \<comment> \<open>whatever the arguments, with identifiers of one length\<close>
  assumes "length i = length j" "i \<noteq> j"
    and "wrap_key tx r (instance_prefix pre name i) args = Inr k" "wrap_key tx r (instance_prefix pre name j) args' = Inr k'"
  shows "k \<noteq> k'"
proof
  assume "k = k'"
  obtain u u' where "k = instance_prefix pre name i @ u" "k' = instance_prefix pre name j @ u'"
    using assms(3,4) by (auto simp: wrap_key_def bind_result_Inr split: if_splits)
  then show False using \<open>k = k'\<close> assms(1,2) by (simp add: instance_prefix_def)
qed

end
