(* ===== verification/RefreshTimeout.thy ===== *)
theory RefreshTimeout
  imports Reader
begin

text \<open>
  The time limit of background refreshes (\<open>withTimeout\<close> of \<open>src/src/CacheStack.ts\<close> and the end of
  \<open>scheduleBackgroundRefresh\<close> in \<open>src/src/internal/CacheStackReader.ts\<close>). A promise is given by when and how it settles,
  in milliseconds from now; \<open>None\<close> never does.

  Lemmas: with a positive limit the wait always ends; the limit only stops the wait, not the refresh.
\<close>

type_synonym 'a settling = "(real \<times> 'a result) option"

definition withTimeout :: "'a settling \<Rightarrow> real \<Rightarrow> error \<Rightarrow> 'a settling" where
  "withTimeout promise timeoutMs onTimeout =
    (if timeoutMs \<le> 0 then promise
     else case promise of
       Some (t, r) \<Rightarrow> if t < timeoutMs then Some (t, r) else Some (timeoutMs, Inl onTimeout)
     | None \<Rightarrow> Some (timeoutMs, Inl onTimeout))"

definition DEFAULT_BACKGROUND_REFRESH_TIMEOUT_MS :: real where
  "DEFAULT_BACKGROUND_REFRESH_TIMEOUT_MS = 30000"

definition watch_refresh :: "real option \<Rightarrow> bool \<Rightarrow> unit settling \<Rightarrow> 'l stack \<Rightarrow> 'l stack" where
  \<comment> \<open>the observer of a refresh that was started; the second argument tells whether all refreshes were aborted when it is called. The
      refresh catches its own errors, so only the time limit rejects.\<close>
  "watch_refresh limitMs aborted refresh s =
    (case withTimeout refresh (nullish limitMs DEFAULT_BACKGROUND_REFRESH_TIMEOUT_MS) (BackendError ''Background refresh timed out'') of
       Some (_, Inl _) \<Rightarrow> if aborted then s else count_metric MRefreshErrors 1 s
     | _ \<Rightarrow> s)"

lemma withTimeout_settles: "0 < timeoutMs \<Longrightarrow> \<exists>t r. withTimeout promise timeoutMs e = Some (t, r) \<and> t \<le> timeoutMs"
  by (cases promise) (auto simp: withTimeout_def)

lemma withTimeout_in_time: "t < timeoutMs \<Longrightarrow> withTimeout (Some (t, r)) timeoutMs e = Some (t, r)"
  by (simp add: withTimeout_def)

lemma watched_refresh_still_runs: "sk_refreshes (watch_refresh limitMs aborted refresh s) = sk_refreshes s"
  by (simp add: watch_refresh_def count_metric_def split: option.split sum.split)

text \<open>
  The limit does not make room for another refresh. A refresh that never settles is counted as an error when its time is
  up, but stays registered: from then on no refresh of its key is started.
\<close>

theorem hung_refresh_blocks_its_key:
  assumes "rf \<in> set (sk_refreshes s)" "rf_key rf = key"
  shows "scheduleBackgroundRefresh key fetcher opts ctx (watch_refresh limitMs aborted None s) = watch_refresh limitMs aborted None s"
proof -
  have "key \<in> rf_key ` set (sk_refreshes (watch_refresh limitMs aborted None s))"
    using assms by (auto simp: watched_refresh_still_runs)
  then show ?thesis by (simp add: scheduleBackgroundRefresh_def shouldStartBackgroundRefresh_def)
qed

end
