(* ===== verification/Spec2Isabelle.thy ===== *)
theory Spec2Isabelle
  imports RuntimePolicy WriteChains RateLimits NamespaceProps RedisContract DiskProps RedisTagQueries InvalidationBus SingleFlightProps GenerationStore
    MemcachedLayer DistributedFetch CommandLineProps HttpMiddleware SnapshotRoundTrip PrometheusExporter Telemetry Wrappers RefreshTimeout
begin

text \<open>
  A model of layercache (\<open>src/src\<close>), a multi-layer cache for Node.js, and the properties that make it
  correct.

  \<^bold>\<open>The program.\<close> A cache stack (\<open>CacheStack.ts\<close>) is a list of layers, the fastest first, under one
  tag index. A read (\<open>CacheStackReader.ts\<close>) asks the layers in order; the first that answers wins and the
  faster ones are filled from it (backfill). A read that finds nothing calls the fetcher, behind the
  stampede guard (one fetch per key at a time), the circuit breaker (no fetch after repeated failures)
  and the rate limiter, and stores the result through the layer writer. What a layer stores is an
  envelope with three deadlines (fresh, stale-while-revalidate, stale-if-error). Writes and
  invalidations are ordered by epochs: a write carries the epochs its caller saw, and one that an
  invalidation has overtaken must not reach a layer. A layer that fails may be degraded, skipped until
  its retry time. Namespaces (\<open>CacheNamespace.ts\<close>) prefix the keys and keep their own metrics.
  Payloads leave the process through serializers and, on disk or in Redis, through encryption or
  signatures. Layers live in memory, on disk, in Redis or in Memcached; several processes share the tag
  index, the generation, invalidation messages and a lock per fetched key through Redis. Around the stack
  stand snapshots in files, middleware for web frameworks, wrappers for functions and procedures, the export
  of metrics and traces, and a command line that works on the Redis keys directly.

  \<^bold>\<open>The theories.\<close> File names are relative to \<open>src/src\<close>; the definitions keep the source's names, with
  a prefix where a name clashes (\<open>ml_\<close> memory layer, \<open>br_\<close> breakers, \<open>tr_\<close> TTL resolver, \<open>sg_\<close> stampede
  guard, \<open>rl_\<close> rate limiter, \<open>mx_\<close> metrics, \<open>ns_\<close> namespaces, \<open>stack_\<close> the stack itself).

  \<^item> Prelude: JavaScript values and maps, errors as the left of a sum, the generic lemmas.
  \<^item> Types, Validation (\<open>types.ts\<close>, \<open>internal/CacheStackValidation.ts\<close>): options and their checks.
  \<^item> StoredValue, RuntimePolicy (\<open>internal/StoredValue.ts\<close>, \<open>internal/CacheStackRuntimePolicy.ts\<close>): the
    envelope, its recognition, its states and the storage TTL.
  \<^item> TtlResolver, CircuitBreaker, StampedeGuard, FetchRateLimiter, PatternMatcher, TagIndex, Metrics,
    Generation: one theory per file of the same name. RateLimits holds the proofs on the limiter.
  \<^item> Maintenance, WriteChains (\<open>internal/CacheStackMaintenance.ts\<close>): epochs and fences; the admission and
    chaining of writes.
  \<^item> MemoryLayer (\<open>layers/MemoryLayer.ts\<close>): the in-process layer with its eviction policies.
  \<^item> Stack, LayerWriter, Reader, StackOps, StackReads, StackAdmin: the record of a stack (layers as
    records of operations over a state, the tag index, the epochs, the degraded layers, the metrics,
    the emitted events, the log of queued and background work) and the operations of \<open>CacheStack.ts\<close>,
    \<open>internal/CacheStackLayerWriter.ts\<close>, \<open>internal/CacheStackReader.ts\<close>,
    \<open>internal/CacheStackInvalidationSupport.ts\<close>, \<open>internal/CacheKeyDiscovery.ts\<close> and
    \<open>internal/CacheStackSnapshotManager.ts\<close>. StackConfig builds a stack from its options.
  \<^item> LayerContract: the locale \<open>cache_layer\<close>, what the stack relies on in a layer (a read answers what was
    written or nothing, a delete removes, the clock only loses entries, a listing names every answered
    key), interpreted on the memory layer, and the weaker \<open>coarse_layer\<close>, where a clock in larger steps may end an entry
    somewhat before or after its TTL. HealthyStack, HealthyWrites, HealthyReads and HealthyScans
    prove, for any stack of layers that keep the contract, what deleting, writing, reading and scanning
    do to the answers of every layer.
  \<^item> RedisLayer, DiskLayer, MemcachedLayer (\<open>layers/\<close>): the other layers. The Redis and Memcached clients and the file
    operations are records of actions that may fail. RedisContract and DiskContract prove that on a server or disk that
    behaves as documented these layers keep \<open>cache_layer\<close>, so all that HealthyStack proves holds for them: for the disk
    under a clock that may stand still between writes and a file limit above the number of calls it sees in one tick.
    Memcached counts whole seconds and limits keys and items; its layer keeps \<open>coarse_layer\<close>.
    DiskProps: overlapping reads and writes, entries read back.
  \<^item> RedisTagIndex (\<open>invalidation/RedisTagIndex.ts\<close>): the shared tag index. RedisTagProps, RedisTagRuns and
    RedisTagQueries prove that it refines the abstract index of TagIndex (locale \<open>tag_directory\<close>) and that its scans end.
  \<^item> InvalidationBus (\<open>invalidation/RedisInvalidationBus.ts\<close>): messages, their signatures and what a receiver does.
  \<^item> SingleFlight, SingleFlightProps (\<open>singleflight/RedisSingleFlightCoordinator.ts\<close>): the lock per key as a step relation
    over the calls of any number of processes. DistributedFetch: the branch of the reader that uses it.
  \<^item> RefreshTimeout: the time limit of background refreshes.
  \<^item> GenerationStore (\<open>generation/RedisGenerationStore.ts\<close>).
  \<^item> Namespace, NamespaceProps (\<open>CacheNamespace.ts\<close>).
  \<^item> KeySerialization, KeyInjectivity (\<open>internal/CacheKeySerialization.ts\<close>): keys of wrapped calls.
  \<^item> Sanitizer, JsonText, Serializers, PayloadProtection (\<open>internal/StructuredDataSanitizer.ts\<close>,
    \<open>serialization/\<close>, \<open>internal/PayloadProtection.ts\<close>): the way of a value into bytes and back. JsonText has the
    grammar of JSON with any white space between tokens and proves that the parser reads every text of it.
  \<^item> SnapshotFile, SnapshotStore (\<open>internal/CacheSnapshotFile.ts\<close>, the file operations of
    \<open>internal/CacheStackSnapshotManager.ts\<close>): paths, limited reads, atomic writes, persisting and restoring, over a file
    system whose calls may fail. SnapshotProps and SnapshotRoundTrip hold the proofs.
  \<^item> HttpCacheKeys, HttpMiddleware (\<open>integrations/httpCacheKeys.ts\<close>, \<open>express.ts\<close>, \<open>hono.ts\<close>, \<open>fastify.ts\<close>,
    \<open>http/createCacheStatsHandler.ts\<close>): keys from URLs, the decision to cache, replies and captured responses, the
    statistics route.
  \<^item> Wrappers (\<open>integrations/graphql.ts\<close>, \<open>integrations/trpc.ts\<close>, \<open>decorators/createCachedMethodDecorator.ts\<close>,
    \<open>wrap\<close> of \<open>CacheStack.ts\<close>): cached functions, procedures and methods.
  \<^item> Telemetry (\<open>integrations/opentelemetry.ts\<close>, \<open>observeOperation\<close> of \<open>CacheStack.ts\<close>): operation events and the spans made of them.
  \<^item> PrometheusExporter (\<open>metrics/PrometheusExporter.ts\<close>): the text exposition. Its specification is a scraper of the text
    format (escapes, types, no duplicate series) and a table of the readings of a stack taken from the documented metric names.
  \<^item> CliArguments, CommandLine, CommandLineProps (\<open>cli.ts\<close>): arguments, commands, and what they may do to a server.

  \<^bold>\<open>The properties.\<close> StackProps, ScanProps and NamespaceProps state what a user of the stack sees: a
  value that was set is answered until it expires, deleted and invalidated keys are gone from every
  layer, an invalidation overtakes the fetch it races with, a hit fills the faster layers, a stale
  value outlives a failing fetcher, a limit is exceeded only with an error and no effect. The other
  properties stand in the theory of their component: the timeline of an envelope, bounds of every
  table, the two step systems of writes and rate limits (exclusion, order, window and concurrency
  bounds, progress), the guard's single flight, the glob loop against its specification, the tag index
  and the memory layer against the abstract relation they implement, the round trips of keys, JSON and
  protected payloads, the contract of every layer, the lock of the single flight, the file of a snapshot, the keys and decisions of
  the middleware, the spans and the exposition. A property about a server, file system or tracer has its
  documented behaviour as a hypothesis over the record of its actions (\<open>set_server\<close>, \<open>lock_server\<close>, \<open>cli_server\<close>, \<open>file_laws\<close> and
  so on), and its witness runs on a small server or file system made of lists or maps.

  \<^bold>\<open>How the code is read.\<close>

  \<^item> A handler is a function from the state to a result and a state; an exception is the left of the
    sum, so every throw, early return and catch is a branch. \<open>andthen\<close> sequences them.
  \<^item> The calls of the layers, fetchers, predicates and the clock and random draws are fields or arguments,
    so that a property holds for every layer, fetcher and clock; laws are premises of the property
    (\<open>healthy\<close>, \<open>cache_layer\<close>) and a witness shows them on the memory layer.
  \<^item> Interleaving: the write chains, the stampede guard and the rate limiter are step relations over
    every order of calls, timers and settling promises. Within one operation of the stack other
    operations run only where the code awaits the fetcher or a slot; there the model hands the state
    to an arbitrary interference. The timer of the stampede guard is looked at when they return: a fetch that outlasts it is
    detached from its key, fenced off and reported as timed out. The calls of the layers inside one operation are not interleaved with
    those of another, which the admission of \<open>WriteChains\<close> justifies for writes that share a key.
  \<^item> Loops recurse on their data or a measure. JSON text is parsed with fuel twice its length plus one,
    which is proved to be enough. A batch size of zero, which makes a loop of the code run forever, is the
    value \<open>None\<close> or the predicate \<open>diverges\<close>.
  \<^item> Numbers are exact reals with the special values kept apart; a string is a list of 8-bit characters, so
    text outside Latin-1 is not represented, and a JSON escape beyond it is refused by the parser.
  \<^item> The local time zone is an argument, a conversion between instants and local time with whatever clock changes it has
    (\<open>local_time\<close>).
  \<^item> Maps are association lists in insertion order, as the JavaScript maps whose order the code uses.

  \<^bold>\<open>Not modelled.\<close> The debug logger and the warnings on the console; the
  registration of middleware and plugins with their frameworks; the entry points \<open>index.ts\<close> and \<open>edge.ts\<close>, which re-export; the
  documentation site with its playground, the benchmarks and the examples. Interfaces that only document types have no definition.
  Third-party code is an argument of the model: the clients of Redis and Memcached, the file system, zlib, the hash, cipher and key
  derivation of \<open>node:crypto\<close>, the MessagePack codec, the URL parser, the tracer, and the text of numbers that are not whole.
\<close>

end
